(* ===== verification/Brcm_Prelude.thy ===== *)
theory Brcm_Prelude
  imports Main "HOL-Library.Word"
begin

unbundle bit_operations_syntax

section \<open>Shared types, error values, byte order and bit fields\<close>

text \<open>
  What every component of the development shares:
  \<^item> names for the machine integers of the driver (\<open>u8\<close>, \<open>u16\<close>, \<open>u32\<close>);
  \<^item> the error values of the kernel (\<open>errno\<close>), which the driver returns as negative
    integers and which the models return as \<open>Inl\<close> of a sum;
  \<^item> the little-endian and big-endian byte images of integers (\<open>cpu_to_le16\<close>,
    \<open>cpu_to_le32\<close> and their inverses), on lists of bytes;
  \<^item> the bit-field helpers of \<open>brcmu_utils.h\<close> (\<open>brcmu_maskset16/32\<close>,
    \<open>brcmu_maskget16/32\<close>) with their set/get laws;
  \<^item> lemmas on lists updated at an index, on the first index that satisfies a predicate
    and on unsigned words, collected where several components use them.
\<close>

type_synonym u8 = "8 word"
type_synonym u16 = "16 word"
type_synonym u32 = "32 word"

text \<open>The error numbers the modelled functions return.\<close>

datatype errno =
    EPERM | ENOENT | ESRCH | EIO | ENOMEM | EINVAL | ENFILE | ENOSPC | ERANGE
  | EBADE | ENODATA | ENAVAIL | EBADF | EPROTO | ENXIO | ENOSR | ENOMEDIUM | ETIMEDOUT

text \<open>
  Collections: \<open>mask_laws\<close> gathers the laws of the bit-field helpers, \<open>upd_sums\<close> the
  laws for sums over an updated list, \<open>unat_laws\<close> the steps of counters kept as words.
\<close>

named_theorems mask_laws
named_theorems upd_sums
named_theorems unat_laws

subsection \<open>Byte images of integers\<close>

definition le16_bytes :: "u16 \<Rightarrow> u8 list" where
  "le16_bytes w = [ucast w, ucast (drop_bit 8 w)]"

definition le32_bytes :: "u32 \<Rightarrow> u8 list" where
  "le32_bytes w = [ucast w, ucast (drop_bit 8 w), ucast (drop_bit 16 w), ucast (drop_bit 24 w)]"

definition le16_of :: "u8 \<Rightarrow> u8 \<Rightarrow> u16" where
  "le16_of a b = ucast a OR push_bit 8 (ucast b)"

definition le32_of :: "u8 \<Rightarrow> u8 \<Rightarrow> u8 \<Rightarrow> u8 \<Rightarrow> u32" where
  "le32_of a b c d =
     ucast a OR push_bit 8 (ucast b) OR push_bit 16 (ucast c) OR push_bit 24 (ucast d)"

definition be16_of :: "u8 \<Rightarrow> u8 \<Rightarrow> u16" where
  "be16_of a b = le16_of b a"

definition be32_of :: "u8 \<Rightarrow> u8 \<Rightarrow> u8 \<Rightarrow> u8 \<Rightarrow> u32" where
  "be32_of a b c d = le32_of d c b a"

lemma length_le16_bytes [simp]: "length (le16_bytes w) = 2"
  by (simp add: le16_bytes_def)

lemma length_le32_bytes [simp]: "length (le32_bytes w) = 4"
  by (simp add: le32_bytes_def)

lemma le16_of_bytes [simp]: "le16_of (ucast w) (ucast (drop_bit 8 w)) = w"
  by (rule bit_word_eqI) (auto simp: le16_of_def bit_simps)

lemma le32_of_bytes [simp]:
  "le32_of (ucast w) (ucast (drop_bit 8 w)) (ucast (drop_bit 16 w)) (ucast (drop_bit 24 w)) = w"
proof (rule bit_word_eqI)
  fix n
  assume n: "n < LENGTH(32)"
  then consider "n < 8" | "8 \<le> n" "n < 16" | "16 \<le> n" "n < 24" | "24 \<le> n" "n < 32"
    by fastforce
  then show "bit (le32_of (ucast w) (ucast (drop_bit 8 w)) (ucast (drop_bit 16 w))
      (ucast (drop_bit 24 w))) n = bit w n"
    by cases (auto simp: le32_of_def bit_simps)
qed

lemma bit_u8_beyond: "\<not> bit (a :: u8) (8 + n)"
  using bit_imp_le_length [of a "8 + n"] by auto

lemma le16_bytes_of [simp]: "le16_bytes (le16_of a b) = [a, b]"
proof -
  have "ucast (le16_of a b) = a"
    by (rule bit_word_eqI) (auto simp: le16_of_def bit_simps)
  moreover have "ucast (drop_bit 8 (le16_of a b)) = b"
    by (rule bit_word_eqI) (auto simp: le16_of_def bit_simps bit_u8_beyond)
  ultimately show ?thesis by (simp add: le16_bytes_def)
qed

subsection \<open>Bit fields: brcmu_maskset and brcmu_maskget\<close>

definition brcmu_maskset32 :: "u32 \<Rightarrow> u32 \<Rightarrow> nat \<Rightarrow> u32 \<Rightarrow> u32" where
  "brcmu_maskset32 var msk shift value =
     (let value = push_bit shift value AND msk in (var AND NOT msk) OR value)"

definition brcmu_maskget32 :: "u32 \<Rightarrow> u32 \<Rightarrow> nat \<Rightarrow> u32" where
  "brcmu_maskget32 var msk shift = drop_bit shift (var AND msk)"

definition brcmu_maskset16 :: "u16 \<Rightarrow> u16 \<Rightarrow> nat \<Rightarrow> u16 \<Rightarrow> u16" where
  "brcmu_maskset16 var msk shift value =
     (let value = push_bit shift value AND msk in (var AND NOT msk) OR value)"

definition brcmu_maskget16 :: "u16 \<Rightarrow> u16 \<Rightarrow> nat \<Rightarrow> u16" where
  "brcmu_maskget16 var msk shift = drop_bit shift (var AND msk)"

text \<open>
  The laws are proved once for words of any width. Reading the field just written gives the
  value cut to the width of the field; writing a field leaves every field with a disjoint
  mask as it was.
\<close>

lemma field_get_set:
  fixes v m x :: "'a::len word"
  shows "drop_bit s (((v AND NOT m) OR (push_bit s x AND m)) AND m) = x AND drop_bit s m"
  by (rule bit_word_eqI) (auto simp: bit_simps dest: bit_imp_le_length)

lemma field_get_set_disjoint:
  fixes v m m' x :: "'a::len word"
  assumes "m AND m' = 0"
  shows "((v AND NOT m) OR (push_bit s x AND m)) AND m' = v AND m'"
proof (rule bit_word_eqI)
  fix n
  assume "n < LENGTH('a)"
  have "\<not> (bit m n \<and> bit m' n)"
    using assms by (metis bit_0_eq bit_and_iff bot_apply bot_bool_def)
  then show "bit (((v AND NOT m) OR (push_bit s x AND m)) AND m') n = bit (v AND m') n"
    using \<open>n < LENGTH('a)\<close> by (auto simp: bit_simps)
qed

lemma maskget16_set [mask_laws]:
  "brcmu_maskget16 (brcmu_maskset16 v m s x) m s = x AND drop_bit s m"
  unfolding brcmu_maskget16_def brcmu_maskset16_def Let_def by (rule field_get_set)

lemma maskget32_set [mask_laws]:
  "brcmu_maskget32 (brcmu_maskset32 v m s x) m s = x AND drop_bit s m"
  unfolding brcmu_maskget32_def brcmu_maskset32_def Let_def by (rule field_get_set)

lemma maskset16_other:
  "m AND m' = 0 \<Longrightarrow> brcmu_maskset16 v m s x AND m' = v AND m'"
  by (simp add: brcmu_maskset16_def field_get_set_disjoint Let_def)

lemma maskset32_other:
  "m AND m' = 0 \<Longrightarrow> brcmu_maskset32 v m s x AND m' = v AND m'"
  by (simp add: brcmu_maskset32_def field_get_set_disjoint Let_def)

lemma maskset16_same: "brcmu_maskset16 v m s x AND m = push_bit s x AND m"
  unfolding brcmu_maskset16_def Let_def
  by (rule bit_word_eqI) (auto simp: bit_simps)

lemma maskset32_same: "brcmu_maskset32 v m s x AND m = push_bit s x AND m"
  unfolding brcmu_maskset32_def Let_def
  by (rule bit_word_eqI) (auto simp: bit_simps)

lemma maskget16_set_other [mask_laws]:
  "m AND m' = 0 \<Longrightarrow> brcmu_maskget16 (brcmu_maskset16 v m s x) m' s' = brcmu_maskget16 v m' s'"
  by (simp add: brcmu_maskget16_def maskset16_other)

lemma maskget32_set_other [mask_laws]:
  "m AND m' = 0 \<Longrightarrow> brcmu_maskget32 (brcmu_maskset32 v m s x) m' s' = brcmu_maskget32 v m' s'"
  by (simp add: brcmu_maskget32_def maskset32_other)

subsection \<open>Lists updated at an index\<close>

lemma sum_list_upd_split [upd_sums]:
  fixes f :: "'a \<Rightarrow> nat"
  assumes "i < length xs"
  shows "sum_list (map f (xs[i := x])) + f (xs ! i) = sum_list (map f xs) + f x"
  using assms
proof (induction xs arbitrary: i)
  case Nil
  then show ?case by simp
next
  case (Cons y ys)
  show ?case
  proof (cases i)
    case 0
    then show ?thesis by simp
  next
    case (Suc j)
    with Cons.prems have "j < length ys" by simp
    from Cons.IH [OF this] Suc show ?thesis by simp
  qed
qed

lemma sum_list_nth_le:
  fixes f :: "'a \<Rightarrow> nat"
  assumes "i < length xs"
  shows "f (xs ! i) \<le> sum_list (map f xs)"
  using assms elem_le_sum_list [of i "map f xs"] by simp

lemma sum_list_zero_nth:
  fixes f :: "'a \<Rightarrow> nat"
  shows "sum_list (map f xs) = 0 \<Longrightarrow> i < length xs \<Longrightarrow> f (xs ! i) = 0"
  using sum_list_nth_le [of i xs f] by simp

subsection \<open>The first index that satisfies a predicate\<close>

text \<open>
  A bounded search loop \<open>for (i = 0; i < n; i++) if (P(i)) break;\<close>: the first hit, or
  \<open>None\<close> where the loop runs to its end.
\<close>

definition first_index :: "(nat \<Rightarrow> bool) \<Rightarrow> nat \<Rightarrow> nat option" where
  "first_index P n = find P [0..<n]"

lemma first_index_SomeD:
  assumes "first_index P n = Some i"
  shows "i < n" and "P i" and "j < i \<Longrightarrow> \<not> P j"
proof -
  from assms obtain k where k: "k < n" "P k" "i = k" "\<forall>j<k. \<not> P j"
    unfolding first_index_def find_Some_iff by auto
  then show "i < n" "P i" "j < i \<Longrightarrow> \<not> P j" by auto
qed

lemma first_index_None: "first_index P n = None \<longleftrightarrow> (\<forall>i<n. \<not> P i)"
  by (auto simp: first_index_def find_None_iff)

subsection \<open>Unsigned words\<close>

lemma unat_u16_lt [simp]: "unat (w :: u16) < 65536"
  using unsigned_less [of w] by simp

lemma unat_u32_lt: "unat (w :: u32) < 4294967296"
  using unsigned_less [of w] by simp

lemma unat_u8_lt [simp]: "unat (w :: u8) < 256"
  using unsigned_less [of w] by simp

lemma unat_eqD: "unat (v :: 'a::len word) = unat w \<Longrightarrow> v = w"
  by (simp add: word_unat_eq_iff)

lemma unat_succ_lt [unat_laws]:
  fixes w v :: "'a::len word"
  assumes "w < v"
  shows "unat (w + 1) = unat w + 1"
proof -
  have "unat w + 1 \<le> unat v"
    using assms by (simp add: word_less_nat_alt)
  also have "\<dots> < 2 ^ LENGTH('a)"
    by (rule unsigned_less)
  finally show ?thesis
    by (simp add: unat_word_ariths)
qed

lemma unat_pred_pos [unat_laws]:
  fixes w :: "'a::len word"
  assumes "w \<noteq> 0"
  shows "unat (w - 1) = unat w - 1"
  using assms by (rule unat_minus_one)

lemma unat_of_nat_le:
  fixes w :: "'a::len word"
  assumes "k \<le> unat w"
  shows "unat (of_nat k :: 'a word) = k"
proof -
  have "k < 2 ^ LENGTH('a)"
    using assms unsigned_less [of w] by (rule le_less_trans)
  then show ?thesis by (simp add: unsigned_of_nat take_bit_nat_eq_self)
qed

lemma unat_of_nat_u16: "n < 65536 \<Longrightarrow> unat (of_nat n :: u16) = n"
  by (simp add: unsigned_of_nat take_bit_nat_eq_self)

end
