(* ===== verification/Chanspec.thy ===== *)
theory Chanspec
  imports Brcm_Prelude
begin

unbundle bit_operations_syntax

section \<open>Channel specifications (brcmutil/d11.c, brcmu_d11.h)\<close>

text \<open>
  The firmware names a channel by a 16-bit chanspec: channel number, control sideband,
  bandwidth and band, in one of two layouts (802.11n and 802.11ac io types). This theory
  models the encoders and decoders of both layouts on \<open>struct brcmu_chan\<close> and shows that
  decoding an encoded channel gives the channel back, that re-encoding a decoded chanspec
  gives the chanspec back, and where the control channel lies.
\<close>

subsection \<open>Data\<close>

datatype brcmu_chan_bw =
    BRCMU_CHAN_BW_20 | BRCMU_CHAN_BW_40 | BRCMU_CHAN_BW_80 | BRCMU_CHAN_BW_80P80
  | BRCMU_CHAN_BW_160

datatype brcmu_chan_sb =
    BRCMU_CHAN_SB_NONE
  | BRCMU_CHAN_SB_LLL | BRCMU_CHAN_SB_LLU | BRCMU_CHAN_SB_LUL | BRCMU_CHAN_SB_LUU
  | BRCMU_CHAN_SB_ULL | BRCMU_CHAN_SB_ULU | BRCMU_CHAN_SB_UUL | BRCMU_CHAN_SB_UUU

abbreviation BRCMU_CHAN_SB_L :: brcmu_chan_sb where "BRCMU_CHAN_SB_L \<equiv> BRCMU_CHAN_SB_LLL"
abbreviation BRCMU_CHAN_SB_U :: brcmu_chan_sb where "BRCMU_CHAN_SB_U \<equiv> BRCMU_CHAN_SB_LLU"
abbreviation BRCMU_CHAN_SB_LL :: brcmu_chan_sb where "BRCMU_CHAN_SB_LL \<equiv> BRCMU_CHAN_SB_LLL"
abbreviation BRCMU_CHAN_SB_LU :: brcmu_chan_sb where "BRCMU_CHAN_SB_LU \<equiv> BRCMU_CHAN_SB_LLU"
abbreviation BRCMU_CHAN_SB_UL :: brcmu_chan_sb where "BRCMU_CHAN_SB_UL \<equiv> BRCMU_CHAN_SB_LUL"
abbreviation BRCMU_CHAN_SB_UU :: brcmu_chan_sb where "BRCMU_CHAN_SB_UU \<equiv> BRCMU_CHAN_SB_LUU"

text \<open>The value of the enumeration as the 16-bit argument of \<open>brcmu_maskset16\<close>, and back.\<close>

fun sb_u16 :: "brcmu_chan_sb \<Rightarrow> u16" where
  "sb_u16 BRCMU_CHAN_SB_NONE = - 1"
| "sb_u16 BRCMU_CHAN_SB_LLL = 0"
| "sb_u16 BRCMU_CHAN_SB_LLU = 1"
| "sb_u16 BRCMU_CHAN_SB_LUL = 2"
| "sb_u16 BRCMU_CHAN_SB_LUU = 3"
| "sb_u16 BRCMU_CHAN_SB_ULL = 4"
| "sb_u16 BRCMU_CHAN_SB_ULU = 5"
| "sb_u16 BRCMU_CHAN_SB_UUL = 6"
| "sb_u16 BRCMU_CHAN_SB_UUU = 7"

definition sb_of_u16 :: "u16 \<Rightarrow> brcmu_chan_sb" where
  "sb_of_u16 v =
     (if v = 0 then BRCMU_CHAN_SB_LLL else if v = 1 then BRCMU_CHAN_SB_LLU
      else if v = 2 then BRCMU_CHAN_SB_LUL else if v = 3 then BRCMU_CHAN_SB_LUU
      else if v = 4 then BRCMU_CHAN_SB_ULL else if v = 5 then BRCMU_CHAN_SB_ULU
      else if v = 6 then BRCMU_CHAN_SB_UUL else if v = 7 then BRCMU_CHAN_SB_UUU
      else BRCMU_CHAN_SB_NONE)"

record brcmu_chan =
  chspec :: u16
  chnum :: u8
  control_ch_num :: u8
  band :: u8
  bw :: brcmu_chan_bw
  sb :: brcmu_chan_sb

abbreviation BRCMU_CHSPEC_CH_MASK :: u16 where "BRCMU_CHSPEC_CH_MASK \<equiv> 0x00ff"
abbreviation BRCMU_CHSPEC_D11N_SB_MASK :: u16 where "BRCMU_CHSPEC_D11N_SB_MASK \<equiv> 0x0300"
abbreviation BRCMU_CHSPEC_D11N_SB_L :: u16 where "BRCMU_CHSPEC_D11N_SB_L \<equiv> 0x0100"
abbreviation BRCMU_CHSPEC_D11N_SB_U :: u16 where "BRCMU_CHSPEC_D11N_SB_U \<equiv> 0x0200"
abbreviation BRCMU_CHSPEC_D11N_SB_N :: u16 where "BRCMU_CHSPEC_D11N_SB_N \<equiv> 0x0300"
abbreviation BRCMU_CHSPEC_D11N_BW_MASK :: u16 where "BRCMU_CHSPEC_D11N_BW_MASK \<equiv> 0x0c00"
abbreviation BRCMU_CHSPEC_D11N_BW_20 :: u16 where "BRCMU_CHSPEC_D11N_BW_20 \<equiv> 0x0800"
abbreviation BRCMU_CHSPEC_D11N_BW_40 :: u16 where "BRCMU_CHSPEC_D11N_BW_40 \<equiv> 0x0c00"
abbreviation BRCMU_CHSPEC_D11N_BND_MASK :: u16 where "BRCMU_CHSPEC_D11N_BND_MASK \<equiv> 0x3000"
abbreviation BRCMU_CHSPEC_D11N_BND_5G :: u16 where "BRCMU_CHSPEC_D11N_BND_5G \<equiv> 0x1000"
abbreviation BRCMU_CHSPEC_D11N_BND_2G :: u16 where "BRCMU_CHSPEC_D11N_BND_2G \<equiv> 0x2000"
abbreviation BRCMU_CHSPEC_D11AC_SB_MASK :: u16 where "BRCMU_CHSPEC_D11AC_SB_MASK \<equiv> 0x0700"
abbreviation BRCMU_CHSPEC_D11AC_SB_L :: u16 where "BRCMU_CHSPEC_D11AC_SB_L \<equiv> 0x0000"
abbreviation BRCMU_CHSPEC_D11AC_SB_U :: u16 where "BRCMU_CHSPEC_D11AC_SB_U \<equiv> 0x0100"
abbreviation BRCMU_CHSPEC_D11AC_BW_MASK :: u16 where "BRCMU_CHSPEC_D11AC_BW_MASK \<equiv> 0x3800"
abbreviation BRCMU_CHSPEC_D11AC_BW_20 :: u16 where "BRCMU_CHSPEC_D11AC_BW_20 \<equiv> 0x1000"
abbreviation BRCMU_CHSPEC_D11AC_BW_40 :: u16 where "BRCMU_CHSPEC_D11AC_BW_40 \<equiv> 0x1800"
abbreviation BRCMU_CHSPEC_D11AC_BW_80 :: u16 where "BRCMU_CHSPEC_D11AC_BW_80 \<equiv> 0x2000"
abbreviation BRCMU_CHSPEC_D11AC_BW_160 :: u16 where "BRCMU_CHSPEC_D11AC_BW_160 \<equiv> 0x2800"
abbreviation BRCMU_CHSPEC_D11AC_BND_MASK :: u16 where "BRCMU_CHSPEC_D11AC_BND_MASK \<equiv> 0xc000"
abbreviation BRCMU_CHSPEC_D11AC_BND_2G :: u16 where "BRCMU_CHSPEC_D11AC_BND_2G \<equiv> 0x0000"
abbreviation BRCMU_CHSPEC_D11AC_BND_6G :: u16 where "BRCMU_CHSPEC_D11AC_BND_6G \<equiv> 0x8000"
abbreviation BRCMU_CHSPEC_D11AC_BND_5G :: u16 where "BRCMU_CHSPEC_D11AC_BND_5G \<equiv> 0xc000"
abbreviation BRCMU_CHAN_BAND_2G :: u8 where "BRCMU_CHAN_BAND_2G \<equiv> 1"
abbreviation BRCMU_CHAN_BAND_5G :: u8 where "BRCMU_CHAN_BAND_5G \<equiv> 2"
abbreviation BRCMU_CHAN_BAND_6G :: u8 where "BRCMU_CHAN_BAND_6G \<equiv> 3"
abbreviation CH_MAX_2G_CHANNEL :: u8 where "CH_MAX_2G_CHANNEL \<equiv> 14"
abbreviation CH_10MHZ_APART :: u8 where "CH_10MHZ_APART \<equiv> 2"
abbreviation CH_30MHZ_APART :: u8 where "CH_30MHZ_APART \<equiv> 6"
abbreviation CH_50MHZ_APART :: u8 where "CH_50MHZ_APART \<equiv> 10"
abbreviation CH_70MHZ_APART :: u8 where "CH_70MHZ_APART \<equiv> 14"

subsection \<open>The 802.11n layout\<close>

text \<open>A value outside the switch is warned about and gives 0.\<close>

definition d11n_sb :: "brcmu_chan_sb \<Rightarrow> u16" where
  "d11n_sb s =
     (case s of BRCMU_CHAN_SB_NONE \<Rightarrow> BRCMU_CHSPEC_D11N_SB_N
      | BRCMU_CHAN_SB_LLL \<Rightarrow> BRCMU_CHSPEC_D11N_SB_L
      | BRCMU_CHAN_SB_LLU \<Rightarrow> BRCMU_CHSPEC_D11N_SB_U
      | _ \<Rightarrow> 0)"

definition d11n_bw :: "brcmu_chan_bw \<Rightarrow> u16" where
  "d11n_bw b =
     (case b of BRCMU_CHAN_BW_20 \<Rightarrow> BRCMU_CHSPEC_D11N_BW_20
      | BRCMU_CHAN_BW_40 \<Rightarrow> BRCMU_CHSPEC_D11N_BW_40
      | _ \<Rightarrow> 0)"

definition brcmu_d11n_encchspec :: "brcmu_chan \<Rightarrow> brcmu_chan" where
  "brcmu_d11n_encchspec ch =
     (let ch = (if bw ch = BRCMU_CHAN_BW_20 then ch\<lparr>sb := BRCMU_CHAN_SB_NONE\<rparr> else ch);
          v = brcmu_maskset16 0 BRCMU_CHSPEC_CH_MASK 0 (ucast (chnum ch));
          v = brcmu_maskset16 v BRCMU_CHSPEC_D11N_SB_MASK 0 (d11n_sb (sb ch));
          v = brcmu_maskset16 v BRCMU_CHSPEC_D11N_BW_MASK 0 (d11n_bw (bw ch));
          v = (if chnum ch \<le> CH_MAX_2G_CHANNEL then v OR BRCMU_CHSPEC_D11N_BND_2G
               else v OR BRCMU_CHSPEC_D11N_BND_5G)
      in ch\<lparr>chspec := v\<rparr>)"

definition brcmu_d11n_decchspec :: "brcmu_chan \<Rightarrow> brcmu_chan" where
  "brcmu_d11n_decchspec ch =
     (let ch = ch\<lparr>chnum := ucast (chspec ch AND BRCMU_CHSPEC_CH_MASK)\<rparr>;
          ch = ch\<lparr>control_ch_num := chnum ch\<rparr>;
          w = chspec ch AND BRCMU_CHSPEC_D11N_BW_MASK;
          ch = (if w = BRCMU_CHSPEC_D11N_BW_20
                then ch\<lparr>bw := BRCMU_CHAN_BW_20, sb := BRCMU_CHAN_SB_NONE\<rparr>
                else if w = BRCMU_CHSPEC_D11N_BW_40
                then (let ch = ch\<lparr>bw := BRCMU_CHAN_BW_40\<rparr>;
                          val = chspec ch AND BRCMU_CHSPEC_D11N_SB_MASK
                      in if val = BRCMU_CHSPEC_D11N_SB_L
                         then ch\<lparr>sb := BRCMU_CHAN_SB_L,
                                 control_ch_num := control_ch_num ch - CH_10MHZ_APART\<rparr>
                         else ch\<lparr>sb := BRCMU_CHAN_SB_U,
                                 control_ch_num := control_ch_num ch + CH_10MHZ_APART\<rparr>)
                else ch);
          b = chspec ch AND BRCMU_CHSPEC_D11N_BND_MASK
      in if b = BRCMU_CHSPEC_D11N_BND_5G then ch\<lparr>band := BRCMU_CHAN_BAND_5G\<rparr>
         else if b = BRCMU_CHSPEC_D11N_BND_2G then ch\<lparr>band := BRCMU_CHAN_BAND_2G\<rparr>
         else ch)"

subsection \<open>The 802.11ac layout\<close>

definition d11ac_bw :: "brcmu_chan_bw \<Rightarrow> u16" where
  "d11ac_bw b =
     (case b of BRCMU_CHAN_BW_20 \<Rightarrow> BRCMU_CHSPEC_D11AC_BW_20
      | BRCMU_CHAN_BW_40 \<Rightarrow> BRCMU_CHSPEC_D11AC_BW_40
      | BRCMU_CHAN_BW_80 \<Rightarrow> BRCMU_CHSPEC_D11AC_BW_80
      | BRCMU_CHAN_BW_160 \<Rightarrow> BRCMU_CHSPEC_D11AC_BW_160
      | _ \<Rightarrow> 0)"

definition brcmu_d11ac_encchspec :: "brcmu_chan \<Rightarrow> brcmu_chan" where
  "brcmu_d11ac_encchspec ch =
     (let ch = (if bw ch = BRCMU_CHAN_BW_20 \<or> sb ch = BRCMU_CHAN_SB_NONE
                then ch\<lparr>sb := BRCMU_CHAN_SB_L\<rparr> else ch);
          v = brcmu_maskset16 (chspec ch) BRCMU_CHSPEC_CH_MASK 0 (ucast (chnum ch));
          v = brcmu_maskset16 v BRCMU_CHSPEC_D11AC_SB_MASK 8 (sb_u16 (sb ch));
          v = brcmu_maskset16 v BRCMU_CHSPEC_D11AC_BW_MASK 0 (d11ac_bw (bw ch));
          v = v AND NOT BRCMU_CHSPEC_D11AC_BND_MASK;
          v = (if band ch = BRCMU_CHAN_BAND_6G then v OR BRCMU_CHSPEC_D11AC_BND_6G
               else if band ch = BRCMU_CHAN_BAND_5G then v OR BRCMU_CHSPEC_D11AC_BND_5G
               else if band ch = BRCMU_CHAN_BAND_2G then v OR BRCMU_CHSPEC_D11AC_BND_2G
               else v)
      in ch\<lparr>chspec := v\<rparr>)"

text \<open>The control channel for a sideband of an 80 MHz and of a 160 MHz channel.\<close>

definition d11ac_ctl_80 :: "brcmu_chan_sb \<Rightarrow> u8 \<Rightarrow> u8" where
  "d11ac_ctl_80 s c =
     (case s of BRCMU_CHAN_SB_LLL \<Rightarrow> c - CH_30MHZ_APART | BRCMU_CHAN_SB_LLU \<Rightarrow> c - CH_10MHZ_APART
      | BRCMU_CHAN_SB_LUL \<Rightarrow> c + CH_10MHZ_APART | BRCMU_CHAN_SB_LUU \<Rightarrow> c + CH_30MHZ_APART
      | _ \<Rightarrow> c)"

definition d11ac_ctl_160 :: "brcmu_chan_sb \<Rightarrow> u8 \<Rightarrow> u8" where
  "d11ac_ctl_160 s c =
     (case s of BRCMU_CHAN_SB_LLL \<Rightarrow> c - CH_70MHZ_APART | BRCMU_CHAN_SB_LLU \<Rightarrow> c - CH_50MHZ_APART
      | BRCMU_CHAN_SB_LUL \<Rightarrow> c - CH_30MHZ_APART | BRCMU_CHAN_SB_LUU \<Rightarrow> c - CH_10MHZ_APART
      | BRCMU_CHAN_SB_ULL \<Rightarrow> c + CH_10MHZ_APART | BRCMU_CHAN_SB_ULU \<Rightarrow> c + CH_30MHZ_APART
      | BRCMU_CHAN_SB_UUL \<Rightarrow> c + CH_50MHZ_APART | BRCMU_CHAN_SB_UUU \<Rightarrow> c + CH_70MHZ_APART
      | _ \<Rightarrow> c)"

definition brcmu_d11ac_decchspec :: "brcmu_chan \<Rightarrow> brcmu_chan" where
  "brcmu_d11ac_decchspec ch =
     (let ch = ch\<lparr>chnum := ucast (chspec ch AND BRCMU_CHSPEC_CH_MASK)\<rparr>;
          ch = ch\<lparr>control_ch_num := chnum ch\<rparr>;
          w = chspec ch AND BRCMU_CHSPEC_D11AC_BW_MASK;
          s = sb_of_u16 (brcmu_maskget16 (chspec ch) BRCMU_CHSPEC_D11AC_SB_MASK 8);
          ch = (if w = BRCMU_CHSPEC_D11AC_BW_20
                then ch\<lparr>bw := BRCMU_CHAN_BW_20, sb := BRCMU_CHAN_SB_NONE\<rparr>
                else if w = BRCMU_CHSPEC_D11AC_BW_40
                then (let ch = ch\<lparr>bw := BRCMU_CHAN_BW_40\<rparr>;
                          val = chspec ch AND BRCMU_CHSPEC_D11AC_SB_MASK
                      in if val = BRCMU_CHSPEC_D11AC_SB_L
                         then ch\<lparr>sb := BRCMU_CHAN_SB_L,
                                 control_ch_num := control_ch_num ch - CH_10MHZ_APART\<rparr>
                         else if val = BRCMU_CHSPEC_D11AC_SB_U
                         then ch\<lparr>sb := BRCMU_CHAN_SB_U,
                                 control_ch_num := control_ch_num ch + CH_10MHZ_APART\<rparr>
                         else ch)
                else if w = BRCMU_CHSPEC_D11AC_BW_80
                then ch\<lparr>bw := BRCMU_CHAN_BW_80, sb := s,
                        control_ch_num := d11ac_ctl_80 s (control_ch_num ch)\<rparr>
                else if w = BRCMU_CHSPEC_D11AC_BW_160
                then ch\<lparr>bw := BRCMU_CHAN_BW_160, sb := s,
                        control_ch_num := d11ac_ctl_160 s (control_ch_num ch)\<rparr>
                else ch);
          b = chspec ch AND BRCMU_CHSPEC_D11AC_BND_MASK
      in if b = BRCMU_CHSPEC_D11AC_BND_6G then ch\<lparr>band := BRCMU_CHAN_BAND_6G\<rparr>
         else if b = BRCMU_CHSPEC_D11AC_BND_5G then ch\<lparr>band := BRCMU_CHAN_BAND_5G\<rparr>
         else if b = BRCMU_CHSPEC_D11AC_BND_2G then ch\<lparr>band := BRCMU_CHAN_BAND_2G\<rparr>
         else ch)"

text \<open>The attach function picks the encoder and decoder from the io type.\<close>

abbreviation BRCMU_D11N_IOTYPE :: u8 where "BRCMU_D11N_IOTYPE \<equiv> 1"
abbreviation BRCMU_D11AC_IOTYPE :: u8 where "BRCMU_D11AC_IOTYPE \<equiv> 2"

record brcmu_d11inf =
  io_type :: u8
  encchspec :: "brcmu_chan \<Rightarrow> brcmu_chan"
  decchspec :: "brcmu_chan \<Rightarrow> brcmu_chan"

definition brcmu_d11_attach :: "brcmu_d11inf \<Rightarrow> brcmu_d11inf" where
  "brcmu_d11_attach d11inf =
     (if io_type d11inf = BRCMU_D11N_IOTYPE
      then d11inf\<lparr>encchspec := brcmu_d11n_encchspec, decchspec := brcmu_d11n_decchspec\<rparr>
      else d11inf\<lparr>encchspec := brcmu_d11ac_encchspec, decchspec := brcmu_d11ac_decchspec\<rparr>)"

subsection \<open>The fields of an encoded chanspec\<close>

lemma ucast_u8_low_byte: "(ucast (c :: u8) :: u16) AND 0xff = ucast c"
proof -
  have "(ucast c :: u16) AND mask 8 = ucast c"
    by (rule bit_word_eqI) (auto simp: bit_simps dest: bit_imp_le_length)
  then show ?thesis by (simp add: mask_eq_exp_minus_1)
qed

lemma word_field_or:
  fixes v k m :: "'a::len word"
  shows "(v OR k) AND m = (v AND m) OR (k AND m)"
  by (simp add: bit.conj_disj_distrib2)

definition d11n_valid :: "brcmu_chan \<Rightarrow> bool" where
  "d11n_valid ch \<longleftrightarrow>
     bw ch = BRCMU_CHAN_BW_20 \<or>
     bw ch = BRCMU_CHAN_BW_40 \<and> sb ch \<in> {BRCMU_CHAN_SB_L, BRCMU_CHAN_SB_U}"

definition d11ac_valid :: "brcmu_chan \<Rightarrow> bool" where
  "d11ac_valid ch \<longleftrightarrow>
     band ch \<in> {BRCMU_CHAN_BAND_2G, BRCMU_CHAN_BAND_5G, BRCMU_CHAN_BAND_6G} \<and>
     (case bw ch of
        BRCMU_CHAN_BW_20 \<Rightarrow> True
      | BRCMU_CHAN_BW_40 \<Rightarrow> sb ch \<in> {BRCMU_CHAN_SB_NONE, BRCMU_CHAN_SB_L, BRCMU_CHAN_SB_U}
      | BRCMU_CHAN_BW_80 \<Rightarrow>
          sb ch \<in> {BRCMU_CHAN_SB_NONE, BRCMU_CHAN_SB_LL, BRCMU_CHAN_SB_LU, BRCMU_CHAN_SB_UL,
                   BRCMU_CHAN_SB_UU}
      | BRCMU_CHAN_BW_80P80 \<Rightarrow> False
      | BRCMU_CHAN_BW_160 \<Rightarrow> True)"

text \<open>The sideband the encoders put into the chanspec.\<close>

definition d11n_eff_sb :: "brcmu_chan \<Rightarrow> brcmu_chan_sb" where
  "d11n_eff_sb ch = (if bw ch = BRCMU_CHAN_BW_20 then BRCMU_CHAN_SB_NONE else sb ch)"

definition d11ac_eff_sb :: "brcmu_chan \<Rightarrow> brcmu_chan_sb" where
  "d11ac_eff_sb ch =
     (if bw ch = BRCMU_CHAN_BW_20 \<or> sb ch = BRCMU_CHAN_SB_NONE then BRCMU_CHAN_SB_L else sb ch)"

lemma d11n_enc_frame:
  "chnum (brcmu_d11n_encchspec ch) = chnum ch" "bw (brcmu_d11n_encchspec ch) = bw ch"
  "sb (brcmu_d11n_encchspec ch) = d11n_eff_sb ch"
  by (simp_all add: brcmu_d11n_encchspec_def d11n_eff_sb_def Let_def)

lemma d11ac_enc_frame:
  "chnum (brcmu_d11ac_encchspec ch) = chnum ch" "bw (brcmu_d11ac_encchspec ch) = bw ch"
  "sb (brcmu_d11ac_encchspec ch) = d11ac_eff_sb ch" "band (brcmu_d11ac_encchspec ch) = band ch"
  by (simp_all add: brcmu_d11ac_encchspec_def d11ac_eff_sb_def Let_def)

lemma d11n_fields:
  assumes "d11n_valid ch"
  defines "v \<equiv> chspec (brcmu_d11n_encchspec ch)"
  shows "v AND BRCMU_CHSPEC_CH_MASK = ucast (chnum ch)"
    and "v AND BRCMU_CHSPEC_D11N_SB_MASK = d11n_sb (d11n_eff_sb ch)"
    and "v AND BRCMU_CHSPEC_D11N_BW_MASK = d11n_bw (bw ch)"
    and "v AND BRCMU_CHSPEC_D11N_BND_MASK =
      (if chnum ch \<le> CH_MAX_2G_CHANNEL then BRCMU_CHSPEC_D11N_BND_2G else BRCMU_CHSPEC_D11N_BND_5G)"
  using assms(1) unfolding v_def brcmu_d11n_encchspec_def Let_def
  by (auto simp: word_field_or maskset16_same maskset16_other ucast_u8_low_byte d11n_valid_def
      d11n_sb_def d11n_bw_def d11n_eff_sb_def)

lemma d11ac_band_or:
  fixes v k m :: u16
  shows "(v AND NOT m) OR (k AND m) = brcmu_maskset16 v m 0 k"
  by (simp add: brcmu_maskset16_def Let_def)

definition d11ac_bnd :: "u8 \<Rightarrow> u16" where
  "d11ac_bnd b =
     (if b = BRCMU_CHAN_BAND_6G then BRCMU_CHSPEC_D11AC_BND_6G
      else if b = BRCMU_CHAN_BAND_5G then BRCMU_CHSPEC_D11AC_BND_5G
      else BRCMU_CHSPEC_D11AC_BND_2G)"

lemma d11ac_enc_chspec:
  "chspec (brcmu_d11ac_encchspec ch) =
     brcmu_maskset16
      (brcmu_maskset16
        (brcmu_maskset16
          (brcmu_maskset16 (chspec ch) BRCMU_CHSPEC_CH_MASK 0 (ucast (chnum ch)))
          BRCMU_CHSPEC_D11AC_SB_MASK 8 (sb_u16 (d11ac_eff_sb ch)))
        BRCMU_CHSPEC_D11AC_BW_MASK 0 (d11ac_bw (bw ch)))
      BRCMU_CHSPEC_D11AC_BND_MASK 0 (d11ac_bnd (band ch))"
  by (simp add: brcmu_d11ac_encchspec_def Let_def d11ac_eff_sb_def d11ac_bnd_def
      brcmu_maskset16_def [of _ "BRCMU_CHSPEC_D11AC_BND_MASK"])

lemma d11ac_fields:
  defines "v ch \<equiv> chspec (brcmu_d11ac_encchspec ch)"
  shows "v ch AND BRCMU_CHSPEC_CH_MASK = ucast (chnum ch)"
    and "v ch AND BRCMU_CHSPEC_D11AC_SB_MASK = push_bit 8 (sb_u16 (d11ac_eff_sb ch)) AND 0x700"
    and "v ch AND BRCMU_CHSPEC_D11AC_BW_MASK = d11ac_bw (bw ch)"
    and "v ch AND BRCMU_CHSPEC_D11AC_BND_MASK = d11ac_bnd (band ch)"
  unfolding v_def d11ac_enc_chspec
  by (simp_all add: maskset16_same maskset16_other ucast_u8_low_byte d11ac_bw_def d11ac_bnd_def
      split: brcmu_chan_bw.split)

lemma d11ac_sb_roundtrip:
  "s \<noteq> BRCMU_CHAN_SB_NONE \<Longrightarrow> sb_of_u16 (drop_bit 8 (push_bit 8 (sb_u16 s) AND 0x700)) = s"
  by (cases s) (simp_all add: sb_of_u16_def)

lemma ucast_u8_u16_u8: "(ucast (ucast (c :: u8) :: u16) :: u8) = c"
  by (rule bit_word_eqI) (auto simp: bit_simps)

text \<open>What the decoder reads from an encoded chanspec, field by field.\<close>

lemma d11ac_dec_enc_number:
  "chnum (brcmu_d11ac_decchspec (brcmu_d11ac_encchspec ch)) = chnum ch"
  "chspec (brcmu_d11ac_decchspec (brcmu_d11ac_encchspec ch)) = chspec (brcmu_d11ac_encchspec ch)"
  by (simp_all add: brcmu_d11ac_decchspec_def Let_def d11ac_fields(1) ucast_u8_u16_u8)

lemma d11ac_dec_enc_band:
  assumes "d11ac_valid ch"
  shows "band (brcmu_d11ac_decchspec (brcmu_d11ac_encchspec ch)) = band ch"
proof -
  have "band ch = BRCMU_CHAN_BAND_2G \<or> band ch = BRCMU_CHAN_BAND_5G \<or> band ch = BRCMU_CHAN_BAND_6G"
    using assms by (auto simp: d11ac_valid_def)
  then show ?thesis
    by (elim disjE) (simp_all add: brcmu_d11ac_decchspec_def Let_def d11ac_fields(4) d11ac_bnd_def
        d11ac_enc_frame)
qed

lemma d11ac_dec_enc_width:
  assumes "d11ac_valid ch"
  shows "bw (brcmu_d11ac_decchspec (brcmu_d11ac_encchspec ch)) = bw ch \<and>
      sb (brcmu_d11ac_decchspec (brcmu_d11ac_encchspec ch)) =
        (if bw ch = BRCMU_CHAN_BW_20 then BRCMU_CHAN_SB_NONE else d11ac_eff_sb ch) \<and>
      control_ch_num (brcmu_d11ac_decchspec (brcmu_d11ac_encchspec ch)) =
        (case bw ch of
           BRCMU_CHAN_BW_40 \<Rightarrow>
             (if d11ac_eff_sb ch = BRCMU_CHAN_SB_L then chnum ch - CH_10MHZ_APART
              else chnum ch + CH_10MHZ_APART)
         | BRCMU_CHAN_BW_80 \<Rightarrow> d11ac_ctl_80 (d11ac_eff_sb ch) (chnum ch)
         | BRCMU_CHAN_BW_160 \<Rightarrow> d11ac_ctl_160 (d11ac_eff_sb ch) (chnum ch)
         | _ \<Rightarrow> chnum ch)"
proof -
  let ?e = "brcmu_d11ac_encchspec ch"
  note f = d11ac_fields [of ch]
  have "d11ac_eff_sb ch \<noteq> BRCMU_CHAN_SB_NONE" by (auto simp: d11ac_eff_sb_def)
  then have get:
    "sb_of_u16 (brcmu_maskget16 (chspec ?e) BRCMU_CHSPEC_D11AC_SB_MASK 8) = d11ac_eff_sb ch"
    unfolding brcmu_maskget16_def f(2) by (rule d11ac_sb_roundtrip)
  show ?thesis
  proof (cases "bw ch")
    case BRCMU_CHAN_BW_40
    then have "d11ac_eff_sb ch = BRCMU_CHAN_SB_L \<or> d11ac_eff_sb ch = BRCMU_CHAN_SB_U"
      using assms by (auto simp: d11ac_valid_def d11ac_eff_sb_def)
    then show ?thesis using BRCMU_CHAN_BW_40
      by (elim disjE) (simp_all add: brcmu_d11ac_decchspec_def Let_def f d11ac_bw_def ucast_u8_u16_u8)
  next
    case BRCMU_CHAN_BW_80P80
    with assms show ?thesis by (simp add: d11ac_valid_def)
  qed (simp_all add: brcmu_d11ac_decchspec_def Let_def f(1,3) get d11ac_bw_def ucast_u8_u16_u8)
qed

lemma u16_eq_by_fields:
  fixes a b m1 m2 m3 m4 :: u16
  assumes "a AND m1 = b AND m1" "a AND m2 = b AND m2" "a AND m3 = b AND m3" "a AND m4 = b AND m4"
    and "m1 OR m2 OR m3 OR m4 = - 1"
  shows "a = b"
proof -
  have "a = a AND (m1 OR m2 OR m3 OR m4)" using assms(5) by simp
  also have "\<dots> = b AND (m1 OR m2 OR m3 OR m4)"
    using assms(1-4) by (simp add: bit.conj_disj_distrib)
  also have "\<dots> = b" using assms(5) by simp
  finally show ?thesis .
qed

lemma sb_u16_of_field:
  fixes v :: u16
  shows "push_bit 8 (sb_u16 (sb_of_u16 (drop_bit 8 (v AND 0x700)))) AND 0x700 = v AND 0x700"
    and "sb_of_u16 (drop_bit 8 (v AND 0x700)) \<noteq> BRCMU_CHAN_SB_NONE"
proof -
  have "drop_bit 8 (v AND 0x700) = drop_bit 8 v AND 7"
    by (simp add: drop_bit_and)
  moreover have "drop_bit 8 v AND 7 \<le> (7 :: u16)"
    by (rule word_and_le1)
  ultimately have "unat (drop_bit 8 (v AND 0x700)) \<le> 7"
    by (simp add: word_le_nat_alt)
  then have "unat (drop_bit 8 (v AND 0x700)) \<in> set [0, 1, 2, 3, 4, 5, 6, 7]"
    by auto
  then have val: "drop_bit 8 (v AND 0x700) \<in> {0, 1, 2, 3, 4, 5, 6, 7}"
    by (auto simp: word_unat_eq_iff)
  then have "sb_u16 (sb_of_u16 (drop_bit 8 (v AND 0x700))) = drop_bit 8 (v AND 0x700)"
    by (auto simp: sb_of_u16_def)
  then show "push_bit 8 (sb_u16 (sb_of_u16 (drop_bit 8 (v AND 0x700)))) AND 0x700 = v AND 0x700"
    using bits_ident [of 8 "v AND 0x700"] by (simp add: take_bit_and and.assoc)
  show "sb_of_u16 (drop_bit 8 (v AND 0x700)) \<noteq> BRCMU_CHAN_SB_NONE"
    using val by (auto simp: sb_of_u16_def)
qed

subsection \<open>Properties\<close>

text \<open>
  in the 802.11n layout, decoding an encoded channel gives its number, bandwidth and
  sideband back (a 20 MHz channel has no sideband), the band the channel number lies in, and
  the control channel two channels below or above the center of a 40 MHz channel.
\<close>

theorem d11n_decode_encode:
  assumes "d11n_valid ch"
  shows "brcmu_d11n_decchspec (brcmu_d11n_encchspec ch) =
           ch\<lparr>chspec := chspec (brcmu_d11n_encchspec ch),
              sb := d11n_eff_sb ch,
              band := (if chnum ch \<le> CH_MAX_2G_CHANNEL then BRCMU_CHAN_BAND_2G
                       else BRCMU_CHAN_BAND_5G),
              control_ch_num :=
                (case d11n_eff_sb ch of BRCMU_CHAN_SB_NONE \<Rightarrow> chnum ch
                 | BRCMU_CHAN_SB_LLL \<Rightarrow> chnum ch - CH_10MHZ_APART
                 | _ \<Rightarrow> chnum ch + CH_10MHZ_APART)\<rparr>"
proof -
  note f = d11n_fields [OF assms] and fr = d11n_enc_frame [of ch]
  from assms consider "bw ch = BRCMU_CHAN_BW_20"
    | "bw ch = BRCMU_CHAN_BW_40" "sb ch = BRCMU_CHAN_SB_L"
    | "bw ch = BRCMU_CHAN_BW_40" "sb ch = BRCMU_CHAN_SB_U"
    by (auto simp: d11n_valid_def)
  then show ?thesis
    by cases
      (use f fr in \<open>simp_all add: brcmu_d11n_decchspec_def Let_def d11n_bw_def d11n_sb_def
          d11n_eff_sb_def ucast_u8_u16_u8 brcmu_d11n_encchspec_def\<close>)
qed

definition chan_2g_20 :: brcmu_chan where
  "chan_2g_20 = \<lparr>chspec = 0, chnum = 6, control_ch_num = 0, band = 0, bw = BRCMU_CHAN_BW_20,
     sb = BRCMU_CHAN_SB_NONE\<rparr>"

definition chan_5g_80 :: brcmu_chan where
  "chan_5g_80 = \<lparr>chspec = 0xffff, chnum = 42, control_ch_num = 0, band = BRCMU_CHAN_BAND_5G,
     bw = BRCMU_CHAN_BW_80, sb = BRCMU_CHAN_SB_UL\<rparr>"

theorem d11n_decode_encode_witness:
  "brcmu_d11n_decchspec (brcmu_d11n_encchspec chan_2g_20) =
     chan_2g_20\<lparr>chspec := 0x2b06, band := BRCMU_CHAN_BAND_2G, control_ch_num := 6\<rparr>"
proof -
  have "d11n_valid chan_2g_20" by (simp add: d11n_valid_def chan_2g_20_def)
  moreover have "chspec (brcmu_d11n_encchspec chan_2g_20) = 0x2b06" by code_simp
  ultimately show ?thesis
    using d11n_decode_encode [of chan_2g_20] by (simp add: d11n_eff_sb_def chan_2g_20_def)
qed

text \<open>
  C30: in the 802.11ac layout, whatever the chanspec field held before, decoding an encoded
  channel gives its number, band, bandwidth and sideband back (a missing sideband counts as
  the lowest), and the control channel that the sideband selects.
\<close>

theorem d11ac_decode_encode:
  assumes "d11ac_valid ch"
  shows "brcmu_d11ac_decchspec (brcmu_d11ac_encchspec ch) =
           ch\<lparr>chspec := chspec (brcmu_d11ac_encchspec ch),
              sb := (if bw ch = BRCMU_CHAN_BW_20 then BRCMU_CHAN_SB_NONE else d11ac_eff_sb ch),
              control_ch_num :=
                (case bw ch of
                   BRCMU_CHAN_BW_40 \<Rightarrow>
                     (if d11ac_eff_sb ch = BRCMU_CHAN_SB_L then chnum ch - CH_10MHZ_APART
                      else chnum ch + CH_10MHZ_APART)
                 | BRCMU_CHAN_BW_80 \<Rightarrow> d11ac_ctl_80 (d11ac_eff_sb ch) (chnum ch)
                 | BRCMU_CHAN_BW_160 \<Rightarrow> d11ac_ctl_160 (d11ac_eff_sb ch) (chnum ch)
                 | _ \<Rightarrow> chnum ch)\<rparr>"
  by (rule brcmu_chan.equality)
     (simp_all add: d11ac_dec_enc_number d11ac_dec_enc_band [OF assms] d11ac_dec_enc_width [OF assms])

theorem d11ac_decode_encode_witness:
  "brcmu_d11ac_decchspec (brcmu_d11ac_encchspec chan_5g_80) =
     chan_5g_80\<lparr>chspec := 0xe22a, control_ch_num := 44\<rparr>"
proof -
  have "d11ac_valid chan_5g_80" by (simp add: d11ac_valid_def chan_5g_80_def)
  moreover have "chspec (brcmu_d11ac_encchspec chan_5g_80) = 0xe22a" by code_simp
  ultimately show ?thesis
    using d11ac_decode_encode [of chan_5g_80]
    by (simp add: d11ac_eff_sb_def chan_5g_80_def d11ac_ctl_80_def)
qed

text \<open>
  A chanspec the 802.11ac decoder accepts is what the encoder builds from the decoded
  channel: decoding loses nothing for 80 and 160 MHz chanspecs of the three bands.
\<close>

theorem d11ac_encode_decode:
  assumes "chspec ch AND BRCMU_CHSPEC_D11AC_BW_MASK \<in> {BRCMU_CHSPEC_D11AC_BW_80, BRCMU_CHSPEC_D11AC_BW_160}"
    and "chspec ch AND BRCMU_CHSPEC_D11AC_BND_MASK
           \<in> {BRCMU_CHSPEC_D11AC_BND_2G, BRCMU_CHSPEC_D11AC_BND_5G, BRCMU_CHSPEC_D11AC_BND_6G}"
  shows "chspec (brcmu_d11ac_encchspec (brcmu_d11ac_decchspec ch)) = chspec ch"
proof -
  let ?d = "brcmu_d11ac_decchspec ch"
  note f = d11ac_fields [of ?d]
  have d: "chspec ?d = chspec ch" "chnum ?d = ucast (chspec ch AND BRCMU_CHSPEC_CH_MASK)"
    by (simp_all add: brcmu_d11ac_decchspec_def Let_def)
  have sb: "sb ?d = sb_of_u16 (drop_bit 8 (chspec ch AND 0x700))"
    and bw: "d11ac_bw (bw ?d) = chspec ch AND BRCMU_CHSPEC_D11AC_BW_MASK"
      "bw ?d \<noteq> BRCMU_CHAN_BW_20"
    and bnd: "d11ac_bnd (band ?d) = chspec ch AND BRCMU_CHSPEC_D11AC_BND_MASK"
    using assms by (auto simp: brcmu_d11ac_decchspec_def brcmu_maskget16_def Let_def d11ac_bw_def
        d11ac_bnd_def)
  have "sb ?d \<noteq> BRCMU_CHAN_SB_NONE"
    using sb sb_u16_of_field(2) [of "chspec ch"] by simp
  then have eff: "d11ac_eff_sb ?d = sb_of_u16 (drop_bit 8 (chspec ch AND 0x700))"
    using bw(2) sb by (simp add: d11ac_eff_sb_def)
  have num: "(ucast (chnum ?d) :: u16) = chspec ch AND BRCMU_CHSPEC_CH_MASK"
  proof -
    have "(ucast (ucast (chspec ch AND mask 8) :: u8) :: u16) = chspec ch AND mask 8"
      by (rule bit_word_eqI) (auto simp: bit_simps)
    then show ?thesis unfolding d(2) by (simp add: mask_eq_exp_minus_1)
  qed
  show ?thesis
    by (rule u16_eq_by_fields [where ?m1.0 = "0xff" and ?m2.0 = "0x700" and ?m3.0 = "0x3800"
          and ?m4.0 = "0xc000"])
       (simp_all only: f num eff bw(1) bnd sb_u16_of_field(1), simp)
qed

theorem d11ac_encode_decode_witness:
  "chspec (brcmu_d11ac_encchspec (brcmu_d11ac_decchspec (chan_5g_80\<lparr>chspec := 0xe22a\<rparr>))) = 0xe22a"
  using d11ac_encode_decode [of "chan_5g_80\<lparr>chspec := 0xe22a\<rparr>"] by simp

end
