(* ===== verification/Ring_Index.thy ===== *)
theory Ring_Index
  imports Brcm_Prelude
begin

section \<open>Positions on a ring of slots\<close>

text \<open>
  Rings occur as shared message rings, as the search order of the hanger, as the window of
  the receive reordering and as the round robin over the descriptors. This theory has the
  arithmetic they share: distances, positions reached by moving on, and the list of slots
  that such a move passes.
\<close>

text \<open>
  The number of slots from index \<open>a\<close> on to index \<open>b\<close>, the slot \<open>n\<close> places on, and the list of
  the \<open>n\<close> slots from \<open>a\<close>.
\<close>

definition dist :: "nat \<Rightarrow> nat \<Rightarrow> nat \<Rightarrow> nat" where
  "dist d a b = (if a \<le> b then b - a else d - a + b)"

definition adv :: "nat \<Rightarrow> nat \<Rightarrow> nat \<Rightarrow> nat" where
  "adv d a n = (if a + n < d then a + n else a + n - d)"

definition slots :: "nat \<Rightarrow> nat \<Rightarrow> nat \<Rightarrow> nat list" where
  "slots d a n = map (adv d a) [0..<n]"

lemma dist_less: "a < d \<Longrightarrow> b < d \<Longrightarrow> dist d a b < d"
  by (auto simp: dist_def)

lemma dist_self [simp]: "dist d a a = 0"
  by (simp add: dist_def)

lemma adv_less: "a < d \<Longrightarrow> n \<le> d \<Longrightarrow> adv d a n < d"
  by (auto simp: adv_def)

lemma adv_dist: "a < d \<Longrightarrow> b < d \<Longrightarrow> adv d a (dist d a b) = b"
  by (auto simp: adv_def dist_def)

lemma dist_adv: "a < d \<Longrightarrow> n < d \<Longrightarrow> dist d a (adv d a n) = n"
  by (auto simp: adv_def dist_def)

lemma dist_adv_right:
  "a < d \<Longrightarrow> b < d \<Longrightarrow> dist d a b + n < d \<Longrightarrow> dist d a (adv d b n) = dist d a b + n"
  by (auto simp: adv_def dist_def split: if_splits)

lemma dist_adv_left:
  "a < d \<Longrightarrow> b < d \<Longrightarrow> n \<le> dist d a b \<Longrightarrow> dist d (adv d a n) b = dist d a b - n"
  by (auto simp: adv_def dist_def split: if_splits)

lemma dist_split:
  "a < d \<Longrightarrow> b < d \<Longrightarrow> c < d \<Longrightarrow> dist d a b \<le> dist d a c \<Longrightarrow>
     dist d a c = dist d a b + dist d b c"
  by (auto simp: dist_def split: if_splits)

lemma adv_inj:
  "a < d \<Longrightarrow> m < d \<Longrightarrow> n < d \<Longrightarrow> adv d a m = adv d a n \<longleftrightarrow> m = n"
  by (auto simp: adv_def split: if_splits)

lemma slots_length [simp]: "length (slots d a n) = n"
  by (simp add: slots_def)

lemma slots_Suc: "slots d a (Suc n) = slots d a n @ [adv d a n]"
  by (simp add: slots_def)

lemma slots_Cons:
  assumes "a < d" "Suc n \<le> d"
  shows "slots d a (Suc n) = a # slots d (adv d a 1) n"
proof -
  have step: "adv d a (Suc k) = adv d (adv d a 1) k" if "k < n" for k
    using assms that by (auto simp: adv_def)
  have "map (\<lambda>k. adv d a (Suc k)) [0..<n] = map (adv d (adv d a 1)) [0..<n]"
    by (rule map_cong [OF refl], rule step) simp
  moreover have "adv d a 0 = a" using assms by (simp add: adv_def)
  moreover have "[0..<Suc n] = 0 # map Suc [0..<n]"
    using map_Suc_upt [of 0 n] upt_conv_Cons [of 0 "Suc n"] by (simp del: upt_Suc)
  ultimately show ?thesis
    by (simp only: slots_def list.map map_map comp_def)
qed

lemma end_not_in_slots:
  assumes "a < d" "b < d"
  shows "b \<notin> set (slots d a (dist d a b))"
proof
  assume "b \<in> set (slots d a (dist d a b))"
  then obtain k where k: "k < dist d a b" "adv d a k = b" by (auto simp: slots_def)
  moreover have "dist d a b < d" using assms by (rule dist_less)
  ultimately have "dist d a (adv d a k) = k" using assms by (intro dist_adv) auto
  with k show False by simp
qed

lemma slots_map_upd:
  assumes "a < d" "b < d" "inj f"
  shows "map (\<lambda>i. (m(f b := x)) (f i)) (slots d a (dist d a b))
    = map (\<lambda>i. m (f i)) (slots d a (dist d a b))"
proof (rule map_cong [OF refl])
  fix i
  assume "i \<in> set (slots d a (dist d a b))"
  with end_not_in_slots [OF assms(1,2)] have "i \<noteq> b" by auto
  with \<open>inj f\<close> show "(m(f b := x)) (f i) = m (f i)" by (auto dest: injD)
qed

end
