(* ===== verification/Slot_Store.thy ===== *)
theory Slot_Store
  imports Brcm_Prelude
begin

section \<open>The interface of a store of packets in numbered slots\<close>

text \<open>
  The driver parks packets in slots until the firmware reports on them: the hanger of the
  firmware signalling and the packet ids of the message buffers do so. A store has a lookup,
  a put that takes a free slot only and a pick that empties an occupied one; both report
  failure without a change. The client lemma: over any sequence of puts and takes, a packet
  that is taken from a slot is the one most recently put there, and what is in the store at
  the end is what was put and not yet taken.

  The user of a hanger names the slot; the packet ids choose it. The second interface is that
  of a store that chooses, and every such store is one of the first kind.
\<close>

datatype ('i, 'p) slot_op = Put 'i 'p | Take 'i

fun slot_run ::
    "('s \<Rightarrow> 'i \<Rightarrow> 'p \<Rightarrow> bool \<times> 's) \<Rightarrow> ('s \<Rightarrow> 'i \<Rightarrow> 'p option \<times> 's)
      \<Rightarrow> 's \<Rightarrow> ('i, 'p) slot_op list \<Rightarrow> ('i \<times> 'p) list \<times> ('i \<times> 'p) list \<times> 's" where
  "slot_run put pick s [] = ([], [], s)"
| "slot_run put pick s (Put i p # ops) =
     (case put s i p of (ok, s') \<Rightarrow>
        (case slot_run put pick s' ops of (ins, outs, r) \<Rightarrow>
           (if ok then (i, p) # ins else ins, outs, r)))"
| "slot_run put pick s (Take i # ops) =
     (case pick s i of (res, s') \<Rightarrow>
        (case slot_run put pick s' ops of (ins, outs, r) \<Rightarrow>
           (ins, (case res of None \<Rightarrow> outs | Some p \<Rightarrow> (i, p) # outs), r)))"

text \<open>The packets in one slot, as a history of length at most one.\<close>

abbreviation slot_list :: "'p option \<Rightarrow> 'p list" where
  "slot_list v \<equiv> (case v of None \<Rightarrow> [] | Some p \<Rightarrow> [p])"

abbreviation on_slot :: "'i \<Rightarrow> ('i \<times> 'p) list \<Rightarrow> 'p list" where
  "on_slot i log \<equiv> map snd (filter (\<lambda>(j, _). j = i) log)"

locale slot_store =
  fixes slot :: "'s \<Rightarrow> 'i \<Rightarrow> 'p option"
    and put :: "'s \<Rightarrow> 'i \<Rightarrow> 'p \<Rightarrow> bool \<times> 's"
    and pick :: "'s \<Rightarrow> 'i \<Rightarrow> 'p option \<times> 's"
  assumes put_ok: "put s i p = (True, s') \<Longrightarrow> slot s i = None \<and> slot s' = (slot s)(i := Some p)"
    and put_fail: "put s i p = (False, s') \<Longrightarrow> slot s' = slot s"
    and pick_ok: "pick s i = (Some p, s') \<Longrightarrow> slot s i = Some p \<and> slot s' = (slot s)(i := None)"
    and pick_fail: "pick s i = (None, s') \<Longrightarrow> slot s' = slot s"
begin

lemma slot_history:
  assumes "slot_run put pick s ops = (ins, outs, r)"
  shows "slot_list (slot s i) @ on_slot i ins = on_slot i outs @ slot_list (slot r i)"
  using assms
proof (induction ops arbitrary: s ins outs)
  case Nil
  then show ?case by simp
next
  case (Cons op ops)
  show ?case
  proof (cases op)
    case (Put j p)
    obtain ok s' where put: "put s j p = (ok, s')" by fastforce
    obtain ins' where run: "slot_run put pick s' ops = (ins', outs, r)"
      and ins: "ins = (if ok then (j, p) # ins' else ins')"
      using Cons.prems Put put by (auto split: prod.splits)
    note IH = Cons.IH [OF run]
    show ?thesis
    proof (cases ok)
      case True
      with put_ok [of s j p s'] put IH ins show ?thesis by (cases "i = j") auto
    next
      case False
      with put_fail [of s j p s'] put IH ins show ?thesis by auto
    qed
  next
    case (Take j)
    obtain res s' where pick: "pick s j = (res, s')" by fastforce
    obtain outs' where run: "slot_run put pick s' ops = (ins, outs', r)"
      and outs: "outs = (case res of None \<Rightarrow> outs' | Some p \<Rightarrow> (j, p) # outs')"
      using Cons.prems Take pick by (auto split: prod.splits)
    note IH = Cons.IH [OF run]
    show ?thesis
    proof (cases res)
      case None
      with pick_fail [of s j s'] pick IH outs show ?thesis by auto
    next
      case (Some p)
      with pick_ok [of s j p s'] pick IH outs show ?thesis by (cases "i = j") auto
    qed
  qed
qed

end

text \<open>A store that chooses the slot: \<open>alloc\<close> returns its number, or nothing and no change.\<close>

datatype ('i, 'p) id_op = Alloc 'p | Free 'i

fun id_run ::
    "('s \<Rightarrow> 'p \<Rightarrow> 'i option \<times> 's) \<Rightarrow> ('s \<Rightarrow> 'i \<Rightarrow> 'p option \<times> 's)
      \<Rightarrow> 's \<Rightarrow> ('i, 'p) id_op list \<Rightarrow> ('i \<times> 'p) list \<times> ('i \<times> 'p) list \<times> 's" where
  "id_run alloc pick s [] = ([], [], s)"
| "id_run alloc pick s (Alloc p # ops) =
     (case alloc s p of (res, s') \<Rightarrow>
        (case id_run alloc pick s' ops of (ins, outs, r) \<Rightarrow>
           (case res of None \<Rightarrow> ins | Some i \<Rightarrow> (i, p) # ins, outs, r)))"
| "id_run alloc pick s (Free i # ops) =
     (case pick s i of (res, s') \<Rightarrow>
        (case id_run alloc pick s' ops of (ins, outs, r) \<Rightarrow>
           (ins, case res of None \<Rightarrow> outs | Some p \<Rightarrow> (i, p) # outs, r)))"

text \<open>The put that such a store offers: it succeeds when the store happens to choose the slot.\<close>

definition put_of :: "('s \<Rightarrow> 'p \<Rightarrow> 'i option \<times> 's) \<Rightarrow> 's \<Rightarrow> 'i \<Rightarrow> 'p \<Rightarrow> bool \<times> 's" where
  "put_of alloc s i p = (case alloc s p of (res, s') \<Rightarrow> if res = Some i then (True, s') else (False, s))"

locale id_store =
  fixes slot :: "'s \<Rightarrow> 'i \<Rightarrow> 'p option"
    and alloc :: "'s \<Rightarrow> 'p \<Rightarrow> 'i option \<times> 's"
    and pick :: "'s \<Rightarrow> 'i \<Rightarrow> 'p option \<times> 's"
  assumes alloc_ok: "alloc s p = (Some i, s') \<Longrightarrow> slot s i = None \<and> slot s' = (slot s)(i := Some p)"
    and alloc_fail: "alloc s p = (None, s') \<Longrightarrow> s' = s"
    and free_ok: "pick s i = (Some p, s') \<Longrightarrow> slot s i = Some p \<and> slot s' = (slot s)(i := None)"
    and free_fail: "pick s i = (None, s') \<Longrightarrow> slot s' = slot s"

sublocale id_store \<subseteq> chosen: slot_store slot "put_of alloc" pick
  using alloc_ok free_ok free_fail
  by unfold_locales (auto simp: put_of_def split: prod.splits if_splits)

context id_store
begin

text \<open>A run of the store that chooses is a run of the store whose user names the slots it chose.\<close>

lemma id_run_slots: "\<exists>ops'. slot_run (put_of alloc) pick s ops' = id_run alloc pick s ops"
proof (induction ops arbitrary: s)
  case Nil
  show ?case by (rule exI [of _ "[]"]) simp
next
  case (Cons op ops)
  show ?case
  proof (cases op)
    case (Alloc p)
    obtain res s' where alloc: "alloc s p = (res, s')" by fastforce
    obtain ops' where ops': "slot_run (put_of alloc) pick s' ops' = id_run alloc pick s' ops"
      using Cons.IH by blast
    show ?thesis
    proof (cases res)
      case None
      with alloc alloc_fail have "s' = s" by blast
      with None alloc ops' Alloc show ?thesis
        by (intro exI [of _ ops']) (simp split: prod.splits)
    next
      case (Some i)
      with alloc have "put_of alloc s i p = (True, s')" by (simp add: put_of_def)
      with Some alloc ops' Alloc show ?thesis
        by (intro exI [of _ "Put i p # ops'"]) (simp split: prod.splits)
    qed
  next
    case (Free i)
    obtain res s' where pick: "pick s i = (res, s')" by fastforce
    obtain ops' where "slot_run (put_of alloc) pick s' ops' = id_run alloc pick s' ops"
      using Cons.IH by blast
    with pick Free show ?thesis
      by (intro exI [of _ "Take i # ops'"]) (simp split: prod.splits)
  qed
qed

lemma id_history:
  assumes "id_run alloc pick s ops = (ins, outs, r)"
  shows "slot_list (slot s i) @ on_slot i ins = on_slot i outs @ slot_list (slot r i)"
  using id_run_slots [of s ops] chosen.slot_history assms by metis

end

end
