(* ===== verification/Fws_Hanger.thy ===== *)
theory Fws_Hanger
  imports Ring_Index Slot_Store
begin

section \<open>The hanger: packets that await a transmit status (brcmfmac/fwsignal.c)\<close>

text \<open>
  Every packet handed to the firmware sits in a slot of the hanger, and its slot number
  travels with it, so that the status the firmware reports finds the packet again. The array
  of slots is a function on slot numbers below \<open>BRCMF_FWS_HANGER_MAXITEMS\<close>; the counters and
  slot numbers are 32-bit words; a packet is its number in the packet store.

  The search for a free slot starts after the last slot handed out and goes round once. It is
  a partial function: were the start position outside the array, the loop of the source
  would not end. The theory shows that it ends for every position inside the array and what
  it finds, and that pushing and popping implement a slot store.
\<close>

type_synonym pkt = nat

abbreviation BRCMF_FWS_HANGER_MAXITEMS :: u32 where "BRCMF_FWS_HANGER_MAXITEMS \<equiv> 3072"

datatype brcmf_fws_hanger_item_state =
    BRCMF_FWS_HANGER_ITEM_STATE_FREE
  | BRCMF_FWS_HANGER_ITEM_STATE_INUSE
  | BRCMF_FWS_HANGER_ITEM_STATE_INUSE_SUPPRESSED

record brcmf_fws_hanger_item =
  hi_state :: brcmf_fws_hanger_item_state
  hi_pkt :: "pkt option"

record brcmf_fws_hanger =
  pushed :: u32
  popped :: u32
  failed_to_push :: u32
  failed_to_pop :: u32
  failed_slotfind :: u32
  slot_pos :: u32
  hg_items :: "nat \<Rightarrow> brcmf_fws_hanger_item"

abbreviation item_state :: "brcmf_fws_hanger \<Rightarrow> u32 \<Rightarrow> brcmf_fws_hanger_item_state" where
  "item_state h i \<equiv> hi_state (hg_items h (unat i))"

abbreviation item_free :: "brcmf_fws_hanger \<Rightarrow> u32 \<Rightarrow> bool" where
  "item_free h i \<equiv> item_state h i = BRCMF_FWS_HANGER_ITEM_STATE_FREE"

definition brcmf_fws_hanger_init :: brcmf_fws_hanger where
  "brcmf_fws_hanger_init =
     \<lparr>pushed = 0, popped = 0, failed_to_push = 0, failed_to_pop = 0, failed_slotfind = 0,
      slot_pos = 0, hg_items = (\<lambda>_. \<lparr>hi_state = BRCMF_FWS_HANGER_ITEM_STATE_FREE, hi_pkt = None\<rparr>)\<rparr>"

text \<open>
  The search loop: \<open>Some (Some i)\<close> is a hit, \<open>Some None\<close> a full round without one, \<open>None\<close> a
  loop that does not end.
\<close>

partial_function (option) find_free_slot :: "brcmf_fws_hanger \<Rightarrow> u32 \<Rightarrow> u32 option option" where
  "find_free_slot h i =
     (if i = slot_pos h then Some None
      else if item_free h i then Some (Some i)
      else find_free_slot h (if i + 1 = BRCMF_FWS_HANGER_MAXITEMS then 0 else i + 1))"

definition brcmf_fws_hanger_get_free_slot ::
    "brcmf_fws_hanger \<Rightarrow> (u32 \<times> brcmf_fws_hanger) option" where
  "brcmf_fws_hanger_get_free_slot h =
     (case find_free_slot h ((slot_pos h + 1) mod BRCMF_FWS_HANGER_MAXITEMS) of
        None \<Rightarrow> None
      | Some (Some i) \<Rightarrow> Some (i, h\<lparr>slot_pos := i\<rparr>)
      | Some None \<Rightarrow> Some (BRCMF_FWS_HANGER_MAXITEMS, h\<lparr>failed_slotfind := failed_slotfind h + 1\<rparr>))"

definition brcmf_fws_hanger_pushpkt ::
    "brcmf_fws_hanger \<Rightarrow> pkt \<Rightarrow> u32 \<Rightarrow> (errno + unit) \<times> brcmf_fws_hanger" where
  "brcmf_fws_hanger_pushpkt h pkt slot_id =
     (if slot_id \<ge> BRCMF_FWS_HANGER_MAXITEMS then (Inl ENOENT, h)
      else if \<not> item_free h slot_id then (Inl EINVAL, h\<lparr>failed_to_push := failed_to_push h + 1\<rparr>)
      else (Inr (), h\<lparr>hg_items := (hg_items h)(unat slot_id :=
                        \<lparr>hi_state = BRCMF_FWS_HANGER_ITEM_STATE_INUSE, hi_pkt = Some pkt\<rparr>),
                      pushed := pushed h + 1\<rparr>))"

definition brcmf_fws_hanger_poppkt ::
    "brcmf_fws_hanger \<Rightarrow> u32 \<Rightarrow> bool \<Rightarrow> (errno + pkt option) \<times> brcmf_fws_hanger" where
  "brcmf_fws_hanger_poppkt h slot_id remove_item =
     (if slot_id \<ge> BRCMF_FWS_HANGER_MAXITEMS then (Inl ENOENT, h)
      else if item_free h slot_id then (Inl EINVAL, h\<lparr>failed_to_pop := failed_to_pop h + 1\<rparr>)
      else (Inr (hi_pkt (hg_items h (unat slot_id))),
            if remove_item
            then h\<lparr>hg_items := (hg_items h)(unat slot_id :=
                     \<lparr>hi_state = BRCMF_FWS_HANGER_ITEM_STATE_FREE, hi_pkt = None\<rparr>),
                   popped := popped h + 1\<rparr>
            else h))"

definition brcmf_fws_hanger_mark_suppressed ::
    "brcmf_fws_hanger \<Rightarrow> u32 \<Rightarrow> (errno + unit) \<times> brcmf_fws_hanger" where
  "brcmf_fws_hanger_mark_suppressed h slot_id =
     (if slot_id \<ge> BRCMF_FWS_HANGER_MAXITEMS then (Inl ENOENT, h)
      else if item_free h slot_id then (Inl EINVAL, h)
      else (Inr (), h\<lparr>hg_items := (hg_items h)(unat slot_id :=
              (hg_items h (unat slot_id))\<lparr>hi_state := BRCMF_FWS_HANGER_ITEM_STATE_INUSE_SUPPRESSED\<rparr>)\<rparr>))"

text \<open>
  The clean-up walks over the slots \<open>i\<close> to \<open>i + n - 1\<close>: the packets freed, and the hanger.
  A suppressed packet is in a queue as well, where it is freed.
\<close>

fun hanger_cleanup_from ::
    "nat \<Rightarrow> nat \<Rightarrow> (pkt option \<Rightarrow> bool) option \<Rightarrow> brcmf_fws_hanger \<Rightarrow> pkt list \<times> brcmf_fws_hanger" where
  "hanger_cleanup_from i 0 fn h = ([], h)"
| "hanger_cleanup_from i (Suc n) fn h =
     (let it = hg_items h i; s = hi_state it;
          (freed, h) =
            (if (s = BRCMF_FWS_HANGER_ITEM_STATE_INUSE \<or> s = BRCMF_FWS_HANGER_ITEM_STATE_INUSE_SUPPRESSED)
                \<and> (case fn of None \<Rightarrow> True | Some f \<Rightarrow> f (hi_pkt it))
             then (if s = BRCMF_FWS_HANGER_ITEM_STATE_INUSE
                   then (case hi_pkt it of None \<Rightarrow> [] | Some p \<Rightarrow> [p]) else [],
                   h\<lparr>hg_items := (hg_items h)(i := it\<lparr>hi_state := BRCMF_FWS_HANGER_ITEM_STATE_FREE\<rparr>)\<rparr>)
             else ([], h));
          (freed', h) = hanger_cleanup_from (Suc i) n fn h
      in (freed @ freed', h))"

definition brcmf_fws_hanger_cleanup ::
    "brcmf_fws_hanger \<Rightarrow> (pkt option \<Rightarrow> bool) option \<Rightarrow> pkt list \<times> brcmf_fws_hanger" where
  "brcmf_fws_hanger_cleanup h fn = hanger_cleanup_from 0 3072 fn h"

subsection \<open>The search for a free slot\<close>

lemma unat_hanger_next:
  assumes "i < BRCMF_FWS_HANGER_MAXITEMS"
  shows "unat (if i + 1 = BRCMF_FWS_HANGER_MAXITEMS then 0 else i + 1) = adv 3072 (unat i) 1"
proof -
  have "unat (i + 1) = unat i + 1" using assms by (rule unat_succ_lt)
  moreover have "unat i < 3072" using assms by (simp add: word_less_nat_alt)
  ultimately show ?thesis by (auto simp: adv_def word_unat_eq_iff)
qed

lemma find_free_slot_result:
  assumes "i < BRCMF_FWS_HANGER_MAXITEMS" "slot_pos h < BRCMF_FWS_HANGER_MAXITEMS"
    "dist 3072 (unat i) (unat (slot_pos h)) = n"
  shows "(find_free_slot h i = Some None \<and> (\<forall>k<n. hi_state (hg_items h (adv 3072 (unat i) k)) \<noteq> BRCMF_FWS_HANGER_ITEM_STATE_FREE))
    \<or> (\<exists>j. find_free_slot h i = Some (Some j) \<and> j < BRCMF_FWS_HANGER_MAXITEMS \<and> item_free h j \<and> j \<noteq> slot_pos h)"
  using assms
proof (induction n arbitrary: i)
  case 0
  then have "unat i = unat (slot_pos h)"
    by (auto simp: dist_def word_less_nat_alt split: if_splits)
  then have "i = slot_pos h" by (simp add: word_unat_eq_iff)
  then show ?case by (simp add: find_free_slot.simps [of h "slot_pos h"])
next
  case (Suc n)
  let ?i = "if i + 1 = BRCMF_FWS_HANGER_MAXITEMS then 0 else i + 1"
  have ne: "i \<noteq> slot_pos h" using Suc.prems(3) by auto
  have lt: "unat i < 3072" "unat (slot_pos h) < 3072"
    using Suc.prems(1,2) by (simp_all add: word_less_nat_alt)
  note next_i = unat_hanger_next [OF Suc.prems(1)]
  have i': "?i < BRCMF_FWS_HANGER_MAXITEMS"
    unfolding word_less_nat_alt next_i using adv_less [OF lt(1), of 1] by simp
  have d': "dist 3072 (unat ?i) (unat (slot_pos h)) = n"
    unfolding next_i using dist_adv_left [OF lt, of 1] Suc.prems(3) by simp
  show ?case
  proof (cases "item_free h i")
    case True
    with ne Suc.prems(1) show ?thesis by (auto simp: find_free_slot.simps [of h i])
  next
    case False
    have step: "find_free_slot h i = find_free_slot h ?i"
      using ne False by (simp add: find_free_slot.simps [of h i])
    have adv_step: "adv 3072 (unat i) k = adv 3072 (unat ?i) (k - 1)" if "0 < k" "k < Suc n" for k
      unfolding next_i using that lt Suc.prems(3)
      by (auto simp: adv_def dist_def split: if_splits)
    have "hi_state (hg_items h (adv 3072 (unat i) k)) \<noteq> BRCMF_FWS_HANGER_ITEM_STATE_FREE"
      if "k < Suc n" and *: "\<forall>k<n. hi_state (hg_items h (adv 3072 (unat ?i) k)) \<noteq> BRCMF_FWS_HANGER_ITEM_STATE_FREE"
      for k
    proof (cases "k = 0")
      case True
      with False lt show ?thesis by (simp add: adv_def)
    next
      case k: False
      then have "k - 1 < n" using that(1) by simp
      with * adv_step [of k] k that(1) show ?thesis by auto
    qed
    with Suc.IH [OF i' Suc.prems(2) d'] step show ?thesis by auto
  qed
qed

lemma unat_hanger_start:
  assumes "slot_pos h < BRCMF_FWS_HANGER_MAXITEMS"
  shows "unat ((slot_pos h + 1) mod BRCMF_FWS_HANGER_MAXITEMS) = adv 3072 (unat (slot_pos h)) 1"
proof -
  have "unat (slot_pos h + 1) = unat (slot_pos h) + 1" using assms by (rule unat_succ_lt)
  moreover have "unat (slot_pos h) < 3072" using assms by (simp add: word_less_nat_alt)
  ultimately show ?thesis
    by (cases "unat (slot_pos h) = 3071") (auto simp: adv_def unat_mod)
qed

text \<open>Every slot but the last one handed out is searched.\<close>

lemma hanger_search_covers:
  assumes "p < 3072" "j < 3072" "j \<noteq> p"
  shows "\<exists>k < dist 3072 (adv 3072 p 1) p. j = adv 3072 (adv 3072 p 1) k"
  using assms
  by (intro exI [of _ "dist 3072 (adv 3072 p 1) j"]) (auto simp: adv_def dist_def)

lemma hanger_search:
  assumes "slot_pos h < BRCMF_FWS_HANGER_MAXITEMS"
  shows "\<exists>i h'. brcmf_fws_hanger_get_free_slot h = Some (i, h') \<and> hg_items h' = hg_items h \<and>
    slot_pos h' < BRCMF_FWS_HANGER_MAXITEMS \<and>
    (if i < BRCMF_FWS_HANGER_MAXITEMS
     then item_free h i \<and> i \<noteq> slot_pos h \<and> slot_pos h' = i
     else i = BRCMF_FWS_HANGER_MAXITEMS \<and> failed_slotfind h' = failed_slotfind h + 1 \<and>
          (\<forall>j < BRCMF_FWS_HANGER_MAXITEMS. j \<noteq> slot_pos h \<longrightarrow> \<not> item_free h j))"
proof -
  let ?i = "(slot_pos h + 1) mod BRCMF_FWS_HANGER_MAXITEMS"
  note start = unat_hanger_start [OF assms]
  have p: "unat (slot_pos h) < 3072" using assms by (simp add: word_less_nat_alt)
  have i: "?i < BRCMF_FWS_HANGER_MAXITEMS"
    unfolding word_less_nat_alt start using adv_less [OF p, of 1] by simp
  have all: "\<forall>j < BRCMF_FWS_HANGER_MAXITEMS. j \<noteq> slot_pos h \<longrightarrow> \<not> item_free h j"
    if "\<forall>k < dist 3072 (unat ?i) (unat (slot_pos h)).
          hi_state (hg_items h (adv 3072 (unat ?i) k)) \<noteq> BRCMF_FWS_HANGER_ITEM_STATE_FREE"
  proof (intro allI impI)
    fix j
    assume "j < BRCMF_FWS_HANGER_MAXITEMS" "j \<noteq> slot_pos h"
    then have "unat j < 3072" "unat j \<noteq> unat (slot_pos h)"
      by (simp_all add: word_less_nat_alt word_unat_eq_iff)
    from hanger_search_covers [OF p this] that show "\<not> item_free h j" unfolding start by auto
  qed
  from find_free_slot_result [OF i assms refl] show ?thesis
  proof (elim disjE conjE exE)
    assume "find_free_slot h ?i = Some None"
      "\<forall>k < dist 3072 (unat ?i) (unat (slot_pos h)).
          hi_state (hg_items h (adv 3072 (unat ?i) k)) \<noteq> BRCMF_FWS_HANGER_ITEM_STATE_FREE"
    then show ?thesis
      using all assms
      by (intro exI [of _ BRCMF_FWS_HANGER_MAXITEMS]
          exI [of _ "h\<lparr>failed_slotfind := failed_slotfind h + 1\<rparr>"])
        (simp add: brcmf_fws_hanger_get_free_slot_def)
  next
    fix j
    assume "find_free_slot h ?i = Some (Some j)" "j < BRCMF_FWS_HANGER_MAXITEMS" "item_free h j"
      "j \<noteq> slot_pos h"
    then show ?thesis
      by (intro exI [of _ j] exI [of _ "h\<lparr>slot_pos := j\<rparr>"])
        (simp add: brcmf_fws_hanger_get_free_slot_def)
  qed
qed

text \<open>
  From a position inside the hanger the search for a free slot ends. It returns a free
  slot other than the last one handed out and remembers it, or the number of slots, and then
  no other slot is free; it never changes the slots.
\<close>
theorem hanger_get_free_slot_spec:
  assumes "slot_pos h < BRCMF_FWS_HANGER_MAXITEMS"
  shows "\<exists>i h'. brcmf_fws_hanger_get_free_slot h = Some (i, h') \<and> hg_items h' = hg_items h \<and>
    slot_pos h' < BRCMF_FWS_HANGER_MAXITEMS \<and>
    (if i < BRCMF_FWS_HANGER_MAXITEMS
     then item_free h i \<and> i \<noteq> slot_pos h \<and> slot_pos h' = i
     else i = BRCMF_FWS_HANGER_MAXITEMS \<and> failed_slotfind h' = failed_slotfind h + 1 \<and>
          (\<forall>j < BRCMF_FWS_HANGER_MAXITEMS. j \<noteq> slot_pos h \<longrightarrow> \<not> item_free h j))"
  using assms by (rule hanger_search)

definition sample_hanger :: brcmf_fws_hanger where
  "sample_hanger = snd (brcmf_fws_hanger_pushpkt (brcmf_fws_hanger_init\<lparr>slot_pos := 3070\<rparr>) 7 3071)"

theorem hanger_get_free_slot_spec_witness:
  "slot_pos sample_hanger < BRCMF_FWS_HANGER_MAXITEMS \<and>
   (\<exists>i h'. brcmf_fws_hanger_get_free_slot sample_hanger = Some (i, h') \<and>
      hg_items h' = hg_items sample_hanger)"
proof -
  have "slot_pos sample_hanger < BRCMF_FWS_HANGER_MAXITEMS" by code_simp
  with hanger_get_free_slot_spec [OF this] show ?thesis by blast
qed

subsection \<open>The hanger as a slot store\<close>

definition hanger_slot :: "brcmf_fws_hanger \<Rightarrow> u32 \<Rightarrow> pkt option" where
  "hanger_slot h i =
     (if i < BRCMF_FWS_HANGER_MAXITEMS \<and> \<not> item_free h i then hi_pkt (hg_items h (unat i)) else None)"

definition hanger_put :: "brcmf_fws_hanger \<Rightarrow> u32 \<Rightarrow> pkt \<Rightarrow> bool \<times> brcmf_fws_hanger" where
  "hanger_put h i p = (case brcmf_fws_hanger_pushpkt h p i of
      (Inr _, h') \<Rightarrow> (True, h') | (Inl _, h') \<Rightarrow> (False, h'))"

definition hanger_take :: "brcmf_fws_hanger \<Rightarrow> u32 \<Rightarrow> pkt option \<times> brcmf_fws_hanger" where
  "hanger_take h i = (case brcmf_fws_hanger_poppkt h i True of
      (Inr p, h') \<Rightarrow> (p, h') | (Inl _, h') \<Rightarrow> (None, h'))"

interpretation hanger_store: slot_store hanger_slot hanger_put hanger_take
proof
  fix h h' :: brcmf_fws_hanger and i :: u32 and p :: pkt
  show "hanger_put h i p = (True, h') \<Longrightarrow>
      hanger_slot h i = None \<and> hanger_slot h' = (hanger_slot h)(i := Some p)"
    by (rule conjI; (rule ext)?)
      (auto simp: hanger_put_def brcmf_fws_hanger_pushpkt_def hanger_slot_def
        split: if_splits sum.splits dest: unat_eqD)
  show "hanger_put h i p = (False, h') \<Longrightarrow> hanger_slot h' = hanger_slot h"
    by (rule ext) (auto simp: hanger_put_def brcmf_fws_hanger_pushpkt_def hanger_slot_def
        split: if_splits sum.splits dest: unat_eqD)
  show "hanger_take h i = (Some p, h') \<Longrightarrow>
      hanger_slot h i = Some p \<and> hanger_slot h' = (hanger_slot h)(i := None)"
    by (rule conjI; (rule ext)?)
      (auto simp: hanger_take_def brcmf_fws_hanger_poppkt_def hanger_slot_def
        split: if_splits sum.splits dest: unat_eqD)
  show "hanger_take h i = (None, h') \<Longrightarrow> hanger_slot h' = hanger_slot h"
    by (rule ext) (auto simp: hanger_take_def brcmf_fws_hanger_poppkt_def hanger_slot_def
        split: if_splits sum.splits dest: unat_eqD)
qed

text \<open>
  Over any sequence of pushes and pops on the hanger, the packets popped from a slot,
  followed by the one still in it, are the packets pushed into it, in order: a status report
  always finds the packet that was put into its slot last, and never the same packet twice.
\<close>
theorem hanger_slot_history:
  assumes "slot_run hanger_put hanger_take h ops = (ins, outs, h')"
  shows "slot_list (hanger_slot h i) @ on_slot i ins = on_slot i outs @ slot_list (hanger_slot h' i)"
  using assms by (rule hanger_store.slot_history)

theorem hanger_slot_history_witness:
  "\<exists>h'. slot_run hanger_put hanger_take brcmf_fws_hanger_init
      [Put 4 10, Put 4 11, Take 4, Take 4, Put 4 12] = ([(4, 10), (4, 12)], [(4, 10)], h') \<and>
    slot_list (hanger_slot h' 4) = [12]"
proof -
  let ?ops = "[Put 4 10, Put 4 11, Take 4, Take 4, Put 4 12]"
  let ?r = "slot_run hanger_put hanger_take brcmf_fws_hanger_init ?ops"
  have "fst ?r = [(4, 10), (4, 12)]" "fst (snd ?r) = [(4, 10)]" by code_simp+
  then obtain h' where r: "?r = ([(4, 10), (4, 12)], [(4, 10)], h')" by (metis prod.collapse)
  have "hanger_slot brcmf_fws_hanger_init 4 = None" by code_simp
  with hanger_slot_history [OF r, of 4] r show ?thesis by simp
qed

end
