(* ===== verification/Fifo_Interface.thy ===== *)
theory Fifo_Interface
  imports Brcm_Prelude
begin

section \<open>The interface of a first-in first-out queue with limited room\<close>

text \<open>
  Several components hand packets or messages to each other through queues: the precedences
  of a packet queue, the event queue of the firmware event handler, the shared rings. Each
  provides the interface below: an enqueue that may be refused, a dequeue that may find
  nothing, an invariant both keep, and the list of what waits.

  The client lemma is proved once for every provider: over any interleaving of enqueues and
  dequeues, what was accepted comes out once each and in order.
\<close>

datatype 'p fifo_op = Enq 'p | Deq

text \<open>A run of operations: the packets accepted, the packets delivered, the final queue.\<close>

fun run_fifo ::
    "('q \<Rightarrow> 'p \<Rightarrow> 'p option \<times> 'q) \<Rightarrow> ('q \<Rightarrow> 'p option \<times> 'q) \<Rightarrow> 'q \<Rightarrow> 'p fifo_op list
      \<Rightarrow> 'p list \<times> 'p list \<times> 'q" where
  "run_fifo enq deq q [] = ([], [], q)"
| "run_fifo enq deq q (Enq p # ops) =
     (case enq q p of
        (None, q') \<Rightarrow> run_fifo enq deq q' ops
      | (Some x, q') \<Rightarrow> (case run_fifo enq deq q' ops of (acc, out, r) \<Rightarrow> (x # acc, out, r)))"
| "run_fifo enq deq q (Deq # ops) =
     (case deq q of
        (None, q') \<Rightarrow> run_fifo enq deq q' ops
      | (Some x, q') \<Rightarrow> (case run_fifo enq deq q' ops of (acc, out, r) \<Rightarrow> (acc, x # out, r)))"

locale bounded_fifo =
  fixes invar :: "'q \<Rightarrow> bool"
    and content :: "'q \<Rightarrow> 'p list"
    and full :: "'q \<Rightarrow> bool"
    and enq :: "'q \<Rightarrow> 'p \<Rightarrow> 'p option \<times> 'q"
    and deq :: "'q \<Rightarrow> 'p option \<times> 'q"
  assumes enq_full: "invar q \<Longrightarrow> full q \<Longrightarrow> fst (enq q p) = None \<and> content (snd (enq q p)) = content q"
    and enq_room: "invar q \<Longrightarrow> \<not> full q \<Longrightarrow>
      fst (enq q p) = Some p \<and> content (snd (enq q p)) = content q @ [p]"
    and enq_invar: "invar q \<Longrightarrow> invar (snd (enq q p))"
    and deq_Nil: "invar q \<Longrightarrow> content q = [] \<Longrightarrow> fst (deq q) = None \<and> content (snd (deq q)) = []"
    and deq_Cons: "invar q \<Longrightarrow> content q = p # ps \<Longrightarrow>
      fst (deq q) = Some p \<and> content (snd (deq q)) = ps"
    and deq_invar: "invar q \<Longrightarrow> invar (snd (deq q))"
begin

lemma enq_cases:
  assumes "invar q"
  obtains q' where "full q" "enq q p = (None, q')" "invar q'" "content q' = content q"
  | q' where "\<not> full q" "enq q p = (Some p, q')" "invar q'" "content q' = content q @ [p]"
  using enq_full [OF assms, of p] enq_room [OF assms, of p] enq_invar [OF assms, of p]
  by (cases "full q") (metis prod.collapse)+

lemma deq_cases:
  assumes "invar q"
  obtains q' where "content q = []" "deq q = (None, q')" "invar q'" "content q' = []"
  | p q' where "content q = p # content q'" "deq q = (Some p, q')" "invar q'"
proof (cases "content q")
  case Nil
  with deq_Nil [OF assms] deq_invar [OF assms] that(1) [of "snd (deq q)"] show ?thesis
    by (metis prod.collapse)
next
  case (Cons p ps)
  with deq_Cons [OF assms Cons] deq_invar [OF assms] that(2) [of p "snd (deq q)"] show ?thesis
    by (metis prod.collapse)
qed

lemma fifo_order:
  assumes "invar q" "run_fifo enq deq q ops = (acc, out, r)"
  shows "content q @ acc = out @ content r \<and> invar r"
  using assms
proof (induction ops arbitrary: q acc out)
  case Nil
  then show ?case by simp
next
  case (Cons op ops)
  show ?case
  proof (cases op)
    case (Enq p)
    from Cons.prems(1) show ?thesis
    proof (cases rule: enq_cases [of q p])
      case (1 q')
      with Cons.prems(2) Cons.IH [OF 1(3)] Enq show ?thesis by auto
    next
      case (2 q')
      with Cons.prems(2) Cons.IH [OF 2(3)] Enq show ?thesis by (auto split: prod.splits)
    qed
  next
    case Deq
    from Cons.prems(1) show ?thesis
    proof (cases rule: deq_cases [of q])
      case (1 q')
      with Cons.prems(2) Cons.IH [OF 1(3)] Deq show ?thesis by auto
    next
      case (2 p q')
      with Cons.prems(2) Cons.IH [OF 2(3)] Deq show ?thesis by (auto split: prod.splits)
    qed
  qed
qed

end

end
