(* ===== verification/Pktq.thy ===== *)
theory Pktq
  imports Fifo_Interface
begin

section \<open>The multi-precedence packet queue (brcmutil/utils.c, brcmu_utils.h)\<close>

text \<open>
  The driver keeps packets that wait for the firmware in a queue with up to 16 precedences.
  A packet is a pointer to a kernel socket buffer; its type is the parameter \<open>'p\<close> here.
  A \<open>sk_buff_head\<close> is the list of its packets, head first; \<open>qlen\<close> is the length of
  that list. The counters keep their 16-bit width.

  The theory shows: every operation keeps the well-formedness invariant \<open>pktq_wf\<close> (the total
  length counts the queued packets and never passes the maximum, \<open>hi_prec\<close> is never below a
  non-empty precedence); what each operation returns on every branch; that the priority
  dequeue returns the head of the highest eligible precedence, and nothing exactly when no
  eligible packet waits; and that each precedence is a bounded FIFO, stated as the interface
  \<open>bounded_fifo\<close> that the firmware-signalling layer relies on.
\<close>

subsection \<open>Data\<close>

abbreviation PKTQ_MAX_PREC :: nat where
  "PKTQ_MAX_PREC \<equiv> 16"

record 'p pktq_prec =
  skblist :: "'p list"
  prec_max :: u16

record 'p pktq =
  num_prec :: u16
  hi_prec :: u16
  pq_max :: u16
  pq_len :: u16
  pq_q :: "'p pktq_prec list"

abbreviation skbs :: "'p pktq \<Rightarrow> nat \<Rightarrow> 'p list" where
  "skbs pq prec \<equiv> skblist (pq_q pq ! prec)"

definition set_skbs :: "'p pktq \<Rightarrow> nat \<Rightarrow> 'p list \<Rightarrow> 'p pktq" where
  "set_skbs pq prec xs = pq\<lparr>pq_q := (pq_q pq)[prec := (pq_q pq ! prec)\<lparr>skblist := xs\<rparr>]\<rparr>"

subsection \<open>The inline accessors\<close>

definition pktq_plen :: "'p pktq \<Rightarrow> nat \<Rightarrow> nat" where
  "pktq_plen pq prec = length (skbs pq prec)"

definition pktq_pavail :: "'p pktq \<Rightarrow> nat \<Rightarrow> int" where
  "pktq_pavail pq prec = uint (prec_max (pq_q pq ! prec)) - int (length (skbs pq prec))"

definition pktq_pfull :: "'p pktq \<Rightarrow> nat \<Rightarrow> bool" where
  "pktq_pfull pq prec = (unat (prec_max (pq_q pq ! prec)) \<le> length (skbs pq prec))"

definition pktq_pempty :: "'p pktq \<Rightarrow> nat \<Rightarrow> bool" where
  "pktq_pempty pq prec = (skbs pq prec = [])"

definition pktq_ppeek :: "'p pktq \<Rightarrow> nat \<Rightarrow> 'p option" where
  "pktq_ppeek pq prec = (case skbs pq prec of [] \<Rightarrow> None | x # _ \<Rightarrow> Some x)"

definition pktq_ppeek_tail :: "'p pktq \<Rightarrow> nat \<Rightarrow> 'p option" where
  "pktq_ppeek_tail pq prec = (if skbs pq prec = [] then None else Some (last (skbs pq prec)))"

definition pktq_avail :: "'p pktq \<Rightarrow> int" where
  "pktq_avail pq = uint (pq_max pq) - uint (pq_len pq)"

definition pktq_full :: "'p pktq \<Rightarrow> bool" where
  "pktq_full pq = (pq_max pq \<le> pq_len pq)"

definition pktq_empty :: "'p pktq \<Rightarrow> bool" where
  "pktq_empty pq = (pq_len pq = 0)"

subsection \<open>Operations on one precedence\<close>

definition brcmu_pktq_penq :: "'p pktq \<Rightarrow> nat \<Rightarrow> 'p \<Rightarrow> 'p option \<times> 'p pktq" where
  "brcmu_pktq_penq pq prec p =
     (if pktq_full pq \<or> pktq_pfull pq prec then (None, pq)
      else
        let pq = set_skbs pq prec (skbs pq prec @ [p]);
            pq = pq\<lparr>pq_len := pq_len pq + 1\<rparr>;
            pq = (if unat (hi_prec pq) < prec
                  then pq\<lparr>hi_prec := ucast (of_nat prec :: u8)\<rparr> else pq)
        in (Some p, pq))"

definition brcmu_pktq_penq_head :: "'p pktq \<Rightarrow> nat \<Rightarrow> 'p \<Rightarrow> 'p option \<times> 'p pktq" where
  "brcmu_pktq_penq_head pq prec p =
     (if pktq_full pq \<or> pktq_pfull pq prec then (None, pq)
      else
        let pq = set_skbs pq prec (p # skbs pq prec);
            pq = pq\<lparr>pq_len := pq_len pq + 1\<rparr>;
            pq = (if unat (hi_prec pq) < prec
                  then pq\<lparr>hi_prec := ucast (of_nat prec :: u8)\<rparr> else pq)
        in (Some p, pq))"

definition brcmu_pktq_pdeq :: "'p pktq \<Rightarrow> nat \<Rightarrow> 'p option \<times> 'p pktq" where
  "brcmu_pktq_pdeq pq prec =
     (case skbs pq prec of
        [] \<Rightarrow> (None, pq)
      | p # ps \<Rightarrow> (Some p, (set_skbs pq prec ps)\<lparr>pq_len := pq_len pq - 1\<rparr>))"

text \<open>
  \<open>match_fn\<close> is \<open>None\<close> for the null pointer, which matches every packet. The walk unlinks
  the first match.
\<close>

abbreviation matches :: "('p \<Rightarrow> bool) option \<Rightarrow> 'p \<Rightarrow> bool" where
  "matches fn p \<equiv> (case fn of None \<Rightarrow> True | Some f \<Rightarrow> f p)"

fun unlink_match :: "('p \<Rightarrow> bool) option \<Rightarrow> 'p list \<Rightarrow> ('p \<times> 'p list) option" where
  "unlink_match fn [] = None"
| "unlink_match fn (p # ps) =
     (if matches fn p then Some (p, ps)
      else map_option (\<lambda>(r, qs). (r, p # qs)) (unlink_match fn ps))"

definition brcmu_pktq_pdeq_match ::
    "'p pktq \<Rightarrow> nat \<Rightarrow> ('p \<Rightarrow> bool) option \<Rightarrow> 'p option \<times> 'p pktq" where
  "brcmu_pktq_pdeq_match pq prec match_fn =
     (case unlink_match match_fn (skbs pq prec) of
        None \<Rightarrow> (None, pq)
      | Some (p, ps) \<Rightarrow> (Some p, (set_skbs pq prec ps)\<lparr>pq_len := pq_len pq - 1\<rparr>))"

definition brcmu_pktq_pdeq_tail :: "'p pktq \<Rightarrow> nat \<Rightarrow> 'p option \<times> 'p pktq" where
  "brcmu_pktq_pdeq_tail pq prec =
     (if skbs pq prec = [] then (None, pq)
      else (Some (last (skbs pq prec)),
            (set_skbs pq prec (butlast (skbs pq prec)))\<lparr>pq_len := pq_len pq - 1\<rparr>))"

text \<open>The flush walk: the packets kept, the packets freed (in order) and the new total.\<close>

fun pflush_walk :: "('p \<Rightarrow> bool) option \<Rightarrow> 'p list \<Rightarrow> u16 \<Rightarrow> 'p list \<times> 'p list \<times> u16" where
  "pflush_walk fn [] len = ([], [], len)"
| "pflush_walk fn (p # ps) len =
     (if matches fn p
      then let (keep, freed, len') = pflush_walk fn ps (len - 1) in (keep, p # freed, len')
      else let (keep, freed, len') = pflush_walk fn ps len in (p # keep, freed, len'))"

definition brcmu_pktq_pflush ::
    "'p pktq \<Rightarrow> nat \<Rightarrow> ('p \<Rightarrow> bool) option \<Rightarrow> 'p list \<times> 'p pktq" where
  "brcmu_pktq_pflush pq prec fn =
     (let (keep, freed, len) = pflush_walk fn (skbs pq prec) (pq_len pq)
      in (freed, (set_skbs pq prec keep)\<lparr>pq_len := len\<rparr>))"

subsection \<open>Operations on the whole queue\<close>

fun pktq_flush_from ::
    "nat \<Rightarrow> nat \<Rightarrow> ('p \<Rightarrow> bool) option \<Rightarrow> 'p pktq \<Rightarrow> 'p list \<times> 'p pktq" where
  "pktq_flush_from prec 0 fn pq = ([], pq)"
| "pktq_flush_from prec (Suc n) fn pq =
     (let (freed, pq) = brcmu_pktq_pflush pq prec fn;
          (freed', pq) = pktq_flush_from (Suc prec) n fn pq
      in (freed @ freed', pq))"

definition brcmu_pktq_flush :: "'p pktq \<Rightarrow> ('p \<Rightarrow> bool) option \<Rightarrow> 'p list \<times> 'p pktq" where
  "brcmu_pktq_flush pq fn = pktq_flush_from 0 (unat (num_prec pq)) fn pq"

text \<open>Only the first \<open>num_prec\<close> entries of the array are cleared and initialised.\<close>

definition brcmu_pktq_init :: "'p pktq \<Rightarrow> nat \<Rightarrow> nat \<Rightarrow> 'p pktq" where
  "brcmu_pktq_init pq n max_len =
     \<lparr>num_prec = of_nat n, hi_prec = 0, pq_max = of_nat max_len, pq_len = 0,
      pq_q = replicate n \<lparr>skblist = [], prec_max = of_nat max_len\<rparr>
             @ drop n (pq_q pq)\<rparr>"

text \<open>The second component is what is stored to \<open>*prec_out\<close>, if anything.\<close>

definition brcmu_pktq_peek_tail :: "'p pktq \<Rightarrow> 'p option \<times> nat option" where
  "brcmu_pktq_peek_tail pq =
     (if pktq_empty pq then (None, None)
      else let prec = (case first_index (\<lambda>i. skbs pq i \<noteq> []) (unat (hi_prec pq)) of
                         None \<Rightarrow> unat (hi_prec pq) | Some i \<Rightarrow> i)
           in (pktq_ppeek_tail pq prec, Some prec))"

abbreviation in_bmp :: "u32 \<Rightarrow> nat \<Rightarrow> bool" where
  "in_bmp prec_bmp prec \<equiv> prec_bmp AND push_bit prec 1 \<noteq> 0"

definition brcmu_pktq_mlen :: "'p pktq \<Rightarrow> u32 \<Rightarrow> nat" where
  "brcmu_pktq_mlen pq prec_bmp =
     sum_list (map (\<lambda>prec. if in_bmp prec_bmp prec then length (skbs pq prec) else 0)
                   [0..<Suc (unat (hi_prec pq))])"

text \<open>The first loop of the priority dequeue lowers \<open>hi_prec\<close> past empty precedences.\<close>

fun lower_hi_prec :: "'p pktq_prec list \<Rightarrow> nat \<Rightarrow> nat" where
  "lower_hi_prec qs 0 = 0"
| "lower_hi_prec qs (Suc prec) =
     (if skblist (qs ! Suc prec) = [] then lower_hi_prec qs prec else Suc prec)"

text \<open>The second loop walks down to the highest eligible, non-empty precedence.\<close>

fun mdeq_prec :: "'p pktq_prec list \<Rightarrow> u32 \<Rightarrow> nat \<Rightarrow> nat option" where
  "mdeq_prec qs prec_bmp 0 =
     (if \<not> in_bmp prec_bmp 0 \<or> skblist (qs ! 0) = [] then None else Some 0)"
| "mdeq_prec qs prec_bmp (Suc prec) =
     (if \<not> in_bmp prec_bmp (Suc prec) \<or> skblist (qs ! Suc prec) = []
      then mdeq_prec qs prec_bmp prec else Some (Suc prec))"

definition brcmu_pktq_mdeq :: "'p pktq \<Rightarrow> u32 \<Rightarrow> ('p \<times> nat) option \<times> 'p pktq" where
  "brcmu_pktq_mdeq pq prec_bmp =
     (if pktq_empty pq then (None, pq)
      else
        let hi = lower_hi_prec (pq_q pq) (unat (hi_prec pq));
            pq = pq\<lparr>hi_prec := of_nat hi\<rparr>
        in case mdeq_prec (pq_q pq) prec_bmp hi of
             None \<Rightarrow> (None, pq)
           | Some prec \<Rightarrow>
               (case skbs pq prec of
                  [] \<Rightarrow> (None, pq)
                | p # ps \<Rightarrow> (Some (p, prec),
                            (set_skbs pq prec ps)\<lparr>pq_len := pq_len pq - 1\<rparr>)))"

subsection \<open>Well-formedness\<close>

definition pktq_total :: "'p pktq \<Rightarrow> nat" where
  "pktq_total pq = sum_list (map (\<lambda>q. length (skblist q)) (pq_q pq))"

definition pktq_wf :: "'p pktq \<Rightarrow> bool" where
  "pktq_wf pq \<longleftrightarrow>
     length (pq_q pq) = PKTQ_MAX_PREC \<and> unat (num_prec pq) \<le> PKTQ_MAX_PREC \<and>
     unat (hi_prec pq) < unat (num_prec pq) \<and>
     (\<forall>i<PKTQ_MAX_PREC. unat (hi_prec pq) < i \<longrightarrow> skbs pq i = []) \<and>
     unat (pq_len pq) = pktq_total pq \<and> pq_len pq \<le> pq_max pq \<and>
     (\<forall>i<unat (num_prec pq). length (skbs pq i) \<le> unat (prec_max (pq_q pq ! i)))"

lemma pktq_wfD:
  assumes "pktq_wf pq"
  shows "length (pq_q pq) = PKTQ_MAX_PREC" "unat (num_prec pq) \<le> PKTQ_MAX_PREC"
    "unat (hi_prec pq) < unat (num_prec pq)"
    "i < PKTQ_MAX_PREC \<Longrightarrow> unat (hi_prec pq) < i \<Longrightarrow> skbs pq i = []"
    "unat (pq_len pq) = pktq_total pq" "pq_len pq \<le> pq_max pq"
    "i < unat (num_prec pq) \<Longrightarrow> length (skbs pq i) \<le> unat (prec_max (pq_q pq ! i))"
  using assms by (auto simp: pktq_wf_def)

lemma pktq_prec_in_range: "pktq_wf pq \<Longrightarrow> i < unat (num_prec pq) \<Longrightarrow> i < length (pq_q pq)"
  using pktq_wfD(1,2) [of pq] by simp

lemma set_skbs_simps [simp]:
  "num_prec (set_skbs pq i xs) = num_prec pq" "hi_prec (set_skbs pq i xs) = hi_prec pq"
  "pq_max (set_skbs pq i xs) = pq_max pq" "pq_len (set_skbs pq i xs) = pq_len pq"
  "length (pq_q (set_skbs pq i xs)) = length (pq_q pq)"
  by (simp_all add: set_skbs_def)

lemma set_skbs_nth:
  "j < length (pq_q pq) \<Longrightarrow>
     pq_q (set_skbs pq i xs) ! j =
       (if j = i then (pq_q pq ! i)\<lparr>skblist := xs\<rparr> else pq_q pq ! j)"
  by (simp add: set_skbs_def)

lemma pktq_total_set:
  assumes "i < length (pq_q pq)"
  shows "pktq_total (set_skbs pq i xs) + length (skbs pq i) = pktq_total pq + length xs"
  using sum_list_upd_split [OF assms, of "\<lambda>q. length (skblist q)"
      "(pq_q pq ! i)\<lparr>skblist := xs\<rparr>"]
  by (simp add: pktq_total_def set_skbs_def)

lemma skbs_le_total: "i < length (pq_q pq) \<Longrightarrow> length (skbs pq i) \<le> pktq_total pq"
  unfolding pktq_total_def by (rule sum_list_nth_le)

lemma pktq_total_frame [simp]:
  "pktq_total (pq\<lparr>pq_len := l\<rparr>) = pktq_total pq" "pktq_total (pq\<lparr>hi_prec := h\<rparr>) = pktq_total pq"
  by (simp_all add: pktq_total_def)

lemma pktq_empty_total: "pktq_wf pq \<Longrightarrow> pktq_empty pq \<longleftrightarrow> pktq_total pq = 0"
  using pktq_wfD(5) [of pq] by (simp add: pktq_empty_def unat_eq_0 [symmetric])

lemma pktq_wf_hi_prec:
  assumes "pktq_wf pq" "h < unat (num_prec pq)"
    and "\<And>i. i < PKTQ_MAX_PREC \<Longrightarrow> h < i \<Longrightarrow> skbs pq i = []"
  shows "pktq_wf (pq\<lparr>hi_prec := of_nat h\<rparr>)"
proof -
  have "unat (of_nat h :: u16) = h"
    using assms(2) by (intro unat_of_nat_le [of h "num_prec pq"]) simp
  then show ?thesis using assms by (simp add: pktq_wf_def)
qed

text \<open>
  The two ways an operation changes a queue: packets leave a precedence, or one packet
  enters it. Every operation is one of these, so each is proved once.
\<close>

lemma pktq_wf_remove:
  assumes wf: "pktq_wf pq" and i: "i < unat (num_prec pq)"
    and len: "length xs + k = length (skbs pq i)"
  shows "pktq_wf ((set_skbs pq i xs)\<lparr>pq_len := pq_len pq - of_nat k\<rparr>)"
proof -
  note i' = pktq_prec_in_range [OF wf i]
  have tot: "pktq_total (set_skbs pq i xs) + k = pktq_total pq"
    using pktq_total_set [OF i', of xs] len by simp
  have k: "k \<le> unat (pq_len pq)"
    using tot pktq_wfD(5) [OF wf] by simp
  have "unat (of_nat k :: u16) = k"
    using k by (rule unat_of_nat_le)
  then have ul: "unat (pq_len pq - of_nat k) = unat (pq_len pq) - k"
    using k by (simp add: unat_sub word_le_nat_alt)
  have ules: "pq_len pq - of_nat k \<le> pq_max pq"
    using ul pktq_wfD(6) [OF wf] by (simp add: word_le_nat_alt)
  have shorter: "length (skblist (pq_q (set_skbs pq i xs) ! j)) \<le> length (skbs pq j)"
    if "j < length (pq_q pq)" for j
    using that len by (simp add: set_skbs_nth)
  have "length (skblist (pq_q (set_skbs pq i xs) ! j)) \<le> unat (prec_max (pq_q pq ! j))"
    if "j < unat (num_prec pq)" for j
    using shorter [OF pktq_prec_in_range [OF wf that]] pktq_wfD(7) [OF wf that] by linarith
  moreover have "skblist (pq_q (set_skbs pq i xs) ! j) = []"
    if "j < PKTQ_MAX_PREC" "unat (hi_prec pq) < j" for j
    using shorter [of j] that pktq_wfD(1,4) [OF wf] by simp
  moreover have "prec_max (pq_q (set_skbs pq i xs) ! j) = prec_max (pq_q pq ! j)"
    if "j < unat (num_prec pq)" for j
    using pktq_prec_in_range [OF wf that] by (simp add: set_skbs_nth)
  ultimately show ?thesis
    using wf ul ules tot by (simp add: pktq_wf_def)
qed

lemma pktq_wf_insert:
  assumes wf: "pktq_wf pq" and i: "i < unat (num_prec pq)"
    and room: "\<not> pktq_full pq" "\<not> pktq_pfull pq i"
    and len: "length xs = Suc (length (skbs pq i))"
    and hi: "unat h = max (unat (hi_prec pq)) i"
  shows "pktq_wf ((set_skbs pq i xs)\<lparr>pq_len := pq_len pq + 1, hi_prec := h\<rparr>)"
proof -
  note i' = pktq_prec_in_range [OF wf i]
  have tot: "pktq_total (set_skbs pq i xs) = Suc (pktq_total pq)"
    using pktq_total_set [OF i', of xs] len by simp
  have lt: "pq_len pq < pq_max pq"
    using room(1) by (simp add: pktq_full_def)
  then have ul: "unat (pq_len pq + 1) = unat (pq_len pq) + 1"
    by (rule unat_succ_lt)
  then have ules: "pq_len pq + 1 \<le> pq_max pq"
    using lt by (simp add: word_le_nat_alt word_less_nat_alt)
  have "length (skblist (pq_q (set_skbs pq i xs) ! j))
      \<le> unat (prec_max (pq_q (set_skbs pq i xs) ! j))" if "j < unat (num_prec pq)" for j
    using pktq_prec_in_range [OF wf that] pktq_wfD(7) [OF wf that] room(2) len
    by (auto simp: set_skbs_nth pktq_pfull_def)
  moreover have "skblist (pq_q (set_skbs pq i xs) ! j) = []"
    if "j < PKTQ_MAX_PREC" "unat h < j" for j
    using that hi pktq_wfD(1,4) [OF wf] by (simp add: set_skbs_nth)
  ultimately show ?thesis
    using wf ul ules tot i hi by (simp add: pktq_wf_def)
qed

subsection \<open>Every operation keeps the queue well-formed\<close>

lemma unat_prec_cast: "i < PKTQ_MAX_PREC \<Longrightarrow> unat (ucast (of_nat i :: u8) :: u16) = i"
  by (simp add: unsigned_of_nat unsigned_ucast_eq take_bit_nat_eq_self)

lemma pktq_wf_enq:
  assumes wf: "pktq_wf pq" and i: "i < unat (num_prec pq)"
    and room: "\<not> pktq_full pq" "\<not> pktq_pfull pq i"
    and len: "length xs = Suc (length (skbs pq i))"
  shows "pktq_wf ((set_skbs pq i xs)\<lparr>pq_len := pq_len pq + 1,
           hi_prec := if unat (hi_prec pq) < i then ucast (of_nat i :: u8) else hi_prec pq\<rparr>)"
proof -
  have "i < PKTQ_MAX_PREC" using i pktq_wfD(2) [OF wf] by simp
  then show ?thesis
    by (intro pktq_wf_insert [OF wf i room len]) (simp add: unat_prec_cast)
qed

lemma penq_cases:
  obtains (Full) "pktq_full pq \<or> pktq_pfull pq i" "brcmu_pktq_penq pq i p = (None, pq)"
  | (Room) "\<not> pktq_full pq" "\<not> pktq_pfull pq i"
      "brcmu_pktq_penq pq i p =
         (Some p, (set_skbs pq i (skbs pq i @ [p]))\<lparr>pq_len := pq_len pq + 1,
           hi_prec := if unat (hi_prec pq) < i then ucast (of_nat i :: u8) else hi_prec pq\<rparr>)"
  by (cases "pktq_full pq \<or> pktq_pfull pq i") (auto simp: brcmu_pktq_penq_def Let_def)

lemma penq_head_cases:
  obtains (Full) "pktq_full pq \<or> pktq_pfull pq i" "brcmu_pktq_penq_head pq i p = (None, pq)"
  | (Room) "\<not> pktq_full pq" "\<not> pktq_pfull pq i"
      "brcmu_pktq_penq_head pq i p =
         (Some p, (set_skbs pq i (p # skbs pq i))\<lparr>pq_len := pq_len pq + 1,
           hi_prec := if unat (hi_prec pq) < i then ucast (of_nat i :: u8) else hi_prec pq\<rparr>)"
  by (cases "pktq_full pq \<or> pktq_pfull pq i") (auto simp: brcmu_pktq_penq_head_def Let_def)

lemma penq_wf:
  assumes "pktq_wf pq" "i < unat (num_prec pq)"
  shows "pktq_wf (snd (brcmu_pktq_penq pq i p))"
proof (cases rule: penq_cases [of pq i p])
  case Full
  with assms show ?thesis by simp
next
  case Room
  with pktq_wf_enq [OF assms Room(1,2), of "skbs pq i @ [p]"] show ?thesis by simp
qed

lemma penq_head_wf:
  assumes "pktq_wf pq" "i < unat (num_prec pq)"
  shows "pktq_wf (snd (brcmu_pktq_penq_head pq i p))"
proof (cases rule: penq_head_cases [of pq i p])
  case Full
  with assms show ?thesis by simp
next
  case Room
  with pktq_wf_enq [OF assms Room(1,2), of "p # skbs pq i"] show ?thesis by simp
qed

lemma pdeq_wf:
  assumes "pktq_wf pq" "i < unat (num_prec pq)"
  shows "pktq_wf (snd (brcmu_pktq_pdeq pq i))"
  using assms pktq_wf_remove [OF assms, of _ 1]
  by (auto simp: brcmu_pktq_pdeq_def split: list.splits)

lemma unlink_match_Some:
  "unlink_match fn xs = Some (p, ys) \<Longrightarrow>
     \<exists>us vs. xs = us @ p # vs \<and> ys = us @ vs \<and> matches fn p \<and> (\<forall>u\<in>set us. \<not> matches fn u)"
proof (induction xs arbitrary: ys)
  case Nil
  then show ?case by simp
next
  case (Cons x xs)
  show ?case
  proof (cases "matches fn x")
    case True
    with Cons.prems show ?thesis by (intro exI [of _ "[]"] exI [of _ xs]) auto
  next
    case False
    with Cons.prems obtain zs where zs: "unlink_match fn xs = Some (p, zs)" "ys = x # zs"
      by auto
    from Cons.IH [OF zs(1)] obtain us vs where "xs = us @ p # vs" "zs = us @ vs" "matches fn p"
      "\<forall>u\<in>set us. \<not> matches fn u" by blast
    with zs(2) False show ?thesis by (intro exI [of _ "x # us"] exI [of _ vs]) auto
  qed
qed

lemma unlink_match_None: "unlink_match fn xs = None \<longleftrightarrow> (\<forall>x\<in>set xs. \<not> matches fn x)"
  by (induction xs) auto

lemma unlink_match_length: "unlink_match fn xs = Some (p, ys) \<Longrightarrow> length ys + 1 = length xs"
  by (drule unlink_match_Some) auto

lemma pdeq_match_wf:
  assumes "pktq_wf pq" "i < unat (num_prec pq)"
  shows "pktq_wf (snd (brcmu_pktq_pdeq_match pq i fn))"
  using assms pktq_wf_remove [OF assms, of _ 1]
  by (auto simp: brcmu_pktq_pdeq_match_def dest: unlink_match_length split: option.splits)

lemma pdeq_tail_wf:
  assumes "pktq_wf pq" "i < unat (num_prec pq)"
  shows "pktq_wf (snd (brcmu_pktq_pdeq_tail pq i))"
  using assms pktq_wf_remove [OF assms, of "butlast (skbs pq i)" 1]
  by (auto simp: brcmu_pktq_pdeq_tail_def)

lemma pflush_walk_eq:
  "pflush_walk fn xs len =
     (filter (\<lambda>p. \<not> matches fn p) xs, filter (\<lambda>p. matches fn p) xs,
      len - of_nat (length (filter (\<lambda>p. matches fn p) xs)))"
  by (induction xs arbitrary: len) (auto simp: algebra_simps split: option.splits)

lemma pflush_eq:
  "brcmu_pktq_pflush pq i fn =
     (filter (\<lambda>p. matches fn p) (skbs pq i),
      (set_skbs pq i (filter (\<lambda>p. \<not> matches fn p) (skbs pq i)))
        \<lparr>pq_len := pq_len pq - of_nat (length (filter (\<lambda>p. matches fn p) (skbs pq i)))\<rparr>)"
  by (simp add: brcmu_pktq_pflush_def pflush_walk_eq)

lemma pflush_wf:
  assumes "pktq_wf pq" "i < unat (num_prec pq)"
  shows "pktq_wf (snd (brcmu_pktq_pflush pq i fn))"
proof -
  have "length (filter (\<lambda>p. \<not> matches fn p) (skbs pq i))
      + length (filter (\<lambda>p. matches fn p) (skbs pq i)) = length (skbs pq i)"
    using sum_length_filter_compl [of "\<lambda>p. matches fn p" "skbs pq i"] by linarith
  from pktq_wf_remove [OF assms this] show ?thesis by (simp add: pflush_eq)
qed

lemma lower_hi_prec_le: "lower_hi_prec qs h \<le> h"
  by (induction qs h rule: lower_hi_prec.induct) auto

lemma lower_hi_prec_empty: "lower_hi_prec qs h < j \<Longrightarrow> j \<le> h \<Longrightarrow> skblist (qs ! j) = []"
  by (induction qs h rule: lower_hi_prec.induct) (auto simp: le_Suc_eq split: if_splits)

lemma lower_hi_prec_wf:
  assumes wf: "pktq_wf pq"
  shows "pktq_wf (pq\<lparr>hi_prec := of_nat (lower_hi_prec (pq_q pq) (unat (hi_prec pq)))\<rparr>)"
proof (rule pktq_wf_hi_prec [OF wf])
  show "lower_hi_prec (pq_q pq) (unat (hi_prec pq)) < unat (num_prec pq)"
    using lower_hi_prec_le pktq_wfD(3) [OF wf] by (rule le_less_trans)
  fix j
  assume "j < PKTQ_MAX_PREC" "lower_hi_prec (pq_q pq) (unat (hi_prec pq)) < j"
  then show "skbs pq j = []"
    using lower_hi_prec_empty pktq_wfD(4) [OF wf, of j] by (meson not_less)
qed

lemma mdeq_prec_Some:
  "mdeq_prec qs bmp h = Some i \<Longrightarrow>
     i \<le> h \<and> in_bmp bmp i \<and> skblist (qs ! i) \<noteq> [] \<and>
     (\<forall>j. i < j \<and> j \<le> h \<longrightarrow> \<not> in_bmp bmp j \<or> skblist (qs ! j) = [])"
  by (induction qs bmp h rule: mdeq_prec.induct) (auto simp: le_Suc_eq split: if_splits)

lemma mdeq_prec_None:
  "mdeq_prec qs bmp h = None \<longleftrightarrow> (\<forall>j\<le>h. \<not> in_bmp bmp j \<or> skblist (qs ! j) = [])"
  by (induction qs bmp h rule: mdeq_prec.induct) (auto simp: le_Suc_eq)

lemma mdeq_wf:
  assumes wf: "pktq_wf pq"
  shows "pktq_wf (snd (brcmu_pktq_mdeq pq bmp))"
proof -
  define pq' where "pq' = pq\<lparr>hi_prec := of_nat (lower_hi_prec (pq_q pq) (unat (hi_prec pq)))\<rparr>"
  have wf': "pktq_wf pq'"
    unfolding pq'_def by (rule lower_hi_prec_wf [OF wf])
  have "pktq_wf ((set_skbs pq' i ps)\<lparr>pq_len := pq_len pq - 1\<rparr>)"
    if i: "mdeq_prec (pq_q pq) bmp (lower_hi_prec (pq_q pq) (unat (hi_prec pq))) = Some i"
      and ps: "skbs pq i = p # ps" for i p ps
  proof -
    have "i \<le> unat (hi_prec pq)"
      using mdeq_prec_Some [OF i] lower_hi_prec_le le_trans by blast
    then have "i < unat (num_prec pq')"
      using pktq_wfD(3) [OF wf] by (simp add: pq'_def)
    from pktq_wf_remove [OF wf' this, of ps 1] ps show ?thesis by (simp add: pq'_def)
  qed
  then show ?thesis
    using wf wf' by (auto simp: brcmu_pktq_mdeq_def Let_def pq'_def split: option.split list.split)
qed

subsection \<open>What the operations return\<close>

lemma penq_content:
  assumes "pktq_wf pq" "i < unat (num_prec pq)" "j < PKTQ_MAX_PREC"
  shows "skbs (snd (brcmu_pktq_penq pq i p)) j =
           (if fst (brcmu_pktq_penq pq i p) \<noteq> None \<and> j = i then skbs pq i @ [p] else skbs pq j)"
  using assms pktq_wfD(1) [OF assms(1)]
  by (cases rule: penq_cases [of pq i p]) (simp_all add: set_skbs_nth)

lemma pdeq_content:
  assumes "pktq_wf pq" "i < unat (num_prec pq)"
  shows "fst (brcmu_pktq_pdeq pq i) = pktq_ppeek pq i"
    and "skbs (snd (brcmu_pktq_pdeq pq i)) i = tl (skbs pq i)"
  using pktq_prec_in_range [OF assms]
  by (auto simp: brcmu_pktq_pdeq_def pktq_ppeek_def set_skbs_nth split: list.split)

lemma num_prec_frame [simp]:
  "num_prec (snd (brcmu_pktq_penq pq i p)) = num_prec pq"
  "num_prec (snd (brcmu_pktq_penq_head pq i p)) = num_prec pq"
  "num_prec (snd (brcmu_pktq_pdeq pq i)) = num_prec pq"
  "num_prec (snd (brcmu_pktq_pflush pq i fn)) = num_prec pq"
  by (auto simp: brcmu_pktq_penq_def brcmu_pktq_penq_head_def brcmu_pktq_pdeq_def pflush_eq
      Let_def split: list.split)

text \<open>Each precedence in use is a bounded FIFO.\<close>

interpretation prec_fifo: bounded_fifo
  "\<lambda>pq. pktq_wf pq \<and> i < unat (num_prec pq)" "\<lambda>pq. skbs pq i"
  "\<lambda>pq. pktq_full pq \<or> pktq_pfull pq i" "\<lambda>pq. brcmu_pktq_penq pq i" "\<lambda>pq. brcmu_pktq_pdeq pq i"
  for i
proof (unfold_locales, goal_cases)
  case (1 q p)
  then show ?case by (simp add: brcmu_pktq_penq_def)
next
  case (2 q p)
  then have "i < PKTQ_MAX_PREC" using pktq_wfD(2) [of q] by simp
  with 2 penq_content [of q i i p] show ?case
    by (cases rule: penq_cases [of q i p]) auto
next
  case (3 q p)
  then show ?case by (simp add: penq_wf)
next
  case (4 q)
  then show ?case by (simp add: pdeq_content pktq_ppeek_def)
next
  case (5 q p ps)
  then show ?case by (simp add: pdeq_content pktq_ppeek_def)
next
  case (6 q)
  then show ?case by (simp add: pdeq_wf)
qed

lemma pktq_flush_from_Suc:
  "pktq_flush_from k (Suc n) fn pq =
     (let r = brcmu_pktq_pflush pq k fn; r' = pktq_flush_from (Suc k) n fn (snd r)
      in (fst r @ fst r', snd r'))"
  by (simp add: Let_def split: prod.split)

lemma pktq_flush_from_wf:
  assumes "pktq_wf pq" "k + n \<le> unat (num_prec pq)"
  shows "pktq_wf (snd (pktq_flush_from k n fn pq))"
  using assms
proof (induction n arbitrary: k pq)
  case 0
  then show ?case by simp
next
  case (Suc n)
  then have "pktq_wf (snd (brcmu_pktq_pflush pq k fn))"
    by (intro pflush_wf) auto
  with Suc show ?case by (simp add: pktq_flush_from_Suc Let_def del: pktq_flush_from.simps)
qed

lemma pflush_content:
  assumes "length (pq_q pq) = PKTQ_MAX_PREC"
  shows "length (pq_q (snd (brcmu_pktq_pflush pq k fn))) = PKTQ_MAX_PREC"
    and "j < PKTQ_MAX_PREC \<Longrightarrow> skbs (snd (brcmu_pktq_pflush pq k fn)) j =
      (if j = k then filter (\<lambda>p. \<not> matches fn p) (skbs pq j) else skbs pq j)"
  using assms by (auto simp: pflush_eq set_skbs_nth)

lemma pktq_flush_from_content:
  assumes "length (pq_q pq) = PKTQ_MAX_PREC" "k + n \<le> PKTQ_MAX_PREC" "j < PKTQ_MAX_PREC"
  shows "skbs (snd (pktq_flush_from k n fn pq)) j =
           (if k \<le> j \<and> j < k + n then filter (\<lambda>p. \<not> matches fn p) (skbs pq j) else skbs pq j)"
  using assms
proof (induction n arbitrary: k pq)
  case 0
  then show ?case by auto
next
  case (Suc n)
  then show ?case
    by (auto simp: pktq_flush_from_Suc Let_def pflush_content simp del: pktq_flush_from.simps)
qed

lemma pktq_flush_from_freed:
  assumes "length (pq_q pq) = PKTQ_MAX_PREC" "k + n \<le> PKTQ_MAX_PREC"
  shows "fst (pktq_flush_from k n fn pq) =
           concat (map (\<lambda>i. filter (\<lambda>p. matches fn p) (skbs pq i)) [k..<k + n])"
  using assms
proof (induction n arbitrary: k pq)
  case 0
  then show ?case by simp
next
  case (Suc n)
  let ?pq = "snd (brcmu_pktq_pflush pq k fn)"
  have "map (\<lambda>i. filter (\<lambda>p. matches fn p) (skbs ?pq i)) [Suc k..<Suc k + n]
      = map (\<lambda>i. filter (\<lambda>p. matches fn p) (skbs pq i)) [Suc k..<Suc k + n]"
    using Suc.prems by (intro map_cong) (auto simp: pflush_content)
  moreover have "[k..<k + Suc n] = k # [Suc k..<Suc k + n]"
    by (simp add: upt_conv_Cons)
  ultimately show ?case
    using Suc.IH [of ?pq "Suc k"] Suc.prems
    by (simp only: pktq_flush_from_Suc Let_def pflush_content)
       (simp add: pflush_eq pflush_content)
qed

lemma pktq_init_wf:
  assumes "length (pq_q pq) = PKTQ_MAX_PREC" "0 < n" "n \<le> PKTQ_MAX_PREC"
    and "\<And>i. n \<le> i \<Longrightarrow> i < PKTQ_MAX_PREC \<Longrightarrow> skbs pq i = []"
  shows "pktq_wf (brcmu_pktq_init pq n max_len)"
proof -
  have "\<forall>q\<in>set (drop n (pq_q pq)). skblist q = []"
    using assms by (auto simp: in_set_conv_nth)
  then have "pktq_total (brcmu_pktq_init pq n max_len) = 0"
    by (auto simp: pktq_total_def brcmu_pktq_init_def sum_list_replicate)
  moreover have "unat (of_nat n :: u16) = n"
    using assms by (simp add: unsigned_of_nat take_bit_nat_eq_self)
  ultimately show ?thesis
    using assms by (auto simp: pktq_wf_def brcmu_pktq_init_def nth_append)
qed

lemma mdeq_Some:
  assumes wf: "pktq_wf pq" and eq: "brcmu_pktq_mdeq pq bmp = (Some (p, i), pq')"
  shows "i \<le> unat (hi_prec pq)" "in_bmp bmp i" "skbs pq i = p # skbs pq' i"
    "\<And>j. j < PKTQ_MAX_PREC \<Longrightarrow> j \<noteq> i \<Longrightarrow> skbs pq' j = skbs pq j"
    "\<And>j. j < PKTQ_MAX_PREC \<Longrightarrow> i < j \<Longrightarrow> in_bmp bmp j \<Longrightarrow> skbs pq j = []"
proof -
  let ?h = "lower_hi_prec (pq_q pq) (unat (hi_prec pq))"
  from eq have i: "mdeq_prec (pq_q pq) bmp ?h = Some i" and
    sk: "skbs pq i = p # tl (skbs pq i)" and
    pq': "pq' = (set_skbs (pq\<lparr>hi_prec := of_nat ?h\<rparr>) i (tl (skbs pq i)))\<lparr>pq_len := pq_len pq - 1\<rparr>"
    by (auto simp: brcmu_pktq_mdeq_def Let_def split: if_splits option.splits list.splits)
  note h = lower_hi_prec_le [of "pq_q pq" "unat (hi_prec pq)"]
  note m = mdeq_prec_Some [OF i]
  show le: "i \<le> unat (hi_prec pq)" using m h by linarith
  show "in_bmp bmp i" using m by blast
  have "i < length (pq_q pq)" using le pktq_wfD(1-3) [OF wf] by simp
  then show "skbs pq i = p # skbs pq' i" using sk by (simp add: pq' set_skbs_def)
  show "\<And>j. j < PKTQ_MAX_PREC \<Longrightarrow> j \<noteq> i \<Longrightarrow> skbs pq' j = skbs pq j"
    using pktq_wfD(1) [OF wf] by (simp add: pq' set_skbs_def)
  fix j
  assume j: "j < PKTQ_MAX_PREC" "i < j" "in_bmp bmp j"
  show "skbs pq j = []"
  proof (cases "j \<le> ?h")
    case True
    with m j show ?thesis by blast
  next
    case False
    then show ?thesis
      using lower_hi_prec_empty [of "pq_q pq" "unat (hi_prec pq)" j] pktq_wfD(4) [OF wf j(1)]
      by (meson not_less)
  qed
qed

lemma mdeq_None:
  assumes wf: "pktq_wf pq" and eq: "brcmu_pktq_mdeq pq bmp = (None, pq')" and j: "j < PKTQ_MAX_PREC"
  shows "in_bmp bmp j \<Longrightarrow> skbs pq j = []" "skbs pq' j = skbs pq j"
proof -
  let ?h = "lower_hi_prec (pq_q pq) (unat (hi_prec pq))"
  have jl: "j < length (pq_q pq)" using j pktq_wfD(1) [OF wf] by simp
  show "skbs pq' j = skbs pq j"
    using eq by (auto simp: brcmu_pktq_mdeq_def Let_def split: if_splits option.splits list.splits)
  assume bmp: "in_bmp bmp j"
  show "skbs pq j = []"
  proof (cases "pktq_empty pq")
    case True
    then show ?thesis
      using skbs_le_total [OF jl] by (simp add: pktq_empty_total [OF wf])
  next
    case False
    with eq have "mdeq_prec (pq_q pq) bmp ?h = None"
      by (auto simp: brcmu_pktq_mdeq_def Let_def dest!: mdeq_prec_Some
          split: if_splits option.splits list.splits)
    then have "j \<le> ?h \<Longrightarrow> skbs pq j = []"
      using bmp by (auto simp: mdeq_prec_None)
    then show ?thesis
      using lower_hi_prec_empty [of "pq_q pq" "unat (hi_prec pq)" j] pktq_wfD(4) [OF wf j]
      by (meson not_less)
  qed
qed

lemma flush_wf: "pktq_wf pq \<Longrightarrow> pktq_wf (snd (brcmu_pktq_flush pq fn))"
  unfolding brcmu_pktq_flush_def by (rule pktq_flush_from_wf) simp_all

lemmas pktq_op_wf = penq_wf penq_head_wf pdeq_wf pdeq_tail_wf pdeq_match_wf pflush_wf flush_wf mdeq_wf

subsection \<open>Properties\<close>

definition sample_pktq :: "nat pktq" where
  "sample_pktq = \<lparr>num_prec = 2, hi_prec = 1, pq_max = 4, pq_len = 3,
     pq_q = \<lparr>skblist = [10, 11], prec_max = 4\<rparr> # \<lparr>skblist = [20], prec_max = 4\<rparr>
            # replicate 14 \<lparr>skblist = [], prec_max = 0\<rparr>\<rparr>"

lemma sample_pktq_wf: "pktq_wf sample_pktq"
proof -
  have "skbs sample_pktq i = []" if "i < 16" "1 < i" for i
    using that by (auto simp: sample_pktq_def nth_Cons' )
  moreover have "length (skbs sample_pktq i) \<le> unat (prec_max (pq_q sample_pktq ! i))"
    if "i < 2" for i
    using that by (auto simp: sample_pktq_def nth_Cons' less_2_cases_iff)
  ultimately show ?thesis
    by (simp add: pktq_wf_def sample_pktq_def pktq_total_def sum_list_replicate)
qed

text \<open>
  C24: every operation on the multi-precedence packet queue keeps it well-formed: the total
  length still counts the queued packets, stays within the maximum, and no precedence above
  \<open>hi_prec\<close> holds a packet.
\<close>

theorem pktq_ops_keep_wf:
  assumes "pktq_wf pq" "prec < unat (num_prec pq)"
  shows "pktq_wf (snd (brcmu_pktq_penq pq prec p)) \<and>
         pktq_wf (snd (brcmu_pktq_penq_head pq prec p)) \<and>
         pktq_wf (snd (brcmu_pktq_pdeq pq prec)) \<and>
         pktq_wf (snd (brcmu_pktq_pdeq_tail pq prec)) \<and>
         pktq_wf (snd (brcmu_pktq_pdeq_match pq prec fn)) \<and>
         pktq_wf (snd (brcmu_pktq_pflush pq prec fn)) \<and>
         pktq_wf (snd (brcmu_pktq_flush pq fn)) \<and>
         pktq_wf (snd (brcmu_pktq_mdeq pq bmp))"
  using assms by (simp add: pktq_op_wf)

theorem pktq_ops_keep_wf_witness:
  "pktq_wf (snd (brcmu_pktq_penq sample_pktq 1 21)) \<and>
   pktq_wf (snd (brcmu_pktq_mdeq sample_pktq 3))"
proof -
  have "1 < unat (num_prec sample_pktq)" by (simp add: sample_pktq_def)
  from pktq_ops_keep_wf [OF sample_pktq_wf this, of 21 None 3] show ?thesis by blast
qed

text \<open>
  C29: the priority dequeue returns the head of the highest precedence that is both in the
  bitmap and non-empty, removes exactly that packet, and returns nothing only when every
  precedence in the bitmap is empty, leaving all contents as they were.
\<close>

theorem pktq_mdeq_priority:
  assumes "pktq_wf pq"
  shows "case brcmu_pktq_mdeq pq prec_bmp of
           (Some (p, i), pq') \<Rightarrow>
             i < unat (num_prec pq) \<and> in_bmp prec_bmp i \<and> skbs pq i = p # skbs pq' i \<and>
             (\<forall>j<PKTQ_MAX_PREC. j \<noteq> i \<longrightarrow> skbs pq' j = skbs pq j) \<and>
             (\<forall>j<PKTQ_MAX_PREC. i < j \<and> in_bmp prec_bmp j \<longrightarrow> skbs pq j = [])
         | (None, pq') \<Rightarrow>
             (\<forall>j<PKTQ_MAX_PREC. in_bmp prec_bmp j \<longrightarrow> skbs pq j = []) \<and>
             (\<forall>j<PKTQ_MAX_PREC. skbs pq' j = skbs pq j)"
proof (cases "brcmu_pktq_mdeq pq prec_bmp")
  case (Pair r pq')
  show ?thesis
  proof (cases r)
    case None
    with Pair mdeq_None [OF assms] show ?thesis by simp
  next
    case (Some pi)
    obtain p i where pi: "pi = (p, i)" by fastforce
    have eq: "brcmu_pktq_mdeq pq prec_bmp = (Some (p, i), pq')"
      using Pair Some pi by simp
    note m = mdeq_Some [OF assms eq]
    have "i < unat (num_prec pq)" using m(1) pktq_wfD(3) [OF assms] by linarith
    with eq m show ?thesis by auto
  qed
qed

theorem pktq_mdeq_priority_witness:
  "fst (brcmu_pktq_mdeq sample_pktq 3) = Some (20, 1) \<and>
   (case brcmu_pktq_mdeq sample_pktq 3 of
      (Some (p, i), pq') \<Rightarrow> skbs sample_pktq i = p # skbs pq' i | (None, pq') \<Rightarrow> False)"
proof -
  have "fst (brcmu_pktq_mdeq sample_pktq 3) = Some (20, 1)"
    by code_simp
  with pktq_mdeq_priority [OF sample_pktq_wf, of 3] show ?thesis
    by (auto split: prod.splits option.splits)
qed

text \<open>
  one precedence of a packet queue is a FIFO. Over any interleaving of enqueues and
  dequeues at that precedence, the packets accepted after those already waiting come out
  exactly once and in order; what has not come out still waits.
\<close>

theorem pktq_prec_fifo_order:
  assumes "pktq_wf pq" "prec < unat (num_prec pq)"
    and "run_fifo (\<lambda>pq. brcmu_pktq_penq pq prec) (\<lambda>pq. brcmu_pktq_pdeq pq prec) pq ops
         = (accepted, delivered, pq')"
  shows "skbs pq prec @ accepted = delivered @ skbs pq' prec \<and> pktq_wf pq'"
  using prec_fifo.fifo_order [of pq prec ops accepted delivered pq'] assms by simp

theorem pktq_prec_fifo_order_witness:
  "\<exists>pq'. run_fifo (\<lambda>pq. brcmu_pktq_penq pq 0) (\<lambda>pq. brcmu_pktq_pdeq pq 0) sample_pktq
           [Enq 12, Enq 13, Deq, Deq, Deq] = ([12], [10, 11, 12], pq') \<and>
         skbs sample_pktq 0 @ [12] = [10, 11, 12] @ skbs pq' 0"
proof -
  obtain acc out pq' where r:
    "run_fifo (\<lambda>pq. brcmu_pktq_penq pq 0) (\<lambda>pq. brcmu_pktq_pdeq pq 0) sample_pktq
       [Enq 12, Enq 13, Deq, Deq, Deq] = (acc, out, pq')"
    using prod_cases3 by blast
  have "acc = [12]" "out = [10, 11, 12]"
    using r by (auto simp: brcmu_pktq_penq_def brcmu_pktq_pdeq_def pktq_full_def pktq_pfull_def
        sample_pktq_def set_skbs_def Let_def)
  moreover have "0 < unat (num_prec sample_pktq)" by (simp add: sample_pktq_def)
  ultimately show ?thesis
    using r pktq_prec_fifo_order [OF sample_pktq_wf _ r] by auto
qed

text \<open>
  flushing a well-formed queue frees, in precedence order, exactly the packets that match,
  keeps the others in their order, and with no match function empties the queue.
\<close>

theorem pktq_flush_frees_matching:
  assumes "pktq_wf pq"
  shows "fst (brcmu_pktq_flush pq fn) =
           concat (map (\<lambda>i. filter (\<lambda>p. matches fn p) (skbs pq i)) [0..<unat (num_prec pq)]) \<and>
         (\<forall>j<unat (num_prec pq). skbs (snd (brcmu_pktq_flush pq fn)) j =
            filter (\<lambda>p. \<not> matches fn p) (skbs pq j)) \<and>
         (fn = None \<longrightarrow> pktq_empty (snd (brcmu_pktq_flush pq fn)))"
proof -
  let ?n = "unat (num_prec pq)"
  let ?pq = "snd (brcmu_pktq_flush pq fn)"
  note len = pktq_wfD(1) [OF assms] and n = pktq_wfD(2) [OF assms]
  have content: "skbs ?pq j = (if j < ?n then filter (\<lambda>p. \<not> matches fn p) (skbs pq j) else skbs pq j)"
    if "j < PKTQ_MAX_PREC" for j
    using pktq_flush_from_content [OF len, of 0 ?n j fn] n that by (simp add: brcmu_pktq_flush_def)
  have "pktq_total ?pq = 0" if "fn = None"
  proof -
    have "skbs ?pq j = []" if "j < PKTQ_MAX_PREC" for j
      using content [OF that] \<open>fn = None\<close> pktq_wfD(3,4) [OF assms] that by auto
    moreover have "length (pq_q ?pq) = PKTQ_MAX_PREC"
      using pktq_wfD(1) [OF flush_wf [OF assms]] .
    ultimately show ?thesis by (auto simp: pktq_total_def in_set_conv_nth)
  qed
  then have "fn = None \<longrightarrow> pktq_empty ?pq"
    using pktq_empty_total [OF flush_wf [OF assms]] by simp
  with content n show ?thesis
    using pktq_flush_from_freed [OF len, of 0 ?n fn] by (simp add: brcmu_pktq_flush_def)
qed

theorem pktq_flush_frees_matching_witness:
  "fst (brcmu_pktq_flush sample_pktq None) = [10, 11, 20] \<and>
   pktq_empty (snd (brcmu_pktq_flush sample_pktq None))"
proof -
  have "concat (map (\<lambda>i. filter (\<lambda>p. matches None p) (skbs sample_pktq i))
      [0..<unat (num_prec sample_pktq)]) = [10, 11, 20]"
    by code_simp
  with pktq_flush_frees_matching [OF sample_pktq_wf, of None] show ?thesis by simp
qed

end
