(* ===== verification/Fws_State.thy ===== *)
theory Fws_State
  imports Fws_Hanger Pktq "HOL-Library.Monad_Syntax"
begin

section \<open>The state of the firmware signalling (brcmfmac/fwsignal.c)\<close>

text \<open>
  The records and enumerations of \<open>fwsignal.c\<close> and the accessors of the bit fields in a
  packet's control buffer.

  The table \<open>brcmf_fws_macdesc_table\<close> of descriptors is one list, as \<open>brcmf_fws_deq\<close> reads it:
  32 nodes, 16 interfaces and the descriptor for other traffic. A pointer to a descriptor is
  its index. A packet is a number; the store \<open>packets\<close> maps it to its buffer, so that the hanger
  and a queue can hold the same packet and see the same control buffer. The record
  \<open>brcmf_fws_info\<close> also carries what the functions touch outside of it: the packet store, the
  interfaces, the transmit queue of the bus, whether the dequeue work is scheduled, and the
  packets freed so far.

  A result \<open>None\<close> of a function stands for behaviour the C language leaves undefined: a null
  pointer is dereferenced or an array is indexed outside its bounds.
\<close>

subsection \<open>Enumerations and constants\<close>

datatype brcmf_fws_skb_state =
    BRCMF_FWS_SKBSTATE_NEW
  | BRCMF_FWS_SKBSTATE_DELAYED
  | BRCMF_FWS_SKBSTATE_SUPPRESSED
  | BRCMF_FWS_SKBSTATE_TIM

datatype brcmf_fws_fcmode =
    BRCMF_FWS_FCMODE_NONE
  | BRCMF_FWS_FCMODE_IMPLIED_CREDIT
  | BRCMF_FWS_FCMODE_EXPLICIT_CREDIT

text \<open>A descriptor of the zeroed table has neither state; it is \<open>0\<close> in the source.\<close>

datatype brcmf_fws_mac_desc_state =
    BRCMF_FWS_STATE_NONE
  | BRCMF_FWS_STATE_OPEN
  | BRCMF_FWS_STATE_CLOSE

abbreviation (input) BRCMF_FWS_FIFO_AC_BK :: nat where "BRCMF_FWS_FIFO_AC_BK \<equiv> 0"
abbreviation (input) BRCMF_FWS_FIFO_AC_BE :: nat where "BRCMF_FWS_FIFO_AC_BE \<equiv> 1"
abbreviation (input) BRCMF_FWS_FIFO_AC_VI :: nat where "BRCMF_FWS_FIFO_AC_VI \<equiv> 2"
abbreviation (input) BRCMF_FWS_FIFO_AC_VO :: nat where "BRCMF_FWS_FIFO_AC_VO \<equiv> 3"
abbreviation (input) BRCMF_FWS_FIFO_BCMC :: nat where "BRCMF_FWS_FIFO_BCMC \<equiv> 4"
abbreviation (input) BRCMF_FWS_FIFO_COUNT :: nat where "BRCMF_FWS_FIFO_COUNT \<equiv> 6"
abbreviation (input) BRCMF_FWS_PSQ_PREC_COUNT :: nat where "BRCMF_FWS_PSQ_PREC_COUNT \<equiv> 14"
abbreviation (input) BRCMF_MAX_IFS :: nat where "BRCMF_MAX_IFS \<equiv> 16"
abbreviation (input) BRCMF_FWS_MAC_DESC_TABLE_SIZE :: nat where "BRCMF_FWS_MAC_DESC_TABLE_SIZE \<equiv> 32"
abbreviation (input) NUM_DESC :: nat where "NUM_DESC \<equiv> 49"

text \<open>Positions in the table: a node by its handle, an interface, the other traffic.\<close>

definition node_ix :: "u8 \<Rightarrow> nat" where
  "node_ix mac_handle = unat (mac_handle AND 0x1F)"

definition iface_ix :: "nat \<Rightarrow> nat" where
  "iface_ix ifidx = BRCMF_FWS_MAC_DESC_TABLE_SIZE + ifidx"

abbreviation (input) OTHER_IX :: nat where "OTHER_IX \<equiv> 48"

lemma node_ix_less [simp]: "node_ix h < 32"
proof -
  have "h AND 0x1F \<le> 0x1F" by (rule word_and_le1)
  then show ?thesis by (simp add: node_ix_def word_le_nat_alt)
qed

subsection \<open>Records\<close>

record sk_buff =
  if_flags :: u16
  htod :: u32
  htod_seq :: u16
  skb_state :: brcmf_fws_skb_state
  skb_mac :: "nat option"
  skb_data :: "u8 list"
  skb_priority :: u8
  skb_reorder :: "u8 list option"

record brcmf_fws_mac_descriptor =
  occupied :: bool
  mac_handle :: u8
  interface_id :: u8
  mac_state :: brcmf_fws_mac_desc_state
  suppressed :: bool
  generation :: u8
  ac_bitmap :: u8
  requested_credit :: u8
  requested_packet :: u8
  ea :: "u8 list"
  seq :: "u8 list"
  psq :: "pkt pktq"
  transit_count :: int
  suppr_transit_count :: int
  send_tim_signal :: bool
  traffic_pending_bmp :: u8
  traffic_lastreported_bmp :: u8

record brcmf_if =
  ifidx :: nat
  has_ndev :: bool
  mac_addr :: "u8 list"
  netif_stop :: u8
  queue_stopped :: bool
  fws_desc :: "nat option"

record brcmf_fws_stats =
  tlv_parse_failed :: u32
  tlv_invalid_type :: u32
  header_only_pkt :: u32
  header_pulls :: u32
  pkt2bus :: u32
  send_pkts :: "u32 list"
  requested_sent :: "u32 list"
  generic_error :: u32
  mac_update_failed :: u32
  mac_ps_update_failed :: u32
  if_update_failed :: u32
  packet_request_failed :: u32
  credit_request_failed :: u32
  rollback_success :: u32
  rollback_failed :: u32
  delayq_full_error :: u32
  supprq_full_error :: u32
  txs_indicate :: u32
  txs_discard :: u32
  txs_supp_core :: u32
  txs_supp_ps :: u32
  txs_tossed :: u32
  txs_host_tossed :: u32
  bus_flow_block :: u32
  fws_flow_block :: u32

record brcmf_fws_info =
  stats :: brcmf_fws_stats
  hanger :: brcmf_fws_hanger
  fcmode :: brcmf_fws_fcmode
  fw_signals :: bool
  bcmc_credit_check :: bool
  desc :: "brcmf_fws_mac_descriptor list"
  fifo_enqpkt :: "u32 list"
  fifo_credit :: "int list"
  init_fifo_credit :: "int list"
  credits_borrowed :: "int list list"
  deq_node_pos :: "nat list"
  fifo_credit_map :: u32
  fifo_delay_map :: u32
  borrow_defer_timestamp :: nat
  bus_flow_blocked :: bool
  creditmap_received :: bool
  mode :: u8
  avoid_queueing :: bool
  fws_psq_len :: nat
  fws_psq_hi_water :: nat
  fws_psq_low_water :: nat
  packets :: "pkt \<Rightarrow> sk_buff"
  ifaces :: "nat \<Rightarrow> brcmf_if option"
  bus_txq :: "pkt pktq option"
  deq_work :: bool
  freed :: "pkt list"

text \<open>
  What the signalling layer calls below and beside it: the allocation of a packet, the
  transmit path of the protocol layer, which runs with the lock released, so that it may leave
  any state behind, and the removal of the protocol header, which names the interface.
\<close>

record fws_env =
  env_alloc :: "brcmf_fws_info \<Rightarrow> pkt option"
  env_txdata :: "u32 \<Rightarrow> u8 \<Rightarrow> pkt \<Rightarrow> brcmf_fws_info \<Rightarrow> (errno + unit) \<times> brcmf_fws_info"
  env_hdrpull :: "pkt \<Rightarrow> brcmf_fws_info \<Rightarrow> (errno + nat option) \<times> brcmf_fws_info"

subsection \<open>Updates of parts of the state\<close>

abbreviation the_desc :: "brcmf_fws_info \<Rightarrow> nat \<Rightarrow> brcmf_fws_mac_descriptor" where
  "the_desc s i \<equiv> desc s ! i"

definition upd_desc ::
    "nat \<Rightarrow> (brcmf_fws_mac_descriptor \<Rightarrow> brcmf_fws_mac_descriptor) \<Rightarrow> brcmf_fws_info \<Rightarrow> brcmf_fws_info" where
  "upd_desc i f s = s\<lparr>desc := (desc s)[i := f (desc s ! i)]\<rparr>"

definition upd_skb :: "pkt \<Rightarrow> (sk_buff \<Rightarrow> sk_buff) \<Rightarrow> brcmf_fws_info \<Rightarrow> brcmf_fws_info" where
  "upd_skb p f s = s\<lparr>packets := (packets s)(p := f (packets s p))\<rparr>"

definition upd_stats :: "(brcmf_fws_stats \<Rightarrow> brcmf_fws_stats) \<Rightarrow> brcmf_fws_info \<Rightarrow> brcmf_fws_info" where
  "upd_stats f s = s\<lparr>stats := f (stats s)\<rparr>"

definition brcmu_pkt_buf_free_skb :: "pkt \<Rightarrow> brcmf_fws_info \<Rightarrow> brcmf_fws_info" where
  "brcmu_pkt_buf_free_skb p s = s\<lparr>freed := freed s @ [p]\<rparr>"

subsection \<open>Bit fields of the control buffer\<close>

definition if_flags_index :: "sk_buff \<Rightarrow> u16" where
  "if_flags_index k = brcmu_maskget16 (if_flags k) 0x000f 0"

definition if_flags_req_credit :: "sk_buff \<Rightarrow> u16" where
  "if_flags_req_credit k = brcmu_maskget16 (if_flags k) 0x0100 8"

definition if_flags_requested :: "sk_buff \<Rightarrow> u16" where
  "if_flags_requested k = brcmu_maskget16 (if_flags k) 0x0800 11"

definition set_if_index :: "u16 \<Rightarrow> sk_buff \<Rightarrow> sk_buff" where
  "set_if_index v k = k\<lparr>if_flags := brcmu_maskset16 (if_flags k) 0x000f 0 v\<rparr>"

definition set_if_req_credit :: "u16 \<Rightarrow> sk_buff \<Rightarrow> sk_buff" where
  "set_if_req_credit v k = k\<lparr>if_flags := brcmu_maskset16 (if_flags k) 0x0100 8 v\<rparr>"

definition set_if_requested :: "u16 \<Rightarrow> sk_buff \<Rightarrow> sk_buff" where
  "set_if_requested v k = k\<lparr>if_flags := brcmu_maskset16 (if_flags k) 0x0800 11 v\<rparr>"

definition htod_hslot :: "sk_buff \<Rightarrow> u32" where
  "htod_hslot k = brcmu_maskget32 (htod k) 0x00ffff00 8"

definition htod_freerun :: "sk_buff \<Rightarrow> u32" where
  "htod_freerun k = brcmu_maskget32 (htod k) 0x000000ff 0"

definition htod_fifo :: "sk_buff \<Rightarrow> u32" where
  "htod_fifo k = brcmu_maskget32 (htod k) 0x07000000 24"

definition htod_flags :: "sk_buff \<Rightarrow> u32" where
  "htod_flags k = brcmu_maskget32 (htod k) 0x78000000 27"

definition htod_generation :: "sk_buff \<Rightarrow> u32" where
  "htod_generation k = brcmu_maskget32 (htod k) 0x80000000 31"

definition set_htod_hslot :: "u32 \<Rightarrow> sk_buff \<Rightarrow> sk_buff" where
  "set_htod_hslot v k = k\<lparr>htod := brcmu_maskset32 (htod k) 0x00ffff00 8 v\<rparr>"

definition set_htod_freerun :: "u32 \<Rightarrow> sk_buff \<Rightarrow> sk_buff" where
  "set_htod_freerun v k = k\<lparr>htod := brcmu_maskset32 (htod k) 0x000000ff 0 v\<rparr>"

definition set_htod_fifo :: "u32 \<Rightarrow> sk_buff \<Rightarrow> sk_buff" where
  "set_htod_fifo v k = k\<lparr>htod := brcmu_maskset32 (htod k) 0x07000000 24 v\<rparr>"

definition set_htod_flags :: "u32 \<Rightarrow> sk_buff \<Rightarrow> sk_buff" where
  "set_htod_flags v k = k\<lparr>htod := brcmu_maskset32 (htod k) 0x78000000 27 v\<rparr>"

definition set_htod_generation :: "u32 \<Rightarrow> sk_buff \<Rightarrow> sk_buff" where
  "set_htod_generation v k = k\<lparr>htod := brcmu_maskset32 (htod k) 0x80000000 31 v\<rparr>"

definition seq_fromfw :: "sk_buff \<Rightarrow> u16" where
  "seq_fromfw k = brcmu_maskget16 (htod_seq k) 0x2000 13"

definition set_seq_fromfw :: "u16 \<Rightarrow> sk_buff \<Rightarrow> sk_buff" where
  "set_seq_fromfw v k = k\<lparr>htod_seq := brcmu_maskset16 (htod_seq k) 0x2000 13 v\<rparr>"

definition set_seq_fromdrv :: "u16 \<Rightarrow> sk_buff \<Rightarrow> sk_buff" where
  "set_seq_fromdrv v k = k\<lparr>htod_seq := brcmu_maskset16 (htod_seq k) 0x1000 12 v\<rparr>"

definition mode_get_reuseseq :: "u8 \<Rightarrow> bool" where
  "mode_get_reuseseq x \<longleftrightarrow> drop_bit 3 x AND 1 \<noteq> 0"

definition brcmf_fws_ifidx_match :: "brcmf_fws_info \<Rightarrow> int \<Rightarrow> pkt \<Rightarrow> bool" where
  "brcmf_fws_ifidx_match s arg p \<longleftrightarrow> uint (if_flags_index (packets s p)) = arg"

subsection \<open>Queries\<close>

definition brcmf_fws_queue_skbs :: "brcmf_fws_info \<Rightarrow> bool" where
  "brcmf_fws_queue_skbs s \<longleftrightarrow> \<not> avoid_queueing s"

definition brcmf_fws_fc_active :: "brcmf_fws_info \<Rightarrow> bool" where
  "brcmf_fws_fc_active s \<longleftrightarrow> creditmap_received s \<and> fcmode s \<noteq> BRCMF_FWS_FCMODE_NONE"

definition brcmf_fws_schedule_deq :: "brcmf_fws_info \<Rightarrow> brcmf_fws_info" where
  "brcmf_fws_schedule_deq s =
     (if fifo_credit_map s AND fifo_delay_map s \<noteq> 0 \<or>
         (\<not> brcmf_fws_fc_active s \<and> fifo_delay_map s \<noteq> 0)
      then s\<lparr>deq_work := True\<rparr> else s)"

subsection \<open>The zeroed state\<close>

text \<open>
  What \<open>kzalloc\<close> leaves: the structure before \<open>brcmf_fws_attach\<close> fills it in. The packet store,
  the interfaces and the bus queue are those of the driver.
\<close>

definition zero_stats :: brcmf_fws_stats where
  "zero_stats = \<lparr>tlv_parse_failed = 0, tlv_invalid_type = 0, header_only_pkt = 0, header_pulls = 0,
     pkt2bus = 0, send_pkts = replicate 5 0, requested_sent = replicate 5 0, generic_error = 0,
     mac_update_failed = 0, mac_ps_update_failed = 0, if_update_failed = 0,
     packet_request_failed = 0, credit_request_failed = 0, rollback_success = 0,
     rollback_failed = 0, delayq_full_error = 0, supprq_full_error = 0, txs_indicate = 0,
     txs_discard = 0, txs_supp_core = 0, txs_supp_ps = 0, txs_tossed = 0, txs_host_tossed = 0,
     bus_flow_block = 0, fws_flow_block = 0\<rparr>"

definition zero_pktq :: "pkt pktq" where
  "zero_pktq = \<lparr>num_prec = 0, hi_prec = 0, pq_max = 0, pq_len = 0,
     pq_q = replicate PKTQ_MAX_PREC \<lparr>skblist = [], prec_max = 0\<rparr>\<rparr>"

definition zero_desc :: brcmf_fws_mac_descriptor where
  "zero_desc = \<lparr>occupied = False, mac_handle = 0, interface_id = 0, mac_state = BRCMF_FWS_STATE_NONE,
     suppressed = False, generation = 0, ac_bitmap = 0, requested_credit = 0,
     requested_packet = 0, ea = replicate 6 0, seq = replicate BRCMF_FWS_FIFO_COUNT 0,
     psq = zero_pktq, transit_count = 0, suppr_transit_count = 0, send_tim_signal = False,
     traffic_pending_bmp = 0, traffic_lastreported_bmp = 0\<rparr>"

definition zero_fws ::
    "(pkt \<Rightarrow> sk_buff) \<Rightarrow> (nat \<Rightarrow> brcmf_if option) \<Rightarrow> pkt pktq option \<Rightarrow> brcmf_fws_info" where
  "zero_fws pks ifs txq = \<lparr>stats = zero_stats,
     hanger = brcmf_fws_hanger_init,
     fcmode = BRCMF_FWS_FCMODE_NONE, fw_signals = False, bcmc_credit_check = False,
     desc = replicate NUM_DESC zero_desc, fifo_enqpkt = replicate BRCMF_FWS_FIFO_COUNT 0,
     fifo_credit = replicate BRCMF_FWS_FIFO_COUNT 0,
     init_fifo_credit = replicate BRCMF_FWS_FIFO_COUNT 0,
     credits_borrowed = replicate 4 (replicate 4 0),
     deq_node_pos = replicate BRCMF_FWS_FIFO_COUNT 0, fifo_credit_map = 0, fifo_delay_map = 0,
     borrow_defer_timestamp = 0, bus_flow_blocked = False, creditmap_received = False, mode = 0,
     avoid_queueing = False, fws_psq_len = 0, fws_psq_hi_water = 0, fws_psq_low_water = 0,
     packets = pks, ifaces = ifs, bus_txq = txq, deq_work = False, freed = []\<rparr>"

definition zero_skb :: sk_buff where
  "zero_skb = \<lparr>if_flags = 0, htod = 0, htod_seq = 0, skb_state = BRCMF_FWS_SKBSTATE_NEW,
     skb_mac = None, skb_data = [], skb_priority = 0, skb_reorder = None\<rparr>"

end
