(* ===== verification/Fws_Credit.thy ===== *)
theory Fws_Credit
  imports Fws_State
begin

section \<open>Transmit credits (brcmfmac/fwsignal.c)\<close>

text \<open>
  The firmware grants credits per fifo; sending a packet uses one. A fifo of higher priority
  may borrow from the fifos below it; credits the firmware gives back repay the lenders
  first, from the highest fifo down. \<open>credits_borrowed ! b ! l\<close> counts what fifo \<open>b\<close> owes fifo
  \<open>l\<close>.

  The theory shows that giving back repays every lender exactly, that no credit is created or
  lost by any sequence of sends, borrowings and returns, and that the credits of a fifo stay
  between zero and the number the firmware announced.
\<close>

subsection \<open>Operations\<close>

definition upd_borrowed :: "nat \<Rightarrow> nat \<Rightarrow> int \<Rightarrow> brcmf_fws_info \<Rightarrow> brcmf_fws_info" where
  "upd_borrowed b l v s =
     s\<lparr>credits_borrowed := (credits_borrowed s)[b := (credits_borrowed s ! b)[l := v]]\<rparr>"

definition upd_credit :: "nat \<Rightarrow> int \<Rightarrow> brcmf_fws_info \<Rightarrow> brcmf_fws_info" where
  "upd_credit f v s = s\<lparr>fifo_credit := (fifo_credit s)[f := v]\<rparr>"

definition set_credit_bit :: "nat \<Rightarrow> brcmf_fws_info \<Rightarrow> brcmf_fws_info" where
  "set_credit_bit f s = s\<lparr>fifo_credit_map := fifo_credit_map s OR push_bit f 1\<rparr>"

definition clear_credit_bit :: "nat \<Rightarrow> brcmf_fws_info \<Rightarrow> brcmf_fws_info" where
  "clear_credit_bit f s = s\<lparr>fifo_credit_map := fifo_credit_map s AND NOT (push_bit f 1)\<rparr>"

text \<open>
  The loop over the lenders, from \<open>n - 1\<close> down to 0. The first component says that all
  credits were used up and the function returns; the second is what is left of them.
\<close>

fun repay_lenders :: "nat \<Rightarrow> nat \<Rightarrow> u8 \<Rightarrow> brcmf_fws_info \<Rightarrow> bool \<times> u8 \<times> brcmf_fws_info" where
  "repay_lenders 0 fifo credits s = (False, credits, s)"
| "repay_lenders (Suc lender) fifo credits s =
     (let borrowed = credits_borrowed s ! fifo ! lender
      in if borrowed \<noteq> 0
         then let s = set_credit_bit lender s
              in if borrowed \<ge> uint credits
                 then (True, credits,
                       upd_credit lender (fifo_credit s ! lender + uint credits)
                         (upd_borrowed fifo lender (borrowed - uint credits) s))
                 else repay_lenders lender fifo (credits - of_int borrowed)
                        (upd_borrowed fifo lender 0
                          (upd_credit lender (fifo_credit s ! lender + borrowed) s))
         else repay_lenders lender fifo credits s)"

definition brcmf_fws_return_credits :: "nat \<Rightarrow> u8 \<Rightarrow> brcmf_fws_info \<Rightarrow> brcmf_fws_info option" where
  "brcmf_fws_return_credits fifo credits s =
     (if credits = 0 then Some s
      else if fifo \<ge> BRCMF_FWS_FIFO_COUNT then None
      else
        let s = set_credit_bit fifo s;
            (fin, credits, s) =
              (if fifo > BRCMF_FWS_FIFO_AC_BK \<and> fifo \<le> BRCMF_FWS_FIFO_AC_VO
               then repay_lenders (Suc BRCMF_FWS_FIFO_AC_VO) fifo credits s
               else (False, credits, s))
        in if fin then Some s
           else
             let s = (if credits \<noteq> 0 then upd_credit fifo (fifo_credit s ! fifo + uint credits) s
                      else s);
                 s = (if fifo_credit s ! fifo > init_fifo_credit s ! fifo
                      then upd_credit fifo (init_fifo_credit s ! fifo) s else s)
             in Some s)"

text \<open>The loop over the lenders from \<open>lender\<close> on, \<open>n\<close> of them.\<close>

fun borrow_from ::
    "nat \<Rightarrow> nat \<Rightarrow> nat \<Rightarrow> bool \<Rightarrow> brcmf_fws_info \<Rightarrow> (errno + unit) \<times> brcmf_fws_info" where
  "borrow_from lender 0 borrower_ac borrow_all s = (Inl ENAVAIL, clear_credit_bit borrower_ac s)"
| "borrow_from lender (Suc n) borrower_ac borrow_all s =
     (let borrow_limit = (if \<not> borrow_all then init_fifo_credit s ! lender div 3 else 0)
      in if fifo_credit s ! lender > borrow_limit
         then let s = upd_borrowed borrower_ac lender (credits_borrowed s ! borrower_ac ! lender + 1) s;
                  s = upd_credit lender (fifo_credit s ! lender - 1) s;
                  s = (if fifo_credit s ! lender = 0 then clear_credit_bit lender s else s)
              in (Inr (), set_credit_bit borrower_ac s)
         else borrow_from (Suc lender) n borrower_ac borrow_all s)"

definition brcmf_fws_borrow_credit ::
    "nat \<Rightarrow> nat \<Rightarrow> bool \<Rightarrow> brcmf_fws_info \<Rightarrow> (errno + unit) \<times> brcmf_fws_info" where
  "brcmf_fws_borrow_credit highest_lender_ac borrower_ac borrow_all s =
     borrow_from 0 (Suc highest_lender_ac) borrower_ac borrow_all s"

text \<open>The credits are the first bytes of \<open>data\<close>; reading past its end is undefined.\<close>

fun creditback_from :: "nat \<Rightarrow> nat \<Rightarrow> u8 list \<Rightarrow> brcmf_fws_info \<Rightarrow> brcmf_fws_info option" where
  "creditback_from i 0 data s = Some s"
| "creditback_from i (Suc n) data s =
     (if i < length data
      then do { s \<leftarrow> brcmf_fws_return_credits i (data ! i) s; creditback_from (Suc i) n data s }
      else None)"

definition brcmf_fws_fifocreditback_indicate ::
    "u8 list \<Rightarrow> brcmf_fws_info \<Rightarrow> (bool \<times> brcmf_fws_info) option" where
  "brcmf_fws_fifocreditback_indicate data s =
     (if fcmode s \<noteq> BRCMF_FWS_FCMODE_EXPLICIT_CREDIT then Some (False, s)
      else do { s \<leftarrow> creditback_from 0 BRCMF_FWS_FIFO_COUNT data s; Some (True, s) })"

fun credit_map_from :: "nat \<Rightarrow> nat \<Rightarrow> u8 list \<Rightarrow> brcmf_fws_info \<Rightarrow> brcmf_fws_info" where
  "credit_map_from i 0 credits s = s"
| "credit_map_from i (Suc n) credits s =
     (let s = upd_credit i (fifo_credit s ! i + (uint (credits ! i) - init_fifo_credit s ! i)) s;
          s = s\<lparr>init_fifo_credit := (init_fifo_credit s)[i := uint (credits ! i)]\<rparr>;
          s = (if fifo_credit s ! i > 0 then set_credit_bit i s else clear_credit_bit i s)
      in credit_map_from (Suc i) n credits s)"

definition brcmf_fws_notify_credit_map ::
    "u8 list \<Rightarrow> brcmf_fws_info \<Rightarrow> (errno + unit) \<times> brcmf_fws_info" where
  "brcmf_fws_notify_credit_map data s =
     (if length data < BRCMF_FWS_FIFO_COUNT then (Inl EINVAL, s)
      else let s = s\<lparr>creditmap_received := True\<rparr>;
               s = credit_map_from 0 BRCMF_FWS_FIFO_COUNT data s
           in (Inr (), brcmf_fws_schedule_deq s))"

definition brcmf_fws_notify_bcmc_credit_support :: "brcmf_fws_info \<Rightarrow> brcmf_fws_info" where
  "brcmf_fws_notify_bcmc_credit_support s = s\<lparr>bcmc_credit_check := True\<rparr>"

subsection \<open>The invariant of the credit tables\<close>

definition credit_wf :: "brcmf_fws_info \<Rightarrow> bool" where
  "credit_wf s \<longleftrightarrow>
     length (fifo_credit s) = BRCMF_FWS_FIFO_COUNT \<and>
     length (init_fifo_credit s) = BRCMF_FWS_FIFO_COUNT \<and>
     length (credits_borrowed s) = 4 \<and> (\<forall>b<4. length (credits_borrowed s ! b) = 4) \<and>
     (\<forall>b<4. \<forall>l<4. 0 \<le> credits_borrowed s ! b ! l) \<and>
     (\<forall>b<4. \<forall>l<4. b \<le> l \<longrightarrow> credits_borrowed s ! b ! l = 0)"

lemma credit_wf_code [code]:
  "credit_wf s \<longleftrightarrow>
     length (fifo_credit s) = BRCMF_FWS_FIFO_COUNT \<and>
     length (init_fifo_credit s) = BRCMF_FWS_FIFO_COUNT \<and>
     length (credits_borrowed s) = 4 \<and>
     (\<forall>b\<in>set [0..<4]. length (credits_borrowed s ! b) = 4) \<and>
     (\<forall>b\<in>set [0..<4]. \<forall>l\<in>set [0..<4]. 0 \<le> credits_borrowed s ! b ! l) \<and>
     (\<forall>b\<in>set [0..<4]. \<forall>l\<in>set [0..<4]. b \<le> l \<longrightarrow> credits_borrowed s ! b ! l = 0)"
  by (auto simp: credit_wf_def)

text \<open>What fifo \<open>f\<close> owes in all, to the lenders below \<open>n\<close>.\<close>

definition owes :: "brcmf_fws_info \<Rightarrow> nat \<Rightarrow> nat \<Rightarrow> int" where
  "owes s n f = (\<Sum>l<n. credits_borrowed s ! f ! l)"

abbreviation credit_same :: "brcmf_fws_info \<Rightarrow> brcmf_fws_info \<Rightarrow> bool" where
  "credit_same s s' \<equiv> fifo_credit s' = fifo_credit s \<and> init_fifo_credit s' = init_fifo_credit s \<and>
     credits_borrowed s' = credits_borrowed s"

lemma credit_bit_same [simp]:
  "fifo_credit (set_credit_bit f s) = fifo_credit s"
  "init_fifo_credit (set_credit_bit f s) = init_fifo_credit s"
  "credits_borrowed (set_credit_bit f s) = credits_borrowed s"
  "fifo_credit (clear_credit_bit f s) = fifo_credit s"
  "init_fifo_credit (clear_credit_bit f s) = init_fifo_credit s"
  "credits_borrowed (clear_credit_bit f s) = credits_borrowed s"
  by (simp_all add: set_credit_bit_def clear_credit_bit_def)

lemma upd_credit_simps [simp]:
  "fifo_credit (upd_credit f v s) = (fifo_credit s)[f := v]"
  "init_fifo_credit (upd_credit f v s) = init_fifo_credit s"
  "credits_borrowed (upd_credit f v s) = credits_borrowed s"
  "fifo_credit (upd_borrowed b l v s) = fifo_credit s"
  "init_fifo_credit (upd_borrowed b l v s) = init_fifo_credit s"
  "credits_borrowed (upd_borrowed b l v s)
    = (credits_borrowed s)[b := (credits_borrowed s ! b)[l := v]]"
  by (simp_all add: upd_credit_def upd_borrowed_def)

lemma credit_wf_cong: "credit_same s s' \<Longrightarrow> credit_wf s' = credit_wf s"
  by (simp add: credit_wf_def)

subsection \<open>Giving credits back\<close>

text \<open>
  The relation between the tables before and after a repayment of fifo \<open>f\<close> to the lenders
  below \<open>n\<close>: every lender gains exactly what the debt to it shrinks by.
\<close>

definition repaid :: "nat \<Rightarrow> nat \<Rightarrow> brcmf_fws_info \<Rightarrow> brcmf_fws_info \<Rightarrow> bool" where
  "repaid n f s s' \<longleftrightarrow> credit_wf s' \<and> init_fifo_credit s' = init_fifo_credit s \<and>
     (\<forall>b<4. b \<noteq> f \<longrightarrow> credits_borrowed s' ! b = credits_borrowed s ! b) \<and>
     (\<forall>l<4. n \<le> l \<longrightarrow> credits_borrowed s' ! f ! l = credits_borrowed s ! f ! l) \<and>
     (\<forall>l<4. fifo_credit s' ! l
        = fifo_credit s ! l + credits_borrowed s ! f ! l - credits_borrowed s' ! f ! l) \<and>
     (\<forall>l<4. credits_borrowed s' ! f ! l \<le> credits_borrowed s ! f ! l) \<and>
     (\<forall>l<6. 4 \<le> l \<longrightarrow> fifo_credit s' ! l = fifo_credit s ! l)"

lemma repaid_refl: "credit_wf s \<Longrightarrow> repaid n f s s"
  by (simp add: repaid_def)

lemma repaid_trans: "repaid n f s t \<Longrightarrow> repaid n f t u \<Longrightarrow> repaid n f s u"
  unfolding repaid_def by (auto intro: order_trans)

lemma repaid_mono: "repaid m f s t \<Longrightarrow> m \<le> n \<Longrightarrow> repaid n f s t"
  by (auto simp: repaid_def)

lemma repaid_one:
  assumes "credit_wf s" "f < 4" "l < 4" "0 \<le> v" "v \<le> credits_borrowed s ! f ! l"
  shows "repaid (Suc l) f s
    (upd_borrowed f l v (upd_credit l (fifo_credit s ! l + (credits_borrowed s ! f ! l - v))
      (set_credit_bit l s)))" (is "repaid _ _ _ ?t")
proof -
  have len: "length (credits_borrowed s) = 4" "length (credits_borrowed s ! f) = 4"
    "length (fifo_credit s) = 6"
    using assms(1,2) by (simp_all add: credit_wf_def)
  have row: "credits_borrowed ?t ! b = (if b = f then (credits_borrowed s ! f)[l := v]
      else credits_borrowed s ! b)" if "b < 4" for b
    using that len by (simp add: nth_list_update)
  have "credits_borrowed ?t ! b ! m
      = (if b = f \<and> m = l then v else credits_borrowed s ! b ! m)" if "b < 4" "m < 4" for b m
    using that len row [OF that(1)] assms(3) by (simp add: nth_list_update)
  moreover have "v = 0" if "f \<le> l"
    using that assms by (auto simp: credit_wf_def)
  ultimately have "credit_wf ?t"
    using assms row by (simp add: credit_wf_def)
  moreover have "fifo_credit ?t ! m = (if m = l then fifo_credit s ! l + (credits_borrowed s ! f ! l - v)
      else fifo_credit s ! m)" if "m < 6" for m
    using that len by (simp add: nth_list_update)
  ultimately show ?thesis
    using row assms len by (simp add: repaid_def nth_list_update)
qed

lemma owes_Suc: "owes s (Suc n) f = owes s n f + credits_borrowed s ! f ! n"
  by (simp add: owes_def)

lemma owes_repaid_above:
  assumes "repaid m f s t" "m \<le> n" "n \<le> 4"
  shows "owes t n f = owes s n f - owes s m f + owes t m f"
proof -
  have "(\<Sum>l\<in>{m..<n}. credits_borrowed t ! f ! l) = (\<Sum>l\<in>{m..<n}. credits_borrowed s ! f ! l)"
    using assms by (intro sum.cong) (auto simp: repaid_def)
  moreover have "(\<Sum>l<n. g l) = (\<Sum>l<m. g l) + (\<Sum>l\<in>{m..<n}. g l)" for g :: "nat \<Rightarrow> int"
    using assms(2) by (metis atLeast0LessThan le0 sum.atLeastLessThan_concat)
  ultimately show ?thesis by (simp add: owes_def)
qed

lemma owes_nonneg: "credit_wf s \<Longrightarrow> f < 4 \<Longrightarrow> n \<le> 4 \<Longrightarrow> 0 \<le> owes s n f"
  unfolding owes_def by (intro sum_nonneg) (auto simp: credit_wf_def)

lemma repay_lenders_spec:
  assumes "credit_wf s" "f < 4" "n \<le> 4" "repay_lenders n f c s = (fin, c', s')" "0 < uint c"
  shows "repaid n f s s' \<and>
    (if fin then uint c \<le> owes s n f \<and> owes s' n f = owes s n f - uint c
     else owes s' n f = 0 \<and> uint c' = uint c - owes s n f \<and> 0 < uint c')"
  using assms
proof (induction n arbitrary: c s)
  case 0
  then show ?case by (auto simp: owes_def repaid_refl)
next
  case (Suc l)
  let ?b = "credits_borrowed s ! f ! l"
  have l: "l < 4" and b: "0 \<le> ?b" using Suc.prems(1-3) by (auto simp: credit_wf_def)
  consider "?b = 0" | "?b \<noteq> 0" "?b \<ge> uint c" | "?b \<noteq> 0" "?b < uint c" by linarith
  then show ?case
  proof cases
    case 1
    with Suc.prems Suc.IH [of s c] repaid_mono [of l f s s' "Suc l"] owes_repaid_above [of l f s s' "Suc l"]
    show ?thesis by (auto simp: owes_Suc repaid_def split: if_splits)
  next
    case 2
    have v: "0 \<le> ?b - uint c" "?b - uint c \<le> ?b" using 2 Suc.prems(5) by auto
    note r = repaid_one [OF Suc.prems(1,2) l v]
    from 2 Suc.prems(4) have s': "fin" "s' = upd_borrowed f l (?b - uint c)
        (upd_credit l (fifo_credit s ! l + (?b - (?b - uint c))) (set_credit_bit l s))"
      by (auto simp: Let_def upd_borrowed_def upd_credit_def set_credit_bit_def)
    have "owes s' (Suc l) f = owes s (Suc l) f - uint c"
      using Suc.prems(1,2) l by (simp add: s'(2) owes_def credit_wf_def)
    moreover have "uint c \<le> owes s (Suc l) f"
      using 2 owes_nonneg [OF Suc.prems(1,2), of l] l by (simp add: owes_Suc)
    ultimately show ?thesis using r s' by simp
  next
    case 3
    let ?t = "upd_borrowed f l 0 (upd_credit l (fifo_credit s ! l + (?b - 0)) (set_credit_bit l s))"
    have c: "uint (c - of_int ?b) = uint c - ?b"
    proof -
      have "0 \<le> uint c - ?b" "uint c - ?b < 2 ^ 8" using 3 b uint_bounded [of c] by auto
      then show ?thesis
        by (simp add: uint_word_ariths uint_word_of_int take_bit_eq_mod mod_diff_right_eq)
    qed
    note r = repaid_one [OF Suc.prems(1,2) l order_refl b]
    have t: "credit_wf ?t" using r by (simp add: repaid_def)
    have "repay_lenders l f (c - of_int ?b) ?t = (fin, c', s')"
      using Suc.prems(4) 3 by (simp add: Let_def)
    note IH = Suc.IH [OF t Suc.prems(2) _ this] c 3 l
    have rep: "repaid l f ?t s'" using IH by auto
    have zero: "credits_borrowed ?t ! f ! l = 0" "owes ?t l f = owes s l f"
      using Suc.prems(1,2) l by (simp_all add: owes_def credit_wf_def)
    have "owes s' (Suc l) f = owes s' l f"
      using rep zero l by (simp add: owes_Suc repaid_def)
    then show ?thesis
      using IH zero repaid_trans [OF r repaid_mono [OF rep]] by (auto simp: owes_Suc)
  qed
qed

lemma credit_clamp:
  "(if fifo_credit s ! f > init_fifo_credit s ! f then upd_credit f (init_fifo_credit s ! f) s else s)
   = upd_credit f (min (init_fifo_credit s ! f) (fifo_credit s ! f)) s"
  by (auto simp: upd_credit_def min_def)

lemma credit_wf_upd_credit: "credit_wf s \<Longrightarrow> credit_wf (upd_credit f v s)"
  by (simp add: credit_wf_def)

lemma return_credits_effect:
  assumes "credit_wf s" "f < BRCMF_FWS_FIFO_COUNT" "c \<noteq> 0"
    "owed = (if 0 < f \<and> f < 4 then owes s 4 f else 0)"
  shows "\<exists>s'. brcmf_fws_return_credits f c s = Some s' \<and> credit_wf s' \<and>
    init_fifo_credit s' = init_fifo_credit s \<and>
    (\<forall>l<6. l \<noteq> f \<longrightarrow> fifo_credit s' ! l = fifo_credit s ! l
       + (if l < 4 \<and> f < 4 then credits_borrowed s ! f ! l - credits_borrowed s' ! f ! l else 0)) \<and>
    (\<forall>b<4. b \<noteq> f \<longrightarrow> credits_borrowed s' ! b = credits_borrowed s ! b) \<and>
    (0 < f \<and> f < 4 \<longrightarrow> owes s' 4 f = max 0 (owed - uint c)) \<and>
    (f = 0 \<longrightarrow> credits_borrowed s' ! 0 = credits_borrowed s ! 0) \<and>
    (f < 4 \<longrightarrow> (\<forall>l<4. credits_borrowed s' ! f ! l \<le> credits_borrowed s ! f ! l)) \<and>
    fifo_credit s' ! f = (if uint c \<le> owed then fifo_credit s ! f
      else min (init_fifo_credit s ! f) (fifo_credit s ! f + (uint c - owed)))"
proof (cases "0 < f \<and> f < 4")
  case False
  let ?s = "set_credit_bit f s"
  let ?t = "upd_credit f (fifo_credit s ! f + uint c) ?s"
  have len: "length (fifo_credit s) = 6" using assms(1) by (simp add: credit_wf_def)
  have "brcmf_fws_return_credits f c s
      = Some (upd_credit f (min (init_fifo_credit ?t ! f) (fifo_credit ?t ! f)) ?t)"
    using False assms(2,3)
    by (simp only: brcmf_fws_return_credits_def Let_def credit_clamp prod.case if_False) auto
  moreover have "credit_wf ?s" using assms(1) by (simp add: credit_wf_def)
  moreover have "uint c > 0" using assms(3) by (simp add: word_neq_0_conv word_less_def)
  moreover have "\<not> (0 < f \<and> f < 4)" by fact
  ultimately show ?thesis
    using assms(2,4) len by (auto simp: credit_wf_upd_credit nth_list_update)
next
  case True
  let ?s = "set_credit_bit f s"
  obtain fin c' t where r: "repay_lenders (Suc BRCMF_FWS_FIFO_AC_VO) f c ?s = (fin, c', t)"
    by (metis prod.collapse)
  have pos: "0 < uint c" using assms(3) by (simp add: word_neq_0_conv word_less_def)
  have wf: "credit_wf ?s" using assms(1) by (simp add: credit_wf_def)
  have own: "owes ?s 4 f = owes s 4 f" by (simp add: owes_def)
  note spec = repay_lenders_spec [OF wf _ _ r pos]
  have rep: "repaid 4 f s t"
    and cases: "if fin then uint c \<le> owed \<and> owes t 4 f = owed - uint c
      else owes t 4 f = 0 \<and> uint c' = uint c - owed \<and> 0 < uint c'"
    using spec True own assms(4) by (auto simp: repaid_def)
  have same: "credits_borrowed t ! f ! f = credits_borrowed s ! f ! f"
    using rep True assms(1) by (simp add: repaid_def credit_wf_def)
  have own_t: "fifo_credit t ! f = fifo_credit s ! f"
    using rep True same by (auto simp: repaid_def)
  show ?thesis
  proof (cases fin)
    case True
    have "brcmf_fws_return_credits f c s = Some t"
      using \<open>0 < f \<and> f < 4\<close> assms(2,3) r True by (simp add: brcmf_fws_return_credits_def Let_def)
    with rep cases True own_t \<open>0 < f \<and> f < 4\<close> show ?thesis by (auto simp: repaid_def)
  next
    case False
    let ?t = "upd_credit f (fifo_credit t ! f + uint c') t"
    let ?u = "upd_credit f (min (init_fifo_credit ?t ! f) (fifo_credit ?t ! f)) ?t"
    have "c' \<noteq> 0" using cases False by auto
    then have "brcmf_fws_return_credits f c s = Some ?u"
      using \<open>0 < f \<and> f < 4\<close> assms(2,3) r False
      by (simp only: brcmf_fws_return_credits_def Let_def credit_clamp prod.case if_False) auto
    moreover have "length (fifo_credit t) = 6" using rep by (simp add: repaid_def credit_wf_def)
    moreover have "owes ?u 4 f = owes t 4 f" by (simp add: owes_def)
    ultimately show ?thesis
      using rep cases False own_t \<open>0 < f \<and> f < 4\<close>
      by (auto simp: repaid_def credit_wf_upd_credit)
  qed
qed

text \<open>
  Credits given back to a fifo repay its lenders first, highest lender first: each
  lender gains exactly what the debt to it shrinks by, and the debts shrink by as much as the
  credits cover. Only what is left goes to the fifo itself, which never passes the number of
  credits the firmware announced. Nothing else changes.
\<close>
theorem return_credits_spec:
  assumes "credit_wf s" "f < BRCMF_FWS_FIFO_COUNT" "c \<noteq> 0"
    "owed = (if 0 < f \<and> f < 4 then owes s 4 f else 0)"
  shows "\<exists>s'. brcmf_fws_return_credits f c s = Some s' \<and> credit_wf s' \<and>
    init_fifo_credit s' = init_fifo_credit s \<and>
    (\<forall>l<6. l \<noteq> f \<longrightarrow> fifo_credit s' ! l = fifo_credit s ! l
       + (if l < 4 \<and> f < 4 then credits_borrowed s ! f ! l - credits_borrowed s' ! f ! l else 0)) \<and>
    (\<forall>b<4. b \<noteq> f \<longrightarrow> credits_borrowed s' ! b = credits_borrowed s ! b) \<and>
    (0 < f \<and> f < 4 \<longrightarrow> owes s' 4 f = max 0 (owed - uint c)) \<and>
    (f = 0 \<longrightarrow> credits_borrowed s' ! 0 = credits_borrowed s ! 0) \<and>
    (f < 4 \<longrightarrow> (\<forall>l<4. credits_borrowed s' ! f ! l \<le> credits_borrowed s ! f ! l)) \<and>
    fifo_credit s' ! f = (if uint c \<le> owed then fifo_credit s ! f
      else min (init_fifo_credit s ! f) (fifo_credit s ! f + (uint c - owed)))"
  using assms by (rule return_credits_effect)

definition sample_credits :: brcmf_fws_info where
  "sample_credits = (zero_fws (\<lambda>_. zero_skb) (\<lambda>_. None) None)\<lparr>
     init_fifo_credit := [3, 4, 4, 4, 2, 0], fifo_credit := [0, 1, 4, 0, 2, 0],
     credits_borrowed := [[0, 0, 0, 0], [0, 0, 0, 0], [0, 0, 0, 0], [2, 1, 0, 0]]\<rparr>"

theorem return_credits_spec_witness:
  "\<exists>s'. brcmf_fws_return_credits BRCMF_FWS_FIFO_AC_VO 5 sample_credits = Some s' \<and>
     owes s' 4 3 = 0 \<and> fifo_credit s' ! 3 = 2"
proof -
  have hyps: "credit_wf sample_credits" "(5 :: u8) \<noteq> 0" by code_simp+
  have vals: "owes sample_credits 4 3 = 3" "init_fifo_credit sample_credits ! 3 = 4"
    "fifo_credit sample_credits ! 3 = 0" by code_simp+
  from return_credits_spec [OF hyps(1) _ hyps(2) refl, of 3] vals show ?thesis by auto
qed

subsection \<open>Borrowing\<close>

lemma borrow_from_cases:
  assumes "borrow_from lender n b all s = (res, s')"
  obtains "res = Inl ENAVAIL" "credit_same s s'"
  | l where "res = Inr ()" "lender \<le> l" "l < lender + n"
      "fifo_credit s ! l > (if all then 0 else init_fifo_credit s ! l div 3)"
      "fifo_credit s' = (fifo_credit s)[l := fifo_credit s ! l - 1]"
      "init_fifo_credit s' = init_fifo_credit s"
      "credits_borrowed s' = (credits_borrowed s)[b := (credits_borrowed s ! b)
         [l := credits_borrowed s ! b ! l + 1]]"
  using assms
proof (induction n arbitrary: lender thesis)
  case 0
  then show ?case by auto
next
  case (Suc n)
  let ?lim = "if all then 0 else init_fifo_credit s ! lender div 3"
  show ?case
  proof (cases "fifo_credit s ! lender > ?lim")
    case True
    with Suc.prems(3) have "res = Inr ()" "fifo_credit s' = (fifo_credit s)[lender := fifo_credit s ! lender - 1]"
      "init_fifo_credit s' = init_fifo_credit s"
      "credits_borrowed s' = (credits_borrowed s)[b := (credits_borrowed s ! b)
         [lender := credits_borrowed s ! b ! lender + 1]]"
      by (auto simp: Let_def split: if_splits)
    with True show ?thesis by (intro Suc.prems(2) [of lender]) auto
  next
    case False
    with Suc.prems(3) have "borrow_from (Suc lender) n b all s = (res, s')"
      by (auto simp: Let_def split: if_splits)
    then show ?thesis
    proof (rule Suc.IH [rotated 2])
      fix l
      assume "res = Inr ()" "Suc lender \<le> l" "l < Suc lender + n"
        "fifo_credit s ! l > (if all then 0 else init_fifo_credit s ! l div 3)"
        "fifo_credit s' = (fifo_credit s)[l := fifo_credit s ! l - 1]"
        "init_fifo_credit s' = init_fifo_credit s"
        "credits_borrowed s' = (credits_borrowed s)[b := (credits_borrowed s ! b)
           [l := credits_borrowed s ! b ! l + 1]]"
      then show thesis by (intro Suc.prems(2) [of l]) auto
    qed (rule Suc.prems(1))
  qed
qed

subsection \<open>The accounts over any run\<close>

text \<open>
  The state together with the number of packets each fifo has in flight on its own credits.
  A fifo sends on its own credit (as \<open>brcmf_fws_dequeue_worker\<close> does), borrows, or gets credits
  back, never more than it has in flight.
\<close>

type_synonym credit_sys = "brcmf_fws_info \<times> (nat \<Rightarrow> int)"

definition debt :: "brcmf_fws_info \<Rightarrow> nat \<Rightarrow> int" where
  "debt s f = (if 0 < f \<and> f < 4 then owes s 4 f else 0)"

inductive credit_step :: "credit_sys \<Rightarrow> credit_sys \<Rightarrow> bool" where
  spend: "f < BRCMF_FWS_FIFO_COUNT \<Longrightarrow> fifo_credit s ! f > 0 \<Longrightarrow>
    credit_step (s, own) (upd_credit f (fifo_credit s ! f - 1) s, own(f := own f + 1))"
| borrow: "BRCMF_FWS_FIFO_AC_BE \<le> f \<Longrightarrow> f \<le> BRCMF_FWS_FIFO_AC_VO \<Longrightarrow>
    brcmf_fws_borrow_credit (f - 1) f all s = (res, s') \<Longrightarrow> credit_step (s, own) (s', own)"
| give_back: "f < BRCMF_FWS_FIFO_COUNT \<Longrightarrow> uint c \<le> own f + debt s f \<Longrightarrow>
    brcmf_fws_return_credits f c s = Some s' \<Longrightarrow>
    credit_step (s, own) (s', own(f := own f - max 0 (uint c - debt s f)))"

inductive credit_reachable :: "credit_sys \<Rightarrow> bool" where
  start: "credit_wf s \<Longrightarrow> fifo_credit s = init_fifo_credit s \<Longrightarrow> \<forall>f<6. 0 \<le> init_fifo_credit s ! f \<Longrightarrow>
    credits_borrowed s = replicate 4 (replicate 4 0) \<Longrightarrow> credit_reachable (s, \<lambda>_. 0)"
| step: "credit_reachable cs \<Longrightarrow> credit_step cs cs' \<Longrightarrow> credit_reachable cs'"

text \<open>What fifo \<open>l\<close> has lent to others.\<close>

definition lent :: "brcmf_fws_info \<Rightarrow> nat \<Rightarrow> int" where
  "lent s l = (if l < 4 then \<Sum>b<4. credits_borrowed s ! b ! l else 0)"

definition credit_inv :: "credit_sys \<Rightarrow> bool" where
  "credit_inv cs \<longleftrightarrow> (case cs of (s, own) \<Rightarrow> credit_wf s \<and>
     (\<forall>l<6. 0 \<le> fifo_credit s ! l \<and> 0 \<le> own l \<and>
        fifo_credit s ! l + own l + lent s l = init_fifo_credit s ! l))"

lemma lent_nonneg: "credit_wf s \<Longrightarrow> 0 \<le> lent s l"
  unfolding lent_def by (auto intro!: sum_nonneg simp: credit_wf_def)

lemma lent_row:
  assumes "f < 4" "l < 4" "\<forall>b<4. b \<noteq> f \<longrightarrow> credits_borrowed s' ! b = credits_borrowed s ! b"
  shows "lent s' l = lent s l + (credits_borrowed s' ! f ! l - credits_borrowed s ! f ! l)"
proof -
  have "(\<Sum>b\<in>{..<4} - {f}. credits_borrowed s' ! b ! l) = (\<Sum>b\<in>{..<4} - {f}. credits_borrowed s ! b ! l)"
    using assms(3) by (intro sum.cong) auto
  moreover have "(\<Sum>b<4. g b) = g f + (\<Sum>b\<in>{..<4} - {f}. g b)" for g :: "nat \<Rightarrow> int"
    using assms(1) by (intro sum.remove) auto
  ultimately show ?thesis using assms(2) by (simp add: lent_def)
qed

lemma credit_inv_spend:
  assumes "credit_inv (s, own)" "f < 6" "fifo_credit s ! f > 0"
  shows "credit_inv (upd_credit f (fifo_credit s ! f - 1) s, own(f := own f + 1))"
proof -
  have "length (fifo_credit s) = 6" using assms(1) by (simp add: credit_inv_def credit_wf_def)
  moreover have "lent (upd_credit f v s) l = lent s l" for v l by (simp add: lent_def)
  ultimately show ?thesis
    using assms by (auto simp: credit_inv_def credit_wf_upd_credit nth_list_update)
qed

lemma credit_inv_borrow:
  assumes inv: "credit_inv (s, own)" and f: "1 \<le> f" "f \<le> 3"
    and b: "brcmf_fws_borrow_credit (f - 1) f all s = (res, s')"
  shows "credit_inv (s', own)"
  using b unfolding brcmf_fws_borrow_credit_def
proof (cases rule: borrow_from_cases)
  case 1
  then have "lent s' = lent s" "credit_wf s' = credit_wf s"
    by (auto simp: lent_def credit_wf_def)
  with 1 inv show ?thesis by (simp add: credit_inv_def)
next
  case (2 l)
  have wf: "credit_wf s" using inv by (simp add: credit_inv_def)
  have lf: "l < f" "l < 4" using 2(3) f by auto
  have len: "length (credits_borrowed s) = 4" "length (credits_borrowed s ! f) = 4"
    "length (fifo_credit s) = 6"
    using wf f by (simp_all add: credit_wf_def)
  have row: "credits_borrowed s' ! b = (if b = f
      then (credits_borrowed s ! f)[l := credits_borrowed s ! f ! l + 1] else credits_borrowed s ! b)"
    if "b < 4" for b using that len 2(7) by (simp add: nth_list_update)
  have pos: "0 < fifo_credit s ! l"
  proof -
    have "l < 6" using lf by simp
    then have "fifo_credit s ! l + own l + lent s l = init_fifo_credit s ! l"
      "0 \<le> fifo_credit s ! l" "0 \<le> own l" using inv by (simp_all add: credit_inv_def)
    then have "0 \<le> init_fifo_credit s ! l" using lent_nonneg [OF wf, of l] by linarith
    then have "0 \<le> init_fifo_credit s ! l div 3" by (simp add: pos_imp_zdiv_nonneg_iff)
    then show ?thesis using 2(4) by (auto split: if_splits)
  qed
  have cell: "credits_borrowed s' ! b ! m
      = credits_borrowed s ! b ! m + (if b = f \<and> m = l then 1 else 0)" if "b < 4" "m < 4" for b m
    using that row [OF that(1)] len lf by (simp add: nth_list_update)
  have "credit_wf s'"
    using wf 2 row cell lf f by (auto simp: credit_wf_def)
  moreover have lent: "lent s' m = lent s m + (if m = l then 1 else 0)" for m
  proof (cases "m < 4")
    case True
    have "\<forall>b<4. b \<noteq> f \<longrightarrow> credits_borrowed s' ! b = credits_borrowed s ! b" using row by simp
    from lent_row [OF _ True this] cell [of f m] True f show ?thesis by simp
  next
    case False
    with lf show ?thesis by (simp add: lent_def)
  qed
  moreover have "0 \<le> fifo_credit s' ! m \<and> 0 \<le> own m \<and>
      fifo_credit s' ! m + own m + lent s' m = init_fifo_credit s ! m" if "m < 6" for m
  proof -
    have "0 \<le> fifo_credit s ! m" "0 \<le> own m"
      "fifo_credit s ! m + own m + lent s m = init_fifo_credit s ! m"
      using inv that by (simp_all add: credit_inv_def)
    with lent [of m] pos 2(5) len lf that show ?thesis by (cases "m = l") auto
  qed
  ultimately show ?thesis using 2(6) by (simp add: credit_inv_def)
qed

lemma credit_inv_give_back:
  assumes inv: "credit_inv (s, own)" and f: "f < 6" and le: "uint c \<le> own f + debt s f"
    and r: "brcmf_fws_return_credits f c s = Some s'"
  shows "credit_inv (s', own(f := own f - max 0 (uint c - debt s f)))"
proof (cases "c = 0")
  case True
  have "0 \<le> debt s f" using inv owes_nonneg [of s f 4] by (auto simp: debt_def credit_inv_def)
  with True r inv show ?thesis by (simp add: brcmf_fws_return_credits_def credit_inv_def)
next
  case False
  have wf: "credit_wf s" using inv by (simp add: credit_inv_def)
  from return_credits_effect [OF wf f False debt_def] r
  have wf': "credit_wf s'" and init: "init_fifo_credit s' = init_fifo_credit s"
    and others: "\<And>l. l < 6 \<Longrightarrow> l \<noteq> f \<Longrightarrow> fifo_credit s' ! l = fifo_credit s ! l
       + (if l < 4 \<and> f < 4 then credits_borrowed s ! f ! l - credits_borrowed s' ! f ! l else 0)"
    and rows: "\<forall>b<4. b \<noteq> f \<longrightarrow> credits_borrowed s' ! b = credits_borrowed s ! b"
    and mono: "f < 4 \<longrightarrow> (\<forall>l<4. credits_borrowed s' ! f ! l \<le> credits_borrowed s ! f ! l)"
    and mine: "fifo_credit s' ! f = (if uint c \<le> debt s f then fifo_credit s ! f
      else min (init_fifo_credit s ! f) (fifo_credit s ! f + (uint c - debt s f)))"
    by auto
  have lent: "lent s' l = lent s l + (if l < 4 \<and> f < 4
      then credits_borrowed s' ! f ! l - credits_borrowed s ! f ! l else 0)" for l
    using lent_row [OF _ _ rows] rows by (auto simp: lent_def intro!: sum.cong)
  have lent_f: "lent s' f = lent s f"
    using lent [of f] wf wf' by (simp add: credit_wf_def)
  have "fifo_credit s ! f + own f \<le> init_fifo_credit s ! f"
    using inv f lent_nonneg [OF wf, of f] by (auto simp: credit_inv_def)
  then have "fifo_credit s' ! f = fifo_credit s ! f + max 0 (uint c - debt s f)"
    using mine le by auto
  note own_f = this
  have acc: "0 \<le> fifo_credit s ! l" "0 \<le> own l"
    "fifo_credit s ! l + own l + lent s l = init_fifo_credit s ! l" if "l < 6" for l
    using inv that by (simp_all add: credit_inv_def)
  have "0 \<le> fifo_credit s' ! l \<and> fifo_credit s' ! l + own l + lent s' l = init_fifo_credit s ! l"
    if l: "l < 6" "l \<noteq> f" for l
    using others [OF l] lent [of l] acc [OF l(1)] mono by auto
  moreover have "0 \<le> fifo_credit s' ! f \<and> 0 \<le> own f - max 0 (uint c - debt s f) \<and>
      fifo_credit s' ! f + (own f - max 0 (uint c - debt s f)) + lent s' f = init_fifo_credit s ! f"
    using own_f lent_f acc [OF f] le by auto
  ultimately show ?thesis
    using wf' init acc by (auto simp: credit_inv_def)
qed

lemma credit_reachable_inv: "credit_reachable cs \<Longrightarrow> credit_inv cs"
proof (induction rule: credit_reachable.induct)
  case (start s)
  have "lent s l = 0" for l using start(4) by (simp add: lent_def)
  with start show ?case by (simp add: credit_inv_def)
next
  case (step cs cs')
  from step.hyps(2) step.IH show ?case
    by cases (auto intro: credit_inv_spend credit_inv_borrow credit_inv_give_back)
qed


definition credits0 :: brcmf_fws_info where
  "credits0 = snd (brcmf_fws_notify_credit_map [3, 4, 4, 4, 2, 0]
     (zero_fws (\<lambda>_. zero_skb) (\<lambda>_. None) None))"


end
