(* ===== verification/Fws_Queue.thy ===== *)
theory Fws_Queue
  imports Fws_Credit
begin

section \<open>Descriptors and their power-save queues (brcmfmac/fwsignal.c)\<close>

text \<open>
  Each station and interface has a descriptor with a queue. A fifo uses two precedences of it:
  \<open>2 * fifo\<close> for packets that wait to be sent and \<open>2 * fifo + 1\<close> for packets the firmware
  suppressed, which go out first. This theory models the flow control of the network queues, the
  clean-up of queues and hanger, the header that carries a packet's tag to the firmware, the
  traffic indication, and the two central operations: \<open>brcmf_fws_enq\<close>, which puts a suppressed
  packet back where its sequence number belongs, and \<open>brcmf_fws_deq\<close>, which goes round the
  descriptors.
\<close>

subsection \<open>Interfaces and flow control\<close>

abbreviation (input) BRCMF_NETIF_STOP_REASON_FWS_FC :: u8 where "BRCMF_NETIF_STOP_REASON_FWS_FC \<equiv> 1"
abbreviation (input) BRCMF_NETIF_STOP_REASON_FLOW :: u8 where "BRCMF_NETIF_STOP_REASON_FLOW \<equiv> 2"

definition brcmf_get_ifp :: "brcmf_fws_info \<Rightarrow> nat \<Rightarrow> brcmf_if option" where
  "brcmf_get_ifp s idx = (if idx \<ge> BRCMF_MAX_IFS then None else ifaces s idx)"

definition brcmf_txflowblock_if :: "u8 \<Rightarrow> bool \<Rightarrow> brcmf_if \<Rightarrow> brcmf_if" where
  "brcmf_txflowblock_if reason st ifp =
     (if \<not> has_ndev ifp then ifp
      else if st
      then let ifp = (if netif_stop ifp = 0 then ifp\<lparr>queue_stopped := True\<rparr> else ifp)
           in ifp\<lparr>netif_stop := netif_stop ifp OR reason\<rparr>
      else let ifp = ifp\<lparr>netif_stop := netif_stop ifp AND NOT reason\<rparr>
           in if netif_stop ifp = 0 then ifp\<lparr>queue_stopped := False\<rparr> else ifp)"

definition brcmf_fws_flow_control_check :: "pkt pktq \<Rightarrow> nat \<Rightarrow> brcmf_fws_info \<Rightarrow> brcmf_fws_info" where
  "brcmf_fws_flow_control_check pq if_id s =
     (case brcmf_get_ifp s if_id of
        None \<Rightarrow> s
      | Some ifp \<Rightarrow>
          let ifp = (if netif_stop ifp AND BRCMF_NETIF_STOP_REASON_FWS_FC \<noteq> 0 \<and>
                        unat (pq_len pq) \<le> fws_psq_low_water s
                     then brcmf_txflowblock_if BRCMF_NETIF_STOP_REASON_FWS_FC False ifp else ifp);
              full = (netif_stop ifp AND BRCMF_NETIF_STOP_REASON_FWS_FC = 0 \<and>
                      unat (pq_len pq) \<ge> fws_psq_hi_water s);
              s = (if full then upd_stats (\<lambda>t. t\<lparr>fws_flow_block := fws_flow_block t + 1\<rparr>) s else s);
              ifp = (if full then brcmf_txflowblock_if BRCMF_NETIF_STOP_REASON_FWS_FC True ifp else ifp)
          in s\<lparr>ifaces := (ifaces s)(if_id := Some ifp)\<rparr>)"

subsection \<open>Clean-up\<close>

definition flush_match :: "brcmf_fws_info \<Rightarrow> int \<Rightarrow> (pkt \<Rightarrow> bool) option" where
  "flush_match s idx = (if idx \<noteq> -1 then Some (brcmf_fws_ifidx_match s idx) else None)"

text \<open>
  One precedence: a packet that matches is taken out, its hanger slot is emptied, and it is
  freed, until none is left. The first argument bounds the rounds by the length of the queue.
\<close>

fun psq_flush_prec :: "nat \<Rightarrow> nat \<Rightarrow> nat \<Rightarrow> int \<Rightarrow> brcmf_fws_info \<Rightarrow> brcmf_fws_info option" where
  "psq_flush_prec 0 i prec idx s = Some s"
| "psq_flush_prec (Suc n) i prec idx s =
     (case brcmu_pktq_pdeq_match (psq (the_desc s i)) prec (flush_match s idx) of
        (None, q) \<Rightarrow> Some s
      | (Some skb, q) \<Rightarrow> do {
          let s = upd_desc i (\<lambda>d. d\<lparr>psq := q\<rparr>) s;
          let hslot = htod_hslot (packets s skb);
          (skb, s) \<leftarrow> (case brcmf_fws_hanger_poppkt (hanger s) hslot True of
              (Inl _, h) \<Rightarrow> Some (skb, s\<lparr>hanger := h\<rparr>)
            | (Inr (Some k), h) \<Rightarrow> Some (k, s\<lparr>hanger := h\<rparr>)
            | (Inr None, h) \<Rightarrow> None);
          let skbidx = unat (if_flags_index (packets s skb));
          let s = brcmf_fws_flow_control_check q skbidx s;
          let s = brcmu_pkt_buf_free_skb skb s;
          psq_flush_prec n i prec idx s
        })"

fun psq_flush_from :: "nat \<Rightarrow> nat \<Rightarrow> nat \<Rightarrow> int \<Rightarrow> brcmf_fws_info \<Rightarrow> brcmf_fws_info option" where
  "psq_flush_from prec 0 i idx s = Some s"
| "psq_flush_from prec (Suc n) i idx s = do {
     s \<leftarrow> psq_flush_prec (length (skbs (psq (the_desc s i)) prec)) i prec idx s;
     psq_flush_from (Suc prec) n i idx s
   }"

definition brcmf_fws_psq_flush :: "nat \<Rightarrow> int \<Rightarrow> brcmf_fws_info \<Rightarrow> brcmf_fws_info option" where
  "brcmf_fws_psq_flush i idx s = psq_flush_from 0 (unat (num_prec (psq (the_desc s i)))) i idx s"

definition brcmf_fws_macdesc_init ::
    "u8 list option \<Rightarrow> u8 \<Rightarrow> brcmf_fws_mac_descriptor \<Rightarrow> brcmf_fws_mac_descriptor" where
  "brcmf_fws_macdesc_init addr idx d =
     (let d = d\<lparr>occupied := True, mac_state := BRCMF_FWS_STATE_OPEN, requested_credit := 0,
                requested_packet := 0, interface_id := idx, ac_bitmap := 0xff\<rparr>
      in case addr of None \<Rightarrow> d | Some a \<Rightarrow> d\<lparr>ea := a\<rparr>)"

definition brcmf_fws_macdesc_deinit :: "brcmf_fws_mac_descriptor \<Rightarrow> brcmf_fws_mac_descriptor" where
  "brcmf_fws_macdesc_deinit d =
     d\<lparr>occupied := False, mac_state := BRCMF_FWS_STATE_CLOSE, requested_credit := 0,
       requested_packet := 0\<rparr>"

definition brcmf_fws_macdesc_lookup :: "brcmf_fws_info \<Rightarrow> u8 list option \<Rightarrow> errno + nat" where
  "brcmf_fws_macdesc_lookup s addr =
     (case addr of
        None \<Rightarrow> Inl EINVAL
      | Some a \<Rightarrow>
          (case first_index (\<lambda>i. occupied (the_desc s i) \<and> ea (the_desc s i) = a)
                  BRCMF_FWS_MAC_DESC_TABLE_SIZE of
             Some i \<Rightarrow> Inr i
           | None \<Rightarrow> Inl ENOENT))"

definition is_multicast_ether_addr :: "u8 list \<Rightarrow> bool" where
  "is_multicast_ether_addr a \<longleftrightarrow> a ! 0 AND 1 \<noteq> 0"

definition brcmf_fws_macdesc_find :: "brcmf_fws_info \<Rightarrow> brcmf_if \<Rightarrow> u8 list \<Rightarrow> nat option" where
  "brcmf_fws_macdesc_find s ifp da =
     (if is_multicast_ether_addr da \<and> fws_desc ifp \<noteq> None then fws_desc ifp
      else case brcmf_fws_macdesc_lookup s (Some da) of Inr i \<Rightarrow> Some i | Inl _ \<Rightarrow> fws_desc ifp)"

text \<open>The index of the interface entry comes from the firmware and is not checked.\<close>

definition brcmf_fws_macdesc_closed :: "brcmf_fws_info \<Rightarrow> nat \<Rightarrow> nat \<Rightarrow> bool option" where
  "brcmf_fws_macdesc_closed s i fifo =
     (let entry = the_desc s i;
          closed = (mac_state entry = BRCMF_FWS_STATE_CLOSE \<and>
                    requested_credit entry = 0 \<and> requested_packet entry = 0);
          ret = (closed \<or> ac_bitmap entry AND push_bit fifo 1 = 0)
      in if mac_handle entry \<noteq> 0
         then if unat (interface_id entry) \<ge> BRCMF_MAX_IFS then None
              else if mac_state (the_desc s (iface_ix (unat (interface_id entry)))) = BRCMF_FWS_STATE_CLOSE
              then Some True else Some ret
         else Some ret)"

definition brcmf_fws_macdesc_cleanup :: "nat \<Rightarrow> int \<Rightarrow> brcmf_fws_info \<Rightarrow> brcmf_fws_info option" where
  "brcmf_fws_macdesc_cleanup i idx s =
     (if occupied (the_desc s i) \<and> (idx = -1 \<or> idx = uint (interface_id (the_desc s i)))
      then do {
        s \<leftarrow> brcmf_fws_psq_flush i idx s;
        Some (upd_desc i (\<lambda>d. d\<lparr>occupied := (pq_len (psq d) \<noteq> 0)\<rparr>) s)
      } else Some s)"

fun txq_cleanup_prec :: "nat \<Rightarrow> nat \<Rightarrow> int \<Rightarrow> pkt pktq \<Rightarrow> brcmf_fws_info \<Rightarrow> (pkt pktq \<times> brcmf_fws_info) option" where
  "txq_cleanup_prec 0 prec idx txq s = Some (txq, s)"
| "txq_cleanup_prec (Suc n) prec idx txq s =
     (case brcmu_pktq_pdeq_match txq prec (flush_match s idx) of
        (None, q) \<Rightarrow> Some (txq, s)
      | (Some skb, q) \<Rightarrow>
          let hslot = htod_hslot (packets s skb) in
          if hslot \<ge> BRCMF_FWS_HANGER_MAXITEMS then None
          else
            let h = hanger s;
                h = h\<lparr>hg_items := (hg_items h)(unat hslot :=
                      (hg_items h (unat hslot))\<lparr>hi_state := BRCMF_FWS_HANGER_ITEM_STATE_FREE\<rparr>)\<rparr>
            in txq_cleanup_prec n prec idx q (brcmu_pkt_buf_free_skb skb (s\<lparr>hanger := h\<rparr>)))"

fun txq_cleanup_from :: "nat \<Rightarrow> nat \<Rightarrow> int \<Rightarrow> pkt pktq \<Rightarrow> brcmf_fws_info \<Rightarrow> (pkt pktq \<times> brcmf_fws_info) option" where
  "txq_cleanup_from prec 0 idx txq s = Some (txq, s)"
| "txq_cleanup_from prec (Suc n) idx txq s = do {
     (txq, s) \<leftarrow> txq_cleanup_prec (length (skbs txq prec)) prec idx txq s;
     txq_cleanup_from (Suc prec) n idx txq s
   }"

definition brcmf_fws_bus_txq_cleanup :: "int \<Rightarrow> brcmf_fws_info \<Rightarrow> brcmf_fws_info option" where
  "brcmf_fws_bus_txq_cleanup idx s =
     (case bus_txq s of
        None \<Rightarrow> Some s
      | Some txq \<Rightarrow> do {
          (txq, s) \<leftarrow> txq_cleanup_from 0 (unat (num_prec txq)) idx txq s;
          Some (s\<lparr>bus_txq := Some txq\<rparr>)
        })"

fun macdesc_cleanup_from :: "nat \<Rightarrow> nat \<Rightarrow> int \<Rightarrow> brcmf_fws_info \<Rightarrow> brcmf_fws_info option" where
  "macdesc_cleanup_from i 0 idx s = Some s"
| "macdesc_cleanup_from i (Suc n) idx s = do {
     s \<leftarrow> brcmf_fws_macdesc_cleanup i idx s;
     macdesc_cleanup_from (Suc i) n idx s
   }"

definition brcmf_fws_cleanup :: "int \<Rightarrow> brcmf_fws_info \<Rightarrow> brcmf_fws_info option" where
  "brcmf_fws_cleanup idx s = do {
     s \<leftarrow> macdesc_cleanup_from 0 BRCMF_FWS_MAC_DESC_TABLE_SIZE idx s;
     s \<leftarrow> brcmf_fws_macdesc_cleanup OTHER_IX idx s;
     s \<leftarrow> brcmf_fws_bus_txq_cleanup idx s;
     let fn = map_option (\<lambda>f p. case p of None \<Rightarrow> False | Some k \<Rightarrow> f k) (flush_match s idx);
     let (fr, h) = brcmf_fws_hanger_cleanup (hanger s) fn;
     Some (s\<lparr>hanger := h, freed := freed s @ fr\<rparr>)
   }"

subsection \<open>The signalling header of a packet\<close>

abbreviation (input) BRCMF_FWS_TYPE_PKTTAG :: u8 where "BRCMF_FWS_TYPE_PKTTAG \<equiv> 5"
abbreviation (input) BRCMF_FWS_TYPE_PENDING_TRAFFIC_BMP :: u8 where "BRCMF_FWS_TYPE_PENDING_TRAFFIC_BMP \<equiv> 12"
abbreviation (input) BRCMF_FWS_TYPE_FILLER :: u8 where "BRCMF_FWS_TYPE_FILLER \<equiv> 255"

definition round_up4 :: "nat \<Rightarrow> nat" where
  "round_up4 n = (n + 3) div 4 * 4"

text \<open>The bytes of the header, and its length before the fillers.\<close>

definition fws_hdr_len :: "bool \<Rightarrow> bool \<Rightarrow> nat" where
  "fws_hdr_len tim reuse = (if tim then 4 else 0) + (if reuse then 2 else 0) + 6"

definition fws_hdr_bytes :: "bool \<Rightarrow> bool \<Rightarrow> u32 \<Rightarrow> u16 \<Rightarrow> u8 \<Rightarrow> u8 \<Rightarrow> u8 list" where
  "fws_hdr_bytes tim reuse tag sq handle bmp =
     [BRCMF_FWS_TYPE_PKTTAG, if reuse then 6 else 4] @ le32_bytes tag
     @ (if reuse then le16_bytes sq else [])
     @ (if tim then [BRCMF_FWS_TYPE_PENDING_TRAFFIC_BMP, 2, handle, bmp] else [])
     @ replicate (round_up4 (fws_hdr_len tim reuse) - fws_hdr_len tim reuse) BRCMF_FWS_TYPE_FILLER"

definition brcmf_fws_hdrpush :: "pkt \<Rightarrow> brcmf_fws_info \<Rightarrow> (u8 \<times> brcmf_fws_info) option" where
  "brcmf_fws_hdrpush p s = do {
     i \<leftarrow> skb_mac (packets s p);
     let entry = the_desc s i;
     let tim = send_tim_signal entry;
     let reuse = mode_get_reuseseq (mode s);
     let hdr = fws_hdr_bytes tim reuse (htod (packets s p)) (htod_seq (packets s p))
                 (mac_handle entry) (traffic_pending_bmp entry);
     let s = upd_skb p (\<lambda>k. k\<lparr>skb_data := hdr @ skb_data k\<rparr>) s;
     let s = (if tim then upd_desc i (\<lambda>d. d\<lparr>send_tim_signal := False,
                traffic_lastreported_bmp := traffic_pending_bmp d\<rparr>) s else s);
     Some (of_nat (round_up4 (fws_hdr_len tim reuse) div 4), s)
   }"

definition brcmf_fws_tim_update ::
    "fws_env \<Rightarrow> nat \<Rightarrow> nat \<Rightarrow> bool \<Rightarrow> brcmf_fws_info \<Rightarrow> (bool \<times> brcmf_fws_info) option" where
  "brcmf_fws_tim_update env i fifo send_immediately s =
     (let q_bit = push_bit fifo (1 :: u8);
          entry = the_desc s i;
          bmp = (if brcmu_pktq_mlen (psq entry) (push_bit (fifo * 2) 3) = 0
                 then traffic_pending_bmp entry AND NOT q_bit
                 else traffic_pending_bmp entry OR q_bit);
          tim = (traffic_lastreported_bmp entry \<noteq> bmp);
          s = upd_desc i (\<lambda>d. d\<lparr>traffic_pending_bmp := bmp, send_tim_signal := tim\<rparr>) s
      in if send_immediately \<and> tim \<and> mac_state entry = BRCMF_FWS_STATE_CLOSE
         then (case env_alloc env s of
             None \<Rightarrow> Some (False, s)
           | Some p \<Rightarrow> do {
               let s = upd_skb p (\<lambda>_. zero_skb\<lparr>skb_mac := Some i, skb_state := BRCMF_FWS_SKBSTATE_TIM\<rparr>) s;
               (off, s) \<leftarrow> brcmf_fws_hdrpush p s;
               let idx = ucast (if_flags_index (packets s p));
               let (err, s) = env_txdata env idx off p s;
               Some (True, (case err of Inl _ \<Rightarrow> brcmu_pkt_buf_free_skb p s | Inr _ \<Rightarrow> s))
             })
         else Some (False, s))"

subsection \<open>Enqueueing\<close>

text \<open>Whether sequence number \<open>a\<close> is newer than \<open>b\<close>; the numbers wrap at 256.\<close>

definition fr_newer :: "u32 \<Rightarrow> u32 \<Rightarrow> bool" where
  "fr_newer fr_new fr_compare \<longleftrightarrow>
     (fr_new > fr_compare \<and> fr_new - fr_compare < 128) \<or>
     (fr_new < fr_compare \<and> fr_compare - fr_new > 128)"

text \<open>
  The search for the place of a suppressed packet, from the tail of the queue towards its
  head; the list is the queue from its tail on.
\<close>

fun suppr_insert_rev :: "('p \<Rightarrow> u32) \<Rightarrow> 'p \<Rightarrow> 'p list \<Rightarrow> 'p list" where
  "suppr_insert_rev fr p [] = [p]"
| "suppr_insert_rev fr p [x] = (if fr_newer (fr p) (fr x) then [p, x] else [x, p])"
| "suppr_insert_rev fr p (x # y # xs) =
     (if fr_newer (fr p) (fr x) then p # x # y # xs else x # suppr_insert_rev fr p (y # xs))"

definition suppr_insert :: "('p \<Rightarrow> u32) \<Rightarrow> 'p \<Rightarrow> 'p list \<Rightarrow> 'p list" where
  "suppr_insert fr p xs = rev (suppr_insert_rev fr p (rev xs))"

definition enq_suppressed :: "(pkt \<Rightarrow> u32) \<Rightarrow> pkt \<Rightarrow> nat \<Rightarrow> pkt pktq \<Rightarrow> pkt option \<times> pkt pktq" where
  "enq_suppressed fr p prec pq =
     (if pktq_full pq \<or> pktq_pfull pq prec then (None, pq)
      else
        let pq = set_skbs pq prec (suppr_insert fr p (skbs pq prec));
            pq = pq\<lparr>pq_len := pq_len pq + 1\<rparr>;
            pq = (if unat (hi_prec pq) < prec
                  then pq\<lparr>hi_prec := ucast (of_nat prec :: u8)\<rparr> else pq)
        in (Some p, pq))"

definition brcmf_fws_enq ::
    "fws_env \<Rightarrow> brcmf_fws_skb_state \<Rightarrow> nat \<Rightarrow> pkt \<Rightarrow> brcmf_fws_info
      \<Rightarrow> ((errno + unit) \<times> brcmf_fws_info) option" where
  "brcmf_fws_enq env st fifo p s =
     (case skb_mac (packets s p) of
        None \<Rightarrow> Some (Inl ENOENT, s)
      | Some i \<Rightarrow>
          let (res, q) =
                (if st = BRCMF_FWS_SKBSTATE_SUPPRESSED
                 then enq_suppressed (\<lambda>k. htod_freerun (packets s k)) p (2 * fifo + 1) (psq (the_desc s i))
                 else brcmu_pktq_penq (psq (the_desc s i)) (2 * fifo) p)
          in case res of
               None \<Rightarrow> Some (Inl ENFILE, upd_stats (\<lambda>t.
                   if st = BRCMF_FWS_SKBSTATE_SUPPRESSED
                   then t\<lparr>supprq_full_error := supprq_full_error t + 1\<rparr>
                   else t\<lparr>delayq_full_error := delayq_full_error t + 1\<rparr>) s)
             | Some _ \<Rightarrow> do {
                 let s = upd_desc i (\<lambda>d. d\<lparr>psq := q\<rparr>) s;
                 let s = s\<lparr>fifo_delay_map := fifo_delay_map s OR push_bit fifo 1,
                          fifo_enqpkt := (fifo_enqpkt s)[fifo := fifo_enqpkt s ! fifo + 1]\<rparr>;
                 let s = upd_skb p (\<lambda>k. k\<lparr>skb_state := st\<rparr>) s;
                 (_, s) \<leftarrow> brcmf_fws_tim_update env i fifo True s;
                 Some (Inr (), brcmf_fws_flow_control_check (psq (the_desc s i))
                                 (unat (if_flags_index (packets s p))) s)
               })"

subsection \<open>Dequeueing\<close>

definition brcmf_fws_macdesc_use_req_credit :: "nat \<Rightarrow> pkt \<Rightarrow> brcmf_fws_info \<Rightarrow> brcmf_fws_info" where
  "brcmf_fws_macdesc_use_req_credit i p s =
     (if requested_credit (the_desc s i) > 0
      then upd_skb p (set_if_req_credit 1 \<circ> set_if_requested 1)
             (upd_desc i (\<lambda>d. d\<lparr>requested_credit := requested_credit d - 1\<rparr>) s)
      else if requested_packet (the_desc s i) > 0
      then upd_skb p (set_if_req_credit 0 \<circ> set_if_requested 1)
             (upd_desc i (\<lambda>d. d\<lparr>requested_packet := requested_packet d - 1\<rparr>) s)
      else upd_skb p (set_if_req_credit 0 \<circ> set_if_requested 0) s)"

text \<open>
  What one descriptor gives for a fifo: while suppressed, only the suppress queue; when that
  is empty and no suppressed packet is in transit, the suppression ends and the delay queue
  is served.
\<close>

definition deq_entry :: "nat \<Rightarrow> brcmf_fws_mac_descriptor \<Rightarrow> pkt option \<times> brcmf_fws_mac_descriptor" where
  "deq_entry fifo d =
     (let pmsk = (if suppressed d then 2 else 3);
          (r, q) = brcmu_pktq_mdeq (psq d) (push_bit (fifo * 2) pmsk);
          d = d\<lparr>psq := q\<rparr>
      in case r of
           Some (p, _) \<Rightarrow> (Some p, d)
         | None \<Rightarrow>
             if suppressed d
             then if suppr_transit_count d \<noteq> 0 then (None, d)
                  else let d = d\<lparr>suppressed := False\<rparr>;
                           (r, q) = brcmu_pktq_mdeq (psq d) (push_bit (fifo * 2) 1)
                       in (map_option fst r, d\<lparr>psq := q\<rparr>)
             else (None, d))"

text \<open>What follows once descriptor \<open>i\<close> has given packet \<open>p\<close>; the next search starts at \<open>next_pos\<close>.\<close>

definition deq_taken ::
    "fws_env \<Rightarrow> nat \<Rightarrow> nat \<Rightarrow> nat \<Rightarrow> pkt \<Rightarrow> brcmf_fws_info \<Rightarrow> (pkt option \<times> brcmf_fws_info) option" where
  "deq_taken env fifo i next_pos p s = do {
     let s = brcmf_fws_macdesc_use_req_credit i p s;
     let s = s\<lparr>deq_node_pos := (deq_node_pos s)[fifo := next_pos]\<rparr>;
     let s = brcmf_fws_flow_control_check (psq (the_desc s i))
               (unat (if_flags_index (packets s p))) s;
     (_, s) \<leftarrow> brcmf_fws_tim_update env i fifo False s;
     let s = s\<lparr>fifo_enqpkt := (fifo_enqpkt s)[fifo := fifo_enqpkt s ! fifo - 1]\<rparr>;
     let s = (if fifo_enqpkt s ! fifo = 0
              then s\<lparr>fifo_delay_map := fifo_delay_map s AND NOT (push_bit fifo 1)\<rparr> else s);
     Some (Some p, s)
   }"

text \<open>The scan over the descriptors, \<open>n\<close> of them, from offset \<open>k\<close> behind the start position.\<close>

fun deq_scan ::
    "fws_env \<Rightarrow> nat \<Rightarrow> nat \<Rightarrow> nat \<Rightarrow> nat \<Rightarrow> brcmf_fws_info \<Rightarrow> (pkt option \<times> brcmf_fws_info) option" where
  "deq_scan env fifo node_pos k 0 s = Some (None, s)"
| "deq_scan env fifo node_pos k (Suc n) s =
     (let i = (node_pos + k) mod NUM_DESC in
      if \<not> occupied (the_desc s i) then deq_scan env fifo node_pos (Suc k) n s
      else do {
        closed \<leftarrow> brcmf_fws_macdesc_closed s i fifo;
        if closed then deq_scan env fifo node_pos (Suc k) n s
        else
          (case deq_entry fifo (the_desc s i) of (r, d) \<Rightarrow>
             let s = upd_desc i (\<lambda>_. d) s in
             case r of
               None \<Rightarrow> deq_scan env fifo node_pos (Suc k) n s
             | Some p \<Rightarrow> deq_taken env fifo i ((node_pos + k + 1) mod NUM_DESC) p s)
      })"

definition brcmf_fws_deq :: "fws_env \<Rightarrow> nat \<Rightarrow> brcmf_fws_info \<Rightarrow> (pkt option \<times> brcmf_fws_info) option" where
  "brcmf_fws_deq env fifo s = deq_scan env fifo (deq_node_pos s ! fifo) 0 NUM_DESC s"

subsection \<open>Properties: suppressed packets go back in sequence order\<close>

text \<open>
  The freerun numbers are eight bits wide. In a window of fewer than 128 numbers from some
  base, \<open>fr_newer\<close> compares the positions in the window.
\<close>

definition fr_in_window :: "('p \<Rightarrow> u32) \<Rightarrow> nat \<Rightarrow> ('p \<Rightarrow> nat) \<Rightarrow> 'p \<Rightarrow> bool" where
  "fr_in_window fr base off x \<longleftrightarrow> off x < 128 \<and> unat (fr x) = (base + off x) mod 256"

lemma fr_newer_window:
  assumes "fr_in_window fr base off p" "fr_in_window fr base off x"
  shows "fr_newer (fr p) (fr x) \<longleftrightarrow> off x < off p"
proof -
  define a b where "a = unat (fr p)" and "b = unat (fr x)"
  have less: "fr x < fr p \<longleftrightarrow> b < a" "fr p < fr x \<longleftrightarrow> a < b"
    by (simp_all add: a_def b_def word_less_nat_alt)
  have d1: "unat (fr p - fr x) = a - b" if "b < a"
    using that less by (simp add: a_def b_def unat_sub order_less_imp_le)
  have d2: "unat (fr x - fr p) = b - a" if "a < b"
    using that less by (simp add: a_def b_def unat_sub order_less_imp_le)
  have "fr_newer (fr p) (fr x) \<longleftrightarrow> (b < a \<and> a - b < 128) \<or> (a < b \<and> b - a > 128)"
    using less d1 d2 by (auto simp: fr_newer_def word_less_nat_alt [of _ 128] word_less_nat_alt [of 128])
  also have "\<dots> \<longleftrightarrow> off x < off p"
  proof -
    have w: "off p < 128" "off x < 128" "a = (base + off p) mod 256" "b = (base + off x) mod 256"
      using assms by (simp_all add: fr_in_window_def a_def b_def)
    define c where "c = base mod 256"
    have c: "c < 256" "a = (c + off p) mod 256" "b = (c + off x) mod 256"
      by (simp_all add: c_def w mod_simps)
    have m: "(c + k) mod 256 = (if c + k < 256 then c + k else c + k - 256)" if "k < 128" for k
      using that c(1) by (simp add: mod_if)
    show ?thesis using c m w(1,2) by (auto split: if_splits)
  qed
  finally show ?thesis .
qed

text \<open>The loop of the source, which treats the last packet apart, is a plain insertion.\<close>

fun ins_rev :: "('p \<Rightarrow> u32) \<Rightarrow> 'p \<Rightarrow> 'p list \<Rightarrow> 'p list" where
  "ins_rev fr p [] = [p]"
| "ins_rev fr p (x # xs) = (if fr_newer (fr p) (fr x) then p # x # xs else x # ins_rev fr p xs)"

lemma suppr_insert_rev_ins: "suppr_insert_rev fr p xs = ins_rev fr p xs"
  by (induction fr p xs rule: suppr_insert_rev.induct) auto

lemma ins_rev_split: "\<exists>ys zs. xs = ys @ zs \<and> ins_rev fr p xs = ys @ p # zs"
proof (induction xs)
  case Nil
  then show ?case by simp
next
  case (Cons x xs)
  then obtain ys zs where "xs = ys @ zs" "ins_rev fr p xs = ys @ p # zs" by blast
  then show ?case
    by (cases "fr_newer (fr p) (fr x)")
      (auto intro: exI [of _ "[]"] exI [of _ "x # ys"])
qed

lemma ins_rev_sorted:
  assumes "\<forall>x\<in>set (p # xs). fr_in_window fr base off x" "sorted_wrt (\<lambda>x y. off y \<le> off x) xs"
  shows "sorted_wrt (\<lambda>x y. off y \<le> off x) (ins_rev fr p xs)"
  using assms
proof (induction xs)
  case Nil
  then show ?case by simp
next
  case (Cons x xs)
  have cmp: "fr_newer (fr p) (fr x) \<longleftrightarrow> off x < off p"
    using Cons.prems(1) by (intro fr_newer_window [of fr base]) auto
  have "set (ins_rev fr p xs) = insert p (set xs)"
    using ins_rev_split [of xs fr p] by auto
  then show ?case using Cons cmp by auto
qed

text \<open>
  C35: A suppressed packet is put back among the suppressed packets of its fifo without
  disturbing their order, and if they were in sequence order, within a window of fewer than
  128 sequence numbers, they still are, with the packet at its place, also across the wrap
  of the eight-bit numbers.
\<close>
theorem suppr_insert_keeps_sequence:
  assumes "\<forall>x\<in>set (p # xs). fr_in_window fr base off x" "sorted_wrt (\<lambda>x y. off x \<le> off y) xs"
  shows "(\<exists>ys zs. xs = ys @ zs \<and> suppr_insert fr p xs = ys @ p # zs) \<and>
    sorted_wrt (\<lambda>x y. off x \<le> off y) (suppr_insert fr p xs)"
proof -
  from ins_rev_split [of "rev xs" fr p] obtain ys zs where
    "rev xs = ys @ zs" "ins_rev fr p (rev xs) = ys @ p # zs" by blast
  then have "xs = rev zs @ rev ys \<and> suppr_insert fr p xs = rev zs @ p # rev ys"
    by (metis rev_append rev_rev_ident suppr_insert_def suppr_insert_rev_ins append_Cons append_Nil
        append_assoc rev.simps(2))
  moreover have "sorted_wrt (\<lambda>x y. off x \<le> off y) (suppr_insert fr p xs)"
    using assms ins_rev_sorted [of p "rev xs" fr base off]
    by (simp add: suppr_insert_def suppr_insert_rev_ins sorted_wrt_rev)
  ultimately show ?thesis by blast
qed

definition sample_off :: "u32 \<Rightarrow> nat" where
  "sample_off x = (if x = 254 then 0 else if x = 255 then 1 else if x = 1 then 3
     else if x = 3 then 5 else 6)"

theorem suppr_insert_keeps_sequence_witness:
  "suppr_insert (\<lambda>x. x) 1 [254, 255, 3, 4] = [254, 255, 1, 3, 4 :: u32] \<and>
   sorted_wrt (\<lambda>x y. sample_off x \<le> sample_off y) (suppr_insert (\<lambda>x. x) 1 [254, 255, 3, 4])"
proof -
  have hyps: "\<forall>x\<in>set (1 # [254, 255, 3, 4]). fr_in_window (\<lambda>x. x) 254 sample_off x"
    "sorted_wrt (\<lambda>x y. sample_off x \<le> sample_off y) [254, 255, 3, 4]"
    by (simp_all add: fr_in_window_def sample_off_def)
  have "suppr_insert (\<lambda>x. x) 1 [254, 255, 3, 4] = [254, 255, 1, 3, 4 :: u32]"
    by (simp add: suppr_insert_def fr_newer_def)
  with suppr_insert_keeps_sequence [OF hyps] show ?thesis by simp
qed

subsection \<open>Properties: the header\<close>

lemma fws_hdr_bytes_length:
  "length (fws_hdr_bytes tim reuse tag sq handle bmp) = round_up4 (fws_hdr_len tim reuse)"
  by (cases tim; cases reuse) (simp_all add: fws_hdr_bytes_def fws_hdr_len_def round_up4_def)

text \<open>
  The header a packet gets in front of its data is a whole number of 32-bit words, and
  the function returns that number; it is eight or twelve bytes long, it carries the packet
  tag in little-endian order right after its type and length, and the data behind it is
  unchanged. A pending traffic indication is sent at most once: afterwards none is pending and
  the reported bitmap is the pending one.
\<close>
theorem hdrpush_layout:
  assumes "skb_mac (packets s p) = Some i" "i < length (desc s)"
  shows "\<exists>off hdr s'. brcmf_fws_hdrpush p s = Some (off, s') \<and>
    skb_data (packets s' p) = hdr @ skb_data (packets s p) \<and>
    length hdr = 4 * unat off \<and> length hdr \<in> {8, 12} \<and>
    hdr ! 0 = BRCMF_FWS_TYPE_PKTTAG \<and>
    le32_of (hdr ! 2) (hdr ! 3) (hdr ! 4) (hdr ! 5) = htod (packets s p) \<and>
    \<not> send_tim_signal (the_desc s' i) \<and>
    (send_tim_signal (the_desc s i) \<longrightarrow>
       traffic_lastreported_bmp (the_desc s' i) = traffic_pending_bmp (the_desc s i))"
proof -
  let ?e = "the_desc s i" and ?k = "packets s p"
  let ?tim = "send_tim_signal ?e" and ?reuse = "mode_get_reuseseq (mode s)"
  let ?hdr = "fws_hdr_bytes ?tim ?reuse (htod ?k) (htod_seq ?k) (mac_handle ?e) (traffic_pending_bmp ?e)"
  let ?n = "round_up4 (fws_hdr_len ?tim ?reuse)"
  obtain s' where s': "brcmf_fws_hdrpush p s = Some (of_nat (?n div 4), s')"
    "skb_data (packets s' p) = ?hdr @ skb_data ?k" "\<not> send_tim_signal (the_desc s' i)"
    "?tim \<longrightarrow> traffic_lastreported_bmp (the_desc s' i) = traffic_pending_bmp ?e"
    using assms by (auto simp: brcmf_fws_hdrpush_def Let_def upd_skb_def upd_desc_def)
  have "?n \<in> {8, 12}" "unat (of_nat (?n div 4) :: u8) = ?n div 4" "?n mod 4 = 0"
    by (cases ?tim; cases ?reuse; simp add: round_up4_def fws_hdr_len_def)+
  moreover have "?hdr ! 0 = BRCMF_FWS_TYPE_PKTTAG"
    "le32_of (?hdr ! 2) (?hdr ! 3) (?hdr ! 4) (?hdr ! 5) = htod ?k"
    by (simp_all add: fws_hdr_bytes_def le32_bytes_def nth_append)
  ultimately show ?thesis
    using s' fws_hdr_bytes_length
    by (intro exI [of _ "of_nat (?n div 4)"] exI [of _ ?hdr] exI [of _ s']) auto
qed

definition sample_fws :: brcmf_fws_info where
  "sample_fws = (let s = zero_fws (\<lambda>_. zero_skb\<lparr>htod := 0x12345678, skb_mac := Some 3, skb_data := [1, 2]\<rparr>)
      (\<lambda>_. None) None
    in upd_desc 3 (\<lambda>d. d\<lparr>occupied := True, mac_handle := 3, ac_bitmap := 0xff, send_tim_signal := True,
         mac_state := BRCMF_FWS_STATE_OPEN, traffic_pending_bmp := 2,
         psq := brcmu_pktq_init zero_pktq BRCMF_FWS_PSQ_PREC_COUNT 256\<rparr>) s)"

theorem hdrpush_layout_witness:
  "\<exists>off hdr s'. brcmf_fws_hdrpush 9 sample_fws = Some (off, s') \<and>
     skb_data (packets s' 9) = hdr @ [1, 2] \<and> length hdr \<in> {8, 12} \<and>
     le32_of (hdr ! 2) (hdr ! 3) (hdr ! 4) (hdr ! 5) = 0x12345678"
proof -
  have hyps: "skb_mac (packets sample_fws 9) = Some 3" "3 < length (desc sample_fws)"
    and vals: "skb_data (packets sample_fws 9) = [1, 2]" "htod (packets sample_fws 9) = 0x12345678"
    by (simp_all add: sample_fws_def zero_fws_def zero_skb_def upd_desc_def)
  from hdrpush_layout [OF hyps] vals show ?thesis by auto
qed

subsection \<open>Properties: dequeueing\<close>

lemma in_bmp_bit: "in_bmp x j \<longleftrightarrow> bit x j"
  by (simp add: push_bit_of_1 and_exp_eq_0_iff_not_bit)

lemma fifo_bmp:
  assumes "f < BRCMF_FWS_FIFO_COUNT"
  shows "in_bmp (push_bit (f * 2) 3) j \<longleftrightarrow> j = 2 * f \<or> j = 2 * f + 1"
    and "in_bmp (push_bit (f * 2) 2) j \<longleftrightarrow> j = 2 * f + 1"
    and "in_bmp (push_bit (f * 2) 1) j \<longleftrightarrow> j = 2 * f"
proof -
  have b3: "bit (3 :: u32) n \<longleftrightarrow> n < 2" for n
    using bit_mask_iff [of 2 n, where 'a = u32] by (auto simp: mask_eq_exp_minus_1)
  show "in_bmp (push_bit (f * 2) 3) j \<longleftrightarrow> j = 2 * f \<or> j = 2 * f + 1"
    using assms b3 [of "j - f * 2"] unfolding in_bmp_bit by (auto simp: bit_push_bit_iff)
  show "in_bmp (push_bit (f * 2) 2) j \<longleftrightarrow> j = 2 * f + 1"
    using assms unfolding in_bmp_bit by (auto simp: bit_push_bit_iff bit_2_iff)
  show "in_bmp (push_bit (f * 2) 1) j \<longleftrightarrow> j = 2 * f"
    using assms unfolding in_bmp_bit by (auto simp: push_bit_of_1 bit_exp_iff)
qed

lemma deq_entry_cases:
  assumes wf: "pktq_wf (psq d)" and f: "f < BRCMF_FWS_FIFO_COUNT" and e: "deq_entry f d = (r, d')"
  shows "case r of
      Some p \<Rightarrow> if skbs (psq d) (2 * f + 1) \<noteq> []
        then skbs (psq d) (2 * f + 1) = p # skbs (psq d') (2 * f + 1)
        else (suppressed d \<longrightarrow> suppr_transit_count d = 0) \<and>
             skbs (psq d) (2 * f) = p # skbs (psq d') (2 * f)
    | None \<Rightarrow> skbs (psq d) (2 * f + 1) = [] \<and>
        (skbs (psq d) (2 * f) = [] \<or> (suppressed d \<and> suppr_transit_count d \<noteq> 0))"
proof -
  let ?pq = "psq d"
  have rng: "2 * f < PKTQ_MAX_PREC" "2 * f + 1 < PKTQ_MAX_PREC" using f by auto
  obtain r1 q1 where m1: "brcmu_pktq_mdeq ?pq (push_bit (f * 2) (if suppressed d then 2 else 3)) = (r1, q1)"
    by fastforce
  have wf1: "pktq_wf q1" using mdeq_wf [OF wf] m1 by (metis snd_conv)
  show ?thesis
  proof (cases r1)
    case (Some pj)
    obtain p j where pj: "pj = (p, j)" by fastforce
    note m = mdeq_Some [OF wf m1 [unfolded Some pj]]
    have rd: "r = Some p" "psq d' = q1" using e m1 Some pj by (auto simp: deq_entry_def Let_def)
    have "j = 2 * f + 1 \<or> (j = 2 * f \<and> \<not> suppressed d)"
      using m(2) fifo_bmp [OF f, of j] by (auto split: if_splits)
    then show ?thesis
    proof
      assume "j = 2 * f + 1"
      with m(3) rd show ?thesis by simp
    next
      assume j: "j = 2 * f \<and> \<not> suppressed d"
      have "in_bmp (push_bit (f * 2) 3) (2 * f + 1)" unfolding fifo_bmp(1) [OF f] by simp
      then have "skbs ?pq (2 * f + 1) = []" using m(5) [OF rng(2)] j by simp
      with m(3) rd j show ?thesis by simp
    qed
  next
    case None
    note m = mdeq_None [OF wf m1 [unfolded None]]
    have odd: "skbs ?pq (2 * f + 1) = []"
      using m(1) [OF rng(2)] fifo_bmp [OF f, of "2 * f + 1"] by (auto split: if_splits)
    show ?thesis
    proof (cases "suppressed d \<and> suppr_transit_count d = 0")
      case False
      have "r = None" using e m1 None False by (auto simp: deq_entry_def Let_def split: if_splits)
      moreover have "skbs ?pq (2 * f) = []" if "\<not> suppressed d"
        using m(1) [OF rng(1)] fifo_bmp(1) [OF f, of "2 * f"] that by simp
      ultimately show ?thesis using odd False by auto
    next
      case True
      obtain r2 q2 where m2: "brcmu_pktq_mdeq q1 (push_bit (f * 2) 1) = (r2, q2)" by fastforce
      have rd: "r = map_option fst r2" "psq d' = q2"
        using e m1 m2 None True by (auto simp: deq_entry_def Let_def)
      have same: "skbs q1 (2 * f) = skbs ?pq (2 * f)" using m(2) [OF rng(1)] by simp
      show ?thesis
      proof (cases r2)
        case None
        have "skbs q1 (2 * f) = []"
          using mdeq_None(1) [OF wf1 m2 [unfolded None] rng(1)] fifo_bmp(3) [OF f] by simp
        with None rd same odd True show ?thesis by simp
      next
        case (Some pj)
        obtain p j where pj: "pj = (p, j)" by fastforce
        note m2' = mdeq_Some [OF wf1 m2 [unfolded Some pj]]
        have "j = 2 * f" using m2'(2) fifo_bmp(3) [OF f] by simp
        with m2'(3) Some pj rd same odd True show ?thesis by simp
      qed
    qed
  qed
qed

text \<open>
  A descriptor hands out suppressed packets of a fifo before delayed ones, each time the
  head of the queue. It hands out delayed packets only while it is not suppressed or no
  suppressed packet is still in transit, and nothing only if its suppress queue is empty and
  its delay queue is empty or held back.
\<close>
theorem deq_suppressed_first:
  assumes "pktq_wf (psq d)" "f < BRCMF_FWS_FIFO_COUNT"
  shows "case deq_entry f d of
      (Some p, d') \<Rightarrow> if skbs (psq d) (2 * f + 1) \<noteq> []
        then skbs (psq d) (2 * f + 1) = p # skbs (psq d') (2 * f + 1)
        else (suppressed d \<longrightarrow> suppr_transit_count d = 0) \<and>
             skbs (psq d) (2 * f) = p # skbs (psq d') (2 * f)
    | (None, d') \<Rightarrow> skbs (psq d) (2 * f + 1) = [] \<and>
        (skbs (psq d) (2 * f) = [] \<or> (suppressed d \<and> suppr_transit_count d \<noteq> 0))"
proof (cases "deq_entry f d")
  case (Pair r d')
  with deq_entry_cases [OF assms Pair] show ?thesis by (cases r) simp_all
qed

definition sample_psq :: "pkt pktq" where
  "sample_psq = snd (brcmu_pktq_penq (snd (brcmu_pktq_penq
     (brcmu_pktq_init zero_pktq BRCMF_FWS_PSQ_PREC_COUNT 256) 2 20)) 3 30)"

lemma sample_psq_wf: "pktq_wf sample_psq"
proof -
  have "pktq_wf (brcmu_pktq_init zero_pktq BRCMF_FWS_PSQ_PREC_COUNT 256)"
    by (rule pktq_init_wf) (simp_all add: zero_pktq_def)
  then show ?thesis unfolding sample_psq_def
    by (intro penq_wf) (simp_all add: brcmu_pktq_init_def num_prec_frame)
qed

theorem deq_suppressed_first_witness:
  "fst (deq_entry 1 (zero_desc\<lparr>psq := sample_psq\<rparr>)) = Some 30 \<and>
   (case deq_entry 1 (zero_desc\<lparr>psq := sample_psq\<rparr>) of
      (Some p, d') \<Rightarrow> skbs sample_psq 3 = p # skbs (psq d') 3 | (None, d') \<Rightarrow> False)"
proof -
  let ?d = "zero_desc\<lparr>psq := sample_psq\<rparr>"
  have v: "fst (deq_entry 1 ?d) = Some 30" "skbs sample_psq 3 \<noteq> []" by code_simp+
  from deq_suppressed_first [of ?d 1] sample_psq_wf v show ?thesis
    by (cases "deq_entry 1 ?d") (auto simp: numeral_eq_Suc)
qed

text \<open>
  The scan skips a descriptor that is not in use, closed, or has nothing to send; it takes the
  packet of the first one that is ready. Both speak about the state before the scan.
\<close>

definition deq_skips :: "brcmf_fws_info \<Rightarrow> nat \<Rightarrow> nat \<Rightarrow> bool" where
  "deq_skips s fifo i \<longleftrightarrow> \<not> occupied (the_desc s i) \<or> brcmf_fws_macdesc_closed s i fifo = Some True \<or>
     fst (deq_entry fifo (the_desc s i)) = None"

definition deq_ready :: "brcmf_fws_info \<Rightarrow> nat \<Rightarrow> nat \<Rightarrow> pkt \<Rightarrow> bool" where
  "deq_ready s fifo i p \<longleftrightarrow> occupied (the_desc s i) \<and> brcmf_fws_macdesc_closed s i fifo = Some False \<and>
     fst (deq_entry fifo (the_desc s i)) = Some p"

text \<open>What a partial scan over the positions \<open>D\<close> may have changed.\<close>

definition desc_gate :: "brcmf_fws_mac_descriptor \<Rightarrow> bool \<times> u8 \<times> u8 \<times> brcmf_fws_mac_desc_state \<times> u8 \<times> u8 \<times> u8" where
  "desc_gate d = (occupied d, mac_handle d, interface_id d, mac_state d, requested_credit d,
     requested_packet d, ac_bitmap d)"

definition scan_rel :: "nat set \<Rightarrow> brcmf_fws_info \<Rightarrow> brcmf_fws_info \<Rightarrow> bool" where
  "scan_rel D s t \<longleftrightarrow> length (desc t) = length (desc s) \<and>
     (\<forall>j. j \<notin> D \<longrightarrow> the_desc t j = the_desc s j) \<and>
     (\<forall>j. desc_gate (the_desc t j) = desc_gate (the_desc s j)) \<and> deq_node_pos t = deq_node_pos s"

lemma deq_entry_gate: "desc_gate (snd (deq_entry fifo d)) = desc_gate d"
  by (auto simp: deq_entry_def desc_gate_def Let_def split: prod.splits option.splits)

lemma scan_rel_upd:
  assumes "scan_rel D s t" "snd (deq_entry fifo (the_desc t i)) = d"
  shows "scan_rel (insert i D) s (upd_desc i (\<lambda>_. d) t)"
proof -
  have "desc_gate d = desc_gate (the_desc t i)" using deq_entry_gate assms(2) by blast
  with assms(1) show ?thesis
    by (cases "i < length (desc t)")
      (auto simp: scan_rel_def upd_desc_def nth_list_update list_update_beyond)
qed

lemma closed_gate:
  assumes "scan_rel D s t"
  shows "brcmf_fws_macdesc_closed t i fifo = brcmf_fws_macdesc_closed s i fifo"
    and "occupied (the_desc t i) = occupied (the_desc s i)"
proof -
  have g: "\<And>j. desc_gate (the_desc t j) = desc_gate (the_desc s j)"
    using assms by (simp add: scan_rel_def)
  then have "mac_state (the_desc t j) = mac_state (the_desc s j)" for j by (simp add: desc_gate_def)
  with g [of i] show "brcmf_fws_macdesc_closed t i fifo = brcmf_fws_macdesc_closed s i fifo"
    by (simp add: brcmf_fws_macdesc_closed_def desc_gate_def Let_def)
  from g [of i] show "occupied (the_desc t i) = occupied (the_desc s i)" by (simp add: desc_gate_def)
qed

lemma tim_update_later:
  "brcmf_fws_tim_update env i fifo False s = Some (r, s') \<Longrightarrow> deq_node_pos s' = deq_node_pos s"
  by (auto simp: brcmf_fws_tim_update_def Let_def upd_desc_def)

lemma flow_control_node_pos [simp]:
  "deq_node_pos (brcmf_fws_flow_control_check q k s) = deq_node_pos s"
  by (simp add: brcmf_fws_flow_control_check_def upd_stats_def Let_def split: option.split)

lemma use_req_credit_node_pos [simp]:
  "deq_node_pos (brcmf_fws_macdesc_use_req_credit i p s) = deq_node_pos s"
  by (simp add: brcmf_fws_macdesc_use_req_credit_def upd_desc_def upd_skb_def)

lemma deq_taken_result:
  assumes "deq_taken env fifo i next_pos p s = Some (r, s')" "fifo < length (deq_node_pos s)"
  shows "r = Some p \<and> deq_node_pos s' ! fifo = next_pos"
proof -
  let ?s = "brcmf_fws_macdesc_use_req_credit i p s"
  let ?t = "?s\<lparr>deq_node_pos := (deq_node_pos ?s)[fifo := next_pos]\<rparr>"
  let ?u = "brcmf_fws_flow_control_check (psq (the_desc ?t i)) (unat (if_flags_index (packets ?t p))) ?t"
  obtain b v where v: "brcmf_fws_tim_update env i fifo False ?u = Some (b, v)"
    using assms(1) unfolding deq_taken_def Let_def by (auto simp: bind_eq_Some_conv)
  have "deq_node_pos v ! fifo = next_pos"
    using tim_update_later [OF v] assms(2) by simp
  moreover have "r = Some p \<and> deq_node_pos s' = deq_node_pos v"
    using assms(1) v unfolding deq_taken_def Let_def by (auto split: if_splits)
  ultimately show ?thesis by simp
qed

lemma deq_scan_take:
  assumes "deq_scan env fifo pos k (Suc n) t = Some (r, t')" "i = (pos + k) mod NUM_DESC"
    "occupied (the_desc t i)" "brcmf_fws_macdesc_closed t i fifo = Some False"
    "fst (deq_entry fifo (the_desc t i)) = Some p" "fifo < length (deq_node_pos t)"
  shows "r = Some p \<and> deq_node_pos t' ! fifo = (pos + k + 1) mod NUM_DESC"
proof -
  obtain d where d: "deq_entry fifo (the_desc t i) = (Some p, d)"
    using assms(5) by (cases "deq_entry fifo (the_desc t i)") auto
  then have "deq_taken env fifo i ((pos + k + 1) mod NUM_DESC) p (upd_desc i (\<lambda>_. d) t) = Some (r, t')"
    using assms(1-4) by (simp add: Let_def)
  from deq_taken_result [OF this] assms(6) show ?thesis by (simp add: upd_desc_def)
qed

lemma deq_scan_spec:
  assumes "scan_rel ((\<lambda>j. (pos + j) mod NUM_DESC) ` {..<k}) s t" "k + n \<le> NUM_DESC"
    "fifo < length (deq_node_pos s)" "deq_scan env fifo pos k n t = Some (r, t')"
  shows "case r of
      None \<Rightarrow> \<forall>j\<in>{k..<k + n}. deq_skips s fifo ((pos + j) mod NUM_DESC)
    | Some p \<Rightarrow> \<exists>j\<in>{k..<k + n}. deq_ready s fifo ((pos + j) mod NUM_DESC) p \<and>
        (\<forall>j'\<in>{k..<j}. deq_skips s fifo ((pos + j') mod NUM_DESC)) \<and>
        deq_node_pos t' ! fifo = (pos + j + 1) mod NUM_DESC"
  using assms
proof (induction n arbitrary: k t)
  case 0
  then show ?case by auto
next
  case (Suc n)
  let ?ix = "\<lambda>j. (pos + j) mod NUM_DESC"
  let ?i = "?ix k"
  have fresh: "?i \<notin> ?ix ` {..<k}"
  proof
    assume "?i \<in> ?ix ` {..<k}"
    then obtain j where j: "j < k" "?ix k = ?ix j" by auto
    then have "(pos + k - (pos + j)) mod NUM_DESC = 0"
      using mod_eq_dvd_iff_nat [of "pos + j" "pos + k" NUM_DESC] by auto
    with j Suc.prems(2) show False by simp
  qed
  have same: "the_desc t ?i = the_desc s ?i" using Suc.prems(1) fresh by (simp add: scan_rel_def)
  note gate = closed_gate(1) [OF Suc.prems(1), of ?i fifo] closed_gate(2) [OF Suc.prems(1), of ?i]
  have ins: "insert ?i (?ix ` {..<k}) = ?ix ` {..<Suc k}" by (auto simp: lessThan_Suc)
  have go_on: "?case" if "deq_scan env fifo pos (Suc k) n u = Some (r, t')"
    "scan_rel (?ix ` {..<Suc k}) s u" "deq_skips s fifo ?i" for u
  proof -
    from Suc.IH [OF that(2) _ Suc.prems(3) that(1)] Suc.prems(2)
    have "case r of None \<Rightarrow> \<forall>j\<in>{Suc k..<Suc k + n}. deq_skips s fifo (?ix j)
      | Some p \<Rightarrow> \<exists>j\<in>{Suc k..<Suc k + n}. deq_ready s fifo (?ix j) p \<and>
          (\<forall>j'\<in>{Suc k..<j}. deq_skips s fifo (?ix j')) \<and> deq_node_pos t' ! fifo = (pos + j + 1) mod NUM_DESC"
      by simp
    note tail = this
    have split: "j = k \<or> j \<in> {Suc k..<m}" if "j \<in> {k..<m}" for j m using that by auto
    show ?thesis
    proof (cases r)
      case None
      with tail split [of _ "k + Suc n"] that(3) show ?thesis by fastforce
    next
      case (Some p)
      with tail obtain j where j: "j \<in> {Suc k..<Suc k + n}" "deq_ready s fifo (?ix j) p"
        "\<forall>j'\<in>{Suc k..<j}. deq_skips s fifo (?ix j')" "deq_node_pos t' ! fifo = (pos + j + 1) mod NUM_DESC"
        by auto
      have "\<forall>j'\<in>{k..<j}. deq_skips s fifo (?ix j')" using split [of _ j] j(3) that(3) by blast
      with j Some show ?thesis by (auto intro!: bexI [of _ j])
    qed
  qed
  have wider: "scan_rel (?ix ` {..<Suc k}) s t"
    using Suc.prems(1) ins by (auto simp: scan_rel_def)
  consider "\<not> occupied (the_desc t ?i)" | "occupied (the_desc t ?i)"
      "brcmf_fws_macdesc_closed t ?i fifo = Some True"
    | "occupied (the_desc t ?i)" "brcmf_fws_macdesc_closed t ?i fifo = Some False"
    using Suc.prems(4) by (auto simp: Let_def bind_eq_Some_conv split: if_splits)
  then show ?case
  proof cases
    case 1
    with Suc.prems(4) gate wider show ?thesis
      by (intro go_on [of t]) (simp_all add: deq_skips_def)
  next
    case 2
    have "deq_scan env fifo pos (Suc k) n t = Some (r, t')"
      using Suc.prems(4) 2 by (simp add: Let_def)
    moreover have "deq_skips s fifo ?i" using 2 gate by (simp add: deq_skips_def)
    ultimately show ?thesis using wider by (intro go_on)
  next
    case 3
    obtain e d where ed: "deq_entry fifo (the_desc t ?i) = (e, d)" by fastforce
    show ?thesis
    proof (cases e)
      case None
      have "scan_rel (?ix ` {..<Suc k}) s (upd_desc ?i (\<lambda>_. d) t)"
        using scan_rel_upd [OF Suc.prems(1), of fifo ?i d] ed ins by simp
      moreover have "deq_scan env fifo pos (Suc k) n (upd_desc ?i (\<lambda>_. d) t) = Some (r, t')"
        using Suc.prems(4) 3 ed None by (simp add: Let_def)
      moreover have "deq_skips s fifo ?i" using ed None same by (simp add: deq_skips_def)
      ultimately show ?thesis by (intro go_on)
    next
      case (Some p)
      have "fifo < length (deq_node_pos t)" using Suc.prems(1,3) by (simp add: scan_rel_def)
      then have "r = Some p \<and> deq_node_pos t' ! fifo = (pos + k + 1) mod NUM_DESC"
        using deq_scan_take [OF Suc.prems(4) refl] 3 ed Some by simp
      moreover have "deq_ready s fifo ?i p" using 3 ed Some gate same by (simp add: deq_ready_def)
      ultimately show ?thesis by (auto intro!: bexI [of _ k])
    qed
  qed
qed

text \<open>
  Dequeueing for a fifo starts at the descriptor after the one served last and takes a
  packet from the first descriptor, going round, that is in use, open for the fifo and has a
  packet; the next search starts behind it. It finds nothing only if no descriptor of the table
  qualifies.
\<close>
theorem deq_round_robin:
  assumes "fifo < length (deq_node_pos s)" "brcmf_fws_deq env fifo s = Some (r, s')"
    "pos = deq_node_pos s ! fifo"
  shows "case r of
      None \<Rightarrow> \<forall>i<NUM_DESC. deq_skips s fifo i
    | Some p \<Rightarrow> \<exists>k<NUM_DESC. deq_ready s fifo ((pos + k) mod NUM_DESC) p \<and>
        (\<forall>j<k. deq_skips s fifo ((pos + j) mod NUM_DESC)) \<and>
        deq_node_pos s' ! fifo = (pos + k + 1) mod NUM_DESC"
proof -
  have rel: "scan_rel ((\<lambda>j. (pos + j) mod NUM_DESC) ` {..<0}) s s" by (simp add: scan_rel_def)
  have "deq_scan env fifo pos 0 NUM_DESC s = Some (r, s')"
    using assms(2,3) by (simp add: brcmf_fws_deq_def)
  from deq_scan_spec [OF rel _ assms(1) this]
  have spec: "case r of
      None \<Rightarrow> \<forall>j\<in>{0..<NUM_DESC}. deq_skips s fifo ((pos + j) mod NUM_DESC)
    | Some p \<Rightarrow> \<exists>j\<in>{0..<NUM_DESC}. deq_ready s fifo ((pos + j) mod NUM_DESC) p \<and>
        (\<forall>j'\<in>{0..<j}. deq_skips s fifo ((pos + j') mod NUM_DESC)) \<and>
        deq_node_pos s' ! fifo = (pos + j + 1) mod NUM_DESC"
    by (cases r) simp_all
  show ?thesis
  proof (cases r)
    case None
    have "deq_skips s fifo i" if "i < NUM_DESC" for i
    proof -
      define j where "j = (i + NUM_DESC - pos mod NUM_DESC) mod NUM_DESC"
      have "(pos + j) mod NUM_DESC = (pos mod NUM_DESC + (i + NUM_DESC - pos mod NUM_DESC)) mod NUM_DESC"
        unfolding j_def by (simp only: mod_add_left_eq mod_add_right_eq)
      also have "pos mod NUM_DESC + (i + NUM_DESC - pos mod NUM_DESC) = i + NUM_DESC"
        using mod_less_divisor [of NUM_DESC pos] by (simp add: less_imp_le_nat)
      finally have "(pos + j) mod NUM_DESC = i" using that by simp
      moreover have "j \<in> {0..<NUM_DESC}" by (simp add: j_def)
      ultimately show ?thesis using spec None by force
    qed
    with None show ?thesis by simp
  next
    case (Some p)
    with spec show ?thesis by auto
  qed
qed

text \<open>An environment whose allocations fail and whose transmissions succeed.\<close>

definition quiet_env :: fws_env where
  "quiet_env = \<lparr>env_alloc = (\<lambda>_. None), env_txdata = (\<lambda>_ _ _ s. (Inr (), s)),
     env_hdrpull = (\<lambda>p s. (Inr (Some 0), s))\<rparr>"

definition sample_fws2 :: brcmf_fws_info where
  "sample_fws2 = upd_desc 3 (\<lambda>d. d\<lparr>psq := sample_psq\<rparr>) 
     (sample_fws\<lparr>fifo_enqpkt := [0, 2, 0, 0, 0, 0], deq_node_pos := replicate 6 3\<rparr>)"

lemma deq_taken_Some: "\<exists>s'. deq_taken env fifo i np p s = Some (Some p, s')"
  by (simp add: deq_taken_def Let_def brcmf_fws_tim_update_def)

lemma deq_scan_hit:
  assumes "occupied (the_desc s ((pos + k) mod NUM_DESC))"
    "brcmf_fws_macdesc_closed s ((pos + k) mod NUM_DESC) fifo = Some False"
    "fst (deq_entry fifo (the_desc s ((pos + k) mod NUM_DESC))) = Some p" "0 < n"
  shows "\<exists>s'. deq_scan env fifo pos k n s = Some (Some p, s')"
proof -
  obtain e where "deq_entry fifo (the_desc s ((pos + k) mod NUM_DESC)) = (Some p, e)"
    using assms(3) by (cases "deq_entry fifo (the_desc s ((pos + k) mod NUM_DESC))") auto
  with assms(1,2,4) deq_taken_Some show ?thesis by (cases n) (simp_all add: Let_def)
qed

theorem deq_round_robin_witness:
  "\<exists>s'. brcmf_fws_deq quiet_env 1 sample_fws2 = Some (Some 30, s') \<and>
     (\<exists>k<NUM_DESC. deq_ready sample_fws2 1 ((3 + k) mod NUM_DESC) 30 \<and>
       deq_node_pos s' ! 1 = (3 + k + 1) mod NUM_DESC)"
proof -
  have d: "the_desc sample_fws2 3 = (the_desc sample_fws 3)\<lparr>psq := sample_psq\<rparr>"
    by (simp add: sample_fws2_def sample_fws_def zero_fws_def upd_desc_def)
  have "fst (deq_entry 1 (the_desc sample_fws2 3)) = Some 30"
    "occupied (the_desc sample_fws2 3)" "brcmf_fws_macdesc_closed sample_fws2 3 1 = Some False"
    "deq_node_pos sample_fws2 ! 1 = 3" "1 < length (deq_node_pos sample_fws2)" by code_simp+
  then have "\<exists>s'. brcmf_fws_deq quiet_env 1 sample_fws2 = Some (Some 30, s')"
    unfolding brcmf_fws_deq_def by (intro deq_scan_hit) simp_all
  then obtain s' where s': "brcmf_fws_deq quiet_env 1 sample_fws2 = Some (Some 30, s')" by blast
  from deq_round_robin [OF \<open>1 < length _\<close> s' refl] s' \<open>_ ! 1 = 3\<close> show ?thesis by auto
qed

end
