(* ===== verification/Fws_Tx.thy ===== *)
theory Fws_Tx
  imports Fws_Queue
begin

section \<open>The transmit path of the firmware signalling (brcmfmac/fwsignal.c)\<close>

text \<open>
  A packet from the network stack gets a hanger slot and a tag and waits in the queue of its
  destination (\<open>brcmf_fws_process_skb\<close>). The worker (\<open>brcmf_fws_dequeue_worker\<close>) sends packets
  while there are credits, highest fifo first, and borrows credits for the fifos above
  background. The firmware's status (\<open>brcmf_fws_txs_process\<close>) finds the packet in the hanger,
  gives its credit back and finishes it, or puts it back into its queue when it was suppressed.
  What cannot be sent is rolled back to the head of its queue.

  The loops of the worker run until the queues or the credits are used up; the transmit
  function they call runs unlocked and may change the state, so they are partial functions.
\<close>

subsection \<open>Priorities\<close>

definition brcmf_init_wmm_prio :: "u8 list" where
  "brcmf_init_wmm_prio = [1, 0, 0, 1, 2, 2, 3, 3]"

text \<open>\<open>None\<close> as first argument is the null configuration; the result is undefined past the table.\<close>

definition brcmf_map_prio_to_aci :: "u8 list option \<Rightarrow> u8 \<Rightarrow> u8 option" where
  "brcmf_map_prio_to_aci config prio =
     (case config of
        Some ac_priority \<Rightarrow> if unat prio < length ac_priority then Some (ac_priority ! unat prio) else None
      | None \<Rightarrow> Some prio)"

subsection \<open>Transmit status\<close>

abbreviation (input) BRCMF_FWS_TXSTATUS_DISCARD :: u8 where "BRCMF_FWS_TXSTATUS_DISCARD \<equiv> 0"
abbreviation (input) BRCMF_FWS_TXSTATUS_CORE_SUPPRESS :: u8 where "BRCMF_FWS_TXSTATUS_CORE_SUPPRESS \<equiv> 1"
abbreviation (input) BRCMF_FWS_TXSTATUS_FW_PS_SUPPRESS :: u8 where "BRCMF_FWS_TXSTATUS_FW_PS_SUPPRESS \<equiv> 2"
abbreviation (input) BRCMF_FWS_TXSTATUS_FW_TOSSED :: u8 where "BRCMF_FWS_TXSTATUS_FW_TOSSED \<equiv> 3"
abbreviation (input) BRCMF_FWS_TXSTATUS_FW_DISCARD_NOACK :: u8 where "BRCMF_FWS_TXSTATUS_FW_DISCARD_NOACK \<equiv> 4"
abbreviation (input) BRCMF_FWS_TXSTATUS_FW_SUPPRESS_ACKED :: u8 where "BRCMF_FWS_TXSTATUS_FW_SUPPRESS_ACKED \<equiv> 5"
abbreviation (input) BRCMF_FWS_TXSTATUS_HOST_TOSSED :: u8 where "BRCMF_FWS_TXSTATUS_HOST_TOSSED \<equiv> 6"

definition brcmf_fws_macdesc_return_req_credit :: "pkt \<Rightarrow> brcmf_fws_info \<Rightarrow> brcmf_fws_info option" where
  "brcmf_fws_macdesc_return_req_credit p s = do {
     i \<leftarrow> skb_mac (packets s p);
     Some (if if_flags_req_credit (packets s p) \<noteq> 0 \<and> mac_state (the_desc s i) = BRCMF_FWS_STATE_CLOSE
           then upd_desc i (\<lambda>d. d\<lparr>requested_credit := requested_credit d + 1\<rparr>) s else s)
   }"

text \<open>The end of a packet's life in the driver; its statistics belong to the network device.\<close>

definition brcmf_txfinalize :: "pkt \<Rightarrow> brcmf_fws_info \<Rightarrow> brcmf_fws_info" where
  "brcmf_txfinalize p s = brcmu_pkt_buf_free_skb p s"

definition mark_suppressed_skb :: "u32 \<Rightarrow> u16 \<Rightarrow> sk_buff \<Rightarrow> sk_buff" where
  "mark_suppressed_skb genbit sq k =
     (let k = set_htod_generation genbit k;
          k = k\<lparr>htod_seq := sq\<rparr>
      in if seq_fromfw k \<noteq> 0 then set_seq_fromfw 0 (set_seq_fromdrv 1 k) else set_seq_fromdrv 0 k)"

definition brcmf_fws_txstatus_suppressed ::
    "fws_env \<Rightarrow> nat \<Rightarrow> pkt \<Rightarrow> u32 \<Rightarrow> u16 \<Rightarrow> brcmf_fws_info \<Rightarrow> ((errno + unit) \<times> brcmf_fws_info) option" where
  "brcmf_fws_txstatus_suppressed env fifo p genbit sq s = do {
     i \<leftarrow> skb_mac (packets s p);
     let hslot = htod_hslot (packets s p);
     let s = upd_desc i (\<lambda>d.
         let d = (if \<not> suppressed d
                  then d\<lparr>suppressed := True, suppr_transit_count := transit_count d\<rparr> else d)
         in d\<lparr>generation := ucast genbit\<rparr>) s;
     let s = upd_skb p (mark_suppressed_skb genbit sq) s;
     (ret, s) \<leftarrow> brcmf_fws_enq env BRCMF_FWS_SKBSTATE_SUPPRESSED fifo p s;
     Some (ret, (case ret of
         Inl _ \<Rightarrow> s\<lparr>hanger := snd (brcmf_fws_hanger_poppkt (hanger s) hslot True)\<rparr>
       | Inr _ \<Rightarrow> s\<lparr>hanger := snd (brcmf_fws_hanger_mark_suppressed (hanger s) hslot)\<rparr>))
   }"

definition txs_stats :: "u8 \<Rightarrow> u8 \<Rightarrow> brcmf_fws_stats \<Rightarrow> brcmf_fws_stats" where
  "txs_stats flags compcnt t =
     (if flags = BRCMF_FWS_TXSTATUS_DISCARD then t\<lparr>txs_discard := txs_discard t + ucast compcnt\<rparr>
      else if flags = BRCMF_FWS_TXSTATUS_CORE_SUPPRESS then t\<lparr>txs_supp_core := txs_supp_core t + ucast compcnt\<rparr>
      else if flags = BRCMF_FWS_TXSTATUS_FW_PS_SUPPRESS then t\<lparr>txs_supp_ps := txs_supp_ps t + ucast compcnt\<rparr>
      else if flags = BRCMF_FWS_TXSTATUS_FW_TOSSED then t\<lparr>txs_tossed := txs_tossed t + ucast compcnt\<rparr>
      else if flags = BRCMF_FWS_TXSTATUS_FW_DISCARD_NOACK then t\<lparr>txs_discard := txs_discard t + ucast compcnt\<rparr>
      else if flags = BRCMF_FWS_TXSTATUS_FW_SUPPRESS_ACKED then t\<lparr>txs_discard := txs_discard t + ucast compcnt\<rparr>
      else if flags = BRCMF_FWS_TXSTATUS_HOST_TOSSED then t\<lparr>txs_host_tossed := txs_host_tossed t + ucast compcnt\<rparr>
      else t)"

definition txs_removes :: "u8 \<Rightarrow> bool" where
  "txs_removes flags \<longleftrightarrow>
     flags \<noteq> BRCMF_FWS_TXSTATUS_CORE_SUPPRESS \<and> flags \<noteq> BRCMF_FWS_TXSTATUS_FW_PS_SUPPRESS"

text \<open>One packet of a status report, up to the label \<open>cont\<close>.\<close>

definition txs_one :: "fws_env \<Rightarrow> u8 \<Rightarrow> u32 \<Rightarrow> u32 \<Rightarrow> u16 \<Rightarrow> brcmf_fws_info \<Rightarrow> brcmf_fws_info option" where
  "txs_one env flags hslot genbit sq s =
     (let remove = txs_removes flags in
      case brcmf_fws_hanger_poppkt (hanger s) hslot remove of
        (Inl _, h) \<Rightarrow> Some (s\<lparr>hanger := h\<rparr>)
      | (Inr None, h) \<Rightarrow> None
      | (Inr (Some p), h) \<Rightarrow>
          let s = s\<lparr>hanger := h\<rparr> in
          (case skb_mac (packets s p) of
             None \<Rightarrow> Some (brcmu_pkt_buf_free_skb p s)
           | Some i \<Rightarrow> do {
               let s = upd_desc i (\<lambda>d.
                   let d = d\<lparr>transit_count := transit_count d - 1\<rparr>
                   in if suppressed d \<and> suppr_transit_count d \<noteq> 0
                      then d\<lparr>suppr_transit_count := suppr_transit_count d - 1\<rparr> else d) s;
               let fifo = unat (htod_fifo (packets s p));
               s \<leftarrow> (if fcmode s = BRCMF_FWS_FCMODE_IMPLIED_CREDIT \<or>
                      if_flags_req_credit (packets s p) \<noteq> 0 \<or> flags = BRCMF_FWS_TXSTATUS_HOST_TOSSED
                    then map_option brcmf_fws_schedule_deq (brcmf_fws_return_credits fifo 1 s)
                    else Some s);
               s \<leftarrow> brcmf_fws_macdesc_return_req_credit p s;
               let (ret, s) = env_hdrpull env p s;
               (case ret of
                  Inl _ \<Rightarrow> Some (brcmu_pkt_buf_free_skb p s)
                | Inr ifp \<Rightarrow>
                    if remove then Some (brcmf_txfinalize p s)
                    else do {
                      (ret, s) \<leftarrow> brcmf_fws_txstatus_suppressed env fifo p genbit sq s;
                      Some (case ret of Inl _ \<Rightarrow> brcmf_txfinalize p s | Inr _ \<Rightarrow> s)
                    })
             }))"

fun txs_loop :: "nat \<Rightarrow> fws_env \<Rightarrow> u8 \<Rightarrow> u32 \<Rightarrow> u32 \<Rightarrow> u16 \<Rightarrow> brcmf_fws_info \<Rightarrow> brcmf_fws_info option" where
  "txs_loop 0 env flags hslot genbit sq s = Some s"
| "txs_loop (Suc n) env flags hslot genbit sq s = do {
     s \<leftarrow> txs_one env flags hslot genbit sq s;
     txs_loop n env flags ((hslot + 1) AND 0xffff) genbit
       (if mode_get_reuseseq (mode s) then (sq + 1) AND 0x0fff else sq) s
   }"

definition brcmf_fws_txs_process ::
    "fws_env \<Rightarrow> u8 \<Rightarrow> u32 \<Rightarrow> u32 \<Rightarrow> u16 \<Rightarrow> u8 \<Rightarrow> brcmf_fws_info \<Rightarrow> brcmf_fws_info option" where
  "brcmf_fws_txs_process env flags hslot genbit sq compcnt s =
     txs_loop (unat compcnt) env flags hslot genbit sq (upd_stats (txs_stats flags compcnt) s)"

definition brcmf_fws_bustxcomplete :: "fws_env \<Rightarrow> pkt \<Rightarrow> bool \<Rightarrow> brcmf_fws_info \<Rightarrow> brcmf_fws_info option" where
  "brcmf_fws_bustxcomplete env p success s =
     (if skb_state (packets s p) = BRCMF_FWS_SKBSTATE_TIM then Some (brcmu_pkt_buf_free_skb p s)
      else if \<not> success
      then brcmf_fws_txs_process env BRCMF_FWS_TXSTATUS_HOST_TOSSED (htod_hslot (packets s p)) 0 0 1 s
      else Some s)"

subsection \<open>Sending\<close>

definition brcmf_fws_precommit_skb :: "pkt \<Rightarrow> brcmf_fws_info \<Rightarrow> (u8 \<times> brcmf_fws_info) option" where
  "brcmf_fws_precommit_skb p s = do {
     i \<leftarrow> skb_mac (packets s p);
     let s = (if skb_state (packets s p) \<noteq> BRCMF_FWS_SKBSTATE_SUPPRESSED
              then upd_skb p (set_htod_generation (ucast (generation (the_desc s i)))) s else s);
     let flags = (if if_flags_requested (packets s p) \<noteq> 0 then 3 else 1);
     let s = upd_skb p (set_htod_flags flags) s;
     brcmf_fws_hdrpush p s
   }"

definition brcmf_fws_rollback_toq :: "fws_env \<Rightarrow> pkt \<Rightarrow> nat \<Rightarrow> brcmf_fws_info \<Rightarrow> brcmf_fws_info option" where
  "brcmf_fws_rollback_toq env p fifo s = do {
     i \<leftarrow> skb_mac (packets s p);
     let qidx = (if skb_state (packets s p) = BRCMF_FWS_SKBSTATE_SUPPRESSED then 2 * fifo + 1 else 2 * fifo);
     let (pktout, q) = brcmu_pktq_penq_head (psq (the_desc s i)) qidx p;
     if occupied (the_desc s i) \<and> pktout \<noteq> None
     then do {
       let s = upd_desc i (\<lambda>d. d\<lparr>psq := q\<rparr>) s;
       let s = upd_stats (\<lambda>t. t\<lparr>rollback_success := rollback_success t + 1\<rparr>) s;
       s \<leftarrow> brcmf_fws_return_credits fifo 1 s;
       brcmf_fws_macdesc_return_req_credit p s
     }
     else
       brcmf_fws_txs_process env BRCMF_FWS_TXSTATUS_HOST_TOSSED (htod_hslot (packets s p)) 0 0 1
         (upd_stats (\<lambda>t. t\<lparr>rollback_failed := rollback_failed t + 1\<rparr>) s)
   }"

definition brcmf_fws_commit_skb ::
    "fws_env \<Rightarrow> nat \<Rightarrow> pkt \<Rightarrow> brcmf_fws_info \<Rightarrow> ((errno + unit) \<times> brcmf_fws_info) option" where
  "brcmf_fws_commit_skb env fifo p s = do {
     i \<leftarrow> skb_mac (packets s p);
     (off, s) \<leftarrow> brcmf_fws_precommit_skb p s;
     let s = upd_desc i (\<lambda>d. d\<lparr>transit_count := transit_count d + 1,
         suppr_transit_count := (if suppressed d then suppr_transit_count d + 1 else suppr_transit_count d)\<rparr>) s;
     let idx = ucast (if_flags_index (packets s p));
     let (rc, s) = env_txdata env idx off p s;
     (case rc of
        Inl e \<Rightarrow> do {
          let s = upd_desc i (\<lambda>d. d\<lparr>transit_count := transit_count d - 1,
              suppr_transit_count := (if suppressed d then suppr_transit_count d - 1 else suppr_transit_count d)\<rparr>) s;
          let (_, s) = env_hdrpull env p s;
          s \<leftarrow> brcmf_fws_rollback_toq env p fifo s;
          Some (rc, s)
        }
      | Inr _ \<Rightarrow>
          let s = upd_stats (\<lambda>t. t\<lparr>pkt2bus := pkt2bus t + 1,
                send_pkts := (send_pkts t)[fifo := send_pkts t ! fifo + 1],
                requested_sent := (if if_flags_requested (packets s p) \<noteq> 0
                  then (requested_sent t)[fifo := requested_sent t ! fifo + 1] else requested_sent t)\<rparr>) s
          in Some (rc, s))
   }"

definition brcmf_fws_assign_htod ::
    "pkt \<Rightarrow> nat \<Rightarrow> brcmf_fws_info \<Rightarrow> ((errno + unit) \<times> brcmf_fws_info) option" where
  "brcmf_fws_assign_htod p fifo s = do {
     let s = upd_skb p (\<lambda>k. k\<lparr>htod := 0, htod_seq := 0\<rparr>) s;
     (hslot, h) \<leftarrow> brcmf_fws_hanger_get_free_slot (hanger s);
     let s = s\<lparr>hanger := h\<rparr>;
     i \<leftarrow> skb_mac (packets s p);
     let s = upd_skb p (set_htod_fifo (of_nat fifo) \<circ> set_htod_freerun (ucast (seq (the_desc s i) ! fifo))
               \<circ> set_htod_hslot hslot) s;
     let (rc, h) = brcmf_fws_hanger_pushpkt (hanger s) p hslot;
     let s = s\<lparr>hanger := h\<rparr>;
     Some (rc, (case rc of
         Inr _ \<Rightarrow> upd_desc i (\<lambda>d. d\<lparr>seq := (seq d)[fifo := seq d ! fifo + 1]\<rparr>) s
       | Inl _ \<Rightarrow> upd_stats (\<lambda>t. t\<lparr>generic_error := generic_error t + 1\<rparr>) s))
   }"

text \<open>
  The destination address is the front of the packet's data; \<open>jiffies\<close> is the time,
  \<open>hz\<close> the number of ticks in a second.
\<close>

definition brcmf_fws_process_skb ::
    "fws_env \<Rightarrow> u8 list option \<Rightarrow> nat \<Rightarrow> nat \<Rightarrow> brcmf_if \<Rightarrow> pkt \<Rightarrow> brcmf_fws_info
      \<Rightarrow> ((errno + unit) \<times> brcmf_fws_info) option" where
  "brcmf_fws_process_skb env config jiffies hz ifp p s = do {
     let dest = take 6 (skb_data (packets s p));
     let multicast = is_multicast_ether_addr dest;
     let s = upd_skb p (\<lambda>k. set_if_index (of_nat (ifidx ifp)) (k\<lparr>if_flags := 0, skb_state := BRCMF_FWS_SKBSTATE_NEW\<rparr>)) s;
     fifo \<leftarrow> (if \<not> multicast
             then map_option unat (brcmf_map_prio_to_aci config (skb_priority (packets s p)))
             else Some BRCMF_FWS_FIFO_BCMC);
     let s = (if fifo \<noteq> BRCMF_FWS_FIFO_AC_BE \<and> fifo < BRCMF_FWS_FIFO_BCMC
              then s\<lparr>borrow_defer_timestamp := jiffies + hz div 10\<rparr> else s);
     let s = upd_skb p (\<lambda>k. k\<lparr>skb_mac := brcmf_fws_macdesc_find s ifp dest\<rparr>) s;
     (rc, s) \<leftarrow> brcmf_fws_assign_htod p fifo s;
     (case rc of
        Inr _ \<Rightarrow> do {
          (_, s) \<leftarrow> brcmf_fws_enq env BRCMF_FWS_SKBSTATE_DELAYED fifo p s;
          Some (Inr (), brcmf_fws_schedule_deq s)
        }
      | Inl _ \<Rightarrow> Some (Inl ENOMEM, s))
   }"

subsection \<open>The worker\<close>

text \<open>Without flow control: every packet of the fifo leaves the hanger and goes to the bus.\<close>

partial_function (option) send_all :: "fws_env \<Rightarrow> nat \<Rightarrow> brcmf_fws_info \<Rightarrow> brcmf_fws_info option" where
  "send_all env fifo s =
     (case brcmf_fws_deq env fifo s of
        None \<Rightarrow> None
      | Some (None, s) \<Rightarrow> Some s
      | Some (Some p, s) \<Rightarrow>
          (case brcmf_fws_hanger_poppkt (hanger s) (htod_hslot (packets s p)) True of
             (Inr None, h) \<Rightarrow> None
           | (r, h) \<Rightarrow>
               let p = (case r of Inr (Some k) \<Rightarrow> k | _ \<Rightarrow> p);
                   (ret, s) = env_txdata env (ucast (if_flags_index (packets s p))) 0 p (s\<lparr>hanger := h\<rparr>);
                   s = (case ret of Inl _ \<Rightarrow> brcmf_txfinalize p s | Inr _ \<Rightarrow> s)
               in if bus_flow_blocked s then Some s else send_all env fifo s))"

text \<open>On the fifo's own credits.\<close>

partial_function (option) send_credits :: "fws_env \<Rightarrow> nat \<Rightarrow> brcmf_fws_info \<Rightarrow> brcmf_fws_info option" where
  "send_credits env fifo s =
     (if fifo_credit s ! fifo \<noteq> 0 \<or> (\<not> bcmc_credit_check s \<and> fifo = BRCMF_FWS_FIFO_BCMC)
      then (case brcmf_fws_deq env fifo s of
          None \<Rightarrow> None
        | Some (None, s) \<Rightarrow> Some s
        | Some (Some p, s) \<Rightarrow>
            (case brcmf_fws_commit_skb env fifo p (upd_credit fifo (fifo_credit s ! fifo - 1) s) of
               None \<Rightarrow> None
             | Some (Inl _, s) \<Rightarrow> Some s
             | Some (Inr _, s) \<Rightarrow> if bus_flow_blocked s then Some s else send_credits env fifo s))
      else Some s)"

text \<open>On borrowed credits.\<close>

partial_function (option) send_borrowed :: "fws_env \<Rightarrow> nat \<Rightarrow> brcmf_fws_info \<Rightarrow> brcmf_fws_info option" where
  "send_borrowed env fifo s =
     (case brcmf_fws_borrow_credit (fifo - 1) fifo True s of
        (Inl _, s) \<Rightarrow> Some s
      | (Inr _, s) \<Rightarrow>
          (case brcmf_fws_deq env fifo s of
             None \<Rightarrow> None
           | Some (None, s) \<Rightarrow> brcmf_fws_return_credits fifo 1 s
           | Some (Some p, s) \<Rightarrow>
               (case brcmf_fws_commit_skb env fifo p s of
                  None \<Rightarrow> None
                | Some (Inl _, s) \<Rightarrow> Some s
                | Some (Inr _, s) \<Rightarrow> if bus_flow_blocked s then Some s else send_borrowed env fifo s)))"

fun worker_fifos :: "nat \<Rightarrow> fws_env \<Rightarrow> brcmf_fws_info \<Rightarrow> brcmf_fws_info option" where
  "worker_fifos 0 env s = Some s"
| "worker_fifos (Suc fifo) env s =
     (if bus_flow_blocked s then Some s
      else if \<not> brcmf_fws_fc_active s
      then do { s \<leftarrow> send_all env fifo s; worker_fifos fifo env s }
      else do {
        s \<leftarrow> send_credits env fifo s;
        s \<leftarrow> (if fifo \<ge> BRCMF_FWS_FIFO_AC_BE \<and> fifo \<le> BRCMF_FWS_FIFO_AC_VO \<and>
                fifo_credit s ! fifo = 0 \<and> \<not> bus_flow_blocked s
             then send_borrowed env fifo s else Some s);
        worker_fifos fifo env s
      })"

definition brcmf_fws_dequeue_worker :: "fws_env \<Rightarrow> brcmf_fws_info \<Rightarrow> brcmf_fws_info option" where
  "brcmf_fws_dequeue_worker env s = worker_fifos (Suc BRCMF_FWS_FIFO_BCMC) env s"

subsection \<open>Interfaces, bus flow control, attach and detach\<close>

definition brcmf_fws_reset_interface :: "brcmf_if \<Rightarrow> brcmf_fws_info \<Rightarrow> brcmf_fws_info" where
  "brcmf_fws_reset_interface ifp s =
     (case fws_desc ifp of
        None \<Rightarrow> s
      | Some i \<Rightarrow> upd_desc i (brcmf_fws_macdesc_init (Some (mac_addr ifp)) (of_nat (ifidx ifp))) s)"

definition brcmf_fws_add_interface :: "brcmf_if \<Rightarrow> brcmf_fws_info \<Rightarrow> brcmf_fws_info" where
  "brcmf_fws_add_interface ifp s =
     (if \<not> has_ndev ifp \<or> \<not> brcmf_fws_queue_skbs s then s
      else
        let i = iface_ix (ifidx ifp);
            s = s\<lparr>ifaces := (ifaces s)(ifidx ifp := Some (ifp\<lparr>fws_desc := Some i\<rparr>))\<rparr>
        in upd_desc i (\<lambda>d.
             let d = brcmf_fws_macdesc_init (Some (mac_addr ifp)) (of_nat (ifidx ifp)) d
             in d\<lparr>psq := brcmu_pktq_init (psq d) BRCMF_FWS_PSQ_PREC_COUNT (fws_psq_len s)\<rparr>) s)"

definition brcmf_fws_del_interface :: "brcmf_if \<Rightarrow> brcmf_fws_info \<Rightarrow> brcmf_fws_info option" where
  "brcmf_fws_del_interface ifp s =
     (case fws_desc ifp of
        None \<Rightarrow> Some s
      | Some i \<Rightarrow> do {
          let s = s\<lparr>ifaces := (ifaces s)(ifidx ifp := Some (ifp\<lparr>fws_desc := None\<rparr>))\<rparr>;
          s \<leftarrow> brcmf_fws_macdesc_cleanup (iface_ix (ifidx ifp)) (int (ifidx ifp)) s;
          let s = upd_desc i brcmf_fws_macdesc_deinit s;
          brcmf_fws_cleanup (int (ifidx ifp)) s
        })"

definition brcmf_fws_bus_blocked :: "bool \<Rightarrow> brcmf_fws_info \<Rightarrow> brcmf_fws_info" where
  "brcmf_fws_bus_blocked flow_blocked s =
     (if avoid_queueing s
      then s\<lparr>ifaces := (\<lambda>i. if i < BRCMF_MAX_IFS
              then map_option (brcmf_txflowblock_if BRCMF_NETIF_STOP_REASON_FLOW flow_blocked) (ifaces s i)
              else ifaces s i)\<rparr>
      else
        let s = s\<lparr>bus_flow_blocked := flow_blocked\<rparr>
        in if \<not> flow_blocked then brcmf_fws_schedule_deq s
           else upd_stats (\<lambda>t. t\<lparr>bus_flow_block := bus_flow_block t + 1\<rparr>) s)"

definition brcmf_fws_detach :: "brcmf_fws_info \<Rightarrow> brcmf_fws_info option" where
  "brcmf_fws_detach s = brcmf_fws_cleanup (-1) s"

text \<open>
  What attaching finds around it: the module settings, whether the structure and the work queue
  could be allocated, how the registrations of the two event handlers end, and the answers of
  the firmware to the three settings (\<open>wlfc_mode\<close> as read, \<open>None\<close> when the read fails).
\<close>

record fws_attach_env =
  at_alloc :: bool
  at_fcmode :: brcmf_fws_fcmode
  at_short_psq :: bool
  at_always_queue :: bool
  at_workqueue :: bool
  at_reg_credit_map :: "errno + unit"
  at_reg_bcmc :: "errno + unit"
  at_set_tlv :: "errno + unit"
  at_get_wlfc_mode :: "u32 option"
  at_set_wlfc_mode :: "errno + unit"

definition brcmf_fws_attach :: "fws_attach_env \<Rightarrow> brcmf_fws_info \<Rightarrow> errno + brcmf_fws_info" where
  "brcmf_fws_attach e zeroed =
     (if \<not> at_alloc e then Inl ENOMEM
      else
        let s = zeroed\<lparr>fcmode := at_fcmode e\<rparr>;
            s = (if at_short_psq e
                 then s\<lparr>fws_psq_len := 256, fws_psq_hi_water := 128, fws_psq_low_water := 64\<rparr>
                 else s\<lparr>fws_psq_len := 2048, fws_psq_hi_water := 1792, fws_psq_low_water := 256\<rparr>)
        in if \<not> at_always_queue e \<and> fcmode s = BRCMF_FWS_FCMODE_NONE
           then Inr (s\<lparr>avoid_queueing := True\<rparr>)
           else if \<not> at_workqueue e then Inl EBADF
           else (case at_reg_credit_map e of
               Inl rc \<Rightarrow> Inl rc
             | Inr _ \<Rightarrow> (case at_reg_bcmc e of
                 Inl rc \<Rightarrow> Inl rc
               | Inr _ \<Rightarrow>
                   let s = s\<lparr>fw_signals := True\<rparr>;
                       s = (case at_set_tlv e of
                              Inl _ \<Rightarrow> s\<lparr>fcmode := BRCMF_FWS_FCMODE_NONE, fw_signals := False\<rparr>
                            | Inr _ \<Rightarrow> s);
                       s = (case at_get_wlfc_mode e of
                              None \<Rightarrow> s
                            | Some m \<Rightarrow>
                                if drop_bit 3 m AND 1 \<noteq> 0
                                then (case at_set_wlfc_mode e of
                                        Inr _ \<Rightarrow> s\<lparr>mode := mode s AND NOT 8 OR 8\<rparr>
                                      | Inl _ \<Rightarrow> s)
                                else s);
                       s = s\<lparr>hanger := brcmf_fws_hanger_init\<rparr>;
                       s = upd_desc OTHER_IX (\<lambda>d.
                             let d = brcmf_fws_macdesc_init None 0 d
                             in d\<lparr>psq := brcmu_pktq_init (psq d) BRCMF_FWS_PSQ_PREC_COUNT (fws_psq_len s)\<rparr>) s
                   in Inr s)))"

subsection \<open>Properties: the tag of a packet finds its hanger slot again\<close>

lemma masked_u32:
  "v < 65536 \<Longrightarrow> (v :: u32) AND 0xffff = v" "v < 256 \<Longrightarrow> (v :: u32) AND 0xff = v"
  "v < 8 \<Longrightarrow> (v :: u32) AND 7 = v"
  using less_mask_eq [of v 16] less_mask_eq [of v 8] less_mask_eq [of v 3]
  by (simp_all add: mask_eq_exp_minus_1)

lemma htod_tag_fields:
  fixes k :: sk_buff
  assumes "hslot < 65536" "fr < 256" "fifo < 8"
  shows "htod_hslot (set_htod_fifo fifo (set_htod_freerun fr (set_htod_hslot hslot k))) = hslot"
    and "htod_freerun (set_htod_fifo fifo (set_htod_freerun fr (set_htod_hslot hslot k))) = fr"
    and "htod_fifo (set_htod_fifo fifo (set_htod_freerun fr (set_htod_hslot hslot k))) = fifo"
  using assms
  by (simp_all add: htod_hslot_def htod_freerun_def htod_fifo_def set_htod_hslot_def
      set_htod_freerun_def set_htod_fifo_def mask_laws masked_u32)

lemma ucast_u8_u32_lt: "(ucast (w :: u8) :: u32) < 256"
  using le_less_trans [OF take_bit_nat_less_eq_self unat_u8_lt, of 32 w]
  by (simp add: word_less_nat_alt unsigned_ucast_eq)

text \<open>
  C36: When a packet gets its tag, the slot number in the tag names a hanger slot that holds
  this packet, the fifo and the sequence number can be read back from it, and the sequence
  number of its destination moves on by one. When no tag can be given, the hanger holds what
  it held before.
\<close>
theorem assign_htod_roundtrip:
  assumes "slot_pos (hanger s) < BRCMF_FWS_HANGER_MAXITEMS" "skb_mac (packets s p) = Some i"
    "i < length (desc s)" "fifo < BRCMF_FWS_FIFO_COUNT" "length (seq (the_desc s i)) = BRCMF_FWS_FIFO_COUNT"
  shows "\<exists>rc s'. brcmf_fws_assign_htod p fifo s = Some (rc, s') \<and>
    (case rc of
       Inr _ \<Rightarrow> hanger_slot (hanger s') (htod_hslot (packets s' p)) = Some p \<and>
         hanger_slot (hanger s) (htod_hslot (packets s' p)) = None \<and>
         htod_fifo (packets s' p) = of_nat fifo \<and>
         htod_freerun (packets s' p) = ucast (seq (the_desc s i) ! fifo) \<and>
         seq (the_desc s' i) ! fifo = seq (the_desc s i) ! fifo + 1
     | Inl e \<Rightarrow> e = ENOENT \<and> hanger_slot (hanger s') = hanger_slot (hanger s) \<and>
         (\<forall>j < BRCMF_FWS_HANGER_MAXITEMS. j \<noteq> slot_pos (hanger s) \<longrightarrow> \<not> item_free (hanger s) j))"
proof -
  from hanger_search [OF assms(1)] obtain hslot h where
    h: "brcmf_fws_hanger_get_free_slot (hanger s) = Some (hslot, h)" "hg_items h = hg_items (hanger s)"
    and found: "if hslot < BRCMF_FWS_HANGER_MAXITEMS
     then item_free (hanger s) hslot \<and> hslot \<noteq> slot_pos (hanger s) \<and> slot_pos h = hslot
     else hslot = BRCMF_FWS_HANGER_MAXITEMS \<and> failed_slotfind h = failed_slotfind (hanger s) + 1 \<and>
          (\<forall>j < BRCMF_FWS_HANGER_MAXITEMS. j \<noteq> slot_pos (hanger s) \<longrightarrow> \<not> item_free (hanger s) j)"
    by blast
  have same: "hanger_slot h = hanger_slot (hanger s)"
    by (rule ext) (simp add: hanger_slot_def h(2))
  define sq where "sq = seq (the_desc s i) ! fifo"
  define tag where "tag = set_htod_fifo (of_nat fifo) \<circ> set_htod_freerun (ucast sq) \<circ> set_htod_hslot hslot"
  show ?thesis
  proof (cases "hslot < BRCMF_FWS_HANGER_MAXITEMS")
    case True
    then have free: "item_free h hslot" using found h(2) by simp
    have small: "hslot < 65536" using True by (rule less_trans) simp
    have fifo8: "(of_nat fifo :: u32) < 8" using assms(4)
      by (simp add: word_less_nat_alt unsigned_of_nat take_bit_nat_eq_self)
    have "fst (brcmf_fws_hanger_pushpkt h p hslot) = Inr ()"
      using True free by (simp add: brcmf_fws_hanger_pushpkt_def)
    then obtain h' where push: "brcmf_fws_hanger_pushpkt h p hslot = (Inr (), h')"
      by (metis prod.collapse)
    then have "hanger_put h hslot p = (True, h')" by (simp add: hanger_put_def)
    from hanger_store.put_ok [OF this]
    have put: "hanger_slot h hslot = None" "hanger_slot h' hslot = Some p" by auto
    note fields = htod_tag_fields [OF small ucast_u8_u32_lt fifo8]
    obtain s' where "brcmf_fws_assign_htod p fifo s = Some (Inr (), s')"
      "hanger s' = h'"
      "packets s' p = tag ((packets s p)\<lparr>htod := 0, htod_seq := 0\<rparr>)"
      "seq (the_desc s' i) = (seq (the_desc s i))[fifo := sq + 1]"
      using assms(2,3) h(1) push
      by (auto simp: brcmf_fws_assign_htod_def upd_skb_def upd_desc_def tag_def sq_def Let_def
          split: prod.split)
    then show ?thesis
      using put same fields assms(4,5) by (auto simp: tag_def sq_def)
  next
    case False
    then have "hslot = BRCMF_FWS_HANGER_MAXITEMS" using found by simp
    then have push: "brcmf_fws_hanger_pushpkt h p hslot = (Inl ENOENT, h)"
      by (simp add: brcmf_fws_hanger_pushpkt_def)
    have "\<exists>s'. brcmf_fws_assign_htod p fifo s = Some (Inl ENOENT, s') \<and> hanger s' = h"
      using assms(2,3) h(1) push
      by (auto simp: brcmf_fws_assign_htod_def upd_skb_def upd_desc_def upd_stats_def Let_def
          split: prod.split)
    then show ?thesis using False found same by auto
  qed
qed

theorem assign_htod_roundtrip_witness:
  "\<exists>s'. brcmf_fws_assign_htod 9 1 sample_fws = Some (Inr (), s') \<and>
     hanger_slot (hanger s') (htod_hslot (packets s' 9)) = Some 9 \<and> htod_fifo (packets s' 9) = 1"
proof -
  have hyps: "slot_pos (hanger sample_fws) < BRCMF_FWS_HANGER_MAXITEMS"
    "skb_mac (packets sample_fws 9) = Some 3" "3 < length (desc sample_fws)"
    "length (seq (the_desc sample_fws 3)) = BRCMF_FWS_FIFO_COUNT"
    and free: "item_free (hanger sample_fws) 5" "slot_pos (hanger sample_fws) = 0"
    by (simp_all add: sample_fws_def zero_fws_def zero_skb_def zero_desc_def upd_desc_def
        brcmf_fws_hanger_init_def)
  obtain rc s' where r: "brcmf_fws_assign_htod 9 1 sample_fws = Some (rc, s')"
    and c: "case rc of
       Inr _ \<Rightarrow> hanger_slot (hanger s') (htod_hslot (packets s' 9)) = Some 9 \<and>
         hanger_slot (hanger sample_fws) (htod_hslot (packets s' 9)) = None \<and>
         htod_fifo (packets s' 9) = of_nat 1 \<and>
         htod_freerun (packets s' 9) = ucast (seq (the_desc sample_fws 3) ! 1) \<and>
         seq (the_desc s' 3) ! 1 = seq (the_desc sample_fws 3) ! 1 + 1
     | Inl e \<Rightarrow> e = ENOENT \<and> hanger_slot (hanger s') = hanger_slot (hanger sample_fws) \<and>
         (\<forall>j < BRCMF_FWS_HANGER_MAXITEMS. j \<noteq> slot_pos (hanger sample_fws) \<longrightarrow> \<not> item_free (hanger sample_fws) j)"
    using assign_htod_roundtrip [OF hyps(1-3) _ hyps(4), of 1] by auto
  have "\<not> (\<forall>j < BRCMF_FWS_HANGER_MAXITEMS. j \<noteq> slot_pos (hanger sample_fws) \<longrightarrow> \<not> item_free (hanger sample_fws) j)"
    using free by (auto intro!: exI [of _ 5])
  with c r show ?thesis by (cases rc) auto
qed

subsection \<open>Properties: rolling back\<close>

lemma repay_lenders_frame:
  "repay_lenders n f c s = (fin, c', s') \<Longrightarrow> desc s' = desc s \<and> fifo_enqpkt s' = fifo_enqpkt s \<and>
     fifo_delay_map s' = fifo_delay_map s \<and> packets s' = packets s"
  by (induction n arbitrary: c s)
    (auto simp: Let_def upd_credit_def upd_borrowed_def set_credit_bit_def split: if_splits)

lemma return_credits_frame:
  assumes "brcmf_fws_return_credits f c s = Some s'"
  shows "desc s' = desc s" "fifo_enqpkt s' = fifo_enqpkt s" "fifo_delay_map s' = fifo_delay_map s"
    "packets s' = packets s"
  using assms repay_lenders_frame [of 4 f c "set_credit_bit f s"]
  by (auto simp: brcmf_fws_return_credits_def Let_def upd_credit_def set_credit_bit_def
      split: if_splits prod.splits)

text \<open>
  Rolling a packet back puts it at the head of the queue it came from, but leaves the
  count of waiting packets and the map of fifos with waiting packets as they are, although
  both were lowered when the packet was dequeued. The packet then waits uncounted: with an
  empty map no dequeue is scheduled for it.
\<close>
theorem rollback_does_not_recount:
  assumes "skb_mac (packets s p) = Some i" "i < length (desc s)" "occupied (the_desc s i)"
    "skb_state (packets s p) = BRCMF_FWS_SKBSTATE_DELAYED" "fifo < BRCMF_FWS_FIFO_COUNT"
    "pktq_wf (psq (the_desc s i))" "unat (num_prec (psq (the_desc s i))) = BRCMF_FWS_PSQ_PREC_COUNT"
    "\<not> pktq_full (psq (the_desc s i))" "\<not> pktq_pfull (psq (the_desc s i)) (2 * fifo)"
    "brcmf_fws_rollback_toq env p fifo s = Some s'"
  shows "skbs (psq (the_desc s' i)) (2 * fifo) = p # skbs (psq (the_desc s i)) (2 * fifo) \<and>
    fifo_enqpkt s' = fifo_enqpkt s \<and> fifo_delay_map s' = fifo_delay_map s \<and>
    (fifo_delay_map s = 0 \<longrightarrow> brcmf_fws_schedule_deq s' = s')"
proof -
  let ?q = "psq (the_desc s i)"
  define q where "q = snd (brcmu_pktq_penq_head ?q (2 * fifo) p)"
  have rng: "2 * fifo < length (pq_q ?q)"
    using assms(5-7) by (intro pktq_prec_in_range) auto
  have "brcmu_pktq_penq_head ?q (2 * fifo) p = (Some p, q) \<and>
      skbs q (2 * fifo) = p # skbs ?q (2 * fifo)"
  proof (cases rule: penq_head_cases [of ?q "2 * fifo" p])
    case Full
    with assms(8,9) show ?thesis by simp
  next
    case Room
    with rng show ?thesis by (simp add: q_def set_skbs_def)
  qed
  then have enq: "brcmu_pktq_penq_head ?q (2 * fifo) p = (Some p, q)"
    and cont: "skbs q (2 * fifo) = p # skbs ?q (2 * fifo)" by simp_all
  define t where "t = upd_stats (\<lambda>t. t\<lparr>rollback_success := rollback_success t + 1\<rparr>)
    (upd_desc i (\<lambda>d. d\<lparr>psq := q\<rparr>) s)"
  have t: "psq (the_desc t i) = q" "fifo_enqpkt t = fifo_enqpkt s" "fifo_delay_map t = fifo_delay_map s"
    "length (desc t) = length (desc s)" "packets t = packets s"
    using assms(2) by (simp_all add: t_def upd_stats_def upd_desc_def)
  obtain u where u: "brcmf_fws_return_credits fifo 1 t = Some u"
    "brcmf_fws_macdesc_return_req_credit p u = Some s'"
    using assms(1,3,4,10) enq
    by (auto simp: brcmf_fws_rollback_toq_def t_def Let_def bind_eq_Some_conv split: if_splits)
  note fr = return_credits_frame [OF u(1)]
  have "psq (the_desc s' i) = q" "fifo_enqpkt s' = fifo_enqpkt s" "fifo_delay_map s' = fifo_delay_map s"
    using u(2) fr t assms(1,2)
    by (auto simp: brcmf_fws_macdesc_return_req_credit_def upd_desc_def split: if_splits)
  with cont show ?thesis by (auto simp: brcmf_fws_schedule_deq_def)
qed

lemma return_credits_Some: "f < BRCMF_FWS_FIFO_COUNT \<Longrightarrow> \<exists>s'. brcmf_fws_return_credits f c s = Some s'"
  by (simp add: brcmf_fws_return_credits_def Let_def split: prod.split)

lemma rollback_Some:
  assumes "skb_mac (packets s p) = Some i" "occupied (the_desc s i)" "fifo < BRCMF_FWS_FIFO_COUNT"
    "skb_state (packets s p) = BRCMF_FWS_SKBSTATE_DELAYED"
    "fst (brcmu_pktq_penq_head (psq (the_desc s i)) (2 * fifo) p) \<noteq> None"
  shows "\<exists>s'. brcmf_fws_rollback_toq env p fifo s = Some s'"
proof -
  obtain q x where q: "brcmu_pktq_penq_head (psq (the_desc s i)) (2 * fifo) p = (Some x, q)"
    using assms(5) by (metis option.exhaust prod.collapse)
  let ?t = "upd_stats (\<lambda>t. t\<lparr>rollback_success := rollback_success t + 1\<rparr>)
    (upd_desc i (\<lambda>d. d\<lparr>psq := q\<rparr>) s)"
  obtain u where u: "brcmf_fws_return_credits fifo 1 ?t = Some u"
    using return_credits_Some [OF assms(3)] by blast
  have "packets u = packets s"
    using return_credits_frame(4) [OF u] by (simp add: upd_stats_def upd_desc_def)
  with u q assms show ?thesis
    by (simp add: brcmf_fws_rollback_toq_def Let_def brcmf_fws_macdesc_return_req_credit_def)
qed

definition sample_fws3 :: brcmf_fws_info where
  "sample_fws3 = upd_skb 9 (\<lambda>k. k\<lparr>skb_state := BRCMF_FWS_SKBSTATE_DELAYED\<rparr>) sample_fws2"

theorem rollback_does_not_recount_witness:
  "\<exists>s'. brcmf_fws_rollback_toq quiet_env 9 1 sample_fws3 = Some s' \<and>
     skbs (psq (the_desc s' 3)) 2 = 9 # skbs (psq (the_desc sample_fws3 3)) 2 \<and>
     fifo_enqpkt s' = fifo_enqpkt sample_fws3 \<and> brcmf_fws_schedule_deq s' = s'"
proof -
  have q: "psq (the_desc sample_fws3 3) = sample_psq"
    by (simp add: sample_fws3_def sample_fws2_def sample_fws_def zero_fws_def upd_desc_def upd_skb_def)
  have h: "skb_mac (packets sample_fws3 9) = Some 3" "3 < length (desc sample_fws3)"
    "occupied (the_desc sample_fws3 3)" "skb_state (packets sample_fws3 9) = BRCMF_FWS_SKBSTATE_DELAYED"
    "fifo_delay_map sample_fws3 = 0"
    by (simp_all add: sample_fws3_def sample_fws2_def sample_fws_def zero_fws_def zero_skb_def
        upd_desc_def upd_skb_def)
  have n: "unat (num_prec sample_psq) = BRCMF_FWS_PSQ_PREC_COUNT" "\<not> pktq_full sample_psq"
    "\<not> pktq_pfull sample_psq 2" "fst (brcmu_pktq_penq_head sample_psq 2 9) \<noteq> None" by code_simp+
  obtain s' where s': "brcmf_fws_rollback_toq quiet_env 9 1 sample_fws3 = Some s'"
    using rollback_Some [OF h(1,3) _ h(4), of 1 quiet_env] n(4) q by auto
  from rollback_does_not_recount [OF h(1-4) _ _ _ _ _ s'] h(5) s' q n sample_psq_wf
  show ?thesis by simp
qed

end
