(* ===== verification/Fws_Signal.thy ===== *)
theory Fws_Signal
  imports Fws_Tx
begin

section \<open>Signals from the firmware (brcmfmac/fwsignal.c)\<close>

text \<open>
  The firmware puts type-length-value signals in front of a received packet. \<open>brcmf_fws_hdrpull\<close>
  walks over them and dispatches to the handlers: descriptors added, moved and removed,
  stations and interfaces opened and closed, credits and packets requested, credits given back,
  transmit status, and the reordering information of the packet itself.

  A handler receives the bytes from the value on to the end of the packet buffer, as the
  source passes a pointer; reading past the end of the buffer is undefined (\<open>None\<close>). The
  boolean a handler returns tells whether the dequeue work is to be scheduled; an error of a
  handler is dropped by the dispatcher, which only compares with \<open>BRCMF_FWS_RET_OK_SCHEDULE\<close>.
\<close>

abbreviation byte_at :: "u8 list \<Rightarrow> nat \<Rightarrow> u8 option" where
  "byte_at data i \<equiv> (if i < length data then Some (data ! i) else None)"

subsection \<open>The types of signals\<close>

abbreviation (input) BRCMF_FWS_TYPE_MAC_OPEN :: u8 where "BRCMF_FWS_TYPE_MAC_OPEN \<equiv> 1"
abbreviation (input) BRCMF_FWS_TYPE_MAC_CLOSE :: u8 where "BRCMF_FWS_TYPE_MAC_CLOSE \<equiv> 2"
abbreviation (input) BRCMF_FWS_TYPE_MAC_REQUEST_CREDIT :: u8 where "BRCMF_FWS_TYPE_MAC_REQUEST_CREDIT \<equiv> 3"
abbreviation (input) BRCMF_FWS_TYPE_TXSTATUS :: u8 where "BRCMF_FWS_TYPE_TXSTATUS \<equiv> 4"
abbreviation (input) BRCMF_FWS_TYPE_MACDESC_ADD :: u8 where "BRCMF_FWS_TYPE_MACDESC_ADD \<equiv> 6"
abbreviation (input) BRCMF_FWS_TYPE_MACDESC_DEL :: u8 where "BRCMF_FWS_TYPE_MACDESC_DEL \<equiv> 7"
abbreviation (input) BRCMF_FWS_TYPE_RSSI :: u8 where "BRCMF_FWS_TYPE_RSSI \<equiv> 8"
abbreviation (input) BRCMF_FWS_TYPE_INTERFACE_OPEN :: u8 where "BRCMF_FWS_TYPE_INTERFACE_OPEN \<equiv> 9"
abbreviation (input) BRCMF_FWS_TYPE_INTERFACE_CLOSE :: u8 where "BRCMF_FWS_TYPE_INTERFACE_CLOSE \<equiv> 10"
abbreviation (input) BRCMF_FWS_TYPE_FIFO_CREDITBACK :: u8 where "BRCMF_FWS_TYPE_FIFO_CREDITBACK \<equiv> 11"
abbreviation (input) BRCMF_FWS_TYPE_MAC_REQUEST_PACKET :: u8 where "BRCMF_FWS_TYPE_MAC_REQUEST_PACKET \<equiv> 13"
abbreviation (input) BRCMF_FWS_TYPE_HOST_REORDER_RXPKTS :: u8 where "BRCMF_FWS_TYPE_HOST_REORDER_RXPKTS \<equiv> 14"
abbreviation (input) BRCMF_FWS_TYPE_TRANS_ID :: u8 where "BRCMF_FWS_TYPE_TRANS_ID \<equiv> 18"
abbreviation (input) BRCMF_FWS_TYPE_COMP_TXSTATUS :: u8 where "BRCMF_FWS_TYPE_COMP_TXSTATUS \<equiv> 19"

text \<open>The table \<open>BRCMF_FWS_TLV_DEFLIST\<close>: type and minimal length.\<close>

definition tlv_deflist :: "(u8 \<times> int) list" where
  "tlv_deflist = [(1, 1), (2, 1), (3, 2), (4, 4), (5, 4), (6, 8), (7, 8), (8, 1), (9, 1), (10, 1),
     (11, 6), (12, 2), (13, 3), (14, 10), (18, 6), (19, 1), (255, 0)]"

definition brcmf_fws_get_tlv_len :: "u8 \<Rightarrow> brcmf_fws_info \<Rightarrow> int \<times> brcmf_fws_info" where
  "brcmf_fws_get_tlv_len ty s =
     (case map_of tlv_deflist ty of
        Some n \<Rightarrow> (n, s)
      | None \<Rightarrow> (-22, upd_stats (\<lambda>t. t\<lparr>tlv_invalid_type := tlv_invalid_type t + 1\<rparr>) s))"

subsection \<open>Handlers\<close>

text \<open>The fields of a descriptor in front of the queue, which \<open>memcpy\<close> moves.\<close>

definition copy_desc_head ::
    "brcmf_fws_mac_descriptor \<Rightarrow> brcmf_fws_mac_descriptor \<Rightarrow> brcmf_fws_mac_descriptor" where
  "copy_desc_head src dst = src\<lparr>psq := psq dst, transit_count := transit_count dst,
     suppr_transit_count := suppr_transit_count dst, send_tim_signal := send_tim_signal dst,
     traffic_pending_bmp := traffic_pending_bmp dst,
     traffic_lastreported_bmp := traffic_lastreported_bmp dst\<rparr>"

definition brcmf_fws_macdesc_indicate :: "u8 \<Rightarrow> u8 list \<Rightarrow> brcmf_fws_info \<Rightarrow> brcmf_fws_info option" where
  "brcmf_fws_macdesc_indicate ty data s = do {
     handle \<leftarrow> byte_at data 0;
     idx \<leftarrow> byte_at data 1;
     addr \<leftarrow> (if 8 \<le> length data then Some (take 6 (drop 2 data)) else None);
     let e = node_ix handle;
     let failed = upd_stats (\<lambda>t. t\<lparr>mac_update_failed := mac_update_failed t + 1\<rparr>) s;
     if ty = BRCMF_FWS_TYPE_MACDESC_DEL
     then (if occupied (the_desc s e)
           then do {
             s \<leftarrow> brcmf_fws_macdesc_cleanup e (-1) s;
             Some (upd_desc e brcmf_fws_macdesc_deinit s)
           }
           else Some failed)
     else (case brcmf_fws_macdesc_lookup s (Some addr) of
         Inl _ \<Rightarrow>
           if \<not> occupied (the_desc s e)
           then Some (upd_desc e (\<lambda>d.
               let d = brcmf_fws_macdesc_init (Some addr) idx (d\<lparr>mac_handle := handle\<rparr>)
               in d\<lparr>psq := brcmu_pktq_init (psq d) BRCMF_FWS_PSQ_PREC_COUNT (fws_psq_len s)\<rparr>) s)
           else Some failed
       | Inr x \<Rightarrow>
           if e \<noteq> x
           then let s = upd_desc e (\<lambda>d. (copy_desc_head (the_desc s x) d)\<lparr>mac_handle := handle\<rparr>) s
                in Some (upd_desc x brcmf_fws_macdesc_deinit s)
           else Some s)
   }"

definition brcmf_fws_macdesc_state_indicate ::
    "fws_env \<Rightarrow> u8 \<Rightarrow> u8 list \<Rightarrow> brcmf_fws_info \<Rightarrow> ((errno + bool) \<times> brcmf_fws_info) option" where
  "brcmf_fws_macdesc_state_indicate env ty data s = do {
     handle \<leftarrow> byte_at data 0;
     let e = node_ix handle;
     if \<not> occupied (the_desc s e)
     then Some (Inl ESRCH, upd_stats (\<lambda>t. t\<lparr>mac_ps_update_failed := mac_ps_update_failed t + 1\<rparr>) s)
     else do {
       let s = upd_desc e (\<lambda>d. d\<lparr>requested_credit := 0, requested_packet := 0\<rparr>) s;
       if ty = BRCMF_FWS_TYPE_MAC_OPEN
       then Some (Inr True, upd_desc e (\<lambda>d. d\<lparr>mac_state := BRCMF_FWS_STATE_OPEN\<rparr>) s)
       else do {
         let s = upd_desc e (\<lambda>d. d\<lparr>mac_state := BRCMF_FWS_STATE_CLOSE\<rparr>) s;
         (_, s) \<leftarrow> brcmf_fws_tim_update env e BRCMF_FWS_FIFO_AC_BK False s;
         (_, s) \<leftarrow> brcmf_fws_tim_update env e BRCMF_FWS_FIFO_AC_BE False s;
         (_, s) \<leftarrow> brcmf_fws_tim_update env e BRCMF_FWS_FIFO_AC_VI False s;
         (_, s) \<leftarrow> brcmf_fws_tim_update env e BRCMF_FWS_FIFO_AC_VO True s;
         Some (Inr False, s)
       }
     }
   }"

definition brcmf_fws_interface_state_indicate ::
    "u8 \<Rightarrow> u8 list \<Rightarrow> brcmf_fws_info \<Rightarrow> ((errno + bool) \<times> brcmf_fws_info) option" where
  "brcmf_fws_interface_state_indicate ty data s = do {
     idx \<leftarrow> byte_at data 0;
     let fail = upd_stats (\<lambda>t. t\<lparr>if_update_failed := if_update_failed t + 1\<rparr>) s;
     let e = iface_ix (unat idx);
     if unat idx \<ge> BRCMF_MAX_IFS then Some (Inl ERANGE, fail)
     else if \<not> occupied (the_desc s e) then Some (Inl ESRCH, fail)
     else if ty = BRCMF_FWS_TYPE_INTERFACE_OPEN
     then Some (Inr True, upd_desc e (\<lambda>d. d\<lparr>mac_state := BRCMF_FWS_STATE_OPEN\<rparr>) s)
     else if ty = BRCMF_FWS_TYPE_INTERFACE_CLOSE
     then Some (Inr False, upd_desc e (\<lambda>d. d\<lparr>mac_state := BRCMF_FWS_STATE_CLOSE\<rparr>) s)
     else Some (Inl EINVAL, fail)
   }"

definition brcmf_fws_request_indicate ::
    "u8 \<Rightarrow> u8 list \<Rightarrow> brcmf_fws_info \<Rightarrow> ((errno + bool) \<times> brcmf_fws_info) option" where
  "brcmf_fws_request_indicate ty data s = do {
     handle \<leftarrow> byte_at data 1;
     let e = node_ix handle;
     if \<not> occupied (the_desc s e)
     then Some (Inl ESRCH, upd_stats (\<lambda>t.
         if ty = BRCMF_FWS_TYPE_MAC_REQUEST_CREDIT
         then t\<lparr>credit_request_failed := credit_request_failed t + 1\<rparr>
         else t\<lparr>packet_request_failed := packet_request_failed t + 1\<rparr>) s)
     else do {
       cnt \<leftarrow> byte_at data 0;
       bmp \<leftarrow> byte_at data 2;
       Some (Inr True, upd_desc e (\<lambda>d.
           let d = (if ty = BRCMF_FWS_TYPE_MAC_REQUEST_CREDIT then d\<lparr>requested_credit := cnt\<rparr>
                    else d\<lparr>requested_packet := cnt\<rparr>)
           in d\<lparr>ac_bitmap := bmp\<rparr>) s)
     }
   }"

definition brcmf_fws_txstatus_indicate ::
    "fws_env \<Rightarrow> u8 \<Rightarrow> u8 list \<Rightarrow> brcmf_fws_info \<Rightarrow> brcmf_fws_info option" where
  "brcmf_fws_txstatus_indicate env ty data s = do {
     status \<leftarrow> (if 4 \<le> length data then Some (le32_of (data ! 0) (data ! 1) (data ! 2) (data ! 3)) else None);
     let flags = ucast (brcmu_maskget32 status 0x78000000 27);
     let hslot = brcmu_maskget32 status 0x00ffff00 8;
     let genbit = brcmu_maskget32 status 0x80000000 31;
     let reuse = mode_get_reuseseq (mode s);
     sq \<leftarrow> (if reuse
           then (if 6 \<le> length data then Some (le16_of (data ! 4) (data ! 5)) else None)
           else Some 0);
     compcnt \<leftarrow> (if ty = BRCMF_FWS_TYPE_COMP_TXSTATUS then byte_at data (if reuse then 6 else 4) else Some 1);
     let s = upd_stats (\<lambda>t. t\<lparr>txs_indicate := txs_indicate t + ucast compcnt\<rparr>) s;
     brcmf_fws_txs_process env flags hslot genbit sq compcnt s
   }"

definition brcmf_fws_dbg_seqnum_check :: "u8 list \<Rightarrow> unit option" where
  "brcmf_fws_dbg_seqnum_check data = (if 6 \<le> length data then Some () else None)"

subsection \<open>The walk over the signals\<close>

text \<open>One signal: whether a handler asked for the dequeue work, and the state.\<close>

definition fws_dispatch ::
    "fws_env \<Rightarrow> pkt \<Rightarrow> u8 \<Rightarrow> u8 list \<Rightarrow> brcmf_fws_info \<Rightarrow> (bool \<times> brcmf_fws_info) option" where
  "fws_dispatch env p ty data s =
     (let sched = map_option (\<lambda>(r, s). (r = Inr True, s)) in
      if ty = BRCMF_FWS_TYPE_HOST_REORDER_RXPKTS
      then Some (False, upd_skb p (\<lambda>k. k\<lparr>skb_reorder := Some data\<rparr>) s)
      else if ty = BRCMF_FWS_TYPE_MACDESC_ADD \<or> ty = BRCMF_FWS_TYPE_MACDESC_DEL
      then map_option (Pair False) (brcmf_fws_macdesc_indicate ty data s)
      else if ty = BRCMF_FWS_TYPE_MAC_OPEN \<or> ty = BRCMF_FWS_TYPE_MAC_CLOSE
      then sched (brcmf_fws_macdesc_state_indicate env ty data s)
      else if ty = BRCMF_FWS_TYPE_INTERFACE_OPEN \<or> ty = BRCMF_FWS_TYPE_INTERFACE_CLOSE
      then sched (brcmf_fws_interface_state_indicate ty data s)
      else if ty = BRCMF_FWS_TYPE_MAC_REQUEST_CREDIT \<or> ty = BRCMF_FWS_TYPE_MAC_REQUEST_PACKET
      then sched (brcmf_fws_request_indicate ty data s)
      else if ty = BRCMF_FWS_TYPE_TXSTATUS \<or> ty = BRCMF_FWS_TYPE_COMP_TXSTATUS
      then map_option (Pair False) (brcmf_fws_txstatus_indicate env ty data s)
      else if ty = BRCMF_FWS_TYPE_FIFO_CREDITBACK
      then brcmf_fws_fifocreditback_indicate data s
      else if ty = BRCMF_FWS_TYPE_RSSI
      then map_option (\<lambda>_. (False, s)) (byte_at data 0)
      else if ty = BRCMF_FWS_TYPE_TRANS_ID
      then map_option (\<lambda>_. (False, s)) (brcmf_fws_dbg_seqnum_check data)
      else Some (False, upd_stats (\<lambda>t. t\<lparr>tlv_invalid_type := tlv_invalid_type t + 1\<rparr>) s))"

text \<open>
  The loop: \<open>bytes\<close> are those from the current signal on to the end of the packet, \<open>data_len\<close>
  what is left of the signals. The result is what was left when the loop ended.
\<close>

lemma neg_uint_lt [simp]: "- uint (w :: 'a::len word) < 2"
  by (rule le_less_trans [of _ 0]) simp_all

function hdrpull_loop ::
    "fws_env \<Rightarrow> pkt \<Rightarrow> u8 list \<Rightarrow> int \<Rightarrow> bool \<Rightarrow> brcmf_fws_info \<Rightarrow> (int \<times> bool \<times> brcmf_fws_info) option" where
  "hdrpull_loop env p bytes data_len status s =
     (if data_len \<le> 0 then Some (data_len, status, s)
      else case byte_at bytes 0 of
        None \<Rightarrow> None
      | Some ty \<Rightarrow>
          if ty = BRCMF_FWS_TYPE_FILLER then hdrpull_loop env p (drop 1 bytes) (data_len - 1) status s
          else case byte_at bytes 1 of
            None \<Rightarrow> None
          | Some len \<Rightarrow>
              if data_len < uint len + 2 then Some (data_len, status, s)
              else case brcmf_fws_get_tlv_len ty s of (minlen, s) \<Rightarrow>
                if uint len < minlen then Some (data_len, status, s)
                else case fws_dispatch env p ty (drop 2 bytes) s of
                  None \<Rightarrow> None
                | Some (sched, s) \<Rightarrow>
                    hdrpull_loop env p (drop (unat len + 2) bytes) (data_len - (uint len + 2))
                      (status \<or> sched) s)"
  by pat_completeness auto
termination
  by (relation "measure (\<lambda>(env, p, bytes, data_len, status, s). nat data_len)")
    auto

declare hdrpull_loop.simps [simp del]

definition brcmf_fws_hdrpull :: "fws_env \<Rightarrow> int \<Rightarrow> pkt \<Rightarrow> brcmf_fws_info \<Rightarrow> brcmf_fws_info option" where
  "brcmf_fws_hdrpull env siglen p s =
     (let len = int (length (skb_data (packets s p)));
          siglen = (if siglen > len then len else siglen);
          pull = upd_skb p (\<lambda>k. k\<lparr>skb_data := drop (nat siglen) (skb_data k)\<rparr>)
      in if siglen = 0 then Some s
         else if \<not> fw_signals s then Some (pull s)
         else do {
           let s = upd_stats (\<lambda>t. t\<lparr>header_pulls := header_pulls t + 1\<rparr>) s;
           (left, status, s) \<leftarrow> hdrpull_loop env p (skb_data (packets s p)) siglen False s;
           let s = (if left \<noteq> 0 then upd_stats (\<lambda>t. t\<lparr>tlv_parse_failed := tlv_parse_failed t + 1\<rparr>) s else s);
           let s = (if status then brcmf_fws_schedule_deq s else s);
           let s = pull s;
           Some (if skb_data (packets s p) = []
                 then upd_stats (\<lambda>t. t\<lparr>header_only_pkt := header_only_pkt t + 1\<rparr>) s else s)
         })"

subsection \<open>Properties: every signal of a well-formed header is handled\<close>

text \<open>
  A list of signals as bytes, what handling them one after the other means, and when a signal
  is well formed: known length, not the filler, at least the length its type demands.
\<close>

fun encode_tlvs :: "(u8 \<times> u8 list) list \<Rightarrow> u8 list" where
  "encode_tlvs [] = []"
| "encode_tlvs ((ty, v) # ts) = ty # of_nat (length v) # v @ encode_tlvs ts"

fun run_tlvs ::
    "fws_env \<Rightarrow> pkt \<Rightarrow> (u8 \<times> u8 list) list \<Rightarrow> u8 list \<Rightarrow> bool \<Rightarrow> brcmf_fws_info \<Rightarrow> (bool \<times> brcmf_fws_info) option" where
  "run_tlvs env p [] rest st s = Some (st, s)"
| "run_tlvs env p ((ty, v) # ts) rest st s =
     (case fws_dispatch env p ty (v @ encode_tlvs ts @ rest) (snd (brcmf_fws_get_tlv_len ty s)) of
        None \<Rightarrow> None
      | Some (sched, s) \<Rightarrow> run_tlvs env p ts rest (st \<or> sched) s)"

definition tlv_ok :: "u8 \<times> u8 list \<Rightarrow> bool" where
  "tlv_ok t \<longleftrightarrow> fst t \<noteq> BRCMF_FWS_TYPE_FILLER \<and> length (snd t) < 256 \<and>
     (case map_of tlv_deflist (fst t) of None \<Rightarrow> True | Some n \<Rightarrow> n \<le> int (length (snd t)))"

lemma hdrpull_loop_fillers:
  "hdrpull_loop env p (replicate k BRCMF_FWS_TYPE_FILLER @ rest) (int k) st s = Some (0, st, s)"
proof (induction k)
  case 0
  then show ?case by (simp add: hdrpull_loop.simps)
next
  case (Suc k)
  then show ?case
    by (subst hdrpull_loop.simps) simp
qed

lemma hdrpull_loop_tlvs:
  assumes "list_all tlv_ok ts"
  shows "hdrpull_loop env p (encode_tlvs ts @ replicate k BRCMF_FWS_TYPE_FILLER @ rest)
      (int (length (encode_tlvs ts) + k)) st s
    = map_option (\<lambda>(st', s'). (0, st', s'))
        (run_tlvs env p ts (replicate k BRCMF_FWS_TYPE_FILLER @ rest) st s)"
  using assms
proof (induction ts arbitrary: st s)
  case Nil
  then show ?case by (simp add: hdrpull_loop_fillers)
next
  case (Cons t ts)
  obtain ty v where t: "t = (ty, v)" by fastforce
  let ?rest = "replicate k BRCMF_FWS_TYPE_FILLER @ rest"
  have ok: "ty \<noteq> BRCMF_FWS_TYPE_FILLER" "length v < 256" "fst (brcmf_fws_get_tlv_len ty s) \<le> int (length v)"
    using Cons.prems by (auto simp: t tlv_ok_def brcmf_fws_get_tlv_len_def split: option.splits)
  have len: "uint (of_nat (length v) :: u8) = int (length v)" "unat (of_nat (length v) :: u8) = length v"
    using ok(2) by (simp_all add: uint_nat unsigned_of_nat take_bit_nat_eq_self)
  obtain m s1 where ms: "brcmf_fws_get_tlv_len ty s = (m, s1)" by fastforce
  have IH: "hdrpull_loop env p (encode_tlvs ts @ ?rest) (int (length (encode_tlvs ts) + k)) st' s'
    = map_option (\<lambda>(st', s'). (0, st', s')) (run_tlvs env p ts ?rest st' s')" for st' s'
    using Cons by simp
  have drop: "drop (length v + 2) (encode_tlvs (t # ts) @ ?rest) = encode_tlvs ts @ ?rest"
    by (simp add: t)
  show ?case
    unfolding hdrpull_loop.simps [of env p "encode_tlvs (t # ts) @ ?rest"]
    using ok len ms IH by (simp add: t split: option.split prod.split)
qed

text \<open>
  C37: On a packet whose front consists of well-formed signals and fillers, the signal parser
  handles every signal, in order and once, with the value the firmware put there, counts no
  parse failure, removes exactly the signals from the packet and leaves the data behind them.
\<close>
theorem hdrpull_handles_each_signal:
  assumes "skb_data (packets s p) = encode_tlvs ts @ replicate k BRCMF_FWS_TYPE_FILLER @ payload"
    "list_all tlv_ok ts" "fw_signals s" "0 < length (encode_tlvs ts) + k"
    "s1 = upd_stats (\<lambda>t. t\<lparr>header_pulls := header_pulls t + 1\<rparr>) s"
    "run_tlvs env p ts (replicate k BRCMF_FWS_TYPE_FILLER @ payload) False s1 = Some (st, s2)"
    "skb_data (packets s2 p) = skb_data (packets s p)"
  shows "\<exists>s'. brcmf_fws_hdrpull env (int (length (encode_tlvs ts) + k)) p s = Some s' \<and>
    skb_data (packets s' p) = payload \<and>
    tlv_parse_failed (stats s') = tlv_parse_failed (stats s2) \<and> hanger s' = hanger s2 \<and> desc s' = desc s2 \<and>
    (st \<and> (fifo_credit_map s2 AND fifo_delay_map s2 \<noteq> 0) \<longrightarrow> deq_work s')"
proof -
  let ?n = "length (encode_tlvs ts) + k"
  have nz: "int (length (encode_tlvs ts)) + int k \<noteq> 0" using assms(4) by linarith
  have clamp: "\<not> int ?n > int (length (skb_data (packets s p)))" using assms(1) by simp
  have data: "skb_data (packets s1 p) = encode_tlvs ts @ replicate k BRCMF_FWS_TYPE_FILLER @ payload"
    using assms(1,5) by (simp add: upd_stats_def)
  have loop: "hdrpull_loop env p (skb_data (packets s1 p)) (int ?n) False s1 = Some (0, st, s2)"
    unfolding data using hdrpull_loop_tlvs [OF assms(2), of env p k payload False s1] assms(6) by simp
  define s3 where "s3 = (if st then brcmf_fws_schedule_deq s2 else s2)"
  have s3: "packets s3 = packets s2" "stats s3 = stats s2" "hanger s3 = hanger s2" "desc s3 = desc s2"
    "st \<and> (fifo_credit_map s2 AND fifo_delay_map s2 \<noteq> 0) \<longrightarrow> deq_work s3"
    by (simp_all add: s3_def brcmf_fws_schedule_deq_def)
  define s4 where "s4 = upd_skb p (\<lambda>k. k\<lparr>skb_data := drop (nat (int ?n)) (skb_data k)\<rparr>) s3"
  have s4: "skb_data (packets s4 p) = payload" "stats s4 = stats s2" "hanger s4 = hanger s2"
    "desc s4 = desc s2" "deq_work s4 = deq_work s3"
    using s3 assms(1,7) by (simp_all add: s4_def upd_skb_def)
  have "brcmf_fws_hdrpull env (int ?n) p s
    = Some (if skb_data (packets s4 p) = []
            then upd_stats (\<lambda>t. t\<lparr>header_only_pkt := header_only_pkt t + 1\<rparr>) s4 else s4)"
    using clamp assms(3) nz loop
    unfolding brcmf_fws_hdrpull_def assms(5) [symmetric] Let_def by (simp add: s3_def s4_def)
  with s3 s4 show ?thesis by (auto simp: upd_stats_def)
qed

definition sample_rx :: brcmf_fws_info where
  "sample_rx = upd_skb 5 (\<lambda>k. k\<lparr>skb_data := [8, 1, 0xc8, 255, 255, 0xaa, 0xbb]\<rparr>)
     (sample_fws\<lparr>fw_signals := True\<rparr>)"

theorem hdrpull_handles_each_signal_witness:
  "\<exists>s'. brcmf_fws_hdrpull quiet_env 5 5 sample_rx = Some s' \<and> skb_data (packets s' 5) = [0xaa, 0xbb]"
proof -
  let ?ts = "[(8, [0xc8])] :: (u8 \<times> u8 list) list"
  let ?s1 = "upd_stats (\<lambda>t. t\<lparr>header_pulls := header_pulls t + 1\<rparr>) sample_rx"
  have d: "skb_data (packets sample_rx 5) = encode_tlvs ?ts @ replicate 2 BRCMF_FWS_TYPE_FILLER @ [0xaa, 0xbb]"
    by (simp add: sample_rx_def upd_skb_def numeral_eq_Suc)
  have "list_all tlv_ok ?ts" "fw_signals sample_rx"
    by (simp_all add: tlv_ok_def tlv_deflist_def sample_rx_def upd_skb_def)
  moreover have "run_tlvs quiet_env 5 ?ts (replicate 2 BRCMF_FWS_TYPE_FILLER @ [0xaa, 0xbb]) False ?s1 = Some (False, ?s1)"
    by (simp add: fws_dispatch_def brcmf_fws_get_tlv_len_def tlv_deflist_def)
  moreover have "skb_data (packets ?s1 5) = skb_data (packets sample_rx 5)" by (simp add: upd_stats_def)
  ultimately show ?thesis
    using hdrpull_handles_each_signal [OF d, of ?s1 quiet_env False ?s1] by auto
qed

subsection \<open>Properties: adding and removing a station\<close>

lemma the_desc_upd:
  "i < length (desc s) \<Longrightarrow> the_desc (upd_desc i f s) j = (if j = i then f (the_desc s i) else the_desc s j)"
  by (simp add: upd_desc_def)

lemma lookup_Inr:
  "brcmf_fws_macdesc_lookup s (Some a) = Inr i \<Longrightarrow>
     i < BRCMF_FWS_MAC_DESC_TABLE_SIZE \<and> occupied (the_desc s i) \<and> ea (the_desc s i) = a"
  by (auto simp: brcmf_fws_macdesc_lookup_def dest: first_index_SomeD split: option.splits)

lemma lookup_Inl:
  "brcmf_fws_macdesc_lookup s (Some a) = Inl e \<longleftrightarrow>
     e = ENOENT \<and> (\<forall>i<BRCMF_FWS_MAC_DESC_TABLE_SIZE. \<not> (occupied (the_desc s i) \<and> ea (the_desc s i) = a))"
  by (auto simp: brcmf_fws_macdesc_lookup_def first_index_None split: option.splits dest: first_index_SomeD)

lemma macdesc_add_new:
  assumes "brcmf_fws_macdesc_lookup s (Some addr) = Inl err" "length addr = 6"
    "\<not> occupied (the_desc s (node_ix handle))"
    "data = handle # idx # addr @ rest"
  shows "brcmf_fws_macdesc_indicate BRCMF_FWS_TYPE_MACDESC_ADD data s =
    Some (upd_desc (node_ix handle) (\<lambda>d.
      let d = brcmf_fws_macdesc_init (Some addr) idx (d\<lparr>mac_handle := handle\<rparr>)
      in d\<lparr>psq := brcmu_pktq_init (psq d) BRCMF_FWS_PSQ_PREC_COUNT (fws_psq_len s)\<rparr>) s)"
  using assms by (simp add: brcmf_fws_macdesc_indicate_def Let_def)

text \<open>
  When the firmware announces a station with a new address at a free handle, the
  station's descriptor is found under its address, open, for all traffic, with an empty and
  well-formed queue; no other descriptor changes.
\<close>
theorem macdesc_add_then_lookup:
  assumes "length (desc s) = NUM_DESC" "brcmf_fws_macdesc_lookup s (Some addr) = Inl err" "length addr = 6"
    "\<not> occupied (the_desc s (node_ix handle))" "length (pq_q (psq (the_desc s (node_ix handle)))) = PKTQ_MAX_PREC"
    "\<forall>i. BRCMF_FWS_PSQ_PREC_COUNT \<le> i \<and> i < PKTQ_MAX_PREC \<longrightarrow> skbs (psq (the_desc s (node_ix handle))) i = []"
    "data = handle # idx # addr @ rest"
  shows "\<exists>s'. brcmf_fws_macdesc_indicate BRCMF_FWS_TYPE_MACDESC_ADD data s = Some s' \<and>
    brcmf_fws_macdesc_lookup s' (Some addr) = Inr (node_ix handle) \<and>
    mac_state (the_desc s' (node_ix handle)) = BRCMF_FWS_STATE_OPEN \<and>
    ac_bitmap (the_desc s' (node_ix handle)) = 0xff \<and>
    pktq_wf (psq (the_desc s' (node_ix handle))) \<and> pktq_empty (psq (the_desc s' (node_ix handle))) \<and>
    (\<forall>j. j \<noteq> node_ix handle \<longrightarrow> the_desc s' j = the_desc s j)"
proof -
  let ?e = "node_ix handle"
  let ?f = "\<lambda>d. let d = brcmf_fws_macdesc_init (Some addr) idx (d\<lparr>mac_handle := handle\<rparr>)
      in d\<lparr>psq := brcmu_pktq_init (psq d) BRCMF_FWS_PSQ_PREC_COUNT (fws_psq_len s)\<rparr>"
  let ?s = "upd_desc ?e ?f s"
  have e: "?e < length (desc s)" using assms(1) less_trans [OF node_ix_less] by simp
  note d = the_desc_upd [OF e, of ?f]
  have new: "occupied (the_desc ?s ?e)" "ea (the_desc ?s ?e) = addr"
    "mac_state (the_desc ?s ?e) = BRCMF_FWS_STATE_OPEN" "ac_bitmap (the_desc ?s ?e) = 0xff"
    "psq (the_desc ?s ?e) = brcmu_pktq_init (psq (the_desc s ?e)) BRCMF_FWS_PSQ_PREC_COUNT (fws_psq_len s)"
    by (simp_all add: the_desc_upd [OF e] brcmf_fws_macdesc_init_def Let_def)
  have "brcmf_fws_macdesc_lookup ?s (Some addr) = Inr ?e"
  proof (cases "brcmf_fws_macdesc_lookup ?s (Some addr)")
    case (Inl x)
    with new show ?thesis by (auto simp: lookup_Inl)
  next
    case (Inr i)
    note l = lookup_Inr [OF Inr]
    have "i = ?e"
    proof (rule ccontr)
      assume "i \<noteq> ?e"
      with l d have "occupied (the_desc s i) \<and> ea (the_desc s i) = addr" by simp
      with l assms(2) show False by (auto simp: lookup_Inl)
    qed
    with Inr show ?thesis by simp
  qed
  moreover have "pktq_wf (psq (the_desc ?s ?e))"
    unfolding new(5) using assms(5,6) by (intro pktq_init_wf) auto
  moreover have "pktq_empty (psq (the_desc ?s ?e))"
    unfolding new(5) by (simp add: pktq_empty_def brcmu_pktq_init_def)
  ultimately show ?thesis
    using new d macdesc_add_new [OF assms(2-4,7)] by auto
qed

definition sample_add_data :: "u8 list" where
  "sample_add_data = [7, 0, 2, 0, 0, 0, 0, 9]"

theorem macdesc_add_then_lookup_witness:
  "\<exists>s'. brcmf_fws_macdesc_indicate BRCMF_FWS_TYPE_MACDESC_ADD sample_add_data sample_fws = Some s' \<and>
     brcmf_fws_macdesc_lookup s' (Some [2, 0, 0, 0, 0, 9]) = Inr 7"
proof -
  have ix: "node_ix 7 = 7" by (simp add: node_ix_def)
  have desc: "the_desc sample_fws j = zero_desc" if "j \<noteq> 3" "j < 49" for j
    using that by (simp add: sample_fws_def zero_fws_def upd_desc_def)
  have ea: "ea (the_desc sample_fws j) = [0, 0, 0, 0, 0, 0]" if "j < 32" for j
    using that desc [of j] by (cases "j = 3")
      (simp_all add: sample_fws_def zero_fws_def upd_desc_def zero_desc_def numeral_eq_Suc)
  have "length (desc sample_fws) = NUM_DESC" by (simp add: sample_fws_def zero_fws_def upd_desc_def)
  moreover have "brcmf_fws_macdesc_lookup sample_fws (Some [2, 0, 0, 0, 0, 9]) = Inl ENOENT"
    using ea by (auto simp: lookup_Inl)
  moreover have "the_desc sample_fws (node_ix 7) = zero_desc" using desc [of 7] ix by simp
  ultimately show ?thesis
    using macdesc_add_then_lookup [of sample_fws "[2, 0, 0, 0, 0, 9]" ENOENT 7 sample_add_data 0 "[]"] ix
    by (auto simp: zero_desc_def zero_pktq_def sample_add_data_def)
qed

subsection \<open>Properties: where the signals are not checked\<close>

text \<open>
  A station moved to a handle that was never used before cannot be sent to: the move
  copies the descriptor up to its queue, and the queue of the new descriptor, never
  initialised, has room for nothing. Every packet for it is refused.
\<close>
theorem macdesc_relocate_queue_unusable:
  assumes "length (desc s) = NUM_DESC" "brcmf_fws_macdesc_lookup s (Some addr) = Inr x" "x \<noteq> node_ix handle"
    "psq (the_desc s (node_ix handle)) = zero_pktq" "length addr = 6" "data = handle # idx # addr @ rest"
    "brcmf_fws_macdesc_indicate BRCMF_FWS_TYPE_MACDESC_ADD data s = Some s'"
    "skb_mac (packets s' p) = Some (node_ix handle)"
  shows "occupied (the_desc s' (node_ix handle)) \<and> ea (the_desc s' (node_ix handle)) = addr \<and>
    (\<exists>s''. brcmf_fws_enq env BRCMF_FWS_SKBSTATE_DELAYED fifo p s' = Some (Inl ENFILE, s''))"
proof -
  let ?e = "node_ix handle"
  let ?f = "\<lambda>d. (copy_desc_head (the_desc s x) d)\<lparr>mac_handle := handle\<rparr>"
  have l: "x < 32" "occupied (the_desc s x)" "ea (the_desc s x) = addr"
    using lookup_Inr [OF assms(2)] by simp_all
  have len: "?e < length (desc s)" "x < length (desc (upd_desc ?e ?f s))"
    using assms(1) l(1) less_trans [OF node_ix_less] by (simp_all add: upd_desc_def)
  have s': "s' = upd_desc x brcmf_fws_macdesc_deinit (upd_desc ?e ?f s)"
    using assms(2,3,5,6,7) by (simp add: brcmf_fws_macdesc_indicate_def Let_def)
  have e: "the_desc s' ?e = ?f (the_desc s ?e)"
    using assms(3) len(1) by (simp add: s' upd_desc_def)
  have "psq (the_desc s' ?e) = zero_pktq" using assms(4) by (simp add: e copy_desc_head_def)
  then have "brcmu_pktq_penq (psq (the_desc s' ?e)) (2 * fifo) p = (None, zero_pktq)"
    by (simp add: brcmu_pktq_penq_def pktq_full_def zero_pktq_def)
  with assms(8) l show ?thesis
    by (simp add: brcmf_fws_enq_def e copy_desc_head_def)
qed

definition sample_move :: brcmf_fws_info where
  "sample_move = upd_skb 4 (\<lambda>k. k\<lparr>skb_mac := Some 7\<rparr>)
     (upd_desc 3 (\<lambda>d. d\<lparr>ea := [2, 0, 0, 0, 0, 9]\<rparr>) sample_fws)"

theorem macdesc_relocate_queue_unusable_witness:
  "\<exists>s' s''. brcmf_fws_macdesc_indicate BRCMF_FWS_TYPE_MACDESC_ADD sample_add_data sample_move = Some s' \<and>
     occupied (the_desc s' 7) \<and>
     brcmf_fws_enq quiet_env BRCMF_FWS_SKBSTATE_DELAYED 1 4 s' = Some (Inl ENFILE, s'')"
proof -
  let ?a = "[2, 0, 0, 0, 0, 9] :: u8 list"
  have ix: "node_ix 7 = 7" by (simp add: node_ix_def)
  have desc: "the_desc sample_move j = zero_desc" if "j \<noteq> 3" "j < 49" for j
    using that by (simp add: sample_move_def sample_fws_def zero_fws_def upd_desc_def upd_skb_def)
  have d3: "occupied (the_desc sample_move 3)" "ea (the_desc sample_move 3) = ?a"
    by (simp_all add: sample_move_def sample_fws_def zero_fws_def upd_desc_def upd_skb_def)
  have len: "length (desc sample_move) = NUM_DESC"
    by (simp add: sample_move_def sample_fws_def zero_fws_def upd_desc_def upd_skb_def)
  have look: "brcmf_fws_macdesc_lookup sample_move (Some ?a) = Inr 3"
  proof (cases "brcmf_fws_macdesc_lookup sample_move (Some ?a)")
    case (Inl e)
    then have "\<not> (occupied (the_desc sample_move 3) \<and> ea (the_desc sample_move 3) = ?a)"
      unfolding lookup_Inl by (elim conjE) (erule allE [of _ 3], simp)
    with d3 show ?thesis by simp
  next
    case (Inr i)
    from lookup_Inr [OF this] desc [of i] have "i = 3" by (cases "i = 3") (auto simp: zero_desc_def)
    with Inr show ?thesis by simp
  qed
  define s' where "s' = the (brcmf_fws_macdesc_indicate BRCMF_FWS_TYPE_MACDESC_ADD sample_add_data sample_move)"
  have s': "brcmf_fws_macdesc_indicate BRCMF_FWS_TYPE_MACDESC_ADD sample_add_data sample_move = Some s'"
    "packets s' = packets sample_move"
    using look by (simp_all add: s'_def brcmf_fws_macdesc_indicate_def sample_add_data_def Let_def ix upd_desc_def)
  have "skb_mac (packets s' 4) = Some (node_ix 7)"
    by (simp add: s'(2) ix sample_move_def upd_skb_def)
  moreover have "psq (the_desc sample_move (node_ix 7)) = zero_pktq"
    using desc [of 7] by (simp add: ix zero_desc_def)
  ultimately show ?thesis
    using macdesc_relocate_queue_unusable [OF len look _ _ _ _ s'(1), of 7 0 "[]" 4 quiet_env 1] s' ix
    by (auto simp: sample_add_data_def)
qed

text \<open>
  A request for credits is accepted with the two bytes its type demands, but its handler
  reads a third one: when the signal ends the packet, the read is outside the packet.
\<close>
theorem request_credit_reads_past_signal:
  assumes "skb_data (packets s p) = [BRCMF_FWS_TYPE_MAC_REQUEST_CREDIT, 2, cnt, handle]" "fw_signals s"
    "occupied (the_desc s (node_ix handle))"
  shows "tlv_ok (BRCMF_FWS_TYPE_MAC_REQUEST_CREDIT, [cnt, handle]) \<and> brcmf_fws_hdrpull env 4 p s = None"
proof -
  let ?s1 = "upd_stats (\<lambda>t. t\<lparr>header_pulls := header_pulls t + 1\<rparr>) s"
  have ok: "tlv_ok (BRCMF_FWS_TYPE_MAC_REQUEST_CREDIT, [cnt, handle])"
    by (simp add: tlv_ok_def tlv_deflist_def)
  have disp: "fws_dispatch env p BRCMF_FWS_TYPE_MAC_REQUEST_CREDIT [cnt, handle] ?s1 = None"
    using assms(3) by (simp add: fws_dispatch_def brcmf_fws_request_indicate_def upd_stats_def Let_def)
  have "run_tlvs env p [(BRCMF_FWS_TYPE_MAC_REQUEST_CREDIT, [cnt, handle])] [] False ?s1 = None"
    using disp by (simp add: brcmf_fws_get_tlv_len_def tlv_deflist_def)
  with hdrpull_loop_tlvs [of "[(BRCMF_FWS_TYPE_MAC_REQUEST_CREDIT, [cnt, handle])]" env p 0 "[]" False ?s1] ok
  have "hdrpull_loop env p [BRCMF_FWS_TYPE_MAC_REQUEST_CREDIT, 2, cnt, handle] 4 False ?s1 = None"
    by simp
  moreover have "packets ?s1 = packets s" by (simp add: upd_stats_def)
  ultimately show ?thesis
    using ok assms(1,2) by (simp add: brcmf_fws_hdrpull_def Let_def)
qed

theorem request_credit_reads_past_signal_witness:
  "\<exists>s. brcmf_fws_hdrpull quiet_env 4 5 s = None \<and> occupied (the_desc s 3)"
proof -
  let ?s = "upd_skb 5 (\<lambda>k. k\<lparr>skb_data := [3, 2, 1, 3]\<rparr>) (sample_fws\<lparr>fw_signals := True\<rparr>)"
  have h: "skb_data (packets ?s 5) = [BRCMF_FWS_TYPE_MAC_REQUEST_CREDIT, 2, 1, 3]" "fw_signals ?s"
    "occupied (the_desc ?s (node_ix 3))"
    by (simp_all add: upd_skb_def node_ix_def sample_fws_def zero_fws_def upd_desc_def)
  from request_credit_reads_past_signal [OF h, of quiet_env] h(3) show ?thesis
    by (intro exI [of _ ?s]) (simp add: node_ix_def)
qed

lemma deq_scan_undefined:
  assumes "occupied (the_desc s ((pos + k) mod NUM_DESC))"
    "brcmf_fws_macdesc_closed s ((pos + k) mod NUM_DESC) fifo = None" "0 < n"
  shows "deq_scan env fifo pos k n s = None"
  using assms by (cases n) (simp_all add: Let_def)

text \<open>
  The interface number in the announcement of a station is not checked: for a number
  outside the table of interfaces, the next dequeue that reaches the station's descriptor reads
  outside that table.
\<close>
theorem macdesc_add_interface_unchecked:
  assumes "length (desc s) = NUM_DESC" "brcmf_fws_macdesc_lookup s (Some addr) = Inl err" "length addr = 6"
    "\<not> occupied (the_desc s (node_ix handle))" "handle \<noteq> 0" "unat idx \<ge> BRCMF_MAX_IFS"
    "data = handle # idx # addr @ rest"
    "brcmf_fws_macdesc_indicate BRCMF_FWS_TYPE_MACDESC_ADD data s = Some s'"
    "deq_node_pos s ! fifo = node_ix handle"
  shows "brcmf_fws_macdesc_closed s' (node_ix handle) fifo = None \<and> brcmf_fws_deq env fifo s' = None"
proof -
  let ?e = "node_ix handle"
  have e: "?e < length (desc s)" using assms(1) less_trans [OF node_ix_less] by simp
  note s' = macdesc_add_new [OF assms(2-4,7)]
  have d: "occupied (the_desc s' ?e)" "mac_handle (the_desc s' ?e) = handle" "interface_id (the_desc s' ?e) = idx"
    "deq_node_pos s' = deq_node_pos s"
    using s' assms(8) by (auto simp: the_desc_upd [OF e] brcmf_fws_macdesc_init_def Let_def)
      (auto simp: upd_desc_def)
  have closed: "brcmf_fws_macdesc_closed s' ?e fifo = None"
    using d assms(5,6) by (simp add: brcmf_fws_macdesc_closed_def Let_def)
  have m: "node_ix handle mod NUM_DESC = node_ix handle"
    using less_trans [OF node_ix_less, of NUM_DESC] by simp
  have "deq_scan env fifo ?e 0 NUM_DESC s' = None"
    using closed d m by (intro deq_scan_undefined) simp_all
  then show ?thesis
    using closed d assms(9) by (simp add: brcmf_fws_deq_def)
qed

theorem macdesc_add_interface_unchecked_witness:
  "\<exists>s'. brcmf_fws_macdesc_indicate BRCMF_FWS_TYPE_MACDESC_ADD [7, 200, 2, 0, 0, 0, 0, 9]
       (sample_fws\<lparr>deq_node_pos := replicate 6 7\<rparr>) = Some s' \<and> brcmf_fws_deq quiet_env 1 s' = None"
proof -
  let ?s = "sample_fws\<lparr>deq_node_pos := replicate 6 7\<rparr>"
  let ?a = "[2, 0, 0, 0, 0, 9] :: u8 list"
  have ix: "node_ix 7 = 7" by (simp add: node_ix_def)
  have desc: "the_desc ?s j = zero_desc" if "j \<noteq> 3" "j < 49" for j
    using that by (simp add: sample_fws_def zero_fws_def upd_desc_def)
  have ea: "ea (the_desc ?s j) = [0, 0, 0, 0, 0, 0]" if "j < 32" for j
    using that desc [of j] by (cases "j = 3")
      (simp_all add: sample_fws_def zero_fws_def upd_desc_def zero_desc_def numeral_eq_Suc)
  have len: "length (desc ?s) = NUM_DESC" by (simp add: sample_fws_def zero_fws_def upd_desc_def)
  have look: "brcmf_fws_macdesc_lookup ?s (Some ?a) = Inl ENOENT"
    using ea by (auto simp: lookup_Inl)
  have free: "\<not> occupied (the_desc ?s (node_ix 7))" using desc [of 7] ix by (simp add: zero_desc_def)
  have data: "[7, 200, 2, 0, 0, 0, 0, 9] = 7 # 200 # ?a @ []" by simp
  note add = macdesc_add_new [OF look _ free data]
  then obtain s' where s': "brcmf_fws_macdesc_indicate BRCMF_FWS_TYPE_MACDESC_ADD [7, 200, 2, 0, 0, 0, 0, 9] ?s = Some s'"
    by simp
  have "deq_node_pos ?s ! 1 = node_ix 7" by (simp add: ix)
  with macdesc_add_interface_unchecked [OF len look _ free _ _ data s', of 1 quiet_env] s' show ?thesis
    by auto
qed

end
