(* ===== verification/Rx_Reorder.thy ===== *)
theory Rx_Reorder
  imports Ring_Index "HOL-Library.Multiset" "HOL-Library.Monad_Syntax"
begin

section \<open>Reordering of received packets (brcmfmac/fwsignal.c)\<close>

text \<open>
  With aggregation, packets can arrive out of order. The firmware tells for each packet its
  place in the window of its flow and the place expected next; the driver holds packets in a
  ring of slots and hands them to the network stack in order. The slots of a flow are
  allocated once, for the window size the firmware announces first.

  The theory shows that collecting the held packets ends and follows the ring order, that no
  packet is lost or delivered twice as long as the indices lie in the window and no slot is
  overwritten, and what happens when they do not: the source does not check them.
\<close>

type_synonym rx_pkt = nat

record brcmf_ampdu_rx_reorder =
  rr_cur_idx :: u8
  rr_exp_idx :: u8
  rr_max_idx :: u8
  pend_pkts :: u8
  pktslots :: "rx_pkt option list"

record rx_flows =
  reorder_flows :: "u8 \<Rightarrow> brcmf_ampdu_rx_reorder option"
  delivered :: "rx_pkt list"
  dropped :: "rx_pkt list"

subsection \<open>Operations\<close>

text \<open>
  The loop that collects the packets from \<open>start\<close> on to \<open>e\<close>. The result is undefined when it
  reads outside the slots or does not end.
\<close>

partial_function (option) collect_loop ::
    "brcmf_ampdu_rx_reorder \<Rightarrow> u8 \<Rightarrow> u8 \<Rightarrow> rx_pkt list \<Rightarrow> (rx_pkt list \<times> brcmf_ampdu_rx_reorder) option" where
  "collect_loop rfi start e acc =
     (if unat start \<ge> length (pktslots rfi) then None
      else
        let slot = pktslots rfi ! unat start;
            acc = (case slot of None \<Rightarrow> acc | Some p \<Rightarrow> acc @ [p]);
            rfi = rfi\<lparr>pktslots := (pktslots rfi)[unat start := None]\<rparr>;
            start = (if start + 1 > rr_max_idx rfi then 0 else start + 1)
        in if start = e then Some (acc, rfi) else collect_loop rfi start e acc)"

definition brcmf_rxreorder_get_skb_list ::
    "brcmf_ampdu_rx_reorder \<Rightarrow> u8 \<Rightarrow> u8 \<Rightarrow> (rx_pkt list \<times> brcmf_ampdu_rx_reorder) option" where
  "brcmf_rxreorder_get_skb_list rfi start e =
     (if pend_pkts rfi = 0 then Some ([], rfi)
      else do {
        (skb_list, rfi) \<leftarrow> collect_loop rfi start e [];
        Some (skb_list, rfi\<lparr>pend_pkts := pend_pkts rfi - of_nat (length skb_list)\<rparr>)
      })"

text \<open>The write to a slot, undefined outside the slots.\<close>

definition store_slot :: "u8 \<Rightarrow> rx_pkt \<Rightarrow> brcmf_ampdu_rx_reorder \<Rightarrow> brcmf_ampdu_rx_reorder option" where
  "store_slot i p rfi =
     (if unat i < length (pktslots rfi)
      then Some (rfi\<lparr>pktslots := (pktslots rfi)[unat i := Some p], pend_pkts := pend_pkts rfi + 1\<rparr>)
      else None)"

abbreviation set_flow :: "u8 \<Rightarrow> brcmf_ampdu_rx_reorder option \<Rightarrow> rx_flows \<Rightarrow> rx_flows" where
  "set_flow f r st \<equiv> st\<lparr>reorder_flows := (reorder_flows st)(f := r)\<rparr>"

abbreviation deliver :: "rx_pkt list \<Rightarrow> rx_flows \<Rightarrow> rx_flows" where
  "deliver ps st \<equiv> st\<lparr>delivered := delivered st @ ps\<rparr>"

text \<open>
  The flow of a packet whose slot index is valid: the packets to deliver and those freed.
\<close>

definition rxreorder_valid ::
    "u8 \<Rightarrow> u8 \<Rightarrow> u8 \<Rightarrow> rx_pkt \<Rightarrow> brcmf_ampdu_rx_reorder \<Rightarrow> (rx_pkt list \<times> rx_pkt list \<times> brcmf_ampdu_rx_reorder) option" where
  "rxreorder_valid flags cur_idx exp_idx pkt rfi =
     (if exp_idx = rr_exp_idx rfi \<and> cur_idx \<noteq> rr_exp_idx rfi
      then do {
        old \<leftarrow> (if unat cur_idx < length (pktslots rfi) then Some (pktslots rfi ! unat cur_idx) else None);
        rfi \<leftarrow> store_slot cur_idx pkt rfi;
        Some ([], case old of None \<Rightarrow> [] | Some p \<Rightarrow> [p], rfi\<lparr>rr_cur_idx := cur_idx\<rparr>)
      }
      else if rr_exp_idx rfi = cur_idx
      then do {
        old \<leftarrow> (if unat cur_idx < length (pktslots rfi) then Some (pktslots rfi ! unat cur_idx) else None);
        rfi \<leftarrow> store_slot cur_idx pkt rfi;
        (ps, rfi) \<leftarrow> brcmf_rxreorder_get_skb_list (rfi\<lparr>rr_cur_idx := cur_idx, rr_exp_idx := exp_idx\<rparr>) cur_idx exp_idx;
        Some (ps, case old of None \<Rightarrow> [] | Some p \<Rightarrow> [p], rfi)
      }
      else do {
        let end_idx = (if flags AND 2 \<noteq> 0 then rr_exp_idx rfi else exp_idx);
        (ps, rfi) \<leftarrow> brcmf_rxreorder_get_skb_list rfi (rr_exp_idx rfi) end_idx;
        if unat exp_idx = (unat cur_idx + 1) mod (unat (rr_max_idx rfi) + 1)
        then Some (ps @ [pkt], [], rfi\<lparr>rr_exp_idx := exp_idx, rr_cur_idx := cur_idx\<rparr>)
        else do {
          rfi \<leftarrow> store_slot cur_idx pkt rfi;
          Some (ps, [], rfi\<lparr>rr_exp_idx := exp_idx, rr_cur_idx := cur_idx\<rparr>)
        }
      })"

text \<open>
  What happens to the flow of a packet, by the flags \<open>FLUSH_ALL\<close> 2, \<open>CURIDX_VALID\<close> 4 and
  \<open>NEW_HOLE\<close> 16.
\<close>

definition rxreorder_update ::
    "u8 \<Rightarrow> u8 \<Rightarrow> u8 \<Rightarrow> u8 \<Rightarrow> rx_pkt \<Rightarrow> brcmf_ampdu_rx_reorder \<Rightarrow> (rx_pkt list \<times> rx_pkt list \<times> brcmf_ampdu_rx_reorder) option" where
  "rxreorder_update flags max_idx cur_idx exp_idx pkt rfi =
     (if flags AND 16 \<noteq> 0
      then do {
        (ps, rfi) \<leftarrow> brcmf_rxreorder_get_skb_list rfi (rr_exp_idx rfi) (rr_exp_idx rfi);
        rfi \<leftarrow> store_slot cur_idx pkt
          (rfi\<lparr>rr_cur_idx := cur_idx, rr_exp_idx := exp_idx, rr_max_idx := max_idx\<rparr>);
        Some (ps, [], rfi)
      }
      else if flags AND 4 \<noteq> 0 then rxreorder_valid flags cur_idx exp_idx pkt rfi
      else do {
        let end_idx = (if flags AND 2 \<noteq> 0 then rr_exp_idx rfi else exp_idx);
        (ps, rfi) \<leftarrow> brcmf_rxreorder_get_skb_list rfi (rr_exp_idx rfi) end_idx;
        Some (ps @ [pkt], [], rfi\<lparr>rr_exp_idx := exp_idx\<rparr>)
      })"

text \<open>
  The bytes of the reordering information are those of the signal; \<open>alloc\<close> tells whether
  memory for a new flow is available. The flag \<open>DEL_FLOW\<close> is 1.
\<close>

definition brcmf_fws_rxreorder :: "bool \<Rightarrow> u8 list \<Rightarrow> rx_pkt \<Rightarrow> rx_flows \<Rightarrow> rx_flows option" where
  "brcmf_fws_rxreorder alloc rd pkt st =
     (let flow_id = rd ! 0; max_idx = rd ! 2; flags = rd ! 4; cur_idx = rd ! 6; exp_idx = rd ! 8 in
      if flags = 0xFF then Some (deliver [pkt] st)
      else if flags AND 1 \<noteq> 0
      then (case reorder_flows st flow_id of
          None \<Rightarrow> Some (deliver [pkt] st)
        | Some rfi \<Rightarrow> do {
            (ps, rfi) \<leftarrow> brcmf_rxreorder_get_skb_list rfi (rr_exp_idx rfi) (rr_exp_idx rfi);
            Some (deliver (ps @ [pkt]) (set_flow flow_id None st))
          })
      else case (case reorder_flows st flow_id of
          Some rfi \<Rightarrow> Some rfi
        | None \<Rightarrow> if alloc
                  then Some \<lparr>rr_cur_idx = 0, rr_exp_idx = 0, rr_max_idx = max_idx, pend_pkts = 0,
                             pktslots = replicate (unat max_idx + 1) None\<rparr>
                  else None) of
        None \<Rightarrow> Some (deliver [pkt] st)
      | Some rfi \<Rightarrow> do {
          (ps, fr, rfi) \<leftarrow> rxreorder_update flags max_idx cur_idx exp_idx pkt rfi;
          Some (deliver ps (set_flow flow_id (Some rfi) (st\<lparr>dropped := dropped st @ fr\<rparr>)))
        })"

subsection \<open>Collecting follows the ring\<close>

text \<open>The packets in a list of slots, in the order of the list, and the slots emptied.\<close>

definition collect :: "rx_pkt option list \<Rightarrow> nat list \<Rightarrow> rx_pkt list" where
  "collect sl ixs = List.map_filter (\<lambda>i. sl ! i) ixs"

definition cleared :: "rx_pkt option list \<Rightarrow> nat list \<Rightarrow> rx_pkt option list" where
  "cleared sl ixs = fold (\<lambda>i s. s[i := None]) ixs sl"

definition packets :: "rx_pkt option list \<Rightarrow> rx_pkt list" where
  "packets sl = List.map_filter id sl"

definition held :: "brcmf_ampdu_rx_reorder \<Rightarrow> rx_pkt list" where
  "held rfi = packets (pktslots rfi)"

lemma collect_simps [simp]:
  "collect sl [] = []"
  "collect sl (i # ixs) = (case sl ! i of None \<Rightarrow> collect sl ixs | Some p \<Rightarrow> p # collect sl ixs)"
  by (simp_all add: collect_def map_filter_simps split: option.split)

lemma cleared_simps [simp]:
  "cleared sl [] = sl" "cleared sl (i # ixs) = cleared (sl[i := None]) ixs"
  "length (cleared sl ixs) = length sl"
proof -
  show "length (cleared sl ixs) = length sl"
    by (induction ixs arbitrary: sl) (simp_all add: cleared_def)
qed (simp_all add: cleared_def)

lemma collect_other: "i \<notin> set ixs \<Longrightarrow> collect (sl[i := v]) ixs = collect sl ixs"
  by (induction ixs) (simp_all split: option.split)

lemma slots_fresh:
  assumes "a < d" "n < d"
  shows "a \<notin> set (slots d (adv d a 1) n)"
proof
  assume "a \<in> set (slots d (adv d a 1) n)"
  then obtain k where "k < n" "adv d (adv d a 1) k = a" by (auto simp: slots_def)
  with assms show False by (auto simp: adv_def split: if_splits)
qed

text \<open>The slot index after \<open>start\<close>.\<close>

lemma unat_reorder_next:
  assumes "unat start \<le> unat max_idx"
  shows "unat (if start + 1 > max_idx then 0 else start + 1 :: u8) = adv (unat max_idx + 1) (unat start) 1"
proof (cases "start = -1")
  case True
  then have "max_idx = -1" using assms by (metis word_le_nat_alt word_order.extremum_unique)
  with True show ?thesis by (simp add: adv_def)
next
  case False
  then have "unat (start + 1) = unat start + 1" by (metis unatSuc add.commute Suc_eq_plus1 add_eq_0_iff)
  with assms show ?thesis by (auto simp: adv_def word_less_nat_alt)
qed

lemma collect_loop_spec:
  assumes "length (pktslots rfi) = d" "d = unat (rr_max_idx rfi) + 1" "unat start < d"
    and "0 < n" "n \<le> d" "adv d (unat start) n = unat e"
  shows "collect_loop rfi start e acc =
    Some (acc @ collect (pktslots rfi) (slots d (unat start) n),
          rfi\<lparr>pktslots := cleared (pktslots rfi) (slots d (unat start) n)\<rparr>)"
  using assms
proof (induction n arbitrary: rfi start acc)
  case (Suc n)
  define rfi' where "rfi' = rfi\<lparr>pktslots := (pktslots rfi)[unat start := None]\<rparr>"
  define acc' where "acc' = (case pktslots rfi ! unat start of None \<Rightarrow> acc | Some p \<Rightarrow> acc @ [p])"
  define next_ix where "next_ix = (if start + 1 > rr_max_idx rfi then 0 else start + 1)"
  have nxt: "unat next_ix = adv d (unat start) 1"
    using Suc.prems unfolding next_ix_def by (simp add: unat_reorder_next)
  have sl: "slots d (unat start) (Suc n) = unat start # slots d (unat next_ix) n"
    using Suc.prems by (simp add: slots_Cons nxt)
  have fresh: "unat start \<notin> set (slots d (unat next_ix) n)"
    using slots_fresh [of "unat start" d n] Suc.prems nxt by simp
  have unfold: "collect_loop rfi start e acc =
      (if next_ix = e then Some (acc', rfi') else collect_loop rfi' next_ix e acc')"
    using Suc.prems by (subst collect_loop.simps)
      (simp add: Let_def rfi'_def acc'_def next_ix_def)
  show ?case
  proof (cases "n = 0")
    case True
    with Suc.prems nxt have "next_ix = e" by (simp add: word_unat_eq_iff)
    moreover have "slots d (unat start) (Suc n) = [unat start]"
      unfolding sl using True by (simp add: slots_def)
    ultimately show ?thesis
      using unfold by (simp add: rfi'_def acc'_def split: option.split)
  next
    case False
    have "adv d (unat next_ix) n = unat e"
      using Suc.prems unfolding nxt by (auto simp: adv_def split: if_splits)
    moreover have "next_ix \<noteq> e"
    proof
      assume "next_ix = e"
      then have "adv d (unat start) 1 = adv d (unat start) (Suc n)" using nxt Suc.prems by simp
      with False Suc.prems show False by (auto simp: adv_def split: if_splits)
    qed
    moreover have "unat next_ix < d" using Suc.prems by (simp add: nxt adv_less)
    ultimately have "collect_loop rfi' next_ix e acc' =
        Some (acc' @ collect (pktslots rfi') (slots d (unat next_ix) n),
              rfi'\<lparr>pktslots := cleared (pktslots rfi') (slots d (unat next_ix) n)\<rparr>)"
      using Suc.prems False by (intro Suc.IH) (simp_all add: rfi'_def)
    with unfold \<open>next_ix \<noteq> e\<close> fresh show ?thesis
      by (simp add: sl rfi'_def acc'_def collect_other split: option.split)
  qed
qed simp

lemma unat_sub_of_nat:
  assumes "n + m = unat (x :: u8)"
  shows "unat (x - of_nat n) = m"
proof -
  have "n < 256" using assms unat_u8_lt [of x] by linarith
  then have "unat (of_nat n :: u8) = n" by (simp add: unat_of_nat)
  with assms show ?thesis by (simp add: unat_sub word_le_nat_alt)
qed

text \<open>
  A flow is well formed when its slots are those of its window, the expected place lies in
  it and the counter is the number of held packets. The counter has eight bits, so the window
  has at most 255 slots.
\<close>

definition rr_wf :: "brcmf_ampdu_rx_reorder \<Rightarrow> bool" where
  "rr_wf rfi \<longleftrightarrow> length (pktslots rfi) = unat (rr_max_idx rfi) + 1 \<and> unat (rr_max_idx rfi) < 255 \<and>
     unat (rr_exp_idx rfi) \<le> unat (rr_max_idx rfi) \<and> unat (pend_pkts rfi) = length (held rfi)"

text \<open>The slots passed from \<open>start\<close> on to \<open>e\<close>: the whole ring when they are equal.\<close>

definition window :: "brcmf_ampdu_rx_reorder \<Rightarrow> u8 \<Rightarrow> u8 \<Rightarrow> nat list" where
  "window rfi start e =
     (let d = unat (rr_max_idx rfi) + 1
      in slots d (unat start) (if start = e then d else dist d (unat start) (unat e)))"

lemma packets_simps [simp]:
  "packets [] = []" "packets (v # sl) = (case v of None \<Rightarrow> [] | Some p \<Rightarrow> [p]) @ packets sl"
  "packets (sl @ sl') = packets sl @ packets sl'"
  "packets (replicate n None) = []"
  by (simp_all add: packets_def map_filter_simps List.map_filter_def split: option.split)

lemma mset_held_upd:
  assumes "i < length sl"
  shows "mset (packets (sl[i := v])) + mset (case sl ! i of None \<Rightarrow> [] | Some p \<Rightarrow> [p])
    = mset (packets sl) + mset (case v of None \<Rightarrow> [] | Some p \<Rightarrow> [p])"
proof -
  have "sl = take i sl @ sl ! i # drop (Suc i) sl" using assms by (rule id_take_nth_drop)
  then have "packets sl = packets (take i sl) @ packets (sl ! i # drop (Suc i) sl)"
    by (metis packets_simps(3))
  then show ?thesis using assms by (simp add: upd_conv_take_nth_drop split: option.split)
qed

lemma mset_collect:
  assumes "distinct ixs" "\<forall>i\<in>set ixs. i < length sl"
  shows "mset (collect sl ixs) + mset (packets (cleared sl ixs)) = mset (packets sl)"
  using assms
proof (induction ixs arbitrary: sl)
  case (Cons i ixs)
  have "mset (collect (sl[i := None]) ixs) + mset (packets (cleared (sl[i := None]) ixs))
      = mset (packets (sl[i := None]))" using Cons.prems by (intro Cons.IH) auto
  moreover have "collect (sl[i := None]) ixs = collect sl ixs"
    using Cons.prems by (simp add: collect_other)
  moreover have "mset (packets (sl[i := None])) + mset (case sl ! i of None \<Rightarrow> [] | Some p \<Rightarrow> [p])
      = mset (packets sl)" using mset_held_upd [of i sl None] Cons.prems by simp
  ultimately show ?case by (cases "sl ! i") auto
qed simp

lemma cleared_none: "collect sl ixs = [] \<Longrightarrow> cleared sl ixs = sl"
proof (induction ixs)
  case (Cons i ixs)
  then have "sl ! i = None" "collect sl ixs = []" by (auto split: option.splits)
  then show ?case using Cons.IH list_update_id [of sl i] by simp
qed simp

lemma slots_distinct: "a < d \<Longrightarrow> n \<le> d \<Longrightarrow> distinct (slots d a n)"
  by (auto simp: slots_def distinct_map inj_on_def adv_inj)

lemma window_props:
  assumes "unat start \<le> unat (rr_max_idx rfi)" "unat e \<le> unat (rr_max_idx rfi)"
  shows "distinct (window rfi start e)" "\<forall>i\<in>set (window rfi start e). i \<le> unat (rr_max_idx rfi)"
proof -
  define d where "d = unat (rr_max_idx rfi) + 1"
  have le: "(if start = e then d else dist d (unat start) (unat e)) \<le> d"
    using dist_less [of "unat start" d "unat e"] assms by (simp add: d_def)
  have w: "window rfi start e = slots d (unat start) (if start = e then d else dist d (unat start) (unat e))"
    unfolding window_def Let_def d_def ..
  show "distinct (window rfi start e)"
    unfolding w using le assms by (intro slots_distinct) (auto simp: d_def)
  show "\<forall>i\<in>set (window rfi start e). i \<le> unat (rr_max_idx rfi)"
  proof
    fix i assume "i \<in> set (window rfi start e)"
    then obtain k where "k < (if start = e then d else dist d (unat start) (unat e))"
        "i = adv d (unat start) k"
      unfolding w slots_def by auto
    with le have "k < d" "i = adv d (unat start) k" by linarith+
    then show "i \<le> unat (rr_max_idx rfi)"
      using adv_less [of "unat start" d k] assms by (simp add: d_def)
  qed
qed

lemma get_skb_list_wf:
  assumes "rr_wf rfi" "unat start \<le> unat (rr_max_idx rfi)" "unat e \<le> unat (rr_max_idx rfi)"
  obtains rfi' where
    "brcmf_rxreorder_get_skb_list rfi start e = Some (collect (pktslots rfi) (window rfi start e), rfi')"
    "pktslots rfi' = cleared (pktslots rfi) (window rfi start e)"
    "rr_max_idx rfi' = rr_max_idx rfi" "rr_exp_idx rfi' = rr_exp_idx rfi" "rr_wf rfi'"
    "mset (collect (pktslots rfi) (window rfi start e)) + mset (held rfi') = mset (held rfi)"
proof (cases "pend_pkts rfi = 0")
  case True
  have eq: "mset (collect (pktslots rfi) (window rfi start e)) +
      mset (packets (cleared (pktslots rfi) (window rfi start e))) = mset (held rfi)"
    unfolding held_def using assms window_props [OF assms(2,3)]
    by (intro mset_collect) (auto simp: rr_wf_def)
  moreover have "held rfi = []" using True assms(1) by (simp add: rr_wf_def)
  ultimately have none: "collect (pktslots rfi) (window rfi start e) = []" by simp
  moreover have "cleared (pktslots rfi) (window rfi start e) = pktslots rfi"
    using none by (rule cleared_none)
  ultimately show ?thesis using True assms(1) by (intro that [of rfi])
    (simp_all add: brcmf_rxreorder_get_skb_list_def)
next
  case False
  define d where "d = unat (rr_max_idx rfi) + 1"
  define n where "n = (if start = e then d else dist d (unat start) (unat e))"
  define ps where "ps = collect (pktslots rfi) (window rfi start e)"
  define sl where "sl = cleared (pktslots rfi) (window rfi start e)"
  have w: "window rfi start e = slots d (unat start) n"
    unfolding window_def Let_def d_def n_def ..
  have n: "0 < n" "n \<le> d" "adv d (unat start) n = unat e"
    using assms(2,3) dist_less [of "unat start" d "unat e"] adv_dist [of "unat start" d "unat e"]
    by (auto simp: n_def d_def dist_def adv_def word_unat_eq_iff)
  have "collect_loop rfi start e [] = Some (ps, rfi\<lparr>pktslots := sl\<rparr>)"
    unfolding ps_def sl_def w using assms n by (subst collect_loop_spec) (auto simp: d_def rr_wf_def)
  then have run: "brcmf_rxreorder_get_skb_list rfi start e =
      Some (ps, rfi\<lparr>pktslots := sl, pend_pkts := pend_pkts rfi - of_nat (length ps)\<rparr>)"
    using False by (simp add: brcmf_rxreorder_get_skb_list_def)
  have eq: "mset ps + mset (packets sl) = mset (held rfi)"
    unfolding held_def ps_def sl_def using assms window_props [OF assms(2,3)]
    by (intro mset_collect) (auto simp: rr_wf_def)
  then have len: "length ps + length (packets sl) = unat (pend_pkts rfi)"
    using assms(1) by (metis rr_wf_def size_mset size_union)
  have "unat (pend_pkts rfi - of_nat (length ps)) = length (packets sl)"
    using len by (rule unat_sub_of_nat)
  then show ?thesis
    using run assms(1) eq
    by (intro that [of "rfi\<lparr>pktslots := sl, pend_pkts := pend_pkts rfi - of_nat (length ps)\<rparr>"])
      (simp_all add: ps_def sl_def rr_wf_def held_def)
qed

lemma length_packets: "length (packets sl) \<le> length sl"
  by (induction sl) (auto split: option.split)

lemma rr_wf_cur [simp]: "rr_wf (rfi\<lparr>rr_cur_idx := c\<rparr>) = rr_wf rfi"
  by (simp add: rr_wf_def held_def)

lemma rr_wf_exp: "rr_wf rfi \<Longrightarrow> unat e \<le> unat (rr_max_idx rfi) \<Longrightarrow> rr_wf (rfi\<lparr>rr_exp_idx := e\<rparr>)"
  by (simp add: rr_wf_def held_def)

lemma held_upd [simp]:
  "held (rfi\<lparr>rr_cur_idx := c\<rparr>) = held rfi" "held (rfi\<lparr>rr_exp_idx := e\<rparr>) = held rfi"
  "held (rfi\<lparr>rr_max_idx := m\<rparr>) = held rfi"
  by (simp_all add: held_def)

lemma store_slot_wf:
  assumes "rr_wf rfi" "unat i \<le> unat (rr_max_idx rfi)" "pktslots rfi ! unat i = None"
  obtains rfi' where "store_slot i p rfi = Some rfi'" "rr_wf rfi'"
    "mset (held rfi') = add_mset p (mset (held rfi))" "rr_max_idx rfi' = rr_max_idx rfi"
    "rr_exp_idx rfi' = rr_exp_idx rfi" "pktslots rfi' = (pktslots rfi)[unat i := Some p]"
proof -
  define sl where "sl = (pktslots rfi)[unat i := Some p]"
  have i: "unat i < length (pktslots rfi)" using assms by (simp add: rr_wf_def)
  have m: "mset (packets sl) = add_mset p (mset (held rfi))"
    using mset_held_upd [OF i, of "Some p"] assms(3) by (simp add: sl_def held_def)
  then have "length (packets sl) = Suc (unat (pend_pkts rfi))"
    using assms(1) by (metis rr_wf_def size_add_mset size_mset)
  moreover have "length (packets sl) < 256"
    using length_packets [of sl] assms(1) by (simp add: sl_def rr_wf_def)
  ultimately have "unat (pend_pkts rfi + 1) = length (packets sl)"
    by (simp add: unat_word_ariths)
  with assms i m show ?thesis
    by (intro that [of "rfi\<lparr>pktslots := sl, pend_pkts := pend_pkts rfi + 1\<rparr>"])
      (auto simp: store_slot_def sl_def rr_wf_def held_def)
qed

lemma cleared_None: "cleared sl ixs ! i = None" if "sl ! i = None" "i < length sl"
  using that
proof (induction ixs arbitrary: sl)
  case (Cons a ixs)
  have "sl[a := None] ! i = None" using Cons.prems by (cases "a = i") simp_all
  then show ?case using Cons by simp
qed simp

lemma rxreorder_valid_wf:
  assumes "rr_wf rfi" "unat cur_idx \<le> unat (rr_max_idx rfi)" "unat exp_idx \<le> unat (rr_max_idx rfi)"
    and "pktslots rfi ! unat cur_idx = None"
  obtains ps rfi' where "rxreorder_valid flags cur_idx exp_idx pkt rfi = Some (ps, [], rfi')" "rr_wf rfi'"
    "mset ps + mset (held rfi') = add_mset pkt (mset (held rfi))"
proof -
  have ix: "unat cur_idx < length (pktslots rfi)" "unat (rr_exp_idx rfi) \<le> unat (rr_max_idx rfi)"
    using assms(1,2) by (simp_all add: rr_wf_def)
  obtain r1 where r1: "store_slot cur_idx pkt rfi = Some r1" "rr_wf r1"
    "mset (held r1) = add_mset pkt (mset (held rfi))" "rr_max_idx r1 = rr_max_idx rfi"
    using assms store_slot_wf by metis
  consider "exp_idx = rr_exp_idx rfi \<and> cur_idx \<noteq> rr_exp_idx rfi" | "rr_exp_idx rfi = cur_idx"
    | "exp_idx \<noteq> rr_exp_idx rfi" "rr_exp_idx rfi \<noteq> cur_idx" by blast
  then show ?thesis
  proof cases
    case 1
    with r1 assms ix show ?thesis
      by (intro that [of "[]" "r1\<lparr>rr_cur_idx := cur_idx\<rparr>"]) (auto simp: rxreorder_valid_def)
  next
    case 2
    define r2 where "r2 = r1\<lparr>rr_cur_idx := cur_idx, rr_exp_idx := exp_idx\<rparr>"
    have "rr_wf r2" unfolding r2_def using r1 assms by (simp add: rr_wf_exp)
    then obtain r3 where "brcmf_rxreorder_get_skb_list r2 cur_idx exp_idx =
        Some (collect (pktslots r2) (window r2 cur_idx exp_idx), r3)" "rr_wf r3"
      "mset (collect (pktslots r2) (window r2 cur_idx exp_idx)) + mset (held r3) = mset (held r2)"
      using get_skb_list_wf [of r2 cur_idx exp_idx] assms r1 by (auto simp: r2_def)
    with 2 r1 assms ix show ?thesis
      by (intro that) (auto simp: rxreorder_valid_def r2_def)
  next
    case 3
    define end_idx where "end_idx = (if flags AND 2 \<noteq> 0 then rr_exp_idx rfi else exp_idx)"
    have "unat end_idx \<le> unat (rr_max_idx rfi)" using assms(3) ix by (simp add: end_idx_def)
    then obtain ps r2 where r2: "brcmf_rxreorder_get_skb_list rfi (rr_exp_idx rfi) end_idx = Some (ps, r2)"
      "rr_wf r2" "mset ps + mset (held r2) = mset (held rfi)" "rr_max_idx r2 = rr_max_idx rfi"
      "pktslots r2 ! unat cur_idx = None"
      using get_skb_list_wf [OF assms(1) ix(2)] cleared_None [OF assms(4) ix(1)] by metis
    obtain r3 where r3: "store_slot cur_idx pkt r2 = Some r3" "rr_wf r3"
      "mset (held r3) = add_mset pkt (mset (held r2))" "rr_max_idx r3 = rr_max_idx rfi"
      using r2 assms store_slot_wf [of r2 cur_idx] by metis
    show ?thesis
    proof (cases "unat exp_idx = (unat cur_idx + 1) mod (unat (rr_max_idx r2) + 1)")
      case True
      with 3 r2 assms show ?thesis
        by (intro that [of "ps @ [pkt]" "r2\<lparr>rr_exp_idx := exp_idx, rr_cur_idx := cur_idx\<rparr>"])
          (auto simp: rxreorder_valid_def end_idx_def [symmetric] rr_wf_exp)
    next
      case False
      with 3 r2 r3 assms show ?thesis
        by (intro that [of ps "r3\<lparr>rr_exp_idx := exp_idx, rr_cur_idx := cur_idx\<rparr>"])
          (auto simp: rxreorder_valid_def end_idx_def [symmetric] rr_wf_exp)
    qed
  qed
qed

subsection \<open>Properties\<close>

text \<open>
  The packets a flow holds, the states all of whose flows are well formed, and the reordering
  information whose indices lie in the window and name a free slot.
\<close>

definition flow_held :: "u8 \<Rightarrow> rx_flows \<Rightarrow> rx_pkt list" where
  "flow_held f st = (case reorder_flows st f of None \<Rightarrow> [] | Some rfi \<Rightarrow> held rfi)"

definition flows_wf :: "rx_flows \<Rightarrow> bool" where
  "flows_wf st \<longleftrightarrow> (\<forall>f. case reorder_flows st f of None \<Rightarrow> True | Some rfi \<Rightarrow> rr_wf rfi)"

definition rd_in_window :: "u8 list \<Rightarrow> rx_flows \<Rightarrow> bool" where
  "rd_in_window rd st \<longleftrightarrow> unat (rd ! 2) < 255 \<and> unat (rd ! 6) \<le> unat (rd ! 2) \<and> unat (rd ! 8) \<le> unat (rd ! 2) \<and>
     (case reorder_flows st (rd ! 0) of
        None \<Rightarrow> True
      | Some rfi \<Rightarrow> rr_max_idx rfi = rd ! 2 \<and> pktslots rfi ! unat (rd ! 6) = None)"

text \<open>
  Collecting the held packets of a well-formed flow from one place of the window on to
  another always ends. It returns the packets of the slots passed, in the order of the ring,
  empties exactly these slots, and keeps the count of the held packets exact.
\<close>

theorem rxreorder_list_in_ring_order:
  assumes "rr_wf rfi" "unat start \<le> unat (rr_max_idx rfi)" "unat e \<le> unat (rr_max_idx rfi)"
  shows "\<exists>rfi'. brcmf_rxreorder_get_skb_list rfi start e
      = Some (collect (pktslots rfi) (window rfi start e), rfi')
    \<and> pktslots rfi' = cleared (pktslots rfi) (window rfi start e) \<and> rr_wf rfi'
    \<and> mset (collect (pktslots rfi) (window rfi start e)) + mset (held rfi') = mset (held rfi)"
  using get_skb_list_wf [OF assms] by metis

definition sample_flow :: brcmf_ampdu_rx_reorder where
  "sample_flow = \<lparr>rr_cur_idx = 3, rr_exp_idx = 2, rr_max_idx = 3, pend_pkts = 2,
     pktslots = [Some 70, None, None, Some 73]\<rparr>"

theorem rxreorder_list_in_ring_order_witness:
  "\<exists>rfi'. brcmf_rxreorder_get_skb_list sample_flow 2 1 = Some ([73, 70], rfi')
    \<and> pktslots rfi' = [None, None, None, None] \<and> rr_wf rfi' \<and> {#73, 70#} + mset (held rfi') = mset (held sample_flow)"
proof -
  have "rr_wf sample_flow" "unat (2 :: u8) \<le> unat (rr_max_idx sample_flow)"
    "unat (1 :: u8) \<le> unat (rr_max_idx sample_flow)" by code_simp+
  moreover have "collect (pktslots sample_flow) (window sample_flow 2 1) = [73, 70]" by code_simp
  moreover have "cleared (pktslots sample_flow) (window sample_flow 2 1) = [None, None, None, None]"
    by code_simp
  ultimately show ?thesis using rxreorder_list_in_ring_order [of sample_flow 2 1]
    by (simp add: add_mset_commute)
qed

lemma flows_wf_set_flow:
  "flows_wf st \<Longrightarrow> rr_wf rfi \<Longrightarrow> flows_wf (set_flow f (Some rfi) st)"
  "flows_wf st \<Longrightarrow> flows_wf (set_flow f None st)"
  by (auto simp: flows_wf_def)

lemma flows_wf_upd [simp]:
  "flows_wf (st\<lparr>delivered := d\<rparr>) = flows_wf st" "flows_wf (st\<lparr>dropped := d\<rparr>) = flows_wf st"
  by (simp_all add: flows_wf_def)

lemma flow_held_upd [simp]:
  "flow_held f (st\<lparr>delivered := d\<rparr>) = flow_held f st" "flow_held f (st\<lparr>dropped := d\<rparr>) = flow_held f st"
  "flow_held f (set_flow f r st) = (case r of None \<Rightarrow> [] | Some rfi \<Rightarrow> held rfi)"
  by (simp_all add: flow_held_def)

lemma cleared_all_None: "i \<in> set ixs \<Longrightarrow> i < length sl \<Longrightarrow> cleared sl ixs ! i = None"
  by (induction ixs arbitrary: sl) (auto simp: cleared_None)

lemma packets_empty: "(\<And>i. i < length sl \<Longrightarrow> sl ! i = None) \<Longrightarrow> packets sl = []"
proof (induction sl)
  case (Cons v sl)
  have "v = None" using Cons.prems [of 0] by simp
  moreover have "packets sl = []" using Cons.prems [of "Suc _"] by (intro Cons.IH) simp
  ultimately show ?case by simp
qed simp

lemma packets_cleared_all:
  assumes "length sl = unat (rr_max_idx rfi) + 1" "unat e \<le> unat (rr_max_idx rfi)"
  shows "packets (cleared sl (window rfi e e)) = []"
proof (rule packets_empty)
  fix i assume "i < length (cleared sl (window rfi e e))"
  then have i: "i < unat (rr_max_idx rfi) + 1" using assms by simp
  define d where "d = unat (rr_max_idx rfi) + 1"
  have "i = adv d (unat e) (dist d (unat e) i)" "dist d (unat e) i < d"
    using i assms(2) by (auto simp: d_def adv_dist dist_less)
  then have "i \<in> set (slots d (unat e) d)"
    unfolding slots_def by (simp only: set_map set_upt) (rule image_eqI, auto)
  then have "i \<in> set (window rfi e e)" by (simp add: window_def Let_def d_def)
  then show "cleared sl (window rfi e e) ! i = None"
    using i assms by (intro cleared_all_None) auto
qed

lemma rr_wf_new:
  "unat m < 255 \<Longrightarrow> rr_wf \<lparr>rr_cur_idx = 0, rr_exp_idx = 0, rr_max_idx = m, pend_pkts = 0,
     pktslots = replicate (unat m + 1) None\<rparr>"
  by (simp add: rr_wf_def held_def del: replicate.simps)

lemma rxreorder_update_wf:
  assumes "rr_wf rfi" "unat cur_idx \<le> unat (rr_max_idx rfi)" "unat exp_idx \<le> unat (rr_max_idx rfi)"
    and "max_idx = rr_max_idx rfi" "pktslots rfi ! unat cur_idx = None"
  obtains ps rfi' where
    "rxreorder_update flags max_idx cur_idx exp_idx pkt rfi = Some (ps, [], rfi')" "rr_wf rfi'"
    "mset ps + mset (held rfi') = add_mset pkt (mset (held rfi))"
proof -
  have ix: "unat cur_idx < length (pktslots rfi)" "unat (rr_exp_idx rfi) \<le> unat (rr_max_idx rfi)"
    using assms(1,2) by (simp_all add: rr_wf_def)
  consider "flags AND 16 \<noteq> 0" | "flags AND 16 = 0" "flags AND 4 \<noteq> 0" | "flags AND 16 = 0" "flags AND 4 = 0"
    by blast
  then show ?thesis
  proof cases
    case 1
    obtain ps r1 where r1: "brcmf_rxreorder_get_skb_list rfi (rr_exp_idx rfi) (rr_exp_idx rfi) = Some (ps, r1)"
      "rr_wf r1" "mset ps + mset (held r1) = mset (held rfi)" "rr_max_idx r1 = rr_max_idx rfi"
      "pktslots r1 ! unat cur_idx = None"
      using get_skb_list_wf [OF assms(1) ix(2) ix(2)] cleared_None [OF assms(5) ix(1)] by metis
    define r2 where "r2 = r1\<lparr>rr_cur_idx := cur_idx, rr_exp_idx := exp_idx, rr_max_idx := max_idx\<rparr>"
    have r2: "rr_wf r2" "held r2 = held r1" "rr_max_idx r2 = max_idx" "pktslots r2 ! unat cur_idx = None"
      using r1 assms by (simp_all add: r2_def rr_wf_def held_def)
    obtain r3 where "store_slot cur_idx pkt r2 = Some r3" "rr_wf r3"
      "mset (held r3) = add_mset pkt (mset (held r2))"
      using store_slot_wf [of r2 cur_idx] r2 assms by metis
    with 1 r1 r2 show ?thesis
      by (intro that [of ps r3]) (auto simp: rxreorder_update_def r2_def)
  next
    case 2
    then show ?thesis using rxreorder_valid_wf [OF assms(1-3,5)] that
      by (auto simp: rxreorder_update_def)
  next
    case 3
    define end_idx where "end_idx = (if flags AND 2 \<noteq> 0 then rr_exp_idx rfi else exp_idx)"
    have "unat end_idx \<le> unat (rr_max_idx rfi)" using assms(3) ix by (simp add: end_idx_def)
    then obtain ps r1 where "brcmf_rxreorder_get_skb_list rfi (rr_exp_idx rfi) end_idx = Some (ps, r1)"
      "rr_wf r1" "mset ps + mset (held r1) = mset (held rfi)" "rr_max_idx r1 = rr_max_idx rfi"
      using get_skb_list_wf [OF assms(1) ix(2)] by metis
    with 3 assms show ?thesis
      by (intro that [of "ps @ [pkt]" "r1\<lparr>rr_exp_idx := exp_idx\<rparr>"])
        (auto simp: rxreorder_update_def end_idx_def [symmetric] rr_wf_exp)
  qed
qed

lemma rxreorder_flow_step:
  assumes "flows_wf st" "rr_wf rfi" "rxreorder_update flags max_idx cur_idx exp_idx pkt rfi = Some (ps, [], rfi')"
    and "rr_wf rfi'" "mset ps + mset (held rfi') = add_mset pkt (mset (held rfi))"
    and "held rfi = flow_held f st"
  shows "let st' = deliver ps (set_flow f (Some rfi') st)
    in flows_wf st' \<and> mset (delivered st') + mset (flow_held f st') =
      add_mset pkt (mset (delivered st) + mset (flow_held f st))"
  using assms by (auto simp: Let_def flows_wf_set_flow)

definition flow_instance :: "bool \<Rightarrow> u8 list \<Rightarrow> rx_flows \<Rightarrow> brcmf_ampdu_rx_reorder option" where
  "flow_instance alloc rd st = (case reorder_flows st (rd ! 0) of
       Some rfi \<Rightarrow> Some rfi
     | None \<Rightarrow> if alloc
               then Some \<lparr>rr_cur_idx = 0, rr_exp_idx = 0, rr_max_idx = rd ! 2, pend_pkts = 0,
                          pktslots = replicate (unat (rd ! 2) + 1) None\<rparr>
               else None)"

lemma flow_instance_wf:
  assumes "flows_wf st" "rd_in_window rd st" "flow_instance alloc rd st = Some rfi"
  shows "rr_wf rfi" "held rfi = flow_held (rd ! 0) st" "rd ! 2 = rr_max_idx rfi"
    "pktslots rfi ! unat (rd ! 6) = None"
    "unat (rd ! 6) \<le> unat (rr_max_idx rfi)" "unat (rd ! 8) \<le> unat (rr_max_idx rfi)"
proof -
  have "rr_wf rfi \<and> held rfi = flow_held (rd ! 0) st \<and> rd ! 2 = rr_max_idx rfi \<and>
    pktslots rfi ! unat (rd ! 6) = None"
  proof (cases "reorder_flows st (rd ! 0)")
    case None
    with assms(2,3) have rfi: "rfi = \<lparr>rr_cur_idx = 0, rr_exp_idx = 0, rr_max_idx = rd ! 2, pend_pkts = 0,
        pktslots = replicate (unat (rd ! 2) + 1) None\<rparr>"
      by (auto simp: flow_instance_def split: if_splits)
    then have "pktslots rfi ! unat (rd ! 6) = None"
      using assms(2) by (simp add: rd_in_window_def del: replicate.simps)
    with rfi None assms(2) show ?thesis
      using rr_wf_new [of "rd ! 2"] by (simp add: rd_in_window_def flow_held_def held_def del: replicate.simps)
  next
    case (Some r)
    with assms(3) have "r = rfi" by (simp add: flow_instance_def)
    with Some assms(1,2) show ?thesis
      by (force simp: flows_wf_def rd_in_window_def flow_held_def split: option.splits)
  qed
  then show "rr_wf rfi" "held rfi = flow_held (rd ! 0) st" "rd ! 2 = rr_max_idx rfi"
    "pktslots rfi ! unat (rd ! 6) = None" by simp_all
  then show "unat (rd ! 6) \<le> unat (rr_max_idx rfi)" "unat (rd ! 8) \<le> unat (rr_max_idx rfi)"
    using assms(2) by (simp_all add: rd_in_window_def)
qed

lemma rxreorder_del_flow:
  assumes "flows_wf st" "reorder_flows st f = Some rfi"
  obtains ps rfi' where
    "brcmf_rxreorder_get_skb_list rfi (rr_exp_idx rfi) (rr_exp_idx rfi) = Some (ps, rfi')"
    "mset ps = mset (flow_held f st)"
proof -
  have wf: "rr_wf rfi" using assms by (force simp: flows_wf_def split: option.splits)
  then have e: "unat (rr_exp_idx rfi) \<le> unat (rr_max_idx rfi)" by (simp add: rr_wf_def)
  obtain rfi' where r: "brcmf_rxreorder_get_skb_list rfi (rr_exp_idx rfi) (rr_exp_idx rfi)
      = Some (collect (pktslots rfi) (window rfi (rr_exp_idx rfi) (rr_exp_idx rfi)), rfi')"
    "pktslots rfi' = cleared (pktslots rfi) (window rfi (rr_exp_idx rfi) (rr_exp_idx rfi))"
    "mset (collect (pktslots rfi) (window rfi (rr_exp_idx rfi) (rr_exp_idx rfi))) + mset (held rfi')
      = mset (held rfi)"
    using get_skb_list_wf [OF wf e e] by metis
  have "held rfi' = []"
    unfolding held_def r(2) using wf e by (intro packets_cleared_all) (simp_all add: rr_wf_def)
  then have "mset (collect (pktslots rfi) (window rfi (rr_exp_idx rfi) (rr_exp_idx rfi))) = mset (flow_held f st)"
    using r(3) assms(2) by (simp add: flow_held_def)
  with r(1) show ?thesis by (rule that)
qed

text \<open>
  C38: No packet is lost, duplicated or dropped. When the indices lie in the window of the flow
  and the slot named is free, the handler succeeds, keeps every flow well formed, touches no
  other flow, and the packets delivered and held grow by exactly the one received, whatever
  the flags.
\<close>

theorem rxreorder_conserves_packets:
  assumes "flows_wf st" "rd_in_window rd st"
  shows "\<exists>st'. brcmf_fws_rxreorder alloc rd pkt st = Some st' \<and> flows_wf st' \<and> dropped st' = dropped st
    \<and> (\<forall>g. g = rd ! 0 \<or> reorder_flows st' g = reorder_flows st g)
    \<and> mset (delivered st') + mset (flow_held (rd ! 0) st')
      = add_mset pkt (mset (delivered st) + mset (flow_held (rd ! 0) st))"
proof -
  define flags where "flags = rd ! 4"
  consider "flags = 0xFF" | "flags \<noteq> 0xFF" "flags AND 1 \<noteq> 0" "reorder_flows st (rd ! 0) = None"
    | rfi where "flags \<noteq> 0xFF" "flags AND 1 \<noteq> 0" "reorder_flows st (rd ! 0) = Some rfi"
    | "flags \<noteq> 0xFF" "flags AND 1 = 0" "flow_instance alloc rd st = None"
    | rfi where "flags \<noteq> 0xFF" "flags AND 1 = 0" "flow_instance alloc rd st = Some rfi"
    by (meson not_None_eq)
  then show ?thesis
  proof cases
    case 3
    obtain ps rfi' where "brcmf_rxreorder_get_skb_list rfi (rr_exp_idx rfi) (rr_exp_idx rfi) = Some (ps, rfi')"
      "mset ps = mset (flow_held (rd ! 0) st)" using rxreorder_del_flow [OF assms(1) 3(3)] by metis
    with 3 assms(1) show ?thesis
      by (auto simp: brcmf_fws_rxreorder_def Let_def flags_def flows_wf_set_flow)
  next
    case 5
    note r = flow_instance_wf [OF assms 5(3)]
    obtain ps rfi' where u: "rxreorder_update flags (rd ! 2) (rd ! 6) (rd ! 8) pkt rfi = Some (ps, [], rfi')"
      "rr_wf rfi'" "mset ps + mset (held rfi') = add_mset pkt (mset (held rfi))"
      using rxreorder_update_wf [OF r(1,5,6,3,4)] by metis
    then have "brcmf_fws_rxreorder alloc rd pkt st = Some (deliver ps (set_flow (rd ! 0) (Some rfi') st))"
      using 5 by (simp add: brcmf_fws_rxreorder_def Let_def flags_def flow_instance_def)
    then show ?thesis using rxreorder_flow_step [OF assms(1) r(1) u r(2)] by (simp add: Let_def)
  qed (use assms(1) in \<open>simp_all add: brcmf_fws_rxreorder_def Let_def flags_def flow_instance_def\<close>)
qed

definition sample_flows :: rx_flows where
  "sample_flows = \<lparr>reorder_flows = (\<lambda>_. None)(5 := Some sample_flow), delivered = [71], dropped = []\<rparr>"

text \<open>Packet 72 fills the hole at place 2: the packets 72, 73 and 70 can go.\<close>

definition sample_rd :: "u8 list" where
  "sample_rd = [5, 0, 3, 0, 4, 0, 2, 0, 1]"

lemma sample_flows_wf: "flows_wf sample_flows"
proof -
  have "rr_wf sample_flow" by code_simp
  then show ?thesis by (simp add: flows_wf_def sample_flows_def)
qed

theorem rxreorder_conserves_packets_witness:
  "\<exists>st'. brcmf_fws_rxreorder True sample_rd 72 sample_flows = Some st' \<and> dropped st' = []
    \<and> mset (delivered st') + mset (flow_held 5 st') = {#70, 71, 72, 73#}"
proof -
  have "rd_in_window sample_rd sample_flows" by code_simp
  moreover have "mset (delivered sample_flows) + mset (flow_held 5 sample_flows) = {#70, 71, 73#}"
    by code_simp
  moreover have "sample_rd ! 0 = 5" by (simp add: sample_rd_def)
  moreover have "dropped sample_flows = []" by (simp add: sample_flows_def)
  ultimately show ?thesis
    using rxreorder_conserves_packets [OF sample_flows_wf, of sample_rd True 72]
    by (auto simp: add_mset_commute)
qed

lemma window_Cons:
  assumes "unat start \<le> unat (rr_max_idx rfi)" "unat e \<le> unat (rr_max_idx rfi)"
  shows "window rfi start e = unat start # tl (window rfi start e)"
proof -
  define d where "d = unat (rr_max_idx rfi) + 1"
  define n where "n = (if start = e then d else dist d (unat start) (unat e))"
  have "0 < n" "n \<le> d" "unat start < d"
    using assms dist_less [of "unat start" d "unat e"] 
    by (auto simp: n_def d_def dist_def word_unat_eq_iff)
  then have "\<exists>t. slots d (unat start) n = unat start # t"
    using slots_Cons [of "unat start" d "n - 1"] by auto
  moreover have "window rfi start e = slots d (unat start) n"
    unfolding window_def Let_def d_def n_def ..
  ultimately show ?thesis by auto
qed

text \<open>
  When the packet expected next arrives, it is delivered at once, followed by the held
  packets of the places after it up to the new expected place, in order; nothing else is
  delivered and the new expected place is recorded.
\<close>

theorem rxreorder_expected_in_order:
  assumes "reorder_flows st (rd ! 0) = Some rfi" "rr_wf rfi" "rd ! 4 = 4"
    and "rd ! 6 = rr_exp_idx rfi" "unat (rd ! 8) \<le> unat (rr_max_idx rfi)"
    and "pktslots rfi ! unat (rr_exp_idx rfi) = None"
  shows "\<exists>st' rfi'. brcmf_fws_rxreorder alloc rd pkt st = Some st'
    \<and> delivered st' = delivered st @ pkt # collect (pktslots rfi) (tl (window rfi (rd ! 6) (rd ! 8)))
    \<and> reorder_flows st' (rd ! 0) = Some rfi' \<and> rr_exp_idx rfi' = rd ! 8 \<and> rr_wf rfi'"
proof -
  have e: "unat (rd ! 6) \<le> unat (rr_max_idx rfi)" using assms by (simp add: rr_wf_def)
  obtain r1 where r1: "store_slot (rd ! 6) pkt rfi = Some r1" "rr_wf r1" "rr_max_idx r1 = rr_max_idx rfi"
    "pktslots r1 = (pktslots rfi)[unat (rd ! 6) := Some pkt]"
    using store_slot_wf [of rfi "rd ! 6"] assms e by metis
  define r2 where "r2 = r1\<lparr>rr_cur_idx := rd ! 6, rr_exp_idx := rd ! 8\<rparr>"
  have r2: "rr_wf r2" "window r2 = window rfi" "rr_max_idx r2 = rr_max_idx rfi"
    using r1 assms by (auto simp: r2_def rr_wf_exp window_def fun_eq_iff)
  obtain r3 where r3: "brcmf_rxreorder_get_skb_list r2 (rd ! 6) (rd ! 8) =
      Some (collect (pktslots r2) (window rfi (rd ! 6) (rd ! 8)), r3)" "rr_wf r3" "rr_exp_idx r3 = rd ! 8"
    using get_skb_list_wf [of r2 "rd ! 6" "rd ! 8"] r2 e assms(5) by (auto simp: r2_def)
  define w where "w = window rfi (rd ! 6) (rd ! 8)"
  have w: "w = unat (rd ! 6) # tl w" "distinct w"
    unfolding w_def using e assms(5) by (rule window_Cons, rule window_props)
  have len: "unat (rd ! 6) < length (pktslots rfi)" using assms(2) e by (simp add: rr_wf_def)
  have "unat (rd ! 6) \<notin> set (tl w)" using w by (metis distinct.simps(2))
  then have "collect (pktslots r2) (unat (rd ! 6) # tl w) = pkt # collect (pktslots rfi) (tl w)"
    using len by (simp add: r2_def r1(4) collect_other)
  then have "collect (pktslots r2) w = pkt # collect (pktslots rfi) (tl w)"
    by (simp only: w(1) [symmetric])
  then have "rxreorder_update 4 (rd ! 2) (rd ! 6) (rd ! 8) pkt rfi
      = Some (pkt # collect (pktslots rfi) (tl w), [], r3)"
    using r1 r3 len assms by (simp add: rxreorder_update_def rxreorder_valid_def r2_def w_def)
  then show ?thesis
    using assms(1,3) r3 by (auto simp: brcmf_fws_rxreorder_def Let_def w_def)
qed

theorem rxreorder_expected_in_order_witness:
  "\<exists>st'. brcmf_fws_rxreorder False sample_rd 72 sample_flows = Some st' \<and> delivered st' = [71, 72, 73, 70]"
proof -
  have "reorder_flows sample_flows (sample_rd ! 0) = Some sample_flow"
    by (simp add: sample_flows_def sample_rd_def)
  moreover have "rr_wf sample_flow" "sample_rd ! 4 = 4" "sample_rd ! 6 = rr_exp_idx sample_flow"
    "unat (sample_rd ! 8) \<le> unat (rr_max_idx sample_flow)"
    "pktslots sample_flow ! unat (rr_exp_idx sample_flow) = None" by code_simp+
  moreover have "delivered sample_flows @ 72 #
      collect (pktslots sample_flow) (tl (window sample_flow (sample_rd ! 6) (sample_rd ! 8))) = [71, 72, 73, 70]"
    by code_simp
  ultimately show ?thesis using rxreorder_expected_in_order [of sample_flows sample_rd sample_flow False 72]
    by auto
qed

text \<open>
  The place named by the firmware is not checked against the slots that were allocated.
  For a packet inside the current hole whose place lies beyond them, the handler reads and
  writes outside the allocation, for which the model has no result.
\<close>

theorem rxreorder_index_unchecked:
  assumes "reorder_flows st (rd ! 0) = Some rfi" "rd ! 4 = 4" "rd ! 8 = rr_exp_idx rfi"
    and "rd ! 6 \<noteq> rr_exp_idx rfi" "length (pktslots rfi) \<le> unat (rd ! 6)"
  shows "brcmf_fws_rxreorder alloc rd pkt st = None"
  using assms by (simp add: brcmf_fws_rxreorder_def Let_def rxreorder_update_def rxreorder_valid_def)

theorem rxreorder_index_unchecked_witness:
  "brcmf_fws_rxreorder True [5, 0, 3, 0, 4, 0, 200, 0, 2] 99 sample_flows = None"
  by (rule rxreorder_index_unchecked [where rfi = sample_flow])
    (simp_all add: sample_flows_def sample_flow_def)

end
