(* ===== verification/Commonring.thy ===== *)
theory Commonring
  imports Ring_Index
begin

section \<open>Shared message rings (brcmfmac/commonring.c, pcie.c)\<close>

text \<open>
  Host and firmware exchange messages through rings in shared memory. A ring has a read
  index, a write index and a depth; the host's record \<open>brcmf_commonring\<close> caches both
  indices, and callbacks synchronise them with the copies in device memory. One slot always
  stays free, so that equal indices mean an empty ring.

  The callbacks act on a context of type \<open>'d\<close> and on the ring; the PCIe bus instantiates the
  context with the index words in device memory and its doorbell. Locks only serialise the
  operations, which are atomic steps here.

  The theory shows that the indices stay inside the ring, that a reservation never reaches
  a slot that has not been read, that cancelling a reservation restores the ring, and that
  host and device together move every message exactly once and in order, whatever the order
  of their steps and however stale the cached read index is.
\<close>

subsection \<open>Data\<close>

record brcmf_commonring =
  r_ptr :: u16
  w_ptr :: u16
  f_ptr :: u16
  depth :: u16
  item_len :: u16
  buf_addr :: nat
  inited :: bool
  was_full :: bool

type_synonym 'd cr_state = "'d \<times> brcmf_commonring"
type_synonym 'd cr_callback = "'d cr_state \<Rightarrow> (errno + unit) \<times> 'd cr_state"

text \<open>\<open>None\<close> is a callback that is not registered (a null pointer).\<close>

record 'd cr_ops =
  cr_ring_bell :: "'d cr_callback option"
  cr_update_rptr :: "'d cr_callback option"
  cr_update_wptr :: "'d cr_callback option"
  cr_write_rptr :: "'d cr_callback option"
  cr_write_wptr :: "'d cr_callback option"

definition brcmf_commonring_register_cb ::
    "'d cr_callback option \<Rightarrow> 'd cr_callback option \<Rightarrow> 'd cr_callback option
      \<Rightarrow> 'd cr_callback option \<Rightarrow> 'd cr_callback option \<Rightarrow> 'd cr_ops" where
  "brcmf_commonring_register_cb bell upd_r upd_w wr_r wr_w =
     \<lparr>cr_ring_bell = bell, cr_update_rptr = upd_r, cr_update_wptr = upd_w,
      cr_write_rptr = wr_r, cr_write_wptr = wr_w\<rparr>"

text \<open>Calling a callback whose result is ignored, where it is registered.\<close>

definition call_cb :: "'d cr_callback option \<Rightarrow> 'd cr_state \<Rightarrow> 'd cr_state" where
  "call_cb cb s = (case cb of None \<Rightarrow> s | Some f \<Rightarrow> snd (f s))"

subsection \<open>Operations\<close>

definition brcmf_commonring_config ::
    "'d cr_ops \<Rightarrow> u16 \<Rightarrow> u16 \<Rightarrow> nat \<Rightarrow> 'd cr_state \<Rightarrow> 'd cr_state" where
  "brcmf_commonring_config ops dp il buf s =
     (let (d, cr) = s;
          cr = cr\<lparr>depth := dp, item_len := il, buf_addr := buf\<rparr>;
          cr = (if \<not> inited cr then cr\<lparr>inited := True\<rparr> else cr);
          (d, cr) = call_cb (cr_write_rptr ops) (d, cr\<lparr>r_ptr := 0\<rparr>);
          (d, cr) = call_cb (cr_write_wptr ops) (d, cr\<lparr>w_ptr := 0\<rparr>)
      in (d, cr\<lparr>f_ptr := 0\<rparr>))"

definition ring_available :: "brcmf_commonring \<Rightarrow> u16" where
  "ring_available cr =
     (if r_ptr cr \<le> w_ptr cr then depth cr - w_ptr cr + r_ptr cr else r_ptr cr - w_ptr cr)"

text \<open>
  The three functions that look for room try again once after refreshing the read index; the
  first argument counts the tries left.
\<close>

fun write_available_try :: "nat \<Rightarrow> 'd cr_ops \<Rightarrow> 'd cr_state \<Rightarrow> bool \<times> 'd cr_state" where
  "write_available_try 0 ops (d, cr) =
     (let available = ring_available cr
      in if available > 1
         then (if \<not> was_full cr then (True, d, cr)
               else if available > depth cr div 8 then (True, d, cr\<lparr>was_full := False\<rparr>)
               else (False, d, cr))
         else (False, d, cr\<lparr>was_full := True\<rparr>))"
| "write_available_try (Suc retry) ops (d, cr) =
     (let available = ring_available cr
      in if available > 1
         then (if \<not> was_full cr then (True, d, cr)
               else if available > depth cr div 8 then (True, d, cr\<lparr>was_full := False\<rparr>)
               else write_available_try retry ops (call_cb (cr_update_rptr ops) (d, cr)))
         else write_available_try retry ops (call_cb (cr_update_rptr ops) (d, cr)))"

definition brcmf_commonring_write_available :: "'d cr_ops \<Rightarrow> 'd cr_state \<Rightarrow> bool \<times> 'd cr_state" where
  "brcmf_commonring_write_available ops s = write_available_try 1 ops s"

definition advance_w :: "u16 \<Rightarrow> brcmf_commonring \<Rightarrow> brcmf_commonring" where
  "advance_w n cr =
     (let cr = cr\<lparr>w_ptr := w_ptr cr + n\<rparr>
      in if w_ptr cr = depth cr then cr\<lparr>w_ptr := 0\<rparr> else cr)"

text \<open>The address of the slot at the write index.\<close>

definition w_slot_addr :: "brcmf_commonring \<Rightarrow> nat" where
  "w_slot_addr cr = buf_addr cr + unat (w_ptr cr) * unat (item_len cr)"

fun reserve_try :: "nat \<Rightarrow> 'd cr_ops \<Rightarrow> 'd cr_state \<Rightarrow> nat option \<times> 'd cr_state" where
  "reserve_try 0 ops (d, cr) =
     (if ring_available cr > 1 then (Some (w_slot_addr cr), d, advance_w 1 cr)
      else (None, d, cr\<lparr>was_full := True\<rparr>))"
| "reserve_try (Suc retry) ops (d, cr) =
     (if ring_available cr > 1 then (Some (w_slot_addr cr), d, advance_w 1 cr)
      else reserve_try retry ops (call_cb (cr_update_rptr ops) (d, cr)))"

definition brcmf_commonring_reserve_for_write ::
    "'d cr_ops \<Rightarrow> 'd cr_state \<Rightarrow> nat option \<times> 'd cr_state" where
  "brcmf_commonring_reserve_for_write ops s = reserve_try 1 ops s"

text \<open>The number of items a multiple reservation grants: never past the end of the ring.\<close>

definition granted :: "u16 \<Rightarrow> brcmf_commonring \<Rightarrow> u16" where
  "granted n_items cr =
     (let alloced = min n_items (ring_available cr - 1)
      in if unat alloced + unat (w_ptr cr) > unat (depth cr) then depth cr - w_ptr cr
         else alloced)"

fun reserve_multiple_try ::
    "nat \<Rightarrow> 'd cr_ops \<Rightarrow> u16 \<Rightarrow> 'd cr_state \<Rightarrow> (nat \<times> u16) option \<times> 'd cr_state" where
  "reserve_multiple_try 0 ops n (d, cr) =
     (if ring_available cr > 1
      then (Some (w_slot_addr cr, granted n cr), d, advance_w (granted n cr) cr)
      else (None, d, cr\<lparr>was_full := True\<rparr>))"
| "reserve_multiple_try (Suc retry) ops n (d, cr) =
     (if ring_available cr > 1
      then (Some (w_slot_addr cr, granted n cr), d, advance_w (granted n cr) cr)
      else reserve_multiple_try retry ops n (call_cb (cr_update_rptr ops) (d, cr)))"

definition brcmf_commonring_reserve_for_write_multiple ::
    "'d cr_ops \<Rightarrow> u16 \<Rightarrow> 'd cr_state \<Rightarrow> (nat \<times> u16) option \<times> 'd cr_state" where
  "brcmf_commonring_reserve_for_write_multiple ops n s = reserve_multiple_try 1 ops n s"

definition brcmf_commonring_write_complete ::
    "'d cr_ops \<Rightarrow> 'd cr_state \<Rightarrow> (errno + unit) \<times> 'd cr_state" where
  "brcmf_commonring_write_complete ops s =
     (let (d, cr) = s;
          cr = (if f_ptr cr > w_ptr cr then cr\<lparr>f_ptr := 0\<rparr> else cr);
          cr = cr\<lparr>f_ptr := w_ptr cr\<rparr>;
          s = call_cb (cr_write_wptr ops) (d, cr)
      in case cr_ring_bell ops of None \<Rightarrow> (Inl EIO, s) | Some f \<Rightarrow> f s)"

definition brcmf_commonring_write_cancel :: "u16 \<Rightarrow> brcmf_commonring \<Rightarrow> brcmf_commonring" where
  "brcmf_commonring_write_cancel n_items cr =
     (if w_ptr cr = 0 then cr\<lparr>w_ptr := depth cr - n_items\<rparr>
      else cr\<lparr>w_ptr := w_ptr cr - n_items\<rparr>)"

text \<open>The read pointer (\<open>None\<close> for the null pointer) and \<open>*n_items\<close>.\<close>

definition brcmf_commonring_get_read_ptr ::
    "'d cr_ops \<Rightarrow> 'd cr_state \<Rightarrow> (nat option \<times> u16) \<times> 'd cr_state" where
  "brcmf_commonring_get_read_ptr ops s =
     (let (d, cr) = call_cb (cr_update_wptr ops) s;
          n_items = (if w_ptr cr \<ge> r_ptr cr then w_ptr cr - r_ptr cr else depth cr - r_ptr cr)
      in (if n_items = 0 then (None, n_items)
          else (Some (buf_addr cr + unat (r_ptr cr) * unat (item_len cr)), n_items), d, cr))"

definition brcmf_commonring_read_complete ::
    "'d cr_ops \<Rightarrow> u16 \<Rightarrow> 'd cr_state \<Rightarrow> (errno + unit) \<times> 'd cr_state" where
  "brcmf_commonring_read_complete ops n_items s =
     (let (d, cr) = s;
          cr = cr\<lparr>r_ptr := r_ptr cr + n_items\<rparr>;
          cr = (if r_ptr cr = depth cr then cr\<lparr>r_ptr := 0\<rparr> else cr)
      in case cr_write_rptr ops of None \<Rightarrow> (Inl EIO, d, cr) | Some f \<Rightarrow> f (d, cr))"

subsection \<open>The PCIe callbacks\<close>

text \<open>
  The device context of one ring: whether the bus is up, the two index words in device
  memory, and how often the doorbell was rung.
\<close>

record pcie_ring_dev =
  dev_up :: bool
  r_idx :: u16
  w_idx :: u16
  doorbells :: nat

definition brcmf_pcie_ring_mb_write_rptr :: "pcie_ring_dev cr_callback" where
  "brcmf_pcie_ring_mb_write_rptr s =
     (let (d, cr) = s in if \<not> dev_up d then (Inl EIO, s) else (Inr (), d\<lparr>r_idx := r_ptr cr\<rparr>, cr))"

definition brcmf_pcie_ring_mb_write_wptr :: "pcie_ring_dev cr_callback" where
  "brcmf_pcie_ring_mb_write_wptr s =
     (let (d, cr) = s in if \<not> dev_up d then (Inl EIO, s) else (Inr (), d\<lparr>w_idx := w_ptr cr\<rparr>, cr))"

definition brcmf_pcie_ring_mb_ring_bell :: "pcie_ring_dev cr_callback" where
  "brcmf_pcie_ring_mb_ring_bell s =
     (let (d, cr) = s
      in if \<not> dev_up d then (Inl EIO, s) else (Inr (), d\<lparr>doorbells := doorbells d + 1\<rparr>, cr))"

definition brcmf_pcie_ring_mb_update_rptr :: "pcie_ring_dev cr_callback" where
  "brcmf_pcie_ring_mb_update_rptr s =
     (let (d, cr) = s in if \<not> dev_up d then (Inl EIO, s) else (Inr (), d, cr\<lparr>r_ptr := r_idx d\<rparr>))"

definition brcmf_pcie_ring_mb_update_wptr :: "pcie_ring_dev cr_callback" where
  "brcmf_pcie_ring_mb_update_wptr s =
     (let (d, cr) = s in if \<not> dev_up d then (Inl EIO, s) else (Inr (), d, cr\<lparr>w_ptr := w_idx d\<rparr>))"

definition pcie_ops :: "pcie_ring_dev cr_ops" where
  "pcie_ops = brcmf_commonring_register_cb
     (Some brcmf_pcie_ring_mb_ring_bell) (Some brcmf_pcie_ring_mb_update_rptr)
     (Some brcmf_pcie_ring_mb_update_wptr) (Some brcmf_pcie_ring_mb_write_rptr)
     (Some brcmf_pcie_ring_mb_write_wptr)"

subsection \<open>The invariant of a ring\<close>

definition ring_wf :: "brcmf_commonring \<Rightarrow> bool" where
  "ring_wf cr \<longleftrightarrow> r_ptr cr < depth cr \<and> w_ptr cr < depth cr \<and> f_ptr cr < depth cr"

lemma ring_wfD:
  assumes "ring_wf cr"
  shows "unat (r_ptr cr) < unat (depth cr)" and "unat (w_ptr cr) < unat (depth cr)"
    and "unat (f_ptr cr) < unat (depth cr)"
  using assms by (simp_all add: ring_wf_def word_less_nat_alt)

text \<open>How many messages lie between the cached read index and the write index.\<close>

definition ring_used :: "brcmf_commonring \<Rightarrow> nat" where
  "ring_used cr = dist (unat (depth cr)) (unat (r_ptr cr)) (unat (w_ptr cr))"

lemma ring_used_less: "ring_wf cr \<Longrightarrow> ring_used cr < unat (depth cr)"
  by (simp add: ring_used_def dist_less ring_wfD)

lemma unat_ring_available:
  assumes "ring_wf cr"
  shows "unat (ring_available cr) = unat (depth cr) - ring_used cr"
proof -
  note lt = ring_wfD [OF assms]
  have wd: "w_ptr cr \<le> depth cr" using lt by (simp add: word_le_nat_alt)
  show ?thesis
  proof (cases "r_ptr cr \<le> w_ptr cr")
    case True
    then have le: "unat (r_ptr cr) \<le> unat (w_ptr cr)" by (simp add: word_le_nat_alt)
    have "unat (depth cr - w_ptr cr) = unat (depth cr) - unat (w_ptr cr)"
      using wd by (rule unat_sub)
    moreover have "unat (depth cr - w_ptr cr) + unat (r_ptr cr) < 65536"
      using calculation le lt unat_u16_lt [of "depth cr"] by linarith
    ultimately have "unat (depth cr - w_ptr cr + r_ptr cr)
        = unat (depth cr) - unat (w_ptr cr) + unat (r_ptr cr)"
      by (simp add: unat_word_ariths)
    with True le lt show ?thesis by (simp add: ring_available_def ring_used_def dist_def)
  next
    case False
    then have le: "w_ptr cr \<le> r_ptr cr" "unat (w_ptr cr) < unat (r_ptr cr)"
      by (simp_all add: word_le_nat_alt)
    from unat_sub [OF le(1)] False le lt show ?thesis
      by (simp add: ring_available_def ring_used_def dist_def)
  qed
qed

lemma available_gt_1:
  "ring_wf cr \<Longrightarrow> ring_available cr > 1 \<longleftrightarrow> ring_used cr + 1 < unat (depth cr)"
  using unat_ring_available [of cr] ring_used_less [of cr]
  by (simp add: word_less_nat_alt) linarith

text \<open>Moving the write index on by a number of slots that stays within the ring.\<close>

lemma unat_advance_w:
  assumes "ring_wf cr" "unat (w_ptr cr) + unat n \<le> unat (depth cr)"
  shows "unat (w_ptr (advance_w n cr)) = adv (unat (depth cr)) (unat (w_ptr cr)) (unat n)"
proof -
  have sum: "unat (w_ptr cr + n) = unat (w_ptr cr) + unat n"
    using le_less_trans [OF assms(2) unat_u16_lt] by (simp add: unat_word_ariths)
  then have "w_ptr cr + n = depth cr \<longleftrightarrow> unat (w_ptr cr) + unat n = unat (depth cr)"
    by (simp add: word_unat_eq_iff)
  with sum assms(2) show ?thesis by (auto simp: advance_w_def adv_def Let_def)
qed

lemma advance_w_wptr: "advance_w n cr = cr\<lparr>w_ptr := w_ptr (advance_w n cr)\<rparr>"
  by (simp add: advance_w_def Let_def)

lemma advance_w_wf:
  assumes "ring_wf cr" "unat (w_ptr cr) + unat n \<le> unat (depth cr)"
  shows "ring_wf (advance_w n cr)"
proof -
  have "unat (w_ptr (advance_w n cr)) < unat (depth cr)"
    using unat_advance_w [OF assms] ring_wfD [OF assms(1)] assms(2) by (simp add: adv_less)
  with assms(1) show ?thesis
    by (subst advance_w_wptr) (simp add: ring_wf_def word_less_nat_alt)
qed

text \<open>A multiple reservation stays within the free slots and does not cross the end.\<close>

lemma granted_bounds:
  assumes "ring_wf cr" "ring_available cr > 1"
  shows "unat (granted n cr) \<le> unat n"
    and "ring_used cr + unat (granted n cr) < unat (depth cr)"
    and "unat (w_ptr cr) + unat (granted n cr) \<le> unat (depth cr)"
    and "n \<noteq> 0 \<Longrightarrow> granted n cr \<noteq> 0"
proof -
  note lt = ring_wfD [OF assms(1)]
  let ?al = "min n (ring_available cr - 1)"
  have av: "unat (ring_available cr - 1) = unat (depth cr) - ring_used cr - 1"
    using unat_pred_pos [of "ring_available cr"] unat_ring_available [OF assms(1)] assms(2)
    by (cases "ring_available cr = 0") simp_all
  have al: "unat ?al \<le> unat n" "unat ?al \<le> unat (ring_available cr - 1)"
    by (auto simp: min_def word_le_nat_alt)
  have pos: "n \<noteq> 0 \<Longrightarrow> unat ?al \<noteq> 0"
    using assms(2) av available_gt_1 [OF assms(1)] by (auto simp: min_def unat_eq_0)
  have sub: "unat (depth cr - w_ptr cr) = unat (depth cr) - unat (w_ptr cr)"
    using lt by (intro unat_sub) (simp add: word_le_nat_alt)
  note used = ring_used_less [OF assms(1)]
  show "unat (granted n cr) \<le> unat n"
    using al sub by (auto simp: granted_def Let_def)
  show "ring_used cr + unat (granted n cr) < unat (depth cr)"
    using al av sub used by (auto simp: granted_def Let_def)
  show "unat (w_ptr cr) + unat (granted n cr) \<le> unat (depth cr)"
    using lt sub by (auto simp: granted_def Let_def)
  show "n \<noteq> 0 \<Longrightarrow> granted n cr \<noteq> 0"
    using pos sub lt by (auto simp: granted_def Let_def simp flip: unat_eq_0)
qed

text \<open>
  What a refresh of the read index over PCIe can do: nothing, or take the value the device
  published.
\<close>

lemma call_update_rptr:
  "call_cb (cr_update_rptr pcie_ops) (d, cr) = (d, cr\<lparr>r_ptr := if dev_up d then r_idx d else r_ptr cr\<rparr>)"
  by (simp add: call_cb_def pcie_ops_def brcmf_commonring_register_cb_def
      brcmf_pcie_ring_mb_update_rptr_def)

lemma reserve_cases:
  assumes "brcmf_commonring_reserve_for_write pcie_ops (d, cr) = (res, d', cr')"
  obtains r where "r \<in> {r_ptr cr, r_idx d}" "d' = d" "res = None"
      "\<not> ring_available (cr\<lparr>r_ptr := r\<rparr>) > 1" "cr' = cr\<lparr>r_ptr := r, was_full := True\<rparr>"
      "dev_up d \<Longrightarrow> r = r_idx d"
  | r where "r \<in> {r_ptr cr, r_idx d}" "d' = d" "res = Some (w_slot_addr cr)"
      "ring_available (cr\<lparr>r_ptr := r\<rparr>) > 1" "cr' = advance_w 1 (cr\<lparr>r_ptr := r\<rparr>)"
proof -
  let ?r = "if dev_up d then r_idx d else r_ptr cr"
  let ?cr = "cr\<lparr>r_ptr := ?r\<rparr>"
  have addr: "w_slot_addr (cr\<lparr>r_ptr := q\<rparr>) = w_slot_addr cr" for q by (simp add: w_slot_addr_def)
  consider "ring_available cr > 1" | "\<not> ring_available cr > 1" "ring_available ?cr > 1"
    | "\<not> ring_available cr > 1" "\<not> ring_available ?cr > 1" by blast
  then show ?thesis
  proof cases
    case 1
    with assms show ?thesis
      by (intro that(2) [of "r_ptr cr"]) (auto simp: brcmf_commonring_reserve_for_write_def)
  next
    case 2
    with assms addr show ?thesis
      by (intro that(2) [of ?r])
        (auto simp: brcmf_commonring_reserve_for_write_def call_update_rptr)
  next
    case 3
    with assms show ?thesis
      by (intro that(1) [of ?r])
        (auto simp: brcmf_commonring_reserve_for_write_def call_update_rptr)
  qed
qed

lemma reserve_multiple_cases:
  assumes "brcmf_commonring_reserve_for_write_multiple pcie_ops n (d, cr) = (res, d', cr')"
  obtains r where "r \<in> {r_ptr cr, r_idx d}" "d' = d" "res = None"
      "\<not> ring_available (cr\<lparr>r_ptr := r\<rparr>) > 1" "cr' = cr\<lparr>r_ptr := r, was_full := True\<rparr>"
  | r where "r \<in> {r_ptr cr, r_idx d}" "d' = d"
      "res = Some (w_slot_addr cr, granted n (cr\<lparr>r_ptr := r\<rparr>))"
      "ring_available (cr\<lparr>r_ptr := r\<rparr>) > 1"
      "cr' = advance_w (granted n (cr\<lparr>r_ptr := r\<rparr>)) (cr\<lparr>r_ptr := r\<rparr>)"
proof -
  let ?r = "if dev_up d then r_idx d else r_ptr cr"
  let ?cr = "cr\<lparr>r_ptr := ?r\<rparr>"
  have addr: "w_slot_addr (cr\<lparr>r_ptr := q\<rparr>) = w_slot_addr cr" for q by (simp add: w_slot_addr_def)
  consider "ring_available cr > 1" | "\<not> ring_available cr > 1" "ring_available ?cr > 1"
    | "\<not> ring_available cr > 1" "\<not> ring_available ?cr > 1" by blast
  then show ?thesis
  proof cases
    case 1
    with assms show ?thesis
      by (intro that(2) [of "r_ptr cr"]) (auto simp: brcmf_commonring_reserve_for_write_multiple_def)
  next
    case 2
    with assms addr show ?thesis
      by (intro that(2) [of ?r])
        (auto simp: brcmf_commonring_reserve_for_write_multiple_def call_update_rptr)
  next
    case 3
    with assms show ?thesis
      by (intro that(1) [of ?r])
        (auto simp: brcmf_commonring_reserve_for_write_multiple_def call_update_rptr)
  qed
qed

text \<open>Polling for room changes no more than the cached read index and the full flag.\<close>

lemma available_was_full [simp]: "ring_available (cr\<lparr>was_full := b\<rparr>) = ring_available cr"
  by (simp add: ring_available_def)

lemma write_available_last:
  assumes "write_available_try 0 ops (d, cr) = (res, d', cr')"
  shows "d' = d \<and> (\<exists>b. cr' = cr\<lparr>was_full := b\<rparr>) \<and> (res \<longrightarrow> ring_available cr > 1)"
proof -
  have "\<exists>b. c = c\<lparr>was_full := b\<rparr>" for c :: brcmf_commonring
    by (rule exI [of _ "was_full c"]) simp
  with assms show ?thesis by (auto simp: Let_def split: if_splits)
qed

lemma write_available_cases:
  assumes "brcmf_commonring_write_available pcie_ops (d, cr) = (res, d', cr')"
  obtains r b where "r \<in> {r_ptr cr, r_idx d}" "d' = d" "cr' = cr\<lparr>r_ptr := r, was_full := b\<rparr>"
    "res \<Longrightarrow> ring_available cr' > 1"
proof -
  let ?cr = "cr\<lparr>r_ptr := if dev_up d then r_idx d else r_ptr cr\<rparr>"
  consider "write_available_try 0 pcie_ops (d, cr) = (res, d', cr')"
    | "write_available_try 0 pcie_ops (d, ?cr) = (res, d', cr')"
    using assms
    by (simp add: brcmf_commonring_write_available_def call_update_rptr Let_def split: if_splits)
  then show ?thesis
  proof cases
    case 1
    from write_available_last [OF this] that [of "r_ptr cr"] show ?thesis by fastforce
  next
    case 2
    from write_available_last [OF this] that [of "r_ptr ?cr"] show ?thesis by fastforce
  qed
qed

subsection \<open>Host and device on one submission ring\<close>

text \<open>
  The system of a ring that the host fills and the device drains: the host's ring, the device
  context, the ring memory (addresses to messages), and two histories, the messages the host
  wrote and the messages the device read. The host's steps are the operations above, as
  \<open>msgbuf.c\<close> uses them: reserve a slot and fill it; reserve several, fill some and cancel the
  rest (\<open>brcmf_msgbuf_rxbuf_data_post\<close>); poll; publish. The device reads the message at its
  own read index when the published indices differ, and the bus may go down or come up at
  any moment.
\<close>

record 'm ring_sys =
  host :: brcmf_commonring
  dev :: pcie_ring_dev
  ring_mem :: "nat \<Rightarrow> 'm"
  produced :: "'m list"
  consumed :: "'m list"

fun write_items :: "(nat \<Rightarrow> 'm) \<Rightarrow> nat \<Rightarrow> nat \<Rightarrow> 'm list \<Rightarrow> nat \<Rightarrow> 'm" where
  "write_items m a il [] = m"
| "write_items m a il (x # xs) = write_items (m(a := x)) (a + il) il xs"

definition slot_addr :: "brcmf_commonring \<Rightarrow> nat \<Rightarrow> nat" where
  "slot_addr cr i = buf_addr cr + i * unat (item_len cr)"

definition cancel_rest :: "u16 \<Rightarrow> nat \<Rightarrow> brcmf_commonring \<Rightarrow> brcmf_commonring" where
  "cancel_rest alloced i cr =
     (if i < unat alloced then brcmf_commonring_write_cancel (alloced - of_nat i) cr else cr)"

inductive ring_step :: "'m ring_sys \<Rightarrow> 'm ring_sys \<Rightarrow> bool" where
  host_write: "brcmf_commonring_reserve_for_write pcie_ops (dev s, host s) = (Some a, d, cr) \<Longrightarrow>
    ring_step s (s\<lparr>host := cr, dev := d, ring_mem := (ring_mem s)(a := x),
                   produced := produced s @ [x]\<rparr>)"
| host_full: "brcmf_commonring_reserve_for_write pcie_ops (dev s, host s) = (None, d, cr) \<Longrightarrow>
    ring_step s (s\<lparr>host := cr, dev := d\<rparr>)"
| host_post: "brcmf_commonring_reserve_for_write_multiple pcie_ops n (dev s, host s)
      = (Some (a, alloced), d, cr) \<Longrightarrow> length xs \<le> unat alloced \<Longrightarrow>
    ring_step s (s\<lparr>host := cancel_rest alloced (length xs) cr, dev := d,
                   ring_mem := write_items (ring_mem s) a (unat (item_len cr)) xs,
                   produced := produced s @ xs\<rparr>)"
| host_post_full: "brcmf_commonring_reserve_for_write_multiple pcie_ops n (dev s, host s)
      = (None, d, cr) \<Longrightarrow> ring_step s (s\<lparr>host := cr, dev := d\<rparr>)"
| host_poll: "brcmf_commonring_write_available pcie_ops (dev s, host s) = (b, d, cr) \<Longrightarrow>
    ring_step s (s\<lparr>host := cr, dev := d\<rparr>)"
| host_commit: "brcmf_commonring_write_complete pcie_ops (dev s, host s) = (res, d, cr) \<Longrightarrow>
    ring_step s (s\<lparr>host := cr, dev := d\<rparr>)"
| device_read: "r_idx (dev s) \<noteq> w_idx (dev s) \<Longrightarrow>
    ring_step s (s\<lparr>dev := (dev s)\<lparr>r_idx := if r_idx (dev s) + 1 = depth (host s) then 0
                                           else r_idx (dev s) + 1\<rparr>,
                   consumed := consumed s @ [ring_mem s (slot_addr (host s) (unat (r_idx (dev s))))]\<rparr>)"
| bus_power: "ring_step s (s\<lparr>dev := (dev s)\<lparr>dev_up := b\<rparr>\<rparr>)"

text \<open>
  A ring starts as \<open>brcmf_commonring_config\<close> leaves it on a bus that is up, with at least two
  slots of at least one byte.
\<close>

inductive ring_reachable :: "'m ring_sys \<Rightarrow> bool" where
  start: "dp > 1 \<Longrightarrow> il > 0 \<Longrightarrow> dev_up d \<Longrightarrow>
    brcmf_commonring_config pcie_ops dp il buf (d, cr) = (d', cr') \<Longrightarrow>
    ring_reachable \<lparr>host = cr', dev = d', ring_mem = m, produced = [], consumed = []\<rparr>"
| step: "ring_reachable s \<Longrightarrow> ring_step s s' \<Longrightarrow> ring_reachable s'"

text \<open>The messages between the device's read index and the host's write index.\<close>

definition in_flight :: "'m ring_sys \<Rightarrow> 'm list" where
  "in_flight s =
     (let D = unat (depth (host s)); r = unat (r_idx (dev s)); w = unat (w_ptr (host s))
      in map (\<lambda>i. ring_mem s (slot_addr (host s) i)) (slots D r (dist D r w)))"

text \<open>
  The invariant: all indices lie in the ring; going round from the device's read index, the
  published write index comes before the host's; going round from the cached read index, the
  device's read index comes before the host's write index; and the histories differ by the
  messages in flight.
\<close>

definition ring_inv :: "'m ring_sys \<Rightarrow> bool" where
  "ring_inv s \<longleftrightarrow>
     (let cr = host s; d = dev s; D = unat (depth cr)
      in ring_wf cr \<and> item_len cr > 0 \<and> r_idx d < depth cr \<and> w_idx d < depth cr \<and>
         dist D (unat (r_idx d)) (unat (w_idx d)) \<le> dist D (unat (r_idx d)) (unat (w_ptr cr)) \<and>
         dist D (unat (r_ptr cr)) (unat (r_idx d)) \<le> ring_used cr \<and>
         produced s = consumed s @ in_flight s)"

lemma slot_addr_inj: "item_len cr > 0 \<Longrightarrow> inj (slot_addr cr)"
  by (auto simp: inj_def slot_addr_def word_less_nat_alt)

lemma dev_used_le:
  assumes "ring_inv s"
  shows "dist (unat (depth (host s))) (unat (r_idx (dev s))) (unat (w_ptr (host s)))
    \<le> ring_used (host s)"
proof -
  let ?D = "unat (depth (host s))"
  have "ring_wf (host s)" "unat (r_idx (dev s)) < ?D"
    and le: "dist ?D (unat (r_ptr (host s))) (unat (r_idx (dev s))) \<le> ring_used (host s)"
    using assms by (simp_all add: ring_inv_def Let_def word_less_nat_alt)
  from dist_split [OF _ this(2), of "unat (r_ptr (host s))" "unat (w_ptr (host s))"] this
    ring_wfD [of "host s"]
  show ?thesis by (simp add: ring_used_def)
qed

lemma ring_inv_refresh:
  assumes "ring_inv s" "r \<in> {r_ptr (host s), r_idx (dev s)}"
  shows "ring_inv (s\<lparr>host := (host s)\<lparr>r_ptr := r, was_full := b\<rparr>\<rparr>)"
  using assms by (auto simp: ring_inv_def Let_def ring_wf_def ring_used_def in_flight_def slot_addr_def)

text \<open>Writing one message at the write index and moving on.\<close>

definition put_one :: "'m \<Rightarrow> 'm ring_sys \<Rightarrow> 'm ring_sys" where
  "put_one x s = s\<lparr>host := advance_w 1 (host s),
     ring_mem := (ring_mem s)(w_slot_addr (host s) := x), produced := produced s @ [x]\<rparr>"

lemma advance_w_fields [simp]:
  "depth (advance_w n cr) = depth cr" "r_ptr (advance_w n cr) = r_ptr cr"
  "f_ptr (advance_w n cr) = f_ptr cr" "item_len (advance_w n cr) = item_len cr"
  "buf_addr (advance_w n cr) = buf_addr cr"
  by (simp_all add: advance_w_def Let_def)

lemma slot_addr_advance_w [simp]: "slot_addr (advance_w n cr) = slot_addr cr"
  by (rule ext) (simp add: slot_addr_def)

lemma put_one_in_flight:
  assumes inv: "ring_inv s" and room: "ring_used (host s) + 1 < unat (depth (host s))"
  shows "in_flight (put_one x s) = in_flight s @ [x]"
proof -
  let ?cr = "host s"
  let ?D = "unat (depth ?cr)" and ?r = "unat (r_idx (dev s))" and ?w = "unat (w_ptr ?cr)"
  have wf: "ring_wf ?cr" and r: "?r < ?D" and inj: "inj (slot_addr ?cr)"
    using inv slot_addr_inj by (auto simp: ring_inv_def Let_def word_less_nat_alt)
  have w: "?w < ?D" using ring_wfD [OF wf] by simp
  have lt: "dist ?D ?r ?w + 1 < ?D" using dev_used_le [OF inv] room by linarith
  have w': "unat (w_ptr (advance_w 1 ?cr)) = adv ?D ?w 1"
    using unat_advance_w [OF wf, of 1] w by simp
  have "dist ?D ?r (adv ?D ?w 1) = Suc (dist ?D ?r ?w)"
    using dist_adv_right [OF r w lt] by simp
  moreover have "adv ?D ?r (dist ?D ?r ?w) = ?w" using r w by (rule adv_dist)
  moreover have "w_slot_addr ?cr = slot_addr ?cr ?w"
    by (simp add: w_slot_addr_def slot_addr_def)
  ultimately show ?thesis
    using slots_map_upd [OF r w inj, of "ring_mem s" x]
    by (simp add: in_flight_def put_one_def w' slots_Suc Let_def)
qed

lemma put_one_inv:
  assumes inv: "ring_inv s" and room: "ring_used (host s) + 1 < unat (depth (host s))"
  shows "ring_inv (put_one x s)" and "ring_used (host (put_one x s)) = ring_used (host s) + 1"
proof -
  let ?cr = "host s"
  let ?D = "unat (depth ?cr)" and ?r = "unat (r_idx (dev s))" and ?w = "unat (w_ptr ?cr)"
  have wf: "ring_wf ?cr" and r: "?r < ?D"
    using inv by (auto simp: ring_inv_def Let_def word_less_nat_alt)
  have w: "?w < ?D" and rp: "unat (r_ptr ?cr) < ?D" using ring_wfD [OF wf] by simp_all
  have lt: "dist ?D ?r ?w + 1 < ?D" using dev_used_le [OF inv] room by linarith
  have w': "unat (w_ptr (advance_w 1 ?cr)) = adv ?D ?w 1"
    using unat_advance_w [OF wf, of 1] w by simp
  have used: "ring_used (advance_w 1 ?cr) = ring_used ?cr + 1"
    using dist_adv_right [OF rp w] room w' by (simp add: ring_used_def)
  then show "ring_used (host (put_one x s)) = ring_used (host s) + 1" by (simp add: put_one_def)
  have "dist ?D ?r (adv ?D ?w 1) = dist ?D ?r ?w + 1" using dist_adv_right [OF r w lt] .
  moreover have "ring_wf (advance_w 1 ?cr)" using advance_w_wf [OF wf, of 1] w by simp
  ultimately show "ring_inv (put_one x s)"
    using inv put_one_in_flight [OF assms, of x] used
    by (simp add: ring_inv_def Let_def w') (simp add: put_one_def w')
qed

lemma advance_w_0: "ring_wf cr \<Longrightarrow> advance_w 0 cr = cr"
  by (auto simp: advance_w_def ring_wf_def Let_def)

lemma w_ptr_plus_not_depth:
  assumes "unat (w_ptr cr) + k < unat (depth cr)"
  shows "w_ptr cr + of_nat k \<noteq> depth cr"
    and "unat (w_ptr cr + of_nat k) = unat (w_ptr cr) + k"
proof -
  have k: "unat (of_nat k :: u16) = k"
    using assms by (intro unat_of_nat_le [of _ "depth cr"]) simp
  have "unat (w_ptr cr) + k < 65536"
    using assms unat_u16_lt [of "depth cr"] by linarith
  then show "unat (w_ptr cr + of_nat k) = unat (w_ptr cr) + k"
    using k by (simp add: unat_word_ariths)
  with assms show "w_ptr cr + of_nat k \<noteq> depth cr" by auto
qed

text \<open>Cancelling what was not used of a reservation leaves the reservation of the rest.\<close>

lemma cancel_rest_advance:
  assumes "unat (w_ptr cr) + unat n \<le> unat (depth cr)" "k \<le> unat n"
  shows "cancel_rest n k (advance_w n cr) = advance_w (of_nat k) cr"
proof (cases "k < unat n")
  case True
  then have "w_ptr cr + of_nat k \<noteq> depth cr"
    using assms(1) by (intro w_ptr_plus_not_depth) simp
  moreover have "w_ptr cr + n \<noteq> 0" if "w_ptr cr + n \<noteq> depth cr"
  proof -
    have "unat (w_ptr cr) + unat n \<noteq> unat (depth cr)"
      using that by (metis of_nat_add of_nat_unat ucast_id)
    then have "unat (w_ptr cr) + unat n < unat (depth cr)" using assms(1) by simp
    from w_ptr_plus_not_depth(2) [OF this] True show ?thesis by auto
  qed
  moreover have "w_ptr cr + n = depth cr \<Longrightarrow> depth cr - (n - of_nat k) = w_ptr cr + of_nat k"
    by (drule sym) simp
  ultimately show ?thesis
    using True by (auto simp: cancel_rest_def brcmf_commonring_write_cancel_def advance_w_def Let_def)
next
  case False
  with assms(2) show ?thesis by (simp add: cancel_rest_def)
qed

lemma fold_put_one:
  assumes "ring_inv s" "ring_used (host s) + length xs < unat (depth (host s))"
    "unat (w_ptr (host s)) + length xs \<le> unat (depth (host s))"
  shows "ring_inv (fold put_one xs s) \<and> fold put_one xs s
    = s\<lparr>host := advance_w (of_nat (length xs)) (host s),
        ring_mem := write_items (ring_mem s) (w_slot_addr (host s)) (unat (item_len (host s))) xs,
        produced := produced s @ xs\<rparr>"
  using assms
proof (induction xs arbitrary: s)
  case Nil
  then show ?case by (simp add: ring_inv_def Let_def advance_w_0)
next
  case (Cons x xs)
  have wf: "ring_wf (host s)" using Cons.prems(1) by (simp add: ring_inv_def Let_def)
  have room: "ring_used (host s) + 1 < unat (depth (host s))" using Cons.prems(2) by simp
  note one = put_one_inv [OF Cons.prems(1) room, of x]
  show ?case
  proof (cases xs)
    case Nil
    with one(1) show ?thesis by (simp add: put_one_def fun_upd_def)
  next
    case (Cons y ys)
    let ?cr = "host s"
    have lt: "unat (w_ptr ?cr) + 1 < unat (depth ?cr)" using Cons.prems(3) Cons by simp
    note w = w_ptr_plus_not_depth [OF lt]
    then have adv1: "advance_w 1 ?cr = ?cr\<lparr>w_ptr := w_ptr ?cr + 1\<rparr>"
      by (simp add: advance_w_def Let_def)
    have "ring_inv (fold put_one xs (put_one x s)) \<and> fold put_one xs (put_one x s)
      = (put_one x s)\<lparr>host := advance_w (of_nat (length xs)) (host (put_one x s)),
          ring_mem := write_items (ring_mem (put_one x s)) (w_slot_addr (host (put_one x s)))
             (unat (item_len (host (put_one x s)))) xs,
          produced := produced (put_one x s) @ xs\<rparr>"
      using one Cons.prems w lt by (intro Cons.IH) (simp_all add: put_one_def adv1)
    moreover have "w_slot_addr (advance_w 1 ?cr) = w_slot_addr ?cr + unat (item_len ?cr)"
      using w by (simp add: adv1 w_slot_addr_def)
    moreover have "advance_w (of_nat (length xs)) (advance_w 1 ?cr)
        = advance_w (of_nat (length (x # xs))) ?cr"
      by (simp add: adv1) (simp add: advance_w_def Let_def add.assoc)
    ultimately show ?thesis by (auto simp: put_one_def [of x s])
  qed
qed

subsection \<open>Every step keeps the invariant\<close>

lemma ring_inv_put:
  assumes "ring_inv s" "r \<in> {r_ptr (host s), r_idx (dev s)}"
    "ring_available ((host s)\<lparr>r_ptr := r\<rparr>) > 1" "length xs \<le> unat n"
    "n = 1 \<or> n = granted m ((host s)\<lparr>r_ptr := r\<rparr>)"
  shows "ring_inv (s\<lparr>host := advance_w (of_nat (length xs)) ((host s)\<lparr>r_ptr := r\<rparr>),
     ring_mem := write_items (ring_mem s) (w_slot_addr (host s)) (unat (item_len (host s))) xs,
     produced := produced s @ xs\<rparr>)"
    and "unat (w_ptr (host s)) + unat n \<le> unat (depth (host s))"
proof -
  let ?cr = "(host s)\<lparr>r_ptr := r\<rparr>"
  let ?s = "s\<lparr>host := ?cr\<rparr>"
  have inv: "ring_inv ?s"
    using ring_inv_refresh [OF assms(1,2), of "was_full (host s)"] by simp
  then have wf: "ring_wf ?cr" by (simp add: ring_inv_def Let_def)
  have bounds: "ring_used ?cr + unat n < unat (depth ?cr)"
    "unat (w_ptr ?cr) + unat n \<le> unat (depth ?cr)"
    using assms(5) granted_bounds [OF wf assms(3), of m] available_gt_1 [OF wf] assms(3)
      ring_wfD [OF wf] by auto
  then show "unat (w_ptr (host s)) + unat n \<le> unat (depth (host s))" by simp
  from fold_put_one [OF inv, of xs] bounds assms(4)
  show "ring_inv (s\<lparr>host := advance_w (of_nat (length xs)) ?cr,
     ring_mem := write_items (ring_mem s) (w_slot_addr (host s)) (unat (item_len (host s))) xs,
     produced := produced s @ xs\<rparr>)"
    by (auto simp: w_slot_addr_def)
qed

lemma ring_inv_write:
  assumes "ring_inv s"
    "brcmf_commonring_reserve_for_write pcie_ops (dev s, host s) = (Some a, d, cr)"
  shows "ring_inv (s\<lparr>host := cr, dev := d, ring_mem := (ring_mem s)(a := x),
                   produced := produced s @ [x]\<rparr>)"
  using assms(2)
proof (cases rule: reserve_cases)
  case (2 r)
  from ring_inv_put(1) [OF assms(1) 2(1,4), of "[x]" 1] 2 show ?thesis by (simp add: fun_upd_def)
qed simp

lemma ring_inv_write_full:
  assumes "ring_inv s"
    "brcmf_commonring_reserve_for_write pcie_ops (dev s, host s) = (None, d, cr)"
  shows "ring_inv (s\<lparr>host := cr, dev := d\<rparr>)"
  using assms(2)
proof (cases rule: reserve_cases)
  case (1 r)
  with ring_inv_refresh [OF assms(1) 1(1), of True] show ?thesis by simp
qed simp

lemma ring_inv_post:
  assumes "ring_inv s" "length xs \<le> unat g"
    "brcmf_commonring_reserve_for_write_multiple pcie_ops n (dev s, host s) = (Some (a, g), d, cr)"
  shows "ring_inv (s\<lparr>host := cancel_rest g (length xs) cr, dev := d,
                   ring_mem := write_items (ring_mem s) a (unat (item_len cr)) xs,
                   produced := produced s @ xs\<rparr>)"
  using assms(3)
proof (cases rule: reserve_multiple_cases)
  case (2 r)
  let ?cr = "(host s)\<lparr>r_ptr := r\<rparr>"
  have g: "g = granted n ?cr" using 2(3) by simp
  note put = ring_inv_put [OF assms(1) 2(1,4) assms(2), of n]
  from put(2) g have "cancel_rest g (length xs) (advance_w g ?cr) = advance_w (of_nat (length xs)) ?cr"
    by (intro cancel_rest_advance assms(2)) simp
  with put(1) 2 g show ?thesis by simp
qed simp

lemma ring_inv_post_full:
  assumes "ring_inv s"
    "brcmf_commonring_reserve_for_write_multiple pcie_ops n (dev s, host s) = (None, d, cr)"
  shows "ring_inv (s\<lparr>host := cr, dev := d\<rparr>)"
  using assms(2)
proof (cases rule: reserve_multiple_cases)
  case (1 r)
  with ring_inv_refresh [OF assms(1) 1(1), of True] show ?thesis by simp
qed simp

lemma ring_inv_poll:
  assumes "ring_inv s"
    "brcmf_commonring_write_available pcie_ops (dev s, host s) = (b, d, cr)"
  shows "ring_inv (s\<lparr>host := cr, dev := d\<rparr>)"
  using assms(2)
proof (cases rule: write_available_cases)
  case (1 r wf)
  with ring_inv_refresh [OF assms(1) 1(1), of wf] show ?thesis by simp
qed

lemma write_complete_pcie:
  "brcmf_commonring_write_complete pcie_ops (d, cr) =
     (if dev_up d
      then (Inr (), d\<lparr>w_idx := w_ptr cr, doorbells := doorbells d + 1\<rparr>, cr\<lparr>f_ptr := w_ptr cr\<rparr>)
      else (Inl EIO, d, cr\<lparr>f_ptr := w_ptr cr\<rparr>))"
  by (simp add: brcmf_commonring_write_complete_def pcie_ops_def call_cb_def Let_def
      brcmf_commonring_register_cb_def brcmf_pcie_ring_mb_write_wptr_def
      brcmf_pcie_ring_mb_ring_bell_def)

lemma ring_inv_commit:
  assumes "ring_inv s"
    "brcmf_commonring_write_complete pcie_ops (dev s, host s) = (res, d, cr)"
  shows "ring_inv (s\<lparr>host := cr, dev := d\<rparr>)"
proof (cases "dev_up (dev s)")
  case True
  with assms show ?thesis
    by (auto simp: write_complete_pcie ring_inv_def Let_def ring_wf_def ring_used_def in_flight_def
        slot_addr_def)
next
  case False
  with assms show ?thesis
    by (auto simp: write_complete_pcie ring_inv_def Let_def ring_wf_def ring_used_def in_flight_def
        slot_addr_def)
qed

definition device_next :: "'m ring_sys \<Rightarrow> 'm ring_sys" where
  "device_next s = s\<lparr>dev := (dev s)\<lparr>r_idx := if r_idx (dev s) + 1 = depth (host s) then 0
                                            else r_idx (dev s) + 1\<rparr>,
     consumed := consumed s @ [ring_mem s (slot_addr (host s) (unat (r_idx (dev s))))]\<rparr>"

lemma device_next_r_idx:
  assumes "ring_inv s"
  shows "unat (r_idx (dev (device_next s)))
    = adv (unat (depth (host s))) (unat (r_idx (dev s))) 1"
proof -
  let ?d = "dev s" and ?cr = "host s"
  have lt: "r_idx ?d < depth ?cr" using assms by (simp add: ring_inv_def Let_def)
  then have suc: "unat (r_idx ?d + 1) = unat (r_idx ?d) + 1" by (rule unat_succ_lt)
  then have "r_idx ?d + 1 = depth ?cr \<longleftrightarrow> unat (r_idx ?d) + 1 = unat (depth ?cr)"
    by (simp add: word_unat_eq_iff)
  with suc lt show ?thesis by (auto simp: device_next_def adv_def word_less_nat_alt)
qed

lemma ring_inv_device:
  assumes inv: "ring_inv s" and ne: "r_idx (dev s) \<noteq> w_idx (dev s)"
  shows "ring_inv (device_next s)"
proof -
  let ?D = "unat (depth (host s))" and ?r = "unat (r_idx (dev s))" and ?w = "unat (w_ptr (host s))"
  let ?wi = "unat (w_idx (dev s))" and ?rp = "unat (r_ptr (host s))"
  let ?r' = "unat (r_idx (dev (device_next s)))"
  have wf: "ring_wf (host s)" and r: "?r < ?D" and wi: "?wi < ?D"
    and pub: "dist ?D ?r ?wi \<le> dist ?D ?r ?w" and stale: "dist ?D ?rp ?r \<le> dist ?D ?rp ?w"
    and hist: "produced s = consumed s @ in_flight s" and il: "item_len (host s) > 0"
    using inv by (simp_all add: ring_inv_def Let_def word_less_nat_alt ring_used_def)
  have w: "?w < ?D" and rp: "?rp < ?D" using ring_wfD [OF wf] by simp_all
  have r': "?r' = adv ?D ?r 1" using inv by (rule device_next_r_idx)
  have "?r \<noteq> ?wi" using ne by (simp add: word_unat_eq_iff)
  then have pos: "1 \<le> dist ?D ?r ?wi" using r wi by (auto simp: dist_def)
  then have pos': "1 \<le> dist ?D ?r ?w" using pub by simp
  have len: "dist ?D ?r' ?w = dist ?D ?r ?w - 1" and "dist ?D ?r' ?wi = dist ?D ?r ?wi - 1"
    using dist_adv_left [OF r w pos'] dist_adv_left [OF r wi pos] r' by simp_all
  moreover have "dist ?D ?rp ?w = dist ?D ?rp ?r + dist ?D ?r ?w"
    using rp r w stale by (rule dist_split)
  then have "dist ?D ?rp ?r' \<le> dist ?D ?rp ?w"
    using dist_adv_right [OF rp r, of 1] dist_less [OF rp w] pos' r' by simp
  moreover have "in_flight s = ring_mem s (slot_addr (host s) ?r) # in_flight (device_next s)"
  proof -
    obtain k where k: "dist ?D ?r ?w = Suc k" using pos' by (cases "dist ?D ?r ?w") auto
    have "Suc k \<le> ?D" using k dist_less [OF r w] by simp
    from slots_Cons [OF r this] k len r' show ?thesis
      by (simp add: in_flight_def device_next_def Let_def)
  qed
  moreover have "?r' < ?D" using r' adv_less [OF r, of 1] r by simp
  ultimately show ?thesis
    using wf il wi hist pub
    by (simp add: ring_inv_def Let_def word_less_nat_alt ring_used_def) (simp add: device_next_def)
qed

lemma ring_step_inv:
  assumes "ring_step s s'" "ring_inv s"
  shows "ring_inv s'"
  using assms
proof cases
  case (device_read)
  with ring_inv_device [OF assms(2)] show ?thesis by (simp add: device_next_def)
next
  case (bus_power b)
  with assms(2) show ?thesis
    by (simp add: ring_inv_def Let_def in_flight_def)
qed (use assms(2) in \<open>auto intro: ring_inv_write ring_inv_write_full ring_inv_post ring_inv_post_full
      ring_inv_poll ring_inv_commit\<close>)

lemma ring_reachable_inv: "ring_reachable s \<Longrightarrow> ring_inv s"
proof (induction rule: ring_reachable.induct)
  case (start dp il d buf cr d' cr' m)
  have "dp > 0" using start(1) by (rule le_less_trans [rotated]) simp
  with start show ?case
    by (auto simp: brcmf_commonring_config_def pcie_ops_def brcmf_commonring_register_cb_def
        call_cb_def brcmf_pcie_ring_mb_write_rptr_def brcmf_pcie_ring_mb_write_wptr_def Let_def
        ring_inv_def ring_wf_def ring_used_def in_flight_def slots_def split: if_splits)
next
  case (step s s')
  then show ?case by (blast intro: ring_step_inv)
qed

subsection \<open>Properties\<close>

lemma length_in_flight:
  assumes "ring_inv s"
  shows "length (in_flight s) < unat (depth (host s))"
  using assms ring_wfD [of "host s"]
  by (auto simp: ring_inv_def in_flight_def Let_def word_less_nat_alt intro!: dist_less)

text \<open>
  C1: In every reachable state of a submission ring the messages the host wrote are the
  messages the device has read followed by the messages still in the ring, in the same
  order: no message is lost, duplicated, reordered or overwritten before it is read, however
  stale the host's copy of the read index is. At least one slot is always free.
\<close>
theorem ring_delivers_in_order:
  assumes "ring_reachable s"
  shows "produced s = consumed s @ in_flight s \<and> length (in_flight s) < unat (depth (host s))"
  using ring_reachable_inv [OF assms] length_in_flight by (auto simp: ring_inv_def Let_def)

text \<open>A small ring with one message written and published, and one written only.\<close>

definition ring0 :: "nat ring_sys" where
  "ring0 = (let (d, cr) = brcmf_commonring_config pcie_ops 3 8 4096
       (\<lparr>dev_up = True, r_idx = 0, w_idx = 0, doorbells = 0\<rparr>,
        \<lparr>r_ptr = 0, w_ptr = 0, f_ptr = 0, depth = 0, item_len = 0, buf_addr = 0,
         inited = False, was_full = False\<rparr>)
     in \<lparr>host = cr, dev = d, ring_mem = (\<lambda>_. 0), produced = [], consumed = []\<rparr>)"

definition ring_write :: "'m \<Rightarrow> 'm ring_sys \<Rightarrow> 'm ring_sys" where
  "ring_write x s = (case brcmf_commonring_reserve_for_write pcie_ops (dev s, host s) of
      (Some a, d, cr) \<Rightarrow> s\<lparr>host := cr, dev := d, ring_mem := (ring_mem s)(a := x),
                          produced := produced s @ [x]\<rparr>
    | (None, d, cr) \<Rightarrow> s\<lparr>host := cr, dev := d\<rparr>)"

definition ring_commit :: "'m ring_sys \<Rightarrow> 'm ring_sys" where
  "ring_commit s = (case brcmf_commonring_write_complete pcie_ops (dev s, host s) of
      (_, d, cr) \<Rightarrow> s\<lparr>host := cr, dev := d\<rparr>)"

lemma ring0_reachable: "ring_reachable ring0"
  unfolding ring0_def Let_def
  by (auto split: prod.splits intro!: ring_reachable.start)

lemma ring_write_reachable: "ring_reachable s \<Longrightarrow> ring_reachable (ring_write x s)"
  by (auto simp: ring_write_def split: prod.splits option.splits
      intro: ring_reachable.step ring_step.host_write ring_step.host_full)

lemma ring_commit_reachable: "ring_reachable s \<Longrightarrow> ring_reachable (ring_commit s)"
  by (auto simp: ring_commit_def split: prod.splits intro: ring_reachable.step ring_step.host_commit)

lemma device_next_reachable:
  "ring_reachable s \<Longrightarrow> r_idx (dev s) \<noteq> w_idx (dev s) \<Longrightarrow> ring_reachable (device_next s)"
  unfolding device_next_def by (erule ring_reachable.step) (rule ring_step.device_read)

lemmas ring_runs = ring0_reachable ring_write_reachable ring_commit_reachable device_next_reachable

definition sample_ring :: "nat ring_sys" where
  "sample_ring = ring_write 9 (device_next (ring_commit (ring_write 8 (ring_write 7 ring0))))"

lemma sample_ring_reachable: "ring_reachable sample_ring"
  unfolding sample_ring_def by (intro ring_runs) code_simp

theorem ring_delivers_in_order_witness:
  "produced sample_ring = consumed sample_ring @ in_flight sample_ring \<and>
   length (in_flight sample_ring) < unat (depth (host sample_ring)) \<and>
   consumed sample_ring = [7] \<and> in_flight sample_ring = [8, 9]"
proof -
  have "consumed sample_ring = [7] \<and> in_flight sample_ring = [8, 9]" by code_simp
  with ring_delivers_in_order [OF sample_ring_reachable] show ?thesis by simp
qed

text \<open>With room in the ring a message is written, and nothing of it is published.\<close>

lemma ring_write_room:
  assumes inv: "ring_inv s" and up: "dev_up (dev s)" and room: "length (in_flight s) + 1 < unat (depth (host s))"
  shows "ring_inv (ring_write x s)" "in_flight (ring_write x s) = in_flight s @ [x]" "produced (ring_write x s) = produced s @ [x]"
    "consumed (ring_write x s) = consumed s" "dev (ring_write x s) = dev s" "depth (host (ring_write x s)) = depth (host s)"
proof -
  obtain res d cr where r: "brcmf_commonring_reserve_for_write pcie_ops (dev s, host s) = (res, d, cr)"
    by (metis prod.collapse)
  have len: "length (in_flight s) = dist (unat (depth (host s))) (unat (r_idx (dev s))) (unat (w_ptr (host s)))"
    by (simp add: in_flight_def Let_def)
  from r have "ring_inv (ring_write x s) \<and> in_flight (ring_write x s) = in_flight s @ [x] \<and>
    produced (ring_write x s) = produced s @ [x] \<and> consumed (ring_write x s) = consumed s \<and>
    dev (ring_write x s) = dev s \<and> depth (host (ring_write x s)) = depth (host s)"
  proof (cases rule: reserve_cases)
    case (1 q)
    note inv' = ring_inv_refresh [OF inv 1(1), of "was_full (host s)"]
    then have "ring_wf ((host s)\<lparr>r_ptr := q\<rparr>)" by (simp add: ring_inv_def Let_def)
    from available_gt_1 [OF this] 1(4) have "\<not> ring_used ((host s)\<lparr>r_ptr := q\<rparr>) + 1 < unat (depth (host s))" by simp
    with 1(6) up room len show ?thesis by (simp add: ring_used_def)
  next
    case (2 q)
    let ?s = "s\<lparr>host := (host s)\<lparr>r_ptr := q\<rparr>\<rparr>"
    have inv': "ring_inv ?s" using ring_inv_refresh [OF inv 2(1), of "was_full (host s)"] by simp
    then have "ring_wf (host ?s)" by (simp add: ring_inv_def Let_def)
    from available_gt_1 [OF this] 2(4) have used: "ring_used (host ?s) + 1 < unat (depth (host ?s))" by simp
    have w: "ring_write x s = put_one x ?s"
      using r 2 by (simp add: ring_write_def put_one_def w_slot_addr_def)
    have "in_flight ?s = in_flight s"
      unfolding in_flight_def slot_addr_def by simp
    with put_one_inv(1) [OF inv' used] put_one_in_flight [OF inv' used] show ?thesis
      by (simp add: w) (simp add: put_one_def)
  qed
  then show "ring_inv (ring_write x s)" "in_flight (ring_write x s) = in_flight s @ [x]" "produced (ring_write x s) = produced s @ [x]"
    "consumed (ring_write x s) = consumed s" "dev (ring_write x s) = dev s" "depth (host (ring_write x s)) = depth (host s)"
    by simp_all
qed

lemma ring_writes_room:
  assumes "ring_inv s" "dev_up (dev s)" "length (in_flight s) + length xs < unat (depth (host s))"
  shows "ring_inv (fold ring_write xs s) \<and> in_flight (fold ring_write xs s) = in_flight s @ xs \<and>
    produced (fold ring_write xs s) = produced s @ xs \<and> consumed (fold ring_write xs s) = consumed s \<and>
    dev (fold ring_write xs s) = dev s \<and> depth (host (fold ring_write xs s)) = depth (host s)"
  using assms
proof (induction xs arbitrary: s)
  case (Cons x xs)
  have room: "length (in_flight s) + 1 < unat (depth (host s))" using Cons.prems(3) by simp
  note w = ring_write_room [OF Cons.prems(1,2) room]
  show ?case using Cons.IH [of "ring_write x s"] Cons.prems w by simp
qed simp

text \<open>The device reads one message after the other, until it has read all that was published.\<close>

lemma device_reads:
  assumes "ring_inv s" "w_idx (dev s) = w_ptr (host s)" "k \<le> length (in_flight s)"
  defines "t \<equiv> (device_next ^^ k) s"
  shows "ring_inv t \<and> host t = host s \<and> produced t = produced s \<and> w_idx (dev t) = w_idx (dev s) \<and>
    in_flight t = drop k (in_flight s)"
  using assms(3) unfolding t_def
proof (induction k)
  case 0
  then show ?case using assms(1) by simp
next
  case (Suc k)
  let ?t = "(device_next ^^ k) s"
  have t: "ring_inv ?t" "host ?t = host s" "produced ?t = produced s" "w_idx (dev ?t) = w_idx (dev s)"
    "in_flight ?t = drop k (in_flight s)" using Suc by simp_all
  have "in_flight ?t \<noteq> []" using t(5) Suc.prems by simp
  then have ne: "r_idx (dev ?t) \<noteq> w_idx (dev ?t)"
    using assms(2) t(2,4) by (auto simp: in_flight_def Let_def slots_def)
  have inv: "ring_inv (device_next ?t)" by (rule ring_inv_device [OF t(1) ne])
  have "produced ?t = consumed ?t @ in_flight ?t" "produced (device_next ?t) = consumed (device_next ?t) @ in_flight (device_next ?t)"
    using t(1) inv by (simp_all add: ring_inv_def Let_def)
  then have "tl (in_flight ?t) = in_flight (device_next ?t)"
    by (simp add: device_next_def [of ?t])
  moreover have "host (device_next ?t) = host ?t" "produced (device_next ?t) = produced ?t" "w_idx (dev (device_next ?t)) = w_idx (dev ?t)"
    by (simp_all add: device_next_def)
  ultimately show ?case using inv t by (simp add: drop_Suc tl_drop)
qed

lemma in_flight_empty:
  assumes "ring_inv s" "w_idx (dev s) = w_ptr (host s)"
  shows "in_flight s = [] \<longleftrightarrow> r_idx (dev s) = w_idx (dev s)"
proof -
  have "unat (r_idx (dev s)) < unat (depth (host s))" "unat (w_ptr (host s)) < unat (depth (host s))"
    using assms(1) ring_wfD [of "host s"] by (simp_all add: ring_inv_def Let_def word_less_nat_alt)
  then show ?thesis
    using assms(2) by (auto simp: in_flight_def Let_def dist_def slots_def word_unat_eq_iff split: if_splits)
qed

text \<open>
  C31: A batch of messages with room in the ring, while the bus is up. As long as the host writes
  them the device sees none of them; completing the write publishes them all and rings the
  doorbell once. From then on the device, reading while the indices differ, reads every message
  the host ever wrote, one after the other and in order, and stops exactly behind the last one;
  the host takes no step.
\<close>
theorem ring_commit_publishes_batch:
  assumes "ring_reachable s" "dev_up (dev s)" "length (in_flight s) + length xs < unat (depth (host s))"
  defines "n \<equiv> length (in_flight s) + length xs" and "s1 \<equiv> ring_commit (fold ring_write xs s)"
  shows "dev (fold ring_write xs s) = dev s \<and> produced s1 = produced s @ xs \<and> consumed s1 = consumed s \<and>
    w_idx (dev s1) = w_ptr (host s1) \<and> doorbells (dev s1) = doorbells (dev s) + 1 \<and>
    (\<forall>k\<le>n. consumed ((device_next ^^ k) s1) = take (length (consumed s) + k) (produced s @ xs) \<and>
       host ((device_next ^^ k) s1) = host s1 \<and>
       (r_idx (dev ((device_next ^^ k) s1)) = w_idx (dev ((device_next ^^ k) s1)) \<longleftrightarrow> k = n))"
proof -
  let ?w = "fold ring_write xs s"
  have w: "ring_inv ?w" "in_flight ?w = in_flight s @ xs" "produced ?w = produced s @ xs" "consumed ?w = consumed s" "dev ?w = dev s"
    using ring_writes_room [OF ring_reachable_inv [OF assms(1)] assms(2,3)] by simp_all
  have s1: "s1 = ?w\<lparr>host := (host ?w)\<lparr>f_ptr := w_ptr (host ?w)\<rparr>,
      dev := (dev s)\<lparr>w_idx := w_ptr (host ?w), doorbells := doorbells (dev s) + 1\<rparr>\<rparr>"
    using assms(2) w(5) by (simp add: s1_def ring_commit_def write_complete_pcie)
  have inv: "ring_inv s1" using ring_inv_commit [OF w(1)] unfolding s1_def ring_commit_def by (auto split: prod.split)
  have fl: "in_flight s1 = in_flight s @ xs"
    using w(2,5) unfolding s1 in_flight_def slot_addr_def by simp
  have pub: "w_idx (dev s1) = w_ptr (host s1)" by (simp add: s1)
  have "consumed ((device_next ^^ k) s1) = take (length (consumed s) + k) (produced s @ xs) \<and>
       host ((device_next ^^ k) s1) = host s1 \<and>
       (r_idx (dev ((device_next ^^ k) s1)) = w_idx (dev ((device_next ^^ k) s1)) \<longleftrightarrow> k = n)" if k: "k \<le> n" for k
  proof -
    let ?t = "(device_next ^^ k) s1"
    have t: "ring_inv ?t" "host ?t = host s1" "produced ?t = produced s1" "w_idx (dev ?t) = w_idx (dev s1)"
      "in_flight ?t = drop k (in_flight s1)"
      using device_reads [OF inv pub, of k] k fl by (simp_all add: n_def)
    have eq: "consumed s @ in_flight s @ xs = consumed ?t @ drop k (in_flight s @ xs)" "produced s @ xs = consumed s @ in_flight s @ xs"
      using inv t(1,3,5) fl w(3,4) by (simp_all add: ring_inv_def Let_def s1)
    then have "consumed ?t = consumed s @ take k (in_flight s @ xs)"
      by (metis append.assoc append_same_eq append_take_drop_id)
    moreover have "k = n \<longleftrightarrow> in_flight ?t = []" using k t(5) fl by (auto simp: n_def)
    ultimately show ?thesis
      using in_flight_empty [OF t(1)] t(2,4) pub eq(2) by simp
  qed
  then show ?thesis using w s1 pub by simp
qed

definition half_read_ring :: "nat ring_sys" where
  "half_read_ring = device_next (ring_commit (ring_write 8 (ring_write 7 ring0)))"

lemma half_read_ring_reachable: "ring_reachable half_read_ring"
  unfolding half_read_ring_def by (intro ring_runs) code_simp

lemma half_read_ring_eqs:
  "dev_up (dev half_read_ring)" "in_flight half_read_ring = [8]" "unat (depth (host half_read_ring)) = 3"
  "consumed half_read_ring = [7]" "produced half_read_ring = [7, 8]"
proof -
  show "dev_up (dev half_read_ring)" by code_simp
  show "in_flight half_read_ring = [8]" by code_simp
  have "depth (host half_read_ring) = 3" by code_simp
  then show "unat (depth (host half_read_ring)) = 3" by simp
  show "consumed half_read_ring = [7]" by code_simp
  show "produced half_read_ring = [7, 8]" by code_simp
qed

theorem ring_commit_publishes_batch_witness:
  "dev (fold ring_write [9] half_read_ring) = dev half_read_ring \<and>
   consumed ((device_next ^^ 2) (ring_commit (fold ring_write [9] half_read_ring))) = [7, 8, 9]"
proof -
  have "length (in_flight half_read_ring) + length [9 :: nat] < unat (depth (host half_read_ring))"
    by (simp add: half_read_ring_eqs)
  note r = ring_commit_publishes_batch [OF half_read_ring_reachable half_read_ring_eqs(1) this]
  have "length (in_flight half_read_ring) + length [9 :: nat] = 2" by (simp add: half_read_ring_eqs)
  with r show ?thesis unfolding half_read_ring_eqs by auto
qed

text \<open>
  While the bus is up, reserving a slot fails only when the ring is full: all slots but
  one hold messages the device has not read yet.
\<close>
theorem ring_reserve_fails_only_when_full:
  assumes "ring_reachable s" "dev_up (dev s)"
    "brcmf_commonring_reserve_for_write pcie_ops (dev s, host s) = (None, d, cr)"
  shows "length (in_flight s) + 1 = unat (depth (host s))"
  using assms(3)
proof (cases rule: reserve_cases)
  case (1 r)
  let ?cr = "(host s)\<lparr>r_ptr := r\<rparr>"
  have inv: "ring_inv s" using assms(1) by (rule ring_reachable_inv)
  from 1(6) assms(2) have r: "r = r_idx (dev s)" by simp
  from ring_inv_refresh [OF inv 1(1), of "was_full (host s)"] have "ring_wf ?cr"
    by (simp add: ring_inv_def Let_def)
  from available_gt_1 [OF this] 1(4) have "\<not> ring_used ?cr + 1 < unat (depth (host s))" by simp
  then show ?thesis
    using length_in_flight [OF inv] by (simp add: r ring_used_def in_flight_def Let_def)
qed simp

theorem ring_reserve_fails_only_when_full_witness:
  "\<exists>d cr. brcmf_commonring_reserve_for_write pcie_ops (dev sample_ring, host sample_ring) = (None, d, cr) \<and>
   length (in_flight sample_ring) + 1 = unat (depth (host sample_ring))"
proof -
  let ?r = "brcmf_commonring_reserve_for_write pcie_ops (dev sample_ring, host sample_ring)"
  have "fst ?r = None" "dev_up (dev sample_ring)" by code_simp+
  moreover obtain d cr where r: "?r = (fst ?r, d, cr)" by (metis prod.collapse)
  ultimately have "?r = (None, d, cr)" by simp
  with ring_reserve_fails_only_when_full [OF sample_ring_reachable _ this]
    \<open>dev_up (dev sample_ring)\<close> show ?thesis by blast
qed

text \<open>
  A reservation of several slots grants at least one and at most as many as were asked
  for, all of them free and in one piece before the end of the ring; cancelling the whole
  reservation puts the write index back where it was.
\<close>
theorem ring_reserve_multiple_cancel:
  assumes "ring_wf cr" "r_idx d < depth cr" "n \<noteq> 0"
    "brcmf_commonring_reserve_for_write_multiple pcie_ops n (d, cr) = (Some (a, g), d', cr')"
  shows "1 \<le> g \<and> g \<le> n \<and> a = w_slot_addr cr \<and> unat (w_ptr cr) + unat g \<le> unat (depth cr) \<and>
    ring_used (cr\<lparr>r_ptr := r_ptr cr'\<rparr>) + unat g < unat (depth cr) \<and> ring_wf cr' \<and>
    w_ptr (brcmf_commonring_write_cancel g cr') = w_ptr cr"
  using assms(4)
proof (cases rule: reserve_multiple_cases)
  case (2 r)
  let ?cr = "cr\<lparr>r_ptr := r\<rparr>"
  have wf: "ring_wf ?cr" using assms(1,2) 2(1) by (auto simp: ring_wf_def)
  have g: "g = granted n ?cr" "cr' = advance_w g ?cr" using 2 by simp_all
  note b = granted_bounds [OF wf 2(4), of n, folded g]
  have pos: "0 < unat g" using b(4) assms(3) by (simp add: unat_gt_0)
  have "cancel_rest g 0 (advance_w g ?cr) = advance_w (of_nat 0) ?cr"
    using b(3) by (intro cancel_rest_advance) simp_all
  then have "brcmf_commonring_write_cancel g cr' = ?cr"
    using pos by (simp add: cancel_rest_def advance_w_0 [OF wf] g(2))
  then have "w_ptr (brcmf_commonring_write_cancel g cr') = w_ptr cr" by simp
  moreover have "r_ptr cr' = r" by (simp add: g(2))
  moreover have "ring_wf cr'" unfolding g(2) using wf b(3) by (rule advance_w_wf)
  ultimately show ?thesis
    using 2(3) b pos by (simp add: word_le_nat_alt)
qed simp

theorem ring_reserve_multiple_cancel_witness:
  "\<exists>d' cr'. brcmf_commonring_reserve_for_write_multiple pcie_ops 5 (dev ring0, host ring0)
     = (Some (4096, 2), d', cr') \<and>
   w_ptr (brcmf_commonring_write_cancel 2 cr') = w_ptr (host ring0)"
proof -
  let ?r = "brcmf_commonring_reserve_for_write_multiple pcie_ops 5 (dev ring0, host ring0)"
  have hyps: "ring_wf (host ring0)" "r_idx (dev ring0) < depth (host ring0)" "(5 :: u16) \<noteq> 0"
    by code_simp+
  have "fst ?r = Some (4096, 2)" by code_simp
  moreover obtain d' cr' where "?r = (fst ?r, d', cr')" by (metis prod.collapse)
  ultimately have r: "?r = (Some (4096, 2), d', cr')" by simp
  from ring_reserve_multiple_cancel [OF hyps r] r show ?thesis by blast
qed

text \<open>
  On a ring the host reads, the pointer handed out covers a block that lies in front of
  the write index and ends before the end of the ring, and it is null exactly when the ring
  is empty. Completing the read of some of these items moves the read index past exactly
  those, publishes it and keeps the ring well formed.
\<close>
theorem ring_read_block:
  assumes "ring_wf cr" "dev_up d" "w_idx d < depth cr"
    "brcmf_commonring_get_read_ptr pcie_ops (d, cr) = ((p, n), d', cr')" "k \<le> n"
    "brcmf_commonring_read_complete pcie_ops k (d', cr') = (res, d'', cr'')"
  shows "unat (r_ptr cr) + unat n \<le> unat (depth cr) \<and> unat n \<le> ring_used cr' \<and>
    (p = None \<longleftrightarrow> r_ptr cr = w_idx d) \<and>
    ring_wf cr'' \<and> ring_used cr'' = ring_used cr' - unat k \<and> res = Inr () \<and> r_idx d'' = r_ptr cr''"
proof -
  let ?D = "unat (depth cr)" and ?r = "unat (r_ptr cr)" and ?w = "unat (w_idx d)"
  have cr': "cr' = cr\<lparr>w_ptr := w_idx d\<rparr>" "d' = d"
    and n: "n = (if w_idx d \<ge> r_ptr cr then w_idx d - r_ptr cr else depth cr - r_ptr cr)"
    and p: "p = None \<longleftrightarrow> n = 0"
    using assms(2,4)
    by (auto simp: brcmf_commonring_get_read_ptr_def pcie_ops_def brcmf_commonring_register_cb_def
        call_cb_def brcmf_pcie_ring_mb_update_wptr_def Let_def split: if_splits)
  have r: "?r < ?D" and w: "?w < ?D"
    using ring_wfD [OF assms(1)] assms(3) by (simp_all add: word_less_nat_alt)
  have un: "unat n = (if ?r \<le> ?w then ?w - ?r else ?D - ?r)"
    using n r by (auto simp: word_le_nat_alt intro!: unat_sub)
  have le: "?r + unat n \<le> ?D" "unat n \<le> dist ?D ?r ?w"
    using un r w by (auto simp: dist_def)
  have k: "unat k \<le> unat n" using assms(5) by (simp add: word_le_nat_alt)
  have rk: "unat (r_ptr cr + k) = ?r + unat k"
  proof -
    have "?r + unat k < 65536" using k le unat_u16_lt [of "depth cr"] by linarith
    then show ?thesis by (simp add: unat_word_ariths)
  qed
  define r2 where "r2 = (if r_ptr cr + k = depth cr then 0 else r_ptr cr + k)"
  have "unat r2 = adv ?D ?r (unat k)"
    using rk k le by (auto simp: r2_def adv_def word_unat_eq_iff)
  moreover have "unat k \<le> dist ?D ?r ?w" using k le by simp
  ultimately have "dist ?D (unat r2) ?w = dist ?D ?r ?w - unat k" "unat r2 < ?D"
    using dist_adv_left [OF r w, of "unat k"] adv_less [OF r, of "unat k"] k le by auto
  moreover have "cr'' = cr'\<lparr>r_ptr := r2\<rparr>" "res = Inr ()" "r_idx d'' = r2"
    using assms(2,6)
    by (auto simp: brcmf_commonring_read_complete_def pcie_ops_def brcmf_commonring_register_cb_def
        brcmf_pcie_ring_mb_write_rptr_def Let_def cr' r2_def split: if_splits)
  moreover have "n = 0 \<longleftrightarrow> r_ptr cr = w_idx d"
    using un r by (auto simp: word_unat_eq_iff split: if_splits)
  ultimately show ?thesis
    using assms(1,3) le p by (auto simp: cr' ring_used_def ring_wf_def word_less_nat_alt)
qed

theorem ring_read_block_witness:
  "\<exists>d' cr' d'' cr''. brcmf_commonring_get_read_ptr pcie_ops
      ((dev ring0)\<lparr>w_idx := 2\<rparr>, host ring0) = ((Some 4096, 2), d', cr') \<and>
    brcmf_commonring_read_complete pcie_ops 1 (d', cr') = (Inr (), d'', cr'') \<and>
    ring_wf cr'' \<and> ring_used cr'' = ring_used cr' - 1 \<and> r_idx d'' = r_ptr cr''"
proof -
  let ?d = "(dev ring0)\<lparr>w_idx := 2\<rparr>"
  let ?g = "brcmf_commonring_get_read_ptr pcie_ops (?d, host ring0)"
  have hyps: "ring_wf (host ring0)" "dev_up ?d" "w_idx ?d < depth (host ring0)" "(1 :: u16) \<le> 2"
    by code_simp+
  have "fst ?g = (Some 4096, 2)" by code_simp
  moreover obtain d' cr' where "?g = (fst ?g, d', cr')" by (metis prod.collapse)
  ultimately have g: "?g = ((Some 4096, 2), d', cr')" by simp
  obtain res d'' cr'' where
    c: "brcmf_commonring_read_complete pcie_ops 1 (d', cr') = (res, d'', cr'')" by (metis prod.collapse)
  from ring_read_block [OF hyps(1-3) g hyps(4) c] g c show ?thesis by auto
qed

end
