(* ===== verification/Flowring.thy ===== *)
theory Flowring
  imports Fws_Queue Fifo_Interface
begin

section \<open>Flow rings (brcmfmac/flowring.c)\<close>

text \<open>
  The message-buffer protocol has one transmit ring per flow. A flow is a destination address,
  a traffic class and an interface; a hash table of 512 entries maps it to the number of its
  ring. For an interface in indirect mode (a station) the address does not count, except that
  of a directly linked peer. Each ring has a list of packets that wait, a status, and a mark
  that it has too many packets; an interface is stopped while such a ring is on it.

  The operations are those of \<open>flowring.c\<close>. A ring that does not exist, or an index outside an
  array, is dereferenced where the result is \<open>None\<close>. The list of directly linked peers is a
  linked list in the source and a list here. Allocations succeed or fail by a parameter.

  Shown: the table and the rings refer to each other one to one in every reachable state; a
  flow that was created is found; an interface is stopped only while one of its rings is
  blocked; the packets of a ring leave in order.
\<close>

subsection \<open>State\<close>

record brcmf_flowring_hash =
  h_mac :: "u8 list"
  h_fifo :: nat
  h_ifidx :: u8
  h_flowid :: u16

datatype ring_status = RING_CLOSED | RING_CLOSING | RING_OPEN

datatype proto_addr_mode = ADDR_INDIRECT | ADDR_DIRECT

record brcmf_flowring_ring =
  hash_id :: nat
  ring_blocked :: bool
  status :: ring_status
  skblist :: "pkt list"

text \<open>The fields of the source, with the interfaces and the packets given back to the stack.\<close>

record brcmf_flowring =
  hash :: "brcmf_flowring_hash list"
  rings :: "brcmf_flowring_ring option list"
  addr_mode :: "proto_addr_mode list"
  tdls_active :: bool
  tdls_entry :: "u8 list list"
  net_ifs :: "nat \<Rightarrow> brcmf_if option"
  finalized :: "pkt list"

abbreviation (input) BRCMF_FLOWRING_HASHSIZE :: nat where "BRCMF_FLOWRING_HASHSIZE \<equiv> 512"
abbreviation (input) BRCMF_FLOWRING_INVALID_ID :: u32 where "BRCMF_FLOWRING_INVALID_ID \<equiv> 0xFFFFFFFF"
abbreviation (input) BRCMF_FLOWRING_HIGH :: nat where "BRCMF_FLOWRING_HIGH \<equiv> 1024"
abbreviation (input) BRCMF_FLOWRING_LOW :: nat where "BRCMF_FLOWRING_LOW \<equiv> 768"
abbreviation (input) BRCMF_FLOWRING_INVALID_IFIDX :: u8 where "BRCMF_FLOWRING_INVALID_IFIDX \<equiv> 0xff"
abbreviation (input) ZEROMAC :: "u8 list" where "ZEROMAC \<equiv> [0, 0, 0, 0, 0, 0]"
abbreviation (input) ALLFFMAC :: "u8 list" where "ALLFFMAC \<equiv> [0xff, 0xff, 0xff, 0xff, 0xff, 0xff]"

definition brcmf_flowring_prio2fifo :: "nat list" where
  "brcmf_flowring_prio2fifo = [0, 1, 1, 0, 2, 2, 3, 3]"

definition ring_at :: "u16 \<Rightarrow> brcmf_flowring \<Rightarrow> brcmf_flowring_ring option" where
  "ring_at flowid flow = (if unat flowid < length (rings flow) then rings flow ! unat flowid else None)"

definition upd_ring ::
    "u16 \<Rightarrow> (brcmf_flowring_ring \<Rightarrow> brcmf_flowring_ring) \<Rightarrow> brcmf_flowring \<Rightarrow> brcmf_flowring" where
  "upd_ring flowid f flow = flow\<lparr>rings := (rings flow)[unat flowid := map_option f (rings flow ! unat flowid)]\<rparr>"

subsection \<open>Finding and creating a flow\<close>

definition brcmf_flowring_is_tdls_mac :: "brcmf_flowring \<Rightarrow> u8 list \<Rightarrow> bool" where
  "brcmf_flowring_is_tdls_mac flow mac = list_ex (\<lambda>e. e = mac) (tdls_entry flow)"

text \<open>
  The beginning that \<open>brcmf_flowring_lookup\<close> and \<open>brcmf_flowring_create\<close> share: whether the
  address is ignored, the address and class looked for, and the place where the search starts.
\<close>

definition flow_key ::
    "brcmf_flowring \<Rightarrow> u8 list \<Rightarrow> u8 \<Rightarrow> u8 \<Rightarrow> (bool \<times> u8 list \<times> nat \<times> nat) option" where
  "flow_key flow da prio ifx =
     (if unat prio \<ge> length brcmf_flowring_prio2fifo \<or> unat ifx \<ge> length (addr_mode flow) then None
      else
        let fifo = brcmf_flowring_prio2fifo ! unat prio;
            sta = (addr_mode flow ! unat ifx = ADDR_INDIRECT);
            group = (\<not> sta \<and> da ! 0 AND 1 \<noteq> 0);
            mac = (if group then ALLFFMAC else da);
            fifo = (if group then 0 else fifo);
            sta = (if sta \<and> tdls_active flow \<and> brcmf_flowring_is_tdls_mac flow da then False else sta);
            hash_idx = (if sta then fifo + unat ifx * 16 else unat (mac ! 5) * 2 + fifo + unat ifx * 16)
        in Some (sta, mac, fifo, hash_idx mod BRCMF_FLOWRING_HASHSIZE))"

definition key_match :: "bool \<Rightarrow> u8 list \<Rightarrow> nat \<Rightarrow> u8 \<Rightarrow> brcmf_flowring_hash \<Rightarrow> bool" where
  "key_match sta mac fifo ifx h \<longleftrightarrow> (sta \<or> h_mac h = mac) \<and> h_fifo h = fifo \<and> h_ifidx h = ifx"

text \<open>The search around the table, from a place on: the place of the first entry that satisfies \<open>P\<close>.\<close>

definition hash_search :: "(brcmf_flowring_hash \<Rightarrow> bool) \<Rightarrow> nat \<Rightarrow> brcmf_flowring \<Rightarrow> nat option" where
  "hash_search P start flow =
     map_option (\<lambda>i. (start + i) mod BRCMF_FLOWRING_HASHSIZE)
       (first_index (\<lambda>i. P (hash flow ! ((start + i) mod BRCMF_FLOWRING_HASHSIZE))) BRCMF_FLOWRING_HASHSIZE)"

definition brcmf_flowring_lookup :: "brcmf_flowring \<Rightarrow> u8 list \<Rightarrow> u8 \<Rightarrow> u8 \<Rightarrow> u32 option" where
  "brcmf_flowring_lookup flow da prio ifx =
     (case flow_key flow da prio ifx of
        None \<Rightarrow> None
      | Some (sta, mac, fifo, start) \<Rightarrow>
          Some (case hash_search (key_match sta mac fifo ifx) start flow of
              Some i \<Rightarrow> ucast (h_flowid (hash flow ! i))
            | None \<Rightarrow> BRCMF_FLOWRING_INVALID_ID))"

definition entry_free :: "brcmf_flowring_hash \<Rightarrow> bool" where
  "entry_free h \<longleftrightarrow> h_ifidx h = BRCMF_FLOWRING_INVALID_IFIDX \<and> h_mac h = ZEROMAC"

text \<open>The result is an unsigned number, so that \<open>-ENOMEM\<close> is a large one.\<close>

definition brcmf_flowring_create ::
    "bool \<Rightarrow> brcmf_flowring \<Rightarrow> u8 list \<Rightarrow> u8 \<Rightarrow> u8 \<Rightarrow> (u32 \<times> brcmf_flowring) option" where
  "brcmf_flowring_create alloc flow da prio ifx =
     (case flow_key flow da prio ifx of
        None \<Rightarrow> None
      | Some (sta, mac, fifo, start) \<Rightarrow>
          Some (case hash_search entry_free start flow of
              None \<Rightarrow> (BRCMF_FLOWRING_INVALID_ID, flow)
            | Some hash_idx \<Rightarrow>
                (case first_index (\<lambda>i. rings flow ! i = None) (length (rings flow)) of
                   None \<Rightarrow> (-12, flow)
                 | Some i \<Rightarrow>
                     if \<not> alloc then (-12, flow)
                     else
                       let h = \<lparr>h_mac = mac, h_fifo = fifo, h_ifidx = ifx, h_flowid = of_nat i\<rparr>;
                           ring = \<lparr>hash_id = hash_idx, ring_blocked = False, status = RING_CLOSED, skblist = []\<rparr>
                       in (of_nat i, flow\<lparr>hash := (hash flow)[hash_idx := h], rings := (rings flow)[i := Some ring]\<rparr>))))"

definition brcmf_flowring_tid :: "brcmf_flowring \<Rightarrow> u16 \<Rightarrow> nat option" where
  "brcmf_flowring_tid flow flowid = map_option (\<lambda>r. h_fifo (hash flow ! hash_id r)) (ring_at flowid flow)"

definition brcmf_flowring_ifidx_get :: "brcmf_flowring \<Rightarrow> u16 \<Rightarrow> u8 option" where
  "brcmf_flowring_ifidx_get flow flowid = map_option (\<lambda>r. h_ifidx (hash flow ! hash_id r)) (ring_at flowid flow)"

subsection \<open>Stopping and waking an interface\<close>

definition flow_get_ifp :: "brcmf_flowring \<Rightarrow> nat \<Rightarrow> brcmf_if option" where
  "flow_get_ifp flow i = (if i \<ge> BRCMF_MAX_IFS then None else net_ifs flow i)"

definition other_blocked :: "brcmf_flowring \<Rightarrow> u16 \<Rightarrow> u8 \<Rightarrow> bool" where
  "other_blocked flow flowid ifx = list_ex (\<lambda>i. case rings flow ! i of
       None \<Rightarrow> False
     | Some r \<Rightarrow> i \<noteq> unat flowid \<and> status r = RING_OPEN \<and> h_ifidx (hash flow ! hash_id r) = ifx \<and> ring_blocked r)
     [0..<length (rings flow)]"

definition block_if :: "u8 \<Rightarrow> bool \<Rightarrow> brcmf_flowring \<Rightarrow> brcmf_flowring" where
  "block_if ifx blk flow =
     (case flow_get_ifp flow (unat ifx) of
        None \<Rightarrow> flow
      | Some ifp \<Rightarrow> flow\<lparr>net_ifs := (net_ifs flow)
          (unat ifx := Some (brcmf_txflowblock_if BRCMF_NETIF_STOP_REASON_FLOW blk ifp))\<rparr>)"

definition brcmf_flowring_block :: "u16 \<Rightarrow> bool \<Rightarrow> brcmf_flowring \<Rightarrow> brcmf_flowring option" where
  "brcmf_flowring_block flowid blk flow =
     (case ring_at flowid flow of
        None \<Rightarrow> None
      | Some ring \<Rightarrow>
          if ring_blocked ring = blk then Some flow
          else
            let ifx = h_ifidx (hash flow ! hash_id ring);
                currently_blocked = other_blocked flow flowid ifx;
                flow = upd_ring flowid (\<lambda>r. r\<lparr>ring_blocked := blk\<rparr>) flow
            in Some (if currently_blocked then flow else block_if ifx blk flow))"

subsection \<open>Rings and their packets\<close>

definition brcmf_flowring_delete :: "u16 \<Rightarrow> brcmf_flowring \<Rightarrow> brcmf_flowring option" where
  "brcmf_flowring_delete flowid flow =
     (if unat flowid \<ge> length (rings flow) then None
      else case rings flow ! unat flowid of
        None \<Rightarrow> Some flow
      | Some ring \<Rightarrow> do {
          flow \<leftarrow> brcmf_flowring_block flowid False flow;
          let h = hash flow ! hash_id ring;
          Some (flow\<lparr>hash := (hash flow)[hash_id ring := h\<lparr>h_ifidx := BRCMF_FLOWRING_INVALID_IFIDX, h_mac := ZEROMAC\<rparr>],
                     rings := (rings flow)[unat flowid := None],
                     finalized := finalized flow @ skblist ring\<rparr>)
        })"

definition brcmf_flowring_enqueue :: "u16 \<Rightarrow> pkt \<Rightarrow> brcmf_flowring \<Rightarrow> (u32 \<times> brcmf_flowring) option" where
  "brcmf_flowring_enqueue flowid skb flow = do {
     ring \<leftarrow> ring_at flowid flow;
     let len = length (skblist ring) + 1;
     let flow = upd_ring flowid (\<lambda>r. r\<lparr>skblist := skblist r @ [skb]\<rparr>) flow;
     flow \<leftarrow> (if \<not> ring_blocked ring \<and> len > BRCMF_FLOWRING_HIGH
       then do {
         flow \<leftarrow> brcmf_flowring_block flowid True flow;
         if len < BRCMF_FLOWRING_LOW then brcmf_flowring_block flowid False flow else Some flow
       }
       else Some flow);
     Some (of_nat len, flow)
   }"

definition brcmf_flowring_dequeue :: "u16 \<Rightarrow> brcmf_flowring \<Rightarrow> (pkt option \<times> brcmf_flowring) option" where
  "brcmf_flowring_dequeue flowid flow = do {
     ring \<leftarrow> ring_at flowid flow;
     if status ring \<noteq> RING_OPEN then Some (None, flow)
     else do {
       let skb = (case skblist ring of [] \<Rightarrow> None | p # _ \<Rightarrow> Some p);
       let flow = upd_ring flowid (\<lambda>r. r\<lparr>skblist := tl (skblist r)\<rparr>) flow;
       flow \<leftarrow> (if ring_blocked ring \<and> length (tl (skblist ring)) < BRCMF_FLOWRING_LOW
         then brcmf_flowring_block flowid False flow else Some flow);
       Some (skb, flow)
     }
   }"

definition brcmf_flowring_reinsert :: "u16 \<Rightarrow> pkt \<Rightarrow> brcmf_flowring \<Rightarrow> brcmf_flowring option" where
  "brcmf_flowring_reinsert flowid skb flow =
     (case ring_at flowid flow of
        None \<Rightarrow> None
      | Some _ \<Rightarrow> Some (upd_ring flowid (\<lambda>r. r\<lparr>skblist := skb # skblist r\<rparr>) flow))"

definition brcmf_flowring_qlen :: "u16 \<Rightarrow> brcmf_flowring \<Rightarrow> u32 option" where
  "brcmf_flowring_qlen flowid flow =
     (if unat flowid \<ge> length (rings flow) then None
      else case rings flow ! unat flowid of
        None \<Rightarrow> Some 0
      | Some ring \<Rightarrow> if status ring \<noteq> RING_OPEN then Some 0 else Some (of_nat (length (skblist ring))))"

definition brcmf_flowring_open :: "u16 \<Rightarrow> brcmf_flowring \<Rightarrow> brcmf_flowring option" where
  "brcmf_flowring_open flowid flow =
     (if unat flowid \<ge> length (rings flow) then None
      else case rings flow ! unat flowid of
        None \<Rightarrow> Some flow
      | Some ring \<Rightarrow> Some (upd_ring flowid (\<lambda>r. r\<lparr>status := RING_OPEN\<rparr>) flow))"

definition brcmf_flowring_attach :: "u16 \<Rightarrow> (nat \<Rightarrow> brcmf_if option) \<Rightarrow> brcmf_flowring" where
  "brcmf_flowring_attach nrofrings ifs =
     \<lparr>hash = replicate BRCMF_FLOWRING_HASHSIZE
        \<lparr>h_mac = ZEROMAC, h_fifo = 0, h_ifidx = BRCMF_FLOWRING_INVALID_IFIDX, h_flowid = 0\<rparr>,
      rings = replicate (unat nrofrings) None,
      addr_mode = replicate BRCMF_MAX_IFS ADDR_INDIRECT,
      tdls_active = False, tdls_entry = [], net_ifs = ifs, finalized = []\<rparr>"

definition brcmf_flowring_add_tdls_peer :: "bool \<Rightarrow> u8 list \<Rightarrow> brcmf_flowring \<Rightarrow> brcmf_flowring" where
  "brcmf_flowring_add_tdls_peer alloc peer flow =
     (if \<not> alloc then flow
      else if list_ex (\<lambda>e. e = peer) (tdls_entry flow) then flow
      else flow\<lparr>tdls_entry := tdls_entry flow @ [peer], tdls_active := True\<rparr>)"

text \<open>
  The end of \<open>brcmf_flowring_delete_peer\<close>: the peer leaves the list, and the last one to
  leave ends the special treatment.
\<close>

definition remove_tdls_peer :: "u8 list \<Rightarrow> brcmf_flowring \<Rightarrow> brcmf_flowring" where
  "remove_tdls_peer peer flow =
     (if brcmf_flowring_is_tdls_mac flow peer
      then let es = remove1 peer (tdls_entry flow)
           in flow\<lparr>tdls_entry := es, tdls_active := (if es = [] then False else tdls_active flow)\<rparr>
      else flow)"

subsection \<open>The table and the rings\<close>

text \<open>
  The invariant: every ring has its entry in the table and every entry in use has its ring.
  The number of rings is below the size of the table, which \<open>brcmf_proto_msgbuf_attach\<close> makes
  sure of.
\<close>

definition flow_wf :: "brcmf_flowring \<Rightarrow> bool" where
  "flow_wf flow \<longleftrightarrow> length (hash flow) = 512 \<and> length (rings flow) < 512 \<and> length (addr_mode flow) = 16
   \<and> (\<forall>i<length (rings flow). case rings flow ! i of
        None \<Rightarrow> True
      | Some r \<Rightarrow> hash_id r < 512 \<and> h_flowid (hash flow ! hash_id r) = of_nat i
          \<and> unat (h_ifidx (hash flow ! hash_id r)) < 16)
   \<and> (\<forall>k<512. entry_free (hash flow ! k) \<or> (\<exists>i<length (rings flow). \<exists>r. rings flow ! i = Some r \<and> hash_id r = k))"

lemma flow_wfI:
  assumes "length (hash flow) = 512" "length (rings flow) < 512" "length (addr_mode flow) = 16"
    and "\<And>i r. i < length (rings flow) \<Longrightarrow> rings flow ! i = Some r \<Longrightarrow>
      hash_id r < 512 \<and> h_flowid (hash flow ! hash_id r) = of_nat i \<and> unat (h_ifidx (hash flow ! hash_id r)) < 16"
    and "\<And>k. k < 512 \<Longrightarrow> \<not> entry_free (hash flow ! k) \<Longrightarrow>
      \<exists>i<length (rings flow). \<exists>r. rings flow ! i = Some r \<and> hash_id r = k"
  shows "flow_wf flow"
  unfolding flow_wf_def
proof (intro conjI assms(1-3) allI impI)
  fix i
  assume "i < length (rings flow)"
  then show "case rings flow ! i of None \<Rightarrow> True | Some r \<Rightarrow> hash_id r < 512 \<and>
      h_flowid (hash flow ! hash_id r) = of_nat i \<and> unat (h_ifidx (hash flow ! hash_id r)) < 16"
    using assms(4) [of i] by (auto split: option.split)
next
  fix k :: nat
  assume "k < 512"
  then show "entry_free (hash flow ! k) \<or> (\<exists>i<length (rings flow). \<exists>r. rings flow ! i = Some r \<and> hash_id r = k)"
    using assms(5) [of k] by blast
qed

lemma flow_wf_lengths:
  assumes "flow_wf flow"
  shows "length (hash flow) = 512" "length (rings flow) < 512" "length (addr_mode flow) = 16"
  using assms by (simp_all add: flow_wf_def)

lemma flow_wf_ring:
  assumes "flow_wf flow" "i < length (rings flow)" "rings flow ! i = Some r"
  shows "hash_id r < 512" "h_flowid (hash flow ! hash_id r) = of_nat i"
    "unat (h_ifidx (hash flow ! hash_id r)) < 16"
proof -
  from assms(1,2) have "case rings flow ! i of None \<Rightarrow> True | Some r \<Rightarrow> hash_id r < 512 \<and>
      h_flowid (hash flow ! hash_id r) = of_nat i \<and> unat (h_ifidx (hash flow ! hash_id r)) < 16"
    unfolding flow_wf_def by blast
  with assms(3) show "hash_id r < 512" "h_flowid (hash flow ! hash_id r) = of_nat i"
    "unat (h_ifidx (hash flow ! hash_id r)) < 16" by simp_all
qed

lemma flow_wf_entry:
  assumes "flow_wf flow" "k < 512" "\<not> entry_free (hash flow ! k)"
  obtains i r where "i < length (rings flow)" "rings flow ! i = Some r" "hash_id r = k"
  using assms by (auto simp: flow_wf_def)

lemma ring_not_free:
  assumes "flow_wf flow" "i < length (rings flow)" "rings flow ! i = Some r"
  shows "\<not> entry_free (hash flow ! hash_id r)"
  using flow_wf_ring [OF assms] by (auto simp: entry_free_def)

lemma hash_id_inj:
  assumes "flow_wf flow" "i < length (rings flow)" "rings flow ! i = Some r"
    and "j < length (rings flow)" "rings flow ! j = Some r'" "hash_id r = hash_id r'"
  shows "i = j"
proof -
  have "(of_nat i :: u16) = of_nat j"
    using flow_wf_ring [OF assms(1-3)] flow_wf_ring [OF assms(1,4,5)] assms(6) by simp
  moreover have "i < 65536" "j < 65536" using assms(2,4) flow_wf_lengths [OF assms(1)] by simp_all
  ultimately show ?thesis by (metis unat_of_nat_u16)
qed

text \<open>Changes that leave the table, the places of the rings and the modes alone keep the invariant.\<close>

definition same_table :: "brcmf_flowring \<Rightarrow> brcmf_flowring \<Rightarrow> bool" where
  "same_table a b \<longleftrightarrow> hash a = hash b \<and> length (addr_mode a) = length (addr_mode b) \<and>
     map (map_option hash_id) (rings a) = map (map_option hash_id) (rings b)"

lemma same_table_length: "same_table a b \<Longrightarrow> length (rings a) = length (rings b)"
  unfolding same_table_def using map_eq_imp_length_eq by blast

lemma same_table_ring:
  assumes "same_table a b" "i < length (rings b)" "rings b ! i = Some r"
  obtains r' where "rings a ! i = Some r'" "hash_id r' = hash_id r"
proof -
  have "map (map_option hash_id) (rings a) ! i = map (map_option hash_id) (rings b) ! i"
    using assms(1) by (simp add: same_table_def)
  then have "map_option hash_id (rings a ! i) = Some (hash_id r)"
    using assms same_table_length [OF assms(1)] by simp
  then show ?thesis using that by auto
qed

lemma same_table_sym: "same_table a b \<Longrightarrow> same_table b a"
  by (auto simp: same_table_def)

lemma same_table_wf:
  assumes "flow_wf a" "same_table a b"
  shows "flow_wf b"
proof (rule flow_wfI)
  note len = same_table_length [OF assms(2)]
  show "length (hash b) = 512" "length (rings b) < 512" "length (addr_mode b) = 16"
    using assms len flow_wf_lengths [OF assms(1)] by (auto simp: same_table_def)
  fix i r
  assume "i < length (rings b)" "rings b ! i = Some r"
  then obtain r' where "rings a ! i = Some r'" "hash_id r' = hash_id r"
    using same_table_ring [OF assms(2)] by metis
  then show "hash_id r < 512 \<and> h_flowid (hash b ! hash_id r) = of_nat i \<and> unat (h_ifidx (hash b ! hash_id r)) < 16"
    using flow_wf_ring [OF assms(1), of i r'] \<open>i < length (rings b)\<close> len assms(2) by (auto simp: same_table_def)
next
  fix k
  assume "k < (512 :: nat)" "\<not> entry_free (hash b ! k)"
  then obtain i r where "i < length (rings a)" "rings a ! i = Some r" "hash_id r = k"
    using flow_wf_entry [OF assms(1)] assms(2) by (metis same_table_def)
  then show "\<exists>i<length (rings b). \<exists>r. rings b ! i = Some r \<and> hash_id r = k"
    using same_table_ring [OF same_table_sym [OF assms(2)]] same_table_length [OF assms(2)] by metis
qed

lemma ring_atD:
  assumes "ring_at f flow = Some r"
  shows "unat f < length (rings flow)" "rings flow ! unat f = Some r"
  using assms by (auto simp: ring_at_def split: if_splits)

lemma same_table_upd_ring:
  assumes "unat f < length (rings flow)" "\<And>r. hash_id (g r) = hash_id r"
  shows "same_table flow (upd_ring f g flow)"
proof -
  have "map (map_option hash_id) ((rings flow)[unat f := map_option g (rings flow ! unat f)])
      = map (map_option hash_id) (rings flow)"
    using assms by (auto simp: map_update option.map_comp comp_def list_update_same_conv)
  then show ?thesis by (simp add: same_table_def upd_ring_def)
qed

lemma same_table_trans: "same_table a b \<Longrightarrow> same_table b c \<Longrightarrow> same_table a c"
  by (simp add: same_table_def)

subsection \<open>Flow control\<close>

text \<open>An interface is stopped for flow control only while a ring on it is blocked.\<close>

definition blocked_on :: "brcmf_flowring \<Rightarrow> nat \<Rightarrow> bool" where
  "blocked_on flow n \<longleftrightarrow> (\<exists>i<length (rings flow). \<exists>r. rings flow ! i = Some r \<and> ring_blocked r \<and>
     unat (h_ifidx (hash flow ! hash_id r)) = n)"

definition stop_ok :: "brcmf_flowring \<Rightarrow> bool" where
  "stop_ok flow \<longleftrightarrow> (\<forall>n ifp. n < 16 \<and> net_ifs flow n = Some ifp \<and> has_ndev ifp \<and>
     netif_stop ifp AND BRCMF_NETIF_STOP_REASON_FLOW \<noteq> 0 \<longrightarrow> blocked_on flow n)"

definition flow_inv :: "brcmf_flowring \<Rightarrow> bool" where
  "flow_inv flow \<longleftrightarrow> flow_wf flow \<and> stop_ok flow"

lemma stop_okD:
  "stop_ok flow \<Longrightarrow> n < 16 \<Longrightarrow> net_ifs flow n = Some ifp \<Longrightarrow> has_ndev ifp \<Longrightarrow>
     netif_stop ifp AND BRCMF_NETIF_STOP_REASON_FLOW \<noteq> 0 \<Longrightarrow> blocked_on flow n"
  unfolding stop_ok_def by blast

lemma stop_bit:
  fixes x :: u8
  shows "(x AND - 3) AND 2 = 0" "(x OR 2) AND 2 \<noteq> 0"
proof -
  show "(x AND - 3) AND 2 = 0" by (simp add: and.assoc)
  have "bit ((x OR 2) AND 2) 1" by (simp add: bit_simps)
  then show "(x OR 2) AND 2 \<noteq> 0" by auto
qed

lemma txflowblock_if_bit:
  "has_ndev (brcmf_txflowblock_if 2 b ifp) = has_ndev ifp"
  "has_ndev ifp \<Longrightarrow> netif_stop (brcmf_txflowblock_if 2 b ifp) AND 2 \<noteq> 0 \<longleftrightarrow> b"
  by (auto simp: brcmf_txflowblock_if_def Let_def stop_bit)

lemma other_blockedD:
  assumes "other_blocked flow f ifx"
  obtains j r where "j < length (rings flow)" "j \<noteq> unat f" "rings flow ! j = Some r" "ring_blocked r"
    "h_ifidx (hash flow ! hash_id r) = ifx"
  using assms by (auto simp: other_blocked_def list_ex_iff split: option.splits)

text \<open>
  Setting the mark of a ring: the table stays, the interfaces stay consistent, and no other
  ring changes.
\<close>

definition stopped_by_other :: "brcmf_flowring \<Rightarrow> u16 \<Rightarrow> nat \<Rightarrow> bool" where
  "stopped_by_other flow f n \<longleftrightarrow> (\<exists>j<length (rings flow). \<exists>q. j \<noteq> unat f \<and> rings flow ! j = Some q \<and>
     ring_blocked q \<and> unat (h_ifidx (hash flow ! hash_id q)) = n)"

lemma blocked_on_cases:
  assumes "blocked_on flow n" "ring_at f flow = Some r"
  shows "stopped_by_other flow f n \<or> (ring_blocked r \<and> unat (h_ifidx (hash flow ! hash_id r)) = n)"
  using assms ring_atD [OF assms(2)] unfolding blocked_on_def stopped_by_other_def by force

lemma block_if_stop:
  assumes "stop_ok flow" "ring_at f flow = Some r" "\<not> other_blocked flow f (h_ifidx (hash flow ! hash_id r))"
    and "net_ifs (block_if (h_ifidx (hash flow ! hash_id r)) b (upd_ring f g flow)) n = Some ifp"
    and "n < 16" "has_ndev ifp" "netif_stop ifp AND 2 \<noteq> 0"
  shows "(b \<and> n = unat (h_ifidx (hash flow ! hash_id r))) \<or> stopped_by_other flow f n"
proof (cases "n = unat (h_ifidx (hash flow ! hash_id r))")
  case True
  then obtain ifp0 where "net_ifs flow n = Some ifp0" "ifp = brcmf_txflowblock_if 2 b ifp0"
    using assms(4,5) by (auto simp: block_if_def flow_get_ifp_def upd_ring_def split: option.splits if_splits)
  with assms(6,7) show ?thesis using True by (simp add: txflowblock_if_bit)
next
  case False
  then have "net_ifs flow n = Some ifp"
    using assms(4) by (auto simp: block_if_def upd_ring_def split: option.splits)
  then have "blocked_on flow n" using stop_okD [OF assms(1)] assms(5-7) by blast
  with False show ?thesis using blocked_on_cases [OF _ assms(2)] by blast
qed

lemma block_if_fields [simp]:
  "rings (block_if x b flow) = rings flow" "hash (block_if x b flow) = hash flow"
  "addr_mode (block_if x b flow) = addr_mode flow" "finalized (block_if x b flow) = finalized flow"
  "tdls_entry (block_if x b flow) = tdls_entry flow" "tdls_active (block_if x b flow) = tdls_active flow"
  by (simp_all add: block_if_def split: option.split)

lemma upd_ring_fields [simp]:
  "hash (upd_ring f g flow) = hash flow" "addr_mode (upd_ring f g flow) = addr_mode flow"
  "finalized (upd_ring f g flow) = finalized flow" "net_ifs (upd_ring f g flow) = net_ifs flow"
  "tdls_entry (upd_ring f g flow) = tdls_entry flow" "tdls_active (upd_ring f g flow) = tdls_active flow"
  by (simp_all add: upd_ring_def)

lemma rings_upd_ring: "ring_at f flow = Some r \<Longrightarrow> rings (upd_ring f g flow) = (rings flow)[unat f := Some (g r)]"
  by (simp add: upd_ring_def ring_atD)

lemma flowring_block_eq:
  assumes "ring_at f flow = Some r"
  shows "brcmf_flowring_block f b flow = Some
    (if ring_blocked r = b then flow
     else if other_blocked flow f (h_ifidx (hash flow ! hash_id r)) then upd_ring f (\<lambda>r. r\<lparr>ring_blocked := b\<rparr>) flow
     else block_if (h_ifidx (hash flow ! hash_id r)) b (upd_ring f (\<lambda>r. r\<lparr>ring_blocked := b\<rparr>) flow))"
  using assms by (simp add: brcmf_flowring_block_def Let_def)

lemma flowring_block_stop:
  assumes "stop_ok flow" "ring_at f flow = Some r" "brcmf_flowring_block f b flow = Some flow'"
    and "n < 16" "net_ifs flow' n = Some ifp" "has_ndev ifp" "netif_stop ifp AND 2 \<noteq> 0"
  shows "(b \<and> n = unat (h_ifidx (hash flow ! hash_id r))) \<or> stopped_by_other flow f n"
proof -
  define ifx where "ifx = h_ifidx (hash flow ! hash_id r)"
  consider "ring_blocked r = b" "flow' = flow"
    | "ring_blocked r \<noteq> b" "other_blocked flow f ifx" "net_ifs flow' = net_ifs flow"
    | "\<not> other_blocked flow f ifx" "flow' = block_if ifx b (upd_ring f (\<lambda>r. r\<lparr>ring_blocked := b\<rparr>) flow)"
    using assms(3) unfolding flowring_block_eq [OF assms(2)] ifx_def [symmetric] option.inject
    by (cases "ring_blocked r = b"; cases "other_blocked flow f ifx") auto
  then show ?thesis
  proof cases
    case 1
    with assms have "blocked_on flow n" by (auto intro: stop_okD)
    with 1 show ?thesis using blocked_on_cases [OF _ assms(2)] by blast
  next
    case 2
    with assms have "blocked_on flow n" by (auto intro: stop_okD)
    moreover have "stopped_by_other flow f (unat ifx)"
      using other_blockedD [OF 2(2)] unfolding stopped_by_other_def by metis
    ultimately show ?thesis using blocked_on_cases [OF _ assms(2)] ifx_def by blast
  next
    case 3
    with assms show ?thesis unfolding ifx_def
      by (intro block_if_stop [where g = "\<lambda>r. r\<lparr>ring_blocked := b\<rparr>"]) simp_all
  qed
qed

lemma flowring_block_fields:
  assumes "ring_at f flow = Some r"
  obtains flow' where "brcmf_flowring_block f b flow = Some flow'"
    "rings flow' = (rings flow)[unat f := Some (r\<lparr>ring_blocked := b\<rparr>)]"
    "hash flow' = hash flow" "addr_mode flow' = addr_mode flow" "finalized flow' = finalized flow"
    "tdls_entry flow' = tdls_entry flow" "tdls_active flow' = tdls_active flow"
proof (cases "ring_blocked r = b")
  case True
  then have "(rings flow)[unat f := Some (r\<lparr>ring_blocked := b\<rparr>)] = rings flow"
    using ring_atD [OF assms] list_update_id [of "rings flow" "unat f"] by (cases r) simp
  with True assms show ?thesis by (intro that [of flow]) (simp_all add: brcmf_flowring_block_def)
next
  case False
  show ?thesis
    by (rule that [OF flowring_block_eq [OF assms]]) (simp_all add: False rings_upd_ring [OF assms])
qed

lemma ring_at_wf_places:
  assumes "ring_at f flow = Some r" "rings flow' = (rings flow)[unat f := Some r']" "hash_id r' = hash_id r"
    and "hash flow' = hash flow" "addr_mode flow' = addr_mode flow"
  shows "same_table flow flow'"
proof -
  have "map (map_option hash_id) (rings flow') = map (map_option hash_id) (rings flow)"
    using assms(2,3) ring_atD [OF assms(1)] by (auto simp: map_update list_update_same_conv)
  with assms(4,5) show ?thesis by (simp add: same_table_def)
qed

text \<open>A change of one ring that keeps its place and its mark keeps the whole invariant.\<close>

lemma blocked_on_upd_ring:
  assumes "ring_at f flow = Some r" "\<And>r. hash_id (g r) = hash_id r" "\<And>r. ring_blocked (g r) = ring_blocked r"
  shows "blocked_on (upd_ring f g flow) n = blocked_on flow n"
proof -
  have "\<And>i. i < length (rings flow) \<Longrightarrow>
      (\<exists>r. rings (upd_ring f g flow) ! i = Some r \<and> ring_blocked r \<and> unat (h_ifidx (hash flow ! hash_id r)) = n)
      = (\<exists>r. rings flow ! i = Some r \<and> ring_blocked r \<and> unat (h_ifidx (hash flow ! hash_id r)) = n)"
    using ring_atD [OF assms(1)] assms(2,3) unfolding rings_upd_ring [OF assms(1)]
    by (auto simp: nth_list_update)
  moreover have "length (rings (upd_ring f g flow)) = length (rings flow)" by (simp add: upd_ring_def)
  ultimately show ?thesis by (simp add: blocked_on_def cong: conj_cong)
qed

lemma flow_inv_upd_ring:
  assumes "flow_inv flow" "ring_at f flow = Some r"
    and "\<And>r. hash_id (g r) = hash_id r" "\<And>r. ring_blocked (g r) = ring_blocked r"
  shows "flow_inv (upd_ring f g flow)"
  using assms same_table_wf [OF _ same_table_upd_ring] ring_atD [OF assms(2)]
  by (auto simp: flow_inv_def stop_ok_def blocked_on_upd_ring)

lemma flow_inv_block:
  assumes "flow_inv flow" "ring_at f flow = Some r" "brcmf_flowring_block f b flow = Some flow'"
  shows "flow_inv flow'"
proof -
  obtain fl where fl: "brcmf_flowring_block f b flow = Some fl"
    "rings fl = (rings flow)[unat f := Some (r\<lparr>ring_blocked := b\<rparr>)]" "hash fl = hash flow"
    "addr_mode fl = addr_mode flow" using flowring_block_fields [OF assms(2)] by metis
  with assms(3) have eq: "fl = flow'" by simp
  have "stop_ok flow'" unfolding stop_ok_def
  proof (intro allI impI, elim conjE)
    fix n ifp
    assume "n < 16" "net_ifs flow' n = Some ifp" "has_ndev ifp" "netif_stop ifp AND 2 \<noteq> 0"
    then consider "b" "n = unat (h_ifidx (hash flow ! hash_id r))" | "stopped_by_other flow f n"
      using flowring_block_stop [OF _ assms(2,3)] assms(1) by (auto simp: flow_inv_def)
    then show "blocked_on flow' n"
    proof cases
      case 1
      then show ?thesis using fl ring_atD [OF assms(2)] unfolding eq blocked_on_def
        by (intro exI [of _ "unat f"]) auto
    next
      case 2
      then obtain j q where "j < length (rings flow)" "j \<noteq> unat f" "rings flow ! j = Some q"
        "ring_blocked q" "unat (h_ifidx (hash flow ! hash_id q)) = n"
        unfolding stopped_by_other_def by blast
      then show ?thesis using fl unfolding eq blocked_on_def by (intro exI [of _ j]) auto
    qed
  qed
  moreover have "flow_wf flow'"
    using assms(1) same_table_wf ring_at_wf_places [OF assms(2) fl(2)] fl unfolding eq flow_inv_def by auto
  ultimately show ?thesis by (simp add: flow_inv_def)
qed

lemma ring_at_upd_ring:
  "ring_at f flow = Some r \<Longrightarrow> ring_at f (upd_ring f g flow) = Some (g r)"
  by (auto simp: ring_at_def upd_ring_def split: if_splits)

lemma flow_inv_enqueue:
  assumes "flow_inv flow" "brcmf_flowring_enqueue f p flow = Some (n, flow')"
  shows "flow_inv flow'"
proof -
  obtain r where r: "ring_at f flow = Some r"
    using assms(2) by (cases "ring_at f flow") (auto simp: brcmf_flowring_enqueue_def)
  define fl where "fl = upd_ring f (\<lambda>r. r\<lparr>skblist := skblist r @ [p]\<rparr>) flow"
  have fl: "flow_inv fl" "ring_at f fl = Some (r\<lparr>skblist := skblist r @ [p]\<rparr>)"
    unfolding fl_def using assms(1) r by (auto intro: flow_inv_upd_ring simp: ring_at_upd_ring)
  from assms(2) r consider "flow' = fl" | "brcmf_flowring_block f True fl = Some flow'"
    by (auto simp: brcmf_flowring_enqueue_def fl_def Let_def split: if_splits bind_splits)
  then show ?thesis using fl by cases (auto intro: flow_inv_block)
qed

lemma flow_inv_dequeue:
  assumes "flow_inv flow" "brcmf_flowring_dequeue f flow = Some (p, flow')"
  shows "flow_inv flow'"
proof -
  obtain r where r: "ring_at f flow = Some r"
    using assms(2) by (cases "ring_at f flow") (auto simp: brcmf_flowring_dequeue_def)
  define fl where "fl = upd_ring f (\<lambda>r. r\<lparr>skblist := tl (skblist r)\<rparr>) flow"
  have fl: "flow_inv fl" "ring_at f fl = Some (r\<lparr>skblist := tl (skblist r)\<rparr>)"
    unfolding fl_def using assms(1) r by (auto intro: flow_inv_upd_ring simp: ring_at_upd_ring)
  from assms(2) r consider "flow' = flow" | "flow' = fl" | "brcmf_flowring_block f False fl = Some flow'"
    by (auto simp: brcmf_flowring_dequeue_def fl_def Let_def split: if_splits bind_splits)
  then show ?thesis using fl assms(1) by cases (auto intro: flow_inv_block)
qed

lemma flow_inv_reinsert: "flow_inv flow \<Longrightarrow> brcmf_flowring_reinsert f p flow = Some flow' \<Longrightarrow> flow_inv flow'"
  by (auto simp: brcmf_flowring_reinsert_def split: option.splits intro: flow_inv_upd_ring)

lemma flow_inv_status:
  assumes "flow_inv flow"
  shows "flow_inv (upd_ring f (\<lambda>r. r\<lparr>status := x\<rparr>) flow)"
proof (cases "ring_at f flow")
  case None
  then have "upd_ring f (\<lambda>r. r\<lparr>status := x\<rparr>) flow = flow"
    by (auto simp: ring_at_def upd_ring_def list_update_beyond split: if_splits)
      (metis brcmf_flowring.surjective brcmf_flowring.update_convs(2) list_update_id)
  with assms show ?thesis by simp
qed (use assms in \<open>auto intro: flow_inv_upd_ring\<close>)

lemma flow_inv_open: "flow_inv flow \<Longrightarrow> brcmf_flowring_open f flow = Some flow' \<Longrightarrow> flow_inv flow'"
  by (auto simp: brcmf_flowring_open_def split: option.splits if_splits intro: flow_inv_status)

lemma flow_inv_delete:
  assumes "flow_inv flow" "brcmf_flowring_delete f flow = Some flow'"
  shows "flow_inv flow'"
proof (cases "rings flow ! unat f")
  case None
  then show ?thesis using assms by (auto simp: brcmf_flowring_delete_def split: if_splits)
next
  case (Some r)
  have f: "unat f < length (rings flow)" using assms(2) by (auto simp: brcmf_flowring_delete_def split: if_splits)
  with Some have at: "ring_at f flow = Some r" by (simp add: ring_at_def)
  have wf: "flow_wf flow" "stop_ok flow" using assms(1) by (simp_all add: flow_inv_def)
  obtain fl where fl: "brcmf_flowring_block f False flow = Some fl"
    "rings fl = (rings flow)[unat f := Some (r\<lparr>ring_blocked := False\<rparr>)]" "hash fl = hash flow"
    "addr_mode fl = addr_mode flow" using flowring_block_fields [OF at] by metis
  define e where "e = (hash flow ! hash_id r)\<lparr>h_ifidx := BRCMF_FLOWRING_INVALID_IFIDX, h_mac := ZEROMAC\<rparr>"
  have new: "rings flow' = (rings flow)[unat f := None]" "hash flow' = (hash flow)[hash_id r := e]"
    "addr_mode flow' = addr_mode flow" "net_ifs flow' = net_ifs fl"
    using assms(2) fl f Some by (auto simp: brcmf_flowring_delete_def e_def)
  have other: "rings flow ! j = Some q \<and> hash_id q \<noteq> hash_id r"
    if "j < length (rings flow)" "rings flow' ! j = Some q" for j q
  proof -
    have "j \<noteq> unat f" using that f by (auto simp: new)
    with that have "rings flow ! j = Some q" by (simp add: new)
    with \<open>j \<noteq> unat f\<close> that show ?thesis using hash_id_inj [OF wf(1) f Some, of j q] by auto
  qed
  have keep: "hash flow' ! hash_id q = hash flow ! hash_id q" if "hash_id q \<noteq> hash_id r" for q
    using that by (simp add: new)
  have hid: "hash_id r < 512" using flow_wf_ring [OF wf(1) f Some] by simp
  have "flow_wf flow'"
  proof (rule flow_wfI)
    show "length (hash flow') = 512" "length (rings flow') < 512" "length (addr_mode flow') = 16"
      using flow_wf_lengths [OF wf(1)] by (simp_all add: new)
    fix j q
    assume "j < length (rings flow')" "rings flow' ! j = Some q"
    then have q: "j < length (rings flow)" "rings flow ! j = Some q" "hash_id q \<noteq> hash_id r"
      using other [of j q] by (simp_all add: new)
    then show "hash_id q < 512 \<and> h_flowid (hash flow' ! hash_id q) = of_nat j \<and> unat (h_ifidx (hash flow' ! hash_id q)) < 16"
      using flow_wf_ring [OF wf(1) q(1,2)] by (simp add: keep)
  next
    fix k
    assume k: "k < (512 :: nat)" "\<not> entry_free (hash flow' ! k)"
    then have "k \<noteq> hash_id r" using flow_wf_lengths [OF wf(1)] by (auto simp: new e_def entry_free_def)
    with k obtain j q where "j < length (rings flow)" "rings flow ! j = Some q" "hash_id q = k"
      using flow_wf_entry [OF wf(1), of k] by (auto simp: new)
    moreover from this have "j \<noteq> unat f" using \<open>k \<noteq> hash_id r\<close> Some by auto
    ultimately show "\<exists>i<length (rings flow'). \<exists>r. rings flow' ! i = Some r \<and> hash_id r = k"
      by (intro exI [of _ j]) (simp add: new)
  qed
  moreover have "stop_ok flow'" unfolding stop_ok_def
  proof (intro allI impI, elim conjE)
    fix n ifp
    assume "n < 16" "net_ifs flow' n = Some ifp" "has_ndev ifp" "netif_stop ifp AND 2 \<noteq> 0"
    then have "stopped_by_other flow f n"
      using flowring_block_stop [OF wf(2) at fl(1)] by (auto simp: new)
    then obtain j q where q: "j < length (rings flow)" "j \<noteq> unat f" "rings flow ! j = Some q"
      "ring_blocked q" "unat (h_ifidx (hash flow ! hash_id q)) = n" unfolding stopped_by_other_def by blast
    then have "hash_id q \<noteq> hash_id r" using hash_id_inj [OF wf(1) f Some, of j q] by auto
    with q show "blocked_on flow' n" unfolding blocked_on_def by (intro exI [of _ j]) (auto simp: new)
  qed
  ultimately show ?thesis by (simp add: flow_inv_def)
qed

lemma hash_searchD:
  assumes "hash_search P start flow = Some k"
  shows "k < 512" "P (hash flow ! k)"
proof -
  obtain i where i: "first_index (\<lambda>i. P (hash flow ! ((start + i) mod 512))) 512 = Some i"
    "k = (start + i) mod 512" using assms unfolding hash_search_def by blast
  then show "k < 512" by simp
  show "P (hash flow ! k)" using first_index_SomeD(2) [OF i(1)] i(2) by simp
qed

lemma mod_reach: "k < (512 :: nat) \<Longrightarrow> \<exists>i<512. (start + i) mod 512 = k"
proof -
  assume k: "k < 512"
  define s where "s = start mod 512"
  have s: "s < 512" by (simp add: s_def)
  have "(start + (k + (512 - s)) mod 512) mod 512 = (s + (k + (512 - s))) mod 512"
    unfolding s_def by (metis mod_add_left_eq mod_add_right_eq)
  also have "s + (k + (512 - s)) = k + 512" using s by simp
  finally have "(start + (k + (512 - s)) mod 512) mod 512 = k" using k by simp
  then show ?thesis by (intro exI [of _ "(k + (512 - s)) mod 512"]) simp
qed

lemma hash_search_None: "hash_search P start flow = None \<longleftrightarrow> (\<forall>k<512. \<not> P (hash flow ! k))"
proof
  assume none: "hash_search P start flow = None"
  show "\<forall>k<512. \<not> P (hash flow ! k)"
  proof (intro allI impI)
    fix k :: nat
    assume "k < 512"
    then obtain i where "i < 512" "(start + i) mod 512 = k" using mod_reach by blast
    with none show "\<not> P (hash flow ! k)" by (auto simp: hash_search_def first_index_None)
  qed
qed (simp add: hash_search_def first_index_None)

lemma flow_keyD: "flow_key flow da prio ifx = Some key \<Longrightarrow> unat ifx < length (addr_mode flow)"
  by (rule ccontr) (simp add: flow_key_def)

text \<open>What a successful creation adds.\<close>

lemma flowring_create_cases:
  assumes "brcmf_flowring_create alloc flow da prio ifx = Some (v, flow')"
  obtains "flow' = flow" "v = BRCMF_FLOWRING_INVALID_ID \<or> v = -12"
  | sta mac fifo start k i where "flow_key flow da prio ifx = Some (sta, mac, fifo, start)"
      "hash_search entry_free start flow = Some k" "i < length (rings flow)" "rings flow ! i = None"
      "v = of_nat i"
      "flow' = flow\<lparr>hash := (hash flow)[k := \<lparr>h_mac = mac, h_fifo = fifo, h_ifidx = ifx, h_flowid = of_nat i\<rparr>],
        rings := (rings flow)[i := Some \<lparr>hash_id = k, ring_blocked = False, status = RING_CLOSED, skblist = []\<rparr>]\<rparr>"
proof -
  obtain sta mac fifo start where key: "flow_key flow da prio ifx = Some (sta, mac, fifo, start)"
    using assms by (cases "flow_key flow da prio ifx") (auto simp: brcmf_flowring_create_def)
  note create = assms [unfolded brcmf_flowring_create_def key, simplified]
  show ?thesis
  proof (cases "hash_search entry_free start flow")
    case None
    with create show ?thesis by (intro that(1)) simp_all
  next
    case k: (Some k)
    show ?thesis
    proof (cases "first_index (\<lambda>i. rings flow ! i = None) (length (rings flow))")
      case None
      with create k show ?thesis by (intro that(1)) simp_all
    next
      case (Some i)
      note i = first_index_SomeD(1,2) [OF Some]
      show ?thesis
      proof (cases alloc)
        case True
        with create k Some show ?thesis by (intro that(2) [OF key k i]) simp_all
      next
        case False
        with create k Some show ?thesis by (intro that(1)) simp_all
      qed
    qed
  qed
qed

lemma flow_inv_create:
  assumes "flow_inv flow" "brcmf_flowring_create alloc flow da prio ifx = Some (v, flow')"
  shows "flow_inv flow'"
  using assms(2)
proof (cases rule: flowring_create_cases)
  case (2 sta mac fifo start k i)
  have wf: "flow_wf flow" "stop_ok flow" using assms(1) by (simp_all add: flow_inv_def)
  note len = flow_wf_lengths [OF wf(1)]
  have k: "k < 512" "entry_free (hash flow ! k)" using hash_searchD [OF 2(2)] by simp_all
  have ifx: "unat ifx < 16" using flow_keyD [OF 2(1)] len by simp
  have ne: "hash_id q \<noteq> k" if "j < length (rings flow)" "rings flow ! j = Some q" for j q
    using ring_not_free [OF wf(1) that] k by auto
  have "flow_wf flow'"
  proof (rule flow_wfI)
    show "length (hash flow') = 512" "length (rings flow') < 512" "length (addr_mode flow') = 16"
      using len by (simp_all add: 2(6))
    fix j q
    assume q: "j < length (rings flow')" "rings flow' ! j = Some q"
    show "hash_id q < 512 \<and> h_flowid (hash flow' ! hash_id q) = of_nat j \<and> unat (h_ifidx (hash flow' ! hash_id q)) < 16"
    proof (cases "j = i")
      case True
      with q 2(3) have "hash_id q = k" by (auto simp: 2(6))
      with True k ifx len show ?thesis by (simp add: 2(6))
    next
      case False
      with q have "j < length (rings flow)" "rings flow ! j = Some q" by (simp_all add: 2(6))
      with ne [OF this] show ?thesis using flow_wf_ring [OF wf(1)] by (simp add: 2(6))
    qed
  next
    fix m
    assume m: "m < (512 :: nat)" "\<not> entry_free (hash flow' ! m)"
    show "\<exists>j<length (rings flow'). \<exists>q. rings flow' ! j = Some q \<and> hash_id q = m"
    proof (cases "m = k")
      case True
      then show ?thesis using 2(3) by (intro exI [of _ i]) (simp add: 2(6))
    next
      case False
      with m obtain j q where "j < length (rings flow)" "rings flow ! j = Some q" "hash_id q = m"
        using flow_wf_entry [OF wf(1), of m] by (auto simp: 2(6))
      moreover from this have "j \<noteq> i" using 2(4) by auto
      ultimately show ?thesis by (intro exI [of _ j]) (simp add: 2(6))
    qed
  qed
  moreover have "blocked_on flow' n" if "blocked_on flow n" for n
  proof -
    from that obtain j q where "j < length (rings flow)" "rings flow ! j = Some q" "ring_blocked q"
      "unat (h_ifidx (hash flow ! hash_id q)) = n" unfolding blocked_on_def by blast
    moreover from this have "j \<noteq> i" "hash_id q \<noteq> k" using 2(4) ne [of j q] by auto
    ultimately show ?thesis unfolding blocked_on_def by (intro exI [of _ j]) (simp add: 2(6))
  qed
  then have "stop_ok flow'" using wf(2) by (auto simp: stop_ok_def 2(6))
  ultimately show ?thesis by (simp add: flow_inv_def)
qed (use assms(1) in simp)

subsection \<open>Reachable states\<close>

text \<open>
  The steps of the component, as its users drive it. Closing a ring and changing the mode of
  an interface are the parts of \<open>brcmf_msgbuf_delete_flowring\<close> and
  \<open>brcmf_flowring_configure_addr_mode\<close> that change the state directly.
\<close>

inductive flow_step :: "brcmf_flowring \<Rightarrow> brcmf_flowring \<Rightarrow> bool" where
  create: "brcmf_flowring_create alloc flow da prio ifx = Some (v, flow') \<Longrightarrow> flow_step flow flow'"
| delete: "brcmf_flowring_delete f flow = Some flow' \<Longrightarrow> flow_step flow flow'"
| enqueue: "brcmf_flowring_enqueue f p flow = Some (n, flow') \<Longrightarrow> flow_step flow flow'"
| dequeue: "brcmf_flowring_dequeue f flow = Some (q, flow') \<Longrightarrow> flow_step flow flow'"
| reinsert: "brcmf_flowring_reinsert f p flow = Some flow' \<Longrightarrow> flow_step flow flow'"
| opened: "brcmf_flowring_open f flow = Some flow' \<Longrightarrow> flow_step flow flow'"
| closing: "flow_step flow (upd_ring f (\<lambda>r. r\<lparr>status := RING_CLOSING\<rparr>) flow)"
| add_peer: "flow_step flow (brcmf_flowring_add_tdls_peer alloc peer flow)"
| del_peer: "flow_step flow (remove_tdls_peer peer flow)"
| set_mode: "flow_step flow (flow\<lparr>addr_mode := (addr_mode flow)[i := m]\<rparr>)"

inductive flow_reach :: "u16 \<Rightarrow> (nat \<Rightarrow> brcmf_if option) \<Rightarrow> brcmf_flowring \<Rightarrow> bool" for n ifs where
  init: "flow_reach n ifs (brcmf_flowring_attach n ifs)"
| step: "flow_reach n ifs flow \<Longrightarrow> flow_step flow flow' \<Longrightarrow> flow_reach n ifs flow'"

lemma flow_inv_peers:
  assumes "flow_inv flow"
  shows "flow_inv (flow\<lparr>tdls_entry := es, tdls_active := a\<rparr>)"
    and "flow_inv (flow\<lparr>tdls_entry := es\<rparr>)"
    and "flow_inv (flow\<lparr>addr_mode := (addr_mode flow)[i := m]\<rparr>)"
  using assms same_table_wf [of flow "flow\<lparr>tdls_entry := es, tdls_active := a\<rparr>"]
    same_table_wf [of flow "flow\<lparr>tdls_entry := es\<rparr>"]
    same_table_wf [of flow "flow\<lparr>addr_mode := (addr_mode flow)[i := m]\<rparr>"]
  by (auto simp: flow_inv_def stop_ok_def blocked_on_def same_table_def)

lemma flow_step_inv: "flow_step flow flow' \<Longrightarrow> flow_inv flow \<Longrightarrow> flow_inv flow'"
proof (induction rule: flow_step.induct)
  case (add_peer flow alloc peer)
  then show ?case by (auto simp: brcmf_flowring_add_tdls_peer_def intro: flow_inv_peers)
next
  case (del_peer flow peer)
  then show ?case by (auto simp: remove_tdls_peer_def Let_def intro: flow_inv_peers)
qed (auto intro: flow_inv_create flow_inv_delete flow_inv_enqueue flow_inv_dequeue flow_inv_reinsert
  flow_inv_open flow_inv_status flow_inv_peers)

text \<open>The interfaces at the start: none is stopped for flow control.\<close>

definition ifs_running :: "(nat \<Rightarrow> brcmf_if option) \<Rightarrow> bool" where
  "ifs_running ifs \<longleftrightarrow> (\<forall>n. case ifs n of None \<Rightarrow> True | Some ifp \<Rightarrow> netif_stop ifp AND BRCMF_NETIF_STOP_REASON_FLOW = 0)"

lemma flow_inv_attach:
  assumes "unat n < 512" "ifs_running ifs"
  shows "flow_inv (brcmf_flowring_attach n ifs)"
proof -
  have "flow_wf (brcmf_flowring_attach n ifs)"
    using assms(1) by (intro flow_wfI) (simp_all add: brcmf_flowring_attach_def entry_free_def)
  moreover have "stop_ok (brcmf_flowring_attach n ifs)"
    using assms(2) unfolding stop_ok_def ifs_running_def brcmf_flowring_attach_def
    by (auto split: option.splits)
  ultimately show ?thesis by (simp add: flow_inv_def)
qed

lemma flow_reach_inv:
  assumes "flow_reach n ifs flow" "unat n < 512" "ifs_running ifs"
  shows "flow_inv flow"
  using assms by (induction rule: flow_reach.induct) (auto intro: flow_inv_attach flow_step_inv)

subsection \<open>The packets of a ring\<close>

lemma flowring_block_ring:
  assumes "ring_at f flow = Some r"
  obtains flow' where "brcmf_flowring_block f b flow = Some flow'" "ring_at f flow' = Some (r\<lparr>ring_blocked := b\<rparr>)"
proof -
  obtain flow' where "brcmf_flowring_block f b flow = Some flow'"
    "rings flow' = (rings flow)[unat f := Some (r\<lparr>ring_blocked := b\<rparr>)]"
    using flowring_block_fields [OF assms] by metis
  then show ?thesis using ring_atD [OF assms] by (intro that [of flow']) (simp_all add: ring_at_def)
qed

lemma flowring_enqueue_ring:
  assumes "ring_at f flow = Some r"
  obtains flow' where "brcmf_flowring_enqueue f p flow = Some (of_nat (length (skblist r) + 1), flow')"
    "ring_at f flow' = Some (r\<lparr>ring_blocked := (ring_blocked r \<or> length (skblist r) \<ge> BRCMF_FLOWRING_HIGH),
       skblist := skblist r @ [p]\<rparr>)"
proof -
  define fl where "fl = upd_ring f (\<lambda>r. r\<lparr>skblist := skblist r @ [p]\<rparr>) flow"
  have at: "ring_at f fl = Some (r\<lparr>skblist := skblist r @ [p]\<rparr>)"
    unfolding fl_def using assms by (simp add: ring_at_upd_ring)
  obtain fl' where fl': "brcmf_flowring_block f True fl = Some fl'"
    "ring_at f fl' = Some (r\<lparr>skblist := skblist r @ [p], ring_blocked := True\<rparr>)"
    using flowring_block_ring [OF at] by metis
  show ?thesis
  proof (cases "\<not> ring_blocked r \<and> length (skblist r) \<ge> BRCMF_FLOWRING_HIGH")
    case True
    with assms fl' show ?thesis
      by (intro that [of fl']) (auto simp: brcmf_flowring_enqueue_def Let_def fl_def)
  next
    case False
    moreover from this have "r\<lparr>ring_blocked := (ring_blocked r \<or> length (skblist r) \<ge> BRCMF_FLOWRING_HIGH)\<rparr> = r"
      by (cases r) auto
    ultimately show ?thesis using assms at
      by (intro that [of fl]) (auto simp: brcmf_flowring_enqueue_def Let_def fl_def)
  qed
qed

lemma flowring_dequeue_ring:
  assumes "ring_at f flow = Some r" "status r = RING_OPEN"
  obtains flow' where "brcmf_flowring_dequeue f flow =
      Some (case skblist r of [] \<Rightarrow> None | p # _ \<Rightarrow> Some p, flow')"
    "ring_at f flow' = Some (r\<lparr>ring_blocked := (ring_blocked r \<and> length (tl (skblist r)) \<ge> BRCMF_FLOWRING_LOW),
       skblist := tl (skblist r)\<rparr>)"
proof -
  define fl where "fl = upd_ring f (\<lambda>r. r\<lparr>skblist := tl (skblist r)\<rparr>) flow"
  have at: "ring_at f fl = Some (r\<lparr>skblist := tl (skblist r)\<rparr>)"
    unfolding fl_def using assms by (simp add: ring_at_upd_ring)
  obtain fl' where fl': "brcmf_flowring_block f False fl = Some fl'"
    "ring_at f fl' = Some (r\<lparr>skblist := tl (skblist r), ring_blocked := False\<rparr>)"
    using flowring_block_ring [OF at] by metis
  show ?thesis
  proof (cases "ring_blocked r \<and> length (tl (skblist r)) < BRCMF_FLOWRING_LOW")
    case True
    with assms fl' show ?thesis
      by (intro that [of fl']) (auto simp: brcmf_flowring_dequeue_def Let_def fl_def)
  next
    case False
    moreover from this have "r\<lparr>ring_blocked := (ring_blocked r \<and> length (tl (skblist r)) \<ge> BRCMF_FLOWRING_LOW)\<rparr> = r"
      by (cases r) auto
    ultimately show ?thesis using assms at
      by (intro that [of fl]) (auto simp: brcmf_flowring_dequeue_def Let_def fl_def)
  qed
qed

text \<open>An open ring is a queue that is never full.\<close>

definition open_ring :: "u16 \<Rightarrow> brcmf_flowring \<Rightarrow> bool" where
  "open_ring f flow \<longleftrightarrow> flow_inv flow \<and> (case ring_at f flow of None \<Rightarrow> False | Some r \<Rightarrow> status r = RING_OPEN)"

definition waiting :: "u16 \<Rightarrow> brcmf_flowring \<Rightarrow> pkt list" where
  "waiting f flow = (case ring_at f flow of None \<Rightarrow> [] | Some r \<Rightarrow> skblist r)"

definition ring_enq :: "u16 \<Rightarrow> brcmf_flowring \<Rightarrow> pkt \<Rightarrow> pkt option \<times> brcmf_flowring" where
  "ring_enq f flow p = (case brcmf_flowring_enqueue f p flow of
       None \<Rightarrow> (None, flow) | Some (_, flow') \<Rightarrow> (Some p, flow'))"

definition ring_deq :: "u16 \<Rightarrow> brcmf_flowring \<Rightarrow> pkt option \<times> brcmf_flowring" where
  "ring_deq f flow = (case brcmf_flowring_dequeue f flow of None \<Rightarrow> (None, flow) | Some res \<Rightarrow> res)"

lemma open_ringD:
  assumes "open_ring f flow"
  obtains r where "flow_inv flow" "ring_at f flow = Some r" "status r = RING_OPEN" "waiting f flow = skblist r"
  using assms by (auto simp: open_ring_def waiting_def split: option.splits)

lemma ring_enq_spec:
  assumes "open_ring f flow"
  shows "fst (ring_enq f flow p) = Some p \<and> waiting f (snd (ring_enq f flow p)) = waiting f flow @ [p]
    \<and> open_ring f (snd (ring_enq f flow p))"
proof -
  obtain r where r: "flow_inv flow" "ring_at f flow = Some r" "status r = RING_OPEN" "waiting f flow = skblist r"
    using assms by (rule open_ringD)
  obtain flow' where "brcmf_flowring_enqueue f p flow = Some (of_nat (length (skblist r) + 1), flow')"
    "ring_at f flow' = Some (r\<lparr>ring_blocked := (ring_blocked r \<or> length (skblist r) \<ge> BRCMF_FLOWRING_HIGH),
       skblist := skblist r @ [p]\<rparr>)"
    using flowring_enqueue_ring [OF r(2)] by metis
  with r show ?thesis using flow_inv_enqueue [OF r(1)]
    by (auto simp: ring_enq_def open_ring_def waiting_def)
qed

lemma ring_deq_spec:
  assumes "open_ring f flow"
  shows "fst (ring_deq f flow) = (case waiting f flow of [] \<Rightarrow> None | p # _ \<Rightarrow> Some p)
    \<and> waiting f (snd (ring_deq f flow)) = tl (waiting f flow) \<and> open_ring f (snd (ring_deq f flow))"
proof -
  obtain r where r: "flow_inv flow" "ring_at f flow = Some r" "status r = RING_OPEN" "waiting f flow = skblist r"
    using assms by (rule open_ringD)
  obtain flow' where "brcmf_flowring_dequeue f flow = Some (case skblist r of [] \<Rightarrow> None | p # _ \<Rightarrow> Some p, flow')"
    "ring_at f flow' = Some (r\<lparr>ring_blocked := (ring_blocked r \<and> length (tl (skblist r)) \<ge> BRCMF_FLOWRING_LOW),
       skblist := tl (skblist r)\<rparr>)"
    using flowring_dequeue_ring [OF r(2,3)] by metis
  with r show ?thesis using flow_inv_dequeue [OF r(1)]
    by (auto simp: ring_deq_def open_ring_def waiting_def)
qed

interpretation flow_fifo: bounded_fifo "open_ring f" "waiting f" "\<lambda>_. False" "ring_enq f" "ring_deq f" for f
  by unfold_locales (auto simp: ring_enq_spec ring_deq_spec)

subsection \<open>Properties\<close>

text \<open>
  C39: In every state that can be reached from a fresh table, rings and table entries belong to
  each other one to one: each ring names an entry that names the ring and a valid interface,
  and each entry in use belongs to exactly one ring.
\<close>

theorem flowring_table_one_to_one:
  assumes "flow_reach n ifs flow" "unat n < 512" "ifs_running ifs"
  shows "(\<forall>i r. i < length (rings flow) \<longrightarrow> rings flow ! i = Some r \<longrightarrow>
       hash_id r < 512 \<and> h_flowid (hash flow ! hash_id r) = of_nat i \<and> unat (h_ifidx (hash flow ! hash_id r)) < 16)
    \<and> (\<forall>k<512. \<not> entry_free (hash flow ! k) \<longrightarrow>
       (\<exists>!i. i < length (rings flow) \<and> (\<exists>r. rings flow ! i = Some r \<and> hash_id r = k)))"
proof -
  have wf: "flow_wf flow" using flow_reach_inv [OF assms] by (simp add: flow_inv_def)
  show ?thesis
  proof (intro conjI allI impI)
    fix k :: nat
    assume "k < 512" "\<not> entry_free (hash flow ! k)"
    then obtain i r where "i < length (rings flow)" "rings flow ! i = Some r" "hash_id r = k"
      using flow_wf_entry [OF wf] by metis
    then show "\<exists>!i. i < length (rings flow) \<and> (\<exists>r. rings flow ! i = Some r \<and> hash_id r = k)"
      using hash_id_inj [OF wf] by (intro ex1I [of _ i]) auto
  qed (use flow_wf_ring [OF wf] in auto)
qed

definition sample_ifs :: "nat \<Rightarrow> brcmf_if option" where
  "sample_ifs = (\<lambda>_. None)(0 := Some \<lparr>ifidx = 0, has_ndev = True, mac_addr = [0,0,0,0,0,1],
     netif_stop = 0, queue_stopped = False, fws_desc = None\<rparr>)"

abbreviation (input) sample_peer :: "u8 list" where "sample_peer \<equiv> [0x00, 0x90, 0x4c, 1, 2, 3]"

definition sample_flowring :: brcmf_flowring where
  "sample_flowring = snd (the (brcmf_flowring_create True (brcmf_flowring_attach 4 sample_ifs) sample_peer 5 0))"

lemma sample_ifs_running: "ifs_running sample_ifs"
  by (simp add: ifs_running_def sample_ifs_def)

lemma sample_flowring_create:
  "brcmf_flowring_create True (brcmf_flowring_attach 4 sample_ifs) sample_peer 5 0 = Some (0, sample_flowring)"
proof -
  have "fst (the (brcmf_flowring_create True (brcmf_flowring_attach 4 sample_ifs) sample_peer 5 0)) = 0"
    by code_simp
  moreover have "brcmf_flowring_create True (brcmf_flowring_attach 4 sample_ifs) sample_peer 5 0 \<noteq> None"
    by (simp add: brcmf_flowring_create_def flow_key_def brcmf_flowring_prio2fifo_def brcmf_flowring_attach_def Let_def)
  ultimately show ?thesis unfolding sample_flowring_def by (metis option.collapse prod.collapse)
qed

lemma sample_flowring_reach: "flow_reach 4 sample_ifs sample_flowring"
  by (rule flow_reach.step [OF flow_reach.init flow_step.create [OF sample_flowring_create]])

theorem flowring_table_one_to_one_witness:
  "\<exists>!i. i < length (rings sample_flowring) \<and> (\<exists>r. rings sample_flowring ! i = Some r \<and> hash_id r = 2)"
proof -
  have "\<not> entry_free (hash sample_flowring ! 2)" by code_simp
  then show ?thesis using flowring_table_one_to_one [OF sample_flowring_reach _ sample_ifs_running] by simp
qed

text \<open>
  An interface is stopped for flow control only as long as one of its rings is blocked:
  in no reachable state is it stopped with no ring left whose draining or removal would wake
  it.
\<close>

theorem flowring_stopped_only_if_blocked:
  assumes "flow_reach n ifs flow" "unat n < 512" "ifs_running ifs"
    and "m < 16" "net_ifs flow m = Some ifp" "has_ndev ifp" "netif_stop ifp AND BRCMF_NETIF_STOP_REASON_FLOW \<noteq> 0"
  shows "\<exists>i<length (rings flow). \<exists>r. rings flow ! i = Some r \<and> ring_blocked r \<and>
    unat (h_ifidx (hash flow ! hash_id r)) = m"
  using stop_okD [of flow m ifp] flow_reach_inv [OF assms(1-3)] assms(4-7)
  by (auto simp: flow_inv_def blocked_on_def)

text \<open>The sample ring with \<open>k\<close> packets, and one packet too many.\<close>

definition sample_filled :: "nat \<Rightarrow> brcmf_flowring" where
  "sample_filled k = sample_flowring\<lparr>rings := [Some \<lparr>hash_id = 2, ring_blocked = False, status = RING_CLOSED,
     skblist = replicate k 7\<rparr>, None, None, None]\<rparr>"

lemma sample_rings: "rings sample_flowring = [Some \<lparr>hash_id = 2, ring_blocked = False, status = RING_CLOSED,
    skblist = []\<rparr>, None, None, None]"
  by code_simp

lemma sample_entry: "h_ifidx (hash sample_flowring ! 2) = 0"
  by code_simp

lemma sample_net_ifs: "net_ifs sample_flowring = sample_ifs"
proof -
  have "net_ifs flow' = net_ifs flow" if "brcmf_flowring_create a flow da prio ifx = Some (v, flow')"
    for a flow da prio ifx v flow'
    using that by (cases rule: flowring_create_cases) simp_all
  from this [OF sample_flowring_create] show ?thesis by (simp add: brcmf_flowring_attach_def)
qed

lemma sample_fill_step:
  "k < 1024 \<Longrightarrow> brcmf_flowring_enqueue 0 7 (sample_filled k) = Some (of_nat (k + 1), sample_filled (k + 1))"
  by (simp add: brcmf_flowring_enqueue_def sample_filled_def ring_at_def upd_ring_def replicate_append_same)

lemma sample_filled_reach: "k \<le> 1024 \<Longrightarrow> flow_reach 4 sample_ifs (sample_filled k)"
proof (induction k)
  case 0
  have "sample_filled 0 = sample_flowring" using sample_rings by (simp add: sample_filled_def)
  then show ?case using sample_flowring_reach by simp
next
  case (Suc k)
  then show ?case using flow_reach.step [OF _ flow_step.enqueue [OF sample_fill_step [of k]]] by simp
qed

lemma sample_overfull:
  obtains flow ifp where "brcmf_flowring_enqueue 0 7 (sample_filled 1024) = Some (1025, flow)"
    "net_ifs flow 0 = Some ifp" "has_ndev ifp" "netif_stop ifp = 2"
proof -
  define fl where "fl = upd_ring 0 (\<lambda>r. r\<lparr>skblist := skblist r @ [7]\<rparr>) (sample_filled 1024)"
  have r: "ring_at 0 fl = Some \<lparr>hash_id = 2, ring_blocked = False, status = RING_CLOSED,
      skblist = replicate 1024 7 @ [7]\<rparr>"
    by (simp add: fl_def ring_at_def sample_filled_def upd_ring_def)
  have "\<not> other_blocked fl 0 x" for x
    by (simp add: other_blocked_def fl_def sample_filled_def upd_ring_def upt_rec)
  moreover have "hash fl = hash sample_flowring" by (simp add: fl_def sample_filled_def)
  ultimately have "brcmf_flowring_block 0 True fl =
      Some (block_if 0 True (upd_ring 0 (\<lambda>r. r\<lparr>ring_blocked := True\<rparr>) fl))"
    using sample_entry unfolding flowring_block_eq [OF r] by simp
  then have "brcmf_flowring_enqueue 0 7 (sample_filled 1024) =
      Some (1025, block_if 0 True (upd_ring 0 (\<lambda>r. r\<lparr>ring_blocked := True\<rparr>) fl))"
    by (simp add: brcmf_flowring_enqueue_def ring_at_def sample_filled_def fl_def)
  then show ?thesis
    by (rule that) (simp_all add: block_if_def flow_get_ifp_def fl_def sample_filled_def sample_net_ifs
      sample_ifs_def brcmf_txflowblock_if_def, simp_all)
qed

theorem flowring_stopped_only_if_blocked_witness:
  "\<exists>flow ifp. flow_reach 4 sample_ifs flow \<and> net_ifs flow 0 = Some ifp \<and> netif_stop ifp = 2 \<and>
     (\<exists>i<length (rings flow). \<exists>r. rings flow ! i = Some r \<and> ring_blocked r \<and>
       unat (h_ifidx (hash flow ! hash_id r)) = 0)"
proof -
  obtain flow ifp where f: "brcmf_flowring_enqueue 0 7 (sample_filled 1024) = Some (1025, flow)"
    "net_ifs flow 0 = Some ifp" "has_ndev ifp" "netif_stop ifp = 2" by (rule sample_overfull)
  have "flow_reach 4 sample_ifs flow"
    by (rule flow_reach.step [OF sample_filled_reach flow_step.enqueue [OF f(1)]]) simp
  then show ?thesis
    using flowring_stopped_only_if_blocked [OF _ _ sample_ifs_running, of 4 flow 0 ifp] f by auto
qed

text \<open>
  A ring blocks when it exceeds its high mark of 1024 packets and, once blocked, stays so
  until fewer than its low mark of 768 are left; packets are added at the end and taken from
  the front, and the operations return the number waiting and the packet.
\<close>

theorem flowring_hysteresis:
  assumes "ring_at f flow = Some r"
  shows "(\<exists>flow'. brcmf_flowring_enqueue f p flow = Some (of_nat (length (skblist r) + 1), flow')
      \<and> ring_at f flow' = Some (r\<lparr>ring_blocked := (ring_blocked r \<or> length (skblist r) \<ge> 1024),
           skblist := skblist r @ [p]\<rparr>))
    \<and> (status r = RING_OPEN \<longrightarrow>
       (\<exists>flow'. brcmf_flowring_dequeue f flow = Some (case skblist r of [] \<Rightarrow> None | q # _ \<Rightarrow> Some q, flow')
      \<and> ring_at f flow' = Some (r\<lparr>ring_blocked := (ring_blocked r \<and> length (tl (skblist r)) \<ge> 768),
           skblist := tl (skblist r)\<rparr>)))
    \<and> (status r \<noteq> RING_OPEN \<longrightarrow> brcmf_flowring_dequeue f flow = Some (None, flow))"
proof (intro conjI impI)
  show "\<exists>flow'. brcmf_flowring_enqueue f p flow = Some (of_nat (length (skblist r) + 1), flow')
      \<and> ring_at f flow' = Some (r\<lparr>ring_blocked := (ring_blocked r \<or> length (skblist r) \<ge> 1024),
           skblist := skblist r @ [p]\<rparr>)"
    using flowring_enqueue_ring [OF assms] by metis
  show "\<exists>flow'. brcmf_flowring_dequeue f flow = Some (case skblist r of [] \<Rightarrow> None | q # _ \<Rightarrow> Some q, flow')
      \<and> ring_at f flow' = Some (r\<lparr>ring_blocked := (ring_blocked r \<and> length (tl (skblist r)) \<ge> 768),
           skblist := tl (skblist r)\<rparr>)" if "status r = RING_OPEN"
    using flowring_dequeue_ring [OF assms that] by metis
  show "brcmf_flowring_dequeue f flow = Some (None, flow)" if "status r \<noteq> RING_OPEN"
    using assms that by (simp add: brcmf_flowring_dequeue_def)
qed

theorem flowring_hysteresis_witness:
  "\<exists>flow'. brcmf_flowring_enqueue 0 9 (sample_filled 1024) = Some (1025, flow') \<and>
     (\<exists>r. ring_at 0 flow' = Some r \<and> ring_blocked r)"
proof -
  have "ring_at 0 (sample_filled 1024) = Some \<lparr>hash_id = 2, ring_blocked = False, status = RING_CLOSED,
     skblist = replicate 1024 7\<rparr>" by (simp add: ring_at_def sample_filled_def)
  from flowring_hysteresis [OF this, of 9] show ?thesis by auto
qed

subsection \<open>The table as a map\<close>

text \<open>
  The abstract view of the table: a finite map from an address, a class and an interface to
  the number of a ring. It is what a user of an interface in direct mode relies on. The keys
  of the entries in use are distinct when a flow is created only after it was looked up in
  vain, as \<open>brcmf_msgbuf_tx_queue_data\<close> does.
\<close>

type_synonym flow_id = "u8 list \<times> nat \<times> u8"

definition key_of :: "brcmf_flowring_hash \<Rightarrow> flow_id" where
  "key_of h = (h_mac h, h_fifo h, h_ifidx h)"

definition abs_flows :: "brcmf_flowring \<Rightarrow> flow_id \<Rightarrow> u16 option" where
  "abs_flows flow key =
     map_option h_flowid (find (\<lambda>h. \<not> entry_free h \<and> key_of h = key) (hash flow))"

definition distinct_keys :: "brcmf_flowring \<Rightarrow> bool" where
  "distinct_keys flow \<longleftrightarrow> (\<forall>k<length (hash flow). \<forall>j<k.
     entry_free (hash flow ! j) \<or> entry_free (hash flow ! k) \<or> key_of (hash flow ! j) \<noteq> key_of (hash flow ! k))"

lemma distinct_keysD:
  assumes "distinct_keys flow" "j < length (hash flow)" "k < length (hash flow)"
    and "\<not> entry_free (hash flow ! j)" "\<not> entry_free (hash flow ! k)" "key_of (hash flow ! j) = key_of (hash flow ! k)"
  shows "j = k"
  using assms unfolding distinct_keys_def by (metis nat_neq_iff)

lemma abs_flows_Some:
  assumes "distinct_keys flow"
  shows "abs_flows flow key = Some f \<longleftrightarrow>
    (\<exists>k<length (hash flow). \<not> entry_free (hash flow ! k) \<and> key_of (hash flow ! k) = key \<and> h_flowid (hash flow ! k) = f)"
proof
  assume "abs_flows flow key = Some f"
  then show "\<exists>k<length (hash flow). \<not> entry_free (hash flow ! k) \<and> key_of (hash flow ! k) = key \<and> h_flowid (hash flow ! k) = f"
    by (auto simp: abs_flows_def find_Some_iff)
next
  assume "\<exists>k<length (hash flow). \<not> entry_free (hash flow ! k) \<and> key_of (hash flow ! k) = key \<and> h_flowid (hash flow ! k) = f"
  then obtain k where k: "k < length (hash flow)" "\<not> entry_free (hash flow ! k)" "key_of (hash flow ! k) = key"
    "h_flowid (hash flow ! k) = f" by blast
  then obtain h where h: "find (\<lambda>h. \<not> entry_free h \<and> key_of h = key) (hash flow) = Some h"
    by (cases "find (\<lambda>h. \<not> entry_free h \<and> key_of h = key) (hash flow)") (auto simp: find_None_iff dest: nth_mem)
  then obtain j where "j < length (hash flow)" "hash flow ! j = h" "\<not> entry_free h" "key_of h = key"
    by (auto simp: find_Some_iff)
  then have "j = k" using distinct_keysD [OF assms] k by auto
  with h k \<open>hash flow ! j = h\<close> show "abs_flows flow key = Some f" by (simp add: abs_flows_def)
qed

lemma abs_flows_None:
  "abs_flows flow key = None \<longleftrightarrow> (\<forall>k<length (hash flow). entry_free (hash flow ! k) \<or> key_of (hash flow ! k) \<noteq> key)"
  by (auto simp: abs_flows_def find_None_iff in_set_conv_nth)

lemma key_match_direct:
  "key_match False mac fifo ifx h \<longleftrightarrow> key_of h = (mac, fifo, ifx)"
  by (simp add: key_match_def key_of_def)

lemma key_in_use: "unat ifx < 16 \<Longrightarrow> key_of h = (mac, fifo, ifx) \<Longrightarrow> \<not> entry_free h"
  by (auto simp: entry_free_def key_of_def)

text \<open>A lookup whose key counts the address reads the map.\<close>

lemma lookup_abs:
  assumes "flow_wf flow" "distinct_keys flow" "flow_key flow da prio ifx = Some (False, mac, fifo, start)"
  shows "brcmf_flowring_lookup flow da prio ifx =
    Some (case abs_flows flow (mac, fifo, ifx) of Some f \<Rightarrow> ucast f | None \<Rightarrow> BRCMF_FLOWRING_INVALID_ID)"
proof -
  note len = flow_wf_lengths [OF assms(1)]
  have ifx: "unat ifx < 16" using flow_keyD [OF assms(3)] len by simp
  show ?thesis
  proof (cases "hash_search (key_match False mac fifo ifx) start flow")
    case None
    then have "abs_flows flow (mac, fifo, ifx) = None"
      unfolding abs_flows_None by (auto simp: hash_search_None key_match_direct len)
    with None assms(3) show ?thesis by (simp add: brcmf_flowring_lookup_def)
  next
    case (Some k)
    then have k: "k < 512" "key_of (hash flow ! k) = (mac, fifo, ifx)"
      using hash_searchD [OF Some] by (simp_all add: key_match_direct)
    then have "abs_flows flow (mac, fifo, ifx) = Some (h_flowid (hash flow ! k))"
      using key_in_use [OF ifx k(2)] len by (auto simp: abs_flows_Some [OF assms(2)] intro: exI [of _ k])
    with Some assms(3) show ?thesis by (simp add: brcmf_flowring_lookup_def)
  qed
qed

text \<open>Creating a flow whose key is not in the map adds it, deleting a ring removes its key.\<close>

lemma create_abs:
  assumes "flow_wf flow" "distinct_keys flow" "flow_key flow da prio ifx = Some (sta, mac, fifo, start)"
    and "abs_flows flow (mac, fifo, ifx) = None"
    and "brcmf_flowring_create alloc flow da prio ifx = Some (of_nat i, flow')" "i < 512"
  shows "distinct_keys flow' \<and> abs_flows flow' = (abs_flows flow)((mac, fifo, ifx) \<mapsto> of_nat i)"
  using assms(5)
proof (cases rule: flowring_create_cases)
  case 1
  have "unat (of_nat i :: u32) < 512" using assms(6) by (simp add: unat_of_nat_le [of i 512])
  moreover have "unat (BRCMF_FLOWRING_INVALID_ID) > 512" "unat (-12 :: u32) > 512" by simp_all
  ultimately show ?thesis using 1(2) by auto
next
  case (2 sta' mac' fifo' start' k j)
  note len = flow_wf_lengths [OF assms(1)]
  have ifx: "unat ifx < 16" using flow_keyD [OF assms(3)] len by simp
  have eq: "mac' = mac" "fifo' = fifo" using 2(1) assms(3) by simp_all
  have j: "j < 512" using 2(3) len by simp
  have "unat (of_nat i :: u32) = i" "unat (of_nat j :: u32) = j"
    using assms(6) j by (simp_all add: unat_of_nat_le [of _ 512])
  then have ij: "i = j" using 2(5) by metis
  have k: "k < 512" "entry_free (hash flow ! k)" using hash_searchD [OF 2(2)] by simp_all
  define e where "e = \<lparr>h_mac = mac, h_fifo = fifo, h_ifidx = ifx, h_flowid = of_nat i\<rparr>"
  have hash': "hash flow' = (hash flow)[k := e]" using 2(6) by (simp add: e_def eq ij)
  have e: "key_of e = (mac, fifo, ifx)" "\<not> entry_free e"
    using ifx by (auto simp: e_def key_of_def entry_free_def)
  have other: "entry_free (hash flow ! m) \<or> key_of (hash flow ! m) \<noteq> (mac, fifo, ifx)" if "m < 512" for m
    using assms(4) that len by (simp add: abs_flows_None)
  have dist: "distinct_keys flow'"
    unfolding distinct_keys_def
  proof (intro allI impI)
    fix m n
    assume m: "m < length (hash flow')" "n < m"
    then have "m < 512" "n < 512" using len by (simp_all add: hash')
    then show "entry_free (hash flow' ! n) \<or> entry_free (hash flow' ! m) \<or>
        key_of (hash flow' ! n) \<noteq> key_of (hash flow' ! m)"
      using m other [of n] other [of m] e k len assms(2)
      by (cases "m = k"; cases "n = k") (auto simp: hash' distinct_keys_def)
  qed
  moreover have "abs_flows flow' key = Some f \<longleftrightarrow> ((abs_flows flow)((mac, fifo, ifx) \<mapsto> of_nat i)) key = Some f" for key f
  proof -
    have "abs_flows flow' key = Some f \<longleftrightarrow> (key = (mac, fifo, ifx) \<and> f = of_nat i) \<or>
      (\<exists>m<512. m \<noteq> k \<and> \<not> entry_free (hash flow ! m) \<and> key_of (hash flow ! m) = key \<and> h_flowid (hash flow ! m) = f)"
      unfolding abs_flows_Some [OF dist] hash' using e k len
      by (auto simp: nth_list_update e_def split: if_splits)
    also have "\<dots> \<longleftrightarrow> ((abs_flows flow)((mac, fifo, ifx) \<mapsto> of_nat i)) key = Some f"
      using other k len by (auto simp: abs_flows_Some [OF assms(2)])
    finally show ?thesis .
  qed
  then have "abs_flows flow' = (abs_flows flow)((mac, fifo, ifx) \<mapsto> of_nat i)"
    by (intro ext) (metis not_Some_eq)
  ultimately show ?thesis by simp
qed

lemma delete_abs:
  assumes "flow_wf flow" "distinct_keys flow" "ring_at f flow = Some r" "brcmf_flowring_delete f flow = Some flow'"
  shows "distinct_keys flow' \<and> abs_flows flow' = (abs_flows flow)(key_of (hash flow ! hash_id r) := None)"
proof -
  note len = flow_wf_lengths [OF assms(1)] and r = ring_atD [OF assms(3)]
  obtain fl where fl: "brcmf_flowring_block f False flow = Some fl" "hash fl = hash flow"
    using flowring_block_fields [OF assms(3)] by metis
  define e where "e = (hash flow ! hash_id r)\<lparr>h_ifidx := BRCMF_FLOWRING_INVALID_IFIDX, h_mac := ZEROMAC\<rparr>"
  have hash': "hash flow' = (hash flow)[hash_id r := e]"
    using assms(4) fl r by (auto simp: brcmf_flowring_delete_def e_def)
  have e: "entry_free e" by (simp add: e_def entry_free_def)
  have hid: "hash_id r < 512" "\<not> entry_free (hash flow ! hash_id r)"
    using flow_wf_ring [OF assms(1) r] ring_not_free [OF assms(1) r] by simp_all
  have dist: "distinct_keys flow'"
    unfolding distinct_keys_def
  proof (intro allI impI)
    fix m n
    assume "m < length (hash flow')" "n < m"
    then show "entry_free (hash flow' ! n) \<or> entry_free (hash flow' ! m) \<or>
        key_of (hash flow' ! n) \<noteq> key_of (hash flow' ! m)"
      using e hid len assms(2) by (cases "m = hash_id r"; cases "n = hash_id r") (auto simp: hash' distinct_keys_def)
  qed
  moreover have "abs_flows flow' key = Some v \<longleftrightarrow> ((abs_flows flow)(key_of (hash flow ! hash_id r) := None)) key = Some v"
    for key v
  proof -
    have "abs_flows flow' key = Some v \<longleftrightarrow> (\<exists>m<512. m \<noteq> hash_id r \<and> \<not> entry_free (hash flow ! m) \<and>
        key_of (hash flow ! m) = key \<and> h_flowid (hash flow ! m) = v)"
      unfolding abs_flows_Some [OF dist] hash' using e hid len
      by (intro ex_cong1) (auto simp: nth_list_update)
    also have "\<dots> \<longleftrightarrow> ((abs_flows flow)(key_of (hash flow ! hash_id r) := None)) key = Some v"
      using hid len distinct_keysD [OF assms(2), of _ "hash_id r"] by (auto simp: abs_flows_Some [OF assms(2)])
    finally show ?thesis .
  qed
  then have "abs_flows flow' = (abs_flows flow)(key_of (hash flow ! hash_id r) := None)"
    by (intro ext) (metis not_Some_eq)
  ultimately show ?thesis by simp
qed

text \<open>
  A lookup on an interface of a station reads the map too, but at any address: a flow of the
  class and the interface, when there is one.
\<close>

lemma lookup_abs_sta:
  assumes "flow_wf flow" "distinct_keys flow" "flow_key flow da prio ifx = Some (True, mac, fifo, start)"
  shows "if \<exists>peer. abs_flows flow (peer, fifo, ifx) \<noteq> None
    then \<exists>peer f. abs_flows flow (peer, fifo, ifx) = Some f \<and> brcmf_flowring_lookup flow da prio ifx = Some (ucast f)
    else brcmf_flowring_lookup flow da prio ifx = Some BRCMF_FLOWRING_INVALID_ID"
proof -
  note len = flow_wf_lengths [OF assms(1)]
  have ifx: "unat ifx < 16" using flow_keyD [OF assms(3)] len by simp
  have match: "key_match True mac fifo ifx h \<longleftrightarrow> (\<exists>peer. key_of h = (peer, fifo, ifx))" for h
    by (auto simp: key_match_def key_of_def)
  show ?thesis
  proof (cases "hash_search (key_match True mac fifo ifx) start flow")
    case None
    then have "abs_flows flow (peer, fifo, ifx) = None" for peer
      unfolding abs_flows_None by (auto simp: hash_search_None match len)
    with None assms(3) show ?thesis by (simp add: brcmf_flowring_lookup_def)
  next
    case (Some k)
    then obtain peer where k: "k < 512" "key_of (hash flow ! k) = (peer, fifo, ifx)"
      using hash_searchD [OF Some] by (auto simp: match)
    then have "abs_flows flow (peer, fifo, ifx) = Some (h_flowid (hash flow ! k))"
      using key_in_use [OF ifx k(2)] len by (auto simp: abs_flows_Some [OF assms(2)] intro: exI [of _ k])
    with Some assms(3) show ?thesis by (auto simp: brcmf_flowring_lookup_def)
  qed
qed

lemma create_abs_cases:
  assumes "flow_wf flow" "distinct_keys flow" "flow_key flow da prio ifx = Some (sta, mac, fifo, start)"
    and "abs_flows flow (mac, fifo, ifx) = None" "brcmf_flowring_create alloc flow da prio ifx = Some (v, flow')"
  shows "flow' = flow \<and> (v = BRCMF_FLOWRING_INVALID_ID \<or> v = -12) \<or>
    (\<exists>i<512. v = of_nat i \<and> distinct_keys flow' \<and> abs_flows flow' = (abs_flows flow)((mac, fifo, ifx) \<mapsto> of_nat i))"
  using assms(5)
proof (cases rule: flowring_create_cases)
  case (2 sta' mac' fifo' start' k i)
  have "i < 512" using 2(3) flow_wf_lengths [OF assms(1)] by simp
  with create_abs [OF assms(1-4) assms(5) [unfolded 2(5)] this] 2(5) show ?thesis by blast
qed blast

text \<open>
  C40: The hash table refines a map from flows to ring numbers. Where the address counts, a
  lookup returns what the map holds for it, or the invalid number; on an interface of a station
  the address does not count, and the lookup returns a flow of the class and the interface,
  whichever peer it was made for, and the invalid number only when the map has none at all.
  Creating a flow that is not in the map adds exactly it under a new number, or fails and leaves
  the table as it was; deleting a ring removes exactly its flow. The probing, the collisions and
  the reuse of entries are invisible.
\<close>

theorem flowring_refines_map:
  assumes "flow_wf flow" "distinct_keys flow"
  shows "(\<forall>da prio ifx mac fifo start. flow_key flow da prio ifx = Some (False, mac, fifo, start) \<longrightarrow>
      brcmf_flowring_lookup flow da prio ifx =
      Some (case abs_flows flow (mac, fifo, ifx) of Some g \<Rightarrow> ucast g | None \<Rightarrow> BRCMF_FLOWRING_INVALID_ID))
    \<and> (\<forall>da prio ifx mac fifo start. flow_key flow da prio ifx = Some (True, mac, fifo, start) \<longrightarrow>
      (if \<exists>peer. abs_flows flow (peer, fifo, ifx) \<noteq> None
       then \<exists>peer g. abs_flows flow (peer, fifo, ifx) = Some g \<and> brcmf_flowring_lookup flow da prio ifx = Some (ucast g)
       else brcmf_flowring_lookup flow da prio ifx = Some BRCMF_FLOWRING_INVALID_ID))
    \<and> (\<forall>alloc da prio ifx sta mac fifo start v flow'. flow_key flow da prio ifx = Some (sta, mac, fifo, start) \<and>
      abs_flows flow (mac, fifo, ifx) = None \<and> brcmf_flowring_create alloc flow da prio ifx = Some (v, flow') \<longrightarrow>
      flow' = flow \<and> (v = BRCMF_FLOWRING_INVALID_ID \<or> v = -12) \<or>
      (\<exists>i<512. v = of_nat i \<and> distinct_keys flow' \<and> abs_flows flow' = (abs_flows flow)((mac, fifo, ifx) \<mapsto> of_nat i)))
    \<and> (\<forall>f r flow'. ring_at f flow = Some r \<and> brcmf_flowring_delete f flow = Some flow' \<longrightarrow>
      distinct_keys flow' \<and> abs_flows flow' = (abs_flows flow)(key_of (hash flow ! hash_id r) := None))"
  by (intro conjI allI impI; (elim conjE)?;
    (rule lookup_abs [OF assms] | rule lookup_abs_sta [OF assms] | rule create_abs_cases [OF assms]
      | rule delete_abs [OF assms, THEN conjunct1] | rule delete_abs [OF assms, THEN conjunct2]); assumption)

text \<open>A table whose interface 0 counts addresses, with one flow.\<close>

definition sample_direct0 :: brcmf_flowring where
  "sample_direct0 = (brcmf_flowring_attach 4 sample_ifs)\<lparr>addr_mode := (replicate 16 ADDR_INDIRECT)[0 := ADDR_DIRECT]\<rparr>"

definition sample_direct :: brcmf_flowring where
  "sample_direct = snd (the (brcmf_flowring_create True sample_direct0 sample_peer 5 0))"

lemma sample_direct0_wf: "flow_inv sample_direct0" "distinct_keys sample_direct0"
proof -
  have "flow_inv (brcmf_flowring_attach 4 sample_ifs)"
    using flow_inv_attach [OF _ sample_ifs_running, of 4] by simp
  moreover have "sample_direct0 = (brcmf_flowring_attach 4 sample_ifs)
      \<lparr>addr_mode := (addr_mode (brcmf_flowring_attach 4 sample_ifs))[0 := ADDR_DIRECT]\<rparr>"
    by (simp add: sample_direct0_def brcmf_flowring_attach_def)
  ultimately show "flow_inv sample_direct0" using flow_inv_peers(3) by metis
  show "distinct_keys sample_direct0"
    by (simp add: distinct_keys_def sample_direct0_def brcmf_flowring_attach_def entry_free_def)
qed

lemma sample_direct_create:
  "brcmf_flowring_create True sample_direct0 sample_peer 5 0 = Some (of_nat 0, sample_direct)"
proof -
  have "fst (the (brcmf_flowring_create True sample_direct0 sample_peer 5 0)) = of_nat 0" by code_simp
  moreover have "brcmf_flowring_create True sample_direct0 sample_peer 5 0 \<noteq> None"
    by (simp add: brcmf_flowring_create_def flow_key_def brcmf_flowring_prio2fifo_def sample_direct0_def Let_def)
  ultimately show ?thesis unfolding sample_direct_def by (metis option.collapse prod.collapse)
qed

lemma sample_direct_wf: "flow_wf sample_direct" "distinct_keys sample_direct"
proof -
  show "flow_wf sample_direct"
    using flow_inv_create [OF sample_direct0_wf(1) sample_direct_create] by (simp add: flow_inv_def)
  have "flow_key sample_direct0 sample_peer 5 0 = Some (False, sample_peer, 2, 8)" by code_simp
  moreover have "abs_flows sample_direct0 (sample_peer, 2, 0) = None"
    unfolding abs_flows_None by (simp add: sample_direct0_def brcmf_flowring_attach_def entry_free_def)
  ultimately show "distinct_keys sample_direct"
    using create_abs [OF _ sample_direct0_wf(2) _ _ sample_direct_create] sample_direct0_wf(1)
    by (auto simp: flow_inv_def)
qed

text \<open>The table of a station, with a flow for one address.\<close>

abbreviation (input) sample_ap :: "u8 list" where "sample_ap \<equiv> [0x00, 0x90, 0x4c, 7, 7, 7]"

lemma sample_flowring_wf: "flow_wf sample_flowring" "distinct_keys sample_flowring"
proof -
  let ?fl = "brcmf_flowring_attach 4 sample_ifs"
  show "flow_wf sample_flowring"
    using flow_reach_inv [OF sample_flowring_reach _ sample_ifs_running] by (simp add: flow_inv_def)
  have wf: "flow_wf ?fl" "distinct_keys ?fl"
    using flow_inv_attach [OF _ sample_ifs_running, of 4]
    by (simp_all add: flow_inv_def distinct_keys_def brcmf_flowring_attach_def entry_free_def)
  have "flow_key ?fl sample_peer 5 0 = Some (True, sample_peer, 2, 2)" by code_simp
  moreover have "abs_flows ?fl (sample_peer, 2, 0) = None"
    unfolding abs_flows_None by (simp add: brcmf_flowring_attach_def entry_free_def)
  moreover have "brcmf_flowring_create True ?fl sample_peer 5 0 = Some (of_nat 0, sample_flowring)"
    using sample_flowring_create by simp
  moreover have "(0 :: nat) < 512" by simp
  ultimately show "distinct_keys sample_flowring" using create_abs [OF wf] by blast
qed

theorem flowring_refines_map_witness:
  "abs_flows sample_direct (sample_peer, 2, 0) = Some 0 \<and> brcmf_flowring_lookup sample_direct sample_peer 5 0 = Some 0 \<and>
   (\<exists>peer g. abs_flows sample_flowring (peer, 2, 0) = Some g \<and> brcmf_flowring_lookup sample_flowring sample_ap 5 0 = Some (ucast g))"
proof -
  have key: "flow_key sample_direct sample_peer 5 0 = Some (False, sample_peer, 2, 8)" by code_simp
  have sta: "flow_key sample_flowring sample_ap 5 0 = Some (True, sample_ap, 2, 2)" by code_simp
  have direct: "abs_flows sample_direct (sample_peer, 2, 0) = Some 0" by code_simp
  have "abs_flows sample_flowring (sample_peer, 2, 0) \<noteq> None" by code_simp
  then have some: "\<exists>peer. abs_flows sample_flowring (peer, 2, 0) \<noteq> None" by blast
  have "brcmf_flowring_lookup sample_direct sample_peer 5 0 = Some 0"
    using flowring_refines_map [OF sample_direct_wf, THEN conjunct1, rule_format, OF key] direct by simp
  moreover have "\<exists>peer g. abs_flows sample_flowring (peer, 2, 0) = Some g \<and>
      brcmf_flowring_lookup sample_flowring sample_ap 5 0 = Some (ucast g)"
    using flowring_refines_map [OF sample_flowring_wf, THEN conjunct2, THEN conjunct1, rule_format, OF sta]
    unfolding if_P [OF some] .
  ultimately show ?thesis using direct by blast
qed

text \<open>
  Over any run of enqueues and dequeues of an open ring, the packets come out once each and
  in the order they went in.
\<close>

theorem flowring_fifo_order:
  assumes "open_ring f flow" "run_fifo (ring_enq f) (ring_deq f) flow ops = (acc, out, flow')"
  shows "waiting f flow @ acc = out @ waiting f flow' \<and> open_ring f flow'"
  using assms by (rule flow_fifo.fifo_order)

definition sample_open :: brcmf_flowring where
  "sample_open = upd_ring 0 (\<lambda>r. r\<lparr>status := RING_OPEN\<rparr>) sample_flowring"

theorem flowring_fifo_order_witness:
  "open_ring 0 sample_open \<and>
   (case run_fifo (ring_enq 0) (ring_deq 0) sample_open [Enq 4, Enq 9, Deq, Enq 2] of
     (acc, out, flow') \<Rightarrow> acc = out @ waiting 0 flow')"
proof -
  have "flow_inv sample_open"
    unfolding sample_open_def using flow_reach_inv [OF sample_flowring_reach _ sample_ifs_running]
    by (intro flow_inv_status) simp
  then have "open_ring 0 sample_open"
    by (simp add: open_ring_def ring_at_def sample_open_def upd_ring_def sample_rings)
  moreover have "waiting 0 sample_open = []"
    by (simp add: waiting_def ring_at_def sample_open_def upd_ring_def sample_rings)
  ultimately show ?thesis
    using flowring_fifo_order [of 0 sample_open "[Enq 4, Enq 9, Deq, Enq 2]"]
    by (cases "run_fifo (ring_enq 0) (ring_deq 0) sample_open [Enq 4, Enq 9, Deq, Enq 2]") fastforce
qed

text \<open>
  On a station's interface the lookup does not look at the address of the entry it finds.
  When the only ring of a class is one made for a directly linked peer, packets to any other
  address, the access point included, are given to the ring of the peer.
\<close>

theorem flowring_sta_lookup_ignores_peer:
  assumes "flow_key flow da prio ifx = Some (True, mac, fifo, start)"
    and "k < 512" "h_fifo (hash flow ! k) = fifo" "h_ifidx (hash flow ! k) = ifx"
    and "\<And>j. j < 512 \<Longrightarrow> h_fifo (hash flow ! j) = fifo \<Longrightarrow> h_ifidx (hash flow ! j) = ifx \<Longrightarrow> j = k"
  shows "brcmf_flowring_lookup flow da prio ifx = Some (ucast (h_flowid (hash flow ! k)))"
proof (cases "hash_search (key_match True mac fifo ifx) start flow")
  case None
  with assms(2-4) show ?thesis by (auto simp: hash_search_None key_match_def)
next
  case (Some j)
  then have "j = k" using hash_searchD [OF Some] assms(5) by (simp add: key_match_def)
  with Some assms(1) show ?thesis by (simp add: brcmf_flowring_lookup_def)
qed

definition sample_tdls :: brcmf_flowring where
  "sample_tdls = snd (the (brcmf_flowring_create True
     (brcmf_flowring_add_tdls_peer True sample_peer (brcmf_flowring_attach 4 sample_ifs)) sample_peer 5 0))"

lemma hash_search_hit: "start < 512 \<Longrightarrow> P (hash flow ! start) \<Longrightarrow> hash_search P start flow = Some start"
proof -
  assume "start < 512" "P (hash flow ! start)"
  moreover have "[0..<512] = (0 :: nat) # [Suc 0..<512]" by (rule upt_conv_Cons) simp
  ultimately show ?thesis by (simp add: hash_search_def first_index_def del: upt_rec_numeral)
qed

lemma sample_tdls_hash:
  "hash sample_tdls = (replicate 512 \<lparr>h_mac = ZEROMAC, h_fifo = 0, h_ifidx = BRCMF_FLOWRING_INVALID_IFIDX, h_flowid = 0\<rparr>)
     [8 := \<lparr>h_mac = sample_peer, h_fifo = 2, h_ifidx = 0, h_flowid = 0\<rparr>]"
proof -
  define fl where "fl = brcmf_flowring_add_tdls_peer True sample_peer (brcmf_flowring_attach 4 sample_ifs)"
  have "flow_key fl sample_peer 5 0 = Some (False, sample_peer, 2, 8)" unfolding fl_def by code_simp
  moreover have "hash_search entry_free 8 fl = Some 8"
    by (rule hash_search_hit) (simp_all add: fl_def brcmf_flowring_add_tdls_peer_def brcmf_flowring_attach_def
      entry_free_def)
  moreover have "first_index (\<lambda>i. rings fl ! i = None) (length (rings fl)) = Some 0" unfolding fl_def by code_simp
  ultimately show ?thesis
    unfolding sample_tdls_def fl_def [symmetric] brcmf_flowring_create_def
    by (simp add: fl_def brcmf_flowring_add_tdls_peer_def brcmf_flowring_attach_def)
qed

theorem flowring_sta_lookup_ignores_peer_witness:
  "brcmf_flowring_lookup sample_tdls sample_ap 5 0 = Some 0 \<and> h_mac (hash sample_tdls ! 8) = sample_peer"
proof -
  have key: "flow_key sample_tdls sample_ap 5 0 = Some (True, sample_ap, 2, 2)" by code_simp
  have only: "j = 8" if "j < 512" "h_ifidx (hash sample_tdls ! j) = 0" for j
  proof (rule ccontr)
    assume "j \<noteq> 8"
    with that show False by (simp add: sample_tdls_hash)
  qed
  have e: "hash sample_tdls ! 8 = \<lparr>h_mac = sample_peer, h_fifo = 2, h_ifidx = 0, h_flowid = 0\<rparr>"
    by (simp add: sample_tdls_hash)
  have "brcmf_flowring_lookup sample_tdls sample_ap 5 0 = Some (ucast (h_flowid (hash sample_tdls ! 8)))"
    by (rule flowring_sta_lookup_ignores_peer [OF key]) (simp_all add: e only)
  then show ?thesis by (simp add: e)
qed

end
