(* ===== verification/Msgbuf_Pktid.thy ===== *)
theory Msgbuf_Pktid
  imports Fws_Hanger
begin

section \<open>Packet ids of the message buffers (brcmfmac/msgbuf.c)\<close>

text \<open>
  A packet given to the device is parked in an array and known to the device by its index.
  The next index is searched round the array from the one given last. The mapping of the
  packet for the device is a parameter: its address, or nothing where it fails.

  Shown: the search ends, finds a free index whenever there is one, and changes nothing else;
  over any run of allocations and completions each index gives back the packet it was given,
  once.
\<close>

record brcmf_msgbuf_pktid =
  allocated :: bool
  data_offset :: u16
  pid_skb :: pkt
  physaddr :: nat

record brcmf_msgbuf_pktids =
  array_size :: u32
  last_allocated_idx :: u32
  pid_array :: "brcmf_msgbuf_pktid list"

definition brcmf_msgbuf_init_pktids :: "u32 \<Rightarrow> brcmf_msgbuf_pktids" where
  "brcmf_msgbuf_init_pktids n =
     \<lparr>array_size = n, last_allocated_idx = 0,
      pid_array = replicate (unat n) \<lparr>allocated = False, data_offset = 0, pid_skb = 0, physaddr = 0\<rparr>\<rparr>"

text \<open>The search loop; the first argument counts the rounds left.\<close>

fun pktid_search :: "nat \<Rightarrow> u32 \<Rightarrow> brcmf_msgbuf_pktids \<Rightarrow> u32 option" where
  "pktid_search 0 idx p = None"
| "pktid_search (Suc n) idx p =
     (let idx = idx + 1;
          idx = (if idx = array_size p then 0 else idx)
      in if \<not> allocated (pid_array p ! unat idx) then Some idx else pktid_search n idx p)"

definition brcmf_msgbuf_alloc_pktid ::
    "nat option \<Rightarrow> pkt \<Rightarrow> u16 \<Rightarrow> brcmf_msgbuf_pktids \<Rightarrow> (errno + nat \<times> u32) \<times> brcmf_msgbuf_pktids" where
  "brcmf_msgbuf_alloc_pktid mapped skb offset p =
     (case mapped of
        None \<Rightarrow> (Inl ENOMEM, p)
      | Some addr \<Rightarrow>
          (case pktid_search (unat (array_size p)) (last_allocated_idx p) p of
             None \<Rightarrow> (Inl ENOMEM, p)
           | Some idx \<Rightarrow>
               (Inr (addr, idx),
                p\<lparr>pid_array := (pid_array p)[unat idx :=
                    \<lparr>allocated = True, data_offset = offset, pid_skb = skb, physaddr = addr\<rparr>],
                  last_allocated_idx := idx\<rparr>)))"

definition brcmf_msgbuf_get_pktid :: "u32 \<Rightarrow> brcmf_msgbuf_pktids \<Rightarrow> pkt option \<times> brcmf_msgbuf_pktids" where
  "brcmf_msgbuf_get_pktid idx p =
     (if idx \<ge> array_size p then (None, p)
      else if allocated (pid_array p ! unat idx)
      then (Some (pid_skb (pid_array p ! unat idx)),
            p\<lparr>pid_array := (pid_array p)[unat idx := (pid_array p ! unat idx)\<lparr>allocated := False\<rparr>]\<rparr>)
      else (None, p))"

text \<open>The packets freed when the array is released.\<close>

definition brcmf_msgbuf_release_array :: "brcmf_msgbuf_pktids \<Rightarrow> pkt list" where
  "brcmf_msgbuf_release_array p = map pid_skb (filter allocated (pid_array p))"

subsection \<open>The search\<close>

definition pktids_wf :: "brcmf_msgbuf_pktids \<Rightarrow> bool" where
  "pktids_wf p \<longleftrightarrow> length (pid_array p) = unat (array_size p) \<and> last_allocated_idx p < array_size p"

definition pid_free :: "brcmf_msgbuf_pktids \<Rightarrow> nat \<Rightarrow> bool" where
  "pid_free p i \<longleftrightarrow> \<not> allocated (pid_array p ! i)"

lemma unat_pktid_next:
  fixes idx n :: u32
  assumes "idx < n"
  shows "unat (if idx + 1 = n then 0 else idx + 1) = adv (unat n) (unat idx) 1"
  using assms unat_succ_lt [OF assms] by (auto simp: adv_def word_less_nat_alt word_unat_eq_iff)

lemma pktid_search_spec:
  assumes "idx < array_size p" "n \<le> unat (array_size p)"
  shows "pktid_search n idx p = map_option of_nat
    (find (pid_free p) (slots (unat (array_size p)) (adv (unat (array_size p)) (unat idx) 1) n))"
  using assms
proof (induction n arbitrary: idx)
  case 0
  then show ?case by (simp add: slots_def)
next
  case (Suc n)
  let ?d = "unat (array_size p)"
  define nx where "nx = (if idx + 1 = array_size p then 0 else idx + 1)"
  have nx: "unat nx = adv ?d (unat idx) 1" unfolding nx_def using Suc.prems(1) by (rule unat_pktid_next)
  have lt: "unat nx < ?d" unfolding nx using Suc.prems by (intro adv_less) (auto simp: word_less_nat_alt)
  have "slots ?d (unat nx) (Suc n) = unat nx # slots ?d (adv ?d (unat nx) 1) n"
    using lt Suc.prems by (simp add: slots_Cons)
  moreover have "pktid_search (Suc n) idx p = (if pid_free p (unat nx) then Some nx else pktid_search n nx p)"
    by (simp add: nx_def pid_free_def Let_def)
  moreover have "pktid_search n nx p =
      map_option of_nat (find (pid_free p) (slots ?d (adv ?d (unat nx) 1) n))"
    using lt Suc.prems by (intro Suc.IH) (simp_all add: word_less_nat_alt)
  ultimately show ?case unfolding nx [symmetric] by simp
qed

lemma in_slots_all:
  assumes "a < d" "i < d"
  shows "i \<in> set (slots d a d)"
proof -
  have "i = adv d a (dist d a i)" "dist d a i < d" using assms by (simp_all add: adv_dist dist_less)
  then show ?thesis unfolding slots_def by (simp only: set_map set_upt) (rule image_eqI, auto)
qed

lemma slots_in_range: "a < d \<Longrightarrow> n \<le> d \<Longrightarrow> i \<in> set (slots d a n) \<Longrightarrow> i < d"
  by (auto simp: slots_def adv_def)

lemma pktid_search_result:
  assumes "pktids_wf p"
  shows "case pktid_search (unat (array_size p)) (last_allocated_idx p) p of
      Some idx \<Rightarrow> idx < array_size p \<and> pid_free p (unat idx)
    | None \<Rightarrow> (\<forall>i<unat (array_size p). \<not> pid_free p i)"
proof -
  let ?d = "unat (array_size p)" and ?a = "adv (unat (array_size p)) (unat (last_allocated_idx p)) 1"
  have last: "last_allocated_idx p < array_size p" using assms by (simp add: pktids_wf_def)
  then have d: "unat (last_allocated_idx p) < ?d" "0 < ?d" by (auto simp: word_less_nat_alt)
  have a: "?a < ?d" using d by (intro adv_less) auto
  note search = pktid_search_spec [OF last order_refl]
  show ?thesis
  proof (cases "find (pid_free p) (slots ?d ?a ?d)")
    case None
    then have "\<forall>i\<in>set (slots ?d ?a ?d). \<not> pid_free p i" by (auto simp: find_None_iff)
    then have "\<forall>i<?d. \<not> pid_free p i" using in_slots_all [OF a] by blast
    with None search show ?thesis by simp
  next
    case (Some i)
    then have i: "i \<in> set (slots ?d ?a ?d)" "pid_free p i" by (auto simp: find_Some_iff)
    then have "i < ?d" using slots_in_range [OF a order_refl] by blast
    then have "unat (of_nat i :: u32) = i" by (intro unat_of_nat_le [of i "array_size p"]) simp
    with \<open>i < ?d\<close> i Some search show ?thesis by (simp add: word_less_nat_alt)
  qed
qed

subsection \<open>Allocation and completion\<close>

lemma alloc_pktid_wf: "pktids_wf p \<Longrightarrow> pktids_wf (snd (brcmf_msgbuf_alloc_pktid mapped skb offset p))"
  using pktid_search_result [of p]
  by (auto simp: brcmf_msgbuf_alloc_pktid_def pktids_wf_def split: option.split)

lemma get_pktid_wf: "pktids_wf p \<Longrightarrow> pktids_wf (snd (brcmf_msgbuf_get_pktid idx p))"
  by (simp add: brcmf_msgbuf_get_pktid_def pktids_wf_def)

text \<open>The packet parked at an index.\<close>

definition pid_slot :: "brcmf_msgbuf_pktids \<Rightarrow> u32 \<Rightarrow> pkt option" where
  "pid_slot p idx = (if idx < array_size p \<and> allocated (pid_array p ! unat idx)
     then Some (pid_skb (pid_array p ! unat idx)) else None)"

lemma alloc_pktid_ok:
  assumes "pktids_wf p" "brcmf_msgbuf_alloc_pktid mapped skb offset p = (Inr (addr, idx), p')"
  shows "pid_slot p idx = None" "pid_slot p' = (pid_slot p)(idx := Some skb)" "idx < array_size p"
    "mapped = Some addr" "pktids_wf p'"
proof -
  from assms(2) have s: "pktid_search (unat (array_size p)) (last_allocated_idx p) p = Some idx"
    and p': "p' = p\<lparr>pid_array := (pid_array p)[unat idx :=
        \<lparr>allocated = True, data_offset = offset, pid_skb = skb, physaddr = addr\<rparr>], last_allocated_idx := idx\<rparr>"
    and "mapped = Some addr"
    by (auto simp: brcmf_msgbuf_alloc_pktid_def split: option.splits)
  with pktid_search_result [OF assms(1)] have idx: "idx < array_size p" "pid_free p (unat idx)" by simp_all
  then have "unat idx < length (pid_array p)" using assms(1) by (simp add: pktids_wf_def word_less_nat_alt)
  then show "pid_slot p' = (pid_slot p)(idx := Some skb)"
    using idx by (auto simp: pid_slot_def p' fun_eq_iff nth_list_update dest!: unat_eqD)
  show "pid_slot p idx = None" using idx by (simp add: pid_slot_def pid_free_def)
  show "idx < array_size p" "mapped = Some addr" by fact+
  show "pktids_wf p'" using alloc_pktid_wf [OF assms(1), of mapped skb offset] assms(2) by simp
qed

lemma alloc_pktid_fail: "brcmf_msgbuf_alloc_pktid mapped skb offset p = (Inl e, p') \<Longrightarrow> p' = p \<and> e = ENOMEM"
  by (auto simp: brcmf_msgbuf_alloc_pktid_def split: option.splits)

lemma get_pktid_ok:
  assumes "pktids_wf p" "brcmf_msgbuf_get_pktid idx p = (Some skb, p')"
  shows "pid_slot p idx = Some skb" "pid_slot p' = (pid_slot p)(idx := None)"
proof -
  from assms(2) have idx: "idx < array_size p" "allocated (pid_array p ! unat idx)"
      "skb = pid_skb (pid_array p ! unat idx)"
    and p': "p' = p\<lparr>pid_array := (pid_array p)[unat idx := (pid_array p ! unat idx)\<lparr>allocated := False\<rparr>]\<rparr>"
    by (auto simp: brcmf_msgbuf_get_pktid_def split: if_splits)
  then have "unat idx < length (pid_array p)" using assms(1) by (simp add: pktids_wf_def word_less_nat_alt)
  then show "pid_slot p' = (pid_slot p)(idx := None)"
    using idx by (auto simp: pid_slot_def p' fun_eq_iff nth_list_update dest!: unat_eqD)
  show "pid_slot p idx = Some skb" using idx by (simp add: pid_slot_def)
qed

lemma get_pktid_fail:
  assumes "brcmf_msgbuf_get_pktid idx p = (None, p')"
  shows "p' = p" "pid_slot p idx = None"
  using assms by (auto simp: brcmf_msgbuf_get_pktid_def pid_slot_def split: if_splits)

text \<open>
  The provider of the interface: the well-formed arrays. Others cannot arise, so that the
  operations are extended to them by doing nothing.
\<close>

definition pid_alloc :: "brcmf_msgbuf_pktids \<Rightarrow> pkt \<Rightarrow> u32 option \<times> brcmf_msgbuf_pktids" where
  "pid_alloc p skb = (if pktids_wf p then (case brcmf_msgbuf_alloc_pktid (Some 0) skb 0 p of
       (Inl _, p') \<Rightarrow> (None, p') | (Inr (_, idx), p') \<Rightarrow> (Some idx, p')) else (None, p))"

definition pid_pick :: "brcmf_msgbuf_pktids \<Rightarrow> u32 \<Rightarrow> pkt option \<times> brcmf_msgbuf_pktids" where
  "pid_pick p idx = (if pktids_wf p then brcmf_msgbuf_get_pktid idx p else (None, p))"

interpretation pktid_store: id_store pid_slot pid_alloc pid_pick
proof
  show "pid_slot s i = None \<and> pid_slot s' = (pid_slot s)(i := Some p)" if "pid_alloc s p = (Some i, s')" for s p i s'
    using that alloc_pktid_ok [of s "Some 0" p 0] by (auto simp: pid_alloc_def split: if_splits sum.splits prod.splits)
  show "s' = s" if "pid_alloc s p = (None, s')" for s p s'
    using that alloc_pktid_fail [of "Some 0" p 0 s]
    by (auto simp: pid_alloc_def split: if_splits sum.splits prod.splits)
  show "pid_slot s i = Some p \<and> pid_slot s' = (pid_slot s)(i := None)" if "pid_pick s i = (Some p, s')" for s i p s'
    using that get_pktid_ok [of s i] by (auto simp: pid_pick_def split: if_splits)
  show "pid_slot s' = pid_slot s" if "pid_pick s i = (None, s')" for s i s'
    using that get_pktid_fail [of i s] by (auto simp: pid_pick_def split: if_splits)
qed

text \<open>
  Parking a packet that is mapped for the device fails only when every index is in use,
  and then changes nothing. Otherwise the search ends at an index of the array that was free;
  the packet is parked there and no other index is touched.
\<close>

theorem pktid_alloc_spec:
  assumes "pktids_wf p"
  shows "case brcmf_msgbuf_alloc_pktid (Some addr) skb offset p of
      (Inr (a, idx), p') \<Rightarrow> a = addr \<and> idx < array_size p \<and> pid_slot p idx = None \<and>
        pid_slot p' = (pid_slot p)(idx := Some skb) \<and> pktids_wf p'
    | (Inl e, p') \<Rightarrow> e = ENOMEM \<and> p' = p \<and> (\<forall>idx<array_size p. pid_slot p idx \<noteq> None)"
proof (cases "brcmf_msgbuf_alloc_pktid (Some addr) skb offset p")
  case (Pair res p')
  show ?thesis
  proof (cases res)
    case (Inl e)
    with Pair have "pktid_search (unat (array_size p)) (last_allocated_idx p) p = None"
      by (auto simp: brcmf_msgbuf_alloc_pktid_def split: option.splits)
    with pktid_search_result [OF assms] have "\<forall>idx<array_size p. pid_slot p idx \<noteq> None"
      by (auto simp: pid_slot_def pid_free_def word_less_nat_alt)
    with Pair Inl alloc_pktid_fail show ?thesis by fastforce
  next
    case (Inr r)
    obtain a idx where "r = (a, idx)" by fastforce
    with Pair Inr alloc_pktid_ok [OF assms, of "Some addr" skb offset a idx p'] show ?thesis by simp
  qed
qed

definition sample_pids :: brcmf_msgbuf_pktids where
  "sample_pids = snd (brcmf_msgbuf_alloc_pktid (Some 512) 7 0 (brcmf_msgbuf_init_pktids 3))"

lemma init_pktids_wf: "0 < n \<Longrightarrow> pktids_wf (brcmf_msgbuf_init_pktids n)"
  by (simp add: pktids_wf_def brcmf_msgbuf_init_pktids_def)

lemma sample_pids_wf: "pktids_wf sample_pids"
  unfolding sample_pids_def by (intro alloc_pktid_wf init_pktids_wf) simp

theorem pktid_alloc_spec_witness:
  "fst (brcmf_msgbuf_alloc_pktid (Some 768) 8 0 sample_pids) = Inr (768, 2) \<and> pid_slot sample_pids 2 = None \<and>
   pid_slot (snd (brcmf_msgbuf_alloc_pktid (Some 768) 8 0 sample_pids)) = (pid_slot sample_pids)(2 := Some 8)"
proof -
  have "fst (brcmf_msgbuf_alloc_pktid (Some 768) 8 0 sample_pids) = Inr (768, 2)" by code_simp
  then show ?thesis using pktid_alloc_spec [OF sample_pids_wf, of 768 8 0]
    by (cases "brcmf_msgbuf_alloc_pktid (Some 768) 8 0 sample_pids") auto
qed

text \<open>
  Over any run in which packets are parked and the device reports indices, valid or not,
  an index gives back exactly the packets that were parked under it, each once and in order;
  what was not given back is still parked.
\<close>

theorem pktid_history:
  assumes "id_run pid_alloc pid_pick p ops = (ins, outs, p')"
  shows "slot_list (pid_slot p idx) @ on_slot idx ins = on_slot idx outs @ slot_list (pid_slot p' idx)"
  using assms by (rule pktid_store.id_history)

theorem pktid_history_witness:
  "case id_run pid_alloc pid_pick sample_pids [Free 1, Alloc 9, Free 5, Alloc 4, Free 2] of
     (ins, outs, p') \<Rightarrow> [] @ on_slot 2 ins = on_slot 2 outs @ slot_list (pid_slot p' 2) \<and> outs = [(1, 7), (2, 9)]"
proof -
  have "fst (snd (id_run pid_alloc pid_pick sample_pids [Free 1, Alloc 9, Free 5, Alloc 4, Free 2])) = [(1, 7), (2, 9)]"
    by code_simp
  moreover have "pid_slot sample_pids 2 = None" by code_simp
  ultimately show ?thesis
    using pktid_history [of sample_pids "[Free 1, Alloc 9, Free 5, Alloc 4, Free 2]" _ _ _ 2]
    by (cases "id_run pid_alloc pid_pick sample_pids [Free 1, Alloc 9, Free 5, Alloc 4, Free 2]") auto
qed

end
