(* ===== verification/Msgbuf_Tx.thy ===== *)
theory Msgbuf_Tx
  imports Commonring Flowring Msgbuf_Pktid
begin

section \<open>Message buffers: state, control messages and transmission (brcmfmac/msgbuf.c)\<close>

text \<open>
  On PCIe devices the driver and the firmware exchange messages over common rings: two rings
  from the host for control messages and for receive buffers, one more for every flow, and
  three rings back. This theory has the state of the protocol and what leads to the device:
  control messages and commands, flow rings and their deletion, the transmission of the
  packets that wait, and the report that a packet was sent.

  Each ring to the device is a \<open>ring_sys\<close> of the theory \<open>Commonring\<close>, so that its histories
  tell what was written and what the device has read. A message has the fields that the code
  writes. The result \<open>None\<close> of an operation is an access outside an array or through a null
  pointer. What the kernel does is in \<open>msgbuf_env\<close>: the mapping of a packet for the device
  and the outcomes of allocations, by their number. Where the code sleeps, a parameter says
  what the other threads do meanwhile.

  Shown: transmission returns, posts packets in the order of the flow, each under its own id,
  publishes them, and stops early only for want of room; no packet is lost or doubled between
  the flow, the device and the stack; a command gets the answer that was meant for it.
\<close>

subsection \<open>State\<close>

text \<open>Messages to the device. Addresses are the pairs of high and low word.\<close>

datatype h2d_msg =
    H2d_mbdata u32
  | Ioctlptr_req u8 u32 u16 u16 u16 "u32 \<times> u32"
  | Flow_ring_create u8 u8 u16 "u8 list" "u8 list" "u32 \<times> u32" u16 u16
  | Flow_ring_delete u8 u16
  | Tx_post u32 u8 u8 "u8 list" u16 "u32 \<times> u32"
  | Rxbuf_post u32 u16 "u32 \<times> u32" "(u16 \<times> u32 \<times> u32) option"
  | Ctrlbuf_post bool u32 u16 "u32 \<times> u32"

record brcmf_msgbuf_work_item =
  w_flowid :: u32
  w_ifidx :: int
  w_sa :: "u8 list"
  w_da :: "u8 list"

text \<open>The fields of an interface that forwards packets between its stations.\<close>

record brcmf_if_ap =
  isap :: bool
  fmac_pkt_fwd_en :: bool
  sta_list :: "u8 list list"

record brcmf_msgbuf =
  ctl_submit :: "h2d_msg ring_sys"
  rxpost_submit :: "h2d_msg ring_sys"
  rx_complete :: "u8 list ring_sys"
  tx_complete :: "u8 list ring_sys"
  ctl_complete :: "u8 list ring_sys"
  flow_rings :: "h2d_msg ring_sys list"
  outstanding_tx :: "int list"
  flowring_dma_handle :: "nat list"
  rx_dataoffset :: u16
  max_rxbufpost :: u32
  rx_metadata_offset :: u16
  rxbufpost :: u32
  max_ioctlrespbuf :: u32
  cur_ioctlrespbuf :: u32
  max_eventbuf :: u32
  cur_eventbuf :: u32
  ioctbuf :: "u8 list"
  ioctbuf_handle :: nat
  ioctl_resp_status :: int
  ioctl_resp_ret_len :: u32
  ioctl_resp_pktid :: u32
  reqid :: u32
  ctl_completed :: bool
  tx_pktids :: brcmf_msgbuf_pktids
  rx_pktids :: brcmf_msgbuf_pktids
  mb_flow :: brcmf_flowring
  flow_map :: "bool list"
  txstatus_done_map :: "bool list"
  work_queue :: "brcmf_msgbuf_work_item list"
  rx_data_q :: "pkt list"
  flowring_work :: bool
  txflow_work :: bool
  rx_work :: bool
  bus_up :: bool
  ap_ifs :: "nat \<Rightarrow> brcmf_if_ap"
  mon_if :: "nat option"
  feat_fmt_radiotap :: bool
  feat_fmt_hw_rx_hdr :: bool
  skb_data :: "pkt \<Rightarrow> u8 list"
  skb_priority :: "pkt \<Rightarrow> u32"
  nalloc :: nat
  dma_freed :: "nat list"
  freed_skbs :: "pkt list"
  fw_events :: "(nat \<times> pkt) list"
  rx_frames :: "pkt list"
  mb_data :: "u32 list"

record msgbuf_env =
  dma_map :: "pkt \<Rightarrow> nat option"
  skb_alloc :: "nat \<Rightarrow> pkt option"
  dma_alloc :: "nat \<Rightarrow> (nat \<times> nat) option"
  alloc_ok :: "nat \<Rightarrow> bool"
  classify8021d :: "u8 list \<Rightarrow> u32"

abbreviation (input) BRCMF_IOCTL_REQ_PKTID :: u32 where "BRCMF_IOCTL_REQ_PKTID \<equiv> 0xFFFE"
abbreviation (input) BRCMF_TX_IOCTL_MAX_MSG_SIZE :: u16 where "BRCMF_TX_IOCTL_MAX_MSG_SIZE \<equiv> 1518"
abbreviation (input) BRCMF_H2D_TXFLOWRING_MAX_ITEM :: u16 where "BRCMF_H2D_TXFLOWRING_MAX_ITEM \<equiv> 512"
abbreviation (input) BRCMF_H2D_TXFLOWRING_ITEMSIZE :: u16 where "BRCMF_H2D_TXFLOWRING_ITEMSIZE \<equiv> 48"
abbreviation (input) BRCMF_H2D_MSGRING_FLOWRING_IDSTART :: u16 where "BRCMF_H2D_MSGRING_FLOWRING_IDSTART \<equiv> 2"
abbreviation (input) BRCMF_MSGBUF_TX_FLUSH_CNT1 :: u32 where "BRCMF_MSGBUF_TX_FLUSH_CNT1 \<equiv> 32"
abbreviation (input) BRCMF_MSGBUF_TX_FLUSH_CNT2 :: u32 where "BRCMF_MSGBUF_TX_FLUSH_CNT2 \<equiv> 96"
abbreviation (input) BRCMF_MSGBUF_DELAY_TXWORKER_THRS :: int where "BRCMF_MSGBUF_DELAY_TXWORKER_THRS \<equiv> 96"
abbreviation (input) BRCMF_MSGBUF_TRICKLE_TXWORKER_THRS :: u32 where "BRCMF_MSGBUF_TRICKLE_TXWORKER_THRS \<equiv> 32"
abbreviation (input) BRCMF_MAX_TXSTATUS_WAIT_RETRIES :: nat where "BRCMF_MAX_TXSTATUS_WAIT_RETRIES \<equiv> 10"
abbreviation (input) ETH_HLEN :: u16 where "ETH_HLEN \<equiv> 14"

definition bus_addr :: "nat \<Rightarrow> u32 \<times> u32" where
  "bus_addr a = (of_int (int a div 2 ^ 32), of_int (int a))"

text \<open>The destination and the source of an Ethernet frame.\<close>

definition h_dest :: "u8 list \<Rightarrow> u8 list" where
  "h_dest data = take 6 data"

definition h_source :: "u8 list \<Rightarrow> u8 list" where
  "h_source data = take 6 (drop 6 data)"

subsection \<open>The use of the rings\<close>

text \<open>
  Reserving a slot and filling it, and publishing what was filled: the ring operations with
  the histories kept.
\<close>

definition ring_put :: "'m \<Rightarrow> 'm ring_sys \<Rightarrow> bool \<times> 'm ring_sys" where
  "ring_put x rg =
     (case brcmf_commonring_reserve_for_write pcie_ops (dev rg, host rg) of
        (None, d, cr) \<Rightarrow> (False, rg\<lparr>host := cr, dev := d\<rparr>)
      | (Some a, d, cr) \<Rightarrow>
          (True, rg\<lparr>host := cr, dev := d, ring_mem := (ring_mem rg)(a := x), produced := produced rg @ [x]\<rparr>))"

definition ring_publish :: "'m ring_sys \<Rightarrow> (errno + unit) \<times> 'm ring_sys" where
  "ring_publish rg =
     (case brcmf_commonring_write_complete pcie_ops (dev rg, host rg) of
        (res, d, cr) \<Rightarrow> (res, rg\<lparr>host := cr, dev := d\<rparr>))"

definition ring_room :: "'m ring_sys \<Rightarrow> bool \<times> 'm ring_sys" where
  "ring_room rg =
     (case brcmf_commonring_write_available pcie_ops (dev rg, host rg) of
        (b, d, cr) \<Rightarrow> (b, rg\<lparr>host := cr, dev := d\<rparr>))"

text \<open>A ring configured anew, with an empty history.\<close>

definition ring_setup :: "u16 \<Rightarrow> u16 \<Rightarrow> nat \<Rightarrow> 'm ring_sys \<Rightarrow> 'm ring_sys" where
  "ring_setup dp il buf rg =
     (case brcmf_commonring_config pcie_ops dp il buf (dev rg, host rg) of
        (d, cr) \<Rightarrow> rg\<lparr>host := cr, dev := d, produced := [], consumed := []\<rparr>)"

subsection \<open>Control messages and commands\<close>

definition brcmf_msgbuf_tx_mbdata :: "u32 \<Rightarrow> brcmf_msgbuf \<Rightarrow> (errno + unit) \<times> brcmf_msgbuf" where
  "brcmf_msgbuf_tx_mbdata mbdata s =
     (let (ok, rg) = ring_put (H2d_mbdata mbdata) (ctl_submit s)
      in if \<not> ok then (Inl ENOMEM, s\<lparr>ctl_submit := rg\<rparr>)
         else let (err, rg) = ring_publish rg in (err, s\<lparr>ctl_submit := rg\<rparr>))"

text \<open>The first bytes of a buffer replaced.\<close>

definition memcpy :: "u8 list \<Rightarrow> u8 list \<Rightarrow> nat \<Rightarrow> u8 list" where
  "memcpy dst src n = take n src @ drop n dst"

definition brcmf_msgbuf_tx_ioctl ::
    "int \<Rightarrow> u32 \<Rightarrow> u8 list option \<Rightarrow> u32 \<Rightarrow> brcmf_msgbuf \<Rightarrow> (errno + unit) \<times> brcmf_msgbuf" where
  "brcmf_msgbuf_tx_ioctl ifx cmd buf len s =
     (let buf_len = min (ucast len) BRCMF_TX_IOCTL_MAX_MSG_SIZE;
          rid = reqid s + 1;
          request = Ioctlptr_req (of_int ifx) cmd (ucast len) (ucast rid) buf_len (bus_addr (ioctbuf_handle s));
          (ok, rg) = ring_put request (ctl_submit s)
      in if \<not> ok then (Inl ENOMEM, s\<lparr>ctl_submit := rg\<rparr>)
         else
           let s = s\<lparr>reqid := rid, ioctbuf := memcpy (ioctbuf s)
                 (case buf of Some b \<Rightarrow> b | None \<Rightarrow> replicate (unat buf_len) 0) (unat buf_len)\<rparr>;
               (err, rg) = ring_publish rg
           in (err, s\<lparr>ctl_submit := rg\<rparr>))"

text \<open>
  The wait for the response: \<open>others\<close> is what the other threads do until the condition holds
  or the time is up; the result is whether the condition holds then.
\<close>

definition brcmf_msgbuf_ioctl_resp_wait ::
    "(brcmf_msgbuf \<Rightarrow> brcmf_msgbuf) \<Rightarrow> brcmf_msgbuf \<Rightarrow> bool \<times> brcmf_msgbuf" where
  "brcmf_msgbuf_ioctl_resp_wait others s = (let s = others s in (ctl_completed s, s))"

definition brcmf_msgbuf_ioctl_resp_wake :: "brcmf_msgbuf \<Rightarrow> brcmf_msgbuf" where
  "brcmf_msgbuf_ioctl_resp_wake s = s\<lparr>ctl_completed := True\<rparr>"

definition mb_free_skb :: "pkt option \<Rightarrow> brcmf_msgbuf \<Rightarrow> brcmf_msgbuf" where
  "mb_free_skb p s = (case p of None \<Rightarrow> s | Some p \<Rightarrow> s\<lparr>freed_skbs := freed_skbs s @ [p]\<rparr>)"

text \<open>The result of the command, the caller's buffer and the state.\<close>

definition brcmf_msgbuf_query_dcmd ::
    "(brcmf_msgbuf \<Rightarrow> brcmf_msgbuf) \<Rightarrow> int \<Rightarrow> u32 \<Rightarrow> u8 list option \<Rightarrow> u32 \<Rightarrow> brcmf_msgbuf
      \<Rightarrow> ((errno + int) \<times> u8 list option \<times> brcmf_msgbuf) option" where
  "brcmf_msgbuf_query_dcmd others ifx cmd buf len s =
     (let s = s\<lparr>ctl_completed := False\<rparr>;
          (err, s) = brcmf_msgbuf_tx_ioctl ifx cmd buf len s
      in case err of
           Inl e \<Rightarrow> Some (Inl e, buf, s)
         | Inr _ \<Rightarrow>
             (let (timeout, s) = brcmf_msgbuf_ioctl_resp_wait others s
              in if \<not> timeout then Some (Inl EIO, buf, s)
                 else
                   let (skb, ids) = brcmf_msgbuf_get_pktid (ioctl_resp_pktid s) (rx_pktids s);
                       s = s\<lparr>rx_pktids := ids\<rparr>;
                       n = unat (min len (ioctl_resp_ret_len s))
                   in if ioctl_resp_ret_len s \<noteq> 0
                      then (case skb of
                              None \<Rightarrow> Some (Inl EBADF, buf, s)
                            | Some p \<Rightarrow>
                                if n > length (skb_data s p) \<or> (buf = None \<and> n \<noteq> 0) then None
                                else Some (Inr (ioctl_resp_status s),
                                           map_option (\<lambda>b. memcpy b (skb_data s p) n) buf, mb_free_skb skb s))
                      else Some (Inr (ioctl_resp_status s), buf, mb_free_skb skb s)))"

definition brcmf_msgbuf_set_dcmd ::
    "(brcmf_msgbuf \<Rightarrow> brcmf_msgbuf) \<Rightarrow> int \<Rightarrow> u32 \<Rightarrow> u8 list option \<Rightarrow> u32 \<Rightarrow> brcmf_msgbuf
      \<Rightarrow> ((errno + int) \<times> u8 list option \<times> brcmf_msgbuf) option" where
  "brcmf_msgbuf_set_dcmd others ifx cmd buf len s = brcmf_msgbuf_query_dcmd others ifx cmd buf len s"

subsection \<open>Flow rings\<close>

definition mb_ring :: "nat \<Rightarrow> brcmf_msgbuf \<Rightarrow> h2d_msg ring_sys option" where
  "mb_ring f s = (if f < length (flow_rings s) then Some (flow_rings s ! f) else None)"

definition set_mb_ring :: "nat \<Rightarrow> h2d_msg ring_sys \<Rightarrow> brcmf_msgbuf \<Rightarrow> brcmf_msgbuf" where
  "set_mb_ring f rg s = s\<lparr>flow_rings := (flow_rings s)[f := rg]\<rparr>"

definition brcmf_msgbuf_remove_flowring :: "u16 \<Rightarrow> brcmf_msgbuf \<Rightarrow> brcmf_msgbuf option" where
  "brcmf_msgbuf_remove_flowring flowid s = do {
     rg \<leftarrow> mb_ring (unat flowid) s;
     flow \<leftarrow> brcmf_flowring_delete flowid (mb_flow s);
     Some (s\<lparr>mb_flow := flow, dma_freed := dma_freed s @ [buf_addr (host rg)]\<rparr>)
   }"

text \<open>
  What the request to create and the request to delete a ring share: the message is written to
  the control ring and published; where either fails the ring is removed. \<open>defined\<close> says
  whether the entry of the ring, which the message is made from, exists. The result tells
  whether the request was sent.
\<close>

definition send_flow_request :: "bool \<Rightarrow> h2d_msg \<Rightarrow> u16 \<Rightarrow> brcmf_msgbuf \<Rightarrow> (bool \<times> brcmf_msgbuf) option" where
  "send_flow_request defined msg flowid s =
     (let (ok, ctl) = ring_put msg (ctl_submit s)
      in if \<not> ok then map_option (Pair False) (brcmf_msgbuf_remove_flowring flowid (s\<lparr>ctl_submit := ctl\<rparr>))
         else if \<not> defined then None
         else
           let (err, ctl) = ring_publish ctl;
               s = s\<lparr>ctl_submit := ctl\<rparr>
           in (case err of
                 Inl _ \<Rightarrow> map_option (Pair False) (brcmf_msgbuf_remove_flowring flowid s)
               | Inr _ \<Rightarrow> Some (True, s)))"

definition brcmf_msgbuf_dequeue_work ::
    "brcmf_msgbuf \<Rightarrow> brcmf_msgbuf_work_item option \<times> brcmf_msgbuf" where
  "brcmf_msgbuf_dequeue_work s =
     (case work_queue s of [] \<Rightarrow> (None, s) | w # ws \<Rightarrow> (Some w, s\<lparr>work_queue := ws\<rparr>))"

definition brcmf_msgbuf_flowring_create_worker ::
    "msgbuf_env \<Rightarrow> brcmf_msgbuf_work_item \<Rightarrow> brcmf_msgbuf \<Rightarrow> (u32 \<times> brcmf_msgbuf) option" where
  "brcmf_msgbuf_flowring_create_worker env work s =
     (let flowid = w_flowid work; f = unat flowid; n = nalloc s; s = s\<lparr>nalloc := n + 1\<rparr>
      in if f \<ge> length (flowring_dma_handle s) then None
         else case dma_alloc env n of
           None \<Rightarrow> do {
             flow \<leftarrow> brcmf_flowring_delete (ucast flowid) (mb_flow s);
             Some (BRCMF_FLOWRING_INVALID_ID, s\<lparr>mb_flow := flow\<rparr>)
           }
         | Some (dma_buf, handle) \<Rightarrow> do {
             let s = s\<lparr>flowring_dma_handle := (flowring_dma_handle s)[f := handle]\<rparr>;
             rg \<leftarrow> mb_ring f s;
             let s = set_mb_ring f (ring_setup BRCMF_H2D_TXFLOWRING_MAX_ITEM BRCMF_H2D_TXFLOWRING_ITEMSIZE dma_buf rg) s;
             let tid = brcmf_flowring_tid (mb_flow s) (ucast flowid);
             (sent, s) \<leftarrow> send_flow_request (tid \<noteq> None) (Flow_ring_create (of_int (w_ifidx work))
                  (case tid of None \<Rightarrow> 0 | Some t \<Rightarrow> of_nat t) (ucast flowid + BRCMF_H2D_MSGRING_FLOWRING_IDSTART)
                  (w_sa work) (w_da work) (bus_addr handle)
                  BRCMF_H2D_TXFLOWRING_MAX_ITEM BRCMF_H2D_TXFLOWRING_ITEMSIZE) (ucast flowid) s;
             Some (if sent then flowid else BRCMF_FLOWRING_INVALID_ID, s)
           })"

partial_function (option) flowring_worker_loop :: "msgbuf_env \<Rightarrow> brcmf_msgbuf \<Rightarrow> brcmf_msgbuf option" where
  "flowring_worker_loop env s =
     (case brcmf_msgbuf_dequeue_work s of
        (None, s) \<Rightarrow> Some s
      | (Some create, s) \<Rightarrow>
          Option.bind (brcmf_msgbuf_flowring_create_worker env create s) (\<lambda>(_, s). flowring_worker_loop env s))"

definition brcmf_msgbuf_flowring_worker :: "msgbuf_env \<Rightarrow> brcmf_msgbuf \<Rightarrow> brcmf_msgbuf option" where
  "brcmf_msgbuf_flowring_worker env s = flowring_worker_loop env (s\<lparr>flowring_work := False\<rparr>)"

definition brcmf_msgbuf_flowring_create ::
    "msgbuf_env \<Rightarrow> int \<Rightarrow> pkt \<Rightarrow> brcmf_msgbuf \<Rightarrow> (u32 \<times> brcmf_msgbuf) option" where
  "brcmf_msgbuf_flowring_create env ifx skb s =
     (let eh = skb_data s skb; n = nalloc s; s = s\<lparr>nalloc := n + 2\<rparr>
      in if \<not> alloc_ok env n then Some (BRCMF_FLOWRING_INVALID_ID, s)
         else do {
           (flowid, flow) \<leftarrow> brcmf_flowring_create (alloc_ok env (n + 1)) (mb_flow s) (h_dest eh)
              (ucast (skb_priority s skb)) (of_int ifx);
           let s = s\<lparr>mb_flow := flow\<rparr>;
           if flowid = BRCMF_FLOWRING_INVALID_ID then Some (flowid, s)
           else
             let create = \<lparr>w_flowid = flowid, w_ifidx = ifx, w_sa = h_source eh, w_da = h_dest eh\<rparr>
             in Some (flowid, s\<lparr>work_queue := work_queue s @ [create], flowring_work := True\<rparr>)
         })"

subsection \<open>Transmission\<close>

text \<open>The message for a packet.\<close>

definition tx_msg :: "brcmf_msgbuf \<Rightarrow> u32 \<Rightarrow> u8 \<Rightarrow> pkt \<Rightarrow> nat \<Rightarrow> h2d_msg" where
  "tx_msg s pktid ifx skb addr =
     Tx_post (pktid + 1) ifx (1 OR push_bit 5 (ucast (skb_priority s skb) AND 7)) (take 14 (skb_data s skb))
       (of_nat (length (skb_data s skb)) - ETH_HLEN) (bus_addr addr)"

definition add_outstanding :: "nat \<Rightarrow> int \<Rightarrow> brcmf_msgbuf \<Rightarrow> brcmf_msgbuf" where
  "add_outstanding f k s = s\<lparr>outstanding_tx := (outstanding_tx s)[f := outstanding_tx s ! f + k]\<rparr>"

text \<open>One round of the loop: whether a packet was posted, or the loop is left.\<close>

definition txflow_one :: "msgbuf_env \<Rightarrow> u16 \<Rightarrow> brcmf_msgbuf \<Rightarrow> (bool \<times> brcmf_msgbuf) option" where
  "txflow_one env flowid s = do {
     (q, flow) \<leftarrow> brcmf_flowring_dequeue flowid (mb_flow s);
     let s = s\<lparr>mb_flow := flow\<rparr>;
     case q of
       None \<Rightarrow> Some (False, s)
     | Some skb \<Rightarrow>
         (case brcmf_msgbuf_alloc_pktid (dma_map env skb) skb ETH_HLEN (tx_pktids s) of
            (Inl _, ids) \<Rightarrow> do {
              flow \<leftarrow> brcmf_flowring_reinsert flowid skb (mb_flow s);
              Some (False, s\<lparr>tx_pktids := ids, mb_flow := flow\<rparr>)
            }
          | (Inr (addr, pktid), ids) \<Rightarrow> do {
              rg \<leftarrow> mb_ring (unat flowid) s;
              ifx \<leftarrow> brcmf_flowring_ifidx_get (mb_flow s) flowid;
              let (ok, rg) = ring_put (tx_msg s pktid ifx skb addr) rg;
              let s = set_mb_ring (unat flowid) rg (s\<lparr>tx_pktids := ids\<rparr>);
              if \<not> ok then do {
                let (_, ids) = brcmf_msgbuf_get_pktid pktid (tx_pktids s);
                flow \<leftarrow> brcmf_flowring_reinsert flowid skb (mb_flow s);
                Some (False, s\<lparr>tx_pktids := ids, mb_flow := flow\<rparr>)
              }
              else Some (True, add_outstanding (unat flowid) 1 s)
            })
   }"

definition publish_flow :: "u16 \<Rightarrow> brcmf_msgbuf \<Rightarrow> brcmf_msgbuf option" where
  "publish_flow flowid s = do {
     rg \<leftarrow> mb_ring (unat flowid) s;
     Some (set_mb_ring (unat flowid) (snd (ring_publish rg)) s)
   }"

partial_function (option) txflow_loop ::
    "msgbuf_env \<Rightarrow> u16 \<Rightarrow> u32 \<Rightarrow> brcmf_msgbuf \<Rightarrow> (u32 \<times> brcmf_msgbuf) option" where
  "txflow_loop env flowid count s =
     Option.bind (brcmf_flowring_qlen flowid (mb_flow s)) (\<lambda>qlen.
       if qlen = 0 then Some (count, s)
       else Option.bind (txflow_one env flowid s) (\<lambda>(go, s).
         if \<not> go then Some (count, s)
         else if count + 1 \<ge> BRCMF_MSGBUF_TX_FLUSH_CNT2
         then Option.bind (publish_flow flowid s) (\<lambda>s. txflow_loop env flowid 0 s)
         else txflow_loop env flowid (count + 1) s))"

definition brcmf_msgbuf_txflow :: "msgbuf_env \<Rightarrow> u16 \<Rightarrow> brcmf_msgbuf \<Rightarrow> brcmf_msgbuf option" where
  "brcmf_msgbuf_txflow env flowid s = do {
     rg \<leftarrow> mb_ring (unat flowid) s;
     let (avail, rg) = ring_room rg;
     let s = set_mb_ring (unat flowid) rg s;
     if \<not> avail then Some s
     else do {
       (count, s) \<leftarrow> txflow_loop env flowid (BRCMF_MSGBUF_TX_FLUSH_CNT2 - BRCMF_MSGBUF_TX_FLUSH_CNT1) s;
       if count \<noteq> 0 then publish_flow flowid s else Some s
     }
   }"

text \<open>The scan over the set bits of the map; each is cleared before its flow is served.\<close>

fun txflow_bits :: "msgbuf_env \<Rightarrow> nat list \<Rightarrow> brcmf_msgbuf \<Rightarrow> brcmf_msgbuf option" where
  "txflow_bits env [] s = Some s"
| "txflow_bits env (f # fs) s =
     (if flow_map s ! f
      then Option.bind (brcmf_msgbuf_txflow env (of_nat f) (s\<lparr>flow_map := (flow_map s)[f := False]\<rparr>))
             (txflow_bits env fs)
      else txflow_bits env fs s)"

definition brcmf_msgbuf_txflow_worker :: "msgbuf_env \<Rightarrow> brcmf_msgbuf \<Rightarrow> brcmf_msgbuf option" where
  "brcmf_msgbuf_txflow_worker env s = txflow_bits env [0..<length (flow_map s)] (s\<lparr>txflow_work := False\<rparr>)"

definition brcmf_msgbuf_schedule_txdata :: "u32 \<Rightarrow> bool \<Rightarrow> brcmf_msgbuf \<Rightarrow> brcmf_msgbuf option" where
  "brcmf_msgbuf_schedule_txdata flowid force s =
     (if unat flowid \<ge> length (flow_map s) \<or> unat flowid \<ge> length (outstanding_tx s) then None
      else
        let s = s\<lparr>flow_map := (flow_map s)[unat flowid := True]\<rparr>
        in Some (if force \<or> outstanding_tx s ! unat flowid < BRCMF_MSGBUF_DELAY_TXWORKER_THRS
                 then s\<lparr>txflow_work := True\<rparr> else s))"

definition brcmf_msgbuf_tx_queue_data ::
    "msgbuf_env \<Rightarrow> int \<Rightarrow> pkt \<Rightarrow> brcmf_msgbuf \<Rightarrow> ((errno + unit) \<times> brcmf_msgbuf) option" where
  "brcmf_msgbuf_tx_queue_data env ifx skb s = do {
     flowid \<leftarrow> brcmf_flowring_lookup (mb_flow s) (h_dest (skb_data s skb)) (ucast (skb_priority s skb)) (of_int ifx);
     if flowid = BRCMF_FLOWRING_INVALID_ID then do {
       (flowid, s) \<leftarrow> brcmf_msgbuf_flowring_create env ifx skb s;
       if flowid = BRCMF_FLOWRING_INVALID_ID then Some (Inl ENOMEM, s)
       else do {
         (_, flow) \<leftarrow> brcmf_flowring_enqueue (ucast flowid) skb (mb_flow s);
         Some (Inr (), s\<lparr>mb_flow := flow\<rparr>)
       }
     } else do {
       (queue_count, flow) \<leftarrow> brcmf_flowring_enqueue (ucast flowid) skb (mb_flow s);
       let force = (queue_count mod BRCMF_MSGBUF_TRICKLE_TXWORKER_THRS = 0);
       s \<leftarrow> brcmf_msgbuf_schedule_txdata flowid force (s\<lparr>mb_flow := flow\<rparr>);
       Some (Inr (), s)
     }
   }"

subsection \<open>Deleting flow rings\<close>

text \<open>Waiting until the device has reported every packet, or the tries are used up.\<close>

fun wait_outstanding ::
    "nat \<Rightarrow> (brcmf_msgbuf \<Rightarrow> brcmf_msgbuf) \<Rightarrow> nat \<Rightarrow> brcmf_msgbuf \<Rightarrow> bool \<times> brcmf_msgbuf" where
  "wait_outstanding 0 sleep f s = (False, s)"
| "wait_outstanding (Suc retry) sleep f s =
     (if outstanding_tx s ! f \<noteq> 0 then wait_outstanding retry sleep f (sleep s) else (True, s))"

definition brcmf_msgbuf_delete_flowring ::
    "(brcmf_msgbuf \<Rightarrow> brcmf_msgbuf) \<Rightarrow> u16 \<Rightarrow> brcmf_msgbuf \<Rightarrow> brcmf_msgbuf option" where
  "brcmf_msgbuf_delete_flowring sleep flowid s =
     (if unat flowid \<ge> length (flow_rings s) \<or> ring_at flowid (mb_flow s) = None then None
      else
        let s = s\<lparr>mb_flow := upd_ring flowid (\<lambda>r. r\<lparr>status := RING_CLOSING\<rparr>) (mb_flow s)\<rparr>;
            (drained, s) = wait_outstanding BRCMF_MAX_TXSTATUS_WAIT_RETRIES sleep (unat flowid) s;
            s = (if \<not> drained then s\<lparr>outstanding_tx := (outstanding_tx s)[unat flowid := 0]\<rparr> else s)
        in if \<not> bus_up s then brcmf_msgbuf_remove_flowring flowid s
           else
             let ifx = brcmf_flowring_ifidx_get (mb_flow s) flowid
             in map_option snd (send_flow_request (ifx \<noteq> None)
                  (Flow_ring_delete (case ifx of None \<Rightarrow> 0 | Some i \<Rightarrow> i) (flowid + BRCMF_H2D_MSGRING_FLOWRING_IDSTART))
                  flowid s))"

text \<open>The functions of \<open>flowring.c\<close> that delete rings: the scan of the table for the rings to close.\<close>

fun delete_matching ::
    "(brcmf_msgbuf \<Rightarrow> brcmf_msgbuf) \<Rightarrow> (brcmf_flowring_hash \<Rightarrow> bool) \<Rightarrow> nat list \<Rightarrow> brcmf_msgbuf \<Rightarrow> brcmf_msgbuf option" where
  "delete_matching sleep P [] s = Some s"
| "delete_matching sleep P (i # is) s =
     (let h = hash (mb_flow s) ! i
      in if P h
         then (case ring_at (h_flowid h) (mb_flow s) of
                 None \<Rightarrow> None
               | Some ring \<Rightarrow>
                   if status ring \<noteq> RING_OPEN then delete_matching sleep P is s
                   else Option.bind (brcmf_msgbuf_delete_flowring sleep (h_flowid h) s) (delete_matching sleep P is))
         else delete_matching sleep P is s)"

definition brcmf_flowring_configure_addr_mode ::
    "(brcmf_msgbuf \<Rightarrow> brcmf_msgbuf) \<Rightarrow> nat \<Rightarrow> proto_addr_mode \<Rightarrow> brcmf_msgbuf \<Rightarrow> brcmf_msgbuf option" where
  "brcmf_flowring_configure_addr_mode sleep ifx m s =
     (if ifx \<ge> length (addr_mode (mb_flow s)) then None
      else if addr_mode (mb_flow s) ! ifx \<noteq> m then do {
        s \<leftarrow> delete_matching sleep (\<lambda>h. unat (h_ifidx h) = ifx) [0..<BRCMF_FLOWRING_HASHSIZE] s;
        Some (s\<lparr>mb_flow := (mb_flow s)\<lparr>addr_mode := (addr_mode (mb_flow s))[ifx := m]\<rparr>\<rparr>)
      }
      else Some s)"

definition brcmf_flowring_delete_peer ::
    "(brcmf_msgbuf \<Rightarrow> brcmf_msgbuf) \<Rightarrow> nat \<Rightarrow> u8 list \<Rightarrow> brcmf_msgbuf \<Rightarrow> brcmf_msgbuf option" where
  "brcmf_flowring_delete_peer sleep ifx peer s =
     (if ifx \<ge> length (addr_mode (mb_flow s)) then None
      else
        let tdls = brcmf_flowring_is_tdls_mac (mb_flow s) peer;
            sta = (addr_mode (mb_flow s) ! ifx = ADDR_INDIRECT \<and> \<not> tdls)
        in do {
          s \<leftarrow> delete_matching sleep (\<lambda>h. (sta \<or> h_mac h = peer) \<and> unat (h_ifidx h) = ifx) [0..<BRCMF_FLOWRING_HASHSIZE] s;
          Some (if tdls then s\<lparr>mb_flow := remove_tdls_peer peer (mb_flow s)\<rparr> else s)
        })"

fun delete_all :: "(brcmf_msgbuf \<Rightarrow> brcmf_msgbuf) \<Rightarrow> nat list \<Rightarrow> brcmf_msgbuf \<Rightarrow> brcmf_msgbuf option" where
  "delete_all sleep [] s = Some s"
| "delete_all sleep (f # fs) s =
     (if rings (mb_flow s) ! f \<noteq> None
      then Option.bind (brcmf_msgbuf_delete_flowring sleep (of_nat f) s) (delete_all sleep fs)
      else delete_all sleep fs s)"

text \<open>Detaching ends with the memory of the flows given back; what is left in it is lost.\<close>

definition brcmf_flowring_detach :: "(brcmf_msgbuf \<Rightarrow> brcmf_msgbuf) \<Rightarrow> brcmf_msgbuf \<Rightarrow> brcmf_msgbuf option" where
  "brcmf_flowring_detach sleep s = delete_all sleep [0..<length (rings (mb_flow s))] s"

definition brcmf_msgbuf_configure_addr_mode ::
    "(brcmf_msgbuf \<Rightarrow> brcmf_msgbuf) \<Rightarrow> nat \<Rightarrow> proto_addr_mode \<Rightarrow> brcmf_msgbuf \<Rightarrow> brcmf_msgbuf option" where
  "brcmf_msgbuf_configure_addr_mode sleep ifx m s = brcmf_flowring_configure_addr_mode sleep ifx m s"

definition brcmf_msgbuf_delete_peer ::
    "(brcmf_msgbuf \<Rightarrow> brcmf_msgbuf) \<Rightarrow> nat \<Rightarrow> u8 list \<Rightarrow> brcmf_msgbuf \<Rightarrow> brcmf_msgbuf option" where
  "brcmf_msgbuf_delete_peer sleep ifx peer s = brcmf_flowring_delete_peer sleep ifx peer s"

definition brcmf_msgbuf_add_tdls_peer :: "msgbuf_env \<Rightarrow> u8 list \<Rightarrow> brcmf_msgbuf \<Rightarrow> brcmf_msgbuf" where
  "brcmf_msgbuf_add_tdls_peer env peer s =
     s\<lparr>mb_flow := brcmf_flowring_add_tdls_peer (alloc_ok env (nalloc s)) peer (mb_flow s), nalloc := nalloc s + 1\<rparr>"

subsection \<open>Reports of the device on transmission\<close>

text \<open>Reading a message from the device at an offset.\<close>

definition le16_at :: "nat \<Rightarrow> u8 list \<Rightarrow> u16 option" where
  "le16_at i b = (if i + 1 < length b then Some (le16_of (b ! i) (b ! (i + 1))) else None)"

definition le32_at :: "nat \<Rightarrow> u8 list \<Rightarrow> u32 option" where
  "le32_at i b = (if i + 3 < length b then Some (le32_of (b ! i) (b ! (i + 1)) (b ! (i + 2)) (b ! (i + 3))) else None)"

text \<open>
  The common header has the type, the interface and, at 4, the request id; the completion
  header has the status at 8 and the number of the ring at 10.
\<close>

definition brcmf_msgbuf_process_txstatus :: "u8 list \<Rightarrow> brcmf_msgbuf \<Rightarrow> brcmf_msgbuf option" where
  "brcmf_msgbuf_process_txstatus buf s = do {
     idx \<leftarrow> le32_at 4 buf;
     ring_id \<leftarrow> le16_at 10 buf;
     let flowid = unat (ring_id - BRCMF_H2D_MSGRING_FLOWRING_IDSTART);
     let (skb, ids) = brcmf_msgbuf_get_pktid (idx - 1) (tx_pktids s);
     let s = s\<lparr>tx_pktids := ids\<rparr>;
     case skb of
       None \<Rightarrow> Some s
     | Some p \<Rightarrow>
         if flowid \<ge> length (txstatus_done_map s) \<or> flowid \<ge> length (outstanding_tx s) then None
         else Some (add_outstanding flowid (- 1)
                (s\<lparr>txstatus_done_map := (txstatus_done_map s)[flowid := True],
                   mb_flow := (mb_flow s)\<lparr>finalized := finalized (mb_flow s) @ [p]\<rparr>\<rparr>))
   }"

subsection \<open>Steps of the rings\<close>

lemma ring_put_cases:
  obtains rg' where "ring_put x rg = (False, rg')" "ring_step rg rg'" "dev rg' = dev rg" "produced rg' = produced rg"
      "w_ptr (host rg') = w_ptr (host rg)" "was_full (host rg')"
  | rg' where "ring_put x rg = (True, rg')" "ring_step rg rg'" "dev rg' = dev rg" "produced rg' = produced rg @ [x]"
proof (cases "brcmf_commonring_reserve_for_write pcie_ops (dev rg, host rg)")
  case (fields res d cr)
  show ?thesis
  proof (cases res)
    case None
    with fields have r: "brcmf_commonring_reserve_for_write pcie_ops (dev rg, host rg) = (None, d, cr)" by simp
    then have "d = dev rg" "w_ptr cr = w_ptr (host rg)" "was_full cr" by (cases rule: reserve_cases, auto)+
    with r ring_step.host_full [OF r] show ?thesis
      by (intro that(1) [of "rg\<lparr>host := cr, dev := d\<rparr>"]) (auto simp: ring_put_def)
  next
    case (Some a)
    with fields have r: "brcmf_commonring_reserve_for_write pcie_ops (dev rg, host rg) = (Some a, d, cr)" by simp
    then have "d = dev rg" by (cases rule: reserve_cases) auto
    with r ring_step.host_write [OF r, of x] show ?thesis
      by (intro that(2) [of "rg\<lparr>host := cr, dev := d, ring_mem := (ring_mem rg)(a := x), produced := produced rg @ [x]\<rparr>"])
        (auto simp: ring_put_def)
  qed
qed

lemma ring_publish_cases:
  obtains rg' where "ring_publish rg = (if dev_up (dev rg) then Inr () else Inl EIO, rg')" "ring_step rg rg'"
    "produced rg' = produced rg" "dev_up (dev rg') = dev_up (dev rg)" "was_full (host rg') = was_full (host rg)"
    "dev_up (dev rg') \<longrightarrow> w_idx (dev rg') = w_ptr (host rg')"
proof -
  obtain res d cr where c: "brcmf_commonring_write_complete pcie_ops (dev rg, host rg) = (res, d, cr)"
    by (metis prod.collapse)
  then have "res = (if dev_up (dev rg) then Inr () else Inl EIO)" "dev_up d = dev_up (dev rg)"
    "dev_up d \<Longrightarrow> w_idx d = w_ptr cr" "was_full cr = was_full (host rg)"
    by (auto simp: write_complete_pcie split: if_splits)
  with c ring_step.host_commit [OF c] show ?thesis
    by (intro that [of "rg\<lparr>host := cr, dev := d\<rparr>"]) (simp_all add: ring_publish_def)
qed

lemma write_available_full:
  "brcmf_commonring_write_available pcie_ops (d, cr) = (False, d', cr') \<Longrightarrow> was_full cr'"
  by (auto simp: brcmf_commonring_write_available_def call_update_rptr Let_def split: if_splits)

lemma ring_room_cases:
  obtains b rg' where "ring_room rg = (b, rg')" "ring_step rg rg'" "dev rg' = dev rg" "produced rg' = produced rg"
    "w_ptr (host rg') = w_ptr (host rg)" "\<not> b \<longrightarrow> was_full (host rg')"
proof -
  obtain b d cr where a: "brcmf_commonring_write_available pcie_ops (dev rg, host rg) = (b, d, cr)"
    by (metis prod.collapse)
  then have "d = dev rg" "w_ptr cr = w_ptr (host rg)" by (cases rule: write_available_cases, auto)+
  moreover have "\<not> b \<Longrightarrow> was_full cr" using a write_available_full by metis
  ultimately show ?thesis using a ring_step.host_poll [OF a] 
    by (intro that [of b "rg\<lparr>host := cr, dev := d\<rparr>"]) (auto simp: ring_room_def)
qed

lemma ring_setup_reachable:
  assumes "dev_up (dev rg)" "dp > 1" "il > 0"
  shows "ring_reachable (ring_setup dp il buf rg)"
proof -
  obtain d cr where c: "brcmf_commonring_config pcie_ops dp il buf (dev rg, host rg) = (d, cr)" by fastforce
  have "ring_reachable \<lparr>host = cr, dev = d, ring_mem = ring_mem rg, produced = [], consumed = []\<rparr>"
    by (rule ring_reachable.start [OF assms(2,3,1) c])
  moreover have "ring_setup dp il buf rg = \<lparr>host = cr, dev = d, ring_mem = ring_mem rg, produced = [], consumed = []\<rparr>"
    by (simp add: ring_setup_def c)
  ultimately show ?thesis by simp
qed

lemma flowring_dequeue_full:
  assumes "ring_at f flow = Some r" "status r = RING_OPEN"
  obtains flow' b where "brcmf_flowring_dequeue f flow =
      Some (case skblist r of [] \<Rightarrow> None | p # _ \<Rightarrow> Some p, flow')"
    "rings flow' = (rings flow)[unat f := Some (r\<lparr>ring_blocked := b, skblist := tl (skblist r)\<rparr>)]"
    "hash flow' = hash flow" "finalized flow' = finalized flow"
proof -
  define fl where "fl = upd_ring f (\<lambda>r. r\<lparr>skblist := tl (skblist r)\<rparr>) flow"
  have at: "ring_at f fl = Some (r\<lparr>skblist := tl (skblist r)\<rparr>)"
    unfolding fl_def using assms by (simp add: ring_at_upd_ring)
  have rs: "rings fl = (rings flow)[unat f := Some (r\<lparr>skblist := tl (skblist r)\<rparr>)]"
    unfolding fl_def using assms by (simp add: rings_upd_ring)
  obtain fl' where fl': "brcmf_flowring_block f False fl = Some fl'"
    "rings fl' = (rings fl)[unat f := Some (r\<lparr>skblist := tl (skblist r), ring_blocked := False\<rparr>)]"
    "hash fl' = hash fl" "finalized fl' = finalized fl"
    using flowring_block_fields [OF at] by metis
  show ?thesis
  proof (cases "ring_blocked r \<and> length (tl (skblist r)) < BRCMF_FLOWRING_LOW")
    case True
    with assms fl' show ?thesis
      by (intro that [of fl' False]; cases r) (auto simp: brcmf_flowring_dequeue_def Let_def fl_def rings_upd_ring)
  next
    case False
    with assms at rs show ?thesis
      by (intro that [of fl "ring_blocked r"]) (auto simp: brcmf_flowring_dequeue_def Let_def fl_def)
  qed
qed


subsection \<open>What transmission does\<close>

text \<open>
  What a part of the transmission of flow \<open>f\<close> has done: \<open>posted\<close> are the packets taken from
  the front of the flow, parked under \<open>ids\<close>; the rest of the state is untouched.
\<close>

definition tx_msgs :: "msgbuf_env \<Rightarrow> brcmf_msgbuf \<Rightarrow> u16 \<Rightarrow> u32 list \<Rightarrow> pkt list \<Rightarrow> h2d_msg list" where
  "tx_msgs env s f ids posted = map2 (\<lambda>i p. tx_msg s i (the (brcmf_flowring_ifidx_get (mb_flow s) f)) p (the (dma_map env p))) ids posted"

definition tx_posted ::
    "msgbuf_env \<Rightarrow> u16 \<Rightarrow> brcmf_msgbuf \<Rightarrow> brcmf_msgbuf \<Rightarrow> u32 list \<Rightarrow> pkt list \<Rightarrow> bool" where
  "tx_posted env f s s' ids posted \<longleftrightarrow>
     waiting f (mb_flow s) = posted @ waiting f (mb_flow s')
   \<and> length ids = length posted \<and> distinct ids \<and> (\<forall>i\<in>set ids. pid_slot (tx_pktids s) i = None)
   \<and> pid_slot (tx_pktids s') = (pid_slot (tx_pktids s))(ids [\<mapsto>] posted)
   \<and> array_size (tx_pktids s') = array_size (tx_pktids s)
   \<and> (\<exists>rg'. flow_rings s' = (flow_rings s)[unat f := rg'] \<and> ring_step\<^sup>*\<^sup>* (flow_rings s ! unat f) rg'
        \<and> dev_up (dev rg') = dev_up (dev (flow_rings s ! unat f))
        \<and> produced rg' = produced (flow_rings s ! unat f) @ tx_msgs env s f ids posted)
   \<and> outstanding_tx s' = (outstanding_tx s)[unat f := outstanding_tx s ! unat f + int (length posted)]
   \<and> (\<forall>g. g \<noteq> f \<longrightarrow> ring_at g (mb_flow s') = ring_at g (mb_flow s))
   \<and> hash (mb_flow s') = hash (mb_flow s) \<and> finalized (mb_flow s') = finalized (mb_flow s)
   \<and> brcmf_flowring_ifidx_get (mb_flow s') f = brcmf_flowring_ifidx_get (mb_flow s) f
   \<and> skb_data s' = skb_data s \<and> skb_priority s' = skb_priority s
   \<and> flow_map s' = flow_map s \<and> txstatus_done_map s' = txstatus_done_map s \<and> txflow_work s' = txflow_work s"

text \<open>What transmission needs and keeps.\<close>

definition tx_ready :: "u16 \<Rightarrow> brcmf_msgbuf \<Rightarrow> bool" where
  "tx_ready f s \<longleftrightarrow> open_ring f (mb_flow s) \<and> pktids_wf (tx_pktids s)
     \<and> unat f < length (flow_rings s) \<and> unat f < length (outstanding_tx s)"

lemma tx_msgs_cong:
  assumes "skb_data s' = skb_data s" "skb_priority s' = skb_priority s"
    "brcmf_flowring_ifidx_get (mb_flow s') f = brcmf_flowring_ifidx_get (mb_flow s) f"
  shows "tx_msgs env s' f ids ps = tx_msgs env s f ids ps"
  using assms by (simp add: tx_msgs_def tx_msg_def)

lemma map_upds_app: "length xs = length ys \<Longrightarrow> m(xs @ as [\<mapsto>] ys @ bs) = m(xs [\<mapsto>] ys, as [\<mapsto>] bs)"
  by (simp add: map_upds_def)

lemma tx_posted_refl: "tx_posted env f s s [] []"
  by (auto simp: tx_posted_def tx_msgs_def intro!: exI [of _ "flow_rings s ! unat f"])

lemma tx_posted_trans:
  assumes "tx_posted env f s t is ps" "tx_posted env f t u js qs" "unat f < length (flow_rings s)"
    "unat f < length (outstanding_tx s)"
  shows "tx_posted env f s u (is @ js) (ps @ qs)"
proof -
  obtain rg1 where r1: "flow_rings t = (flow_rings s)[unat f := rg1]" "ring_step\<^sup>*\<^sup>* (flow_rings s ! unat f) rg1"
    "dev_up (dev rg1) = dev_up (dev (flow_rings s ! unat f))"
    "produced rg1 = produced (flow_rings s ! unat f) @ tx_msgs env s f is ps"
    using assms(1) by (auto simp: tx_posted_def)
  then have t: "flow_rings t ! unat f = rg1" using assms(3) by simp
  obtain rg2 where r2: "flow_rings u = (flow_rings t)[unat f := rg2]" "ring_step\<^sup>*\<^sup>* rg1 rg2"
    "dev_up (dev rg2) = dev_up (dev rg1)" "produced rg2 = produced rg1 @ tx_msgs env t f js qs"
    using assms(2) unfolding tx_posted_def t by blast
  have "tx_msgs env t f js qs = tx_msgs env s f js qs"
    using assms(1) by (intro tx_msgs_cong) (simp_all add: tx_posted_def)
  moreover have len: "length is = length ps" "length js = length qs" using assms(1,2) by (simp_all add: tx_posted_def)
  ultimately have "produced rg2 = produced (flow_rings s ! unat f) @ tx_msgs env s f (is @ js) (ps @ qs)"
    using r1 r2 by (simp add: tx_msgs_def)
  then have ring: "\<exists>rg'. flow_rings u = (flow_rings s)[unat f := rg'] \<and> ring_step\<^sup>*\<^sup>* (flow_rings s ! unat f) rg'
        \<and> dev_up (dev rg') = dev_up (dev (flow_rings s ! unat f))
        \<and> produced rg' = produced (flow_rings s ! unat f) @ tx_msgs env s f (is @ js) (ps @ qs)"
    using r1 r2 by (intro exI [of _ rg2]) auto
  have free: "pid_slot (tx_pktids t) i = None" if "i \<in> set js" for i using assms(2) that by (simp add: tx_posted_def)
  have slot: "pid_slot (tx_pktids t) = (pid_slot (tx_pktids s))(is [\<mapsto>] ps)" using assms(1) by (simp add: tx_posted_def)
  have "i \<notin> set is \<and> pid_slot (tx_pktids s) i = None" if "i \<in> set js" for i
    using free [OF that] len(1) unfolding slot
    by (metis domIff dom_map_upds length_take map_upds_apply_nontin min.idem take_all_iff order_refl UnCI)
  then have "distinct (is @ js)" "\<forall>i\<in>set (is @ js). pid_slot (tx_pktids s) i = None"
    using assms(1,2) by (auto simp: tx_posted_def)
  moreover have "pid_slot (tx_pktids u) = (pid_slot (tx_pktids s))(is @ js [\<mapsto>] ps @ qs)"
    using assms(2) slot len by (simp add: tx_posted_def map_upds_app)
  ultimately show ?thesis
    using ring assms unfolding tx_posted_def by (simp add: add.assoc)
qed


text \<open>Why transmission may stop with packets left: a mapping failed, no id is free, or the ring is full.\<close>

definition tx_stuck :: "msgbuf_env \<Rightarrow> u16 \<Rightarrow> brcmf_msgbuf \<Rightarrow> bool" where
  "tx_stuck env f s \<longleftrightarrow> waiting f (mb_flow s) \<noteq> [] \<and> dma_map env (hd (waiting f (mb_flow s))) = None
   \<or> (\<forall>idx<array_size (tx_pktids s). pid_slot (tx_pktids s) idx \<noteq> None)
   \<or> was_full (host (flow_rings s ! unat f))"

lemma alloc_pktid_Inl:
  assumes "pktids_wf p" "brcmf_msgbuf_alloc_pktid mapped skb offset p = (Inl e, p')"
  shows "p' = p" "mapped = None \<or> (\<forall>idx<array_size p. pid_slot p idx \<noteq> None)"
proof -
  show "p' = p" using assms(2) alloc_pktid_fail by blast
  show "mapped = None \<or> (\<forall>idx<array_size p. pid_slot p idx \<noteq> None)"
  proof (cases mapped)
    case (Some a)
    with assms(2) have "pktid_search (unat (array_size p)) (last_allocated_idx p) p = None"
      by (auto simp: brcmf_msgbuf_alloc_pktid_def split: option.splits)
    with pktid_search_result [OF assms(1)] show ?thesis
      by (auto simp: pid_slot_def pid_free_def word_less_nat_alt)
  qed simp
qed

lemma alloc_pktid_size: "array_size (snd (brcmf_msgbuf_alloc_pktid mapped skb offset p)) = array_size p"
  by (simp add: brcmf_msgbuf_alloc_pktid_def split: option.split)

lemma get_pktid_size: "array_size (snd (brcmf_msgbuf_get_pktid i p)) = array_size p"
  by (simp add: brcmf_msgbuf_get_pktid_def)

text \<open>A packet parked and taken back at once leaves every place as it was.\<close>

lemma alloc_get_pktid:
  assumes "pktids_wf p" "brcmf_msgbuf_alloc_pktid mapped skb offset p = (Inr (addr, idx), p')"
  shows "fst (brcmf_msgbuf_get_pktid idx p') = Some skb" "pid_slot (snd (brcmf_msgbuf_get_pktid idx p')) = pid_slot p"
    "pktids_wf (snd (brcmf_msgbuf_get_pktid idx p'))" "array_size (snd (brcmf_msgbuf_get_pktid idx p')) = array_size p"
proof -
  note a = alloc_pktid_ok [OF assms]
  obtain q p'' where g: "brcmf_msgbuf_get_pktid idx p' = (q, p'')" by fastforce
  with a(2) have q: "q = Some skb" using get_pktid_ok(1) [OF a(5), of idx] get_pktid_fail(2) [of idx p']
    by (cases q) fastforce+
  then show "fst (brcmf_msgbuf_get_pktid idx p') = Some skb" by (simp add: g)
  show "pid_slot (snd (brcmf_msgbuf_get_pktid idx p')) = pid_slot p"
    using get_pktid_ok(2) [OF a(5), of idx skb p''] g q a(1,2) by (auto simp: fun_eq_iff)
  show "pktids_wf (snd (brcmf_msgbuf_get_pktid idx p'))" using a(5) by (rule get_pktid_wf)
  show "array_size (snd (brcmf_msgbuf_get_pktid idx p')) = array_size p"
    using get_pktid_size [of idx p'] alloc_pktid_size [of mapped skb offset p] assms(2) by simp
qed

text \<open>The head of an open ring taken off, and put back.\<close>

lemma dequeue_waiting:
  assumes "open_ring f flow" "waiting f flow = p # ps"
  obtains flow' where "brcmf_flowring_dequeue f flow = Some (Some p, flow')" "open_ring f flow'" "waiting f flow' = ps"
    "hash flow' = hash flow" "finalized flow' = finalized flow"
    "\<And>g. g \<noteq> f \<Longrightarrow> ring_at g flow' = ring_at g flow"
    "brcmf_flowring_ifidx_get flow' f = brcmf_flowring_ifidx_get flow f" "brcmf_flowring_ifidx_get flow f \<noteq> None"
proof -
  obtain r where r: "flow_inv flow" "ring_at f flow = Some r" "status r = RING_OPEN" "skblist r = p # ps"
    using open_ringD [OF assms(1)] assms(2) by metis
  obtain flow' b where d: "brcmf_flowring_dequeue f flow = Some (Some p, flow')"
    "rings flow' = (rings flow)[unat f := Some (r\<lparr>ring_blocked := b, skblist := ps\<rparr>)]"
    "hash flow' = hash flow" "finalized flow' = finalized flow"
    using flowring_dequeue_full [OF r(2,3)] r(4) by (metis list.sel(3) list.simps(5))
  have at: "ring_at f flow' = Some (r\<lparr>ring_blocked := b, skblist := ps\<rparr>)"
    using d(2) ring_atD [OF r(2)] by (simp add: ring_at_def)
  have "ring_at g flow' = ring_at g flow" if "g \<noteq> f" for g
    using that d(2) by (simp add: ring_at_def word_unat_eq_iff)
  moreover have "open_ring f flow'" using flow_inv_dequeue [OF r(1) d(1)] at r(3) by (simp add: open_ring_def)
  ultimately show ?thesis using d at r(2)
    by (intro that [of flow']) (auto simp: waiting_def brcmf_flowring_ifidx_get_def)
qed

lemma reinsert_waiting:
  assumes "open_ring f flow"
  obtains flow' where "brcmf_flowring_reinsert f p flow = Some flow'" "open_ring f flow'" "waiting f flow' = p # waiting f flow"
    "hash flow' = hash flow" "finalized flow' = finalized flow"
    "\<And>g. g \<noteq> f \<Longrightarrow> ring_at g flow' = ring_at g flow"
    "brcmf_flowring_ifidx_get flow' f = brcmf_flowring_ifidx_get flow f"
proof -
  obtain r where r: "flow_inv flow" "ring_at f flow = Some r" "status r = RING_OPEN" "waiting f flow = skblist r"
    using open_ringD [OF assms] by metis
  define fl where "fl = upd_ring f (\<lambda>r. r\<lparr>skblist := p # skblist r\<rparr>) flow"
  have ri: "brcmf_flowring_reinsert f p flow = Some fl" using r(2) by (simp add: brcmf_flowring_reinsert_def fl_def)
  have at: "ring_at f fl = Some (r\<lparr>skblist := p # skblist r\<rparr>)" using r(2) by (simp add: fl_def ring_at_upd_ring)
  moreover have "ring_at g fl = ring_at g flow" if "g \<noteq> f" for g
    using that by (simp add: fl_def ring_at_def upd_ring_def word_unat_eq_iff)
  moreover have "open_ring f fl" using flow_inv_reinsert [OF r(1) ri] at r(3) by (simp add: open_ring_def)
  ultimately show ?thesis using ri at r
    by (intro that [of fl]) (auto simp: waiting_def brcmf_flowring_ifidx_get_def fl_def)
qed


lemma txflow_one_spec:
  assumes ready: "tx_ready f s" and wait: "waiting f (mb_flow s) = p # ps"
  obtains s' i where "txflow_one env f s = Some (True, s')" "tx_posted env f s s' [i] [p]" "tx_ready f s'"
  | s' where "txflow_one env f s = Some (False, s')" "tx_posted env f s s' [] []" "tx_ready f s'" "tx_stuck env f s'"
      "w_ptr (host (flow_rings s' ! unat f)) = w_ptr (host (flow_rings s ! unat f))"
      "dev (flow_rings s' ! unat f) = dev (flow_rings s ! unat f)"
proof -
  have R: "open_ring f (mb_flow s)" "pktids_wf (tx_pktids s)" "unat f < length (flow_rings s)"
    "unat f < length (outstanding_tx s)" using ready by (simp_all add: tx_ready_def)
  obtain fl where d: "brcmf_flowring_dequeue f (mb_flow s) = Some (Some p, fl)" "open_ring f fl" "waiting f fl = ps"
    "hash fl = hash (mb_flow s)" "finalized fl = finalized (mb_flow s)"
    "\<And>g. g \<noteq> f \<Longrightarrow> ring_at g fl = ring_at g (mb_flow s)"
    "brcmf_flowring_ifidx_get fl f = brcmf_flowring_ifidx_get (mb_flow s) f" "brcmf_flowring_ifidx_get (mb_flow s) f \<noteq> None"
    using dequeue_waiting [OF R(1) wait] by metis
  obtain ifx where ifx: "brcmf_flowring_ifidx_get (mb_flow s) f = Some ifx" using d(8) by blast
  obtain fl' where ri: "brcmf_flowring_reinsert f p fl = Some fl'" "open_ring f fl'" "waiting f fl' = p # ps"
    "hash fl' = hash (mb_flow s)" "finalized fl' = finalized (mb_flow s)"
    "\<And>g. g \<noteq> f \<Longrightarrow> ring_at g fl' = ring_at g (mb_flow s)"
    "brcmf_flowring_ifidx_get fl' f = brcmf_flowring_ifidx_get (mb_flow s) f"
    using reinsert_waiting [OF d(2), of p] d by metis
  obtain res ids where al: "brcmf_msgbuf_alloc_pktid (dma_map env p) p ETH_HLEN (tx_pktids s) = (res, ids)" by fastforce
  show ?thesis
  proof (cases res)
    case (Inl e)
    note f = alloc_pktid_Inl [OF R(2) al [unfolded Inl]]
    let ?s' = "s\<lparr>mb_flow := fl', tx_pktids := ids\<rparr>"
    show ?thesis
    proof (rule that(2))
      show "txflow_one env f s = Some (False, ?s')" using d ri al Inl by (simp add: txflow_one_def)
      show "tx_posted env f s ?s' [] []" using ri f wait
        by (auto simp: tx_posted_def tx_msgs_def intro!: exI [of _ "flow_rings s ! unat f"])
      show "tx_ready f ?s'" using R ri f by (simp add: tx_ready_def)
      show "tx_stuck env f ?s'" using f ri by (auto simp: tx_stuck_def)
    qed simp_all
  next
    case (Inr r)
    obtain addr i where "r = (addr, i)" by fastforce
    with Inr al have al: "brcmf_msgbuf_alloc_pktid (dma_map env p) p ETH_HLEN (tx_pktids s) = (Inr (addr, i), ids)" by simp
    note a = alloc_pktid_ok [OF R(2) al] and g = alloc_get_pktid [OF R(2) al]
    define x where "x = tx_msg (s\<lparr>mb_flow := fl\<rparr>) i ifx p addr"
    have x: "x = tx_msg s i ifx p (the (dma_map env p))" using a(4) by (simp add: x_def tx_msg_def)
    have size: "array_size ids = array_size (tx_pktids s)"
      using alloc_pktid_size [of "dma_map env p" p ETH_HLEN "tx_pktids s"] al by simp
    show ?thesis
    proof (cases rule: ring_put_cases [of x "flow_rings s ! unat f"])
      case (1 rg')
      let ?s' = "set_mb_ring (unat f) rg' (s\<lparr>mb_flow := fl', tx_pktids := snd (brcmf_msgbuf_get_pktid i ids)\<rparr>)"
      show ?thesis
      proof (rule that(2))
        show "txflow_one env f s = Some (False, ?s')"
          using d ri al ifx 1 R(3) unfolding txflow_one_def
          by (simp add: x_def mb_ring_def set_mb_ring_def case_prod_beta Let_def)
        show "tx_posted env f s ?s' [] []" using ri g wait 1
          by (auto simp: tx_posted_def tx_msgs_def set_mb_ring_def intro!: exI [of _ rg'])
        show "tx_ready f ?s'" using R ri g by (simp add: tx_ready_def set_mb_ring_def)
        show "tx_stuck env f ?s'" using 1 R by (simp add: tx_stuck_def set_mb_ring_def)
      qed (use 1 R in \<open>simp_all add: set_mb_ring_def\<close>)
    next
      case (2 rg')
      let ?s' = "add_outstanding (unat f) 1 (set_mb_ring (unat f) rg' (s\<lparr>mb_flow := fl, tx_pktids := ids\<rparr>))"
      show ?thesis
      proof (rule that(1))
        show "txflow_one env f s = Some (True, ?s')"
          using d al ifx 2 R(3) unfolding txflow_one_def
          by (simp add: x_def mb_ring_def set_mb_ring_def Let_def)
        show "tx_posted env f s ?s' [i] [p]" using d a wait 2 x ifx size
          by (auto simp: tx_posted_def tx_msgs_def set_mb_ring_def add_outstanding_def intro!: exI [of _ rg'])
        show "tx_ready f ?s'" using R d a by (simp add: tx_ready_def set_mb_ring_def add_outstanding_def)
      qed
    qed
  qed
qed

definition flow_published :: "u16 \<Rightarrow> brcmf_msgbuf \<Rightarrow> bool" where
  "flow_published f s \<longleftrightarrow> (dev_up (dev (flow_rings s ! unat f)) \<longrightarrow>
     w_idx (dev (flow_rings s ! unat f)) = w_ptr (host (flow_rings s ! unat f)))"

lemma publish_flow_spec:
  assumes "tx_ready f s"
  obtains s' where "publish_flow f s = Some s'" "tx_posted env f s s' [] []" "tx_ready f s'" "flow_published f s'"
    "mb_flow s' = mb_flow s" "tx_stuck env f s' = tx_stuck env f s"
proof -
  have R: "unat f < length (flow_rings s)" using assms by (simp add: tx_ready_def)
  obtain rg' where p: "ring_publish (flow_rings s ! unat f) =
      (if dev_up (dev (flow_rings s ! unat f)) then Inr () else Inl EIO, rg')" "ring_step (flow_rings s ! unat f) rg'"
    "produced rg' = produced (flow_rings s ! unat f)" "dev_up (dev rg') = dev_up (dev (flow_rings s ! unat f))"
    "was_full (host rg') = was_full (host (flow_rings s ! unat f))"
    "dev_up (dev rg') \<longrightarrow> w_idx (dev rg') = w_ptr (host rg')"
    by (rule ring_publish_cases [of "flow_rings s ! unat f"])
  let ?s' = "set_mb_ring (unat f) rg' s"
  show ?thesis
  proof (rule that)
    show "publish_flow f s = Some ?s'" using R p by (simp add: publish_flow_def mb_ring_def)
    show "tx_posted env f s ?s' [] []" using p
      by (auto simp: tx_posted_def tx_msgs_def set_mb_ring_def intro!: exI [of _ rg'])
    show "tx_ready f ?s'" using assms by (simp add: tx_ready_def set_mb_ring_def)
    show "flow_published f ?s'" using R p by (simp add: flow_published_def set_mb_ring_def)
    show "tx_stuck env f ?s' = tx_stuck env f s" using R p by (simp add: tx_stuck_def set_mb_ring_def)
  qed (simp add: set_mb_ring_def)
qed

lemma qlen_waiting:
  assumes "open_ring f flow" "length (waiting f flow) < 2 ^ 32"
  shows "\<exists>n. brcmf_flowring_qlen f flow = Some n \<and> (n = 0 \<longleftrightarrow> waiting f flow = [])"
proof -
  obtain r where r: "ring_at f flow = Some r" "status r = RING_OPEN" "waiting f flow = skblist r"
    using open_ringD [OF assms(1)] by metis
  have "(of_nat (length (skblist r)) :: u32) = 0 \<longleftrightarrow> length (skblist r) = 0"
    using assms(2) r(3) by (auto simp: word_of_nat_eq_0_iff dest: dvd_imp_le)
  then show ?thesis using r ring_atD [OF r(1)] by (simp add: brcmf_flowring_qlen_def)
qed


lemma txflow_loop_spec:
  assumes "tx_ready f s" "length (waiting f (mb_flow s)) < 2 ^ 32" "count < 96" "count = 0 \<Longrightarrow> flow_published f s"
  shows "\<exists>count' s' ids posted. txflow_loop env f count s = Some (count', s') \<and> tx_posted env f s s' ids posted
    \<and> tx_ready f s' \<and> (waiting f (mb_flow s') = [] \<or> tx_stuck env f s') \<and> (count' = 0 \<longrightarrow> flow_published f s')"
  using assms
proof (induction "length (waiting f (mb_flow s))" arbitrary: s count)
  case 0
  then have w: "waiting f (mb_flow s) = []" by simp
  obtain n where "brcmf_flowring_qlen f (mb_flow s) = Some n" "n = 0"
    using qlen_waiting [of f "mb_flow s"] 0 by (auto simp: tx_ready_def)
  then have "txflow_loop env f count s = Some (count, s)" by (simp add: txflow_loop.simps [of env f count s])
  with w 0 tx_posted_refl [of env f s] show ?case by blast
next
  case (Suc k)
  obtain p ps where w: "waiting f (mb_flow s) = p # ps" using Suc.hyps(2) by (cases "waiting f (mb_flow s)") auto
  have R: "unat f < length (flow_rings s)" "unat f < length (outstanding_tx s)"
    using Suc.prems(1) by (simp_all add: tx_ready_def)
  obtain n where n: "brcmf_flowring_qlen f (mb_flow s) = Some n" "n \<noteq> 0"
    using qlen_waiting [of f "mb_flow s"] Suc.prems w by (auto simp: tx_ready_def)
  show ?case
  proof (cases rule: txflow_one_spec [OF Suc.prems(1) w, of env])
    case (1 t i)
    have wt: "waiting f (mb_flow t) = ps" using 1(2) w by (simp add: tx_posted_def)
    obtain c u where u: "txflow_loop env f count s = txflow_loop env f c u" "tx_posted env f s u [i] [p]" "tx_ready f u"
      "waiting f (mb_flow u) = ps" "c < 96" "c = 0 \<Longrightarrow> flow_published f u"
    proof (cases "count + 1 \<ge> BRCMF_MSGBUF_TX_FLUSH_CNT2")
      case True
      obtain u where p: "publish_flow f t = Some u" "tx_posted env f t u [] []" "tx_ready f u" "flow_published f u"
        "mb_flow u = mb_flow t"
        using publish_flow_spec [OF 1(3), of env] by metis
      with True n 1 tx_posted_trans [OF 1(2) p(2) R] wt show ?thesis
        by (intro that [of 0 u]) (simp_all add: txflow_loop.simps [of env f count s])
    next
      case False
      moreover have "count + 1 \<noteq> 0" using Suc.prems(3) by (auto simp: word_less_nat_alt unat_word_ariths word_unat_eq_iff)
      ultimately show ?thesis using n 1 wt
        by (intro that [of "count + 1" t]) (simp_all add: txflow_loop.simps [of env f count s])
    qed
    have "k = length (waiting f (mb_flow u))" "length (waiting f (mb_flow u)) < 2 ^ 32"
      using Suc.hyps(2) Suc.prems(2) w u(4) by simp_all
    from Suc.hyps(1) [OF this(1) u(3) this(2) u(5,6)] obtain c' s' ids posted where
      s': "txflow_loop env f c u = Some (c', s')" "tx_posted env f u s' ids posted" "tx_ready f s'"
        "waiting f (mb_flow s') = [] \<or> tx_stuck env f s'" "c' = 0 \<longrightarrow> flow_published f s'" by blast
    with u(1) tx_posted_trans [OF u(2) s'(2) R] show ?thesis by fastforce
  next
    case (2 t)
    then have "txflow_loop env f count s = Some (count, t)" using n by (simp add: txflow_loop.simps [of env f count s])
    moreover have "count = 0 \<longrightarrow> flow_published f t" using Suc.prems(4) 2(5,6) by (simp add: flow_published_def)
    ultimately show ?thesis using 2 by blast
  qed
qed

lemma txflow_spec:
  assumes "tx_ready f s" "length (waiting f (mb_flow s)) < 2 ^ 32"
  shows "\<exists>s' ids posted. brcmf_msgbuf_txflow env f s = Some s' \<and> tx_posted env f s s' ids posted \<and> tx_ready f s'
    \<and> (waiting f (mb_flow s') = [] \<or> tx_stuck env f s') \<and> (posted \<noteq> [] \<longrightarrow> flow_published f s')"
proof -
  have R: "unat f < length (flow_rings s)" "unat f < length (outstanding_tx s)"
    using assms(1) by (simp_all add: tx_ready_def)
  obtain b rg where r: "ring_room (flow_rings s ! unat f) = (b, rg)" "ring_step (flow_rings s ! unat f) rg"
    "dev rg = dev (flow_rings s ! unat f)" "produced rg = produced (flow_rings s ! unat f)"
    "w_ptr (host rg) = w_ptr (host (flow_rings s ! unat f))" "\<not> b \<longrightarrow> was_full (host rg)"
    by (rule ring_room_cases [of "flow_rings s ! unat f"])
  define t where "t = set_mb_ring (unat f) rg s"
  have t: "tx_posted env f s t [] []" "tx_ready f t" "mb_flow t = mb_flow s" "flow_rings t ! unat f = rg"
    using r R assms(1)
    by (auto simp: t_def tx_posted_def tx_msgs_def tx_ready_def set_mb_ring_def intro!: exI [of _ rg])
  show ?thesis
  proof (cases b)
    case False
    then have "brcmf_msgbuf_txflow env f s = Some t" using r R by (simp add: brcmf_msgbuf_txflow_def mb_ring_def t_def)
    moreover have "tx_stuck env f t" using False r t by (simp add: tx_stuck_def)
    ultimately show ?thesis using t by blast
  next
    case True
    obtain c u ids posted where u: "txflow_loop env f 64 t = Some (c, u)" "tx_posted env f t u ids posted" "tx_ready f u"
      "waiting f (mb_flow u) = [] \<or> tx_stuck env f u" "c = 0 \<longrightarrow> flow_published f u"
      using txflow_loop_spec [OF t(2), of 64 env] assms(2) t(3) by auto
    obtain v where v: "publish_flow f u = Some v" "tx_posted env f u v [] []" "tx_ready f v" "flow_published f v"
      "mb_flow v = mb_flow u" "tx_stuck env f v = tx_stuck env f u"
      using publish_flow_spec [OF u(3), of env] by metis
    define w where "w = (if c \<noteq> 0 then v else u)"
    have "brcmf_msgbuf_txflow env f s = Some w" using True r R u v
      by (simp add: brcmf_msgbuf_txflow_def mb_ring_def t_def w_def)
    moreover have "tx_posted env f s u ids posted" using tx_posted_trans [OF t(1) u(2) R] by simp
    then have "tx_posted env f s w ids posted" using tx_posted_trans [OF _ v(2) R] by (auto simp: w_def)
    moreover have "tx_ready f w" "waiting f (mb_flow w) = [] \<or> tx_stuck env f w" "flow_published f w"
      using u v by (auto simp: w_def)
    ultimately show ?thesis by blast
  qed
qed

text \<open>
  C3: Transmission of an open flow returns. It takes packets from the front of the flow and
  no others, parks each under an id of its own that was free, and writes for each, in order,
  its message with that id, the interface of the flow and the address of the packet to the
  ring of the flow; the count of packets with the device grows by as many. What was written is
  published. Packets are left only when the ring is full, no id is free or the mapping of the
  next packet fails.
\<close>

theorem txflow_posts_in_order:
  assumes "tx_ready f s" "length (waiting f (mb_flow s)) < 2 ^ 32"
  shows "\<exists>s' ids posted. brcmf_msgbuf_txflow env f s = Some s' \<and> tx_posted env f s s' ids posted \<and> tx_ready f s'
    \<and> (waiting f (mb_flow s') = [] \<or> tx_stuck env f s') \<and> (posted \<noteq> [] \<longrightarrow> flow_published f s')"
  using assms by (rule txflow_spec)

text \<open>A small state: one open flow with two packets, rings of a few slots, three ids.\<close>

definition sample_h2d :: "h2d_msg ring_sys" where
  "sample_h2d = ring_setup 4 48 16 \<lparr>host = \<lparr>r_ptr = 0, w_ptr = 0, f_ptr = 0, depth = 0, item_len = 0, buf_addr = 0,
         inited = False, was_full = False\<rparr>, dev = \<lparr>dev_up = True, r_idx = 0, w_idx = 0, doorbells = 0\<rparr>,
     ring_mem = (\<lambda>_. H2d_mbdata 0), produced = [], consumed = []\<rparr>"

definition sample_d2h :: "u8 list ring_sys" where
  "sample_d2h = ring_setup 4 24 16 \<lparr>host = \<lparr>r_ptr = 0, w_ptr = 0, f_ptr = 0, depth = 0, item_len = 0, buf_addr = 0,
         inited = False, was_full = False\<rparr>, dev = \<lparr>dev_up = True, r_idx = 0, w_idx = 0, doorbells = 0\<rparr>,
     ring_mem = (\<lambda>_. []), produced = [], consumed = []\<rparr>"

definition sample_flow2 :: brcmf_flowring where
  "sample_flow2 = sample_flowring\<lparr>rings := [Some \<lparr>hash_id = 2, ring_blocked = False, status = RING_OPEN,
     skblist = [7, 8]\<rparr>, None, None, None]\<rparr>"

definition sample_msgbuf :: brcmf_msgbuf where
  "sample_msgbuf = \<lparr>ctl_submit = sample_h2d, rxpost_submit = sample_h2d, rx_complete = sample_d2h,
     tx_complete = sample_d2h, ctl_complete = sample_d2h, flow_rings = replicate 4 sample_h2d,
     outstanding_tx = replicate 4 0, flowring_dma_handle = replicate 4 0, rx_dataoffset = 0, max_rxbufpost = 2,
     rx_metadata_offset = 0, rxbufpost = 0, max_ioctlrespbuf = 2, cur_ioctlrespbuf = 0, max_eventbuf = 1,
     cur_eventbuf = 0, ioctbuf = replicate 16 0, ioctbuf_handle = 64, ioctl_resp_status = 0,
     ioctl_resp_ret_len = 0, ioctl_resp_pktid = 0, reqid = 0, ctl_completed = False,
     tx_pktids = brcmf_msgbuf_init_pktids 3, rx_pktids = brcmf_msgbuf_init_pktids 8, mb_flow = sample_flow2,
     flow_map = replicate 4 False, txstatus_done_map = replicate 4 False, work_queue = [], rx_data_q = [],
     flowring_work = False, txflow_work = False, rx_work = False, bus_up = True,
     ap_ifs = (\<lambda>_. \<lparr>isap = False, fmac_pkt_fwd_en = False, sta_list = []\<rparr>), mon_if = None,
     feat_fmt_radiotap = False, feat_fmt_hw_rx_hdr = False, skb_data = (\<lambda>_. replicate 60 0),
     skb_priority = (\<lambda>_. 5), nalloc = 0, dma_freed = [], freed_skbs = [], fw_events = [], rx_frames = [], mb_data = []\<rparr>"

definition sample_env :: msgbuf_env where
  "sample_env = \<lparr>dma_map = (\<lambda>p. Some (p + 64)), skb_alloc = (\<lambda>n. Some (100 + n)),
     dma_alloc = (\<lambda>n. Some (1048576 * (n + 1), 1048576 * (n + 1))), alloc_ok = (\<lambda>_. True), classify8021d = (\<lambda>_. 0)\<rparr>"

lemma sample_h2d_reachable: "ring_reachable sample_h2d"
  unfolding sample_h2d_def by (rule ring_setup_reachable) simp_all

lemma sample_flow2_inv: "flow_inv sample_flow2"
proof -
  obtain flow1 where e1: "brcmf_flowring_enqueue 0 7 sample_flowring = Some (1, flow1)"
    "rings flow1 = [Some \<lparr>hash_id = 2, ring_blocked = False, status = RING_CLOSED, skblist = [7]\<rparr>, None, None, None]"
    "flow1 = sample_flowring\<lparr>rings := rings flow1\<rparr>"
    by (simp add: brcmf_flowring_enqueue_def ring_at_def sample_rings upd_ring_def)
  have "flow_inv sample_flowring" using flow_reach_inv [OF sample_flowring_reach _ sample_ifs_running] by simp
  then have "flow_inv flow1" using flow_inv_enqueue e1(1) by blast
  moreover have "brcmf_flowring_enqueue 0 8 flow1 = Some (2, flow1\<lparr>rings :=
      [Some \<lparr>hash_id = 2, ring_blocked = False, status = RING_CLOSED, skblist = [7, 8]\<rparr>, None, None, None]\<rparr>)"
    by (simp add: brcmf_flowring_enqueue_def ring_at_def e1(2) upd_ring_def)
  ultimately have "flow_inv (flow1\<lparr>rings :=
      [Some \<lparr>hash_id = 2, ring_blocked = False, status = RING_CLOSED, skblist = [7, 8]\<rparr>, None, None, None]\<rparr>)"
    using flow_inv_enqueue by blast
  from flow_inv_status [OF this, of 0 RING_OPEN] show ?thesis
    by (subst (asm) e1(3)) (simp add: upd_ring_def sample_flow2_def)
qed

lemma sample_tx_ready: "tx_ready 0 sample_msgbuf" "waiting 0 (mb_flow sample_msgbuf) = [7, 8]"
  using sample_flow2_inv init_pktids_wf [of 3]
  by (simp_all add: tx_ready_def open_ring_def sample_msgbuf_def ring_at_def sample_flow2_def waiting_def)

theorem txflow_posts_in_order_witness:
  "\<exists>s' ids posted. brcmf_msgbuf_txflow sample_env 0 sample_msgbuf = Some s' \<and>
     tx_posted sample_env 0 sample_msgbuf s' ids posted \<and> [7, 8] = posted @ waiting 0 (mb_flow s')"
  using txflow_posts_in_order [OF sample_tx_ready(1), of sample_env] sample_tx_ready(2)
  by (fastforce simp: tx_posted_def)

end
