(* ===== verification/Msgbuf_Rx.thy ===== *)
theory Msgbuf_Rx
  imports Msgbuf_Tx
begin

section \<open>Message buffers: reception (brcmfmac/msgbuf.c)\<close>

text \<open>
  What comes from the device. The driver posts buffers for received packets, for responses to
  commands and for events, each under an id; the device fills them and reports the id on one
  of three completion rings. A message from the device is a list of bytes, read at the offsets
  of the source's structures.

  A buffer that was allocated has the length asked for; its contents are not defined by the
  source and are zeros here. The slot of a reservation that is cancelled has been cleared,
  which nothing observes. The frames given to \<open>brcmf_netif_rx\<close>, the events given to
  \<open>brcmf_fweh_process_skb\<close> and the words given to \<open>brcmf_pcie_handle_mb_data\<close> are recorded.

  Shown: posting buffers ends and accounts for each of them; the batched and wrapping reading
  of a completion ring is one pass over its messages in order; a command returns the bytes of
  its response.
\<close>

subsection \<open>Posting buffers\<close>

abbreviation (input) BRCMF_MSGBUF_MAX_PKT_SIZE :: nat where "BRCMF_MSGBUF_MAX_PKT_SIZE \<equiv> 2048"
abbreviation (input) BRCMF_MSGBUF_MAX_CTL_PKT_SIZE :: nat where "BRCMF_MSGBUF_MAX_CTL_PKT_SIZE \<equiv> 8192"
abbreviation (input) BRCMF_MSGBUF_RXBUFPOST_THRESHOLD :: u32 where "BRCMF_MSGBUF_RXBUFPOST_THRESHOLD \<equiv> 32"
abbreviation (input) BRCMF_MSGBUF_UPDATE_RX_PTR_THRS :: u16 where "BRCMF_MSGBUF_UPDATE_RX_PTR_THRS \<equiv> 48"

definition skb_pull :: "nat \<Rightarrow> u8 list \<Rightarrow> u8 list" where
  "skb_pull n d = (if n \<le> length d then drop n d else d)"

definition skb_trim :: "nat \<Rightarrow> u8 list \<Rightarrow> u8 list" where
  "skb_trim n d = take n d"

definition set_skb_data :: "pkt \<Rightarrow> u8 list \<Rightarrow> brcmf_msgbuf \<Rightarrow> brcmf_msgbuf" where
  "set_skb_data p d s = s\<lparr>skb_data := (skb_data s)(p := d)\<rparr>"

definition get_new_skb :: "msgbuf_env \<Rightarrow> nat \<Rightarrow> brcmf_msgbuf \<Rightarrow> pkt option \<times> brcmf_msgbuf" where
  "get_new_skb env len s =
     (case skb_alloc env (nalloc s) of
        None \<Rightarrow> (None, s\<lparr>nalloc := nalloc s + 1\<rparr>)
      | Some p \<Rightarrow> (Some p, set_skb_data p (replicate len 0)
          (s\<lparr>nalloc := nalloc s + 1, skb_priority := (skb_priority s)(p := 0)\<rparr>)))"

text \<open>
  The loop both kinds of posting share: up to \<open>n\<close> buffers of the given length, the message of
  each by \<open>mk\<close>, until an allocation or an id is wanting.
\<close>

fun fill_bufs ::
    "msgbuf_env \<Rightarrow> nat \<Rightarrow> (u32 \<Rightarrow> pkt \<Rightarrow> nat \<Rightarrow> brcmf_msgbuf \<Rightarrow> h2d_msg \<times> brcmf_msgbuf) \<Rightarrow> nat \<Rightarrow> brcmf_msgbuf
      \<Rightarrow> h2d_msg list \<times> brcmf_msgbuf" where
  "fill_bufs env len mk 0 s = ([], s)"
| "fill_bufs env len mk (Suc n) s =
     (case get_new_skb env len s of
        (None, s) \<Rightarrow> ([], s)
      | (Some skb, s) \<Rightarrow>
          (case brcmf_msgbuf_alloc_pktid (dma_map env skb) skb 0 (rx_pktids s) of
             (Inl _, ids) \<Rightarrow> ([], mb_free_skb (Some skb) (s\<lparr>rx_pktids := ids\<rparr>))
           | (Inr (addr, pktid), ids) \<Rightarrow>
               (let (msg, s) = mk pktid skb addr (s\<lparr>rx_pktids := ids\<rparr>);
                    (msgs, s) = fill_bufs env len mk n s
                in (msg # msgs, s))))"

text \<open>
  Reserving, filling, cancelling the rest and publishing what was filled, if anything; the
  number of buffers posted.
\<close>

definition post_bufs ::
    "u32 \<Rightarrow> (nat \<Rightarrow> brcmf_msgbuf \<Rightarrow> h2d_msg list \<times> brcmf_msgbuf) \<Rightarrow> h2d_msg ring_sys \<Rightarrow> brcmf_msgbuf
      \<Rightarrow> u32 \<times> h2d_msg ring_sys \<times> brcmf_msgbuf" where
  "post_bufs count fill rg s =
     (case brcmf_commonring_reserve_for_write_multiple pcie_ops (ucast count) (dev rg, host rg) of
        (None, d, cr) \<Rightarrow> (0, rg\<lparr>host := cr, dev := d\<rparr>, s)
      | (Some (a, alloced), d, cr) \<Rightarrow>
          (let (msgs, s) = fill (unat alloced) s;
               rg = rg\<lparr>host := cancel_rest alloced (length msgs) cr, dev := d,
                       ring_mem := write_items (ring_mem rg) a (unat (item_len cr)) msgs,
                       produced := produced rg @ msgs\<rparr>;
               rg = (if msgs \<noteq> [] then snd (ring_publish rg) else rg)
           in (of_nat (length msgs), rg, s)))"

definition rx_bufpost_msg :: "u32 \<Rightarrow> pkt \<Rightarrow> nat \<Rightarrow> brcmf_msgbuf \<Rightarrow> h2d_msg \<times> brcmf_msgbuf" where
  "rx_bufpost_msg pktid skb addr s =
     (let off = unat (rx_metadata_offset s)
      in if off \<noteq> 0
         then let d = skb_pull off (skb_data s skb)
              in (Rxbuf_post pktid (of_nat (length d)) (bus_addr (addr + off)) (Some (rx_metadata_offset s, bus_addr addr)),
                  set_skb_data skb d s)
         else (Rxbuf_post pktid (of_nat (length (skb_data s skb))) (bus_addr addr) None, s))"

definition brcmf_msgbuf_rxbuf_data_post :: "msgbuf_env \<Rightarrow> u32 \<Rightarrow> brcmf_msgbuf \<Rightarrow> u32 \<times> brcmf_msgbuf" where
  "brcmf_msgbuf_rxbuf_data_post env count s =
     (let (i, rg, s) = post_bufs count (fill_bufs env BRCMF_MSGBUF_MAX_PKT_SIZE rx_bufpost_msg) (rxpost_submit s) s
      in (i, s\<lparr>rxpost_submit := rg\<rparr>))"

partial_function (option) rxbuf_fill_loop :: "msgbuf_env \<Rightarrow> u32 \<Rightarrow> brcmf_msgbuf \<Rightarrow> brcmf_msgbuf option" where
  "rxbuf_fill_loop env fillbufs s =
     (if fillbufs = 0 then Some s
      else case brcmf_msgbuf_rxbuf_data_post env fillbufs s of
        (retcount, s) \<Rightarrow>
          if retcount = 0 then Some s
          else rxbuf_fill_loop env (fillbufs - retcount) (s\<lparr>rxbufpost := rxbufpost s + retcount\<rparr>))"

definition brcmf_msgbuf_rxbuf_data_fill :: "msgbuf_env \<Rightarrow> brcmf_msgbuf \<Rightarrow> brcmf_msgbuf option" where
  "brcmf_msgbuf_rxbuf_data_fill env s = rxbuf_fill_loop env (max_rxbufpost s - rxbufpost s) s"

definition brcmf_msgbuf_update_rxbufpost_count :: "msgbuf_env \<Rightarrow> u16 \<Rightarrow> brcmf_msgbuf \<Rightarrow> brcmf_msgbuf option" where
  "brcmf_msgbuf_update_rxbufpost_count env rxcnt s =
     (let s = s\<lparr>rxbufpost := rxbufpost s - ucast rxcnt\<rparr>
      in if rxbufpost s \<le> max_rxbufpost s - BRCMF_MSGBUF_RXBUFPOST_THRESHOLD
         then brcmf_msgbuf_rxbuf_data_fill env s else Some s)"

definition ctrl_bufpost_msg :: "bool \<Rightarrow> u32 \<Rightarrow> pkt \<Rightarrow> nat \<Rightarrow> brcmf_msgbuf \<Rightarrow> h2d_msg \<times> brcmf_msgbuf" where
  "ctrl_bufpost_msg event_buf pktid skb addr s =
     (Ctrlbuf_post event_buf pktid (of_nat (length (skb_data s skb))) (bus_addr addr), s)"

definition brcmf_msgbuf_rxbuf_ctrl_post :: "msgbuf_env \<Rightarrow> bool \<Rightarrow> u32 \<Rightarrow> brcmf_msgbuf \<Rightarrow> u32 \<times> brcmf_msgbuf" where
  "brcmf_msgbuf_rxbuf_ctrl_post env event_buf count s =
     (let (i, rg, s) = post_bufs count
            (fill_bufs env BRCMF_MSGBUF_MAX_CTL_PKT_SIZE (ctrl_bufpost_msg event_buf)) (ctl_submit s) s
      in (i, s\<lparr>ctl_submit := rg\<rparr>))"

definition brcmf_msgbuf_rxbuf_ioctlresp_post :: "msgbuf_env \<Rightarrow> brcmf_msgbuf \<Rightarrow> brcmf_msgbuf" where
  "brcmf_msgbuf_rxbuf_ioctlresp_post env s =
     (let (count, s) = brcmf_msgbuf_rxbuf_ctrl_post env False (max_ioctlrespbuf s - cur_ioctlrespbuf s) s
      in s\<lparr>cur_ioctlrespbuf := cur_ioctlrespbuf s + count\<rparr>)"

definition brcmf_msgbuf_rxbuf_event_post :: "msgbuf_env \<Rightarrow> brcmf_msgbuf \<Rightarrow> brcmf_msgbuf" where
  "brcmf_msgbuf_rxbuf_event_post env s =
     (let (count, s) = brcmf_msgbuf_rxbuf_ctrl_post env True (max_eventbuf s - cur_eventbuf s) s
      in s\<lparr>cur_eventbuf := cur_eventbuf s + count\<rparr>)"

subsection \<open>Handling one message\<close>

definition brcmf_msgbuf_process_ioctl_complete :: "msgbuf_env \<Rightarrow> u8 list \<Rightarrow> brcmf_msgbuf \<Rightarrow> brcmf_msgbuf option" where
  "brcmf_msgbuf_process_ioctl_complete env buf s = do {
     st \<leftarrow> le16_at 8 buf;
     resp_len \<leftarrow> le16_at 12 buf;
     request_id \<leftarrow> le32_at 4 buf;
     let s = s\<lparr>ioctl_resp_status := sint st, ioctl_resp_ret_len := ucast resp_len, ioctl_resp_pktid := request_id\<rparr>;
     let s = brcmf_msgbuf_ioctl_resp_wake s;
     let s = (if cur_ioctlrespbuf s \<noteq> 0 then s\<lparr>cur_ioctlrespbuf := cur_ioctlrespbuf s - 1\<rparr> else s);
     Some (brcmf_msgbuf_rxbuf_ioctlresp_post env s)
   }"

text \<open>An interface with a network device.\<close>

definition mb_ifp :: "brcmf_msgbuf \<Rightarrow> u8 \<Rightarrow> brcmf_if option" where
  "mb_ifp s ifx = (case flow_get_ifp (mb_flow s) (unat ifx) of
       Some ifp \<Rightarrow> if has_ndev ifp then Some ifp else None | None \<Rightarrow> None)"

definition brcmf_msgbuf_process_event :: "msgbuf_env \<Rightarrow> u8 list \<Rightarrow> brcmf_msgbuf \<Rightarrow> brcmf_msgbuf option" where
  "brcmf_msgbuf_process_event env buf s = do {
     idx \<leftarrow> le32_at 4 buf;
     buflen \<leftarrow> le16_at 12 buf;
     let s = (if cur_eventbuf s \<noteq> 0 then s\<lparr>cur_eventbuf := cur_eventbuf s - 1\<rparr> else s);
     let s = brcmf_msgbuf_rxbuf_event_post env s;
     let (skb, ids) = brcmf_msgbuf_get_pktid idx (rx_pktids s);
     let s = s\<lparr>rx_pktids := ids\<rparr>;
     case skb of
       None \<Rightarrow> Some s
     | Some p \<Rightarrow>
         let d = skb_data s p;
             d = (if rx_dataoffset s \<noteq> 0 then skb_pull (unat (rx_dataoffset s)) d else d);
             s = set_skb_data p (skb_trim (unat buflen) d) s;
             s = (case mb_ifp s (buf ! 1) of
                    None \<Rightarrow> s
                  | Some ifp \<Rightarrow> s\<lparr>fw_events := fw_events s @ [(ifidx ifp, p)]\<rparr>)
         in Some (mb_free_skb (Some p) s)
   }"

text \<open>
  A frame for a monitor interface: the header of the hardware, where the firmware leaves it,
  is replaced by an empty radiotap header, and the frame check sequence is cut off.
\<close>

definition radiotap_hdr :: "u8 list" where
  "radiotap_hdr = [0, 0, 8, 0, 0, 0, 0, 0]"

definition brcmf_netif_mon_rx :: "bool \<Rightarrow> bool \<Rightarrow> u8 list \<Rightarrow> u8 list option" where
  "brcmf_netif_mon_rx fmt_radiotap fmt_hw_rx_hdr d =
     (if fmt_radiotap then Some d
      else if fmt_hw_rx_hdr then do {
        RxStatus1 \<leftarrow> le16_at 16 d;
        let offset = 48 + (if RxStatus1 AND 4 \<noteq> 0 then 2 else 0) + 6;
        let d = radiotap_hdr @ skb_pull offset d;
        Some (take (length d - 4) d)
      }
      else let d = radiotap_hdr @ d in Some (take (length d - 4) d))"

definition brcmf_find_sta :: "brcmf_if_ap \<Rightarrow> u8 list \<Rightarrow> bool" where
  "brcmf_find_sta ifp mac = list_ex (\<lambda>sta. sta = mac) (sta_list ifp)"

text \<open>
  Forwarding between the stations of an access point: whether the packet itself was queued for
  transmission, or a copy, or nothing.
\<close>

definition ap_forward ::
    "msgbuf_env \<Rightarrow> brcmf_if \<Rightarrow> pkt \<Rightarrow> brcmf_msgbuf \<Rightarrow> (bool \<times> brcmf_msgbuf) option" where
  "ap_forward env ifp skb s =
     (let ap = ap_ifs s (ifidx ifp); data = skb_data s skb; eh = h_dest data
      in if \<not> (isap ap \<and> fmac_pkt_fwd_en ap) then Some (False, s)
         else if data = [] then None
         else
           let s = s\<lparr>skb_priority := (skb_priority s)(skb := classify8021d env data)\<rparr>
           in if data ! 0 AND 1 = 0
              then (if brcmf_find_sta ap eh
                    then do {
                      (_, s) \<leftarrow> brcmf_msgbuf_tx_queue_data env (int (ifidx ifp)) skb s;
                      Some (True, s)
                    }
                    else Some (False, s))
              else (case skb_alloc env (nalloc s) of
                      None \<Rightarrow> Some (False, s\<lparr>nalloc := nalloc s + 1\<rparr>)
                    | Some cp \<Rightarrow> do {
                        (_, s) \<leftarrow> brcmf_msgbuf_tx_queue_data env (int (ifidx ifp)) cp
                           (set_skb_data cp data (s\<lparr>nalloc := nalloc s + 1,
                             skb_priority := (skb_priority s)(cp := classify8021d env data)\<rparr>));
                        Some (False, s)
                      }))"

definition rx_enqueue :: "pkt \<Rightarrow> brcmf_msgbuf \<Rightarrow> brcmf_msgbuf" where
  "rx_enqueue p s = s\<lparr>rx_data_q := rx_data_q s @ [p]\<rparr>"

definition brcmf_msgbuf_process_rx_complete :: "msgbuf_env \<Rightarrow> u8 list \<Rightarrow> brcmf_msgbuf \<Rightarrow> brcmf_msgbuf option" where
  "brcmf_msgbuf_process_rx_complete env buf s = do {
     s \<leftarrow> brcmf_msgbuf_update_rxbufpost_count env 1 s;
     data_offset \<leftarrow> le16_at 16 buf;
     buflen \<leftarrow> le16_at 14 buf;
     idx \<leftarrow> le32_at 4 buf;
     flags \<leftarrow> le16_at 18 buf;
     let (skb, ids) = brcmf_msgbuf_get_pktid idx (rx_pktids s);
     let s = s\<lparr>rx_pktids := ids\<rparr>;
     case skb of
       None \<Rightarrow> Some s
     | Some p \<Rightarrow>
         let d = skb_data s p;
             d = (if data_offset \<noteq> 0 then skb_pull (unat data_offset) d
                  else if rx_dataoffset s \<noteq> 0 then skb_pull (unat (rx_dataoffset s)) d else d);
             s = set_skb_data p (skb_trim (unat buflen) d) s
         in if flags AND 7 = 2
            then (case mon_if s of
                    None \<Rightarrow> Some (mb_free_skb (Some p) s)
                  | Some _ \<Rightarrow> do {
                      d \<leftarrow> brcmf_netif_mon_rx (feat_fmt_radiotap s) (feat_fmt_hw_rx_hdr s) (skb_data s p);
                      Some (rx_enqueue p (set_skb_data p d s))
                    })
            else (case mb_ifp s (buf ! 1) of
                    None \<Rightarrow> Some (mb_free_skb (Some p) s)
                  | Some ifp \<Rightarrow> do {
                      (forwarded, s) \<leftarrow> ap_forward env ifp p s;
                      Some (if forwarded then s
                            else rx_enqueue p (set_skb_data p (skb_pull 14 (skb_data s p)) s))
                    })
   }"

definition brcmf_msgbuf_process_flow_ring_create_response :: "u8 list \<Rightarrow> brcmf_msgbuf \<Rightarrow> brcmf_msgbuf option" where
  "brcmf_msgbuf_process_flow_ring_create_response buf s = do {
     ring_id \<leftarrow> le16_at 10 buf;
     let flowid = ring_id - BRCMF_H2D_MSGRING_FLOWRING_IDSTART;
     st \<leftarrow> le16_at 8 buf;
     if st \<noteq> 0 then brcmf_msgbuf_remove_flowring flowid s
     else do {
       flow \<leftarrow> brcmf_flowring_open flowid (mb_flow s);
       brcmf_msgbuf_schedule_txdata (ucast flowid) True (s\<lparr>mb_flow := flow\<rparr>)
     }
   }"

definition brcmf_msgbuf_process_flow_ring_delete_response :: "u8 list \<Rightarrow> brcmf_msgbuf \<Rightarrow> brcmf_msgbuf option" where
  "brcmf_msgbuf_process_flow_ring_delete_response buf s = do {
     ring_id \<leftarrow> le16_at 10 buf;
     let flowid = ring_id - BRCMF_H2D_MSGRING_FLOWRING_IDSTART;
     st \<leftarrow> le16_at 8 buf;
     if st \<noteq> 0 then do {
       flow \<leftarrow> brcmf_flowring_delete flowid (mb_flow s);
       Some (s\<lparr>mb_flow := flow\<rparr>)
     }
     else brcmf_msgbuf_remove_flowring flowid s
   }"

definition brcmf_msgbuf_process_d2h_mbdata :: "u8 list \<Rightarrow> brcmf_msgbuf \<Rightarrow> brcmf_msgbuf option" where
  "brcmf_msgbuf_process_d2h_mbdata buf s = do {
     mbdata \<leftarrow> le32_at 12 buf;
     Some (s\<lparr>mb_data := mb_data s @ [mbdata]\<rparr>)
   }"

text \<open>
  The dispatch by the type of the message. General and ring status, acknowledgements of
  commands and unknown types only log.
\<close>

definition brcmf_msgbuf_process_msgtype :: "msgbuf_env \<Rightarrow> u8 list \<Rightarrow> brcmf_msgbuf \<Rightarrow> brcmf_msgbuf option" where
  "brcmf_msgbuf_process_msgtype env buf s =
     (if buf = [] then None
      else if buf ! 0 = 0x4 then brcmf_msgbuf_process_flow_ring_create_response buf s
      else if buf ! 0 = 0x6 then brcmf_msgbuf_process_flow_ring_delete_response buf s
      else if buf ! 0 = 0xC then brcmf_msgbuf_process_ioctl_complete env buf s
      else if buf ! 0 = 0xE then brcmf_msgbuf_process_event env buf s
      else if buf ! 0 = 0x10 then brcmf_msgbuf_process_txstatus buf s
      else if buf ! 0 = 0x12 then brcmf_msgbuf_process_rx_complete env buf s
      else if buf ! 0 = 0x24 then brcmf_msgbuf_process_d2h_mbdata buf s
      else Some s)"

subsection \<open>Reading a completion ring\<close>

definition ring_consume :: "u16 \<Rightarrow> 'm ring_sys \<Rightarrow> 'm ring_sys" where
  "ring_consume n rg =
     (case brcmf_commonring_read_complete pcie_ops n (dev rg, host rg) of
        (_, d, cr) \<Rightarrow> rg\<lparr>host := cr, dev := d\<rparr>)"

text \<open>
  The messages of one block, from the address \<open>buf\<close> on; after each 48 the read index is given
  back to the device.
\<close>

fun process_items ::
    "msgbuf_env \<Rightarrow> nat \<Rightarrow> nat \<Rightarrow> u16 \<Rightarrow> u8 list ring_sys \<Rightarrow> brcmf_msgbuf \<Rightarrow> (u8 list ring_sys \<times> brcmf_msgbuf) option" where
  "process_items env 0 buf processed rg s = Some (if processed \<noteq> 0 then ring_consume processed rg else rg, s)"
| "process_items env (Suc count) buf processed rg s =
     Option.bind (brcmf_msgbuf_process_msgtype env (drop (unat (rx_dataoffset s)) (ring_mem rg buf)) s) (\<lambda>s.
       let processed = processed + 1;
           buf = buf + unat (item_len (host rg))
       in if processed = BRCMF_MSGBUF_UPDATE_RX_PTR_THRS
          then process_items env count buf 0 (ring_consume processed rg) s
          else process_items env count buf processed rg s)"

partial_function (option) brcmf_msgbuf_process_rx ::
    "msgbuf_env \<Rightarrow> u8 list ring_sys \<Rightarrow> brcmf_msgbuf \<Rightarrow> (u8 list ring_sys \<times> brcmf_msgbuf) option" where
  "brcmf_msgbuf_process_rx env rg s =
     (case brcmf_commonring_get_read_ptr pcie_ops (dev rg, host rg) of
        ((buf, count), d, cr) \<Rightarrow>
          (case buf of
             None \<Rightarrow> Some (rg\<lparr>host := cr, dev := d\<rparr>, s)
           | Some a \<Rightarrow>
               Option.bind (process_items env (unat count) a 0 (rg\<lparr>host := cr, dev := d\<rparr>) s) (\<lambda>(rg, s).
                 if r_ptr (host rg) = 0 then brcmf_msgbuf_process_rx env rg s else Some (rg, s))))"

definition brcmf_msgbuf_schedule_rxdata :: "bool \<Rightarrow> brcmf_msgbuf \<Rightarrow> brcmf_msgbuf" where
  "brcmf_msgbuf_schedule_rxdata force s = (if force then s\<lparr>rx_work := True\<rparr> else s)"

text \<open>The received frames, handed on in order by the worker.\<close>

definition brcmf_msgbuf_rx :: "brcmf_msgbuf \<Rightarrow> brcmf_msgbuf" where
  "brcmf_msgbuf_rx s = s\<lparr>rx_data_q := [], rx_frames := rx_frames s @ rx_data_q s\<rparr>"

definition brcmf_msgbuf_rx_worker :: "brcmf_msgbuf \<Rightarrow> brcmf_msgbuf" where
  "brcmf_msgbuf_rx_worker s = brcmf_msgbuf_rx (s\<lparr>rx_work := False\<rparr>)"

fun txstatus_bits :: "nat list \<Rightarrow> brcmf_msgbuf \<Rightarrow> brcmf_msgbuf option" where
  "txstatus_bits [] s = Some s"
| "txstatus_bits (f # fs) s =
     (if txstatus_done_map s ! f
      then do {
        let s = s\<lparr>txstatus_done_map := (txstatus_done_map s)[f := False]\<rparr>;
        qlen \<leftarrow> brcmf_flowring_qlen (of_nat f) (mb_flow s);
        s \<leftarrow> (if sint qlen > 32 \<or> (qlen \<noteq> 0 \<and> outstanding_tx s ! f < 32)
              then brcmf_msgbuf_schedule_txdata (of_nat f) True s else Some s);
        txstatus_bits fs s
      }
      else txstatus_bits fs s)"

definition brcmf_proto_msgbuf_rx_trigger :: "msgbuf_env \<Rightarrow> brcmf_msgbuf \<Rightarrow> brcmf_msgbuf option" where
  "brcmf_proto_msgbuf_rx_trigger env s = do {
     (rg, s) \<leftarrow> brcmf_msgbuf_process_rx env (rx_complete s) s;
     let s = brcmf_msgbuf_schedule_rxdata True (s\<lparr>rx_complete := rg\<rparr>);
     (rg, s) \<leftarrow> brcmf_msgbuf_process_rx env (tx_complete s) s;
     let s = s\<lparr>tx_complete := rg\<rparr>;
     (rg, s) \<leftarrow> brcmf_msgbuf_process_rx env (ctl_complete s) s;
     let s = s\<lparr>ctl_complete := rg\<rparr>;
     txstatus_bits [0..<length (txstatus_done_map s)] s
   }"

subsection \<open>What posting does\<close>

fun msg_id :: "h2d_msg \<Rightarrow> u32" where
  "msg_id (Rxbuf_post i _ _ _) = i"
| "msg_id (Ctrlbuf_post _ i _ _) = i"
| "msg_id (Tx_post i _ _ _ _ _) = i"
| "msg_id _ = 0"

text \<open>The state without what filling buffers may change.\<close>

definition rx_core :: "brcmf_msgbuf \<Rightarrow> brcmf_msgbuf" where
  "rx_core s = s\<lparr>nalloc := 0, skb_data := (\<lambda>_. []), skb_priority := (\<lambda>_. 0),
     rx_pktids := brcmf_msgbuf_init_pktids 0, freed_skbs := []\<rparr>"

lemma rx_core_fields:
  assumes "rx_core s = rx_core s'"
  shows "ctl_submit s = ctl_submit s'" "rxpost_submit s = rxpost_submit s'" "rxbufpost s = rxbufpost s'"
    "max_rxbufpost s = max_rxbufpost s'" "cur_ioctlrespbuf s = cur_ioctlrespbuf s'" "cur_eventbuf s = cur_eventbuf s'"
    "tx_pktids s = tx_pktids s'" "mb_flow s = mb_flow s'"
  using arg_cong [OF assms, of ctl_submit] arg_cong [OF assms, of rxpost_submit] arg_cong [OF assms, of rxbufpost]
    arg_cong [OF assms, of max_rxbufpost] arg_cong [OF assms, of cur_ioctlrespbuf] arg_cong [OF assms, of cur_eventbuf]
    arg_cong [OF assms, of tx_pktids] arg_cong [OF assms, of mb_flow]
  by (simp_all add: rx_core_def)

text \<open>The buffers parked by a run of posting: their ids, the buffers, and the messages.\<close>

definition rx_parked :: "brcmf_msgbuf_pktids \<Rightarrow> brcmf_msgbuf_pktids \<Rightarrow> u32 list \<Rightarrow> pkt list \<Rightarrow> bool" where
  "rx_parked p p' ids bufs \<longleftrightarrow> length ids = length bufs \<and> distinct ids \<and> (\<forall>i\<in>set ids. pid_slot p i = None)
     \<and> pid_slot p' = (pid_slot p)(ids [\<mapsto>] bufs)"

lemma rx_parked_append:
  assumes "rx_parked p q is ps" "rx_parked q r js qs"
  shows "rx_parked p r (is @ js) (ps @ qs)"
proof -
  have len: "length is = length ps" using assms(1) by (simp add: rx_parked_def)
  have slot: "pid_slot q = (pid_slot p)(is [\<mapsto>] ps)" using assms(1) by (simp add: rx_parked_def)
  have "i \<notin> set is \<and> pid_slot p i = None" if "i \<in> set js" for i
  proof -
    have "pid_slot q i = None" using assms(2) that by (simp add: rx_parked_def)
    then show ?thesis using len unfolding slot
      by (metis domIff dom_map_upds length_take map_upds_apply_nontin min.idem take_all_iff order_refl UnCI)
  qed
  then show ?thesis using assms len by (auto simp: rx_parked_def map_upds_app)
qed

definition good_mk :: "(u32 \<Rightarrow> pkt \<Rightarrow> nat \<Rightarrow> brcmf_msgbuf \<Rightarrow> h2d_msg \<times> brcmf_msgbuf) \<Rightarrow> bool" where
  "good_mk mk \<longleftrightarrow> (\<forall>i p a s. msg_id (fst (mk i p a s)) = i \<and> rx_core (snd (mk i p a s)) = rx_core s \<and>
     rx_pktids (snd (mk i p a s)) = rx_pktids s)"

lemma good_mk_rx: "good_mk rx_bufpost_msg" "good_mk (ctrl_bufpost_msg b)"
  by (simp_all add: good_mk_def rx_bufpost_msg_def ctrl_bufpost_msg_def rx_core_def set_skb_data_def Let_def)

lemma fill_bufs_spec:
  assumes "pktids_wf (rx_pktids s)" "good_mk mk" "fill_bufs env len mk n s = (msgs, s')"
  shows "length msgs \<le> n \<and> pktids_wf (rx_pktids s') \<and> rx_core s' = rx_core s \<and>
    (\<exists>bufs. rx_parked (rx_pktids s) (rx_pktids s') (map msg_id msgs) bufs)"
  using assms
proof (induction n arbitrary: s msgs)
  case 0
  then show ?case by (auto simp: rx_parked_def)
next
  case (Suc n)
  obtain q t where g: "get_new_skb env len s = (q, t)" by fastforce
  have t: "rx_pktids t = rx_pktids s" "rx_core t = rx_core s"
    using g by (auto simp: get_new_skb_def rx_core_def set_skb_data_def split: option.splits)
  show ?case
  proof (cases q)
    case None
    with g Suc.prems t show ?thesis by (auto simp: rx_parked_def)
  next
    case (Some skb)
    obtain res ids where al: "brcmf_msgbuf_alloc_pktid (dma_map env skb) skb 0 (rx_pktids s) = (res, ids)" by fastforce
    show ?thesis
    proof (cases res)
      case (Inl e)
      with al have "ids = rx_pktids s" using alloc_pktid_fail by blast
      moreover have "msgs = []" "s' = mb_free_skb (Some skb) (t\<lparr>rx_pktids := ids\<rparr>)"
        using g Some al Inl Suc.prems(3) t(1) by auto
      moreover have "rx_core (mb_free_skb (Some skb) (t\<lparr>rx_pktids := ids\<rparr>)) = rx_core t"
        by (simp add: mb_free_skb_def rx_core_def)
      ultimately show ?thesis using Suc.prems(1) t by (auto simp: rx_parked_def mb_free_skb_def)
    next
      case (Inr r)
      obtain addr i where r: "r = (addr, i)" by fastforce
      note a = alloc_pktid_ok [OF Suc.prems(1) al [unfolded Inr r]]
      obtain msg u where mk: "mk i skb addr (t\<lparr>rx_pktids := ids\<rparr>) = (msg, u)" by fastforce
      then have u: "msg_id msg = i" "rx_core u = rx_core (t\<lparr>rx_pktids := ids\<rparr>)" "rx_pktids u = ids"
        using spec [OF Suc.prems(2) [unfolded good_mk_def], of i, THEN spec, THEN spec, THEN spec, of skb addr "t\<lparr>rx_pktids := ids\<rparr>"]
        by simp_all
      obtain ms where ms: "fill_bufs env len mk n u = (ms, s')" "msgs = msg # ms"
        using g Some al Inr r mk Suc.prems(3) t(1) by (auto split: prod.splits)
      from Suc.IH [OF _ Suc.prems(2) ms(1)] a(5) u(3) obtain bufs where
        IH: "length ms \<le> n" "pktids_wf (rx_pktids s')" "rx_core s' = rx_core u" "rx_parked ids (rx_pktids s') (map msg_id ms) bufs"
        by auto
      have "rx_parked (rx_pktids s) ids [i] [skb]" using a by (simp add: rx_parked_def)
      from rx_parked_append [OF this IH(4)] have "rx_parked (rx_pktids s) (rx_pktids s') (map msg_id msgs) (skb # bufs)"
        using ms(2) u(1) by simp
      moreover have "rx_core (t\<lparr>rx_pktids := ids\<rparr>) = rx_core t" by (simp add: rx_core_def)
      then have "rx_core s' = rx_core s" using t(2) u(2) IH(3) by simp
      ultimately show ?thesis using IH ms(2) by auto
    qed
  qed
qed


definition ring_published :: "'m ring_sys \<Rightarrow> bool" where
  "ring_published rg \<longleftrightarrow> (dev_up (dev rg) \<longrightarrow> w_idx (dev rg) = w_ptr (host rg))"

lemma post_bufs_spec:
  assumes "ring_reachable rg" "post_bufs count fill rg s = (i, rg', s')" "\<And>n. length (fst (fill n s)) \<le> n"
  obtains "i = 0" "s' = s" "ring_reachable rg'" "produced rg' = produced rg" "ring_published rg' = ring_published rg"
  | msgs n where "fill n s = (msgs, s')" "i = of_nat (length msgs)" "length msgs \<le> unat count"
      "ring_reachable rg'" "produced rg' = produced rg @ msgs" "msgs \<noteq> [] \<Longrightarrow> ring_published rg'"
      "msgs = [] \<Longrightarrow> ring_published rg' = ring_published rg"
proof (cases "brcmf_commonring_reserve_for_write_multiple pcie_ops (ucast count) (dev rg, host rg)")
  case (fields res d cr)
  have inv: "ring_inv rg" using assms(1) by (rule ring_reachable_inv)
  then have wf: "ring_wf (host rg)" "r_idx (dev rg) < depth (host rg)" by (simp_all add: ring_inv_def Let_def)
  show ?thesis
  proof (cases res)
    case None
    with fields have c: "brcmf_commonring_reserve_for_write_multiple pcie_ops (ucast count) (dev rg, host rg) = (None, d, cr)"
      by simp
    then have "d = dev rg" "w_ptr cr = w_ptr (host rg)" by (cases rule: reserve_multiple_cases, auto)+
    with c assms(2) ring_reachable.step [OF assms(1) ring_step.host_post_full [OF c]] show ?thesis
      by (intro that(1)) (auto simp: post_bufs_def ring_published_def)
  next
    case (Some r)
    obtain a al where "r = (a, al)" by fastforce
    with Some fields have c: "brcmf_commonring_reserve_for_write_multiple pcie_ops (ucast count) (dev rg, host rg) =
        (Some (a, al), d, cr)" by simp
    obtain msgs t where f: "fill (unat al) s = (msgs, t)" by fastforce
    have len: "length msgs \<le> unat al" using assms(3) [of "unat al"] f by simp
    have al: "unat al \<le> unat count \<and> d = dev rg \<and> depth cr = depth (host rg) \<and>
        cancel_rest al (length msgs) cr = advance_w (of_nat (length msgs)) (cr\<lparr>w_ptr := w_ptr (host rg)\<rparr>)"
      using c
    proof (cases rule: reserve_multiple_cases)
      case (2 q)
      let ?cr = "(host rg)\<lparr>r_ptr := q\<rparr>"
      have "ring_wf ?cr" using wf 2(1) by (auto simp: ring_wf_def)
      note b = granted_bounds [OF this 2(4), of "ucast count"]
      have "unat (ucast count :: u16) \<le> unat count" by (simp add: unsigned_ucast_eq unsigned_take_bit_eq)
      moreover have "cancel_rest al (length msgs) (advance_w al ?cr) = advance_w (of_nat (length msgs)) ?cr"
        using b(3) 2(3) len by (intro cancel_rest_advance) auto
      ultimately show ?thesis using b(1) 2 by (auto simp: advance_w_def Let_def split: if_splits)
    qed simp
    define rg1 where "rg1 = rg\<lparr>host := cancel_rest al (length msgs) cr, dev := d,
        ring_mem := write_items (ring_mem rg) a (unat (item_len cr)) msgs, produced := produced rg @ msgs\<rparr>"
    have reach: "ring_reachable rg1"
      unfolding rg1_def by (rule ring_reachable.step [OF assms(1) ring_step.host_post [OF c len]])
    obtain rg2 where p: "ring_publish rg1 = (if dev_up (dev rg1) then Inr () else Inl EIO, rg2)" "ring_step rg1 rg2"
      "produced rg2 = produced rg1" "dev_up (dev rg2) = dev_up (dev rg1)" "was_full (host rg2) = was_full (host rg1)"
      "dev_up (dev rg2) \<longrightarrow> w_idx (dev rg2) = w_ptr (host rg2)" by (rule ring_publish_cases [of rg1])
    have r: "i = of_nat (length msgs)" "s' = t" "rg' = (if msgs \<noteq> [] then rg2 else rg1)"
      using assms(2) c f p(1) by (auto simp: post_bufs_def rg1_def Let_def split: if_splits)
    show ?thesis
    proof (rule that(2))
      show "fill (unat al) s = (msgs, s')" "i = of_nat (length msgs)" using f r by simp_all
      show "length msgs \<le> unat count" using len al by simp
      show "ring_reachable rg'" using r(3) reach ring_reachable.step [OF reach p(2)] by simp
      show "produced rg' = produced rg @ msgs" using r(3) p(3) by (simp add: rg1_def)
      show "msgs \<noteq> [] \<Longrightarrow> ring_published rg'" using r(3) p by (simp add: ring_published_def)
      assume "msgs = []"
      then have "w_ptr (host rg1) = w_ptr (host rg)" "dev rg1 = dev rg"
        using al wf by (auto simp: rg1_def advance_w_def Let_def ring_wf_def)
      then show "ring_published rg' = ring_published rg" using r(3) \<open>msgs = []\<close> by (simp add: ring_published_def)
    qed
  qed
qed


text \<open>
  What a run of posting receive buffers has done: each new message names an id that was free,
  and a buffer is parked there.
\<close>

definition rx_ready :: "brcmf_msgbuf \<Rightarrow> bool" where
  "rx_ready s \<longleftrightarrow> pktids_wf (rx_pktids s) \<and> ring_reachable (rxpost_submit s) \<and> ring_published (rxpost_submit s)
     \<and> rxbufpost s \<le> max_rxbufpost s"

definition rx_posted :: "brcmf_msgbuf \<Rightarrow> brcmf_msgbuf \<Rightarrow> h2d_msg list \<Rightarrow> pkt list \<Rightarrow> bool" where
  "rx_posted s s' msgs bufs \<longleftrightarrow> rx_parked (rx_pktids s) (rx_pktids s') (map msg_id msgs) bufs
     \<and> produced (rxpost_submit s') = produced (rxpost_submit s) @ msgs
     \<and> unat (rxbufpost s') = unat (rxbufpost s) + length msgs
     \<and> max_rxbufpost s' = max_rxbufpost s \<and> ctl_submit s' = ctl_submit s \<and> tx_pktids s' = tx_pktids s
     \<and> mb_flow s' = mb_flow s"

lemma rx_posted_refl: "rx_posted s s [] []"
  by (simp add: rx_posted_def rx_parked_def)

lemma rx_posted_trans:
  "rx_posted s t ms ps \<Longrightarrow> rx_posted t u ns qs \<Longrightarrow> rx_posted s u (ms @ ns) (ps @ qs)"
  using rx_parked_append [of "rx_pktids s" "rx_pktids t" "map msg_id ms" ps "rx_pktids u" "map msg_id ns" qs]
  by (auto simp: rx_posted_def)

lemma data_post_spec:
  assumes "rx_ready s" "brcmf_msgbuf_rxbuf_data_post env count s = (i, t)" "count = max_rxbufpost s - rxbufpost s"
  shows "\<exists>msgs bufs. rx_posted s (t\<lparr>rxbufpost := rxbufpost s + i\<rparr>) msgs bufs \<and> rx_ready (t\<lparr>rxbufpost := rxbufpost s + i\<rparr>)
    \<and> rxbufpost t = rxbufpost s \<and> unat i = length msgs \<and> i \<le> count"
proof -
  have R: "pktids_wf (rx_pktids s)" "ring_reachable (rxpost_submit s)" "ring_published (rxpost_submit s)"
    "rxbufpost s \<le> max_rxbufpost s" using assms(1) by (simp_all add: rx_ready_def)
  let ?fill = "fill_bufs env BRCMF_MSGBUF_MAX_PKT_SIZE rx_bufpost_msg"
  obtain rg u where p: "post_bufs count ?fill (rxpost_submit s) s = (i, rg, u)" "t = u\<lparr>rxpost_submit := rg\<rparr>"
    using assms(2) by (auto simp: brcmf_msgbuf_rxbuf_data_post_def split: prod.splits)
  have len: "length (fst (?fill n s)) \<le> n" for n
    using fill_bufs_spec [OF R(1) good_mk_rx(1), of env BRCMF_MSGBUF_MAX_PKT_SIZE n] by (metis prod.collapse)
  have cnt: "unat count = unat (max_rxbufpost s) - unat (rxbufpost s)" using assms(3) R(4) by (simp add: unat_sub)
  from R(2) p(1) len show ?thesis
  proof (cases rule: post_bufs_spec)
    case 1
    then show ?thesis using R p(2)
      by (intro exI [of _ "[]"]) (simp add: rx_posted_def rx_parked_def rx_ready_def)
  next
    case (2 msgs n)
    from fill_bufs_spec [OF R(1) good_mk_rx(1) 2(1)] obtain bufs where
      f: "pktids_wf (rx_pktids u)" "rx_core u = rx_core s" "rx_parked (rx_pktids s) (rx_pktids u) (map msg_id msgs) bufs" by blast
    have i: "unat i = length msgs" using 2(2,3) unat_of_nat_le by blast
    have "unat (rxbufpost s) + unat i \<le> unat (max_rxbufpost s)" using i 2(3) cnt R(4) by (simp add: word_le_nat_alt)
    then have sum: "unat (rxbufpost s + i) = unat (rxbufpost s) + length msgs" "rxbufpost s + i \<le> max_rxbufpost s"
      using i unat_u32_lt [of "max_rxbufpost s"]
      by (simp_all add: unat_word_ariths word_le_nat_alt)
    have "ring_published rg" using 2(6,7) R(3) by (cases "msgs = []") simp_all
    then show ?thesis using f 2 i sum rx_core_fields [OF f(2)] p(2)
      by (intro exI [of _ msgs] exI [of _ bufs]) (simp add: rx_posted_def rx_ready_def word_le_nat_alt)
  qed
qed

lemma rxbuf_fill_loop_spec:
  assumes "rx_ready s" "n = max_rxbufpost s - rxbufpost s"
  shows "\<exists>s' msgs bufs. rxbuf_fill_loop env n s = Some s' \<and> rx_posted s s' msgs bufs \<and> rx_ready s'"
  using assms
proof (induction "unat n" arbitrary: n s rule: less_induct)
  case less
  obtain i t where p: "brcmf_msgbuf_rxbuf_data_post env n s = (i, t)" by fastforce
  define u where "u = t\<lparr>rxbufpost := rxbufpost s + i\<rparr>"
  obtain msgs bufs where d: "rx_posted s u msgs bufs" "rx_ready u" "rxbufpost t = rxbufpost s" "unat i = length msgs" "i \<le> n"
    using data_post_spec [OF less.prems(1) p less.prems(2)] unfolding u_def by blast
  consider "n = 0" | "n \<noteq> 0" "i = 0" | "n \<noteq> 0" "i \<noteq> 0" by blast
  then show ?case
  proof cases
    case 1
    then have "rxbuf_fill_loop env n s = Some s" by (subst rxbuf_fill_loop.simps) simp
    with less.prems(1) rx_posted_refl show ?thesis by blast
  next
    case 2
    then have "u = t" using d(3) by (simp add: u_def)
    moreover have "rxbuf_fill_loop env n s = Some t" using 2 p by (simp add: rxbuf_fill_loop.simps [of env n s])
    ultimately show ?thesis using d by blast
  next
    case 3
    have "unat (n - i) < unat n" using 3 d(5) by (simp add: unat_sub word_le_nat_alt unat_gt_0)
    moreover have "n - i = max_rxbufpost u - rxbufpost u"
      using less.prems(2) d(1) by (simp add: rx_posted_def u_def)
    ultimately obtain s' ns qs where s': "rxbuf_fill_loop env (n - i) u = Some s'" "rx_posted u s' ns qs" "rx_ready s'"
      using less.hyps [of "n - i" u] d(2) by blast
    have "rxbuf_fill_loop env n s = rxbuf_fill_loop env (n - i) u"
      using 3 p d(3) by (simp add: rxbuf_fill_loop.simps [of env n s] u_def)
    with s' rx_posted_trans [OF d(1) s'(2)] show ?thesis by auto
  qed
qed

text \<open>
  C33: Filling the ring with receive buffers returns. For each message it wrote there is a
  buffer parked under the id in the message, which was free before and differs from the
  others; the count of posted buffers grows by the number of messages, stays within the limit,
  and what was written is published.
\<close>

theorem rx_fill_accounts:
  assumes "rx_ready s"
  shows "\<exists>s' msgs bufs. brcmf_msgbuf_rxbuf_data_fill env s = Some s' \<and> rx_posted s s' msgs bufs \<and> rx_ready s'"
  unfolding brcmf_msgbuf_rxbuf_data_fill_def using assms by (rule rxbuf_fill_loop_spec) simp

theorem rx_fill_accounts_witness:
  "rx_ready sample_msgbuf \<and> (\<exists>s' msgs bufs. brcmf_msgbuf_rxbuf_data_fill sample_env sample_msgbuf = Some s' \<and>
     rx_posted sample_msgbuf s' msgs bufs \<and> rx_ready s')"
proof -
  have "ring_published sample_h2d" by code_simp
  then have "rx_ready sample_msgbuf"
    using sample_h2d_reachable init_pktids_wf [of 8] by (simp add: rx_ready_def sample_msgbuf_def)
  with rx_fill_accounts [OF this, of sample_env] show ?thesis by blast
qed

subsection \<open>Reading a completion ring is one pass over its messages\<close>

text \<open>The reference: the handler run over a list of messages.\<close>

fun handle_all :: "msgbuf_env \<Rightarrow> u8 list list \<Rightarrow> brcmf_msgbuf \<Rightarrow> brcmf_msgbuf option" where
  "handle_all env [] s = Some s"
| "handle_all env (m # ms) s =
     Option.bind (brcmf_msgbuf_process_msgtype env (drop (unat (rx_dataoffset s)) m) s) (handle_all env ms)"

lemma handle_all_append:
  "handle_all env (ms @ ns) s = Option.bind (handle_all env ms s) (handle_all env ns)"
  by (induction ms arbitrary: s) (auto split: bind_splits)

text \<open>The messages the device has published and the host has not read, in the order of the ring.\<close>

definition pending :: "'m ring_sys \<Rightarrow> 'm list" where
  "pending rg = map (\<lambda>i. ring_mem rg (slot_addr (host rg) i))
     (slots (unat (depth (host rg))) (unat (r_ptr (host rg)))
        (dist (unat (depth (host rg))) (unat (r_ptr (host rg))) (unat (w_idx (dev rg)))))"

text \<open>The ring with its read index moved, here and for the device.\<close>

definition read_to :: "u16 \<Rightarrow> 'm ring_sys \<Rightarrow> 'm ring_sys" where
  "read_to r rg = rg\<lparr>host := (host rg)\<lparr>r_ptr := r\<rparr>, dev := (dev rg)\<lparr>r_idx := r\<rparr>\<rparr>"

definition wrap_at :: "u16 \<Rightarrow> u16 \<Rightarrow> u16" where
  "wrap_at d r = (if r = d then 0 else r)"

lemma ring_consume_eq:
  "dev_up (dev rg) \<Longrightarrow> ring_consume n rg = read_to (wrap_at (depth (host rg)) (r_ptr (host rg) + n)) rg"
  by (simp add: ring_consume_def brcmf_commonring_read_complete_def pcie_ops_def brcmf_commonring_register_cb_def
      brcmf_pcie_ring_mb_write_rptr_def read_to_def wrap_at_def Let_def)

lemma read_to_simps [simp]:
  "dev_up (dev (read_to r rg)) = dev_up (dev rg)" "ring_mem (read_to r rg) = ring_mem rg"
  "host (read_to r rg) = (host rg)\<lparr>r_ptr := r\<rparr>" "w_idx (dev (read_to r rg)) = w_idx (dev rg)"
  "read_to r (read_to q rg) = read_to r rg" "r_idx (dev (read_to r rg)) = r"
  by (simp_all add: read_to_def)

text \<open>A block that does not cross the end: the batches of 48 add up to one step of the read index.\<close>

lemma process_items_eq:
  assumes "dev_up (dev rg)" "r_idx (dev rg) = r_ptr (host rg)" "unat (r_ptr (host rg)) + unat k + n \<le> unat (depth (host rg))"
    "r_ptr (host rg) < depth (host rg)" "unat k < 48"
  shows "process_items env n buf k rg s =
    map_option (Pair (read_to (wrap_at (depth (host rg)) (r_ptr (host rg) + k + of_nat n)) rg))
      (handle_all env (map (\<lambda>i. ring_mem rg (buf + i * unat (item_len (host rg)))) [0..<n]) s)"
  using assms
proof (induction n arbitrary: buf k rg s)
  case 0
  have "read_to (r_ptr (host rg)) rg = rg" using 0(2) by (simp add: read_to_def)
  then show ?case using 0(1,4) by (auto simp: ring_consume_eq wrap_at_def)
next
  case (Suc n)
  define il where "il = unat (item_len (host rg))"
  have list: "map (\<lambda>i. ring_mem rg (buf + i * il)) [0..<Suc n]
      = ring_mem rg buf # map (\<lambda>i. ring_mem rg (buf + il + i * il)) [0..<n]"
    by (simp add: upt_conv_Cons map_Suc_upt [symmetric] del: upt_Suc map_Suc_upt) (simp add: add.assoc)
  have k1: "unat (k + 1) = unat k + 1" using Suc.prems(5) by (simp add: unat_word_ariths)
  have nx: "process_items env (Suc n) buf k rg s =
      Option.bind (brcmf_msgbuf_process_msgtype env (drop (unat (rx_dataoffset s)) (ring_mem rg buf)) s) (\<lambda>s.
       map_option (Pair (read_to (wrap_at (depth (host rg)) (r_ptr (host rg) + k + of_nat (Suc n))) rg))
      (handle_all env (map (\<lambda>i. ring_mem rg (buf + il + i * il)) [0..<n]) s))"
  proof (cases "k + 1 = 48")
    case True
    define r2 where "r2 = wrap_at (depth (host rg)) (r_ptr (host rg) + 48)"
    have le: "unat (r_ptr (host rg)) + 48 + n \<le> unat (depth (host rg))" using Suc.prems(3) k1 True by simp
    then have "unat (r_ptr (host rg)) + 48 < 65536 \<or> n = 0" "unat (r_ptr (host rg)) + 48 < 65536"
      using unat_u16_lt [of "depth (host rg)"] by linarith+
    then have rk: "unat (r_ptr (host rg) + 48) = unat (r_ptr (host rg)) + 48" by (simp add: unat_word_ariths)
    have r2: "unat r2 + n \<le> unat (depth (host rg))" "r2 < depth (host rg)"
      "wrap_at (depth (host rg)) (r2 + of_nat n) = wrap_at (depth (host rg)) (r_ptr (host rg) + k + of_nat (Suc n))"
    proof -
      have "k + of_nat (Suc n) = (k + 1) + of_nat n" by simp
      then have k: "k + of_nat (Suc n) = 48 + of_nat n" unfolding True .
      show "unat r2 + n \<le> unat (depth (host rg))" "r2 < depth (host rg)"
        using rk le Suc.prems(4) by (auto simp: r2_def wrap_at_def word_less_nat_alt word_unat_eq_iff)
      show "wrap_at (depth (host rg)) (r2 + of_nat n) = wrap_at (depth (host rg)) (r_ptr (host rg) + k + of_nat (Suc n))"
      proof (cases "r_ptr (host rg) + 48 = depth (host rg)")
        case True
        then have "n = 0" using rk le by simp
        with True k show ?thesis by (simp add: r2_def wrap_at_def add.assoc)
      next
        case False
        then show ?thesis using k by (simp add: r2_def wrap_at_def add.assoc)
      qed
    qed
    have "process_items env n b 0 (read_to r2 rg) u =
        map_option (Pair (read_to (wrap_at (depth (host rg)) (r2 + of_nat n)) rg))
          (handle_all env (map (\<lambda>i. ring_mem rg (b + i * il)) [0..<n]) u)" for b u
      using Suc.IH [of "read_to r2 rg" 0 b u] Suc.prems(1) r2(1,2) by (simp add: il_def)
    then show ?thesis using True Suc.prems(1) r2(3)
      by (simp add: il_def [symmetric] Let_def ring_consume_eq r2_def [symmetric])
  next
    case False
    then have "unat (k + 1) < 48" using k1 Suc.prems(5) by (simp add: word_unat_eq_iff)
    then show ?thesis using False Suc.IH [of rg "k + 1"] Suc.prems k1
      by (simp add: il_def [symmetric] Let_def algebra_simps)
  qed
  show ?case unfolding il_def [symmetric] list nx handle_all.simps by (simp split: bind_split)
qed


lemma get_read_ptr_eq:
  assumes "dev_up d"
  shows "brcmf_commonring_get_read_ptr pcie_ops (d, cr) =
    (let n = (if w_idx d \<ge> r_ptr cr then w_idx d - r_ptr cr else depth cr - r_ptr cr)
     in ((if n = 0 then None else Some (slot_addr cr (unat (r_ptr cr))), n), d, cr\<lparr>w_ptr := w_idx d\<rparr>))"
  using assms by (simp add: brcmf_commonring_get_read_ptr_def pcie_ops_def brcmf_commonring_register_cb_def call_cb_def
      brcmf_pcie_ring_mb_update_wptr_def slot_addr_def Let_def)

lemma slots_ahead: "r \<le> w \<Longrightarrow> w \<le> D \<Longrightarrow> slots D r (dist D r w) = [r..<w]"
  by (rule nth_equalityI) (auto simp: slots_def dist_def adv_def)

lemma slots_wrapped: "w < r \<Longrightarrow> r < D \<Longrightarrow> slots D r (dist D r w) = [r..<D] @ [0..<w]"
  by (rule nth_equalityI) (auto simp: slots_def dist_def adv_def nth_append)

definition drained :: "'m ring_sys \<Rightarrow> 'm ring_sys" where
  "drained rg = read_to (w_idx (dev rg)) (rg\<lparr>host := (host rg)\<lparr>w_ptr := w_idx (dev rg)\<rparr>\<rparr>)"

definition slot_msgs :: "'m ring_sys \<Rightarrow> nat list \<Rightarrow> 'm list" where
  "slot_msgs rg is = map (\<lambda>i. ring_mem rg (slot_addr (host rg) i)) is"

text \<open>One block handled, as part of the loop.\<close>

lemma process_rx_block:
  assumes "dev_up (dev rg)" "r_idx (dev rg) = r_ptr (host rg)" "r_ptr (host rg) < depth (host rg)"
    "n = (if w_idx (dev rg) \<ge> r_ptr (host rg) then w_idx (dev rg) - r_ptr (host rg) else depth (host rg) - r_ptr (host rg))"
    "n \<noteq> 0" "w_idx (dev rg) < depth (host rg)"
  shows "brcmf_msgbuf_process_rx env rg s =
    Option.bind (handle_all env (slot_msgs rg [unat (r_ptr (host rg))..<unat (r_ptr (host rg)) + unat n]) s) (\<lambda>s.
      let rg' = read_to (wrap_at (depth (host rg)) (r_ptr (host rg) + n)) (rg\<lparr>host := (host rg)\<lparr>w_ptr := w_idx (dev rg)\<rparr>\<rparr>)
      in if r_ptr (host rg') = 0 then brcmf_msgbuf_process_rx env rg' s else Some (rg', s))"
proof -
  let ?r = "unat (r_ptr (host rg))" and ?rg = "rg\<lparr>host := (host rg)\<lparr>w_ptr := w_idx (dev rg)\<rparr>\<rparr>"
  have "unat n \<le> unat (depth (host rg)) - ?r"
    using assms(3,4,6) by (auto simp: word_le_nat_alt word_less_nat_alt unat_sub split: if_splits)
  then have le: "?r + unat n \<le> unat (depth (host rg))" using assms(3) by (simp add: word_less_nat_alt)
  have "map (\<lambda>i. ring_mem rg (slot_addr (host rg) ?r + i * unat (item_len (host rg)))) [0..<unat n]
      = slot_msgs rg [?r..<?r + unat n]"
    by (rule nth_equalityI) (simp_all add: slot_msgs_def slot_addr_def algebra_simps)
  then have "process_items env (unat n) (slot_addr (host rg) ?r) 0 ?rg s =
    map_option (Pair (read_to (wrap_at (depth (host rg)) (r_ptr (host rg) + n)) ?rg))
      (handle_all env (slot_msgs rg [?r..<?r + unat n]) s)"
    using process_items_eq [of ?rg 0 "unat n" env "slot_addr (host rg) ?r" s] assms(1-3) le by simp
  moreover have "brcmf_commonring_get_read_ptr pcie_ops (dev rg, host rg) =
      ((Some (slot_addr (host rg) ?r), n), dev rg, (host rg)\<lparr>w_ptr := w_idx (dev rg)\<rparr>)"
    using assms(5) unfolding get_read_ptr_eq [OF assms(1)] assms(4) [symmetric] by simp
  ultimately show ?thesis
    by (subst brcmf_msgbuf_process_rx.simps) (simp add: Let_def split: bind_split)
qed

lemma process_rx_ahead:
  assumes "dev_up (dev rg)" "r_idx (dev rg) = r_ptr (host rg)" "w_idx (dev rg) < depth (host rg)"
    "r_ptr (host rg) \<le> w_idx (dev rg)"
  shows "brcmf_msgbuf_process_rx env rg s = map_option (Pair (drained rg)) (handle_all env (pending rg) s)"
proof (cases "r_ptr (host rg) = w_idx (dev rg)")
  case True
  have "brcmf_msgbuf_process_rx env rg s = Some (drained rg, s)"
    using assms(2) True
    by (subst brcmf_msgbuf_process_rx.simps)
      (simp add: get_read_ptr_eq [OF assms(1)] drained_def read_to_def Let_def)
  with True show ?thesis by (simp add: pending_def slots_def)
next
  case False
  let ?r = "r_ptr (host rg)" and ?w = "w_idx (dev rg)"
  have lt: "unat ?r < unat ?w" "unat ?w < unat (depth (host rg))"
    using False assms(3,4) by (auto simp: word_le_nat_alt word_less_nat_alt word_unat_eq_iff)
  then have n: "?w - ?r \<noteq> 0" "unat (?w - ?r) = unat ?w - unat ?r" "?r < depth (host rg)"
    using False assms(4) by (auto simp: unat_sub word_less_nat_alt)
  have "slot_msgs rg [unat ?r..<unat ?r + unat (?w - ?r)] = pending rg"
    using lt n(2) by (simp add: slot_msgs_def pending_def slots_ahead)
  moreover have "wrap_at (depth (host rg)) (?r + (?w - ?r)) = ?w" "?w \<noteq> 0"
    using assms(3) lt by (auto simp: wrap_at_def)
  ultimately show ?thesis
    using process_rx_block [OF assms(1,2) n(3), of "?w - ?r" env s] n assms(3,4)
    by (simp add: drained_def Let_def split: bind_split)
qed

text \<open>
  C4: Reading a completion ring is one pass: every message that the device had published when
  the reading began is handled exactly once and in the order of the ring, across its end, and
  at the end the read index has reached the published index, for the device too. The batches,
  the pointer into the ring and the second round after the end make no difference.
\<close>

theorem process_rx_one_pass:
  assumes "dev_up (dev rg)" "r_idx (dev rg) = r_ptr (host rg)" "w_idx (dev rg) < depth (host rg)"
    "r_ptr (host rg) < depth (host rg)"
  shows "brcmf_msgbuf_process_rx env rg s = map_option (Pair (drained rg)) (handle_all env (pending rg) s)"
proof (cases "r_ptr (host rg) \<le> w_idx (dev rg)")
  case True
  with assms show ?thesis by (intro process_rx_ahead)
next
  case False
  let ?r = "r_ptr (host rg)" and ?w = "w_idx (dev rg)" and ?D = "depth (host rg)"
  have lt: "unat ?w < unat ?r" "unat ?r < unat ?D" using False assms(4) by (auto simp: word_le_nat_alt word_less_nat_alt)
  define rg1 where "rg1 = read_to 0 (rg\<lparr>host := (host rg)\<lparr>w_ptr := ?w\<rparr>\<rparr>)"
  have n: "?D - ?r \<noteq> 0" "unat ?r + unat (?D - ?r) = unat ?D"
    using assms(4) lt by (auto simp: unat_sub word_le_nat_alt)
  have pend: "slot_msgs rg [unat ?r..<unat ?D] @ pending rg1 = pending rg"
    using lt by (simp add: slot_msgs_def pending_def slots_ahead slots_wrapped rg1_def slot_addr_def)
  have "brcmf_msgbuf_process_rx env rg1 u = map_option (Pair (drained rg)) (handle_all env (pending rg1) u)" for u
    using process_rx_ahead [of rg1 env u] assms lt by (simp add: rg1_def drained_def word_less_nat_alt read_to_def)
  moreover have "brcmf_msgbuf_process_rx env rg s =
      Option.bind (handle_all env (slot_msgs rg [unat ?r..<unat ?D]) s) (brcmf_msgbuf_process_rx env rg1)"
    using process_rx_block [OF assms(1,2,4), of "?D - ?r" env s] False n assms(3)
    by (simp add: rg1_def wrap_at_def Let_def)
  ultimately show ?thesis
    unfolding pend [symmetric] handle_all_append by (simp split: bind_split)
qed

text \<open>A ring of four slots with messages in its last and its first slot.\<close>

definition sample_completions :: "u8 list ring_sys" where
  "sample_completions = sample_d2h\<lparr>host := (host sample_d2h)\<lparr>r_ptr := 3\<rparr>,
     dev := (dev sample_d2h)\<lparr>r_idx := 3, w_idx := 1\<rparr>,
     ring_mem := (\<lambda>_. [])(88 := [0x10] @ replicate 23 0, 16 := [0x24, 0, 0, 0, 0, 0, 0, 0, 0, 0, 0, 0, 5] @ replicate 11 0)\<rparr>"

theorem process_rx_one_pass_witness:
  "pending sample_completions = [[0x10] @ replicate 23 0, [0x24, 0, 0, 0, 0, 0, 0, 0, 0, 0, 0, 0, 5] @ replicate 11 0] \<and>
   brcmf_msgbuf_process_rx sample_env sample_completions sample_msgbuf =
     map_option (Pair (drained sample_completions)) (handle_all sample_env (pending sample_completions) sample_msgbuf)"
proof
  show "pending sample_completions = [[0x10] @ replicate 23 0, [0x24, 0, 0, 0, 0, 0, 0, 0, 0, 0, 0, 0, 5] @ replicate 11 0]"
    by code_simp
  show "brcmf_msgbuf_process_rx sample_env sample_completions sample_msgbuf =
     map_option (Pair (drained sample_completions)) (handle_all sample_env (pending sample_completions) sample_msgbuf)"
    by (rule process_rx_one_pass) code_simp+
qed

subsection \<open>Commands and their responses\<close>

lemma get_pktid_parked:
  assumes "pktids_wf p" "pid_slot p i = Some skb"
  obtains p' where "brcmf_msgbuf_get_pktid i p = (Some skb, p')" "pid_slot p' = (pid_slot p)(i := None)"
proof -
  obtain q p' where g: "brcmf_msgbuf_get_pktid i p = (q, p')" by fastforce
  with assms(2) get_pktid_fail(2) have "q \<noteq> None" by fastforce
  with g assms(2) get_pktid_ok [OF assms(1)] show ?thesis by (auto intro: that)
qed

lemma rx_parked_keeps:
  assumes "rx_parked p p' ids bufs" "pid_slot p i = Some x"
  shows "pid_slot p' i = Some x"
proof -
  have "i \<notin> set ids" using assms by (auto simp: rx_parked_def)
  with assms show ?thesis by (simp add: rx_parked_def)
qed

lemma fill_bufs_data:
  assumes "\<And>n. skb_alloc env n \<noteq> Some p"
  shows "skb_data (snd (fill_bufs env len (ctrl_bufpost_msg b) n s)) p = skb_data s p"
proof (induction n arbitrary: s)
  case (Suc n)
  obtain q t where g: "get_new_skb env len s = (q, t)" by fastforce
  then have t: "skb_data t p = skb_data s p"
    using assms [of "nalloc s"] by (auto simp: get_new_skb_def set_skb_data_def split: option.splits)
  show ?case
  proof (cases q)
    case None
    with g t show ?thesis by simp
  next
    case (Some skb)
    obtain res ids where al: "brcmf_msgbuf_alloc_pktid (dma_map env skb) skb 0 (rx_pktids t) = (res, ids)" by fastforce
    with g Some t Suc.IH [of "t\<lparr>rx_pktids := ids\<rparr>"] show ?thesis
      by (cases res) (simp_all add: mb_free_skb_def ctrl_bufpost_msg_def case_prod_beta Let_def)
  qed
qed simp

text \<open>Posting control buffers keeps what is parked and the data of packets in use.\<close>

lemma ctrl_post_spec:
  assumes "pktids_wf (rx_pktids s)" "ring_reachable (ctl_submit s)" "brcmf_msgbuf_rxbuf_ctrl_post env b count s = (i, t)"
  shows "pktids_wf (rx_pktids t)" "ring_reachable (ctl_submit t)" "rx_core (t\<lparr>ctl_submit := ctl_submit s\<rparr>) = rx_core s"
    "pid_slot (rx_pktids s) j = Some q \<Longrightarrow> pid_slot (rx_pktids t) j = Some q"
    "(\<And>n. skb_alloc env n \<noteq> Some p) \<Longrightarrow> skb_data t p = skb_data s p"
proof -
  let ?fill = "fill_bufs env BRCMF_MSGBUF_MAX_CTL_PKT_SIZE (ctrl_bufpost_msg b)"
  obtain rg u where p: "post_bufs count ?fill (ctl_submit s) s = (i, rg, u)" "t = u\<lparr>ctl_submit := rg\<rparr>"
    using assms(3) by (auto simp: brcmf_msgbuf_rxbuf_ctrl_post_def split: prod.splits)
  have len: "length (fst (?fill n s)) \<le> n" for n
    using fill_bufs_spec [OF assms(1) good_mk_rx(2), of env BRCMF_MSGBUF_MAX_CTL_PKT_SIZE b n] by (metis prod.collapse)
  have reach: "ring_reachable rg" and u: "u = s \<or> (\<exists>msgs n. ?fill n s = (msgs, u))"
    using assms(2) p(1) len by (cases rule: post_bufs_spec, blast+)+
  have *: "pktids_wf (rx_pktids u) \<and> rx_core u = rx_core s \<and> (\<forall>j q. pid_slot (rx_pktids s) j = Some q \<longrightarrow> pid_slot (rx_pktids u) j = Some q)
      \<and> (\<forall>p. (\<forall>n. skb_alloc env n \<noteq> Some p) \<longrightarrow> skb_data u p = skb_data s p)"
    using u
  proof
    assume "\<exists>msgs n. ?fill n s = (msgs, u)"
    then obtain msgs n where f: "?fill n s = (msgs, u)" by blast
    from fill_bufs_spec [OF assms(1) good_mk_rx(2) f] rx_parked_keeps fill_bufs_data [of env _ BRCMF_MSGBUF_MAX_CTL_PKT_SIZE b n s] f
    show ?thesis by (metis snd_conv)
  qed (use assms(1) in simp)
  have "rx_core (t\<lparr>ctl_submit := ctl_submit s\<rparr>) = rx_core (u\<lparr>ctl_submit := ctl_submit u\<rparr>)"
    using * rx_core_fields(1) [of u s] p(2) by simp
  with * show "rx_core (t\<lparr>ctl_submit := ctl_submit s\<rparr>) = rx_core s" by simp
  show "pktids_wf (rx_pktids t)" "ring_reachable (ctl_submit t)"
    "pid_slot (rx_pktids s) j = Some q \<Longrightarrow> pid_slot (rx_pktids t) j = Some q"
    "(\<And>n. skb_alloc env n \<noteq> Some p) \<Longrightarrow> skb_data t p = skb_data s p"
    using * p(2) reach by simp_all
qed


lemma tx_ioctl_spec:
  assumes "ring_reachable (ctl_submit s)" "brcmf_msgbuf_tx_ioctl ifx cmd buf len s = (Inr (), t)"
  shows "ring_reachable (ctl_submit t)" "rx_pktids t = rx_pktids s" "freed_skbs t = freed_skbs s"
    "produced (ctl_submit t) = produced (ctl_submit s) @ [Ioctlptr_req (of_int ifx) cmd (ucast len) (ucast (reqid s + 1))
        (min (ucast len) BRCMF_TX_IOCTL_MAX_MSG_SIZE) (bus_addr (ioctbuf_handle s))]"
proof -
  define x where "x = Ioctlptr_req (of_int ifx) cmd (ucast len) (ucast (reqid s + 1))
        (min (ucast len) BRCMF_TX_IOCTL_MAX_MSG_SIZE) (bus_addr (ioctbuf_handle s))"
  note def = brcmf_msgbuf_tx_ioctl_def [of ifx cmd buf len s, unfolded Let_def, folded x_def]
  obtain rg where r: "ring_put x (ctl_submit s) = (True, rg)" "ring_step (ctl_submit s) rg"
    "produced rg = produced (ctl_submit s) @ [x]"
    by (cases rule: ring_put_cases [of x "ctl_submit s"]) (use assms(2) def in auto)
  obtain rg' where p: "ring_publish rg = (if dev_up (dev rg) then Inr () else Inl EIO, rg')" "ring_step rg rg'"
    "produced rg' = produced rg" by (rule ring_publish_cases [of rg])
  have t: "ctl_submit t = rg'" "rx_pktids t = rx_pktids s" "freed_skbs t = freed_skbs s"
    using assms(2) def r(1) p(1) by auto
  show "ring_reachable (ctl_submit t)"
    using t(1) ring_reachable.step [OF ring_reachable.step [OF assms(1) r(2)] p(2)] by simp
  show "produced (ctl_submit t) = produced (ctl_submit s) @ [Ioctlptr_req (of_int ifx) cmd (ucast len) (ucast (reqid s + 1))
        (min (ucast len) BRCMF_TX_IOCTL_MAX_MSG_SIZE) (bus_addr (ioctbuf_handle s))]"
    using t(1) p(3) r(3) by (simp add: x_def)
  show "rx_pktids t = rx_pktids s" "freed_skbs t = freed_skbs s" by (fact t)+
qed


text \<open>
  C10: A command whose response the device writes into a posted buffer and reports returns the
  status of the response and its bytes, as many as were sent and fit; the buffer is given back
  to the kernel and its id is free again, and every other buffer stays parked. Buffers that
  the kernel allocates meanwhile are not the one in use.
\<close>

theorem query_dcmd_returns_response:
  assumes "pktids_wf (rx_pktids s)" "ring_reachable (ctl_submit s)" "pid_slot (rx_pktids s) i = Some p"
    and "fst (brcmf_msgbuf_tx_ioctl ifx cmd (Some b) len (s\<lparr>ctl_completed := False\<rparr>)) = Inr ()"
    and "le32_at 4 resp = Some i" "le16_at 8 resp = Some st" "le16_at 12 resp = Some rlen"
    and "unat rlen \<le> length d" "\<And>n. skb_alloc env n \<noteq> Some p"
    and "others = (\<lambda>t. the (brcmf_msgbuf_process_ioctl_complete env resp (set_skb_data p d t)))"
  shows "\<exists>s'. brcmf_msgbuf_query_dcmd others ifx cmd (Some b) len s =
      Some (Inr (sint st), Some (memcpy b d (unat (min len (ucast rlen)))), s')
    \<and> p \<in> set (freed_skbs s') \<and> pid_slot (rx_pktids s') i = None
    \<and> (\<forall>j q. j \<noteq> i \<and> pid_slot (rx_pktids s) j = Some q \<longrightarrow> pid_slot (rx_pktids s') j = Some q)"
proof -
  obtain t where t: "brcmf_msgbuf_tx_ioctl ifx cmd (Some b) len (s\<lparr>ctl_completed := False\<rparr>) = (Inr (), t)"
    using assms(4) by (metis prod.collapse)
  have T: "ring_reachable (ctl_submit t)" "rx_pktids t = rx_pktids s"
    using tx_ioctl_spec [OF _ t] assms(2) by simp_all
  define u where "u = (let s1 = (set_skb_data p d t)\<lparr>ioctl_resp_status := sint st, ioctl_resp_ret_len := ucast rlen,
      ioctl_resp_pktid := i, ctl_completed := True\<rparr>
      in if cur_ioctlrespbuf s1 \<noteq> 0 then s1\<lparr>cur_ioctlrespbuf := cur_ioctlrespbuf s1 - 1\<rparr> else s1)"
  have u: "rx_pktids u = rx_pktids s" "ctl_submit u = ctl_submit t" "skb_data u p = d" "ctl_completed u"
    "ioctl_resp_status u = sint st" "ioctl_resp_ret_len u = ucast rlen" "ioctl_resp_pktid u = i"
    using T by (simp_all add: u_def set_skb_data_def Let_def)
  obtain k v where v: "brcmf_msgbuf_rxbuf_ctrl_post env False (max_ioctlrespbuf u - cur_ioctlrespbuf u) u = (k, v)" by fastforce
  have pre: "pktids_wf (rx_pktids u)" "ring_reachable (ctl_submit u)" using u T assms(1) by simp_all
  note c = ctrl_post_spec [OF pre v]
  define w where "w = v\<lparr>cur_ioctlrespbuf := cur_ioctlrespbuf v + k\<rparr>"
  have w: "others t = w"
    using assms(5-7,10) v
    by (simp add: brcmf_msgbuf_process_ioctl_complete_def brcmf_msgbuf_ioctl_resp_wake_def
        brcmf_msgbuf_rxbuf_ioctlresp_post_def u_def w_def Let_def)
  have core: "rx_core (v\<lparr>ctl_submit := ctl_submit u\<rparr>) = rx_core u" by (rule c(3))
  have V: "ctl_completed v" "ioctl_resp_status v = sint st" "ioctl_resp_ret_len v = ucast rlen" "ioctl_resp_pktid v = i"
    using arg_cong [OF core, of ctl_completed] arg_cong [OF core, of ioctl_resp_status]
      arg_cong [OF core, of ioctl_resp_ret_len] arg_cong [OF core, of ioctl_resp_pktid] u
    by (simp_all add: rx_core_def)
  have slot: "pid_slot (rx_pktids v) j = Some q" if "pid_slot (rx_pktids s) j = Some q" for j q
    using c(4) [of j q] that u(1) by simp
  obtain ids where g: "brcmf_msgbuf_get_pktid i (rx_pktids v) = (Some p, ids)" "pid_slot ids = (pid_slot (rx_pktids v))(i := None)"
    using get_pktid_parked [OF c(1) slot [OF assms(3)]] by metis
  have data: "skb_data v p = d" using c(5) [OF assms(9)] u(3) by simp
  have n: "unat (min len (ucast rlen)) \<le> length d"
  proof -
    have "unat (ucast rlen :: u32) \<le> unat rlen" by (simp add: unsigned_ucast_eq)
    then show ?thesis using assms(8) by (simp add: min_def word_le_nat_alt del: unsigned_ucast_eq)
  qed
  define s' where "s' = mb_free_skb (Some p) (w\<lparr>rx_pktids := ids\<rparr>)"
  have "brcmf_msgbuf_query_dcmd others ifx cmd (Some b) len s =
      Some (Inr (sint st), Some (memcpy b d (unat (min len (ucast rlen)))), s')"
    using t w V g(1) data n
    by (simp add: brcmf_msgbuf_query_dcmd_def brcmf_msgbuf_ioctl_resp_wait_def w_def s'_def memcpy_def Let_def)
  moreover have "p \<in> set (freed_skbs s')" "rx_pktids s' = ids" by (simp_all add: s'_def mb_free_skb_def w_def)
  ultimately show ?thesis using g(2) slot by auto
qed

text \<open>The sample state with buffer 42 parked under the id 1, and the report that it holds three bytes.\<close>

definition sample_posted :: brcmf_msgbuf where
  "sample_posted = sample_msgbuf\<lparr>rx_pktids := snd (brcmf_msgbuf_alloc_pktid (Some 512) 42 0 (brcmf_msgbuf_init_pktids 8))\<rparr>"

definition sample_resp :: "u8 list" where
  "sample_resp = [0xC, 0, 0, 0, 1, 0, 0, 0, 0xFF, 0xFF, 0, 0, 3, 0] @ replicate 10 0"

theorem query_dcmd_returns_response_witness:
  "\<exists>s'. brcmf_msgbuf_query_dcmd
       (\<lambda>t. the (brcmf_msgbuf_process_ioctl_complete sample_env sample_resp (set_skb_data 42 [5, 6, 7, 8] t)))
       0 262 (Some [0, 0]) 2 sample_posted = Some (Inr (- 1), Some [5, 6], s') \<and> 42 \<in> set (freed_skbs s')"
proof -
  have hyps: "pktids_wf (rx_pktids sample_posted)" "ring_reachable (ctl_submit sample_posted)"
    using init_pktids_wf [of 8] sample_h2d_reachable
    by (simp_all add: sample_posted_def sample_msgbuf_def alloc_pktid_wf)
  have sent: "fst (brcmf_msgbuf_tx_ioctl 0 262 (Some [0, 0]) 2 (sample_posted\<lparr>ctl_completed := False\<rparr>)) = Inr ()"
    by code_simp
  have parked: "pid_slot (rx_pktids sample_posted) 1 = Some 42" by code_simp
  have resp: "le32_at 4 sample_resp = Some 1" "le16_at 8 sample_resp = Some 0xFFFF" "le16_at 12 sample_resp = Some 3"
    by code_simp+
  have fresh: "skb_alloc sample_env n \<noteq> Some 42" for n by (simp add: sample_env_def)
  have "sint (0xFFFF :: u16) = - 1" "memcpy [0, 0] [5, 6, 7, 8] (unat (min 2 (ucast (3 :: u16)) :: u32)) = [5, 6 :: u8]"
    by code_simp+
  with query_dcmd_returns_response [OF hyps parked sent resp _ fresh refl, of "[5, 6, 7, 8]"] show ?thesis by auto
qed

end
