(* ===== verification/Msgbuf.thy ===== *)
theory Msgbuf
  imports Msgbuf_Rx "HOL-Library.Multiset"
begin

section \<open>The message-buffer protocol as a whole (brcmfmac/msgbuf.c)\<close>

text \<open>
  The operations of \<open>Msgbuf_Tx\<close> and \<open>Msgbuf_Rx\<close> put together: the invariant of the protocol,
  which every operation keeps, the account of the packets that were accepted for transmission,
  and attaching and detaching. The lemmas go operation by operation: an operation on the flows
  moves packets (\<open>flow_moves\<close>), an operation of the protocol takes packets in (\<open>mb_moves\<close>), and
  a run is any sequence of operations of the host, the device and the bus (\<open>mb_run\<close>).
\<close>

subsection \<open>Where the packets are\<close>

definition ring_pkts :: "brcmf_flowring_ring option \<Rightarrow> pkt list" where
  "ring_pkts r = (case r of None \<Rightarrow> [] | Some r \<Rightarrow> skblist r)"

text \<open>The packets that wait in flows or were given back to the stack.\<close>

definition flow_total :: "brcmf_flowring \<Rightarrow> pkt multiset" where
  "flow_total flow = mset (concat (map ring_pkts (rings flow))) + mset (finalized flow)"

definition tx_total :: "brcmf_msgbuf \<Rightarrow> pkt multiset" where
  "tx_total s = flow_total (mb_flow s) + mset (brcmf_msgbuf_release_array (tx_pktids s))"

lemma mset_concat_upd:
  assumes "i < length xs"
  shows "mset (concat (map f (xs[i := x]))) + mset (f (xs ! i)) = mset (concat (map f xs)) + mset (f x)"
  using assms
proof (induction xs arbitrary: i)
  case (Cons y ys)
  show ?case
  proof (cases i)
    case (Suc j)
    with Cons.prems Cons.IH [of j] show ?thesis by (simp add: add.assoc)
  qed (simp add: ac_simps)
qed simp

lemma flow_total_upd:
  assumes "ring_at f flow = Some r" "rings flow' = (rings flow)[unat f := x]" "finalized flow' = finalized flow"
  shows "flow_total flow' + mset (skblist r) = flow_total flow + mset (ring_pkts x)"
  using mset_concat_upd [of "unat f" "rings flow" ring_pkts x] ring_atD [OF assms(1)] assms(2,3)
  by (simp add: flow_total_def ring_pkts_def ac_simps)

text \<open>
  An operation on the flows that keeps their invariant, the number of rings, and moves packets
  out (\<open>A\<close>) and in (\<open>B\<close>).
\<close>

definition flow_moves :: "pkt list \<Rightarrow> pkt list \<Rightarrow> brcmf_flowring \<Rightarrow> brcmf_flowring \<Rightarrow> bool" where
  "flow_moves A B flow flow' \<longleftrightarrow> (flow_inv flow \<longrightarrow> flow_inv flow') \<and> length (rings flow') = length (rings flow)
     \<and> flow_total flow' + mset A = flow_total flow + mset B"

lemma flow_moves_refl: "flow_moves [] [] flow flow"
  by (simp add: flow_moves_def)

lemma flow_moves_trans: "flow_moves A B a b \<Longrightarrow> flow_moves [] [] b c \<Longrightarrow> flow_moves A B a c"
  by (auto simp: flow_moves_def)

lemma upd_ring_moves:
  assumes "ring_at f flow = Some r" "mset (skblist (g r)) + mset A = mset (skblist r) + mset B"
    "flow_inv flow \<longrightarrow> flow_inv (upd_ring f g flow)"
  shows "flow_moves A B flow (upd_ring f g flow)"
proof -
  have "flow_total (upd_ring f g flow) + mset (skblist r) = flow_total flow + mset (skblist (g r))"
    using flow_total_upd [OF assms(1), of "upd_ring f g flow" "Some (g r)"] rings_upd_ring [OF assms(1), of g]
    by (simp add: ring_pkts_def)
  then have "flow_total (upd_ring f g flow) + mset A + mset (skblist r) = flow_total flow + mset B + mset (skblist r)"
    using assms(2) by (metis (no_types, lifting) add.assoc add.commute)
  then show ?thesis using assms(3) by (simp add: flow_moves_def upd_ring_def)
qed

lemma block_moves:
  assumes "ring_at f flow = Some r" "brcmf_flowring_block f b flow = Some flow'"
  shows "flow_moves [] [] flow flow'"
proof -
  obtain fl where "brcmf_flowring_block f b flow = Some fl"
    and fl: "rings fl = (rings flow)[unat f := Some (r\<lparr>ring_blocked := b\<rparr>)]" "finalized fl = finalized flow"
    using flowring_block_fields [OF assms(1)] by metis
  with assms(2) have "fl = flow'" by simp
  with fl flow_total_upd [OF assms(1) fl] flow_inv_block assms show ?thesis
    unfolding flow_moves_def by (auto simp: ring_pkts_def)
qed

lemma status_moves: "flow_moves [] [] flow (upd_ring f (\<lambda>r. r\<lparr>status := x\<rparr>) flow)"
proof (cases "ring_at f flow")
  case None
  then have "upd_ring f (\<lambda>r. r\<lparr>status := x\<rparr>) flow = flow"
    by (auto simp: ring_at_def upd_ring_def list_update_beyond split: if_splits)
      (metis brcmf_flowring.surjective brcmf_flowring.update_convs(2) list_update_id)
  then show ?thesis by (simp add: flow_moves_refl)
next
  case (Some r)
  then show ?thesis by (rule upd_ring_moves) (simp_all add: flow_inv_status)
qed

lemma enqueue_moves:
  assumes "brcmf_flowring_enqueue f p flow = Some (n, flow')"
  shows "flow_moves [] [p] flow flow'"
proof -
  obtain r where r: "ring_at f flow = Some r"
    using assms by (cases "ring_at f flow") (auto simp: brcmf_flowring_enqueue_def)
  define fl where "fl = upd_ring f (\<lambda>r. r\<lparr>skblist := skblist r @ [p]\<rparr>) flow"
  have fl: "flow_moves [] [p] flow fl" "ring_at f fl = Some (r\<lparr>skblist := skblist r @ [p]\<rparr>)"
    unfolding fl_def using r by (auto intro!: upd_ring_moves flow_inv_upd_ring simp: ring_at_upd_ring)
  from assms r consider "flow' = fl" | "brcmf_flowring_block f True fl = Some flow'"
    by (auto simp: brcmf_flowring_enqueue_def fl_def Let_def split: if_splits bind_splits)
  then show ?thesis using fl by cases (auto intro: flow_moves_trans block_moves)
qed

lemma dequeue_moves:
  assumes "brcmf_flowring_dequeue f flow = Some (q, flow')"
  shows "flow_moves (case q of None \<Rightarrow> [] | Some p \<Rightarrow> [p]) [] flow flow'"
proof -
  obtain r where r: "ring_at f flow = Some r"
    using assms by (cases "ring_at f flow") (auto simp: brcmf_flowring_dequeue_def)
  define fl where "fl = upd_ring f (\<lambda>r. r\<lparr>skblist := tl (skblist r)\<rparr>) flow"
  have at: "ring_at f fl = Some (r\<lparr>skblist := tl (skblist r)\<rparr>)"
    unfolding fl_def using r by (simp add: ring_at_upd_ring)
  show ?thesis
  proof (cases "status r = RING_OPEN")
    case False
    with assms r show ?thesis by (simp add: brcmf_flowring_dequeue_def flow_moves_refl)
  next
    case True
    then have q: "q = (case skblist r of [] \<Rightarrow> None | p # _ \<Rightarrow> Some p)"
      using assms r by (auto simp: brcmf_flowring_dequeue_def Let_def split: if_splits bind_splits)
    have "flow_moves (case q of None \<Rightarrow> [] | Some p \<Rightarrow> [p]) [] flow fl"
      unfolding fl_def q using r by (intro upd_ring_moves) (auto intro: flow_inv_upd_ring split: list.split)
    moreover have "flow' = fl \<or> brcmf_flowring_block f False fl = Some flow'"
      using assms r True by (auto simp: brcmf_flowring_dequeue_def fl_def Let_def split: if_splits bind_splits)
    ultimately show ?thesis using at by (auto intro: flow_moves_trans block_moves)
  qed
qed

lemma reinsert_moves: "brcmf_flowring_reinsert f p flow = Some flow' \<Longrightarrow> flow_moves [] [p] flow flow'"
  by (auto simp: brcmf_flowring_reinsert_def split: option.splits intro!: upd_ring_moves flow_inv_upd_ring)

lemma open_moves: "brcmf_flowring_open f flow = Some flow' \<Longrightarrow> flow_moves [] [] flow flow'"
  by (auto simp: brcmf_flowring_open_def split: option.splits if_splits intro: status_moves flow_moves_refl)

lemma delete_moves:
  assumes "brcmf_flowring_delete f flow = Some flow'"
  shows "flow_moves [] [] flow flow'"
proof (cases "rings flow ! unat f")
  case None
  then show ?thesis using assms by (auto simp: brcmf_flowring_delete_def flow_moves_refl split: if_splits)
next
  case (Some r)
  with assms have r: "ring_at f flow = Some r" by (auto simp: brcmf_flowring_delete_def ring_at_def split: if_splits)
  obtain fl where fl: "brcmf_flowring_block f False flow = Some fl"
    "rings fl = (rings flow)[unat f := Some (r\<lparr>ring_blocked := False\<rparr>)]" "finalized fl = finalized flow"
    using flowring_block_fields [OF r] by metis
  have rs: "rings flow' = (rings flow)[unat f := None]" "finalized flow' = finalized flow @ skblist r"
    using assms Some fl by (auto simp: brcmf_flowring_delete_def Let_def split: if_splits)
  have "flow_total (flow'\<lparr>finalized := finalized flow\<rparr>) + mset (skblist r) = flow_total flow"
    using flow_total_upd [OF r, of "flow'\<lparr>finalized := finalized flow\<rparr>" None] rs by (simp add: ring_pkts_def)
  then have "flow_total flow' = flow_total flow" using rs by (simp add: flow_total_def ac_simps)
  with rs flow_inv_delete [of flow f flow'] assms show ?thesis by (simp add: flow_moves_def)
qed

lemma create_moves:
  assumes "brcmf_flowring_create al flow da prio ifx = Some (v, flow')"
  shows "flow_moves [] [] flow flow'"
  using assms
proof (cases rule: flowring_create_cases)
  case 1
  then show ?thesis by (simp add: flow_moves_refl)
next
  case (2 sta mac fifo start k i)
  then have "i < length (rings flow)" "rings flow ! i = None" by simp_all
  from mset_concat_upd [OF this(1), of ring_pkts] 2 this(2) have "flow_total flow' = flow_total flow"
    by (simp add: flow_total_def ring_pkts_def)
  with 2 flow_inv_create [of flow] assms show ?thesis by (auto simp: flow_moves_def)
qed


subsection \<open>Parked packets\<close>

lemma mset_filter_upd:
  assumes "i < length xs"
  shows "mset (map f (filter P (xs[i := x]))) + mset (map f (filter P [xs ! i])) =
    mset (map f (filter P xs)) + mset (map f (filter P [x]))"
  using assms
proof (induction xs arbitrary: i)
  case (Cons y ys)
  show ?case
  proof (cases i)
    case (Suc j)
    with Cons.prems Cons.IH [of j] show ?thesis by simp
  qed simp
qed simp

lemma alloc_release:
  assumes "pktids_wf p" "brcmf_msgbuf_alloc_pktid mapped skb offset p = (Inr (a, i), p')"
  shows "mset (brcmf_msgbuf_release_array p') = mset (brcmf_msgbuf_release_array p) + {#skb#}"
proof -
  note ok = alloc_pktid_ok [OF assms]
  have p': "pid_array p' = (pid_array p)[unat i := \<lparr>allocated = True, data_offset = offset, pid_skb = skb, physaddr = a\<rparr>]"
    using assms(2) by (auto simp: brcmf_msgbuf_alloc_pktid_def split: option.splits)
  have "unat i < length (pid_array p)" "\<not> allocated (pid_array p ! unat i)"
    using ok(1,3) assms(1) by (auto simp: pid_slot_def pktids_wf_def word_less_nat_alt split: if_splits)
  with mset_filter_upd [OF this(1), of pid_skb allocated] show ?thesis
    by (simp add: brcmf_msgbuf_release_array_def p')
qed

lemma get_release:
  assumes "pktids_wf p" "brcmf_msgbuf_get_pktid i p = (q, p')"
  shows "mset (brcmf_msgbuf_release_array p') + mset (slot_list q) = mset (brcmf_msgbuf_release_array p)" "pktids_wf p'"
proof -
  show "pktids_wf p'" using get_pktid_wf [OF assms(1), of i] assms(2) by simp
  show "mset (brcmf_msgbuf_release_array p') + mset (slot_list q) = mset (brcmf_msgbuf_release_array p)"
  proof (cases q)
    case None
    with assms(2) get_pktid_fail(1) show ?thesis by fastforce
  next
    case (Some skb)
    then have a: "\<not> i \<ge> array_size p" "allocated (pid_array p ! unat i)" "skb = pid_skb (pid_array p ! unat i)"
      "pid_array p' = (pid_array p)[unat i := (pid_array p ! unat i)\<lparr>allocated := False\<rparr>]"
      using assms(2) by (auto simp: brcmf_msgbuf_get_pktid_def split: if_splits)
    then have "unat i < length (pid_array p)" using assms(1) by (simp add: pktids_wf_def word_le_nat_alt)
    from mset_filter_upd [OF this, of pid_skb allocated] a Some show ?thesis
      by (simp add: brcmf_msgbuf_release_array_def)
  qed
qed

subsection \<open>The invariant of the protocol\<close>

text \<open>Whether no interface forwards packets.\<close>

definition no_forwarding :: "brcmf_msgbuf \<Rightarrow> bool" where
  "no_forwarding s \<longleftrightarrow> (\<forall>i. \<not> (isap (ap_ifs s i) \<and> fmac_pkt_fwd_en (ap_ifs s i)))"

text \<open>
  The flows, both arrays of ids and the two rings to the device are well formed, and the
  arrays that are indexed by flow have the same length. Forwarding is left out of the account
  of packets: it makes received packets or copies of them packets to send.
\<close>

definition msgbuf_wf :: "brcmf_msgbuf \<Rightarrow> bool" where
  "msgbuf_wf s \<longleftrightarrow> flow_inv (mb_flow s) \<and> pktids_wf (tx_pktids s) \<and> pktids_wf (rx_pktids s)
     \<and> ring_reachable (ctl_submit s) \<and> ring_reachable (rxpost_submit s)
     \<and> length (flow_rings s) = length (rings (mb_flow s)) \<and> length (outstanding_tx s) = length (rings (mb_flow s))
     \<and> length (flow_map s) = length (rings (mb_flow s)) \<and> length (txstatus_done_map s) = length (rings (mb_flow s))
     \<and> no_forwarding s"

text \<open>An operation that keeps it and takes in the packets \<open>B\<close>.\<close>

definition mb_moves :: "pkt list \<Rightarrow> brcmf_msgbuf \<Rightarrow> brcmf_msgbuf \<Rightarrow> bool" where
  "mb_moves B s s' \<longleftrightarrow> (msgbuf_wf s \<longrightarrow>
     msgbuf_wf s' \<and> tx_total s' = tx_total s + mset B \<and> ap_ifs s' = ap_ifs s
     \<and> length (rings (mb_flow s')) = length (rings (mb_flow s)))"

lemma mb_moves_refl: "mb_moves [] s s"
  by (simp add: mb_moves_def)

lemma mb_moves_trans: "mb_moves A s t \<Longrightarrow> mb_moves B t u \<Longrightarrow> mb_moves (A @ B) s u"
  by (auto simp: mb_moves_def)

lemma mb_moves_trans_Nil [trans]: "mb_moves [] s t \<Longrightarrow> mb_moves B t u \<Longrightarrow> mb_moves B s u"
  using mb_moves_trans [of "[]"] by simp

text \<open>What an operation has to keep when it leaves the parked packets alone.\<close>

lemma mb_movesI:
  assumes "flow_moves [] B (mb_flow s) (mb_flow s')" "tx_pktids s' = tx_pktids s"
    and "pktids_wf (rx_pktids s) \<longrightarrow> pktids_wf (rx_pktids s')"
    and "ring_reachable (ctl_submit s) \<longrightarrow> ring_reachable (ctl_submit s')"
    and "ring_reachable (rxpost_submit s) \<longrightarrow> ring_reachable (rxpost_submit s')"
    and "length (flow_rings s') = length (flow_rings s)" "length (outstanding_tx s') = length (outstanding_tx s)"
    and "length (flow_map s') = length (flow_map s)" "length (txstatus_done_map s') = length (txstatus_done_map s)"
    and "ap_ifs s' = ap_ifs s"
  shows "mb_moves B s s'"
  using assms by (auto simp: mb_moves_def flow_moves_def msgbuf_wf_def no_forwarding_def tx_total_def ac_simps)

lemmas moves_simps = flow_moves_refl set_mb_ring_def add_outstanding_def

lemma ring_put_reachable: "ring_put x rg = (ok, rg') \<Longrightarrow> ring_reachable rg \<Longrightarrow> ring_reachable rg'"
  by (cases rule: ring_put_cases [of x rg]) (auto intro: ring_reachable.step)

lemma ring_publish_reachable: "ring_publish rg = (res, rg') \<Longrightarrow> ring_reachable rg \<Longrightarrow> ring_reachable rg'"
  by (rule ring_publish_cases [of rg]) (auto intro: ring_reachable.step)

subsection \<open>Operations on flows keep it\<close>

lemma remove_flowring_moves: "brcmf_msgbuf_remove_flowring f s = Some s' \<Longrightarrow> mb_moves [] s s'"
  by (auto simp: brcmf_msgbuf_remove_flowring_def split: bind_splits intro!: mb_movesI dest: delete_moves)

lemma send_flow_request_moves:
  assumes "send_flow_request d x f s = Some (b, s')"
  shows "mb_moves [] s s'"
proof -
  obtain ok c where p: "ring_put x (ctl_submit s) = (ok, c)" by fastforce
  obtain err c' where q: "ring_publish c = (err, c')" by fastforce
  have c: "mb_moves [] s (s\<lparr>ctl_submit := c\<rparr>)" "mb_moves [] s (s\<lparr>ctl_submit := c'\<rparr>)"
    using ring_put_reachable [OF p] ring_publish_reachable [OF q] by (auto intro!: mb_movesI simp: flow_moves_refl)
  have "s' = s\<lparr>ctl_submit := c'\<rparr> \<or> brcmf_msgbuf_remove_flowring f (s\<lparr>ctl_submit := c\<rparr>) = Some s'
      \<or> brcmf_msgbuf_remove_flowring f (s\<lparr>ctl_submit := c'\<rparr>) = Some s'"
    using assms p q by (auto simp: send_flow_request_def Let_def split: if_splits sum.splits)
  then show ?thesis using c remove_flowring_moves mb_moves_trans_Nil by blast
qed

lemma create_worker_moves:
  assumes "brcmf_msgbuf_flowring_create_worker env w s = Some (v, s')"
  shows "mb_moves [] s s'"
proof (cases "dma_alloc env (nalloc s)")
  case None
  then show ?thesis using assms
    by (auto simp: brcmf_msgbuf_flowring_create_worker_def Let_def split: if_splits bind_splits
        intro!: mb_movesI dest: delete_moves)
next
  case (Some bh)
  obtain b h where bh: "bh = (b, h)" by fastforce
  let ?f = "unat (w_flowid w)"
  define Y where "Y rg = (set_mb_ring ?f rg (s\<lparr>nalloc := nalloc s + 1,
    flowring_dma_handle := (flowring_dma_handle s)[?f := h]\<rparr>))" for rg
  have Y: "mb_moves [] s (Y rg)" for rg by (intro mb_movesI) (simp_all add: Y_def moves_simps)
  obtain rg d x y where "send_flow_request d x (ucast (w_flowid w)) (Y rg) = Some (y, s')"
    using assms Some bh by (auto simp: brcmf_msgbuf_flowring_create_worker_def Y_def Let_def split: if_splits bind_splits)
  then show ?thesis using Y send_flow_request_moves mb_moves_trans_Nil by blast
qed


lemma flowring_worker_loop_moves:
  assumes "flowring_worker_loop env s = Some s'"
  shows "mb_moves [] s s'"
proof (rule flowring_worker_loop.raw_induct [OF _ assms])
  fix loop env s s'
  assume IH: "\<And>env s s'. loop env s = Some s' \<Longrightarrow> mb_moves [] s s'"
    and res: "(case brcmf_msgbuf_dequeue_work s of (None, s) \<Rightarrow> Some s | (Some create, s) \<Rightarrow>
      Option.bind (brcmf_msgbuf_flowring_create_worker env create s) (\<lambda>(_, s). loop env s)) = Some s'"
  have deq: "mb_moves [] s (s\<lparr>work_queue := ws\<rparr>)" for ws by (intro mb_movesI) (simp_all add: flow_moves_refl)
  show "mb_moves [] s s'"
  proof (cases "work_queue s")
    case Nil
    with res show ?thesis by (simp add: brcmf_msgbuf_dequeue_work_def mb_moves_refl)
  next
    case (Cons w ws)
    then obtain v t where w: "brcmf_msgbuf_flowring_create_worker env w (s\<lparr>work_queue := ws\<rparr>) = Some (v, t)"
      and t: "loop env t = Some s'"
      using res by (auto simp: brcmf_msgbuf_dequeue_work_def split: bind_splits)
    show ?thesis by (rule mb_moves_trans_Nil [OF deq mb_moves_trans_Nil [OF create_worker_moves [OF w] IH [OF t]]])
  qed
qed

lemma flowring_worker_moves: "brcmf_msgbuf_flowring_worker env s = Some s' \<Longrightarrow> mb_moves [] s s'"
proof -
  have "mb_moves [] s (s\<lparr>flowring_work := False\<rparr>)" by (intro mb_movesI) (simp_all add: flow_moves_refl)
  then show "brcmf_msgbuf_flowring_worker env s = Some s' \<Longrightarrow> mb_moves [] s s'"
    unfolding brcmf_msgbuf_flowring_worker_def using flowring_worker_loop_moves mb_moves_trans_Nil by blast
qed

lemma flowring_create_moves:
  assumes "brcmf_msgbuf_flowring_create env ifx p s = Some (v, s')"
  shows "mb_moves [] s s'"
  using assms create_moves [of "alloc_ok env (Suc (nalloc s))" "mb_flow s" "h_dest (skb_data s p)"
      "ucast (skb_priority s p)" "of_int ifx"]
  by (auto simp: brcmf_msgbuf_flowring_create_def Let_def flow_moves_refl split: if_splits bind_splits intro!: mb_movesI)

lemma schedule_txdata_moves: "brcmf_msgbuf_schedule_txdata f force s = Some s' \<Longrightarrow> mb_moves [] s s'"
  by (auto simp: brcmf_msgbuf_schedule_txdata_def Let_def flow_moves_refl split: if_splits intro!: mb_movesI)

lemma mb_enqueue_moves:
  "brcmf_flowring_enqueue f p (mb_flow s) = Some (n, flow) \<Longrightarrow> mb_moves [p] s (s\<lparr>mb_flow := flow\<rparr>)"
  by (intro mb_movesI) (simp_all add: enqueue_moves)

lemma tx_queue_data_moves:
  assumes "brcmf_msgbuf_tx_queue_data env ifx p s = Some (res, s')"
  shows "mb_moves (case res of Inr _ \<Rightarrow> [p] | Inl _ \<Rightarrow> []) s s'"
proof -
  obtain v where v: "brcmf_flowring_lookup (mb_flow s) (h_dest (skb_data s p)) (ucast (skb_priority s p)) (of_int ifx) = Some v"
    using assms by (auto simp: brcmf_msgbuf_tx_queue_data_def split: bind_splits)
  show ?thesis
  proof (cases "v = BRCMF_FLOWRING_INVALID_ID")
    case True
    then obtain w t where c: "brcmf_msgbuf_flowring_create env ifx p s = Some (w, t)"
      using assms v by (auto simp: brcmf_msgbuf_tx_queue_data_def split: bind_splits)
    have "w = BRCMF_FLOWRING_INVALID_ID \<and> res = Inl ENOMEM \<and> s' = t
        \<or> (\<exists>n flow. brcmf_flowring_enqueue (ucast w) p (mb_flow t) = Some (n, flow) \<and> res = Inr () \<and> s' = t\<lparr>mb_flow := flow\<rparr>)"
      using assms v True c by (auto simp: brcmf_msgbuf_tx_queue_data_def split: bind_splits if_splits)
    then show ?thesis using flowring_create_moves [OF c] mb_enqueue_moves mb_moves_trans_Nil by fastforce
  next
    case False
    then obtain n flow where "brcmf_flowring_enqueue (ucast v) p (mb_flow s) = Some (n, flow)" "res = Inr ()"
      "brcmf_msgbuf_schedule_txdata v (n mod BRCMF_MSGBUF_TRICKLE_TXWORKER_THRS = 0) (s\<lparr>mb_flow := flow\<rparr>) = Some s'"
      using assms v by (auto simp: brcmf_msgbuf_tx_queue_data_def Let_def split: bind_splits)
    then show ?thesis using mb_moves_trans [OF mb_enqueue_moves schedule_txdata_moves] by fastforce
  qed
qed

lemma publish_flow_moves: "publish_flow f s = Some s' \<Longrightarrow> mb_moves [] s s'"
  by (auto simp: publish_flow_def moves_simps split: bind_splits intro!: mb_movesI)

lemma txflow_one_moves:
  assumes "txflow_one env f s = Some (b, s')"
  shows "mb_moves [] s s'"
proof -
  obtain q fl where d: "brcmf_flowring_dequeue f (mb_flow s) = Some (q, fl)"
    using assms by (auto simp: txflow_one_def split: bind_splits)
  note dm = dequeue_moves [OF d]
  show ?thesis
  proof (cases q)
    case None
    with assms d dm show ?thesis by (auto simp: txflow_one_def intro!: mb_movesI)
  next
    case (Some p)
    obtain res ids where al: "brcmf_msgbuf_alloc_pktid (dma_map env p) p ETH_HLEN (tx_pktids s) = (res, ids)" by fastforce
    show ?thesis
    proof (cases res)
      case (Inl e)
      then obtain fl' where ri: "brcmf_flowring_reinsert f p fl = Some fl'" "s' = s\<lparr>mb_flow := fl', tx_pktids := ids\<rparr>"
        using assms d Some al by (auto simp: txflow_one_def split: bind_splits)
      moreover have "ids = tx_pktids s" using al Inl alloc_pktid_fail by blast
      moreover have "flow_moves [] [] (mb_flow s) fl'"
        using dm reinsert_moves [OF ri(1)] Some by (auto simp: flow_moves_def)
      ultimately show ?thesis by (intro mb_movesI) simp_all
    next
      case (Inr r)
      obtain addr i where "r = (addr, i)" by fastforce
      with Inr al have al: "brcmf_msgbuf_alloc_pktid (dma_map env p) p ETH_HLEN (tx_pktids s) = (Inr (addr, i), ids)" by simp
      obtain q2 ids2 where g: "brcmf_msgbuf_get_pktid i ids = (q2, ids2)" by fastforce
      obtain rg where s': "s' = add_outstanding (unat f) 1 (set_mb_ring (unat f) rg (s\<lparr>mb_flow := fl, tx_pktids := ids\<rparr>))
        \<or> (\<exists>fl'. brcmf_flowring_reinsert f p fl = Some fl' \<and>
             s' = (set_mb_ring (unat f) rg (s\<lparr>mb_flow := fl, tx_pktids := ids\<rparr>))\<lparr>tx_pktids := ids2, mb_flow := fl'\<rparr>)"
        using assms d Some al g
        by (auto simp: txflow_one_def Let_def set_mb_ring_def split: bind_splits if_splits prod.splits)
      have posted: "msgbuf_wf s \<longrightarrow> flow_total fl + mset (brcmf_msgbuf_release_array ids) = tx_total s \<and> pktids_wf ids"
        using dm alloc_release [OF _ al] alloc_pktid_ok(5) [OF _ al] Some
        by (auto simp: msgbuf_wf_def tx_total_def flow_moves_def)
      have undone: "msgbuf_wf s \<longrightarrow> flow_total fl' + mset (brcmf_msgbuf_release_array ids2) = tx_total s \<and> pktids_wf ids2
          \<and> (flow_inv fl \<longrightarrow> flow_inv fl') \<and> length (rings fl') = length (rings fl)"
        if "brcmf_flowring_reinsert f p fl = Some fl'" for fl'
        using posted get_release(1) [of ids i q2 ids2, symmetric] get_release(2) [of ids i q2 ids2] g alloc_get_pktid(1) [OF _ al] reinsert_moves [OF that]
        by (auto simp: msgbuf_wf_def flow_moves_def)
      show ?thesis using s' posted undone dm unfolding mb_moves_def
        by (auto simp: msgbuf_wf_def no_forwarding_def tx_total_def moves_simps flow_moves_def)
    qed
  qed
qed

lemma txflow_loop_moves:
  assumes "txflow_loop env f c s = Some r"
  shows "mb_moves [] s (snd r)"
proof (rule txflow_loop.raw_induct [OF _ assms])
  fix loop env f c s r
  assume IH: "\<And>env f c s r. loop env f c s = Some r \<Longrightarrow> mb_moves [] s (snd r)"
    and res: "Option.bind (brcmf_flowring_qlen f (mb_flow s)) (\<lambda>qlen.
       if qlen = 0 then Some (c, s)
       else Option.bind (txflow_one env f s) (\<lambda>(go, s).
         if \<not> go then Some (c, s)
         else if c + 1 \<ge> BRCMF_MSGBUF_TX_FLUSH_CNT2
         then Option.bind (publish_flow f s) (\<lambda>s. loop env f 0 s)
         else loop env f (c + 1) s)) = Some r"
  obtain n where n: "brcmf_flowring_qlen f (mb_flow s) = Some n" using res by (auto split: bind_splits)
  show "mb_moves [] s (snd r)"
  proof (cases "n = 0")
    case True
    with n res show ?thesis using mb_moves_refl by auto
  next
    case False
    then obtain b t where o: "txflow_one env f s = Some (b, t)" using n res by (auto split: bind_splits)
    have "r = (c, t) \<or> (\<exists>u. publish_flow f t = Some u \<and> loop env f 0 u = Some r) \<or> loop env f (c + 1) t = Some r"
      using res n False o by (auto split: bind_splits if_splits)
    then show ?thesis using txflow_one_moves [OF o] IH publish_flow_moves mb_moves_trans_Nil
      by (metis snd_conv)
  qed
qed

lemma txflow_moves: "brcmf_msgbuf_txflow env f s = Some s' \<Longrightarrow> mb_moves [] s s'"
proof -
  assume a: "brcmf_msgbuf_txflow env f s = Some s'"
  obtain rg where rg: "mb_ring (unat f) s = Some rg" using a by (auto simp: brcmf_msgbuf_txflow_def split: bind_splits)
  define t where "t = set_mb_ring (unat f) (snd (ring_room rg)) s"
  have t: "mb_moves [] s t" by (intro mb_movesI) (simp_all add: t_def moves_simps)
  have "s' = t \<or> (\<exists>c u. txflow_loop env f 64 t = Some (c, u) \<and> (s' = u \<or> publish_flow f u = Some s'))"
    using a rg by (auto simp: brcmf_msgbuf_txflow_def t_def Let_def split: bind_splits if_splits prod.splits)
  then show ?thesis using t txflow_loop_moves publish_flow_moves mb_moves_trans_Nil by (metis snd_conv)
qed

lemma txflow_bits_moves: "txflow_bits env fs s = Some s' \<Longrightarrow> mb_moves [] s s'"
proof (induction fs arbitrary: s)
  case Nil
  then show ?case by (simp add: mb_moves_refl)
next
  case (Cons f fs)
  let ?t = "s\<lparr>flow_map := (flow_map s)[f := False]\<rparr>"
  have t: "mb_moves [] s ?t" by (intro mb_movesI) (simp_all add: flow_moves_refl)
  from Cons.prems consider "txflow_bits env fs s = Some s'"
    | u where "brcmf_msgbuf_txflow env (of_nat f) ?t = Some u" "txflow_bits env fs u = Some s'"
    by (auto split: if_splits bind_splits)
  then show ?case
  proof cases
    case (2 u)
    then show ?thesis by (rule mb_moves_trans_Nil [OF t mb_moves_trans_Nil [OF txflow_moves Cons.IH]])
  qed (rule Cons.IH)
qed

lemma txflow_worker_moves: "brcmf_msgbuf_txflow_worker env s = Some s' \<Longrightarrow> mb_moves [] s s'"
proof -
  have "mb_moves [] s (s\<lparr>txflow_work := False\<rparr>)" by (intro mb_movesI) (simp_all add: flow_moves_refl)
  then show "brcmf_msgbuf_txflow_worker env s = Some s' \<Longrightarrow> mb_moves [] s s'"
    unfolding brcmf_msgbuf_txflow_worker_def using txflow_bits_moves mb_moves_trans_Nil by blast
qed

lemma txstatus_moves:
  assumes "brcmf_msgbuf_process_txstatus buf s = Some s'"
  shows "mb_moves [] s s'"
proof -
  obtain i r where i: "le32_at 4 buf = Some i" "le16_at 10 buf = Some r"
    using assms by (auto simp: brcmf_msgbuf_process_txstatus_def split: bind_splits)
  obtain q ids where g: "brcmf_msgbuf_get_pktid (i - 1) (tx_pktids s) = (q, ids)" by fastforce
  have "msgbuf_wf s \<longrightarrow> mset (brcmf_msgbuf_release_array ids) + mset (slot_list q) = mset (brcmf_msgbuf_release_array (tx_pktids s))
      \<and> pktids_wf ids"
    using get_release [OF _ g] by (simp add: msgbuf_wf_def)
  moreover have "flow_inv (mb_flow s) \<longrightarrow> flow_inv ((mb_flow s)\<lparr>finalized := x\<rparr>)" for x
    using same_table_wf [of "mb_flow s" "(mb_flow s)\<lparr>finalized := x\<rparr>"]
    by (auto simp: flow_inv_def stop_ok_def blocked_on_def same_table_def)
  ultimately show ?thesis using assms i g unfolding mb_moves_def
    by (cases q) (auto simp: brcmf_msgbuf_process_txstatus_def Let_def msgbuf_wf_def no_forwarding_def tx_total_def flow_total_def
        add_outstanding_def ac_simps split: if_splits)
qed


lemma wait_outstanding_moves:
  assumes "\<And>t. mb_moves [] t (sleep t)"
  shows "mb_moves [] s (snd (wait_outstanding n sleep f s))"
proof (induction n arbitrary: s)
  case (Suc n)
  then show ?case using mb_moves_trans_Nil [OF assms Suc] by (simp add: mb_moves_refl)
qed (simp add: mb_moves_refl)

lemma delete_flowring_moves:
  assumes "\<And>t. mb_moves [] t (sleep t)" "brcmf_msgbuf_delete_flowring sleep f s = Some s'"
  shows "mb_moves [] s s'"
proof -
  define a where "a = s\<lparr>mb_flow := upd_ring f (\<lambda>r. r\<lparr>status := RING_CLOSING\<rparr>) (mb_flow s)\<rparr>"
  define b where "b = snd (wait_outstanding BRCMF_MAX_TXSTATUS_WAIT_RETRIES sleep (unat f) a)"
  define c where "c = (if \<not> fst (wait_outstanding BRCMF_MAX_TXSTATUS_WAIT_RETRIES sleep (unat f) a)
    then b\<lparr>outstanding_tx := (outstanding_tx b)[unat f := 0]\<rparr> else b)"
  have "mb_moves [] s a" by (intro mb_movesI) (simp_all add: a_def status_moves)
  moreover have "mb_moves [] a b" unfolding b_def using assms(1) by (rule wait_outstanding_moves)
  moreover have "mb_moves [] b c" by (intro mb_movesI) (simp_all add: c_def flow_moves_refl)
  moreover have "brcmf_msgbuf_remove_flowring f c = Some s' \<or> (\<exists>d x y. send_flow_request d x f c = Some (y, s'))"
    using assms(2)
    by (auto simp: brcmf_msgbuf_delete_flowring_def a_def b_def c_def case_prod_beta Let_def split: if_splits)
  then have "mb_moves [] c s'" using remove_flowring_moves send_flow_request_moves by blast
  ultimately show ?thesis by (meson mb_moves_trans_Nil)
qed

lemma delete_matching_moves:
  assumes "\<And>t. mb_moves [] t (sleep t)"
  shows "delete_matching sleep P is s = Some s' \<Longrightarrow> mb_moves [] s s'"
proof (induction "is" arbitrary: s)
  case (Cons i "is")
  have "delete_matching sleep P is s = Some s' \<or>
      (\<exists>t. brcmf_msgbuf_delete_flowring sleep (h_flowid (hash (mb_flow s) ! i)) s = Some t \<and> delete_matching sleep P is t = Some s')"
    using Cons.prems by (auto simp: Let_def split: if_splits option.splits bind_splits)
  then show ?case using Cons.IH delete_flowring_moves [OF assms] mb_moves_trans_Nil by blast
qed (simp add: mb_moves_refl)

lemma mode_peer_moves:
  assumes "\<And>t. mb_moves [] t (sleep t)"
  shows "brcmf_flowring_configure_addr_mode sleep ifx m s = Some s' \<Longrightarrow> mb_moves [] s s'"
    and "brcmf_flowring_delete_peer sleep ifx peer s = Some s' \<Longrightarrow> mb_moves [] s s'"
    and "mb_moves [] s (brcmf_msgbuf_add_tdls_peer env peer s)"
proof -
  have fl: "flow_moves [] [] flow (flow\<lparr>addr_mode := (addr_mode flow)[ifx := m]\<rparr>)"
    "flow_moves [] [] flow (remove_tdls_peer peer flow)" "flow_moves [] [] flow (brcmf_flowring_add_tdls_peer b peer flow)" for flow b
    using flow_step_inv [OF flow_step.set_mode [of flow ifx m]] flow_step_inv [OF flow_step.del_peer [of flow peer]]
      flow_step_inv [OF flow_step.add_peer [of flow b peer]]
    by (auto simp: flow_moves_def flow_total_def remove_tdls_peer_def brcmf_flowring_add_tdls_peer_def Let_def)
  have mode: "mb_moves [] t (t\<lparr>mb_flow := (mb_flow t)\<lparr>addr_mode := (addr_mode (mb_flow t))[ifx := m]\<rparr>\<rparr>)"
    and peer: "mb_moves [] t (t\<lparr>mb_flow := remove_tdls_peer peer (mb_flow t)\<rparr>)" for t
    by (intro mb_movesI; simp add: fl)+
  show "mb_moves [] s s'" if "brcmf_flowring_configure_addr_mode sleep ifx m s = Some s'"
    using that mode delete_matching_moves [OF assms] mb_moves_trans_Nil mb_moves_refl
    by (fastforce simp: brcmf_flowring_configure_addr_mode_def split: if_splits bind_splits)
  show "mb_moves [] s s'" if "brcmf_flowring_delete_peer sleep ifx peer s = Some s'"
    using that peer delete_matching_moves [OF assms] mb_moves_trans_Nil
    by (fastforce simp: brcmf_flowring_delete_peer_def Let_def split: if_splits bind_splits)
  show "mb_moves [] s (brcmf_msgbuf_add_tdls_peer env peer s)"
    by (intro mb_movesI) (simp_all add: brcmf_msgbuf_add_tdls_peer_def fl)
qed

subsection \<open>Reception keeps it\<close>

lemma rx_core_more:
  assumes "rx_core s' = rx_core s"
  shows "flow_rings s' = flow_rings s" "outstanding_tx s' = outstanding_tx s" "flow_map s' = flow_map s"
    "txstatus_done_map s' = txstatus_done_map s" "ap_ifs s' = ap_ifs s"
  using arg_cong [OF assms, of flow_rings] arg_cong [OF assms, of outstanding_tx]
    arg_cong [OF assms, of flow_map] arg_cong [OF assms, of txstatus_done_map] arg_cong [OF assms, of ap_ifs]
  by (simp_all add: rx_core_def)

lemma rx_core_moves: "rx_core s' = rx_core s \<Longrightarrow> pktids_wf (rx_pktids s') \<Longrightarrow> mb_moves [] s s'"
  by (rule mb_movesI) (simp_all add: rx_core_more [of s' s] rx_core_fields [of s' s] flow_moves_refl)

lemma post_bufs_core:
  assumes "pktids_wf (rx_pktids s)" "ring_reachable rg" "good_mk mk" "post_bufs cnt (fill_bufs env len mk) rg s = (i, rg', u)"
  shows "ring_reachable rg' \<and> pktids_wf (rx_pktids u) \<and> rx_core u = rx_core s"
proof -
  have len: "length (fst (fill_bufs env len mk n s)) \<le> n" for n
    using fill_bufs_spec [OF assms(1,3), of env len n] by (metis prod.collapse)
  from assms(2,4) len show ?thesis
  proof (cases rule: post_bufs_spec)
    case 1
    then show ?thesis using assms(1) by simp
  next
    case (2 msgs n)
    then show ?thesis using fill_bufs_spec [OF assms(1,3) 2(1)] by blast
  qed
qed

lemma data_post_moves: "brcmf_msgbuf_rxbuf_data_post env cnt s = (i, t) \<Longrightarrow> mb_moves [] s t"
  and ctrl_post_moves: "brcmf_msgbuf_rxbuf_ctrl_post env b cnt s = (i, t) \<Longrightarrow> mb_moves [] s t"
proof -
  have ring: "mb_moves [] u (u\<lparr>rxpost_submit := rg\<rparr>)" "mb_moves [] u (u\<lparr>ctl_submit := rg\<rparr>)" if "ring_reachable rg" for u rg
    using that by (intro mb_movesI; simp add: flow_moves_refl)+
  show "mb_moves [] s t" if post: "brcmf_msgbuf_rxbuf_data_post env cnt s = (i, t)"
  proof (cases "msgbuf_wf s")
    case True
    obtain rg u where p: "post_bufs cnt (fill_bufs env BRCMF_MSGBUF_MAX_PKT_SIZE rx_bufpost_msg) (rxpost_submit s) s = (i, rg, u)"
      "t = u\<lparr>rxpost_submit := rg\<rparr>"
      using post by (auto simp: brcmf_msgbuf_rxbuf_data_post_def split: prod.splits)
    with post_bufs_core [OF _ _ good_mk_rx(1) p(1)] True show ?thesis
      using mb_moves_trans_Nil [OF rx_core_moves ring(1)] by (auto simp: msgbuf_wf_def)
  qed (simp add: mb_moves_def)
  show "mb_moves [] s t" if post: "brcmf_msgbuf_rxbuf_ctrl_post env b cnt s = (i, t)"
  proof (cases "msgbuf_wf s")
    case True
    obtain rg u where p: "post_bufs cnt (fill_bufs env BRCMF_MSGBUF_MAX_CTL_PKT_SIZE (ctrl_bufpost_msg b)) (ctl_submit s) s = (i, rg, u)"
      "t = u\<lparr>ctl_submit := rg\<rparr>"
      using post by (auto simp: brcmf_msgbuf_rxbuf_ctrl_post_def split: prod.splits)
    with post_bufs_core [OF _ _ good_mk_rx(2) p(1)] True show ?thesis
      using mb_moves_trans_Nil [OF rx_core_moves ring(2)] by (auto simp: msgbuf_wf_def)
  qed (simp add: mb_moves_def)
qed


text \<open>Fields that play no part.\<close>

lemma rx_fields_moves:
  "mb_moves [] s (s\<lparr>rxbufpost := x\<rparr>)" "mb_moves [] s (s\<lparr>cur_ioctlrespbuf := x\<rparr>)" "mb_moves [] s (s\<lparr>cur_eventbuf := x\<rparr>)"
  "mb_moves [] s (mb_free_skb p s)" "mb_moves [] s (set_skb_data q d s)" "mb_moves [] s (rx_enqueue q s)"
  "mb_moves [] s (s\<lparr>fw_events := e\<rparr>)" "mb_moves [] s (s\<lparr>mb_data := m\<rparr>)"
  "mb_moves [] s (s\<lparr>rx_complete := r\<rparr>)" "mb_moves [] s (s\<lparr>tx_complete := r\<rparr>)" "mb_moves [] s (s\<lparr>ctl_complete := r\<rparr>)"
  "mb_moves [] s (brcmf_msgbuf_schedule_rxdata b s)" "mb_moves [] s (brcmf_msgbuf_rx_worker s)"
  "mb_moves [] s (s\<lparr>txstatus_done_map := (txstatus_done_map s)[f := False]\<rparr>)"
  by (intro mb_movesI; simp add: flow_moves_refl mb_free_skb_def set_skb_data_def rx_enqueue_def brcmf_msgbuf_schedule_rxdata_def
      brcmf_msgbuf_rx_worker_def brcmf_msgbuf_rx_def split: option.split)+

lemma mb_moves_snoc: "mb_moves [] t u \<Longrightarrow> mb_moves B s t \<Longrightarrow> mb_moves B s u"
  using mb_moves_trans [of B s t "[]" u] by simp

lemmas moves_ext = rx_fields_moves [THEN mb_moves_snoc]

lemma fill_loop_moves:
  assumes "rxbuf_fill_loop env n s = Some s'"
  shows "mb_moves [] s s'"
proof (rule rxbuf_fill_loop.raw_induct [OF _ assms])
  fix loop env n s s'
  assume IH: "\<And>env n s s'. loop env n s = Some s' \<Longrightarrow> mb_moves [] s s'"
    and res: "(if n = 0 then Some s
      else case brcmf_msgbuf_rxbuf_data_post env n s of
        (retcount, s) \<Rightarrow>
          if retcount = 0 then Some s
          else loop env (n - retcount) (s\<lparr>rxbufpost := rxbufpost s + retcount\<rparr>)) = Some s'"
  obtain i t where p: "brcmf_msgbuf_rxbuf_data_post env n s = (i, t)" by fastforce
  have "s' = s \<or> s' = t \<or> loop env (n - i) (t\<lparr>rxbufpost := rxbufpost t + i\<rparr>) = Some s'"
    using res p by (auto split: if_splits)
  then show "mb_moves [] s s'"
    using data_post_moves [OF p] mb_moves_refl IH mb_moves_trans_Nil [OF _ mb_moves_trans_Nil [OF rx_fields_moves(1)]]
    by metis
qed

lemma update_rxbufpost_moves: "brcmf_msgbuf_update_rxbufpost_count env n s = Some s' \<Longrightarrow> mb_moves [] s s'"
  using mb_moves_trans_Nil [OF rx_fields_moves(1) fill_loop_moves] rx_fields_moves(1)
  by (auto simp: brcmf_msgbuf_update_rxbufpost_count_def brcmf_msgbuf_rxbuf_data_fill_def Let_def split: if_splits)

lemma ioctlresp_post_moves: "mb_moves [] s (brcmf_msgbuf_rxbuf_ioctlresp_post env s)"
  and event_post_moves: "mb_moves [] s (brcmf_msgbuf_rxbuf_event_post env s)"
  using mb_moves_trans_Nil [OF ctrl_post_moves rx_fields_moves(2)] mb_moves_trans_Nil [OF ctrl_post_moves rx_fields_moves(3)]
  by (auto simp: brcmf_msgbuf_rxbuf_ioctlresp_post_def brcmf_msgbuf_rxbuf_event_post_def split: prod.split)

lemma ioctl_complete_moves:
  assumes "brcmf_msgbuf_process_ioctl_complete env buf s = Some s'"
  shows "mb_moves [] s s'"
proof -
  have resp: "mb_moves [] s (s\<lparr>ioctl_resp_status := a, ioctl_resp_ret_len := b, ioctl_resp_pktid := c, ctl_completed := True\<rparr>)"
    for a b c by (intro mb_movesI) (simp_all add: flow_moves_refl)
  show ?thesis
    using assms mb_moves_trans_Nil [OF resp ioctlresp_post_moves]
      mb_moves_trans_Nil [OF resp mb_moves_trans_Nil [OF rx_fields_moves(2) ioctlresp_post_moves]]
    by (auto simp: brcmf_msgbuf_process_ioctl_complete_def brcmf_msgbuf_ioctl_resp_wake_def Let_def
        split: bind_splits if_splits)
qed

lemma rx_taken_moves: "brcmf_msgbuf_get_pktid i (rx_pktids s) = (q, ids) \<Longrightarrow> mb_moves [] s (s\<lparr>rx_pktids := ids\<rparr>)"
  using get_release(2) by (intro mb_movesI) (auto simp: flow_moves_refl)

lemma event_moves:
  assumes "brcmf_msgbuf_process_event env buf s = Some s'"
  shows "mb_moves [] s s'"
proof -
  define t where "t = brcmf_msgbuf_rxbuf_event_post env
    (if cur_eventbuf s \<noteq> 0 then s\<lparr>cur_eventbuf := cur_eventbuf s - 1\<rparr> else s)"
  have t: "mb_moves [] s t" unfolding t_def
    using mb_moves_trans_Nil [OF rx_fields_moves(3) event_post_moves] event_post_moves by simp
  obtain i n where i: "le32_at 4 buf = Some i" "le16_at 12 buf = Some n"
    using assms by (auto simp: brcmf_msgbuf_process_event_def split: bind_splits)
  obtain q ids where g: "brcmf_msgbuf_get_pktid i (rx_pktids t) = (q, ids)" by fastforce
  have u: "mb_moves [] s (t\<lparr>rx_pktids := ids\<rparr>)" using mb_moves_trans_Nil [OF t rx_taken_moves [OF g]] .
  show ?thesis
  proof (cases q)
    case None
    then show ?thesis using assms i g u by (simp add: brcmf_msgbuf_process_event_def t_def [symmetric] Let_def)
  next
    case (Some p)
    then obtain d where "s' = mb_free_skb (Some p) (set_skb_data p d (t\<lparr>rx_pktids := ids\<rparr>))
        \<or> (\<exists>e. s' = mb_free_skb (Some p) ((set_skb_data p d (t\<lparr>rx_pktids := ids\<rparr>))\<lparr>fw_events := e\<rparr>))"
      using assms i g by (auto simp: brcmf_msgbuf_process_event_def t_def [symmetric] Let_def
          split: option.splits if_splits)
    then show ?thesis by (auto intro: moves_ext u)
  qed
qed


lemma flow_response_moves:
  "brcmf_msgbuf_process_flow_ring_create_response buf s = Some s' \<Longrightarrow> mb_moves [] s s'"
  "brcmf_msgbuf_process_flow_ring_delete_response buf s = Some s' \<Longrightarrow> mb_moves [] s s'"
proof -
  have open': "brcmf_flowring_open f (mb_flow s) = Some fl \<Longrightarrow> mb_moves [] s (s\<lparr>mb_flow := fl\<rparr>)" for f fl
    by (intro mb_movesI) (simp_all add: open_moves)
  have del: "brcmf_flowring_delete f (mb_flow s) = Some fl \<Longrightarrow> mb_moves [] s (s\<lparr>mb_flow := fl\<rparr>)" for f fl
    by (intro mb_movesI) (simp_all add: delete_moves)
  show "brcmf_msgbuf_process_flow_ring_create_response buf s = Some s' \<Longrightarrow> mb_moves [] s s'"
    using remove_flowring_moves mb_moves_trans_Nil [OF open' schedule_txdata_moves]
    by (auto simp: brcmf_msgbuf_process_flow_ring_create_response_def Let_def split: bind_splits if_splits)
  show "brcmf_msgbuf_process_flow_ring_delete_response buf s = Some s' \<Longrightarrow> mb_moves [] s s'"
    using remove_flowring_moves del
    by (auto simp: brcmf_msgbuf_process_flow_ring_delete_response_def Let_def split: bind_splits if_splits)
qed

lemma rx_complete_moves:
  assumes "brcmf_msgbuf_process_rx_complete env buf s = Some s'" "no_forwarding s"
  shows "mb_moves [] s s'"
proof (cases "msgbuf_wf s")
  case True
  obtain t where t: "brcmf_msgbuf_update_rxbufpost_count env 1 s = Some t"
    using assms(1) by (auto simp: brcmf_msgbuf_process_rx_complete_def split: bind_splits)
  note m = update_rxbufpost_moves [OF t]
  have nf: "no_forwarding t" using m True assms(2) by (simp add: mb_moves_def no_forwarding_def)
  obtain off n i fl where i: "le16_at 16 buf = Some off" "le16_at 14 buf = Some n" "le32_at 4 buf = Some i" "le16_at 18 buf = Some fl"
    using assms(1) t by (auto simp: brcmf_msgbuf_process_rx_complete_def split: bind_splits)
  obtain q ids where g: "brcmf_msgbuf_get_pktid i (rx_pktids t) = (q, ids)" by fastforce
  have u: "mb_moves [] s (t\<lparr>rx_pktids := ids\<rparr>)" using mb_moves_trans_Nil [OF m rx_taken_moves [OF g]] .
  have fwd: "ap_forward env ifp p (set_skb_data p d (t\<lparr>rx_pktids := ids\<rparr>)) = Some (False, set_skb_data p d (t\<lparr>rx_pktids := ids\<rparr>))"
    for ifp p d using nf by (auto simp: ap_forward_def no_forwarding_def set_skb_data_def Let_def)
  show ?thesis
  proof (cases q)
    case None
    then show ?thesis using assms(1) i g t u by (simp add: brcmf_msgbuf_process_rx_complete_def Let_def)
  next
    case (Some p)
    then show ?thesis
      using assms(1) i g t fwd
      by (auto simp: brcmf_msgbuf_process_rx_complete_def Let_def split: option.splits if_splits bind_splits
          intro!: moves_ext u)
  qed
qed (simp add: mb_moves_def)

lemma msgtype_moves:
  assumes "brcmf_msgbuf_process_msgtype env buf s = Some s'" "no_forwarding s"
  shows "mb_moves [] s s'"
  using assms flow_response_moves ioctl_complete_moves event_moves txstatus_moves rx_complete_moves rx_fields_moves(8)
    mb_moves_refl
  by (auto simp: brcmf_msgbuf_process_msgtype_def brcmf_msgbuf_process_d2h_mbdata_def split: if_splits bind_splits)


lemma process_items_moves:
  assumes "msgbuf_wf s" "no_forwarding s" "process_items env n b k rg s = Some (rg', s')"
  shows "mb_moves [] s s'"
  using assms
proof (induction n arbitrary: b k rg s)
  case (Suc n)
  obtain t where t: "brcmf_msgbuf_process_msgtype env (drop (unat (rx_dataoffset s)) (ring_mem rg b)) s = Some t"
    using Suc.prems(3) by (auto split: bind_splits)
  note m = msgtype_moves [OF t Suc.prems(2)]
  have "msgbuf_wf t" "no_forwarding t" using m Suc.prems(1,2) by (simp_all add: mb_moves_def no_forwarding_def)
  then have "mb_moves [] t s'" using Suc.prems(3) t Suc.IH by (auto simp: Let_def split: if_splits)
  with m show ?case by (rule mb_moves_trans_Nil)
qed (simp add: mb_moves_refl)

lemma process_rx_moves:
  assumes "brcmf_msgbuf_process_rx env rg s = Some r"
  shows "msgbuf_wf s \<longrightarrow> no_forwarding s \<longrightarrow> mb_moves [] s (snd r)"
proof (rule brcmf_msgbuf_process_rx.raw_induct [OF _ assms])
  fix rx env rg s r
  assume IH: "\<And>env rg s r. rx env rg s = Some r \<Longrightarrow> msgbuf_wf s \<longrightarrow> no_forwarding s \<longrightarrow> mb_moves [] s (snd r)"
    and res: "(case brcmf_commonring_get_read_ptr pcie_ops (dev rg, host rg) of ((buf, cnt), d, cr) \<Rightarrow>
          (case buf of
             None \<Rightarrow> Some (rg\<lparr>host := cr, dev := d\<rparr>, s)
           | Some a \<Rightarrow> Option.bind (process_items env (unat cnt) a 0 (rg\<lparr>host := cr, dev := d\<rparr>) s) (\<lambda>(rg, s).
                 if r_ptr (host rg) = 0 then rx env rg s else Some (rg, s)))) = Some r"
  show "msgbuf_wf s \<longrightarrow> no_forwarding s \<longrightarrow> mb_moves [] s (snd r)"
  proof (intro impI)
    assume wf: "msgbuf_wf s" "no_forwarding s"
    consider "snd r = s" | n a rg0 rg1 t where "process_items env n a 0 rg0 s = Some (rg1, t)"
        "rx env rg1 t = Some r \<or> snd r = t"
      using res by (auto split: prod.splits option.splits bind_splits if_splits)
    then show "mb_moves [] s (snd r)"
    proof cases
      case (2 n a rg0 rg1 t)
      note m = process_items_moves [OF wf 2(1)]
      have "msgbuf_wf t" "no_forwarding t" using m wf by (simp_all add: mb_moves_def no_forwarding_def)
      then have "mb_moves [] t (snd r)" using 2(2) IH [of env rg1 t r] mb_moves_refl [of t] by auto
      with m show ?thesis by (rule mb_moves_trans_Nil)
    qed (simp add: mb_moves_refl)
  qed
qed

lemma txstatus_bits_moves: "txstatus_bits fs s = Some s' \<Longrightarrow> mb_moves [] s s'"
proof (induction fs arbitrary: s)
  case (Cons f fs)
  let ?t = "s\<lparr>txstatus_done_map := (txstatus_done_map s)[f := False]\<rparr>"
  have "txstatus_bits fs s = Some s' \<or> txstatus_bits fs ?t = Some s' \<or>
      (\<exists>u. brcmf_msgbuf_schedule_txdata (of_nat f) True ?t = Some u \<and> txstatus_bits fs u = Some s')"
    using Cons.prems by (auto simp: Let_def split: if_splits bind_splits)
  then show ?case using Cons.IH rx_fields_moves(14) schedule_txdata_moves mb_moves_trans_Nil by metis
qed (simp add: mb_moves_refl)

lemma rx_trigger_moves:
  assumes "brcmf_proto_msgbuf_rx_trigger env s = Some s'"
  shows "mb_moves [] s s'"
proof (cases "msgbuf_wf s")
  case wf: True
  then have nf: "no_forwarding s" by (simp add: msgbuf_wf_def)
  have keep: "msgbuf_wf t \<and> no_forwarding t" if "mb_moves [] s t" for t
    using that wf by (simp add: mb_moves_def msgbuf_wf_def)
  obtain r1 t1 where t1: "brcmf_msgbuf_process_rx env (rx_complete s) s = Some (r1, t1)"
    using assms by (auto simp: brcmf_proto_msgbuf_rx_trigger_def split: bind_splits)
  define u1 where "u1 = brcmf_msgbuf_schedule_rxdata True (t1\<lparr>rx_complete := r1\<rparr>)"
  have m1: "mb_moves [] s u1" unfolding u1_def using process_rx_moves [OF t1] wf nf by (auto intro: moves_ext)
  obtain r2 t2 where t2: "brcmf_msgbuf_process_rx env (tx_complete u1) u1 = Some (r2, t2)"
    using assms t1 by (auto simp: brcmf_proto_msgbuf_rx_trigger_def u1_def Let_def split: bind_splits)
  define u2 where "u2 = t2\<lparr>tx_complete := r2\<rparr>"
  have m2: "mb_moves [] s u2" unfolding u2_def using process_rx_moves [OF t2] keep [OF m1] mb_moves_snoc [OF _ m1]
    by (auto intro: moves_ext)
  obtain r3 t3 where t3: "brcmf_msgbuf_process_rx env (ctl_complete u2) u2 = Some (r3, t3)"
    "txstatus_bits [0..<length (txstatus_done_map (t3\<lparr>ctl_complete := r3\<rparr>))] (t3\<lparr>ctl_complete := r3\<rparr>) = Some s'"
    using assms t1 t2 by (auto simp: brcmf_proto_msgbuf_rx_trigger_def u1_def u2_def Let_def split: bind_splits)
  have "mb_moves [] s (t3\<lparr>ctl_complete := r3\<rparr>)"
    using process_rx_moves [OF t3(1)] keep [OF m2] mb_moves_snoc [OF _ m2] by (auto intro: moves_ext)
  then show ?thesis using txstatus_bits_moves [OF t3(2)] mb_moves_snoc by blast
qed (simp add: mb_moves_def)


lemma delete_all_moves:
  assumes "\<And>t. mb_moves [] t (sleep t)"
  shows "delete_all sleep fs s = Some s' \<Longrightarrow> mb_moves [] s s'"
proof (induction fs arbitrary: s)
  case (Cons f fs)
  then show ?case using delete_flowring_moves [OF assms] mb_moves_trans_Nil
    by (fastforce split: if_splits bind_splits)
qed (simp add: mb_moves_refl)

lemma command_moves:
  "brcmf_msgbuf_tx_mbdata w s = (e, t) \<Longrightarrow> mb_moves [] s t"
  "brcmf_msgbuf_tx_ioctl ifx cmd buf len s = (e, t) \<Longrightarrow> mb_moves [] s t"
  "mb_moves [] s (s\<lparr>ctl_completed := b\<rparr>)"
  by (auto simp: brcmf_msgbuf_tx_mbdata_def brcmf_msgbuf_tx_ioctl_def Let_def flow_moves_refl
      split: prod.splits if_splits intro!: mb_movesI intro: ring_put_reachable ring_publish_reachable)

lemma query_dcmd_moves:
  assumes "brcmf_msgbuf_tx_ioctl ifx cmd buf len (s\<lparr>ctl_completed := False\<rparr>) = (Inr (), t)" "mb_moves B t u"
    "brcmf_msgbuf_query_dcmd (\<lambda>_. u) ifx cmd buf len s = Some (r, b, s')"
  shows "mb_moves B s s'"
proof -
  obtain q ids where g: "brcmf_msgbuf_get_pktid (ioctl_resp_pktid u) (rx_pktids u) = (q, ids)" by fastforce
  have "mb_moves [] s t" by (rule mb_moves_trans_Nil [OF command_moves(3) command_moves(2) [OF assms(1)]])
  then have su: "mb_moves B s u" using assms(2) by (rule mb_moves_trans_Nil)
  have id: "mb_moves B s (u\<lparr>rx_pktids := ids\<rparr>)" using rx_taken_moves [OF g] su by (rule mb_moves_snoc)
  then have fr: "mb_moves B s (mb_free_skb q (u\<lparr>rx_pktids := ids\<rparr>))" by (rule moves_ext)
  have "s' = u \<or> s' = u\<lparr>rx_pktids := ids\<rparr> \<or> s' = mb_free_skb q (u\<lparr>rx_pktids := ids\<rparr>)"
    using assms(1,3) g
    by (auto simp: brcmf_msgbuf_query_dcmd_def brcmf_msgbuf_ioctl_resp_wait_def Let_def split: if_splits option.splits)
  then show ?thesis using su id fr by blast
qed

subsection \<open>Everything that happens\<close>

text \<open>
  The runs of the protocol with the packets that were accepted for transmission: the calls of
  the stack, the workers, the interrupt, commands (whose wait is filled by any run), changes
  of peers and modes (whose sleeps are filled by runs that accept no packet), and what the
  device and the bus do to the rings at any time.
\<close>

inductive mb_run :: "msgbuf_env \<Rightarrow> brcmf_msgbuf \<Rightarrow> pkt list \<Rightarrow> brcmf_msgbuf \<Rightarrow> bool" for env where
  idle: "mb_run env s [] s"
| seq: "mb_run env s A t \<Longrightarrow> mb_run env t B u \<Longrightarrow> mb_run env s (A @ B) u"
| transmit: "brcmf_msgbuf_tx_queue_data env ifx p s = Some (Inr (), s') \<Longrightarrow> mb_run env s [p] s'"
| refused: "brcmf_msgbuf_tx_queue_data env ifx p s = Some (Inl e, s') \<Longrightarrow> mb_run env s [] s'"
| flow_work: "brcmf_msgbuf_flowring_worker env s = Some s' \<Longrightarrow> mb_run env s [] s'"
| tx_work: "brcmf_msgbuf_txflow_worker env s = Some s' \<Longrightarrow> mb_run env s [] s'"
| rx_work: "mb_run env s [] (brcmf_msgbuf_rx_worker s)"
| interrupt: "brcmf_proto_msgbuf_rx_trigger env s = Some s' \<Longrightarrow> mb_run env s [] s'"
| mailbox: "brcmf_msgbuf_tx_mbdata w s = (e, s') \<Longrightarrow> mb_run env s [] s'"
| not_sent: "brcmf_msgbuf_tx_ioctl ifx cmd buf len (s\<lparr>ctl_completed := False\<rparr>) = (Inl e, s') \<Longrightarrow> mb_run env s [] s'"
| command: "brcmf_msgbuf_tx_ioctl ifx cmd buf len (s\<lparr>ctl_completed := False\<rparr>) = (Inr (), t) \<Longrightarrow> mb_run env t A u \<Longrightarrow>
    brcmf_msgbuf_query_dcmd (\<lambda>_. u) ifx cmd buf len s = Some (r, b, s') \<Longrightarrow> mb_run env s A s'"
| mode: "(\<And>t. mb_run env t [] (sleep t)) \<Longrightarrow> brcmf_msgbuf_configure_addr_mode sleep i m s = Some s' \<Longrightarrow> mb_run env s [] s'"
| del_peer: "(\<And>t. mb_run env t [] (sleep t)) \<Longrightarrow> brcmf_msgbuf_delete_peer sleep i peer s = Some s' \<Longrightarrow> mb_run env s [] s'"
| add_peer: "mb_run env s [] (brcmf_msgbuf_add_tdls_peer env peer s)"
| packets: "mb_run env s [] (s\<lparr>skb_data := d, skb_priority := pr\<rparr>)"
| bus: "mb_run env s [] (s\<lparr>bus_up := v\<rparr>)"
| dev_ctl: "ring_step (ctl_submit s) c \<Longrightarrow> mb_run env s [] (s\<lparr>ctl_submit := c\<rparr>)"
| dev_rxpost: "ring_step (rxpost_submit s) c \<Longrightarrow> mb_run env s [] (s\<lparr>rxpost_submit := c\<rparr>)"
| dev_flow: "mb_run env s [] (set_mb_ring f c s)"
| dev_completions: "mb_run env s [] (s\<lparr>rx_complete := r1, tx_complete := r2, ctl_complete := r3\<rparr>)"

lemma mb_run_moves: "mb_run env s A s' \<Longrightarrow> mb_moves A s s'"
proof (induction rule: mb_run.induct)
  case (seq s A t B u)
  then show ?case by (intro mb_moves_trans)
next
  case (transmit ifx p s s')
  then show ?case using tx_queue_data_moves by fastforce
next
  case (refused ifx p s e s')
  then show ?case using tx_queue_data_moves by fastforce
next
  case (not_sent ifx cmd buf len s e s')
  then show ?case using mb_moves_trans_Nil [OF command_moves(3) command_moves(2)] by blast
next
  case (mode sleep i m s s')
  then show ?case
    by (intro mode_peer_moves(1) [of sleep i m s s']) (simp_all add: brcmf_msgbuf_configure_addr_mode_def)
next
  case (del_peer sleep i peer s s')
  then show ?case
    by (intro mode_peer_moves(2) [of sleep i peer s s']) (simp_all add: brcmf_msgbuf_delete_peer_def)
next
  case (add_peer s peer)
  show ?case by (rule mode_peer_moves(3) [OF mb_moves_refl])
next
  case (dev_ctl s c)
  then show ?case by (intro mb_movesI) (auto simp: flow_moves_refl intro: ring_reachable.step)
next
  case (dev_rxpost s c)
  then show ?case by (intro mb_movesI) (auto simp: flow_moves_refl intro: ring_reachable.step)
next
  case (packets s d pr)
  show ?case by (intro mb_movesI) (simp_all add: flow_moves_refl)
next
  case (bus s v)
  show ?case by (intro mb_movesI) (simp_all add: flow_moves_refl)
next
  case (dev_flow s f c)
  show ?case by (intro mb_movesI) (simp_all add: moves_simps)
next
  case (dev_completions s r1 r2 r3)
  show ?case by (intro mb_movesI) (simp_all add: flow_moves_refl)
qed (auto intro: flowring_worker_moves txflow_worker_moves rx_fields_moves rx_trigger_moves command_moves query_dcmd_moves
  mb_moves_refl)

subsection \<open>Attaching and detaching\<close>

text \<open>What the bus hands over.\<close>

record brcmf_bus_msgbuf =
  bus_h2d :: "h2d_msg ring_sys \<times> h2d_msg ring_sys"
  bus_d2h :: "u8 list ring_sys \<times> u8 list ring_sys \<times> u8 list ring_sys"
  bus_flowrings :: "h2d_msg ring_sys list"
  bus_max_flowrings :: u16
  bus_rx_dataoffset :: u32
  bus_max_rxbufpost :: u32

abbreviation (input) NR_TX_PKTIDS :: u32 where "NR_TX_PKTIDS \<equiv> 2048"
abbreviation (input) NR_RX_PKTIDS :: u32 where "NR_RX_PKTIDS \<equiv> 1024"

definition msgbuf_fresh ::
    "brcmf_bus_msgbuf \<Rightarrow> (nat \<Rightarrow> brcmf_if option) \<Rightarrow> (nat \<Rightarrow> brcmf_if_ap) \<Rightarrow> nat \<Rightarrow> brcmf_msgbuf" where
  "msgbuf_fresh b ifs aps handle =
     (let n = (if unat (bus_max_flowrings b) \<ge> BRCMF_FLOWRING_HASHSIZE then of_nat (BRCMF_FLOWRING_HASHSIZE - 1) else bus_max_flowrings b)
      in \<lparr>ctl_submit = fst (bus_h2d b), rxpost_submit = snd (bus_h2d b), rx_complete = fst (bus_d2h b),
          tx_complete = fst (snd (bus_d2h b)), ctl_complete = snd (snd (bus_d2h b)),
          flow_rings = take (unat n) (bus_flowrings b), outstanding_tx = replicate (unat n) 0,
          flowring_dma_handle = replicate (unat n) 0, rx_dataoffset = ucast (bus_rx_dataoffset b),
          max_rxbufpost = bus_max_rxbufpost b, rx_metadata_offset = 0, rxbufpost = 0,
          max_ioctlrespbuf = 8, cur_ioctlrespbuf = 0, max_eventbuf = 8, cur_eventbuf = 0,
          ioctbuf = replicate (unat BRCMF_TX_IOCTL_MAX_MSG_SIZE) 0, ioctbuf_handle = handle,
          ioctl_resp_status = 0, ioctl_resp_ret_len = 0, ioctl_resp_pktid = 0, reqid = 0, ctl_completed = False,
          tx_pktids = brcmf_msgbuf_init_pktids NR_TX_PKTIDS, rx_pktids = brcmf_msgbuf_init_pktids NR_RX_PKTIDS,
          mb_flow = brcmf_flowring_attach n ifs, flow_map = replicate (unat n) False,
          txstatus_done_map = replicate (unat n) False, work_queue = [], rx_data_q = [],
          flowring_work = False, txflow_work = False, rx_work = False, bus_up = True, ap_ifs = aps, mon_if = None,
          feat_fmt_radiotap = False, feat_fmt_hw_rx_hdr = False, skb_data = (\<lambda>_. []), skb_priority = (\<lambda>_. 0),
          nalloc = 0, dma_freed = [], freed_skbs = [], fw_events = [], rx_frames = [], mb_data = []\<rparr>)"

text \<open>Up to ten rounds of filling, with a sleep after each that did not suffice.\<close>

fun attach_fill :: "nat \<Rightarrow> msgbuf_env \<Rightarrow> (brcmf_msgbuf \<Rightarrow> brcmf_msgbuf) \<Rightarrow> brcmf_msgbuf \<Rightarrow> brcmf_msgbuf option" where
  "attach_fill 0 env sleep s = Some s"
| "attach_fill (Suc n) env sleep s =
     Option.bind (brcmf_msgbuf_rxbuf_data_fill env s) (\<lambda>s.
       if max_rxbufpost s \<noteq> rxbufpost s then attach_fill n env sleep (sleep s) else Some s)"

text \<open>
  \<open>alloc\<close> is whether all of the allocations succeed; where one fails, everything is freed.
\<close>

definition brcmf_proto_msgbuf_attach ::
    "msgbuf_env \<Rightarrow> bool \<Rightarrow> (brcmf_msgbuf \<Rightarrow> brcmf_msgbuf) \<Rightarrow> brcmf_bus_msgbuf \<Rightarrow> (nat \<Rightarrow> brcmf_if option)
      \<Rightarrow> (nat \<Rightarrow> brcmf_if_ap) \<Rightarrow> nat \<Rightarrow> (errno + brcmf_msgbuf) option" where
  "brcmf_proto_msgbuf_attach env alloc sleep b ifs aps handle =
     (if \<not> alloc then Some (Inl ENOMEM)
      else do {
        s \<leftarrow> attach_fill 10 env sleep (msgbuf_fresh b ifs aps handle);
        Some (Inr (brcmf_msgbuf_rxbuf_ioctlresp_post env (brcmf_msgbuf_rxbuf_event_post env s)))
      })"

definition brcmf_msgbuf_release_pktids :: "brcmf_msgbuf \<Rightarrow> brcmf_msgbuf" where
  "brcmf_msgbuf_release_pktids s =
     s\<lparr>freed_skbs := freed_skbs s @ brcmf_msgbuf_release_array (rx_pktids s) @ brcmf_msgbuf_release_array (tx_pktids s)\<rparr>"

text \<open>The state as it is when the memory is given back.\<close>

definition brcmf_proto_msgbuf_detach :: "(brcmf_msgbuf \<Rightarrow> brcmf_msgbuf) \<Rightarrow> brcmf_msgbuf \<Rightarrow> brcmf_msgbuf option" where
  "brcmf_proto_msgbuf_detach sleep s = do {
     s \<leftarrow> brcmf_flowring_detach sleep (s\<lparr>flowring_work := False, work_queue := []\<rparr>);
     Some (brcmf_msgbuf_release_pktids s)
   }"


lemma init_pktids_released: "brcmf_msgbuf_release_array (brcmf_msgbuf_init_pktids n) = []"
  by (simp add: brcmf_msgbuf_release_array_def brcmf_msgbuf_init_pktids_def filter_empty_conv)

lemma fresh_wf:
  assumes "ring_reachable (fst (bus_h2d b))" "ring_reachable (snd (bus_h2d b))" "ifs_running ifs"
    "unat (bus_max_flowrings b) \<le> length (bus_flowrings b)" "\<And>i. \<not> (isap (aps i) \<and> fmac_pkt_fwd_en (aps i))"
  shows "msgbuf_wf (msgbuf_fresh b ifs aps handle)" "tx_total (msgbuf_fresh b ifs aps handle) = {#}"
    "length (rings (mb_flow (msgbuf_fresh b ifs aps handle))) = min (unat (bus_max_flowrings b)) 511"
proof -
  define n where "n = (if unat (bus_max_flowrings b) \<ge> BRCMF_FLOWRING_HASHSIZE then of_nat (BRCMF_FLOWRING_HASHSIZE - 1) else bus_max_flowrings b)"
  have n: "unat n < 512" "unat n \<le> length (bus_flowrings b)" "unat n = min (unat (bus_max_flowrings b)) 511"
    using assms(4) by (auto simp: n_def)
  have rings: "rings (brcmf_flowring_attach n ifs) = replicate (unat n) None" "finalized (brcmf_flowring_attach n ifs) = []"
    by (simp_all add: brcmf_flowring_attach_def)
  show "msgbuf_wf (msgbuf_fresh b ifs aps handle)"
    using assms(1,2,5) n(1,2) flow_inv_attach [OF n(1) assms(3)] init_pktids_wf [of 2048] init_pktids_wf [of 1024] rings
    by (simp add: msgbuf_fresh_def n_def [symmetric] msgbuf_wf_def no_forwarding_def Let_def)
  show "tx_total (msgbuf_fresh b ifs aps handle) = {#}"
    using rings by (simp add: msgbuf_fresh_def n_def [symmetric] tx_total_def flow_total_def ring_pkts_def
        init_pktids_released Let_def)
  show "length (rings (mb_flow (msgbuf_fresh b ifs aps handle))) = min (unat (bus_max_flowrings b)) 511"
    using rings n(3) by (simp add: msgbuf_fresh_def n_def [symmetric] Let_def)
qed

text \<open>
  C2: In every run of the protocol, whatever the stack, the workers, commands in the middle of
  their wait, the device and the bus do, the state stays well formed and no packet that was
  accepted for transmission is lost or doubled: those that wait in a flow, those parked for
  the device and those given back to the stack are the ones at the start and the accepted ones.
\<close>

theorem tx_packets_conserved:
  assumes "mb_run env s acc s'" "msgbuf_wf s"
  shows "msgbuf_wf s' \<and> tx_total s' = tx_total s + mset acc"
  using mb_run_moves [OF assms(1)] assms(2) by (simp add: mb_moves_def)

lemma attach_fill_spec:
  assumes "rx_ready s"
  shows "\<exists>s'. attach_fill n env (\<lambda>t. t) s = Some s' \<and> rx_ready s' \<and> mb_moves [] s s'"
  using assms
proof (induction n arbitrary: s)
  case (Suc n)
  obtain t msgs ps where t: "brcmf_msgbuf_rxbuf_data_fill env s = Some t" "rx_ready t"
    unfolding brcmf_msgbuf_rxbuf_data_fill_def using rxbuf_fill_loop_spec [OF Suc.prems refl, of env] by blast
  have "mb_moves [] s t" using t(1) fill_loop_moves by (simp add: brcmf_msgbuf_rxbuf_data_fill_def)
  then show ?case using t Suc.IH [OF t(2)] mb_moves_trans_Nil by auto
qed (simp add: mb_moves_refl)

lemma sample_finalized: "finalized sample_flowring = []"
proof -
  have "finalized flow' = finalized flow" if "brcmf_flowring_create al flow da prio i = Some (v, flow')" for al flow da prio i v flow'
    using that by (cases rule: flowring_create_cases) simp_all
  from this [OF sample_flowring_create] show ?thesis by (simp add: brcmf_flowring_attach_def)
qed

lemma sample_msgbuf_wf: "msgbuf_wf sample_msgbuf"
  using sample_flow2_inv init_pktids_wf [of 3] init_pktids_wf [of 8] sample_h2d_reachable
  by (simp add: msgbuf_wf_def no_forwarding_def sample_msgbuf_def sample_flow2_def)

lemma sample_total: "tx_total sample_msgbuf = {#7, 8#}"
  by (simp add: tx_total_def flow_total_def ring_pkts_def sample_msgbuf_def sample_flow2_def sample_finalized
      init_pktids_released)

theorem tx_packets_conserved_witness:
  "\<exists>s'. brcmf_msgbuf_tx_queue_data sample_env 0 9 sample_msgbuf = Some (Inr (), s') \<and> msgbuf_wf s' \<and>
     tx_total s' = {#7, 8, 9#}"
proof -
  have "h_ifidx (hash sample_flowring ! 2) = 0 \<and> h_fifo (hash sample_flowring ! 2) = 2 \<and> h_flowid (hash sample_flowring ! 2) = 0"
    by code_simp
  then have hit: "hash_search (key_match True [0, 0, 0, 0, 0, 0] 2 0) 2 sample_flow2 = Some 2" "h_flowid (hash sample_flow2 ! 2) = 0"
    by (auto intro!: hash_search_hit simp: key_match_def sample_flow2_def)
  have "flow_key sample_flow2 [0, 0, 0, 0, 0, 0] 5 0 = Some (True, [0, 0, 0, 0, 0, 0], 2, 2)" by code_simp
  with hit have "brcmf_flowring_lookup sample_flow2 [0, 0, 0, 0, 0, 0] 5 0 = Some 0"
    by (simp add: brcmf_flowring_lookup_def)
  moreover have "h_dest (replicate 60 0) = [0, 0, 0, 0, 0, 0]" by code_simp
  moreover have "brcmf_flowring_enqueue 0 9 sample_flow2 = Some (3, upd_ring 0 (\<lambda>r. r\<lparr>skblist := skblist r @ [9]\<rparr>) sample_flow2)"
    by (simp add: brcmf_flowring_enqueue_def ring_at_def sample_flow2_def)
  ultimately have "map_option fst (brcmf_msgbuf_tx_queue_data sample_env 0 9 sample_msgbuf) = Some (Inr ())"
    by (simp add: brcmf_msgbuf_tx_queue_data_def brcmf_msgbuf_schedule_txdata_def sample_msgbuf_def)
  then obtain s' where s': "brcmf_msgbuf_tx_queue_data sample_env 0 9 sample_msgbuf = Some (Inr (), s')" by auto
  with tx_packets_conserved [OF mb_run.transmit [OF s'] sample_msgbuf_wf] sample_total show ?thesis by auto
qed

text \<open>
  C32: Attaching the protocol to a bus whose rings have just been configured succeeds when the
  allocations do, however many receive buffers can be had, and leaves a well-formed state with
  no packet in it, the number of flows cut to what the table can hold.
\<close>

theorem attach_well_formed:
  assumes "ring_reachable (fst (bus_h2d b))" "ring_reachable (snd (bus_h2d b))" "ring_published (snd (bus_h2d b))"
    "ifs_running ifs" "unat (bus_max_flowrings b) \<le> length (bus_flowrings b)"
    "\<And>i. \<not> (isap (aps i) \<and> fmac_pkt_fwd_en (aps i))"
  shows "\<exists>s. brcmf_proto_msgbuf_attach env True (\<lambda>t. t) b ifs aps handle = Some (Inr s) \<and> msgbuf_wf s \<and> tx_total s = {#}
    \<and> length (flow_rings s) = min (unat (bus_max_flowrings b)) 511"
proof -
  let ?s0 = "msgbuf_fresh b ifs aps handle"
  note fresh = fresh_wf [OF assms(1,2,4,5,6), where handle = handle]
  have "rx_ready ?s0" using assms(2,3) init_pktids_wf [of 1024]
    by (simp add: rx_ready_def msgbuf_fresh_def Let_def)
  then obtain t where t: "attach_fill 10 env (\<lambda>t. t) ?s0 = Some t" "mb_moves [] ?s0 t"
    using attach_fill_spec by blast
  define s where "s = brcmf_msgbuf_rxbuf_ioctlresp_post env (brcmf_msgbuf_rxbuf_event_post env t)"
  have "mb_moves [] ?s0 s" unfolding s_def
    using t(2) event_post_moves ioctlresp_post_moves mb_moves_trans_Nil by blast
  then have "msgbuf_wf s" "tx_total s = {#}" "length (rings (mb_flow s)) = length (rings (mb_flow ?s0))"
    using fresh(1,2) by (simp_all add: mb_moves_def)
  then show ?thesis using t(1) fresh(3) by (simp add: brcmf_proto_msgbuf_attach_def s_def msgbuf_wf_def)
qed

definition sample_bus :: brcmf_bus_msgbuf where
  "sample_bus = \<lparr>bus_h2d = (sample_h2d, sample_h2d), bus_d2h = (sample_d2h, sample_d2h, sample_d2h),
     bus_flowrings = replicate 600 sample_h2d, bus_max_flowrings = 600, bus_rx_dataoffset = 0, bus_max_rxbufpost = 2\<rparr>"

theorem attach_well_formed_witness:
  "\<exists>s. brcmf_proto_msgbuf_attach sample_env True (\<lambda>t. t) sample_bus sample_ifs
       (\<lambda>_. \<lparr>isap = True, fmac_pkt_fwd_en = False, sta_list = []\<rparr>) 64 = Some (Inr s) \<and>
     msgbuf_wf s \<and> tx_total s = {#} \<and> length (flow_rings s) = 511"
proof -
  have "ring_published sample_h2d" by code_simp
  then have "ring_reachable (fst (bus_h2d sample_bus))" "ring_reachable (snd (bus_h2d sample_bus))"
    "ring_published (snd (bus_h2d sample_bus))" "unat (bus_max_flowrings sample_bus) \<le> length (bus_flowrings sample_bus)"
    using sample_h2d_reachable by (simp_all add: sample_bus_def)
  from attach_well_formed [OF this(1-3) sample_ifs_running this(4), of "\<lambda>_. \<lparr>isap = True, fmac_pkt_fwd_en = False, sta_list = []\<rparr>" sample_env 64]
  show ?thesis by (simp add: sample_bus_def)
qed

end
