(* ===== verification/Msgbuf_Limits.thy ===== *)
theory Msgbuf_Limits
  imports Msgbuf
begin

section \<open>The message-buffer protocol at its limits\<close>

text \<open>
  What happens when the bus goes down under the protocol, when the flows are used up and when
  the ids of packets are used up.
\<close>

subsection \<open>Detaching from a dead bus\<close>

lemma wait_still: "snd (wait_outstanding n (\<lambda>t. t) f s) = s"
  by (induction n) auto

lemma delete_flowring_down:
  assumes "\<not> bus_up s" "msgbuf_wf s" "ring_at f (mb_flow s) = Some r"
  shows "\<exists>s'. brcmf_msgbuf_delete_flowring (\<lambda>t. t) f s = Some s' \<and> rings (mb_flow s') = (rings (mb_flow s))[unat f := None]
    \<and> \<not> bus_up s' \<and> freed_skbs s' = freed_skbs s \<and> rx_pktids s' = rx_pktids s \<and> tx_pktids s' = tx_pktids s"
proof -
  note f = ring_atD [OF assms(3)]
  have len: "unat f < length (flow_rings s)" using assms(2) f(1) by (simp add: msgbuf_wf_def)
  define fl where "fl = upd_ring f (\<lambda>r. r\<lparr>status := RING_CLOSING\<rparr>) (mb_flow s)"
  have at: "ring_at f fl = Some (r\<lparr>status := RING_CLOSING\<rparr>)" unfolding fl_def using assms(3) by (simp add: ring_at_upd_ring)
  obtain fl' where fl': "brcmf_flowring_block f False fl = Some fl'"
    "rings fl' = (rings fl)[unat f := Some (r\<lparr>status := RING_CLOSING, ring_blocked := False\<rparr>)]" "finalized fl' = finalized fl"
    using flowring_block_fields [OF at] by auto
  obtain fd where fd: "brcmf_flowring_delete f fl = Some fd" "rings fd = (rings (mb_flow s))[unat f := None]"
    using ring_atD [OF at] fl' rings_upd_ring [OF assms(3)]
    by (simp add: brcmf_flowring_delete_def Let_def fl_def)
  have "brcmf_msgbuf_delete_flowring (\<lambda>t. t) f s = brcmf_msgbuf_remove_flowring f
      (if \<not> fst (wait_outstanding BRCMF_MAX_TXSTATUS_WAIT_RETRIES (\<lambda>t. t) (unat f) (s\<lparr>mb_flow := fl\<rparr>))
       then s\<lparr>mb_flow := fl, outstanding_tx := (outstanding_tx s)[unat f := 0]\<rparr> else s\<lparr>mb_flow := fl\<rparr>)"
    using assms(1,3) len by (simp add: brcmf_msgbuf_delete_flowring_def case_prod_beta Let_def wait_still fl_def)
  with fd len show ?thesis using assms(1) by (simp add: brcmf_msgbuf_remove_flowring_def mb_ring_def)
qed

lemma delete_all_down:
  assumes "\<not> bus_up s" "msgbuf_wf s" "\<forall>f\<in>set fs. f < length (rings (mb_flow s))"
  shows "\<exists>s'. delete_all (\<lambda>t. t) fs s = Some s' \<and> (\<forall>f\<in>set fs. rings (mb_flow s') ! f = None)
    \<and> (\<forall>f<length (rings (mb_flow s)). rings (mb_flow s) ! f = None \<longrightarrow> rings (mb_flow s') ! f = None)
    \<and> freed_skbs s' = freed_skbs s \<and> rx_pktids s' = rx_pktids s \<and> tx_pktids s' = tx_pktids s"
  using assms
proof (induction fs arbitrary: s)
  case (Cons f fs)
  note wf = flow_wf_lengths [of "mb_flow s"]
  show ?case
  proof (cases "rings (mb_flow s) ! f")
    case None
    with Cons show ?thesis by fastforce
  next
    case (Some r)
    have f: "f < length (rings (mb_flow s))" "f < 512" using Cons.prems wf by (auto simp: msgbuf_wf_def flow_inv_def)
    then have u: "unat (of_nat f :: u16) = f" by (simp add: unat_of_nat_le [of f 512])
    have at: "ring_at (of_nat f) (mb_flow s) = Some r" using f u Some by (simp add: ring_at_def)
    obtain t where t: "brcmf_msgbuf_delete_flowring (\<lambda>t. t) (of_nat f) s = Some t"
      "rings (mb_flow t) = (rings (mb_flow s))[f := None]" "\<not> bus_up t" "freed_skbs t = freed_skbs s"
      "rx_pktids t = rx_pktids s" "tx_pktids t = tx_pktids s"
      using delete_flowring_down [OF Cons.prems(1,2) at] u by auto
    have "msgbuf_wf t" using delete_flowring_moves [OF mb_moves_refl t(1)] Cons.prems(2) by (simp add: mb_moves_def)
    then obtain s' where s': "delete_all (\<lambda>t. t) fs t = Some s'" "\<forall>f\<in>set fs. rings (mb_flow s') ! f = None"
      "\<forall>f<length (rings (mb_flow t)). rings (mb_flow t) ! f = None \<longrightarrow> rings (mb_flow s') ! f = None"
      "freed_skbs s' = freed_skbs t" "rx_pktids s' = rx_pktids t" "tx_pktids s' = tx_pktids t"
      using Cons.IH [OF t(3)] Cons.prems(3) t(2) by auto
    have "\<forall>g<length (rings (mb_flow s)). g = f \<or> rings (mb_flow s) ! g = None \<longrightarrow> rings (mb_flow s') ! g = None"
    proof (intro allI impI)
      fix g
      assume "g < length (rings (mb_flow s))" "g = f \<or> rings (mb_flow s) ! g = None"
      with s'(3) t(2) f(1) show "rings (mb_flow s') ! g = None" by (cases "g = f") auto
    qed
    with s' t f Some show ?thesis by auto
  qed
qed simp

text \<open>
  When the bus is down and nothing runs any more, detaching succeeds: no flow is left, the
  packets that waited in flows are given back to the stack, the packets parked for the device
  and the buffers posted to it are freed, and all of them are accounted for.
\<close>

theorem detach_returns_packets:
  assumes "\<not> bus_up s" "msgbuf_wf s"
  shows "\<exists>s'. brcmf_proto_msgbuf_detach (\<lambda>t. t) s = Some s' \<and> set (rings (mb_flow s')) \<subseteq> {None}
    \<and> mset (finalized (mb_flow s')) = flow_total (mb_flow s)
    \<and> freed_skbs s' = freed_skbs s @ brcmf_msgbuf_release_array (rx_pktids s) @ brcmf_msgbuf_release_array (tx_pktids s)"
proof -
  define s0 where "s0 = s\<lparr>flowring_work := False, work_queue := []\<rparr>"
  have wf: "msgbuf_wf s0" "\<not> bus_up s0" using assms by (simp_all add: s0_def msgbuf_wf_def no_forwarding_def)
  obtain t where t: "delete_all (\<lambda>t. t) [0..<length (rings (mb_flow s0))] s0 = Some t"
    "\<forall>f\<in>set [0..<length (rings (mb_flow s0))]. rings (mb_flow t) ! f = None"
    "freed_skbs t = freed_skbs s0" "rx_pktids t = rx_pktids s0" "tx_pktids t = tx_pktids s0"
    using delete_all_down [OF wf(2,1), of "[0..<length (rings (mb_flow s0))]"] by auto
  have m: "tx_total t = tx_total s0" "length (rings (mb_flow t)) = length (rings (mb_flow s0))"
    using delete_all_moves [OF mb_moves_refl t(1)] wf(1) by (simp_all add: mb_moves_def)
  have none: "set (rings (mb_flow t)) \<subseteq> {None}" using t(2) m(2) by (auto simp: in_set_conv_nth)
  then have "mset (concat (map ring_pkts (rings (mb_flow t)))) = {#}" by (auto simp: ring_pkts_def)
  then have "mset (finalized (mb_flow t)) = flow_total (mb_flow s)"
    using m(1) t(5) by (simp only: tx_total_def flow_total_def s0_def) simp
  with t none show ?thesis
    by (simp add: brcmf_proto_msgbuf_detach_def s0_def [symmetric] brcmf_flowring_detach_def brcmf_msgbuf_release_pktids_def)
      (simp add: s0_def)
qed

lemma sample_down: "msgbuf_wf (sample_msgbuf\<lparr>bus_up := False\<rparr>)" "\<not> bus_up (sample_msgbuf\<lparr>bus_up := False\<rparr>)"
  using sample_msgbuf_wf by (simp_all add: msgbuf_wf_def no_forwarding_def)

theorem detach_returns_packets_witness:
  "\<exists>s'. brcmf_proto_msgbuf_detach (\<lambda>t. t) (sample_msgbuf\<lparr>bus_up := False\<rparr>) = Some s' \<and>
     mset (finalized (mb_flow s')) = {#7, 8#}"
proof -
  have "flow_total (mb_flow (sample_msgbuf\<lparr>bus_up := False\<rparr>)) = {#7, 8#}"
    by (simp add: flow_total_def ring_pkts_def sample_msgbuf_def sample_flow2_def sample_finalized)
  with detach_returns_packets [OF sample_down(2,1)] show ?thesis by auto
qed

subsection \<open>When all flows are in use\<close>

lemma free_entry:
  assumes "flow_wf flow"
  shows "\<exists>k<512. entry_free (hash flow ! k)"
proof (rule ccontr)
  assume none: "\<not> ?thesis"
  define g where "g i = (case rings flow ! i of None \<Rightarrow> 0 | Some r \<Rightarrow> hash_id r)" for i
  have "{..<512} \<subseteq> g ` {..<length (rings flow)}"
  proof
    fix k :: nat
    assume "k \<in> {..<512}"
    then obtain i r where "i < length (rings flow)" "rings flow ! i = Some r" "hash_id r = k"
      using assms none unfolding flow_wf_def by blast
    then show "k \<in> g ` {..<length (rings flow)}" by (intro image_eqI [of _ _ i]) (simp_all add: g_def)
  qed
  from card_mono [OF _ this] have "512 \<le> card (g ` {..<length (rings flow)})" by simp
  also have "\<dots> \<le> length (rings flow)" using card_image_le [of "{..<length (rings flow)}" g] by simp
  finally show False using flow_wf_lengths [OF assms] by simp
qed

text \<open>
  When every flow is in use, a packet for a destination without a flow makes the driver
  read outside the array of flows: the table has a free entry, so that creating the flow fails
  with the number of an error, and the caller, which knows no failure but the invalid id,
  takes that number for a flow and queues the packet there.
\<close>

theorem tx_full_table_out_of_bounds:
  assumes "msgbuf_wf s" "None \<notin> set (rings (mb_flow s))" "alloc_ok env (nalloc s)"
    and "brcmf_flowring_lookup (mb_flow s) (h_dest (skb_data s p)) (ucast (skb_priority s p)) (of_int ifx)
      = Some BRCMF_FLOWRING_INVALID_ID"
  shows "brcmf_msgbuf_tx_queue_data env ifx p s = None"
proof -
  have wf: "flow_wf (mb_flow s)" using assms(1) by (simp add: msgbuf_wf_def flow_inv_def)
  obtain sta mac fifo start where key:
    "flow_key (mb_flow s) (h_dest (skb_data s p)) (ucast (skb_priority s p)) (of_int ifx) = Some (sta, mac, fifo, start)"
    using assms(4) by (auto simp: brcmf_flowring_lookup_def split: option.splits)
  obtain k where k: "hash_search entry_free start (mb_flow s) = Some k"
    using free_entry [OF wf] hash_search_None [of entry_free start "mb_flow s"] by auto
  have "first_index (\<lambda>i. rings (mb_flow s) ! i = None) (length (rings (mb_flow s))) = None"
    using assms(2) by (auto simp: first_index_None in_set_conv_nth)
  with key k have "brcmf_flowring_create b (mb_flow s) (h_dest (skb_data s p)) (ucast (skb_priority s p)) (of_int ifx)
      = Some (- 12, mb_flow s)" for b
    by (simp add: brcmf_flowring_create_def)
  moreover have "brcmf_flowring_enqueue (ucast (- 12 :: u32)) p fl = None" if "length (rings fl) < 512" for fl
    using that by (simp add: brcmf_flowring_enqueue_def ring_at_def)
  ultimately show ?thesis using assms(3,4) flow_wf_lengths [OF wf]
    by (simp add: brcmf_msgbuf_tx_queue_data_def brcmf_msgbuf_flowring_create_def Let_def)
qed

lemma sample_full:
  obtains flow where "flow_inv flow" "None \<notin> set (rings flow)" "length (rings flow) = 1"
    "brcmf_flowring_lookup flow [0, 0, 0, 0, 0, 0] 0 0 = Some BRCMF_FLOWRING_INVALID_ID"
proof -
  let ?create = "brcmf_flowring_create True (brcmf_flowring_attach 1 sample_ifs) sample_peer 5 0"
  have "map_option fst ?create = Some 0" by code_simp
  then obtain flow where flow: "?create = Some (0, flow)" by auto
  have "flow_inv flow" using flow_inv_create [OF flow_inv_attach [OF _ sample_ifs_running, of 1] flow] by simp
  moreover from flow obtain k mac fifo start where "rings flow = [Some \<lparr>hash_id = k, ring_blocked = False, status = RING_CLOSED, skblist = []\<rparr>]"
    "hash flow = (hash (brcmf_flowring_attach 1 sample_ifs))[k := \<lparr>h_mac = mac, h_fifo = fifo, h_ifidx = 0, h_flowid = 0\<rparr>]"
    "k < 512" "fifo = 2" "addr_mode flow = replicate 16 ADDR_INDIRECT" "tdls_active flow = False"
  proof (cases rule: flowring_create_cases)
    case (2 sta mac fifo start k i)
    have "flow_key (brcmf_flowring_attach 1 sample_ifs) sample_peer 5 0 = Some (True, sample_peer, 2, 2)" by code_simp
    with 2(1) have "fifo = 2" by simp
    moreover have "i = 0" using 2(3) by (simp add: brcmf_flowring_attach_def)
    ultimately show ?thesis using 2(6) hash_searchD(1) [OF 2(2)] by (intro that [of k mac fifo]) (simp_all add: brcmf_flowring_attach_def)
  qed simp
  moreover from this have "hash_search (key_match True [0, 0, 0, 0, 0, 0] 0 0) 0 flow = None"
    by (simp add: hash_search_None key_match_def nth_list_update brcmf_flowring_attach_def)
  ultimately show ?thesis
    by (intro that [of flow]) (simp_all add: brcmf_flowring_lookup_def flow_key_def brcmf_flowring_prio2fifo_def)
qed

theorem tx_full_table_out_of_bounds_witness:
  "\<exists>flow. brcmf_flowring_lookup flow [0, 0, 0, 0, 0, 0] 0 0 = Some BRCMF_FLOWRING_INVALID_ID \<and>
     brcmf_msgbuf_tx_queue_data sample_env 0 9 (sample_msgbuf\<lparr>mb_flow := flow, flow_rings := [sample_h2d],
       outstanding_tx := [0], flow_map := [False], txstatus_done_map := [False], skb_priority := (\<lambda>_. 0)\<rparr>) = None"
proof -
  obtain flow where flow: "flow_inv flow" "None \<notin> set (rings flow)" "length (rings flow) = 1"
    "brcmf_flowring_lookup flow [0, 0, 0, 0, 0, 0] 0 0 = Some BRCMF_FLOWRING_INVALID_ID" by (rule sample_full)
  let ?s = "sample_msgbuf\<lparr>mb_flow := flow, flow_rings := [sample_h2d], outstanding_tx := [0], flow_map := [False],
    txstatus_done_map := [False], skb_priority := (\<lambda>_. 0)\<rparr>"
  have "msgbuf_wf ?s" using sample_msgbuf_wf flow by (simp add: msgbuf_wf_def no_forwarding_def)
  moreover have "h_dest (skb_data ?s 9) = [0, 0, 0, 0, 0, 0]" by code_simp
  ultimately show ?thesis using tx_full_table_out_of_bounds [of ?s sample_env 9 0] flow
    by (intro exI [of _ flow]) (simp add: sample_env_def)
qed

subsection \<open>When all ids are in use\<close>

lemma txflow_bits_skip:
  "\<forall>f\<in>set fs. \<not> flow_map s ! f \<Longrightarrow> txflow_bits env (fs @ gs) s = txflow_bits env gs s"
  by (induction fs) auto

lemma txflow_bits_clear: "\<forall>f\<in>set fs. \<not> flow_map s ! f \<Longrightarrow> txflow_bits env fs s = Some s"
  using txflow_bits_skip [of fs s env "[]"] by simp

text \<open>
  When the worker finds every id in use it leaves the packets of the flow where they are,
  but has cleared the mark of the flow and asks for no other run: with no packet of the flow at
  the device, whose report would mark it again, the flow stands still until the stack sends
  another packet on it.
\<close>

theorem tx_stall_without_ids:
  assumes "tx_ready f s" "length (waiting f (mb_flow s)) < 2 ^ 32" "unat f < length (flow_map s)"
    and "flow_map s = (replicate (length (flow_map s)) False)[unat f := True]"
    and "\<forall>i<array_size (tx_pktids s). pid_slot (tx_pktids s) i \<noteq> None"
  shows "\<exists>s'. brcmf_msgbuf_txflow_worker env s = Some s' \<and> waiting f (mb_flow s') = waiting f (mb_flow s)
    \<and> flow_map s' = replicate (length (flow_map s)) False \<and> \<not> txflow_work s' \<and> outstanding_tx s' = outstanding_tx s"
proof -
  define n where "n = length (flow_map s)"
  define s0 where "s0 = s\<lparr>txflow_work := False, flow_map := replicate n False\<rparr>"
  have at: "flow_map s ! g \<longleftrightarrow> g = unat f" if "g < n" for g
    by (subst assms(4)) (use that n_def assms(3) in \<open>simp add: nth_list_update\<close>)
  have s0: "tx_ready f s0" "waiting f (mb_flow s0) = waiting f (mb_flow s)" "tx_pktids s0 = tx_pktids s"
    "outstanding_tx s0 = outstanding_tx s" "flow_map s0 = replicate n False" "\<not> txflow_work s0"
    using assms(1) by (simp_all add: s0_def tx_ready_def)
  obtain s' ids posted where s': "brcmf_msgbuf_txflow env f s0 = Some s'" "tx_posted env f s0 s' ids posted"
    using txflow_spec [OF s0(1), of env] assms(2) s0(2) by auto
  have "ids = []"
  proof (cases ids)
    case (Cons i "is")
    with s'(2) obtain p ps where "posted = p # ps" by (cases posted) (auto simp: tx_posted_def)
    with s'(2) s0(3) Cons have "pid_slot (tx_pktids s) i = None" "i \<notin> set is"
      "pid_slot (tx_pktids s') = (pid_slot (tx_pktids s))(i \<mapsto> p, is [\<mapsto>] ps)"
      "array_size (tx_pktids s') = array_size (tx_pktids s)"
      by (simp_all add: tx_posted_def)
    then have "pid_slot (tx_pktids s') i = Some p" by (simp add: map_upds_apply_nontin)
    then have "i < array_size (tx_pktids s)" using \<open>array_size (tx_pktids s') = array_size (tx_pktids s)\<close>
      by (simp add: pid_slot_def split: if_splits)
    with \<open>pid_slot (tx_pktids s) i = None\<close> assms(5) show ?thesis by blast
  qed
  then have "posted = []" using s'(2) by (simp add: tx_posted_def)
  with s'(2) s0 have same: "waiting f (mb_flow s') = waiting f (mb_flow s)" "flow_map s' = replicate n False"
    "\<not> txflow_work s'" "outstanding_tx s' = outstanding_tx s"
    by (simp_all add: tx_posted_def)
  have split: "[0..<n] = [0..<unat f] @ unat f # [Suc (unat f)..<n]"
    using assms(3) n_def upt_add_eq_append [of 0 "unat f" "n - unat f"] upt_conv_Cons [of "unat f" n] by simp
  have cleared: "(flow_map s)[unat f := False] = replicate n False"
    by (subst assms(4)) (use assms(3) in \<open>simp add: n_def list_eq_iff_nth_eq nth_list_update\<close>)
  have "brcmf_msgbuf_txflow_worker env s = txflow_bits env (unat f # [Suc (unat f)..<n]) (s\<lparr>txflow_work := False\<rparr>)"
    unfolding brcmf_msgbuf_txflow_worker_def n_def [symmetric] split
    using at assms(3) n_def by (intro txflow_bits_skip) auto
  also have "\<dots> = Option.bind (brcmf_msgbuf_txflow env f s0) (txflow_bits env [Suc (unat f)..<n])"
    using at assms(3) n_def cleared by (simp add: s0_def)
  finally have "brcmf_msgbuf_txflow_worker env s = Some s'"
    using s'(1) same(2) by (simp add: txflow_bits_clear)
  with same n_def show ?thesis by auto
qed

definition sample_stalled :: brcmf_msgbuf where
  "sample_stalled = sample_msgbuf\<lparr>flow_map := [True, False, False, False], txflow_work := True,
     tx_pktids := \<lparr>array_size = 1, last_allocated_idx = 0,
       pid_array = [\<lparr>allocated = True, data_offset = 14, pid_skb = 3, physaddr = 67\<rparr>]\<rparr>\<rparr>"

theorem tx_stall_without_ids_witness:
  "\<exists>s'. brcmf_msgbuf_txflow_worker sample_env sample_stalled = Some s' \<and> waiting 0 (mb_flow s') = [7, 8] \<and>
     flow_map s' = [False, False, False, False] \<and> \<not> txflow_work s' \<and> outstanding_tx s' ! 0 = 0"
proof -
  have "tx_ready 0 sample_stalled" "waiting 0 (mb_flow sample_stalled) = [7, 8]"
    using sample_tx_ready by (simp_all add: tx_ready_def sample_stalled_def pktids_wf_def)
  moreover have "flow_map sample_stalled = (replicate (length (flow_map sample_stalled)) False)[unat (0 :: u16) := True]"
    "unat (0 :: u16) < length (flow_map sample_stalled)" "outstanding_tx sample_stalled ! 0 = 0"
    by (simp_all add: sample_stalled_def sample_msgbuf_def)
  moreover have "\<forall>i<array_size (tx_pktids sample_stalled). pid_slot (tx_pktids sample_stalled) i \<noteq> None"
    by (simp add: sample_stalled_def pid_slot_def)
  ultimately show ?thesis using tx_stall_without_ids [of 0 sample_stalled sample_env]
    by (auto simp: sample_stalled_def)
qed

end
