(* ===== verification/Memory.thy ===== *)
theory Memory
  imports Brcm_Prelude "HOL-Library.Monad_Syntax"
begin

section \<open>Bytes in memory\<close>

text \<open>
  Buffers are lists of bytes as long as the allocation. Reading and writing outside of them gives
  \<open>None\<close>: \<open>mem_at\<close> and \<open>buf_write\<close> are the accesses, \<open>str_prefix\<close>, \<open>str_chr\<close> and \<open>str_len\<close> the
  functions of the C library on strings. The lemmas say what they read of a buffer of known
  contents, and how counters kept as 32-bit words grow.
\<close>

subsection \<open>Strings in memory\<close>

definition chars :: "string \<Rightarrow> u8 list" where
  "chars s = map of_char s"

definition mem_at :: "u8 list \<Rightarrow> nat \<Rightarrow> u8 option" where
  "mem_at m i = (if i < length m then Some (m ! i) else None)"

definition bytes_at :: "u8 list \<Rightarrow> nat \<Rightarrow> nat \<Rightarrow> u8 list option" where
  "bytes_at m i n = (if i + n \<le> length m then Some (take n (drop i m)) else None)"

text \<open>Whether the memory at \<open>i\<close> begins with the characters of a literal (\<open>strncmp\<close> with its length).\<close>

fun str_prefix :: "u8 list \<Rightarrow> nat \<Rightarrow> u8 list \<Rightarrow> bool option" where
  "str_prefix m i [] = Some True"
| "str_prefix m i (c # cs) =
     (if i \<ge> length m then None else if m ! i \<noteq> c then Some False else str_prefix m (Suc i) cs)"

text \<open>\<open>strchr\<close> as an offset: the outer \<open>None\<close> when neither the character nor a NUL is met.\<close>

fun str_chr :: "u8 list \<Rightarrow> u8 \<Rightarrow> nat option option" where
  "str_chr [] c = None"
| "str_chr (x # xs) c =
     (if x = c then Some (Some 0) else if x = 0 then Some None else map_option (map_option Suc) (str_chr xs c))"

fun str_len :: "u8 list \<Rightarrow> nat option" where
  "str_len [] = None"
| "str_len (x # xs) = (if x = 0 then Some 0 else map_option Suc (str_len xs))"

definition buf_write :: "u8 list \<Rightarrow> nat \<Rightarrow> u8 list \<Rightarrow> u8 list option" where
  "buf_write m i bs = (if i + length bs \<le> length m then Some (take i m @ bs @ drop (i + length bs) m) else None)"

subsection \<open>Laws\<close>

lemma mem_at_Some [simp]: "i < length m \<Longrightarrow> mem_at m i = Some (m ! i)"
  by (simp add: mem_at_def)

lemma bytes_at_skip: "length xs \<le> i \<Longrightarrow> bytes_at (xs @ ys) i n = bytes_at ys (i - length xs) n"
  by (auto simp: bytes_at_def)

lemma bytes_at_here: "n = length xs \<Longrightarrow> bytes_at (xs @ ys) 0 n = Some xs" "n = length xs \<Longrightarrow> bytes_at xs 0 n = Some xs"
  by (simp_all add: bytes_at_def)

lemma mem_at_skip: "length xs \<le> i \<Longrightarrow> mem_at (xs @ ys) i = mem_at ys (i - length xs)"
  by (auto simp: mem_at_def nth_append)

lemma mem_at_here: "mem_at (x # xs) 0 = Some x"
  by (simp add: mem_at_def)

lemma str_prefix_reads:
  assumes "i \<le> p" "p < length m" "m ! p \<notin> set cs"
  shows "str_prefix m i cs \<noteq> None"
  using assms
proof (induction cs arbitrary: i)
  case (Cons c cs)
  then show ?case by (cases "i = p") auto
qed simp

text \<open>A string that does not have the character \<open>d\<close> is looked for in front of the first \<open>d\<close>.\<close>

lemma str_prefix_until:
  assumes "drop i m = k @ d # r" "d \<notin> set cs"
  shows "str_prefix m i cs = Some (take (length cs) k = cs)"
  using assms
proof (induction cs arbitrary: i k)
  case (Cons c cs)
  then have i: "i < length m" "m ! i = (k @ [d]) ! 0" by (metis drop_all list.distinct(1) Nil_is_append_conv linorder_not_le)
     (use Cons.prems(1) in \<open>cases k; simp add: nth_via_drop\<close>)
  show ?case
  proof (cases k)
    case Nil
    with i Cons.prems show ?thesis by auto
  next
    case (Cons x k')
    with Cons.prems(1) have "drop (Suc i) m = k' @ d # r" by (metis append_Cons drop_Suc list.sel(3) tl_drop)
    with Cons.IH Cons.prems(2) i Cons show ?thesis by simp
  qed
qed simp

lemma str_chr_found: "c \<notin> set xs \<Longrightarrow> 0 \<notin> set xs \<Longrightarrow> str_chr (xs @ c # ys) c = Some (Some (length xs))"
  by (induction xs) auto

lemma str_chr_nul: "c \<notin> set xs \<Longrightarrow> 0 \<notin> set xs \<Longrightarrow> c \<noteq> 0 \<Longrightarrow> str_chr (xs @ 0 # ys) c = Some None"
  by (induction xs) auto

lemma str_chr_cases:
  assumes "\<exists>x\<in>set s. x = c \<or> x = 0" "c \<noteq> 0"
  obtains n where "str_chr s c = Some (Some n)" "n < length s" | n where "str_chr s c = Some None" "str_chr s 0 = Some (Some n)" "n < length s"
proof -
  obtain xs x ys where s: "s = xs @ x # ys" "x = c \<or> x = 0" "\<forall>y\<in>set xs. \<not> (y = c \<or> y = 0)"
    using split_list_first_prop [OF assms(1)] by blast
  then have "c \<notin> set xs" "0 \<notin> set xs" by auto
  then show ?thesis using s(1,2) assms(2) that str_chr_found [of _ xs ys] str_chr_nul [of c xs ys] by force
qed

lemma str_len_eq: "0 \<notin> set xs \<Longrightarrow> str_len (xs @ 0 # ys) = Some (length xs)"
  by (induction xs) auto

lemma buf_write_ok: "i + length bs \<le> length m \<Longrightarrow> buf_write m i bs = Some (take i m @ bs @ drop (i + length bs) m)"
  by (simp add: buf_write_def)

lemma buf_write_length: "buf_write m i bs = Some m' \<Longrightarrow> length m' = length m"
  by (auto simp: buf_write_def split: if_splits)

lemma buf_write_take: "buf_write m i bs = Some m' \<Longrightarrow> take (i + length bs) m' = take i m @ bs"
  by (auto simp: buf_write_def split: if_splits)

lemma unat_add_small:
  fixes w :: u32
  assumes "unat w + k < 4294967296"
  shows "unat (w + of_nat k) = unat w + k"
  using assms by (simp add: unat_word_ariths unsigned_of_nat take_bit_eq_mod)

lemma unat_add_words: "unat a + unat b < 4294967296 \<Longrightarrow> unat (a + b :: u32) = unat a + unat b"
  by (simp add: unat_word_ariths)

lemma unat_add_one: "unat w + 1 < 4294967296 \<Longrightarrow> unat (w + 1 :: u32) = unat w + 1"
  using unat_add_small [of w 1] by simp

subsection \<open>Whole words\<close>

definition round4 :: "nat \<Rightarrow> nat" where
  "round4 n = (n + 3) div 4 * 4"

lemma round4_bounds: "n \<le> round4 n" "round4 n < n + 4" "4 dvd n \<Longrightarrow> round4 n = n" "4 dvd round4 n"
  by (auto simp: round4_def)

lemma round4_mono: "m \<le> n \<Longrightarrow> round4 m \<le> round4 n"
  by (auto simp: round4_def div_le_mono)

lemma round4_dvd_le: "4 dvd m \<Longrightarrow> n \<le> m \<Longrightarrow> round4 n \<le> m"
  using round4_mono [of n m] round4_bounds(3) [of m] by simp

lemma round4_add: "4 dvd m \<Longrightarrow> round4 (m + n) = m + round4 n"
  by (auto simp: round4_def add.assoc elim!: dvdE)

end
