(* ===== verification/Nvram.thy ===== *)
theory Nvram
  imports Memory
begin

section \<open>The NVRAM text of a board (brcmfmac/firmware.c)\<close>

text \<open>
  The board comes with a text of lines \<open>key=value\<close>, which the driver turns into the form the
  firmware reads: each entry ended by a NUL, comments dropped, a default board revision and the
  address of the platform added, padding, and a token with the length.

  The parser is a state machine over the bytes of the text (\<open>nvram_parser\<close>), one handler for
  each state; texts for several devices are cut down to one device afterwards. Memory is a list
  of bytes as long as the allocation, so that \<open>None\<close> is a read or write outside of it (or a
  loop that does not end). \<open>alloc\<close> says which of the two allocations succeed.

  Shown here: parsing ends without leaving the buffers on every text that ends in a newline or
  NUL, and on well-formed texts it yields exactly the entries in order. \<open>Nvram_Strip\<close> and
  \<open>Nvram_Devices\<close> go on with the image made of them.
\<close>

type_synonym u64 = "64 word"

subsection \<open>Numbers as text\<close>

fun decimal :: "nat \<Rightarrow> u8 list" where
  "decimal n = (if n < 10 then [of_nat (48 + n)] else decimal (n div 10) @ [of_nat (48 + n mod 10)])"

declare decimal.simps [simp del]

definition hex_digit :: "u8 \<Rightarrow> u8" where
  "hex_digit d = (if d < 10 then d + 48 else d + 87)"

text \<open>The format \<open>%pM\<close>.\<close>

fun mac_text :: "u8 list \<Rightarrow> u8 list" where
  "mac_text [] = []"
| "mac_text [b] = [hex_digit (drop_bit 4 b), hex_digit (b AND 15)]"
| "mac_text (b # bs) = [hex_digit (drop_bit 4 b), hex_digit (b AND 15), 58] @ mac_text bs"

subsection \<open>The parser\<close>

datatype nvram_parser_state = IDLE | KEY | VALUE | COMMENT | END

record nvram_parser =
  state :: nvram_parser_state
  data :: "u8 list"
  nvram :: "u8 list"
  nvram_len :: u32
  line :: u32
  column :: u32
  pos :: u32
  entry :: u32
  multi_dev_v1 :: bool
  multi_dev_v2 :: bool
  boardrev_found :: bool
  strip_mac :: bool

abbreviation (input) BRCMF_FW_MAX_NVRAM_SIZE :: nat where "BRCMF_FW_MAX_NVRAM_SIZE \<equiv> 64000"
abbreviation (input) BRCMF_FW_NVRAM_DEVPATH_LEN :: u32 where "BRCMF_FW_NVRAM_DEVPATH_LEN \<equiv> 19"
abbreviation (input) BRCMF_FW_MACADDR_LEN :: nat where "BRCMF_FW_MACADDR_LEN \<equiv> 25"

definition BRCMF_FW_DEFAULT_BOARDREV :: "u8 list" where
  "BRCMF_FW_DEFAULT_BOARDREV = chars ''boardrev=0xff''"

definition is_nvram_char :: "u8 \<Rightarrow> bool" where
  "is_nvram_char c = (if c = 0x23 then False else c \<ge> 0x20 \<and> c < 0x7F)"

definition is_whitespace :: "u8 \<Rightarrow> bool" where
  "is_whitespace c = (c = 0x20 \<or> c = 0x0D \<or> c = 0x0A \<or> c = 0x09)"

definition brcmf_nvram_handle_idle :: "nvram_parser \<Rightarrow> (nvram_parser_state \<times> nvram_parser) option" where
  "brcmf_nvram_handle_idle nvp = do {
     c \<leftarrow> mem_at (data nvp) (unat (pos nvp));
     let proceed = (IDLE, nvp\<lparr>column := column nvp + 1, pos := pos nvp + 1\<rparr>);
     Some (if c = 0x0A then (COMMENT, nvp)
           else if is_whitespace c \<or> c = 0 then proceed
           else if c = 0x23 then (COMMENT, nvp)
           else if is_nvram_char c then (KEY, nvp\<lparr>entry := pos nvp\<rparr>)
           else proceed)
   }"

definition brcmf_nvram_handle_key :: "nvram_parser \<Rightarrow> (nvram_parser_state \<times> nvram_parser) option" where
  "brcmf_nvram_handle_key nvp = do {
     c \<leftarrow> mem_at (data nvp) (unat (pos nvp));
     if c = 0x3D then do {
       let starts = (\<lambda>w. str_prefix (data nvp) (unat (entry nvp)) (chars w));
       raw \<leftarrow> starts ''RAW1'';
       let st = (if raw then COMMENT else VALUE);
       v1 \<leftarrow> starts ''devpath'';
       let nvp = (if v1 then nvp\<lparr>multi_dev_v1 := True\<rparr> else nvp);
       v2 \<leftarrow> starts ''pcie/'';
       let nvp = (if v2 then nvp\<lparr>multi_dev_v2 := True\<rparr> else nvp);
       rev \<leftarrow> starts ''boardrev'';
       let nvp = (if rev then nvp\<lparr>boardrev_found := True\<rparr> else nvp);
       mac \<leftarrow> (if strip_mac nvp then starts ''macaddr'' else Some False);
       let st = (if mac then COMMENT else st);
       Some (st, nvp\<lparr>column := column nvp + 1, pos := pos nvp + 1\<rparr>)
     }
     else if \<not> is_nvram_char c \<or> c = 0x20 then Some (COMMENT, nvp)
     else Some (state nvp, nvp\<lparr>column := column nvp + 1, pos := pos nvp + 1\<rparr>)
   }"

definition brcmf_nvram_handle_value :: "nvram_parser \<Rightarrow> (nvram_parser_state \<times> nvram_parser) option" where
  "brcmf_nvram_handle_value nvp = do {
     c \<leftarrow> mem_at (data nvp) (unat (pos nvp));
     if \<not> is_nvram_char c then
       let cplen = pos nvp - entry nvp
       in if nvram_len nvp + cplen + 1 \<ge> of_nat BRCMF_FW_MAX_NVRAM_SIZE then Some (END, nvp)
          else if unat (entry nvp) + unat cplen > length (data nvp) then None
          else do {
            m \<leftarrow> buf_write (nvram nvp) (unat (nvram_len nvp)) (take (unat cplen) (drop (unat (entry nvp)) (data nvp)));
            m \<leftarrow> buf_write m (unat (nvram_len nvp + cplen)) [0];
            Some (IDLE, nvp\<lparr>nvram := m, nvram_len := nvram_len nvp + cplen + 1\<rparr>)
          }
     else Some (VALUE, nvp\<lparr>column := column nvp + 1, pos := pos nvp + 1\<rparr>)
   }"

definition brcmf_nvram_handle_comment :: "nvram_parser \<Rightarrow> (nvram_parser_state \<times> nvram_parser) option" where
  "brcmf_nvram_handle_comment nvp = do {
     let sol = drop (unat (pos nvp)) (data nvp);
     eoc \<leftarrow> str_chr sol 0x0A;
     eoc \<leftarrow> (case eoc of None \<Rightarrow> str_chr sol 0 | Some n \<Rightarrow> Some (Some n));
     Some (case eoc of
         None \<Rightarrow> (END, nvp)
       | Some n \<Rightarrow> (IDLE, nvp\<lparr>line := line nvp + 1, column := 1, pos := pos nvp + of_nat n + 1\<rparr>))
   }"

definition brcmf_nvram_handle_end :: "nvram_parser \<Rightarrow> (nvram_parser_state \<times> nvram_parser) option" where
  "brcmf_nvram_handle_end nvp = Some (END, nvp)"

definition nv_parser_states :: "nvram_parser_state \<Rightarrow> nvram_parser \<Rightarrow> (nvram_parser_state \<times> nvram_parser) option" where
  "nv_parser_states st = (case st of
       IDLE \<Rightarrow> brcmf_nvram_handle_idle
     | KEY \<Rightarrow> brcmf_nvram_handle_key
     | VALUE \<Rightarrow> brcmf_nvram_handle_value
     | COMMENT \<Rightarrow> brcmf_nvram_handle_comment
     | END \<Rightarrow> brcmf_nvram_handle_end)"

definition brcmf_init_nvram_parser :: "bool \<Rightarrow> u8 list \<Rightarrow> errno + nvram_parser" where
  "brcmf_init_nvram_parser alloc dat =
     (let size = (if length dat > BRCMF_FW_MAX_NVRAM_SIZE then BRCMF_FW_MAX_NVRAM_SIZE else length dat)
                 + (length BRCMF_FW_DEFAULT_BOARDREV + 1) + (BRCMF_FW_MACADDR_LEN + 1) + (1 + 3 + 4)
      in if \<not> alloc then Inl ENOMEM
         else Inr \<lparr>state = IDLE, data = dat, nvram = replicate size 0, nvram_len = 0, line = 1, column = 1, pos = 0,
                entry = 0, multi_dev_v1 = False, multi_dev_v2 = False, boardrev_found = False, strip_mac = False\<rparr>)"

partial_function (option) nvram_loop :: "nvram_parser \<Rightarrow> nvram_parser option" where
  "nvram_loop nvp =
     (if unat (pos nvp) < length (data nvp) then
        Option.bind (nv_parser_states (state nvp) nvp) (\<lambda>(st, nvp).
          let nvp = nvp\<lparr>state := st\<rparr>
          in if st = END then Some nvp else nvram_loop nvp)
      else Some nvp)"

subsection \<open>Texts for several devices\<close>

text \<open>
  An entry copied to the result, from \<open>i\<close> to its NUL; both positions, the result, and whether
  a board revision was seen.
\<close>

definition copy_entry :: "u8 list \<Rightarrow> u32 \<Rightarrow> u32 \<Rightarrow> u8 list \<Rightarrow> bool \<Rightarrow> (u32 \<times> u32 \<times> u8 list \<times> bool) option" where
  "copy_entry m i j out found = do {
     rev \<leftarrow> str_prefix m (unat i) (chars ''boardrev'');
     n \<leftarrow> str_len (drop (unat i) m);
     out \<leftarrow> buf_write out (unat j) (take n (drop (unat i) m) @ [0]);
     Some (i + of_nat n, j + of_nat n + 1, out, found \<or> rev)
   }"

partial_function (option) v1_find :: "u8 list \<Rightarrow> u32 \<Rightarrow> u8 list \<Rightarrow> u8 list \<Rightarrow> u32 \<Rightarrow> u8 option option" where
  "v1_find m len pci pcie i =
     (if i < len - BRCMF_FW_NVRAM_DEVPATH_LEN then do {
        dev \<leftarrow> str_prefix m (unat i) (chars ''devpath'');
        hit \<leftarrow> (if dev then do {
                   a \<leftarrow> str_prefix m (unat (i + 8)) pci;
                   if a then Some True else str_prefix m (unat (i + 8)) pcie
                 } else Some False);
        if hit then do { c \<leftarrow> mem_at m (unat (i + 7)); Some (Some (c - 0x30)) }
        else do {
          n \<leftarrow> str_len (drop (unat i) m);
          v1_find m len pci pcie (i + of_nat n + 1)
        }
      }
      else Some None)"

partial_function (option) v1_copy ::
    "u8 list \<Rightarrow> u32 \<Rightarrow> u8 \<Rightarrow> u32 \<Rightarrow> u32 \<Rightarrow> u8 list \<Rightarrow> bool \<Rightarrow> (u32 \<times> u8 list \<times> bool) option" where
  "v1_copy m len devid i j out found =
     (if i < len then do {
        c \<leftarrow> mem_at m (unat i);
        hit \<leftarrow> (if uint c - 0x30 = uint devid then map_option (\<lambda>d. d = 0x3A) (mem_at m (unat (i + 1))) else Some False);
        (i, j, out, found) \<leftarrow> (if hit then copy_entry m (i + 2) j out found else Some (i, j, out, found));
        n \<leftarrow> str_len (drop (unat i) m);
        v1_copy m len devid (i + of_nat n + 1) j out found
      }
      else Some (j, out, found))"

definition brcmf_fw_strip_multi_v1 :: "bool \<Rightarrow> u16 \<Rightarrow> u16 \<Rightarrow> nvram_parser \<Rightarrow> nvram_parser option" where
  "brcmf_fw_strip_multi_v1 alloc domain_nr bus_nr nvp =
     (let fail = nvp\<lparr>nvram_len := 0\<rparr>;
          path = (\<lambda>w. chars w @ decimal (unat domain_nr) @ chars ''/'' @ decimal (unat bus_nr))
      in if \<not> alloc then Some fail
         else if nvram_len nvp < BRCMF_FW_NVRAM_DEVPATH_LEN + 6 then Some fail
         else do {
           found \<leftarrow> v1_find (nvram nvp) (nvram_len nvp) (path ''=pci/'') (path ''=pcie/'') 0;
           case found of
             None \<Rightarrow> Some fail
           | Some devid \<Rightarrow> do {
               (j, out, rev) \<leftarrow> v1_copy (nvram nvp) (nvram_len nvp) devid 0 0
                  (replicate (unat (nvram_len nvp) + 1 + 3 + 4) 0) (boardrev_found nvp);
               Some (nvp\<lparr>nvram := out, nvram_len := j, boardrev_found := rev\<rparr>)
             }
         })"

text \<open>The bound of the loop is computed at the width of \<open>size_t\<close>.\<close>

partial_function (option) v2_copy ::
    "u8 list \<Rightarrow> u32 \<Rightarrow> u8 list \<Rightarrow> u32 \<Rightarrow> u32 \<Rightarrow> u8 list \<Rightarrow> bool \<Rightarrow> (u32 \<times> u8 list \<times> bool) option" where
  "v2_copy m len prefix i j out found =
     (if (ucast i :: u64) < ucast len - of_nat (length prefix) then do {
        hit \<leftarrow> str_prefix m (unat i) prefix;
        (i, j, out, found) \<leftarrow>
          (if hit then copy_entry m (i + of_nat (length prefix)) j out found else Some (i, j, out, found));
        n \<leftarrow> str_len (drop (unat i) m);
        v2_copy m len prefix (i + of_nat n + 1) j out found
      }
      else Some (j, out, found))"

definition pcie_prefix :: "u16 \<Rightarrow> u16 \<Rightarrow> u8 list" where
  "pcie_prefix domain_nr bus_nr =
     chars ''pcie/'' @ decimal (unat domain_nr) @ chars ''/'' @ decimal (unat bus_nr) @ chars ''/''"

definition brcmf_fw_strip_multi_v2 :: "bool \<Rightarrow> u16 \<Rightarrow> u16 \<Rightarrow> nvram_parser \<Rightarrow> nvram_parser option" where
  "brcmf_fw_strip_multi_v2 alloc domain_nr bus_nr nvp =
     (if \<not> alloc then Some (nvp\<lparr>nvram_len := 0\<rparr>)
      else do {
        (j, out, rev) \<leftarrow> v2_copy (nvram nvp) (nvram_len nvp) (pcie_prefix domain_nr bus_nr) 0 0
           (replicate (unat (nvram_len nvp) + 1 + 3 + 4) 0) (boardrev_found nvp);
        Some (nvp\<lparr>nvram := out, nvram_len := j, boardrev_found := rev\<rparr>)
      })"

declare nvram_loop.simps [code] v1_find.simps [code] v1_copy.simps [code] v2_copy.simps [code]

subsection \<open>Additions, padding and the token\<close>

definition brcmf_fw_add_defaults :: "nvram_parser \<Rightarrow> nvram_parser option" where
  "brcmf_fw_add_defaults nvp =
     (if boardrev_found nvp then Some nvp
      else do {
        m \<leftarrow> buf_write (nvram nvp) (unat (nvram_len nvp)) (BRCMF_FW_DEFAULT_BOARDREV @ [0]);
        Some (nvp\<lparr>nvram := m, nvram_len := nvram_len nvp + of_nat (length BRCMF_FW_DEFAULT_BOARDREV) + 1\<rparr>)
      })"

definition brcmf_fw_add_macaddr :: "u8 list \<Rightarrow> nvram_parser \<Rightarrow> nvram_parser option" where
  "brcmf_fw_add_macaddr mac nvp = do {
     let txt = take BRCMF_FW_MACADDR_LEN (chars ''macaddr='' @ mac_text mac);
     m \<leftarrow> buf_write (nvram nvp) (unat (nvram_len nvp)) (txt @ [0]);
     Some (nvp\<lparr>nvram := m, nvram_len := nvram_len nvp + of_nat (length txt) + 1\<rparr>)
   }"

definition roundup4 :: "u32 \<Rightarrow> u32" where
  "roundup4 x = (x + 3) div 4 * 4"

definition length_token :: "u32 \<Rightarrow> u32" where
  "length_token len = (let token = len div 4 in push_bit 16 (NOT token) OR (token AND 0xFFFF))"

text \<open>
  The platform's address is \<open>mac\<close>, if there is one. The result is the buffer with the length
  to download, or \<open>Some None\<close> for the null pointer.
\<close>

definition brcmf_fw_nvram_strip ::
    "(nat \<Rightarrow> bool) \<Rightarrow> u8 list option \<Rightarrow> u16 \<Rightarrow> u16 \<Rightarrow> u8 list \<Rightarrow> (u8 list \<times> u32) option option" where
  "brcmf_fw_nvram_strip alloc mac domain_nr bus_nr dat =
     (case brcmf_init_nvram_parser (alloc 0) dat of
        Inl _ \<Rightarrow> Some None
      | Inr nvp \<Rightarrow> do {
          nvp \<leftarrow> nvram_loop (nvp\<lparr>strip_mac := (mac \<noteq> None)\<rparr>);
          nvp \<leftarrow> (if multi_dev_v1 nvp
                  then brcmf_fw_strip_multi_v1 (alloc 1) domain_nr bus_nr (nvp\<lparr>boardrev_found := False\<rparr>)
                  else if multi_dev_v2 nvp
                  then brcmf_fw_strip_multi_v2 (alloc 1) domain_nr bus_nr (nvp\<lparr>boardrev_found := False\<rparr>)
                  else Some nvp);
          if nvram_len nvp = 0 then Some None
          else do {
            nvp \<leftarrow> brcmf_fw_add_defaults nvp;
            nvp \<leftarrow> (case mac of None \<Rightarrow> Some nvp | Some a \<Rightarrow> brcmf_fw_add_macaddr a nvp);
            let new_length = roundup4 (nvram_len nvp + 1);
            m \<leftarrow> buf_write (nvram nvp) (unat (nvram_len nvp)) (replicate (unat (new_length - nvram_len nvp)) 0);
            m \<leftarrow> buf_write m (unat new_length) (le32_bytes (length_token new_length));
            Some (Some (m, new_length + 4))
          }
        })"

subsection \<open>Parsing ends and stays inside its buffers\<close>

text \<open>
  What holds between the steps: an entry begins behind what was copied so far, so that the
  output never exceeds the text; right behind an entry the output may be one byte ahead, until
  the character that ended the entry is skipped.
\<close>

definition text_ends :: "u8 list \<Rightarrow> bool" where
  "text_ends dat \<longleftrightarrow> dat \<noteq> [] \<and> (last dat = 0x0A \<or> last dat = 0)"

definition nvp_inv :: "nvram_parser \<Rightarrow> bool" where
  "nvp_inv nvp \<longleftrightarrow> length (data nvp) < 2 ^ 31 \<and> text_ends (data nvp) \<and> unat (pos nvp) \<le> length (data nvp)
   \<and> min (length (data nvp)) 64000 + 48 \<le> length (nvram nvp) \<and> unat (nvram_len nvp) < 64000
   \<and> unat (nvram_len nvp) \<le> length (data nvp)
   \<and> (case state nvp of
        IDLE \<Rightarrow> unat (nvram_len nvp) \<le> unat (pos nvp) \<or>
          unat (nvram_len nvp) = unat (pos nvp) + 1 \<and> \<not> is_nvram_char (data nvp ! unat (pos nvp))
      | KEY \<Rightarrow> nvram_len nvp \<le> entry nvp \<and> entry nvp \<le> pos nvp
      | VALUE \<Rightarrow> nvram_len nvp \<le> entry nvp \<and> entry nvp \<le> pos nvp
      | COMMENT \<Rightarrow> unat (nvram_len nvp) \<le> unat (pos nvp) + 1
      | END \<Rightarrow> True)"

definition state_rank :: "nvram_parser_state \<Rightarrow> nat" where
  "state_rank st = (case st of VALUE \<Rightarrow> 3 | IDLE \<Rightarrow> 2 | KEY \<Rightarrow> 1 | COMMENT \<Rightarrow> 0 | END \<Rightarrow> 0)"

definition progress :: "nvram_parser \<Rightarrow> nat" where
  "progress nvp = (length (data nvp) - unat (pos nvp)) * 4 + state_rank (state nvp)"

text \<open>What a step may do: fall into the final state or make progress; the buffers stay.\<close>

definition good_step :: "nvram_parser \<Rightarrow> (nvram_parser_state \<times> nvram_parser) option \<Rightarrow> bool" where
  "good_step nvp r \<longleftrightarrow> (case r of None \<Rightarrow> False
     | Some (st, nvp') \<Rightarrow> nvp_inv (nvp'\<lparr>state := st\<rparr>) \<and> (st = END \<or> progress (nvp'\<lparr>state := st\<rparr>) < progress nvp)
         \<and> length (nvram nvp') = length (nvram nvp) \<and> data nvp' = data nvp)"

lemmas step_simps = good_step_def nvp_inv_def progress_def state_rank_def

lemma idle_good:
  assumes "nvp_inv nvp" "unat (pos nvp) < length (data nvp)" "state nvp = IDLE"
  shows "good_step nvp (brcmf_nvram_handle_idle nvp)"
proof -
  have pos: "unat (pos nvp + 1) = unat (pos nvp) + 1" using assms by (intro unat_add_one) (simp add: nvp_inv_def)
  let ?c = "data nvp ! unat (pos nvp)"
  have next_ok: "good_step nvp (Some (IDLE, nvp\<lparr>column := column nvp + 1, pos := pos nvp + 1\<rparr>))"
    using assms pos by (auto simp: step_simps)
  consider "?c = 0x0A \<or> ?c = 0x23" | "is_nvram_char ?c" "\<not> is_whitespace ?c" "?c \<noteq> 0"
    | "?c \<noteq> 0x0A" "?c \<noteq> 0x23" "is_whitespace ?c \<or> ?c = 0 \<or> \<not> is_nvram_char ?c" by blast
  then show ?thesis
  proof cases
    case 1
    then have "brcmf_nvram_handle_idle nvp = Some (COMMENT, nvp)"
      using assms(2) by (auto simp: brcmf_nvram_handle_idle_def is_whitespace_def)
    then show ?thesis using assms by (auto simp: step_simps)
  next
    case 2
    then have "brcmf_nvram_handle_idle nvp = Some (KEY, nvp\<lparr>entry := pos nvp\<rparr>)"
      using assms(2) by (auto simp: brcmf_nvram_handle_idle_def is_whitespace_def is_nvram_char_def)
    then show ?thesis using assms 2 by (auto simp: step_simps word_le_nat_alt)
  next
    case 3
    then have "brcmf_nvram_handle_idle nvp = Some (IDLE, nvp\<lparr>column := column nvp + 1, pos := pos nvp + 1\<rparr>)"
      using assms(2) by (auto simp: brcmf_nvram_handle_idle_def Let_def)
    then show ?thesis using next_ok by simp
  qed
qed

lemma chars_literals:
  "0x3D \<notin> set (chars ''RAW1'')" "0x3D \<notin> set (chars ''devpath'')" "0x3D \<notin> set (chars ''pcie/'')"
  "0x3D \<notin> set (chars ''boardrev'')" "0x3D \<notin> set (chars ''macaddr'')"
  by code_simp+

lemma key_good:
  assumes "nvp_inv nvp" "unat (pos nvp) < length (data nvp)" "state nvp = KEY"
  shows "good_step nvp (brcmf_nvram_handle_key nvp)"
proof -
  have pos: "unat (pos nvp + 1) = unat (pos nvp) + 1" using assms by (intro unat_add_one) (simp add: nvp_inv_def)
  let ?c = "data nvp ! unat (pos nvp)"
  have le: "nvram_len nvp \<le> entry nvp" "entry nvp \<le> pos nvp" "entry nvp \<le> pos nvp + 1"
    using assms pos by (auto simp: nvp_inv_def word_le_nat_alt)
  have adv: "good_step nvp (Some (st, nvp\<lparr>multi_dev_v1 := a, multi_dev_v2 := b, boardrev_found := d,
      column := column nvp + 1, pos := pos nvp + 1\<rparr>))" if "st \<in> {KEY, VALUE, COMMENT}" for st a b d
    using that assms pos le by (auto simp: step_simps word_le_nat_alt)
  consider "?c = 0x3D" | "?c \<noteq> 0x3D" "\<not> is_nvram_char ?c \<or> ?c = 0x20" | "?c \<noteq> 0x3D" "is_nvram_char ?c" "?c \<noteq> 0x20" by blast
  then show ?thesis
  proof cases
    case 1
    have reads: "str_prefix (data nvp) (unat (entry nvp)) (chars w) \<noteq> None" if "0x3D \<notin> set (chars w)" for w
      using str_prefix_reads [of "unat (entry nvp)" "unat (pos nvp)"] that 1 le(2) assms(2) by (simp add: word_le_nat_alt)
    obtain b1 b2 b3 b4 b5 where b: "str_prefix (data nvp) (unat (entry nvp)) (chars ''RAW1'') = Some b1"
      "str_prefix (data nvp) (unat (entry nvp)) (chars ''devpath'') = Some b2"
      "str_prefix (data nvp) (unat (entry nvp)) (chars ''pcie/'') = Some b3"
      "str_prefix (data nvp) (unat (entry nvp)) (chars ''boardrev'') = Some b4"
      "str_prefix (data nvp) (unat (entry nvp)) (chars ''macaddr'') = Some b5"
      using chars_literals reads by (meson not_None_eq)
    have "brcmf_nvram_handle_key nvp = Some (if strip_mac nvp \<and> b5 \<or> b1 then COMMENT else VALUE,
        nvp\<lparr>multi_dev_v1 := multi_dev_v1 nvp \<or> b2, multi_dev_v2 := multi_dev_v2 nvp \<or> b3,
          boardrev_found := boardrev_found nvp \<or> b4, column := column nvp + 1, pos := pos nvp + 1\<rparr>)"
      using assms(2) 1 b by (simp add: brcmf_nvram_handle_key_def Let_def)
    then show ?thesis by (simp add: adv)
  next
    case 2
    then have "brcmf_nvram_handle_key nvp = Some (COMMENT, nvp)"
      using assms(2) by (auto simp: brcmf_nvram_handle_key_def)
    then show ?thesis using assms le by (auto simp: step_simps word_le_nat_alt)
  next
    case 3
    then have "brcmf_nvram_handle_key nvp = Some (KEY, nvp\<lparr>column := column nvp + 1, pos := pos nvp + 1\<rparr>)"
      using assms(2,3) by (auto simp: brcmf_nvram_handle_key_def)
    then show ?thesis using assms pos le by (auto simp: step_simps word_le_nat_alt)
  qed
qed

lemma value_good:
  assumes "nvp_inv nvp" "unat (pos nvp) < length (data nvp)" "state nvp = VALUE"
  shows "good_step nvp (brcmf_nvram_handle_value nvp)"
proof (cases "is_nvram_char (data nvp ! unat (pos nvp))")
  case True
  have "unat (pos nvp + 1) = unat (pos nvp) + 1" using assms by (intro unat_add_one) (simp add: nvp_inv_def)
  then show ?thesis using True assms by (auto simp: brcmf_nvram_handle_value_def step_simps word_le_nat_alt)
next
  case False
  define cp where "cp = pos nvp - entry nvp"
  have le: "unat (nvram_len nvp) \<le> unat (entry nvp)" "unat (entry nvp) \<le> unat (pos nvp)"
    and small: "length (data nvp) < 2147483648" using assms by (auto simp: nvp_inv_def word_le_nat_alt)
  have cp: "unat cp = unat (pos nvp) - unat (entry nvp)" unfolding cp_def using le(2) by (simp add: unat_sub word_le_nat_alt)
  have len: "unat (nvram_len nvp + cp) = unat (nvram_len nvp) + unat cp"
    by (rule unat_add_words) (use cp le assms(2) small in simp)
  have len1: "unat (nvram_len nvp + cp + 1) = unat (nvram_len nvp) + unat cp + 1"
    using unat_add_one [of "nvram_len nvp + cp"] len cp le assms(2) small by simp
  show ?thesis
  proof (cases "nvram_len nvp + cp + 1 \<ge> 64000")
    case True
    then have "brcmf_nvram_handle_value nvp = Some (END, nvp)"
      using False assms(2) by (simp add: brcmf_nvram_handle_value_def cp_def Let_def)
    then show ?thesis using assms by (auto simp: step_simps)
  next
    case fits: False
    then have room: "unat (nvram_len nvp) + unat cp + 1 < 64000" using len1 by (simp add: word_le_nat_alt)
    then have room': "unat (nvram_len nvp) + unat cp + 1 \<le> length (nvram nvp)"
      using assms cp le by (auto simp: nvp_inv_def)
    obtain m where m: "buf_write (nvram nvp) (unat (nvram_len nvp)) (take (unat cp) (drop (unat (entry nvp)) (data nvp))) = Some m"
      using buf_write_ok [of "unat (nvram_len nvp)" _ "nvram nvp"] room' by simp
    obtain m' where m': "buf_write m (unat (nvram_len nvp + cp)) [0] = Some m'"
      using buf_write_ok [of "unat (nvram_len nvp + cp)" "[0]" m] room' len buf_write_length [OF m] by simp
    have "unat (entry nvp) + unat cp \<le> length (data nvp)" using cp le(2) assms(2) by simp
    then have "brcmf_nvram_handle_value nvp = Some (IDLE, nvp\<lparr>nvram := m', nvram_len := nvram_len nvp + cp + 1\<rparr>)"
      using False fits assms(2) m m' by (simp add: brcmf_nvram_handle_value_def cp_def [symmetric] Let_def)
    moreover have "length m' = length (nvram nvp)" using buf_write_length [OF m] buf_write_length [OF m'] by simp
    ultimately show ?thesis using assms False cp le len1 room by (auto simp: step_simps)
  qed
qed

lemma comment_good:
  assumes "nvp_inv nvp" "unat (pos nvp) < length (data nvp)" "state nvp = COMMENT"
  shows "good_step nvp (brcmf_nvram_handle_comment nvp)"
proof -
  let ?s = "drop (unat (pos nvp)) (data nvp)"
  have "last (data nvp) \<in> set ?s" using assms(2) by (metis drop_eq_Nil last_drop last_in_set linorder_not_le)
  then have "\<exists>x\<in>set ?s. x = 0x0A \<or> x = 0" using assms(1) by (auto simp: nvp_inv_def text_ends_def)
  then obtain n where n: "n < length ?s" "brcmf_nvram_handle_comment nvp =
      Some (IDLE, nvp\<lparr>line := line nvp + 1, column := 1, pos := pos nvp + of_nat n + 1\<rparr>)"
    by (cases rule: str_chr_cases) (simp_all add: brcmf_nvram_handle_comment_def)
  have small: "unat (pos nvp) + n + 1 \<le> length (data nvp)" "length (data nvp) < 2147483648"
    using n(1) assms(1) by (auto simp: nvp_inv_def)
  then have "unat (pos nvp + of_nat n + 1) = unat (pos nvp) + n + 1"
    using unat_add_small [of "pos nvp" n] unat_add_one [of "pos nvp + of_nat n"] by simp
  then show ?thesis using n small assms by (auto simp: step_simps)
qed

lemma nvram_loop_good:
  assumes "nvp_inv nvp"
  shows "\<exists>nvp'. nvram_loop nvp = Some nvp' \<and> nvp_inv nvp' \<and> length (nvram nvp') = length (nvram nvp) \<and> data nvp' = data nvp"
  using assms
proof (induction "progress nvp" arbitrary: nvp rule: less_induct)
  case less
  show ?case
  proof (cases "unat (pos nvp) < length (data nvp)")
    case False
    then show ?thesis using less.prems by (subst nvram_loop.simps) simp
  next
    case True
    have "good_step nvp (nv_parser_states (state nvp) nvp)"
      using less.prems True idle_good key_good value_good comment_good
      by (cases "state nvp") (simp_all add: nv_parser_states_def brcmf_nvram_handle_end_def good_step_def nvp_inv_def)
    then obtain st t where t: "nv_parser_states (state nvp) nvp = Some (st, t)"
      "nvp_inv (t\<lparr>state := st\<rparr>)" "st = END \<or> progress (t\<lparr>state := st\<rparr>) < progress nvp" "length (nvram t) = length (nvram nvp)"
      "data t = data nvp"
      by (cases "nv_parser_states (state nvp) nvp") (auto simp: good_step_def)
    show ?thesis
    proof (cases "st = END")
      case True
      then show ?thesis using t \<open>unat (pos nvp) < length (data nvp)\<close> by (subst nvram_loop.simps) (simp add: Let_def)
    next
      case False
      then obtain u where "nvram_loop (t\<lparr>state := st\<rparr>) = Some u" "nvp_inv u" "length (nvram u) = length (nvram t)" "data u = data t"
        using less.hyps [of "t\<lparr>state := st\<rparr>"] t by auto
      then show ?thesis using t False True by (subst nvram_loop.simps) (simp add: Let_def)
    qed
  qed
qed

lemma fresh_inv:
  assumes "brcmf_init_nvram_parser True dat = Inr nvp" "text_ends dat" "length dat < 2 ^ 31"
  shows "nvp_inv (nvp\<lparr>strip_mac := b\<rparr>)"
proof -
  have "length BRCMF_FW_DEFAULT_BOARDREV = 13" by code_simp
  then show ?thesis using assms by (auto simp: brcmf_init_nvram_parser_def nvp_inv_def Let_def)
qed

text \<open>
  C25: Parsing a text that ends in a newline or a NUL ends, whatever else is in the text. It
  never reads outside the text nor writes outside the buffer, and what it produces is no longer
  than the text and below the limit, so that the buffer has room for all that is added later.
\<close>

theorem nvram_parse_terminates:
  assumes "text_ends dat" "length dat < 2 ^ 31" "brcmf_init_nvram_parser True dat = Inr nvp"
  shows "\<exists>nvp'. nvram_loop (nvp\<lparr>strip_mac := b\<rparr>) = Some nvp' \<and> unat (nvram_len nvp') \<le> length dat
    \<and> unat (nvram_len nvp') < BRCMF_FW_MAX_NVRAM_SIZE \<and> unat (nvram_len nvp') + 48 \<le> length (nvram nvp')"
proof -
  obtain u where u: "nvram_loop (nvp\<lparr>strip_mac := b\<rparr>) = Some u" "nvp_inv u" "data u = dat"
    using nvram_loop_good [OF fresh_inv [OF assms(3,1,2), of b]] assms(3) by (auto simp: brcmf_init_nvram_parser_def Let_def)
  then show ?thesis by (auto simp: nvp_inv_def)
qed

lemma text_sample: "text_ends [0x61, 0x3D, 0x62, 0x0A]"
  by code_simp

theorem nvram_parse_terminates_witness:
  "\<exists>nvp nvp'. brcmf_init_nvram_parser True [0x61, 0x3D, 0x62, 0x0A] = Inr nvp \<and> nvram_loop (nvp\<lparr>strip_mac := False\<rparr>) = Some nvp' \<and>
     unat (nvram_len nvp') \<le> 4"
proof -
  obtain nvp where nvp: "brcmf_init_nvram_parser True [0x61, 0x3D, 0x62, 0x0A] = Inr nvp"
    by (simp add: brcmf_init_nvram_parser_def Let_def)
  with nvram_parse_terminates [OF text_sample _ this, of False] show ?thesis by auto
qed

subsection \<open>What parsing yields\<close>

text \<open>
  Lines as board files have them, with a carriage return before the newline or without:
  entries, comments and lines of white space.
\<close>

datatype nv_line =
    Nv_entry "u8 list" "u8 list" bool
  | Nv_comment "u8 list"
  | Nv_blank "u8 list"

fun nv_text :: "nv_line \<Rightarrow> u8 list" where
  "nv_text (Nv_entry k v cr) = k @ 0x3D # v @ (if cr then [0x0D] else []) @ [0x0A]"
| "nv_text (Nv_comment c) = 0x23 # c @ [0x0A]"
| "nv_text (Nv_blank ws) = ws @ [0x0A]"

definition key_char :: "u8 \<Rightarrow> bool" where
  "key_char c \<longleftrightarrow> is_nvram_char c \<and> c \<noteq> 0x20 \<and> c \<noteq> 0x3D"

fun nv_line_wf :: "nv_line \<Rightarrow> bool" where
  "nv_line_wf (Nv_entry k v cr) = (k \<noteq> [] \<and> list_all key_char k \<and> list_all is_nvram_char v)"
| "nv_line_wf (Nv_comment c) = (0x0A \<notin> set c \<and> 0 \<notin> set c)"
| "nv_line_wf (Nv_blank ws) = (set ws \<subseteq> {0x20, 0x09, 0x0D})"

definition starts :: "string \<Rightarrow> u8 list \<Rightarrow> bool" where
  "starts w k \<longleftrightarrow> take (length (chars w)) k = chars w"

fun nv_key_starts :: "string \<Rightarrow> nv_line \<Rightarrow> bool" where
  "nv_key_starts w (Nv_entry k v cr) = starts w k"
| "nv_key_starts w _ = False"

text \<open>What a line contributes: the entries of the key \<open>RAW1\<close>, and addresses when the platform has one, are dropped.\<close>

fun nv_out :: "bool \<Rightarrow> nv_line \<Rightarrow> u8 list" where
  "nv_out sm (Nv_entry k v cr) = (if starts ''RAW1'' k \<or> sm \<and> starts ''macaddr'' k then [] else k @ 0x3D # v @ [0])"
| "nv_out sm _ = []"

definition parsed_text :: "nvram_parser \<Rightarrow> u8 list" where
  "parsed_text nvp = take (unat (nvram_len nvp)) (nvram nvp)"

text \<open>Between two lines.\<close>

definition at_line :: "nvram_parser \<Rightarrow> bool" where
  "at_line nvp \<longleftrightarrow> state nvp = IDLE \<and> length (data nvp) < 2 ^ 31 \<and> unat (nvram_len nvp) \<le> unat (pos nvp)
   \<and> min (length (data nvp)) 64000 + 48 \<le> length (nvram nvp)"

text \<open>The parser after \<open>n\<close> more bytes, which yield \<open>out\<close> and have keys of the three kinds or not.\<close>

definition parsed :: "nat \<Rightarrow> u8 list \<Rightarrow> bool \<Rightarrow> bool \<Rightarrow> bool \<Rightarrow> nvram_parser \<Rightarrow> nvram_parser \<Rightarrow> bool" where
  "parsed n out a b c nvp nvp' \<longleftrightarrow> nvram_loop nvp = nvram_loop nvp' \<and> at_line nvp'
   \<and> unat (pos nvp') = unat (pos nvp) + n \<and> data nvp' = data nvp \<and> strip_mac nvp' = strip_mac nvp
   \<and> length (nvram nvp') = length (nvram nvp) \<and> parsed_text nvp' = parsed_text nvp @ out
   \<and> unat (nvram_len nvp') = unat (nvram_len nvp) + length out
   \<and> multi_dev_v1 nvp' = (multi_dev_v1 nvp \<or> a) \<and> multi_dev_v2 nvp' = (multi_dev_v2 nvp \<or> b)
   \<and> boardrev_found nvp' = (boardrev_found nvp \<or> c)"

lemma loop_step:
  assumes "unat (pos nvp) < length (data nvp)" "nv_parser_states (state nvp) nvp = Some (st, t)" "st \<noteq> END"
  shows "nvram_loop nvp = nvram_loop (t\<lparr>state := st\<rparr>)"
  using assms by (subst nvram_loop.simps) (simp add: Let_def)

lemma drop_Cons_nth:
  assumes "drop i xs = x # r"
  shows "i < length xs" "xs ! i = x" "drop (Suc i) xs = r"
proof -
  show "i < length xs" using assms by (metis drop_all list.distinct(1) linorder_not_le)
  then show "xs ! i = x" "drop (Suc i) xs = r" using assms by (simp_all add: Cons_nth_drop_Suc [symmetric])
qed

text \<open>Characters that leave the parser in its state are passed over.\<close>

lemma loop_scan:
  assumes "drop (unat (pos nvp)) (data nvp) = xs @ r" "state nvp = st" "st \<noteq> END" "length (data nvp) < 2 ^ 31" "list_all P xs"
    and stay: "\<And>t. state t = st \<Longrightarrow> unat (pos t) < length (data t) \<Longrightarrow> P (data t ! unat (pos t)) \<Longrightarrow>
      nv_parser_states st t = Some (st, t\<lparr>column := column t + 1, pos := pos t + 1\<rparr>)"
  shows "\<exists>c. nvram_loop nvp = nvram_loop (nvp\<lparr>column := c, pos := pos nvp + of_nat (length xs)\<rparr>)
    \<and> unat (pos nvp + of_nat (length xs)) = unat (pos nvp) + length xs"
  using assms(1-5)
proof (induction xs arbitrary: nvp)
  case Nil
  have "nvp = nvp\<lparr>column := column nvp, pos := pos nvp\<rparr>" by simp
  then show ?case by (intro exI [of _ "column nvp"]) simp
next
  case (Cons x xs)
  note x = drop_Cons_nth [of "unat (pos nvp)" "data nvp" x "xs @ r", simplified Cons.prems(1) append_Cons, OF refl]
  let ?t = "nvp\<lparr>column := column nvp + 1, pos := pos nvp + 1\<rparr>"
  have pos: "unat (pos nvp + 1) = unat (pos nvp) + 1" using x(1) Cons.prems(4) by (intro unat_add_one) simp
  have "drop (unat (pos ?t)) (data ?t) = xs @ r" using x(3) pos by simp
  then obtain c where c: "nvram_loop ?t = nvram_loop (?t\<lparr>column := c, pos := pos ?t + of_nat (length xs)\<rparr>)"
    "unat (pos ?t + of_nat (length xs)) = unat (pos ?t) + length xs"
    using Cons.IH [of ?t] Cons.prems by auto
  have "nvram_loop nvp = nvram_loop ?t"
  proof -
    have "?t\<lparr>state := st\<rparr> = ?t" using Cons.prems(2) by (cases nvp) simp
    with loop_step [OF x(1), of st ?t] stay [of nvp] Cons.prems x show ?thesis by simp
  qed
  then show ?case using c pos by (intro exI [of _ c]) (simp add: ac_simps)
qed

lemma comment_parsed:
  assumes "state nvp = COMMENT" "drop (unat (pos nvp)) (data nvp) = c @ 0x0A # r" "0x0A \<notin> set c" "0 \<notin> set c"
  shows "nvram_loop nvp = nvram_loop (nvp\<lparr>state := IDLE, line := line nvp + 1, column := 1, pos := pos nvp + of_nat (length c) + 1\<rparr>)"
proof -
  have "unat (pos nvp) < length (data nvp)" using assms(2) by (metis drop_all Nil_is_append_conv list.distinct(1) linorder_not_le)
  moreover have "nv_parser_states (state nvp) nvp =
      Some (IDLE, nvp\<lparr>line := line nvp + 1, column := 1, pos := pos nvp + of_nat (length c) + 1\<rparr>)"
    using assms str_chr_found [of "0x0A" c r] by (simp add: nv_parser_states_def brcmf_nvram_handle_comment_def)
  ultimately have "nvram_loop nvp = nvram_loop (nvp\<lparr>line := line nvp + 1, column := 1,
      pos := pos nvp + of_nat (length c) + 1, state := IDLE\<rparr>)"
    by (rule loop_step) simp
  then show ?thesis by (cases nvp) simp
qed

lemma newline_parsed:
  assumes "state nvp = IDLE" "drop (unat (pos nvp)) (data nvp) = 0x0A # r"
  shows "nvram_loop nvp = nvram_loop (nvp\<lparr>line := line nvp + 1, column := 1, pos := pos nvp + 1\<rparr>)"
proof -
  note x = drop_Cons_nth [OF assms(2)]
  have "nv_parser_states (state nvp) nvp = Some (COMMENT, nvp)"
    using assms(1) x by (simp add: nv_parser_states_def brcmf_nvram_handle_idle_def Let_def)
  from loop_step [OF x(1) this] have "nvram_loop nvp = nvram_loop (nvp\<lparr>state := COMMENT\<rparr>)" by simp
  also have "\<dots> = nvram_loop (nvp\<lparr>state := IDLE, line := line nvp + 1, column := 1, pos := pos nvp + 1\<rparr>)"
    using comment_parsed [of "nvp\<lparr>state := COMMENT\<rparr>" "[]" r] assms(2) by simp
  also have "nvp\<lparr>state := IDLE, line := line nvp + 1, column := 1, pos := pos nvp + 1\<rparr> =
      nvp\<lparr>line := line nvp + 1, column := 1, pos := pos nvp + 1\<rparr>"
    using assms(1) by (cases nvp) simp
  finally show ?thesis .
qed

lemma idle_white:
  "state t = IDLE \<Longrightarrow> unat (pos t) < length (data t) \<Longrightarrow> data t ! unat (pos t) \<in> {0x20, 0x09, 0x0D} \<Longrightarrow>
   nv_parser_states IDLE t = Some (IDLE, t\<lparr>column := column t + 1, pos := pos t + 1\<rparr>)"
  by (auto simp: nv_parser_states_def brcmf_nvram_handle_idle_def is_whitespace_def Let_def)

text \<open>White space up to the end of the line.\<close>

lemma blank_parsed:
  assumes "state nvp = IDLE" "drop (unat (pos nvp)) (data nvp) = ws @ 0x0A # r" "set ws \<subseteq> {0x20, 0x09, 0x0D}" "length (data nvp) < 2 ^ 31"
  shows "\<exists>l c. nvram_loop nvp = nvram_loop (nvp\<lparr>line := l, column := c, pos := pos nvp + of_nat (length ws) + 1\<rparr>)
    \<and> unat (pos nvp + of_nat (length ws) + 1) = unat (pos nvp) + length ws + 1"
proof -
  have "list_all (\<lambda>x. x \<in> {0x20, 0x09, 0x0D}) ws" using assms(3) by (auto simp: list_all_iff)
  then obtain c where c: "nvram_loop nvp = nvram_loop (nvp\<lparr>column := c, pos := pos nvp + of_nat (length ws)\<rparr>)"
    "unat (pos nvp + of_nat (length ws)) = unat (pos nvp) + length ws"
    using loop_scan [OF assms(2,1) _ assms(4), of "\<lambda>x. x \<in> {0x20, 0x09, 0x0D}"] idle_white by auto
  let ?t = "nvp\<lparr>column := c, pos := pos nvp + of_nat (length ws)\<rparr>"
  have d: "drop (unat (pos ?t)) (data ?t) = 0x0A # r" using assms(2) c(2) by (simp add: add.commute flip: drop_drop)
  have "unat (pos ?t) < length (data ?t)" by (rule drop_Cons_nth(1) [OF d])
  then have "unat (pos ?t + 1) = unat (pos ?t) + 1" using assms(4) by (intro unat_add_one) simp
  moreover have "nvram_loop ?t = nvram_loop (?t\<lparr>line := line nvp + 1, column := 1, pos := pos ?t + 1\<rparr>)"
    using newline_parsed [of ?t r] assms(1) d by simp
  ultimately show ?thesis using c by (intro exI [of _ "line nvp + 1"] exI [of _ 1]) simp
qed

lemma parsed_plain:
  assumes "at_line nvp" "nvram_loop nvp = nvram_loop (nvp\<lparr>line := l, column := c, pos := p\<rparr>)" "unat p = unat (pos nvp) + n"
  shows "parsed n [] False False False nvp (nvp\<lparr>line := l, column := c, pos := p\<rparr>)"
  using assms by (simp add: parsed_def at_line_def parsed_text_def)

lemma blank_line_parsed:
  assumes "at_line nvp" "drop (unat (pos nvp)) (data nvp) = nv_text (Nv_blank ws) @ r" "nv_line_wf (Nv_blank ws)"
  shows "\<exists>nvp'. parsed (length (nv_text (Nv_blank ws))) [] False False False nvp nvp'"
proof -
  have "state nvp = IDLE" "length (data nvp) < 2 ^ 31" using assms(1) by (simp_all add: at_line_def)
  with blank_parsed [of nvp ws r] assms(2,3) parsed_plain [OF assms(1)] show ?thesis by fastforce
qed

lemma comment_line_parsed:
  assumes "at_line nvp" "drop (unat (pos nvp)) (data nvp) = nv_text (Nv_comment c) @ r" "nv_line_wf (Nv_comment c)"
  shows "\<exists>nvp'. parsed (length (nv_text (Nv_comment c))) [] False False False nvp nvp'"
proof -
  have st: "state nvp = IDLE" "length (data nvp) < 2 ^ 31" using assms(1) by (simp_all add: at_line_def)
  have d: "drop (unat (pos nvp)) (data nvp) = 0x23 # c @ 0x0A # r" using assms(2) by simp
  note x = drop_Cons_nth [OF d]
  have "nv_parser_states (state nvp) nvp = Some (COMMENT, nvp)"
    using st(1) x by (simp add: nv_parser_states_def brcmf_nvram_handle_idle_def is_whitespace_def Let_def)
  from loop_step [OF x(1) this] have "nvram_loop nvp = nvram_loop (nvp\<lparr>state := COMMENT\<rparr>)" by simp
  also have "\<dots> = nvram_loop (nvp\<lparr>state := IDLE, line := line nvp + 1, column := 1, pos := pos nvp + of_nat (length (0x23 # c)) + 1\<rparr>)"
    using comment_parsed [of "nvp\<lparr>state := COMMENT\<rparr>" "0x23 # c" r] d assms(3) by simp
  also have "nvp\<lparr>state := IDLE, line := line nvp + 1, column := 1, pos := pos nvp + of_nat (length (0x23 # c)) + 1\<rparr> =
      nvp\<lparr>line := line nvp + 1, column := 1, pos := pos nvp + of_nat (length c + 2)\<rparr>"
    using st(1) by (cases nvp) (simp add: ac_simps)
  finally have "nvram_loop nvp = nvram_loop (nvp\<lparr>line := line nvp + 1, column := 1, pos := pos nvp + of_nat (length c + 2)\<rparr>)" .
  moreover have "unat (pos nvp) + (length c + 2) \<le> length (data nvp)"
    using arg_cong [OF d, of length] by simp
  then have "unat (pos nvp + of_nat (length c + 2)) = unat (pos nvp) + (length c + 2)"
    using st(2) by (intro unat_add_small) simp
  ultimately have "parsed (length c + 2) [] False False False nvp
      (nvp\<lparr>line := line nvp + 1, column := 1, pos := pos nvp + of_nat (length c + 2)\<rparr>)"
    by (rule parsed_plain [OF assms(1)])
  then show ?thesis by auto
qed

lemma key_scan:
  "state t = KEY \<Longrightarrow> unat (pos t) < length (data t) \<Longrightarrow> key_char (data t ! unat (pos t)) \<Longrightarrow>
   nv_parser_states KEY t = Some (KEY, t\<lparr>column := column t + 1, pos := pos t + 1\<rparr>)"
  by (auto simp: nv_parser_states_def brcmf_nvram_handle_key_def key_char_def)

lemma value_scan:
  "state t = VALUE \<Longrightarrow> unat (pos t) < length (data t) \<Longrightarrow> is_nvram_char (data t ! unat (pos t)) \<Longrightarrow>
   nv_parser_states VALUE t = Some (VALUE, t\<lparr>column := column t + 1, pos := pos t + 1\<rparr>)"
  by (auto simp: nv_parser_states_def brcmf_nvram_handle_value_def)

text \<open>From the first character of a key behind its \<open>=\<close>.\<close>

lemma key_parsed:
  assumes "at_line nvp" "drop (unat (pos nvp)) (data nvp) = k @ 0x3D # r" "k \<noteq> []" "list_all key_char k"
  shows "\<exists>c p. nvram_loop nvp = nvram_loop (nvp\<lparr>state := (if starts ''RAW1'' k \<or> strip_mac nvp \<and> starts ''macaddr'' k then COMMENT else VALUE),
      entry := pos nvp, column := c, pos := p, multi_dev_v1 := multi_dev_v1 nvp \<or> starts ''devpath'' k,
      multi_dev_v2 := multi_dev_v2 nvp \<or> starts ''pcie/'' k, boardrev_found := boardrev_found nvp \<or> starts ''boardrev'' k\<rparr>)
    \<and> unat p = unat (pos nvp) + length k + 1"
proof -
  have st: "state nvp = IDLE" "length (data nvp) < 2 ^ 31" using assms(1) by (simp_all add: at_line_def)
  obtain x xs where k: "k = x # xs" using assms(3) by (cases k) auto
  note x = drop_Cons_nth [of "unat (pos nvp)" "data nvp" x "xs @ 0x3D # r", simplified assms(2) k append_Cons, OF refl]
  have "key_char x" using assms(4) k by simp
  then have "nv_parser_states (state nvp) nvp = Some (KEY, nvp\<lparr>entry := pos nvp\<rparr>)"
    using st(1) x by (auto simp: nv_parser_states_def brcmf_nvram_handle_idle_def is_whitespace_def key_char_def is_nvram_char_def Let_def)
  from loop_step [OF x(1) this] have 1: "nvram_loop nvp = nvram_loop (nvp\<lparr>entry := pos nvp, state := KEY\<rparr>)" by simp
  let ?t = "nvp\<lparr>entry := pos nvp, state := KEY\<rparr>"
  obtain c where 2: "nvram_loop ?t = nvram_loop (?t\<lparr>column := c, pos := pos nvp + of_nat (length k)\<rparr>)"
    "unat (pos nvp + of_nat (length k)) = unat (pos nvp) + length k"
    using loop_scan [of ?t k "0x3D # r" KEY key_char] assms(2,4) st(2) key_scan by auto
  let ?u = "?t\<lparr>column := c, pos := pos nvp + of_nat (length k)\<rparr>"
  have d: "drop (unat (pos ?u)) (data ?u) = 0x3D # r" using assms(2) 2(2) by (simp add: add.commute flip: drop_drop)
  note y = drop_Cons_nth [OF d]
  note pre = str_prefix_until [OF assms(2)]
  have "nv_parser_states (state ?u) ?u = Some (if starts ''RAW1'' k \<or> strip_mac nvp \<and> starts ''macaddr'' k then COMMENT else VALUE,
      ?u\<lparr>multi_dev_v1 := multi_dev_v1 nvp \<or> starts ''devpath'' k, multi_dev_v2 := multi_dev_v2 nvp \<or> starts ''pcie/'' k,
        boardrev_found := boardrev_found nvp \<or> starts ''boardrev'' k, column := c + 1, pos := pos nvp + of_nat (length k) + 1\<rparr>)"
    using y pre chars_literals by (simp add: nv_parser_states_def brcmf_nvram_handle_key_def starts_def Let_def)
  from loop_step [OF y(1) this] have 3: "nvram_loop ?u = nvram_loop (nvp\<lparr>state := (if starts ''RAW1'' k \<or> strip_mac nvp \<and> starts ''macaddr'' k then COMMENT else VALUE),
      entry := pos nvp, column := c + 1, pos := pos nvp + of_nat (length k) + 1, multi_dev_v1 := multi_dev_v1 nvp \<or> starts ''devpath'' k,
      multi_dev_v2 := multi_dev_v2 nvp \<or> starts ''pcie/'' k, boardrev_found := boardrev_found nvp \<or> starts ''boardrev'' k\<rparr>)"
    by (cases nvp) simp
  have "unat (pos nvp + of_nat (length k) + 1) = unat (pos nvp) + length k + 1"
    using unat_add_one [of "pos nvp + of_nat (length k)"] y(1) st(2) 2(2) by simp
  then show ?thesis using trans [OF 1 trans [OF 2(1) 3]] by blast
qed

text \<open>An entry that is complete is copied behind the others.\<close>

lemma value_parsed:
  assumes "state nvp = VALUE" "drop (unat (entry nvp)) (data nvp) = e @ v @ d # r" "unat (pos nvp) = unat (entry nvp) + length e"
    and "list_all is_nvram_char v" "\<not> is_nvram_char d" "length (data nvp) < 2 ^ 31"
    and "unat (nvram_len nvp) + length (e @ v) + 1 < 64000" "unat (nvram_len nvp) + length (e @ v) + 1 \<le> length (nvram nvp)"
  shows "\<exists>c p m l. nvram_loop nvp = nvram_loop (nvp\<lparr>state := IDLE, column := c, pos := p, nvram := m, nvram_len := l\<rparr>)
    \<and> unat p = unat (pos nvp) + length v \<and> length m = length (nvram nvp) \<and> unat l = unat (nvram_len nvp) + length (e @ v) + 1
    \<and> take (unat l) m = parsed_text nvp @ e @ v @ [0]"
proof -
  have d0: "drop (unat (pos nvp)) (data nvp) = v @ d # r"
    using assms(2,3) by (simp add: add.commute flip: drop_drop)
  obtain c where 1: "nvram_loop nvp = nvram_loop (nvp\<lparr>column := c, pos := pos nvp + of_nat (length v)\<rparr>)"
    "unat (pos nvp + of_nat (length v)) = unat (pos nvp) + length v"
    using loop_scan [OF d0 assms(1) _ assms(6,4)] value_scan by auto
  let ?p = "pos nvp + of_nat (length v)"
  let ?t = "nvp\<lparr>column := c, pos := ?p\<rparr>"
  have "drop (unat (pos ?t)) (data ?t) = d # r" using d0 1(2) by (simp add: add.commute flip: drop_drop)
  note y = drop_Cons_nth [OF this]
  have cp: "unat (?p - entry nvp) = length (e @ v)"
    using 1(2) assms(3) by (simp add: unat_sub word_le_nat_alt)
  have len: "unat (nvram_len nvp + (?p - entry nvp)) = unat (nvram_len nvp) + length (e @ v)"
    using unat_add_words [of "nvram_len nvp" "?p - entry nvp"] cp assms(7) by simp
  have len1: "unat (nvram_len nvp + (?p - entry nvp) + 1) = unat (nvram_len nvp) + length (e @ v) + 1"
    using unat_add_one [of "nvram_len nvp + (?p - entry nvp)"] len assms(7) by simp
  have seg: "take (length (e @ v)) (drop (unat (entry nvp)) (data nvp)) = e @ v" by (simp add: assms(2))
  have out: "length (parsed_text nvp) = unat (nvram_len nvp)" using assms(8) by (simp add: parsed_text_def)
  define m where "m = parsed_text nvp @ (e @ v) @ drop (unat (nvram_len nvp) + length (e @ v)) (nvram nvp)"
  define m' where "m' = parsed_text nvp @ (e @ v) @ [0] @ drop (unat (nvram_len nvp) + length (e @ v) + 1) (nvram nvp)"
  have m: "buf_write (nvram nvp) (unat (nvram_len nvp)) (e @ v) = Some m"
    using assms(8) by (simp add: buf_write_def m_def parsed_text_def)
  have "length m = length (nvram nvp)" using buf_write_length [OF m] .
  then have m': "buf_write m (unat (nvram_len nvp) + length (e @ v)) [0] = Some m'"
    using assms(8) out by (simp add: buf_write_def m_def m'_def)
  have "\<not> nvram_len nvp + (?p - entry nvp) + 1 \<ge> 64000" using len1 assms(7) by (simp add: word_le_nat_alt)
  moreover have "unat (entry nvp) + length (e @ v) \<le> length (data nvp)" using arg_cong [OF assms(2), of length] by simp
  ultimately have "nv_parser_states (state ?t) ?t = Some (IDLE, ?t\<lparr>nvram := m', nvram_len := nvram_len nvp + (?p - entry nvp) + 1\<rparr>)"
    using y assms(1,5) m m' len cp seg
    by (simp add: nv_parser_states_def brcmf_nvram_handle_value_def Let_def)
  from loop_step [OF y(1) this]
  have "nvram_loop ?t = nvram_loop (nvp\<lparr>state := IDLE, column := c, pos := ?p, nvram := m', nvram_len := nvram_len nvp + (?p - entry nvp) + 1\<rparr>)"
    by (cases nvp) simp
  moreover have "length m' = length (nvram nvp)" using buf_write_length [OF m] buf_write_length [OF m'] by simp
  moreover have "take (unat (nvram_len nvp + (?p - entry nvp) + 1)) m' = parsed_text nvp @ e @ v @ [0]"
    unfolding len1 using out by (simp add: m'_def)
  ultimately show ?thesis using 1 len1 by metis
qed

lemma entry_line_parsed:
  assumes "at_line nvp" "drop (unat (pos nvp)) (data nvp) = nv_text (Nv_entry k v cr) @ r" "nv_line_wf (Nv_entry k v cr)"
    and "unat (nvram_len nvp) + length (nv_out (strip_mac nvp) (Nv_entry k v cr)) < 64000"
  shows "\<exists>nvp'. parsed (length (nv_text (Nv_entry k v cr))) (nv_out (strip_mac nvp) (Nv_entry k v cr))
    (starts ''devpath'' k) (starts ''pcie/'' k) (starts ''boardrev'' k) nvp nvp'"
proof -
  define eol :: "u8 list" where "eol = (if cr then [0x0D] else [])"
  have st: "state nvp = IDLE" "length (data nvp) < 2 ^ 31" using assms(1) by (simp_all add: at_line_def)
  have d: "drop (unat (pos nvp)) (data nvp) = k @ 0x3D # v @ eol @ 0x0A # r" using assms(2) by (simp add: eol_def)
  have len: "unat (pos nvp) + length k + 1 + length v + length eol + 1 \<le> length (data nvp)"
    using arg_cong [OF d, of length] by simp
  let ?drop = "starts ''RAW1'' k \<or> strip_mac nvp \<and> starts ''macaddr'' k"
  let ?t = "\<lambda>c p. nvp\<lparr>state := (if ?drop then COMMENT else VALUE), entry := pos nvp, column := c, pos := p,
      multi_dev_v1 := multi_dev_v1 nvp \<or> starts ''devpath'' k, multi_dev_v2 := multi_dev_v2 nvp \<or> starts ''pcie/'' k,
      boardrev_found := boardrev_found nvp \<or> starts ''boardrev'' k\<rparr>"
  obtain c p where 1: "nvram_loop nvp = nvram_loop (?t c p)" "unat p = unat (pos nvp) + length k + 1"
    using key_parsed [OF assms(1) d] assms(3) by auto
  have d1: "drop (unat p) (data nvp) = v @ eol @ 0x0A # r"
  proof -
    have "drop (unat p) (data nvp) = drop (length k + 1) (drop (unat (pos nvp)) (data nvp))"
      using 1(2) by (simp add: ac_simps)
    then show ?thesis by (simp add: d)
  qed
  have val: "0x0A \<notin> set v" "0 \<notin> set v"
    using assms(3) by (auto simp: list_all_iff is_nvram_char_def)
  show ?thesis
  proof (cases ?drop)
    case True
    let ?q = "p + of_nat (length (v @ eol)) + 1"
    have "nvram_loop (?t c p) = nvram_loop ((?t c p)\<lparr>state := IDLE, line := line (?t c p) + 1, column := 1, pos := ?q\<rparr>)"
      using comment_parsed [of "?t c p" "v @ eol" r] True d1 val by (simp add: eol_def)
    moreover have "unat ?q = unat (pos nvp) + length k + 1 + length v + length eol + 1"
      using unat_add_small [of p "length (v @ eol)"] unat_add_one [of "p + of_nat (length (v @ eol))"] 1(2) len st(2) by simp
    ultimately have "parsed (length (nv_text (Nv_entry k v cr))) [] (starts ''devpath'' k) (starts ''pcie/'' k) (starts ''boardrev'' k) nvp
        ((?t c p)\<lparr>state := IDLE, line := line (?t c p) + 1, column := 1, pos := ?q\<rparr>)"
      using 1(1) assms(1) by (simp add: parsed_def at_line_def parsed_text_def eol_def)
    then show ?thesis using True by auto
  next
    case False
    define out where "out = k @ 0x3D # v @ [0]"
    have room: "unat (nvram_len nvp) + length out < 64000" using assms(4) False by (simp add: out_def)
    have buf: "min (length (data nvp)) 64000 + 48 \<le> length (nvram nvp)" "unat (nvram_len nvp) \<le> unat (pos nvp)"
      using assms(1) by (simp_all add: at_line_def)
    have room': "unat (nvram_len nvp) + length out \<le> length (nvram nvp)" using room buf len by (auto simp: out_def)
    obtain d' rest where dr: "eol @ 0x0A # r = d' # rest" "\<not> is_nvram_char d'"
      by (cases cr) (auto simp: eol_def is_nvram_char_def)
    obtain c2 p2 m l where 2: "nvram_loop (?t c p) = nvram_loop ((?t c p)\<lparr>state := IDLE, column := c2, pos := p2, nvram := m, nvram_len := l\<rparr>)"
      "unat p2 = unat p + length v" "length m = length (nvram nvp)" "unat l = unat (nvram_len nvp) + length out"
      "take (unat l) m = parsed_text nvp @ out"
      using value_parsed [of "?t c p" "k @ [0x3D]" v d' rest] False d dr 1(2) assms(3) st(2) room room'
      by (auto simp: out_def parsed_text_def)
    let ?u = "(?t c p)\<lparr>state := IDLE, column := c2, pos := p2, nvram := m, nvram_len := l\<rparr>"
    have "drop (unat p2) (data nvp) = eol @ 0x0A # r" using d1 2(2) by (simp add: add.commute flip: drop_drop)
    moreover have "set eol \<subseteq> {0x20, 0x09, 0x0D}" by (cases cr) (simp_all add: eol_def)
    ultimately obtain l3 c3 where 3: "nvram_loop ?u = nvram_loop (?u\<lparr>line := l3, column := c3, pos := p2 + of_nat (length eol) + 1\<rparr>)"
      "unat (p2 + of_nat (length eol) + 1) = unat p2 + length eol + 1"
      using blank_parsed [of ?u eol r] st(2) by auto
    have "parsed (length (nv_text (Nv_entry k v cr))) out (starts ''devpath'' k) (starts ''pcie/'' k) (starts ''boardrev'' k) nvp
        (?u\<lparr>line := l3, column := c3, pos := p2 + of_nat (length eol) + 1\<rparr>)"
      using 1 2 3 assms(1) by (simp add: parsed_def at_line_def parsed_text_def eol_def out_def)
    then show ?thesis using False by (auto simp: out_def)
  qed
qed

lemma parsed_trans:
  "parsed n out a b c nvp t \<Longrightarrow> parsed n' out' a' b' c' t u \<Longrightarrow>
   parsed (n + n') (out @ out') (a \<or> a') (b \<or> b') (c \<or> c') nvp u"
  by (auto simp: parsed_def)

lemma line_parsed:
  assumes "at_line nvp" "drop (unat (pos nvp)) (data nvp) = nv_text l @ r" "nv_line_wf l"
    and "unat (nvram_len nvp) + length (nv_out (strip_mac nvp) l) < 64000"
  shows "\<exists>nvp'. parsed (length (nv_text l)) (nv_out (strip_mac nvp) l)
    (nv_key_starts ''devpath'' l) (nv_key_starts ''pcie/'' l) (nv_key_starts ''boardrev'' l) nvp nvp'"
proof (cases l)
  case (Nv_entry k v cr)
  then show ?thesis using entry_line_parsed [of nvp k v cr r] assms by simp
next
  case (Nv_comment c)
  then show ?thesis using comment_line_parsed [of nvp c r] assms by simp
next
  case (Nv_blank ws)
  then show ?thesis using blank_line_parsed [of nvp ws r] assms by simp
qed

lemma lines_parsed:
  assumes "at_line nvp" "drop (unat (pos nvp)) (data nvp) = concat (map nv_text ls) @ r" "list_all nv_line_wf ls"
    and "unat (nvram_len nvp) + length (concat (map (nv_out (strip_mac nvp)) ls)) < 64000"
  shows "\<exists>nvp'. parsed (length (concat (map nv_text ls))) (concat (map (nv_out (strip_mac nvp)) ls))
    (list_ex (nv_key_starts ''devpath'') ls) (list_ex (nv_key_starts ''pcie/'') ls) (list_ex (nv_key_starts ''boardrev'') ls) nvp nvp'"
  using assms
proof (induction ls arbitrary: nvp)
  case Nil
  then have "parsed 0 [] False False False nvp nvp" by (simp add: parsed_def)
  then show ?case by auto
next
  case (Cons l ls)
  obtain t where t: "parsed (length (nv_text l)) (nv_out (strip_mac nvp) l)
    (nv_key_starts ''devpath'' l) (nv_key_starts ''pcie/'' l) (nv_key_starts ''boardrev'' l) nvp t"
    using line_parsed [of nvp l "concat (map nv_text ls) @ r"] Cons.prems by auto
  then have t': "at_line t" "unat (pos t) = unat (pos nvp) + length (nv_text l)" "data t = data nvp" "strip_mac t = strip_mac nvp"
    "unat (nvram_len t) = unat (nvram_len nvp) + length (nv_out (strip_mac nvp) l)" by (simp_all add: parsed_def)
  have "drop (unat (pos t)) (data t) = concat (map nv_text ls) @ r"
    using Cons.prems(2) t'(2,3) by (simp add: add.commute flip: drop_drop)
  then obtain u where "parsed (length (concat (map nv_text ls))) (concat (map (nv_out (strip_mac nvp)) ls))
    (list_ex (nv_key_starts ''devpath'') ls) (list_ex (nv_key_starts ''pcie/'') ls) (list_ex (nv_key_starts ''boardrev'') ls) t u"
    using Cons.IH [of t] Cons.prems t' by auto
  from parsed_trans [OF t this] show ?case by auto
qed

definition nv_file :: "nv_line list \<Rightarrow> u8 list" where
  "nv_file ls = concat (map nv_text ls)"

definition nv_entries :: "bool \<Rightarrow> nv_line list \<Rightarrow> u8 list" where
  "nv_entries sm ls = concat (map (nv_out sm) ls)"

lemma file_parsed:
  assumes "list_all nv_line_wf ls" "length (nv_entries sm ls) < 64000" "length (nv_file ls) < 2 ^ 31"
    and "brcmf_init_nvram_parser True (nv_file ls) = Inr nvp"
  shows "\<exists>nvp'. nvram_loop (nvp\<lparr>strip_mac := sm\<rparr>) = Some nvp' \<and> parsed_text nvp' = nv_entries sm ls
    \<and> unat (nvram_len nvp') = length (nv_entries sm ls) \<and> strip_mac nvp' = sm
    \<and> multi_dev_v1 nvp' = list_ex (nv_key_starts ''devpath'') ls \<and> multi_dev_v2 nvp' = list_ex (nv_key_starts ''pcie/'') ls
    \<and> boardrev_found nvp' = list_ex (nv_key_starts ''boardrev'') ls \<and> length (nvram nvp') = length (nvram nvp)
    \<and> length (nv_entries sm ls) + 48 \<le> length (nvram nvp)"
proof -
  have l13: "length BRCMF_FW_DEFAULT_BOARDREV = 13" by code_simp
  let ?s = "nvp\<lparr>strip_mac := sm\<rparr>"
  have init: "at_line ?s" "pos nvp = 0" "nvram_len nvp = 0" "data nvp = nv_file ls" "\<not> multi_dev_v1 nvp" "\<not> multi_dev_v2 nvp"
    "\<not> boardrev_found nvp" "length (nvram nvp) = min (length (nv_file ls)) 64000 + 48"
    using assms(3,4) l13 by (auto simp: brcmf_init_nvram_parser_def at_line_def Let_def)
  obtain u where u: "parsed (length (nv_file ls)) (nv_entries sm ls)
    (list_ex (nv_key_starts ''devpath'') ls) (list_ex (nv_key_starts ''pcie/'') ls) (list_ex (nv_key_starts ''boardrev'') ls) ?s u"
    using lines_parsed [of ?s ls "[]"] init assms(1,2) by (auto simp: nv_file_def nv_entries_def)
  have at: "at_line u" "unat (pos u) = length (data u)" "nvram_loop ?s = nvram_loop u"
    and len: "unat (nvram_len u) = length (nv_entries sm ls)"
    using u init by (simp_all add: parsed_def)
  have "nvram_loop u = Some u" using at(2) by (subst nvram_loop.simps) simp
  moreover have "length (nv_entries sm ls) \<le> length (nv_file ls)"
    using at(1,2) len u init(4) by (simp add: at_line_def parsed_def)
  ultimately show ?thesis using u init at(3) assms(2) len
    by (intro exI [of _ u]) (simp add: parsed_def parsed_text_def)
qed

text \<open>
  Parsing a well-formed text gives its entries in order, each ended by a NUL, without
  comments, white space, entries of the key \<open>RAW1\<close> and, when the platform has an address,
  addresses; and it tells whether keys for several devices and the board revision were seen.
\<close>

theorem nvram_parse_yields_entries:
  assumes "list_all nv_line_wf ls" "length (nv_entries sm ls) < BRCMF_FW_MAX_NVRAM_SIZE" "length (nv_file ls) < 2 ^ 31"
    and "brcmf_init_nvram_parser True (nv_file ls) = Inr nvp"
  shows "\<exists>nvp'. nvram_loop (nvp\<lparr>strip_mac := sm\<rparr>) = Some nvp' \<and> parsed_text nvp' = nv_entries sm ls
    \<and> multi_dev_v1 nvp' = list_ex (nv_key_starts ''devpath'') ls \<and> multi_dev_v2 nvp' = list_ex (nv_key_starts ''pcie/'') ls
    \<and> boardrev_found nvp' = list_ex (nv_key_starts ''boardrev'') ls"
  using file_parsed [OF assms] by blast

definition sample_lines :: "nv_line list" where
  "sample_lines = [Nv_comment [0x68, 0x69], Nv_entry [0x61] [0x62] True, Nv_blank [0x09], Nv_entry (chars ''boardrev'') [0x33] False]"

lemma sample_lines_wf: "list_all nv_line_wf sample_lines"
  by code_simp

lemma sample_entries: "nv_entries True sample_lines = [0x61, 0x3D, 0x62, 0] @ chars ''boardrev=3'' @ [0]"
  by code_simp

lemma sample_length: "length (nv_entries True sample_lines) = 15" "length (nv_file sample_lines) = 22"
  by code_simp+

theorem nvram_parse_yields_entries_witness:
  "\<exists>nvp nvp'. brcmf_init_nvram_parser True (nv_file sample_lines) = Inr nvp \<and> nvram_loop (nvp\<lparr>strip_mac := True\<rparr>) = Some nvp' \<and>
     parsed_text nvp' = [0x61, 0x3D, 0x62, 0] @ chars ''boardrev=3'' @ [0] \<and> boardrev_found nvp'"
proof -
  obtain nvp where nvp: "brcmf_init_nvram_parser True (nv_file sample_lines) = Inr nvp"
    by (simp add: brcmf_init_nvram_parser_def Let_def)
  have "list_ex (nv_key_starts ''boardrev'') sample_lines" by code_simp
  then show ?thesis
    using nvram_parse_yields_entries [OF sample_lines_wf _ _ nvp, of True] sample_length sample_entries nvp by auto
qed

end
