(* ===== verification/Nvram_Strip.thy ===== *)
theory Nvram_Strip
  imports Nvram
begin

section \<open>The image handed to the firmware, and texts for several devices\<close>

text \<open>
  \<open>nv_reader\<close> is the reference reader of an image: the token at the end tells the length, and the
  entries are the non-empty pieces between NULs. On texts for one device,
  \<open>brcmf_fw_nvram_strip\<close> followed by the reader gives the entries of the text and the additions.
  On texts with the long form of device paths, the entries of the device are selected and lose the
  path. Two kinds of texts make the code leave its buffers, and the short form may select the
  entries of another device.
\<close>

subsection \<open>The last steps of stripping\<close>

text \<open>What is added behind the entries.\<close>

definition additions :: "bool \<Rightarrow> u8 list option \<Rightarrow> u8 list" where
  "additions found mac = (if found then [] else BRCMF_FW_DEFAULT_BOARDREV @ [0])
     @ (case mac of None \<Rightarrow> [] | Some a \<Rightarrow> chars ''macaddr='' @ mac_text a @ [0])"

definition mac_ok :: "u8 list option \<Rightarrow> bool" where
  "mac_ok mac \<longleftrightarrow> (case mac of None \<Rightarrow> True | Some a \<Rightarrow> length a = 6)"

text \<open>The padding that follows \<open>n\<close> bytes: at least one, up to a multiple of four.\<close>

definition padding :: "nat \<Rightarrow> nat" where
  "padding n = (n + 4) div 4 * 4 - n"

definition nv_image :: "u8 list \<Rightarrow> u8 list" where
  "nv_image body = (let n = length body + padding (length body)
     in body @ replicate (padding (length body)) 0 @ le32_bytes (length_token (of_nat n)))"

definition nv_finish :: "u8 list option \<Rightarrow> nvram_parser \<Rightarrow> (u8 list \<times> u32) option option" where
  "nv_finish mac nvp = do {
     nvp \<leftarrow> brcmf_fw_add_defaults nvp;
     nvp \<leftarrow> (case mac of None \<Rightarrow> Some nvp | Some a \<Rightarrow> brcmf_fw_add_macaddr a nvp);
     let new_length = roundup4 (nvram_len nvp + 1);
     m \<leftarrow> buf_write (nvram nvp) (unat (nvram_len nvp)) (replicate (unat (new_length - nvram_len nvp)) 0);
     m \<leftarrow> buf_write m (unat new_length) (le32_bytes (length_token new_length));
     Some (Some (m, new_length + 4))
   }"

lemma padding_bounds: "1 \<le> padding n" "padding n \<le> 4" "(n + padding n) mod 4 = 0"
  by (auto simp: padding_def)

lemma unat_roundup4: "unat w < 4294967200 \<Longrightarrow> unat (roundup4 (w + 1)) = unat w + padding (unat w)"
proof -
  assume w: "unat w < 4294967200"
  have "unat (w + 1 + 3) = unat w + 4"
    using unat_add_small [of w 4] w by (simp add: add.assoc)
  then show ?thesis
    using w by (simp add: roundup4_def padding_def unat_word_ariths unat_div)
qed

text \<open>Writing behind the text.\<close>

lemma append_written:
  assumes "unat (nvram_len nvp) \<le> length (nvram nvp)"
  shows "buf_write (nvram nvp) (unat (nvram_len nvp)) bs =
    (if unat (nvram_len nvp) + length bs \<le> length (nvram nvp)
     then Some (parsed_text nvp @ bs @ drop (unat (nvram_len nvp) + length bs) (nvram nvp)) else None)"
  by (simp add: buf_write_def parsed_text_def)

text \<open>The parser record with \<open>bs\<close> appended to its result.\<close>

definition appended :: "u8 list \<Rightarrow> nvram_parser \<Rightarrow> nvram_parser" where
  "appended bs nvp = nvp\<lparr>nvram := parsed_text nvp @ bs @ drop (unat (nvram_len nvp) + length bs) (nvram nvp),
     nvram_len := nvram_len nvp + of_nat (length bs)\<rparr>"

definition roomy :: "nvram_parser \<Rightarrow> bool" where
  "roomy nvp \<longleftrightarrow> unat (nvram_len nvp) \<le> length (nvram nvp) \<and> length (nvram nvp) < 2 ^ 31"

lemma appended_simps:
  assumes "roomy nvp" "unat (nvram_len nvp) + length bs \<le> length (nvram nvp)"
  shows "roomy (appended bs nvp)" "unat (nvram_len (appended bs nvp)) = unat (nvram_len nvp) + length bs"
    "length (nvram (appended bs nvp)) = length (nvram nvp)" "parsed_text (appended bs nvp) = parsed_text nvp @ bs"
    "boardrev_found (appended bs nvp) = boardrev_found nvp"
proof -
  have len: "unat (nvram_len (appended bs nvp)) = unat (nvram_len nvp) + length bs"
    using unat_add_small [of "nvram_len nvp" "length bs"] assms by (simp add: appended_def roomy_def)
  have out: "length (parsed_text nvp) = unat (nvram_len nvp)" using assms(1) by (simp add: parsed_text_def roomy_def)
  show "length (nvram (appended bs nvp)) = length (nvram nvp)" using assms out by (simp add: appended_def)
  then show "roomy (appended bs nvp)" using assms len by (simp add: roomy_def)
  show "unat (nvram_len (appended bs nvp)) = unat (nvram_len nvp) + length bs" by (rule len)
  show "parsed_text (appended bs nvp) = parsed_text nvp @ bs"
    unfolding parsed_text_def [of "appended bs nvp"] len by (simp add: appended_def out)
  show "boardrev_found (appended bs nvp) = boardrev_found nvp" by (simp add: appended_def)
qed

lemma appended_drop:
  assumes "roomy nvp" "unat (nvram_len nvp) + length bs \<le> n"
  shows "drop n (nvram (appended bs nvp)) = drop n (nvram nvp)"
proof -
  have "length (parsed_text nvp) = unat (nvram_len nvp)" using assms(1) by (simp add: parsed_text_def roomy_def)
  then show ?thesis using assms(2) by (simp add: appended_def)
qed

lemma mac_text_length: "a \<noteq> [] \<Longrightarrow> length (mac_text a) = 3 * length a - 1"
  by (induction a rule: mac_text.induct) auto

lemma boardrev_length: "length BRCMF_FW_DEFAULT_BOARDREV = 13"
  by code_simp

lemma add_defaults_appended:
  assumes "roomy nvp"
  shows "brcmf_fw_add_defaults nvp =
    (let bs = (if boardrev_found nvp then [] else BRCMF_FW_DEFAULT_BOARDREV @ [0])
     in if unat (nvram_len nvp) + length bs \<le> length (nvram nvp) then Some (if boardrev_found nvp then nvp else appended bs nvp) else None)"
  using assms append_written [of nvp "BRCMF_FW_DEFAULT_BOARDREV @ [0]"] boardrev_length
  by (simp add: brcmf_fw_add_defaults_def appended_def roomy_def add.assoc)

lemma add_macaddr_appended:
  assumes "roomy nvp" "length a = 6"
  shows "brcmf_fw_add_macaddr a nvp =
    (if unat (nvram_len nvp) + 26 \<le> length (nvram nvp) then Some (appended (chars ''macaddr='' @ mac_text a @ [0]) nvp) else None)"
proof -
  have tlen: "length (mac_text a) = 17" using mac_text_length [of a] assms(2) by fastforce
  have len: "length (chars ''macaddr='') = 8" by code_simp
  then have t: "take 25 (chars ''macaddr='' @ mac_text a) = chars ''macaddr='' @ mac_text a" using tlen by simp
  show ?thesis
    using assms(1) append_written [of nvp "(chars ''macaddr='' @ mac_text a) @ [0]"] tlen len
    unfolding brcmf_fw_add_macaddr_def Let_def t by (simp add: appended_def roomy_def add.assoc)
qed


lemma image_length: "length (nv_image body) = length body + padding (length body) + 4"
  by (simp add: nv_image_def Let_def)

lemma finish_tail:
  assumes "roomy u"
  defines "new \<equiv> roundup4 (nvram_len u + 1)"
  shows "Option.bind (buf_write (nvram u) (unat (nvram_len u)) (replicate (unat (new - nvram_len u)) 0)) (\<lambda>m.
      Option.bind (buf_write m (unat new) (le32_bytes (length_token new))) (\<lambda>m. Some (Some (m, new + 4)))) =
    (let img = nv_image (parsed_text u) in if length img \<le> length (nvram u)
      then Some (Some (img @ drop (length img) (nvram u), of_nat (length img))) else None)"
proof -
  let ?b = "parsed_text u" and ?p = "padding (unat (nvram_len u))"
  let ?n = "unat (nvram_len u) + ?p"
  have small: "unat (nvram_len u) \<le> length (nvram u)" "length (nvram u) < 2147483648" using assms(1) by (simp_all add: roomy_def)
  have out: "length ?b = unat (nvram_len u)" using small by (simp add: parsed_text_def)
  have new: "unat new = ?n" unfolding new_def using unat_roundup4 [of "nvram_len u"] small by simp
  then have new': "new = of_nat ?n" by (intro unat_eqD) (use unat_of_nat_le [of ?n new] in simp)
  have "unat (new - nvram_len u) = ?p" using new by (simp add: unat_sub word_le_nat_alt)
  then have w: "buf_write (nvram u) (unat (nvram_len u)) (replicate (unat (new - nvram_len u)) 0) =
    (if ?n \<le> length (nvram u) then Some (?b @ replicate ?p 0 @ drop ?n (nvram u)) else None)"
    using append_written [of u "replicate ?p 0"] small by simp
  let ?m = "?b @ replicate ?p 0 @ drop ?n (nvram u)"
  have tok: "buf_write ?m ?n bs = (if ?n + length bs \<le> length (nvram u)
      then Some (?b @ replicate ?p 0 @ bs @ drop (?n + length bs) (nvram u)) else None)" if "?n \<le> length (nvram u)" for bs
    using that out by (simp add: buf_write_def add.commute)
  have "new + 4 = of_nat (?n + 4)" by (simp add: new')
  moreover have "nv_image ?b = ?b @ replicate ?p 0 @ le32_bytes (length_token new)" by (simp add: nv_image_def out new' Let_def)
  ultimately show ?thesis using w tok new out by (simp add: Let_def add.assoc)
qed

lemma mac_entry_length: "length a = 6 \<Longrightarrow> length (chars ''macaddr='' @ mac_text a @ [0]) = 26"
proof -
  assume a: "length a = 6"
  then have "length (mac_text a) = 17" using mac_text_length [of a] by (cases a) simp_all
  moreover have "length (chars ''macaddr='') = 8" by code_simp
  ultimately show ?thesis by simp
qed

lemma finish_image:
  assumes "roomy nvp" "mac_ok mac"
  shows "nv_finish mac nvp = (let img = nv_image (parsed_text nvp @ additions (boardrev_found nvp) mac) in
    if length img \<le> length (nvram nvp) then Some (Some (img @ drop (length img) (nvram nvp), of_nat (length img))) else None)"
proof -
  let ?d = "if boardrev_found nvp then [] else BRCMF_FW_DEFAULT_BOARDREV @ [0]"
  let ?a = "case mac of None \<Rightarrow> [] | Some a \<Rightarrow> chars ''macaddr='' @ mac_text a @ [0]"
  have out: "length (parsed_text nvp) = unat (nvram_len nvp)" using assms(1) by (simp add: parsed_text_def roomy_def)
  have img: "length (nv_image (parsed_text nvp @ additions (boardrev_found nvp) mac)) \<ge> unat (nvram_len nvp) + length ?d + length ?a + 4"
    by (simp add: image_length additions_def out)
  show ?thesis
  proof (cases "unat (nvram_len nvp) + length ?d \<le> length (nvram nvp)")
    case False
    then have "brcmf_fw_add_defaults nvp = None" using add_defaults_appended [OF assms(1)] by (simp add: Let_def split: if_splits)
    with False img show ?thesis by (simp add: nv_finish_def Let_def)
  next
    case True
    define t where "t = (if boardrev_found nvp then nvp else appended (BRCMF_FW_DEFAULT_BOARDREV @ [0]) nvp)"
    have t: "brcmf_fw_add_defaults nvp = Some t" using add_defaults_appended [OF assms(1)] True
      by (simp add: t_def Let_def split: if_splits)
    have t': "roomy t" "unat (nvram_len t) = unat (nvram_len nvp) + length ?d" "length (nvram t) = length (nvram nvp)"
      "parsed_text t = parsed_text nvp @ ?d" using assms(1) appended_simps [OF assms(1) True] by (cases "boardrev_found nvp"; simp add: t_def)+
    have drop_t: "drop n (nvram t) = drop n (nvram nvp)" if "unat (nvram_len t) \<le> n" for n
      using that t'(2) appended_drop [OF assms(1), of ?d n] by (cases "boardrev_found nvp") (simp_all add: t_def)
    show ?thesis
    proof (cases mac)
      case None
      have "drop (length (nv_image (parsed_text t))) (nvram t) = drop (length (nv_image (parsed_text t))) (nvram nvp)"
        by (rule drop_t) (use t' out in \<open>simp add: image_length\<close>)
      then show ?thesis using t t' finish_tail [OF t'(1)] None by (simp add: nv_finish_def additions_def Let_def)
    next
      case (Some a)
      let ?ma = "chars ''macaddr='' @ mac_text a @ [0]"
      have six: "length a = 6" using assms(2) Some by (simp add: mac_ok_def)
      then have l: "length ?ma = 26" by (rule mac_entry_length)
      show ?thesis
      proof (cases "unat (nvram_len t) + 26 \<le> length (nvram t)")
        case False
        then have "brcmf_fw_add_macaddr a t = None" using add_macaddr_appended [OF t'(1) six] by simp
        with False img t t' Some l show ?thesis by (simp add: nv_finish_def Let_def)
      next
        case True
        then have u: "brcmf_fw_add_macaddr a t = Some (appended ?ma t)" using add_macaddr_appended [OF t'(1) six] by simp
        have room: "unat (nvram_len t) + length ?ma \<le> length (nvram t)" using True unfolding l .
        note u' = appended_simps [OF t'(1) room]
        have drop_u: "drop n (nvram (appended ?ma t)) = drop n (nvram nvp)" if "unat (nvram_len t) + length ?ma \<le> n" for n
          using that drop_t [of n] appended_drop [OF t'(1) that] by simp
        have "drop (length (nv_image (parsed_text (appended ?ma t)))) (nvram (appended ?ma t)) =
            drop (length (nv_image (parsed_text (appended ?ma t)))) (nvram nvp)"
          by (rule drop_u) (use t' out u'(4) in \<open>simp add: image_length\<close>)
        then show ?thesis
          using t u t' finish_tail [OF u'(1)] u' Some by (simp add: nv_finish_def additions_def Let_def)
      qed
    qed
  qed
qed


subsection \<open>Reading the image back\<close>

text \<open>The non-empty pieces between NULs; \<open>p\<close> is the piece begun before.\<close>

fun nul_pieces :: "u8 list \<Rightarrow> u8 list \<Rightarrow> u8 list list" where
  "nul_pieces p [] = (if p = [] then [] else [p])"
| "nul_pieces p (x # xs) =
     (if x = 0 then (if p = [] then [] else [p]) @ nul_pieces [] xs else nul_pieces (p @ [x]) xs)"

definition nv_reader :: "u8 list \<Rightarrow> u8 list list option" where
  "nv_reader img =
     (let n = length img - 4; tok = le32_of (img ! n) (img ! (n + 1)) (img ! (n + 2)) (img ! (n + 3))
      in if 4 \<le> length img \<and> drop_bit 16 tok = NOT tok AND 0xFFFF \<and> 4 * unat (tok AND 0xFFFF) = n
         then Some (nul_pieces [] (take n img)) else None)"

fun nv_kept :: "bool \<Rightarrow> nv_line \<Rightarrow> u8 list list" where
  "nv_kept sm (Nv_entry k v cr) = (if starts ''RAW1'' k \<or> sm \<and> starts ''macaddr'' k then [] else [k @ 0x3D # v])"
| "nv_kept sm _ = []"

definition nv_added :: "bool \<Rightarrow> u8 list option \<Rightarrow> u8 list list" where
  "nv_added found mac = (if found then [] else [BRCMF_FW_DEFAULT_BOARDREV])
     @ (case mac of None \<Rightarrow> [] | Some a \<Rightarrow> [chars ''macaddr='' @ mac_text a])"

definition ended :: "u8 list list \<Rightarrow> u8 list" where
  "ended es = concat (map (\<lambda>e. e @ [0]) es)"

lemma ended_simps [simp]: "ended [] = []" "ended (e # es) = e @ 0 # ended es" "ended (es @ fs) = ended es @ ended fs"
  by (simp_all add: ended_def)

lemma nul_pieces_entry:
  "0 \<notin> set e \<Longrightarrow> nul_pieces p (e @ 0 # r) = (if p @ e = [] then [] else [p @ e]) @ nul_pieces [] r"
  by (induction e arbitrary: p) auto

lemma nul_pieces_zeros: "nul_pieces [] (replicate n 0) = []"
  by (induction n) auto

lemma nul_pieces_ended:
  "list_all (\<lambda>e. 0 \<notin> set e \<and> e \<noteq> []) es \<Longrightarrow> nul_pieces [] (ended es @ replicate n 0) = es"
  by (induction es) (simp_all add: nul_pieces_entry nul_pieces_zeros)

lemma token_halves:
  assumes "n mod 4 = 0" "n < 262144"
  defines "tok \<equiv> length_token (of_nat n)"
  shows "drop_bit 16 tok = NOT tok AND 0xFFFF" "4 * unat (tok AND 0xFFFF) = n"
proof -
  define t :: u32 where "t = of_nat n div 4"
  have m: "(0xFFFF :: u32) = mask 16" by (simp add: mask_eq_exp_minus_1)
  have t: "unat t = n div 4" using assms(2) by (simp add: t_def unat_div unsigned_of_nat take_bit_nat_eq_self)
  have tok: "tok = push_bit 16 (NOT t) OR (t AND mask 16)" by (simp add: tok_def length_token_def t_def m Let_def)
  show "drop_bit 16 tok = NOT tok AND 0xFFFF"
    unfolding m tok by (rule bit_word_eqI) (auto simp: bit_simps)
  have "tok AND mask 16 = t AND mask 16" unfolding tok by (rule bit_word_eqI) (auto simp: bit_simps)
  also have "\<dots> = take_bit 16 t" by (simp add: take_bit_eq_mask)
  finally have "unat (tok AND mask 16) = take_bit 16 (unat t)" by (simp add: unsigned_take_bit_eq)
  then show "4 * unat (tok AND 0xFFFF) = n"
    unfolding m using t assms(1,2) by (auto simp: take_bit_nat_eq_self)
qed

lemma reader_of_token:
  "nv_reader (b @ le32_bytes w) = (if drop_bit 16 w = NOT w AND 0xFFFF \<and> 4 * unat (w AND 0xFFFF) = length b
     then Some (nul_pieces [] b) else None)"
  by (simp add: nv_reader_def nth_append le32_bytes_def Let_def)

lemma image_read_back:
  assumes "list_all (\<lambda>e. 0 \<notin> set e \<and> e \<noteq> []) es" "length (ended es) < 262000"
  shows "nv_reader (nv_image (ended es)) = Some es" "length (nv_image (ended es)) mod 4 = 0"
proof -
  let ?l = "length (ended es)"
  let ?n = "?l + padding ?l"
  have pad: "padding ?l \<le> 4" "?n mod 4 = 0" by (rule padding_bounds)+
  have "?n < 262144" using pad(1) assms(2) by simp
  note tok = token_halves [OF pad(2) this]
  have img: "nv_image (ended es) = (ended es @ replicate (padding ?l) 0) @ le32_bytes (length_token (of_nat ?n))"
    by (simp add: nv_image_def Let_def)
  have len: "length (ended es @ replicate (padding ?l) 0) = ?n" by simp
  show "length (nv_image (ended es)) mod 4 = 0" using pad(2) by (simp add: image_length mod_add_left_eq [symmetric, of _ 4])
  show "nv_reader (nv_image (ended es)) = Some es"
    unfolding img reader_of_token len using tok nul_pieces_ended [OF assms(1)] by simp
qed

lemma ended_kept: "ended (concat (map (nv_kept sm) ls)) = nv_entries sm ls"
proof (induction ls)
  case (Cons l ls)
  then show ?case by (cases l) (auto simp: nv_entries_def)
qed (simp add: nv_entries_def)

lemma ended_added: "ended (nv_added found mac) = additions found mac"
  by (cases mac) (simp_all add: nv_added_def additions_def)

lemma kept_pieces: "list_all nv_line_wf ls \<Longrightarrow> list_all (\<lambda>e. 0 \<notin> set e \<and> e \<noteq> []) (concat (map (nv_kept sm) ls))"
proof (induction ls)
  case (Cons l ls)
  then show ?case by (cases l) (auto simp: list_all_iff key_char_def is_nvram_char_def)
qed simp

lemma mac_text_nonzero: "0 \<notin> set (mac_text a)"
proof -
  have low: "hex_digit (b AND 15) \<noteq> 0" "hex_digit (drop_bit 4 b) \<noteq> 0" for b
  proof -
    have nz: "d \<le> 15 \<Longrightarrow> hex_digit d \<noteq> 0" for d :: u8
    proof
      assume d: "d \<le> 15" "hex_digit d = 0"
      then have "unat d \<le> 15" by (simp add: word_le_nat_alt)
      moreover have "unat (hex_digit d) = unat d + (if d < 10 then 48 else 87)"
        using \<open>unat d \<le> 15\<close> by (simp add: hex_digit_def unat_word_ariths)
      ultimately show False using d(2) by (simp split: if_splits)
    qed
    have "b AND 15 \<le> 15" by (simp add: word_and_le1)
    moreover have "unat b div 16 \<le> 15" using unat_u8_lt [of b] by linarith
    then have "drop_bit 4 b \<le> 15" by (simp add: word_le_nat_alt drop_bit_eq_div unat_div)
    ultimately show "hex_digit (b AND 15) \<noteq> 0" "hex_digit (drop_bit 4 b) \<noteq> 0" using nz by auto
  qed
  show ?thesis by (induction a rule: mac_text.induct) (use low in \<open>simp_all add: eq_commute [of 0]\<close>)
qed

lemma added_pieces: "list_all (\<lambda>e. 0 \<notin> set e \<and> e \<noteq> []) (nv_added found mac)"
proof -
  have "0 \<notin> set BRCMF_FW_DEFAULT_BOARDREV" "0 \<notin> set (chars ''macaddr='')" "BRCMF_FW_DEFAULT_BOARDREV \<noteq> []" "chars ''macaddr='' \<noteq> []"
    by code_simp+
  then show ?thesis using mac_text_nonzero by (cases mac) (simp_all add: nv_added_def)
qed


lemma strip_unfold:
  assumes "alloc 0"
  shows "brcmf_fw_nvram_strip alloc mac dn bn dat = do {
      nvp \<leftarrow> nvram_loop ((projr (brcmf_init_nvram_parser True dat))\<lparr>strip_mac := (mac \<noteq> None)\<rparr>);
      nvp \<leftarrow> (if multi_dev_v1 nvp
              then brcmf_fw_strip_multi_v1 (alloc 1) dn bn (nvp\<lparr>boardrev_found := False\<rparr>)
              else if multi_dev_v2 nvp
              then brcmf_fw_strip_multi_v2 (alloc 1) dn bn (nvp\<lparr>boardrev_found := False\<rparr>)
              else Some nvp);
      if nvram_len nvp = 0 then Some None else nv_finish mac nvp
    }"
  using assms by (simp add: brcmf_fw_nvram_strip_def brcmf_init_nvram_parser_def nv_finish_def Let_def cong: if_cong)

lemma init_ok: "brcmf_init_nvram_parser True dat = Inr (projr (brcmf_init_nvram_parser True dat))"
  by (simp add: brcmf_init_nvram_parser_def Let_def)

lemma init_length: "length (nvram (projr (brcmf_init_nvram_parser True dat))) = min (length dat) 64000 + 48"
  using boardrev_length by (simp add: brcmf_init_nvram_parser_def Let_def)

text \<open>
  C9: The image made of a well-formed text for one device fits its buffer, its length is a
  multiple of four, and reading it back (length from the token, entries from the NULs) gives the
  entries of the text in order, then the default board revision when the text had none, then the
  address of the platform when there is one.
\<close>

theorem nvram_strip_read_back:
  assumes "list_all nv_line_wf ls" "length (nv_entries (mac \<noteq> None) ls) < BRCMF_FW_MAX_NVRAM_SIZE" "length (nv_file ls) < 2 ^ 31"
    and "nv_entries (mac \<noteq> None) ls \<noteq> []" "\<not> list_ex (nv_key_starts ''devpath'') ls" "\<not> list_ex (nv_key_starts ''pcie/'') ls"
    and "mac_ok mac" "alloc 0"
  shows "\<exists>buf n. brcmf_fw_nvram_strip alloc mac dn bn (nv_file ls) = Some (Some (buf, n)) \<and> unat n \<le> length buf \<and> unat n mod 4 = 0
    \<and> nv_reader (take (unat n) buf) =
        Some (concat (map (nv_kept (mac \<noteq> None)) ls) @ nv_added (list_ex (nv_key_starts ''boardrev'') ls) mac)"
proof -
  let ?sm = "mac \<noteq> None" and ?found = "list_ex (nv_key_starts ''boardrev'') ls"
  let ?es = "concat (map (nv_kept ?sm) ls) @ nv_added ?found mac"
  let ?img = "nv_image (ended ?es)"
  obtain t where t: "nvram_loop ((projr (brcmf_init_nvram_parser True (nv_file ls)))\<lparr>strip_mac := ?sm\<rparr>) = Some t"
    "parsed_text t = nv_entries ?sm ls" "unat (nvram_len t) = length (nv_entries ?sm ls)" "\<not> multi_dev_v1 t" "\<not> multi_dev_v2 t"
    "boardrev_found t = ?found" "length (nv_entries ?sm ls) + 48 \<le> length (nvram t)" "length (nvram t) \<le> 64048"
    using file_parsed [OF assms(1-3) init_ok] assms(5,6) init_length [of "nv_file ls"] by auto
  have body: "parsed_text t @ additions (boardrev_found t) mac = ended ?es" using t(2,6) by (simp add: ended_kept ended_added)
  have room: "length (additions ?found mac) \<le> 40"
    using boardrev_length mac_entry_length assms(7) by (cases mac) (simp_all add: additions_def mac_ok_def)
  then have len: "length ?img \<le> length (nvram t)"
    using t(7) padding_bounds(2) [of "length (ended ?es)"] by (simp add: image_length ended_kept ended_added)
  have "length (ended ?es) < 262000" using room assms(2) by (simp add: ended_kept ended_added)
  moreover have "list_all (\<lambda>e. 0 \<notin> set e \<and> e \<noteq> []) ?es" using kept_pieces [OF assms(1)] added_pieces by simp
  ultimately have img: "nv_reader ?img = Some ?es" "length ?img mod 4 = 0" using image_read_back by blast+
  have n: "unat (of_nat (length ?img) :: u32) = length ?img"
    using len t(8) by (simp add: unsigned_of_nat take_bit_nat_eq_self)
  have "nv_finish mac t = Some (Some (?img @ drop (length ?img) (nvram t), of_nat (length ?img)))"
    using finish_image [of t mac] t(3,7,8) assms(7) len unfolding body by (simp add: roomy_def Let_def)
  moreover have "nvram_len t \<noteq> 0" using t(3) assms(4) by auto
  ultimately have "brcmf_fw_nvram_strip alloc mac dn bn (nv_file ls) =
      Some (Some (?img @ drop (length ?img) (nvram t), of_nat (length ?img)))"
    using strip_unfold [of alloc] assms(8) t by simp
  then show ?thesis using img n by auto
qed

theorem nvram_strip_read_back_witness:
  "\<exists>buf n. brcmf_fw_nvram_strip (\<lambda>_. True) None 0 0 (nv_file [Nv_entry [0x61] [0x62] True]) = Some (Some (buf, n)) \<and>
     nv_reader (take (unat n) buf) = Some [[0x61, 0x3D, 0x62], chars ''boardrev=0xff'']"
proof -
  let ?l = "[Nv_entry [0x61] [0x62] True]"
  have "list_all nv_line_wf ?l" "nv_entries False ?l = [0x61, 0x3D, 0x62, 0]" "length (nv_file ?l) = 5"
    "\<not> list_ex (nv_key_starts ''devpath'') ?l" "\<not> list_ex (nv_key_starts ''pcie/'') ?l"
    "concat (map (nv_kept False) ?l) @ nv_added (list_ex (nv_key_starts ''boardrev'') ?l) None = [[0x61, 0x3D, 0x62], chars ''boardrev=0xff'']"
    by code_simp+
  then show ?thesis
    using nvram_strip_read_back [of ?l None "\<lambda>_. True" 0 0] by (auto simp: mac_ok_def)
qed

end
