(* ===== verification/Nvram_Devices.thy ===== *)
theory Nvram_Devices
  imports Nvram_Strip
begin

section \<open>Texts for several devices\<close>

text \<open>
  A text in the long form marks the entries of a device with the prefix \<open>pcie/domain/bus/\<close>.
  \<open>brcmf_fw_strip_multi_v2\<close> selects them and drops the prefix (\<open>nv_select\<close>). The buffer for the
  selection is as long as the text and eight bytes, without room for the additions, so whether
  stripping stays inside of it depends on how much of the text was for other devices. A text
  shorter than the prefix makes the bound of the copying loop wrap around.
\<close>

subsection \<open>Selecting entries\<close>

definition nv_select :: "u8 list \<Rightarrow> u8 list list \<Rightarrow> u8 list list" where
  "nv_select prefix es = map (drop (length prefix)) (filter (\<lambda>e. take (length prefix) e = prefix) es)"

lemma select_simps [simp]:
  "nv_select p [] = []"
  "nv_select p (e # es) = (if take (length p) e = p then drop (length p) e # nv_select p es else nv_select p es)"
  by (simp_all add: nv_select_def)

lemma select_short: "length (ended es) \<le> length p \<Longrightarrow> nv_select p es = []"
proof (induction es)
  case (Cons e es)
  then have "take (length p) e \<noteq> p" by (metis append_take_drop_id ended_simps(2) impossible_Cons le_trans length_append le_add1 length_Cons add_Suc_right not_less_eq_eq length_take min.absorb2 nat_le_linear take_all)
  with Cons show ?case by simp
qed simp

lemma unat_ucast64: "unat (ucast (w :: u32) :: u64) = unat w"
  using take_bit_nat_eq_self [of "unat w" 64] unat_u32_lt [of w] by (simp add: unsigned_ucast_eq)

lemma boardrev_no_nul: "0 \<notin> set (chars ''boardrev'')"
  by code_simp

lemma copy_entry_ok:
  assumes "drop (unat i) m = e @ 0 # r" "0 \<notin> set e" "unat j + length e + 1 \<le> length out"
  shows "copy_entry m i j out found =
    Some (i + of_nat (length e), j + of_nat (length e) + 1, take (unat j) out @ e @ 0 # drop (unat j + length e + 1) out,
      found \<or> starts ''boardrev'' e)"
  using str_prefix_until [OF assms(1) boardrev_no_nul] assms str_len_eq [OF assms(2)]
  by (simp add: copy_entry_def starts_def buf_write_def)

text \<open>One turn of the loop: the entry at \<open>i\<close> is copied or passed over.\<close>

lemma v2_turn:
  assumes "drop (unat i) m = e @ 0 # r" "0 \<notin> set e" "0 \<notin> set p" "unat j + length e + 1 \<le> length out"
    and "unat i + length e + 1 < 2 ^ 32" "(ucast i :: u64) < ucast len - of_nat (length p)"
  defines "i' \<equiv> i + of_nat (length e) + 1" and "e' \<equiv> drop (length p) e"
  shows "v2_copy m len p i j out found = (if take (length p) e = p
      then v2_copy m len p i' (j + of_nat (length e') + 1) (take (unat j) out @ e' @ 0 # drop (unat j + length e' + 1) out)
        (found \<or> starts ''boardrev'' e')
      else v2_copy m len p i' j out found)"
proof (cases "take (length p) e = p")
  case False
  then show ?thesis
    using assms(1-4,6) str_prefix_until [OF assms(1,3)] str_len_eq [OF assms(2)]
    by (subst v2_copy.simps) (simp add: i'_def add.assoc)
next
  case True
  then have e: "e = p @ e'" unfolding e'_def by (metis append_take_drop_id)
  have ip: "unat (i + of_nat (length p)) = unat i + length p"
    using unat_add_small [of i "length p"] assms(5) arg_cong [OF e, of length] by simp
  have d: "drop (unat (i + of_nat (length p))) m = e' @ 0 # r"
    using assms(1) unfolding ip by (simp add: e add.commute flip: drop_drop)
  have c: "copy_entry m (i + of_nat (length p)) j out found = Some (i + of_nat (length p) + of_nat (length e'),
      j + of_nat (length e') + 1, take (unat j) out @ e' @ 0 # drop (unat j + length e' + 1) out, found \<or> starts ''boardrev'' e')"
  proof (rule copy_entry_ok [OF d])
    show "0 \<notin> set e'" using assms(2) unfolding e'_def by (blast dest: in_set_dropD)
    show "unat j + length e' + 1 \<le> length out" using assms(4) arg_cong [OF e, of length] by simp
  qed
  have ie: "i + of_nat (length p) + of_nat (length e') = i + of_nat (length e)" using arg_cong [OF e, of length] by simp
  have "unat (i + of_nat (length e)) = unat i + length e" using unat_add_small [of i "length e"] assms(5) by simp
  then have "drop (unat (i + of_nat (length e))) m = 0 # r"
    using assms(1) by (simp add: add.commute flip: drop_drop)
  then have "str_len (drop (unat (i + of_nat (length e))) m) = Some 0" by simp
  with c ie True show ?thesis
    using assms(6) str_prefix_until [OF assms(1,3)] by (subst v2_copy.simps) (simp add: i'_def)
qed

lemma v2_copy_selects:
  assumes "drop (unat i) m = ended es @ r" "list_all (\<lambda>e. 0 \<notin> set e) es" "0 \<notin> set p" "length p \<le> unat len"
    and "unat len = unat i + length (ended es)" "unat j \<le> unat i" "unat len \<le> length out" "unat len < 2 ^ 31"
  shows "\<exists>j' out'. v2_copy m len p i j out found = Some (j', out', found \<or> list_ex (starts ''boardrev'') (nv_select p es))
    \<and> unat j' = unat j + length (ended (nv_select p es)) \<and> length out' = length out
    \<and> take (unat j') out' = take (unat j) out @ ended (nv_select p es)"
  using assms
proof (induction es arbitrary: i j out found)
  have bound: "((ucast i :: u64) < ucast len - of_nat (length p)) \<longleftrightarrow> unat i + length p < unat len" for i :: u32
  proof -
    have "unat (ucast len :: u64) = unat len" "unat (ucast i :: u64) = unat i" by (rule unat_ucast64)+
    moreover have "unat (of_nat (length p) :: u64) = length p" using assms(4,8) by (simp add: unsigned_of_nat take_bit_nat_eq_self)
    ultimately show ?thesis using assms(4) by (auto simp: word_less_nat_alt unat_sub word_le_nat_alt)
  qed
  {
    case Nil
    then show ?case using bound [of i] by (subst v2_copy.simps) simp
  next
    case (Cons e es)
    show ?case
    proof (cases "unat i + length p < unat len")
      case False
      then have "nv_select p (e # es) = []" using Cons.prems(5) by (intro select_short) simp
      moreover have "v2_copy m len p i j out found = Some (j, out, found)"
        using False bound [of i] by (subst v2_copy.simps) simp
      ultimately show ?thesis by simp
    next
      case True
      let ?i = "i + of_nat (length e) + 1" and ?e = "drop (length p) e"
      have len: "unat i + length e + 1 + length (ended es) = unat len" using Cons.prems(5) by simp
      then have i: "unat ?i = unat i + length e + 1"
        using unat_add_small [of i "length e"] unat_add_one [of "i + of_nat (length e)"] Cons.prems(8) by simp
      have d: "drop (unat ?i) m = ended es @ r"
      proof -
        have "drop (unat ?i) m = drop (length e + 1) (drop (unat i) m)" unfolding i by (simp add: ac_simps)
        then show ?thesis by (simp add: Cons.prems(1))
      qed
      have turn: "v2_copy m len p i j out found = (if take (length p) e = p
          then v2_copy m len p ?i (j + of_nat (length ?e) + 1) (take (unat j) out @ ?e @ 0 # drop (unat j + length ?e + 1) out)
            (found \<or> starts ''boardrev'' ?e)
          else v2_copy m len p ?i j out found)"
        by (rule v2_turn [where r = "ended es @ r"]) (use Cons.prems True bound len in auto)
      note IH = Cons.IH [OF d _ Cons.prems(3,4)]
      show ?thesis
      proof (cases "take (length p) e = p")
        case False
        then show ?thesis using turn IH [of j out found] Cons.prems i len by simp
      next
        case hit: True
        let ?j = "j + of_nat (length ?e) + 1"
        let ?o = "take (unat j) out @ ?e @ 0 # drop (unat j + length ?e + 1) out"
        have j: "unat ?j = unat j + length ?e + 1"
          using unat_add_small [of j "length ?e"] unat_add_one [of "j + of_nat (length ?e)"] Cons.prems(6,8) len by simp
        have jl: "unat j + length ?e + 1 \<le> length out" using Cons.prems(6,7) len by simp
        then have o: "length ?o = length out" "take (unat ?j) ?o = take (unat j) out @ ?e @ [0]" unfolding j by simp_all
        have "unat ?j \<le> unat ?i" unfolding i j using Cons.prems(6) by simp
        then obtain j' out' where "v2_copy m len p ?i ?j ?o (found \<or> starts ''boardrev'' ?e) =
            Some (j', out', (found \<or> starts ''boardrev'' ?e) \<or> list_ex (starts ''boardrev'') (nv_select p es))"
          "unat j' = unat ?j + length (ended (nv_select p es))" "length out' = length out"
          "take (unat j') out' = take (unat ?j) ?o @ ended (nv_select p es)"
          using IH [of ?j ?o "found \<or> starts ''boardrev'' ?e"] Cons.prems i len unfolding o(1) by auto
        then show ?thesis using turn hit o(2) j by simp
      qed
    qed
  }
qed


subsection \<open>The image for one device\<close>

lemma decimal_digits: "set (decimal n) \<subseteq> {48..57}"
proof (induction n rule: decimal.induct)
  case (1 n)
  have digit: "of_nat (48 + d) \<in> {48..57::u8}" if "d < 10" for d
    using that by (simp add: word_le_nat_alt unsigned_of_nat take_bit_nat_eq_self unat_word_ariths)
  show ?case
    using 1 digit [of n] digit [of "n mod 10"] by (subst decimal.simps) auto
qed

lemma prefix_chars: "set (pcie_prefix dn bn) \<subseteq> set (chars ''pcie/'') \<union> {48..57}"
proof -
  have "set (chars ''/'') \<subseteq> set (chars ''pcie/'')" by code_simp
  then show ?thesis using decimal_digits by (force simp: pcie_prefix_def)
qed

lemma prefix_clean: "0 \<notin> set (pcie_prefix dn bn)" "0x3D \<notin> set (pcie_prefix dn bn)"
proof -
  have "0 \<notin> set (chars ''pcie/'')" "0x3D \<notin> set (chars ''pcie/'')" by code_simp+
  then show "0 \<notin> set (pcie_prefix dn bn)" "0x3D \<notin> set (pcie_prefix dn bn)" using prefix_chars [of dn bn] by auto
qed

lemma strip_v2_selects:
  assumes "parsed_text nvp = ended es" "roomy nvp" "list_all (\<lambda>e. 0 \<notin> set e) es"
    and "length (pcie_prefix dn bn) \<le> unat (nvram_len nvp)" "unat (nvram_len nvp) + 8 \<le> length (nvram nvp)"
  shows "\<exists>nvp'. roomy nvp' \<and> brcmf_fw_strip_multi_v2 True dn bn nvp = Some nvp' \<and> parsed_text nvp' = ended (nv_select (pcie_prefix dn bn) es)
    \<and> unat (nvram_len nvp') = length (ended (nv_select (pcie_prefix dn bn) es)) \<and> length (nvram nvp') = unat (nvram_len nvp) + 8
    \<and> boardrev_found nvp' = (boardrev_found nvp \<or> list_ex (starts ''boardrev'') (nv_select (pcie_prefix dn bn) es))"
proof -
  have m: "drop (unat 0) (nvram nvp) = ended es @ drop (unat (nvram_len nvp)) (nvram nvp)"
    unfolding assms(1) [symmetric] by (simp add: parsed_text_def)
  have len: "unat (nvram_len nvp) = unat (0 :: u32) + length (ended es)"
    using arg_cong [OF assms(1), of length] assms(2) by (simp add: parsed_text_def roomy_def)
  have small: "unat (nvram_len nvp) < 2 ^ 31" using assms(2) by (simp add: roomy_def)
  obtain j' out' where c: "v2_copy (nvram nvp) (nvram_len nvp) (pcie_prefix dn bn) 0 0 (replicate (unat (nvram_len nvp) + 1 + 3 + 4) 0)
      (boardrev_found nvp) = Some (j', out', boardrev_found nvp \<or> list_ex (starts ''boardrev'') (nv_select (pcie_prefix dn bn) es))"
    "unat j' = length (ended (nv_select (pcie_prefix dn bn) es))" "length out' = unat (nvram_len nvp) + 8"
    "take (unat j') out' = ended (nv_select (pcie_prefix dn bn) es)"
    using v2_copy_selects [OF m assms(3) prefix_clean(1) assms(4) len, of 0 "replicate (unat (nvram_len nvp) + 1 + 3 + 4) 0"
      "boardrev_found nvp"] small by auto
  have "unat j' \<le> length out'" using arg_cong [OF c(4), of length] c(2) by simp
  then show ?thesis using c assms(2,5) by (simp add: brcmf_fw_strip_multi_v2_def parsed_text_def roomy_def)
qed

subsection \<open>Texts shorter than the prefix\<close>

lemma str_prefix_beyond: "cs \<noteq> [] \<Longrightarrow> length m \<le> i \<Longrightarrow> str_prefix m i cs = None"
  by (cases cs) auto

lemma str_len_bound: "str_len xs = Some n \<Longrightarrow> n < length xs"
proof (induction xs arbitrary: n)
  case (Cons x xs)
  then show ?case by (auto split: if_splits)
qed simp

lemma decimal_length: "length (decimal n) \<le> Suc n"
proof (induction n rule: decimal.induct)
  case (1 n)
  then show ?case by (subst decimal.simps) auto
qed

lemma prefix_length: "length (pcie_prefix dn bn) < 2 ^ 31"
proof -
  have "length (decimal (unat w)) \<le> 65536" for w :: u16
    using decimal_length [of "unat w"] unat_u16_lt [of w] by linarith
  from this [of dn] this [of bn] show ?thesis by (simp add: pcie_prefix_def chars_def)
qed

lemma negative_bound:
  assumes "unat len < n" "n < 2 ^ 31"
  shows "(ucast (i :: u32) :: u64) < ucast (len :: u32) - of_nat n"
proof -
  have "unat (of_nat n :: u64) = n" using assms(2) by (simp add: unsigned_of_nat take_bit_nat_eq_self)
  then have "unat (ucast len - of_nat n :: u64) = unat len + 2 ^ 64 - n"
    using assms(1) by (simp add: unat_sub_if_size unat_ucast64 word_size)
  then show ?thesis using unat_u32_lt [of i] assms(2) by (simp add: word_less_nat_alt unat_ucast64)
qed

lemma copy_entry_stays:
  assumes "copy_entry m i j out found = Some (i', j', out', found')" "length m < 2 ^ 31"
  shows "unat i \<le> unat i'" "unat i' < 2 ^ 31"
proof -
  obtain n where n: "str_len (drop (unat i) m) = Some n" "i' = i + of_nat n"
    using assms(1) by (auto simp: copy_entry_def split: Option.bind_splits)
  then have "unat i + n < length m" using str_len_bound [OF n(1)] by simp
  then show "unat i \<le> unat i'" "unat i' < 2 ^ 31" using unat_add_small [of i n] n(2) assms(2) by simp_all
qed

text \<open>
  When nothing longer than the prefix of the device was parsed (one malformed key like
  \<open>pcie/\<close> is enough), the bound of the copying loop is negative at an unsigned width, and the loop
  runs through the buffer and out of it.
\<close>

theorem nvram_short_device_text:
  assumes "unat (nvram_len nvp) < length (pcie_prefix dn bn)" "length (nvram nvp) < 2 ^ 31"
  shows "brcmf_fw_strip_multi_v2 True dn bn nvp = None"
proof -
  let ?p = "pcie_prefix dn bn" and ?m = "nvram nvp" and ?len = "nvram_len nvp"
  have "v2_copy ?m ?len ?p i j out found = None" for i j out found
  proof (induction "length ?m - unat i" arbitrary: i j out found rule: less_induct)
    case less
    let ?sel = "\<lambda>hit. if hit then copy_entry ?m (i + of_nat (length ?p)) j out found else Some (i, j, out, found)"
    have unfold: "v2_copy ?m ?len ?p i j out found = Option.bind (str_prefix ?m (unat i) ?p) (\<lambda>hit. Option.bind (?sel hit)
        (\<lambda>(i, j, out, found). Option.bind (str_len (drop (unat i) ?m)) (\<lambda>n. v2_copy ?m ?len ?p (i + of_nat n + 1) j out found)))"
      using negative_bound [OF assms(1) prefix_length, of i] by (subst v2_copy.simps) simp
    show ?case
    proof (cases "str_prefix ?m (unat i) ?p")
      case None
      then show ?thesis unfolding unfold by simp
    next
      case (Some hit)
      have i: "unat i < length ?m" using Some str_prefix_beyond [of ?p ?m "unat i"] assms(1) by force
      have "Option.bind (str_len (drop (unat i1) ?m)) (\<lambda>n. v2_copy ?m ?len ?p (i1 + of_nat n + 1) j1 out1 found1) = None"
        if s: "?sel hit = Some (i1, j1, out1, found1)" for i1 j1 out1 found1
      proof (cases "str_len (drop (unat i1) ?m)")
        case (Some n)
        have "unat i \<le> unat i1"
        proof (cases hit)
          case True
          have "unat (i + of_nat (length ?p)) = unat i + length ?p"
            using unat_add_small [of i "length ?p"] i assms(2) prefix_length [of dn bn] by simp
          moreover have "copy_entry ?m (i + of_nat (length ?p)) j out found = Some (i1, j1, out1, found1)" using s True by simp
          from copy_entry_stays(1) [OF this assms(2)] have "unat (i + of_nat (length ?p)) \<le> unat i1" .
          ultimately show ?thesis by simp
        next
          case False
          then show ?thesis using s by simp
        qed
        moreover have "unat i1 + n < length ?m" using str_len_bound [OF Some] by simp
        moreover from this have "unat (i1 + of_nat n + 1) = unat i1 + n + 1"
          using unat_add_small [of i1 n] unat_add_one [of "i1 + of_nat n"] assms(2) by simp
        ultimately have "v2_copy ?m ?len ?p (i1 + of_nat n + 1) j1 out1 found1 = None"
          using i by (intro less.hyps) simp
        with Some show ?thesis by simp
      qed simp
      then show ?thesis unfolding unfold Some by (cases "?sel hit") auto
    qed
  qed
  then show ?thesis by (simp add: brcmf_fw_strip_multi_v2_def)
qed

subsection \<open>The image of one device\<close>

text \<open>The entries of one device in a text of lines.\<close>

definition device_entries :: "bool \<Rightarrow> u16 \<Rightarrow> u16 \<Rightarrow> nv_line list \<Rightarrow> u8 list list" where
  "device_entries sm dn bn ls = nv_select (pcie_prefix dn bn) (concat (map (nv_kept sm) ls))"

definition device_image :: "u8 list option \<Rightarrow> u16 \<Rightarrow> u16 \<Rightarrow> nv_line list \<Rightarrow> u8 list list" where
  "device_image mac dn bn ls = (let es = device_entries (mac \<noteq> None) dn bn ls in es @ nv_added (list_ex (starts ''boardrev'') es) mac)"

lemma kept_has_equals: "e \<in> set (concat (map (nv_kept sm) ls)) \<Longrightarrow> 0x3D \<in> set e"
proof (induction ls)
  case (Cons l ls)
  then show ?case by (cases l) (auto split: if_splits)
qed simp

lemma device_pieces:
  assumes "list_all nv_line_wf ls"
  shows "list_all (\<lambda>e. 0 \<notin> set e \<and> e \<noteq> []) (device_entries sm dn bn ls)"
proof -
  let ?p = "pcie_prefix dn bn"
  have "0 \<notin> set (drop (length ?p) e) \<and> drop (length ?p) e \<noteq> []"
    if e: "e \<in> set (concat (map (nv_kept sm) ls))" "take (length ?p) e = ?p" for e
  proof -
    have "0 \<notin> set e" using kept_pieces [OF assms, of sm] e(1) by (auto simp: list_all_iff)
    moreover have "drop (length ?p) e = [] \<Longrightarrow> 0x3D \<in> set ?p"
      using kept_has_equals [OF e(1)] e(2) by (metis append_Nil2 append_take_drop_id)
    ultimately show ?thesis using prefix_clean(2) [of dn bn] by (blast dest: in_set_dropD)
  qed
  then show ?thesis unfolding device_entries_def nv_select_def list_all_iff by auto
qed

lemma strip_device:
  assumes "list_all nv_line_wf ls" "length (nv_entries (mac \<noteq> None) ls) < BRCMF_FW_MAX_NVRAM_SIZE" "length (nv_file ls) < 2 ^ 31"
    and "\<not> list_ex (nv_key_starts ''devpath'') ls" "list_ex (nv_key_starts ''pcie/'') ls"
    and "length (pcie_prefix dn bn) \<le> length (nv_entries (mac \<noteq> None) ls)" "mac_ok mac" "alloc 0" "alloc 1"
  shows "\<exists>m. length m = length (nv_entries (mac \<noteq> None) ls) + 8 \<and> brcmf_fw_nvram_strip alloc mac dn bn (nv_file ls) =
    (if device_entries (mac \<noteq> None) dn bn ls = [] then Some None
     else let img = nv_image (ended (device_image mac dn bn ls)) in
       if length img \<le> length m then Some (Some (img @ drop (length img) m, of_nat (length img))) else None)"
proof -
  let ?sm = "mac \<noteq> None" and ?es = "device_entries (mac \<noteq> None) dn bn ls"
  obtain t where t: "nvram_loop ((projr (brcmf_init_nvram_parser True (nv_file ls)))\<lparr>strip_mac := ?sm\<rparr>) = Some t"
    "parsed_text t = nv_entries ?sm ls" "unat (nvram_len t) = length (nv_entries ?sm ls)" "\<not> multi_dev_v1 t" "multi_dev_v2 t"
    "length (nv_entries ?sm ls) + 48 \<le> length (nvram t)" "length (nvram t) \<le> 64048"
    using file_parsed [OF assms(1-3) init_ok] assms(4,5) init_length [of "nv_file ls"] by auto
  let ?t = "t\<lparr>boardrev_found := False\<rparr>"
  have "parsed_text ?t = ended (concat (map (nv_kept ?sm) ls))" using t(2) by (simp add: parsed_text_def ended_kept)
  moreover have "roomy ?t" using t(3,6,7) by (simp add: roomy_def)
  moreover have "list_all (\<lambda>e. 0 \<notin> set e) (concat (map (nv_kept ?sm) ls))" using kept_pieces [OF assms(1)] by (auto simp: list_all_iff)
  ultimately obtain u where ru: "roomy u" and u: "brcmf_fw_strip_multi_v2 True dn bn ?t = Some u" "parsed_text u = ended ?es"
    "unat (nvram_len u) = length (ended ?es)" "length (nvram u) = length (nv_entries ?sm ls) + 8"
    "boardrev_found u = list_ex (starts ''boardrev'') ?es"
    using strip_v2_selects [of ?t "concat (map (nv_kept ?sm) ls)" dn bn] assms(6) t(3,6) by (auto simp: device_entries_def)
  have s: "brcmf_fw_nvram_strip alloc mac dn bn (nv_file ls) = (if nvram_len u = 0 then Some None else nv_finish mac u)"
    using strip_unfold [of alloc] assms(8,9) t u(1) by simp
  have "nvram_len u = 0 \<longleftrightarrow> ?es = []"
  proof
    show "nvram_len u = 0 \<Longrightarrow> ?es = []" using u(3) by (cases ?es) auto
    show "?es = [] \<Longrightarrow> nvram_len u = 0" using u(3) by (simp add: unat_eqD)
  qed
  moreover have "nv_finish mac u = (let img = nv_image (ended (device_image mac dn bn ls)) in
      if length img \<le> length (nvram u) then Some (Some (img @ drop (length img) (nvram u), of_nat (length img))) else None)"
    using finish_image [OF ru assms(7)] u(2,5) by (simp add: ended_added device_image_def Let_def)
  ultimately show ?thesis using s u(4) by auto
qed


text \<open>The short text: nothing is made of it.\<close>

lemma strip_short_device:
  assumes "list_all nv_line_wf ls" "length (nv_entries (mac \<noteq> None) ls) < BRCMF_FW_MAX_NVRAM_SIZE" "length (nv_file ls) < 2 ^ 31"
    and "\<not> list_ex (nv_key_starts ''devpath'') ls" "list_ex (nv_key_starts ''pcie/'') ls"
    and "length (nv_entries (mac \<noteq> None) ls) < length (pcie_prefix dn bn)" "alloc 0" "alloc 1"
  shows "brcmf_fw_nvram_strip alloc mac dn bn (nv_file ls) = None"
proof -
  let ?sm = "mac \<noteq> None"
  obtain t where t: "nvram_loop ((projr (brcmf_init_nvram_parser True (nv_file ls)))\<lparr>strip_mac := ?sm\<rparr>) = Some t"
    "unat (nvram_len t) = length (nv_entries ?sm ls)" "\<not> multi_dev_v1 t" "multi_dev_v2 t" "length (nvram t) \<le> 64048"
    using file_parsed [OF assms(1-3) init_ok] assms(4,5) init_length [of "nv_file ls"] by auto
  have "brcmf_fw_strip_multi_v2 True dn bn (t\<lparr>boardrev_found := False\<rparr>) = None"
    by (rule nvram_short_device_text) (use t(2,5) assms(6) in simp_all)
  then show ?thesis using strip_unfold [of alloc] assms(7,8) t by simp
qed

definition device_text_ok :: "u8 list option \<Rightarrow> nv_line list \<Rightarrow> bool" where
  "device_text_ok mac ls \<longleftrightarrow> list_all nv_line_wf ls \<and> length (nv_entries (mac \<noteq> None) ls) < BRCMF_FW_MAX_NVRAM_SIZE
   \<and> length (nv_file ls) < 2 ^ 31 \<and> \<not> list_ex (nv_key_starts ''devpath'') ls \<and> list_ex (nv_key_starts ''pcie/'') ls
   \<and> mac_ok mac"

lemma device_image_pieces:
  assumes "list_all nv_line_wf ls"
  shows "list_all (\<lambda>e. 0 \<notin> set e \<and> e \<noteq> []) (device_image mac dn bn ls)"
  using device_pieces [OF assms] added_pieces by (simp add: device_image_def Let_def)

text \<open>
  C26: What becomes of a text in the long form of device paths when the memory for it can be
  allocated, in every case. When the parsed
  text is shorter than the prefix of the device, the loop that selects entries leaves the buffer. When
  no entry is for the device, there is no image. When the image of the device is longer than
  the parsed text and eight bytes, as it is for a text with few entries of other devices,
  stripping writes behind the buffer of the selection. Otherwise reading the image back gives the
  entries with the prefix of the device, in order and without the prefix, the default board
  revision when the device has none, and the address of the platform when there is one; entries
  of other devices do not show.
\<close>

theorem nvram_strip_selects_device:
  fixes dn bn :: u16
  assumes "device_text_ok mac ls" "alloc 0" "alloc 1"
  defines "room \<equiv> length (nv_entries (mac \<noteq> None) ls)" and "img \<equiv> nv_image (ended (device_image mac dn bn ls))"
  shows "if room < length (pcie_prefix dn bn) then brcmf_fw_nvram_strip alloc mac dn bn (nv_file ls) = None
    else if device_entries (mac \<noteq> None) dn bn ls = [] then brcmf_fw_nvram_strip alloc mac dn bn (nv_file ls) = Some None
    else if room + 8 < length img then brcmf_fw_nvram_strip alloc mac dn bn (nv_file ls) = None
    else \<exists>buf n. brcmf_fw_nvram_strip alloc mac dn bn (nv_file ls) = Some (Some (buf, n)) \<and> length buf = room + 8
      \<and> unat n \<le> length buf \<and> unat n mod 4 = 0 \<and> nv_reader (take (unat n) buf) = Some (device_image mac dn bn ls)"
proof (cases "length (pcie_prefix dn bn) \<le> room")
  case False
  then show ?thesis using strip_short_device [of ls mac dn bn alloc] assms(1-3) by (simp add: device_text_ok_def room_def)
next
  case long: True
  note ok = assms(1) [unfolded device_text_ok_def]
  obtain m where m: "length m = room + 8" "brcmf_fw_nvram_strip alloc mac dn bn (nv_file ls) =
      (if device_entries (mac \<noteq> None) dn bn ls = [] then Some None
       else if length img \<le> length m then Some (Some (img @ drop (length img) m, of_nat (length img))) else None)"
    using strip_device [of ls mac dn bn alloc] ok assms(2,3) long by (auto simp: room_def img_def Let_def)
  have img: "nv_reader img = Some (device_image mac dn bn ls)" "length img mod 4 = 0" "unat (of_nat (length img) :: u32) = length img"
    if fits: "length img \<le> room + 8"
  proof -
    have "length (ended (device_image mac dn bn ls)) < 262000" using fits ok by (simp add: img_def room_def image_length)
    from image_read_back [OF device_image_pieces this] show "nv_reader img = Some (device_image mac dn bn ls)" "length img mod 4 = 0"
      using ok by (simp_all add: img_def)
    show "unat (of_nat (length img) :: u32) = length img"
      using fits ok by (simp add: room_def unsigned_of_nat take_bit_nat_eq_self)
  qed
  show ?thesis
  proof (cases "device_entries (mac \<noteq> None) dn bn ls = [] \<or> room + 8 < length img")
    case True
    then show ?thesis using m long by auto
  next
    case False
    then show ?thesis using m long img by (auto simp: not_less)
  qed
qed

definition two_devices :: "nv_line list" where
  "two_devices = [Nv_entry (chars ''pcie/0/1/a'') [0x62] False, Nv_entry (chars ''pcie/0/2/sromrev'') [0x63] False]"

lemma chars_pcie: "pcie_prefix 0 1 = chars ''pcie/0/1/''"
proof -
  have "decimal 0 = [48]" "decimal 1 = [49]" by (simp_all add: decimal.simps [of 0] decimal.simps [of "Suc 0"])
  moreover have "chars ''pcie/'' @ [48] @ chars ''/'' @ [49] @ chars ''/'' = chars ''pcie/0/1/''" by code_simp
  ultimately show ?thesis by (simp add: pcie_prefix_def)
qed

lemma two_devices_eqs:
  "list_all nv_line_wf two_devices" "length (nv_entries False two_devices) = 32" "length (nv_file two_devices) = 32"
  "\<not> list_ex (nv_key_starts ''devpath'') two_devices" "list_ex (nv_key_starts ''pcie/'') two_devices"
  "length (chars ''pcie/0/1/'') = 9"
  "nv_select (chars ''pcie/0/1/'') (concat (map (nv_kept False) two_devices)) = [[0x61, 0x3D, 0x62]]"
  "starts ''boardrev'' [0x61, 0x3D, 0x62] = False"
  by code_simp+

lemma two_devices_image: "device_entries False 0 1 two_devices = [[0x61, 0x3D, 0x62]]"
  "device_image None 0 1 two_devices = [[0x61, 0x3D, 0x62], BRCMF_FW_DEFAULT_BOARDREV]"
  by (simp_all add: device_image_def device_entries_def chars_pcie two_devices_eqs nv_added_def)

definition one_device :: "nv_line list" where
  "one_device = [Nv_entry (chars ''pcie/0/1/a'') [0x62] False]"

lemma one_device_eqs:
  "list_all nv_line_wf one_device" "length (nv_entries False one_device) = 13" "length (nv_file one_device) = 13"
  "\<not> list_ex (nv_key_starts ''devpath'') one_device" "list_ex (nv_key_starts ''pcie/'') one_device"
  "nv_select (chars ''pcie/0/1/'') (concat (map (nv_kept False) one_device)) = [[0x61, 0x3D, 0x62]]"
  by code_simp+

theorem nvram_strip_selects_device_witness:
  "(\<exists>buf n. brcmf_fw_nvram_strip (\<lambda>_. True) None 0 1 (nv_file two_devices) = Some (Some (buf, n)) \<and>
     nv_reader (take (unat n) buf) = Some [[0x61, 0x3D, 0x62], BRCMF_FW_DEFAULT_BOARDREV]) \<and>
   brcmf_fw_nvram_strip (\<lambda>_. True) None 0 1 (nv_file one_device) = None"
proof -
  have ok: "device_text_ok None two_devices" "device_text_ok None one_device"
    using two_devices_eqs one_device_eqs by (simp_all add: device_text_ok_def mac_ok_def)
  have one: "device_entries False 0 1 one_device = [[0x61, 0x3D, 0x62]]"
    "device_image None 0 1 one_device = [[0x61, 0x3D, 0x62], BRCMF_FW_DEFAULT_BOARDREV]"
    by (simp_all add: device_image_def device_entries_def chars_pcie one_device_eqs two_devices_eqs(8) nv_added_def)
  have len: "length (nv_image (ended (device_image None 0 1 two_devices))) = 24"
    "length (nv_image (ended (device_image None 0 1 one_device))) = 24" "length (pcie_prefix 0 1) = 9"
    using boardrev_length by (simp_all add: image_length padding_def chars_pcie two_devices_eqs(6) two_devices_image one(2))
  have "\<exists>buf n. brcmf_fw_nvram_strip (\<lambda>_. True) None 0 1 (nv_file two_devices) = Some (Some (buf, n)) \<and>
     nv_reader (take (unat n) buf) = Some (device_image None 0 1 two_devices)"
    using nvram_strip_selects_device [OF ok(1), of "\<lambda>_. True" 0 1] by (auto simp: len two_devices_image(1) two_devices_eqs(2))
  moreover have "brcmf_fw_nvram_strip (\<lambda>_. True) None 0 1 (nv_file one_device) = None"
    using nvram_strip_selects_device [OF ok(2), of "\<lambda>_. True" 0 1] by (simp add: len one(1) one_device_eqs(2))
  ultimately show ?thesis unfolding two_devices_image(2) by blast
qed

text \<open>A malformed key alone, for the loop that leaves the buffer.\<close>

theorem nvram_short_device_text_witness:
  "brcmf_fw_strip_multi_v2 True 0 1 \<lparr>state = IDLE, data = [], nvram = replicate 60 0, nvram_len = 7, line = 1, column = 1, pos = 0,
     entry = 0, multi_dev_v1 = False, multi_dev_v2 = True, boardrev_found = False, strip_mac = False\<rparr> = None"
  by (rule nvram_short_device_text) (simp_all add: chars_pcie two_devices_eqs(6))

subsection \<open>The short form of device paths\<close>

text \<open>The digits of a number begin with those of its tenth.\<close>

lemma decimal_extend: "0 < b \<Longrightarrow> x < 10 \<Longrightarrow> decimal (10 * b + x) = decimal b @ [of_nat (48 + x)]"
  by (subst decimal.simps) simp

lemma str_prefix_here: "drop i m = cs @ r \<Longrightarrow> str_prefix m i cs = Some True"
proof (induction cs arbitrary: i)
  case (Cons c cs)
  then have "i < length m" "m ! i = c" "drop (Suc i) m = cs @ r"
    by (metis drop_all linorder_not_le list.distinct(1) append_Cons, simp add: nth_via_drop,
        metis append_Cons drop_Suc list.sel(3) tl_drop)
  with Cons.IH show ?case by simp
qed simp

text \<open>
  In the short form the path is looked for without its closing slash: the device of bus \<open>b\<close>
  takes the index of an earlier line that was meant for bus \<open>10 * b + x\<close>, so that a board with buses
  1 and 10 can get the settings of the other one.
\<close>

theorem nvram_v1_takes_longer_bus:
  assumes "m = chars ''devpath'' @ [c] @ chars ''=pcie/'' @ decimal (unat dn) @ chars ''/'' @ decimal (10 * unat bn + x) @ r"
    and "0 < unat bn" "x < 10" "BRCMF_FW_NVRAM_DEVPATH_LEN + 6 \<le> len"
  shows "v1_find m len (chars ''=pci/'' @ decimal (unat dn) @ chars ''/'' @ decimal (unat bn))
    (chars ''=pcie/'' @ decimal (unat dn) @ chars ''/'' @ decimal (unat bn)) 0 = Some (Some (c - 0x30))"
proof -
  let ?pci = "chars ''=pci/'' @ decimal (unat dn) @ chars ''/'' @ decimal (unat bn)"
  let ?pcie = "chars ''=pcie/'' @ decimal (unat dn) @ chars ''/'' @ decimal (unat bn)"
  have l: "length (chars ''devpath'') = 7" by code_simp
  have m: "m = chars ''devpath'' @ c # ?pcie @ of_nat (48 + x) # r" using assms(1-3) by (simp add: decimal_extend)
  have dev: "str_prefix m 0 (chars ''devpath'') = Some True" by (rule str_prefix_here [where r = "c # ?pcie @ of_nat (48 + x) # r"]) (simp add: m)
  have pcie: "str_prefix m 8 ?pcie = Some True" by (rule str_prefix_here [where r = "of_nat (48 + x) # r"]) (simp add: m l)
  have "str_prefix m 8 ?pci = Some False"
  proof -
    have "m ! 12 = 0x65" "m ! 8 = 0x3D" "m ! 9 = 0x70" "m ! 10 = 0x63" "m ! 11 = 0x69" "12 < length m" "?pci ! 4 = 0x2F"
      by (simp_all add: m nth_append l chars_def)
    then show ?thesis by (simp add: chars_def)
  qed
  moreover have "m ! 7 = c" "7 < length m" by (simp_all add: m nth_append l)
  moreover have "0 < len - BRCMF_FW_NVRAM_DEVPATH_LEN" using assms(4) by unat_arith
  ultimately show ?thesis using dev pcie by (subst v1_find.simps) simp
qed


theorem nvram_v1_takes_longer_bus_witness:
  "\<exists>m. m = chars ''devpath'' @ [0x30] @ chars ''=pcie/0/10/'' @ [0] @ chars ''devpath1=pcie/0/1/'' @ [0] \<and>
     v1_find m 40 (chars ''=pci/'' @ decimal 0 @ chars ''/'' @ decimal 1) (chars ''=pcie/'' @ decimal 0 @ chars ''/'' @ decimal 1) 0 = Some (Some 0)"
proof -
  let ?r = "chars ''/'' @ [0] @ chars ''devpath1=pcie/0/1/'' @ [0]"
  let ?m = "chars ''devpath'' @ [0x30] @ chars ''=pcie/'' @ decimal (unat (0 :: u16)) @ chars ''/'' @ decimal (10 * unat (1 :: u16) + 0) @ ?r"
  have d: "decimal 0 = [48]" "decimal (Suc 0) = [49]" "decimal 10 = [49, 48]"
    by (simp_all add: decimal.simps [of 0] decimal.simps [of "Suc 0"] decimal.simps [of 10])
  have A: "v1_find ?m 40 (chars ''=pci/'' @ decimal (unat (0 :: u16)) @ chars ''/'' @ decimal (unat (1 :: u16)))
      (chars ''=pcie/'' @ decimal (unat (0 :: u16)) @ chars ''/'' @ decimal (unat (1 :: u16))) 0 = Some (Some (0x30 - 0x30))"
    by (rule nvram_v1_takes_longer_bus [OF refl]) simp_all
  have M: "?m = chars ''devpath'' @ [0x30] @ chars ''=pcie/0/10/'' @ [0] @ chars ''devpath1=pcie/0/1/'' @ [0]"
    by (simp add: d chars_def)
  show ?thesis using A unfolding M by simp
qed

end
