(* ===== verification/Firmware.thy ===== *)
theory Firmware
  imports Nvram
begin

section \<open>Requests for firmware files (brcmfmac/firmware.c)\<close>

text \<open>
  A request names files: firmware images, blobs and the text of the board. They are looked for
  under names of the board before the common name, the first of them by callbacks of the kernel
  and the others in turn; a text of the board may also come from the flash or from an EFI
  variable, and goes through \<open>brcmf_fw_nvram_strip\<close>. The bus gets the request with its contents,
  or an error.

  The services of the kernel are a parameter, \<open>fw_kernel\<close>. A lookup gives the contents or an
  error, in which case the kernel sets the pointer to null; the lookups with a callback are
  either refused at once or answer later with contents or null. The calls that log and the
  release of memory are left out. As in \<open>Nvram\<close>, \<open>None\<close> is an access outside of a buffer.

  Shown: the chain of callbacks finds the same file as a search of the candidate names in order;
  the bus gets the request exactly if every file that is not optional was found, with the
  contents of each; names fit their buffers.
\<close>

type_synonym blob = "u8 list"

datatype efi_status = EFI_SUCCESS | EFI_BUFFER_TOO_SMALL | EFI_OTHER_STATUS

record fw_kernel =
  request_firmware :: "string \<Rightarrow> errno + blob"
  request_firmware_direct :: "string \<Rightarrow> errno + blob"
  request_firmware_nowait :: "string \<Rightarrow> errno + blob option"
  bcm47xx_nvram_get_contents :: "blob option"
  efi_get_variable :: "(nat \<Rightarrow> efi_status \<times> nat \<times> blob) option"
  eth_platform_mac :: "blob option"
  path_alloc :: "string \<Rightarrow> bool"
  buf_alloc :: "nat \<Rightarrow> bool"

subsection \<open>Requests\<close>

text \<open>The last constructor stands for any other number.\<close>

datatype brcmf_fw_type =
  BRCMF_FW_TYPE_BINARY | BRCMF_FW_TYPE_NVRAM | BRCMF_FW_TYPE_TRXSE | BRCMF_FW_TYPE_TRXS | BRCMF_FW_TYPE_OTHER

datatype fw_content = Fw_binary "blob option" | Fw_nv_data "blob option" u32

record brcmf_fw_item =
  fw_path :: "string option"
  fw_type :: brcmf_fw_type
  fw_flags :: u16
  fw_content :: fw_content

record brcmf_fw_request =
  domain_nr :: u16
  bus_nr :: u16
  board_types :: "string option list"
  items :: "brcmf_fw_item list"

record brcmf_fw =
  req :: brcmf_fw_request
  curpos :: nat
  board_index :: nat

abbreviation (input) BRCMF_FW_REQF_OPTIONAL :: u16 where "BRCMF_FW_REQF_OPTIONAL \<equiv> 1"
abbreviation (input) BRCMF_FW_NAME_LEN :: nat where "BRCMF_FW_NAME_LEN \<equiv> 320"
abbreviation (input) BRCMF_FW_MAX_BOARD_TYPES :: nat where "BRCMF_FW_MAX_BOARD_TYPES \<equiv> 8"

definition optional :: "brcmf_fw_item \<Rightarrow> bool" where
  "optional it \<longleftrightarrow> fw_flags it AND BRCMF_FW_REQF_OPTIONAL \<noteq> 0"

definition cur :: "brcmf_fw \<Rightarrow> brcmf_fw_item" where
  "cur ctx = items (req ctx) ! curpos ctx"

definition set_cur :: "brcmf_fw_item \<Rightarrow> brcmf_fw \<Rightarrow> brcmf_fw" where
  "set_cur it ctx = ctx\<lparr>req := (req ctx)\<lparr>items := (items (req ctx))[curpos ctx := it]\<rparr>\<rparr>"

subsection \<open>The text of the board from EFI\<close>

text \<open>\<open>strnstr\<close>: the first place of the pattern within the length.\<close>

definition strnstr :: "blob \<Rightarrow> blob \<Rightarrow> nat option" where
  "strnstr m w = first_index (\<lambda>i. take (length w) (drop i m) = w) (Suc (length m))"

definition brcmf_fw_fix_efi_nvram_ccode :: "blob \<Rightarrow> blob" where
  "brcmf_fw_fix_efi_nvram_ccode dat =
     (let ccode = (case strnstr dat (chars ''ccode=ALL'') of
                     None \<Rightarrow> strnstr dat (chars ''ccode=XV'' @ [0x0D])
                   | Some i \<Rightarrow> Some i)
      in case ccode of None \<Rightarrow> dat | Some i \<Rightarrow> dat[i + 6 := 0x58, i + 7 := 0x32, i + 8 := 0x0D])"

definition brcmf_fw_nvram_from_efi :: "fw_kernel \<Rightarrow> blob option" where
  "brcmf_fw_nvram_from_efi k =
     (case efi_get_variable k of
        None \<Rightarrow> None
      | Some get \<Rightarrow>
          (let (status, data_len, _) = get 0
           in if status \<noteq> EFI_BUFFER_TOO_SMALL then None
              else if \<not> buf_alloc k data_len then None
              else let (status, data_len, dat) = get data_len
                   in if status \<noteq> EFI_SUCCESS then None else Some (brcmf_fw_fix_efi_nvram_ccode dat)))"

subsection \<open>Completing an item\<close>

definition brcmf_fw_request_nvram_done :: "fw_kernel \<Rightarrow> blob option \<Rightarrow> brcmf_fw \<Rightarrow> (errno option \<times> brcmf_fw) option" where
  "brcmf_fw_request_nvram_done k fw ctx =
     (let it = cur ctx;
          dat = (case fw of Some d \<Rightarrow> Some d
                 | None \<Rightarrow> (case bcm47xx_nvram_get_contents k of Some d \<Rightarrow> Some d | None \<Rightarrow> brcmf_fw_nvram_from_efi k))
      in if dat = None \<and> \<not> optional it then Some (Some ENOENT, ctx)
         else do {
           nvram \<leftarrow> (case dat of None \<Rightarrow> Some None
             | Some d \<Rightarrow> brcmf_fw_nvram_strip (buf_alloc k) (eth_platform_mac k) (domain_nr (req ctx)) (bus_nr (req ctx)) d);
           if nvram = None \<and> \<not> optional it then Some (Some ENOENT, ctx)
           else Some (None, set_cur (it\<lparr>fw_content :=
               (case nvram of None \<Rightarrow> Fw_nv_data None 0 | Some (b, n) \<Rightarrow> Fw_nv_data (Some b) n)\<rparr>) ctx)
         })"

definition brcmf_fw_complete_request :: "fw_kernel \<Rightarrow> blob option \<Rightarrow> brcmf_fw \<Rightarrow> (errno option \<times> brcmf_fw) option" where
  "brcmf_fw_complete_request k fw ctx = do {
     let it = cur ctx;
     (ret, ctx) \<leftarrow> (case fw_type it of
         BRCMF_FW_TYPE_NVRAM \<Rightarrow> brcmf_fw_request_nvram_done k fw ctx
       | BRCMF_FW_TYPE_OTHER \<Rightarrow> Some (Some EINVAL, ctx)
       | _ \<Rightarrow> Some (case fw of Some b \<Rightarrow> (None, set_cur (it\<lparr>fw_content := Fw_binary (Some b)\<rparr>) ctx) | None \<Rightarrow> (Some ENOENT, ctx)));
     Some (if optional it then None else ret, ctx)
   }"

subsection \<open>Names of files\<close>

definition last_dot :: "string \<Rightarrow> nat option" where
  "last_dot path = find (\<lambda>i. path ! i = CHR ''.'') (rev [0..<length path])"

text \<open>\<open>Some None\<close> is the null pointer.\<close>

definition brcm_alt_fw_path :: "fw_kernel \<Rightarrow> string \<Rightarrow> string option \<Rightarrow> string option option" where
  "brcm_alt_fw_path k path board_type =
     (case board_type of
        None \<Rightarrow> Some None
      | Some board \<Rightarrow>
          (case last_dot path of
             None \<Rightarrow> Some None
           | Some n \<Rightarrow>
               if n = 0 then Some None
               else if n \<ge> BRCMF_FW_NAME_LEN then None
               else let ret = take n path @ ''.'' @ board @ drop n path
                    in Some (if path_alloc k ret then Some ret else None)))"

text \<open>The other files of a request, in turn; \<open>None\<close> as a result is the null pointer.\<close>

fun try_boards :: "fw_kernel \<Rightarrow> string \<Rightarrow> string option list \<Rightarrow> blob option option" where
  "try_boards k path [] = Some (case request_firmware k path of Inl _ \<Rightarrow> None | Inr b \<Rightarrow> Some b)"
| "try_boards k path (board # boards) =
     (let fallback = Some (case request_firmware k path of Inl _ \<Rightarrow> None | Inr b \<Rightarrow> Some b)
      in if board = None then fallback
         else do {
           alt \<leftarrow> brcm_alt_fw_path k path board;
           (case alt of
              None \<Rightarrow> fallback
            | Some alt \<Rightarrow> (case request_firmware_direct k alt of Inl _ \<Rightarrow> try_boards k path boards | Inr b \<Rightarrow> Some (Some b)))
         })"

definition brcmf_fw_request_firmware :: "fw_kernel \<Rightarrow> brcmf_fw \<Rightarrow> blob option option" where
  "brcmf_fw_request_firmware k ctx = Option.bind (fw_path (cur ctx)) (\<lambda>path. try_boards k path (board_types (req ctx)))"

subsection \<open>The run of a request\<close>

text \<open>What the callback of the bus gets: an error, or the request.\<close>

type_synonym fw_done = "errno + brcmf_fw_request"

partial_function (option) fw_items :: "fw_kernel \<Rightarrow> errno option \<Rightarrow> brcmf_fw \<Rightarrow> (errno option \<times> brcmf_fw) option" where
  "fw_items k ret ctx =
     (if ret = None \<and> curpos ctx + 1 < length (items (req ctx)) then do {
        let ctx = ctx\<lparr>curpos := curpos ctx + 1\<rparr>;
        fw \<leftarrow> brcmf_fw_request_firmware k ctx;
        (ret, ctx) \<leftarrow> brcmf_fw_complete_request k fw ctx;
        fw_items k ret ctx
      } else Some (ret, ctx))"

declare fw_items.simps [code]

text \<open>A file of the types TRXS and TRXSE that was not found is looked for once more, the latter without \<open>se\<close>.\<close>

definition retry_trx :: "fw_kernel \<Rightarrow> blob option \<Rightarrow> brcmf_fw \<Rightarrow> (blob option \<times> brcmf_fw) option" where
  "retry_trx k fw ctx =
     (let it = cur ctx;
          found = (\<lambda>alt. case request_firmware k alt of
              Inr b \<Rightarrow> (Some b, set_cur (it\<lparr>fw_path := Some alt\<rparr>) ctx)
            | Inl _ \<Rightarrow> (None, ctx))
      in if fw = None \<and> fw_type it = BRCMF_FW_TYPE_TRXS then do {
           path \<leftarrow> fw_path it;
           Some (found (take (BRCMF_FW_NAME_LEN - 1) path))
         }
         else if fw = None \<and> fw_type it = BRCMF_FW_TYPE_TRXSE then do {
           path \<leftarrow> fw_path it;
           let alt = take (BRCMF_FW_NAME_LEN - 1) path;
           if length alt < 2 then None else Some (found (take (length alt - 2) alt))
         }
         else Some (fw, ctx))"

definition brcmf_fw_request_done :: "fw_kernel \<Rightarrow> blob option \<Rightarrow> brcmf_fw \<Rightarrow> fw_done option" where
  "brcmf_fw_request_done k fw ctx = do {
     (fw, ctx) \<leftarrow> retry_trx k fw ctx;
     (ret, ctx) \<leftarrow> brcmf_fw_complete_request k fw ctx;
     (ret, ctx) \<leftarrow> fw_items k ret ctx;
     Some (case ret of Some e \<Rightarrow> Inl e | None \<Rightarrow> Inr (req ctx))
   }"

definition nowait_first :: "fw_kernel \<Rightarrow> brcmf_fw \<Rightarrow> fw_done option" where
  "nowait_first k ctx = do {
     path \<leftarrow> fw_path (items (req ctx) ! 0);
     brcmf_fw_request_done k (case request_firmware_nowait k path of Inl _ \<Rightarrow> None | Inr fw \<Rightarrow> fw) ctx
   }"

function brcmf_fw_request_done_alt_path :: "fw_kernel \<Rightarrow> blob option \<Rightarrow> brcmf_fw \<Rightarrow> fw_done option" where
  "brcmf_fw_request_done_alt_path k fw ctx =
     (if fw \<noteq> None then brcmf_fw_request_done k fw ctx
      else if board_index ctx < BRCMF_FW_MAX_BOARD_TYPES then
        (let board_type = board_types (req ctx) ! board_index ctx;
             ctx' = ctx\<lparr>board_index := board_index ctx + 1\<rparr>
         in if board_type = None then nowait_first k ctx'
            else do {
              path \<leftarrow> fw_path (items (req ctx) ! 0);
              alt \<leftarrow> brcm_alt_fw_path k path board_type;
              (case alt of
                 None \<Rightarrow> nowait_first k ctx'
               | Some alt \<Rightarrow> (case request_firmware_nowait k alt of
                     Inl _ \<Rightarrow> brcmf_fw_request_done k None ctx'
                   | Inr fw \<Rightarrow> brcmf_fw_request_done_alt_path k fw ctx'))
            })
      else nowait_first k ctx)"
  by pat_completeness auto
termination
  by (relation "measure (\<lambda>(k, fw, ctx). BRCMF_FW_MAX_BOARD_TYPES - board_index ctx)") auto

declare brcmf_fw_request_done_alt_path.simps [simp del]

definition brcmf_fw_request_is_valid :: "brcmf_fw_request \<Rightarrow> bool" where
  "brcmf_fw_request_is_valid r \<longleftrightarrow> items r \<noteq> [] \<and> list_all (\<lambda>it. fw_path it \<noteq> None) (items r)"

text \<open>The number returned, and what the callback of the bus gets if it is called.\<close>

definition brcmf_fw_get_firmwares ::
    "fw_kernel \<Rightarrow> bool \<Rightarrow> brcmf_fw_request \<Rightarrow> bool \<Rightarrow> (errno option \<times> fw_done option) option" where
  "brcmf_fw_get_firmwares k alloc r has_cb =
     (if \<not> has_cb then Some (Some EINVAL, None)
      else if \<not> brcmf_fw_request_is_valid r then Some (Some EINVAL, None)
      else if \<not> alloc then Some (Some ENOMEM, None)
      else let ctx = \<lparr>req = r, curpos = 0, board_index = 0\<rparr> in do {
        path \<leftarrow> fw_path (items r ! 0);
        alt \<leftarrow> (if board_types r ! 0 \<noteq> None then brcm_alt_fw_path k path (board_types r ! 0) else Some None);
        d \<leftarrow> (case alt of
            Some alt \<Rightarrow>
              (let ctx = ctx\<lparr>board_index := board_index ctx + 1\<rparr>
               in case request_firmware_nowait k alt of
                    Inl _ \<Rightarrow> brcmf_fw_request_done k None ctx
                  | Inr fw \<Rightarrow> brcmf_fw_request_done_alt_path k fw ctx)
          | None \<Rightarrow> nowait_first k ctx);
        Some (None, Some d)
      })"

definition brcmf_fw_get_firmware_sync ::
    "fw_kernel \<Rightarrow> bool \<Rightarrow> brcmf_fw_request \<Rightarrow> (errno option \<times> fw_done option) option" where
  "brcmf_fw_get_firmware_sync k alloc r =
     (if \<not> brcmf_fw_request_is_valid r then Some (Some EINVAL, None)
      else if length (items r) > 1 then Some (Some EINVAL, None)
      else if \<not> alloc then Some (Some ENOMEM, None)
      else let ctx = \<lparr>req = r, curpos = 0, board_index = 0\<rparr> in do {
        path \<leftarrow> fw_path (items r ! 0);
        alt \<leftarrow> (if board_types r ! 0 \<noteq> None then brcm_alt_fw_path k path (board_types r ! 0) else Some None);
        let found = (case alt of Some alt \<Rightarrow> request_firmware_direct k alt | None \<Rightarrow> Inl ENOENT);
        let found = (case found of Inl ENOENT \<Rightarrow> request_firmware k path | _ \<Rightarrow> found);
        d \<leftarrow> brcmf_fw_request_done k (case found of Inr b \<Rightarrow> Some b | Inl _ \<Rightarrow> None) ctx;
        Some (case found of Inl e \<Rightarrow> Some e | Inr _ \<Rightarrow> None, Some d)
      })"

subsection \<open>Making a request\<close>

record brcmf_firmware_mapping =
  chipid :: u32
  revmask :: u32
  fw_base :: string

text \<open>Strings in a buffer of \<open>n\<close> bytes.\<close>

definition strscpy :: "nat \<Rightarrow> string \<Rightarrow> string" where
  "strscpy n src = take (n - 1) src"

definition strlcat :: "nat \<Rightarrow> string \<Rightarrow> string \<Rightarrow> string" where
  "strlcat n dst src = dst @ take (n - 1 - length dst) src"

definition firmware_name :: "string \<Rightarrow> string \<Rightarrow> string \<Rightarrow> string" where
  "firmware_name mp_path base extension =
     (let p = (if mp_path \<noteq> [] then
                 (let p = strscpy BRCMF_FW_NAME_LEN mp_path
                  in if last mp_path \<noteq> CHR ''/'' then strlcat BRCMF_FW_NAME_LEN p ''/'' else p)
               else [])
      in strlcat BRCMF_FW_NAME_LEN (strlcat BRCMF_FW_NAME_LEN p base) extension)"

definition brcmf_fw_alloc_request ::
    "bool \<Rightarrow> string \<Rightarrow> u32 \<Rightarrow> u32 \<Rightarrow> brcmf_firmware_mapping list \<Rightarrow> string list \<Rightarrow> brcmf_fw_request option" where
  "brcmf_fw_alloc_request alloc mp_path chip chiprev mapping_table extensions =
     (if chiprev \<ge> 32 then None
      else case find (\<lambda>m. chipid m = chip \<and> bit (revmask m) (unat chiprev)) mapping_table of
        None \<Rightarrow> None
      | Some m \<Rightarrow>
          if \<not> alloc then None
          else Some \<lparr>domain_nr = 0, bus_nr = 0, board_types = replicate BRCMF_FW_MAX_BOARD_TYPES None,
             items = map (\<lambda>ext. \<lparr>fw_path = Some (firmware_name mp_path (fw_base m) ext), fw_type = BRCMF_FW_TYPE_BINARY,
                 fw_flags = 0, fw_content = Fw_binary None\<rparr>) extensions\<rparr>)"


subsection \<open>An item on its own\<close>

text \<open>The context of a request that has one item only, to say what completing an item does.\<close>

definition single :: "brcmf_fw_request \<Rightarrow> brcmf_fw_item \<Rightarrow> brcmf_fw" where
  "single r it = \<lparr>req = r\<lparr>items := [it]\<rparr>, curpos = 0, board_index = 0\<rparr>"

definition complete_item :: "fw_kernel \<Rightarrow> brcmf_fw_request \<Rightarrow> blob option \<Rightarrow> brcmf_fw_item \<Rightarrow> (errno option \<times> brcmf_fw_item) option" where
  "complete_item k r fw it = map_option (\<lambda>(e, c). (e, cur c)) (brcmf_fw_complete_request k fw (single r it))"

definition fetch_item :: "fw_kernel \<Rightarrow> brcmf_fw_request \<Rightarrow> brcmf_fw_item \<Rightarrow> (errno option \<times> brcmf_fw_item) option" where
  "fetch_item k r it = do {
     path \<leftarrow> fw_path it;
     fw \<leftarrow> try_boards k path (board_types r);
     complete_item k r fw it
   }"

lemma set_cur_simps [simp]:
  "curpos (set_cur it ctx) = curpos ctx" "length (items (req (set_cur it ctx))) = length (items (req ctx))"
  "domain_nr (req (set_cur it ctx)) = domain_nr (req ctx)" "bus_nr (req (set_cur it ctx)) = bus_nr (req ctx)"
  "board_types (req (set_cur it ctx)) = board_types (req ctx)"
  by (simp_all add: set_cur_def)

lemma set_cur_cur [simp]: "set_cur (cur ctx) ctx = ctx"
  by (simp add: set_cur_def cur_def)

lemma cur_set_cur [simp]: "curpos ctx < length (items (req ctx)) \<Longrightarrow> cur (set_cur it ctx) = it"
  by (simp add: set_cur_def cur_def)

lemma single_simps [simp]:
  "cur (single r it) = it" "curpos (single r it) = 0" "items (req (single r it)) = [it]" "cur (set_cur it' (single r it)) = it'"
  "domain_nr (req (single r it)) = domain_nr r" "bus_nr (req (single r it)) = bus_nr r"
  by (simp_all add: single_def cur_def set_cur_def)

lemma complete_request_item:
  "brcmf_fw_complete_request k fw ctx = map_option (\<lambda>(e, it). (e, set_cur it ctx)) (complete_item k (req ctx) fw (cur ctx))"
  by (cases "fw_type (cur ctx)"; cases fw)
    (auto simp: complete_item_def brcmf_fw_complete_request_def brcmf_fw_request_nvram_done_def Let_def
      split: option.splits Option.bind_splits)

lemma complete_item_same_request:
  "domain_nr r' = domain_nr r \<Longrightarrow> bus_nr r' = bus_nr r \<Longrightarrow> complete_item k r' fw it = complete_item k r fw it"
  by (cases "fw_type it"; cases fw)
    (auto simp: complete_item_def brcmf_fw_complete_request_def brcmf_fw_request_nvram_done_def Let_def
      split: option.splits Option.bind_splits)

lemma optional_never_fails: "optional it \<Longrightarrow> complete_item k r fw it = Some (e, it') \<Longrightarrow> e = None"
  by (auto simp: complete_item_def brcmf_fw_complete_request_def Let_def split: Option.bind_splits)

text \<open>Completing an item changes nothing but its contents.\<close>

lemma complete_item_contents:
  assumes "complete_item k r fw it = Some (e, it')"
  shows "it' = it\<lparr>fw_content := fw_content it'\<rparr>"
  using assms
  by (cases "fw_type it"; cases fw)
    (auto simp: complete_item_def brcmf_fw_complete_request_def brcmf_fw_request_nvram_done_def Let_def
      split: option.splits Option.bind_splits if_splits)

lemma binary_completed:
  "fw_type it \<in> {BRCMF_FW_TYPE_BINARY, BRCMF_FW_TYPE_TRXS, BRCMF_FW_TYPE_TRXSE} \<Longrightarrow>
   complete_item k r fw it = Some (case fw of Some b \<Rightarrow> (None, it\<lparr>fw_content := Fw_binary (Some b)\<rparr>)
     | None \<Rightarrow> (if optional it then None else Some ENOENT, it))"
  by (cases fw) (auto simp: complete_item_def brcmf_fw_complete_request_def Let_def split: option.splits)

subsection \<open>The loop over the other items\<close>

fun fetch_rest :: "fw_kernel \<Rightarrow> brcmf_fw_request \<Rightarrow> brcmf_fw_item list \<Rightarrow> (errno + brcmf_fw_item list) option" where
  "fetch_rest k r [] = Some (Inr [])"
| "fetch_rest k r (it # its) = do {
     (e, it') \<leftarrow> fetch_item k r it;
     (case e of Some e \<Rightarrow> Some (Inl e) | None \<Rightarrow> map_option (map_sum id ((#) it')) (fetch_rest k r its))
   }"

lemma fetch_rest_ok: "fetch_rest k r its = Some (Inr its') \<longleftrightarrow> list_all2 (\<lambda>i i'. fetch_item k r i = Some (None, i')) its its'"
proof (induction its arbitrary: its')
  case (Cons it its)
  show ?case
  proof (cases "fetch_item k r it")
    case (Some p)
    obtain e it' where p: "p = (e, it')" by (cases p)
    show ?thesis
    proof (cases e)
      case None
      then show ?thesis using Some p
        by (cases "fetch_rest k r its") (auto simp: list_all2_Cons1 map_sum_def Cons.IH [symmetric] split: sum.splits)
    qed (use Some p in \<open>auto simp: list_all2_Cons1\<close>)
  qed (auto simp: list_all2_Cons1)
qed auto

lemma fetch_rest_error: "fetch_rest k r its = Some (Inl e) \<longleftrightarrow>
  (\<exists>pre x post x'. its = pre @ x # post \<and> (\<forall>i\<in>set pre. \<exists>i'. fetch_item k r i = Some (None, i')) \<and> fetch_item k r x = Some (Some e, x'))"
proof (induction its)
  case (Cons it its)
  show ?case
  proof (cases "fetch_item k r it")
    case None
    then show ?thesis by (auto simp: Cons_eq_append_conv)
  next
    case (Some p)
    obtain d it' where p: "p = (d, it')" by (cases p)
    show ?thesis
    proof (cases d)
      case None
      have "fetch_rest k r (it # its) = Some (Inl e) \<longleftrightarrow> fetch_rest k r its = Some (Inl e)"
        using None Some p by (cases "fetch_rest k r its") (auto simp: map_sum_def split: sum.splits)
      then show ?thesis using Cons.IH None Some p by (auto simp: Cons_eq_append_conv) (metis append_Cons set_ConsD)+
    qed (use Some p in \<open>auto simp: Cons_eq_append_conv intro: exI [of _ "[]"]\<close>)
  qed
qed simp

lemma fetch_item_same_request:
  "domain_nr r' = domain_nr r \<Longrightarrow> bus_nr r' = bus_nr r \<Longrightarrow> board_types r' = board_types r \<Longrightarrow> fetch_item k r' it = fetch_item k r it"
  by (simp add: fetch_item_def complete_item_same_request [of r' r])

lemma items_loop:
  assumes "curpos ctx < length (items (req ctx))" "rest = drop (curpos ctx + 1) (items (req ctx))"
    and "done_items = take (curpos ctx + 1) (items (req ctx))"
    and "domain_nr (req ctx) = domain_nr r" "bus_nr (req ctx) = bus_nr r" "board_types (req ctx) = board_types r"
  shows "map_option (\<lambda>(ret, c). case ret of Some e \<Rightarrow> Inl e | None \<Rightarrow> Inr (req c)) (fw_items k None ctx) =
    map_option (map_sum id (\<lambda>its. (req ctx)\<lparr>items := done_items @ its\<rparr>)) (fetch_rest k r rest)"
  using assms
proof (induction rest arbitrary: ctx done_items)
  case Nil
  then have "\<not> curpos ctx + 1 < length (items (req ctx))" by simp
  with Nil show ?case by (subst fw_items.simps) simp
next
  case (Cons it its)
  let ?c = "ctx\<lparr>curpos := curpos ctx + 1\<rparr>"
  have more: "curpos ctx + 1 < length (items (req ctx))" using Cons.prems(2) by (metis drop_all linorder_not_le list.distinct(1))
  have it: "cur ?c = it" "drop (curpos ctx + 2) (items (req ctx)) = its"
    using Cons.prems(2) more by (simp_all add: cur_def Cons_nth_drop_Suc [symmetric])
  have fetch: "Option.bind (brcmf_fw_request_firmware k ?c) (\<lambda>fw. brcmf_fw_complete_request k fw ?c) =
      map_option (\<lambda>(e, it'). (e, set_cur it' ?c)) (fetch_item k r it)"
    using it(1) Cons.prems(4-6) complete_item_same_request [of "req ctx" r k]
    by (auto simp: brcmf_fw_request_firmware_def complete_request_item fetch_item_def split: Option.bind_splits)
  have step: "fw_items k None ctx = Option.bind (map_option (\<lambda>(e, it'). (e, set_cur it' ?c)) (fetch_item k r it)) (\<lambda>(ret, c). fw_items k ret c)"
    using more unfolding fetch [symmetric] by (subst fw_items.simps) (simp add: Let_def)
  show ?case
  proof (cases "fetch_item k r it")
    case None
    then show ?thesis using step by simp
  next
    case (Some p)
    obtain e it' where p: "p = (e, it')" by (cases p)
    show ?thesis
    proof (cases e)
      case (Some e')
      then have "fw_items k e (set_cur it' ?c) = Some (e, set_cur it' ?c)" by (subst fw_items.simps) simp
      then show ?thesis using step Some p \<open>fetch_item k r it = Some p\<close> by simp
    next
      case None
      let ?c' = "set_cur it' ?c"
      have i': "items (req ?c') = (items (req ctx))[curpos ctx + 1 := it']" by (simp add: set_cur_def)
      have "map_option (\<lambda>(ret, c). case ret of Some e \<Rightarrow> Inl e | None \<Rightarrow> Inr (req c)) (fw_items k None ?c') =
        map_option (map_sum id (\<lambda>its. (req ?c')\<lparr>items := (done_items @ [it']) @ its\<rparr>)) (fetch_rest k r its)"
      proof (rule Cons.IH)
        show "its = drop (curpos ?c' + 1) (items (req ?c'))" unfolding i' using it(2) by simp
        show "done_items @ [it'] = take (curpos ?c' + 1) (items (req ?c'))"
          unfolding i' using Cons.prems(3) more by (simp add: take_Suc_conv_app_nth)
      qed (use Cons.prems more in simp_all)
      moreover have "(req ?c')\<lparr>items := l\<rparr> = (req ctx)\<lparr>items := l\<rparr>" for l by (simp add: set_cur_def)
      ultimately show ?thesis
        using step None p \<open>fetch_item k r it = Some p\<close> by (cases "fetch_rest k r its") (auto simp: map_sum_def split: sum.splits)
    qed
  qed
qed


subsection \<open>What the bus gets\<close>

lemma bind_some_map: "Option.bind x (\<lambda>d. Some (f d)) = map_option f x"
  by (cases x) simp_all

lemma retry_trx_item:
  "retry_trx k fw ctx = map_option (\<lambda>(fw, c). (fw, set_cur (cur c) ctx)) (retry_trx k fw (single r (cur ctx)))"
  by (cases "fw_type (cur ctx)"; cases fw) (auto simp: retry_trx_def Let_def split: Option.bind_splits sum.splits)

definition fw_outcome :: "fw_kernel \<Rightarrow> brcmf_fw_request \<Rightarrow> blob option \<Rightarrow> fw_done option" where
  "fw_outcome k r fw = do {
     (fw, c) \<leftarrow> retry_trx k fw (single r (hd (items r)));
     (e, it) \<leftarrow> complete_item k r fw (cur c);
     (case e of
        Some e \<Rightarrow> Some (Inl e)
      | None \<Rightarrow> map_option (map_sum id (\<lambda>its. r\<lparr>items := it # its\<rparr>)) (fetch_rest k r (tl (items r))))
   }"

lemma request_done_outcome:
  assumes "curpos ctx = 0" "items (req ctx) \<noteq> []"
  shows "brcmf_fw_request_done k fw ctx = fw_outcome k (req ctx) fw"
proof -
  obtain it0 its where r: "items (req ctx) = it0 # its" using assms(2) by (auto simp: neq_Nil_conv)
  have c0: "cur ctx = it0" using r assms(1) by (simp add: cur_def)
  show ?thesis
  proof (cases "retry_trx k fw (single (req ctx) it0)")
    case None
    then show ?thesis using r c0 retry_trx_item [of k fw ctx "req ctx"] by (simp add: brcmf_fw_request_done_def fw_outcome_def)
  next
    case (Some p)
    obtain fw' c where p: "p = (fw', c)" by (cases p)
    let ?ctx = "set_cur (cur c) ctx"
    have retry: "retry_trx k fw ctx = Some (fw', ?ctx)" using Some p c0 retry_trx_item [of k fw ctx "req ctx"] by simp
    have cc: "cur ?ctx = cur c" using r assms(1) by simp
    have comp: "brcmf_fw_complete_request k fw' ?ctx = map_option (\<lambda>(e, it). (e, set_cur it ?ctx)) (complete_item k (req ctx) fw' (cur c))"
      unfolding complete_request_item cc using complete_item_same_request [of "req ?ctx" "req ctx"] by simp
    show ?thesis
    proof (cases "complete_item k (req ctx) fw' (cur c)")
      case None
      then show ?thesis using r retry comp Some p by (simp add: brcmf_fw_request_done_def fw_outcome_def)
    next
      case (Some q)
      obtain e it where q: "q = (e, it)" by (cases q)
      let ?c = "set_cur it ?ctx"
      have rc: "items (req ?c) = it # its" "(req ?c)\<lparr>items := l\<rparr> = (req ctx)\<lparr>items := l\<rparr>" for l
        using r assms(1) by (simp_all add: set_cur_def)
      show ?thesis
      proof (cases e)
        case (Some e')
        then have "fw_items k e ?c = Some (e, ?c)" by (subst fw_items.simps) simp
        then show ?thesis
          using Some r q retry comp \<open>retry_trx k fw _ = Some p\<close> p \<open>complete_item _ _ _ _ = Some q\<close>
          by (simp add: brcmf_fw_request_done_def fw_outcome_def)
      next
        case None
        have "map_option (\<lambda>(ret, c). case ret of Some e \<Rightarrow> Inl e | None \<Rightarrow> Inr (req c)) (fw_items k None ?c) =
            map_option (map_sum id (\<lambda>its. (req ctx)\<lparr>items := [it] @ its\<rparr>)) (fetch_rest k (req ctx) its)"
          unfolding rc(2) [symmetric] by (rule items_loop) (use rc(1) assms(1) in simp_all)
        then show ?thesis
          using None r q retry comp \<open>retry_trx k fw _ = Some p\<close> p \<open>complete_item _ _ _ _ = Some q\<close>
          by (simp add: brcmf_fw_request_done_def fw_outcome_def map_option_case bind_split_asm split: option.splits prod.splits)
      qed
    qed
  qed
qed

text \<open>
  C28: The bus gets the request exactly if the first item completes with the file that was found
  for it (after the second attempt for the types TRXS and TRXSE) and each other item completes with the
  file found for it in turn. Each item depends on itself alone; the request keeps its length and
  order, and differs in the contents only (and in the name of the first item after a second attempt).
\<close>

theorem fw_request_delivers:
  assumes "curpos ctx = 0" "items (req ctx) = it # its"
  shows "brcmf_fw_request_done k fw ctx = Some (Inr r) \<longleftrightarrow>
    (\<exists>fw' c it' its'. retry_trx k fw (single (req ctx) it) = Some (fw', c) \<and> complete_item k (req ctx) fw' (cur c) = Some (None, it')
       \<and> list_all2 (\<lambda>i i'. fetch_item k (req ctx) i = Some (None, i')) its its' \<and> r = (req ctx)\<lparr>items := it' # its'\<rparr>)"
proof -
  have "map_option (map_sum id f) x = Some (Inr r) \<longleftrightarrow> (\<exists>its'. x = Some (Inr its') \<and> r = f its')"
    for x :: "(errno + brcmf_fw_item list) option" and f :: "brcmf_fw_item list \<Rightarrow> brcmf_fw_request"
    by (cases x) (auto simp: map_sum_def split: sum.splits)
  then show ?thesis
    unfolding request_done_outcome [OF assms(1), unfolded assms(2), OF list.distinct(2)] fw_outcome_def fetch_rest_ok [symmetric] assms(2)
    by (auto simp: bind_eq_Some_conv split: option.splits)
qed


subsection \<open>Which file is found\<close>

text \<open>The files of the system, as all lookups see them.\<close>

definition fw_store :: "fw_kernel \<Rightarrow> (string \<Rightarrow> blob option) \<Rightarrow> bool" where
  "fw_store k files \<longleftrightarrow> (\<forall>p. request_firmware k p = (case files p of None \<Rightarrow> Inl ENOENT | Some b \<Rightarrow> Inr b)
     \<and> request_firmware_direct k p = (case files p of None \<Rightarrow> Inl ENOENT | Some b \<Rightarrow> Inr b)
     \<and> request_firmware_nowait k p = Inr (files p))"

text \<open>The names tried for a path, in order.\<close>

fun fw_names :: "fw_kernel \<Rightarrow> string \<Rightarrow> string option list \<Rightarrow> string list" where
  "fw_names k path [] = [path]"
| "fw_names k path (None # boards) = [path]"
| "fw_names k path (Some board # boards) =
     (case brcm_alt_fw_path k path (Some board) of
        Some (Some alt) \<Rightarrow> alt # fw_names k path boards
      | _ \<Rightarrow> [path])"

fun first_hit :: "(string \<Rightarrow> blob option) \<Rightarrow> string list \<Rightarrow> blob option" where
  "first_hit files [] = None"
| "first_hit files (p # ps) = (case files p of Some b \<Rightarrow> Some b | None \<Rightarrow> first_hit files ps)"

lemma alt_path_in_buffer: "length path < BRCMF_FW_NAME_LEN \<Longrightarrow> brcm_alt_fw_path k path board \<noteq> None"
proof -
  have "last_dot path = Some n \<Longrightarrow> n < length path" for n
    unfolding last_dot_def find_Some_iff by (metis atLeastLessThan_iff nth_mem set_rev set_upt)
  then show "length path < BRCMF_FW_NAME_LEN \<Longrightarrow> ?thesis" by (fastforce simp: brcm_alt_fw_path_def Let_def split: option.splits)
qed

lemma try_boards_search:
  assumes "fw_store k files" "length path < BRCMF_FW_NAME_LEN"
  shows "try_boards k path boards = Some (first_hit files (fw_names k path boards))"
proof (induction boards)
  case Nil
  then show ?case using assms(1) by (simp add: fw_store_def split: option.splits)
next
  case (Cons board boards)
  show ?case
  proof (cases board)
    case None
    then show ?thesis using assms(1) by (simp add: fw_store_def split: option.splits)
  next
    case (Some b)
    obtain alt where alt: "brcm_alt_fw_path k path board = Some alt" using alt_path_in_buffer [OF assms(2)] by auto
    have "request_firmware k p = (case files p of None \<Rightarrow> Inl ENOENT | Some b \<Rightarrow> Inr b)"
      "request_firmware_direct k p = (case files p of None \<Rightarrow> Inl ENOENT | Some b \<Rightarrow> Inr b)" for p
      using assms(1) by (simp_all add: fw_store_def)
    with Cons Some alt show ?thesis by (auto simp: Let_def split: option.splits)
  qed
qed

lemma request_done_any_index:
  assumes "curpos ctx = 0" "items (req ctx) \<noteq> []"
  shows "brcmf_fw_request_done k fw (ctx\<lparr>board_index := n\<rparr>) = brcmf_fw_request_done k fw ctx"
  using request_done_outcome [of ctx k fw] request_done_outcome [of "ctx\<lparr>board_index := n\<rparr>" k fw] assms by simp

lemma nowait_first_eq:
  assumes "fw_store k files" "fw_path (items (req ctx) ! 0) = Some path"
  shows "nowait_first k ctx = brcmf_fw_request_done k (files path) ctx"
  using assms by (simp add: nowait_first_def fw_store_def)

lemma callbacks_search:
  assumes "fw_store k files" "length path < BRCMF_FW_NAME_LEN" "fw_path (items (req ctx) ! 0) = Some path"
    and "items (req ctx) \<noteq> []" "curpos ctx = 0" "length (board_types (req ctx)) = BRCMF_FW_MAX_BOARD_TYPES"
    and "board_index ctx \<le> BRCMF_FW_MAX_BOARD_TYPES"
  shows "brcmf_fw_request_done_alt_path k None ctx =
    brcmf_fw_request_done k (first_hit files (fw_names k path (drop (board_index ctx) (board_types (req ctx))))) ctx"
  using assms(3-)
proof (induction "8 - board_index ctx" arbitrary: ctx)
  case 0
  then show ?case using nowait_first_eq [OF assms(1), of ctx path]
    by (subst brcmf_fw_request_done_alt_path.simps) (simp split: option.splits)
next
  case (Suc n)
  let ?c = "ctx\<lparr>board_index := board_index ctx + 1\<rparr>"
  have more: "board_index ctx < 8" using Suc.hyps(2) by simp
  obtain board boards where b: "drop (board_index ctx) (board_types (req ctx)) = board # boards"
    "board_types (req ctx) ! board_index ctx = board" "boards = drop (board_index ctx + 1) (board_types (req ctx))"
    using more Suc.prems(4) by (metis Cons_nth_drop_Suc Suc_eq_plus1)
  have any: "brcmf_fw_request_done k fw ?c = brcmf_fw_request_done k fw ctx" for fw
    using request_done_any_index [OF Suc.prems(3,2)] .
  have first: "nowait_first k ?c = brcmf_fw_request_done k (files path) ctx"
    using nowait_first_eq [OF assms(1), of ?c path] Suc.prems(1) any by simp
  show ?case
  proof (cases board)
    case None
    then show ?thesis using more b first
      by (subst brcmf_fw_request_done_alt_path.simps) (simp split: option.splits)
  next
    case (Some bt)
    obtain alt where alt: "brcm_alt_fw_path k path (Some bt) = Some alt" using alt_path_in_buffer [OF assms(2)] by auto
    show ?thesis
    proof (cases alt)
      case None
      then show ?thesis using Some more b first alt Suc.prems(1)
        by (subst brcmf_fw_request_done_alt_path.simps) (simp split: option.splits)
    next
      case (Some p)
      have now: "request_firmware_nowait k p = Inr (files p)" using assms(1) by (simp add: fw_store_def)
      have step: "brcmf_fw_request_done_alt_path k None ctx = brcmf_fw_request_done_alt_path k (files p) ?c"
        using \<open>board = Some bt\<close> Some more b alt Suc.prems(1) now
        by (subst brcmf_fw_request_done_alt_path.simps) (simp add: Let_def)
      show ?thesis
      proof (cases "files p")
        case None
        have "brcmf_fw_request_done_alt_path k None ?c =
            brcmf_fw_request_done k (first_hit files (fw_names k path (drop (board_index ?c) (board_types (req ?c))))) ?c"
          by (rule Suc.hyps(1)) (use Suc.hyps(2) Suc.prems in simp_all)
        then show ?thesis using step None any b \<open>board = Some bt\<close> Some alt by simp
      next
        case (Some f)
        then have "brcmf_fw_request_done_alt_path k (files p) ?c = brcmf_fw_request_done k (Some f) ctx"
          using any by (subst brcmf_fw_request_done_alt_path.simps) simp
        then show ?thesis using step Some b \<open>board = Some bt\<close> \<open>alt = Some p\<close> alt by simp
      qed
    qed
  qed
qed

text \<open>
  C27: The first file of a request, looked for by a chain of callbacks that each start the next
  lookup, and the other files, looked for in a loop, follow the same order: the names of the board
  from the first to the last, up to the first that is missing or cannot be made, then the common
  name; the first file that exists is taken.
\<close>

theorem fw_callbacks_equal_search:
  assumes "fw_store k files" "brcmf_fw_request_is_valid r" "length (board_types r) = BRCMF_FW_MAX_BOARD_TYPES"
    and "fw_path (items r ! 0) = Some path" "length path < BRCMF_FW_NAME_LEN"
  shows "brcmf_fw_get_firmwares k True r True = map_option (\<lambda>d. (None, Some d))
      (brcmf_fw_request_done k (first_hit files (fw_names k path (board_types r))) \<lparr>req = r, curpos = 0, board_index = 0\<rparr>)
    \<and> try_boards k path (board_types r) = Some (first_hit files (fw_names k path (board_types r)))"
proof
  show "try_boards k path (board_types r) = Some (first_hit files (fw_names k path (board_types r)))"
    by (rule try_boards_search [OF assms(1,5)])
  let ?ctx = "\<lparr>req = r, curpos = 0, board_index = 0\<rparr>"
  have ne: "items r \<noteq> []" using assms(2) by (simp add: brcmf_fw_request_is_valid_def)
  obtain board boards where b: "board_types r = board # boards" using assms(3) by (cases "board_types r") auto
  have first: "nowait_first k ?ctx = brcmf_fw_request_done k (files path) ?ctx"
    using nowait_first_eq [OF assms(1), of ?ctx path] assms(4) by simp
  have hit: "first_hit files [path] = files path" by (simp split: option.splits)
  show "brcmf_fw_get_firmwares k True r True = map_option (\<lambda>d. (None, Some d))
      (brcmf_fw_request_done k (first_hit files (fw_names k path (board_types r))) ?ctx)"
  proof (cases board)
    case None
    then show ?thesis using assms(2,4) b first hit
      by (simp add: brcmf_fw_get_firmwares_def bind_some_map)
  next
    case (Some bt)
    obtain alt where alt: "brcm_alt_fw_path k path (Some bt) = Some alt" using alt_path_in_buffer [OF assms(5)] by auto
    show ?thesis
    proof (cases alt)
      case None
      then show ?thesis using assms(2,4) b first hit Some alt
        by (simp add: brcmf_fw_get_firmwares_def bind_some_map)
    next
      case (Some p)
      let ?c = "?ctx\<lparr>board_index := 1\<rparr>"
      have now: "request_firmware_nowait k p = Inr (files p)" using assms(1) by (simp add: fw_store_def)
      have get: "brcmf_fw_get_firmwares k True r True = map_option (\<lambda>d. (None, Some d)) (brcmf_fw_request_done_alt_path k (files p) ?c)"
        using assms(2,4) b \<open>board = Some bt\<close> alt Some now
        by (simp add: brcmf_fw_get_firmwares_def bind_some_map)
      have any: "brcmf_fw_request_done k fw ?c = brcmf_fw_request_done k fw ?ctx" for fw
        using request_done_any_index [of ?ctx k fw 1] ne by simp
      have "brcmf_fw_request_done_alt_path k (files p) ?c =
          brcmf_fw_request_done k (first_hit files (fw_names k path (board_types r))) ?ctx"
      proof (cases "files p")
        case None
        have "brcmf_fw_request_done_alt_path k None ?c =
            brcmf_fw_request_done k (first_hit files (fw_names k path (drop (board_index ?c) (board_types (req ?c))))) ?c"
          by (rule callbacks_search [OF assms(1,5)]) (use assms(3,4) ne in simp_all)
        then show ?thesis using None any b \<open>board = Some bt\<close> alt Some by simp
      next
        case (Some f)
        then show ?thesis using any b \<open>board = Some bt\<close> alt \<open>alt = Some p\<close>
          by (subst brcmf_fw_request_done_alt_path.simps) simp
      qed
      with get show ?thesis by simp
    qed
  qed
qed

text \<open>A system with two files, the image under the name of the second board.\<close>

definition sample_files :: "string \<Rightarrow> blob option" where
  "sample_files p = (if p = ''fw.B.bin'' then Some [1, 2, 3] else if p = ''fw.clm'' then Some [7] else None)"

definition sample_kernel :: fw_kernel where
  "sample_kernel = \<lparr>request_firmware = (\<lambda>p. case sample_files p of None \<Rightarrow> Inl ENOENT | Some b \<Rightarrow> Inr b),
     request_firmware_direct = (\<lambda>p. case sample_files p of None \<Rightarrow> Inl ENOENT | Some b \<Rightarrow> Inr b),
     request_firmware_nowait = (\<lambda>p. Inr (sample_files p)), bcm47xx_nvram_get_contents = None, efi_get_variable = None,
     eth_platform_mac = None, path_alloc = (\<lambda>_. True), buf_alloc = (\<lambda>_. True)\<rparr>"

definition sample_item :: "string \<Rightarrow> u16 \<Rightarrow> brcmf_fw_item" where
  "sample_item p fl = \<lparr>fw_path = Some p, fw_type = BRCMF_FW_TYPE_BINARY, fw_flags = fl, fw_content = Fw_binary None\<rparr>"

definition sample_request :: brcmf_fw_request where
  "sample_request = \<lparr>domain_nr = 0, bus_nr = 0, board_types = [Some ''A'', Some ''B'', None, None, None, None, None, None],
     items = [sample_item ''fw.bin'' 0, sample_item ''fw.clm'' 0, sample_item ''fw.cap'' 1]\<rparr>"

lemma sample_store: "fw_store sample_kernel sample_files"
  by (simp add: fw_store_def sample_kernel_def)

lemma sample_search: "first_hit sample_files (fw_names sample_kernel ''fw.bin'' (board_types sample_request)) = Some [1, 2, 3]"
  by code_simp

theorem fw_callbacks_equal_search_witness:
  "\<exists>ctx. req ctx = sample_request \<and> brcmf_fw_get_firmwares sample_kernel True sample_request True =
     map_option (\<lambda>d. (None, Some d)) (brcmf_fw_request_done sample_kernel (Some [1, 2, 3]) ctx)"
proof -
  have "brcmf_fw_request_is_valid sample_request" by code_simp
  moreover have "fw_path (items sample_request ! 0) = Some ''fw.bin''" "length (board_types sample_request) = BRCMF_FW_MAX_BOARD_TYPES"
    by (simp_all add: sample_request_def sample_item_def)
  ultimately show ?thesis
    using fw_callbacks_equal_search [OF sample_store, of sample_request "''fw.bin''"] sample_search
    by (intro exI [of _ "\<lparr>req = sample_request, curpos = 0, board_index = 0\<rparr>"]) simp
qed

theorem fw_request_delivers_witness:
  "\<exists>r. brcmf_fw_request_done sample_kernel (Some [1, 2, 3]) \<lparr>req = sample_request, curpos = 0, board_index = 0\<rparr> = Some (Inr r) \<and>
     map fw_content (items r) = [Fw_binary (Some [1, 2, 3]), Fw_binary (Some [7]), Fw_binary None]"
proof -
  let ?i1 = "sample_item ''fw.bin'' 0" and ?i2 = "sample_item ''fw.clm'' 0" and ?i3 = "sample_item ''fw.cap'' 1"
  let ?r = "sample_request\<lparr>items := [?i1\<lparr>fw_content := Fw_binary (Some [1, 2, 3])\<rparr>, ?i2\<lparr>fw_content := Fw_binary (Some [7])\<rparr>, ?i3]\<rparr>"
  have hits: "first_hit sample_files (fw_names sample_kernel ''fw.clm'' (board_types sample_request)) = Some [7]"
    "first_hit sample_files (fw_names sample_kernel ''fw.cap'' (board_types sample_request)) = None"
    by code_simp+
  have retry: "retry_trx sample_kernel (Some [1, 2, 3]) (single sample_request ?i1) = Some (Some [1, 2, 3], single sample_request ?i1)"
    by (simp add: retry_trx_def)
  have items: "fetch_item sample_kernel sample_request ?i2 = Some (None, ?i2\<lparr>fw_content := Fw_binary (Some [7])\<rparr>)"
    "fetch_item sample_kernel sample_request ?i3 = Some (None, ?i3)"
    using try_boards_search [OF sample_store] hits
    by (simp_all add: fetch_item_def binary_completed sample_item_def optional_def)
  let ?ctx = "\<lparr>req = sample_request, curpos = 0, board_index = 0\<rparr>"
  have first: "complete_item sample_kernel sample_request (Some [1, 2, 3]) ?i1 = Some (None, ?i1\<lparr>fw_content := Fw_binary (Some [1, 2, 3])\<rparr>)"
    by (simp add: binary_completed sample_item_def)
  have its: "items (req ?ctx) = ?i1 # [?i2, ?i3]" by (simp add: sample_request_def)
  have "brcmf_fw_request_done sample_kernel (Some [1, 2, 3]) ?ctx = Some (Inr ?r)"
    by (rule iffD2 [OF fw_request_delivers [OF _ its]])
      (use retry items first in \<open>auto intro!: exI [of _ "[?i2\<lparr>fw_content := Fw_binary (Some [7])\<rparr>, ?i3]"]\<close>)
  then show ?thesis by (simp add: sample_item_def)
qed

subsection \<open>Names fit their buffers\<close>

lemma string_copies_fit: "0 < n \<Longrightarrow> length (strscpy n src) < n" "length dst < n \<Longrightarrow> length (strlcat n dst src) < n"
  by (auto simp: strscpy_def strlcat_def)

lemma firmware_name_fits: "length (firmware_name mp base ext) < BRCMF_FW_NAME_LEN"
  unfolding firmware_name_def Let_def by (simp add: string_copies_fit)

lemma firmware_name_full:
  "length mp + length base + length ext < BRCMF_FW_NAME_LEN - 1 \<Longrightarrow>
   firmware_name mp base ext = (if mp = [] then [] else if last mp = CHR ''/'' then mp else mp @ ''/'') @ base @ ext"
  by (auto simp: firmware_name_def strscpy_def strlcat_def Let_def)

text \<open>
  A request is made only for a chip and a revision of the table, valid when it names a file,
  with a name for each extension that fits its buffer; when the parts together are short enough, the
  name is the path given as a parameter, a slash unless the path ends in one, the base name of the
  chip and the extension.
\<close>

theorem fw_alloc_request_names:
  assumes "brcmf_fw_alloc_request alloc mp chip chiprev table exts = Some r"
  shows "\<exists>m\<in>set table. chipid m = chip \<and> bit (revmask m) (unat chiprev)
    \<and> list_all2 (\<lambda>ext it. \<exists>name. fw_path it = Some name \<and> length name < BRCMF_FW_NAME_LEN
        \<and> (length mp + length (fw_base m) + length ext < BRCMF_FW_NAME_LEN - 1 \<longrightarrow>
            name = (if mp = [] then [] else if last mp = CHR ''/'' then mp else mp @ ''/'') @ fw_base m @ ext)) exts (items r)
    \<and> (exts \<noteq> [] \<longrightarrow> brcmf_fw_request_is_valid r)"
proof -
  obtain m where m: "find (\<lambda>m. chipid m = chip \<and> bit (revmask m) (unat chiprev)) table = Some m"
    "items r = map (\<lambda>ext. \<lparr>fw_path = Some (firmware_name mp (fw_base m) ext), fw_type = BRCMF_FW_TYPE_BINARY,
         fw_flags = 0, fw_content = Fw_binary None\<rparr>) exts"
    using assms by (auto simp: brcmf_fw_alloc_request_def split: if_splits option.splits)
  then have "m \<in> set table" "chipid m = chip" "bit (revmask m) (unat chiprev)" by (auto simp: find_Some_iff)
  moreover have "exts \<noteq> [] \<Longrightarrow> brcmf_fw_request_is_valid r" by (simp add: brcmf_fw_request_is_valid_def m(2) list_all_iff)
  ultimately show ?thesis
    using firmware_name_fits firmware_name_full by (intro bexI [of _ m]) (auto simp: m(2) list_all2_map2 list_all2_same)
qed

theorem fw_alloc_request_names_witness:
  "\<exists>r name. brcmf_fw_alloc_request True ''fw'' 0x4373 2 [\<lparr>chipid = 0x4373, revmask = 0xFFFFFFFF, fw_base = ''cyfmac4373''\<rparr>] [''.bin''] = Some r
     \<and> map fw_path (items r) = [Some name] \<and> name = ''fw/cyfmac4373.bin''"
proof -
  let ?t = "[\<lparr>chipid = 0x4373, revmask = 0xFFFFFFFF, fw_base = ''cyfmac4373''\<rparr>]"
  obtain r where r: "brcmf_fw_alloc_request True ''fw'' 0x4373 2 ?t [''.bin''] = Some r"
    by (simp add: brcmf_fw_alloc_request_def)
  show ?thesis using fw_alloc_request_names [OF r] r by (auto simp: list_all2_Cons1)
qed

end
