(* ===== verification/Fwil.thy ===== *)
theory Fwil
  imports Memory
begin

section \<open>The firmware interface layer (brcmfmac/fwil.c, fwil.h, xtlv.c)\<close>

text \<open>
  The configuration of the firmware is a set of variables. A request to read or write one is a
  buffer with its name, ended by a NUL, and the data; for an interface other than the first the
  name has a prefix and the number of the interface follows it; other variables take a record of
  type, length and value. \<open>brcmf_fil_cmd_data\<close> passes the buffer to the protocol and turns its
  two error numbers into one.

  The protocol and the firmware behind it are a parameter \<open>dcmd\<close>: for a direction, a command, the
  buffer and a length it gives the error of the transport, the error of the firmware, and the
  buffer afterwards. Errors are the negative numbers of the C code, as integers. \<open>None\<close> is an
  access outside of a buffer. The lock around each request is implicit.

  Shown: a reader of requests recovers the interface, name and data; records packed one after the
  other are read back; which error a caller sees.
\<close>

subsection \<open>Records of type, length and value\<close>

abbreviation (input) BRCMF_XTLV_OPTION_ALIGN32 :: u16 where "BRCMF_XTLV_OPTION_ALIGN32 \<equiv> 1"
abbreviation (input) BRCMF_XTLV_OPTION_IDU8 :: u16 where "BRCMF_XTLV_OPTION_IDU8 \<equiv> 2"
abbreviation (input) BRCMF_XTLV_OPTION_LENU8 :: u16 where "BRCMF_XTLV_OPTION_LENU8 \<equiv> 4"

definition opt :: "u16 \<Rightarrow> u16 \<Rightarrow> bool" where
  "opt opts flag \<longleftrightarrow> opts AND flag \<noteq> 0"

definition brcmf_xtlv_header_size :: "u16 \<Rightarrow> u32" where
  "brcmf_xtlv_header_size opts =
     (let len = 4;
          len = (if opt opts BRCMF_XTLV_OPTION_IDU8 then len - 1 else len)
      in if opt opts BRCMF_XTLV_OPTION_LENU8 then len - 1 else len)"

text \<open>\<open>roundup\<close> on a signed number, whose division truncates towards zero.\<close>

definition roundup4_int :: "u32 \<Rightarrow> u32" where
  "roundup4_int x = (let v = sint (x + 3) in word_of_int (sgn v * (\<bar>v\<bar> div 4) * 4))"

definition brcmf_xtlv_data_size :: "u32 \<Rightarrow> u16 \<Rightarrow> u32" where
  "brcmf_xtlv_data_size dlen opts =
     (let hsz = brcmf_xtlv_header_size opts
      in if opt opts BRCMF_XTLV_OPTION_ALIGN32 then roundup4_int (dlen + hsz) else dlen + hsz)"

text \<open>The first \<open>n\<close> bytes of the source of a copy.\<close>

definition src_bytes :: "u8 list \<Rightarrow> nat \<Rightarrow> u8 list option" where
  "src_bytes dat n = (if n \<le> length dat then Some (take n dat) else None)"

definition brcmf_xtlv_pack_header :: "u8 list \<Rightarrow> nat \<Rightarrow> u16 \<Rightarrow> u16 \<Rightarrow> u8 list option \<Rightarrow> u16 \<Rightarrow> u8 list option" where
  "brcmf_xtlv_pack_header m i tid len dat opts = do {
     let mask = BRCMF_XTLV_OPTION_IDU8 OR BRCMF_XTLV_OPTION_LENU8;
     let hdr = (if \<not> opt opts mask then le16_bytes tid @ le16_bytes len
                else if opts AND mask = mask then [ucast tid, ucast len]
                else if opt opts BRCMF_XTLV_OPTION_IDU8 then ucast tid # le16_bytes len
                else le16_bytes tid @ [ucast len]);
     m \<leftarrow> buf_write m i hdr;
     let len = (if opt opts BRCMF_XTLV_OPTION_LENU8 then len AND 0xFF else len);
     (case dat of
        None \<Rightarrow> Some m
      | Some dat \<Rightarrow> Option.bind (src_bytes dat (unat len)) (buf_write m (i + length hdr)))
   }"

text \<open>The buffer, where the next record goes in it, and the room left; the result is the size of the record.\<close>

definition brcmf_pack_xtlv ::
    "u16 \<Rightarrow> u8 list option \<Rightarrow> u32 \<Rightarrow> u8 list \<times> nat \<times> u16 \<Rightarrow> (u32 \<times> u8 list \<times> nat \<times> u16) option" where
  "brcmf_pack_xtlv tid dat len b =
     (let (m, i, buflen) = b;
          iolen = brcmf_xtlv_data_size len BRCMF_XTLV_OPTION_ALIGN32
      in if iolen > ucast buflen then Some (0, b)
         else do {
           m \<leftarrow> brcmf_xtlv_pack_header m i tid (ucast len) dat BRCMF_XTLV_OPTION_ALIGN32;
           Some (iolen, m, i + unat iolen, buflen - ucast iolen)
         })"

subsection \<open>Requests\<close>

text \<open>A name is a string without NUL; it is stored with one.\<close>

definition brcmf_create_iovar :: "u8 list \<Rightarrow> u8 list option \<Rightarrow> u32 \<Rightarrow> u8 list \<Rightarrow> u32 \<Rightarrow> (u32 \<times> u8 list) option" where
  "brcmf_create_iovar name dat datalen buf buflen =
     (let len = of_nat (length name) + 1
      in if len + datalen > buflen then Some (0, buf)
         else do {
           buf \<leftarrow> buf_write buf 0 (name @ [0]);
           buf \<leftarrow> (case dat of
               Some d \<Rightarrow> if datalen \<noteq> 0 then Option.bind (src_bytes d (unat datalen)) (buf_write buf (unat len)) else Some buf
             | None \<Rightarrow> Some buf);
           Some (len + datalen, buf)
         })"

definition bsscfg_prefix :: "u8 list" where
  "bsscfg_prefix = chars ''bsscfg:''"

definition brcmf_create_bsscfg ::
    "u32 \<Rightarrow> u8 list \<Rightarrow> u8 list \<Rightarrow> u32 \<Rightarrow> u8 list \<Rightarrow> u32 \<Rightarrow> (u32 \<times> u8 list) option" where
  "brcmf_create_bsscfg bsscfgidx name dat datalen buf buflen =
     (if bsscfgidx = 0 then brcmf_create_iovar name (Some dat) datalen buf buflen
      else let prefixlen = of_nat (length bsscfg_prefix);
               namelen = of_nat (length name) + 1;
               iolen = prefixlen + namelen + 4 + datalen
           in if buflen < iolen then Some (0, buf)
              else do {
                buf \<leftarrow> buf_write buf 0 bsscfg_prefix;
                buf \<leftarrow> buf_write buf (unat prefixlen) (name @ [0]);
                buf \<leftarrow> buf_write buf (unat (prefixlen + namelen)) (le32_bytes bsscfgidx);
                buf \<leftarrow> (if datalen \<noteq> 0 then Option.bind (src_bytes dat (unat datalen)) (buf_write buf (unat (prefixlen + namelen + 4)))
                        else Some buf);
                Some (iolen, buf)
              })"

definition brcmf_create_xtlv ::
    "u8 list \<Rightarrow> u16 \<Rightarrow> u8 list \<Rightarrow> u32 \<Rightarrow> u8 list \<Rightarrow> u32 \<Rightarrow> (u32 \<times> u8 list) option" where
  "brcmf_create_xtlv name tid dat len buf buflen =
     (let nmlen = of_nat (length name) + 1;
          iolen = nmlen + brcmf_xtlv_data_size len BRCMF_XTLV_OPTION_ALIGN32
      in if iolen > buflen then Some (0, buf)
         else do {
           buf \<leftarrow> buf_write buf 0 (name @ [0]);
           buf \<leftarrow> brcmf_xtlv_pack_header buf (unat nmlen) tid (ucast len) (Some dat) BRCMF_XTLV_OPTION_ALIGN32;
           Some (iolen, buf)
         })"

subsection \<open>Commands\<close>

abbreviation (input) BRCMF_DCMD_MAXLEN :: nat where "BRCMF_DCMD_MAXLEN \<equiv> 8192"
abbreviation (input) BRCMF_C_GET_VAR :: u32 where "BRCMF_C_GET_VAR \<equiv> 262"
abbreviation (input) BRCMF_C_SET_VAR :: u32 where "BRCMF_C_SET_VAR \<equiv> 263"

abbreviation (input) fil_EPERM :: int where "fil_EPERM \<equiv> - 1"
abbreviation (input) fil_EIO :: int where "fil_EIO \<equiv> - 5"
abbreviation (input) fil_EBADE :: int where "fil_EBADE \<equiv> - 52"

text \<open>The interface, the buffer of the driver, and the state of the protocol and the firmware.\<close>

record 's fil_if =
  bus_up :: bool
  fwil_fwerr :: bool
  bsscfgidx :: u32
  proto_buf :: "u8 list"
  dongle :: 's

type_synonym 's dcmd = "bool \<Rightarrow> u32 \<Rightarrow> u8 list option \<Rightarrow> u32 \<Rightarrow> 's \<Rightarrow> (int \<times> int \<times> u8 list option \<times> 's) option"

definition brcmf_fil_cmd_data ::
    "'s dcmd \<Rightarrow> 's fil_if \<Rightarrow> u32 \<Rightarrow> u8 list option \<Rightarrow> u32 \<Rightarrow> bool \<Rightarrow> (int \<times> u8 list option \<times> 's fil_if) option" where
  "brcmf_fil_cmd_data dcmd ifp cmd dat len set_it =
     (if \<not> bus_up ifp then Some (fil_EIO, dat, ifp)
      else do {
        let len = (if dat \<noteq> None then min len (of_nat BRCMF_DCMD_MAXLEN) else len);
        (err, fwerr, dat, s) \<leftarrow> dcmd set_it cmd dat len (dongle ifp);
        let err = (if err \<noteq> 0 then err else if fwerr < 0 then fil_EBADE else err);
        Some (if fwil_fwerr ifp then fwerr else err, dat, ifp\<lparr>dongle := s\<rparr>)
      })"

definition brcmf_fil_cmd_data_set where
  "brcmf_fil_cmd_data_set dcmd ifp cmd dat len = brcmf_fil_cmd_data dcmd ifp cmd dat len True"

definition brcmf_fil_cmd_data_get where
  "brcmf_fil_cmd_data_get dcmd ifp cmd dat len = brcmf_fil_cmd_data dcmd ifp cmd dat len False"

text \<open>What the requests with a name have in common, behind the making of the buffer.\<close>

definition fil_var_set :: "'s dcmd \<Rightarrow> 's fil_if \<Rightarrow> (u32 \<times> u8 list) option \<Rightarrow> (int \<times> 's fil_if) option" where
  "fil_var_set dcmd ifp made = do {
     (buflen, buf) \<leftarrow> made;
     if buflen \<noteq> 0 then do {
       (err, buf, ifp) \<leftarrow> brcmf_fil_cmd_data dcmd ifp BRCMF_C_SET_VAR (Some buf) buflen True;
       buf \<leftarrow> buf;
       Some (err, ifp\<lparr>proto_buf := buf\<rparr>)
     }
     else Some (fil_EPERM, ifp\<lparr>proto_buf := buf\<rparr>)
   }"

definition fil_var_get :: "'s dcmd \<Rightarrow> 's fil_if \<Rightarrow> (u32 \<times> u8 list) option \<Rightarrow> u8 list \<Rightarrow> u32 \<Rightarrow> (int \<times> u8 list \<times> 's fil_if) option" where
  "fil_var_get dcmd ifp made dat len = do {
     (buflen, buf) \<leftarrow> made;
     if buflen \<noteq> 0 then do {
       (err, buf, ifp) \<leftarrow> brcmf_fil_cmd_data dcmd ifp BRCMF_C_GET_VAR (Some buf) buflen False;
       buf \<leftarrow> buf;
       dat \<leftarrow> (if err = 0 then Option.bind (src_bytes buf (unat len)) (buf_write dat 0) else Some dat);
       Some (err, dat, ifp\<lparr>proto_buf := buf\<rparr>)
     }
     else Some (fil_EPERM, dat, ifp\<lparr>proto_buf := buf\<rparr>)
   }"

definition proto_buf_size :: u32 where
  "proto_buf_size = of_nat BRCMF_DCMD_MAXLEN"

definition brcmf_fil_iovar_data_set where
  "brcmf_fil_iovar_data_set dcmd ifp name dat len =
     fil_var_set dcmd ifp (brcmf_create_iovar name dat len (proto_buf ifp) proto_buf_size)"

definition brcmf_fil_iovar_data_get where
  "brcmf_fil_iovar_data_get dcmd ifp name dat len =
     fil_var_get dcmd ifp (brcmf_create_iovar name (Some dat) len (proto_buf ifp) proto_buf_size) dat len"

definition brcmf_fil_bsscfg_data_set where
  "brcmf_fil_bsscfg_data_set dcmd ifp name dat len =
     fil_var_set dcmd ifp (brcmf_create_bsscfg (bsscfgidx ifp) name dat len (proto_buf ifp) proto_buf_size)"

definition brcmf_fil_bsscfg_data_get where
  "brcmf_fil_bsscfg_data_get dcmd ifp name dat len =
     fil_var_get dcmd ifp (brcmf_create_bsscfg (bsscfgidx ifp) name dat len (proto_buf ifp) proto_buf_size) dat len"

definition brcmf_fil_xtlv_data_set where
  "brcmf_fil_xtlv_data_set dcmd ifp name tid dat len =
     fil_var_set dcmd ifp (brcmf_create_xtlv name tid dat len (proto_buf ifp) proto_buf_size)"

definition brcmf_fil_xtlv_data_get where
  "brcmf_fil_xtlv_data_get dcmd ifp name tid dat len =
     fil_var_get dcmd ifp (brcmf_create_xtlv name tid dat len (proto_buf ifp) proto_buf_size) dat len"

text \<open>
  Integers, in the byte order of the firmware, which is taken to be that of the host as well, so
  that the queries, which convert the number given to the read first, are the reads.
\<close>

definition le32_read :: "u8 list \<Rightarrow> u32" where
  "le32_read b = le32_of (b ! 0) (b ! 1) (b ! 2) (b ! 3)"

definition le16_read :: "u8 list \<Rightarrow> u16" where
  "le16_read b = le16_of (b ! 0) (b ! 1)"

definition brcmf_fil_cmd_int_set where
  "brcmf_fil_cmd_int_set dcmd ifp cmd v = brcmf_fil_cmd_data_set dcmd ifp cmd (Some (le32_bytes v)) 4"

definition brcmf_fil_cmd_int_get where
  "brcmf_fil_cmd_int_get dcmd ifp cmd v = do {
     (err, dat, ifp) \<leftarrow> brcmf_fil_cmd_data_get dcmd ifp cmd (Some (le32_bytes v)) 4;
     dat \<leftarrow> dat;
     Some (err, le32_read dat, ifp)
   }"

definition brcmf_fil_iovar_int_set where
  "brcmf_fil_iovar_int_set dcmd ifp name v = brcmf_fil_iovar_data_set dcmd ifp name (Some (le32_bytes v)) 4"

definition brcmf_fil_iovar_int_get where
  "brcmf_fil_iovar_int_get dcmd ifp name v =
     map_option (\<lambda>(err, dat, ifp). (err, le32_read dat, ifp)) (brcmf_fil_iovar_data_get dcmd ifp name (le32_bytes v) 4)"

definition brcmf_fil_bsscfg_int_set where
  "brcmf_fil_bsscfg_int_set dcmd ifp name v = brcmf_fil_bsscfg_data_set dcmd ifp name (le32_bytes v) 4"

definition brcmf_fil_bsscfg_int_get where
  "brcmf_fil_bsscfg_int_get dcmd ifp name v =
     map_option (\<lambda>(err, dat, ifp). (err, le32_read dat, ifp)) (brcmf_fil_bsscfg_data_get dcmd ifp name (le32_bytes v) 4)"

definition brcmf_fil_xtlv_int_set where
  "brcmf_fil_xtlv_int_set dcmd ifp name tid v = brcmf_fil_xtlv_data_set dcmd ifp name tid (le32_bytes v) 4"

definition brcmf_fil_xtlv_int_get where
  "brcmf_fil_xtlv_int_get dcmd ifp name tid v =
     map_option (\<lambda>(err, dat, ifp). (err, if err = 0 then le32_read dat else v, ifp))
       (brcmf_fil_xtlv_data_get dcmd ifp name tid (le32_bytes v) 4)"

definition brcmf_fil_xtlv_int8_get where
  "brcmf_fil_xtlv_int8_get dcmd ifp name tid v =
     map_option (\<lambda>(err, dat, ifp). (err, dat ! 0, ifp)) (brcmf_fil_xtlv_data_get dcmd ifp name tid [v] 1)"

definition brcmf_fil_xtlv_int16_get where
  "brcmf_fil_xtlv_int16_get dcmd ifp name tid v =
     map_option (\<lambda>(err, dat, ifp). (err, if err = 0 then le16_read dat else v, ifp))
       (brcmf_fil_xtlv_data_get dcmd ifp name tid (le16_bytes v) 2)"

subsection \<open>Reading a request\<close>

text \<open>The reference reader: the number of the interface, the name of the variable and the data.\<close>

definition read_name :: "u8 list \<Rightarrow> (u8 list \<times> u8 list) option" where
  "read_name m = map_option (\<lambda>n. (take n m, drop (n + 1) m)) (str_len m)"

definition fw_request :: "u8 list \<Rightarrow> (u32 \<times> u8 list \<times> u8 list) option" where
  "fw_request m = do {
     (name, rest) \<leftarrow> read_name m;
     if take (length bsscfg_prefix) name = bsscfg_prefix
     then if length rest < 4 then None else Some (le32_read rest, drop (length bsscfg_prefix) name, drop 4 rest)
     else Some (0, name, rest)
   }"

lemma read_name_of: "0 \<notin> set name \<Longrightarrow> read_name (name @ 0 # rest) = Some (name, rest)"
  by (simp add: read_name_def str_len_eq)

lemma le32_read_bytes: "le32_read (le32_bytes w @ r) = w"
  by (simp add: le32_read_def le32_bytes_def)

lemma prefix_facts: "length bsscfg_prefix = 7" "0 \<notin> set bsscfg_prefix"
  by code_simp+

text \<open>Two writes one behind the other are one.\<close>

lemma buf_write_twice:
  "Option.bind (buf_write m i a) (\<lambda>m. buf_write m (i + length a) b) = buf_write m i (a @ b)"
  by (simp add: buf_write_def add_ac)

lemma buf_write_then:
  "i' = i + length a \<Longrightarrow> Option.bind (buf_write m i a) (\<lambda>m. Option.bind (buf_write m i' b) f) = Option.bind (buf_write m i (a @ b)) f"
  by (simp add: buf_write_twice [symmetric])

lemma buf_write_nil: "i \<le> length m \<Longrightarrow> buf_write m i [] = Some m"
  by (simp add: buf_write_def)

definition plain_name :: "u8 list \<Rightarrow> bool" where
  "plain_name name \<longleftrightarrow> 0 \<notin> set name \<and> take (length bsscfg_prefix) name \<noteq> bsscfg_prefix \<and> length name < 2 ^ 30"

lemma request_iovar: "plain_name name \<Longrightarrow> fw_request (name @ 0 # dat) = Some (0, name, dat)"
  by (simp add: fw_request_def plain_name_def read_name_of)

lemma request_bsscfg: "plain_name name \<Longrightarrow> fw_request (bsscfg_prefix @ name @ 0 # le32_bytes idx @ dat) = Some (idx, name, dat)"
proof -
  assume "plain_name name"
  then have "read_name ((bsscfg_prefix @ name) @ 0 # le32_bytes idx @ dat) = Some (bsscfg_prefix @ name, le32_bytes idx @ dat)"
    by (intro read_name_of) (simp add: plain_name_def prefix_facts)
  then show ?thesis by (simp add: fw_request_def le32_read_bytes)
qed

text \<open>The bytes of a request for an interface.\<close>

definition request_bytes :: "u32 \<Rightarrow> u8 list \<Rightarrow> u8 list \<Rightarrow> u8 list" where
  "request_bytes idx name dat = (if idx = 0 then name @ 0 # dat else bsscfg_prefix @ name @ 0 # le32_bytes idx @ dat)"

lemma request_read_back: "plain_name name \<Longrightarrow> fw_request (request_bytes idx name dat) = Some (idx, name, dat)"
  by (simp add: request_bytes_def request_iovar request_bsscfg)

lemma unat_of_nat_u32: "k < 2 ^ 32 \<Longrightarrow> unat (of_nat k :: u32) = k"
  by (simp add: unsigned_of_nat take_bit_nat_eq_self)

lemma unat_name: "length name < 2 ^ 30 \<Longrightarrow> unat (of_nat (length name) + 1 :: u32) = length name + 1"
  using unat_add_one [of "of_nat (length name)"] by (simp add: unsigned_of_nat take_bit_nat_eq_self)

lemma create_iovar_bytes:
  assumes "length name < 2 ^ 30" "unat len < 2 ^ 30" "unat len \<le> length dat" "unat buflen \<le> length buf"
  shows "brcmf_create_iovar name (Some dat) len buf buflen =
    (let req = name @ 0 # take (unat len) dat in
      if length req \<le> unat buflen then Some (of_nat (length req), req @ drop (length req) buf) else Some (0, buf))"
proof -
  let ?req = "name @ 0 # take (unat len) dat"
  define n :: u32 where "n = of_nat (length name) + 1"
  have n: "unat n = length name + 1" unfolding n_def by (rule unat_name [OF assms(1)])
  have total: "unat (n + len) = length ?req" using unat_add_words [of n len] n assms(1-3) by simp
  then have tot: "n + len = of_nat (length ?req)" by (intro unat_eqD) (use unat_of_nat_le [of "length ?req" "n + len"] in simp)
  have cmp: "n + len > buflen \<longleftrightarrow> length ?req > unat buflen" using total by (simp add: word_less_nat_alt)
  show ?thesis
  proof (cases "length ?req \<le> unat buflen")
    case False
    then show ?thesis using cmp unfolding brcmf_create_iovar_def n_def [symmetric] Let_def by simp
  next
    case True
    have w: "buf_write buf 0 ?req = Some (?req @ drop (length ?req) buf)" using True assms(4) by (simp add: buf_write_def)
    have "(do { buf \<leftarrow> buf_write buf 0 (name @ [0]);
        buf \<leftarrow> (if len \<noteq> 0 then Option.bind (src_bytes dat (unat len)) (buf_write buf (unat n)) else Some buf); Some (n + len, buf) })
      = Some (n + len, ?req @ drop (length ?req) buf)"
    proof (cases "len = 0")
      case True
      then show ?thesis using w by simp
    next
      case False
      then have "(do { buf \<leftarrow> buf_write buf 0 (name @ [0]);
          buf \<leftarrow> Option.bind (src_bytes dat (unat len)) (buf_write buf (unat n)); Some (n + len, buf) })
        = Option.bind (buf_write buf 0 ((name @ [0]) @ take (unat len) dat)) (\<lambda>buf. Some (n + len, buf))"
        using buf_write_then [of "unat n" 0 "name @ [0]" buf "take (unat len) dat" "\<lambda>buf. Some (n + len, buf)"] n assms(3)
        by (simp add: src_bytes_def)
      then show ?thesis using w False by simp
    qed
    moreover have "\<not> n + len > buflen" using cmp True by simp
    ultimately show ?thesis using True unfolding brcmf_create_iovar_def n_def [symmetric] Let_def tot [symmetric] by simp
  qed
qed


lemma create_bsscfg_bytes:
  assumes "length name < 2 ^ 30" "unat len < 2 ^ 30" "unat len \<le> length dat" "unat buflen \<le> length buf"
  shows "brcmf_create_bsscfg idx name dat len buf buflen =
    (let req = request_bytes idx name (take (unat len) dat) in
      if length req \<le> unat buflen then Some (of_nat (length req), req @ drop (length req) buf) else Some (0, buf))"
proof (cases "idx = 0")
  case True
  then show ?thesis using create_iovar_bytes [OF assms] by (simp add: brcmf_create_bsscfg_def request_bytes_def)
next
  case False
  let ?req = "bsscfg_prefix @ (name @ [0]) @ le32_bytes idx @ take (unat len) dat"
  have req: "request_bytes idx name (take (unat len) dat) = ?req" using False by (simp add: request_bytes_def)
  define n :: u32 where "n = of_nat (length name) + 1"
  define p :: u32 where "p = of_nat (length bsscfg_prefix)"
  have n: "unat n = length name + 1" unfolding n_def by (rule unat_name [OF assms(1)])
  have p: "unat p = 7" by (simp add: p_def prefix_facts)
  have pn: "unat (p + n) = length name + 8" using unat_add_words [of p n] n p assms(1) by simp
  have pn4: "unat (p + n + 4) = length name + 12" using unat_add_small [of "p + n" 4] pn assms(1) by simp
  have total: "unat (p + n + 4 + len) = length ?req"
    using unat_add_words [of "p + n + 4" len] pn4 assms(1-3) by (simp add: prefix_facts)
  then have tot: "p + n + 4 + len = of_nat (length ?req)"
    by (intro unat_eqD) (use unat_of_nat_le [of "length ?req" "p + n + 4 + len"] in simp)
  have cmp: "buflen < p + n + 4 + len \<longleftrightarrow> unat buflen < length ?req" using total by (simp add: word_less_nat_alt)
  show ?thesis
  proof (cases "length ?req \<le> unat buflen")
    case False
    then show ?thesis using cmp \<open>idx \<noteq> 0\<close> unfolding brcmf_create_bsscfg_def n_def [symmetric] p_def [symmetric] Let_def req by simp
  next
    case True
    have w: "buf_write buf 0 ?req = Some (?req @ drop (length ?req) buf)" using True assms(4) by (simp add: buf_write_def)
    let ?f = "\<lambda>buf. Some (p + n + 4 + len, buf)"
    have step: "(do { buf \<leftarrow> buf_write buf 0 bsscfg_prefix; buf \<leftarrow> buf_write buf (unat p) (name @ [0]);
        buf \<leftarrow> buf_write buf (unat (p + n)) (le32_bytes idx); g buf })
      = Option.bind (buf_write buf 0 (bsscfg_prefix @ (name @ [0]) @ le32_bytes idx)) g" for g :: "u8 list \<Rightarrow> (u32 \<times> u8 list) option"
      using buf_write_then [of "unat p" 0 bsscfg_prefix buf "name @ [0]" "\<lambda>buf. Option.bind (buf_write buf (unat (p + n)) (le32_bytes idx)) g"]
        buf_write_then [of "unat (p + n)" 0 "bsscfg_prefix @ name @ [0]" buf "le32_bytes idx" g]
      by (simp add: p pn prefix_facts)
    have "(do { buf \<leftarrow> buf_write buf 0 (bsscfg_prefix @ (name @ [0]) @ le32_bytes idx);
        buf \<leftarrow> (if len \<noteq> 0 then Option.bind (src_bytes dat (unat len)) (buf_write buf (unat (p + n + 4))) else Some buf); ?f buf })
      = Some (p + n + 4 + len, ?req @ drop (length ?req) buf)"
    proof (cases "len = 0")
      case True
      then show ?thesis using w by simp
    next
      case False
      then show ?thesis
        using buf_write_then [of "unat (p + n + 4)" 0 "bsscfg_prefix @ (name @ [0]) @ le32_bytes idx" buf "take (unat len) dat" ?f] assms(3) w
        by (simp add: src_bytes_def pn4 prefix_facts)
    qed
    moreover have "\<not> buflen < p + n + 4 + len" using cmp True by simp
    ultimately show ?thesis
      using True \<open>idx \<noteq> 0\<close> unfolding brcmf_create_bsscfg_def n_def [symmetric] p_def [symmetric] Let_def req tot [symmetric] step by simp
  qed
qed

text \<open>
  Making a request for an interface either fails, exactly when the request would be longer than
  the buffer, which it leaves alone, or fills the buffer with bytes from which the reader recovers the
  interface, the name of the variable and the data. It never writes outside of the buffer.
\<close>

theorem fil_request_read_back:
  assumes "plain_name name" "unat len < 2 ^ 30" "unat len \<le> length dat" "unat buflen \<le> length buf"
  shows "\<exists>n buf'. brcmf_create_bsscfg idx name dat len buf buflen = Some (n, buf') \<and> length buf' = length buf
    \<and> (n = 0 \<longleftrightarrow> unat buflen < length name + 1 + unat len + (if idx = 0 then 0 else 11))
    \<and> (n = 0 \<longrightarrow> buf' = buf)
    \<and> (n \<noteq> 0 \<longrightarrow> fw_request (take (unat n) buf') = Some (idx, name, take (unat len) dat))"
proof -
  let ?req = "request_bytes idx name (take (unat len) dat)"
  have name: "length name < 2 ^ 30" using assms(1) by (simp add: plain_name_def)
  have len: "length ?req = length name + 1 + unat len + (if idx = 0 then 0 else 11)"
    using assms(3) by (simp add: request_bytes_def prefix_facts)
  have small: "unat (of_nat (length ?req) :: u32) = length ?req"
    by (rule unat_of_nat_u32) (use name assms(2) len in simp)
  moreover have "0 < length ?req" using len by simp
  ultimately have "of_nat (length ?req) \<noteq> (0 :: u32)" by (metis less_irrefl unat_0)
  then show ?thesis
    using create_bsscfg_bytes [OF name assms(2-4), of idx] small len assms(4) request_read_back [OF assms(1)]
    by (cases "length ?req \<le> unat buflen") (auto simp: Let_def)
qed

theorem fil_request_read_back_witness:
  "\<exists>n buf'. brcmf_create_bsscfg 3 [0x61] [1, 2] 2 (replicate 20 0) 20 = Some (n, buf') \<and> n \<noteq> 0 \<and>
     fw_request (take (unat n) buf') = Some (3, [0x61], [1, 2])"
proof -
  have "plain_name [0x61]" by (simp add: plain_name_def prefix_facts bsscfg_prefix_def chars_def)
  from fil_request_read_back [OF this, of 2 "[1, 2]" 20 "replicate 20 0" 3] show ?thesis by auto
qed


subsection \<open>Records packed one after the other\<close>

text \<open>The reference reader of records with numbers of 16 bits, each padded to a multiple of four.\<close>

function read_xtlvs :: "u8 list \<Rightarrow> (u16 \<times> u8 list) list" where
  "read_xtlvs m =
     (if length m < 4 then []
      else let tid = le16_read m; n = unat (le16_read (drop 2 m))
           in (tid, take n (drop 4 m)) # read_xtlvs (drop (round4 (4 + n)) m))"
  by pat_completeness auto
termination
  by (relation "measure length") (auto simp: round4_def)

declare read_xtlvs.simps [simp del]

fun pack_xtlvs :: "(u16 \<times> u8 list) list \<Rightarrow> u8 list \<times> nat \<times> u16 \<Rightarrow> (u8 list \<times> nat \<times> u16) option" where
  "pack_xtlvs [] b = Some b"
| "pack_xtlvs ((tid, dat) # rs) b =
     Option.bind (brcmf_pack_xtlv tid (Some dat) (of_nat (length dat)) b) (\<lambda>(n, b). if n = 0 then None else pack_xtlvs rs b)"

definition xtlvs_size :: "(u16 \<times> u8 list) list \<Rightarrow> nat" where
  "xtlvs_size rs = sum_list (map (\<lambda>(tid, dat). round4 (length dat + 4)) rs)"

lemma read_xtlvs_Cons:
  assumes "length dat < 65536" "length pad = round4 (length dat + 4) - (length dat + 4)"
  shows "read_xtlvs (le16_bytes tid @ le16_bytes (of_nat (length dat)) @ dat @ pad @ rest) = (tid, dat) # read_xtlvs rest"
proof -
  have n: "unat (le16_read (le16_bytes (of_nat (length dat)) @ r)) = length dat" for r
    using assms(1) by (simp add: le16_read_def le16_bytes_def unat_of_nat_u16)
  have "le16_read (le16_bytes tid @ r) = tid" for r by (simp add: le16_read_def le16_bytes_def)
  moreover have "drop 2 (le16_bytes tid @ r) = r" "drop 4 (le16_bytes tid @ le16_bytes w @ r) = r" for w r
    by (simp_all add: le16_bytes_def)
  moreover have "drop (round4 (4 + length dat)) (le16_bytes tid @ le16_bytes w @ dat @ pad @ rest) = rest" for w
    using assms(2) round4_bounds(1) [of "length dat + 4"] by (simp add: add.commute)
  ultimately show ?thesis using n by (subst read_xtlvs.simps) simp
qed

lemma align_options:
  "opt BRCMF_XTLV_OPTION_ALIGN32 BRCMF_XTLV_OPTION_ALIGN32" "\<not> opt BRCMF_XTLV_OPTION_ALIGN32 BRCMF_XTLV_OPTION_IDU8"
  "\<not> opt BRCMF_XTLV_OPTION_ALIGN32 BRCMF_XTLV_OPTION_LENU8"
  "\<not> opt BRCMF_XTLV_OPTION_ALIGN32 (BRCMF_XTLV_OPTION_IDU8 OR BRCMF_XTLV_OPTION_LENU8)"
  by (simp_all add: opt_def)

lemma sint_small: "unat (w :: u32) < 2 ^ 31 \<Longrightarrow> sint w = int (unat w)"
proof -
  assume w: "unat w < 2 ^ 31"
  have "uint w = int (unat w)" by simp
  moreover have "int (unat w) < 2 ^ 31" using w by (simp only: of_nat_less_numeral_power_cancel_iff)
  ultimately have "uint w < 2 ^ 31" by (simp only:)
  then have "signed_take_bit 31 (uint w) = uint w"
    using uint_ge_0 [of w] by (intro signed_take_bit_int_eq_self) linarith+
  then have "sint w = uint w" by (simp add: sint_uint)
  then show ?thesis unfolding uint_nat .
qed

lemma data_size_aligned:
  assumes "unat len < 2 ^ 30"
  shows "unat (brcmf_xtlv_data_size len BRCMF_XTLV_OPTION_ALIGN32) = round4 (unat len + 4)"
proof -
  have hs: "brcmf_xtlv_header_size BRCMF_XTLV_OPTION_ALIGN32 = 4"
    unfolding brcmf_xtlv_header_size_def using align_options by simp
  have e: "len + 4 + 3 = len + of_nat 7" by simp
  have u: "unat (len + 4 + 3) = unat len + 7" unfolding e by (rule unat_add_small) (use assms in simp)
  then have s: "sint (len + 4 + 3) = int (unat len + 7)"
    using sint_small [of "len + 4 + 3"] assms by simp
  have "roundup4_int (len + 4) = of_nat (round4 (unat len + 4))"
  proof -
    have "0 < k \<Longrightarrow> sgn (int k) * (\<bar>int k\<bar> div 4) * 4 = int (k div 4 * 4)" for k
      by (simp add: sgn_if zdiv_int)
    from this [of "unat len + 7"]
    have "sgn (int (unat len + 7)) * (\<bar>int (unat len + 7)\<bar> div 4) * 4 = int (round4 (unat len + 4))"
      by (simp only: round4_def add.assoc) simp
    then show ?thesis unfolding roundup4_int_def s Let_def by (simp only: of_int_of_nat_eq)
  qed
  moreover have "round4 (unat len + 4) < 2 ^ 32" using round4_bounds(2) [of "unat len + 4"] assms by simp
  ultimately show ?thesis using align_options hs by (simp add: brcmf_xtlv_data_size_def Let_def unat_of_nat_u32)
qed

lemma pack_header_aligned:
  assumes "unat len \<le> length dat" "i + 4 + unat len \<le> length m"
  shows "brcmf_xtlv_pack_header m i tid len (Some dat) BRCMF_XTLV_OPTION_ALIGN32 =
    Some (take i m @ le16_bytes tid @ le16_bytes len @ take (unat len) dat @ drop (i + 4 + unat len) m)"
proof -
  let ?h = "le16_bytes tid @ le16_bytes len"
  have "brcmf_xtlv_pack_header m i tid len (Some dat) BRCMF_XTLV_OPTION_ALIGN32 =
      Option.bind (buf_write m i ?h) (\<lambda>m. buf_write m (i + length ?h) (take (unat len) dat))"
    using align_options assms(1) by (simp add: brcmf_xtlv_pack_header_def src_bytes_def Let_def)
  also have "\<dots> = buf_write m i (?h @ take (unat len) dat)" by (rule buf_write_twice)
  finally have w: "brcmf_xtlv_pack_header m i tid len (Some dat) BRCMF_XTLV_OPTION_ALIGN32 = buf_write m i (?h @ take (unat len) dat)" .
  have "length (?h @ take (unat len) dat) = 4 + unat len" using assms(1) by simp
  then show ?thesis using assms(2) unfolding w buf_write_def by (simp add: add.assoc del: length_append)
qed

lemma ucast_of_nat16: "k < 65536 \<Longrightarrow> ucast (of_nat k :: u32) = (of_nat k :: u16)"
  by (rule unat_eqD) (simp add: unsigned_ucast_eq unsigned_of_nat take_bit_nat_eq_self)

lemma pack_one:
  assumes "length dat < 65536" "i + unat buflen \<le> length m" "round4 (length dat + 4) \<le> unat buflen"
  shows "\<exists>buflen'. brcmf_pack_xtlv tid (Some dat) (of_nat (length dat)) (m, i, buflen) =
    Some (of_nat (round4 (length dat + 4)), take i m @ le16_bytes tid @ le16_bytes (of_nat (length dat)) @ dat @ drop (i + 4 + length dat) m,
      i + round4 (length dat + 4), buflen') \<and> unat buflen' = unat buflen - round4 (length dat + 4)"
proof -
  let ?l = "of_nat (length dat) :: u32" and ?t = "round4 (length dat + 4)"
  have l: "unat ?l = length dat" using assms(1) by (simp add: unat_of_nat_u32)
  have l16: "unat (of_nat (length dat) :: u16) = length dat" using assms(1) by (simp add: unat_of_nat_u16)
  have c16: "ucast ?l = (of_nat (length dat) :: u16)" by (rule ucast_of_nat16 [OF assms(1)])
  define sz where "sz = brcmf_xtlv_data_size ?l BRCMF_XTLV_OPTION_ALIGN32"
  have sz: "unat sz = ?t" unfolding sz_def using data_size_aligned [of ?l] l assms(1) by simp
  then have sz': "sz = of_nat ?t" by (intro unat_eqD) (use unat_of_nat_le [of ?t sz] in simp)
  have small: "?t < 65536" using assms(3) unat_u16_lt [of buflen] by linarith
  have b: "unat (ucast buflen :: u32) = unat buflen"
    by (simp add: unsigned_ucast_eq) (rule take_bit_nat_eq_self, rule less_trans [OF unat_u16_lt], simp)
  have "\<not> ucast buflen < sz" using sz b assms(3) by (simp add: word_less_nat_alt)
  moreover have "i + 4 + length dat \<le> length m" using assms(2,3) round4_bounds(1) [of "length dat + 4"] by linarith
  then have "brcmf_xtlv_pack_header m i tid (ucast ?l) (Some dat) BRCMF_XTLV_OPTION_ALIGN32 =
      Some (take i m @ le16_bytes tid @ le16_bytes (of_nat (length dat)) @ dat @ drop (i + 4 + length dat) m)"
    using pack_header_aligned [of "of_nat (length dat)" dat i m tid] l16 c16 by simp
  moreover have "unat (buflen - ucast sz) = unat buflen - ?t"
  proof -
    have "ucast sz = (of_nat ?t :: u16)" unfolding sz' by (rule ucast_of_nat16 [OF small])
    then show ?thesis using assms(3) small by (simp add: unat_sub word_le_nat_alt unat_of_nat_u16)
  qed
  ultimately show ?thesis using sz unfolding brcmf_pack_xtlv_def Let_def prod.case sz_def [symmetric]
    by (intro exI [of _ "buflen - ucast sz"]) (simp add: sz')
qed

lemma pack_all:
  assumes "list_all (\<lambda>(tid, dat). length dat < 65536) rs" "i + unat buflen \<le> length m" "xtlvs_size rs \<le> unat buflen"
  shows "\<exists>m' buflen'. pack_xtlvs rs (m, i, buflen) = Some (m', i + xtlvs_size rs, buflen') \<and> length m' = length m
    \<and> take i m' = take i m \<and> read_xtlvs (take (xtlvs_size rs) (drop i m')) = rs"
  using assms
proof (induction rs arbitrary: m i buflen)
  case Nil
  then show ?case by (simp add: xtlvs_size_def read_xtlvs.simps)
next
  case (Cons r rs)
  obtain tid dat where r: "r = (tid, dat)" by (cases r)
  let ?t = "round4 (length dat + 4)"
  have size: "xtlvs_size (r # rs) = ?t + xtlvs_size rs" by (simp add: xtlvs_size_def r)
  have room: "?t \<le> unat buflen" "length dat + 4 \<le> ?t" using Cons.prems(3) size round4_bounds(1) by simp_all
  let ?m = "take i m @ le16_bytes tid @ le16_bytes (of_nat (length dat)) @ dat @ drop (i + 4 + length dat) m"
  obtain bl where one: "brcmf_pack_xtlv tid (Some dat) (of_nat (length dat)) (m, i, buflen) = Some (of_nat ?t, ?m, i + ?t, bl)"
    "unat bl = unat buflen - ?t"
    using pack_one [OF _ Cons.prems(2) room(1)] Cons.prems(1) r by auto
  have nz: "of_nat ?t \<noteq> (0 :: u32)"
  proof
    assume "of_nat ?t = (0 :: u32)"
    moreover have "?t < 2 ^ 32" using le_less_trans [OF room(1) unat_u16_lt] by simp
    ultimately show False using unat_of_nat_u32 [of ?t] room(2) by simp
  qed
  have lm: "length ?m = length m" using Cons.prems(2) room by simp
  obtain m' bl' where rest: "pack_xtlvs rs (?m, i + ?t, bl) = Some (m', i + ?t + xtlvs_size rs, bl')" "length m' = length ?m"
    "take (i + ?t) m' = take (i + ?t) ?m" "read_xtlvs (take (xtlvs_size rs) (drop (i + ?t) m')) = rs"
  proof -
    have "list_all (\<lambda>(tid, dat). length dat < 65536) rs" using Cons.prems(1) by simp
    moreover have "i + ?t + unat bl \<le> length ?m" unfolding lm using Cons.prems(2) one(2) room(1) by simp
    moreover have "xtlvs_size rs \<le> unat bl" using Cons.prems(3) size one(2) by simp
    ultimately show ?thesis using Cons.IH that by blast
  qed
  let ?pad = "take (?t - (length dat + 4)) (drop (i + 4 + length dat) m)"
  have pad: "length ?pad = ?t - (length dat + 4)" using Cons.prems(2) room by simp
  have head: "take ?t (drop i m') = le16_bytes tid @ le16_bytes (of_nat (length dat)) @ dat @ ?pad"
  proof -
    have "take ?t (drop i m') = drop i (take (i + ?t) m')" by (simp add: drop_take)
    also have "\<dots> = take ?t (drop i ?m)" unfolding rest(3) by (simp only: drop_take add_diff_cancel_left')
    also have "drop i ?m = le16_bytes tid @ le16_bytes (of_nat (length dat)) @ dat @ drop (i + 4 + length dat) m"
      using Cons.prems(2) room by simp
    finally show ?thesis using room(2) by (simp add: add.commute)
  qed
  have "take i m' = take i (take (i + ?t) m')" by simp
  also have "\<dots> = take i m" unfolding rest(3) using Cons.prems(2) by simp
  finally have "take i m' = take i m" .
  moreover have "take (xtlvs_size (r # rs)) (drop i m') = take ?t (drop i m') @ take (xtlvs_size rs) (drop (i + ?t) m')"
    by (simp only: size take_add drop_drop add.commute [of ?t i])
  then have "read_xtlvs (take (xtlvs_size (r # rs)) (drop i m')) = r # rs"
    unfolding head using read_xtlvs_Cons [OF _ pad, of tid "take (xtlvs_size rs) (drop (i + ?t) m')"] Cons.prems(1) r rest(4) by simp
  ultimately show ?case using one(1) nz rest(1,2) lm size r by (simp add: add.assoc)
qed

text \<open>
  Records packed one after the other, as long as their sizes add up to no more than the room,
  are read back in order with their types and values, and what was in front of them stays.
\<close>

theorem xtlv_pack_read_back:
  assumes "list_all (\<lambda>(tid, dat). length dat < 65536) rs" "i + unat buflen \<le> length m" "xtlvs_size rs \<le> unat buflen"
  shows "\<exists>m' buflen'. pack_xtlvs rs (m, i, buflen) = Some (m', i + xtlvs_size rs, buflen')
    \<and> take i m' = take i m \<and> read_xtlvs (take (xtlvs_size rs) (drop i m')) = rs"
  using pack_all [OF assms] by blast

theorem xtlv_pack_read_back_witness:
  "\<exists>m' b. pack_xtlvs [(5, [1]), (7, [2, 3, 4, 5])] (replicate 20 0, 0, 16) = Some (m', 16, b) \<and>
     read_xtlvs (take 16 m') = [(5, [1]), (7, [2, 3, 4, 5])]"
proof -
  have "xtlvs_size [(5, [1]), (7, [2, 3, 4, 5])] = 16" by (simp add: xtlvs_size_def round4_def)
  then show ?thesis using xtlv_pack_read_back [of "[(5, [1]), (7, [2, 3, 4, 5])]" 0 16 "replicate 20 0"] by simp
qed


subsection \<open>Variables of the firmware\<close>

text \<open>
  A firmware that serves variables: it reads requests, keeps what is written under the interface and
  the name, and puts what is read at the beginning of the buffer. \<open>get\<close> and \<open>put\<close> are its store.
\<close>

definition serves ::
    "'s dcmd \<Rightarrow> (u32 \<Rightarrow> u8 list \<Rightarrow> 's \<Rightarrow> u8 list) \<Rightarrow> (u32 \<Rightarrow> u8 list \<Rightarrow> u8 list \<Rightarrow> 's \<Rightarrow> 's) \<Rightarrow> bool" where
  "serves dcmd get put \<longleftrightarrow> (\<forall>idx name dat buf len s. fw_request (take (unat len) buf) = Some (idx, name, dat) \<longrightarrow>
     dcmd True BRCMF_C_SET_VAR (Some buf) len s = Some (0, 0, Some buf, put idx name dat s)
     \<and> (let v = take (length buf) (get idx name s) in
         dcmd False BRCMF_C_GET_VAR (Some buf) len s = Some (0, 0, Some (v @ drop (length v) buf), s)))
   \<and> (\<forall>idx name dat s. get idx name (put idx name dat s) = dat)"

lemma cmd_data_plain:
  assumes "bus_up ifp" "unat len \<le> BRCMF_DCMD_MAXLEN"
  shows "brcmf_fil_cmd_data dcmd ifp cmd (Some buf) len set_it = map_option (\<lambda>(err, fwerr, dat, s).
    (if fwil_fwerr ifp then fwerr else if err \<noteq> 0 then err else if fwerr < 0 then fil_EBADE else 0, dat, ifp\<lparr>dongle := s\<rparr>))
    (dcmd set_it cmd (Some buf) len (dongle ifp))"
proof -
  have "min len (of_nat BRCMF_DCMD_MAXLEN) = len" using assms(2) by (simp add: min_def word_le_nat_alt)
  then show ?thesis using assms(1) by (cases "dcmd set_it cmd (Some buf) len (dongle ifp)") (auto simp: brcmf_fil_cmd_data_def Let_def)
qed

definition fil_ready :: "'s fil_if \<Rightarrow> u8 list \<Rightarrow> nat \<Rightarrow> bool" where
  "fil_ready ifp name n \<longleftrightarrow> bus_up ifp \<and> length (proto_buf ifp) = BRCMF_DCMD_MAXLEN \<and> plain_name name
     \<and> length name + n + 12 \<le> BRCMF_DCMD_MAXLEN"

lemma request_made:
  assumes "fil_ready ifp name (unat len)" "unat len \<le> length dat"
  defines "req \<equiv> request_bytes (bsscfgidx ifp) name (take (unat len) dat)"
  shows "brcmf_create_bsscfg (bsscfgidx ifp) name dat len (proto_buf ifp) proto_buf_size =
      Some (of_nat (length req), req @ drop (length req) (proto_buf ifp))"
    "unat (of_nat (length req) :: u32) = length req" "of_nat (length req) \<noteq> (0 :: u32)" "length req \<le> BRCMF_DCMD_MAXLEN"
    "fw_request req = Some (bsscfgidx ifp, name, take (unat len) dat)"
    "length (req @ drop (length req) (proto_buf ifp)) = BRCMF_DCMD_MAXLEN"
proof -
  have l: "length req \<le> 8192" "0 < length req"
    using assms(1,2) by (auto simp: req_def request_bytes_def fil_ready_def prefix_facts)
  then show "unat (of_nat (length req) :: u32) = length req" by (intro unat_of_nat_u32) simp
  with l(2) show "of_nat (length req) \<noteq> (0 :: u32)" by (metis less_irrefl unat_0)
  show "length req \<le> 8192" by (rule l)
  have n: "length name < 2 ^ 30" "unat len < 2 ^ 30" using assms(1) by (auto simp: fil_ready_def)
  show "brcmf_create_bsscfg (bsscfgidx ifp) name dat len (proto_buf ifp) proto_buf_size =
      Some (of_nat (length req), req @ drop (length req) (proto_buf ifp))"
    using create_bsscfg_bytes [OF n assms(2), of proto_buf_size "proto_buf ifp" "bsscfgidx ifp"] l assms(1)
    by (simp add: proto_buf_size_def fil_ready_def req_def Let_def)
  show "fw_request req = Some (bsscfgidx ifp, name, take (unat len) dat)"
    unfolding req_def by (rule request_read_back) (use assms(1) in \<open>simp add: fil_ready_def\<close>)
  show "length (req @ drop (length req) (proto_buf ifp)) = 8192" using l assms(1) by (simp add: fil_ready_def)
qed

text \<open>
  C16: With a firmware that serves variables, a variable written for an interface is read back: the
  write returns 0, and a read of the same length, into any buffer long enough, returns 0 and gives
  the bytes written. Both hold with and without the mode that reports the error of the firmware.
\<close>

theorem fil_set_then_get:
  assumes "serves dcmd get put" "fil_ready ifp name (unat len)" "unat len \<le> length val" "unat len \<le> length dst"
  shows "\<exists>ifp' ifp''. brcmf_fil_bsscfg_data_set dcmd ifp name val len = Some (0, ifp')
    \<and> brcmf_fil_bsscfg_data_get dcmd ifp' name dst len = Some (0, take (unat len) val @ drop (unat len) dst, ifp'')"
proof -
  note set = request_made [OF assms(2,3)]
  let ?req = "request_bytes (bsscfgidx ifp) name (take (unat len) val)"
  let ?buf = "?req @ drop (length ?req) (proto_buf ifp)"
  define s' where "s' = put (bsscfgidx ifp) name (take (unat len) val) (dongle ifp)"
  define ifp' where "ifp' = ifp\<lparr>dongle := s', proto_buf := ?buf\<rparr>"
  have up: "bus_up ifp" using assms(2) by (simp add: fil_ready_def)
  have "dcmd True BRCMF_C_SET_VAR (Some ?buf) (of_nat (length ?req)) (dongle ifp) = Some (0, 0, Some ?buf, s')"
    using assms(1) set(2,5) unfolding serves_def s'_def by simp
  then have w: "brcmf_fil_bsscfg_data_set dcmd ifp name val len = Some (0, ifp')"
    using cmd_data_plain [OF up, of "of_nat (length ?req)" dcmd BRCMF_C_SET_VAR ?buf True] set
    by (simp add: brcmf_fil_bsscfg_data_set_def fil_var_set_def ifp'_def)
  have idx: "bsscfgidx ifp' = bsscfgidx ifp" "dongle ifp' = s'" "bus_up ifp'" using up by (simp_all add: ifp'_def)
  have ready: "fil_ready ifp' name (unat len)" using assms(2) set(6) by (simp add: fil_ready_def ifp'_def)
  note get = request_made [OF ready assms(4)]
  let ?req2 = "request_bytes (bsscfgidx ifp') name (take (unat len) dst)"
  let ?buf2 = "?req2 @ drop (length ?req2) (proto_buf ifp')"
  have room: "length (take (unat len) val) \<le> length ?buf2" using get(6) assms(2,3) by (simp add: fil_ready_def)
  have "get (bsscfgidx ifp') name s' = take (unat len) val" using assms(1) unfolding serves_def s'_def idx by blast
  moreover have "dcmd False BRCMF_C_GET_VAR (Some ?buf2) (of_nat (length ?req2)) s' =
      Some (0, 0, Some (take (length ?buf2) (get (bsscfgidx ifp') name s') @
        drop (length (take (length ?buf2) (get (bsscfgidx ifp') name s'))) ?buf2), s')"
  proof -
    have "fw_request (take (unat (of_nat (length ?req2) :: u32)) ?buf2) = Some (bsscfgidx ifp', name, take (unat len) dst)"
      using get(2,5) by simp
    then show ?thesis using assms(1) unfolding serves_def Let_def by blast
  qed
  ultimately have "dcmd False BRCMF_C_GET_VAR (Some ?buf2) (of_nat (length ?req2)) s' =
      Some (0, 0, Some (take (unat len) val @ drop (length (take (unat len) val)) ?buf2), s')"
    using take_all [OF room] by (simp only:)
  then have "\<exists>ifp''. brcmf_fil_bsscfg_data_get dcmd ifp' name dst len = Some (0, take (unat len) val @ drop (unat len) dst, ifp'')"
    using cmd_data_plain [OF idx(3), of "of_nat (length ?req2)" dcmd BRCMF_C_GET_VAR ?buf2 False] get idx(2) assms(3,4)
    by (simp add: brcmf_fil_bsscfg_data_get_def fil_var_get_def src_bytes_def buf_write_def)
  with w show ?thesis by blast
qed

text \<open>A firmware of the kind, to show that there is one.\<close>

type_synonym var_store = "(u32 \<times> u8 list) \<Rightarrow> u8 list"

definition var_dcmd :: "var_store dcmd" where
  "var_dcmd set_it cmd dat len s =
     (case dat of
        None \<Rightarrow> None
      | Some buf \<Rightarrow>
          (case fw_request (take (unat len) buf) of
             None \<Rightarrow> Some (0, - 2, dat, s)
           | Some (idx, name, val) \<Rightarrow>
               if set_it then Some (0, 0, dat, s((idx, name) := val))
               else let v = take (length buf) (s (idx, name)) in Some (0, 0, Some (v @ drop (length v) buf), s)))"

lemma var_dcmd_serves: "serves var_dcmd (\<lambda>idx name s. s (idx, name)) (\<lambda>idx name v s. s((idx, name) := v))"
  by (simp add: serves_def var_dcmd_def Let_def)

definition sample_if :: "var_store fil_if" where
  "sample_if = \<lparr>bus_up = True, fwil_fwerr = False, bsscfgidx = 1, proto_buf = replicate BRCMF_DCMD_MAXLEN 0, dongle = (\<lambda>_. [])\<rparr>"

lemma sample_if_ready: "n \<le> 100 \<Longrightarrow> fil_ready sample_if [0x61] n"
  by (simp add: fil_ready_def sample_if_def plain_name_def prefix_facts bsscfg_prefix_def chars_def)

theorem fil_set_then_get_witness:
  "\<exists>ifp' ifp''. brcmf_fil_bsscfg_data_set var_dcmd sample_if [0x61] [7, 8] 2 = Some (0, ifp') \<and>
     brcmf_fil_bsscfg_data_get var_dcmd ifp' [0x61] [0, 0, 5] 2 = Some (0, [7, 8, 5], ifp'')"
  using fil_set_then_get [OF var_dcmd_serves sample_if_ready, of 2 "[7, 8]" "[0, 0, 5]"] by simp

text \<open>
  In the mode that reports the error of the firmware, a failure of the transport is lost: when the
  command could not be sent and the firmware has no error, a read returns 0, and the bytes it gives are
  those of the request itself, the name of the variable.
\<close>

theorem fil_transport_error_lost:
  assumes "fil_ready ifp name (unat len)" "unat len \<le> length dst" "fwil_fwerr ifp"
    and "\<And>buf n. dcmd False BRCMF_C_GET_VAR (Some buf) n (dongle ifp) = Some (err, 0, Some buf, s)" "err \<noteq> 0"
  shows "\<exists>ifp'. brcmf_fil_bsscfg_data_get dcmd ifp name dst len =
    Some (0, take (unat len) (request_bytes (bsscfgidx ifp) name (take (unat len) dst)) @ drop (unat len) dst, ifp')"
proof -
  note get = request_made [OF assms(1,2)]
  let ?req = "request_bytes (bsscfgidx ifp) name (take (unat len) dst)"
  let ?buf = "?req @ drop (length ?req) (proto_buf ifp)"
  have "unat len \<le> length ?req" using assms(2) by (simp add: request_bytes_def)
  moreover have "bus_up ifp" "unat len \<le> 8192" using assms(1) by (simp_all add: fil_ready_def)
  ultimately show ?thesis
    using cmd_data_plain [of ifp "of_nat (length ?req)" dcmd BRCMF_C_GET_VAR ?buf False] get assms(2-5)
    by (simp add: brcmf_fil_bsscfg_data_get_def fil_var_get_def src_bytes_def buf_write_def)
qed

theorem fil_transport_error_lost_witness:
  "\<exists>ifp'. brcmf_fil_bsscfg_data_get (\<lambda>_ _ dat _ s. Some (- 5, 0, dat, s)) (sample_if\<lparr>fwil_fwerr := True, bsscfgidx := 0\<rparr>) [0x61] [0, 0] 2 =
     Some (0, [0x61, 0], ifp')"
proof -
  let ?if = "sample_if\<lparr>fwil_fwerr := True, bsscfgidx := 0\<rparr>"
  have "fil_ready ?if [0x61] 2" using sample_if_ready [of 2] by (simp add: fil_ready_def)
  then show ?thesis
    using fil_transport_error_lost [of ?if "[0x61]" 2 "[0, 0]" "\<lambda>_ _ dat _ s. Some (- 5, 0, dat, s)"]
    by (simp add: request_bytes_def)
qed

end
