(* ===== verification/Bcdc.thy ===== *)
theory Bcdc
  imports Fwil Fws_Signal
begin

section \<open>The protocol of the SDIO and USB buses (brcmfmac/bcdc.c)\<close>

text \<open>
  The other protocol beside the message buffers. A command goes to the firmware as one message, a
  header of 16 bytes with the command, the length, flags and a status, followed by the data; the
  reply comes as a message of the same form, paired by a number in the flags
  (\<open>brcmf_proto_bcdc_msg\<close>, \<open>_cmplt\<close>, \<open>_query_dcmd\<close>, \<open>_set_dcmd\<close>). A packet gets a header of four bytes with
  the interface, the priority and the length of the signals in front of its data
  (\<open>_hdrpush\<close>, \<open>_hdrpull\<close>), and goes to the firmware signalling or straight to the bus.

  The transfers of the bus are parameters: \<open>txctl\<close> and \<open>txdata\<close> send, \<open>rxctl\<close> gives the bytes it put at
  the beginning of the message. Results are the numbers of the C code as integers. The header and the
  buffer behind it are one piece of memory, as the code checks when it attaches. \<open>None\<close> is an access
  outside of a buffer or a wait that never ends.

  Shown: which reply a query takes for its own, whatever the replies are, the ones too short to have a
  number included; a header pushed is pulled off again, together with the signals; a packet whose
  offset the code does not check.
\<close>

subsection \<open>Commands\<close>

abbreviation (input) BCDC_DCMD_ERROR :: u32 where "BCDC_DCMD_ERROR \<equiv> 0x01"
abbreviation (input) BCDC_DCMD_SET :: u32 where "BCDC_DCMD_SET \<equiv> 0x02"
abbreviation (input) BCDC_DCMD_IF_MASK :: u32 where "BCDC_DCMD_IF_MASK \<equiv> 0xF000"
abbreviation (input) BCDC_DCMD_ID_MASK :: u32 where "BCDC_DCMD_ID_MASK \<equiv> 0xFFFF0000"
abbreviation (input) BRCMF_TX_IOCTL_MAX_MSG_SIZE :: u32 where "BRCMF_TX_IOCTL_MAX_MSG_SIZE \<equiv> 1518"
abbreviation (input) dcmd_size :: nat where "dcmd_size \<equiv> 16"
abbreviation (input) bcdc_EINVAL :: int where "bcdc_EINVAL \<equiv> - 22"

text \<open>\<open>msgbuf\<close> is the header \<open>msg\<close> and the buffer \<open>buf\<close>.\<close>

record 'b brcmf_bcdc =
  reqid :: u16
  msgbuf :: "u8 list"
  bus :: 'b

type_synonym 'b txctl = "u8 list \<Rightarrow> 'b \<Rightarrow> int \<times> 'b"
type_synonym 'b rxctl = "nat \<Rightarrow> 'b \<Rightarrow> int \<times> u8 list \<times> 'b"

definition msg_flags :: "u8 list \<Rightarrow> u32" where
  "msg_flags m = le32_read (drop 8 m)"

definition msg_status :: "u8 list \<Rightarrow> u32" where
  "msg_status m = le32_read (drop 12 m)"

definition BCDC_DCMD_ID :: "u32 \<Rightarrow> u32" where
  "BCDC_DCMD_ID flags = drop_bit 16 (flags AND BCDC_DCMD_ID_MASK)"

definition bcdc_header :: "u32 \<Rightarrow> u32 \<Rightarrow> u16 \<Rightarrow> nat \<Rightarrow> bool \<Rightarrow> u8 list" where
  "bcdc_header cmd len rid idx set_it =
     (let flags = push_bit 16 (ucast rid);
          flags = (if set_it then flags OR BCDC_DCMD_SET else flags);
          flags = (flags AND NOT BCDC_DCMD_IF_MASK) OR push_bit 12 (of_nat idx)
      in le32_bytes cmd @ le32_bytes len @ le32_bytes flags @ le32_bytes 0)"

definition brcmf_proto_bcdc_msg ::
    "'b txctl \<Rightarrow> 'b brcmf_bcdc \<Rightarrow> nat \<Rightarrow> u32 \<Rightarrow> u8 list option \<Rightarrow> u32 \<Rightarrow> bool \<Rightarrow> (int \<times> 'b brcmf_bcdc) option" where
  "brcmf_proto_bcdc_msg txctl bcdc idx cmd buf len set_it = do {
     let bcdc = bcdc\<lparr>reqid := reqid bcdc + 1\<rparr>;
     m \<leftarrow> buf_write (msgbuf bcdc) 0 (bcdc_header cmd len (reqid bcdc) idx set_it);
     m \<leftarrow> (case buf of None \<Rightarrow> Some m | Some b \<Rightarrow> Option.bind (src_bytes b (unat len)) (buf_write m dcmd_size));
     let n = len + of_nat dcmd_size;
     let n = (if n > BRCMF_TX_IOCTL_MAX_MSG_SIZE then BRCMF_TX_IOCTL_MAX_MSG_SIZE else n);
     sent \<leftarrow> src_bytes m (unat n);
     let (ret, b) = txctl sent (bus bcdc);
     Some (ret, bcdc\<lparr>msgbuf := m, bus := b\<rparr>)
   }"

text \<open>The wait for the reply with the number \<open>rid\<close>; \<open>len\<close> is the length with the header.\<close>

partial_function (option) cmplt_loop :: "'b rxctl \<Rightarrow> 'b brcmf_bcdc \<Rightarrow> u32 \<Rightarrow> u32 \<Rightarrow> (int \<times> 'b brcmf_bcdc) option" where
  "cmplt_loop rxctl bcdc rid len =
     (case rxctl (unat len) (bus bcdc) of
        (ret, bytes, b) \<Rightarrow>
          Option.bind (buf_write (msgbuf bcdc) 0 bytes) (\<lambda>m.
            let bcdc = bcdc\<lparr>msgbuf := m, bus := b\<rparr>
            in if ret < 0 then Some (ret, bcdc)
               else if BCDC_DCMD_ID (msg_flags m) \<noteq> rid then cmplt_loop rxctl bcdc rid len
               else Some (ret, bcdc)))"

declare cmplt_loop.simps [code]

definition brcmf_proto_bcdc_cmplt :: "'b rxctl \<Rightarrow> 'b brcmf_bcdc \<Rightarrow> u32 \<Rightarrow> u32 \<Rightarrow> (int \<times> 'b brcmf_bcdc) option" where
  "brcmf_proto_bcdc_cmplt rxctl bcdc rid len = cmplt_loop rxctl bcdc rid (len + of_nat dcmd_size)"

text \<open>The attempts to get the reply; \<open>n\<close> of them are left.\<close>

fun query_attempts :: "nat \<Rightarrow> 'b rxctl \<Rightarrow> 'b brcmf_bcdc \<Rightarrow> u32 \<Rightarrow> (int \<times> u32 \<times> 'b brcmf_bcdc) option" where
  "query_attempts 0 rxctl bcdc len = None"
| "query_attempts (Suc n) rxctl bcdc len = do {
     (ret, bcdc) \<leftarrow> brcmf_proto_bcdc_cmplt rxctl bcdc (ucast (reqid bcdc)) len;
     if ret < 0 then Some (ret, 0, bcdc)
     else let rid = BCDC_DCMD_ID (msg_flags (msgbuf bcdc))
          in if rid < ucast (reqid bcdc) \<and> n \<noteq> 0 then query_attempts n rxctl bcdc len
             else Some (ret, rid, bcdc)
   }"

abbreviation (input) RETRIES :: nat where "RETRIES \<equiv> 2"

definition reply_error :: "u8 list \<Rightarrow> int" where
  "reply_error m = (if msg_flags m AND BCDC_DCMD_ERROR \<noteq> 0 then sint (msg_status m) else 0)"

text \<open>The result, the error of the firmware, and the buffer of the caller.\<close>

definition brcmf_proto_bcdc_query_dcmd ::
    "'b txctl \<Rightarrow> 'b rxctl \<Rightarrow> nat \<Rightarrow> u32 \<Rightarrow> u8 list option \<Rightarrow> u32 \<Rightarrow> 'b brcmf_bcdc
      \<Rightarrow> (int \<times> int \<times> u8 list option \<times> 'b brcmf_bcdc) option" where
  "brcmf_proto_bcdc_query_dcmd txctl rxctl idx cmd buf len bcdc = do {
     (ret, bcdc) \<leftarrow> brcmf_proto_bcdc_msg txctl bcdc idx cmd buf len False;
     if ret < 0 then Some (ret, 0, buf, bcdc)
     else do {
       (ret, rid, bcdc) \<leftarrow> query_attempts RETRIES rxctl bcdc len;
       if ret < 0 then Some (ret, 0, buf, bcdc)
       else if rid \<noteq> ucast (reqid bcdc) then Some (bcdc_EINVAL, 0, buf, bcdc)
       else do {
         buf \<leftarrow> (case buf of
             None \<Rightarrow> Some None
           | Some b \<Rightarrow> (let n = (if ret < sint len then nat ret else unat len)
                       in map_option Some (Option.bind (src_bytes (drop dcmd_size (msgbuf bcdc)) n) (buf_write b 0))));
         Some (0, reply_error (msgbuf bcdc), buf, bcdc)
       }
     }
   }"

definition brcmf_proto_bcdc_set_dcmd ::
    "'b txctl \<Rightarrow> 'b rxctl \<Rightarrow> nat \<Rightarrow> u32 \<Rightarrow> u8 list option \<Rightarrow> u32 \<Rightarrow> 'b brcmf_bcdc
      \<Rightarrow> (int \<times> int \<times> u8 list option \<times> 'b brcmf_bcdc) option" where
  "brcmf_proto_bcdc_set_dcmd txctl rxctl idx cmd buf len bcdc = do {
     (ret, bcdc) \<leftarrow> brcmf_proto_bcdc_msg txctl bcdc idx cmd buf len True;
     if ret < 0 then Some (ret, 0, buf, bcdc)
     else do {
       (ret, bcdc) \<leftarrow> brcmf_proto_bcdc_cmplt rxctl bcdc (ucast (reqid bcdc)) len;
       if ret < 0 then Some (ret, 0, buf, bcdc)
       else if BCDC_DCMD_ID (msg_flags (msgbuf bcdc)) \<noteq> ucast (reqid bcdc) then Some (bcdc_EINVAL, 0, buf, bcdc)
       else Some (0, reply_error (msgbuf bcdc), buf, bcdc)
     }
   }"

text \<open>The protocol as the interface layer sees it.\<close>

definition bcdc_dcmd :: "'b txctl \<Rightarrow> 'b rxctl \<Rightarrow> nat \<Rightarrow> 'b brcmf_bcdc dcmd" where
  "bcdc_dcmd txctl rxctl idx set_it cmd buf len bcdc =
     (if set_it then brcmf_proto_bcdc_set_dcmd txctl rxctl idx cmd buf len bcdc
      else brcmf_proto_bcdc_query_dcmd txctl rxctl idx cmd buf len bcdc)"

subsection \<open>The header of a packet\<close>

abbreviation (input) BCDC_HEADER_LEN :: nat where "BCDC_HEADER_LEN \<equiv> 4"
abbreviation (input) BCDC_PROTO_VER :: u8 where "BCDC_PROTO_VER \<equiv> 2"
abbreviation (input) BCDC_FLAG_VER_MASK :: u8 where "BCDC_FLAG_VER_MASK \<equiv> 0xf0"
abbreviation (input) BCDC_FLAG_SUM_GOOD :: u8 where "BCDC_FLAG_SUM_GOOD \<equiv> 0x04"
abbreviation (input) BCDC_FLAG_SUM_NEEDED :: u8 where "BCDC_FLAG_SUM_NEEDED \<equiv> 0x08"
abbreviation (input) BCDC_PRIORITY_MASK :: u8 where "BCDC_PRIORITY_MASK \<equiv> 0x7"
abbreviation (input) BCDC_FLAG2_IF_MASK :: u8 where "BCDC_FLAG2_IF_MASK \<equiv> 0x0f"

text \<open>\<open>partial\<close>: whether the stack left the checksum to the device.\<close>

definition brcmf_proto_bcdc_hdrpush :: "u32 \<Rightarrow> u8 \<Rightarrow> bool \<Rightarrow> pkt \<Rightarrow> brcmf_fws_info \<Rightarrow> brcmf_fws_info" where
  "brcmf_proto_bcdc_hdrpush idx offset partial p s =
     (let flags = push_bit 4 BCDC_PROTO_VER;
          flags = (if partial then flags OR BCDC_FLAG_SUM_NEEDED else flags);
          prio = skb_priority (packets s p) AND BCDC_PRIORITY_MASK;
          flags2 = ucast ((0 AND NOT 0x0f) OR idx)
      in upd_skb p (\<lambda>k. k\<lparr>skb_data := [flags, prio, flags2, offset] @ skb_data k\<rparr>) s)"

text \<open>\<open>skb_pull\<close> does nothing when it would remove more than there is.\<close>

definition skb_pull :: "nat \<Rightarrow> pkt \<Rightarrow> brcmf_fws_info \<Rightarrow> brcmf_fws_info" where
  "skb_pull n p s = upd_skb p (\<lambda>k. if n > length (skb_data k) then k else k\<lparr>skb_data := drop n (skb_data k)\<rparr>) s"

text \<open>The interface and whether the device found the checksum good; then the offset and the state without the header.\<close>

definition bcdc_header_pulled :: "pkt \<Rightarrow> brcmf_fws_info \<Rightarrow> errno + (brcmf_if \<times> bool \<times> u8 \<times> brcmf_fws_info)" where
  "bcdc_header_pulled p s =
     (let h = skb_data (packets s p)
      in if length h \<le> BCDC_HEADER_LEN then Inl EBADE
         else case brcmf_get_ifp s (unat (h ! 2 AND BCDC_FLAG2_IF_MASK)) of
           None \<Rightarrow> Inl EBADE
         | Some tmp_if \<Rightarrow>
             if drop_bit 4 (h ! 0 AND BCDC_FLAG_VER_MASK) \<noteq> BCDC_PROTO_VER then Inl EBADE
             else Inr (tmp_if, h ! 0 AND BCDC_FLAG_SUM_GOOD \<noteq> 0, h ! 3,
                       skb_pull BCDC_HEADER_LEN p (upd_skb p (\<lambda>k. k\<lparr>skb_priority := h ! 1 AND BCDC_PRIORITY_MASK\<rparr>) s)))"

definition bcdc_not_empty :: "brcmf_if \<Rightarrow> bool \<Rightarrow> pkt \<Rightarrow> brcmf_fws_info \<Rightarrow> (errno + brcmf_if \<times> bool) \<times> brcmf_fws_info" where
  "bcdc_not_empty ifp good p s = (if skb_data (packets s p) = [] then Inl ENODATA else Inr (ifp, good), s)"

text \<open>With \<open>do_fws\<close> and without.\<close>

definition bcdc_hdrpull_plain :: "pkt \<Rightarrow> brcmf_fws_info \<Rightarrow> (errno + brcmf_if \<times> bool) \<times> brcmf_fws_info" where
  "bcdc_hdrpull_plain p s =
     (case bcdc_header_pulled p s of
        Inl e \<Rightarrow> (Inl e, s)
      | Inr (ifp, good, offset, s) \<Rightarrow> bcdc_not_empty ifp good p (skb_pull (unat offset * 4) p s))"

definition brcmf_proto_bcdc_hdrpull ::
    "fws_env \<Rightarrow> bool \<Rightarrow> pkt \<Rightarrow> brcmf_fws_info \<Rightarrow> ((errno + brcmf_if \<times> bool) \<times> brcmf_fws_info) option" where
  "brcmf_proto_bcdc_hdrpull env do_fws p s =
     (if \<not> do_fws then Some (bcdc_hdrpull_plain p s)
      else case bcdc_header_pulled p s of
        Inl e \<Rightarrow> Some (Inl e, s)
      | Inr (ifp, good, offset, s) \<Rightarrow>
          map_option (bcdc_not_empty ifp good p) (brcmf_fws_hdrpull env (uint offset * 4) p s))"

subsection \<open>Packets\<close>

type_synonym bus_txdata = "pkt \<Rightarrow> brcmf_fws_info \<Rightarrow> (errno + unit) \<times> brcmf_fws_info"

definition brcmf_proto_bcdc_txdata ::
    "bus_txdata \<Rightarrow> bool \<Rightarrow> u32 \<Rightarrow> u8 \<Rightarrow> pkt \<Rightarrow> brcmf_fws_info \<Rightarrow> (errno + unit) \<times> brcmf_fws_info" where
  "brcmf_proto_bcdc_txdata txdata partial idx offset p s = txdata p (brcmf_proto_bcdc_hdrpush idx offset partial p s)"

text \<open>What the firmware signalling calls is provided by this protocol.\<close>

definition bcdc_env :: "bus_txdata \<Rightarrow> (pkt \<Rightarrow> bool) \<Rightarrow> (brcmf_fws_info \<Rightarrow> pkt option) \<Rightarrow> fws_env" where
  "bcdc_env txdata partial alloc = \<lparr>env_alloc = alloc,
     env_txdata = (\<lambda>idx offset p. brcmf_proto_bcdc_txdata txdata (partial p) idx offset p),
     env_hdrpull = (\<lambda>p s. case bcdc_hdrpull_plain p s of (r, s) \<Rightarrow> (map_sum id (\<lambda>(ifp, _). Some (ifidx ifp)) r, s))\<rparr>"

definition brcmf_proto_bcdc_tx_queue_data ::
    "bus_txdata \<Rightarrow> (pkt \<Rightarrow> bool) \<Rightarrow> (brcmf_fws_info \<Rightarrow> pkt option) \<Rightarrow> u8 list option \<Rightarrow> nat \<Rightarrow> nat \<Rightarrow> nat \<Rightarrow> pkt \<Rightarrow> brcmf_fws_info
      \<Rightarrow> ((errno + unit) \<times> brcmf_fws_info) option" where
  "brcmf_proto_bcdc_tx_queue_data txdata partial alloc config jiffies hz idx p s =
     (if \<not> brcmf_fws_queue_skbs s then Some (brcmf_proto_bcdc_txdata txdata (partial p) (of_nat idx) 0 p s)
      else do {
        ifp \<leftarrow> brcmf_get_ifp s idx;
        brcmf_fws_process_skb (bcdc_env txdata partial alloc) config jiffies hz ifp p s
      })"

definition brcmf_proto_bcdc_txflowblock :: "bool \<Rightarrow> brcmf_fws_info \<Rightarrow> brcmf_fws_info" where
  "brcmf_proto_bcdc_txflowblock state s = brcmf_fws_bus_blocked state s"

definition brcmf_proto_bcdc_txcomplete :: "fws_env \<Rightarrow> pkt \<Rightarrow> bool \<Rightarrow> brcmf_fws_info \<Rightarrow> brcmf_fws_info option" where
  "brcmf_proto_bcdc_txcomplete env p success s =
     (if brcmf_fws_fc_active s then brcmf_fws_bustxcomplete env p success s
      else case bcdc_hdrpull_plain p s of
        (Inl _, s) \<Rightarrow> Some (brcmu_pkt_buf_free_skb p s)
      | (Inr _, s) \<Rightarrow> Some (brcmf_txfinalize p s))"

definition brcmf_proto_bcdc_add_if :: "brcmf_if \<Rightarrow> brcmf_fws_info \<Rightarrow> brcmf_fws_info" where
  "brcmf_proto_bcdc_add_if ifp s = brcmf_fws_add_interface ifp s"

definition brcmf_proto_bcdc_del_if :: "brcmf_if \<Rightarrow> brcmf_fws_info \<Rightarrow> brcmf_fws_info option" where
  "brcmf_proto_bcdc_del_if ifp s = brcmf_fws_del_interface ifp s"

definition brcmf_proto_bcdc_reset_if :: "brcmf_if \<Rightarrow> brcmf_fws_info \<Rightarrow> brcmf_fws_info" where
  "brcmf_proto_bcdc_reset_if ifp s = brcmf_fws_reset_interface ifp s"

definition brcmf_proto_bcdc_init_done :: "fws_attach_env \<Rightarrow> brcmf_fws_info \<Rightarrow> errno + brcmf_fws_info" where
  "brcmf_proto_bcdc_init_done e zeroed = brcmf_fws_attach e zeroed"

text \<open>The headroom and the length of a control message the bus has to provide, and the protocol.\<close>

definition brcmf_proto_bcdc_attach :: "bool \<Rightarrow> nat \<Rightarrow> 'b \<Rightarrow> errno + (nat \<times> nat \<times> 'b brcmf_bcdc)" where
  "brcmf_proto_bcdc_attach alloc hdrlen b =
     (if \<not> alloc then Inl ENOMEM
      else Inr (hdrlen + BCDC_HEADER_LEN + 12, BRCMF_DCMD_MAXLEN + dcmd_size + 2048,
                \<lparr>reqid = 0, msgbuf = replicate (dcmd_size + BRCMF_DCMD_MAXLEN) 0, bus = b\<rparr>))"

definition brcmf_proto_bcdc_detach :: "brcmf_fws_info \<Rightarrow> brcmf_fws_info option" where
  "brcmf_proto_bcdc_detach s = brcmf_fws_detach s"


subsection \<open>The header of a command\<close>

lemma mask_constants:
  "BCDC_DCMD_IF_MASK = push_bit 12 (mask 4)" "BCDC_DCMD_ID_MASK = push_bit 16 (mask 16)" "BCDC_DCMD_SET = push_bit 1 (mask 1)"
  "BCDC_DCMD_ERROR = mask 1"
  by (simp_all add: mask_eq_exp_minus_1)

lemma low_index_bits:
  assumes "idx < 16" "bit (idx :: nat) n"
  shows "n < 4"
proof -
  have "take_bit 4 idx = idx" by (rule take_bit_nat_eq_self) (use assms(1) in simp)
  then have "bit (take_bit 4 idx) n" using assms(2) by simp
  then show ?thesis by (simp add: bit_take_bit_iff)
qed

definition header_flags :: "u16 \<Rightarrow> nat \<Rightarrow> bool \<Rightarrow> u32" where
  "header_flags rid idx set_it =
     ((push_bit 16 (ucast rid) OR (if set_it then BCDC_DCMD_SET else 0)) AND NOT BCDC_DCMD_IF_MASK) OR push_bit 12 (of_nat idx)"

lemma header_eq: "bcdc_header cmd len rid idx set_it =
  le32_bytes cmd @ le32_bytes len @ le32_bytes (header_flags rid idx set_it) @ le32_bytes 0"
  by (simp add: bcdc_header_def header_flags_def Let_def)

lemma header_flags_fields:
  assumes "idx < 16"
  shows "BCDC_DCMD_ID (header_flags rid idx set_it) = ucast rid"
    "drop_bit 12 (header_flags rid idx set_it AND BCDC_DCMD_IF_MASK) = of_nat idx"
    "header_flags rid idx set_it AND BCDC_DCMD_SET = (if set_it then BCDC_DCMD_SET else 0)"
    "header_flags rid idx set_it AND BCDC_DCMD_ERROR = 0"
proof -
  note low = low_index_bits [OF assms]
  show "BCDC_DCMD_ID (header_flags rid idx set_it) = ucast rid"
    unfolding BCDC_DCMD_ID_def header_flags_def mask_constants
    by (rule bit_word_eqI) (auto simp: bit_simps dest: low bit_imp_le_length)
  show "drop_bit 12 (header_flags rid idx set_it AND BCDC_DCMD_IF_MASK) = of_nat idx"
    unfolding header_flags_def mask_constants
    by (rule bit_word_eqI) (auto simp: bit_simps dest: low)
  show "header_flags rid idx set_it AND BCDC_DCMD_SET = (if set_it then BCDC_DCMD_SET else 0)"
    unfolding header_flags_def mask_constants
    by (rule bit_word_eqI) (auto simp: bit_simps dest: low)
  show "header_flags rid idx set_it AND BCDC_DCMD_ERROR = 0"
    unfolding header_flags_def mask_constants
    by (rule bit_word_eqI) (auto simp: bit_simps dest: low)
qed

lemma header_length [simp]: "length (bcdc_header cmd len rid idx set_it) = 16"
  by (simp add: header_eq)

lemma header_fields:
  "le32_read (bcdc_header cmd len rid idx set_it @ r) = cmd" "le32_read (drop 4 (bcdc_header cmd len rid idx set_it @ r)) = len"
  "msg_flags (bcdc_header cmd len rid idx set_it @ r) = header_flags rid idx set_it"
  by (simp_all add: header_eq msg_flags_def le32_read_def le32_bytes_def)

text \<open>The memory of the message when it is sent.\<close>

definition message_of :: "'b brcmf_bcdc \<Rightarrow> nat \<Rightarrow> u32 \<Rightarrow> u8 list \<Rightarrow> u32 \<Rightarrow> bool \<Rightarrow> u8 list" where
  "message_of bcdc idx cmd b len set_it =
     bcdc_header cmd len (reqid bcdc + 1) idx set_it @ take (unat len) b @ drop (dcmd_size + unat len) (msgbuf bcdc)"

definition bcdc_fits :: "'b brcmf_bcdc \<Rightarrow> u8 list \<Rightarrow> u32 \<Rightarrow> nat \<Rightarrow> bool" where
  "bcdc_fits bcdc b len idx \<longleftrightarrow> length (msgbuf bcdc) = dcmd_size + BRCMF_DCMD_MAXLEN \<and> unat len \<le> BRCMF_DCMD_MAXLEN
   \<and> unat len \<le> length b \<and> idx < 16"

lemma msg_made:
  assumes "bcdc_fits bcdc b len idx"
  shows "brcmf_proto_bcdc_msg txctl bcdc idx cmd (Some b) len set_it =
      (case txctl (take (min (unat len + dcmd_size) 1518) (message_of bcdc idx cmd b len set_it)) (bus bcdc) of
        (ret, bs) \<Rightarrow> Some (ret, bcdc\<lparr>reqid := reqid bcdc + 1, msgbuf := message_of bcdc idx cmd b len set_it, bus := bs\<rparr>))"
    "length (message_of bcdc idx cmd b len set_it) = dcmd_size + BRCMF_DCMD_MAXLEN"
proof -
  let ?h = "bcdc_header cmd len (reqid bcdc + 1) idx set_it"
  define m where "m = message_of bcdc idx cmd b len set_it"
  have fits: "length (msgbuf bcdc) = 16 + 8192" "unat len \<le> 8192" "unat len \<le> length b" using assms by (simp_all add: bcdc_fits_def)
  have lm: "length m = 16 + 8192" using fits by (simp add: m_def message_of_def)
  then show "length (message_of bcdc idx cmd b len set_it) = 16 + 8192" by (simp add: m_def)
  have w: "Option.bind (buf_write (msgbuf bcdc) 0 ?h) (\<lambda>m. buf_write m 16 (take (unat len) b)) = Some m"
    using buf_write_twice [of "msgbuf bcdc" 0 ?h "take (unat len) b"] fits
    by (simp add: buf_write_def m_def message_of_def add.commute)
  then obtain m1 where m1: "buf_write (msgbuf bcdc) 0 ?h = Some m1" "buf_write m1 16 (take (unat len) b) = Some m"
    by (cases "buf_write (msgbuf bcdc) 0 ?h") auto
  have n: "unat (len + of_nat 16) = unat len + 16" by (rule unat_add_small) (use fits(2) in simp)
  have "unat (if len + of_nat 16 > BRCMF_TX_IOCTL_MAX_MSG_SIZE then BRCMF_TX_IOCTL_MAX_MSG_SIZE else len + of_nat 16) =
      min (unat len + 16) 1518"
    using n by (auto simp: word_less_nat_alt min_def)
  moreover have "min (unat len + 16) 1518 \<le> length m" using lm by simp
  ultimately show "brcmf_proto_bcdc_msg txctl bcdc idx cmd (Some b) len set_it =
      (case txctl (take (min (unat len + 16) 1518) (message_of bcdc idx cmd b len set_it)) (bus bcdc) of
        (ret, bs) \<Rightarrow> Some (ret, bcdc\<lparr>reqid := reqid bcdc + 1, msgbuf := message_of bcdc idx cmd b len set_it, bus := bs\<rparr>))"
    unfolding m_def [symmetric] using m1 fits(3) unfolding brcmf_proto_bcdc_msg_def Let_def by (simp add: src_bytes_def case_prod_beta)
qed

text \<open>
  The message of a command carries, in the byte order of the device, the command, the full length
  of the data, a new number, the interface and whether it sets; the data follow, cut so that the
  message has no more than 1518 bytes.
\<close>

theorem bcdc_msg_carries_command:
  assumes "bcdc_fits bcdc b len idx"
  shows "\<exists>sent. brcmf_proto_bcdc_msg txctl bcdc idx cmd (Some b) len set_it =
      (case txctl sent (bus bcdc) of
        (ret, bs) \<Rightarrow> Some (ret, bcdc\<lparr>reqid := reqid bcdc + 1, msgbuf := message_of bcdc idx cmd b len set_it, bus := bs\<rparr>))
    \<and> le32_read sent = cmd \<and> le32_read (drop 4 sent) = len \<and> BCDC_DCMD_ID (msg_flags sent) = ucast (reqid bcdc + 1)
    \<and> drop_bit 12 (msg_flags sent AND BCDC_DCMD_IF_MASK) = of_nat idx \<and> (msg_flags sent AND BCDC_DCMD_SET \<noteq> 0 \<longleftrightarrow> set_it)
    \<and> drop dcmd_size sent = take (min (unat len) 1502) b"
proof -
  let ?sent = "bcdc_header cmd len (reqid bcdc + 1) idx set_it @ take (min (unat len) 1502) b"
  have idx: "idx < 16" "unat len \<le> length b" using assms by (simp_all add: bcdc_fits_def)
  have cut: "take (min (unat len + 16) 1518) (message_of bcdc idx cmd b len set_it) = ?sent"
    using idx(2) by (auto simp: min_def message_of_def)
  have f: "le32_read ?sent = cmd" "le32_read (drop 4 ?sent) = len" "msg_flags ?sent = header_flags (reqid bcdc + 1) idx set_it"
    by (rule header_fields)+
  have "drop 16 ?sent = take (min (unat len) 1502) b" by simp
  then show ?thesis
    using msg_made(1) [OF assms, of txctl cmd set_it] header_flags_fields [OF idx(1)] unfolding cut
    by (intro exI [of _ ?sent] conjI) (simp_all only: f, simp_all)
qed

theorem bcdc_msg_carries_command_witness:
  "\<exists>sent m. brcmf_proto_bcdc_msg (\<lambda>sent log. (0, log @ [sent])) \<lparr>reqid = 4, msgbuf = replicate 8208 0, bus = []\<rparr> 3 262 (Some [1, 2, 3]) 3 False
      = Some (0, \<lparr>reqid = 5, msgbuf = m, bus = [sent]\<rparr>)
    \<and> le32_read sent = 262 \<and> BCDC_DCMD_ID (msg_flags sent) = 5 \<and> drop 16 sent = [1, 2, 3]"
proof -
  have "bcdc_fits \<lparr>reqid = 4, msgbuf = replicate 8208 0, bus = []\<rparr> [1, 2, 3] 3 3" by (simp add: bcdc_fits_def)
  from bcdc_msg_carries_command [OF this, of "\<lambda>sent log. (0, log @ [sent])" 262 False] show ?thesis by auto
qed


subsection \<open>Replies\<close>

definition frame_id :: "u8 list \<Rightarrow> u32" where
  "frame_id f = BCDC_DCMD_ID (msg_flags f)"

lemma le32_read_take: "4 \<le> n \<Longrightarrow> 4 \<le> length f \<Longrightarrow> le32_read (take n f @ r) = le32_read f"
proof -
  assume "4 \<le> n" "4 \<le> length f"
  then have "(take n f @ r) ! k = f ! k" if "k < 4" for k using that by (simp add: nth_append)
  then show ?thesis by (simp add: le32_read_def)
qed

lemma flags_of_frame:
  assumes "16 \<le> n" "16 \<le> length f"
  shows "msg_flags (take n f @ r) = msg_flags f" "msg_status (take n f @ r) = msg_status f"
  using le32_read_take [of "n - 8" "drop 8 f" r] le32_read_take [of "n - 12" "drop 12 f" r] assms
  by (simp_all add: msg_flags_def msg_status_def drop_take)

text \<open>
  A bus that delivers messages one after the other. What is put at the beginning of the memory
  is cut to the length asked for; the count that is returned is the one of these bytes, or as
  many more as the message had (\<open>brcmf_sdio_bus_rxctl\<close> returns the length of the whole message). When no
  message is left the bus fails. \<open>view\<close> is what is still to come, in the states \<open>ok\<close>.
\<close>

definition frame_rx :: "('b \<Rightarrow> bool) \<Rightarrow> 'b rxctl \<Rightarrow> ('b \<Rightarrow> u8 list list) \<Rightarrow> bool" where
  "frame_rx ok rxctl view \<longleftrightarrow> (\<forall>n b. ok b \<longrightarrow> (case view b of
       [] \<Rightarrow> \<exists>e b'. e < 0 \<and> rxctl n b = (e, [], b')
     | f # fs \<Rightarrow> \<exists>c b'. min n (length f) \<le> c \<and> c \<le> length f \<and> rxctl n b = (int c, take n f, b') \<and> ok b' \<and> view b' = fs))"

lemma frame_rx_none:
  assumes "frame_rx ok rxctl view" "ok b" "view b = []"
  obtains e b' where "e < 0" "rxctl n b = (e, [], b')"
  using assms(1) [unfolded frame_rx_def, rule_format, OF assms(2), of n] assms(3) that by auto

lemma frame_rx_some:
  assumes "frame_rx ok rxctl view" "ok b" "view b = f # fs"
  obtains c b' where "min n (length f) \<le> c" "c \<le> length f" "rxctl n b = (int c, take n f, b')" "ok b'" "view b' = fs"
  using assms(1) [unfolded frame_rx_def, rule_format, OF assms(2), of n] assms(3) that by auto

text \<open>
  The memory of the message under the replies: each lies over what was there before, the request
  first of all. The number read from it is the one of the last reply that was long enough to
  have it, in both of its bytes.
\<close>

definition overlay :: "nat \<Rightarrow> u8 list \<Rightarrow> u8 list \<Rightarrow> u8 list" where
  "overlay n f m = take n f @ drop (min n (length f)) m"

definition id_after :: "u8 list \<Rightarrow> u32 \<Rightarrow> u32" where
  "id_after f i = (if 12 \<le> length f then frame_id f else if length f = 11 then ucast (f ! 10) OR (i AND 0xFF00) else i)"

lemma id_bytes: "BCDC_DCMD_ID (msg_flags m) = ucast (m ! 10) OR push_bit 8 (ucast (m ! 11))" if "12 \<le> length m"
proof -
  have "BCDC_DCMD_ID (le32_of a b c d) = ucast c OR push_bit 8 (ucast d)" for a b c d :: u8
    unfolding BCDC_DCMD_ID_def le32_of_def mask_constants
    by (rule bit_word_eqI) (auto simp: bit_simps dest: bit_imp_le_length)
  then show ?thesis using that by (simp add: msg_flags_def le32_read_def)
qed

lemma id_overlay:
  assumes "12 \<le> n" "n \<le> length m"
  shows "BCDC_DCMD_ID (msg_flags (overlay n f m)) = id_after f (BCDC_DCMD_ID (msg_flags m))"
proof -
  have len: "12 \<le> length (overlay n f m)" "12 \<le> length m" using assms by (simp_all add: overlay_def)
  have at: "overlay n f m ! i = (if i < length f then f ! i else m ! i)" if "i < 12" for i
    using that assms by (auto simp: overlay_def nth_append min_def)
  have low: "(ucast c OR push_bit 8 (ucast d)) AND 0xFF00 = (push_bit 8 (ucast d) :: u32)" for c d :: u8
  proof -
    have "(ucast c OR push_bit 8 (ucast d)) AND push_bit 8 (mask 8) = (push_bit 8 (ucast d) :: u32)"
      by (rule bit_word_eqI) (auto simp: bit_simps dest: bit_imp_le_length)
    then show ?thesis by (simp add: mask_eq_exp_minus_1)
  qed
  consider "12 \<le> length f" | "length f = 11" | "length f \<le> 10" by linarith
  then show ?thesis
  proof cases
    case 1
    then show ?thesis using at [of 10] at [of 11] by (simp add: id_bytes [OF len(1)] id_bytes [OF 1] id_after_def frame_id_def)
  next
    case 2
    then show ?thesis using at [of 10] at [of 11] by (simp add: id_bytes [OF len(1)] id_bytes [OF len(2)] id_after_def low)
  next
    case 3
    then show ?thesis using at [of 10] at [of 11] by (simp add: id_bytes [OF len(1)] id_bytes [OF len(2)] id_after_def)
  qed
qed

lemma cmplt_step:
  assumes "rxctl (unat len) (bus bcdc) = (c, take (unat len) f, b)" "unat len \<le> length (msgbuf bcdc)" "0 \<le> c"
  defines "c' \<equiv> bcdc\<lparr>msgbuf := overlay (unat len) f (msgbuf bcdc), bus := b\<rparr>"
  shows "cmplt_loop rxctl bcdc rid len =
    (if BCDC_DCMD_ID (msg_flags (msgbuf c')) \<noteq> rid then cmplt_loop rxctl c' rid len else Some (c, c'))"
proof -
  have "buf_write (msgbuf bcdc) 0 (take (unat len) f) = Some (overlay (unat len) f (msgbuf bcdc))"
    using assms(2) by (simp add: buf_write_def overlay_def min.commute)
  with assms(1,3) show ?thesis unfolding c'_def by (subst cmplt_loop.simps) (simp add: Let_def)
qed

lemma length_overlay [simp]: "n \<le> length m \<Longrightarrow> length (overlay n f m) = length m"
  by (simp add: overlay_def)

text \<open>The wait ends with the first reply after which the memory has the number, or with the error of the bus.\<close>

lemma cmplt_frames:
  assumes rx: "frame_rx ok rxctl view" and n: "12 \<le> unat len"
  shows "ok (bus bcdc) \<Longrightarrow> view (bus bcdc) = fs \<Longrightarrow> unat len \<le> length (msgbuf bcdc) \<Longrightarrow>
    (\<forall>i<length fs. fold id_after (take (Suc i) fs) (BCDC_DCMD_ID (msg_flags (msgbuf bcdc))) \<noteq> rid) \<Longrightarrow>
    \<exists>e bcdc'. cmplt_loop rxctl bcdc rid len = Some (e, bcdc') \<and> e < 0 \<and> reqid bcdc' = reqid bcdc"
    and "ok (bus bcdc) \<Longrightarrow> view (bus bcdc) = fs \<Longrightarrow> unat len \<le> length (msgbuf bcdc) \<Longrightarrow> i < length fs \<Longrightarrow>
    fold id_after (take (Suc i) fs) (BCDC_DCMD_ID (msg_flags (msgbuf bcdc))) = rid \<Longrightarrow>
    (\<forall>j<i. fold id_after (take (Suc j) fs) (BCDC_DCMD_ID (msg_flags (msgbuf bcdc))) \<noteq> rid) \<Longrightarrow>
    \<exists>c b. cmplt_loop rxctl bcdc rid len =
      Some (int c, bcdc\<lparr>msgbuf := fold (overlay (unat len)) (take (Suc i) fs) (msgbuf bcdc), bus := b\<rparr>) \<and>
      min (unat len) (length (fs ! i)) \<le> c \<and> c \<le> length (fs ! i) \<and> view b = drop (Suc i) fs"
proof (induction fs arbitrary: bcdc i)
  case Nil
  {
    case 1
    obtain e b' where e: "e < 0" "rxctl (unat len) (bus bcdc) = (e, [], b')" by (rule frame_rx_none [OF rx 1(1,2)])
    then show ?case by (subst cmplt_loop.simps) (simp add: buf_write_def Let_def)
  next
    case 2
    then show ?case by simp
  }
next
  case (Cons f fs)
  note id = id_overlay [OF n]
  {
    case 1
    obtain c b' where b: "rxctl (unat len) (bus bcdc) = (int c, take (unat len) f, b')" "ok b'" "view b' = fs"
      by (rule frame_rx_some [OF rx 1(1,2)])
    let ?c = "bcdc\<lparr>msgbuf := overlay (unat len) f (msgbuf bcdc), bus := b'\<rparr>"
    have i: "BCDC_DCMD_ID (msg_flags (msgbuf ?c)) = id_after f (BCDC_DCMD_ID (msg_flags (msgbuf bcdc)))" using id [OF 1(3)] by simp
    have "BCDC_DCMD_ID (msg_flags (msgbuf ?c)) \<noteq> rid" using 1(4) [rule_format, of 0] unfolding i by simp
    then have "cmplt_loop rxctl bcdc rid len = cmplt_loop rxctl ?c rid len"
      using cmplt_step [where f = f and bcdc = bcdc and len = len and rxctl = rxctl, OF b(1) 1(3)] by simp
    moreover have "\<forall>j<length fs. fold id_after (take (Suc j) fs) (BCDC_DCMD_ID (msg_flags (msgbuf ?c))) \<noteq> rid"
      unfolding i using 1(4) by (auto dest!: spec [of _ "Suc _"])
    ultimately show ?case using Cons.IH(1) [of ?c] b(2,3) 1(3) by simp
  next
    case 2
    obtain c b' where b: "min (unat len) (length f) \<le> c" "c \<le> length f" "rxctl (unat len) (bus bcdc) = (int c, take (unat len) f, b')"
      "ok b'" "view b' = fs"
      by (rule frame_rx_some [OF rx 2(1,2)])
    let ?c = "bcdc\<lparr>msgbuf := overlay (unat len) f (msgbuf bcdc), bus := b'\<rparr>"
    have i: "BCDC_DCMD_ID (msg_flags (msgbuf ?c)) = id_after f (BCDC_DCMD_ID (msg_flags (msgbuf bcdc)))" using id [OF 2(3)] by simp
    show ?case
    proof (cases i)
      case 0
      then have "BCDC_DCMD_ID (msg_flags (msgbuf ?c)) = rid" using 2(5) unfolding i by simp
      then show ?thesis using cmplt_step [where f = f and bcdc = bcdc and len = len and rxctl = rxctl, OF b(3) 2(3)] b 0 by auto
    next
      case (Suc k)
      then have "BCDC_DCMD_ID (msg_flags (msgbuf ?c)) \<noteq> rid" using 2(6) [rule_format, of 0] unfolding i by simp
      then have "cmplt_loop rxctl bcdc rid len = cmplt_loop rxctl ?c rid len"
        using cmplt_step [where f = f and bcdc = bcdc and len = len and rxctl = rxctl, OF b(3) 2(3)] by simp
      moreover have "\<forall>j<k. fold id_after (take (Suc j) fs) (BCDC_DCMD_ID (msg_flags (msgbuf ?c))) \<noteq> rid"
        unfolding i using 2(6) Suc by (auto dest!: spec [of _ "Suc _"])
      ultimately show ?thesis using Cons.IH(2) [of ?c k] b(4,5) 2(3-5) Suc i by simp
    qed
  }
qed

text \<open>What the memory has when the last reply was a whole one.\<close>

lemma overlay_whole:
  assumes "16 \<le> n" "n \<le> length f"
  shows "reply_error (overlay n f m) = reply_error f" "drop 16 (overlay n f m) = drop 16 (take n f) @ drop n m"
  using assms flags_of_frame [of n f "drop n m"] by (simp_all add: overlay_def reply_error_def min_def)

lemma fold_overlay_length: "n \<le> length m \<Longrightarrow> length (fold (overlay n) fs m) = length m"
  by (induction fs arbitrary: m) simp_all

lemma id_fold:
  "12 \<le> n \<Longrightarrow> n \<le> length m \<Longrightarrow> BCDC_DCMD_ID (msg_flags (fold (overlay n) fs m)) = fold id_after fs (BCDC_DCMD_ID (msg_flags m))"
  by (induction fs arbitrary: m) (simp_all add: id_overlay)

text \<open>
  C11: The wait of a query that was sent, whatever the replies are. Each reply lies in the memory over the ones
  before it and over the request; the query ends with the first reply after which the number in
  that memory is the one of the request. It returns 0, the error of the firmware the memory has,
  and of the data as many bytes as the reply was long, at most those asked for. A reply that is
  as long as the header and the data gives just its own error and data. A reply too short to have
  a number does not end the wait for what it is: of at most ten bytes, it is taken for the
  answer when it comes first, since the number of the request is still in the memory, and it is
  passed over when another reply came before. When no reply has the number, the query returns the
  error of the bus, and the buffer of the caller keeps what it had.
\<close>

theorem bcdc_query_finds_reply:
  fixes cmd :: u32
  assumes "bcdc_fits bcdc b len idx" "frame_rx ok rxctl view"
    and "\<And>sent. 0 \<le> fst (txctl sent (bus bcdc)) \<and> ok (snd (txctl sent (bus bcdc))) \<and> view (snd (txctl sent (bus bcdc))) = fs"
  defines "rid \<equiv> ucast (reqid bcdc + 1) :: u32"
    and "number \<equiv> \<lambda>i. fold id_after (take (Suc i) fs) (ucast (reqid bcdc + 1))"
    and "memory \<equiv> \<lambda>i. fold (overlay (dcmd_size + unat len)) (take (Suc i) fs) (message_of bcdc idx cmd b len False)"
    and "result \<equiv> brcmf_proto_bcdc_query_dcmd txctl rxctl idx cmd (Some b) len bcdc"
  shows "(\<forall>i<length fs. number i = rid \<and> (\<forall>j<i. number j \<noteq> rid) \<longrightarrow>
      (\<exists>bcdc'. result = Some (0, reply_error (memory i),
           Some (take (min (length (fs ! i)) (unat len)) (drop dcmd_size (memory i)) @ drop (min (length (fs ! i)) (unat len)) b), bcdc')
         \<and> reqid bcdc' = reqid bcdc + 1 \<and> view (bus bcdc') = drop (Suc i) fs)
      \<and> (dcmd_size + unat len \<le> length (fs ! i) \<longrightarrow> reply_error (memory i) = reply_error (fs ! i)
         \<and> take (unat len) (drop dcmd_size (memory i)) = take (unat len) (drop dcmd_size (fs ! i))))
    \<and> ((\<forall>i<length fs. number i \<noteq> rid) \<longrightarrow> (\<exists>e bcdc'. e < 0 \<and> result = Some (e, 0, Some b, bcdc') \<and> reqid bcdc' = reqid bcdc + 1))"
proof -
  let ?m = "message_of bcdc idx cmd b len False"
  let ?sent = "take (min (unat len + 16) 1518) ?m"
  obtain ret bs where tx: "txctl ?sent (bus bcdc) = (ret, bs)" "\<not> ret < 0" "ok bs" "view bs = fs"
    using assms(3) [of ?sent] by (cases "txctl ?sent (bus bcdc)") simp
  define c where "c = bcdc\<lparr>reqid := reqid bcdc + 1, msgbuf := ?m, bus := bs\<rparr>"
  have msg: "brcmf_proto_bcdc_msg txctl bcdc idx cmd (Some b) len False = Some (ret, c)"
    using msg_made(1) [OF assms(1), of txctl cmd False] tx(1) by (simp add: c_def)
  have fits: "unat len \<le> 8192" "unat len \<le> length b" "idx < 16" using assms(1) by (simp_all add: bcdc_fits_def)
  have n: "unat (len + of_nat 16) = 16 + unat len" using unat_add_small [of len 16] fits(1) by simp
  have lm: "length ?m = 8208" using msg_made(2) [OF assms(1), of cmd False] by simp
  have lc: "ok (bus c)" "view (bus c) = fs" "unat (len + of_nat 16) \<le> length (msgbuf c)" "reqid c = reqid bcdc + 1"
    using tx(3,4) fits(1) by (simp_all only: c_def n) (simp_all add: lm)
  have id: "BCDC_DCMD_ID (msg_flags (msgbuf c)) = rid"
    using header_flags_fields(1) [OF fits(3)] by (simp add: c_def message_of_def header_fields rid_def)
  have twelve: "12 \<le> unat (len + of_nat 16)" unfolding n by simp
  note loop = cmplt_frames [OF assms(2) twelve, where bcdc = c and fs = fs and rid = rid, OF lc(1-3), unfolded id]
  have cmplt: "brcmf_proto_bcdc_cmplt rxctl c rid len = cmplt_loop rxctl c rid (len + of_nat 16)"
    by (simp add: brcmf_proto_bcdc_cmplt_def)
  show ?thesis
  proof (intro conjI impI allI)
    fix i assume i: "i < length fs" "number i = rid \<and> (\<forall>j<i. number j \<noteq> rid)"
    define k where "k = min (length (fs ! i)) (unat len)"
    obtain count b' where r: "cmplt_loop rxctl c rid (len + of_nat 16) = Some (int count, c\<lparr>msgbuf := memory i, bus := b'\<rparr>)"
      "min (16 + unat len) (length (fs ! i)) \<le> count" "count \<le> length (fs ! i)" "view b' = drop (Suc i) fs"
      using loop(2) [of i] i unfolding n number_def memory_def rid_def c_def by auto
    have mem: "length (memory i) = 8208" "BCDC_DCMD_ID (msg_flags (memory i)) = rid"
      using fits(1) lm i(2) id_fold [of "16 + unat len" ?m] fold_overlay_length [of "16 + unat len" ?m] id
      by (simp_all add: memory_def number_def c_def rid_def)
    have att: "query_attempts RETRIES rxctl c len = Some (int count, rid, c\<lparr>msgbuf := memory i, bus := b'\<rparr>)"
      using r(1) cmplt lc(4) mem(2) by (simp add: rid_def numeral_2_eq_2)
    have "sint len = int (unat len)" by (rule sint_small) (use fits(1) in simp)
    then have "(if int count < sint len then nat (int count) else unat len) = (if count < unat len then count else unat len)"
      by (simp only: of_nat_less_iff nat_int)
    also have "\<dots> = k" using r(2,3) by (auto simp: k_def min_def split: if_splits)
    finally have k: "(if int count < sint len then nat (int count) else unat len) = k" .
    have "k \<le> 8192" "k \<le> length b" using fits by (auto simp: k_def)
    then have copy: "map_option Some (Option.bind (src_bytes (drop 16 (memory i)) k) (buf_write b 0)) =
        Some (Some (take k (drop 16 (memory i)) @ drop k b))"
      using mem(1) by (simp add: src_bytes_def buf_write_def)
    show "\<exists>bcdc'. result = Some (0, reply_error (memory i),
           Some (take (min (length (fs ! i)) (unat len)) (drop 16 (memory i)) @ drop (min (length (fs ! i)) (unat len)) b), bcdc')
         \<and> reqid bcdc' = reqid bcdc + 1 \<and> view (bus bcdc') = drop (Suc i) fs"
      using msg tx(2) att lc(4) r(4) copy k unfolding result_def k_def [symmetric]
      by (simp add: brcmf_proto_bcdc_query_dcmd_def rid_def Let_def)
  next
    fix i assume "i < length fs" "16 + unat len \<le> length (fs ! i)"
    moreover have "memory i = overlay (16 + unat len) (fs ! i) (fold (overlay (16 + unat len)) (take i fs) ?m)"
      if "i < length fs" using that by (simp add: memory_def take_Suc_conv_app_nth)
    ultimately show "reply_error (memory i) = reply_error (fs ! i)"
      "take (unat len) (drop 16 (memory i)) = take (unat len) (drop 16 (fs ! i))"
      by (simp_all add: overlay_whole drop_take)
  next
    assume "\<forall>i<length fs. number i \<noteq> rid"
    then obtain e c' where "cmplt_loop rxctl c rid (len + of_nat 16) = Some (e, c')" "e < 0" "reqid c' = reqid c"
      using loop(1) unfolding number_def rid_def by auto
    then show "\<exists>e bcdc'. e < 0 \<and> result = Some (e, 0, Some b, bcdc') \<and> reqid bcdc' = reqid bcdc + 1"
      using msg tx(2) cmplt lc(4)
      by (simp add: result_def brcmf_proto_bcdc_query_dcmd_def rid_def numeral_2_eq_2)
  qed
qed

definition sample_bcdc :: "u8 list list brcmf_bcdc" where
  "sample_bcdc = \<lparr>reqid = 4, msgbuf = replicate 8208 0, bus = []\<rparr>"

definition queue_rx :: "u8 list list rxctl" where
  "queue_rx n b = (case b of [] \<Rightarrow> (- 110, [], []) | f # fs \<Rightarrow> (int (length f), take n f, fs))"

lemma queue_rx_frames: "frame_rx (\<lambda>_. True) queue_rx id"
  by (auto simp: frame_rx_def queue_rx_def split: list.splits)

lemma sample_fits: "bcdc_fits sample_bcdc [9, 9] 2 3"
  by (simp add: bcdc_fits_def sample_bcdc_def)

definition reply_4 :: "u8 list" where
  "reply_4 = bcdc_header 262 2 4 3 False @ [1, 1]"

definition reply_5 :: "u8 list" where
  "reply_5 = bcdc_header 262 2 5 3 False @ [7, 8]"

lemma sample_ids: "frame_id reply_4 = 4" "frame_id reply_5 = 5" "length reply_4 = 18" "length reply_5 = 18" "reply_error reply_5 = 0"
  using header_flags_fields [of 3] by (simp_all add: frame_id_def reply_4_def reply_5_def header_fields reply_error_def)

lemma sample_number: "fold id_after [reply_4] 5 = 4" "fold id_after [reply_4, reply_5] 5 = 5" "id_after [0, 0, 0, 0] 5 = 5"
  by (simp_all add: id_after_def sample_ids)

text \<open>The memory after a short reply: the request, but for its first bytes.\<close>

lemma sample_short_memory:
  defines "m \<equiv> overlay 18 [0, 0, 0, 0] (message_of sample_bcdc 3 262 [9, 9] 2 False)"
  shows "reply_error m = 0" "take 2 (drop 16 m) = [9, 9]"
proof -
  have m: "drop 8 m = drop 8 (message_of sample_bcdc 3 262 [9, 9] 2 False)" by (simp add: m_def overlay_def)
  have "msg_flags (message_of sample_bcdc 3 262 [9, 9] 2 False) = header_flags 5 3 False"
    by (simp add: message_of_def sample_bcdc_def header_fields(3))
  with m have "msg_flags m = header_flags 5 3 False" by (simp only: msg_flags_def)
  then show "reply_error m = 0" using header_flags_fields(4) [of 3] by (simp add: reply_error_def)
  show "take 2 (drop 16 m) = [9, 9]" by (simp add: m_def overlay_def message_of_def)
qed

theorem bcdc_query_finds_reply_witness:
  "(\<exists>bcdc'. brcmf_proto_bcdc_query_dcmd (\<lambda>_ _. (0, [reply_4, reply_5])) queue_rx 3 262 (Some [9, 9]) 2 sample_bcdc =
     Some (0, 0, Some [7, 8], bcdc')) \<and>
   (\<exists>bcdc'. brcmf_proto_bcdc_query_dcmd (\<lambda>_ _. (0, [[0, 0, 0, 0], reply_5])) queue_rx 3 262 (Some [9, 9]) 2 sample_bcdc =
     Some (0, 0, Some [9, 9], bcdc')) \<and>
   (\<exists>e bcdc'. e < 0 \<and>
     brcmf_proto_bcdc_query_dcmd (\<lambda>_ _. (0, [reply_4])) queue_rx 3 262 (Some [9, 9]) 2 sample_bcdc = Some (e, 0, Some [9, 9], bcdc'))"
proof (intro conjI)
  have q: "ucast (reqid sample_bcdc + 1) = (5 :: u32)" by (simp add: sample_bcdc_def)
  note r = bcdc_query_finds_reply [OF sample_fits queue_rx_frames, of "\<lambda>_ _. (0, fs)" fs 262 for fs, unfolded q, simplified]
  show "\<exists>bcdc'. brcmf_proto_bcdc_query_dcmd (\<lambda>_ _. (0, [reply_4, reply_5])) queue_rx 3 262 (Some [9, 9]) 2 sample_bcdc =
     Some (0, 0, Some [7, 8], bcdc')"
    using r [of "[reply_4, reply_5]", THEN conjunct1, rule_format, of 1] sample_number by (simp add: sample_ids) (auto simp: reply_5_def)
  show "\<exists>bcdc'. brcmf_proto_bcdc_query_dcmd (\<lambda>_ _. (0, [[0, 0, 0, 0], reply_5])) queue_rx 3 262 (Some [9, 9]) 2 sample_bcdc =
     Some (0, 0, Some [9, 9], bcdc')"
    using r [of "[[0, 0, 0, 0], reply_5]", THEN conjunct1, rule_format, of 0] sample_number sample_short_memory
    by (auto simp: numeral_2_eq_2)
  show "\<exists>e bcdc'. e < 0 \<and>
     brcmf_proto_bcdc_query_dcmd (\<lambda>_ _. (0, [reply_4])) queue_rx 3 262 (Some [9, 9]) 2 sample_bcdc = Some (e, 0, Some [9, 9], bcdc')"
    using r [of "[reply_4]", THEN conjunct2] sample_number by auto
qed

subsection \<open>Headers of packets\<close>

lemma pushed_flags:
  "drop_bit 4 ((if partial then push_bit 4 BCDC_PROTO_VER OR BCDC_FLAG_SUM_NEEDED else push_bit 4 BCDC_PROTO_VER) AND BCDC_FLAG_VER_MASK) = BCDC_PROTO_VER"
  "(if partial then push_bit 4 BCDC_PROTO_VER OR BCDC_FLAG_SUM_NEEDED else push_bit 4 BCDC_PROTO_VER) AND BCDC_FLAG_SUM_GOOD = 0"
  by (cases partial; simp)+

lemma pushed_index: "idx < 16 \<Longrightarrow> unat (ucast ((0 AND NOT 0x0f) OR (of_nat idx :: u32)) AND BCDC_FLAG2_IF_MASK :: u8) = idx"
proof -
  assume i: "idx < 16"
  have "(ucast (of_nat idx :: u32) :: u8) = of_nat idx"
    by (rule unat_eqD) (use i in \<open>simp add: unsigned_ucast_eq unsigned_of_nat take_bit_nat_eq_self\<close>)
  moreover have "(of_nat idx :: u8) AND 0x0f = of_nat idx"
  proof -
    have "(0x0f :: u8) = mask 4" by (simp add: mask_eq_exp_minus_1)
    then have "(of_nat idx :: u8) AND 0x0f = take_bit 4 (of_nat idx)" by (simp add: take_bit_eq_mask)
    also have "\<dots> = of_nat (take_bit 4 idx)" by (rule take_bit_of_nat)
    also have "take_bit 4 idx = idx" by (rule take_bit_nat_eq_self) (use i in simp)
    finally show ?thesis .
  qed
  ultimately show ?thesis using i by (simp add: unsigned_of_nat take_bit_nat_eq_self)
qed

lemma push_then_pull:
  assumes "idx < 16" "brcmf_get_ifp s idx = Some ifp"
  shows "bcdc_hdrpull_plain p (brcmf_proto_bcdc_hdrpush (of_nat idx) offset partial p s) =
    (if skb_data (packets s p) = [] then (Inl EBADE, brcmf_proto_bcdc_hdrpush (of_nat idx) offset partial p s)
     else bcdc_not_empty ifp False p
       (skb_pull (unat offset * 4) p (upd_skb p (\<lambda>k. k\<lparr>skb_priority := skb_priority k AND BCDC_PRIORITY_MASK\<rparr>) s)))"
proof -
  let ?s = "brcmf_proto_bcdc_hdrpush (of_nat idx) offset partial p s"
  define fl where "fl = (if partial then push_bit 4 BCDC_PROTO_VER OR BCDC_FLAG_SUM_NEEDED else push_bit 4 BCDC_PROTO_VER)"
  define ix where "ix = (ucast ((0 AND NOT 0x0f) OR (of_nat idx :: u32)) :: u8)"
  have d: "skb_data (packets ?s p) = [fl, skb_priority (packets s p) AND BCDC_PRIORITY_MASK, ix, offset] @ skb_data (packets s p)"
    by (simp add: brcmf_proto_bcdc_hdrpush_def upd_skb_def fl_def ix_def Let_def)
  have i: "brcmf_get_ifp ?s (unat (ix AND BCDC_FLAG2_IF_MASK)) = Some ifp"
    using assms pushed_index [OF assms(1)] by (simp add: ix_def brcmf_get_ifp_def brcmf_proto_bcdc_hdrpush_def upd_skb_def Let_def)
  have f: "drop_bit 4 (fl AND BCDC_FLAG_VER_MASK) = BCDC_PROTO_VER" "fl AND BCDC_FLAG_SUM_GOOD = 0"
    unfolding fl_def by (rule pushed_flags)+
  have "skb_pull BCDC_HEADER_LEN p (upd_skb p (\<lambda>k. k\<lparr>skb_priority := (skb_priority (packets s p) AND BCDC_PRIORITY_MASK) AND BCDC_PRIORITY_MASK\<rparr>) ?s)
      = upd_skb p (\<lambda>k. k\<lparr>skb_priority := skb_priority k AND BCDC_PRIORITY_MASK\<rparr>) s"
    by (simp add: brcmf_proto_bcdc_hdrpush_def skb_pull_def upd_skb_def Let_def and.assoc)
  then show ?thesis
    using d i f by (simp add: bcdc_hdrpull_plain_def bcdc_header_pulled_def Let_def)
qed


lemma fws_hdrpush_ifaces: "brcmf_fws_hdrpush p s = Some (off, s') \<Longrightarrow> ifaces s' = ifaces s"
  by (auto simp: brcmf_fws_hdrpush_def Let_def upd_skb_def upd_desc_def split: Option.bind_splits)

text \<open>
  C17: The headers that the firmware signalling and the protocol put in front of a packet take no more
  room than the protocol asks for when it attaches, and pulling the header off again, as happens when
  the bus gives the packet back, names the interface it was sent on and leaves exactly the data the
  stack handed down.
\<close>

theorem tx_headers_come_off:
  assumes "skb_mac (packets s p) = Some i" "i < length (desc s)" "idx < 16" "brcmf_get_ifp s idx = Some ifp"
    and "skb_data (packets s p) \<noteq> []"
  shows "\<exists>off s1 s2. brcmf_fws_hdrpush p s = Some (off, s1)
    \<and> bcdc_hdrpull_plain p (brcmf_proto_bcdc_hdrpush (of_nat idx) off partial p s1) = (Inr (ifp, False), s2)
    \<and> skb_data (packets s2 p) = skb_data (packets s p)
    \<and> length (skb_data (packets (brcmf_proto_bcdc_hdrpush (of_nat idx) off partial p s1) p)) \<le> length (skb_data (packets s p)) + (BCDC_HEADER_LEN + 12)"
proof -
  obtain off hdr s1 where h: "brcmf_fws_hdrpush p s = Some (off, s1)" "skb_data (packets s1 p) = hdr @ skb_data (packets s p)"
    "length hdr = 4 * unat off" "length hdr \<in> {8, 12}"
    using hdrpush_layout [OF assms(1,2)] by blast
  have ifp: "brcmf_get_ifp s1 idx = Some ifp" using assms(3,4) fws_hdrpush_ifaces [OF h(1)] by (simp add: brcmf_get_ifp_def)
  let ?s2 = "skb_pull (unat off * 4) p (upd_skb p (\<lambda>k. k\<lparr>skb_priority := skb_priority k AND BCDC_PRIORITY_MASK\<rparr>) s1)"
  have data: "skb_data (packets ?s2 p) = skb_data (packets s p)"
    using h(2,3) by (simp add: skb_pull_def upd_skb_def)
  have "bcdc_hdrpull_plain p (brcmf_proto_bcdc_hdrpush (of_nat idx) off partial p s1) = (Inr (ifp, False), ?s2)"
    using push_then_pull [OF assms(3) ifp, of p off partial] h(2) assms(5) data by (simp add: bcdc_not_empty_def)
  moreover have "length (skb_data (packets (brcmf_proto_bcdc_hdrpush (of_nat idx) off partial p s1) p)) \<le> length (skb_data (packets s p)) + 16"
    using h(2,4) by (auto simp: brcmf_proto_bcdc_hdrpush_def upd_skb_def Let_def)
  ultimately show ?thesis using h(1) data by auto
qed

definition sample_ifp :: brcmf_if where
  "sample_ifp = \<lparr>ifidx = 2, has_ndev = True, mac_addr = [], netif_stop = 0, queue_stopped = False, fws_desc = None\<rparr>"

definition sample_tx :: brcmf_fws_info where
  "sample_tx = sample_fws\<lparr>ifaces := (\<lambda>_. Some sample_ifp)\<rparr>"

lemma sample_tx_facts:
  "skb_mac (packets sample_tx 0) = Some 3" "3 < length (desc sample_tx)" "skb_data (packets sample_tx 0) = [1, 2]"
  "brcmf_get_ifp sample_tx 2 = Some sample_ifp"
  by (simp_all add: sample_tx_def sample_fws_def zero_fws_def upd_desc_def brcmf_get_ifp_def Let_def)

theorem tx_headers_come_off_witness:
  "\<exists>off s1 s2. brcmf_fws_hdrpush 0 sample_tx = Some (off, s1) \<and> skb_data (packets s2 0) = [1, 2] \<and>
     snd (bcdc_hdrpull_plain 0 (brcmf_proto_bcdc_hdrpush 2 off False 0 s1)) = s2"
proof -
  obtain off s1 s2 where t: "brcmf_fws_hdrpush 0 sample_tx = Some (off, s1)"
    "bcdc_hdrpull_plain 0 (brcmf_proto_bcdc_hdrpush (of_nat 2) off False 0 s1) = (Inr (sample_ifp, False), s2)"
    "skb_data (packets s2 0) = skb_data (packets sample_tx 0)"
    using tx_headers_come_off [OF sample_tx_facts(1,2) _ sample_tx_facts(4), of False] sample_tx_facts(3) by auto
  then show ?thesis using sample_tx_facts(3) by (intro exI [of _ off] exI [of _ s1] exI [of _ s2]) simp
qed

text \<open>
  When the offset in the header points behind the end of a packet, nothing is pulled and no error
  is given: the packet is handed on with the signals in front of its data as if they were data.
\<close>

theorem bcdc_bad_offset_accepted:
  assumes "idx < 16" "brcmf_get_ifp s idx = Some ifp" "skb_data (packets s p) \<noteq> []"
    and "length (skb_data (packets s p)) < unat offset * 4"
  shows "\<exists>s'. bcdc_hdrpull_plain p (brcmf_proto_bcdc_hdrpush (of_nat idx) offset partial p s) = (Inr (ifp, False), s')
    \<and> skb_data (packets s' p) = skb_data (packets s p)"
  using push_then_pull [OF assms(1,2), of p offset partial] assms(3,4)
  by (simp add: bcdc_not_empty_def skb_pull_def upd_skb_def)

theorem bcdc_bad_offset_accepted_witness:
  "\<exists>s'. skb_data (packets s' 0) = [1, 2] \<and> snd (bcdc_hdrpull_plain 0 (brcmf_proto_bcdc_hdrpush 2 3 False 0 sample_tx)) = s'"
proof -
  obtain s' where "bcdc_hdrpull_plain 0 (brcmf_proto_bcdc_hdrpush (of_nat 2) 3 False 0 sample_tx) = (Inr (sample_ifp, False), s')"
    "skb_data (packets s' 0) = skb_data (packets sample_tx 0)"
    using bcdc_bad_offset_accepted [OF _ sample_tx_facts(4), of 0 3 False] sample_tx_facts(3) by auto
  then show ?thesis using sample_tx_facts(3) by (intro exI [of _ s']) simp
qed

end
