(* ===== verification/Iflist.thy ===== *)
theory Iflist
  imports Memory
begin

section \<open>The table of interfaces (brcmfmac/core.c)\<close>

text \<open>
  An interface of the driver stands for a configuration of the firmware. \<open>iflist\<close> has the interfaces
  by the number of the configuration, \<open>if2bss\<close> the number by the index that packets and events carry.
  Interfaces are allocated with their network device and freed with it, so that the table holds
  addresses, and \<open>ifs\<close> says what is allocated there.

  \<open>None\<close> is an access outside of a table, to an interface that was freed, or through a null pointer.
  The allocation and the registration of a network device are parameters; calls of the protocol
  and of the P2P part are kept in \<open>if_calls\<close>, in order. Timers, queues and locks are left out.

  Shown: whatever interfaces come and go, a lookup never gives one that was freed; adding one makes
  it the one packets of its index go to, and removing it stops that; a table entry that stays behind
  when an interface is replaced, and an interface without a network device that is replaced.
\<close>

subsection \<open>State\<close>

abbreviation (input) BRCMF_MAX_IFS :: nat where "BRCMF_MAX_IFS \<equiv> 16"
abbreviation (input) BRCMF_BSSIDX_INVALID :: int where "BRCMF_BSSIDX_INVALID \<equiv> - 1"
abbreviation (input) if_EINVAL :: int where "if_EINVAL \<equiv> - 22"
abbreviation (input) if_ENOMEM :: int where "if_ENOMEM \<equiv> - 12"
abbreviation (input) if_EBADE :: int where "if_EBADE \<equiv> - 52"

text \<open>\<open>ndev\<close> is the name of the network device, of an interface that has one.\<close>

record net_if =
  ndev :: "u8 list option"
  ni_ifidx :: int
  ni_bsscfgidx :: int
  ni_mac :: "u8 list"

datatype if_call = Proto_add_if nat | Proto_del_if nat | Proto_reset_if nat | P2p_ifp_removed nat

record if_table =
  iflist :: "nat option list"
  if2bss :: "int list"
  ifs :: "nat \<Rightarrow> net_if option"
  if_calls :: "if_call list"
  p2p_enable :: bool

definition idx_get :: "'b list \<Rightarrow> int \<Rightarrow> 'b option" where
  "idx_get xs i = (if 0 \<le> i \<and> nat i < length xs then Some (xs ! nat i) else None)"

definition idx_set :: "'b list \<Rightarrow> int \<Rightarrow> 'b \<Rightarrow> 'b list option" where
  "idx_set xs i v = (if 0 \<le> i \<and> nat i < length xs then Some (xs[nat i := v]) else None)"

definition iflist_set :: "'a if_table_scheme \<Rightarrow> int \<Rightarrow> nat option \<Rightarrow> 'a if_table_scheme option" where
  "iflist_set d b v = map_option (\<lambda>l. d\<lparr>iflist := l\<rparr>) (idx_set (iflist d) b v)"

subsection \<open>Operations\<close>

definition if_lookup :: "'a if_table_scheme \<Rightarrow> int \<Rightarrow> nat option option" where
  "if_lookup d i =
     (if i < 0 \<or> i \<ge> int BRCMF_MAX_IFS then Some None
      else do {
        b \<leftarrow> idx_get (if2bss d) i;
        if b \<ge> 0 then idx_get (iflist d) b else Some None
      })"

text \<open>The network device and the interface in it are freed, by the destructor or at once.\<close>

definition brcmf_net_detach :: "nat \<Rightarrow> 'a if_table_scheme \<Rightarrow> 'a if_table_scheme" where
  "brcmf_net_detach a d = d\<lparr>ifs := (ifs d)(a := None)\<rparr>"

definition brcmf_net_attach :: "(nat \<Rightarrow> bool) \<Rightarrow> nat \<Rightarrow> 'a if_table_scheme \<Rightarrow> (int \<times> 'a if_table_scheme) option" where
  "brcmf_net_attach registers a d = do {
     ifp \<leftarrow> ifs d a;
     _ \<leftarrow> ndev ifp;
     if registers a then Some (0, d)
     else do {
       d \<leftarrow> iflist_set d (ni_bsscfgidx ifp) None;
       Some (if_EBADE, d)
     }
   }"

definition if2bss_store :: "'a if_table_scheme \<Rightarrow> int \<Rightarrow> int \<Rightarrow> 'a if_table_scheme option" where
  "if2bss_store d idx b = do {
     old \<leftarrow> idx_get (if2bss d) idx;
     if old = BRCMF_BSSIDX_INVALID then map_option (\<lambda>l. d\<lparr>if2bss := l\<rparr>) (idx_set (if2bss d) idx b)
     else Some d
   }"

text \<open>The interface of that number that is there is deleted, or kept, when the index is 0; then \<open>None\<close>.\<close>

definition drop_existing :: "'a if_table_scheme \<Rightarrow> int \<Rightarrow> int \<Rightarrow> 'a if_table_scheme option option" where
  "drop_existing d b idx = do {
     old \<leftarrow> idx_get (iflist d) b;
     (case old of
        None \<Rightarrow> Some (Some d)
      | Some a \<Rightarrow>
          if idx \<noteq> 0 then do {
            ifp \<leftarrow> ifs d a;
            _ \<leftarrow> ndev ifp;
            d \<leftarrow> iflist_set (brcmf_net_detach a d) b None;
            Some (Some d)
          }
          else Some None)
   }"

text \<open>A result is \<open>Inl\<close> an error or \<open>Inr\<close> the address of the new interface.\<close>

definition brcmf_add_if ::
    "('a if_table_scheme \<Rightarrow> nat option) \<Rightarrow> int \<Rightarrow> int \<Rightarrow> bool \<Rightarrow> u8 list \<Rightarrow> u8 list option \<Rightarrow> 'a if_table_scheme
      \<Rightarrow> ((int + nat) \<times> 'a if_table_scheme) option" where
  "brcmf_add_if alloc b idx is_p2pdev name mac d = do {
     kept \<leftarrow> drop_existing d b idx;
     (case kept of
        None \<Rightarrow> Some (Inl if_EINVAL, d)
      | Some d \<Rightarrow>
          (case alloc d of
             None \<Rightarrow> Some (Inl if_ENOMEM, d)
           | Some a \<Rightarrow> do {
               let bare = (\<not> p2p_enable d \<and> is_p2pdev);
               d \<leftarrow> (if bare then Some d else if2bss_store d idx b);
               d \<leftarrow> iflist_set d b (Some a);
               let ifp = \<lparr>ndev = (if bare then None else Some (if is_p2pdev then chars ''p2p%d'' else name)),
                          ni_ifidx = idx, ni_bsscfgidx = b,
                          ni_mac = (case mac of None \<Rightarrow> replicate 6 0 | Some m \<Rightarrow> take 6 m)\<rparr>;
               Some (Inr a, d\<lparr>ifs := (ifs d)(a \<mapsto> ifp)\<rparr>)
             }))
   }"

definition brcmf_del_if :: "int \<Rightarrow> 'a if_table_scheme \<Rightarrow> 'a if_table_scheme option" where
  "brcmf_del_if b d = do {
     old \<leftarrow> idx_get (iflist d) b;
     (case old of
        None \<Rightarrow> Some d
      | Some a \<Rightarrow> do {
          ifp \<leftarrow> ifs d a;
          let d = (if ndev ifp \<noteq> None then brcmf_net_detach a d
                   else d\<lparr>if_calls := if_calls d @ [P2p_ifp_removed a], ifs := (ifs d)(a := None)\<rparr>);
          d \<leftarrow> iflist_set d b None;
          m \<leftarrow> idx_get (if2bss d) (ni_ifidx ifp);
          if m = b then map_option (\<lambda>l. d\<lparr>if2bss := l\<rparr>) (idx_set (if2bss d) (ni_ifidx ifp) BRCMF_BSSIDX_INVALID)
          else Some d
        })
   }"

definition brcmf_remove_interface :: "nat option \<Rightarrow> 'a if_table_scheme \<Rightarrow> 'a if_table_scheme option" where
  "brcmf_remove_interface p d =
     (case p of
        None \<Rightarrow> Some d
      | Some a \<Rightarrow> do {
          ifp \<leftarrow> ifs d a;
          listed \<leftarrow> idx_get (iflist d) (ni_bsscfgidx ifp);
          if listed \<noteq> Some a then Some d
          else brcmf_del_if (ni_bsscfgidx ifp) (d\<lparr>if_calls := if_calls d @ [Proto_del_if a]\<rparr>)
        })"

text \<open>All interfaces are removed when the driver goes, the primary one last (\<open>brcmf_detach\<close>).\<close>

fun remove_below :: "nat \<Rightarrow> 'a if_table_scheme \<Rightarrow> 'a if_table_scheme option" where
  "remove_below 0 d = Some d"
| "remove_below (Suc i) d = do {
     p \<leftarrow> idx_get (iflist d) (int i);
     d \<leftarrow> (case p of None \<Rightarrow> Some d | Some a \<Rightarrow> brcmf_remove_interface (Some a) d);
     remove_below i d
   }"

definition remove_all_interfaces :: "'a if_table_scheme \<Rightarrow> 'a if_table_scheme option" where
  "remove_all_interfaces d = remove_below BRCMF_MAX_IFS d"

subsection \<open>Well-formed tables\<close>

definition fresh_if_table :: "bool \<Rightarrow> if_table" where
  "fresh_if_table p2p = \<lparr>iflist = replicate BRCMF_MAX_IFS None, if2bss = replicate BRCMF_MAX_IFS BRCMF_BSSIDX_INVALID,
     ifs = (\<lambda>_. None), if_calls = [], p2p_enable = p2p\<rparr>"

text \<open>An interface of the table is allocated and knows its place, with an index in range.\<close>

definition if_at :: "nat \<Rightarrow> net_if option \<Rightarrow> bool" where
  "if_at b p = (case p of None \<Rightarrow> False | Some n \<Rightarrow> ni_bsscfgidx n = int b \<and> 0 \<le> ni_ifidx n \<and> ni_ifidx n < 16)"

definition listed_ok :: "(nat \<Rightarrow> net_if option) \<Rightarrow> nat \<Rightarrow> nat option \<Rightarrow> bool" where
  "listed_ok f b p = (case p of None \<Rightarrow> True | Some a \<Rightarrow> if_at b (f a))"

definition if_table_wf :: "'a if_table_scheme \<Rightarrow> bool" where
  "if_table_wf d \<longleftrightarrow> length (iflist d) = BRCMF_MAX_IFS \<and> length (if2bss d) = BRCMF_MAX_IFS
     \<and> (\<forall>b<BRCMF_MAX_IFS. listed_ok (ifs d) b (iflist d ! b))
     \<and> (\<forall>i<BRCMF_MAX_IFS. - 1 \<le> if2bss d ! i \<and> if2bss d ! i < 16)"

lemma idx_get_Some [simp]: "0 \<le> i \<Longrightarrow> i < int (length xs) \<Longrightarrow> idx_get xs i = Some (xs ! nat i)"
  by (simp add: idx_get_def)

lemma idx_set_Some [simp]: "0 \<le> i \<Longrightarrow> i < int (length xs) \<Longrightarrow> idx_set xs i v = Some (xs[nat i := v])"
  by (simp add: idx_set_def)

lemma listed_ok_simps [simp]:
  "listed_ok f b None" "listed_ok f b (Some a) = if_at b (f a)" "\<not> if_at b None"
  "if_at b (Some n) = (ni_bsscfgidx n = int b \<and> 0 \<le> ni_ifidx n \<and> ni_ifidx n < 16)"
  by (simp_all add: listed_ok_def if_at_def)

lemma if_table_wfD:
  assumes "if_table_wf d"
  shows "length (iflist d) = 16" "length (if2bss d) = 16"
    and "b < 16 \<Longrightarrow> listed_ok (ifs d) b (iflist d ! b)"
    and "i < 16 \<Longrightarrow> - 1 \<le> if2bss d ! i" "i < 16 \<Longrightarrow> if2bss d ! i < 16"
  using assms by (simp_all add: if_table_wf_def)

lemma listed_okD:
  assumes "if_table_wf d" "b < 16" "iflist d ! b = Some a"
  obtains n where "ifs d a = Some n" "ni_bsscfgidx n = int b" "0 \<le> ni_ifidx n" "ni_ifidx n < 16"
  using if_table_wfD(3) [OF assms(1,2)] assms(3) by (cases "ifs d a") auto

lemma listed_ifp:
  assumes "if_table_wf d" "b < 16" "iflist d ! b = Some a" "ifs d a = Some n"
  shows "ni_bsscfgidx n = int b" "0 \<le> ni_ifidx n" "ni_ifidx n < 16" "nat (ni_ifidx n) < 16"
  using if_table_wfD(3) [OF assms(1,2)] assms(3,4) by (simp_all add: nat_less_iff)

text \<open>An address is listed once, at the number of its interface.\<close>

lemma listed_once:
  assumes "if_table_wf d" "b < 16" "c < 16" "iflist d ! b = Some a" "iflist d ! c = Some a"
  shows "b = c"
  using listed_okD [OF assms(1,2,4)] listed_okD [OF assms(1,3,5)] by (metis nat_int option.inject)

lemma if_table_wf_calls [simp]: "if_table_wf (d\<lparr>if_calls := c\<rparr>) = if_table_wf d"
  by (simp add: if_table_wf_def)

lemma if_table_wf_if2bss:
  assumes "if_table_wf d" "- 1 \<le> v" "v < 16" "i < 16"
  shows "if_table_wf (d\<lparr>if2bss := (if2bss d)[i := v]\<rparr>)"
  using assms by (simp add: if_table_wf_def nth_list_update)

text \<open>An interface is unlisted and freed, or listed.\<close>

lemma if_table_wf_unlist:
  assumes "if_table_wf d" "b < 16"
  shows "if_table_wf (d\<lparr>iflist := (iflist d)[b := None]\<rparr>)"
  using assms by (simp add: if_table_wf_def nth_list_update)

lemma if_table_wf_freed:
  assumes "if_table_wf d" "b < 16" "iflist d ! b = Some a"
  shows "if_table_wf (d\<lparr>ifs := (ifs d)(a := None), iflist := (iflist d)[b := None]\<rparr>)"
proof -
  have "listed_ok ((ifs d)(a := None)) c ((iflist d)[b := None] ! c)" if "c < 16" for c
  proof (cases "c = b")
    case False
    have "iflist d ! c \<noteq> Some a" using listed_once [OF assms(1) that assms(2)] assms(3) False by auto
    then show ?thesis using if_table_wfD(3) [OF assms(1) that] False by (cases "iflist d ! c") auto
  qed (use if_table_wfD(1) [OF assms(1)] assms(2) in simp)
  then show ?thesis using assms(1) by (simp add: if_table_wf_def)
qed

lemma if_table_wf_listed:
  assumes "if_table_wf d" "ifs d a = None" "b < 16" "if_at b (Some n)"
  shows "if_table_wf (d\<lparr>iflist := (iflist d)[b := Some a], ifs := (ifs d)(a \<mapsto> n)\<rparr>)"
proof -
  have "listed_ok ((ifs d)(a \<mapsto> n)) c ((iflist d)[b := Some a] ! c)" if "c < 16" for c
  proof (cases "c = b")
    case False
    have "iflist d ! c \<noteq> Some a" using if_table_wfD(3) [OF assms(1) that] assms(2) by auto
    then show ?thesis using if_table_wfD(3) [OF assms(1) that] False by (cases "iflist d ! c") auto
  qed (use if_table_wfD(1) [OF assms(1)] assms(3,4) in simp)
  then show ?thesis using assms(1) by (simp add: if_table_wf_def)
qed

subsection \<open>What the operations do\<close>

lemma lookup_wf:
  assumes "if_table_wf d"
  shows "if_lookup d i = Some (if 0 \<le> i \<and> i < 16 \<and> if2bss d ! nat i \<ge> 0 then iflist d ! nat (if2bss d ! nat i) else None)"
proof (cases "0 \<le> i \<and> i < 16")
  case True
  then have "nat i < 16" by (simp add: nat_less_iff)
  then have "if2bss d ! nat i < 16" by (rule if_table_wfD(5) [OF assms])
  then show ?thesis using True if_table_wfD(1,2) [OF assms] by (simp add: if_lookup_def)
qed (auto simp: if_lookup_def)

definition if2bss_stored :: "'a if_table_scheme \<Rightarrow> int \<Rightarrow> int \<Rightarrow> int list" where
  "if2bss_stored d idx b = (if if2bss d ! nat idx = - 1 then (if2bss d)[nat idx := b] else if2bss d)"

lemma if2bss_store_wf:
  assumes "if_table_wf d" "0 \<le> idx" "idx < 16" "0 \<le> b" "b < 16"
  shows "if2bss_store d idx b = Some (d\<lparr>if2bss := if2bss_stored d idx b\<rparr>)"
    and "if_table_wf (d\<lparr>if2bss := if2bss_stored d idx b\<rparr>)"
  using assms if_table_wfD(2) [OF assms(1)] if_table_wf_if2bss [OF assms(1), of b "nat idx"]
  by (simp_all add: if2bss_store_def if2bss_stored_def)

lemma net_attach_wf:
  assumes "if_table_wf d" "b < 16" "iflist d ! b = Some a" "ifs d a = Some n" "ndev n \<noteq> None"
  shows "brcmf_net_attach registers a d =
      Some (if registers a then (0, d) else (if_EBADE, d\<lparr>iflist := (iflist d)[b := None]\<rparr>))"
proof -
  show ?thesis using assms(2,4,5) listed_ifp(1) [OF assms(1-4)] if_table_wfD(1) [OF assms(1)] by (auto simp: brcmf_net_attach_def iflist_set_def)
qed

text \<open>The interface at \<open>b\<close> is freed; packets of its index go nowhere, if they went to it.\<close>

definition if_deleted :: "'a if_table_scheme \<Rightarrow> nat \<Rightarrow> nat \<Rightarrow> net_if \<Rightarrow> if_call list \<Rightarrow> 'a if_table_scheme" where
  "if_deleted d b a n cs = d\<lparr>ifs := (ifs d)(a := None), iflist := (iflist d)[b := None],
     if2bss := (if if2bss d ! nat (ni_ifidx n) = int b then (if2bss d)[nat (ni_ifidx n) := - 1] else if2bss d),
     if_calls := if_calls d @ cs\<rparr>"

lemma if_deleted_wf:
  assumes "if_table_wf d" "b < 16" "iflist d ! b = Some a" "ifs d a = Some n"
  shows "if_table_wf (if_deleted d b a n cs)"
proof -
  let ?i = "nat (ni_ifidx n)" and ?d = "d\<lparr>ifs := (ifs d)(a := None), iflist := (iflist d)[b := None]\<rparr>"
  have i: "?i < 16" by (rule listed_ifp(4) [OF assms])
  have wf: "if_table_wf ?d" by (rule if_table_wf_freed [OF assms(1-3)])
  have "if_table_wf (?d\<lparr>if2bss := (if2bss ?d)[?i := - 1]\<rparr>)" by (rule if_table_wf_if2bss [OF wf _ _ i]) simp_all
  then have "if_table_wf (?d\<lparr>if2bss := if if2bss d ! ?i = int b then (if2bss d)[?i := - 1] else if2bss d\<rparr>)" using wf by simp
  then show ?thesis unfolding if_deleted_def if_table_wf_calls .
qed

lemma remove_wf:
  assumes "if_table_wf d" "b < 16" "iflist d ! b = Some a" "ifs d a = Some n"
  shows "brcmf_remove_interface (Some a) d =
    Some (if_deleted d b a n (Proto_del_if a # (if ndev n = None then [P2p_ifp_removed a] else [])))"
proof -
  show ?thesis using assms(2-4) listed_ifp [OF assms] if_table_wfD(1,2) [OF assms(1)]
    by (auto simp: brcmf_remove_interface_def brcmf_del_if_def brcmf_net_detach_def iflist_set_def if_deleted_def)
qed

text \<open>What an allocator does: it gives memory that is not in use.\<close>

definition allocates :: "('a if_table_scheme \<Rightarrow> nat option) \<Rightarrow> bool" where
  "allocates alloc \<longleftrightarrow> (\<forall>d a. alloc d = Some a \<longrightarrow> ifs d a = None)"

lemma drop_existing_wf:
  assumes "if_table_wf d" "0 \<le> b" "b < 16"
  shows "drop_existing d b idx =
    (case iflist d ! nat b of
       None \<Rightarrow> Some (Some d)
     | Some a \<Rightarrow> if idx = 0 then Some None
         else if ndev (the (ifs d a)) = None then None
         else Some (Some (d\<lparr>ifs := (ifs d)(a := None), iflist := (iflist d)[nat b := None]\<rparr>)))"
proof -
  have b: "nat b < 16" using assms(3) by (simp add: nat_less_iff)
  show ?thesis
  proof (cases "iflist d ! nat b")
    case (Some a)
    then obtain n where "ifs d a = Some n" using listed_okD [OF assms(1) b] by blast
    then show ?thesis using Some assms(2,3) if_table_wfD(1) [OF assms(1)]
      by (cases "ndev n") (auto simp: drop_existing_def brcmf_net_detach_def iflist_set_def)
  qed (use assms(2,3) if_table_wfD(1) [OF assms(1)] in \<open>simp add: drop_existing_def\<close>)
qed

lemma drop_existing_keeps_wf:
  assumes "if_table_wf d" "0 \<le> b" "b < 16" "drop_existing d b idx = Some (Some d')"
  shows "if_table_wf d'" "if2bss d' = if2bss d" "p2p_enable d' = p2p_enable d" "iflist d' = (iflist d)[nat b := None]"
proof -
  have b: "nat b < 16" using assms(3) by (simp add: nat_less_iff)
  have id: "iflist d ! nat b = None \<Longrightarrow> (iflist d)[nat b := None] = iflist d" by (metis list_update_id)
  have "if_table_wf d' \<and> if2bss d' = if2bss d \<and> p2p_enable d' = p2p_enable d \<and> iflist d' = (iflist d)[nat b := None]"
    using assms(4) if_table_wf_freed [OF assms(1) b] assms(1) id
    unfolding drop_existing_wf [OF assms(1-3)] by (auto split: option.splits if_splits)
  then show "if_table_wf d'" "if2bss d' = if2bss d" "p2p_enable d' = p2p_enable d" "iflist d' = (iflist d)[nat b := None]" by auto
qed

definition new_if :: "bool \<Rightarrow> bool \<Rightarrow> int \<Rightarrow> int \<Rightarrow> u8 list \<Rightarrow> u8 list option \<Rightarrow> net_if" where
  "new_if p2p dev b idx name mac = \<lparr>ndev = (if \<not> p2p \<and> dev then None else Some (if dev then chars ''p2p%d'' else name)),
     ni_ifidx = idx, ni_bsscfgidx = b, ni_mac = (case mac of None \<Rightarrow> replicate 6 0 | Some m \<Rightarrow> take 6 m)\<rparr>"

text \<open>The table with the interface \<open>a\<close> added where none was.\<close>

definition if_added :: "'a if_table_scheme \<Rightarrow> nat \<Rightarrow> int \<Rightarrow> int \<Rightarrow> bool \<Rightarrow> u8 list \<Rightarrow> u8 list option \<Rightarrow> 'a if_table_scheme" where
  "if_added d a b idx dev name mac = d\<lparr>if2bss := (if \<not> p2p_enable d \<and> dev then if2bss d else if2bss_stored d idx b),
     iflist := (iflist d)[nat b := Some a], ifs := (ifs d)(a \<mapsto> new_if (p2p_enable d) dev b idx name mac)\<rparr>"

lemma if_added_wf:
  assumes "if_table_wf d" "0 \<le> b" "b < 16" "0 \<le> idx" "idx < 16" "ifs d a = None"
  shows "if_table_wf (if_added d a b idx dev name mac)"
proof -
  let ?d = "d\<lparr>if2bss := if \<not> p2p_enable d \<and> dev then if2bss d else if2bss_stored d idx b\<rparr>"
  have wf: "if_table_wf ?d" using if2bss_store_wf(2) [OF assms(1,4,5,2,3)] assms(1) by simp
  have n: "if_at (nat b) (Some (new_if (p2p_enable d) dev b idx name mac))" using assms(2,4,5) by (simp add: new_if_def)
  have b: "nat b < 16" using assms(3) by (simp add: nat_less_iff)
  show ?thesis using if_table_wf_listed [OF wf _ b n, of a] assms(6) by (simp add: if_added_def)
qed

text \<open>All outcomes of adding an interface.\<close>

lemma add_if_eq:
  assumes "if_table_wf d" "0 \<le> b" "b < 16" "0 \<le> idx" "idx < 16"
  shows "brcmf_add_if alloc b idx dev name mac d =
    (case drop_existing d b idx of
       None \<Rightarrow> None
     | Some None \<Rightarrow> Some (Inl if_EINVAL, d)
     | Some (Some d1) \<Rightarrow>
         (case alloc d1 of None \<Rightarrow> Some (Inl if_ENOMEM, d1) | Some a \<Rightarrow> Some (Inr a, if_added d1 a b idx dev name mac)))"
proof (cases "drop_existing d b idx")
  case (Some k)
  show ?thesis
  proof (cases k)
    case (Some d1)
    note kept = drop_existing_keeps_wf [OF assms(1-3) \<open>drop_existing d b idx = Some k\<close> [unfolded Some]]
    note st = if2bss_store_wf(1) [OF kept(1) assms(4,5,2,3)]
    show ?thesis using \<open>drop_existing d b idx = Some k\<close> Some st assms(2,3) if_table_wfD(1) [OF kept(1)]
      by (cases "alloc d1") (simp_all add: brcmf_add_if_def iflist_set_def if_added_def new_if_def Let_def)
  qed (use Some in \<open>simp add: brcmf_add_if_def\<close>)
qed (simp add: brcmf_add_if_def)

lemma add_if_keeps_wf:
  assumes "if_table_wf d" "0 \<le> b" "b < 16" "0 \<le> idx" "idx < 16" "allocates alloc"
    "brcmf_add_if alloc b idx dev name mac d = Some (r, d')"
  shows "if_table_wf d'"
proof -
  have "if_table_wf (if_added d1 a b idx dev name mac)" if "drop_existing d b idx = Some (Some d1)" "alloc d1 = Some a" for d1 a
    using if_added_wf [OF drop_existing_keeps_wf(1) [OF assms(1-3) that(1)] assms(2-5)] assms(6) that(2) by (simp add: allocates_def)
  then show ?thesis
    using assms(1,7) drop_existing_keeps_wf(1) [OF assms(1-3)] unfolding add_if_eq [OF assms(1-5)] by (auto split: option.splits)
qed

subsection \<open>Histories\<close>

lemma remove_below_wf:
  assumes "if_table_wf d" "k \<le> 16"
  shows "\<exists>d'. remove_below k d = Some d' \<and> if_table_wf d' \<and> (\<forall>b<k. iflist d' ! b = None)
    \<and> (\<forall>b<16. k \<le> b \<longrightarrow> iflist d' ! b = iflist d ! b)
    \<and> (\<forall>a. ifs d' a = (if \<exists>b<k. iflist d ! b = Some a then None else ifs d a))"
  using assms
proof (induction k arbitrary: d)
  case (Suc k)
  have k: "k < 16" and len: "length (iflist d) = 16" using Suc.prems if_table_wfD(1) by auto
  show ?case
  proof (cases "iflist d ! k")
    case None
    then have "remove_below (Suc k) d = remove_below k d" using k len by simp
    moreover obtain d' where "remove_below k d = Some d'" "if_table_wf d'" "\<forall>b<k. iflist d' ! b = None"
        "\<forall>b<16. k \<le> b \<longrightarrow> iflist d' ! b = iflist d ! b" "\<forall>a. ifs d' a = (if \<exists>b<k. iflist d ! b = Some a then None else ifs d a)"
      using Suc.IH [OF Suc.prems(1)] k by auto
    ultimately show ?thesis using None k by (auto simp: less_Suc_eq)
  next
    case (Some a)
    then obtain n where n: "ifs d a = Some n" using listed_okD [OF Suc.prems(1) k] by blast
    let ?d = "if_deleted d k a n (Proto_del_if a # (if ndev n = None then [P2p_ifp_removed a] else []))"
    have wf: "if_table_wf ?d" by (rule if_deleted_wf [OF Suc.prems(1) k Some n])
    have "remove_below (Suc k) d = remove_below k ?d"
      using k len Some remove_wf [OF Suc.prems(1) k Some n] by simp
    moreover obtain d' where "remove_below k ?d = Some d'" "if_table_wf d'" "\<forall>b<k. iflist d' ! b = None"
        "\<forall>b<16. k \<le> b \<longrightarrow> iflist d' ! b = iflist ?d ! b" "\<forall>a. ifs d' a = (if \<exists>b<k. iflist ?d ! b = Some a then None else ifs ?d a)"
      using Suc.IH [OF wf less_imp_le [OF k]] by blast
    ultimately show ?thesis using Some k len by (auto simp: less_Suc_eq if_deleted_def nth_list_update)
  qed
qed simp

text \<open>
  What can happen to the table: interfaces are added for numbers and indices in range, attached, with
  either outcome, and removed.
\<close>

inductive if_reach :: "(if_table \<Rightarrow> nat option) \<Rightarrow> bool \<Rightarrow> if_table \<Rightarrow> bool" for alloc p2p where
  Fresh: "if_reach alloc p2p (fresh_if_table p2p)"
| Add: "if_reach alloc p2p d \<Longrightarrow> 0 \<le> b \<Longrightarrow> b < 16 \<Longrightarrow> 0 \<le> idx \<Longrightarrow> idx < 16 \<Longrightarrow>
    brcmf_add_if alloc b idx dev name mac d = Some (r, d') \<Longrightarrow> if_reach alloc p2p d'"
| Attach: "if_reach alloc p2p d \<Longrightarrow> Some a \<in> set (iflist d) \<Longrightarrow> brcmf_net_attach registers a d = Some (e, d') \<Longrightarrow> if_reach alloc p2p d'"
| Remove: "if_reach alloc p2p d \<Longrightarrow> p \<in> set (iflist d) \<Longrightarrow> brcmf_remove_interface p d = Some d' \<Longrightarrow> if_reach alloc p2p d'"

lemma fresh_if_table_wf: "if_table_wf (fresh_if_table p2p)"
  by (simp add: fresh_if_table_def if_table_wf_def)

lemma if_reach_wf:
  assumes "if_reach alloc p2p d" "allocates alloc"
  shows "if_table_wf d"
  using assms(1)
proof induction
  case Fresh
  show ?case by (rule fresh_if_table_wf)
next
  case (Add d b idx dev name mac r d')
  then show ?case using add_if_keeps_wf assms(2) by blast
next
  case (Attach d a registers e d')
  obtain b where b: "b < 16" "iflist d ! b = Some a"
    using Attach.hyps(2) if_table_wfD(1) [OF Attach.IH] by (metis in_set_conv_nth)
  obtain n where n: "ifs d a = Some n" using listed_okD [OF Attach.IH b] by blast
  show ?case
  proof (cases "ndev n")
    case (Some x)
    then show ?thesis
      using Attach.hyps(3) net_attach_wf [OF Attach.IH b n, of registers] if_table_wf_unlist [OF Attach.IH b(1)] Attach.IH
      by (auto split: if_splits)
  qed (use Attach.hyps(3) n in \<open>simp add: brcmf_net_attach_def\<close>)
next
  case (Remove d p d')
  show ?case
  proof (cases p)
    case (Some a)
    obtain b where b: "b < 16" "iflist d ! b = Some a"
      using Remove.hyps(2) Some if_table_wfD(1) [OF Remove.IH] by (metis in_set_conv_nth)
    obtain n where "ifs d a = Some n" using listed_okD [OF Remove.IH b] by blast
    then show ?thesis using Remove.hyps(3) Some remove_wf [OF Remove.IH b] if_deleted_wf [OF Remove.IH b] by auto
  qed (use Remove in \<open>simp add: brcmf_remove_interface_def\<close>)
qed

subsection \<open>Properties\<close>

text \<open>
  C14: Whatever interfaces were added, attached and removed, a lookup by any index, also one out of
  range, stays inside the tables and gives either no interface or one that is still allocated, under
  the number that the index stands for. At the end all interfaces can be removed: then none that was
  listed is allocated any more, and every lookup gives none.
\<close>

theorem interfaces_never_dangle:
  assumes "if_reach alloc p2p d" "allocates alloc"
  shows "(\<forall>i. \<exists>p. if_lookup d i = Some p \<and>
      (\<forall>a. p = Some a \<longrightarrow> (\<exists>n. ifs d a = Some n \<and> ni_bsscfgidx n = if2bss d ! nat i)))
    \<and> (\<exists>d'. remove_all_interfaces d = Some d' \<and> (\<forall>a. Some a \<in> set (iflist d) \<longrightarrow> ifs d' a = None) \<and> (\<forall>j. if_lookup d' j = Some None))"
proof -
  have wf: "if_table_wf d" by (rule if_reach_wf [OF assms])
  have "\<exists>n. ifs d a = Some n \<and> ni_bsscfgidx n = if2bss d ! nat i"
    if a: "if_lookup d i = Some (Some a)" for a i
  proof -
    from a have i: "0 \<le> i" "i < 16" "0 \<le> if2bss d ! nat i" and listed: "iflist d ! nat (if2bss d ! nat i) = Some a"
      unfolding lookup_wf [OF wf] by (auto split: if_splits)
    then have "if2bss d ! nat i < 16" using if_table_wfD(5) [OF wf, of "nat i"] by (simp add: nat_less_iff)
    then show ?thesis using listed_okD [OF wf _ listed] i(3) by (auto simp: nat_less_iff)
  qed
  then have lookups: "\<forall>i. \<exists>p. if_lookup d i = Some p \<and> (\<forall>a. p = Some a \<longrightarrow> (\<exists>n. ifs d a = Some n \<and> ni_bsscfgidx n = if2bss d ! nat i))"
    using lookup_wf [OF wf] by metis
  obtain d' where d': "remove_below 16 d = Some d'" "if_table_wf d'" "\<forall>b<16. iflist d' ! b = None"
      "\<forall>a. ifs d' a = (if \<exists>b<16. iflist d ! b = Some a then None else ifs d a)"
    using remove_below_wf [OF wf, of 16] by auto
  moreover have "if_lookup d' j = Some None" for j
    using lookup_wf [OF d'(2), of j] d'(3) if_table_wfD(5) [OF d'(2), of "nat j"] by (auto simp: nat_less_iff)
  moreover have "ifs d' a = None" if "Some a \<in> set (iflist d)" for a
    using d'(4) that if_table_wfD(1) [OF wf] by (auto simp: in_set_conv_nth)
  ultimately show ?thesis using lookups unfolding remove_all_interfaces_def by blast
qed

text \<open>An allocator that has four interfaces, and a table with two of them.\<close>

definition sample_alloc :: "'a if_table_scheme \<Rightarrow> nat option" where
  "sample_alloc d = find (\<lambda>a. ifs d a = None) [100, 101, 102, 103]"

lemma sample_allocates: "allocates sample_alloc"
  by (auto simp: allocates_def sample_alloc_def find_Some_iff)

definition sample_added :: "int \<Rightarrow> int \<Rightarrow> if_table \<Rightarrow> if_table" where
  "sample_added b idx d = snd (the (brcmf_add_if sample_alloc b idx False [] None d))"

definition sample_if_table :: if_table where
  "sample_if_table = sample_added 2 1 (sample_added 0 0 (fresh_if_table False))"

lemma sample_added:
  "map_option fst (brcmf_add_if sample_alloc b idx False [] None d) = Some r \<Longrightarrow>
    brcmf_add_if sample_alloc b idx False [] None d = Some (r, sample_added b idx d)"
  by (auto simp: sample_added_def)

lemma sample_adds:
  "map_option fst (brcmf_add_if sample_alloc 0 0 False [] None (fresh_if_table False)) = Some (Inr 100)"
  "map_option fst (brcmf_add_if sample_alloc 2 1 False [] None (sample_added 0 0 (fresh_if_table False))) = Some (Inr 101)"
  by code_simp+

lemma sample_if_table_reach: "if_reach sample_alloc False sample_if_table"
  unfolding sample_if_table_def
  by (rule if_reach.Add [OF if_reach.Add [OF if_reach.Fresh _ _ _ _ sample_added [OF sample_adds(1)]]
      _ _ _ _ sample_added [OF sample_adds(2)]]) simp_all

theorem interfaces_never_dangle_witness:
  "(\<forall>i. \<exists>p. if_lookup sample_if_table i = Some p \<and>
      (\<forall>a. p = Some a \<longrightarrow> (\<exists>n. ifs sample_if_table a = Some n \<and> ni_bsscfgidx n = if2bss sample_if_table ! nat i)))
   \<and> (\<exists>d'. remove_all_interfaces sample_if_table = Some d' \<and>
       (\<forall>a. Some a \<in> set (iflist sample_if_table) \<longrightarrow> ifs d' a = None) \<and> (\<forall>j. if_lookup d' j = Some None))"
  by (rule interfaces_never_dangle [OF sample_if_table_reach sample_allocates])

text \<open>Adding where there is none, with a device.\<close>

lemma add_if_new:
  assumes "if_table_wf d" "0 \<le> b" "b < 16" "0 \<le> idx" "idx < 16" "iflist d ! nat b = None" "alloc d = Some a"
  shows "brcmf_add_if alloc b idx dev name mac d = Some (Inr a, if_added d a b idx dev name mac)"
  using assms(6,7) by (simp add: add_if_eq [OF assms(1-5)] drop_existing_wf [OF assms(1-3)])

lemma if_added_lookup:
  assumes "if_table_wf d" "0 \<le> b" "b < 16" "0 \<le> idx" "idx < 16" "ifs d a = None" "p2p_enable d \<or> \<not> dev"
  shows "if_lookup (if_added d a b idx dev name mac) i =
    (if 0 \<le> i \<and> i < 16 \<and> if2bss_stored d idx b ! nat i = b then Some (Some a)
     else if i = idx \<and> if2bss d ! nat idx = - 1 then Some (Some a) else if_lookup d i)"
proof -
  have n: "nat b < 16" "nat idx < 16" using assms(3,5) by (simp_all add: nat_less_iff)
  show ?thesis
    using assms(2-7) n if_table_wfD(1,2) [OF assms(1)]
    unfolding lookup_wf [OF if_added_wf [OF assms(1-6)]] lookup_wf [OF assms(1)]
    by (auto simp: if_added_def if2bss_stored_def nth_list_update nat_eq_iff)
qed

text \<open>
  An interface added with a device, for a number that no interface has and no index stands for, and
  for an index that is free, becomes the one that packets of its index go to, and no other index is
  touched. Removing it undoes this: every lookup is as before, and the interface is freed.
\<close>

theorem interface_added_and_removed:
  assumes "if_table_wf d" "0 \<le> b" "b < 16" "0 \<le> idx" "idx < 16" "iflist d ! nat b = None" "b \<notin> set (if2bss d)"
    "if2bss d ! nat idx = - 1" "p2p_enable d \<or> \<not> dev" "alloc d = Some a" "ifs d a = None"
  shows "\<exists>d1 d2. brcmf_add_if alloc b idx dev name mac d = Some (Inr a, d1)
    \<and> (\<forall>i. if_lookup d1 i = (if i = idx then Some (Some a) else if_lookup d i))
    \<and> brcmf_remove_interface (Some a) d1 = Some d2 \<and> (\<forall>i. if_lookup d2 i = if_lookup d i) \<and> ifs d2 a = None"
proof -
  let ?d1 = "if_added d a b idx dev name mac" and ?n = "new_if (p2p_enable d) dev b idx name mac"
  have n: "nat b < 16" "nat idx < 16" using assms(3,5) by (simp_all add: nat_less_iff)
  have other: "if2bss d ! nat i \<noteq> b" if "0 \<le> i" "i < 16" for i
    using assms(7) that if_table_wfD(2) [OF assms(1)] nth_mem [of "nat i" "if2bss d"] by (auto simp: nat_less_iff)
  have wf1: "if_table_wf ?d1" by (rule if_added_wf [OF assms(1-5,11)])
  have "if_lookup ?d1 i = (if i = idx then Some (Some a) else if_lookup d i)" for i
    using if_added_lookup [OF assms(1-5,11,9), of name mac i] other [of i] assms(4,5,8) n if_table_wfD(2) [OF assms(1)]
    by (auto simp: if2bss_stored_def nth_list_update nat_eq_iff)
  moreover have listed: "iflist ?d1 ! nat b = Some a" "ifs ?d1 a = Some ?n"
    using n if_table_wfD(1) [OF assms(1)] by (simp_all add: if_added_def)
  obtain cs where rm: "brcmf_remove_interface (Some a) ?d1 = Some (if_deleted ?d1 (nat b) a ?n cs)"
    using remove_wf [OF wf1 n(1) listed] by blast
  have "if_lookup (if_deleted ?d1 (nat b) a ?n cs) i = if_lookup d i" for i
    unfolding lookup_wf [OF if_deleted_wf [OF wf1 n(1) listed]] lookup_wf [OF assms(1)]
    using assms(2,4,6,8,9) n other [of i] if_table_wfD(1,2) [OF assms(1)]
    by (auto simp: if_deleted_def if_added_def new_if_def if2bss_stored_def nth_list_update nat_eq_iff)
  moreover have "ifs (if_deleted ?d1 (nat b) a ?n cs) a = None" by (simp add: if_deleted_def)
  ultimately show ?thesis using rm add_if_new [where alloc = alloc, OF assms(1-6,10)] by blast
qed

theorem interface_added_and_removed_witness:
  "\<exists>d1 d2. brcmf_add_if sample_alloc 5 3 False [] None sample_if_table = Some (Inr 102, d1)
    \<and> (\<forall>i. if_lookup d1 i = (if i = 3 then Some (Some 102) else if_lookup sample_if_table i))
    \<and> brcmf_remove_interface (Some 102) d1 = Some d2 \<and> (\<forall>i. if_lookup d2 i = if_lookup sample_if_table i) \<and> ifs d2 102 = None"
proof (rule interface_added_and_removed)
  show "if_table_wf sample_if_table" by (rule if_reach_wf [OF sample_if_table_reach sample_allocates])
  show "iflist sample_if_table ! nat 5 = None" "5 \<notin> set (if2bss sample_if_table)" "if2bss sample_if_table ! nat 3 = - 1"
    "sample_alloc sample_if_table = Some 102" "ifs sample_if_table 102 = None" by code_simp+
qed simp_all

text \<open>
  When an interface with a device is replaced, because an event for its number comes with another
  index, the old index is not given up: packets with it go to the new interface, which has another index.
  It stays taken after the new interface is removed, so that packets for an interface that is
  later added with it go nowhere. (There is memory: an address \<open>u\<close> is free, and the allocator finds it.)
\<close>

theorem interface_replaced_keeps_old_index:
  assumes "if_table_wf d" "0 \<le> b" "b < 16" "iflist d ! nat b = Some a" "ifs d a = Some n" "ndev n \<noteq> None"
    "if2bss d ! nat (ni_ifidx n) = b" "0 < idx" "idx < 16" "idx \<noteq> ni_ifidx n"
    "allocates alloc" "\<forall>e. ifs e u = None \<longrightarrow> alloc e \<noteq> None" "ifs d u = None"
  shows "\<exists>a' d'. brcmf_add_if alloc b idx False name mac d = Some (Inr a', d')
    \<and> if_lookup d' (ni_ifidx n) = Some (Some a') \<and> map_option ni_ifidx (ifs d' a') = Some idx
    \<and> (\<exists>d''. brcmf_remove_interface (Some a') d' = Some d'' \<and>
        (\<forall>c. 0 \<le> c \<and> c < 16 \<and> c \<noteq> b \<and> iflist d'' ! nat c = None \<longrightarrow>
          (\<exists>a3 d3. brcmf_add_if alloc c (ni_ifidx n) False name mac d'' = Some (Inr a3, d3) \<and> if_lookup d3 (ni_ifidx n) = Some None)))"
proof -
  let ?old = "ni_ifidx n"
  let ?d0 = "d\<lparr>ifs := (ifs d)(a := None), iflist := (iflist d)[nat b := None]\<rparr>"
  have b: "nat b < 16" using assms(3) by (simp add: nat_less_iff)
  have idx: "0 \<le> idx" "nat idx < 16" using assms(8,9) by (simp_all add: nat_less_iff)
  have old: "0 \<le> ?old" "?old < 16" "nat ?old < 16" by (rule listed_ifp [OF assms(1) b assms(4,5)])+
  have drop: "drop_existing d b idx = Some (Some ?d0)"
    using assms(4-6,8) by (simp add: drop_existing_wf [OF assms(1-3)])
  have wf0: "if_table_wf ?d0" using drop_existing_keeps_wf(1) [OF assms(1-3) drop] .
  have "ifs ?d0 u = None" using assms(13) by simp
  then obtain a' where a': "alloc ?d0 = Some a'" using assms(12) by blast
  then have free: "ifs ?d0 a' = None" using assms(11) by (simp only: allocates_def)
  let ?d1 = "if_added ?d0 a' b idx False name mac" and ?n = "new_if (p2p_enable ?d0) False b idx name mac"
  have wf1: "if_table_wf ?d1" by (rule if_added_wf [OF wf0 assms(2,3) idx(1) assms(9) free])
  have stale: "if2bss ?d1 ! nat ?old = b"
    using assms(2,7,10) idx old(1) if_table_wfD(2) [OF assms(1)] by (auto simp: if_added_def if2bss_stored_def nth_list_update nat_eq_iff)
  have listed: "iflist ?d1 ! nat b = Some a'" "ifs ?d1 a' = Some ?n"
    using b if_table_wfD(1) [OF assms(1)] by (simp_all add: if_added_def)
  have look: "if_lookup ?d1 ?old = Some (Some a')" using old stale listed(1) assms(2) by (simp add: lookup_wf [OF wf1])
  obtain cs where rm: "brcmf_remove_interface (Some a') ?d1 = Some (if_deleted ?d1 (nat b) a' ?n cs)"
    using remove_wf [OF wf1 b listed] by blast
  let ?d2 = "if_deleted ?d1 (nat b) a' ?n cs"
  have wf2: "if_table_wf ?d2" by (rule if_deleted_wf [OF wf1 b listed])
  have i2: "if2bss ?d2 ! nat ?old = b" "iflist ?d2 ! nat b = None"
    using stale assms(8,10) idx old(1) b if_table_wfD(1) [OF assms(1)] if_table_wfD(1) [OF wf1]
    by (auto simp: if_deleted_def new_if_def nth_list_update nat_eq_iff)
  have "\<exists>a3 d3. brcmf_add_if alloc c ?old False name mac ?d2 = Some (Inr a3, d3) \<and> if_lookup d3 ?old = Some None"
    if c: "0 \<le> c" "c < 16" "c \<noteq> b" "iflist ?d2 ! nat c = None" for c
  proof -
    have "ifs ?d2 u = None" using assms(13) by (simp add: if_deleted_def if_added_def)
    then obtain a3 where a3: "alloc ?d2 = Some a3" using assms(12) by blast
    then have f3: "ifs ?d2 a3 = None" using assms(11) by (simp only: allocates_def)
    have "if_lookup (if_added ?d2 a3 c ?old False name mac) ?old = Some None"
      unfolding lookup_wf [OF if_added_wf [OF wf2 c(1,2) old(1,2) f3]]
      using i2 c assms(2) by (simp add: if_added_def if2bss_stored_def nat_eq_iff)
    then show ?thesis using add_if_new [where alloc = alloc, OF wf2 c(1,2) old(1,2) c(4) a3] by blast
  qed
  moreover have "brcmf_add_if alloc b idx False name mac d = Some (Inr a', ?d1)"
    using a' by (simp add: add_if_eq [OF assms(1-3) idx(1) assms(9)] drop)
  ultimately show ?thesis using look listed(2) rm by (intro exI [of _ a'] exI [of _ ?d1]) (auto simp: new_if_def)
qed

theorem interface_replaced_keeps_old_index_witness:
  "\<exists>a' d'. brcmf_add_if sample_alloc 2 3 False [] None sample_if_table = Some (Inr a', d')
    \<and> if_lookup d' 1 = Some (Some a') \<and> map_option ni_ifidx (ifs d' a') = Some 3
    \<and> (\<exists>d''. brcmf_remove_interface (Some a') d' = Some d'' \<and>
        (\<forall>c. 0 \<le> c \<and> c < 16 \<and> c \<noteq> 2 \<and> iflist d'' ! nat c = None \<longrightarrow>
          (\<exists>a3 d3. brcmf_add_if sample_alloc c 1 False [] None d'' = Some (Inr a3, d3) \<and> if_lookup d3 1 = Some None)))"
proof -
  let ?n = "\<lparr>ndev = Some [], ni_ifidx = 1, ni_bsscfgidx = 2, ni_mac = replicate 6 0\<rparr>"
  have at: "iflist sample_if_table ! nat 2 = Some 101" "ifs sample_if_table 101 = Some ?n" "if2bss sample_if_table ! nat (ni_ifidx ?n) = 2"
    "ifs sample_if_table 103 = None" by code_simp+
  have free: "\<forall>e. ifs e 103 = None \<longrightarrow> sample_alloc e \<noteq> None" by (simp add: sample_alloc_def)
  show ?thesis
    using interface_replaced_keeps_old_index [OF if_reach_wf [OF sample_if_table_reach sample_allocates] _ _ at(1,2) _ at(3) _ _ _ sample_allocates free at(4), of 3 "[]" None]
    by simp
qed

text \<open>An interface without a device that is replaced is a null pointer that is followed.\<close>

lemma interface_without_device_replaced:
  assumes "if_table_wf d" "0 \<le> b" "b < 16" "iflist d ! nat b = Some a" "ifs d a = Some n" "ndev n = None" "idx \<noteq> 0"
  shows "brcmf_add_if alloc b idx dev name mac d = None"
  using assms(4-7) by (simp add: brcmf_add_if_def drop_existing_wf [OF assms(1-3)])

end
