(* ===== verification/Fweh.thy ===== *)
theory Fweh
  imports Iflist Fwil
begin

section \<open>Events of the firmware (brcmfmac/fweh.c, fweh.h)\<close>

text \<open>
  The firmware sends events as packets. \<open>brcmf_fweh_process_skb\<close> and \<open>brcmf_fweh_process_event\<close> check
  a packet and put a copy of the event on a queue; a worker takes the events off in order, converts the
  byte order, and calls the handler registered for the code of the event, with the interface it is
  for. Events about interfaces change the table of interfaces first. \<open>brcmf_fweh_activate_events\<close> tells
  the firmware which events have a handler.

  A packet is its bytes from the Ethernet header on, which is where the code finds it: 14 bytes in front
  of the data. Its protocol number is given beside it. A handler is a parameter \<open>run\<close> from a name to what
  it does, with the whole state; so is the allocation of interfaces. \<open>None\<close> is an access outside
  of a packet, an event or a table, or through a null pointer.

  Shown: an event sent reaches its handler with every field as it was; the worker serves the queue in
  order and keeps the table of interfaces; the mask sent has a bit for each handler; an interface event
  that makes the worker read or write outside of the event or the table.
\<close>

subsection \<open>State\<close>

abbreviation (input) BRCMF_E_IF :: nat where "BRCMF_E_IF \<equiv> 54"
abbreviation (input) BRCMF_E_TDLS_PEER_EVENT :: nat where "BRCMF_E_TDLS_PEER_EVENT \<equiv> 92"
abbreviation (input) BRCMF_E_LAST :: nat where "BRCMF_E_LAST \<equiv> 197"
abbreviation (input) BRCMF_E_IF_ADD :: u8 where "BRCMF_E_IF_ADD \<equiv> 1"
abbreviation (input) BRCMF_E_IF_DEL :: u8 where "BRCMF_E_IF_DEL \<equiv> 2"
abbreviation (input) BRCMF_E_IF_CHANGE :: u8 where "BRCMF_E_IF_CHANGE \<equiv> 3"
abbreviation (input) BRCMF_E_IF_FLAG_NOIF :: u8 where "BRCMF_E_IF_FLAG_NOIF \<equiv> 1"
abbreviation (input) BRCMF_E_IF_ROLE_STA :: u8 where "BRCMF_E_IF_ROLE_STA \<equiv> 0"
abbreviation (input) BRCMF_E_IF_ROLE_P2P_CLIENT :: u8 where "BRCMF_E_IF_ROLE_P2P_CLIENT \<equiv> 4"
abbreviation (input) ETH_P_LINK_CTL :: u16 where "ETH_P_LINK_CTL \<equiv> 0x886c"
abbreviation (input) BCMILCP_SUBTYPE_VENDOR_LONG :: u16 where "BCMILCP_SUBTYPE_VENDOR_LONG \<equiv> 32769"
abbreviation (input) BCMILCP_BCM_SUBTYPE_EVENT :: u16 where "BCMILCP_BCM_SUBTYPE_EVENT \<equiv> 1"
abbreviation (input) fweh_EINVAL :: int where "fweh_EINVAL \<equiv> - 22"
abbreviation (input) fweh_ENOMEM :: int where "fweh_ENOMEM \<equiv> - 12"
abbreviation (input) fweh_ENOSPC :: int where "fweh_ENOSPC \<equiv> - 28"

definition BRCM_OUI :: "u8 list" where
  "BRCM_OUI = [0x00, 0x10, 0x18]"

record brcmf_event_msg =
  em_version :: u16
  em_flags :: u16
  em_code :: u32
  em_status :: u32
  em_reason :: u32
  em_auth_type :: u32
  em_datalen :: u32
  em_addr :: "u8 list"
  em_ifname :: "u8 list"
  em_ifidx :: u8
  em_bsscfgidx :: u8

text \<open>An event on the queue; \<open>it_emsg\<close> is the message in the byte order of the firmware.\<close>

record brcmf_fweh_queue_item =
  it_code :: nat
  it_ifidx :: u8
  it_ifaddr :: "u8 list"
  it_emsg :: "u8 list"
  it_datalen :: u32
  it_data :: "u8 list"

text \<open>\<open>armed\<close>: the configuration layer waits for an interface event.\<close>

record 'h brcmf_pub = if_table +
  evt_handler :: "'h option list"
  event_q :: "brcmf_fweh_queue_item list"
  p2pdev_setup_ongoing :: bool
  work_ready :: bool
  armed :: bool

type_synonym ('h, 'a) handlers =
  "'h \<Rightarrow> nat \<Rightarrow> brcmf_event_msg \<Rightarrow> u8 list \<Rightarrow> ('h, 'a) brcmf_pub_scheme \<Rightarrow> int \<times> ('h, 'a) brcmf_pub_scheme"

subsection \<open>Packets\<close>

definition be16_at :: "u8 list \<Rightarrow> nat \<Rightarrow> u16 option" where
  "be16_at m i = map_option (\<lambda>b. be16_of (b ! 0) (b ! 1)) (bytes_at m i 2)"

definition be32_at :: "u8 list \<Rightarrow> nat \<Rightarrow> u32 option" where
  "be32_at m i = map_option (\<lambda>b. be32_of (b ! 0) (b ! 1) (b ! 2) (b ! 3)) (bytes_at m i 4)"

text \<open>Offsets in \<open>struct brcmf_event\<close>, and in the message of 48 bytes in it.\<close>

abbreviation (input) ev_subtype :: nat where "ev_subtype \<equiv> 14"
abbreviation (input) ev_oui :: nat where "ev_oui \<equiv> 19"
abbreviation (input) ev_usr_subtype :: nat where "ev_usr_subtype \<equiv> 22"
abbreviation (input) ev_msg :: nat where "ev_msg \<equiv> 24"
abbreviation (input) ev_msg_size :: nat where "ev_msg_size \<equiv> 48"
abbreviation (input) ev_size :: nat where "ev_size \<equiv> 72"

definition brcmf_fweh_queue_event :: "brcmf_fweh_queue_item \<Rightarrow> ('h, 'a) brcmf_pub_scheme \<Rightarrow> ('h, 'a) brcmf_pub_scheme" where
  "brcmf_fweh_queue_event e d = d\<lparr>event_q := event_q d @ [e]\<rparr>"

text \<open>\<open>mem\<close>: whether the allocation succeeds.\<close>

definition brcmf_fweh_process_event ::
    "bool \<Rightarrow> u8 list \<Rightarrow> nat \<Rightarrow> ('h, 'a) brcmf_pub_scheme \<Rightarrow> ('h, 'a) brcmf_pub_scheme option" where
  "brcmf_fweh_process_event mem m packet_len d = do {
     code \<leftarrow> be32_at m (ev_msg + 4);
     datalen \<leftarrow> be32_at m (ev_msg + 20);
     if unat code \<ge> BRCMF_E_LAST then Some d
     else do {
       h \<leftarrow> idx_get (evt_handler d) (int (unat code));
       if unat code \<noteq> BRCMF_E_IF \<and> h = None then Some d
       else if unat datalen > BRCMF_DCMD_MAXLEN \<or> unat datalen + ev_size > packet_len then Some d
       else if \<not> mem then Some d
       else do {
         i \<leftarrow> mem_at m (ev_msg + 46);
         msg \<leftarrow> bytes_at m ev_msg ev_msg_size;
         dat \<leftarrow> bytes_at m ev_size (unat datalen);
         dest \<leftarrow> bytes_at m 0 6;
         Some (brcmf_fweh_queue_event \<lparr>it_code = unat code, it_ifidx = i, it_ifaddr = dest, it_emsg = msg,
           it_datalen = datalen, it_data = dat\<rparr> d)
       }
     }
   }"

definition brcmf_fweh_process_skb ::
    "bool \<Rightarrow> u16 \<Rightarrow> u8 list \<Rightarrow> u16 \<Rightarrow> ('h, 'a) brcmf_pub_scheme \<Rightarrow> ('h, 'a) brcmf_pub_scheme option" where
  "brcmf_fweh_process_skb mem protocol m stype d =
     (if protocol \<noteq> ETH_P_LINK_CTL then Some d
      else if length m < ev_size then Some d
      else do {
        mismatch \<leftarrow> (if stype \<noteq> 0 then map_option (\<lambda>s. s \<noteq> stype) (be16_at m ev_subtype) else Some False);
        if mismatch then Some d
        else do {
          oui \<leftarrow> bytes_at m ev_oui 3;
          if oui \<noteq> BRCM_OUI then Some d
          else do {
            usr_stype \<leftarrow> be16_at m ev_usr_subtype;
            if usr_stype \<noteq> BCMILCP_BCM_SUBTYPE_EVENT then Some d
            else brcmf_fweh_process_event mem m (length m) d
          }
        }
      })"

subsection \<open>Handlers\<close>

definition brcmf_fweh_register :: "nat \<Rightarrow> 'h \<Rightarrow> ('h, 'a) brcmf_pub_scheme \<Rightarrow> (int \<times> ('h, 'a) brcmf_pub_scheme) option" where
  "brcmf_fweh_register code handler d = do {
     h \<leftarrow> idx_get (evt_handler d) (int code);
     if h \<noteq> None then Some (fweh_ENOSPC, d)
     else map_option (\<lambda>hs. (0, d\<lparr>evt_handler := hs\<rparr>)) (idx_set (evt_handler d) (int code) (Some handler))
   }"

definition brcmf_fweh_unregister :: "nat \<Rightarrow> ('h, 'a) brcmf_pub_scheme \<Rightarrow> ('h, 'a) brcmf_pub_scheme option" where
  "brcmf_fweh_unregister code d = map_option (\<lambda>hs. d\<lparr>evt_handler := hs\<rparr>) (idx_set (evt_handler d) (int code) None)"

definition brcmf_fweh_p2pdev_setup :: "bool \<Rightarrow> ('h, 'a) brcmf_pub_scheme \<Rightarrow> ('h, 'a) brcmf_pub_scheme" where
  "brcmf_fweh_p2pdev_setup ongoing d = d\<lparr>p2pdev_setup_ongoing := ongoing\<rparr>"

definition brcmf_fweh_attach :: "('h, 'a) brcmf_pub_scheme \<Rightarrow> ('h, 'a) brcmf_pub_scheme" where
  "brcmf_fweh_attach d = d\<lparr>work_ready := True, event_q := []\<rparr>"

definition brcmf_fweh_detach :: "('h, 'a) brcmf_pub_scheme \<Rightarrow> ('h, 'a) brcmf_pub_scheme" where
  "brcmf_fweh_detach d = (if work_ready d then d\<lparr>evt_handler := map (\<lambda>_. None) (evt_handler d)\<rparr> else d)"

definition brcmf_fweh_call_event_handler ::
    "('h, 'a) handlers \<Rightarrow> nat option \<Rightarrow> nat \<Rightarrow> brcmf_event_msg \<Rightarrow> u8 list \<Rightarrow> ('h, 'a) brcmf_pub_scheme
      \<Rightarrow> (int \<times> ('h, 'a) brcmf_pub_scheme) option" where
  "brcmf_fweh_call_event_handler run ifp code emsg dat d =
     (case ifp of
        None \<Rightarrow> Some (fweh_EINVAL, d)
      | Some a \<Rightarrow> do {
          h \<leftarrow> idx_get (evt_handler d) (int code);
          (case h of None \<Rightarrow> Some (fweh_EINVAL, d) | Some h \<Rightarrow> Some (run h a emsg dat d))
        })"

subsection \<open>Interface events\<close>

definition log_call :: "if_call \<Rightarrow> 'a if_table_scheme \<Rightarrow> 'a if_table_scheme" where
  "log_call c d = d\<lparr>if_calls := if_calls d @ [c]\<rparr>"

text \<open>The addition of an interface; the flag says whether the handling of the event goes on.\<close>

definition if_event_add ::
    "(('h, 'a) brcmf_pub_scheme \<Rightarrow> nat option) \<Rightarrow> (nat \<Rightarrow> bool) \<Rightarrow> int \<Rightarrow> int \<Rightarrow> bool \<Rightarrow> brcmf_event_msg \<Rightarrow> ('h, 'a) brcmf_pub_scheme
      \<Rightarrow> (bool \<times> nat option \<times> ('h, 'a) brcmf_pub_scheme) option" where
  "if_event_add alloc registers b idx is_p2pdev emsg d = do {
     (r, d) \<leftarrow> brcmf_add_if alloc b idx is_p2pdev (em_ifname emsg) (Some (em_addr emsg)) d;
     (case r of
        Inl e \<Rightarrow> Some (False, None, d)
      | Inr a \<Rightarrow> do {
          let d = (if is_p2pdev then d else log_call (Proto_add_if a) d);
          h \<leftarrow> idx_get (evt_handler d) (int BRCMF_E_IF);
          if h = None then do {
            (e, d) \<leftarrow> brcmf_net_attach registers a d;
            Some (e \<ge> 0, Some a, d)
          }
          else Some (True, Some a, d)
        })
   }"

definition brcmf_fweh_handle_if_event ::
    "('h, 'a) handlers \<Rightarrow> (('h, 'a) brcmf_pub_scheme \<Rightarrow> nat option) \<Rightarrow> (nat \<Rightarrow> bool) \<Rightarrow> brcmf_event_msg \<Rightarrow> u8 list
      \<Rightarrow> ('h, 'a) brcmf_pub_scheme \<Rightarrow> ('h, 'a) brcmf_pub_scheme option" where
  "brcmf_fweh_handle_if_event run alloc registers emsg dat d = do {
     flags \<leftarrow> mem_at dat 2;
     let noif = (flags AND BRCMF_E_IF_FLAG_NOIF \<noteq> 0);
     is_p2pdev \<leftarrow>
       (if noif then map_option (\<lambda>role. role = BRCMF_E_IF_ROLE_P2P_CLIENT \<or> role = BRCMF_E_IF_ROLE_STA \<and> p2pdev_setup_ongoing d) (mem_at dat 4)
        else Some False);
     if \<not> is_p2pdev \<and> noif then Some d
     else do {
       idx \<leftarrow> mem_at dat 0;
       if unat idx \<ge> BRCMF_MAX_IFS then Some d
       else do {
         b \<leftarrow> mem_at dat 3;
         ifp \<leftarrow> idx_get (iflist d) (int (unat b));
         action \<leftarrow> mem_at dat 1;
         (go, ifp, d) \<leftarrow>
           (if action = BRCMF_E_IF_ADD then if_event_add alloc registers (int (unat b)) (int (unat idx)) is_p2pdev emsg d
            else Some (True, ifp, d));
         if \<not> go then Some d
         else do {
           let d = (case ifp of Some a \<Rightarrow> if action = BRCMF_E_IF_CHANGE then log_call (Proto_reset_if a) d else d | None \<Rightarrow> d);
           (err, d) \<leftarrow> brcmf_fweh_call_event_handler run ifp (unat (em_code emsg)) emsg dat d;
           if ifp \<noteq> None \<and> action = BRCMF_E_IF_DEL \<and> \<not> armed d then brcmf_remove_interface ifp d
           else Some d
         }
       }
     }
   }"

subsection \<open>The worker\<close>

definition convert_event_msg :: "nat \<Rightarrow> u8 list \<Rightarrow> brcmf_event_msg option" where
  "convert_event_msg code m = do {
     version \<leftarrow> be16_at m 0;
     flags \<leftarrow> be16_at m 2;
     status \<leftarrow> be32_at m 8;
     reason \<leftarrow> be32_at m 12;
     auth_type \<leftarrow> be32_at m 16;
     datalen \<leftarrow> be32_at m 20;
     addr \<leftarrow> bytes_at m 24 6;
     ifname \<leftarrow> bytes_at m 30 16;
     i \<leftarrow> mem_at m 46;
     b \<leftarrow> mem_at m 47;
     Some \<lparr>em_version = version, em_flags = flags, em_code = of_nat code, em_status = status, em_reason = reason,
       em_auth_type = auth_type, em_datalen = datalen, em_addr = addr, em_ifname = ifname, em_ifidx = i, em_bsscfgidx = b\<rparr>
   }"

text \<open>One turn of the worker, with an event that was taken off the queue.\<close>

definition fweh_event ::
    "('h, 'a) handlers \<Rightarrow> (('h, 'a) brcmf_pub_scheme \<Rightarrow> nat option) \<Rightarrow> (nat \<Rightarrow> bool) \<Rightarrow> brcmf_fweh_queue_item
      \<Rightarrow> ('h, 'a) brcmf_pub_scheme \<Rightarrow> ('h, 'a) brcmf_pub_scheme option" where
  "fweh_event run alloc registers e d = do {
     b \<leftarrow> mem_at (it_emsg e) 47;
     if unat b \<ge> BRCMF_MAX_IFS then Some d
     else do {
       emsg \<leftarrow> convert_event_msg (it_code e) (it_emsg e);
       if it_code e = BRCMF_E_IF then brcmf_fweh_handle_if_event run alloc registers emsg (it_data e) d
       else do {
         ifp \<leftarrow> idx_get (iflist d) (if it_code e = BRCMF_E_TDLS_PEER_EVENT then 0 else int (unat (em_bsscfgidx emsg)));
         (err, d) \<leftarrow> brcmf_fweh_call_event_handler run ifp (it_code e) emsg (it_data e) d;
         Some d
       }
     }
   }"

definition brcmf_fweh_dequeue_event ::
    "('h, 'a) brcmf_pub_scheme \<Rightarrow> brcmf_fweh_queue_item option \<times> ('h, 'a) brcmf_pub_scheme" where
  "brcmf_fweh_dequeue_event d = (case event_q d of [] \<Rightarrow> (None, d) | e # q \<Rightarrow> (Some e, d\<lparr>event_q := q\<rparr>))"

partial_function (option) brcmf_fweh_event_worker ::
    "('h, 'a) handlers \<Rightarrow> (('h, 'a) brcmf_pub_scheme \<Rightarrow> nat option) \<Rightarrow> (nat \<Rightarrow> bool)
      \<Rightarrow> ('h, 'a) brcmf_pub_scheme \<Rightarrow> ('h, 'a) brcmf_pub_scheme option" where
  "brcmf_fweh_event_worker run alloc registers d =
     (case brcmf_fweh_dequeue_event d of
        (None, d) \<Rightarrow> Some d
      | (Some e, d) \<Rightarrow> Option.bind (fweh_event run alloc registers e d) (brcmf_fweh_event_worker run alloc registers))"

declare brcmf_fweh_event_worker.simps [code]

subsection \<open>The mask of events\<close>

abbreviation (input) BRCMF_EVENTING_MASK_LEN :: nat where "BRCMF_EVENTING_MASK_LEN \<equiv> 25"
abbreviation (input) EVENTMSGS_VER :: u8 where "EVENTMSGS_VER \<equiv> 1"
abbreviation (input) EVENTMSGS_SET_MASK :: u8 where "EVENTMSGS_SET_MASK \<equiv> 3"
abbreviation (input) EVENTMSGS_EXT_STRUCT_SIZE :: nat where "EVENTMSGS_EXT_STRUCT_SIZE \<equiv> 4"

definition setbit :: "u8 list \<Rightarrow> nat \<Rightarrow> u8 list option" where
  "setbit m i = do {
     x \<leftarrow> mem_at m (i div 8);
     buf_write m (i div 8) [x OR push_bit (i mod 8) 1]
   }"

text \<open>The codes from \<open>i\<close> on; \<open>hs\<close> are their handlers.\<close>

fun set_event_bits :: "'h option list \<Rightarrow> nat \<Rightarrow> u8 list \<Rightarrow> u8 list option" where
  "set_event_bits [] i m = Some m"
| "set_event_bits (h # hs) i m = do {
     m \<leftarrow> (if h = None then Some m else setbit m i);
     set_event_bits hs (Suc i) m
   }"

definition event_mask :: "('h, 'a) brcmf_pub_scheme \<Rightarrow> u8 list option" where
  "event_mask d = do {
     m \<leftarrow> set_event_bits (evt_handler d) 0 (replicate BRCMF_EVENTING_MASK_LEN 0);
     setbit m BRCMF_E_IF
   }"

definition brcmf_fweh_activate_events ::
    "bool \<Rightarrow> 's dcmd \<Rightarrow> 's fil_if \<Rightarrow> ('h, 'a) brcmf_pub_scheme \<Rightarrow> (int \<times> 's fil_if) option" where
  "brcmf_fweh_activate_events mem dcmd ifp d =
     (if \<not> mem then Some (fweh_ENOMEM, ifp)
      else do {
        mask \<leftarrow> event_mask d;
        let msg = [EVENTMSGS_VER, EVENTMSGS_SET_MASK, of_nat BRCMF_EVENTING_MASK_LEN, 0] @ mask;
        (err, ifp) \<leftarrow> brcmf_fil_iovar_data_set dcmd ifp (chars ''event_msgs_ext'') (Some msg)
          (of_nat (EVENTMSGS_EXT_STRUCT_SIZE + BRCMF_EVENTING_MASK_LEN));
        if err = 0 then Some (err, ifp)
        else brcmf_fil_iovar_data_set dcmd ifp (chars ''event_msgs'') (Some mask) (of_nat BRCMF_EVENTING_MASK_LEN)
      })"

subsection \<open>Events as the firmware sends them\<close>

definition be16_bytes :: "u16 \<Rightarrow> u8 list" where
  "be16_bytes w = rev (le16_bytes w)"

definition be32_bytes :: "u32 \<Rightarrow> u8 list" where
  "be32_bytes w = rev (le32_bytes w)"

definition event_msg_bytes :: "brcmf_event_msg \<Rightarrow> u8 list" where
  "event_msg_bytes e = be16_bytes (em_version e) @ be16_bytes (em_flags e) @ be32_bytes (em_code e) @ be32_bytes (em_status e) @
     be32_bytes (em_reason e) @ be32_bytes (em_auth_type e) @ be32_bytes (em_datalen e) @ em_addr e @ em_ifname e @
     [em_ifidx e, em_bsscfgidx e]"

text \<open>\<open>eth\<close> is the Ethernet header, \<open>len\<close> and \<open>ver\<close> are fields that the driver does not look at.\<close>

definition event_packet :: "u8 list \<Rightarrow> u16 \<Rightarrow> u8 \<Rightarrow> brcmf_event_msg \<Rightarrow> u8 list \<Rightarrow> u8 list" where
  "event_packet eth len ver e dat = eth @ be16_bytes BCMILCP_SUBTYPE_VENDOR_LONG @ be16_bytes len @ [ver] @ BRCM_OUI @
     be16_bytes BCMILCP_BCM_SUBTYPE_EVENT @ event_msg_bytes e @ dat"

lemma length_BRCM_OUI [simp]: "length BRCM_OUI = 3"
  by (simp add: BRCM_OUI_def)

definition event_ok :: "u8 list \<Rightarrow> brcmf_event_msg \<Rightarrow> u8 list \<Rightarrow> bool" where
  "event_ok eth e dat \<longleftrightarrow> length eth = 14 \<and> length (em_addr e) = 6 \<and> length (em_ifname e) = 16
     \<and> length dat \<le> BRCMF_DCMD_MAXLEN \<and> em_datalen e = of_nat (length dat) \<and> unat (em_code e) < BRCMF_E_LAST"

lemma length_be_bytes [simp]: "length (be16_bytes v) = 2" "length (be32_bytes w) = 4"
  by (simp_all add: be16_bytes_def be32_bytes_def)

lemma be16_of_be_bytes: "be16_of (be16_bytes w ! 0) (be16_bytes w ! 1) = w"
  by (simp add: be16_bytes_def be16_of_def le16_bytes_def)

lemma be32_of_be_bytes: "be32_of (be32_bytes w ! 0) (be32_bytes w ! 1) (be32_bytes w ! 2) (be32_bytes w ! 3) = w"
  by (simp add: be32_bytes_def be32_of_def le32_bytes_def)

lemma be16_at_skip: "length xs \<le> i \<Longrightarrow> be16_at (xs @ ys) i = be16_at ys (i - length xs)"
  by (simp add: be16_at_def bytes_at_skip)

lemma be32_at_skip: "length xs \<le> i \<Longrightarrow> be32_at (xs @ ys) i = be32_at ys (i - length xs)"
  by (simp add: be32_at_def bytes_at_skip)

lemma skip_byte:
  "0 < i \<Longrightarrow> bytes_at (x # xs) i n = bytes_at xs (i - 1) n" "0 < i \<Longrightarrow> mem_at (x # xs) i = mem_at xs (i - 1)"
  "0 < i \<Longrightarrow> be16_at (x # xs) i = be16_at xs (i - 1)" "0 < i \<Longrightarrow> be32_at (x # xs) i = be32_at xs (i - 1)"
  using bytes_at_skip [of "[x]" i xs] mem_at_skip [of "[x]" i xs] be16_at_skip [of "[x]" i xs] be32_at_skip [of "[x]" i xs]
  by (simp_all add: Suc_leI)

lemma be_at_here: "be16_at (be16_bytes v @ ys) 0 = Some v" "be32_at (be32_bytes w @ ys) 0 = Some w"
  using be16_of_be_bytes be32_of_be_bytes by (simp_all add: be16_at_def be32_at_def bytes_at_here)

lemmas skip_fields = skip_byte bytes_at_skip mem_at_skip be16_at_skip be32_at_skip be_at_here bytes_at_here mem_at_here

lemma event_msg_fields:
  assumes "length (em_addr e) = 6" "length (em_ifname e) = 16"
  shows "length (event_msg_bytes e) = 48" "be32_at (event_msg_bytes e @ r) 4 = Some (em_code e)"
    "be32_at (event_msg_bytes e @ r) 20 = Some (em_datalen e)" "mem_at (event_msg_bytes e @ r) 46 = Some (em_ifidx e)"
    "mem_at (event_msg_bytes e) 47 = Some (em_bsscfgidx e)"
  using assms by (simp_all add: event_msg_bytes_def skip_fields del: mem_at_Some)

lemma convert_event:
  assumes "length (em_addr e) = 6" "length (em_ifname e) = 16"
  shows "convert_event_msg (unat (em_code e)) (event_msg_bytes e) = Some e"
  using assms by (simp add: convert_event_msg_def event_msg_bytes_def skip_fields del: mem_at_Some)

definition event_item :: "u8 list \<Rightarrow> brcmf_event_msg \<Rightarrow> u8 list \<Rightarrow> brcmf_fweh_queue_item" where
  "event_item eth e dat = \<lparr>it_code = unat (em_code e), it_ifidx = em_ifidx e, it_ifaddr = take 6 eth, it_emsg = event_msg_bytes e,
     it_datalen = of_nat (length dat), it_data = dat\<rparr>"

lemma idx_get_uint: "unat w < length xs \<Longrightarrow> idx_get xs (uint w) = Some (xs ! unat w)"
  by (simp add: idx_get_def)

text \<open>A packet that is an event of a code with a handler, or about interfaces, is queued whole.\<close>

lemma event_queued:
  assumes "event_ok eth e dat" "stype \<in> {0, BCMILCP_SUBTYPE_VENDOR_LONG}" "length (evt_handler d) = 197"
    "unat (em_code e) = 54 \<or> evt_handler d ! unat (em_code e) \<noteq> None"
  shows "brcmf_fweh_process_skb True ETH_P_LINK_CTL (event_packet eth len ver e dat) stype d =
    Some (d\<lparr>event_q := event_q d @ [event_item eth e dat]\<rparr>)"
proof -
  let ?m = "event_packet eth len ver e dat"
  have l: "length eth = 14" "length (em_addr e) = 6" "length (em_ifname e) = 16" "length dat \<le> 8192"
    "em_datalen e = of_nat (length dat)" "unat (em_code e) < 197"
    using assms(1) by (simp_all add: event_ok_def)
  have n: "unat (em_datalen e) = length dat" using l(4,5) by (simp add: unat_of_nat_u32)
  note msg = event_msg_fields [OF l(2,3)]
  have head: "length ?m = 72 + length dat" "be16_at ?m 14 = Some 32769" "bytes_at ?m 19 3 = Some BRCM_OUI" "be16_at ?m 22 = Some 1"
    "be32_at ?m 28 = Some (em_code e)" "be32_at ?m 44 = Some (em_datalen e)" "mem_at ?m 70 = Some (em_ifidx e)"
    "bytes_at ?m 24 48 = Some (event_msg_bytes e)" "bytes_at ?m 72 (length dat) = Some dat" "bytes_at ?m 0 6 = Some (take 6 eth)"
    using l(1) msg(1-4) by (simp_all add: event_packet_def skip_fields del: mem_at_Some) (simp add: bytes_at_def)
  have "idx_get (evt_handler d) (uint (em_code e)) = Some (evt_handler d ! unat (em_code e))"
    using l(6) assms(3) by (simp add: idx_get_uint)
  then have "brcmf_fweh_process_event True ?m (length ?m) d = Some (d\<lparr>event_q := event_q d @ [event_item eth e dat]\<rparr>)"
    using head n l(4-6) assms(3,4) by (auto simp: brcmf_fweh_process_event_def brcmf_fweh_queue_event_def event_item_def)
  then show ?thesis using head assms(2) by (auto simp: brcmf_fweh_process_skb_def)
qed

lemma worker_empty [simp]: "event_q d = [] \<Longrightarrow> brcmf_fweh_event_worker run alloc registers d = Some d"
  by (simp add: brcmf_fweh_event_worker.simps brcmf_fweh_dequeue_event_def)

lemma worker_next:
  "event_q d = e # q \<Longrightarrow> brcmf_fweh_event_worker run alloc registers d =
    Option.bind (fweh_event run alloc registers e (d\<lparr>event_q := q\<rparr>)) (brcmf_fweh_event_worker run alloc registers)"
  by (simp add: brcmf_fweh_event_worker.simps [of run alloc registers d] brcmf_fweh_dequeue_event_def)

subsection \<open>The table of interfaces under events\<close>

definition device_ok :: "(nat \<Rightarrow> net_if option) \<Rightarrow> nat option \<Rightarrow> bool" where
  "device_ok f p = (case p of None \<Rightarrow> True | Some a \<Rightarrow> ndev (the (f a)) \<noteq> None)"

lemma device_ok_simps [simp]: "device_ok f None" "device_ok f (Some a) = (ndev (the (f a)) \<noteq> None)"
  by (simp_all add: device_ok_def)

definition with_devices :: "'a if_table_scheme \<Rightarrow> bool" where
  "with_devices d \<longleftrightarrow> (\<forall>b<BRCMF_MAX_IFS. device_ok (ifs d) (iflist d ! b))"

text \<open>Everything the worker relies on, besides the events themselves.\<close>

definition fweh_wf :: "('h, 'a) brcmf_pub_scheme \<Rightarrow> bool" where
  "fweh_wf d \<longleftrightarrow> if_table_wf d \<and> with_devices d \<and> length (evt_handler d) = BRCMF_E_LAST"

text \<open>
  An event the worker can serve: a message of full size, and for one about interfaces all five bytes
  of data and a number in range, that does not add a P2P device without a network device.
\<close>

definition servable :: "bool \<Rightarrow> brcmf_fweh_queue_item \<Rightarrow> bool" where
  "servable p2p e \<longleftrightarrow> length (it_emsg e) = ev_msg_size \<and> it_code e < BRCMF_E_LAST
     \<and> (it_code e = BRCMF_E_IF \<longrightarrow> 5 \<le> length (it_data e) \<and> unat (it_data e ! 3) < BRCMF_MAX_IFS
         \<and> (p2p \<or> it_data e ! 2 AND BRCMF_E_IF_FLAG_NOIF = 0))"

text \<open>Handlers that leave the queue, which is private to this component, and the table alone.\<close>

definition leaves_table :: "('h, 'a) handlers \<Rightarrow> bool" where
  "leaves_table run \<longleftrightarrow> (\<forall>h a e dat d. let d' = snd (run h a e dat d) in
     event_q d' = event_q d \<and> iflist d' = iflist d \<and> if2bss d' = if2bss d \<and> ifs d' = ifs d \<and> p2p_enable d' = p2p_enable d
     \<and> length (evt_handler d') = length (evt_handler d))"

text \<open>What a step of the worker keeps.\<close>

definition step_keeps :: "('h, 'a) brcmf_pub_scheme \<Rightarrow> ('h, 'a) brcmf_pub_scheme \<Rightarrow> bool" where
  "step_keeps d d' \<longleftrightarrow> fweh_wf d' \<and> event_q d' = event_q d \<and> p2p_enable d' = p2p_enable d"

lemma step_keeps_refl: "fweh_wf d \<Longrightarrow> step_keeps d d"
  by (simp add: step_keeps_def)

lemma step_keeps_trans: "step_keeps d d' \<Longrightarrow> step_keeps d' d'' \<Longrightarrow> step_keeps d d''"
  by (simp add: step_keeps_def)

lemma fweh_wf_log [simp]: "fweh_wf (log_call c d) = fweh_wf d"
  by (simp add: fweh_wf_def log_call_def with_devices_def)

lemma log_keeps: "fweh_wf d \<Longrightarrow> step_keeps d (log_call c d)"
  by (simp add: step_keeps_def) (simp add: log_call_def)

lemma run_keeps:
  assumes "fweh_wf d" "leaves_table run"
  shows "step_keeps d (snd (run h a e dat d))" "iflist (snd (run h a e dat d)) = iflist d" "ifs (snd (run h a e dat d)) = ifs d"
proof -
  let ?d = "snd (run h a e dat d)"
  have f: "event_q ?d = event_q d" "iflist ?d = iflist d" "if2bss ?d = if2bss d" "ifs ?d = ifs d" "p2p_enable ?d = p2p_enable d"
    "length (evt_handler ?d) = length (evt_handler d)" using assms(2) unfolding leaves_table_def Let_def by blast+
  then show "step_keeps d ?d" using assms(1) unfolding step_keeps_def fweh_wf_def if_table_wf_def with_devices_def by simp
  show "iflist ?d = iflist d" "ifs ?d = ifs d" by (rule f)+
qed

lemma call_keeps:
  assumes "fweh_wf d" "leaves_table run" "code < 197"
  shows "\<exists>err d'. brcmf_fweh_call_event_handler run ifp code e dat d = Some (err, d') \<and> step_keeps d d'
    \<and> iflist d' = iflist d \<and> ifs d' = ifs d"
proof (cases ifp)
  case (Some a)
  have i: "idx_get (evt_handler d) (int code) = Some (evt_handler d ! code)" using assms(1,3) by (simp add: fweh_wf_def idx_get_def)
  show ?thesis
  proof (cases "evt_handler d ! code")
    case (Some h)
    show ?thesis using run_keeps [OF assms(1,2), of h a e dat] \<open>ifp = Some a\<close> Some i
      by (cases "run h a e dat d") (simp add: brcmf_fweh_call_event_handler_def)
  qed (use \<open>ifp = Some a\<close> i step_keeps_refl [OF assms(1)] in \<open>simp add: brcmf_fweh_call_event_handler_def\<close>)
qed (use step_keeps_refl [OF assms(1)] in \<open>simp add: brcmf_fweh_call_event_handler_def\<close>)

lemma with_devicesD:
  assumes "fweh_wf d" "b < 16" "iflist d ! b = Some a"
  obtains n where "ifs d a = Some n" "ndev n \<noteq> None"
proof -
  obtain n where n: "ifs d a = Some n" using listed_okD [OF _ assms(2,3)] assms(1) unfolding fweh_wf_def by blast
  moreover have "ndev n \<noteq> None" using assms n unfolding fweh_wf_def with_devices_def by force
  ultimately show ?thesis by (rule that)
qed

lemma remove_keeps:
  assumes "fweh_wf d" "b < 16" "iflist d ! b = Some a"
  shows "\<exists>d'. brcmf_remove_interface (Some a) d = Some d' \<and> step_keeps d d'"
proof -
  have wf: "if_table_wf d" using assms(1) by (simp add: fweh_wf_def)
  obtain n where n: "ifs d a = Some n" using with_devicesD [OF assms] by blast
  have "with_devices (if_deleted d b a n cs)" for cs
    unfolding with_devices_def
  proof (intro allI impI)
    fix c :: nat
    assume c: "c < 16"
    show "device_ok (ifs (if_deleted d b a n cs)) (iflist (if_deleted d b a n cs) ! c)"
    proof (cases "c = b \<or> iflist d ! c = None")
      case False
      then obtain x where x: "iflist d ! c = Some x" by auto
      then obtain m where "ifs d x = Some m" "ndev m \<noteq> None" using with_devicesD [OF assms(1) c] by blast
      moreover have "x \<noteq> a" using listed_once [OF wf c assms(2) x] assms(3) False by auto
      ultimately show ?thesis using False x by (simp add: if_deleted_def)
    qed (use assms(2) if_table_wfD(1) [OF wf] in \<open>auto simp: if_deleted_def nth_list_update\<close>)
  qed
  then show ?thesis using remove_wf [OF wf assms(2,3) n] if_deleted_wf [OF wf assms(2,3) n] assms(1)
    by (auto simp: step_keeps_def fweh_wf_def) (simp_all add: if_deleted_def)
qed

lemma with_devices_put:
  assumes "if_table_wf d" "with_devices d" "b < 16" "ifs d a = None" "ndev n \<noteq> None"
  shows "with_devices (d\<lparr>if2bss := m, iflist := (iflist d)[b := Some a], ifs := (ifs d)(a \<mapsto> n)\<rparr>)"
  unfolding with_devices_def
proof (intro allI impI)
  fix c :: nat
  assume c: "c < 16"
  show "device_ok (ifs (d\<lparr>if2bss := m, iflist := (iflist d)[b := Some a], ifs := (ifs d)(a \<mapsto> n)\<rparr>))
    (iflist (d\<lparr>if2bss := m, iflist := (iflist d)[b := Some a], ifs := (ifs d)(a \<mapsto> n)\<rparr>) ! c)"
    using assms c if_table_wfD(1) [OF assms(1)] if_table_wfD(3) [OF assms(1) c]
    by (cases "iflist d ! c") (auto simp: nth_list_update with_devices_def)
qed

lemma with_devices_cleared:
  assumes "if_table_wf d" "with_devices d" "b < 16" "iflist d ! b = Some a"
  shows "with_devices (d\<lparr>ifs := (ifs d)(a := None), iflist := (iflist d)[b := None]\<rparr>)"
  unfolding with_devices_def
proof (intro allI impI)
  fix c :: nat
  assume c: "c < 16"
  have "iflist d ! c = Some a \<Longrightarrow> c = b" using listed_once [OF assms(1) c assms(3) _ assms(4)] by blast
  then show "device_ok (ifs (d\<lparr>ifs := (ifs d)(a := None), iflist := (iflist d)[b := None]\<rparr>))
    (iflist (d\<lparr>ifs := (ifs d)(a := None), iflist := (iflist d)[b := None]\<rparr>) ! c)"
    using assms(2,3) c if_table_wfD(1) [OF assms(1)]
    by (cases "iflist d ! c") (auto simp: nth_list_update with_devices_def)
qed

text \<open>What adding leaves alone.\<close>

lemma pub_fields [simp]:
  "evt_handler (if_added d a b idx dev name mac) = evt_handler d" "event_q (if_added d a b idx dev name mac) = event_q d"
  "p2p_enable (if_added d a b idx dev name mac) = p2p_enable d"
  by (simp_all add: if_added_def)

lemma drop_keeps:
  assumes "fweh_wf d" "b < 16"
  shows "\<exists>k. drop_existing d (int b) idx = Some k \<and> (\<forall>d1. k = Some d1 \<longrightarrow> step_keeps d d1)"
proof -
  have wf: "if_table_wf d" "with_devices d" using assms(1) by (simp_all add: fweh_wf_def)
  have eq: "drop_existing d (int b) idx = (case iflist d ! b of None \<Rightarrow> Some (Some d)
     | Some a \<Rightarrow> if idx = 0 then Some None else if ndev (the (ifs d a)) = None then None
         else Some (Some (d\<lparr>ifs := (ifs d)(a := None), iflist := (iflist d)[b := None]\<rparr>)))"
    using drop_existing_wf [OF wf(1), of "int b" idx, unfolded nat_int] assms(2) by simp
  show ?thesis
  proof (cases "iflist d ! b")
    case (Some a)
    let ?d = "d\<lparr>ifs := (ifs d)(a := None), iflist := (iflist d)[b := None]\<rparr>"
    have "fweh_wf ?d" using if_table_wf_freed [OF wf(1) assms(2) Some] with_devices_cleared [OF wf assms(2) Some] assms(1)
      by (simp add: fweh_wf_def)
    moreover have "ndev (the (ifs d a)) \<noteq> None" using with_devicesD [OF assms Some] by fastforce
    ultimately show ?thesis using eq Some by (cases "idx = 0") (auto simp: step_keeps_def)
  qed (use eq step_keeps_refl [OF assms(1)] in simp)
qed

lemma if_event_add_keeps:
  assumes "fweh_wf d" "b < 16" "idx < 16" "allocates alloc" "p2p_enable d \<or> \<not> dev"
  shows "\<exists>go p d'. if_event_add alloc registers (int b) (int idx) dev e d = Some (go, p, d') \<and> step_keeps d d'"
proof -
  have wf: "if_table_wf d" using assms(1) by (simp add: fweh_wf_def)
  have r: "0 \<le> int b" "int b < 16" "0 \<le> int idx" "int idx < 16" using assms(2,3) by simp_all
  note add = add_if_eq [OF wf r, of alloc dev "em_ifname e" "Some (em_addr e)"]
  obtain k where k: "drop_existing d (int b) (int idx) = Some k" "\<And>d1. k = Some d1 \<Longrightarrow> step_keeps d d1"
    using drop_keeps [OF assms(1,2)] by blast
  show ?thesis
  proof (cases k)
    case None
    then show ?thesis using add k(1) step_keeps_refl [OF assms(1)] by (auto simp: if_event_add_def)
  next
    case (Some d1)
    then have keep: "step_keeps d d1" using k(2) by blast
    then have wf1: "fweh_wf d1" "if_table_wf d1" "with_devices d1" by (simp_all add: step_keeps_def fweh_wf_def)
    show ?thesis
    proof (cases "alloc d1")
      case None
      then show ?thesis using add k(1) Some keep by (auto simp: if_event_add_def)
    next
      case (Some a)
      then have free: "ifs d1 a = None" using assms(4) by (simp add: allocates_def)
      let ?d2 = "if_added d1 a (int b) (int idx) dev (em_ifname e) (Some (em_addr e))"
      let ?n = "new_if (p2p_enable d1) dev (int b) (int idx) (em_ifname e) (Some (em_addr e))"
      have n: "ndev ?n \<noteq> None" using assms(5) keep by (auto simp: new_if_def step_keeps_def)
      have "fweh_wf ?d2" using if_added_wf [OF wf1(2) r free] with_devices_put [OF wf1(2,3) assms(2) free n] wf1(1)
        by (auto simp: fweh_wf_def if_added_def)
      then have keep2: "step_keeps d ?d2" using keep by (simp add: step_keeps_def)
      define d3 where "d3 = (if dev then ?d2 else log_call (Proto_add_if a) ?d2)"
      have keep3: "step_keeps d d3" using keep2 log_keeps [of ?d2] step_keeps_trans [OF keep2] by (auto simp: d3_def step_keeps_def)
      have wf3: "fweh_wf d3" "if_table_wf d3" using keep3 by (simp_all add: step_keeps_def fweh_wf_def)
      have at: "iflist d3 ! b = Some a" "ifs d3 a = Some ?n"
        using assms(2) if_table_wfD(1) [OF wf1(2)] by (auto simp: d3_def log_call_def if_added_def)
      have h: "idx_get (evt_handler d3) 54 = Some (evt_handler d3 ! 54)" using wf3(1) by (simp add: fweh_wf_def)
      have head: "if_event_add alloc registers (int b) (int idx) dev e d =
          (if evt_handler d3 ! 54 = None then map_option (\<lambda>(e, d). (e \<ge> 0, Some a, d)) (brcmf_net_attach registers a d3)
           else Some (True, Some a, d3))"
        using add k(1) \<open>k = Some d1\<close> Some h
        by (cases "brcmf_net_attach registers a d3") (auto simp: if_event_add_def d3_def [symmetric] Let_def)
      have "fweh_wf (d3\<lparr>iflist := (iflist d3)[b := None]\<rparr>)"
        using if_table_wf_unlist [OF wf3(2) assms(2)] wf3(1) assms(2) if_table_wfD(1) [OF wf3(2)]
        by (auto simp: fweh_wf_def with_devices_def nth_list_update)
      then have "step_keeps d (d3\<lparr>iflist := (iflist d3)[b := None]\<rparr>)" using keep3 by (simp add: step_keeps_def)
      then show ?thesis using head net_attach_wf [OF wf3(2) assms(2) at n, of registers] keep3 by auto
    qed
  qed
qed

text \<open>The end of the handling: the call of the handler, and the removal.\<close>

definition if_event_finish ::
    "('h, 'a) handlers \<Rightarrow> u8 \<Rightarrow> nat option \<Rightarrow> brcmf_event_msg \<Rightarrow> u8 list \<Rightarrow> ('h, 'a) brcmf_pub_scheme \<Rightarrow> ('h, 'a) brcmf_pub_scheme option" where
  "if_event_finish run action ifp e dat d = do {
     (err, d) \<leftarrow> brcmf_fweh_call_event_handler run ifp (unat (em_code e)) e dat d;
     if ifp \<noteq> None \<and> action = BRCMF_E_IF_DEL \<and> \<not> armed d then brcmf_remove_interface ifp d else Some d
   }"

lemma if_event_finish_keeps:
  assumes "fweh_wf d" "leaves_table run" "unat (em_code e) < 197" "action \<noteq> 2 \<or> b < 16 \<and> iflist d ! b = ifp"
  shows "\<exists>d'. if_event_finish run action ifp e dat d = Some d' \<and> step_keeps d d'"
proof -
  obtain err d1 where c: "brcmf_fweh_call_event_handler run ifp (unat (em_code e)) e dat d = Some (err, d1)" "step_keeps d d1"
      "iflist d1 = iflist d" using call_keeps [OF assms(1-3)] by blast
  show ?thesis
  proof (cases "ifp \<noteq> None \<and> action = 2 \<and> \<not> armed d1")
    case True
    then obtain a where a: "ifp = Some a" "action = 2" by auto
    have "fweh_wf d1" "b < 16" "iflist d1 ! b = Some a" using c assms(4) a by (auto simp: step_keeps_def)
    then obtain d2 where "brcmf_remove_interface (Some a) d1 = Some d2" "step_keeps d1 d2" using remove_keeps by blast
    then show ?thesis using True c a step_keeps_trans [OF c(2)] by (auto simp: if_event_finish_def)
  qed (use c in \<open>auto simp: if_event_finish_def\<close>)
qed

lemma if_event_keeps:
  assumes "fweh_wf d" "allocates alloc" "leaves_table run" "5 \<le> length dat" "unat (dat ! 3) < 16"
    "p2p_enable d \<or> dat ! 2 AND 1 = 0" "unat (em_code e) < 197"
  shows "\<exists>d'. brcmf_fweh_handle_if_event run alloc registers e dat d = Some d' \<and> step_keeps d d'"
proof -
  define noif where "noif = (dat ! 2 AND 1 \<noteq> 0)"
  define dev where "dev = (noif \<and> (dat ! 4 = 4 \<or> dat ! 4 = 0 \<and> p2pdev_setup_ongoing d))"
  let ?idx = "unat (dat ! 0)" and ?b = "unat (dat ! 3)"
  have at: "mem_at dat 0 = Some (dat ! 0)" "mem_at dat 1 = Some (dat ! 1)" "mem_at dat 2 = Some (dat ! 2)"
    "mem_at dat 3 = Some (dat ! 3)" "mem_at dat 4 = Some (dat ! 4)"
    using assms(4) by (auto simp: mem_at_def)
  have flag: "(if noif then map_option (\<lambda>role. role = 4 \<or> role = 0 \<and> p2pdev_setup_ongoing d) (mem_at dat 4) else Some False) = Some dev"
    by (simp add: dev_def at(5) del: mem_at_Some)
  have l: "idx_get (iflist d) (uint (dat ! 3)) = Some (iflist d ! ?b)"
    using assms(1,5) if_table_wfD(1) [of d] by (intro idx_get_uint) (simp add: fweh_wf_def)
  show ?thesis
  proof (cases "\<not> dev \<and> noif \<or> 16 \<le> ?idx")
    case True
    then show ?thesis
      using at flag step_keeps_refl [OF assms(1)]
      by (auto simp: brcmf_fweh_handle_if_event_def Let_def noif_def [symmetric] simp del: mem_at_Some)
  next
    case False
    then have go: "(\<not> dev \<and> noif) = False" "?idx < 16" by auto
    show ?thesis
    proof (cases "dat ! 1 = 1")
      case True
      have "p2p_enable d \<or> \<not> dev" using assms(6) by (auto simp: dev_def noif_def)
      then obtain k p d1 where add: "if_event_add alloc registers (int ?b) (int ?idx) dev e d = Some (k, p, d1)" "step_keeps d d1"
        using if_event_add_keeps [OF assms(1,5) go(2) assms(2), of dev registers e] by auto
      have eq: "brcmf_fweh_handle_if_event run alloc registers e dat d =
          (if k then if_event_finish run 1 p e dat d1 else Some d1)"
        using at flag l go add(1) True
        by (cases p) (auto simp: brcmf_fweh_handle_if_event_def if_event_finish_def Let_def noif_def [symmetric] simp del: mem_at_Some)
      have "fweh_wf d1" using add(2) by (simp add: step_keeps_def)
      then obtain d2 where "if_event_finish run 1 p e dat d1 = Some d2" "step_keeps d1 d2"
        using if_event_finish_keeps [OF _ assms(3,7), of d1 1] by auto
      then show ?thesis using eq add(2) step_keeps_trans [OF add(2)] by (cases k) auto
    next
      case False
      define d1 where "d1 = (case iflist d ! ?b of Some a \<Rightarrow> if dat ! 1 = 3 then log_call (Proto_reset_if a) d else d | None \<Rightarrow> d)"
      have d1: "step_keeps d d1" "iflist d1 = iflist d"
        using step_keeps_refl [OF assms(1)] log_keeps [OF assms(1)]
        by (auto simp: d1_def split: option.splits) (simp_all add: log_call_def)
      have eq: "brcmf_fweh_handle_if_event run alloc registers e dat d = if_event_finish run (dat ! 1) (iflist d ! ?b) e dat d1"
        using at flag l go False
        by (auto simp: brcmf_fweh_handle_if_event_def if_event_finish_def Let_def noif_def [symmetric] d1_def One_nat_def [symmetric] simp del: One_nat_def mem_at_Some)
      have "fweh_wf d1" using d1(1) by (simp add: step_keeps_def)
      then obtain d2 where "if_event_finish run (dat ! 1) (iflist d ! ?b) e dat d1 = Some d2" "step_keeps d1 d2"
        using if_event_finish_keeps [OF _ assms(3,7), of d1 "dat ! 1" ?b "iflist d ! ?b"] assms(5) d1(2) by auto
      then show ?thesis using eq step_keeps_trans [OF d1(1)] by simp
    qed
  qed
qed

lemma convert_total:
  assumes "length m = 48"
  shows "\<exists>e. convert_event_msg code m = Some e \<and> em_code e = of_nat code \<and> em_bsscfgidx e = m ! 47"
  using assms by (simp add: convert_event_msg_def be16_at_def be32_at_def bytes_at_def)

lemma fweh_event_keeps:
  assumes "fweh_wf d" "allocates alloc" "leaves_table run" "servable (p2p_enable d) e"
  shows "\<exists>d'. fweh_event run alloc registers e d = Some d' \<and> step_keeps d d'"
proof -
  have e: "length (it_emsg e) = 48" "it_code e < 197" using assms(4) by (simp_all add: servable_def)
  have at: "mem_at (it_emsg e) 47 = Some (it_emsg e ! 47)" using e(1) by simp
  obtain msg where msg: "convert_event_msg (it_code e) (it_emsg e) = Some msg" "em_code msg = of_nat (it_code e)" "em_bsscfgidx msg = it_emsg e ! 47"
    using convert_total [OF e(1)] by blast
  have code: "unat (em_code msg) = it_code e" using msg(2) e(2) by (simp add: unat_of_nat_u32)
  show ?thesis
  proof (cases "16 \<le> unat (it_emsg e ! 47)")
    case True
    then show ?thesis using at step_keeps_refl [OF assms(1)] by (simp add: fweh_event_def)
  next
    case small: False
    show ?thesis
    proof (cases "it_code e = 54")
      case True
      then have "5 \<le> length (it_data e)" "unat (it_data e ! 3) < 16" "p2p_enable d \<or> it_data e ! 2 AND 1 = 0"
        using assms(4) by (simp_all add: servable_def)
      then show ?thesis using if_event_keeps [OF assms(1-3), of "it_data e" msg registers] True small at msg(1) code
        by (simp add: fweh_event_def)
    next
      case False
      let ?i = "if it_code e = 92 then 0 else uint (it_emsg e ! 47)"
      have "length (iflist d) = 16" using assms(1) if_table_wfD(1) by (auto simp: fweh_wf_def)
      then obtain ifp where ifp: "idx_get (iflist d) ?i = Some ifp"
        using small idx_get_uint [of "it_emsg e ! 47" "iflist d"] by (cases "it_code e = 92") auto
      obtain err d1 where "brcmf_fweh_call_event_handler run ifp (it_code e) msg (it_data e) d = Some (err, d1)" "step_keeps d d1"
        using call_keeps [OF assms(1,3) e(2)] by blast
      then show ?thesis using False small at msg ifp by (cases "it_code e = 92") (simp_all add: fweh_event_def)
    qed
  qed
qed

text \<open>The events served one after the other.\<close>

fun serve ::
    "('h, 'a) handlers \<Rightarrow> (('h, 'a) brcmf_pub_scheme \<Rightarrow> nat option) \<Rightarrow> (nat \<Rightarrow> bool) \<Rightarrow> brcmf_fweh_queue_item list
      \<Rightarrow> ('h, 'a) brcmf_pub_scheme \<Rightarrow> ('h, 'a) brcmf_pub_scheme option" where
  "serve run alloc registers [] d = Some d"
| "serve run alloc registers (e # q) d = Option.bind (fweh_event run alloc registers e (d\<lparr>event_q := q\<rparr>)) (serve run alloc registers q)"

lemma fweh_wf_queue [simp]: "fweh_wf (d\<lparr>event_q := q\<rparr>) = fweh_wf d"
  by (simp add: fweh_wf_def with_devices_def if_table_wf_def)

lemma worker_serves:
  assumes "fweh_wf d" "allocates alloc" "leaves_table run" "\<forall>e\<in>set (event_q d). servable (p2p_enable d) e"
  shows "\<exists>d'. brcmf_fweh_event_worker run alloc registers d = Some d' \<and> serve run alloc registers (event_q d) d = Some d'
    \<and> event_q d' = [] \<and> fweh_wf d'"
  using assms(1,4)
proof (induction "event_q d" arbitrary: d)
  case (Cons e q)
  have q: "event_q d = e # q" using Cons.hyps(2) by simp
  have wf: "fweh_wf (d\<lparr>event_q := q\<rparr>)" using Cons.prems(1) by simp
  have ok: "servable (p2p_enable (d\<lparr>event_q := q\<rparr>)) e" using Cons.prems(2) q by simp
  obtain d1 where d1: "fweh_event run alloc registers e (d\<lparr>event_q := q\<rparr>) = Some d1" "step_keeps (d\<lparr>event_q := q\<rparr>) d1"
    using fweh_event_keeps [OF wf assms(2,3) ok] by blast
  then have "q = event_q d1" "fweh_wf d1" "\<forall>e\<in>set (event_q d1). servable (p2p_enable d1) e"
    using Cons.prems(2) q by (simp_all add: step_keeps_def)
  then obtain d' where "brcmf_fweh_event_worker run alloc registers d1 = Some d'" "serve run alloc registers q d1 = Some d'"
      "event_q d' = []" "fweh_wf d'"
    using Cons.hyps(1) by blast
  then show ?case using worker_next [OF q, of run alloc registers] d1(1) q by simp
qed simp

subsection \<open>Properties\<close>

text \<open>
  C13: The worker empties the queue: with any number of events, among them some that add, change and remove
  interfaces, it ends, has served each event once and in the order of arrival, and leaves a well-formed table
  of interfaces, each with its network device. The handlers are any that leave the queue and the
  table alone, the events as long as they must be, with a number of an interface in range.
\<close>

theorem events_served_in_order:
  assumes "fweh_wf d" "allocates alloc" "leaves_table run" "\<forall>e\<in>set (event_q d). servable (p2p_enable d) e"
  shows "\<exists>d'. brcmf_fweh_event_worker run alloc registers d = Some d' \<and> serve run alloc registers (event_q d) d = Some d'
    \<and> event_q d' = [] \<and> fweh_wf d'"
  by (rule worker_serves [OF assms])

text \<open>
  Handlers that write down what they were called with; the last component of the state is the list.
\<close>

definition noting :: "(nat, (nat \<times> nat \<times> u8 list) list) handlers" where
  "noting h a e dat d = (0, brcmf_pub.more_update (\<lambda>l. l @ [(h, a, dat)]) d)"

definition sample_pub :: "brcmf_fweh_queue_item list \<Rightarrow> (nat, (nat \<times> nat \<times> u8 list) list) brcmf_pub_scheme" where
  "sample_pub q = \<lparr>iflist = (replicate 16 None)[0 := Some 100], if2bss = (replicate 16 (- 1))[0 := 0],
     ifs = (\<lambda>_. None)(100 \<mapsto> \<lparr>ndev = Some [], ni_ifidx = 0, ni_bsscfgidx = 0, ni_mac = replicate 6 0\<rparr>), if_calls = [], p2p_enable = False,
     evt_handler = (replicate 197 None)[54 := Some 1, 69 := Some 2], event_q = q, p2pdev_setup_ongoing = False, work_ready = True,
     armed = False, \<dots> = []\<rparr>"

definition sample_event :: "nat \<Rightarrow> u8 \<Rightarrow> u8 list \<Rightarrow> brcmf_fweh_queue_item" where
  "sample_event code b dat = \<lparr>it_code = code, it_ifidx = 0, it_ifaddr = replicate 6 0, it_emsg = replicate 47 0 @ [b],
     it_datalen = of_nat (length dat), it_data = dat\<rparr>"

lemma noting_leaves_table: "leaves_table noting"
  by (simp add: leaves_table_def noting_def Let_def)

lemma sample_pub_wf: "fweh_wf (sample_pub q)"
proof -
  have "fweh_wf (sample_pub [])" by code_simp
  moreover have "sample_pub q = (sample_pub [])\<lparr>event_q := q\<rparr>" by (simp add: sample_pub_def)
  ultimately show ?thesis by (simp del: brcmf_pub.update_convs)
qed

theorem events_served_in_order_witness:
  "let q = [sample_event 54 0 [3, 1, 0, 5, 0], sample_event 69 5 [7]] in
    \<exists>d'. brcmf_fweh_event_worker noting sample_alloc (\<lambda>_. True) (sample_pub q) = Some d' \<and>
      serve noting sample_alloc (\<lambda>_. True) q (sample_pub q) = Some d' \<and> event_q d' = [] \<and> fweh_wf d'"
proof -
  let ?q = "[sample_event 54 0 [3, 1, 0, 5, 0], sample_event 69 5 [7]]"
  have "\<forall>e\<in>set (event_q (sample_pub ?q)). servable (p2p_enable (sample_pub ?q)) e" by code_simp
  from events_served_in_order [OF sample_pub_wf sample_allocates noting_leaves_table this]
  show ?thesis by (simp add: Let_def sample_pub_def)
qed

text \<open>
  C12: An event that the firmware sends, of a code with a handler, with any data up to 8192 bytes, for a number
  of an interface in range, reaches that handler: processing its packet and running the worker calls the handler
  once, with the interface of that number, or the first for events about peers, and with every field of the message
  and all its data as they were sent.
\<close>

theorem event_reaches_handler:
  assumes "event_ok eth e dat" "stype \<in> {0, BCMILCP_SUBTYPE_VENDOR_LONG}" "fweh_wf d" "event_q d = []"
    "unat (em_code e) \<noteq> BRCMF_E_IF" "evt_handler d ! unat (em_code e) = Some h" "unat (em_bsscfgidx e) < BRCMF_MAX_IFS"
    "iflist d ! (if unat (em_code e) = BRCMF_E_TDLS_PEER_EVENT then 0 else unat (em_bsscfgidx e)) = Some a"
    "event_q (snd (run h a e dat d)) = []"
  shows "\<exists>d'. brcmf_fweh_process_skb True ETH_P_LINK_CTL (event_packet eth len ver e dat) stype d = Some d'
    \<and> brcmf_fweh_event_worker run alloc registers d' = Some (snd (run h a e dat d))"
proof -
  let ?it = "event_item eth e dat" and ?d = "d\<lparr>event_q := [event_item eth e dat]\<rparr>"
  have l: "length (evt_handler d) = 197" "length (iflist d) = 16" "length (em_addr e) = 6" "length (em_ifname e) = 16"
    "unat (em_code e) < 197"
    using assms(1,3) if_table_wfD(1) by (auto simp: fweh_wf_def event_ok_def)
  have queued: "brcmf_fweh_process_skb True ETH_P_LINK_CTL (event_packet eth len ver e dat) stype d = Some ?d"
    using event_queued [OF assms(1,2) l(1), of len ver] assms(4,6) by simp
  have b: "mem_at (event_msg_bytes e) 47 = Some (em_bsscfgidx e)" by (rule event_msg_fields(5) [OF l(3,4)])
  have i: "idx_get (iflist d) (if unat (em_code e) = 92 then 0 else int (unat (em_bsscfgidx e))) = Some (Some a)"
    using assms(7,8) l(2) idx_get_uint [of "em_bsscfgidx e" "iflist d"] by (cases "unat (em_code e) = 92") auto
  have call: "brcmf_fweh_call_event_handler run (Some a) (unat (em_code e)) e dat d = Some (run h a e dat d)"
    using assms(6) l(1,5) by (simp add: brcmf_fweh_call_event_handler_def idx_get_uint)
  have "fweh_event run alloc registers ?it d = Some (snd (run h a e dat d))"
    using b i call convert_event [OF l(3,4)] assms(5,7)
    by (cases "run h a e dat d") (simp add: fweh_event_def event_item_def del: mem_at_Some split del: if_split)
  moreover have "?d\<lparr>event_q := []\<rparr> = d" using assms(4) by simp
  ultimately have "brcmf_fweh_event_worker run alloc registers ?d = Some (snd (run h a e dat d))"
    using worker_next [of ?d ?it "[]" run alloc registers] assms(9) by simp
  then show ?thesis using queued by blast
qed

definition sample_msg :: "u32 \<Rightarrow> u8 \<Rightarrow> nat \<Rightarrow> brcmf_event_msg" where
  "sample_msg code b n = \<lparr>em_version = 2, em_flags = 1, em_code = code, em_status = 8, em_reason = 0x12345678, em_auth_type = 0,
     em_datalen = of_nat n, em_addr = [2, 0, 0, 0, 0, 9], em_ifname = replicate 16 0x77, em_ifidx = 0, em_bsscfgidx = b\<rparr>"

theorem event_reaches_handler_witness:
  "\<exists>d'. brcmf_fweh_process_skb True ETH_P_LINK_CTL (event_packet (replicate 14 0) 90 0 (sample_msg 69 0 2) [7, 8]) 0 (sample_pub []) = Some d'
    \<and> brcmf_fweh_event_worker noting sample_alloc (\<lambda>_. True) d' = Some (snd (noting 2 100 (sample_msg 69 0 2) [7, 8] (sample_pub [])))"
proof (rule event_reaches_handler [OF _ _ sample_pub_wf])
  show "event_ok (replicate 14 0) (sample_msg 69 0 2) [7, 8]" by code_simp
  show "evt_handler (sample_pub []) ! unat (em_code (sample_msg 69 0 2)) = Some 2" by code_simp
  show "event_q (snd (noting 2 100 (sample_msg 69 0 2) [7, 8] (sample_pub []))) = []" by (simp add: noting_def sample_pub_def)
qed (simp_all add: sample_msg_def sample_pub_def)

text \<open>
  Nothing checks the data of an interface event. One whose data is too short to hold the flags,
  or that names an interface beyond the table, passes all the checks made on its packet, is queued, and makes the worker
  read outside of the event, or of the table, which it goes on to write when the event adds an interface.
\<close>

theorem if_event_data_unchecked:
  assumes "event_ok eth e dat" "fweh_wf d" "event_q d = []" "unat (em_code e) = BRCMF_E_IF" "unat (em_bsscfgidx e) < BRCMF_MAX_IFS"
    "length dat \<le> 2 \<or> 4 \<le> length dat \<and> dat ! 2 AND BRCMF_E_IF_FLAG_NOIF = 0 \<and> unat (dat ! 0) < BRCMF_MAX_IFS
      \<and> BRCMF_MAX_IFS \<le> unat (dat ! 3)"
  shows "\<exists>d'. brcmf_fweh_process_skb True ETH_P_LINK_CTL (event_packet eth len ver e dat) BCMILCP_SUBTYPE_VENDOR_LONG d = Some d'
    \<and> brcmf_fweh_event_worker run alloc registers d' = None"
proof -
  let ?it = "event_item eth e dat" and ?d = "d\<lparr>event_q := [event_item eth e dat]\<rparr>"
  have l: "length (evt_handler d) = 197" "length (iflist d) = 16" "length (em_addr e) = 6" "length (em_ifname e) = 16"
    using assms(1,2) if_table_wfD(1) by (auto simp: fweh_wf_def event_ok_def)
  have queued: "brcmf_fweh_process_skb True ETH_P_LINK_CTL (event_packet eth len ver e dat) BCMILCP_SUBTYPE_VENDOR_LONG d = Some ?d"
    using event_queued [OF assms(1) _ l(1), of BCMILCP_SUBTYPE_VENDOR_LONG len ver] assms(3,4) by simp
  have b: "mem_at (event_msg_bytes e) 47 = Some (em_bsscfgidx e)" by (rule event_msg_fields(5) [OF l(3,4)])
  have "brcmf_fweh_handle_if_event run alloc registers e dat d = None"
  proof (cases "length dat \<le> 2")
    case True
    then show ?thesis by (simp add: brcmf_fweh_handle_if_event_def mem_at_def)
  next
    case False
    then have "4 \<le> length dat" "dat ! 2 AND 1 = 0" "unat (dat ! 0) < 16" "16 \<le> unat (dat ! 3)" using assms(6) by auto
    moreover have "mem_at dat 0 = Some (dat ! 0)" "mem_at dat 2 = Some (dat ! 2)" "mem_at dat 3 = Some (dat ! 3)"
      using calculation(1) by (auto simp: mem_at_def)
    moreover have "idx_get (iflist d) (uint (dat ! 3)) = None" using calculation(4) l(2) by (simp add: idx_get_def)
    ultimately show ?thesis by (simp add: brcmf_fweh_handle_if_event_def del: mem_at_Some)
  qed
  then have "fweh_event run alloc registers ?it d = None"
    using b convert_event [OF l(3,4)] assms(4,5) by (simp add: fweh_event_def event_item_def del: mem_at_Some)
  moreover have "?d\<lparr>event_q := []\<rparr> = d" using assms(3) by simp
  ultimately show ?thesis using queued worker_next [of ?d ?it "[]" run alloc registers] by simp
qed

theorem if_event_data_unchecked_witness:
  "\<exists>d'. brcmf_fweh_process_skb True ETH_P_LINK_CTL (event_packet (replicate 14 0) 90 0 (sample_msg 54 0 4) [1, 1, 0, 200])
      BCMILCP_SUBTYPE_VENDOR_LONG (sample_pub []) = Some d'
    \<and> brcmf_fweh_event_worker noting sample_alloc (\<lambda>_. True) d' = None"
proof (rule if_event_data_unchecked [OF _ sample_pub_wf])
  show "event_ok (replicate 14 0) (sample_msg 54 0 4) [1, 1, 0, 200]" by code_simp
qed (simp_all add: sample_msg_def sample_pub_def)

subsection \<open>The mask\<close>

definition mask_bit :: "u8 list \<Rightarrow> nat \<Rightarrow> bool" where
  "mask_bit m i = bit (m ! (i div 8)) (i mod 8)"

lemma setbit_in:
  assumes "i div 8 < length m"
  shows "setbit m i = Some (m[i div 8 := m ! (i div 8) OR push_bit (i mod 8) 1])"
  using assms by (simp add: setbit_def buf_write_def upd_conv_take_nth_drop)

lemma mask_bit_set:
  assumes "i div 8 < length m" "j div 8 < length m"
  shows "mask_bit (m[i div 8 := m ! (i div 8) OR push_bit (i mod 8) 1]) j = (j = i \<or> mask_bit m j)"
proof (cases "j div 8 = i div 8")
  case True
  have "(j mod 8 = i mod 8) = (j = i)" using True by (metis div_mult_mod_eq)
  then show ?thesis using True assms by (auto simp: mask_bit_def bit_simps)
next
  case False
  then have "j \<noteq> i" by auto
  then show ?thesis using False by (simp add: mask_bit_def)
qed

lemma set_event_bits_mask:
  assumes "i + length hs \<le> 8 * length m"
  shows "\<exists>m'. set_event_bits hs i m = Some m' \<and> length m' = length m
    \<and> (\<forall>j<8 * length m. mask_bit m' j = (mask_bit m j \<or> i \<le> j \<and> j < i + length hs \<and> hs ! (j - i) \<noteq> None))"
  using assms
proof (induction hs arbitrary: i m)
  case (Cons h hs)
  then have i: "i div 8 < length m" by auto
  define m1 where "m1 = (if h = None then m else m[i div 8 := m ! (i div 8) OR push_bit (i mod 8) 1])"
  have len: "length m1 = length m" by (simp add: m1_def)
  have "Suc i + length hs \<le> 8 * length m1" using Cons.prems len by simp
  then obtain m' where m': "set_event_bits hs (Suc i) m1 = Some m'" "length m' = length m"
      "\<And>j. j < 8 * length m \<Longrightarrow> mask_bit m' j = (mask_bit m1 j \<or> Suc i \<le> j \<and> j < Suc i + length hs \<and> hs ! (j - Suc i) \<noteq> None)"
    using Cons.IH [of "Suc i" m1] len by auto
  have "mask_bit m' j = (mask_bit m j \<or> i \<le> j \<and> j < i + length (h # hs) \<and> (h # hs) ! (j - i) \<noteq> None)" if "j < 8 * length m" for j
  proof -
    have "mask_bit m1 j = (mask_bit m j \<or> j = i \<and> h \<noteq> None)"
      using mask_bit_set [OF i, of j] that by (auto simp: m1_def)
    then show ?thesis using m'(3) [OF that] by (cases "j = i") (auto simp: nth_Cons')
  qed
  moreover have "set_event_bits (h # hs) i m = Some m'" using m'(1) i by (cases h) (simp_all add: m1_def setbit_in)
  ultimately show ?case using m'(2) by blast
qed auto

lemma event_mask_bits:
  assumes "length (evt_handler d) = 197"
  shows "\<exists>m. event_mask d = Some m \<and> length m = 25
    \<and> (\<forall>j<200. mask_bit m j = (j = BRCMF_E_IF \<or> j < BRCMF_E_LAST \<and> evt_handler d ! j \<noteq> None))"
proof -
  obtain m where m: "set_event_bits (evt_handler d) 0 (replicate 25 0) = Some m" "length m = 25"
      "\<And>j. j < 200 \<Longrightarrow> mask_bit m j = (j < 197 \<and> evt_handler d ! j \<noteq> None)"
    using set_event_bits_mask [of 0 "evt_handler d" "replicate 25 0"] assms by (auto simp: mask_bit_def)
  have "event_mask d = Some (m[54 div 8 := m ! (54 div 8) OR push_bit (54 mod 8) 1])"
    using m(1,2) setbit_in [of 54 m] by (simp add: event_mask_def)
  then show ?thesis using m(2,3) mask_bit_set [of 54 m] by auto
qed

text \<open>
  C15: The firmware is asked for the right events: when it takes the variable, it gets, under the name
  \<open>event_msgs_ext\<close>, a header that says the version, that the mask is to be set, and its length, and a mask whose
  bits are set exactly for the events with a handler and for interface events.
\<close>

theorem activated_events_are_handled:
  assumes "length (evt_handler d) = BRCMF_E_LAST" "fil_ready ifp (chars ''event_msgs_ext'') 29"
    "\<And>buf n s. dcmd True BRCMF_C_SET_VAR (Some buf) n s = Some (0, 0, Some buf, s @ [take (unat n) buf])"
  shows "\<exists>ifp' req mask. brcmf_fweh_activate_events True dcmd ifp d = Some (0, ifp') \<and> dongle ifp' = dongle ifp @ [req]
    \<and> fw_request req = Some (0, chars ''event_msgs_ext'', [1, 3, 25, 0] @ mask) \<and> length mask = 25
    \<and> (\<forall>j<200. mask_bit mask j = (j = BRCMF_E_IF \<or> j < BRCMF_E_LAST \<and> evt_handler d ! j \<noteq> None))"
proof -
  obtain m where m: "event_mask d = Some m" "length m = 25"
      "\<forall>j<200. mask_bit m j = (j = 54 \<or> j < 197 \<and> evt_handler d ! j \<noteq> None)"
    using event_mask_bits [OF assms(1)] by blast
  let ?if = "ifp\<lparr>bsscfgidx := 0\<rparr>" and ?name = "chars ''event_msgs_ext''" and ?msg = "[1, 3, 25, 0] @ m"
  have ready: "fil_ready ?if ?name (unat (29 :: u32))" using assms(2) by (simp add: fil_ready_def)
  have "unat (29 :: u32) \<le> length ?msg" using m(2) by simp
  note req = request_made [OF ready this]
  let ?req = "request_bytes (bsscfgidx ?if) ?name (take (unat (29 :: u32)) ?msg)"
  let ?buf = "?req @ drop (length ?req) (proto_buf ?if)"
  have made: "brcmf_create_iovar ?name (Some ?msg) 29 (proto_buf ifp) proto_buf_size = Some (of_nat (length ?req), ?buf)"
    using req(1) by (simp add: brcmf_create_bsscfg_def)
  have "brcmf_fil_cmd_data dcmd ifp BRCMF_C_SET_VAR (Some ?buf) (of_nat (length ?req)) True =
      Some (0, Some ?buf, ifp\<lparr>dongle := dongle ifp @ [?req]\<rparr>)"
    using cmd_data_plain [of ifp "of_nat (length ?req)" dcmd 263 ?buf True] assms(2,3) req(2,4) by (simp add: fil_ready_def)
  then have "brcmf_fil_iovar_data_set dcmd ifp ?name (Some ?msg) 29 = Some (0, ifp\<lparr>dongle := dongle ifp @ [?req], proto_buf := ?buf\<rparr>)"
    using made req(3) by (simp add: brcmf_fil_iovar_data_set_def fil_var_set_def)
  then have "brcmf_fweh_activate_events True dcmd ifp d = Some (0, ifp\<lparr>dongle := dongle ifp @ [?req], proto_buf := ?buf\<rparr>)"
    using m(1) by (simp add: brcmf_fweh_activate_events_def Let_def)
  moreover have "fw_request ?req = Some (0, ?name, ?msg)" using req(5) m(2) by simp
  ultimately show ?thesis using m(2,3) by (intro exI [of _ "ifp\<lparr>dongle := dongle ifp @ [?req], proto_buf := ?buf\<rparr>"] exI [of _ ?req] exI [of _ m]) simp
qed

text \<open>A firmware that takes every variable, and keeps the requests.\<close>

definition taking_dcmd :: "u8 list list dcmd" where
  "taking_dcmd set_it cmd dat n s = (case dat of None \<Rightarrow> None | Some buf \<Rightarrow> Some (0, 0, dat, s @ [take (unat n) buf]))"

definition taking_if :: "u8 list list fil_if" where
  "taking_if = \<lparr>bus_up = True, fwil_fwerr = False, bsscfgidx = 0, proto_buf = replicate BRCMF_DCMD_MAXLEN 0, dongle = []\<rparr>"

theorem activated_events_are_handled_witness:
  "\<exists>ifp' req mask. brcmf_fweh_activate_events True taking_dcmd taking_if (sample_pub []) = Some (0, ifp') \<and> dongle ifp' = dongle taking_if @ [req]
    \<and> fw_request req = Some (0, chars ''event_msgs_ext'', [1, 3, 25, 0] @ mask) \<and> length mask = 25
    \<and> (\<forall>j<200. mask_bit mask j = (j = BRCMF_E_IF \<or> j < BRCMF_E_LAST \<and> evt_handler (sample_pub []) ! j \<noteq> None))"
proof (rule activated_events_are_handled)
  show "fil_ready taking_if (chars ''event_msgs_ext'') 29"
    by (simp add: fil_ready_def taking_if_def plain_name_def prefix_facts bsscfg_prefix_def chars_def)
qed (simp_all add: taking_dcmd_def sample_pub_def)

end
