(* ===== verification/Skbuff.thy ===== *)
theory Skbuff
  imports Memory
begin

section \<open>Socket buffers of the bus layers\<close>

text \<open>
  The bus layers move the data pointer of a packet within its allocation and rely on what lies
  around the data. A \<open>sk_buff\<close> is therefore the memory in front of the data pointer
  (\<open>sk_head\<close>), the memory from the data pointer to the end of the allocation (\<open>sk_mem\<close>) and
  the length of the data. \<open>skb_pull\<close> beyond the data does nothing; \<open>skb_push\<close> and \<open>skb_put\<close>
  beyond the allocation panic, which is \<open>None\<close>; \<open>__skb_trim\<close> sets the length whatever it was.
\<close>

record sk_buff =
  sk_head :: "u8 list"
  sk_mem :: "u8 list"
  sk_len :: nat

definition skb_data :: "'a sk_buff_scheme \<Rightarrow> u8 list" where
  "skb_data skb = take (sk_len skb) (sk_mem skb)"

definition skb_headroom :: "'a sk_buff_scheme \<Rightarrow> nat" where
  "skb_headroom skb = length (sk_head skb)"

definition skb_tailroom :: "'a sk_buff_scheme \<Rightarrow> nat" where
  "skb_tailroom skb = length (sk_mem skb) - sk_len skb"

definition skb_pull :: "nat \<Rightarrow> 'a sk_buff_scheme \<Rightarrow> 'a sk_buff_scheme" where
  "skb_pull n skb =
     (if sk_len skb < n then skb
      else skb\<lparr>sk_head := sk_head skb @ take n (sk_mem skb), sk_mem := drop n (sk_mem skb),
               sk_len := sk_len skb - n\<rparr>)"

definition skb_push :: "nat \<Rightarrow> 'a sk_buff_scheme \<Rightarrow> 'a sk_buff_scheme option" where
  "skb_push n skb =
     (if skb_headroom skb < n then None
      else let k = skb_headroom skb - n in
        Some (skb\<lparr>sk_head := take k (sk_head skb), sk_mem := drop k (sk_head skb) @ sk_mem skb,
                  sk_len := sk_len skb + n\<rparr>))"

definition skb_put :: "nat \<Rightarrow> 'a sk_buff_scheme \<Rightarrow> 'a sk_buff_scheme option" where
  "skb_put n skb = (if skb_tailroom skb < n then None else Some (skb\<lparr>sk_len := sk_len skb + n\<rparr>))"

definition skb_trim :: "nat \<Rightarrow> 'a sk_buff_scheme \<Rightarrow> 'a sk_buff_scheme" where
  "skb_trim n skb = (if n < sk_len skb then skb\<lparr>sk_len := n\<rparr> else skb)"

definition skb_set_length :: "nat \<Rightarrow> 'a sk_buff_scheme \<Rightarrow> 'a sk_buff_scheme" where
  "skb_set_length n skb = skb\<lparr>sk_len := n\<rparr>"

text \<open>Bytes stored at an offset of the data pointer.\<close>

definition skb_store :: "nat \<Rightarrow> u8 list \<Rightarrow> 'a sk_buff_scheme \<Rightarrow> 'a sk_buff_scheme option" where
  "skb_store i bs skb = map_option (\<lambda>m. skb\<lparr>sk_mem := m\<rparr>) (buf_write (sk_mem skb) i bs)"

definition skb_wf :: "'a sk_buff_scheme \<Rightarrow> bool" where
  "skb_wf skb \<longleftrightarrow> sk_len skb \<le> length (sk_mem skb)"

subsection \<open>Laws\<close>

named_theorems skb_laws

lemma length_skb_data [skb_laws]: "skb_wf skb \<Longrightarrow> length (skb_data skb) = sk_len skb"
  by (simp add: skb_data_def skb_wf_def)

lemma skb_pull_data [skb_laws]: "n \<le> sk_len skb \<Longrightarrow> skb_data (skb_pull n skb) = drop n (skb_data skb)"
  by (simp add: skb_data_def skb_pull_def drop_take)

lemma skb_pull_len [skb_laws]: "sk_len (skb_pull n skb) = (if sk_len skb < n then sk_len skb else sk_len skb - n)"
  by (simp add: skb_pull_def)

lemma skb_pull_wf [skb_laws]: "skb_wf skb \<Longrightarrow> skb_wf (skb_pull n skb)"
  by (auto simp: skb_wf_def skb_pull_def)

lemma skb_pull_mem [skb_laws]: "n \<le> sk_len skb \<Longrightarrow> sk_mem (skb_pull n skb) = drop n (sk_mem skb)"
  by (simp add: skb_pull_def)

lemma skb_push_pull [skb_laws]:
  assumes "skb_wf skb" "n \<le> sk_len skb"
  shows "skb_push n (skb_pull n skb) = Some skb"
  using assms by (simp add: skb_push_def skb_pull_def skb_headroom_def skb_wf_def)

lemma skb_pull_push [skb_laws]: "skb_push n skb = Some skb' \<Longrightarrow> skb_pull n skb' = skb"
  by (auto simp: skb_push_def skb_pull_def skb_headroom_def Let_def split: if_splits)

lemma skb_push_room: "n \<le> skb_headroom skb \<Longrightarrow>
    \<exists>skb'. skb_push n skb = Some skb' \<and> sk_len skb' = sk_len skb + n \<and> drop n (sk_mem skb') = sk_mem skb"
  by (simp add: skb_push_def skb_headroom_def Let_def)

lemma skb_store_len: "skb_store i bs skb = Some skb' \<Longrightarrow> sk_len skb' = sk_len skb"
  by (auto simp: skb_store_def)

lemma skb_store_at_front:
  assumes "length bs \<le> length (sk_mem skb)"
  shows "skb_store 0 bs skb = Some (skb\<lparr>sk_mem := bs @ drop (length bs) (sk_mem skb)\<rparr>)"
  using assms by (simp add: skb_store_def buf_write_def)

end
