(* ===== verification/Sdio_Dev.thy ===== *)
theory Sdio_Dev
  imports Skbuff
begin

section \<open>Transfers over the SDIO bus (bcmsdh.c)\<close>

text \<open>
  The functions that move data between the host and the device. The device sees a window of
  its backplane through function 1; the window register is written when an access needs
  another window. Function 2 carries frames.

  The MMC core and the allocator are the parameters \<open>mmc_core\<close>: operations on a state \<open>'d\<close>
  that stands for the card. \<open>kern_addr\<close> is the address of the last buffer allocated. Whether the
  bus sleeps is only logged by the code.
\<close>

subsection \<open>The MMC core\<close>

text \<open>One block request: the bytes of the scatter list are its segments, in order.\<close>

record mmc_req =
  rq_write :: bool
  rq_arg :: u32
  rq_blocks :: nat
  rq_blksz :: nat
  rq_segs :: "u8 list list"

record 'd mmc_core =
  mmc_writeb :: "u32 \<Rightarrow> u8 \<Rightarrow> 'd \<Rightarrow> errno option \<times> 'd"
  mmc_readb :: "u32 \<Rightarrow> 'd \<Rightarrow> u8 \<times> 'd"
  mmc_f0_writeb :: "u32 \<Rightarrow> u8 \<Rightarrow> 'd \<Rightarrow> 'd"
  mmc_readl :: "u32 \<Rightarrow> 'd \<Rightarrow> (u32 \<times> errno option) \<times> 'd"
  mmc_writel :: "u32 \<Rightarrow> u32 \<Rightarrow> 'd \<Rightarrow> errno option \<times> 'd"
  mmc_fromio :: "u32 \<Rightarrow> nat \<Rightarrow> 'd \<Rightarrow> (errno + u8 list) \<times> 'd"
  mmc_readsb :: "nat \<Rightarrow> u32 \<Rightarrow> nat \<Rightarrow> 'd \<Rightarrow> (errno + u8 list) \<times> 'd"
  mmc_toio :: "nat \<Rightarrow> u32 \<Rightarrow> u8 list \<Rightarrow> 'd \<Rightarrow> errno option \<times> 'd"
  mmc_writesb :: "u32 \<Rightarrow> u8 list \<Rightarrow> 'd \<Rightarrow> errno option \<times> 'd"
  mmc_request :: "mmc_req \<Rightarrow> 'd \<Rightarrow> (errno option \<times> u8 list) \<times> 'd"
  kern_alloc :: "nat \<Rightarrow> 'd \<Rightarrow> u8 list option \<times> 'd"
  kern_addr :: "'d \<Rightarrow> nat"

subsection \<open>State\<close>

datatype brcmf_sdiod_state = BRCMF_SDIOD_DOWN | BRCMF_SDIOD_DATA | BRCMF_SDIOD_NOMEDIUM

record 'd brcmf_sdio_dev =
  sd_state :: brcmf_sdiod_state
  bus_up :: bool
  sbwad :: u32
  sbwad_valid :: bool
  cc_base :: u32
  sg_support :: bool
  max_request_size :: nat
  max_segment_count :: nat
  max_segment_size :: nat
  func2_blksize :: nat
  broken_sg_support :: bool
  dev :: 'd

abbreviation SBSDIO_FUNC1_SBADDRLOW :: u32 where "SBSDIO_FUNC1_SBADDRLOW \<equiv> 0x1000A"
abbreviation SBSDIO_SB_OFT_ADDR_MASK :: u32 where "SBSDIO_SB_OFT_ADDR_MASK \<equiv> 0x07FFF"
abbreviation SBSDIO_SB_OFT_ADDR_LIMIT :: nat where "SBSDIO_SB_OFT_ADDR_LIMIT \<equiv> 0x08000"
abbreviation SBSDIO_SB_ACCESS_2_4B_FLAG :: u32 where "SBSDIO_SB_ACCESS_2_4B_FLAG \<equiv> 0x08000"
abbreviation SBSDIO_SBWINDOW_MASK :: u32 where "SBSDIO_SBWINDOW_MASK \<equiv> 0xffff8000"

definition brcmf_sdiod_change_state :: "brcmf_sdiod_state \<Rightarrow> 'd brcmf_sdio_dev \<Rightarrow> 'd brcmf_sdio_dev" where
  "brcmf_sdiod_change_state st s =
     (if sd_state s = BRCMF_SDIOD_NOMEDIUM \<or> st = sd_state s then s
      else
        let s = (case sd_state s of
                   BRCMF_SDIOD_DATA \<Rightarrow> s\<lparr>bus_up := False\<rparr>
                 | BRCMF_SDIOD_DOWN \<Rightarrow> (if st = BRCMF_SDIOD_DATA then s\<lparr>bus_up := True\<rparr> else s)
                 | BRCMF_SDIOD_NOMEDIUM \<Rightarrow> s)
        in s\<lparr>sd_state := st\<rparr>)"

subsection \<open>The backplane window\<close>

fun window_writes :: "'d mmc_core \<Rightarrow> nat \<Rightarrow> u32 \<Rightarrow> u32 \<Rightarrow> 'd \<Rightarrow> errno option \<times> 'd" where
  "window_writes ops 0 reg v d = (None, d)"
| "window_writes ops (Suc n) reg v d =
     (case mmc_writeb ops reg (ucast (v AND 0xff)) d of
        (None, d) \<Rightarrow> window_writes ops n (reg + 1) (drop_bit 8 v) d
      | (Some e, d) \<Rightarrow> (Some e, d))"

definition brcmf_sdiod_set_backplane_window ::
    "'d mmc_core \<Rightarrow> u32 \<Rightarrow> 'd brcmf_sdio_dev \<Rightarrow> errno option \<times> 'd brcmf_sdio_dev" where
  "brcmf_sdiod_set_backplane_window ops addr s =
     (let bar0 = addr AND SBSDIO_SBWINDOW_MASK in
      if sbwad_valid s \<and> bar0 = sbwad s then (None, s)
      else case window_writes ops 3 SBSDIO_FUNC1_SBADDRLOW (drop_bit 8 bar0) (dev s) of
          (None, d) \<Rightarrow> (None, s\<lparr>dev := d, sbwad_valid := True, sbwad := bar0\<rparr>)
        | (Some e, d) \<Rightarrow> (Some e, s\<lparr>dev := d\<rparr>))"

definition window_addr :: "u32 \<Rightarrow> u32" where
  "window_addr addr = (addr AND SBSDIO_SB_OFT_ADDR_MASK) OR SBSDIO_SB_ACCESS_2_4B_FLAG"

text \<open>The value read and the error; the value is 0 when the window could not be set.\<close>

definition brcmf_sdiod_readl ::
    "'d mmc_core \<Rightarrow> u32 \<Rightarrow> 'd brcmf_sdio_dev \<Rightarrow> (u32 \<times> errno option) \<times> 'd brcmf_sdio_dev" where
  "brcmf_sdiod_readl ops addr s =
     (case brcmf_sdiod_set_backplane_window ops addr s of
        (Some e, s) \<Rightarrow> ((0, Some e), s)
      | (None, s) \<Rightarrow>
          (case mmc_readl ops (window_addr addr) (dev s) of (r, d) \<Rightarrow> (r, s\<lparr>dev := d\<rparr>)))"

definition brcmf_sdiod_writel ::
    "'d mmc_core \<Rightarrow> u32 \<Rightarrow> u32 \<Rightarrow> 'd brcmf_sdio_dev \<Rightarrow> errno option \<times> 'd brcmf_sdio_dev" where
  "brcmf_sdiod_writel ops addr data s =
     (case brcmf_sdiod_set_backplane_window ops addr s of
        (Some e, s) \<Rightarrow> (Some e, s)
      | (None, s) \<Rightarrow>
          (case mmc_writel ops (window_addr addr) data (dev s) of (r, d) \<Rightarrow> (r, s\<lparr>dev := d\<rparr>)))"

subsection \<open>One packet\<close>

text \<open>Only the loss of the medium is recorded; any other error is passed on.\<close>

definition medium_lost :: "errno option \<Rightarrow> 'd brcmf_sdio_dev \<Rightarrow> 'd brcmf_sdio_dev" where
  "medium_lost err s = (if err = Some ENOMEDIUM then brcmf_sdiod_change_state BRCMF_SDIOD_NOMEDIUM s else s)"

text \<open>
  A whole number of words is read to the data pointer. \<open>None\<close> is a write outside of the
  allocation of the packet.
\<close>

definition brcmf_sdiod_skbuff_read ::
    "'d mmc_core \<Rightarrow> nat \<Rightarrow> u32 \<Rightarrow> sk_buff \<Rightarrow> 'd brcmf_sdio_dev
      \<Rightarrow> (errno option \<times> sk_buff \<times> 'd brcmf_sdio_dev) option" where
  "brcmf_sdiod_skbuff_read ops fn addr skb s =
     (let req_sz = round4 (sk_len skb);
          (r, d) = (if fn = 1 then mmc_fromio ops addr req_sz (dev s)
                    else if fn = 2 \<or> fn = 3 then mmc_readsb ops fn addr req_sz (dev s)
                    else (Inl ENOMEDIUM, dev s));
          s = s\<lparr>dev := d\<rparr>
      in case r of
           Inl e \<Rightarrow> Some (Some e, skb, medium_lost (Some e) s)
         | Inr bs \<Rightarrow> map_option (\<lambda>skb. (None, skb, s)) (skb_store 0 bs skb))"

text \<open>The words written take in up to three bytes behind the data.\<close>

definition brcmf_sdiod_skbuff_write ::
    "'d mmc_core \<Rightarrow> nat \<Rightarrow> u32 \<Rightarrow> sk_buff \<Rightarrow> 'd brcmf_sdio_dev
      \<Rightarrow> (errno option \<times> 'd brcmf_sdio_dev) option" where
  "brcmf_sdiod_skbuff_write ops fn addr skb s =
     (case bytes_at (sk_mem skb) 0 (round4 (sk_len skb)) of
        None \<Rightarrow> None
      | Some bs \<Rightarrow>
          if fn = 1 \<or> fn = 2 then
            (case mmc_toio ops fn addr bs (dev s) of (e, d) \<Rightarrow> Some (e, medium_lost e (s\<lparr>dev := d\<rparr>)))
          else if fn = 3 then
            (case mmc_writesb ops addr bs (dev s) of (e, d) \<Rightarrow> Some (e, medium_lost e (s\<lparr>dev := d\<rparr>)))
          else Some (Some EINVAL, s))"

text \<open>A fresh packet of a length: its memory is what the allocator returns.\<close>

definition brcmu_pkt_buf_get_skb :: "'d mmc_core \<Rightarrow> nat \<Rightarrow> 'd brcmf_sdio_dev \<Rightarrow> sk_buff option \<times> 'd brcmf_sdio_dev" where
  "brcmu_pkt_buf_get_skb ops n s =
     (case kern_alloc ops n (dev s) of
        (r, d) \<Rightarrow> (map_option (\<lambda>m. \<lparr>sk_head = [], sk_mem = m, sk_len = n\<rparr>) r, s\<lparr>dev := d\<rparr>))"

subsection \<open>Lists of packets: block requests\<close>

text \<open>
  What the loops of \<open>brcmf_sdiod_sglist_rw\<close> carry: the bytes and the segments of the request
  being built (\<open>sg_cnt\<close> is the number of segments), the argument of the command, which is not
  cleared between requests, the address, and the bytes of the requests completed so far.
\<close>

record 'd sg_state =
  sg_req :: nat
  sg_segs :: "u8 list list"
  sg_arg :: u32
  sg_addr :: u32
  sg_done :: "u8 list"
  sg_dev :: "'d brcmf_sdio_dev"

text \<open>
  A read fills the segments with what the device sends, a whole number of blocks; bytes beyond
  stay as they were.
\<close>

definition mmc_submit_one ::
    "'d mmc_core \<Rightarrow> bool \<Rightarrow> nat \<Rightarrow> 'd sg_state \<Rightarrow> errno option \<times> 'd sg_state" where
  "mmc_submit_one ops write fn st =
     (let s = sg_dev st;
          blocks = sg_req st div func2_blksize s;
          arg = sg_arg st OR push_bit 9 (sg_addr st AND 0x1FFFF) OR (of_nat blocks AND 0x1FF);
          addr = (if fn = 1 then sg_addr st + of_nat (sg_req st) else sg_addr st);
          ((err, bs), d) =
            mmc_request ops
              \<lparr>rq_write = write, rq_arg = arg, rq_blocks = blocks, rq_blksz = func2_blksize s, rq_segs = sg_segs st\<rparr>
              (dev s);
          old = concat (sg_segs st);
          new = (if write then old else take (length old) bs @ drop (length bs) old)
      in ((if err = None \<or> err = Some ENOMEDIUM then err else Some EIO),
          st\<lparr>sg_arg := arg, sg_addr := addr, sg_done := sg_done st @ new, sg_dev := medium_lost err (s\<lparr>dev := d\<rparr>)\<rparr>))"

text \<open>
  A segment takes what is left of the packet, at most a segment of the controller and at most
  what is left of the request.
\<close>

definition sg_data_sz :: "nat \<Rightarrow> nat \<Rightarrow> 'd sg_state \<Rightarrow> nat" where
  "sg_data_sz max_req_sz left st =
     (let sz = left;
          sz = (if sz > max_segment_size (sg_dev st) then max_segment_size (sg_dev st) else sz)
      in (if sz > max_req_sz - sg_req st then max_req_sz - sg_req st else sz))"

text \<open>
  The walk over one packet from an offset. The loop need not end when the limits are 0: then
  there is no result.
\<close>

partial_function (option) sg_packet ::
    "'d mmc_core \<Rightarrow> bool \<Rightarrow> nat \<Rightarrow> nat \<Rightarrow> nat \<Rightarrow> u8 list \<Rightarrow> nat \<Rightarrow> 'd sg_state
      \<Rightarrow> (errno option \<times> 'd sg_state) option" where
  "sg_packet ops write fn max_req_sz max_seg_cnt data pkt_offset st =
     (if pkt_offset < length data then
        let sz = sg_data_sz max_req_sz (length data - pkt_offset) st;
            st = st\<lparr>sg_segs := sg_segs st @ [take sz (drop pkt_offset data)], sg_req := sg_req st + sz\<rparr>;
            pkt_offset = pkt_offset + sz
        in (if sg_req st \<ge> max_req_sz \<or> length (sg_segs st) \<ge> max_seg_cnt then
              let r = mmc_submit_one ops write fn st in
              (if fst r \<noteq> None then Some r
               else sg_packet ops write fn max_req_sz max_seg_cnt data pkt_offset
                      ((snd r)\<lparr>sg_req := 0, sg_segs := []\<rparr>))
            else sg_packet ops write fn max_req_sz max_seg_cnt data pkt_offset st)
      else Some (None, st))"

fun sg_walk ::
    "'d mmc_core \<Rightarrow> bool \<Rightarrow> nat \<Rightarrow> nat \<Rightarrow> nat \<Rightarrow> u8 list list \<Rightarrow> 'd sg_state
      \<Rightarrow> (errno option \<times> 'd sg_state) option" where
  "sg_walk ops write fn max_req_sz max_seg_cnt [] st = Some (None, st)"
| "sg_walk ops write fn max_req_sz max_seg_cnt (p # ps) st =
     (case sg_packet ops write fn max_req_sz max_seg_cnt p 0 st of
        None \<Rightarrow> None
      | Some (Some e, st) \<Rightarrow> Some (Some e, st)
      | Some (None, st) \<Rightarrow> sg_walk ops write fn max_req_sz max_seg_cnt ps st)"

abbreviation PAGE_SIZE :: nat where "PAGE_SIZE \<equiv> 4096"

text \<open>The list of pages that stands in for packets a broken controller cannot fill.\<close>

fun page_list :: "'d mmc_core \<Rightarrow> nat \<Rightarrow> 'd brcmf_sdio_dev \<Rightarrow> u8 list list option \<times> 'd brcmf_sdio_dev" where
  "page_list ops req_sz s =
     (if req_sz > PAGE_SIZE then
        (case brcmu_pkt_buf_get_skb ops PAGE_SIZE s of
           (None, s) \<Rightarrow> (None, s)
         | (Some skb, s) \<Rightarrow>
             (case page_list ops (req_sz - PAGE_SIZE) s of (ps, s) \<Rightarrow> (map_option ((#) (skb_data skb)) ps, s)))
      else
        (case brcmu_pkt_buf_get_skb ops req_sz s of
           (None, s) \<Rightarrow> (None, s)
         | (Some skb, s) \<Rightarrow> (Some [skb_data skb], s)))"

declare page_list.simps [simp del]

text \<open>Packets filled, one behind the other, with the bytes received.\<close>

fun skb_scatter :: "u8 list \<Rightarrow> sk_buff list \<Rightarrow> sk_buff list" where
  "skb_scatter bs [] = []"
| "skb_scatter bs (skb # skbs) =
     skb\<lparr>sk_mem := take (sk_len skb) bs @ drop (min (sk_len skb) (length bs)) (sk_mem skb)\<rparr>
       # skb_scatter (drop (sk_len skb) bs) skbs"

definition round_up :: "nat \<Rightarrow> nat \<Rightarrow> nat" where
  "round_up n k = ((n + (k - 1)) div k) * k"

text \<open>
  The error (\<open>Some\<close>), the packets and the state. Only packets read to are changed; what a read
  did not transfer keeps the bytes it had.
\<close>

definition sglist_target ::
    "'d mmc_core \<Rightarrow> bool \<Rightarrow> sk_buff list \<Rightarrow> 'd brcmf_sdio_dev \<Rightarrow> u8 list list option \<times> 'd brcmf_sdio_dev" where
  "sglist_target ops write pktlist s =
     (if \<not> write \<and> broken_sg_support s
      then page_list ops (round_up (sum_list (map sk_len pktlist)) (func2_blksize s)) s
      else (Some (map skb_data pktlist), s))"

definition brcmf_sdiod_sglist_rw ::
    "'d mmc_core \<Rightarrow> nat \<Rightarrow> bool \<Rightarrow> u32 \<Rightarrow> sk_buff list \<Rightarrow> 'd brcmf_sdio_dev
      \<Rightarrow> (errno option \<times> sk_buff list \<times> 'd brcmf_sdio_dev) option" where
  "brcmf_sdiod_sglist_rw ops fn write addr pktlist s =
     (if pktlist = [] then Some (Some EINVAL, pktlist, s)
      else case sglist_target ops write pktlist s of
        (None, s) \<Rightarrow> Some (Some ENOMEM, pktlist, s)
      | (Some target, s) \<Rightarrow>
          let max_seg_cnt = unat (min (of_nat (max_segment_count s)) (of_nat (length target)) :: u16);
              arg = (if write then push_bit 31 1 else 0) OR push_bit 28 (of_nat fn AND 7) OR push_bit 27 1
                      OR (if fn = 1 then push_bit 26 1 else 0);
              st = \<lparr>sg_req = 0, sg_segs = [], sg_arg = arg, sg_addr = addr, sg_done = [], sg_dev = s\<rparr>
          in case sg_walk ops write fn (max_request_size s) max_seg_cnt target st of
               None \<Rightarrow> None
             | Some (err, st) \<Rightarrow>
                 let (err, st) = (if err = None \<and> sg_segs st \<noteq> [] then mmc_submit_one ops write fn st else (err, st));
                     got = sg_done st @ drop (length (sg_done st)) (concat target)
                 in Some (err, (if write then pktlist else skb_scatter got pktlist), sg_dev st))"

subsection \<open>Frames\<close>

text \<open>The number and the address of the function a frame goes to.\<close>

definition frame_func :: "nat \<Rightarrow> 'd brcmf_sdio_dev \<Rightarrow> (u32 \<times> u32) option" where
  "frame_func fn s =
     (if fn = 2 then Some (cc_base s, window_addr (cc_base s)) else if fn = 3 then Some (0, 0) else None)"

definition brcmf_sdiod_recv_pkt ::
    "'d mmc_core \<Rightarrow> nat \<Rightarrow> sk_buff \<Rightarrow> 'd brcmf_sdio_dev
      \<Rightarrow> (errno option \<times> sk_buff \<times> 'd brcmf_sdio_dev) option" where
  "brcmf_sdiod_recv_pkt ops fn pkt s =
     (case frame_func fn s of
        None \<Rightarrow> Some (Some EINVAL, pkt, s)
      | Some (base, addr) \<Rightarrow>
          (case brcmf_sdiod_set_backplane_window ops base s of
             (Some e, s) \<Rightarrow> Some (Some e, pkt, s)
           | (None, s) \<Rightarrow> brcmf_sdiod_skbuff_read ops fn addr pkt s))"

text \<open>The bytes read, or the error.\<close>

definition brcmf_sdiod_recv_buf ::
    "'d mmc_core \<Rightarrow> nat \<Rightarrow> nat \<Rightarrow> 'd brcmf_sdio_dev \<Rightarrow> ((errno + u8 list) \<times> 'd brcmf_sdio_dev) option" where
  "brcmf_sdiod_recv_buf ops fn nbytes s =
     (case brcmu_pkt_buf_get_skb ops nbytes s of
        (None, s) \<Rightarrow> Some (Inl EIO, s)
      | (Some mypkt, s) \<Rightarrow>
          (case brcmf_sdiod_recv_pkt ops fn mypkt s of
             None \<Rightarrow> None
           | Some (Some e, mypkt, s) \<Rightarrow> Some (Inl e, s)
           | Some (None, mypkt, s) \<Rightarrow> Some (Inr (skb_data mypkt), s)))"

text \<open>The copies out of one large packet: each packet takes its length, then the packet advances.\<close>

fun deal_out :: "sk_buff \<Rightarrow> sk_buff list \<Rightarrow> sk_buff list option" where
  "deal_out glom_skb [] = Some []"
| "deal_out glom_skb (skb # skbs) =
     (case bytes_at (sk_mem glom_skb) 0 (sk_len skb) of
        None \<Rightarrow> None
      | Some bs \<Rightarrow>
          (case skb_store 0 bs skb of
             None \<Rightarrow> None
           | Some skb \<Rightarrow> map_option ((#) skb) (deal_out (skb_pull (sk_len skb) glom_skb) skbs)))"

definition brcmf_sdiod_recv_chain ::
    "'d mmc_core \<Rightarrow> sk_buff list \<Rightarrow> nat \<Rightarrow> 'd brcmf_sdio_dev
      \<Rightarrow> (errno option \<times> sk_buff list \<times> 'd brcmf_sdio_dev) option" where
  "brcmf_sdiod_recv_chain ops pktq totlen s =
     (case brcmf_sdiod_set_backplane_window ops (cc_base s) s of
        (Some e, s) \<Rightarrow> Some (Some e, pktq, s)
      | (None, s) \<Rightarrow>
          let addr = window_addr (cc_base s) in
          (case pktq of
             [skb] \<Rightarrow> map_option (\<lambda>(e, skb, s). (e, [skb], s)) (brcmf_sdiod_skbuff_read ops 2 addr skb s)
           | _ \<Rightarrow>
               if \<not> sg_support s then
                 (case brcmu_pkt_buf_get_skb ops totlen s of
                    (None, s) \<Rightarrow> Some (Some ENOMEM, pktq, s)
                  | (Some glom_skb, s) \<Rightarrow>
                      (case brcmf_sdiod_skbuff_read ops 2 addr glom_skb s of
                         None \<Rightarrow> None
                       | Some (Some e, glom_skb, s) \<Rightarrow> Some (Some e, pktq, s)
                       | Some (None, glom_skb, s) \<Rightarrow> map_option (\<lambda>pktq. (None, pktq, s)) (deal_out glom_skb pktq)))
               else brcmf_sdiod_sglist_rw ops 2 False addr pktq s))"

definition brcmf_sdiod_send_buf ::
    "'d mmc_core \<Rightarrow> nat \<Rightarrow> u8 list \<Rightarrow> 'd brcmf_sdio_dev \<Rightarrow> (errno option \<times> 'd brcmf_sdio_dev) option" where
  "brcmf_sdiod_send_buf ops fn buf s =
     (case frame_func fn s of
        None \<Rightarrow> Some (Some EINVAL, s)
      | Some (base, addr) \<Rightarrow>
          (case brcmu_pkt_buf_get_skb ops (length buf) s of
             (None, s) \<Rightarrow> Some (Some EIO, s)
           | (Some mypkt, s) \<Rightarrow>
               (case skb_store 0 buf mypkt of
                  None \<Rightarrow> None
                | Some mypkt \<Rightarrow>
                    (case brcmf_sdiod_set_backplane_window ops base s of
                       (Some e, s) \<Rightarrow> Some (Some e, s)
                     | (None, s) \<Rightarrow> brcmf_sdiod_skbuff_write ops fn addr mypkt s))))"

fun write_each ::
    "'d mmc_core \<Rightarrow> u32 \<Rightarrow> sk_buff list \<Rightarrow> 'd brcmf_sdio_dev \<Rightarrow> (errno option \<times> 'd brcmf_sdio_dev) option" where
  "write_each ops addr [] s = Some (None, s)"
| "write_each ops addr (skb # skbs) s =
     (case brcmf_sdiod_skbuff_write ops 2 addr skb s of
        None \<Rightarrow> None
      | Some (Some e, s) \<Rightarrow> Some (Some e, s)
      | Some (None, s) \<Rightarrow> write_each ops addr skbs s)"

definition brcmf_sdiod_send_pkt ::
    "'d mmc_core \<Rightarrow> sk_buff list \<Rightarrow> 'd brcmf_sdio_dev \<Rightarrow> (errno option \<times> 'd brcmf_sdio_dev) option" where
  "brcmf_sdiod_send_pkt ops pktq s =
     (case brcmf_sdiod_set_backplane_window ops (cc_base s) s of
        (Some e, s) \<Rightarrow> Some (Some e, s)
      | (None, s) \<Rightarrow>
          let addr = window_addr (cc_base s) in
          (if length pktq = 1 \<or> \<not> sg_support s then write_each ops addr pktq s
           else map_option (\<lambda>(e, pktq, s). (e, s)) (brcmf_sdiod_sglist_rw ops 2 True addr pktq s)))"

subsection \<open>Device memory\<close>

text \<open>
  The transfer loop of \<open>brcmf_sdiod_ramrw\<close>: \<open>data\<close> is what is left to write, the result is
  what was read.
\<close>

function ramrw_loop ::
    "'d mmc_core \<Rightarrow> bool \<Rightarrow> u32 \<Rightarrow> u32 \<Rightarrow> nat \<Rightarrow> nat \<Rightarrow> u8 list \<Rightarrow> sk_buff \<Rightarrow> 'd brcmf_sdio_dev
      \<Rightarrow> (errno option \<times> u8 list \<times> 'd brcmf_sdio_dev) option" where
  "ramrw_loop ops write address sdaddr dsize n data pkt s =
     (if n = 0 then Some (None, [], s)
      else case brcmf_sdiod_set_backplane_window ops address s of
        (Some e, s) \<Rightarrow> Some (Some e, [], s)
      | (None, s) \<Rightarrow>
          let sdaddr = window_addr sdaddr in
          (case skb_put dsize pkt of
             None \<Rightarrow> None
           | Some pkt \<Rightarrow>
               (case (if write
                      then (case skb_store 0 (take dsize data) pkt of
                              None \<Rightarrow> None
                            | Some pkt \<Rightarrow>
                                map_option (\<lambda>(e, s). (e, pkt, s)) (brcmf_sdiod_skbuff_write ops 1 sdaddr pkt s))
                      else brcmf_sdiod_skbuff_read ops 1 sdaddr pkt s) of
                  None \<Rightarrow> None
                | Some (Some e, pkt, s) \<Rightarrow> Some (Some e, [], s)
                | Some (None, pkt, s) \<Rightarrow>
                    let got = (if write then [] else skb_data pkt);
                        pkt = skb_trim 0 pkt;
                        n' = n - dsize
                    in map_option (\<lambda>(e, rest, s). (e, got @ rest, s))
                         (ramrw_loop ops write (address + of_nat dsize) 0 (min SBSDIO_SB_OFT_ADDR_LIMIT n')
                            n' (drop dsize data) pkt s))))"
  by pat_completeness auto

termination
  by (relation "measure (\<lambda>(ops, write, address, sdaddr, dsize, n, data, pkt, s). 2 * n + (if dsize = 0 then 1 else 0))")
    auto

declare ramrw_loop.simps [simp del]

text \<open>
  \<open>data\<close> is written; when reading, \<open>n\<close> bytes are. A transfer of more than the window is
  broken at its boundaries.
\<close>

definition brcmf_sdiod_ramrw ::
    "'d mmc_core \<Rightarrow> bool \<Rightarrow> u32 \<Rightarrow> u8 list \<Rightarrow> nat \<Rightarrow> 'd brcmf_sdio_dev
      \<Rightarrow> (errno option \<times> u8 list \<times> 'd brcmf_sdio_dev) option" where
  "brcmf_sdiod_ramrw ops write address data n s =
     (case kern_alloc ops (min SBSDIO_SB_OFT_ADDR_LIMIT n) (dev s) of
        (None, d) \<Rightarrow> Some (Some EIO, [], s\<lparr>dev := d\<rparr>)
      | (Some m, d) \<Rightarrow>
          let s = s\<lparr>dev := d\<rparr>;
              pkt = \<lparr>sk_head = [], sk_mem = m, sk_len = 0\<rparr>;
              sdaddr = address AND SBSDIO_SB_OFT_ADDR_MASK;
              dsize = (if (sdaddr + of_nat n) AND SBSDIO_SBWINDOW_MASK \<noteq> 0
                       then SBSDIO_SB_OFT_ADDR_LIMIT - unat sdaddr else n)
          in ramrw_loop ops write address sdaddr dsize n data pkt s)"

end
