(* ===== verification/Sdio_Ram.thy ===== *)
theory Sdio_Ram
  imports Sdio_Dev
begin

section \<open>Device memory over SDIO\<close>

text \<open>
  What \<open>brcmf_sdiod_ramrw\<close> and the cached backplane window do on a card with a window register
  and a memory (\<open>backplane_device\<close>): transfers of any length at a word boundary reach the
  memory across the windows, and are read back; a switch of the window that fails half way
  leaves the cached window wrong.
\<close>

subsection \<open>Reading and writing device memory\<close>

definition ram_read :: "(u32 \<Rightarrow> u8) \<Rightarrow> u32 \<Rightarrow> nat \<Rightarrow> u8 list" where
  "ram_read m a n = map (\<lambda>i. m (a + of_nat i)) [0..<n]"

definition ram_write :: "(u32 \<Rightarrow> u8) \<Rightarrow> u32 \<Rightarrow> u8 list \<Rightarrow> u32 \<Rightarrow> u8" where
  "ram_write m a bs = (\<lambda>x. if unat (x - a) < length bs then bs ! unat (x - a) else m x)"

definition set_byte :: "nat \<Rightarrow> u8 \<Rightarrow> u32 \<Rightarrow> u32" where
  "set_byte k b w = (w AND NOT (push_bit k 0xff)) OR push_bit k (ucast b)"

text \<open>
  What the transfers rely on: the three bytes of the window register are set one by one, and an
  access of function 1 inside the window reads or writes the memory of the device behind it;
  the allocator gives buffers of whole words. \<open>win\<close> and \<open>ram\<close> are the register and the memory.
\<close>

definition backplane_device :: "'d mmc_core \<Rightarrow> ('d \<Rightarrow> u32) \<Rightarrow> ('d \<Rightarrow> u32 \<Rightarrow> u8) \<Rightarrow> bool" where
  "backplane_device ops win ram \<longleftrightarrow>
     (\<forall>i<3. \<forall>b d. \<exists>d'. mmc_writeb ops (SBSDIO_FUNC1_SBADDRLOW + of_nat i) b d = (None, d') \<and> ram d' = ram d \<and>
        win d' = set_byte (8 + 8 * i) b (win d)) \<and>
     (\<forall>off n d. off + n \<le> SBSDIO_SB_OFT_ADDR_LIMIT \<longrightarrow>
        (\<exists>d'. mmc_fromio ops (of_nat off OR SBSDIO_SB_ACCESS_2_4B_FLAG) n d =
            (Inr (ram_read (ram d) ((win d AND SBSDIO_SBWINDOW_MASK) + of_nat off) n), d') \<and>
          win d' = win d \<and> ram d' = ram d)) \<and>
     (\<forall>off bs d. off + length bs \<le> SBSDIO_SB_OFT_ADDR_LIMIT \<longrightarrow>
        (\<exists>d'. mmc_toio ops 1 (of_nat off OR SBSDIO_SB_ACCESS_2_4B_FLAG) bs d = (None, d') \<and>
          win d' = win d \<and> ram d' = ram_write (ram d) ((win d AND SBSDIO_SBWINDOW_MASK) + of_nat off) bs)) \<and>
     (\<forall>n d. \<exists>m d'. kern_alloc ops n d = (Some m, d') \<and> round4 n \<le> length m \<and> win d' = win d \<and> ram d' = ram d)"

definition window_known :: "('d \<Rightarrow> u32) \<Rightarrow> 'd brcmf_sdio_dev \<Rightarrow> bool" where
  "window_known win s \<longleftrightarrow> (sbwad_valid s \<longrightarrow> sbwad s = win (dev s) AND SBSDIO_SBWINDOW_MASK)"

lemma ram_read_length [simp]: "length (ram_read m a n) = n"
  by (simp add: ram_read_def)

lemma ram_read_append: "ram_read m a (k + n) = ram_read m a k @ ram_read m (a + of_nat k) n"
  by (rule nth_equalityI) (auto simp: ram_read_def nth_append add.assoc)

lemma ram_write_Nil: "ram_write m a [] = m"
  by (simp add: ram_write_def)

lemma unat_diff_of_nat:
  fixes x a :: u32
  assumes "k < 4294967296"
  shows "unat (x - (a + of_nat k)) = (if k \<le> unat (x - a) then unat (x - a) - k else unat (x - a) + 4294967296 - k)"
proof -
  have k: "unat (of_nat k :: u32) = k" using assms by (simp add: unsigned_of_nat take_bit_nat_eq_self)
  show ?thesis
  proof (cases "k \<le> unat (x - a)")
    case True
    then have "(of_nat k :: u32) \<le> x - a" by (simp add: word_le_nat_alt k)
    then have "unat ((x - a) - of_nat k) = unat (x - a) - k" using k by (simp add: unat_sub)
    with True show ?thesis by (simp add: algebra_simps)
  next
    case False
    then have "\<not> (of_nat k :: u32) \<le> x - a" by (simp add: word_le_nat_alt k)
    then have "unat ((x - a) - of_nat k) = unat (x - a) + 4294967296 - k"
      using k by (simp add: unat_sub_if_size word_size word_le_nat_alt)
    with False show ?thesis by (simp add: algebra_simps)
  qed
qed

lemma ram_write_append:
  assumes "length xs + length ys \<le> 4294967296"
  shows "ram_write (ram_write m a xs) (a + of_nat (length xs)) ys = ram_write m a (xs @ ys)"
proof (cases "ys = []")
  case False
  then have k: "length xs < 4294967296" using assms by (cases ys) auto
  show ?thesis
  proof
    fix x
    show "ram_write (ram_write m a xs) (a + of_nat (length xs)) ys x = ram_write m a (xs @ ys) x"
      using assms unat_u32_lt [of "x - a"] by (auto simp: ram_write_def unat_diff_of_nat [OF k] nth_append)
  qed
qed (simp add: ram_write_Nil)

lemma ram_read_write:
  assumes "length bs \<le> 4294967296" "n \<le> length bs"
  shows "ram_read (ram_write m a bs) a n = take n bs"
  using assms by (auto simp: ram_read_def ram_write_def unsigned_of_nat take_bit_nat_eq_self intro!: nth_equalityI)

subsubsection \<open>The window\<close>

lemma bit_byte_mask: "bit (0xff :: u32) j = (j < 8)"
  using bit_mask_iff [of 8 j, where ?'a = u32] by (auto simp: mask_eq_exp_minus_1 dest: bit_imp_le_length)

lemma bit_window_mask: "i < 32 \<Longrightarrow> bit SBSDIO_SBWINDOW_MASK i = (15 \<le> i)"
proof -
  assume i: "i < 32"
  have "SBSDIO_SBWINDOW_MASK = NOT (mask 15 :: u32)" by (simp add: mask_eq_exp_minus_1)
  then show ?thesis using i by (simp only: bit_not_iff bit_mask_iff) (use i in auto)
qed


lemma bit_set_byte:
  "i < 32 \<Longrightarrow> bit (set_byte k b w) i = (if k \<le> i \<and> i < k + 8 then bit b (i - k) else bit w i)"
  unfolding set_byte_def bit_or_iff bit_and_iff bit_not_iff bit_push_bit_iff bit_byte_mask bit_unsigned_iff
  by (auto dest: bit_imp_le_length)

lemma window_bytes:
  assumes b: "b = a AND SBSDIO_SBWINDOW_MASK" and v: "v = drop_bit 8 b"
  shows "set_byte 24 (ucast (drop_bit 16 v AND 0xff)) (set_byte 16 (ucast (drop_bit 8 v AND 0xff))
      (set_byte 8 (ucast (v AND 0xff)) w)) AND SBSDIO_SBWINDOW_MASK = b"
proof (rule bit_word_eqI)
  fix i
  assume "i < LENGTH(32)"
  then have i: "i < 32" by simp
  have byte: "bit (ucast (drop_bit k v AND 0xff) :: u8) j = (j < 8 \<and> bit b (8 + k + j))" for k j
    unfolding v bit_unsigned_iff bit_and_iff bit_byte_mask bit_drop_bit_eq comp_def
    by (auto simp: ac_simps dest: bit_imp_le_length)
  have byte0: "bit (ucast (v AND 0xff) :: u8) j = (j < 8 \<and> bit b (8 + j))" for j
    using byte [of 0 j] by simp
  have low: "bit b i \<Longrightarrow> 15 \<le> i"
    unfolding b bit_and_iff bit_window_mask [OF i] by simp
  consider "i < 15" | "15 \<le> i" "i < 16" | "16 \<le> i" "i < 24" | "24 \<le> i" by linarith
  then show "bit (set_byte 24 (ucast (drop_bit 16 v AND 0xff)) (set_byte 16 (ucast (drop_bit 8 v AND 0xff))
      (set_byte 8 (ucast (v AND 0xff)) w)) AND SBSDIO_SBWINDOW_MASK) i = bit b i"
    unfolding bit_and_iff bit_window_mask [OF i] using i low by cases (auto simp: bit_set_byte byte byte0)
qed

lemma window_split: "(a AND SBSDIO_SBWINDOW_MASK) + (a AND SBSDIO_SB_OFT_ADDR_MASK) = (a :: u32)"
proof -
  have "NOT (mask 15 :: u32) = SBSDIO_SBWINDOW_MASK" "(mask 15 :: u32) = SBSDIO_SB_OFT_ADDR_MASK"
    by (simp_all add: mask_eq_exp_minus_1)
  then have "(a AND SBSDIO_SBWINDOW_MASK) + (a AND SBSDIO_SB_OFT_ADDR_MASK) = (a AND NOT (mask 15)) + (a AND mask 15)"
    by (simp only:)
  also have "\<dots> = (a AND NOT (mask 15)) OR (a AND mask 15)"
    by (rule disjunctive_add) (auto simp: bit_simps)
  also have "\<dots> = a"
    by (rule bit_word_eqI) (auto simp: bit_simps)
  finally show ?thesis .
qed

lemma window_offset: "unat (a AND SBSDIO_SB_OFT_ADDR_MASK) = unat a mod SBSDIO_SB_OFT_ADDR_LIMIT"
proof -
  have "a AND SBSDIO_SB_OFT_ADDR_MASK = take_bit 15 a" by (simp add: take_bit_eq_mask mask_eq_exp_minus_1)
  then show ?thesis by (simp only: unsigned_take_bit_eq) (simp add: take_bit_eq_mod)
qed

lemma backplane_writeb:
  assumes "backplane_device ops win ram" "i < 3"
  obtains d' where "mmc_writeb ops (SBSDIO_FUNC1_SBADDRLOW + of_nat i) b d = (None, d')" "ram d' = ram d"
    "win d' = set_byte (8 + 8 * i) b (win d)"
  using assms unfolding backplane_device_def by blast

lemma backplane_fromio:
  assumes "backplane_device ops win ram" "off + n \<le> SBSDIO_SB_OFT_ADDR_LIMIT"
  obtains d' where "mmc_fromio ops (of_nat off OR SBSDIO_SB_ACCESS_2_4B_FLAG) n d =
      (Inr (ram_read (ram d) ((win d AND SBSDIO_SBWINDOW_MASK) + of_nat off) n), d')" "win d' = win d" "ram d' = ram d"
  using assms unfolding backplane_device_def by blast

lemma backplane_toio:
  assumes "backplane_device ops win ram" "off + length bs \<le> SBSDIO_SB_OFT_ADDR_LIMIT"
  obtains d' where "mmc_toio ops 1 (of_nat off OR SBSDIO_SB_ACCESS_2_4B_FLAG) bs d = (None, d')" "win d' = win d"
    "ram d' = ram_write (ram d) ((win d AND SBSDIO_SBWINDOW_MASK) + of_nat off) bs"
  using assms unfolding backplane_device_def by blast

lemma backplane_alloc:
  assumes "backplane_device ops win ram"
  obtains m d' where "kern_alloc ops n d = (Some m, d')" "round4 n \<le> length m" "win d' = win d" "ram d' = ram d"
  using assms unfolding backplane_device_def by blast

lemma window_writes_ok:
  assumes dev: "backplane_device ops win ram" and b: "b = a AND SBSDIO_SBWINDOW_MASK"
  obtains d' where "window_writes ops 3 SBSDIO_FUNC1_SBADDRLOW (drop_bit 8 b) d = (None, d')"
    "ram d' = ram d" "win d' AND SBSDIO_SBWINDOW_MASK = b"
proof -
  define v where "v = drop_bit 8 b"
  from dev obtain d1 where d1: "mmc_writeb ops SBSDIO_FUNC1_SBADDRLOW (ucast (v AND 0xff)) d = (None, d1)"
      "ram d1 = ram d" "win d1 = set_byte 8 (ucast (v AND 0xff)) (win d)"
    by (rule backplane_writeb [where i = 0]) simp_all
  from dev obtain d2 where d2: "mmc_writeb ops (SBSDIO_FUNC1_SBADDRLOW + 1) (ucast (drop_bit 8 v AND 0xff)) d1 = (None, d2)"
      "ram d2 = ram d1" "win d2 = set_byte 16 (ucast (drop_bit 8 v AND 0xff)) (win d1)"
    by (rule backplane_writeb [where i = 1]) simp_all
  from dev obtain d3 where d3: "mmc_writeb ops (SBSDIO_FUNC1_SBADDRLOW + 2) (ucast (drop_bit 16 v AND 0xff)) d2 = (None, d3)"
      "ram d3 = ram d2" "win d3 = set_byte 24 (ucast (drop_bit 16 v AND 0xff)) (win d2)"
    by (rule backplane_writeb [where i = 2]) simp_all
  have "window_writes ops 3 SBSDIO_FUNC1_SBADDRLOW v d = (None, d3)"
    using d1(1) d2(1) d3(1) by (simp add: numeral_3_eq_3)
  moreover have "win d3 AND SBSDIO_SBWINDOW_MASK = b"
    unfolding d3 d2 d1 by (rule window_bytes [OF b v_def])
  ultimately show ?thesis using that [of d3] d1(2) d2(2) d3(2) v_def by simp
qed

lemma set_window_ok:
  assumes dev: "backplane_device ops win ram" and known: "window_known win s"
  obtains d where
    "brcmf_sdiod_set_backplane_window ops a s =
       (None, s\<lparr>dev := d, sbwad_valid := True, sbwad := a AND SBSDIO_SBWINDOW_MASK\<rparr>)"
    "ram d = ram (dev s)" "win d AND SBSDIO_SBWINDOW_MASK = a AND SBSDIO_SBWINDOW_MASK"
proof (cases "sbwad_valid s \<and> a AND SBSDIO_SBWINDOW_MASK = sbwad s")
  case True
  show ?thesis
  proof (rule that [of "dev s"])
    show "brcmf_sdiod_set_backplane_window ops a s =
       (None, s\<lparr>dev := dev s, sbwad_valid := True, sbwad := a AND SBSDIO_SBWINDOW_MASK\<rparr>)"
      using True by (simp add: brcmf_sdiod_set_backplane_window_def Let_def)
    show "win (dev s) AND SBSDIO_SBWINDOW_MASK = a AND SBSDIO_SBWINDOW_MASK"
      using True known by (simp add: window_known_def)
  qed simp
next
  case False
  from dev refl obtain d' where d': "window_writes ops 3 SBSDIO_FUNC1_SBADDRLOW (drop_bit 8 (a AND SBSDIO_SBWINDOW_MASK)) (dev s) = (None, d')"
    "ram d' = ram (dev s)" "win d' AND SBSDIO_SBWINDOW_MASK = a AND SBSDIO_SBWINDOW_MASK"
    by (rule window_writes_ok)
  show ?thesis
  proof (rule that [of d'])
    show "brcmf_sdiod_set_backplane_window ops a s =
       (None, s\<lparr>dev := d', sbwad_valid := True, sbwad := a AND SBSDIO_SBWINDOW_MASK\<rparr>)"
      using False d'(1) by (auto simp: brcmf_sdiod_set_backplane_window_def Let_def)
  qed (use d' in simp_all)
qed

subsubsection \<open>One transfer of the loop\<close>

lemma piece_fits:
  assumes "4 dvd off" "off + n \<le> SBSDIO_SB_OFT_ADDR_LIMIT"
  shows "off + round4 n \<le> SBSDIO_SB_OFT_ADDR_LIMIT"
  using assms round4_dvd_le [of SBSDIO_SB_OFT_ADDR_LIMIT "off + n"] round4_add [of off n] by simp

lemma window_addr_off: "off < SBSDIO_SB_OFT_ADDR_LIMIT \<Longrightarrow> window_addr (of_nat off) = of_nat off OR SBSDIO_SB_ACCESS_2_4B_FLAG"
proof -
  assume off: "off < SBSDIO_SB_OFT_ADDR_LIMIT"
  have "(of_nat off :: u32) AND SBSDIO_SB_OFT_ADDR_MASK = of_nat off"
  proof (rule unat_eqD)
    show "unat (of_nat off AND SBSDIO_SB_OFT_ADDR_MASK) = unat (of_nat off :: u32)"
      unfolding window_offset using off by (simp add: unsigned_of_nat take_bit_eq_mod)
  qed
  then show ?thesis by (simp add: window_addr_def)
qed

text \<open>One piece that stays in the window is transferred to the memory behind it.\<close>

lemma piece_written:
  assumes dev: "backplane_device ops win ram" and known: "window_known win s"
    and off: "off < SBSDIO_SB_OFT_ADDR_LIMIT" "4 dvd off" "off + length bs \<le> SBSDIO_SB_OFT_ADDR_LIMIT"
    and mem: "round4 (length bs) \<le> length m" and win: "win (dev s) AND SBSDIO_SBWINDOW_MASK = base"
  obtains pad d where "brcmf_sdiod_skbuff_write ops 1 (window_addr (of_nat off))
      \<lparr>sk_head = h, sk_mem = bs @ drop (length bs) m, sk_len = length bs\<rparr> s = Some (None, s\<lparr>dev := d\<rparr>)"
    "length pad = round4 (length bs) - length bs" "win d = win (dev s)"
    "ram d = ram_write (ram (dev s)) (base + of_nat off) (bs @ pad)"
proof -
  define pad where "pad = take (round4 (length bs) - length bs) (drop (length bs) m)"
  have pad: "length pad = round4 (length bs) - length bs" using mem by (simp add: pad_def)
  have "off + length (bs @ pad) \<le> SBSDIO_SB_OFT_ADDR_LIMIT"
    using piece_fits [OF off(2,3)] round4_bounds(1) [of "length bs"] by (simp add: pad)
  with dev obtain d where d: "mmc_toio ops 1 (of_nat off OR SBSDIO_SB_ACCESS_2_4B_FLAG) (bs @ pad) (dev s) = (None, d)"
    "win d = win (dev s)" "ram d = ram_write (ram (dev s)) ((win (dev s) AND SBSDIO_SBWINDOW_MASK) + of_nat off) (bs @ pad)"
    by (rule backplane_toio)
  have "bytes_at (bs @ drop (length bs) m) 0 (round4 (length bs)) = Some (bs @ pad)"
    using mem round4_bounds(1) [of "length bs"] by (simp add: bytes_at_def pad_def)
  then have "brcmf_sdiod_skbuff_write ops 1 (window_addr (of_nat off))
      \<lparr>sk_head = h, sk_mem = bs @ drop (length bs) m, sk_len = length bs\<rparr> s = Some (None, s\<lparr>dev := d\<rparr>)"
    using off(1) d(1) by (simp add: brcmf_sdiod_skbuff_write_def window_addr_off medium_lost_def)
  then show ?thesis using that pad d(2,3) win by blast
qed

lemma piece_read:
  assumes dev: "backplane_device ops win ram" and known: "window_known win s"
    and off: "off < SBSDIO_SB_OFT_ADDR_LIMIT" "4 dvd off" "off + n \<le> SBSDIO_SB_OFT_ADDR_LIMIT"
    and mem: "round4 n \<le> length m" and win: "win (dev s) AND SBSDIO_SBWINDOW_MASK = base"
  obtains m' d where "brcmf_sdiod_skbuff_read ops 1 (window_addr (of_nat off))
      \<lparr>sk_head = h, sk_mem = m, sk_len = n\<rparr> s = Some (None, \<lparr>sk_head = h, sk_mem = m', sk_len = n\<rparr>, s\<lparr>dev := d\<rparr>)"
    "length m' = length m" "take n m' = ram_read (ram (dev s)) (base + of_nat off) n"
    "win d = win (dev s)" "ram d = ram (dev s)"
proof -
  let ?bs = "ram_read (ram (dev s)) (base + of_nat off) (round4 n)"
  have "off + round4 n \<le> SBSDIO_SB_OFT_ADDR_LIMIT"
    using off(2,3) by (rule piece_fits)
  with dev obtain d where d: "mmc_fromio ops (of_nat off OR SBSDIO_SB_ACCESS_2_4B_FLAG) (round4 n) (dev s) =
      (Inr (ram_read (ram (dev s)) ((win (dev s) AND SBSDIO_SBWINDOW_MASK) + of_nat off) (round4 n)), d)"
    "win d = win (dev s)" "ram d = ram (dev s)"
    by (rule backplane_fromio)
  have "skb_store 0 ?bs \<lparr>sk_head = h, sk_mem = m, sk_len = n\<rparr>
      = Some \<lparr>sk_head = h, sk_mem = ?bs @ drop (round4 n) m, sk_len = n\<rparr>"
    using mem by (simp add: skb_store_at_front)
  then have r: "brcmf_sdiod_skbuff_read ops 1 (window_addr (of_nat off)) \<lparr>sk_head = h, sk_mem = m, sk_len = n\<rparr> s =
      Some (None, \<lparr>sk_head = h, sk_mem = ?bs @ drop (round4 n) m, sk_len = n\<rparr>, s\<lparr>dev := d\<rparr>)"
    using off(1) d(1) win by (simp add: brcmf_sdiod_skbuff_read_def window_addr_off)
  have "?bs = ram_read (ram (dev s)) (base + of_nat off) n @
      ram_read (ram (dev s)) (base + of_nat off + of_nat n) (round4 n - n)"
    using ram_read_append [of "ram (dev s)" "base + of_nat off" n "round4 n - n"] round4_bounds(1) [of n] by simp
  then have "take n (?bs @ drop (round4 n) m) = ram_read (ram (dev s)) (base + of_nat off) n" by simp
  with r show ?thesis using that [OF r] mem d(2,3) by simp
qed

subsubsection \<open>The whole transfer\<close>

text \<open>A piece that ends the transfer or the window; the next piece starts a window.\<close>

definition piece :: "u32 \<Rightarrow> nat \<Rightarrow> nat \<Rightarrow> nat \<Rightarrow> bool" where
  "piece address off dsize n \<longleftrightarrow>
     unat address mod SBSDIO_SB_OFT_ADDR_LIMIT = off \<and> 4 dvd off \<and> dsize \<le> n \<and> (0 < n \<longrightarrow> 0 < dsize) \<and>
     off + dsize \<le> SBSDIO_SB_OFT_ADDR_LIMIT \<and> (dsize = n \<or> off + dsize = SBSDIO_SB_OFT_ADDR_LIMIT)"

lemma pieceD:
  assumes "piece address off dsize n"
  shows "off < SBSDIO_SB_OFT_ADDR_LIMIT" "4 dvd off" "dsize \<le> n" "off + dsize \<le> SBSDIO_SB_OFT_ADDR_LIMIT"
    "dsize \<le> min SBSDIO_SB_OFT_ADDR_LIMIT n" "address AND SBSDIO_SB_OFT_ADDR_MASK = of_nat off"
proof -
  show "address AND SBSDIO_SB_OFT_ADDR_MASK = of_nat off"
  proof (rule unat_eqD)
    show "unat (address AND SBSDIO_SB_OFT_ADDR_MASK) = unat (of_nat off :: u32)"
      unfolding window_offset using assms by (auto simp: piece_def unsigned_of_nat take_bit_eq_mod)
  qed
qed (use assms in \<open>auto simp: piece_def\<close>)

lemma piece_next:
  assumes "piece address off dsize n" "dsize \<noteq> n"
  shows "piece (address + of_nat dsize) 0 (min SBSDIO_SB_OFT_ADDR_LIMIT (n - dsize)) (n - dsize)" "4 dvd dsize"
proof -
  have "off + dsize = SBSDIO_SB_OFT_ADDR_LIMIT" "unat address mod SBSDIO_SB_OFT_ADDR_LIMIT = off" "4 dvd off"
    using assms by (auto simp: piece_def)
  moreover have "unat (address + of_nat dsize) mod SBSDIO_SB_OFT_ADDR_LIMIT
      = (unat address mod SBSDIO_SB_OFT_ADDR_LIMIT + dsize) mod SBSDIO_SB_OFT_ADDR_LIMIT"
    by (simp add: unat_word_ariths unsigned_of_nat take_bit_eq_mod mod_mod_cancel mod_simps)
  ultimately show "piece (address + of_nat dsize) 0 (min SBSDIO_SB_OFT_ADDR_LIMIT (n - dsize)) (n - dsize)"
    by (auto simp: piece_def min_def)
  show "4 dvd dsize"
    using \<open>off + dsize = SBSDIO_SB_OFT_ADDR_LIMIT\<close> \<open>4 dvd off\<close>
    by presburger
qed

lemma ramrw_loop_0: "ramrw_loop ops write address sdaddr dsize 0 data pkt s = Some (None, [], s)"
  by (simp add: ramrw_loop.simps)

lemma ramrw_loop_writes:
  assumes dev: "backplane_device ops win ram"
  shows "window_known win s \<Longrightarrow> piece address off dsize n \<Longrightarrow> n = length data \<Longrightarrow> round4 n \<le> 4294967296 \<Longrightarrow>
    round4 (min SBSDIO_SB_OFT_ADDR_LIMIT n) \<le> length m \<Longrightarrow>
    \<exists>pad s'. ramrw_loop ops True address (of_nat off) dsize n data \<lparr>sk_head = h, sk_mem = m, sk_len = 0\<rparr> s = Some (None, [], s') \<and>
      length pad = round4 n - n \<and> ram (dev s') = ram_write (ram (dev s)) address (data @ pad) \<and> window_known win s'"
proof (induction n arbitrary: s address off dsize data m rule: less_induct)
  case (less n)
  show ?case
  proof (cases "n = 0")
    case True
    with less.prems show ?thesis by (simp add: ramrw_loop_0 ram_write_Nil round4_def)
  next
    case False
    note p = pieceD [OF less.prems(2)]
    define bs where "bs = take dsize data"
    have bs: "length bs = dsize" using p(3) less.prems(3) by (simp add: bs_def)
    obtain d where d: "brcmf_sdiod_set_backplane_window ops address s =
        (None, s\<lparr>dev := d, sbwad_valid := True, sbwad := address AND SBSDIO_SBWINDOW_MASK\<rparr>)"
      "ram d = ram (dev s)" "win d AND SBSDIO_SBWINDOW_MASK = address AND SBSDIO_SBWINDOW_MASK"
      by (rule set_window_ok [OF dev less.prems(1)])
    let ?s = "s\<lparr>dev := d, sbwad_valid := True, sbwad := address AND SBSDIO_SBWINDOW_MASK\<rparr>"
    have mem: "round4 dsize \<le> length m"
      using round4_mono [OF p(5)] less.prems(5) by simp
    have known: "window_known win ?s" using d(3) by (simp add: window_known_def)
    obtain pad d' where w: "brcmf_sdiod_skbuff_write ops 1 (window_addr (of_nat off))
        \<lparr>sk_head = h, sk_mem = bs @ drop (length bs) m, sk_len = length bs\<rparr> ?s = Some (None, ?s\<lparr>dev := d'\<rparr>)"
      "length pad = round4 (length bs) - length bs" "win d' = win (dev ?s)"
      "ram d' = ram_write (ram (dev ?s)) ((address AND SBSDIO_SBWINDOW_MASK) + of_nat off) (bs @ pad)"
      by (rule piece_written [OF dev known, where off = off and bs = bs and m = m])
         (use p bs mem d(3) in simp_all)
    let ?m = "bs @ drop dsize m" and ?s' = "?s\<lparr>dev := d'\<rparr>"
    have ram: "ram d' = ram_write (ram (dev s)) address (bs @ pad)"
      using w(4) d(2) window_split [of address] p(6) by simp
    have known': "window_known win ?s'" using w(3) d(3) by (simp add: window_known_def)
    have put: "skb_put dsize \<lparr>sk_head = h, sk_mem = m, sk_len = 0\<rparr> = Some \<lparr>sk_head = h, sk_mem = m, sk_len = dsize\<rparr>"
      using mem round4_bounds(1) [of dsize] by (simp add: skb_put_def skb_tailroom_def)
    have store: "skb_store 0 (take dsize data) \<lparr>sk_head = h, sk_mem = m, sk_len = dsize\<rparr>
        = Some \<lparr>sk_head = h, sk_mem = ?m, sk_len = dsize\<rparr>"
      using bs mem round4_bounds(1) [of dsize] by (simp add: skb_store_at_front bs_def [symmetric])
    have step: "ramrw_loop ops True address (of_nat off) dsize n data \<lparr>sk_head = h, sk_mem = m, sk_len = 0\<rparr> s =
        ramrw_loop ops True (address + of_nat dsize) 0 (min SBSDIO_SB_OFT_ADDR_LIMIT (n - dsize)) (n - dsize) (drop dsize data)
          \<lparr>sk_head = h, sk_mem = ?m, sk_len = 0\<rparr> ?s'"
      using False d(1) put store w(1) bs
      by (subst ramrw_loop.simps) (auto simp: skb_trim_def option.map_ident option.map_id0 Let_def)
    show ?thesis
    proof (cases "dsize = n")
      case True
      then show ?thesis
        using step ram known' w(2) bs less.prems(3) by (auto simp: ramrw_loop_0 bs_def)
    next
      case False
      have "0 < dsize" using less.prems(2) \<open>n \<noteq> 0\<close> by (simp add: piece_def)
      have r4: "round4 n = dsize + round4 (n - dsize)"
        using round4_add [OF piece_next(2) [OF less.prems(2) False], of "n - dsize"] p(3) by simp
      have "pad = []" using w(2) bs round4_bounds(3) [OF piece_next(2) [OF less.prems(2) False]] by simp
      have "\<exists>pad s''. ramrw_loop ops True (address + of_nat dsize) (of_nat 0) (min SBSDIO_SB_OFT_ADDR_LIMIT (n - dsize)) (n - dsize)
          (drop dsize data) \<lparr>sk_head = h, sk_mem = ?m, sk_len = 0\<rparr> ?s' = Some (None, [], s'') \<and>
          length pad = round4 (n - dsize) - (n - dsize) \<and>
          ram (dev s'') = ram_write (ram (dev ?s')) (address + of_nat dsize) (drop dsize data @ pad) \<and> window_known win s''"
      proof (rule less.IH [OF _ known' piece_next(1) [OF less.prems(2) False]])
        show "round4 (min SBSDIO_SB_OFT_ADDR_LIMIT (n - dsize)) \<le> length ?m"
          using less.prems(5) round4_mono [OF min.mono [OF order_refl diff_le_self], of SBSDIO_SB_OFT_ADDR_LIMIT n dsize]
            bs mem round4_bounds(1) [of dsize] by simp
      qed (use \<open>0 < dsize\<close> \<open>n \<noteq> 0\<close> less.prems(3,4) r4 in simp_all)
      then obtain pad' s'' where r: "ramrw_loop ops True (address + of_nat dsize) 0 (min SBSDIO_SB_OFT_ADDR_LIMIT (n - dsize)) (n - dsize)
          (drop dsize data) \<lparr>sk_head = h, sk_mem = ?m, sk_len = 0\<rparr> ?s' = Some (None, [], s'')"
        "length pad' = round4 (n - dsize) - (n - dsize)"
        "ram (dev s'') = ram_write (ram (dev ?s')) (address + of_nat dsize) (drop dsize data @ pad')" "window_known win s''"
        by auto
      have "ram (dev s'') = ram_write (ram (dev s)) address (data @ pad')"
        using ram_write_append [of bs "drop dsize data @ pad'" "ram (dev s)" address]
        using r(2,3) ram \<open>pad = []\<close> bs less.prems(3,4) r4 p(3) round4_bounds(1) [of "n - dsize"]
        by (simp add: bs_def flip: append_assoc)
      moreover have "length pad' = round4 n - n" using r(2) r4 p(3) by simp
      ultimately show ?thesis using step r(1,4) by auto
    qed
  qed
qed

lemma ramrw_loop_reads:
  assumes dev: "backplane_device ops win ram"
  shows "window_known win s \<Longrightarrow> piece address off dsize n \<Longrightarrow>
    round4 (min SBSDIO_SB_OFT_ADDR_LIMIT n) \<le> length m \<Longrightarrow>
    \<exists>s'. ramrw_loop ops False address (of_nat off) dsize n data \<lparr>sk_head = h, sk_mem = m, sk_len = 0\<rparr> s =
        Some (None, ram_read (ram (dev s)) address n, s') \<and> ram (dev s') = ram (dev s) \<and> window_known win s'"
proof (induction n arbitrary: s address off dsize data m rule: less_induct)
  case (less n)
  show ?case
  proof (cases "n = 0")
    case True
    with less.prems show ?thesis by (simp add: ramrw_loop_0 ram_read_def)
  next
    case False
    note p = pieceD [OF less.prems(2)]
    have "0 < dsize" using less.prems(2) False by (simp add: piece_def)
    obtain d where d: "brcmf_sdiod_set_backplane_window ops address s =
        (None, s\<lparr>dev := d, sbwad_valid := True, sbwad := address AND SBSDIO_SBWINDOW_MASK\<rparr>)"
      "ram d = ram (dev s)" "win d AND SBSDIO_SBWINDOW_MASK = address AND SBSDIO_SBWINDOW_MASK"
      by (rule set_window_ok [OF dev less.prems(1)])
    let ?s = "s\<lparr>dev := d, sbwad_valid := True, sbwad := address AND SBSDIO_SBWINDOW_MASK\<rparr>"
    have mem: "round4 dsize \<le> length m"
      using round4_mono [OF p(5)] less.prems(3) by simp
    have known: "window_known win ?s" using d(3) by (simp add: window_known_def)
    obtain m' d' where r: "brcmf_sdiod_skbuff_read ops 1 (window_addr (of_nat off)) \<lparr>sk_head = h, sk_mem = m, sk_len = dsize\<rparr> ?s =
        Some (None, \<lparr>sk_head = h, sk_mem = m', sk_len = dsize\<rparr>, ?s\<lparr>dev := d'\<rparr>)" "length m' = length m"
      "take dsize m' = ram_read (ram (dev ?s)) ((address AND SBSDIO_SBWINDOW_MASK) + of_nat off) dsize"
      "win d' = win (dev ?s)" "ram d' = ram (dev ?s)"
      by (rule piece_read [OF dev known, where off = off and n = dsize and m = m])
         (use p mem d(3) in simp_all)
    let ?s' = "?s\<lparr>dev := d'\<rparr>"
    have got: "take dsize m' = ram_read (ram (dev s)) address dsize"
      using r(3) d(2) window_split [of address] p(6) by simp
    have known': "window_known win ?s'" using r(4) d(3) by (simp add: window_known_def)
    have put: "skb_put dsize \<lparr>sk_head = h, sk_mem = m, sk_len = 0\<rparr> = Some \<lparr>sk_head = h, sk_mem = m, sk_len = dsize\<rparr>"
      using mem round4_bounds(1) [of dsize] by (simp add: skb_put_def skb_tailroom_def)
    have step: "ramrw_loop ops False address (of_nat off) dsize n data \<lparr>sk_head = h, sk_mem = m, sk_len = 0\<rparr> s =
        map_option (\<lambda>(e, rest, s). (e, take dsize m' @ rest, s))
          (ramrw_loop ops False (address + of_nat dsize) 0 (min SBSDIO_SB_OFT_ADDR_LIMIT (n - dsize)) (n - dsize) (drop dsize data)
            \<lparr>sk_head = h, sk_mem = m', sk_len = 0\<rparr> ?s')"
      using False \<open>0 < dsize\<close> d(1) put r(1)
      by (subst ramrw_loop.simps) (auto simp: skb_trim_def skb_data_def Let_def)
    have split: "ram_read (ram (dev s)) address n = take dsize m' @ ram_read (ram (dev s)) (address + of_nat dsize) (n - dsize)"
      using ram_read_append [of "ram (dev s)" address dsize "n - dsize"] got p(3) by simp
    show ?thesis
    proof (cases "dsize = n")
      case True
      then show ?thesis
        using step split known' r(5) d(2) by (simp add: ramrw_loop_0 ram_read_def)
    next
      case False
      have "\<exists>s''. ramrw_loop ops False (address + of_nat dsize) (of_nat 0) (min SBSDIO_SB_OFT_ADDR_LIMIT (n - dsize)) (n - dsize)
          (drop dsize data) \<lparr>sk_head = h, sk_mem = m', sk_len = 0\<rparr> ?s' =
            Some (None, ram_read (ram (dev ?s')) (address + of_nat dsize) (n - dsize), s'') \<and>
          ram (dev s'') = ram (dev ?s') \<and> window_known win s''"
      proof (rule less.IH [OF _ known' piece_next(1) [OF less.prems(2) False]])
        show "round4 (min SBSDIO_SB_OFT_ADDR_LIMIT (n - dsize)) \<le> length m'"
          using less.prems(3) round4_mono [OF min.mono [OF order_refl diff_le_self], of SBSDIO_SB_OFT_ADDR_LIMIT n dsize] r(2) by simp
      qed (use \<open>0 < dsize\<close> \<open>n \<noteq> 0\<close> in simp)
      then show ?thesis using step split r(5) d(2) by auto
    qed
  qed
qed

text \<open>The first piece, as the code computes it.\<close>

lemma first_piece:
  assumes al: "4 dvd unat address" and n: "unat address mod SBSDIO_SB_OFT_ADDR_LIMIT + n < 4294967296"
  shows "piece address (unat address mod SBSDIO_SB_OFT_ADDR_LIMIT)
    (if ((address AND SBSDIO_SB_OFT_ADDR_MASK) + of_nat n) AND SBSDIO_SBWINDOW_MASK \<noteq> 0
     then SBSDIO_SB_OFT_ADDR_LIMIT - unat (address AND SBSDIO_SB_OFT_ADDR_MASK) else n) n"
proof -
  let ?off = "unat address mod SBSDIO_SB_OFT_ADDR_LIMIT"
  let ?w = "(address AND SBSDIO_SB_OFT_ADDR_MASK) + of_nat n"
  have w: "unat ?w = ?off + n"
    using n by (simp add: unat_word_ariths window_offset unsigned_of_nat take_bit_eq_mod mod_simps)
  have "?w AND SBSDIO_SBWINDOW_MASK = 0 \<longleftrightarrow> unat ?w mod SBSDIO_SB_OFT_ADDR_LIMIT = unat ?w"
    using window_split [of ?w] window_offset [of ?w] by (metis add_0 add_right_cancel unat_eqD)
  also have "\<dots> \<longleftrightarrow> ?off + n < SBSDIO_SB_OFT_ADDR_LIMIT"
    by (metis w mod_less mod_less_divisor zero_less_numeral)
  finally have "?w AND SBSDIO_SBWINDOW_MASK = 0 \<longleftrightarrow> ?off + n < SBSDIO_SB_OFT_ADDR_LIMIT" .
  moreover have "4 dvd ?off" using al by (simp add: dvd_mod)
  moreover have "?off < SBSDIO_SB_OFT_ADDR_LIMIT" by simp
  ultimately show ?thesis by (auto simp: piece_def window_offset)
qed

lemma ramrw_writes:
  assumes dev: "backplane_device ops win ram" and known: "window_known win s"
    and al: "4 dvd unat address" and n: "unat address mod SBSDIO_SB_OFT_ADDR_LIMIT + length data < 4294967296"
  obtains pad s' where "brcmf_sdiod_ramrw ops True address data (length data) s = Some (None, [], s')"
    "length pad = round4 (length data) - length data"
    "ram (dev s') = ram_write (ram (dev s)) address (data @ pad)" "window_known win s'"
proof -
  from dev obtain m d where d: "kern_alloc ops (min SBSDIO_SB_OFT_ADDR_LIMIT (length data)) (dev s) = (Some m, d)"
    "round4 (min SBSDIO_SB_OFT_ADDR_LIMIT (length data)) \<le> length m" "win d = win (dev s)" "ram d = ram (dev s)"
    by (rule backplane_alloc)
  have known': "window_known win (s\<lparr>dev := d\<rparr>)" using known d(3) by (simp add: window_known_def)
  have r4: "round4 (length data) \<le> 4294967296"
    using round4_dvd_le [of 4294967296 "length data"] n by simp
  note piece = first_piece [OF al n]
  note loop = ramrw_loop_writes [OF dev known' piece refl r4 d(2), where h = "[]"]
  have "brcmf_sdiod_ramrw ops True address data (length data) s = ramrw_loop ops True address (address AND SBSDIO_SB_OFT_ADDR_MASK)
      (if ((address AND SBSDIO_SB_OFT_ADDR_MASK) + of_nat (length data)) AND SBSDIO_SBWINDOW_MASK \<noteq> 0
       then SBSDIO_SB_OFT_ADDR_LIMIT - unat (address AND SBSDIO_SB_OFT_ADDR_MASK) else (length data))
      (length data) data \<lparr>sk_head = [], sk_mem = m, sk_len = 0\<rparr> (s\<lparr>dev := d\<rparr>)"
    by (simp only: brcmf_sdiod_ramrw_def d Let_def prod.case option.case)
  then show ?thesis
    using loop that unfolding pieceD(6) [OF piece] by (auto simp: d(4))
qed

lemma ramrw_reads:
  assumes dev: "backplane_device ops win ram" and known: "window_known win s"
    and al: "4 dvd unat address" and n: "unat address mod SBSDIO_SB_OFT_ADDR_LIMIT + n < 4294967296"
  obtains s' where "brcmf_sdiod_ramrw ops False address data n s = Some (None, ram_read (ram (dev s)) address n, s')"
    "ram (dev s') = ram (dev s)" "window_known win s'"
proof -
  from dev obtain m d where d: "kern_alloc ops (min SBSDIO_SB_OFT_ADDR_LIMIT n) (dev s) = (Some m, d)"
    "round4 (min SBSDIO_SB_OFT_ADDR_LIMIT n) \<le> length m" "win d = win (dev s)" "ram d = ram (dev s)"
    by (rule backplane_alloc)
  have known': "window_known win (s\<lparr>dev := d\<rparr>)" using known d(3) by (simp add: window_known_def)
  note piece = first_piece [OF al n]
  note loop = ramrw_loop_reads [OF dev known' piece d(2), where h = "[]" and data = data]
  have "brcmf_sdiod_ramrw ops False address data n s = ramrw_loop ops False address (address AND SBSDIO_SB_OFT_ADDR_MASK)
      (if ((address AND SBSDIO_SB_OFT_ADDR_MASK) + of_nat n) AND SBSDIO_SBWINDOW_MASK \<noteq> 0
       then SBSDIO_SB_OFT_ADDR_LIMIT - unat (address AND SBSDIO_SB_OFT_ADDR_MASK) else n)
      n data \<lparr>sk_head = [], sk_mem = m, sk_len = 0\<rparr> (s\<lparr>dev := d\<rparr>)"
    by (simp only: brcmf_sdiod_ramrw_def d Let_def prod.case option.case)
  then show ?thesis
    using loop that unfolding pieceD(6) [OF piece] by (auto simp: d(4))
qed

text \<open>
  C8: what is written to the memory of the device at a word boundary, wherever the windows end, is
  what is read back, and the write changes nothing else but the rest of the last word: the up to
  three bytes behind the data that complete it are overwritten with whatever the buffer held.
\<close>

theorem device_memory_read_back:
  assumes "backplane_device ops win ram" "window_known win s" "4 dvd unat address"
    and "unat address mod SBSDIO_SB_OFT_ADDR_LIMIT + length data < 4294967296"
  shows "\<exists>pad s' s''. brcmf_sdiod_ramrw ops True address data (length data) s = Some (None, [], s') \<and>
    ram (dev s') = ram_write (ram (dev s)) address (data @ pad) \<and> length pad = round4 (length data) - length data \<and>
    brcmf_sdiod_ramrw ops False address [] (length data) s' = Some (None, data, s'')"
proof -
  obtain pad s' where w: "brcmf_sdiod_ramrw ops True address data (length data) s = Some (None, [], s')"
    "length pad = round4 (length data) - length data"
    "ram (dev s') = ram_write (ram (dev s)) address (data @ pad)" "window_known win s'"
    using assms by (rule ramrw_writes)
  obtain s'' where r: "brcmf_sdiod_ramrw ops False address [] (length data) s'
      = Some (None, ram_read (ram (dev s')) address (length data), s'')"
    using assms(1) w(4) assms(3,4) by (rule ramrw_reads)
  have "length (data @ pad) \<le> 4294967296"
    using w(2) round4_dvd_le [of 4294967296 "length data"] round4_bounds(1) [of "length data"] assms(4) by simp
  then have "ram_read (ram (dev s')) address (length data) = data"
    unfolding w(3) using ram_read_write [of "data @ pad" "length data"] by simp
  with w r show ?thesis by auto
qed

subsubsection \<open>A sample card\<close>

record sample_card =
  card_win :: u32
  card_ram :: "u32 \<Rightarrow> u8"

definition sample_mmc :: "sample_card mmc_core" where
  "sample_mmc = \<lparr>
     mmc_writeb = (\<lambda>reg b d. (None, d\<lparr>card_win := set_byte (8 + 8 * unat (reg - SBSDIO_FUNC1_SBADDRLOW)) b (card_win d)\<rparr>)),
     mmc_readb = (\<lambda>a d. (0, d)), mmc_f0_writeb = (\<lambda>a b d. d), mmc_readl = (\<lambda>a d. ((0, None), d)),
     mmc_writel = (\<lambda>a v d. (None, d)),
     mmc_fromio = (\<lambda>a n d. (Inr (ram_read (card_ram d) ((card_win d AND SBSDIO_SBWINDOW_MASK) + (a AND SBSDIO_SB_OFT_ADDR_MASK)) n), d)),
     mmc_readsb = (\<lambda>fn a n d. (Inr (replicate n 0), d)),
     mmc_toio = (\<lambda>fn a bs d. (None, d\<lparr>card_ram := ram_write (card_ram d) ((card_win d AND SBSDIO_SBWINDOW_MASK) + (a AND SBSDIO_SB_OFT_ADDR_MASK)) bs\<rparr>)),
     mmc_writesb = (\<lambda>a bs d. (None, d)),
     mmc_request = (\<lambda>rq d. ((None, []), d)),
     kern_alloc = (\<lambda>n d. (Some (replicate (round4 n) 0xAA), d)), kern_addr = (\<lambda>d. 0)\<rparr>"

definition sample_sdio :: "'d \<Rightarrow> 'd brcmf_sdio_dev" where
  "sample_sdio d = \<lparr>sd_state = BRCMF_SDIOD_DATA, bus_up = True, sbwad = 0, sbwad_valid = False, cc_base = 0x18000000,
     sg_support = True, max_request_size = 65536, max_segment_count = 35, max_segment_size = 65536,
     func2_blksize = 512, broken_sg_support = False, dev = d\<rparr>"

lemma sample_offset:
  "off < SBSDIO_SB_OFT_ADDR_LIMIT \<Longrightarrow> (of_nat off OR SBSDIO_SB_ACCESS_2_4B_FLAG) AND SBSDIO_SB_OFT_ADDR_MASK = (of_nat off :: u32)"
proof -
  assume off: "off < SBSDIO_SB_OFT_ADDR_LIMIT"
  have "(of_nat off OR SBSDIO_SB_ACCESS_2_4B_FLAG) AND SBSDIO_SB_OFT_ADDR_MASK = (of_nat off :: u32) AND SBSDIO_SB_OFT_ADDR_MASK"
    by (simp add: bit.conj_disj_distrib2)
  also have "\<dots> = of_nat off"
  proof (rule unat_eqD)
    show "unat ((of_nat off :: u32) AND SBSDIO_SB_OFT_ADDR_MASK) = unat (of_nat off :: u32)"
      unfolding window_offset using off by (simp add: unsigned_of_nat take_bit_eq_mod)
  qed
  finally show ?thesis .
qed

lemma sample_mmc_device: "backplane_device sample_mmc card_win card_ram"
proof -
  have "unat (of_nat i :: u32) = i" if "i < 3" for i
    using that by (simp add: unsigned_of_nat take_bit_eq_mod)
  moreover have "off < SBSDIO_SB_OFT_ADDR_LIMIT \<or> n = 0" if "off + n \<le> SBSDIO_SB_OFT_ADDR_LIMIT" for off n
    using that by linarith
  ultimately show ?thesis
    unfolding backplane_device_def sample_mmc_def
    by (fastforce simp: sample_offset ram_write_Nil ram_read_def)
qed

theorem device_memory_read_back_witness:
  "\<exists>pad s' s''. brcmf_sdiod_ramrw sample_mmc True 0x7ffc [1, 2, 3, 4, 5, 6] 6 (sample_sdio \<lparr>card_win = 0, card_ram = \<lambda>a. 0\<rparr>) = Some (None, [], s') \<and>
    card_ram (dev s') = ram_write (\<lambda>a. 0) 0x7ffc ([1, 2, 3, 4, 5, 6] @ pad) \<and> length pad = 2 \<and>
    brcmf_sdiod_ramrw sample_mmc False 0x7ffc [] 6 s' = Some (None, [1, 2, 3, 4, 5, 6], s'')"
proof -
  have l: "length [1, 2, 3, 4, 5, 6 :: u8] = 6" and k: "window_known card_win (sample_sdio \<lparr>card_win = 0, card_ram = \<lambda>a. 0\<rparr>)"
    by (simp_all add: window_known_def sample_sdio_def)
  show ?thesis
    using device_memory_read_back [OF sample_mmc_device k, of "0x7ffc" "[1, 2, 3, 4, 5, 6]", unfolded l]
    by (simp add: sample_sdio_def round4_def)
qed

subsection \<open>The cached window\<close>

text \<open>
  C23: a switch of the window that fails after its first byte leaves the register of the device
  somewhere else, but the cached window is kept and stays valid. The next access to the old
  window does not write the register: it reads another place of the backplane.
\<close>

theorem window_failed_switch:
  assumes valid: "sbwad_valid s" "window_known win s" and other: "b AND SBSDIO_SBWINDOW_MASK \<noteq> sbwad s"
    and low: "mmc_writeb ops SBSDIO_FUNC1_SBADDRLOW (ucast (drop_bit 8 (b AND SBSDIO_SBWINDOW_MASK) AND 0xff)) (dev s) = (None, d1)"
      "win d1 = set_byte 8 (ucast (drop_bit 8 (b AND SBSDIO_SBWINDOW_MASK) AND 0xff)) (win (dev s))"
    and mid: "mmc_writeb ops (SBSDIO_FUNC1_SBADDRLOW + 1) (ucast (drop_bit 16 (b AND SBSDIO_SBWINDOW_MASK) AND 0xff)) d1 = (Some e, d2)"
      "win d2 = win d1"
    and differ: "bit b 15 \<noteq> bit (sbwad s) 15" and a: "a AND SBSDIO_SBWINDOW_MASK = sbwad s"
  shows "brcmf_sdiod_set_backplane_window ops b s = (Some e, s\<lparr>dev := d2\<rparr>) \<and>
    win d2 AND SBSDIO_SBWINDOW_MASK \<noteq> a AND SBSDIO_SBWINDOW_MASK \<and>
    brcmf_sdiod_readl ops a (s\<lparr>dev := d2\<rparr>) =
      (fst (mmc_readl ops (window_addr a) d2), s\<lparr>dev := snd (mmc_readl ops (window_addr a) d2)\<rparr>)"
proof -
  let ?v = "drop_bit 8 (b AND SBSDIO_SBWINDOW_MASK)"
  have "drop_bit 16 (b AND SBSDIO_SBWINDOW_MASK) = drop_bit 8 ?v" by (simp del: drop_bit_and)
  then have "window_writes ops 3 SBSDIO_FUNC1_SBADDRLOW ?v (dev s) = (Some e, d2)"
    using low(1) mid(1) by (simp add: numeral_3_eq_3 del: drop_bit_and)
  then have switch: "brcmf_sdiod_set_backplane_window ops b s = (Some e, s\<lparr>dev := d2\<rparr>)"
    using other by (simp add: brcmf_sdiod_set_backplane_window_def Let_def del: drop_bit_and)
  have "bit (ucast (?v AND 0xff) :: u8) 7 = bit b 15"
    unfolding bit_unsigned_iff bit_and_iff bit_byte_mask bit_drop_bit_eq comp_def by (simp add: bit_window_mask)
  then have "bit (win d2 AND SBSDIO_SBWINDOW_MASK) 15 = bit b 15"
    unfolding mid(2) low(2) bit_and_iff by (simp add: bit_set_byte bit_window_mask)
  then have "win d2 AND SBSDIO_SBWINDOW_MASK \<noteq> a AND SBSDIO_SBWINDOW_MASK"
    using differ a by metis
  moreover have "brcmf_sdiod_readl ops a (s\<lparr>dev := d2\<rparr>) =
      (fst (mmc_readl ops (window_addr a) d2), s\<lparr>dev := snd (mmc_readl ops (window_addr a) d2)\<rparr>)"
    using valid(1) a by (simp add: brcmf_sdiod_readl_def brcmf_sdiod_set_backplane_window_def Let_def case_prod_beta)
  ultimately show ?thesis using switch by blast
qed

text \<open>A card on which the middle byte of the window cannot be written; reads give the window.\<close>

definition stuck_mmc :: "u32 mmc_core" where
  "stuck_mmc = \<lparr>
     mmc_writeb = (\<lambda>reg b w. if reg = SBSDIO_FUNC1_SBADDRLOW + 1 then (Some EIO, w)
                             else (None, set_byte (8 + 8 * unat (reg - SBSDIO_FUNC1_SBADDRLOW)) b w)),
     mmc_readb = (\<lambda>a d. (0, d)), mmc_f0_writeb = (\<lambda>a b d. d), mmc_readl = (\<lambda>a w. ((w, None), w)), mmc_writel = (\<lambda>a v w. (None, w)),
     mmc_fromio = (\<lambda>a n w. (Inl EIO, w)), mmc_readsb = (\<lambda>fn a n w. (Inl EIO, w)),
     mmc_toio = (\<lambda>fn a bs w. (Some EIO, w)), mmc_writesb = (\<lambda>a bs w. (Some EIO, w)),
     mmc_request = (\<lambda>rq w. ((Some EIO, []), w)), kern_alloc = (\<lambda>n w. (None, w)), kern_addr = (\<lambda>d. 0)\<rparr>"

theorem window_failed_switch_witness:
  "brcmf_sdiod_set_backplane_window stuck_mmc 0x18008000 ((sample_sdio 0x18000000)\<lparr>sbwad := 0x18000000, sbwad_valid := True\<rparr>)
     = (Some EIO, (sample_sdio 0x18008000)\<lparr>sbwad := 0x18000000, sbwad_valid := True\<rparr>) \<and>
   fst (brcmf_sdiod_readl stuck_mmc 0x18000004 ((sample_sdio 0x18008000)\<lparr>sbwad := 0x18000000, sbwad_valid := True\<rparr>))
     = (0x18008000, None)"
  using window_failed_switch [of "(sample_sdio 0x18000000)\<lparr>sbwad := 0x18000000, sbwad_valid := True\<rparr>" "\<lambda>w. w" "0x18008000"
      stuck_mmc "0x18008000" EIO "0x18008000" "0x18000004"]
  by (simp add: window_known_def stuck_mmc_def sample_sdio_def set_byte_def)

end
