(* ===== verification/Sdio_Chain.thy ===== *)
theory Sdio_Chain
  imports Sdio_Ram
begin

section \<open>Chains of packets over SDIO\<close>

text \<open>
  The requests \<open>brcmf_sdiod_sglist_rw\<close> makes of a list of packets carry its bytes in order and
  within the limits of the controller, and transfer those in whole blocks; where they do not fit
  whole blocks, or where there is more than one, two evaluated runs show what goes wrong. A chain received is filled with the
  next bytes of the stream, with or without scatter-gather.
\<close>

subsection \<open>What the block requests carry\<close>

text \<open>A card that takes every request, and the requests it has taken.\<close>

definition requests_logged :: "'d mmc_core \<Rightarrow> ('d \<Rightarrow> mmc_req list) \<Rightarrow> bool" where
  "requests_logged ops log \<longleftrightarrow>
     (\<forall>rq d. fst (fst (mmc_request ops rq d)) = None \<and> log (snd (mmc_request ops rq d)) = log d @ [rq])"

definition good_request :: "'d brcmf_sdio_dev \<Rightarrow> nat \<Rightarrow> mmc_req \<Rightarrow> bool" where
  "good_request s max_seg_cnt rq \<longleftrightarrow>
     rq_write rq \<and> rq_segs rq \<noteq> [] \<and> length (rq_segs rq) \<le> max_seg_cnt \<and>
     length (concat (rq_segs rq)) \<le> max_request_size s \<and>
     (\<forall>seg\<in>set (rq_segs rq). seg \<noteq> [] \<and> length seg \<le> max_segment_size s) \<and>
     rq_blksz rq = func2_blksize s \<and> rq_blocks rq = length (concat (rq_segs rq)) div func2_blksize s"

text \<open>The bytes in the scatter lists, and those of them the controller transfers: whole blocks.\<close>

definition carried :: "mmc_req list \<Rightarrow> u8 list" where
  "carried rqs = concat (concat (map rq_segs rqs))"

definition transferred :: "mmc_req list \<Rightarrow> u8 list" where
  "transferred rqs = concat (map (\<lambda>rq. take (rq_blocks rq * rq_blksz rq) (concat (rq_segs rq))) rqs)"

lemma carried_append [simp]: "carried (rqs @ rqs') = carried rqs @ carried rqs'" "carried [] = []"
  by (simp_all add: carried_def)

lemma transferred_whole:
  assumes "\<forall>rq\<in>set rqs. good_request s k rq"
  shows "transferred rqs = carried rqs \<longleftrightarrow> (\<forall>rq\<in>set rqs. func2_blksize s dvd length (concat (rq_segs rq)))"
  using assms
proof (induction rqs)
  case (Cons rq rqs)
  let ?bs = "concat (rq_segs rq)" and ?b = "func2_blksize s"
  have blocks: "rq_blocks rq * rq_blksz rq = length ?bs div ?b * ?b" using Cons.prems by (simp add: good_request_def)
  have le: "length (transferred rqs) \<le> length (carried rqs)"
    by (induction rqs) (auto simp: transferred_def carried_def)
  have IH: "transferred rqs = carried rqs \<longleftrightarrow> (\<forall>rq\<in>set rqs. ?b dvd length (concat (rq_segs rq)))"
    using Cons by simp
  have "transferred (rq # rqs) = carried (rq # rqs) \<longleftrightarrow> take (length ?bs div ?b * ?b) ?bs @ transferred rqs = ?bs @ carried rqs"
    by (simp add: transferred_def carried_def blocks)
  also have "\<dots> \<longleftrightarrow> ?b dvd length ?bs \<and> transferred rqs = carried rqs"
  proof
    assume eq: "take (length ?bs div ?b * ?b) ?bs @ transferred rqs = ?bs @ carried rqs"
    define q where "q = length ?bs div ?b * ?b"
    have "q \<le> length ?bs" by (simp add: q_def)
    moreover have "min (length ?bs) q + length (transferred rqs) = length ?bs + length (carried rqs)"
      using arg_cong [OF eq, of length] by (simp add: q_def)
    ultimately have "length ?bs div ?b * ?b = length ?bs" using le unfolding q_def [symmetric] by linarith
    then show "?b dvd length ?bs \<and> transferred rqs = carried rqs"
      using eq by (metis append_eq_append_conv dvd_triv_right order_refl take_all)
  qed auto
  finally show ?case using IH by simp
qed (simp add: transferred_def)

text \<open>
  The arguments of the commands. The code sets the fields of the address and the count of blocks
  by an or into the argument of the command before, so a later command carries the bits of the
  earlier ones too; the address moves on for function 1 only.
\<close>

definition next_command :: "nat \<Rightarrow> mmc_req \<Rightarrow> u32 \<times> u32 \<Rightarrow> u32 \<times> u32" where
  "next_command fn rq ca =
     (if fn = 1 then fst ca + of_nat (length (concat (rq_segs rq))) else fst ca,
      snd ca OR push_bit 9 (fst ca AND 0x1FFFF) OR (of_nat (rq_blocks rq) AND 0x1FF))"

fun command_args :: "nat \<Rightarrow> u32 \<times> u32 \<Rightarrow> mmc_req list \<Rightarrow> u32 list" where
  "command_args fn ca [] = []"
| "command_args fn ca (rq # rqs) = snd (next_command fn rq ca) # command_args fn (next_command fn rq ca) rqs"

lemma command_args_append:
  "command_args fn ca (rqs @ rqs') = command_args fn ca rqs @ command_args fn (fold (next_command fn) rqs ca) rqs'"
  by (induction rqs arbitrary: ca) simp_all

definition write_command :: "nat \<Rightarrow> u32" where
  "write_command fn = push_bit 31 1 OR push_bit 28 (of_nat fn AND 7) OR push_bit 27 1 OR (if fn = 1 then push_bit 26 1 else 0)"

definition counts_ored :: "mmc_req list \<Rightarrow> u32" where
  "counts_ored rqs = foldr (OR) (map (\<lambda>rq. of_nat (rq_blocks rq) AND 0x1FF) rqs) 0"

lemma count_bits: "9 \<le> n \<Longrightarrow> push_bit n (x :: u32) AND 0x1FF = 0"
proof -
  assume n: "9 \<le> n"
  have "push_bit n x AND mask 9 = 0" by (rule bit_word_eqI) (use n in \<open>auto simp: bit_simps\<close>)
  then show ?thesis by (simp add: mask_eq_exp_minus_1)
qed

lemma write_command_count: "write_command fn AND 0x1FF = 0"
  using count_bits [of 31 1] count_bits [of 28 "of_nat fn AND 7"] count_bits [of 27 1] count_bits [of 26 1]
  by (simp only: write_command_def bit.conj_disj_distrib2 split: if_split) simp

lemma command_counts:
  assumes "snd ca AND 0x1FF = c" "i < length rqs"
  shows "command_args fn ca rqs ! i AND 0x1FF = c OR counts_ored (take (Suc i) rqs)"
  using assms
proof (induction rqs arbitrary: ca c i)
  case (Cons rq rqs)
  let ?n = "of_nat (rq_blocks rq) AND (0x1FF :: u32)"
  have first: "snd (next_command fn rq ca) AND 0x1FF = c OR ?n"
    using Cons.prems(1)
    by (simp only: next_command_def snd_conv bit.conj_disj_distrib2 count_bits [OF order_refl]) (simp add: and.assoc)
  show ?case
  proof (cases i)
    case 0
    then show ?thesis using first by (simp add: counts_ored_def)
  next
    case (Suc j)
    then show ?thesis
      using Cons.IH [OF first, of j] Cons.prems(2) by (simp add: counts_ored_def or.assoc)
  qed
qed simp

text \<open>
  The segments gathered. \<open>whole\<close> says that packets and limits are whole numbers of blocks; then
  every segment is.
\<close>

definition good_segment :: "'d brcmf_sdio_dev \<Rightarrow> bool \<Rightarrow> u8 list \<Rightarrow> bool" where
  "good_segment s whole seg \<longleftrightarrow>
     seg \<noteq> [] \<and> length seg \<le> max_segment_size s \<and> (whole \<longrightarrow> func2_blksize s dvd length seg)"

definition request_ok :: "'d brcmf_sdio_dev \<Rightarrow> nat \<Rightarrow> bool \<Rightarrow> mmc_req \<Rightarrow> bool" where
  "request_ok s max_seg_cnt whole rq \<longleftrightarrow>
     good_request s max_seg_cnt rq \<and> (\<forall>seg\<in>set (rq_segs rq). good_segment s whole seg)"

definition sg_ok :: "'d brcmf_sdio_dev \<Rightarrow> nat \<Rightarrow> bool \<Rightarrow> 'd sg_state \<Rightarrow> bool" where
  "sg_ok s max_seg_cnt whole st \<longleftrightarrow>
     sg_req st = length (concat (sg_segs st)) \<and> sg_req st < max_request_size s \<and> length (sg_segs st) < max_seg_cnt \<and>
     (\<forall>seg\<in>set (sg_segs st). good_segment s whole seg) \<and> (\<exists>d. sg_dev st = s\<lparr>dev := d\<rparr>)"

lemma dvd_concat: "\<forall>seg\<in>set segs. b dvd length seg \<Longrightarrow> (b :: nat) dvd length (concat segs)"
  by (induction segs) auto

text \<open>One request: built from the segments gathered.\<close>

lemma submit_one:
  assumes log: "requests_logged ops log" and d: "sg_dev st = s\<lparr>dev := d\<rparr>"
    and ok: "sg_segs st \<noteq> []" "length (sg_segs st) \<le> max_seg_cnt" "sg_req st = length (concat (sg_segs st))"
      "sg_req st \<le> max_request_size s" "\<forall>seg\<in>set (sg_segs st). good_segment s whole seg"
  obtains rq d' where "fst (mmc_submit_one ops True fn st) = None"
    "sg_dev (snd (mmc_submit_one ops True fn st)) = s\<lparr>dev := d'\<rparr>" "log d' = log d @ [rq]"
    "(sg_addr (snd (mmc_submit_one ops True fn st)), sg_arg (snd (mmc_submit_one ops True fn st))) =
      next_command fn rq (sg_addr st, sg_arg st)"
    "rq_arg rq = snd (next_command fn rq (sg_addr st, sg_arg st))"
    "rq_segs rq = sg_segs st" "request_ok s max_seg_cnt whole rq"
proof -
  define rq where "rq = \<lparr>rq_write = True,
      rq_arg = sg_arg st OR push_bit 9 (sg_addr st AND 0x1FFFF) OR (of_nat (sg_req st div func2_blksize s) AND 0x1FF),
      rq_blocks = sg_req st div func2_blksize s, rq_blksz = func2_blksize s, rq_segs = sg_segs st\<rparr>"
  obtain bs d' where r: "mmc_request ops rq d = ((None, bs), d')" "log d' = log d @ [rq]"
    using log unfolding requests_logged_def by (metis prod.collapse)
  have run: "mmc_submit_one ops True fn st = (None, st\<lparr>sg_arg := rq_arg rq,
      sg_addr := if fn = 1 then sg_addr st + of_nat (sg_req st) else sg_addr st,
      sg_done := sg_done st @ concat (sg_segs st), sg_dev := s\<lparr>dev := d'\<rparr>\<rparr>)"
    using r(1) d by (simp add: mmc_submit_one_def rq_def Let_def medium_lost_def)
  show ?thesis
  proof (rule that [of d' rq])
    show "request_ok s max_seg_cnt whole rq"
      using ok by (simp add: request_ok_def good_request_def rq_def good_segment_def)
  qed (use ok(3) r(2) in \<open>simp_all add: run next_command_def rq_def\<close>)
qed

definition sg_moves ::
    "('d \<Rightarrow> mmc_req list) \<Rightarrow> 'd brcmf_sdio_dev \<Rightarrow> nat \<Rightarrow> bool \<Rightarrow> nat \<Rightarrow> u8 list \<Rightarrow> 'd sg_state \<Rightarrow> 'd sg_state \<Rightarrow> bool" where
  "sg_moves log s max_seg_cnt whole fn bs st st' \<longleftrightarrow>
     (\<exists>rqs. log (dev (sg_dev st')) = log (dev (sg_dev st)) @ rqs \<and>
        carried rqs @ concat (sg_segs st') = concat (sg_segs st) @ bs \<and>
        (\<forall>rq\<in>set rqs. request_ok s max_seg_cnt whole rq) \<and>
        map rq_arg rqs = command_args fn (sg_addr st, sg_arg st) rqs \<and>
        (sg_addr st', sg_arg st') = fold (next_command fn) rqs (sg_addr st, sg_arg st))"

lemma sg_moves_trans:
  assumes "sg_moves log s k w fn xs st st'" "sg_moves log s k w fn ys st' st''"
  shows "sg_moves log s k w fn (xs @ ys) st st''"
proof -
  obtain rqs where 1: "log (dev (sg_dev st')) = log (dev (sg_dev st)) @ rqs"
    "carried rqs @ concat (sg_segs st') = concat (sg_segs st) @ xs" "\<forall>rq\<in>set rqs. request_ok s k w rq"
    "map rq_arg rqs = command_args fn (sg_addr st, sg_arg st) rqs"
    "(sg_addr st', sg_arg st') = fold (next_command fn) rqs (sg_addr st, sg_arg st)"
    using assms(1) unfolding sg_moves_def by blast
  obtain rqs' where 2: "log (dev (sg_dev st'')) = log (dev (sg_dev st')) @ rqs'"
    "carried rqs' @ concat (sg_segs st'') = concat (sg_segs st') @ ys" "\<forall>rq\<in>set rqs'. request_ok s k w rq"
    "map rq_arg rqs' = command_args fn (sg_addr st', sg_arg st') rqs'"
    "(sg_addr st'', sg_arg st'') = fold (next_command fn) rqs' (sg_addr st', sg_arg st')"
    using assms(2) unfolding sg_moves_def by blast
  have "carried (rqs @ rqs') @ concat (sg_segs st'') = concat (sg_segs st) @ xs @ ys"
    using 1(2) 2(2) by simp
  then show ?thesis
    unfolding sg_moves_def using 1 2
    by (intro exI [of _ "rqs @ rqs'"] conjI) (simp_all add: command_args_append ball_Un)
qed

text \<open>The next segment of a packet.\<close>

lemma next_segment:
  assumes ok: "sg_ok s k whole st" and off: "off < length data" and seg: "0 < max_segment_size s"
    and whole: "whole \<Longrightarrow> func2_blksize s dvd max_request_size s \<and> func2_blksize s dvd max_segment_size s \<and> func2_blksize s dvd length data"
    and dvd: "whole \<longrightarrow> func2_blksize s dvd off"
  defines "sz \<equiv> sg_data_sz (max_request_size s) (length data - off) st"
  shows "0 < sz" "sz \<le> length data - off" "sg_req st + sz \<le> max_request_size s"
    "good_segment s whole (take sz (drop off data))" "length (take sz (drop off data)) = sz"
proof -
  have st: "max_segment_size (sg_dev st) = max_segment_size s" "sg_req st < max_request_size s"
    "sg_req st = length (concat (sg_segs st))" "\<forall>seg\<in>set (sg_segs st). good_segment s whole seg"
    using ok by (auto simp: sg_ok_def)
  have min: "sz = min (min (length data - off) (max_segment_size s)) (max_request_size s - sg_req st)"
    unfolding sz_def sg_data_sz_def Let_def st(1) by auto
  show "0 < sz" "sz \<le> length data - off" "sg_req st + sz \<le> max_request_size s" using min off seg st(2) by auto
  then show len: "length (take sz (drop off data)) = sz" by simp
  have "func2_blksize s dvd sz" if w: whole
  proof -
    have "func2_blksize s dvd sg_req st" unfolding st(3) by (rule dvd_concat) (use st(4) w in \<open>auto simp: good_segment_def\<close>)
    then have "func2_blksize s dvd length data - off" "func2_blksize s dvd max_request_size s - sg_req st"
      using whole [OF w] dvd w by (simp_all add: dvd_diff_nat)
    then show ?thesis using whole [OF w] unfolding min by (simp add: min_def)
  qed
  then show "good_segment s whole (take sz (drop off data))"
    using len min \<open>0 < sz\<close> unfolding good_segment_def by auto
qed

lemma sg_packet_carries:
  assumes log: "requests_logged ops log"
    and lims: "0 < max_request_size s" "0 < max_segment_size s" "0 < max_seg_cnt"
    and whole: "whole \<Longrightarrow> func2_blksize s dvd max_request_size s \<and> func2_blksize s dvd max_segment_size s \<and> func2_blksize s dvd length data"
  shows "sg_ok s max_seg_cnt whole st \<Longrightarrow> off \<le> length data \<Longrightarrow> (whole \<longrightarrow> func2_blksize s dvd off) \<Longrightarrow>
    \<exists>st'. sg_packet ops True fn (max_request_size s) max_seg_cnt data off st = Some (None, st') \<and>
      sg_ok s max_seg_cnt whole st' \<and> sg_moves log s max_seg_cnt whole fn (drop off data) st st'"
proof (induction "length data - off" arbitrary: off st rule: less_induct)
  case less
  let ?run = "\<lambda>off st. sg_packet ops True fn (max_request_size s) max_seg_cnt data off st"
  obtain d where d: "sg_dev st = s\<lparr>dev := d\<rparr>" using less.prems(1) by (auto simp: sg_ok_def)
  show ?case
  proof (cases "off < length data")
    case False
    then show ?thesis using less.prems by (subst sg_packet.simps) (simp add: sg_moves_def exI [of _ "[]"])
  next
    case True
    define sz where "sz = sg_data_sz (max_request_size s) (length data - off) st"
    define seg where "seg = take sz (drop off data)"
    let ?st = "st\<lparr>sg_segs := sg_segs st @ [seg], sg_req := sg_req st + sz\<rparr>"
    have sz: "0 < sz" "sz \<le> length data - off" "sg_req st + sz \<le> max_request_size s" "good_segment s whole seg" "length seg = sz"
      unfolding seg_def sz_def by (rule next_segment [OF less.prems(1) True lims(2) whole less.prems(3)]; assumption)+
    have ok: "sg_segs ?st \<noteq> []" "length (sg_segs ?st) \<le> max_seg_cnt" "sg_req ?st = length (concat (sg_segs ?st))"
      "sg_req ?st \<le> max_request_size s" "\<forall>seg\<in>set (sg_segs ?st). good_segment s whole seg"
      using less.prems(1) sz by (auto simp: sg_ok_def)
    have rest: "drop off data = seg @ drop (off + sz) data"
      unfolding seg_def by (metis add.commute append_take_drop_id drop_drop)
    have dvd: "whole \<longrightarrow> func2_blksize s dvd off + sz" using less.prems(3) sz(4,5) by (auto simp: good_segment_def)
    have go: "\<exists>st'. ?run (off + sz) st1 = Some (None, st') \<and> sg_ok s max_seg_cnt whole st' \<and>
        sg_moves log s max_seg_cnt whole fn (drop (off + sz) data) st1 st'" if "sg_ok s max_seg_cnt whole st1" for st1
      by (rule less.hyps [OF _ that _ dvd]) (use sz(1,2) True in simp_all)
    have step: "?run off st =
        (if sg_req ?st \<ge> max_request_size s \<or> length (sg_segs ?st) \<ge> max_seg_cnt then
           (if fst (mmc_submit_one ops True fn ?st) \<noteq> None then Some (mmc_submit_one ops True fn ?st)
            else ?run (off + sz) ((snd (mmc_submit_one ops True fn ?st))\<lparr>sg_req := 0, sg_segs := []\<rparr>))
         else ?run (off + sz) ?st)"
      using True by (subst sg_packet.simps) (simp only: if_True Let_def sz_def [symmetric] seg_def [symmetric])
    show ?thesis
    proof (cases "sg_req ?st \<ge> max_request_size s \<or> length (sg_segs ?st) \<ge> max_seg_cnt")
      case full: True
      have d': "sg_dev ?st = s\<lparr>dev := d\<rparr>" using d by simp
      obtain rq d' where sub: "fst (mmc_submit_one ops True fn ?st) = None"
        "sg_dev (snd (mmc_submit_one ops True fn ?st)) = s\<lparr>dev := d'\<rparr>" "log d' = log d @ [rq]"
        "(sg_addr (snd (mmc_submit_one ops True fn ?st)), sg_arg (snd (mmc_submit_one ops True fn ?st))) =
          next_command fn rq (sg_addr ?st, sg_arg ?st)"
        "rq_arg rq = snd (next_command fn rq (sg_addr ?st, sg_arg ?st))" "rq_segs rq = sg_segs ?st" "request_ok s max_seg_cnt whole rq"
        by (rule submit_one [OF log d' ok])
      let ?st' = "(snd (mmc_submit_one ops True fn ?st))\<lparr>sg_req := 0, sg_segs := []\<rparr>"
      have "sg_ok s max_seg_cnt whole ?st'" using sub(2) lims unfolding sg_ok_def by (intro conjI exI [of _ "d'"]) simp_all
      from go [OF this] obtain st'' where r: "?run (off + sz) ?st' = Some (None, st'')" "sg_ok s max_seg_cnt whole st''"
        "sg_moves log s max_seg_cnt whole fn (drop (off + sz) data) ?st' st''" by blast
      have "sg_moves log s max_seg_cnt whole fn seg st ?st'"
        using sub d unfolding sg_moves_def by (intro exI [of _ "[rq]"]) (simp add: carried_def)
      from sg_moves_trans [OF this r(3)] show ?thesis
        using step full sub(1) r(1,2) rest by simp
    next
      case room: False
      have "sg_ok s max_seg_cnt whole ?st" using room ok d unfolding sg_ok_def by (intro conjI exI [of _ d]) simp_all
      from go [OF this] obtain st'' where r: "?run (off + sz) ?st = Some (None, st'')" "sg_ok s max_seg_cnt whole st''"
        "sg_moves log s max_seg_cnt whole fn (drop (off + sz) data) ?st st''" by blast
      have "sg_moves log s max_seg_cnt whole fn seg st ?st"
        unfolding sg_moves_def by (intro exI [of _ "[]"]) simp
      from sg_moves_trans [OF this r(3)] show ?thesis
        using step room r(1,2) rest by simp
    qed
  qed
qed

lemma sg_walk_carries:
  assumes log: "requests_logged ops log"
    and lims: "0 < max_request_size s" "0 < max_segment_size s" "0 < max_seg_cnt"
    and whole: "whole \<Longrightarrow> func2_blksize s dvd max_request_size s \<and> func2_blksize s dvd max_segment_size s"
  shows "sg_ok s max_seg_cnt whole st \<Longrightarrow> (whole \<longrightarrow> (\<forall>p\<in>set ps. func2_blksize s dvd length p)) \<Longrightarrow>
    \<exists>st'. sg_walk ops True fn (max_request_size s) max_seg_cnt ps st = Some (None, st') \<and>
      sg_ok s max_seg_cnt whole st' \<and> sg_moves log s max_seg_cnt whole fn (concat ps) st st'"
proof (induction ps arbitrary: st)
  case Nil
  then show ?case by (simp add: sg_moves_def exI [of _ "[]"])
next
  case (Cons p ps)
  obtain st1 where p: "sg_packet ops True fn (max_request_size s) max_seg_cnt p 0 st = Some (None, st1)"
    "sg_ok s max_seg_cnt whole st1" "sg_moves log s max_seg_cnt whole fn (drop 0 p) st st1"
    using sg_packet_carries [OF log lims _ Cons.prems(1), of p 0] whole Cons.prems(2) by auto
  obtain st2 where r: "sg_walk ops True fn (max_request_size s) max_seg_cnt ps st1 = Some (None, st2)"
    "sg_ok s max_seg_cnt whole st2" "sg_moves log s max_seg_cnt whole fn (concat ps) st1 st2"
    using Cons.IH [OF p(2)] Cons.prems(2) by auto
  show ?case using p(1) r(1,2) sg_moves_trans [OF p(3) r(3)] by simp
qed

lemma sg_packet_whole:
  assumes "data \<noteq> []" "length data \<le> max_segment_size (sg_dev st)" "sg_req st + length data \<le> max_req_sz"
  defines "st' \<equiv> st\<lparr>sg_segs := sg_segs st @ [data], sg_req := sg_req st + length data\<rparr>"
  shows "sg_packet ops write fn max_req_sz k data 0 st =
    (if max_req_sz \<le> sg_req st' \<or> k \<le> length (sg_segs st')
     then (if fst (mmc_submit_one ops write fn st') \<noteq> None then Some (mmc_submit_one ops write fn st')
           else Some (None, (snd (mmc_submit_one ops write fn st'))\<lparr>sg_req := 0, sg_segs := []\<rparr>))
     else Some (None, st'))"
proof -
  have sz: "sg_data_sz max_req_sz (length data - 0) st = length data"
    using assms(2,3) by (auto simp: sg_data_sz_def Let_def)
  have ends: "sg_packet ops write fn max_req_sz k data (0 + length data) st'' = Some (None, st'')" for st''
    by (subst sg_packet.simps) simp
  show ?thesis
    using assms(1) by (subst sg_packet.simps) (simp only: sz Let_def ends length_greater_0_conv if_True drop_0 take_all order_refl st'_def not_False_eq_True)
qed

text \<open>Packets that fit one request make up one request.\<close>

lemma sg_walk_gathers:
  assumes "ps \<noteq> []" "\<forall>p\<in>set ps. p \<noteq> [] \<and> length p \<le> max_segment_size (sg_dev st)"
    and "sg_req st + length (concat ps) \<le> max_req_sz" "length (sg_segs st) + length ps = k"
  defines "st' \<equiv> st\<lparr>sg_segs := sg_segs st @ ps, sg_req := sg_req st + length (concat ps)\<rparr>"
  shows "sg_walk ops write fn max_req_sz k ps st =
    (if fst (mmc_submit_one ops write fn st') \<noteq> None then Some (mmc_submit_one ops write fn st')
     else Some (None, (snd (mmc_submit_one ops write fn st'))\<lparr>sg_req := 0, sg_segs := []\<rparr>))"
  using assms(1-4) unfolding st'_def
proof (induction ps arbitrary: st)
  case (Cons p ps)
  have p: "p \<noteq> []" "length p \<le> max_segment_size (sg_dev st)" "sg_req st + length p \<le> max_req_sz"
    using Cons.prems by auto
  note whole = sg_packet_whole [OF p]
  let ?st = "st\<lparr>sg_segs := sg_segs st @ [p], sg_req := sg_req st + length p\<rparr>"
  show ?case
  proof (cases "ps = []")
    case True
    then have "k \<le> length (sg_segs ?st)" using Cons.prems(4) by simp
    with whole True show ?thesis by (auto split: prod.splits option.splits)
  next
    case False
    then obtain q qs where q: "ps = q # qs" by (cases ps) auto
    then have "0 < length (concat ps)" using Cons.prems(2) by auto
    moreover have "sg_req st + length p + length (concat ps) \<le> max_req_sz" using Cons.prems(3) by simp
    moreover have "sg_req ?st = sg_req st + length p" by simp
    ultimately have "\<not> max_req_sz \<le> sg_req ?st" by linarith
    moreover have "\<not> k \<le> length (sg_segs ?st)" using Cons.prems(4) q by simp
    ultimately have "\<not> (max_req_sz \<le> sg_req ?st \<or> k \<le> length (sg_segs ?st))" by blast
    then have "sg_walk ops write fn max_req_sz k (p # ps) st = sg_walk ops write fn max_req_sz k ps ?st"
      using whole by simp
    also have "\<dots> = (if fst (mmc_submit_one ops write fn (?st\<lparr>sg_segs := sg_segs ?st @ ps, sg_req := sg_req ?st + length (concat ps)\<rparr>)) \<noteq> None
        then Some (mmc_submit_one ops write fn (?st\<lparr>sg_segs := sg_segs ?st @ ps, sg_req := sg_req ?st + length (concat ps)\<rparr>))
        else Some (None, (snd (mmc_submit_one ops write fn (?st\<lparr>sg_segs := sg_segs ?st @ ps, sg_req := sg_req ?st + length (concat ps)\<rparr>)))\<lparr>sg_req := 0, sg_segs := []\<rparr>))"
      by (rule Cons.IH) (use Cons.prems False in auto)
    finally show ?thesis by (simp add: add.assoc)
  qed
qed simp

text \<open>The walk over a list to be written, with the request for what is left at the end.\<close>

lemma sglist_write_moves:
  assumes log: "requests_logged ops log"
    and lims: "0 < max_request_size s" "0 < max_segment_size s" "0 < max_segment_count s" "max_segment_count s < 65536"
    and list: "pktlist \<noteq> []" "length pktlist < 65536"
    and whole: "whole \<Longrightarrow> func2_blksize s dvd max_request_size s \<and> func2_blksize s dvd max_segment_size s \<and>
      (\<forall>skb\<in>set pktlist. func2_blksize s dvd length (skb_data skb))"
  obtains rqs s' where "brcmf_sdiod_sglist_rw ops fn True addr pktlist s = Some (None, pktlist, s')"
    "log (dev s') = log (dev s) @ rqs" "carried rqs = concat (map skb_data pktlist)"
    "\<forall>rq\<in>set rqs. request_ok s (max_segment_count s) whole rq"
    "map rq_arg rqs = command_args fn (addr, write_command fn) rqs"
proof -
  let ?k = "unat (min (of_nat (max_segment_count s)) (of_nat (length pktlist)) :: u16)"
  have k: "?k = min (max_segment_count s) (length pktlist)"
    using lims(4) list(2) by (simp add: min_def word_le_nat_alt unsigned_of_nat take_bit_nat_eq_self)
  then have k0: "0 < ?k" using lims(3) list(1) by simp
  let ?st = "\<lparr>sg_req = 0, sg_segs = [], sg_arg = write_command fn, sg_addr = addr, sg_done = [], sg_dev = s\<rparr>"
  have ok: "sg_ok s ?k whole ?st" using lims(1) k0 by (auto simp: sg_ok_def intro!: exI [of _ "dev s"])
  have "\<exists>st1. sg_walk ops True fn (max_request_size s) ?k (map skb_data pktlist) ?st = Some (None, st1) \<and>
      sg_ok s ?k whole st1 \<and> sg_moves log s ?k whole fn (concat (map skb_data pktlist)) ?st st1"
    by (rule sg_walk_carries [OF log lims(1,2) k0 _ ok]) (use whole in auto)
  then obtain st1 where w: "sg_walk ops True fn (max_request_size s) ?k (map skb_data pktlist) ?st = Some (None, st1)"
    "sg_ok s ?k whole st1" "sg_moves log s ?k whole fn (concat (map skb_data pktlist)) ?st st1"
    by blast
  obtain rqs where m: "log (dev (sg_dev st1)) = log (dev s) @ rqs"
    "carried rqs @ concat (sg_segs st1) = concat (map skb_data pktlist)" "\<forall>rq\<in>set rqs. request_ok s ?k whole rq"
    "map rq_arg rqs = command_args fn (addr, write_command fn) rqs"
    "(sg_addr st1, sg_arg st1) = fold (next_command fn) rqs (addr, write_command fn)"
    using w(3) unfolding sg_moves_def by auto
  have mono: "request_ok s ?k whole rq \<Longrightarrow> request_ok s (max_segment_count s) whole rq" for rq
    using k by (auto simp: request_ok_def good_request_def)
  have eq: "brcmf_sdiod_sglist_rw ops fn True addr pktlist s =
      (let (err, st) = (if sg_segs st1 \<noteq> [] then mmc_submit_one ops True fn st1 else (None, st1))
       in Some (err, pktlist, sg_dev st))"
    using list(1) w(1) by (simp add: brcmf_sdiod_sglist_rw_def sglist_target_def write_command_def Let_def case_prod_beta del: of_nat_min)
  show ?thesis
  proof (cases "sg_segs st1 = []")
    case True
    then show ?thesis using eq m mono by (intro that [of "sg_dev st1" rqs]) auto
  next
    case False
    obtain d where d: "sg_dev st1 = s\<lparr>dev := d\<rparr>" using w(2) by (auto simp: sg_ok_def)
    obtain rq d' where sub: "fst (mmc_submit_one ops True fn st1) = None"
      "sg_dev (snd (mmc_submit_one ops True fn st1)) = s\<lparr>dev := d'\<rparr>" "log d' = log d @ [rq]"
      "rq_arg rq = snd (next_command fn rq (sg_addr st1, sg_arg st1))"
      "rq_segs rq = sg_segs st1" "request_ok s ?k whole rq"
      by (rule submit_one [OF log d False, where max_seg_cnt = ?k and fn = fn and whole = whole]) (use w(2) in \<open>auto simp: sg_ok_def\<close>)
    show ?thesis
    proof (rule that [of "s\<lparr>dev := d'\<rparr>" "rqs @ [rq]"])
      show "map rq_arg (rqs @ [rq]) = command_args fn (addr, write_command fn) (rqs @ [rq])"
        using m(4,5) sub(4) by (simp add: command_args_append)
      show "carried (rqs @ [rq]) = concat (map skb_data pktlist)" using m(2) sub(5) by (simp add: carried_def)
    qed (use eq m mono sub False d in \<open>auto simp: case_prod_beta\<close>)
  qed
qed

text \<open>A list that fits one request is written in one.\<close>

definition one_request :: "'d brcmf_sdio_dev \<Rightarrow> sk_buff list \<Rightarrow> bool" where
  "one_request s pktlist \<longleftrightarrow>
     (\<forall>skb\<in>set pktlist. skb_data skb \<noteq> [] \<and> length (skb_data skb) \<le> max_segment_size s) \<and>
     length (concat (map skb_data pktlist)) \<le> max_request_size s \<and> length pktlist \<le> max_segment_count s"

lemma sglist_write_one:
  assumes log: "requests_logged ops log" and one: "one_request s pktlist" "pktlist \<noteq> []" "max_segment_count s < 65536"
  shows "\<exists>rq s'. brcmf_sdiod_sglist_rw ops fn True addr pktlist s = Some (None, pktlist, s') \<and>
    log (dev s') = log (dev s) @ [rq]"
proof -
  let ?ps = "map skb_data pktlist"
  let ?k = "unat (min (of_nat (max_segment_count s)) (of_nat (length ?ps)) :: u16)"
  let ?st = "\<lparr>sg_req = 0, sg_segs = [], sg_arg = write_command fn, sg_addr = addr, sg_done = [], sg_dev = s\<rparr>"
  let ?st' = "?st\<lparr>sg_segs := ?ps, sg_req := length (concat ?ps)\<rparr>"
  have k: "?k = length ?ps"
    using one by (simp add: one_request_def min_def word_le_nat_alt unsigned_of_nat take_bit_nat_eq_self)
  obtain rq d' where sub: "fst (mmc_submit_one ops True fn ?st') = None" "sg_dev (snd (mmc_submit_one ops True fn ?st')) = s\<lparr>dev := d'\<rparr>"
    "log d' = log (dev s) @ [rq]"
    by (rule submit_one [OF log, where st = ?st' and s = s and d = "dev s" and max_seg_cnt = "length ?ps" and whole = False and fn = fn])
      (use one in \<open>auto simp: one_request_def good_segment_def\<close>)
  have "sg_walk ops True fn (max_request_size s) (length ?ps) ?ps ?st =
      Some (None, (snd (mmc_submit_one ops True fn ?st'))\<lparr>sg_req := 0, sg_segs := []\<rparr>)"
    by (subst sg_walk_gathers) (use one sub(1) in \<open>auto simp: one_request_def\<close>)
  then show ?thesis
    using one(2) k sub by (simp add: brcmf_sdiod_sglist_rw_def sglist_target_def write_command_def del: of_nat_min)
qed

text \<open>
  C19: What a list of packets is written as, to a card that takes every request. The scatter lists of the requests carry the bytes of
  the packets once and in order, each within the limits of the controller on the bytes, the
  segments and the size of a segment. What is transferred are the whole blocks of each request: all
  bytes are exactly when every request is a whole number of blocks. That is so when packets and
  limits are, and when the list fits one request and is a whole number of blocks; it is not so
  in general. The argument of each command is what the code makes of the one before: the
  first carries the number of its own blocks, a later one the or of all the numbers so far.
\<close>

theorem sglist_write_requests:
  assumes "requests_logged ops log"
    and "0 < max_request_size s" "0 < max_segment_size s" "0 < max_segment_count s" "max_segment_count s < 65536"
    and "pktlist \<noteq> []" "length pktlist < 65536"
  defines "blk \<equiv> func2_blksize s" and "bytes \<equiv> concat (map skb_data pktlist)"
  shows "\<exists>rqs s'. brcmf_sdiod_sglist_rw ops fn True addr pktlist s = Some (None, pktlist, s') \<and>
    log (dev s') = log (dev s) @ rqs \<and> (\<forall>rq\<in>set rqs. good_request s (max_segment_count s) rq) \<and> carried rqs = bytes \<and>
    (transferred rqs = bytes \<longleftrightarrow> (\<forall>rq\<in>set rqs. blk dvd length (concat (rq_segs rq)))) \<and>
    (blk dvd max_request_size s \<and> blk dvd max_segment_size s \<and> (\<forall>skb\<in>set pktlist. blk dvd length (skb_data skb)) \<longrightarrow>
      transferred rqs = bytes) \<and>
    (one_request s pktlist \<longrightarrow> length rqs = 1 \<and> (transferred rqs = bytes \<longleftrightarrow> blk dvd length bytes)) \<and>
    map rq_arg rqs = command_args fn (addr, write_command fn) rqs \<and>
    (\<forall>i<length rqs. rq_arg (rqs ! i) AND 0x1FF = counts_ored (take (Suc i) rqs))"
proof -
  define whole where "whole \<longleftrightarrow> blk dvd max_request_size s \<and> blk dvd max_segment_size s \<and> (\<forall>skb\<in>set pktlist. blk dvd length (skb_data skb))"
  have w: "whole \<Longrightarrow> func2_blksize s dvd max_request_size s \<and> func2_blksize s dvd max_segment_size s \<and>
      (\<forall>skb\<in>set pktlist. func2_blksize s dvd length (skb_data skb))" by (simp add: whole_def blk_def)
  obtain rqs s' where r: "brcmf_sdiod_sglist_rw ops fn True addr pktlist s = Some (None, pktlist, s')"
    "log (dev s') = log (dev s) @ rqs" "carried rqs = bytes" "\<forall>rq\<in>set rqs. request_ok s (max_segment_count s) whole rq"
    "map rq_arg rqs = command_args fn (addr, write_command fn) rqs"
    unfolding bytes_def by (rule sglist_write_moves [OF assms(1-7) w, where whole = whole])
  have good: "\<forall>rq\<in>set rqs. good_request s (max_segment_count s) rq" using r(4) by (simp add: request_ok_def)
  note exact = transferred_whole [OF good, unfolded r(3), folded blk_def]
  have dvd: "\<forall>rq\<in>set rqs. blk dvd length (concat (rq_segs rq))" if whole
    using r(4) that by (auto simp: request_ok_def good_segment_def blk_def intro: dvd_concat)
  have one: "length rqs = 1 \<and> (transferred rqs = bytes \<longleftrightarrow> blk dvd length bytes)" if one: "one_request s pktlist"
  proof -
    obtain rq where rqs: "rqs = [rq]"
      using sglist_write_one [OF assms(1) one assms(6,5), of fn addr] r(1,2) by auto
    then have "concat (rq_segs rq) = bytes" using r(3) by (simp add: carried_def)
    with exact rqs show ?thesis by simp
  qed
  have "snd (addr, write_command fn) AND 0x1FF = 0"
    unfolding snd_conv by (rule write_command_count)
  from command_counts [OF this] r(5)
  have counts: "rq_arg (rqs ! i) AND 0x1FF = counts_ored (take (Suc i) rqs)" if "i < length rqs" for i
    using that by (metis nth_map or.left_neutral)
  show ?thesis
    using r good exact dvd one counts unfolding whole_def by (intro exI [of _ rqs] exI [of _ s'] conjI) blast+
qed

text \<open>A card that only records the requests.\<close>

definition logging_mmc :: "mmc_req list mmc_core" where
  "logging_mmc = \<lparr>
     mmc_writeb = (\<lambda>reg b d. (None, d)), mmc_readb = (\<lambda>a d. (0, d)), mmc_f0_writeb = (\<lambda>a b d. d), mmc_readl = (\<lambda>a d. ((0, None), d)), mmc_writel = (\<lambda>a v d. (None, d)),
     mmc_fromio = (\<lambda>a n d. (Inl EIO, d)), mmc_readsb = (\<lambda>fn a n d. (Inl EIO, d)),
     mmc_toio = (\<lambda>fn a bs d. (None, d)), mmc_writesb = (\<lambda>a bs d. (None, d)),
     mmc_request = (\<lambda>rq d. ((None, []), d @ [rq])), kern_alloc = (\<lambda>n d. (Some (replicate (round4 n) 0), d)), kern_addr = (\<lambda>d. 0)\<rparr>"

definition sample_skb :: "u8 \<Rightarrow> nat \<Rightarrow> sk_buff" where
  "sample_skb b n = \<lparr>sk_head = [], sk_mem = replicate n b, sk_len = n\<rparr>"

lemma logging_mmc_logs: "requests_logged logging_mmc (\<lambda>d. d)"
  by (simp add: requests_logged_def logging_mmc_def)

theorem sglist_write_requests_witness:
  "\<exists>rq s'. brcmf_sdiod_sglist_rw logging_mmc 2 True 0x8000 [sample_skb 1 512, sample_skb 2 1024] (sample_sdio []) =
      Some (None, [sample_skb 1 512, sample_skb 2 1024], s') \<and>
    dev s' = [rq] \<and> transferred [rq] = replicate 512 1 @ replicate 1024 2 \<and> rq_arg rq AND 0x1FF = 3"
proof -
  let ?ps = "[sample_skb 1 512, sample_skb 2 1024]" and ?s = "sample_sdio [] :: mmc_req list brcmf_sdio_dev"
  have bytes: "concat (map skb_data ?ps) = replicate 512 1 @ replicate 1024 2" by (simp add: sample_skb_def skb_data_def)
  have one: "one_request ?s ?ps" "func2_blksize ?s = 512" "dev ?s = []" "max_request_size ?s = 65536" "max_segment_size ?s = 65536"
    "max_segment_count ?s = 35"
    by (simp_all add: one_request_def sample_skb_def skb_data_def sample_sdio_def)
  have "\<exists>rqs s'. brcmf_sdiod_sglist_rw logging_mmc 2 True 0x8000 ?ps ?s = Some (None, ?ps, s') \<and> dev s' = rqs \<and>
    (\<forall>rq\<in>set rqs. good_request ?s (max_segment_count ?s) rq) \<and> carried rqs = replicate 512 1 @ replicate 1024 2 \<and>
    length rqs = 1 \<and> transferred rqs = replicate 512 1 @ replicate 1024 2 \<and>
    (\<forall>i<length rqs. rq_arg (rqs ! i) AND 0x1FF = counts_ored (take (Suc i) rqs))"
    using sglist_write_requests [OF logging_mmc_logs, of ?s ?ps 2 "0x8000"] one unfolding bytes by auto
  then obtain rqs s' where r: "brcmf_sdiod_sglist_rw logging_mmc 2 True 0x8000 ?ps ?s = Some (None, ?ps, s')" "dev s' = rqs"
    "\<forall>rq\<in>set rqs. good_request ?s (max_segment_count ?s) rq" "carried rqs = replicate 512 1 @ replicate 1024 2"
    "length rqs = 1" "transferred rqs = replicate 512 1 @ replicate 1024 2"
    "\<forall>i<length rqs. rq_arg (rqs ! i) AND 0x1FF = counts_ored (take (Suc i) rqs)"
    by blast
  obtain rq where rqs: "rqs = [rq]" using r(5) by (cases rqs) auto
  have "rq_blocks rq = 3" using r(3,4) by (simp add: rqs good_request_def one(2) carried_def)
  with r rqs show ?thesis by (auto simp: counts_ored_def)
qed

subsection \<open>Receiving a chain of packets\<close>

text \<open>
  A card that sends a stream of bytes on function 2, whatever the address and however it is
  read; the window can be set.
\<close>

definition frame_device :: "'d mmc_core \<Rightarrow> ('d \<Rightarrow> u8 list) \<Rightarrow> bool" where
  "frame_device ops fifo \<longleftrightarrow>
     (\<forall>reg b d. \<exists>d'. mmc_writeb ops reg b d = (None, d') \<and> fifo d' = fifo d) \<and>
     (\<forall>a n d. n \<le> length (fifo d) \<longrightarrow>
        (\<exists>d'. mmc_readsb ops 2 a n d = (Inr (take n (fifo d)), d') \<and> fifo d' = drop n (fifo d))) \<and>
     (\<forall>rq d. \<not> rq_write rq \<and> rq_blocks rq * rq_blksz rq \<le> length (fifo d) \<longrightarrow>
        (\<exists>d'. mmc_request ops rq d = ((None, take (rq_blocks rq * rq_blksz rq) (fifo d)), d') \<and>
              fifo d' = drop (rq_blocks rq * rq_blksz rq) (fifo d))) \<and>
     (\<forall>n d. \<exists>m d'. kern_alloc ops n d = (Some m, d') \<and> round4 n \<le> length m \<and> fifo d' = fifo d)"

lemma frame_writeb:
  assumes "frame_device ops fifo"
  obtains d' where "mmc_writeb ops reg b d = (None, d')" "fifo d' = fifo d"
  using assms unfolding frame_device_def by blast

lemma frame_readsb:
  assumes "frame_device ops fifo" "n \<le> length (fifo d)"
  obtains d' where "mmc_readsb ops 2 a n d = (Inr (take n (fifo d)), d')" "fifo d' = drop n (fifo d)"
  using assms unfolding frame_device_def by blast

lemma frame_request:
  assumes "frame_device ops fifo" "\<not> rq_write rq" "rq_blocks rq * rq_blksz rq = n" "n \<le> length (fifo d)"
  obtains d' where "mmc_request ops rq d = ((None, take n (fifo d)), d')" "fifo d' = drop n (fifo d)"
  using assms unfolding frame_device_def by blast

lemma frame_alloc:
  assumes "frame_device ops fifo"
  obtains m d' where "kern_alloc ops n d = (Some m, d')" "round4 n \<le> length m" "fifo d' = fifo d"
  using assms unfolding frame_device_def by blast

lemma window_kept:
  assumes writeb: "\<And>reg b d. \<exists>d'. mmc_writeb ops reg b d = (None, d') \<and> obs d' = obs d"
  obtains d v w where "brcmf_sdiod_set_backplane_window ops a s = (None, s\<lparr>dev := d, sbwad_valid := v, sbwad := w\<rparr>)"
    "obs d = obs (dev s)"
proof -
  have "\<exists>d'. window_writes ops n reg v d = (None, d') \<and> obs d' = obs d" for n reg v d
  proof (induction n arbitrary: reg v d)
    case (Suc n)
    obtain d1 where "mmc_writeb ops reg (ucast (v AND 0xff)) d = (None, d1)" "obs d1 = obs d"
      using writeb by blast
    with Suc.IH [of "reg + 1" "drop_bit 8 v" d1] show ?case by simp
  qed simp
  then obtain d where d: "window_writes ops 3 SBSDIO_FUNC1_SBADDRLOW (drop_bit 8 (a AND SBSDIO_SBWINDOW_MASK)) (dev s) = (None, d)"
    "obs d = obs (dev s)" by blast
  show ?thesis
  proof (cases "sbwad_valid s \<and> a AND SBSDIO_SBWINDOW_MASK = sbwad s")
    case True
    then show ?thesis
      by (intro that [where d = "dev s" and v = "sbwad_valid s" and w = "sbwad s"]) (simp_all add: brcmf_sdiod_set_backplane_window_def Let_def)
  next
    case False
    then show ?thesis
      by (intro that [where d = d and v = True and w = "a AND SBSDIO_SBWINDOW_MASK"]) (use d in \<open>auto simp: brcmf_sdiod_set_backplane_window_def Let_def simp del: drop_bit_and\<close>)
  qed
qed

lemma frame_window:
  assumes "frame_device ops fifo"
  obtains d v w where "brcmf_sdiod_set_backplane_window ops a s = (None, s\<lparr>dev := d, sbwad_valid := v, sbwad := w\<rparr>)"
    "fifo d = fifo (dev s)"
proof -
  have "\<exists>d'. mmc_writeb ops reg b d = (None, d') \<and> fifo d' = fifo d" for reg b d
    using assms by (simp add: frame_device_def)
  then show ?thesis
    by (rule window_kept [of ops fifo a s]) (rule that)
qed

text \<open>
  The argument of the command is not cleared between the requests of a list: the count of
  blocks in the second is that of the first, or-ed. Here 3 blocks and 2 blocks are both
  announced as 3.
\<close>

lemma sglist_block_count_accumulates:
  "map_option (\<lambda>(e, ps, s). (e, map (\<lambda>rq. (rq_blocks rq, rq_arg rq AND 0x1FF)) (dev s)))
     (brcmf_sdiod_sglist_rw logging_mmc 2 True 0x8000 [sample_skb 1 12, sample_skb 2 8]
       ((sample_sdio [])\<lparr>max_request_size := 12, func2_blksize := 4\<rparr>))
   = Some (None, [(3, 3), (2, 3)])"
  by (simp add: brcmf_sdiod_sglist_rw_def sglist_target_def sg_packet_whole mmc_submit_one_def logging_mmc_def sample_sdio_def
      sample_skb_def skb_data_def medium_lost_def Let_def)

text \<open>
  A request that ends because the segments are used up need not be a whole number of blocks: of
  the five bytes gathered here only one block of four is announced.
\<close>

lemma sglist_loses_partial_block:
  "map_option (\<lambda>(e, ps, s). (e, map (\<lambda>rq. (rq_blocks rq * rq_blksz rq, length (concat (rq_segs rq)))) (dev s)))
     (brcmf_sdiod_sglist_rw logging_mmc 2 True 0x8000 [sample_skb 1 4, sample_skb 2 1, sample_skb 3 3]
       ((sample_sdio [])\<lparr>max_segment_count := 2, func2_blksize := 4\<rparr>))
   = Some (None, [(4, 5), (0, 3)])"
  by (simp add: brcmf_sdiod_sglist_rw_def sglist_target_def sg_packet_whole mmc_submit_one_def logging_mmc_def sample_sdio_def
      sample_skb_def skb_data_def medium_lost_def Let_def)

lemma length_chain: "\<forall>skb\<in>set skbs. skb_wf skb \<Longrightarrow> length (concat (map skb_data skbs)) = sum_list (map sk_len skbs)"
  by (induction skbs) (auto simp: skb_laws)

lemma deal_out_scatter:
  "\<forall>skb\<in>set skbs. skb_wf skb \<Longrightarrow> sum_list (map sk_len skbs) \<le> sk_len glom \<Longrightarrow> skb_wf glom \<Longrightarrow>
    deal_out glom skbs = Some (skb_scatter (sk_mem glom) skbs)"
proof (induction skbs arbitrary: glom)
  case (Cons skb skbs)
  have le: "sk_len skb \<le> sk_len glom" "sk_len skb \<le> length (sk_mem glom)" "sk_len skb \<le> length (sk_mem skb)"
    using Cons.prems by (auto simp: skb_wf_def)
  have "deal_out (skb_pull (sk_len skb) glom) skbs = Some (skb_scatter (sk_mem (skb_pull (sk_len skb) glom)) skbs)"
    by (rule Cons.IH) (use Cons.prems le in \<open>auto simp: skb_laws\<close>)
  then show ?case
    using le by (simp add: bytes_at_def skb_store_at_front skb_pull_mem)
qed simp

lemma skb_scatter_prefix:
  "sum_list (map sk_len skbs) \<le> length bs \<Longrightarrow> skb_scatter (bs @ junk) skbs = skb_scatter bs skbs"
  by (induction skbs arbitrary: bs) auto

lemma skb_scatter_data:
  "\<forall>skb\<in>set skbs. skb_wf skb \<Longrightarrow> sum_list (map sk_len skbs) = length bs \<Longrightarrow>
    concat (map skb_data (skb_scatter bs skbs)) = bs \<and> map sk_len (skb_scatter bs skbs) = map sk_len skbs"
  by (induction skbs arbitrary: bs) (auto simp: skb_data_def)

text \<open>A chain of packets that is a whole number of words and blocks and fits one request.\<close>

definition chain_fits :: "'d brcmf_sdio_dev \<Rightarrow> sk_buff list \<Rightarrow> bool" where
  "chain_fits s pktq \<longleftrightarrow>
     pktq \<noteq> [] \<and> (\<forall>skb\<in>set pktq. skb_wf skb \<and> 0 < sk_len skb \<and> sk_len skb \<le> max_segment_size s) \<and>
     sum_list (map sk_len pktq) \<le> max_request_size s \<and>
     4 dvd sum_list (map sk_len pktq) \<and> func2_blksize s dvd sum_list (map sk_len pktq) \<and>
     length pktq \<le> max_segment_count s \<and> max_segment_count s < 65536"

lemma recv_list:
  assumes dev: "frame_device ops fifo" and fits: "chain_fits s pktq" and sound: "\<not> broken_sg_support s"
    and n: "n = sum_list (map sk_len pktq)" "n \<le> length (fifo (dev s))"
  obtains d where "brcmf_sdiod_sglist_rw ops 2 False addr pktq s = Some (None, skb_scatter (take n (fifo (dev s))) pktq, s\<lparr>dev := d\<rparr>)"
    "fifo d = drop n (fifo (dev s))"
proof -
  let ?target = "map skb_data pktq"
  let ?k = "unat (min (of_nat (max_segment_count s)) (of_nat (length ?target)) :: u16)"
  have k: "?k = length ?target"
    using fits by (simp add: chain_fits_def min_def word_le_nat_alt unsigned_of_nat take_bit_nat_eq_self)
  have len: "length (concat ?target) = n"
    using fits unfolding n(1) chain_fits_def by (intro length_chain) blast
  let ?arg = "push_bit 28 (of_nat 2 AND 7) OR push_bit 27 1 :: u32"
  let ?st = "\<lparr>sg_req = n, sg_segs = ?target, sg_arg = ?arg, sg_addr = addr, sg_done = [], sg_dev = s\<rparr>"
  define rq where "rq = \<lparr>rq_write = False,
      rq_arg = ?arg OR push_bit 9 (addr AND 0x1FFFF) OR (of_nat (n div func2_blksize s) AND 0x1FF),
      rq_blocks = n div func2_blksize s, rq_blksz = func2_blksize s, rq_segs = ?target\<rparr>"
  have blocks: "rq_blocks rq * rq_blksz rq = n"
    using fits n(1) by (simp add: rq_def chain_fits_def)
  have read: "\<not> rq_write rq" by (simp add: rq_def)
  obtain d where d: "mmc_request ops rq (dev s) = ((None, take n (fifo (dev s))), d)" "fifo d = drop n (fifo (dev s))"
    by (rule frame_request [OF dev read blocks n(2)])
  have submit: "mmc_submit_one ops False 2 ?st =
      (None, ?st\<lparr>sg_arg := rq_arg rq, sg_done := take n (fifo (dev s)), sg_dev := s\<lparr>dev := d\<rparr>\<rparr>)"
    using d(1) len n(2) by (simp add: mmc_submit_one_def Let_def rq_def medium_lost_def)
  have walk: "sg_walk ops False 2 (max_request_size s) (length ?target) ?target
      \<lparr>sg_req = 0, sg_segs = [], sg_arg = ?arg, sg_addr = addr, sg_done = [], sg_dev = s\<rparr> =
      Some (None, ?st\<lparr>sg_arg := rq_arg rq, sg_done := take n (fifo (dev s)), sg_dev := s\<lparr>dev := d\<rparr>, sg_req := 0, sg_segs := []\<rparr>)"
  proof (subst sg_walk_gathers)
    show "\<forall>p\<in>set ?target. p \<noteq> [] \<and> length p \<le>
        max_segment_size (sg_dev \<lparr>sg_req = 0, sg_segs = [], sg_arg = ?arg, sg_addr = addr, sg_done = [], sg_dev = s\<rparr>)"
      using fits by (auto simp: chain_fits_def skb_data_def skb_wf_def)
  qed (use fits len n(1) submit in \<open>simp_all add: chain_fits_def\<close>)
  have "brcmf_sdiod_sglist_rw ops 2 False addr pktq s = Some (None, skb_scatter (take n (fifo (dev s))) pktq, s\<lparr>dev := d\<rparr>)"
    using fits sound walk k len n(2)
    by (simp add: brcmf_sdiod_sglist_rw_def sglist_target_def chain_fits_def)
  then show ?thesis using that d(2) by blast
qed

lemma recv_one:
  assumes dev: "frame_device ops fifo" and wf: "skb_wf skb" "4 dvd sk_len skb" "sk_len skb \<le> length (fifo (dev s))"
  obtains d where "brcmf_sdiod_skbuff_read ops 2 addr skb s =
      Some (None, skb\<lparr>sk_mem := take (sk_len skb) (fifo (dev s)) @ drop (sk_len skb) (sk_mem skb)\<rparr>, s\<lparr>dev := d\<rparr>)"
    "fifo d = drop (sk_len skb) (fifo (dev s))"
proof -
  obtain d where d: "mmc_readsb ops 2 addr (sk_len skb) (dev s) = (Inr (take (sk_len skb) (fifo (dev s))), d)"
    "fifo d = drop (sk_len skb) (fifo (dev s))"
    by (rule frame_readsb [OF dev wf(3)])
  have "brcmf_sdiod_skbuff_read ops 2 addr skb s =
      Some (None, skb\<lparr>sk_mem := take (sk_len skb) (fifo (dev s)) @ drop (sk_len skb) (sk_mem skb)\<rparr>, s\<lparr>dev := d\<rparr>)"
    using wf d(1) by (simp add: brcmf_sdiod_skbuff_read_def round4_bounds(3) skb_store_at_front skb_wf_def)
  then show ?thesis using that d(2) by blast
qed

lemma recv_dealt:
  assumes dev: "frame_device ops fifo" and fits: "chain_fits s pktq"
    and n: "n = sum_list (map sk_len pktq)" "n \<le> length (fifo (dev s))"
  obtains g glom d1 d2 where "brcmu_pkt_buf_get_skb ops n s = (Some g, s\<lparr>dev := d1\<rparr>)"
    "brcmf_sdiod_skbuff_read ops 2 addr g (s\<lparr>dev := d1\<rparr>) = Some (None, glom, s\<lparr>dev := d2\<rparr>)"
    "deal_out glom pktq = Some (skb_scatter (take n (fifo (dev s))) pktq)" "fifo d2 = drop n (fifo (dev s))"
proof -
  obtain m d1 where m: "kern_alloc ops n (dev s) = (Some m, d1)" "round4 n \<le> length m" "fifo d1 = fifo (dev s)"
    by (rule frame_alloc [OF dev])
  let ?g = "\<lparr>sk_head = [], sk_mem = m, sk_len = n\<rparr>"
  have wf: "skb_wf ?g" "4 dvd sk_len ?g" "sk_len ?g \<le> length (fifo (dev (s\<lparr>dev := d1\<rparr>)))"
    using m fits n round4_bounds(1) [of n] by (auto simp: skb_wf_def chain_fits_def)
  obtain d2 where r: "brcmf_sdiod_skbuff_read ops 2 addr ?g (s\<lparr>dev := d1\<rparr>) =
      Some (None, ?g\<lparr>sk_mem := take (sk_len ?g) (fifo (dev (s\<lparr>dev := d1\<rparr>))) @ drop (sk_len ?g) (sk_mem ?g)\<rparr>, s\<lparr>dev := d1\<rparr>\<lparr>dev := d2\<rparr>)"
    "fifo d2 = drop (sk_len ?g) (fifo (dev (s\<lparr>dev := d1\<rparr>)))"
    by (rule recv_one [OF dev wf])
  let ?glom = "?g\<lparr>sk_mem := take n (fifo (dev s)) @ drop n m\<rparr>"
  have "deal_out ?glom pktq = Some (skb_scatter (take n (fifo (dev s)) @ drop n m) pktq)"
    using deal_out_scatter [of pktq ?glom] fits n wf(1) by (simp add: chain_fits_def skb_wf_def)
  also have "skb_scatter (take n (fifo (dev s)) @ drop n m) pktq = skb_scatter (take n (fifo (dev s))) pktq"
    by (rule skb_scatter_prefix) (use n in simp)
  finally have "deal_out ?glom pktq = Some (skb_scatter (take n (fifo (dev s))) pktq)" .
  with r m show ?thesis
    by (intro that [where g = ?g and glom = ?glom and ?d1.0 = d1 and ?d2.0 = d2]) (simp_all add: brcmu_pkt_buf_get_skb_def)
qed

lemma recv_chain_fills:
  assumes dev: "frame_device ops fifo" and fits: "chain_fits s pktq" and sound: "\<not> broken_sg_support s"
    and n: "n = sum_list (map sk_len pktq)" "n \<le> length (fifo (dev s))"
  shows "\<exists>s'. brcmf_sdiod_recv_chain ops pktq n s = Some (None, skb_scatter (take n (fifo (dev s))) pktq, s') \<and>
    fifo (dev s') = drop n (fifo (dev s))"
proof -
  obtain d v w where d: "brcmf_sdiod_set_backplane_window ops (cc_base s) s = (None, s\<lparr>dev := d, sbwad_valid := v, sbwad := w\<rparr>)"
    "fifo d = fifo (dev s)"
    by (rule frame_window [OF dev])
  let ?s = "s\<lparr>dev := d, sbwad_valid := v, sbwad := w\<rparr>" and ?addr = "window_addr (cc_base s)"
  have fits': "chain_fits ?s pktq" using fits by (simp add: chain_fits_def)
  have sound': "\<not> broken_sg_support ?s" using sound by simp
  have n': "n \<le> length (fifo (dev ?s))" using n(2) d(2) by simp
  consider (one) skb where "pktq = [skb]" | (more) "\<forall>skb. pktq \<noteq> [skb]" by blast
  then show ?thesis
  proof cases
    case one
    have wf: "skb_wf skb" "4 dvd sk_len skb" "sk_len skb \<le> length (fifo (dev ?s))"
      using fits one n' n(1) by (auto simp: chain_fits_def)
    obtain d' where "brcmf_sdiod_skbuff_read ops 2 ?addr skb ?s =
        Some (None, skb\<lparr>sk_mem := take (sk_len skb) (fifo (dev ?s)) @ drop (sk_len skb) (sk_mem skb)\<rparr>, ?s\<lparr>dev := d'\<rparr>)"
      "fifo d' = drop (sk_len skb) (fifo (dev ?s))"
      by (rule recv_one [OF dev wf])
    then show ?thesis using d n one by (simp add: brcmf_sdiod_recv_chain_def min_def)
  next
    case more
    have two: "(case pktq of [skb] \<Rightarrow> f skb | _ \<Rightarrow> e) = e" for f and e :: 'c
      using more by (cases pktq rule: list.exhaust; cases "tl pktq") (auto split: list.splits)
    show ?thesis
    proof (cases "sg_support s")
      case True
      obtain d' where "brcmf_sdiod_sglist_rw ops 2 False ?addr pktq ?s = Some (None, skb_scatter (take n (fifo (dev ?s))) pktq, ?s\<lparr>dev := d'\<rparr>)"
        "fifo d' = drop n (fifo (dev ?s))"
        by (rule recv_list [OF dev fits' sound' n(1) n'])
      then show ?thesis using d True by (simp add: brcmf_sdiod_recv_chain_def two)
    next
      case False
      obtain g glom d1 d2 where "brcmu_pkt_buf_get_skb ops n ?s = (Some g, ?s\<lparr>dev := d1\<rparr>)"
        "brcmf_sdiod_skbuff_read ops 2 ?addr g (?s\<lparr>dev := d1\<rparr>) = Some (None, glom, ?s\<lparr>dev := d2\<rparr>)"
        "deal_out glom pktq = Some (skb_scatter (take n (fifo (dev ?s))) pktq)" "fifo d2 = drop n (fifo (dev ?s))"
        by (rule recv_dealt [OF dev fits' n(1) n'])
      then show ?thesis using d False by (simp add: brcmf_sdiod_recv_chain_def two)
    qed
  qed
qed

text \<open>
  C20: a chain of packets that fits one request receives the next bytes of the frame stream in
  order, each packet its length, and the packets are the same whether the controller scatters
  them itself or one large buffer is read and dealt out.
\<close>

theorem recv_chain_scatters:
  assumes "frame_device ops fifo" "chain_fits s pktq" "\<not> broken_sg_support s"
    and "n = sum_list (map sk_len pktq)" "n \<le> length (fifo (dev s))"
  shows "\<exists>pktq' s1 s2.
    brcmf_sdiod_recv_chain ops pktq n (s\<lparr>sg_support := True\<rparr>) = Some (None, pktq', s1) \<and>
    brcmf_sdiod_recv_chain ops pktq n (s\<lparr>sg_support := False\<rparr>) = Some (None, pktq', s2) \<and>
    fifo (dev s1) = drop n (fifo (dev s)) \<and> fifo (dev s2) = drop n (fifo (dev s)) \<and>
    concat (map skb_data pktq') = take n (fifo (dev s)) \<and> map sk_len pktq' = map sk_len pktq"
proof -
  have fits: "chain_fits (s\<lparr>sg_support := b\<rparr>) pktq" for b using assms(2) by (simp add: chain_fits_def)
  have "\<exists>s'. brcmf_sdiod_recv_chain ops pktq n (s\<lparr>sg_support := b\<rparr>) = Some (None, skb_scatter (take n (fifo (dev s))) pktq, s') \<and>
      fifo (dev s') = drop n (fifo (dev s))" for b
    using recv_chain_fills [OF assms(1) fits [of b]] assms(3-5) by simp
  moreover have "concat (map skb_data (skb_scatter (take n (fifo (dev s))) pktq)) = take n (fifo (dev s)) \<and>
      map sk_len (skb_scatter (take n (fifo (dev s))) pktq) = map sk_len pktq"
    by (rule skb_scatter_data) (use assms in \<open>auto simp: chain_fits_def\<close>)
  ultimately show ?thesis by metis
qed

text \<open>A card with a stream of frames.\<close>

definition stream_mmc :: "u8 list mmc_core" where
  "stream_mmc = \<lparr>
     mmc_writeb = (\<lambda>reg b d. (None, d)), mmc_readb = (\<lambda>a d. (0, d)), mmc_f0_writeb = (\<lambda>a b d. d), mmc_readl = (\<lambda>a d. ((0, None), d)), mmc_writel = (\<lambda>a v d. (None, d)),
     mmc_fromio = (\<lambda>a n d. (Inl EIO, d)), mmc_readsb = (\<lambda>fn a n d. (Inr (take n d), drop n d)),
     mmc_toio = (\<lambda>fn a bs d. (None, d)), mmc_writesb = (\<lambda>a bs d. (None, d)),
     mmc_request = (\<lambda>rq d. ((None, take (rq_blocks rq * rq_blksz rq) d), drop (rq_blocks rq * rq_blksz rq) d)),
     kern_alloc = (\<lambda>n d. (Some (replicate (round4 n) 0), d)), kern_addr = (\<lambda>d. 0)\<rparr>"

lemma stream_mmc_frames: "frame_device stream_mmc (\<lambda>d. d)"
  by (simp add: frame_device_def stream_mmc_def)

theorem recv_chain_scatters_witness:
  "\<exists>pktq' s1 s2.
    brcmf_sdiod_recv_chain stream_mmc [sample_skb 0 3, sample_skb 0 5] 8 ((sample_sdio [1, 2, 3, 4, 5, 6, 7, 8, 9])\<lparr>func2_blksize := 4, sg_support := True\<rparr>)
      = Some (None, pktq', s1) \<and>
    brcmf_sdiod_recv_chain stream_mmc [sample_skb 0 3, sample_skb 0 5] 8 ((sample_sdio [1, 2, 3, 4, 5, 6, 7, 8, 9])\<lparr>func2_blksize := 4, sg_support := False\<rparr>)
      = Some (None, pktq', s2) \<and>
    dev s1 = [9] \<and> dev s2 = [9] \<and> concat (map skb_data pktq') = [1, 2, 3, 4, 5, 6, 7, 8] \<and> map sk_len pktq' = [3, 5]"
proof -
  let ?s = "(sample_sdio [1, 2, 3, 4, 5, 6, 7, 8, 9 :: u8])\<lparr>func2_blksize := 4\<rparr>" and ?p = "[sample_skb 0 3, sample_skb 0 5]"
  have s: "chain_fits ?s ?p" "\<not> broken_sg_support ?s" "dev ?s = [1, 2, 3, 4, 5, 6, 7, 8, 9]"
    by (simp_all add: chain_fits_def sample_skb_def sample_sdio_def skb_wf_def)
  have p: "8 = sum_list (map sk_len ?p)" "8 \<le> length (dev ?s)" "map sk_len ?p = [3, 5]"
    unfolding s(3) by (simp_all add: sample_skb_def)
  have "take 8 (dev ?s) = [1, 2, 3, 4, 5, 6, 7, 8]" "drop 8 (dev ?s) = [9]"
    unfolding s(3) by simp_all
  with recv_chain_scatters [OF stream_mmc_frames s(1,2) p(1,2)] p(3) show ?thesis by metis
qed

end
