(* ===== verification/Sdpcm.thy ===== *)
theory Sdpcm
  imports Sdio_Chain Pktq
begin

section \<open>The SDIO bus: state, frame headers and the transmit queue (sdio.c)\<close>

text \<open>
  The state of the SDIO bus (\<open>brcmf_sdio\<close>), the header in front of every frame
  (\<open>brcmf_sdio_hdparse\<close>, \<open>brcmf_sdio_hdpack\<close>), the terminations of a frame in error
  (\<open>brcmf_sdio_rxfail\<close>, \<open>brcmf_sdio_txfail\<close>) and the queue of packets to send
  (\<open>brcmf_sdio_prec_enq\<close>, \<open>brcmf_sdio_bus_txdata\<close>). Statistics (\<open>sdcnt\<close>), messages and the
  locks are not modelled.

  The theory shows that a header written is read back, what the window of the firmware allows
  after a header has been read, and which packet gives way when the queue is full.
\<close>

subsection \<open>State\<close>

record brcmf_sdio_hdrinfo =
  hd_seq_num :: u8
  hd_channel :: u8
  hd_len :: u16
  hd_len_left :: u16
  hd_len_nxtfrm :: u16
  hd_dat_offset :: u8
  hd_lastfrm :: bool
  hd_tail_pad :: u16

text \<open>
  A packet to send has an address, that of \<open>sk_head\<close>, and the 16 bits of its control block the bus
  uses. What the bus hands on is logged, oldest first, with the allocations of control buffers.
\<close>

record tx_skb = sk_buff +
  sk_addr :: nat
  sk_cb :: u16

datatype sdio_call =
    RxEvent "u8 list" | RxFrame "u8 list" | NetifRx "u8 list"
  | TxComplete tx_skb bool | FreePkt tx_skb | FlowBlock bool | Vzalloc | Vfree

record 'd brcmf_sdio =
  sdiodev :: "'d brcmf_sdio_dev"
  core_base :: u32
  blocksize :: nat
  roundup_max :: nat
  head_align :: nat
  sgentry_align :: nat
  maxctl :: nat
  tx_hdrlen :: nat
  txglom :: bool
  txglomsz :: nat
  txq :: "tx_skb pktq"
  txoff :: bool
  flowcontrol :: u8
  tx_seq :: u8
  tx_max :: u8
  rx_seq :: u8
  cur_read :: brcmf_sdio_hdrinfo
  rxhdr :: "u8 list"
  rxskip :: bool
  rxpending :: bool
  glomd :: "u8 list option"
  glom :: "sk_buff list"
  rxblen :: nat
  rxctl :: "u8 list option"
  rxlen :: nat
  rxf_in_kthread :: bool
  btsdio_active :: bool
  skbbuf :: "u8 list list option list"
  store_idx :: u32
  sent_idx :: u32
  sdio_calls :: "sdio_call list"

abbreviation (input) SDPCM_HWHDR_LEN :: nat where "SDPCM_HWHDR_LEN \<equiv> 4"
abbreviation (input) SDPCM_HWEXT_LEN :: nat where "SDPCM_HWEXT_LEN \<equiv> 8"
abbreviation (input) SDPCM_SWHDR_LEN :: nat where "SDPCM_SWHDR_LEN \<equiv> 8"
abbreviation (input) SDPCM_HDRLEN :: nat where "SDPCM_HDRLEN \<equiv> 12"
abbreviation (input) SDPCM_CONTROL_CHANNEL :: u8 where "SDPCM_CONTROL_CHANNEL \<equiv> 0"
abbreviation (input) SDPCM_EVENT_CHANNEL :: u8 where "SDPCM_EVENT_CHANNEL \<equiv> 1"
abbreviation (input) SDPCM_DATA_CHANNEL :: u8 where "SDPCM_DATA_CHANNEL \<equiv> 2"
abbreviation (input) SDPCM_GLOM_CHANNEL :: u8 where "SDPCM_GLOM_CHANNEL \<equiv> 3"
abbreviation (input) MAX_RX_DATASZ :: nat where "MAX_RX_DATASZ \<equiv> 2048"
abbreviation (input) BRCMF_FIRSTREAD :: nat where "BRCMF_FIRSTREAD \<equiv> 64"
abbreviation (input) TXCTL_CREDITS :: u8 where "TXCTL_CREDITS \<equiv> 2"
abbreviation (input) TXHI :: nat where "TXHI \<equiv> 1792"
abbreviation (input) TXLOW :: nat where "TXLOW \<equiv> 1536"

definition sdio_log :: "sdio_call \<Rightarrow> 'd brcmf_sdio \<Rightarrow> 'd brcmf_sdio" where
  "sdio_log c bus = bus\<lparr>sdio_calls := sdio_calls bus @ [c]\<rparr>"

definition set_dev :: "'d \<Rightarrow> 'd brcmf_sdio \<Rightarrow> 'd brcmf_sdio" where
  "set_dev d bus = bus\<lparr>sdiodev := (sdiodev bus)\<lparr>dev := d\<rparr>\<rparr>"

subsection \<open>The window of the firmware\<close>

definition data_ok :: "'d brcmf_sdio \<Rightarrow> bool" where
  "data_ok bus \<longleftrightarrow> TXCTL_CREDITS < tx_max bus - tx_seq bus \<and> (tx_max bus - tx_seq bus) AND 0x80 = 0"

text \<open>Here the difference is not cut to 8 bits.\<close>

definition txctl_ok :: "'d brcmf_sdio \<Rightarrow> bool" where
  "txctl_ok bus \<longleftrightarrow>
     uint (tx_max bus) - uint (tx_seq bus) \<noteq> 0 \<and> (uint (tx_max bus) - uint (tx_seq bus)) AND 0x80 = 0"

text \<open>The control frames' window is the same as if it were.\<close>

lemma txctl_ok_8bit: "txctl_ok bus \<longleftrightarrow> tx_max bus - tx_seq bus \<noteq> 0 \<and> (tx_max bus - tx_seq bus) AND 0x80 = 0"
proof -
  let ?i = "uint (tx_max bus) - uint (tx_seq bus)"
  have w: "tx_max bus - tx_seq bus = word_of_int ?i" by simp
  have "(tx_max bus - tx_seq bus) AND 0x80 = 0 \<longleftrightarrow> \<not> bit (tx_max bus - tx_seq bus) 7"
    using and_exp_eq_0_iff_not_bit [of "tx_max bus - tx_seq bus" 7] by simp
  also have "\<dots> \<longleftrightarrow> \<not> bit ?i 7" unfolding w by (simp add: bit_word_of_int_iff del: of_int_diff)
  also have "\<dots> \<longleftrightarrow> ?i AND 0x80 = 0"
    using and_exp_eq_0_iff_not_bit [of ?i 7] by simp
  moreover have "?i \<noteq> 0 \<longleftrightarrow> tx_max bus - tx_seq bus \<noteq> 0"
    unfolding right_minus_eq by (auto intro: unsigned_word_eqI)
  ultimately show ?thesis by (simp only: txctl_ok_def)
qed

subsection \<open>Terminating a frame\<close>

abbreviation (input) SBSDIO_FUNC1_FRAMECTRL :: u32 where "SBSDIO_FUNC1_FRAMECTRL \<equiv> 0x1000D"
abbreviation (input) SBSDIO_FUNC1_WFRAMEBCLO :: u32 where "SBSDIO_FUNC1_WFRAMEBCLO \<equiv> 0x10019"
abbreviation (input) SBSDIO_FUNC1_WFRAMEBCHI :: u32 where "SBSDIO_FUNC1_WFRAMEBCHI \<equiv> 0x1001A"
abbreviation (input) SBSDIO_FUNC1_RFRAMEBCLO :: u32 where "SBSDIO_FUNC1_RFRAMEBCLO \<equiv> 0x1001B"
abbreviation (input) SBSDIO_FUNC1_RFRAMEBCHI :: u32 where "SBSDIO_FUNC1_RFRAMEBCHI \<equiv> 0x1001C"
abbreviation (input) SDIO_CCCR_ABORT :: u32 where "SDIO_CCCR_ABORT \<equiv> 0x06"
abbreviation (input) tosbmailbox :: u32 where "tosbmailbox \<equiv> 0x40"

text \<open>The bytes of the frame count are read until both are 0, a limited number of times.\<close>

fun frame_flush :: "'d mmc_core \<Rightarrow> u32 \<Rightarrow> u32 \<Rightarrow> nat \<Rightarrow> 'd \<Rightarrow> 'd" where
  "frame_flush ops rhi rlo retries d =
     (if retries = 0 then d
      else case mmc_readb ops rhi d of
        (hi, d) \<Rightarrow>
          (case mmc_readb ops rlo d of
             (lo, d) \<Rightarrow> if hi = 0 \<and> lo = 0 then d else frame_flush ops rhi rlo (retries - 1) d))"

declare frame_flush.simps [simp del]

definition brcmf_sdiod_abort :: "'d mmc_core \<Rightarrow> 'd \<Rightarrow> 'd" where
  "brcmf_sdiod_abort ops d = mmc_f0_writeb ops SDIO_CCCR_ABORT 2 d"

definition brcmf_sdio_rxfail :: "'d mmc_core \<Rightarrow> bool \<Rightarrow> bool \<Rightarrow> 'd brcmf_sdio \<Rightarrow> 'd brcmf_sdio" where
  "brcmf_sdio_rxfail ops abort rtx bus =
     (let d = dev (sdiodev bus);
          d = (if abort then brcmf_sdiod_abort ops d else d);
          d = snd (mmc_writeb ops SBSDIO_FUNC1_FRAMECTRL 1 d);
          d = frame_flush ops SBSDIO_FUNC1_RFRAMEBCHI SBSDIO_FUNC1_RFRAMEBCLO 0xffff d;
          bus = set_dev d bus;
          bus = (if rtx then
                   (case brcmf_sdiod_writel ops (core_base bus + tosbmailbox) 1 (sdiodev bus) of
                      (None, s) \<Rightarrow> bus\<lparr>sdiodev := s, rxskip := True\<rparr>
                    | (Some e, s) \<Rightarrow> bus\<lparr>sdiodev := s\<rparr>)
                 else bus)
      in bus\<lparr>cur_read := (cur_read bus)\<lparr>hd_len := 0\<rparr>\<rparr>)"

definition brcmf_sdio_txfail :: "'d mmc_core \<Rightarrow> 'd brcmf_sdio \<Rightarrow> 'd brcmf_sdio" where
  "brcmf_sdio_txfail ops bus =
     (let d = brcmf_sdiod_abort ops (dev (sdiodev bus));
          d = snd (mmc_writeb ops SBSDIO_FUNC1_FRAMECTRL 2 d)
      in set_dev (frame_flush ops SBSDIO_FUNC1_WFRAMEBCHI SBSDIO_FUNC1_WFRAMEBCLO 3 d) bus)"

subsection \<open>The header of a frame\<close>

definition get_le16 :: "u8 list \<Rightarrow> nat \<Rightarrow> u16 option" where
  "get_le16 m i = map_option (\<lambda>b. le16_of (b ! 0) (b ! 1)) (bytes_at m i 2)"

definition get_le32 :: "u8 list \<Rightarrow> nat \<Rightarrow> u32 option" where
  "get_le32 m i = map_option (\<lambda>b. le32_of (b ! 0) (b ! 1) (b ! 2) (b ! 3)) (bytes_at m i 4)"

definition brcmf_sdio_getdatoffset :: "u32 \<Rightarrow> u8" where
  "brcmf_sdio_getdatoffset hdrvalue = ucast (drop_bit 24 (hdrvalue AND 0xff000000))"

definition sw_channel :: "u32 \<Rightarrow> u8" where
  "sw_channel hdrvalue = ucast (drop_bit 8 (hdrvalue AND 0xf00))"

definition brcmf_sdio_fromevntchan :: "u32 \<Rightarrow> bool" where
  "brcmf_sdio_fromevntchan hdrvalue \<longleftrightarrow> sw_channel hdrvalue = SDPCM_EVENT_CHANNEL"

definition SDPCM_GLOMDESC :: "u8 list \<Rightarrow> nat \<Rightarrow> bool option" where
  "SDPCM_GLOMDESC m i = map_option (\<lambda>b. b AND 0x80 \<noteq> 0) (mem_at m (i + 1))"

datatype brcmf_sdio_frmtype = BRCMF_SDIO_FT_NORMAL | BRCMF_SDIO_FT_SUPER | BRCMF_SDIO_FT_SUB

text \<open>The end of the parse of a header that is not a subframe's: next length, flow control and window.\<close>

definition hdparse_update ::
    "u32 \<Rightarrow> u32 \<Rightarrow> brcmf_sdio_hdrinfo \<Rightarrow> 'd brcmf_sdio \<Rightarrow> brcmf_sdio_hdrinfo \<times> 'd brcmf_sdio" where
  "hdparse_update swheader swheader2 rd bus =
     (let nxt = ucast (drop_bit 16 (swheader AND 0x00ff0000));
          rd = rd\<lparr>hd_len_nxtfrm := (if unat nxt * 16 > MAX_RX_DATASZ then 0 else nxt)\<rparr>;
          fc = ucast (swheader2 AND 0xff);
          bus = bus\<lparr>flowcontrol := fc\<rparr>;
          tx_seq_max = ucast (drop_bit 8 (swheader2 AND 0xff00));
          tx_seq_max = (if tx_seq_max - tx_seq bus > 0x40 then tx_seq bus + 2 else tx_seq_max)
      in (rd, bus\<lparr>tx_max := tx_seq_max\<rparr>))"

text \<open>
  The header at the front of \<open>header\<close>, the description of the frame read so far and the bus: the
  error, if any, with both updated. \<open>None\<close> is a read outside of the memory given.
\<close>

definition brcmf_sdio_hdparse ::
    "'d mmc_core \<Rightarrow> u8 list \<Rightarrow> brcmf_sdio_hdrinfo \<Rightarrow> brcmf_sdio_frmtype \<Rightarrow> 'd brcmf_sdio
      \<Rightarrow> (errno option \<times> brcmf_sdio_hdrinfo \<times> 'd brcmf_sdio) option" where
  "brcmf_sdio_hdparse ops header rd ft bus = do {
     len \<leftarrow> get_le16 header 0;
     checksum \<leftarrow> get_le16 header 2;
     if len OR checksum = 0 then Some (Some ENODATA, rd, bus\<lparr>rxpending := False\<rparr>)
     else if NOT (len XOR checksum) \<noteq> 0 then Some (Some EIO, rd, brcmf_sdio_rxfail ops False False bus)
     else if unat len < SDPCM_HDRLEN then Some (Some EPROTO, rd, bus)
     else if ft = BRCMF_SDIO_FT_SUPER \<and> round_up (unat len) (blocksize bus) \<noteq> unat (hd_len rd) then Some (Some EPROTO, rd, bus)
     else if ft = BRCMF_SDIO_FT_SUB \<and> hd_len rd < len then Some (Some EPROTO, rd, bus)
     else do {
       let rd = rd\<lparr>hd_len := len\<rparr>;
       swheader \<leftarrow> get_le32 header 4;
       glomdesc \<leftarrow> SDPCM_GLOMDESC header 4;
       if ft = BRCMF_SDIO_FT_SUPER \<and> glomdesc then Some (Some EINVAL, rd\<lparr>hd_len := 0\<rparr>, bus)
       else do {
         let rx_seq = ucast (swheader AND 0xff);
         let rd = rd\<lparr>hd_channel := sw_channel swheader\<rparr>;
         if unat len > MAX_RX_DATASZ \<and> hd_channel rd \<noteq> SDPCM_CONTROL_CHANNEL \<and> ft \<noteq> BRCMF_SDIO_FT_SUPER
         then Some (Some EPROTO, rd\<lparr>hd_len := 0\<rparr>, brcmf_sdio_rxfail ops False False bus)
         else if ft = BRCMF_SDIO_FT_SUPER \<and> hd_channel rd \<noteq> SDPCM_GLOM_CHANNEL
         then Some (Some EINVAL, rd\<lparr>hd_len := 0\<rparr>, bus)
         else if ft = BRCMF_SDIO_FT_SUB \<and> hd_channel rd \<noteq> SDPCM_DATA_CHANNEL \<and> hd_channel rd \<noteq> SDPCM_EVENT_CHANNEL
         then Some (Some EINVAL, rd\<lparr>hd_len := 0\<rparr>, bus)
         else do {
           let rd = rd\<lparr>hd_dat_offset := brcmf_sdio_getdatoffset swheader\<rparr>;
           if unat (hd_dat_offset rd) < SDPCM_HDRLEN \<or> unat (hd_dat_offset rd) > unat (hd_len rd)
           then Some (Some ENXIO, rd\<lparr>hd_len := 0\<rparr>, brcmf_sdio_rxfail ops False False bus)
           else do {
             let rd = rd\<lparr>hd_seq_num := rx_seq\<rparr>;
             if ft = BRCMF_SDIO_FT_SUB then Some (None, rd, bus)
             else do {
               swheader2 \<leftarrow> get_le32 header 8;
               Some (None, hdparse_update swheader swheader2 rd bus)
             }
           }
         }
       }
     }
   }"

text \<open>The hardware header, then the extension when packets are glommed, then the software header.\<close>

definition brcmf_sdio_update_hwhdr :: "u8 list \<Rightarrow> u16 \<Rightarrow> u8 list option" where
  "brcmf_sdio_update_hwhdr header frm_length = buf_write header 0 (le16_bytes frm_length @ le16_bytes (NOT frm_length))"

definition brcmf_sdio_hdpack :: "'d brcmf_sdio \<Rightarrow> u8 list \<Rightarrow> brcmf_sdio_hdrinfo \<Rightarrow> u8 list option" where
  "brcmf_sdio_hdpack bus header hd_info = do {
     header \<leftarrow> brcmf_sdio_update_hwhdr header (hd_len hd_info);
     header \<leftarrow> (if txglom bus
       then buf_write header SDPCM_HWHDR_LEN
              (le32_bytes ((ucast (hd_len hd_info) - 4) OR (if hd_lastfrm hd_info then push_bit 24 1 else 0)) @
               le32_bytes (push_bit 16 (ucast (hd_tail_pad hd_info))))
       else Some header);
     let hdr_offset = (if txglom bus then SDPCM_HWHDR_LEN + SDPCM_HWEXT_LEN else SDPCM_HWHDR_LEN);
     let hdrval = ucast (hd_seq_num hd_info) OR (push_bit 8 (ucast (hd_channel hd_info)) AND 0xf00) OR
                  (push_bit 24 (ucast (hd_dat_offset hd_info)) AND 0xff000000);
     buf_write header hdr_offset (le32_bytes hdrval @ le32_bytes 0)
   }"

subsection \<open>The queue of packets to send\<close>

text \<open>The flag whether the packet was queued, the packets freed and the queue.\<close>

definition brcmf_sdio_prec_enq :: "'p pktq \<Rightarrow> 'p \<Rightarrow> nat \<Rightarrow> bool \<times> 'p list \<times> 'p pktq" where
  "brcmf_sdio_prec_enq q pkt prec =
     (if \<not> pktq_pfull q prec \<and> \<not> pktq_full q then (True, [], snd (brcmu_pktq_penq q prec pkt))
      else
        let eprec = (if pktq_pfull q prec then Some prec
                     else if pktq_full q then snd (brcmu_pktq_peek_tail q) else None)
        in case eprec of
             Some e \<Rightarrow>
               if e > prec \<and> \<not> pktq_pfull q prec then (False, [], q)
               else if e = prec then (False, [], q)
               else (case brcmu_pktq_pdeq_tail q e of
                       (p, q) \<Rightarrow>
                         (case brcmu_pktq_penq q prec pkt of
                            (r, q) \<Rightarrow> (r \<noteq> None, (case p of None \<Rightarrow> [] | Some p \<Rightarrow> [p]), q)))
           | None \<Rightarrow> (case brcmu_pktq_penq q prec pkt of (r, q) \<Rightarrow> (r \<noteq> None, [], q)))"

text \<open>The result is undefined (\<open>None\<close>) past the table of access categories.\<close>

definition brcmf_map_prio_to_prec :: "u8 list option \<Rightarrow> u8 \<Rightarrow> u8 option" where
  "brcmf_map_prio_to_prec config prio =
     (case config of
        None \<Rightarrow> Some (if prio = 2 \<or> prio = 0 then prio XOR 2 else prio)
      | Some ac \<Rightarrow>
          if unat prio \<ge> length ac \<or> ac = [] then None
          else if prio > 3 \<and> ac ! unat prio = ac ! 0 then Some (ac ! unat prio * 2)
          else if prio = 0 \<or> prio = 1 \<or> prio = 4 \<or> prio = 6 then Some (ac ! unat prio * 2)
          else Some (ac ! unat prio * 2 + 1))"

definition brcmf_sdio_bus_txdata ::
    "u8 list option \<Rightarrow> u8 \<Rightarrow> tx_skb \<Rightarrow> 'd brcmf_sdio \<Rightarrow> (errno option \<times> tx_skb \<times> 'd brcmf_sdio) option" where
  "brcmf_sdio_bus_txdata config priority pkt bus =
     (if sd_state (sdiodev bus) \<noteq> BRCMF_SDIOD_DATA then Some (Some EIO, pkt, bus)
      else do {
        pkt \<leftarrow> skb_push (tx_hdrlen bus) pkt;
        prec \<leftarrow> map_option unat (brcmf_map_prio_to_prec config (priority AND 7));
        let pkt = pkt\<lparr>sk_cb := 0\<rparr>;
        let (ok, freed, q) = brcmf_sdio_prec_enq (txq bus) pkt prec;
        let bus = bus\<lparr>txq := q, sdio_calls := sdio_calls bus @ map FreePkt freed\<rparr>;
        let (ret, pkt) = (if ok then (None, pkt) else (Some ENOSR, skb_pull (tx_hdrlen bus) pkt));
        Some (ret, pkt,
          if unat (pq_len (txq bus)) \<ge> TXHI then sdio_log (FlowBlock True) (bus\<lparr>txoff := True\<rparr>) else bus)
      })"

subsection \<open>Reading headers\<close>

text \<open>The bytes of a header, from the comment in front of the definitions of the code.\<close>

definition sdpcm_header :: "u16 \<Rightarrow> u8 \<Rightarrow> u8 \<Rightarrow> u8 \<Rightarrow> u8 \<Rightarrow> u8 \<Rightarrow> u8 \<Rightarrow> u8 list" where
  "sdpcm_header len seq chan nextlen doff fc window =
     le16_bytes len @ le16_bytes (NOT len) @ [seq, chan, nextlen, doff, fc, window, 0, 0]"

lemma word_bit_masks:
  "i < 32 \<Longrightarrow> bit (0xff :: u32) i = (i < 8)"
  "i < 32 \<Longrightarrow> bit (0xf00 :: u32) i = (8 \<le> i \<and> i < 12)"
  "i < 32 \<Longrightarrow> bit (0xff00 :: u32) i = (8 \<le> i \<and> i < 16)"
  "i < 32 \<Longrightarrow> bit (0x00ff0000 :: u32) i = (16 \<le> i \<and> i < 24)"
  "i < 32 \<Longrightarrow> bit (0xff000000 :: u32) i = (24 \<le> i)"
proof -
  have m: "(0xff :: u32) = mask 8" "(0xf00 :: u32) = push_bit 8 (mask 4)" "(0xff00 :: u32) = push_bit 8 (mask 8)"
    "(0x00ff0000 :: u32) = push_bit 16 (mask 8)" "(0xff000000 :: u32) = push_bit 24 (mask 8)"
    by (simp_all add: mask_eq_exp_minus_1)
  show "i < 32 \<Longrightarrow> bit (0xff :: u32) i = (i < 8)" unfolding m bit_mask_iff by auto
  show "i < 32 \<Longrightarrow> bit (0xf00 :: u32) i = (8 \<le> i \<and> i < 12)" unfolding m bit_push_bit_iff bit_mask_iff by auto
  show "i < 32 \<Longrightarrow> bit (0xff00 :: u32) i = (8 \<le> i \<and> i < 16)" unfolding m bit_push_bit_iff bit_mask_iff by auto
  show "i < 32 \<Longrightarrow> bit (0x00ff0000 :: u32) i = (16 \<le> i \<and> i < 24)" unfolding m bit_push_bit_iff bit_mask_iff by auto
  show "i < 32 \<Longrightarrow> bit (0xff000000 :: u32) i = (24 \<le> i)" unfolding m bit_push_bit_iff bit_mask_iff by auto
qed

lemma bit_le32_of:
  "i < 32 \<Longrightarrow> bit (le32_of a b c d) i =
     (if i < 8 then bit a i else if i < 16 then bit b (i - 8) else if i < 24 then bit c (i - 16) else bit d (i - 24))"
  unfolding le32_of_def bit_or_iff bit_push_bit_iff bit_unsigned_iff
  by (auto dest: bit_imp_le_length)

lemma le32_fields:
  "ucast (le32_of a b c d AND 0xff) = a"
  "sw_channel (le32_of a b c d) = b AND 0xf"
  "ucast (drop_bit 8 (le32_of a b c d AND 0xff00)) = b"
  "ucast (drop_bit 16 (le32_of a b c d AND 0x00ff0000)) = (ucast c :: u16)"
  "brcmf_sdio_getdatoffset (le32_of a b c d) = d"
proof -
  show "ucast (le32_of a b c d AND 0xff) = a"
    by (rule bit_word_eqI) (simp only: bit_unsigned_iff bit_and_iff, simp add: bit_le32_of word_bit_masks(1) del: bit_numeral_word_iff)
  show "ucast (drop_bit 8 (le32_of a b c d AND 0xff00)) = b"
    by (rule bit_word_eqI) (simp only: bit_unsigned_iff bit_and_iff bit_drop_bit_eq comp_def,
        simp add: bit_le32_of word_bit_masks del: bit_numeral_word_iff)
  have m: "bit (0xf :: u8) i = (i < 4)" for i
    using bit_mask_iff [of 4 i, where ?'a = u8] by (auto simp: mask_eq_exp_minus_1 dest: bit_imp_le_length)
  show "sw_channel (le32_of a b c d) = b AND 0xf" unfolding sw_channel_def
    by (rule bit_word_eqI) (simp only: bit_unsigned_iff bit_and_iff bit_drop_bit_eq comp_def m,
        auto simp: bit_le32_of word_bit_masks simp del: bit_numeral_word_iff)
  show "ucast (drop_bit 16 (le32_of a b c d AND 0x00ff0000)) = (ucast c :: u16)"
    by (rule bit_word_eqI) (simp only: bit_unsigned_iff bit_and_iff bit_drop_bit_eq comp_def,
        auto simp: bit_le32_of word_bit_masks simp del: bit_numeral_word_iff dest: bit_imp_le_length)
  show "brcmf_sdio_getdatoffset (le32_of a b c d) = d" unfolding brcmf_sdio_getdatoffset_def
    by (rule bit_word_eqI) (simp only: bit_unsigned_iff bit_and_iff bit_drop_bit_eq comp_def,
        auto simp: bit_le32_of word_bit_masks simp del: bit_numeral_word_iff)
qed

lemma le32_bytes_of: "le32_bytes (le32_of a b c d) = [a, b, c, d]"
proof -
  have "ucast (le32_of a b c d) = a" "ucast (drop_bit 8 (le32_of a b c d)) = b"
    "ucast (drop_bit 16 (le32_of a b c d)) = c" "ucast (drop_bit 24 (le32_of a b c d)) = d"
    by (rule bit_word_eqI, auto simp: bit_unsigned_iff bit_drop_bit_eq bit_le32_of)+
  then show ?thesis by (simp add: le32_bytes_def)
qed

lemma header_reads:
  assumes h_def: "h = sdpcm_header len seq chan nxt doff fc wnd @ rest"
  shows "get_le16 h 0 = Some len" "get_le16 h 2 = Some (NOT len)"
    "get_le32 h 4 = Some (le32_of seq chan nxt doff)" "get_le32 h 8 = Some (le32_of fc wnd 0 0)"
    "SDPCM_GLOMDESC h 4 = Some (chan AND 0x80 \<noteq> 0)"
  by (simp_all add: h_def sdpcm_header_def get_le16_def get_le32_def SDPCM_GLOMDESC_def bytes_at_def le16_bytes_def mem_at_def)

lemma header_checks: "len OR NOT len \<noteq> 0" "NOT (len XOR NOT len) = 0" for len :: u16
  by (simp_all add: bit.xor_def)

definition frame_fits :: "brcmf_sdio_frmtype \<Rightarrow> nat \<Rightarrow> u16 \<Rightarrow> u16 \<Rightarrow> u8 \<Rightarrow> bool" where
  "frame_fits ft blk room len chan =
     (case ft of
        BRCMF_SDIO_FT_NORMAL \<Rightarrow> unat len \<le> MAX_RX_DATASZ \<or> chan = SDPCM_CONTROL_CHANNEL
      | BRCMF_SDIO_FT_SUPER \<Rightarrow> chan = SDPCM_GLOM_CHANNEL \<and> round_up (unat len) blk = unat room
      | BRCMF_SDIO_FT_SUB \<Rightarrow> (chan = SDPCM_DATA_CHANNEL \<or> chan = SDPCM_EVENT_CHANNEL) \<and> unat len \<le> MAX_RX_DATASZ \<and> len \<le> room)"

lemma low_nibble: "chan AND 0xf = chan \<Longrightarrow> chan AND 0x80 = 0" for chan :: u8
proof -
  assume "chan AND 0xf = chan"
  then have "chan AND 0x80 = chan AND (0xf AND 0x80)" by (metis and.assoc)
  then show ?thesis by simp
qed

text \<open>What a header that is accepted leaves behind.\<close>

definition read_header :: "u16 \<Rightarrow> u8 \<Rightarrow> u8 \<Rightarrow> u8 \<Rightarrow> brcmf_sdio_hdrinfo \<Rightarrow> brcmf_sdio_hdrinfo" where
  "read_header len seq chan doff rd = rd\<lparr>hd_len := len, hd_channel := chan, hd_dat_offset := doff, hd_seq_num := seq\<rparr>"

definition next_frame :: "u8 \<Rightarrow> u16" where
  "next_frame nxt = (if unat nxt * 16 > MAX_RX_DATASZ then 0 else ucast nxt)"

definition window_after :: "u8 \<Rightarrow> u8 \<Rightarrow> u8" where
  "window_after seq wnd = (if wnd - seq > 0x40 then seq + 2 else wnd)"

lemma unat_u8_u16: "unat (ucast b :: u16) = unat (b :: u8)"
proof -
  have "unat b < 65536" using unat_u8_lt [of b] by linarith
  then show ?thesis by (simp add: unsigned_ucast_eq take_bit_eq_mod)
qed

lemma header_parsed:
  assumes "SDPCM_HDRLEN \<le> unat doff" "unat doff \<le> unat len" "chan AND 0xf = chan"
    and "frame_fits ft (blocksize bus) (hd_len rd) len chan"
  shows "brcmf_sdio_hdparse ops (sdpcm_header len seq chan nxt doff fc wnd @ rest) rd ft bus =
    (if ft = BRCMF_SDIO_FT_SUB then Some (None, read_header len seq chan doff rd, bus)
     else Some (None, (read_header len seq chan doff rd)\<lparr>hd_len_nxtfrm := next_frame nxt\<rparr>,
            bus\<lparr>flowcontrol := fc, tx_max := window_after (tx_seq bus) wnd\<rparr>))"
proof -
  note reads = header_reads [OF refl, of len seq chan nxt doff fc wnd rest]
  have sw: "sw_channel (le32_of seq chan nxt doff) = chan" using assms(3) by (simp add: le32_fields)
  have up: "hdparse_update (le32_of seq chan nxt doff) (le32_of fc wnd 0 0) rd' bus =
      (rd'\<lparr>hd_len_nxtfrm := next_frame nxt\<rparr>, bus\<lparr>flowcontrol := fc, tx_max := window_after (tx_seq bus) wnd\<rparr>)" for rd'
    unfolding hdparse_update_def Let_def le32_fields next_frame_def window_after_def by (simp add: unat_u8_u16)
  have len: "\<not> unat len < SDPCM_HDRLEN" using assms(1,2) by simp
  show ?thesis
    unfolding brcmf_sdio_hdparse_def reads
    using assms len sw up low_nibble [OF assms(3)] header_checks [of len]
    by (cases ft) (auto simp: Let_def le32_fields read_header_def frame_fits_def not_less word_le_nat_alt)
qed

text \<open>A header the host writes, without the extension, has this form.\<close>

lemma header_value:
  "(ucast seq :: u32) OR (push_bit 8 (ucast (chan :: u8)) AND 0xf00) OR (push_bit 24 (ucast (doff :: u8)) AND 0xff000000)
     = le32_of seq (chan AND 0xf) 0 doff"
proof (rule bit_word_eqI)
  fix i
  assume "i < LENGTH(32)"
  then have i: "i < 32" by simp
  have m: "bit (0xf :: u8) j = (j < 4)" for j
    using bit_mask_iff [of 4 j, where ?'a = u8] by (auto simp: mask_eq_exp_minus_1 dest: bit_imp_le_length)
  show "bit ((ucast seq :: u32) OR (push_bit 8 (ucast chan) AND 0xf00) OR (push_bit 24 (ucast doff) AND 0xff000000)) i
      = bit (le32_of seq (chan AND 0xf) 0 doff) i"
    unfolding bit_or_iff bit_and_iff bit_push_bit_iff bit_unsigned_iff word_bit_masks [OF i] bit_le32_of [OF i] m
    using i by (auto dest: bit_imp_le_length)
qed

lemma hdpack_header:
  assumes "\<not> txglom bus" "SDPCM_HDRLEN \<le> length m"
  shows "brcmf_sdio_hdpack bus m h =
    Some (sdpcm_header (hd_len h) (hd_seq_num h) (hd_channel h AND 0xf) 0 (hd_dat_offset h) 0 0 @ drop SDPCM_HDRLEN m)"
  using assms
  by (auto simp: brcmf_sdio_hdpack_def brcmf_sdio_update_hwhdr_def buf_write_def sdpcm_header_def header_value
      le32_bytes_of le32_bytes_def [of 0] Let_def)

text \<open>
  C18: a header the host packs without the extension is parsed back with the same length, sequence
  number, channel and data offset, and stops the queue of the firmware at the sender's window.
\<close>

theorem sdpcm_header_read_back:
  assumes "\<not> txglom bus" "SDPCM_HDRLEN \<le> length m"
    and "SDPCM_HDRLEN \<le> unat (hd_dat_offset h)" "unat (hd_dat_offset h) \<le> unat (hd_len h)" "hd_channel h AND 0xf = hd_channel h"
    and "unat (hd_len h) \<le> MAX_RX_DATASZ \<or> hd_channel h = SDPCM_CONTROL_CHANNEL"
  shows "\<exists>m'. brcmf_sdio_hdpack bus m h = Some m' \<and> length m' = length m \<and>
    brcmf_sdio_hdparse ops m' rd BRCMF_SDIO_FT_NORMAL peer =
      Some (None, rd\<lparr>hd_len := hd_len h, hd_channel := hd_channel h, hd_dat_offset := hd_dat_offset h,
                     hd_seq_num := hd_seq_num h, hd_len_nxtfrm := 0\<rparr>,
            peer\<lparr>flowcontrol := 0, tx_max := window_after (tx_seq peer) 0\<rparr>)"
proof -
  have "length (sdpcm_header l s c n d f w) = SDPCM_HDRLEN" for l s c n d f w
    by (simp add: sdpcm_header_def)
  moreover have "frame_fits BRCMF_SDIO_FT_NORMAL (blocksize peer) (hd_len rd) (hd_len h) (hd_channel h)"
    using assms(6) by (simp add: frame_fits_def)
  ultimately show ?thesis
    using hdpack_header [OF assms(1,2), of h] assms(2)
      header_parsed [OF assms(3,4,5), where ft = BRCMF_SDIO_FT_NORMAL and bus = peer and rd = rd and ops = ops and nxt = 0 and fc = 0 and wnd = 0]
    by (simp add: read_header_def next_frame_def assms(5))
qed

text \<open>
  after any header but a subframe's has been accepted, the window the firmware offers is at
  most 64 frames ahead of the sequence number of the host.
\<close>

theorem window_bounded_after_header:
  assumes "brcmf_sdio_hdparse ops header rd ft bus = Some (None, rd', bus')" "ft \<noteq> BRCMF_SDIO_FT_SUB"
  shows "unat (tx_max bus' - tx_seq bus') \<le> 64 \<and> tx_seq bus' = tx_seq bus"
proof -
  have "unat (tx_max (snd (hdparse_update sw sw2 rd'' bus)) - tx_seq (snd (hdparse_update sw sw2 rd'' bus))) \<le> 64 \<and>
      tx_seq (snd (hdparse_update sw sw2 rd'' bus)) = tx_seq bus" for sw sw2 rd''
    by (auto simp: hdparse_update_def Let_def word_less_nat_alt not_less simp del: drop_bit_and)
  moreover obtain sw sw2 rd'' where "hdparse_update sw sw2 rd'' bus = (rd', bus')"
    using assms by (auto simp: brcmf_sdio_hdparse_def Let_def split: if_splits bind_splits)
  ultimately show ?thesis by (metis snd_conv)
qed

subsection \<open>The queue of packets to send\<close>

lemma peek_tail_lowest:
  assumes "pktq_wf q" "\<not> pktq_empty q"
  obtains e where "snd (brcmu_pktq_peek_tail q) = Some e" "skbs q e \<noteq> []" "\<forall>i<e. skbs q i = []" "e < unat (num_prec q)"
proof -
  have "\<exists>i \<le> unat (hi_prec q). skbs q i \<noteq> []"
  proof (rule ccontr)
    assume "\<not> (\<exists>i \<le> unat (hi_prec q). skbs q i \<noteq> [])"
    then have "\<forall>i<length (pq_q q). skbs q i = []"
      using pktq_wfD(1,4) [OF assms(1)] by (metis not_less)
    then have "pktq_total q = 0" unfolding pktq_total_def by (auto simp: in_set_conv_nth)
    with assms show False by (simp add: pktq_empty_total)
  qed
  then obtain i where i: "i \<le> unat (hi_prec q)" "skbs q i \<noteq> []" by blast
  show ?thesis
  proof (cases "first_index (\<lambda>i. skbs q i \<noteq> []) (unat (hi_prec q))")
    case None
    then have below: "\<forall>j < unat (hi_prec q). skbs q j = []" by (simp add: first_index_None)
    then have "i = unat (hi_prec q)" using i by (metis le_neq_implies_less)
    with None below i assms(2) show ?thesis
      by (intro that [of "unat (hi_prec q)"]) (auto simp: brcmu_pktq_peek_tail_def Let_def pktq_wfD(3) [OF assms(1)])
  next
    case (Some e)
    note e = first_index_SomeD [OF Some]
    with Some assms(2) pktq_wfD(3) [OF assms(1)] show ?thesis
      by (intro that [of e]) (auto simp: brcmu_pktq_peek_tail_def Let_def)
  qed
qed

lemma penq_room:
  assumes "\<not> pktq_full q" "\<not> pktq_pfull q prec"
  shows "fst (brcmu_pktq_penq q prec p) = Some p"
  using assms by (cases rule: penq_cases [of q prec p]) auto

lemma pdeq_tail_content:
  assumes "pktq_wf q" "e < unat (num_prec q)" "skbs q e \<noteq> []"
  shows "fst (brcmu_pktq_pdeq_tail q e) = Some (last (skbs q e))"
    "j < PKTQ_MAX_PREC \<Longrightarrow> skbs (snd (brcmu_pktq_pdeq_tail q e)) j = (if j = e then butlast (skbs q e) else skbs q j)"
    "j < PKTQ_MAX_PREC \<Longrightarrow> prec_max (pq_q (snd (brcmu_pktq_pdeq_tail q e)) ! j) = prec_max (pq_q q ! j)"
    "num_prec (snd (brcmu_pktq_pdeq_tail q e)) = num_prec q" "\<not> pktq_full (snd (brcmu_pktq_pdeq_tail q e))"
proof -
  have "pktq_total q > 0"
    using skbs_le_total [OF pktq_prec_in_range [OF assms(1,2)]] assms(3) by (metis le_zero_eq length_0_conv not_gr0)
  then have "unat (pq_len q) > 0" using pktq_wfD(5) [OF assms(1)] by simp
  moreover from this have "pq_len q \<noteq> 0" by auto
  ultimately have "unat (pq_len q - 1) < unat (pq_max q)"
    using pktq_wfD(6) [OF assms(1)] unat_pred_pos [of "pq_len q"] by (simp add: word_le_nat_alt)
  then show "\<not> pktq_full (snd (brcmu_pktq_pdeq_tail q e))"
    using assms(3) by (simp add: pktq_full_def brcmu_pktq_pdeq_tail_def word_le_nat_alt)
qed (use assms pktq_wfD(1) [OF assms(1)] in \<open>simp_all add: brcmu_pktq_pdeq_tail_def set_skbs_nth\<close>)

text \<open>
  C22: a packet is refused when its own precedence is full, or when the queue is full and nothing
  of a lower precedence waits; otherwise it is appended to its precedence, and if the queue was
  full the newest packet of the lowest precedence in use gives way. The queue stays well-formed.
\<close>

theorem txq_policy:
  assumes "pktq_wf q" "prec < unat (num_prec q)" "pq_max q \<noteq> 0" "brcmf_sdio_prec_enq q pkt prec = (ok, freed, q')"
  shows "pktq_wf q' \<and>
    (if pktq_pfull q prec then \<not> ok \<and> freed = [] \<and> q' = q
     else if \<not> pktq_full q then
       ok \<and> freed = [] \<and> (\<forall>j<PKTQ_MAX_PREC. skbs q' j = (if j = prec then skbs q j @ [pkt] else skbs q j))
     else \<exists>e. skbs q e \<noteq> [] \<and> (\<forall>i<e. skbs q i = []) \<and>
       (if prec \<le> e then \<not> ok \<and> freed = [] \<and> q' = q
        else ok \<and> freed = [last (skbs q e)] \<and>
          (\<forall>j<PKTQ_MAX_PREC. skbs q' j =
             (if j = prec then skbs q j @ [pkt] else if j = e then butlast (skbs q j) else skbs q j))))"
proof -
  consider (own) "pktq_pfull q prec" | (room) "\<not> pktq_pfull q prec" "\<not> pktq_full q" | (full) "\<not> pktq_pfull q prec" "pktq_full q"
    by blast
  then show ?thesis
  proof cases
    case own
    with assms(1,4) show ?thesis by (auto simp: brcmf_sdio_prec_enq_def)
  next
    case room
    then have "q' = snd (brcmu_pktq_penq q prec pkt)" "ok" "freed = []"
      using assms(4) by (auto simp: brcmf_sdio_prec_enq_def)
    with room show ?thesis
      using penq_wf [OF assms(1,2)] penq_content [OF assms(1,2)] penq_room [OF room(2,1)] by auto
  next
    case full
    have "\<not> pktq_empty q" using full(2) assms(3) by (auto simp: pktq_full_def pktq_empty_def)
    then obtain e where e: "snd (brcmu_pktq_peek_tail q) = Some e" "skbs q e \<noteq> []" "\<forall>i<e. skbs q i = []" "e < unat (num_prec q)"
      by (rule peek_tail_lowest [OF assms(1)])
    show ?thesis
    proof (cases "prec \<le> e")
      case True
      then have "\<not> ok" "freed = []" "q' = q"
        using full assms(4) e(1) by (auto simp: brcmf_sdio_prec_enq_def split: if_splits)
      with full True e assms(1) show ?thesis by auto
    next
      case False
      let ?q = "snd (brcmu_pktq_pdeq_tail q e)"
      note t = pdeq_tail_content [OF assms(1) e(4,2)]
      have prec: "prec < PKTQ_MAX_PREC" using assms(2) pktq_wfD(2) [OF assms(1)] by simp
      have wf: "pktq_wf ?q" by (rule pdeq_tail_wf [OF assms(1) e(4)])
      have "\<not> pktq_pfull ?q prec"
        using full(1) False t(2,3) [OF prec] by (simp add: pktq_pfull_def)
      note p = penq_room [OF t(5) this, of pkt]
      have "ok \<and> freed = [last (skbs q e)] \<and> q' = snd (brcmu_pktq_penq ?q prec pkt)"
        using full False assms(4) e(1) t(1) p by (auto simp: brcmf_sdio_prec_enq_def split: prod.splits)
      moreover have "prec < unat (num_prec ?q)" using assms(2) t(4) by simp
      ultimately show ?thesis
        using full False e p t(2) penq_wf [OF wf, of prec pkt] penq_content [OF wf, of prec _ pkt] by (auto intro!: exI [of _ e])
    qed
  qed
qed

subsection \<open>Examples\<close>

definition sample_hdrinfo :: brcmf_sdio_hdrinfo where
  "sample_hdrinfo = \<lparr>hd_seq_num = 7, hd_channel = SDPCM_DATA_CHANNEL, hd_len = 100, hd_len_left = 0, hd_len_nxtfrm = 0,
     hd_dat_offset = 14, hd_lastfrm = False, hd_tail_pad = 0\<rparr>"

definition fresh_hdrinfo :: brcmf_sdio_hdrinfo where
  "fresh_hdrinfo = \<lparr>hd_seq_num = 0, hd_channel = 0, hd_len = 0, hd_len_left = 0, hd_len_nxtfrm = 0,
     hd_dat_offset = 0, hd_lastfrm = False, hd_tail_pad = 0\<rparr>"

definition sample_sdio_bus :: "'d \<Rightarrow> 'd brcmf_sdio" where
  "sample_sdio_bus d = \<lparr>sdiodev = sample_sdio d, core_base = 0x18002000, blocksize = 512, roundup_max = 512, head_align = 4,
     sgentry_align = 4, maxctl = 8192, tx_hdrlen = 12, txglom = False, txglomsz = 32,
     txq = \<lparr>num_prec = 8, hi_prec = 0, pq_max = 2048, pq_len = 0,
             pq_q = replicate 8 \<lparr>skblist = [], prec_max = 2048\<rparr> @ replicate 8 \<lparr>skblist = [], prec_max = 0\<rparr>\<rparr>,
     txoff = False, flowcontrol = 0, tx_seq = 255, tx_max = 20, rx_seq = 0, cur_read = fresh_hdrinfo, rxhdr = replicate 64 0,
     rxskip = False, rxpending = False, glomd = None, glom = [], rxblen = 8216, rxctl = None, rxlen = 0,
     rxf_in_kthread = False, btsdio_active = False, skbbuf = replicate 1024 None, store_idx = 0, sent_idx = 0, sdio_calls = []\<rparr>"

theorem sdpcm_header_read_back_witness:
  "\<exists>m'. brcmf_sdio_hdpack (sample_sdio_bus ()) (replicate 100 0xAA) sample_hdrinfo = Some m' \<and> length m' = 100 \<and>
    brcmf_sdio_hdparse logging_mmc m' fresh_hdrinfo BRCMF_SDIO_FT_NORMAL (sample_sdio_bus []) =
      Some (None, fresh_hdrinfo\<lparr>hd_len := 100, hd_channel := 2, hd_dat_offset := 14, hd_seq_num := 7, hd_len_nxtfrm := 0\<rparr>,
            (sample_sdio_bus [])\<lparr>flowcontrol := 0, tx_max := 0\<rparr>)"
  using sdpcm_header_read_back [of "sample_sdio_bus ()" "replicate 100 0xAA" sample_hdrinfo logging_mmc fresh_hdrinfo "sample_sdio_bus []"]
  by (simp add: sample_sdio_bus_def sample_hdrinfo_def window_after_def)

theorem window_bounded_after_header_witness:
  "\<exists>rd' bus'. brcmf_sdio_hdparse logging_mmc (sdpcm_header 100 7 2 0 14 0 200) fresh_hdrinfo BRCMF_SDIO_FT_NORMAL (sample_sdio_bus [])
      = Some (None, rd', bus') \<and> unat (tx_max bus' - tx_seq bus') \<le> 64 \<and> tx_seq bus' = 255"
proof -
  have fits: "frame_fits BRCMF_SDIO_FT_NORMAL (blocksize (sample_sdio_bus [])) (hd_len fresh_hdrinfo) 100 2" by (simp add: frame_fits_def)
  have "\<exists>rd' bus'. brcmf_sdio_hdparse logging_mmc (sdpcm_header 100 7 2 0 14 0 200) fresh_hdrinfo BRCMF_SDIO_FT_NORMAL (sample_sdio_bus [])
      = Some (None, rd', bus')"
    using header_parsed [of 14 100 2 _ _ fresh_hdrinfo logging_mmc 7 0 0 200 "[]", OF _ _ _ fits] by simp
  then obtain rd' bus' where r: "brcmf_sdio_hdparse logging_mmc (sdpcm_header 100 7 2 0 14 0 200) fresh_hdrinfo
      BRCMF_SDIO_FT_NORMAL (sample_sdio_bus []) = Some (None, rd', bus')" by blast
  show ?thesis
    using window_bounded_after_header [OF r] r by (auto simp: sample_sdio_bus_def)
qed

lemma full_pktq_wf: "pktq_wf (sample_pktq\<lparr>pq_max := 3\<rparr>)"
  using sample_pktq_wf by (simp add: pktq_wf_def pktq_total_def) (simp add: sample_pktq_def)

theorem txq_policy_witness:
  "\<exists>q'. brcmf_sdio_prec_enq (sample_pktq\<lparr>pq_max := 3\<rparr>) 21 1 = (True, [11], q') \<and> pktq_wf q' \<and> skbs q' 1 = [20, 21] \<and> skbs q' 0 = [10]"
proof -
  let ?q = "sample_pktq\<lparr>pq_max := 3\<rparr>"
  obtain ok freed q' where r: "brcmf_sdio_prec_enq ?q 21 1 = (ok, freed, q')" by (metis prod.exhaust)
  have q: "\<not> pktq_pfull ?q 1" "pktq_full ?q" "skbs ?q 0 = [10, 11]" "skbs ?q 1 = [20]" "1 < unat (num_prec ?q)" "pq_max ?q \<noteq> 0"
    by (simp_all add: sample_pktq_def pktq_pfull_def pktq_full_def)
  note p = txq_policy [OF full_pktq_wf q(5,6) r]
  from p q(1,2) obtain e where e: "skbs ?q e \<noteq> []" "\<forall>i<e. skbs ?q i = []"
    "if 1 \<le> e then \<not> ok \<and> freed = [] \<and> q' = ?q
     else ok \<and> freed = [last (skbs ?q e)] \<and> (\<forall>j<PKTQ_MAX_PREC. skbs q' j =
            (if j = 1 then skbs ?q j @ [21] else if j = e then butlast (skbs ?q j) else skbs ?q j))"
    by auto
  have "e = 0" using e(2) q(3) by (metis gr0I list.distinct(1))
  then have "ok" "freed = [11]" and c: "\<forall>j<PKTQ_MAX_PREC. skbs q' j =
      (if j = 1 then skbs ?q j @ [21] else if j = 0 then butlast (skbs ?q j) else skbs ?q j)"
    using e(3) q(3) by auto
  moreover have "skbs q' 1 = [20, 21]" "skbs q' 0 = [10]"
    using c [rule_format, of 1] c [rule_format, of 0] q(3,4) by simp_all
  ultimately show ?thesis using r p by auto
qed

end
