(* ===== verification/Sdio_Rx.thy ===== *)
theory Sdio_Rx
  imports Sdpcm Ring_Index Fifo_Interface "HOL-Library.Sublist"
begin

section \<open>Receiving over the SDIO bus (sdio.c)\<close>

text \<open>
  How frames come in: one by one, each telling the length of the next so that it can be read
  ahead (\<open>brcmf_sdio_readframes\<close>), control frames into a buffer of their own
  (\<open>brcmf_sdio_read_control\<close>, \<open>brcmf_sdio_bus_rxctl\<close>), several in a superframe announced by a
  descriptor (\<open>brcmf_sdio_rxglom\<close>). Packets the upper layer hands back go through the ring of the
  receive thread (\<open>brcmf_rxf_enqueue\<close>, \<open>brcmf_rxf_dequeue\<close>).

  \<open>back\<close> says which packets the upper layer hands back; \<open>rd0\<close> is what the stack held in a header
  description the code does not initialise. A packet handed on is its data.
\<close>

subsection \<open>The ring of the receive thread\<close>

abbreviation (input) MAXSKBPEND :: nat where "MAXSKBPEND \<equiv> 1024"

definition brcmf_rxf_enqueue :: "'d brcmf_sdio \<Rightarrow> u8 list list \<Rightarrow> errno option \<times> 'd brcmf_sdio" where
  "brcmf_rxf_enqueue bus skb =
     (if skbbuf bus ! unat (store_idx bus) \<noteq> None then (Some EINVAL, bus)
      else (None, bus\<lparr>skbbuf := (skbbuf bus)[unat (store_idx bus) := Some skb],
                      store_idx := (store_idx bus + 1) AND (of_nat MAXSKBPEND - 1)\<rparr>))"

definition brcmf_rxf_dequeue :: "'d brcmf_sdio \<Rightarrow> u8 list list option \<times> 'd brcmf_sdio" where
  "brcmf_rxf_dequeue bus =
     (case skbbuf bus ! unat (sent_idx bus) of
        None \<Rightarrow> (None, bus)
      | Some skb \<Rightarrow> (Some skb, bus\<lparr>skbbuf := (skbbuf bus)[unat (sent_idx bus) := None],
                                 sent_idx := (sent_idx bus + 1) AND (of_nat MAXSKBPEND - 1)\<rparr>))"

text \<open>The packets of a chain that finds no room are lost.\<close>

definition brcmf_sched_rxf :: "u8 list list \<Rightarrow> 'd brcmf_sdio \<Rightarrow> 'd brcmf_sdio" where
  "brcmf_sched_rxf skb bus = snd (brcmf_rxf_enqueue bus skb)"

text \<open>
  One turn of the thread. The semaphore it waits on counts the chains scheduled and is not modelled; a turn
  that dequeues nothing, at which the thread would end, changes nothing here.
\<close>

definition brcmf_sdio_rxf_thread :: "'d brcmf_sdio \<Rightarrow> 'd brcmf_sdio" where
  "brcmf_sdio_rxf_thread bus =
     (case brcmf_rxf_dequeue bus of
        (None, bus) \<Rightarrow> bus
      | (Some chain, bus) \<Rightarrow> bus\<lparr>sdio_calls := sdio_calls bus @ map NetifRx chain\<rparr>)"

definition sched_if :: "u8 list list \<Rightarrow> 'd brcmf_sdio \<Rightarrow> 'd brcmf_sdio" where
  "sched_if chain bus = (if rxf_in_kthread bus \<and> chain \<noteq> [] then brcmf_sched_rxf chain bus else bus)"

subsection \<open>Handing packets on\<close>

definition pkt_align :: "nat \<Rightarrow> nat \<Rightarrow> nat \<Rightarrow> sk_buff \<Rightarrow> sk_buff" where
  "pkt_align base len align p =
     (let addr = base + length (sk_head p);
          datalign = round_up addr align - addr
      in skb_set_length len (if datalign \<noteq> 0 then skb_pull datalign p else p))"

text \<open>A packet without data is freed; the chain gathers what is handed back.\<close>

definition rx_deliver ::
    "(u8 list \<Rightarrow> bool) \<Rightarrow> bool \<Rightarrow> u8 list \<Rightarrow> u8 list list \<Rightarrow> 'd brcmf_sdio \<Rightarrow> u8 list list \<times> 'd brcmf_sdio" where
  "rx_deliver back event data chain bus =
     (if data = [] then (chain, bus)
      else if event then (chain, sdio_log (RxEvent data) bus)
      else ((if rxf_in_kthread bus \<and> back data then chain @ [data] else chain), sdio_log (RxFrame data) bus))"

definition set_rd :: "(brcmf_sdio_hdrinfo \<Rightarrow> brcmf_sdio_hdrinfo) \<Rightarrow> 'd brcmf_sdio \<Rightarrow> 'd brcmf_sdio" where
  "set_rd f bus = bus\<lparr>cur_read := f (cur_read bus)\<rparr>"

definition set_sdiodev :: "'d brcmf_sdio_dev \<Rightarrow> 'd brcmf_sdio \<Rightarrow> 'd brcmf_sdio" where
  "set_sdiodev s bus = bus\<lparr>sdiodev := s\<rparr>"

subsection \<open>Superframes\<close>

text \<open>
  The packets for the subframes of a descriptor: whether all were allocated, their number
  (8 bits) and the list. Lengths are 16 bits wide.
\<close>

fun glom_packets ::
    "'d mmc_core \<Rightarrow> u8 list \<Rightarrow> u8 \<Rightarrow> u16 \<Rightarrow> bool \<Rightarrow> 'd brcmf_sdio \<Rightarrow> bool \<times> u8 \<times> 'd brcmf_sdio" where
  "glom_packets ops (a # b # dptr) num totlen pnext bus =
     (let sublen = le16_of a b in
      if unat sublen < SDPCM_HDRLEN \<or> num = 0 \<and> unat sublen < 2 * SDPCM_HDRLEN then (False, num, bus)
      else
        let totlen = totlen + sublen;
            (sublen, totlen) =
              (if dptr = [] then (sublen + of_nat (round_up (unat totlen) (blocksize bus) - unat totlen),
                                  of_nat (round_up (unat totlen) (blocksize bus)))
               else (sublen, totlen))
        in case brcmu_pkt_buf_get_skb ops (unat sublen + sgentry_align bus) (sdiodev bus) of
             (None, s) \<Rightarrow> (False, num, set_sdiodev s bus)
           | (Some p, s) \<Rightarrow>
               glom_packets ops dptr (num + 1) totlen True
                 ((set_sdiodev s bus)\<lparr>glom := glom bus @
                    [pkt_align (kern_addr ops (dev s)) (unat sublen) (sgentry_align bus) p]\<rparr>))"
| "glom_packets ops _ num totlen pnext bus = (pnext, num, bus)"

text \<open>The descriptor is used up whatever comes of it.\<close>

definition glom_prepare :: "'d mmc_core \<Rightarrow> 'd brcmf_sdio \<Rightarrow> u8 \<times> 'd brcmf_sdio" where
  "glom_prepare ops bus =
     (case glomd bus of
        None \<Rightarrow> (0, bus)
      | Some desc \<Rightarrow>
          let dlen = (if length desc \<le> 0xFFFF then (if odd (length desc) then 0 else length desc) else 0);
              (ok, num, bus) = glom_packets ops (take dlen desc) 0 0 False bus;
              (num, bus) = (if ok then (num, bus) else (0, bus\<lparr>glom := []\<rparr>))
          in (num, set_rd (\<lambda>rd. rd\<lparr>hd_len := 0\<rparr>) (bus\<lparr>glomd := None\<rparr>)))"

definition frame_error_handle :: "'d mmc_core \<Rightarrow> 'd brcmf_sdio \<Rightarrow> u8 \<times> 'd brcmf_sdio" where
  "frame_error_handle ops bus =
     (0, set_rd (\<lambda>rd. rd\<lparr>hd_len := 0\<rparr>) ((brcmf_sdio_rxfail ops True False bus)\<lparr>glom := []\<rparr>))"

text \<open>The headers of the subframes are checked, each with the next sequence number.\<close>

fun glom_check ::
    "'d mmc_core \<Rightarrow> sk_buff list \<Rightarrow> u8 \<Rightarrow> u8 \<Rightarrow> brcmf_sdio_hdrinfo \<Rightarrow> 'd brcmf_sdio
      \<Rightarrow> (errno option \<times> u8 \<times> 'd brcmf_sdio) option" where
  "glom_check ops [] num rxseq rd bus = Some (None, num, bus)"
| "glom_check ops (p # ps) num rxseq rd bus =
     (case brcmf_sdio_hdparse ops (sk_mem p) (rd\<lparr>hd_len := of_nat (sk_len p), hd_seq_num := rxseq\<rparr>) BRCMF_SDIO_FT_SUB bus of
        None \<Rightarrow> None
      | Some (Some e, rd, bus) \<Rightarrow> Some (Some e, num + 1, bus)
      | Some (None, rd, bus) \<Rightarrow> glom_check ops ps (num + 1) (rxseq + 1) rd bus)"

fun glom_deliver ::
    "(u8 list \<Rightarrow> bool) \<Rightarrow> sk_buff list \<Rightarrow> u8 list list \<Rightarrow> 'd brcmf_sdio \<Rightarrow> (u8 list list \<times> 'd brcmf_sdio) option" where
  "glom_deliver back [] chain bus = Some (chain, bus\<lparr>glom := []\<rparr>)"
| "glom_deliver back (p # ps) chain bus = do {
     sublen \<leftarrow> get_le16 (sk_mem p) 0;
     sw \<leftarrow> get_le32 (sk_mem p) SDPCM_HWHDR_LEN;
     let q = skb_pull (unat (brcmf_sdio_getdatoffset sw)) (skb_set_length (unat sublen) p);
     let (chain, bus) = rx_deliver back (brcmf_sdio_fromevntchan sw) (skb_data q) chain bus;
     glom_deliver back ps chain bus
   }"

definition brcmf_sdio_glom_len :: "'d brcmf_sdio \<Rightarrow> nat" where
  "brcmf_sdio_glom_len bus = sum_list (map sk_len (glom bus))"

text \<open>The number of subframes consumed and the bus; \<open>None\<close> is an access outside of a packet.\<close>

definition brcmf_sdio_rxglom ::
    "'d mmc_core \<Rightarrow> (u8 list \<Rightarrow> bool) \<Rightarrow> brcmf_sdio_hdrinfo \<Rightarrow> u8 \<Rightarrow> 'd brcmf_sdio \<Rightarrow> (u8 \<times> 'd brcmf_sdio) option" where
  "brcmf_sdio_rxglom ops back rd0 rxseq bus =
     (case glom_prepare ops bus of (num, bus) \<Rightarrow>
      if glom bus = [] then Some (num, bus)
      else if brcmf_sdio_glom_len bus > 0xFFFF then Some (frame_error_handle ops bus)
      else do {
        let dlen = brcmf_sdio_glom_len bus;
        (err, ps, s) \<leftarrow> brcmf_sdiod_recv_chain ops (glom bus) dlen (sdiodev bus);
        let bus = (set_sdiodev s bus)\<lparr>glom := ps\<rparr>;
        if err \<noteq> None then Some (frame_error_handle ops bus)
        else do {
          (err, rd, bus) \<leftarrow> brcmf_sdio_hdparse ops (sk_mem (hd ps)) (rd0\<lparr>hd_seq_num := rxseq, hd_len := of_nat dlen\<rparr>)
                             BRCMF_SDIO_FT_SUPER bus;
          let bus = set_rd (\<lambda>r. r\<lparr>hd_len := push_bit 4 (hd_len_nxtfrm rd)\<rparr>) bus;
          let ps = skb_pull (unat (hd_dat_offset rd)) (hd ps) # tl ps;
          let bus = bus\<lparr>glom := ps\<rparr>;
          (err, num, bus) \<leftarrow> (if err \<noteq> None then Some (err, 0, bus) else glom_check ops ps 0 rxseq rd bus);
          if err \<noteq> None then Some (frame_error_handle ops bus)
          else do {
            (chain, bus) \<leftarrow> glom_deliver back ps [] bus;
            Some (num, sched_if chain bus)
          }
        }
      })"

subsection \<open>Control frames\<close>

text \<open>The length read after the first bytes, raised to a whole number of blocks or words.\<close>

definition control_rdlen :: "nat \<Rightarrow> 'd brcmf_sdio \<Rightarrow> nat" where
  "control_rdlen len bus =
     (let rdlen = len - BRCMF_FIRSTREAD in
      if roundup_max bus \<noteq> 0 \<and> blocksize bus \<noteq> 0 \<and> rdlen > blocksize bus then
        (let pad = blocksize bus - rdlen mod blocksize bus in
         if pad \<le> roundup_max bus \<and> pad < blocksize bus \<and> len + pad < maxctl bus then rdlen + pad else rdlen)
      else if rdlen mod head_align bus \<noteq> 0 then rdlen + (head_align bus - rdlen mod head_align bus) else rdlen)"

text \<open>The buffer is kept as the control frame, unless one is still being looked at.\<close>

definition control_gotpkt :: "u8 list \<Rightarrow> nat \<Rightarrow> nat \<Rightarrow> 'd brcmf_sdio \<Rightarrow> 'd brcmf_sdio" where
  "control_gotpkt buf len doff bus =
     (if rxctl bus \<noteq> None then sdio_log Vfree bus
      else bus\<lparr>rxctl := Some (drop doff buf), rxlen := len - doff\<rparr>)"

text \<open>
  \<open>hdr\<close> holds the bytes already read. On an error of the lengths or of the read the buffer is
  neither kept nor freed. \<open>None\<close> is a copy outside of the buffer.
\<close>

definition brcmf_sdio_read_control ::
    "'d mmc_core \<Rightarrow> bool \<Rightarrow> u8 list \<Rightarrow> nat \<Rightarrow> nat \<Rightarrow> 'd brcmf_sdio \<Rightarrow> 'd brcmf_sdio option" where
  "brcmf_sdio_read_control ops vzalloc_ok hdr len doff bus =
     (if rxblen bus = 0 \<or> \<not> vzalloc_ok then Some bus
      else do {
        let bus = sdio_log Vzalloc bus;
        first \<leftarrow> bytes_at hdr 0 BRCMF_FIRSTREAD;
        buf \<leftarrow> buf_write (replicate (rxblen bus) 0) 0 first;
        if len \<le> BRCMF_FIRSTREAD then Some (control_gotpkt buf len doff bus)
        else
          let rdlen = control_rdlen len bus in
          if rdlen + BRCMF_FIRSTREAD > maxctl bus then Some (brcmf_sdio_rxfail ops False False bus)
          else if len - doff > maxctl bus then Some (brcmf_sdio_rxfail ops False False bus)
          else do {
            (r, s) \<leftarrow> brcmf_sdiod_recv_buf ops 2 rdlen (sdiodev bus);
            let bus = set_sdiodev s bus;
            (case r of
               Inl e \<Rightarrow> Some (brcmf_sdio_rxfail ops True True bus)
             | Inr body \<Rightarrow> do {
                 buf \<leftarrow> buf_write buf BRCMF_FIRSTREAD body;
                 Some (control_gotpkt buf len doff bus)
               })
          }
      })"

text \<open>
  The reader takes at most \<open>msglen\<close> bytes and releases the frame. Whether it was woken in time is
  not modelled: without a frame the result is a time-out.
\<close>

definition brcmf_sdio_bus_rxctl ::
    "nat \<Rightarrow> 'd brcmf_sdio \<Rightarrow> ((errno + nat \<times> u8 list) \<times> 'd brcmf_sdio) option" where
  "brcmf_sdio_bus_rxctl msglen bus =
     (if sd_state (sdiodev bus) \<noteq> BRCMF_SDIOD_DATA then Some (Inl EIO, bus)
      else do {
        let n = rxlen bus;
        msg \<leftarrow> (case rxctl bus of
                 None \<Rightarrow> if n = 0 \<or> msglen = 0 then Some [] else None
               | Some frame \<Rightarrow> bytes_at frame 0 (min msglen n));
        let bus = (if rxctl bus = None then bus else sdio_log Vfree bus)\<lparr>rxctl := None, rxlen := 0\<rparr>;
        Some (if n \<noteq> 0 then Inr (n, msg) else Inl ETIMEDOUT, bus)
      })"

subsection \<open>Frame by frame\<close>

text \<open>How one turn of the loop goes on: the loop ends, the turn ends, or the turn continues.\<close>

datatype rx_next = RxBreak | RxContinue | RxGo

definition brcmf_sdio_pad :: "'d brcmf_sdio \<Rightarrow> u16 \<Rightarrow> u16" where
  "brcmf_sdio_pad bus rdlen =
     (let n = unat rdlen in
      if roundup_max bus \<noteq> 0 \<and> blocksize bus \<noteq> 0 \<and> n > blocksize bus then
        (let pad = blocksize bus - n mod blocksize bus in
         if pad \<le> roundup_max bus \<and> pad < blocksize bus \<and> n + pad + BRCMF_FIRSTREAD < MAX_RX_DATASZ
         then rdlen + of_nat pad else rdlen)
      else if n mod head_align bus \<noteq> 0 then rdlen + of_nat (head_align bus - n mod head_align bus) else rdlen)"

definition brcmf_sdio_rx_pkt_is_avail :: "'d mmc_core \<Rightarrow> 'd brcmf_sdio \<Rightarrow> bool \<times> 'd brcmf_sdio" where
  "brcmf_sdio_rx_pkt_is_avail ops bus =
     (if \<not> btsdio_active bus then (True, bus)
      else case brcmf_sdiod_readl ops (core_base bus + 0x20) (sdiodev bus) of
        ((v, err), s) \<Rightarrow> (err = None \<and> v AND push_bit 23 1 \<noteq> 0, set_sdiodev s bus))"

definition RETRYCHAN :: "u8 \<Rightarrow> bool" where
  "RETRYCHAN chan \<longleftrightarrow> chan = SDPCM_EVENT_CHANNEL"

text \<open>The next frame is as long as its predecessor said; it counts as an event until it is known.\<close>

definition next_descriptor :: "'d brcmf_sdio \<Rightarrow> 'd brcmf_sdio" where
  "next_descriptor bus =
     set_rd (\<lambda>rd. rd\<lparr>hd_len := push_bit 4 (hd_len_nxtfrm rd), hd_len_nxtfrm := 0, hd_channel := SDPCM_EVENT_CHANNEL\<rparr>) bus"

text \<open>A frame of unknown length: its first bytes are read and its header is parsed.\<close>

definition rx_header ::
    "'d mmc_core \<Rightarrow> bool \<Rightarrow> nat \<Rightarrow> 'd brcmf_sdio \<Rightarrow> (rx_next \<times> nat \<times> 'd brcmf_sdio) option" where
  "rx_header ops vzalloc_ok head_read bus = do {
     (r, s) \<leftarrow> brcmf_sdiod_recv_buf ops 2 BRCMF_FIRSTREAD (sdiodev bus);
     let bus = set_sdiodev s bus;
     (case r of
        Inl e \<Rightarrow> Some (RxContinue, head_read, brcmf_sdio_rxfail ops True True bus)
      | Inr bs \<Rightarrow> do {
          buf \<leftarrow> buf_write (rxhdr bus) 0 bs;
          let bus = bus\<lparr>rxhdr := buf\<rparr>;
          (err, rd, bus) \<leftarrow> brcmf_sdio_hdparse ops (rxhdr bus) (cur_read bus) BRCMF_SDIO_FT_NORMAL bus;
          let bus = bus\<lparr>cur_read := rd\<rparr>;
          if err \<noteq> None then Some (if \<not> rxpending bus then RxBreak else RxContinue, head_read, bus)
          else if hd_channel rd = SDPCM_CONTROL_CHANNEL then do {
            bus \<leftarrow> brcmf_sdio_read_control ops vzalloc_ok (rxhdr bus) (unat (hd_len rd)) (unat (hd_dat_offset rd)) bus;
            Some (RxContinue, head_read, next_descriptor bus)
          }
          else Some (RxGo, BRCMF_FIRSTREAD,
            set_rd (\<lambda>rd. rd\<lparr>hd_len_left := (if unat (hd_len rd) > BRCMF_FIRSTREAD then hd_len rd - 64 else 0)\<rparr>) bus)
        })
   }"

text \<open>The frame, or what is left of it, is read into a fresh packet.\<close>

definition rx_fetch ::
    "'d mmc_core \<Rightarrow> nat \<Rightarrow> 'd brcmf_sdio \<Rightarrow> (sk_buff option \<times> 'd brcmf_sdio) option" where
  "rx_fetch ops head_read bus =
     (let bus = set_rd (\<lambda>rd. rd\<lparr>hd_len_left := brcmf_sdio_pad bus (hd_len_left rd)\<rparr>) bus;
          left = unat (hd_len_left (cur_read bus));
          chan = hd_channel (cur_read bus)
      in case brcmu_pkt_buf_get_skb ops (left + head_read + head_align bus) (sdiodev bus) of
           (None, s) \<Rightarrow> Some (None, brcmf_sdio_rxfail ops False (RETRYCHAN chan) (set_sdiodev s bus))
         | (Some pkt, s) \<Rightarrow>
             (case brcmf_sdiod_recv_pkt ops 2
                     (pkt_align (kern_addr ops (dev s)) left (head_align bus) (skb_pull head_read pkt)) s of
                None \<Rightarrow> None
              | Some (Some e, pkt, s) \<Rightarrow> Some (None, brcmf_sdio_rxfail ops True (RETRYCHAN chan) (set_sdiodev s bus))
              | Some (None, pkt, s) \<Rightarrow> Some (Some pkt, set_sdiodev s bus)))"

text \<open>The header of a frame read ahead.\<close>

definition drop_ahead :: "'d mmc_core \<Rightarrow> bool \<Rightarrow> 'd brcmf_sdio \<Rightarrow> 'd brcmf_sdio" where
  "drop_ahead ops abort bus = brcmf_sdio_rxfail ops abort True (set_rd (\<lambda>rd. rd\<lparr>hd_len := 0\<rparr>) bus)"

definition rx_ahead ::
    "'d mmc_core \<Rightarrow> brcmf_sdio_hdrinfo \<Rightarrow> sk_buff \<Rightarrow> 'd brcmf_sdio \<Rightarrow> (bool \<times> 'd brcmf_sdio) option" where
  "rx_ahead ops rd0 pkt bus = do {
     bs \<leftarrow> bytes_at (sk_mem pkt) 0 SDPCM_HDRLEN;
     buf \<leftarrow> buf_write (rxhdr bus) 0 bs;
     let bus = bus\<lparr>rxhdr := buf\<rparr>;
     (err, rd, bus) \<leftarrow> brcmf_sdio_hdparse ops (rxhdr bus) (rd0\<lparr>hd_seq_num := hd_seq_num (cur_read bus)\<rparr>)
                        BRCMF_SDIO_FT_NORMAL bus;
     if err \<noteq> None then Some (False, drop_ahead ops True bus)
     else if unat (hd_len (cur_read bus)) \<noteq> round_up (unat (hd_len rd)) 16 then Some (False, drop_ahead ops True bus)
     else
       let bus = set_rd (\<lambda>r. r\<lparr>hd_len_nxtfrm := hd_len_nxtfrm rd, hd_channel := hd_channel rd,
                               hd_dat_offset := hd_dat_offset rd\<rparr>) bus
       in if hd_channel rd = SDPCM_CONTROL_CHANNEL then Some (False, drop_ahead ops False bus) else Some (True, bus)
   }"

text \<open>A descriptor is kept for the next turn, a superframe without one is an error, the rest is handed on.\<close>

definition rx_frame_done ::
    "'d mmc_core \<Rightarrow> (u8 list \<Rightarrow> bool) \<Rightarrow> sk_buff \<Rightarrow> u8 list list \<Rightarrow> 'd brcmf_sdio \<Rightarrow> (u8 list list \<times> 'd brcmf_sdio) option" where
  "rx_frame_done ops back pkt chain bus =
     (let rd = cur_read bus; pkt = skb_set_length (unat (hd_len rd)) pkt in
      if hd_channel rd = SDPCM_GLOM_CHANNEL then do {
        desc \<leftarrow> SDPCM_GLOMDESC (rxhdr bus) SDPCM_HWHDR_LEN;
        Some (chain, next_descriptor
          (if desc then bus\<lparr>glomd := Some (skb_data (skb_pull SDPCM_HDRLEN pkt))\<rparr>
           else brcmf_sdio_rxfail ops False False bus))
      }
      else
        let (chain, bus) = rx_deliver back (hd_channel rd = SDPCM_EVENT_CHANNEL)
                             (skb_data (skb_pull (unat (hd_dat_offset rd)) pkt)) chain bus
        in Some (chain, next_descriptor bus))"

text \<open>
  One turn of the loop on a frame of its own: how it goes on, the bytes of the frame in the
  header buffer and the chain.
\<close>

definition rx_one ::
    "'d mmc_core \<Rightarrow> (u8 list \<Rightarrow> bool) \<Rightarrow> bool \<Rightarrow> brcmf_sdio_hdrinfo \<Rightarrow> nat \<Rightarrow> u8 list list \<Rightarrow> 'd brcmf_sdio
      \<Rightarrow> (rx_next \<times> nat \<times> u8 list list \<times> 'd brcmf_sdio) option" where
  "rx_one ops back vzalloc_ok rd0 head_read chain bus =
     (case brcmf_sdio_rx_pkt_is_avail ops bus of
        (False, bus) \<Rightarrow> Some (RxBreak, head_read, chain, bus\<lparr>rxpending := False\<rparr>)
      | (True, bus) \<Rightarrow> do {
          let bus = set_rd (\<lambda>rd. rd\<lparr>hd_len_left := hd_len rd\<rparr>) bus;
          (nxt, head_read, bus) \<leftarrow>
            (if hd_len (cur_read bus) = 0 then rx_header ops vzalloc_ok head_read bus else Some (RxGo, head_read, bus));
          if nxt \<noteq> RxGo then Some (nxt, head_read, chain, bus)
          else do {
            (pkt, bus) \<leftarrow> rx_fetch ops head_read bus;
            (case pkt of
               None \<Rightarrow> Some (RxContinue, head_read, chain, bus)
             | Some pkt \<Rightarrow>
                 if head_read \<noteq> 0 then do {
                   pkt \<leftarrow> skb_push head_read pkt;
                   bs \<leftarrow> bytes_at (rxhdr bus) 0 head_read;
                   pkt \<leftarrow> skb_store 0 bs pkt;
                   (chain, bus) \<leftarrow> rx_frame_done ops back pkt chain bus;
                   Some (RxContinue, 0, chain, bus)
                 } else do {
                   (ok, bus) \<leftarrow> rx_ahead ops rd0 pkt bus;
                   if ok then do {
                     (chain, bus) \<leftarrow> rx_frame_done ops back pkt chain bus;
                     Some (RxContinue, 0, chain, bus)
                   } else Some (RxContinue, 0, chain, bus)
                 })
          }
        })"

text \<open>
  The loop over at most \<open>rxleft\<close> frames; a superframe counts for its subframes. The result is what
  is left of the bound, the chain and the bus.
\<close>

function rx_loop ::
    "'d mmc_core \<Rightarrow> (u8 list \<Rightarrow> bool) \<Rightarrow> bool \<Rightarrow> brcmf_sdio_hdrinfo \<Rightarrow> nat \<Rightarrow> nat \<Rightarrow> u8 list list \<Rightarrow> 'd brcmf_sdio
      \<Rightarrow> (nat \<times> u8 list list \<times> 'd brcmf_sdio) option" where
  "rx_loop ops back vzalloc_ok rd0 rxleft head_read chain bus =
     (if rxskip bus \<or> rxleft = 0 \<or> sd_state (sdiodev bus) \<noteq> BRCMF_SDIOD_DATA then Some (rxleft, chain, bus)
      else if glomd bus \<noteq> None \<or> glom bus \<noteq> [] then
        (case brcmf_sdio_rxglom ops back rd0 (hd_seq_num (cur_read bus)) bus of
           None \<Rightarrow> None
         | Some (cnt, bus) \<Rightarrow>
             rx_loop ops back vzalloc_ok rd0 ((if rxleft > unat cnt then rxleft - unat cnt else 1) - 1) head_read chain
               (set_rd (\<lambda>rd. rd\<lparr>hd_seq_num := hd_seq_num rd + (cnt - 1) + 1\<rparr>) bus))
      else
        (case rx_one ops back vzalloc_ok rd0 head_read chain bus of
           None \<Rightarrow> None
         | Some (RxBreak, head_read, chain, bus) \<Rightarrow> Some (rxleft, chain, bus)
         | Some (_, head_read, chain, bus) \<Rightarrow>
             rx_loop ops back vzalloc_ok rd0 (rxleft - 1) head_read chain
               (set_rd (\<lambda>rd. rd\<lparr>hd_seq_num := hd_seq_num rd + 1\<rparr>) bus)))"
  by pat_completeness auto

termination
  by (relation "measure (\<lambda>(ops, back, vzalloc_ok, rd0, rxleft, head_read, chain, bus). rxleft)") auto

declare rx_loop.simps [simp del]

text \<open>The frames counted and the bus.\<close>

definition brcmf_sdio_readframes ::
    "'d mmc_core \<Rightarrow> (u8 list \<Rightarrow> bool) \<Rightarrow> bool \<Rightarrow> brcmf_sdio_hdrinfo \<Rightarrow> nat \<Rightarrow> 'd brcmf_sdio \<Rightarrow> (nat \<times> 'd brcmf_sdio) option" where
  "brcmf_sdio_readframes ops back vzalloc_ok rd0 maxframes bus =
     (let bus = set_rd (\<lambda>rd. rd\<lparr>hd_seq_num := rx_seq bus\<rparr>) (bus\<lparr>rxpending := True\<rparr>) in
      case rx_loop ops back vzalloc_ok rd0 maxframes 0 [] bus of
        None \<Rightarrow> None
      | Some (rxleft, chain, bus) \<Rightarrow>
          let bus = sched_if chain bus;
              bus = (if rxskip bus then set_rd (\<lambda>rd. rd\<lparr>hd_seq_num := hd_seq_num rd - 1\<rparr>) bus else bus)
          in Some (maxframes - rxleft, bus\<lparr>rx_seq := hd_seq_num (cur_read bus)\<rparr>))"

subsection \<open>The ring is a bounded queue\<close>

text \<open>Slot \<open>k\<close> counts from the one to be sent next; the first \<open>n\<close> slots are in use.\<close>

definition rxf_slot :: "'d brcmf_sdio \<Rightarrow> nat \<Rightarrow> nat" where
  "rxf_slot bus k = adv MAXSKBPEND (unat (sent_idx bus)) k"

definition rxf_used :: "'d brcmf_sdio \<Rightarrow> nat \<Rightarrow> bool" where
  "rxf_used bus n \<longleftrightarrow>
     n \<le> MAXSKBPEND \<and> length (skbbuf bus) = MAXSKBPEND \<and> unat (sent_idx bus) < MAXSKBPEND \<and>
     unat (store_idx bus) = rxf_slot bus n \<and>
     (\<forall>k<MAXSKBPEND. skbbuf bus ! rxf_slot bus k \<noteq> None \<longleftrightarrow> k < n)"

definition rxf_count :: "'d brcmf_sdio \<Rightarrow> nat" where
  "rxf_count bus = length (filter (\<lambda>k. skbbuf bus ! rxf_slot bus k \<noteq> None) [0..<MAXSKBPEND])"

definition rxf_wf :: "'d brcmf_sdio \<Rightarrow> bool" where
  "rxf_wf bus \<longleftrightarrow> rxf_used bus (rxf_count bus)"

definition rxf_content :: "'d brcmf_sdio \<Rightarrow> u8 list list list" where
  "rxf_content bus = map (\<lambda>k. the (skbbuf bus ! rxf_slot bus k)) [0..<rxf_count bus]"

lemma rxf_count_eq: "rxf_used bus n \<Longrightarrow> rxf_count bus = n"
proof -
  assume used: "rxf_used bus n"
  then have "filter (\<lambda>k. skbbuf bus ! rxf_slot bus k \<noteq> None) [0..<MAXSKBPEND] = filter (\<lambda>k. k < n) [0..<MAXSKBPEND]"
    by (intro filter_cong) (auto simp: rxf_used_def)
  also have "\<dots> = [0..<n]"
  proof -
    have "[0..<MAXSKBPEND] = [0..<n] @ [n..<MAXSKBPEND]"
      using used by (metis add.left_neutral le_add_diff_inverse rxf_used_def upt_add_eq_append zero_le)
    then show ?thesis by simp
  qed
  finally show ?thesis by (simp add: rxf_count_def)
qed

lemma rxf_wfI: "rxf_used bus n \<Longrightarrow> rxf_wf bus \<and> rxf_count bus = n"
  using rxf_count_eq by (auto simp: rxf_wf_def)

lemma next_idx: "unat ((w + 1) AND 0x3FF :: u32) = (unat w + 1) mod 1024"
proof -
  have "(w + 1) AND 0x3FF = take_bit 10 (w + 1)" by (simp add: take_bit_eq_mask mask_eq_exp_minus_1)
  then show ?thesis
    by (simp only: unsigned_take_bit_eq) (simp add: take_bit_eq_mod unat_word_ariths mod_mod_cancel mod_simps)
qed

lemma next_slot: "a < MAXSKBPEND \<Longrightarrow> (a + 1) mod MAXSKBPEND = adv MAXSKBPEND a 1"
  by (cases "a = 1023") (auto simp: adv_def)

definition rxf_enq :: "'d brcmf_sdio \<Rightarrow> u8 list list \<Rightarrow> u8 list list option \<times> 'd brcmf_sdio" where
  "rxf_enq bus skb = (case brcmf_rxf_enqueue bus skb of (e, bus) \<Rightarrow> (if e = None then Some skb else None, bus))"

lemma rxf_enq_used:
  assumes used: "rxf_used bus n"
  shows "if n = MAXSKBPEND then rxf_enq bus skb = (None, bus)
    else \<exists>bus'. rxf_enq bus skb = (Some skb, bus') \<and> rxf_used bus' (Suc n) \<and>
      (\<forall>k<n. skbbuf bus' ! rxf_slot bus' k = skbbuf bus ! rxf_slot bus k) \<and> skbbuf bus' ! rxf_slot bus' n = Some skb"
proof -
  have s: "n \<le> 1024" "length (skbbuf bus) = 1024" "unat (sent_idx bus) < 1024" "unat (store_idx bus) = rxf_slot bus n"
    "\<And>k. k < 1024 \<Longrightarrow> (skbbuf bus ! rxf_slot bus k \<noteq> None) = (k < n)"
    using used by (auto simp: rxf_used_def)
  have slot_lt: "rxf_slot bus k < 1024" if "k \<le> 1024" for k
    unfolding rxf_slot_def by (rule adv_less [OF s(3) that])
  have slot_inj: "(rxf_slot bus i = rxf_slot bus k) = (i = k)" if "i < 1024" "k < 1024" for i k
    unfolding rxf_slot_def by (rule adv_inj [OF s(3) that])
  show ?thesis
  proof (cases "n = 1024")
    case True
    have "rxf_slot bus n = rxf_slot bus 0" using s(3) True by (simp add: rxf_slot_def adv_def)
    then have "skbbuf bus ! unat (store_idx bus) \<noteq> None" using s(4) s(5) [of 0] True by simp
    with True show ?thesis by (simp add: rxf_enq_def brcmf_rxf_enqueue_def)
  next
    case False
    then have n: "n < 1024" using s(1) by simp
    let ?bus = "bus\<lparr>skbbuf := (skbbuf bus)[rxf_slot bus n := Some skb], store_idx := (store_idx bus + 1) AND 0x3FF\<rparr>"
    have slot: "rxf_slot ?bus k = rxf_slot bus k" for k by (simp add: rxf_slot_def)
    have "skbbuf bus ! unat (store_idx bus) = None" using s(4) s(5) [OF n] by simp
    then have r: "rxf_enq bus skb = (Some skb, ?bus)"
      by (simp add: rxf_enq_def brcmf_rxf_enqueue_def s(4))
    have st: "unat (store_idx ?bus) = rxf_slot bus (Suc n)"
      using next_slot [OF slot_lt [OF s(1)]] s(3) n unfolding next_idx
      by (simp add: next_idx s(4)) (auto simp: rxf_slot_def adv_def)
    have nth: "skbbuf ?bus ! rxf_slot bus k = (if k = n then Some skb else skbbuf bus ! rxf_slot bus k)" if "k < 1024" for k
      using slot_inj [OF that n] slot_lt [of k] that s(2) by (auto simp: nth_list_update)
    have "rxf_used ?bus (Suc n)"
      unfolding rxf_used_def slot st using s(2,3) n nth s(5) by auto
    with False r nth n slot show ?thesis by auto
  qed
qed

definition rxf_deq :: "'d brcmf_sdio \<Rightarrow> u8 list list option \<times> 'd brcmf_sdio" where
  "rxf_deq bus = brcmf_rxf_dequeue bus"

lemma rxf_deq_used:
  assumes used: "rxf_used bus n"
  shows "case n of 0 \<Rightarrow> rxf_deq bus = (None, bus)
    | Suc m \<Rightarrow> \<exists>bus'. rxf_deq bus = (skbbuf bus ! rxf_slot bus 0, bus') \<and> rxf_used bus' m \<and>
        (\<forall>k<m. skbbuf bus' ! rxf_slot bus' k = skbbuf bus ! rxf_slot bus (Suc k))"
proof -
  have s: "n \<le> 1024" "length (skbbuf bus) = 1024" "unat (sent_idx bus) < 1024" "unat (store_idx bus) = rxf_slot bus n"
    "\<And>k. k < 1024 \<Longrightarrow> (skbbuf bus ! rxf_slot bus k \<noteq> None) = (k < n)"
    using used by (auto simp: rxf_used_def)
  have zero: "rxf_slot bus 0 = unat (sent_idx bus)" using s(3) by (simp add: rxf_slot_def adv_def)
  show ?thesis
  proof (cases n)
    case 0
    then have "skbbuf bus ! unat (sent_idx bus) = None" using s(5) [of 0] zero by simp
    with 0 show ?thesis by (simp add: rxf_deq_def brcmf_rxf_dequeue_def)
  next
    case (Suc m)
    let ?bus = "bus\<lparr>skbbuf := (skbbuf bus)[rxf_slot bus 0 := None], sent_idx := (sent_idx bus + 1) AND 0x3FF\<rparr>"
    have sent: "unat (sent_idx bus + 1 AND 1023) = adv 1024 (unat (sent_idx bus)) 1"
      using next_slot [OF s(3)] by (simp add: next_idx)
    have slot: "rxf_slot ?bus k = rxf_slot bus (if k = 1023 then 0 else Suc k)" if "k < 1024" for k
      using s(3) that by (auto simp: rxf_slot_def sent adv_def)
    obtain skb where skb: "skbbuf bus ! unat (sent_idx bus) = Some skb" using s(5) [of 0] zero Suc by auto
    then have r: "rxf_deq bus = (Some skb, ?bus)" by (simp add: rxf_deq_def brcmf_rxf_dequeue_def zero)
    have nth: "skbbuf ?bus ! rxf_slot ?bus k = (if k = 1023 then None else skbbuf bus ! rxf_slot bus (Suc k))" if "k < 1024" for k
    proof -
      have "rxf_slot bus (Suc k) \<noteq> rxf_slot bus 0" if "k \<noteq> 1023"
        using \<open>k < 1024\<close> that adv_inj [OF s(3), of "Suc k" 0] by (simp add: rxf_slot_def)
      then show ?thesis using slot [OF that] s(2,3) zero by auto
    qed
    have "unat (store_idx ?bus) = rxf_slot ?bus m"
      using s(1,3,4) Suc slot [of m] by (auto simp: rxf_slot_def adv_def)
    moreover have "unat (sent_idx ?bus) < 1024" using adv_less [OF s(3), of 1] by (simp add: sent)
    ultimately have "rxf_used ?bus m"
      unfolding rxf_used_def using s(1,2) nth s(5) Suc by auto
    with Suc r nth skb zero s(1) show ?thesis by auto
  qed
qed

interpretation rxf_fifo: bounded_fifo rxf_wf rxf_content "\<lambda>bus. rxf_count bus = MAXSKBPEND" rxf_enq rxf_deq
proof (unfold_locales, goal_cases)
  case (1 q p)
  then show ?case using rxf_enq_used [of q _ p] by (auto simp: rxf_wf_def)
next
  case (2 q p)
  then obtain bus' where b: "rxf_enq q p = (Some p, bus')" "rxf_used bus' (Suc (rxf_count q))"
    "\<forall>k<rxf_count q. skbbuf bus' ! rxf_slot bus' k = skbbuf q ! rxf_slot q k" "skbbuf bus' ! rxf_slot bus' (rxf_count q) = Some p"
    using rxf_enq_used [of q "rxf_count q" p] by (auto simp: rxf_wf_def)
  then show ?case by (auto simp: rxf_content_def rxf_count_eq [OF b(2)])
next
  case (3 q p)
  then have "rxf_used q (rxf_count q)" by (simp only: rxf_wf_def)
  from rxf_enq_used [OF this, of p] 3 show ?case by (auto split: if_splits dest: rxf_wfI)
next
  case (4 q)
  then have "rxf_used q 0" by (simp add: rxf_content_def rxf_wf_def)
  from rxf_deq_used [OF this] 4 show ?case by simp
next
  case (5 q p ps)
  then obtain m where m: "rxf_count q = Suc m" by (cases "rxf_count q") (auto simp: rxf_content_def)
  then have u: "rxf_used q (Suc m)" using 5 by (simp add: rxf_wf_def)
  from rxf_deq_used [OF this] obtain bus' where b: "rxf_deq q = (skbbuf q ! rxf_slot q 0, bus')" "rxf_used bus' m"
    "\<forall>k<m. skbbuf bus' ! rxf_slot bus' k = skbbuf q ! rxf_slot q (Suc k)" by auto
  have "skbbuf q ! rxf_slot q 0 \<noteq> None" using u by (simp add: rxf_used_def)
  moreover have "rxf_content q = the (skbbuf q ! rxf_slot q 0) # rxf_content bus'"
    using b(3) unfolding rxf_content_def m rxf_count_eq [OF b(2)] upt_conv_Cons [OF zero_less_Suc] map_Suc_upt [symmetric]
    by (simp del: upt_Suc)
  ultimately show ?case using b(1) 5(2) by auto
next
  case (6 q)
  then have "rxf_used q (rxf_count q)" by (simp only: rxf_wf_def)
  from rxf_deq_used [OF this] 6 show ?case by (auto split: nat.splits dest: rxf_wfI)
qed

subsection \<open>The receive thread\<close>

text \<open>Chains scheduled by the bus and turns of the thread, in any order.\<close>

definition rxf_step :: "u8 list list fifo_op \<Rightarrow> 'd brcmf_sdio \<Rightarrow> 'd brcmf_sdio" where
  "rxf_step op bus = (case op of Enq c \<Rightarrow> brcmf_sched_rxf c bus | Deq \<Rightarrow> brcmf_sdio_rxf_thread bus)"

definition scheduled :: "u8 list list fifo_op list \<Rightarrow> u8 list list list" where
  "scheduled ops = concat (map (\<lambda>op. case op of Enq c \<Rightarrow> [c] | Deq \<Rightarrow> []) ops)"

lemma rxf_calls_frame [simp]:
  "rxf_wf (bus\<lparr>sdio_calls := c\<rparr>) = rxf_wf bus" "rxf_content (bus\<lparr>sdio_calls := c\<rparr>) = rxf_content bus"
  "rxf_count (bus\<lparr>sdio_calls := c\<rparr>) = rxf_count bus"
  by (simp_all add: rxf_wf_def rxf_used_def rxf_content_def rxf_count_def rxf_slot_def)

lemma length_rxf_content [simp]: "length (rxf_content bus) = rxf_count bus"
  by (simp add: rxf_content_def)

lemma rxf_step_cases:
  assumes "rxf_wf bus"
  obtains (refused) c where "op = Enq c" "rxf_count bus = MAXSKBPEND" "rxf_wf (rxf_step op bus)"
      "rxf_content (rxf_step op bus) = rxf_content bus" "sdio_calls (rxf_step op bus) = sdio_calls bus"
    | (accepted) c where "op = Enq c" "rxf_count bus \<noteq> MAXSKBPEND" "rxf_wf (rxf_step op bus)"
      "rxf_content (rxf_step op bus) = rxf_content bus @ [c]" "sdio_calls (rxf_step op bus) = sdio_calls bus"
    | (idle) "op = Deq" "rxf_wf (rxf_step op bus)" "rxf_content bus = []" "rxf_content (rxf_step op bus) = []"
      "sdio_calls (rxf_step op bus) = sdio_calls bus"
    | (handed) c where "op = Deq" "rxf_wf (rxf_step op bus)" "rxf_content bus = c # rxf_content (rxf_step op bus)"
      "sdio_calls (rxf_step op bus) = sdio_calls bus @ map NetifRx c"
proof (cases op)
  case (Enq c)
  have calls: "sdio_calls (snd (rxf_enq bus c)) = sdio_calls bus"
    by (simp add: rxf_enq_def brcmf_rxf_enqueue_def)
  have step: "rxf_step op bus = snd (rxf_enq bus c)"
    by (simp add: Enq rxf_step_def rxf_enq_def brcmf_sched_rxf_def split: prod.split)
  show thesis
    using rxf_fifo.enq_cases [OF assms, of c] refused accepted Enq calls step by (metis snd_conv)
next
  case Deq
  have calls: "sdio_calls (snd (rxf_deq bus)) = sdio_calls bus"
    by (simp add: rxf_deq_def brcmf_rxf_dequeue_def split: option.split)
  have step: "rxf_step op bus =
      (case rxf_deq bus of (None, b) \<Rightarrow> b | (Some c, b) \<Rightarrow> b\<lparr>sdio_calls := sdio_calls b @ map NetifRx c\<rparr>)"
    by (simp add: Deq rxf_step_def brcmf_sdio_rxf_thread_def rxf_deq_def)
  show thesis
    using assms
  proof (cases rule: rxf_fifo.deq_cases)
    case (1 q')
    then show thesis using idle Deq calls step by simp
  next
    case (2 p q')
    then show thesis using handed Deq calls step by simp
  qed
qed

text \<open>
  C21: the receive thread hands the chains it was given to the stack, each once and in the order
  they were scheduled; none is lost as long as not more than the ring holds were scheduled.
\<close>

theorem receive_thread_in_order:
  assumes "rxf_wf bus"
  shows "\<exists>acc out. rxf_content bus @ acc = out @ rxf_content (fold rxf_step ops bus) \<and>
    subseq acc (scheduled ops) \<and> rxf_wf (fold rxf_step ops bus) \<and>
    sdio_calls (fold rxf_step ops bus) = sdio_calls bus @ map NetifRx (concat out) \<and>
    (rxf_count bus + length (scheduled ops) \<le> MAXSKBPEND \<longrightarrow> acc = scheduled ops)"
  using assms
proof (induction ops arbitrary: bus)
  case Nil
  then show ?case by (intro exI [of _ "[]"]) (simp add: scheduled_def)
next
  case (Cons op ops)
  from Cons.prems show ?case
  proof (cases rule: rxf_step_cases [where op = op])
    case (refused c)
    from Cons.IH [OF refused(3)] obtain acc out where "rxf_content bus @ acc = out @ rxf_content (fold rxf_step (op # ops) bus)"
      "subseq acc (scheduled ops)" "sdio_calls (fold rxf_step (op # ops) bus) = sdio_calls bus @ map NetifRx (concat out)"
      "rxf_wf (fold rxf_step (op # ops) bus)"
      using refused by auto
    with refused show ?thesis by (intro exI [of _ acc] exI [of _ out]) (auto simp: scheduled_def)
  next
    case (accepted c)
    have n: "rxf_count (rxf_step op bus) = Suc (rxf_count bus)"
      using arg_cong [OF accepted(4), of length] by simp
    from Cons.IH [OF accepted(3)] obtain acc out where
      "rxf_content bus @ c # acc = out @ rxf_content (fold rxf_step (op # ops) bus)"
      "subseq acc (scheduled ops)" "sdio_calls (fold rxf_step (op # ops) bus) = sdio_calls bus @ map NetifRx (concat out)"
      "rxf_wf (fold rxf_step (op # ops) bus)"
      "rxf_count bus + length (scheduled (op # ops)) \<le> MAXSKBPEND \<longrightarrow> acc = scheduled ops"
      using accepted n by (auto simp: scheduled_def)
    with accepted show ?thesis by (intro exI [of _ "c # acc"] exI [of _ out]) (auto simp: scheduled_def)
  next
    case idle
    have "rxf_count (rxf_step op bus) = rxf_count bus"
      using arg_cong [OF idle(3), of length] arg_cong [OF idle(4), of length] by simp
    with Cons.IH [OF idle(2)] idle show ?thesis by (auto simp: scheduled_def)
  next
    case (handed c)
    have n: "rxf_count bus = Suc (rxf_count (rxf_step op bus))"
      using arg_cong [OF handed(3), of length] by simp
    from Cons.IH [OF handed(2)] obtain acc out where
      "rxf_content bus @ acc = (c # out) @ rxf_content (fold rxf_step (op # ops) bus)"
      "subseq acc (scheduled ops)" "sdio_calls (fold rxf_step (op # ops) bus) = sdio_calls bus @ map NetifRx (concat (c # out))"
      "rxf_wf (fold rxf_step (op # ops) bus)"
      "rxf_count bus + length (scheduled (op # ops)) \<le> MAXSKBPEND \<longrightarrow> acc = scheduled ops"
      using handed n by (auto simp: scheduled_def)
    with handed show ?thesis by (intro exI [of _ acc] exI [of _ "c # out"]) (auto simp: scheduled_def)
  qed
qed

lemma sample_sdio_bus_rxf: "rxf_wf (sample_sdio_bus d)" "rxf_count (sample_sdio_bus d) = 0" "rxf_content (sample_sdio_bus d) = []"
proof -
  have "rxf_used (sample_sdio_bus d) 0"
    by (simp add: rxf_used_def rxf_slot_def sample_sdio_bus_def adv_def)
  from rxf_wfI [OF this] show "rxf_wf (sample_sdio_bus d)" "rxf_count (sample_sdio_bus d) = 0" by auto
  then show "rxf_content (sample_sdio_bus d) = []" by (simp add: rxf_content_def)
qed

theorem receive_thread_in_order_witness:
  "\<exists>bus'. fold rxf_step [Enq [[1], [2, 3]], Enq [[4]], Deq] (sample_sdio_bus ()) = bus' \<and>
    sdio_calls bus' = [NetifRx [1], NetifRx [2, 3]] \<and> rxf_content bus' = [[[4]]]"
proof -
  let ?ops = "[Enq [[1], [2, 3]], Enq [[4]], Deq] :: u8 list list fifo_op list"
  have sch: "scheduled ?ops = [[[1], [2, 3]], [[4]]]" by (simp add: scheduled_def)
  have calls: "sdio_calls (sample_sdio_bus ()) = []" by (simp add: sample_sdio_bus_def)
  obtain out where out: "[[[1], [2, 3]], [[4]]] = out @ rxf_content (fold rxf_step ?ops (sample_sdio_bus ()))"
    "sdio_calls (fold rxf_step ?ops (sample_sdio_bus ())) = map NetifRx (concat out)"
    using receive_thread_in_order [OF sample_sdio_bus_rxf(1), of "()" ?ops] unfolding sch sample_sdio_bus_rxf calls
    by (fastforce simp del: fold.simps)
  have "sdio_calls (fold rxf_step ?ops (sample_sdio_bus ())) = [NetifRx [1], NetifRx [2, 3]]"
    by (simp add: rxf_step_def sample_sdio_bus_def brcmf_sched_rxf_def brcmf_rxf_enqueue_def brcmf_sdio_rxf_thread_def brcmf_rxf_dequeue_def)
  with out show ?thesis by (auto simp: Cons_eq_append_conv simp del: fold.simps)
qed

end
