(* ===== verification/Sdio_Frames.thy ===== *)
theory Sdio_Frames
  imports Sdio_Rx
begin

section \<open>Frames arrive in order (sdio.c)\<close>

text \<open>
  What \<open>brcmf_sdio_readframes\<close> does with a card that has a queue of frames: each frame is handed
  on once and in order, whether its length was announced by its predecessor, so that it is read
  ahead, or not.
\<close>

subsection \<open>The card\<close>

text \<open>
  A read takes bytes off the frame in front; beyond the end of the frame the card pads, and the
  next read starts the next frame.
\<close>

definition frame_read :: "nat \<Rightarrow> u8 list list \<Rightarrow> u8 list \<Rightarrow> u8 list list \<Rightarrow> bool" where
  "frame_read n fs bs fs' \<longleftrightarrow>
     length bs = n \<and>
     (if n = 0 then fs' = fs
      else case fs of
             [] \<Rightarrow> fs' = []
           | f # gs \<Rightarrow> take (length f) bs = take n f \<and> fs' = (if n < length f then drop n f # gs else gs))"

lemma frame_read_rest:
  assumes "frame_read n (f # fs) bs fs'" "length f \<le> n" "0 < n"
  shows "take (length f) bs = f \<and> fs' = fs \<and> length bs = n"
  using assms by (auto simp: frame_read_def)

definition frame_queue :: "'d mmc_core \<Rightarrow> ('d \<Rightarrow> u8 list list) \<Rightarrow> bool" where
  "frame_queue ops frames \<longleftrightarrow>
     (\<forall>reg b d. \<exists>d'. mmc_writeb ops reg b d = (None, d') \<and> frames d' = frames d) \<and>
     (\<forall>a n d. \<exists>bs d'. mmc_readsb ops 2 a n d = (Inr bs, d') \<and> frame_read n (frames d) bs (frames d')) \<and>
     (\<forall>n d. \<exists>m d'. kern_alloc ops n d = (Some m, d') \<and> round4 n \<le> length m \<and> frames d' = frames d)"

lemma queue_readsb:
  assumes "frame_queue ops frames"
  obtains bs d' where "mmc_readsb ops 2 a n d = (Inr bs, d')" "frame_read n (frames d) bs (frames d')"
  using assms unfolding frame_queue_def by blast

lemma queue_alloc:
  assumes "frame_queue ops frames"
  obtains m d' where "kern_alloc ops n d = (Some m, d')" "round4 n \<le> length m" "frames d' = frames d"
  using assms unfolding frame_queue_def by blast

lemma queue_window:
  assumes "frame_queue ops frames"
  obtains d v w where "brcmf_sdiod_set_backplane_window ops a s = (None, s\<lparr>dev := d, sbwad_valid := v, sbwad := w\<rparr>)"
    "frames d = frames (dev s)"
proof -
  have "\<exists>d'. mmc_writeb ops reg b d = (None, d') \<and> frames d' = frames d" for reg b d
    using assms by (simp add: frame_queue_def)
  then show ?thesis
    by (rule window_kept [of ops frames a s]) (rule that)
qed

lemma queue_recv:
  assumes q: "frame_queue ops frames" and room: "round4 (sk_len pkt) \<le> length (sk_mem pkt)"
  obtains bs s' where "brcmf_sdiod_recv_pkt ops 2 pkt s =
      Some (None, pkt\<lparr>sk_mem := bs @ drop (round4 (sk_len pkt)) (sk_mem pkt)\<rparr>, s')"
    "frame_read (round4 (sk_len pkt)) (frames (dev s)) bs (frames (dev s'))" "sd_state s' = sd_state s"
proof -
  obtain d v w where w: "brcmf_sdiod_set_backplane_window ops (cc_base s) s = (None, s\<lparr>dev := d, sbwad_valid := v, sbwad := w\<rparr>)"
    "frames d = frames (dev s)"
    by (rule queue_window [OF q])
  obtain bs d' where r: "mmc_readsb ops 2 (window_addr (cc_base s)) (round4 (sk_len pkt)) d = (Inr bs, d')"
    "frame_read (round4 (sk_len pkt)) (frames d) bs (frames d')"
    by (rule queue_readsb [OF q])
  have "length bs = round4 (sk_len pkt)" using r(2) by (simp add: frame_read_def)
  then have "brcmf_sdiod_recv_pkt ops 2 pkt s =
      Some (None, pkt\<lparr>sk_mem := bs @ drop (round4 (sk_len pkt)) (sk_mem pkt)\<rparr>,
            s\<lparr>dev := d', sbwad_valid := v, sbwad := w\<rparr>)"
    using w(1) r(1) room
    by (simp add: brcmf_sdiod_recv_pkt_def frame_func_def brcmf_sdiod_skbuff_read_def skb_store_at_front)
  then show ?thesis using that r(2) w(2) by simp
qed

lemma queue_recv_buf:
  assumes q: "frame_queue ops frames"
  obtains bs s' where "brcmf_sdiod_recv_buf ops 2 n s = Some (Inr (take n bs), s')"
    "frame_read (round4 n) (frames (dev s)) bs (frames (dev s'))" "sd_state s' = sd_state s"
proof -
  obtain m d where a: "kern_alloc ops n (dev s) = (Some m, d)" "round4 n \<le> length m" "frames d = frames (dev s)"
    by (rule queue_alloc [OF q])
  let ?p = "\<lparr>sk_head = [], sk_mem = m, sk_len = n\<rparr>"
  obtain bs s' where r: "brcmf_sdiod_recv_pkt ops 2 ?p (s\<lparr>dev := d\<rparr>) =
      Some (None, ?p\<lparr>sk_mem := bs @ drop (round4 n) m\<rparr>, s')"
    "frame_read (round4 n) (frames d) bs (frames (dev s'))" "sd_state s' = sd_state s"
    using queue_recv [OF q, of ?p "s\<lparr>dev := d\<rparr>"] a(2) by auto
  have "n \<le> length bs" using r(2) round4_bounds(1) [of n] by (simp add: frame_read_def)
  then have "brcmf_sdiod_recv_buf ops 2 n s = Some (Inr (take n bs), s')"
    using a(1) r(1) by (simp add: brcmf_sdiod_recv_buf_def brcmu_pkt_buf_get_skb_def skb_data_def)
  then show ?thesis using that r(2,3) a(3) by simp
qed

subsection \<open>Lengths to read\<close>

definition rx_config_ok :: "'d brcmf_sdio \<Rightarrow> bool" where
  "rx_config_ok bus \<longleftrightarrow> 0 < head_align bus \<and> 4 dvd head_align bus \<and> head_align bus \<le> 4096"

lemma pad_ge:
  assumes "rx_config_ok bus" "unat n \<le> MAX_RX_DATASZ"
  shows "unat n \<le> unat (brcmf_sdio_pad bus n)"
proof -
  have grow: "unat n \<le> unat (n + of_nat k)" if "k \<le> 4096" for k
  proof -
    have "unat (of_nat k :: u16) = k" using that by (simp add: unat_of_nat_u16)
    then have "unat (n + of_nat k) = unat n + k" using that assms(2) by (subst unat_add_lem [THEN iffD1]) auto
    then show ?thesis by simp
  qed
  have "head_align bus - unat n mod head_align bus \<le> 4096" using assms(1) by (auto simp: rx_config_ok_def)
  then show ?thesis
    using grow by (auto simp: brcmf_sdio_pad_def Let_def simp del: of_nat_diff)
qed

lemma pad_zero: "brcmf_sdio_pad bus 0 = 0"
  by (simp add: brcmf_sdio_pad_def)

lemma round_up_less: "0 < k \<Longrightarrow> n \<le> round_up n k \<and> round_up n k - n < k"
proof -
  assume k: "0 < k"
  have "(n + (k - 1)) div k * k = n + (k - 1) - (n + (k - 1)) mod k" by (simp add: minus_mod_eq_div_mult [symmetric])
  moreover have "(n + (k - 1)) mod k < k" using k by simp
  ultimately show ?thesis using k unfolding round_up_def by linarith
qed

text \<open>A fetch: the packet has room in front for the bytes read before.\<close>

lemma fetch_queue:
  assumes q: "frame_queue ops frames" and cfg: "rx_config_ok bus" and h: "4 dvd h"
    and bus: "cur_read bus = rd" "sdiodev bus = s"
  defines "left \<equiv> brcmf_sdio_pad bus (hd_len_left rd)"
  obtains pkt bs rest s' where
    "rx_fetch ops h bus = Some (Some pkt, bus\<lparr>cur_read := rd\<lparr>hd_len_left := left\<rparr>, sdiodev := s'\<rparr>)"
    "h \<le> length (sk_head pkt)" "sk_mem pkt = bs @ rest"
    "frame_read (round4 (unat left)) (frames (dev s)) bs (frames (dev s'))" "sd_state s' = sd_state s"
proof -
  let ?a = "head_align bus" and ?l = "unat left"
  obtain m d where m: "kern_alloc ops (?l + h + ?a) (dev s) = (Some m, d)" "round4 (?l + h + ?a) \<le> length m"
    "frames d = frames (dev s)"
    by (rule queue_alloc [OF q])
  have a: "0 < ?a" "4 dvd ?a" using cfg by (simp_all add: rx_config_ok_def)
  let ?p = "skb_pull h \<lparr>sk_head = [], sk_mem = m, sk_len = ?l + h + ?a\<rparr>"
  define p where "p = pkt_align (kern_addr ops d) ?l ?a ?p"
  have "round4 (?l + h + ?a) = h + ?a + round4 ?l"
    using round4_add [of "h + ?a" ?l] h a(2) by (simp add: add.commute add.left_commute)
  then have room: "h + ?a + round4 ?l \<le> length m" using m(2) by simp
  define k where "k = round_up (kern_addr ops d + h) ?a - (kern_addr ops d + h)"
  have k: "k < ?a" using round_up_less [OF a(1)] by (simp add: k_def)
  have p1: "?p = \<lparr>sk_head = take h m, sk_mem = drop h m, sk_len = ?l + ?a\<rparr>" by (simp add: skb_pull_def)
  have k': "round_up (kern_addr ops d + length (take h m)) ?a - (kern_addr ops d + length (take h m)) = k"
    using room by (simp add: k_def min_absorb2)
  have p_eq: "p = \<lparr>sk_head = take (h + k) m, sk_mem = drop (h + k) m, sk_len = ?l\<rparr>"
    unfolding p_def p1 pkt_align_def Let_def sk_buff.select_convs k'
    using k by (simp add: skb_pull_def skb_set_length_def take_add add.commute)
  have "round4 (sk_len p) \<le> length (sk_mem p)" using room k by (simp add: p_eq)
  then obtain bs s' where r: "brcmf_sdiod_recv_pkt ops 2 p (s\<lparr>dev := d\<rparr>) =
      Some (None, p\<lparr>sk_mem := bs @ drop (round4 (sk_len p)) (sk_mem p)\<rparr>, s')"
    "frame_read (round4 (sk_len p)) (frames d) bs (frames (dev s'))" "sd_state s' = sd_state s"
    using queue_recv [OF q, of p "s\<lparr>dev := d\<rparr>"] by auto
  have "rx_fetch ops h bus = Some (Some (p\<lparr>sk_mem := bs @ drop (round4 (sk_len p)) (sk_mem p)\<rparr>),
      bus\<lparr>cur_read := rd\<lparr>hd_len_left := left\<rparr>, sdiodev := s'\<rparr>)"
    using m(1) r(1) bus
    by (simp add: rx_fetch_def Let_def set_rd_def set_sdiodev_def brcmu_pkt_buf_get_skb_def left_def [symmetric] p_def)
  moreover have "h \<le> length (sk_head p)" using room k by (simp add: p_eq)
  ultimately show ?thesis using that r(2,3) m(3) by (simp add: p_eq)
qed

subsection \<open>Frames\<close>

text \<open>Events and data; \<open>fr_doff\<close> is where the payload begins, \<open>fr_nxt\<close> the length of the next frame in units of 16.\<close>

record sdio_frame =
  fr_seq :: u8
  fr_chan :: u8
  fr_nxt :: u8
  fr_doff :: u8
  fr_fc :: u8
  fr_wnd :: u8
  fr_body :: "u8 list"

definition fr_len :: "sdio_frame \<Rightarrow> nat" where
  "fr_len f = SDPCM_HDRLEN + length (fr_body f)"

definition frame_bytes :: "sdio_frame \<Rightarrow> u8 list" where
  "frame_bytes f =
     sdpcm_header (of_nat (fr_len f)) (fr_seq f) (fr_chan f) (fr_nxt f) (fr_doff f) (fr_fc f) (fr_wnd f) @ fr_body f"

definition frame_ok :: "sdio_frame \<Rightarrow> bool" where
  "frame_ok f \<longleftrightarrow>
     fr_len f \<le> MAX_RX_DATASZ \<and> (fr_chan f = SDPCM_EVENT_CHANNEL \<or> fr_chan f = SDPCM_DATA_CHANNEL) \<and>
     SDPCM_HDRLEN \<le> unat (fr_doff f) \<and> unat (fr_doff f) < fr_len f"

text \<open>What is handed on for a frame; \<open>junk\<close> are bytes of padding behind it.\<close>

definition handed_on :: "sdio_frame \<Rightarrow> u8 list \<Rightarrow> sdio_call" where
  "handed_on f junk =
     (if fr_chan f = SDPCM_EVENT_CHANNEL then RxEvent else RxFrame) (drop (unat (fr_doff f)) (frame_bytes f) @ junk)"

lemma length_frame_bytes [simp]: "length (frame_bytes f) = fr_len f"
  by (simp add: frame_bytes_def fr_len_def sdpcm_header_def)

lemma fr_len_ge [simp]: "SDPCM_HDRLEN \<le> fr_len f"
  by (simp add: fr_len_def)

lemma fr_len_word: "frame_ok f \<Longrightarrow> unat (of_nat (fr_len f) :: u16) = fr_len f"
  by (simp add: frame_ok_def unat_of_nat_u16)

lemma parse_front:
  assumes len: "fr_len f < 65536" "SDPCM_HDRLEN \<le> unat (fr_doff f)" "unat (fr_doff f) \<le> fr_len f"
    and chan: "fr_chan f AND 0xf = fr_chan f" "fr_len f \<le> MAX_RX_DATASZ \<or> fr_chan f = SDPCM_CONTROL_CHANNEL"
    and m: "take SDPCM_HDRLEN m = take SDPCM_HDRLEN (frame_bytes f)"
  shows "brcmf_sdio_hdparse ops m rd BRCMF_SDIO_FT_NORMAL bus =
    Some (None, (read_header (of_nat (fr_len f)) (fr_seq f) (fr_chan f) (fr_doff f) rd)\<lparr>hd_len_nxtfrm := next_frame (fr_nxt f)\<rparr>,
          bus\<lparr>flowcontrol := fr_fc f, tx_max := window_after (tx_seq bus) (fr_wnd f)\<rparr>)"
proof -
  let ?h = "sdpcm_header (of_nat (fr_len f)) (fr_seq f) (fr_chan f) (fr_nxt f) (fr_doff f) (fr_fc f) (fr_wnd f)"
  have "take SDPCM_HDRLEN m = ?h" using m by (simp add: frame_bytes_def sdpcm_header_def)
  then have "m = ?h @ drop SDPCM_HDRLEN m" by (metis append_take_drop_id)
  moreover have "unat (of_nat (fr_len f) :: u16) = fr_len f" using len(1) by (simp add: unat_of_nat_u16)
  moreover from this have "frame_fits BRCMF_SDIO_FT_NORMAL (blocksize bus) (hd_len rd) (of_nat (fr_len f)) (fr_chan f)"
    using chan(2) by (simp add: frame_fits_def)
  ultimately show ?thesis
    using header_parsed [of "fr_doff f" "of_nat (fr_len f)" "fr_chan f" BRCMF_SDIO_FT_NORMAL bus rd ops "fr_seq f" "fr_nxt f"
        "fr_fc f" "fr_wnd f" "drop SDPCM_HDRLEN m"] len chan(1)
    by simp
qed

lemma frame_ok_front:
  assumes "frame_ok f"
  shows "fr_len f < 65536" "SDPCM_HDRLEN \<le> unat (fr_doff f)" "unat (fr_doff f) \<le> fr_len f"
    "fr_chan f AND 0xf = fr_chan f" "fr_len f \<le> MAX_RX_DATASZ \<or> fr_chan f = SDPCM_CONTROL_CHANNEL"
  using assms by (auto simp: frame_ok_def)

lemma frame_done:
  assumes f: "frame_ok f" and rd: "hd_channel (cur_read bus) = fr_chan f" "hd_dat_offset (cur_read bus) = fr_doff f"
    and pkt: "take (unat (hd_len (cur_read bus))) (sk_mem pkt) = frame_bytes f @ junk"
      "unat (hd_len (cur_read bus)) = fr_len f + length junk"
  shows "\<exists>chain'. rx_frame_done ops back pkt chain bus = Some (chain', next_descriptor (sdio_log (handed_on f junk) bus))"
proof -
  have doff: "unat (fr_doff f) < fr_len f" using f by (simp add: frame_ok_def)
  have "skb_data (skb_pull (unat (fr_doff f)) (skb_set_length (unat (hd_len (cur_read bus))) pkt)) =
      drop (unat (fr_doff f)) (frame_bytes f) @ junk"
    using doff pkt skb_pull_data [of "unat (fr_doff f)" "skb_set_length (unat (hd_len (cur_read bus))) pkt"]
    by (simp add: skb_set_length_def) (simp add: skb_data_def)
  moreover have "drop (unat (fr_doff f)) (frame_bytes f) \<noteq> []" using doff by simp
  ultimately show ?thesis
    using f rd
    by (auto simp: rx_frame_done_def Let_def rx_deliver_def handed_on_def frame_ok_def)
qed

lemma queue_first_bytes:
  assumes q: "frame_queue ops frames" and front: "frames (dev s) = frame_bytes f # fs"
  obtains bs s1 where "brcmf_sdiod_recv_buf ops 2 64 s = Some (Inr bs, s1)" "sd_state s1 = sd_state s"
    "length bs = 64" "take (fr_len f) bs = take 64 (frame_bytes f)"
    "frames (dev s1) = (if 64 < fr_len f then drop 64 (frame_bytes f) # fs else fs)"
proof -
  have r4: "round4 64 = 64" by (simp add: round4_def)
  obtain bs s1 where "brcmf_sdiod_recv_buf ops 2 64 s = Some (Inr (take 64 bs), s1)"
    "frame_read 64 (frame_bytes f # fs) bs (frames (dev s1))" "sd_state s1 = sd_state s"
    by (rule queue_recv_buf [OF q, of 64 s]) (use front r4 in auto)
  with that [of bs s1] show ?thesis by (simp add: frame_read_def)
qed

subsection \<open>One turn of the loop\<close>

definition rx_ready :: "'d brcmf_sdio \<Rightarrow> bool" where
  "rx_ready bus \<longleftrightarrow>
     rx_config_ok bus \<and> \<not> rxskip bus \<and> glomd bus = None \<and> glom bus = [] \<and> \<not> btsdio_active bus \<and>
     sd_state (sdiodev bus) = BRCMF_SDIOD_DATA \<and> BRCMF_FIRSTREAD \<le> length (rxhdr bus)"

definition announced :: "u16 \<Rightarrow> sdio_frame \<Rightarrow> bool" where
  "announced n f \<longleftrightarrow> n = 0 \<or> unat n = round_up (fr_len f) 16"

definition announces :: "sdio_frame \<Rightarrow> u16" where
  "announces f = push_bit 4 (next_frame (fr_nxt f))"

text \<open>The bytes in the buffer begin with the header of the frame in front.\<close>

lemma read_front:
  assumes "take (fr_len f) bs = take n (frame_bytes f)" "SDPCM_HDRLEN \<le> n"
  shows "take SDPCM_HDRLEN bs = take SDPCM_HDRLEN (frame_bytes f)"
proof -
  have "take SDPCM_HDRLEN bs = take SDPCM_HDRLEN (take (fr_len f) bs)" using fr_len_ge by (simp add: min_absorb1)
  also have "\<dots> = take SDPCM_HDRLEN (frame_bytes f)" using assms by (simp add: min_absorb1)
  finally show ?thesis .
qed

lemma push_store:
  assumes "h \<le> length (sk_head pkt)" "length bs = h"
  obtains pkt1 pkt2 where "skb_push h pkt = Some pkt1" "skb_store 0 bs pkt1 = Some pkt2" "sk_mem pkt2 = bs @ sk_mem pkt"
proof -
  let ?p = "pkt\<lparr>sk_head := take (length (sk_head pkt) - h) (sk_head pkt),
      sk_mem := drop (length (sk_head pkt) - h) (sk_head pkt) @ sk_mem pkt, sk_len := sk_len pkt + h\<rparr>"
  have "skb_push h pkt = Some ?p" using assms(1) by (simp add: skb_push_def skb_headroom_def Let_def)
  moreover have "skb_store 0 bs ?p = Some (?p\<lparr>sk_mem := bs @ sk_mem pkt\<rparr>)"
    using assms by (simp add: skb_store_at_front)
  ultimately show ?thesis using that by simp
qed

text \<open>A frame of unknown length: the header comes first.\<close>

lemma turn_header:
  assumes q: "frame_queue ops frames" and ready: "rx_ready bus" and f: "frame_ok f"
    and front: "frames (dev (sdiodev bus)) = frame_bytes f # fs" and unknown: "hd_len (cur_read bus) = 0"
  obtains chain' bus' where "rx_one ops back v rd0 0 chain bus = Some (RxContinue, 0, chain', bus')" "rx_ready bus'"
    "frames (dev (sdiodev bus')) = fs" "hd_len (cur_read bus') = announces f"
    "sdio_calls bus' = sdio_calls bus @ [handed_on f []]"
proof -
  have r: "rx_config_ok bus" "\<not> btsdio_active bus" "BRCMF_FIRSTREAD \<le> length (rxhdr bus)"
    using ready by (simp_all add: rx_ready_def)
  have len: "unat (of_nat (fr_len f) :: u16) = fr_len f" "fr_len f \<le> 2048"
    using f fr_len_word by (auto simp: frame_ok_def)
  obtain bs s1 where b: "brcmf_sdiod_recv_buf ops 2 64 (sdiodev bus) = Some (Inr bs, s1)"
    "sd_state s1 = sd_state (sdiodev bus)"
    and bs: "length bs = 64" "take (fr_len f) bs = take 64 (frame_bytes f)"
    "frames (dev s1) = (if 64 < fr_len f then drop 64 (frame_bytes f) # fs else fs)"
    by (rule queue_first_bytes [OF q front])
  define hdr where "hdr = bs @ drop 64 (rxhdr bus)"
  define left where "left = (if fr_len f > 64 then of_nat (fr_len f) - 64 else 0 :: u16)"
  have left: "unat left = fr_len f - 64"
  proof (cases "fr_len f > 64")
    case True
    then have "unat (of_nat (fr_len f) - 64 :: u16) = fr_len f - 64"
      using len(1) by (subst unat_sub) (auto simp: word_le_nat_alt)
    with True show ?thesis by (simp add: left_def)
  qed (simp add: left_def)
  let ?rd = "(read_header (of_nat (fr_len f)) (fr_seq f) (fr_chan f) (fr_doff f)
      ((cur_read bus)\<lparr>hd_len_left := 0\<rparr>))\<lparr>hd_len_nxtfrm := next_frame (fr_nxt f), hd_len_left := left\<rparr>"
  define bus1 where "bus1 = bus\<lparr>cur_read := ?rd, sdiodev := s1, rxhdr := hdr, flowcontrol := fr_fc f,
      tx_max := window_after (tx_seq bus) (fr_wnd f)\<rparr>"
  have "take SDPCM_HDRLEN hdr = take SDPCM_HDRLEN (frame_bytes f)"
    using read_front [OF bs(2)] bs(1) by (simp add: hdr_def)
  note parse = parse_front [OF frame_ok_front [OF f] this]
  have head: "rx_header ops v 0 (set_rd (\<lambda>rd. rd\<lparr>hd_len_left := hd_len rd\<rparr>) bus) = Some (RxGo, 64, bus1)"
    using b(1) bs(1) r(3) unknown f len
    by (auto simp: rx_header_def set_sdiodev_def set_rd_def buf_write_def hdr_def [symmetric] parse read_header_def Let_def
        bus1_def left_def frame_ok_def)
  have h: "4 dvd (64 :: nat)" by simp
  have rd1: "cur_read bus1 = ?rd" "sdiodev bus1 = s1" "hd_len_left ?rd = left" by (simp_all add: bus1_def)
  have cfg: "rx_config_ok bus1" using r(1) by (simp add: bus1_def rx_config_ok_def)
  define full where "full = brcmf_sdio_pad bus1 left"
  have full: "fr_len f - 64 \<le> unat full" using pad_ge [OF cfg, of left] left len(2) by (simp add: full_def)
  obtain pkt bs2 rest s2 where p:
    "rx_fetch ops 64 bus1 = Some (Some pkt, bus1\<lparr>cur_read := ?rd\<lparr>hd_len_left := full\<rparr>, sdiodev := s2\<rparr>)"
    "64 \<le> length (sk_head pkt)" "sk_mem pkt = bs2 @ rest"
    "frame_read (round4 (unat full)) (frames (dev s1)) bs2 (frames (dev s2))" "sd_state s2 = sd_state s1"
    by (rule fetch_queue [OF q cfg h rd1(1,2)]) (auto simp: rd1(3) full_def)
  have got: "take (fr_len f - 64) bs2 = drop 64 (frame_bytes f)" "frames (dev s2) = fs"
  proof -
    have "frames (dev s2) = fs \<and> take (fr_len f - 64) bs2 = drop 64 (frame_bytes f)"
    proof (cases "64 < fr_len f")
      case True
      then have "frame_read (round4 (unat full)) (drop 64 (frame_bytes f) # fs) bs2 (frames (dev s2))" using p(4) bs(3) by simp
      from frame_read_rest [OF this] show ?thesis using full True round4_bounds(1) [of "unat full"] by simp
    next
      case False
      then have "full = 0" by (simp add: full_def left_def pad_zero)
      with False p(4) bs(3) show ?thesis by (simp add: frame_read_def round4_def)
    qed
    then show "take (fr_len f - 64) bs2 = drop 64 (frame_bytes f)" "frames (dev s2) = fs" by simp_all
  qed
  obtain pkt1 pkt2 where push: "skb_push 64 pkt = Some pkt1" "skb_store 0 bs pkt1 = Some pkt2" "sk_mem pkt2 = bs @ bs2 @ rest"
    using push_store [OF p(2) bs(1)] p(3) by metis
  have "length bs2 = round4 (unat full)" using p(4) by (simp add: frame_read_def)
  then have mem: "take (fr_len f) (sk_mem pkt2) = frame_bytes f"
    using bs(1,2) got(1) full round4_bounds(1) [of "unat full"] push(3)
    by (cases "fr_len f \<le> 64") (auto simp: append_take_drop_id)
  define bus2 where "bus2 = bus1\<lparr>cur_read := ?rd\<lparr>hd_len_left := full\<rparr>, sdiodev := s2\<rparr>"
  have rd2: "hd_channel (cur_read bus2) = fr_chan f" "hd_dat_offset (cur_read bus2) = fr_doff f"
    "unat (hd_len (cur_read bus2)) = fr_len f"
    using len(1) by (simp_all add: bus2_def read_header_def)
  obtain chain' where fin: "rx_frame_done ops back pkt2 chain bus2 = Some (chain', next_descriptor (sdio_log (handed_on f []) bus2))"
    using frame_done [OF f rd2(1,2), of pkt2 "[]" ops "back" chain] rd2(3) mem by auto
  have "bytes_at (rxhdr bus2) 0 64 = Some bs"
    using bs(1) by (simp add: bus2_def bus1_def hdr_def bytes_at_def)
  then have "rx_one ops back v rd0 0 chain bus = Some (RxContinue, 0, chain', next_descriptor (sdio_log (handed_on f []) bus2))"
    using head r(2) unknown p(1) [folded bus2_def] push(1,2) fin
    by (simp add: rx_one_def brcmf_sdio_rx_pkt_is_avail_def set_rd_def)
  moreover have "rx_ready (next_descriptor (sdio_log (handed_on f []) bus2))"
    using ready b(2) p(5) bs(1)
    by (simp add: rx_ready_def next_descriptor_def set_rd_def sdio_log_def bus2_def bus1_def rx_config_ok_def hdr_def)
  ultimately show ?thesis
    using that got(2)
    by (simp add: next_descriptor_def set_rd_def sdio_log_def bus2_def bus1_def announces_def)
qed

text \<open>A frame of announced length: it is read whole and its header compared.\<close>

lemma turn_ahead:
  assumes q: "frame_queue ops frames" and ready: "rx_ready bus" and f: "frame_ok f"
    and front: "frames (dev (sdiodev bus)) = frame_bytes f # fs" and known: "hd_len (cur_read bus) \<noteq> 0"
    and len: "unat (hd_len (cur_read bus)) = round_up (fr_len f) 16"
  obtains chain' bus' junk where "rx_one ops back v rd0 0 chain bus = Some (RxContinue, 0, chain', bus')" "rx_ready bus'"
    "frames (dev (sdiodev bus')) = fs" "hd_len (cur_read bus') = announces f"
    "sdio_calls bus' = sdio_calls bus @ [handed_on f junk]" "length junk = round_up (fr_len f) 16 - fr_len f"
proof -
  have r: "rx_config_ok bus" "\<not> btsdio_active bus" "BRCMF_FIRSTREAD \<le> length (rxhdr bus)"
    using ready by (simp_all add: rx_ready_def)
  have flen: "unat (of_nat (fr_len f) :: u16) = fr_len f" "fr_len f \<le> 2048"
    using f fr_len_word by (auto simp: frame_ok_def)
  let ?n = "round_up (fr_len f) 16"
  have n: "fr_len f \<le> ?n" "?n \<le> 2048"
    using round_up_less [of 16 "fr_len f"] flen(2) by (auto simp: round_up_def)
  let ?rd = "(cur_read bus)\<lparr>hd_len_left := hd_len (cur_read bus)\<rparr>"
  define bus1 where "bus1 = bus\<lparr>cur_read := ?rd\<rparr>"
  have rd1: "cur_read bus1 = ?rd" "sdiodev bus1 = sdiodev bus" by (simp_all add: bus1_def)
  have cfg: "rx_config_ok bus1" using r(1) by (simp add: bus1_def rx_config_ok_def)
  define full where "full = brcmf_sdio_pad bus1 (hd_len (cur_read bus))"
  have full: "?n \<le> unat full" using pad_ge [OF cfg, of "hd_len (cur_read bus)"] len n by (simp add: full_def)
  have h: "4 dvd (0 :: nat)" by simp
  obtain pkt bs rest s2 where p:
    "rx_fetch ops 0 bus1 = Some (Some pkt, bus1\<lparr>cur_read := ?rd\<lparr>hd_len_left := full\<rparr>, sdiodev := s2\<rparr>)"
    "sk_mem pkt = bs @ rest"
    "frame_read (round4 (unat full)) (frames (dev (sdiodev bus))) bs (frames (dev s2))" "sd_state s2 = sd_state (sdiodev bus)"
    by (rule fetch_queue [OF q cfg h rd1]) (auto simp: full_def)
  have big: "?n \<le> round4 (unat full)" "fr_len f \<le> round4 (unat full)" "0 < round4 (unat full)"
    using full n round4_bounds(1) [of "unat full"] fr_len_ge [of f] by linarith+
  have got: "take (fr_len f) bs = frame_bytes f" "frames (dev s2) = fs" "length bs = round4 (unat full)"
    using frame_read_rest [of _ "frame_bytes f" fs bs "frames (dev s2)"] p(3) big front by auto
  define junk where "junk = take (?n - fr_len f) (drop (fr_len f) bs)"
  have junk: "length junk = ?n - fr_len f" using got(3) big by (simp add: junk_def)
  have mem: "take ?n (sk_mem pkt) = frame_bytes f @ junk"
  proof -
    have "take ?n (sk_mem pkt) = take ?n bs" using p(2) got(3) big by simp
    also have "\<dots> = take (fr_len f) bs @ junk"
      using n(1) unfolding junk_def by (metis le_add_diff_inverse take_add)
    finally show ?thesis using got(1) by simp
  qed
  define hdr where "hdr = take SDPCM_HDRLEN bs @ drop SDPCM_HDRLEN (rxhdr bus)"
  have front12: "take SDPCM_HDRLEN bs = take SDPCM_HDRLEN (frame_bytes f)"
    using read_front [of f bs "fr_len f"] got(1) by simp
  have bs12: "length (take SDPCM_HDRLEN bs) = SDPCM_HDRLEN" unfolding front12 by (simp add: min_absorb2)
  then have "take SDPCM_HDRLEN hdr = take SDPCM_HDRLEN (frame_bytes f)"
    using front12 by (simp add: hdr_def)
  note parse = parse_front [OF frame_ok_front [OF f] this]
  define bus2 where "bus2 = bus1\<lparr>cur_read := ?rd\<lparr>hd_len_left := full, hd_len_nxtfrm := next_frame (fr_nxt f),
        hd_channel := fr_chan f, hd_dat_offset := fr_doff f\<rparr>, sdiodev := s2, rxhdr := hdr, flowcontrol := fr_fc f,
      tx_max := window_after (tx_seq bus) (fr_wnd f)\<rparr>"
  have read12: "bytes_at (sk_mem pkt) 0 SDPCM_HDRLEN = Some (take SDPCM_HDRLEN bs)"
  proof -
    have "SDPCM_HDRLEN \<le> length bs" using got(3) big(2) fr_len_ge [of f] by linarith
    then show ?thesis using p(2) by (simp add: bytes_at_def)
  qed
  have write12: "buf_write (rxhdr bus) 0 (take SDPCM_HDRLEN bs) = Some hdr"
    using bs12 r(3) by (simp add: buf_write_def hdr_def)
  have ahead: "rx_ahead ops rd0 pkt (bus1\<lparr>cur_read := ?rd\<lparr>hd_len_left := full\<rparr>, sdiodev := s2\<rparr>) = Some (True, bus2)"
    using read12 write12 f len flen
    by (auto simp: rx_ahead_def bus1_def parse read_header_def set_rd_def bus2_def Let_def frame_ok_def)
  have rd2: "hd_channel (cur_read bus2) = fr_chan f" "hd_dat_offset (cur_read bus2) = fr_doff f"
    "unat (hd_len (cur_read bus2)) = ?n"
    using len by (simp_all add: bus2_def)
  obtain chain' where fin: "rx_frame_done ops back pkt chain bus2 = Some (chain', next_descriptor (sdio_log (handed_on f junk) bus2))"
    using frame_done [OF f rd2(1,2), of pkt junk ops "back" chain] rd2(3) mem junk n(1) by auto
  have "rx_one ops back v rd0 0 chain bus = Some (RxContinue, 0, chain', next_descriptor (sdio_log (handed_on f junk) bus2))"
    using r(2) known p(1) ahead fin
    by (simp add: rx_one_def brcmf_sdio_rx_pkt_is_avail_def set_rd_def bus1_def [symmetric])
  moreover have "rx_ready (next_descriptor (sdio_log (handed_on f junk) bus2))"
    using ready p(4) bs12
    by (simp add: rx_ready_def next_descriptor_def set_rd_def sdio_log_def bus2_def bus1_def rx_config_ok_def hdr_def)
  ultimately show ?thesis
    using that got(2) junk
    by (simp add: next_descriptor_def set_rd_def sdio_log_def bus2_def bus1_def announces_def)
qed

subsection \<open>The loop\<close>

text \<open>
  A sequence of frames, the length announced for the first one (0 when none was) and what was
  handed on.
\<close>

fun all_announced :: "u16 \<Rightarrow> sdio_frame list \<Rightarrow> bool" where
  "all_announced n [] = True"
| "all_announced n (f # fs) = (announced n f \<and> all_announced (announces f) fs)"

fun handed_on_all :: "u16 \<Rightarrow> sdio_frame list \<Rightarrow> sdio_call list \<Rightarrow> bool" where
  "handed_on_all n [] cs = (cs = [])"
| "handed_on_all n (f # fs) cs =
     (\<exists>junk cs'. cs = handed_on f junk # cs' \<and>
        length junk = (if n = 0 then 0 else round_up (fr_len f) 16 - fr_len f) \<and> handed_on_all (announces f) fs cs')"

lemma turn:
  assumes "frame_queue ops frames" "rx_ready bus" "frame_ok f" "frames (dev (sdiodev bus)) = frame_bytes f # fs"
    and "announced (hd_len (cur_read bus)) f"
  obtains chain' bus' junk where "rx_one ops back v rd0 0 chain bus = Some (RxContinue, 0, chain', bus')" "rx_ready bus'"
    "frames (dev (sdiodev bus')) = fs" "hd_len (cur_read bus') = announces f"
    "sdio_calls bus' = sdio_calls bus @ [handed_on f junk]"
    "length junk = (if hd_len (cur_read bus) = 0 then 0 else round_up (fr_len f) 16 - fr_len f)"
proof (cases "hd_len (cur_read bus) = 0")
  case True
  show ?thesis
    by (rule turn_header [OF assms(1-4) True]) (use that True in force)
next
  case False
  then have "unat (hd_len (cur_read bus)) = round_up (fr_len f) 16" using assms(5) by (simp add: announced_def)
  then show ?thesis
    by (rule turn_ahead [OF assms(1-4) False]) (use that False in force)
qed

lemma rx_loop_delivers:
  assumes q: "frame_queue ops frames"
  shows "rx_ready bus \<Longrightarrow> frames (dev (sdiodev bus)) = map frame_bytes fs @ later \<Longrightarrow> \<forall>f\<in>set fs. frame_ok f \<Longrightarrow>
    all_announced (hd_len (cur_read bus)) fs \<Longrightarrow>
    \<exists>chain' bus' cs. rx_loop ops back v rd0 (length fs) 0 chain bus = Some (0, chain', bus') \<and> rx_ready bus' \<and>
      sdio_calls bus' = sdio_calls bus @ cs \<and> handed_on_all (hd_len (cur_read bus)) fs cs \<and>
      frames (dev (sdiodev bus')) = later"
proof (induction fs arbitrary: bus chain)
  case Nil
  then show ?case by (subst rx_loop.simps) simp
next
  case (Cons f fs)
  have f: "frame_ok f" "announced (hd_len (cur_read bus)) f"
    "frames (dev (sdiodev bus)) = frame_bytes f # map frame_bytes fs @ later"
    using Cons.prems by simp_all
  obtain chain1 bus1 junk where t: "rx_one ops back v rd0 0 chain bus = Some (RxContinue, 0, chain1, bus1)" "rx_ready bus1"
    "frames (dev (sdiodev bus1)) = map frame_bytes fs @ later" "hd_len (cur_read bus1) = announces f"
    "sdio_calls bus1 = sdio_calls bus @ [handed_on f junk]"
    "length junk = (if hd_len (cur_read bus) = 0 then 0 else round_up (fr_len f) 16 - fr_len f)"
    by (rule turn [OF q Cons.prems(1) f(1,3,2)])
  let ?bus = "set_rd (\<lambda>rd. rd\<lparr>hd_seq_num := hd_seq_num rd + 1\<rparr>) bus1"
  have b: "rx_ready ?bus" "frames (dev (sdiodev ?bus)) = map frame_bytes fs @ later" "hd_len (cur_read ?bus) = announces f"
    "sdio_calls ?bus = sdio_calls bus1"
    using t(2,3,4) by (simp_all add: set_rd_def rx_ready_def rx_config_ok_def)
  have "all_announced (hd_len (cur_read ?bus)) fs" "\<forall>f\<in>set fs. frame_ok f" using Cons.prems b(3) by simp_all
  from Cons.IH [OF b(1,2) this(2,1), of chain1] obtain chain' bus' cs where
    i: "rx_loop ops back v rd0 (length fs) 0 chain1 ?bus = Some (0, chain', bus')" "rx_ready bus'"
      "sdio_calls bus' = sdio_calls ?bus @ cs" "handed_on_all (hd_len (cur_read ?bus)) fs cs" "frames (dev (sdiodev bus')) = later"
    by blast
  have "\<not> rxskip bus" "sd_state (sdiodev bus) = BRCMF_SDIOD_DATA" "glomd bus = None" "glom bus = []"
    using Cons.prems(1) by (simp_all add: rx_ready_def)
  then have "rx_loop ops back v rd0 (length (f # fs)) 0 chain bus = Some (0, chain', bus')"
    using t(1) i(1) by (subst rx_loop.simps) simp
  moreover have "sdio_calls bus' = sdio_calls bus @ handed_on f junk # cs" using i(3) b(4) t(5) by simp
  moreover have "handed_on_all (hd_len (cur_read bus)) (f # fs) (handed_on f junk # cs)"
    using i(4) b(3) t(6) by auto
  ultimately show ?case using i(2,5) by blast
qed

lemma sched_if_frame:
  "sdio_calls (sched_if chain bus) = sdio_calls bus" "sdiodev (sched_if chain bus) = sdiodev bus"
  "cur_read (sched_if chain bus) = cur_read bus" "rxskip (sched_if chain bus) = rxskip bus"
  "rx_ready (sched_if chain bus) = rx_ready bus"
  by (simp_all add: sched_if_def brcmf_sched_rxf_def brcmf_rxf_enqueue_def rx_ready_def rx_config_ok_def)

text \<open>
  C5: given a card with frames of events and data, each announcing the length of the next truly
  or not at all, a call for as many frames hands each on, once and in order: an event or a frame
  with the bytes behind the header, and for a frame read ahead the padding up to a multiple of
  16 behind them. Later frames stay in the card.
\<close>

theorem readframes_in_order:
  assumes "frame_queue ops frames" "rx_ready bus" "frames (dev (sdiodev bus)) = map frame_bytes fs @ later"
    and "\<forall>f\<in>set fs. frame_ok f" "all_announced (hd_len (cur_read bus)) fs"
  shows "\<exists>bus' cs. brcmf_sdio_readframes ops back v rd0 (length fs) bus = Some (length fs, bus') \<and> rx_ready bus' \<and>
    sdio_calls bus' = sdio_calls bus @ cs \<and> handed_on_all (hd_len (cur_read bus)) fs cs \<and>
    frames (dev (sdiodev bus')) = later"
proof -
  let ?bus = "set_rd (\<lambda>rd. rd\<lparr>hd_seq_num := rx_seq bus\<rparr>) (bus\<lparr>rxpending := True\<rparr>)"
  have b: "rx_ready ?bus" "frames (dev (sdiodev ?bus)) = map frame_bytes fs @ later" "hd_len (cur_read ?bus) = hd_len (cur_read bus)"
    "sdio_calls ?bus = sdio_calls bus"
    using assms(2,3) by (simp_all add: set_rd_def rx_ready_def rx_config_ok_def)
  obtain chain' bus' cs where l: "rx_loop ops back v rd0 (length fs) 0 [] ?bus = Some (0, chain', bus')" "rx_ready bus'"
    "sdio_calls bus' = sdio_calls bus @ cs" "handed_on_all (hd_len (cur_read bus)) fs cs" "frames (dev (sdiodev bus')) = later"
    using rx_loop_delivers [OF assms(1) b(1,2) assms(4), of "back" v rd0 "[]"] assms(5) b(3,4) by auto
  have skip: "\<not> rxskip bus'" using l(2) by (simp add: rx_ready_def)
  let ?after = "(sched_if chain' bus')\<lparr>rx_seq := hd_seq_num (cur_read (sched_if chain' bus'))\<rparr>"
  have "brcmf_sdio_readframes ops back v rd0 (length fs) bus = Some (length fs, ?after)"
    using l(1) skip by (simp add: brcmf_sdio_readframes_def Let_def sched_if_frame)
  moreover have "rx_ready ?after"
    using l(2) sched_if_frame(5) [of chain' bus'] by (simp add: rx_ready_def rx_config_ok_def)
  ultimately show ?thesis using l(3-5) by (auto simp: sched_if_frame)
qed

subsection \<open>An example\<close>

text \<open>A card whose state is the queue; it pads with 0.\<close>

definition queue_mmc :: "u8 list list mmc_core" where
  "queue_mmc = \<lparr>
     mmc_writeb = (\<lambda>reg b d. (None, d)), mmc_readb = (\<lambda>a d. (0, d)), mmc_f0_writeb = (\<lambda>a b d. d),
     mmc_readl = (\<lambda>a d. ((0, None), d)), mmc_writel = (\<lambda>a v d. (None, d)), mmc_fromio = (\<lambda>a n d. (Inl EIO, d)),
     mmc_readsb = (\<lambda>fn a n d.
       (Inr (case d of [] \<Rightarrow> replicate n 0 | f # fs \<Rightarrow> take n (f @ replicate n 0)),
        if n = 0 then d else case d of [] \<Rightarrow> [] | f # fs \<Rightarrow> if n < length f then drop n f # fs else fs)),
     mmc_toio = (\<lambda>fn a bs d. (None, d)), mmc_writesb = (\<lambda>a bs d. (None, d)), mmc_request = (\<lambda>rq d. ((None, []), d)),
     kern_alloc = (\<lambda>n d. (Some (replicate (round4 n) 0), d)), kern_addr = (\<lambda>d. 0)\<rparr>"

lemma queue_mmc_queue: "frame_queue queue_mmc (\<lambda>d. d)"
  by (auto simp: frame_queue_def queue_mmc_def frame_read_def split: list.split)

definition sample_frame :: "u8 \<Rightarrow> u8 \<Rightarrow> u8 list \<Rightarrow> sdio_frame" where
  "sample_frame chan nxt bytes = \<lparr>fr_seq = 0, fr_chan = chan, fr_nxt = nxt, fr_doff = 14, fr_fc = 0, fr_wnd = 0,
     fr_body = [0, 0] @ bytes\<rparr>"

theorem readframes_in_order_witness:
  "\<exists>bus' junk. brcmf_sdio_readframes queue_mmc (\<lambda>d. False) True fresh_hdrinfo 2
      (sample_sdio_bus [frame_bytes (sample_frame 1 2 [1, 2, 3]), frame_bytes (sample_frame 2 0 [4, 5, 6])]) = Some (2, bus') \<and>
    sdio_calls bus' = [RxEvent [1, 2, 3], RxFrame ([4, 5, 6] @ junk)] \<and> length junk = 15"
proof -
  let ?f = "sample_frame 1 2 [1, 2, 3]" and ?g = "sample_frame 2 0 [4, 5, 6]"
  let ?bus = "sample_sdio_bus [frame_bytes ?f, frame_bytes ?g]"
  have ready: "rx_ready ?bus"
    by (simp add: rx_ready_def rx_config_ok_def sample_sdio_bus_def sample_sdio_def)
  have ok: "\<forall>f\<in>set [?f, ?g]. frame_ok f" by (simp add: frame_ok_def sample_frame_def fr_len_def)
  have ann: "all_announced (hd_len (cur_read ?bus)) [?f, ?g]"
    by (simp add: announced_def announces_def next_frame_def sample_frame_def fr_len_def round_up_def sample_sdio_bus_def
        fresh_hdrinfo_def)
  have queue: "dev (sdiodev ?bus) = map frame_bytes [?f, ?g] @ []"
    by (simp add: sample_sdio_bus_def sample_sdio_def)
  have two: "length [?f, ?g] = 2" and calls: "sdio_calls ?bus = []" by (simp_all add: sample_sdio_bus_def)
  obtain bus' cs where r: "brcmf_sdio_readframes queue_mmc (\<lambda>d. False) True fresh_hdrinfo 2 ?bus = Some (2, bus')"
    "sdio_calls bus' = cs" "handed_on_all (hd_len (cur_read ?bus)) [?f, ?g] cs"
    using readframes_in_order [OF queue_mmc_queue ready queue ok ann, of "\<lambda>d. False" True fresh_hdrinfo]
    unfolding two calls append_Nil by blast
  have on: "handed_on ?f j = RxEvent ([1, 2, 3] @ j)" "handed_on ?g j = RxFrame ([4, 5, 6] @ j)" for j
    by (simp_all add: handed_on_def frame_bytes_def sample_frame_def sdpcm_header_def le16_bytes_def)
  have "\<exists>junk. cs = [RxEvent [1, 2, 3], RxFrame ([4, 5, 6] @ junk)] \<and> length junk = 15"
    using r(3) unfolding handed_on_all.simps on
    by (auto simp: announces_def next_frame_def sample_frame_def fr_len_def round_up_def sample_sdio_bus_def fresh_hdrinfo_def)
  with r show ?thesis by blast
qed

end
