(* ===== verification/Sdio_Glom.thy ===== *)
theory Sdio_Glom
  imports Sdio_Frames
begin

section \<open>Superframes arrive in order (sdio.c)\<close>

text \<open>
  A superframe carries several frames. Its descriptor tells their lengths, one packet is allocated
  for each, the chain is filled by one read and the headers are checked (\<open>brcmf_sdio_rxglom\<close>). The
  theory shows that each frame of a superframe is handed on, in order, without the superframe's
  header and without padding.
\<close>

subsection \<open>Superframes\<close>

text \<open>
  The first packet has the header of the superframe and the gap up to the first frame in front;
  behind each frame there may be padding.
\<close>

record superframe =
  su_seq :: u8
  su_nxt :: u8
  su_fc :: u8
  su_wnd :: u8
  su_gap :: "u8 list"
  su_subs :: "(sdio_frame \<times> u8 list) list"

definition su_doff :: "superframe \<Rightarrow> nat" where
  "su_doff su = SDPCM_HDRLEN + length (su_gap su)"

definition sub_bytes :: "sdio_frame \<times> u8 list \<Rightarrow> u8 list" where
  "sub_bytes sub = frame_bytes (fst sub) @ snd sub"

definition sub_lens :: "superframe \<Rightarrow> nat list" where
  "sub_lens su = (case map (length \<circ> sub_bytes) (su_subs su) of [] \<Rightarrow> [] | n # ns \<Rightarrow> (su_doff su + n) # ns)"

definition super_len :: "superframe \<Rightarrow> nat" where
  "super_len su = sum_list (sub_lens su)"

definition super_header :: "superframe \<Rightarrow> u8 list" where
  "super_header su =
     sdpcm_header (of_nat (super_len su)) (su_seq su) SDPCM_GLOM_CHANNEL (su_nxt su) (of_nat (su_doff su)) (su_fc su) (su_wnd su)
       @ su_gap su"

definition super_bytes :: "superframe \<Rightarrow> u8 list" where
  "super_bytes su = super_header su @ concat (map sub_bytes (su_subs su))"

definition super_desc :: "superframe \<Rightarrow> u8 list" where
  "super_desc su = concat (map (\<lambda>n. le16_bytes (of_nat n)) (sub_lens su))"

text \<open>The lengths of the packets: the last one goes up to a whole number of blocks.\<close>

fun pad_last :: "nat \<Rightarrow> nat \<Rightarrow> nat list \<Rightarrow> nat list" where
  "pad_last blk tot [] = []"
| "pad_last blk tot [n] = [n + (round_up (tot + n) blk - (tot + n))]"
| "pad_last blk tot (n # m # ns) = n # pad_last blk (tot + n) (m # ns)"

lemma pad_last_sum:
  "0 < blk \<Longrightarrow> ns \<noteq> [] \<Longrightarrow> tot + sum_list (pad_last blk tot ns) = round_up (tot + sum_list ns) blk"
proof (induction blk tot ns rule: pad_last.induct)
  case (2 blk tot n)
  then have "tot + n \<le> round_up (tot + n) blk" using round_up_less [of blk "tot + n"] by simp
  then show ?case by simp
qed (simp_all add: add.assoc)

lemma pad_last_ge: "\<forall>n\<in>set ns. k \<le> n \<Longrightarrow> n \<in> set (pad_last blk tot ns) \<Longrightarrow> k \<le> n"
  by (induction blk tot ns rule: pad_last.induct) (auto intro: trans_le_add1)

lemma length_pad_last [simp]: "length (pad_last blk tot ns) = length ns"
  by (induction blk tot ns rule: pad_last.induct) auto

subsection \<open>The packets for a descriptor\<close>

lemma aligned_packet:
  assumes "0 < align" "n + align \<le> length m"
  shows "sk_len (pkt_align base n align \<lparr>sk_head = [], sk_mem = m, sk_len = n + align\<rparr>) = n"
    "skb_wf (pkt_align base n align \<lparr>sk_head = [], sk_mem = m, sk_len = n + align\<rparr>)"
proof -
  have "round_up base align - base < align" using round_up_less [OF assms(1), of base] by simp
  then show "sk_len (pkt_align base n align \<lparr>sk_head = [], sk_mem = m, sk_len = n + align\<rparr>) = n"
    "skb_wf (pkt_align base n align \<lparr>sk_head = [], sk_mem = m, sk_len = n + align\<rparr>)"
    using assms(2) by (auto simp: pkt_align_def Let_def skb_set_length_def skb_pull_def skb_wf_def)
qed

lemma glom_packet:
  assumes dev: "frame_device ops fifo" and align: "0 < sgentry_align bus"
  obtains p d where "brcmu_pkt_buf_get_skb ops (n + sgentry_align bus) s = (Some p, s\<lparr>dev := d\<rparr>)"
    "sk_len (pkt_align (kern_addr ops d) n (sgentry_align bus) p) = n"
    "skb_wf (pkt_align (kern_addr ops d) n (sgentry_align bus) p)" "fifo d = fifo (dev s)"
proof -
  obtain m d where m: "kern_alloc ops (n + sgentry_align bus) (dev s) = (Some m, d)"
    "round4 (n + sgentry_align bus) \<le> length m" "fifo d = fifo (dev s)"
    by (rule frame_alloc [OF dev])
  have "n + sgentry_align bus \<le> length m" using m(2) round4_bounds(1) [of "n + sgentry_align bus"] by linarith
  from aligned_packet [OF align this] m show ?thesis
    by (intro that [where d = d]) (simp_all add: brcmu_pkt_buf_get_skb_def)
qed

lemma glom_packets_step:
  assumes "SDPCM_HDRLEN \<le> unat l" "num = 0 \<longrightarrow> 2 * SDPCM_HDRLEN \<le> unat l"
    and sub: "sub = (if rest = [] then l + of_nat (round_up (unat (totlen + l)) (blocksize bus) - unat (totlen + l)) else l)"
    and tot: "tot = (if rest = [] then of_nat (round_up (unat (totlen + l)) (blocksize bus)) else totlen + l)"
    and alloc: "brcmu_pkt_buf_get_skb ops (unat sub + sgentry_align bus) (sdiodev bus) = (Some p, s)"
  shows "glom_packets ops (le16_bytes l @ rest) num totlen pnext bus =
    glom_packets ops rest (num + 1) tot True
      (bus\<lparr>sdiodev := s, glom := glom bus @ [pkt_align (kern_addr ops (dev s)) (unat sub) (sgentry_align bus) p]\<rparr>)"
proof -
  have "le16_bytes l @ rest = ucast l # ucast (drop_bit 8 l) # rest" by (simp add: le16_bytes_def)
  moreover have "\<not> (unat l < SDPCM_HDRLEN \<or> num = 0 \<and> unat l < 2 * SDPCM_HDRLEN)" using assms(1,2) by auto
  ultimately show ?thesis
    using alloc unfolding sub tot by (cases "rest = []") (auto simp: Let_def set_sdiodev_def)
qed

lemma glom_packets_all:
  assumes dev: "frame_device ops fifo"
  shows "0 < sgentry_align bus \<Longrightarrow> 0 < blocksize bus \<Longrightarrow> ns \<noteq> [] \<Longrightarrow> \<forall>n\<in>set ns. SDPCM_HDRLEN \<le> n \<Longrightarrow>
    num = 0 \<longrightarrow> 2 * SDPCM_HDRLEN \<le> hd ns \<Longrightarrow> unat num + length ns < 256 \<Longrightarrow>
    round_up (unat totlen + sum_list ns) (blocksize bus) < 65536 \<Longrightarrow>
    \<exists>ps d. glom_packets ops (concat (map (\<lambda>n. le16_bytes (of_nat n)) ns)) num totlen pnext bus =
        (True, num + of_nat (length ns), bus\<lparr>sdiodev := (sdiodev bus)\<lparr>dev := d\<rparr>, glom := glom bus @ ps\<rparr>) \<and>
      map sk_len ps = pad_last (blocksize bus) (unat totlen) ns \<and> (\<forall>p\<in>set ps. skb_wf p) \<and>
      fifo d = fifo (dev (sdiodev bus))"
proof (induction ns arbitrary: num totlen pnext bus)
  case Nil
  from Nil.prems(3) show ?case by simp
next
  case (Cons n ns)
  let ?l = "of_nat n :: u16" and ?blk = "blocksize bus"
  have big: "unat totlen + n + sum_list ns < 65536"
    using Cons.prems(2,7) round_up_less [of ?blk "unat totlen + sum_list (n # ns)"] by simp
  then have l: "unat ?l = n" by (simp add: unat_of_nat_u16)
  have tot: "unat (totlen + ?l) = unat totlen + n"
    using big l by (subst unat_add_lem [THEN iffD1]) auto
  have num1: "unat (num + 1) = unat num + 1"
    using Cons.prems(6) by (subst unat_add_lem [THEN iffD1]) auto
  have ok: "\<not> (n < SDPCM_HDRLEN \<or> num = 0 \<and> n < 2 * SDPCM_HDRLEN)"
    using Cons.prems(4,5) by auto
  define last_len where "last_len = round_up (unat totlen + n) ?blk - (unat totlen + n)"
  define sub where "sub = (if ns = [] then ?l + of_nat last_len else ?l)"
  define tot' where "tot' = (if ns = [] then of_nat (round_up (unat totlen + n) ?blk) else totlen + ?l)"
  have sub: "unat sub = (if ns = [] then n + last_len else n)"
  proof (cases "ns = []")
    case True
    then have "n + last_len < 65536"
      using Cons.prems(7) round_up_less [of ?blk "unat totlen + n"] Cons.prems(2) by (simp add: last_len_def)
    then have "unat (of_nat (n + last_len) :: u16) = n + last_len" by (rule unat_of_nat_u16)
    with True show ?thesis by (simp add: sub_def)
  qed (simp add: sub_def l)
  obtain p d where a: "brcmu_pkt_buf_get_skb ops (unat sub + sgentry_align bus) (sdiodev bus) = (Some p, (sdiodev bus)\<lparr>dev := d\<rparr>)"
    "sk_len (pkt_align (kern_addr ops d) (unat sub) (sgentry_align bus) p) = unat sub"
    "skb_wf (pkt_align (kern_addr ops d) (unat sub) (sgentry_align bus) p)" "fifo d = fifo (dev (sdiodev bus))"
    by (rule glom_packet [OF dev Cons.prems(1)])
  let ?p = "pkt_align (kern_addr ops d) (unat sub) (sgentry_align bus) p"
  let ?bus = "bus\<lparr>sdiodev := (sdiodev bus)\<lparr>dev := d\<rparr>, glom := glom bus @ [?p]\<rparr>"
  let ?rest = "concat (map (\<lambda>n. le16_bytes (of_nat n)) ns) :: u8 list"
  have empty: "?rest = [] \<longleftrightarrow> ns = []" by (cases ns) (simp_all add: le16_bytes_def)
  have step: "glom_packets ops (le16_bytes ?l @ ?rest) num totlen pnext bus = glom_packets ops ?rest (num + 1) tot' True ?bus"
    using glom_packets_step [of ?l num sub ?rest totlen bus tot' ops p "(sdiodev bus)\<lparr>dev := d\<rparr>" pnext] ok a(1) l
    by (simp only: empty tot sub_def tot'_def last_len_def) auto
  have desc: "concat (map (\<lambda>n. le16_bytes (of_nat n)) (n # ns)) = le16_bytes ?l @ ?rest" by simp
  show ?case
  proof (cases ns)
    case Nil
    have "sk_len ?p = n + last_len" using a(2) sub Nil by simp
    moreover have "glom_packets ops (concat (map (\<lambda>n. le16_bytes (of_nat n)) (n # ns))) num totlen pnext bus = (True, num + 1, ?bus)"
      unfolding desc step using Nil by simp
    ultimately show ?thesis
      using a(3,4) Nil by (intro exI [of _ "[?p]"] exI [of _ d]) (simp add: last_len_def)
  next
    case (Cons m ms)
    have prems: "0 < sgentry_align ?bus" "0 < blocksize ?bus" "ns \<noteq> []" "\<forall>n\<in>set ns. SDPCM_HDRLEN \<le> n"
      "num + 1 = 0 \<longrightarrow> 2 * SDPCM_HDRLEN \<le> hd ns" "unat (num + 1) + length ns < 256"
      "round_up (unat tot' + sum_list ns) (blocksize ?bus) < 65536"
      using Cons.prems(1,2,4,6,7) Cons num1 tot by (auto simp: tot'_def add.assoc)
    obtain ps d' where i: "glom_packets ops ?rest (num + 1) tot' True ?bus =
        (True, num + 1 + of_nat (length ns), ?bus\<lparr>sdiodev := (sdiodev ?bus)\<lparr>dev := d'\<rparr>, glom := glom ?bus @ ps\<rparr>)"
      "map sk_len ps = pad_last (blocksize ?bus) (unat tot') ns" "\<forall>p\<in>set ps. skb_wf p" "fifo d' = fifo (dev (sdiodev ?bus))"
      using Cons.IH [OF prems, of True] by blast
    have "sk_len ?p = n" using a(2) sub Cons by simp
    then show ?thesis
      unfolding desc step using i a(3,4) Cons tot
      by (intro exI [of _ "?p # ps"] exI [of _ d']) (simp add: tot'_def)
  qed
qed

subsection \<open>The packets and what they hold\<close>

definition holds_bytes :: "sk_buff \<Rightarrow> u8 list \<Rightarrow> bool" where
  "holds_bytes p bs \<longleftrightarrow> sk_len p = length bs \<and> (\<exists>rest. sk_mem p = bs @ rest)"

lemma scatter_holds:
  "\<forall>p\<in>set ps. skb_wf p \<Longrightarrow> map sk_len ps = map length parts \<Longrightarrow>
    list_all2 holds_bytes (skb_scatter (concat parts) ps) parts"
proof (induction ps arbitrary: parts)
  case (Cons p ps)
  then obtain b bs where parts: "parts = b # bs" "sk_len p = length b" "map sk_len ps = map length bs"
    by (cases parts) auto
  then show ?case using Cons by (simp add: holds_bytes_def)
qed simp

fun extend_last :: "u8 list \<Rightarrow> (sdio_frame \<times> u8 list) list \<Rightarrow> (sdio_frame \<times> u8 list) list" where
  "extend_last tail [] = []"
| "extend_last tail [sub] = [(fst sub, snd sub @ tail)]"
| "extend_last tail (x # y # zs) = x # extend_last tail (y # zs)"

lemma extend_last_bytes: "subs \<noteq> [] \<Longrightarrow> concat (map sub_bytes (extend_last tail subs)) = concat (map sub_bytes subs) @ tail"
  by (induction tail subs rule: extend_last.induct) (auto simp: sub_bytes_def)

lemma extend_last_frames: "map fst (extend_last tail subs) = map fst subs"
  by (induction tail subs rule: extend_last.induct) auto

definition super_parts :: "u8 list \<Rightarrow> (sdio_frame \<times> u8 list) list \<Rightarrow> u8 list list" where
  "super_parts hdr subs = (case map sub_bytes subs of [] \<Rightarrow> [] | b # bs \<Rightarrow> (hdr @ b) # bs)"

lemma super_parts_bytes: "subs \<noteq> [] \<Longrightarrow> concat (super_parts hdr subs) = hdr @ concat (map sub_bytes subs)"
  by (cases subs) (simp_all add: super_parts_def)

lemma length_super_header [simp]: "length (super_header su) = su_doff su"
  by (simp add: super_header_def su_doff_def sdpcm_header_def)

lemma sub_lens_parts: "sub_lens su = map length (super_parts (super_header su) (su_subs su))"
  by (cases "su_subs su") (simp_all add: sub_lens_def super_parts_def)

lemma pad_last_extend:
  "length tail = round_up (tot + sum_list (map (length \<circ> sub_bytes) subs)) blk - (tot + sum_list (map (length \<circ> sub_bytes) subs)) \<Longrightarrow>
    pad_last blk tot (map (length \<circ> sub_bytes) subs) = map (length \<circ> sub_bytes) (extend_last tail subs)"
  by (induction tail subs arbitrary: tot rule: extend_last.induct) (auto simp: sub_bytes_def add.assoc)

lemma pad_last_parts:
  assumes "length tail = round_up (super_len su) blk - super_len su" "su_subs su \<noteq> []"
  shows "pad_last blk 0 (sub_lens su) = map length (super_parts (super_header su) (extend_last tail (su_subs su)))"
proof -
  obtain x xs where x: "su_subs su = x # xs" using assms(2) by (cases "su_subs su") auto
  show ?thesis
  proof (cases xs)
    case Nil
    with assms(1) x show ?thesis by (simp add: super_len_def sub_lens_def super_parts_def sub_bytes_def)
  next
    case (Cons y ys)
    have "pad_last blk (su_doff su + length (sub_bytes x)) (map (length \<circ> sub_bytes) (y # ys)) =
        map (length \<circ> sub_bytes) (extend_last tail (y # ys))"
      by (rule pad_last_extend) (use assms(1) x Cons in \<open>simp add: super_len_def sub_lens_def\<close>)
    with x Cons show ?thesis by (simp add: sub_lens_def super_parts_def)
  qed
qed

subsection \<open>Checking and handing on\<close>

definition sub_ok :: "sdio_frame \<times> u8 list \<Rightarrow> bool" where
  "sub_ok sub \<longleftrightarrow> frame_ok (fst sub) \<and> length (sub_bytes sub) < 65536"

lemma sub_header:
  assumes "holds_bytes p (sub_bytes sub)"
  obtains rest where "sk_mem p = sdpcm_header (of_nat (fr_len (fst sub))) (fr_seq (fst sub)) (fr_chan (fst sub)) (fr_nxt (fst sub))
      (fr_doff (fst sub)) (fr_fc (fst sub)) (fr_wnd (fst sub)) @ rest"
    "sk_len p = fr_len (fst sub) + length (snd sub)" "take (fr_len (fst sub)) (sk_mem p) = frame_bytes (fst sub)"
proof -
  obtain rest where m: "sk_mem p = frame_bytes (fst sub) @ snd sub @ rest" "sk_len p = fr_len (fst sub) + length (snd sub)"
    using assms by (auto simp: holds_bytes_def sub_bytes_def)
  then have "take (fr_len (fst sub)) (sk_mem p) = frame_bytes (fst sub)" by simp
  then show ?thesis
    by (intro that [of "fr_body (fst sub) @ snd sub @ rest"]) (use m in \<open>simp_all add: frame_bytes_def\<close>)
qed

lemma glom_check_ok:
  "list_all2 holds_bytes ps (map sub_bytes subs) \<Longrightarrow> \<forall>sub\<in>set subs. sub_ok sub \<Longrightarrow>
    glom_check ops ps num rxseq rd bus = Some (None, num + of_nat (length subs), bus)"
proof (induction subs arbitrary: ps num rxseq rd)
  case (Cons sub subs)
  then obtain p ps' where ps: "ps = p # ps'" "holds_bytes p (sub_bytes sub)" "list_all2 holds_bytes ps' (map sub_bytes subs)"
    by (auto simp: list_all2_Cons2)
  let ?f = "fst sub"
  obtain rest where p: "sk_mem p = sdpcm_header (of_nat (fr_len ?f)) (fr_seq ?f) (fr_chan ?f) (fr_nxt ?f) (fr_doff ?f) (fr_fc ?f) (fr_wnd ?f) @ rest"
    "sk_len p = fr_len ?f + length (snd sub)"
    by (rule sub_header [OF ps(2)])
  have f: "frame_ok ?f" and short: "fr_len ?f + length (snd sub) < 65536"
    using Cons.prems(2) by (auto simp: sub_ok_def sub_bytes_def)
  have fits: "frame_fits BRCMF_SDIO_FT_SUB (blocksize bus) (hd_len (rd\<lparr>hd_len := of_nat (sk_len p), hd_seq_num := rxseq\<rparr>))
      (of_nat (fr_len ?f)) (fr_chan ?f)"
  proof -
    have "sk_len p < 65536" using p(2) short by simp
    then have "unat (of_nat (sk_len p) :: u16) = sk_len p" by (rule unat_of_nat_u16)
    then show ?thesis using f fr_len_word [OF f] p(2) by (auto simp: frame_fits_def frame_ok_def word_le_nat_alt)
  qed
  have len: "unat (fr_doff ?f) \<le> unat (of_nat (fr_len ?f) :: u16)" using fr_len_word [OF f] frame_ok_front(3) [OF f] by simp
  note parse = header_parsed [OF frame_ok_front(2) [OF f] len frame_ok_front(4) [OF f] fits, of ops "fr_seq ?f" "fr_nxt ?f" "fr_fc ?f" "fr_wnd ?f" rest]
  show ?case
    using Cons.IH [OF ps(3), of "num + 1" "rxseq + 1"] Cons.prems(2) parse
    by (simp add: ps(1) p(1) add.assoc)
qed simp

lemma glom_deliver_ok:
  "list_all2 holds_bytes ps (map sub_bytes subs) \<Longrightarrow> \<forall>sub\<in>set subs. sub_ok sub \<Longrightarrow>
    \<exists>chain'. glom_deliver back ps chain bus =
      Some (chain', bus\<lparr>glom := [], sdio_calls := sdio_calls bus @ map (\<lambda>sub. handed_on (fst sub) []) subs\<rparr>)"
proof (induction subs arbitrary: ps chain bus)
  case (Cons sub subs)
  then obtain p ps' where ps: "ps = p # ps'" "holds_bytes p (sub_bytes sub)" "list_all2 holds_bytes ps' (map sub_bytes subs)"
    by (auto simp: list_all2_Cons2)
  let ?f = "fst sub"
  obtain rest where p: "sk_mem p = sdpcm_header (of_nat (fr_len ?f)) (fr_seq ?f) (fr_chan ?f) (fr_nxt ?f) (fr_doff ?f) (fr_fc ?f) (fr_wnd ?f) @ rest"
    "take (fr_len ?f) (sk_mem p) = frame_bytes ?f"
    by (rule sub_header [OF ps(2)])
  have f: "frame_ok ?f" using Cons.prems(2) by (simp add: sub_ok_def)
  note reads = header_reads [OF p(1)]
  have doff: "unat (fr_doff ?f) < fr_len ?f" using f by (simp add: frame_ok_def)
  let ?q = "skb_pull (unat (fr_doff ?f)) (skb_set_length (fr_len ?f) p)"
  have data: "skb_data ?q = drop (unat (fr_doff ?f)) (frame_bytes ?f)"
    using doff p(2) skb_pull_data [of "unat (fr_doff ?f)" "skb_set_length (fr_len ?f) p"]
    by (simp add: skb_set_length_def) (simp add: skb_data_def)
  have some: "drop (unat (fr_doff ?f)) (frame_bytes ?f) \<noteq> []" using doff by simp
  have event: "brcmf_sdio_fromevntchan (le32_of (fr_seq ?f) (fr_chan ?f) (fr_nxt ?f) (fr_doff ?f)) \<longleftrightarrow> fr_chan ?f = 1"
    using frame_ok_front(4) [OF f] by (simp add: brcmf_sdio_fromevntchan_def le32_fields)
  obtain chain1 where deliver: "rx_deliver back (fr_chan ?f = 1) (drop (unat (fr_doff ?f)) (frame_bytes ?f)) chain bus =
      (chain1, sdio_log (handed_on ?f []) bus)"
    using some by (cases "fr_chan ?f = 1") (auto simp: rx_deliver_def handed_on_def)
  show ?case
    using Cons.IH [OF ps(3), of chain1 "sdio_log (handed_on ?f []) bus"] Cons.prems(2) deliver reads(1,3) data event
    by (simp add: ps(1) le32_fields fr_len_word [OF f] Let_def sdio_log_def)
qed simp

subsection \<open>The whole superframe\<close>

definition super_ok :: "superframe \<Rightarrow> bool" where
  "super_ok su \<longleftrightarrow> su_subs su \<noteq> [] \<and> length (su_subs su) < 256 \<and> su_doff su < 256 \<and> (\<forall>sub\<in>set (su_subs su). frame_ok (fst sub))"

definition super_fits :: "'d brcmf_sdio \<Rightarrow> superframe \<Rightarrow> bool" where
  "super_fits bus su \<longleftrightarrow>
     0 < sgentry_align bus \<and> 0 < blocksize bus \<and> 4 dvd blocksize bus \<and> func2_blksize (sdiodev bus) = blocksize bus \<and>
     round_up (super_len su) (blocksize bus) < 65536 \<and>
     round_up (super_len su) (blocksize bus) \<le> max_request_size (sdiodev bus) \<and>
     (\<forall>n\<in>set (pad_last (blocksize bus) 0 (sub_lens su)). n \<le> max_segment_size (sdiodev bus)) \<and>
     length (su_subs su) \<le> max_segment_count (sdiodev bus) \<and> max_segment_count (sdiodev bus) < 65536 \<and>
     \<not> broken_sg_support (sdiodev bus)"

lemma sub_lens_ge: "n \<in> set (sub_lens su) \<Longrightarrow> SDPCM_HDRLEN \<le> n"
proof -
  have "SDPCM_HDRLEN \<le> length (sub_bytes sub)" for sub
    using fr_len_ge [of "fst sub"] by (simp add: sub_bytes_def del: fr_len_ge)
  then show "n \<in> set (sub_lens su) \<Longrightarrow> SDPCM_HDRLEN \<le> n"
    by (cases "su_subs su") (auto simp: sub_lens_def intro: trans_le_add2)
qed

lemma super_len_bytes: "su_subs su \<noteq> [] \<Longrightarrow> super_len su = length (super_bytes su)"
  by (simp add: super_len_def sub_lens_parts super_bytes_def super_parts_bytes [symmetric] length_concat)

text \<open>The descriptor is turned into packets that fit the card.\<close>

lemma glom_prepared:
  assumes dev: "frame_device ops fifo" and su: "super_ok su" "super_fits bus su"
    and bus: "glomd bus = Some (super_desc su)" "glom bus = []" and tail: "length tail = round_up (super_len su) (blocksize bus) - super_len su"
  obtains ps d where "glom_prepare ops bus = (of_nat (length (su_subs su)),
      bus\<lparr>sdiodev := (sdiodev bus)\<lparr>dev := d\<rparr>, glom := ps, glomd := None, cur_read := (cur_read bus)\<lparr>hd_len := 0\<rparr>\<rparr>)"
    "map sk_len ps = map length (super_parts (super_header su) (extend_last tail (su_subs su)))"
    "\<forall>p\<in>set ps. skb_wf p" "fifo d = fifo (dev (sdiodev bus))"
    "chain_fits ((sdiodev bus)\<lparr>dev := d\<rparr>) ps" "sum_list (map sk_len ps) = round_up (super_len su) (blocksize bus)"
proof -
  let ?blk = "blocksize bus" and ?ns = "sub_lens su"
  have f: "0 < sgentry_align bus" "0 < ?blk" "round_up (super_len su) ?blk < 65536" "su_subs su \<noteq> []" "length (su_subs su) < 256"
    using su by (simp_all add: super_fits_def super_ok_def)
  have ns: "?ns \<noteq> []" "length ?ns = length (su_subs su)" "\<forall>n\<in>set ?ns. SDPCM_HDRLEN \<le> n"
    using f(4) sub_lens_ge by (auto simp: sub_lens_def split: list.split)
  have first: "(0 :: u8) = 0 \<longrightarrow> 2 * SDPCM_HDRLEN \<le> hd ?ns"
  proof -
    obtain x xs where "su_subs su = x # xs" using f(4) by (cases "su_subs su") auto
    then show ?thesis using fr_len_ge [of "fst x"] by (simp add: sub_lens_def su_doff_def sub_bytes_def del: fr_len_ge)
  qed
  have n: "unat (0 :: u8) + length ?ns < 256" "round_up (unat (0 :: u16) + sum_list ?ns) ?blk < 65536"
    using f(3,5) ns(2) by (simp_all add: super_len_def)
  obtain ps d where g: "glom_packets ops (super_desc su) 0 0 False bus =
      (True, 0 + of_nat (length ?ns), bus\<lparr>sdiodev := (sdiodev bus)\<lparr>dev := d\<rparr>, glom := glom bus @ ps\<rparr>)"
    "map sk_len ps = pad_last ?blk (unat (0 :: u16)) ?ns" "\<forall>p\<in>set ps. skb_wf p" "fifo d = fifo (dev (sdiodev bus))"
    using glom_packets_all [OF dev f(1,2) ns(1,3) first n, of False] unfolding super_desc_def by blast
  have desc: "length (super_desc su) = 2 * length ?ns"
    by (simp add: super_desc_def length_concat comp_def sum_list_triv)
  then have dlen: "length (super_desc su) \<le> 0xFFFF" "even (length (super_desc su))" using f(5) ns(2) by simp_all
  have prep: "glom_prepare ops bus = (of_nat (length (su_subs su)),
      bus\<lparr>sdiodev := (sdiodev bus)\<lparr>dev := d\<rparr>, glom := ps, glomd := None, cur_read := (cur_read bus)\<lparr>hd_len := 0\<rparr>\<rparr>)"
    using g(1) bus dlen ns(2) by (simp add: glom_prepare_def set_rd_def)
  have lens: "map sk_len ps = map length (super_parts (super_header su) (extend_last tail (su_subs su)))"
    using g(2) pad_last_parts [OF tail f(4)] by simp
  have sum: "sum_list (map sk_len ps) = round_up (super_len su) ?blk"
    using g(2) pad_last_sum [OF f(2) ns(1), of 0] by (simp add: super_len_def)
  have lens_in: "sk_len p \<in> set (pad_last ?blk 0 ?ns)" if "p \<in> set ps" for p
    using that g(2) by (metis image_eqI list.set_map unsigned_0)
  have pos: "0 < sk_len p" if "p \<in> set ps" for p
    using pad_last_ge [OF ns(3) lens_in [OF that]] by simp
  have length_ps: "length ps = length (su_subs su)"
    using arg_cong [OF g(2), of length] ns(2) by simp
  have "?blk dvd round_up (super_len su) ?blk" by (simp add: round_up_def)
  moreover from this have "4 dvd round_up (super_len su) ?blk" using su(2) by (auto simp: super_fits_def elim: dvd_trans)
  ultimately have fits: "chain_fits ((sdiodev bus)\<lparr>dev := d\<rparr>) ps"
    unfolding chain_fits_def sum using su(2) f(4) lens_in pos length_ps g(3) by (auto simp: super_fits_def)
  show ?thesis using that [OF prep lens g(3,4) fits sum] .
qed

lemma sched_if_glom: "glomd (sched_if chain bus) = glomd bus" "glom (sched_if chain bus) = glom bus"
  by (simp_all add: sched_if_def brcmf_sched_rxf_def brcmf_rxf_enqueue_def)

lemma super_packets:
  assumes "list_all2 holds_bytes ps (super_parts hdr subs)" "subs \<noteq> []"
  obtains p ps' rest where "ps = p # ps'" "sk_mem p = hdr @ rest"
    "list_all2 holds_bytes (skb_pull (length hdr) p # ps') (map sub_bytes subs)"
proof -
  obtain x xs where subs: "subs = x # xs" using assms(2) by (cases subs) auto
  then obtain p ps' where ps: "ps = p # ps'" "holds_bytes p (hdr @ sub_bytes x)" "list_all2 holds_bytes ps' (map sub_bytes xs)"
    using assms(1) by (auto simp: super_parts_def list_all2_Cons2)
  then have "holds_bytes (skb_pull (length hdr) p) (sub_bytes x)"
    by (auto simp: holds_bytes_def skb_pull_def)
  moreover obtain rest where "sk_mem p = hdr @ rest" using ps(2) by (auto simp: holds_bytes_def)
  ultimately show ?thesis using that ps subs by simp
qed

lemma extend_last_ok:
  assumes "\<forall>sub\<in>set subs. frame_ok (fst sub)" "length (concat (map sub_bytes (extend_last tail subs))) < 65536"
  shows "\<forall>sub\<in>set (extend_last tail subs). sub_ok sub"
proof
  fix sub
  assume sub: "sub \<in> set (extend_last tail subs)"
  then have "fst sub \<in> set (map fst subs)" using extend_last_frames [of tail subs] by (metis image_eqI list.set_map)
  moreover have "length (sub_bytes sub) \<le> length (concat (map sub_bytes (extend_last tail subs)))"
    using sub member_le_sum_list [of "length (sub_bytes sub)" "map (length \<circ> sub_bytes) (extend_last tail subs)"]
    by (auto simp: length_concat)
  ultimately show "sub_ok sub" using assms by (auto simp: sub_ok_def)
qed

text \<open>What was read of a superframe, over its packets: behind the header of the first, one frame in each.\<close>

lemma super_split:
  fixes tail :: "u8 list"
  defines "subs \<equiv> \<lambda>su. extend_last tail (su_subs su)"
  assumes su: "super_ok su" and n: "length (super_bytes su @ tail) < 65536"
    and ps: "\<forall>p\<in>set ps. skb_wf p" "map sk_len ps = map length (super_parts (super_header su) (subs su))"
  obtains p ps' rest where "skb_scatter (super_bytes su @ tail) ps = p # ps'" "sk_mem p = super_header su @ rest"
    "list_all2 holds_bytes (skb_pull (su_doff su) p # ps') (map sub_bytes (subs su))" "\<forall>sub\<in>set (subs su). sub_ok sub"
proof -
  have ok: "su_subs su \<noteq> []" "\<forall>sub\<in>set (su_subs su). frame_ok (fst sub)" using su by (simp_all add: super_ok_def)
  have ne: "subs su \<noteq> []"
    using ok(1) arg_cong [OF extend_last_frames [of tail "su_subs su"], of length] by (auto simp: subs_def)
  have content: "concat (super_parts (super_header su) (subs su)) = super_bytes su @ tail"
    using ok(1) by (simp add: super_parts_bytes [OF ne] super_bytes_def) (simp add: subs_def extend_last_bytes)
  have "length (concat (map sub_bytes (subs su))) < 65536"
    using n by (simp only: content [symmetric] super_parts_bytes [OF ne] length_append)
  then have sub: "\<forall>sub\<in>set (subs su). sub_ok sub" unfolding subs_def by (rule extend_last_ok [OF ok(2)])
  have "list_all2 holds_bytes (skb_scatter (super_bytes su @ tail) ps) (super_parts (super_header su) (subs su))"
    using scatter_holds [OF ps] by (simp only: content)
  from super_packets [OF this ne] show thesis using that sub by (metis length_super_header)
qed

text \<open>The header in the first packet of a superframe is accepted.\<close>

lemma super_parsed:
  assumes su: "super_ok su" and p: "sk_mem p = super_header su @ rest"
    and n: "hd_len rd = of_nat (round_up (super_len su) (blocksize bus))" "round_up (super_len su) (blocksize bus) < 65536" "0 < blocksize bus"
  shows "brcmf_sdio_hdparse ops (sk_mem p) rd BRCMF_SDIO_FT_SUPER bus =
    Some (None, (read_header (of_nat (super_len su)) (su_seq su) SDPCM_GLOM_CHANNEL (of_nat (su_doff su)) rd)
        \<lparr>hd_len_nxtfrm := next_frame (su_nxt su)\<rparr>,
      bus\<lparr>flowcontrol := su_fc su, tx_max := window_after (tx_seq bus) (su_wnd su)\<rparr>)"
proof -
  have ok: "su_subs su \<noteq> []" "su_doff su < 256" using su by (simp_all add: super_ok_def)
  have "super_len su < 65536" using round_up_less [OF n(3), of "super_len su"] n(2) by simp
  then have len: "unat (of_nat (super_len su) :: u16) = super_len su" by (simp add: unat_of_nat_u16)
  have doff: "unat (of_nat (su_doff su) :: u8) = su_doff su" using ok(2) by (simp add: unsigned_of_nat take_bit_eq_mod)
  have le: "su_doff su \<le> super_len su" using super_len_bytes [OF ok(1)] by (simp add: super_bytes_def)
  have fits: "frame_fits BRCMF_SDIO_FT_SUPER (blocksize bus) (hd_len rd) (of_nat (super_len su)) SDPCM_GLOM_CHANNEL"
    using len n(1,2) by (simp add: frame_fits_def unat_of_nat_u16)
  show ?thesis
    using header_parsed [OF _ _ _ fits, of "of_nat (su_doff su)" ops "su_seq su" "su_nxt su" "su_fc su" "su_wnd su" "su_gap su @ rest"]
      doff len le p
    by (simp add: super_header_def su_doff_def)
qed

text \<open>
  C6: a superframe whose descriptor has arrived is read into one packet for each frame, and each
  frame is handed on once and in order, as the bytes behind its header; the card has sent nothing
  beyond the last block of the superframe.
\<close>

theorem superframe_in_order:
  assumes dev: "frame_device ops fifo" and su: "super_ok su" "super_fits bus su"
    and bus: "glomd bus = Some (super_desc su)" "glom bus = []"
    and stream: "fifo (dev (sdiodev bus)) = super_bytes su @ tail @ later"
    and tail: "length tail = round_up (super_len su) (blocksize bus) - super_len su"
  shows "\<exists>bus'. brcmf_sdio_rxglom ops back rd0 rxseq bus = Some (of_nat (length (su_subs su)), bus') \<and>
    sdio_calls bus' = sdio_calls bus @ map (\<lambda>sub. handed_on (fst sub) []) (su_subs su) \<and>
    glomd bus' = None \<and> glom bus' = [] \<and> fifo (dev (sdiodev bus')) = later \<and>
    hd_len (cur_read bus') = push_bit 4 (next_frame (su_nxt su))"
proof -
  let ?blk = "blocksize bus" and ?subs = "extend_last tail (su_subs su)"
  have ok: "su_subs su \<noteq> []" "su_doff su < 256" "0 < ?blk" "\<not> broken_sg_support (sdiodev bus)"
    using su by (simp_all add: super_ok_def super_fits_def)
  obtain ps d where g: "glom_prepare ops bus = (of_nat (length (su_subs su)),
      bus\<lparr>sdiodev := (sdiodev bus)\<lparr>dev := d\<rparr>, glom := ps, glomd := None, cur_read := (cur_read bus)\<lparr>hd_len := 0\<rparr>\<rparr>)"
    "map sk_len ps = map length (super_parts (super_header su) ?subs)" "\<forall>p\<in>set ps. skb_wf p"
    "fifo d = fifo (dev (sdiodev bus))" "chain_fits ((sdiodev bus)\<lparr>dev := d\<rparr>) ps"
    "sum_list (map sk_len ps) = round_up (super_len su) ?blk"
    by (rule glom_prepared [OF dev su bus tail])
  define n where "n = round_up (super_len su) ?blk"
  have n: "super_len su \<le> n" "n < 65536"
    using round_up_less [OF ok(3), of "super_len su"] su(2) by (simp_all add: n_def super_fits_def)
  note same = extend_last_frames [of tail "su_subs su"]
  have length_subs: "length ?subs = length (su_subs su)" using arg_cong [OF same, of length] by simp
  have len_su: "length (super_bytes su @ tail) = n"
    using super_len_bytes [OF ok(1)] tail n(1) by (simp add: n_def)
  have got: "take n (fifo d) = super_bytes su @ tail" "drop n (fifo d) = later" "n \<le> length (fifo d)"
    using g(4) stream by (simp_all add: len_su [symmetric])
  obtain s where r: "brcmf_sdiod_recv_chain ops ps n ((sdiodev bus)\<lparr>dev := d\<rparr>) =
      Some (None, skb_scatter (super_bytes su @ tail) ps, s)" "fifo (dev s) = later"
    using recv_chain_fills [OF dev g(5), of n] ok(4) g(6) got by (auto simp: n_def)
  obtain p ps' rest where p: "skb_scatter (super_bytes su @ tail) ps = p # ps'" "sk_mem p = super_header su @ rest"
    "list_all2 holds_bytes (skb_pull (su_doff su) p # ps') (map sub_bytes ?subs)" and sub_ok: "\<forall>sub\<in>set ?subs. sub_ok sub"
    using super_split [OF su(1) _ g(3,2)] len_su n(2) by metis
  have doff: "unat (of_nat (su_doff su) :: u8) = su_doff su" using ok(2) by (simp add: unsigned_of_nat take_bit_eq_mod)
  let ?rd = "rd0\<lparr>hd_seq_num := rxseq, hd_len := of_nat n\<rparr>"
  let ?bus1 = "bus\<lparr>glomd := None, cur_read := (cur_read bus)\<lparr>hd_len := 0\<rparr>, sdiodev := s, glom := p # ps'\<rparr>"
  note parse = super_parsed [OF su(1) p(2), of ?rd ?bus1 ops]
  define bus2 where "bus2 = ?bus1\<lparr>flowcontrol := su_fc su, tx_max := window_after (tx_seq bus) (su_wnd su),
      cur_read := (cur_read bus)\<lparr>hd_len := push_bit 4 (next_frame (su_nxt su))\<rparr>, glom := skb_pull (su_doff su) p # ps'\<rparr>"
  have check: "glom_check ops (skb_pull (su_doff su) p # ps') 0 rxseq rd' bus2 = Some (None, 0 + of_nat (length ?subs), bus2)" for rd'
    by (rule glom_check_ok [OF p(3) sub_ok])
  obtain chain' where deliver: "glom_deliver back (skb_pull (su_doff su) p # ps') [] bus2 =
      Some (chain', bus2\<lparr>glom := [], sdio_calls := sdio_calls bus2 @ map (\<lambda>sub. handed_on (fst sub) []) ?subs\<rparr>)"
    using glom_deliver_ok [OF p(3) sub_ok] by blast
  have calls: "map (\<lambda>sub. handed_on (fst sub) []) ?subs = map (\<lambda>sub. handed_on (fst sub) []) (su_subs su)"
    using arg_cong [OF same, of "map (\<lambda>f. handed_on f [])"] by (simp add: comp_def)
  let ?bus3 = "bus2\<lparr>glom := [], sdio_calls := sdio_calls bus2 @ map (\<lambda>sub. handed_on (fst sub) []) ?subs\<rparr>"
  have glom_len: "ps \<noteq> []" "brcmf_sdio_glom_len (bus\<lparr>sdiodev := s', glom := ps, glomd := None, cur_read := rd'\<rparr>) = n" for s' rd'
    using g(5,6) by (simp_all add: chain_fits_def brcmf_sdio_glom_len_def n_def)
  have "brcmf_sdio_rxglom ops back rd0 rxseq bus = Some (of_nat (length ?subs), sched_if chain' ?bus3)"
    using g(1) glom_len n(2) r(1) p(1) parse ok(3) doff check deliver
    by (simp add: brcmf_sdio_rxglom_def set_sdiodev_def set_rd_def read_header_def bus2_def n_def
        del: glom_check.simps glom_deliver.simps)
  then show ?thesis
    using calls r(2) length_subs
    by (auto simp: sched_if_frame sched_if_glom bus2_def)
qed

subsection \<open>An example\<close>

definition sample_super :: superframe where
  "sample_super = \<lparr>su_seq = 3, su_nxt = 0, su_fc = 0, su_wnd = 10, su_gap = [0, 0],
     su_subs = [(sample_frame 2 0 [1, 2], [0xFF]), (sample_frame 1 0 [3], [])]\<rparr>"

definition sample_super_bus :: "u8 list brcmf_sdio" where
  "sample_super_bus =
     (sample_sdio_bus (super_bytes sample_super @ replicate 466 0 @ [9]))\<lparr>glomd := Some (super_desc sample_super)\<rparr>"

theorem superframe_in_order_witness:
  "\<exists>bus'. brcmf_sdio_rxglom stream_mmc (\<lambda>d. False) fresh_hdrinfo 3 sample_super_bus = Some (2, bus') \<and>
    sdio_calls bus' = [RxFrame [1, 2], RxEvent [3]] \<and> dev (sdiodev bus') = [9]"
proof -
  have len: "super_len sample_super = 46"
    by (simp add: super_len_def sub_lens_def sample_super_def su_doff_def sub_bytes_def fr_len_def sample_frame_def)
  have ok: "super_ok sample_super"
    by (simp add: super_ok_def sample_super_def su_doff_def frame_ok_def fr_len_def sample_frame_def)
  have lens: "pad_last 512 0 (sub_lens sample_super) = [31, 481]"
    by (simp add: sub_lens_def sample_super_def su_doff_def sub_bytes_def fr_len_def sample_frame_def round_up_def)
  have fits: "super_fits sample_super_bus sample_super"
    unfolding super_fits_def len
    by (simp add: sample_super_bus_def sample_sdio_bus_def sample_sdio_def lens round_up_def)
      (simp add: sample_super_def)
  have bus: "glomd sample_super_bus = Some (super_desc sample_super)" "glom sample_super_bus = []"
    "dev (sdiodev sample_super_bus) = super_bytes sample_super @ replicate 466 0 @ [9]" "blocksize sample_super_bus = 512"
    "sdio_calls sample_super_bus = []"
    by (simp_all add: sample_super_bus_def sample_sdio_bus_def sample_sdio_def)
  have tail: "length (replicate 466 (0 :: u8)) = round_up (super_len sample_super) (blocksize sample_super_bus) - super_len sample_super"
    by (simp add: len bus(4) round_up_def)
  have on: "map (\<lambda>sub. handed_on (fst sub) []) (su_subs sample_super) = [RxFrame [1, 2], RxEvent [3]]"
    by (simp add: sample_super_def handed_on_def frame_bytes_def sample_frame_def sdpcm_header_def le16_bytes_def)
  have two: "of_nat (length (su_subs sample_super)) = (2 :: u8)" by (simp add: sample_super_def)
  show ?thesis
    using superframe_in_order [OF stream_mmc_frames ok fits bus(1-3) tail, of "\<lambda>d. False" fresh_hdrinfo 3]
    unfolding on two bus(5) append_Nil by blast
qed

end
