(* ===== verification/Sdio_Control.thy ===== *)
theory Sdio_Control
  imports Sdio_Frames
begin

section \<open>Control frames reach their reader (sdio.c)\<close>

text \<open>
  A control frame is read in two pieces into a buffer of its own and waits there for the reader
  (\<open>brcmf_sdio_read_control\<close>, \<open>brcmf_sdio_bus_rxctl\<close>). The theory shows that the reader gets the bytes
  behind the header, that a second frame does not replace the first, and what becomes of the
  buffer.
\<close>

subsection \<open>One control frame\<close>

definition control_ok :: "'d brcmf_sdio \<Rightarrow> sdio_frame \<Rightarrow> bool" where
  "control_ok bus f \<longleftrightarrow>
     fr_chan f = SDPCM_CONTROL_CHANNEL \<and> SDPCM_HDRLEN \<le> unat (fr_doff f) \<and> unat (fr_doff f) < fr_len f \<and>
     fr_len f < 65536 \<and> maxctl bus \<le> rxblen bus \<and> fr_len f \<le> rxblen bus \<and> BRCMF_FIRSTREAD \<le> rxblen bus \<and>
     (BRCMF_FIRSTREAD < fr_len f \<longrightarrow> control_rdlen (fr_len f) bus + BRCMF_FIRSTREAD \<le> maxctl bus)"

lemma control_ok_cong:
  "roundup_max bus' = roundup_max bus \<Longrightarrow> blocksize bus' = blocksize bus \<Longrightarrow> head_align bus' = head_align bus \<Longrightarrow>
     maxctl bus' = maxctl bus \<Longrightarrow> rxblen bus' = rxblen bus \<Longrightarrow> control_ok bus' f = control_ok bus f"
  by (simp add: control_ok_def control_rdlen_def Let_def cong: if_cong)

definition holds_control :: "sdio_frame \<Rightarrow> 'd brcmf_sdio \<Rightarrow> bool" where
  "holds_control f bus \<longleftrightarrow>
     rxlen bus = fr_len f - unat (fr_doff f) \<and>
     (\<exists>b. rxctl bus = Some b \<and> take (rxlen bus) b = drop (unat (fr_doff f)) (frame_bytes f))"

lemma control_rdlen_ge: "len - BRCMF_FIRSTREAD \<le> control_rdlen len bus"
  by (auto simp only: control_rdlen_def Let_def le_add1 order_refl split: if_splits)

text \<open>The buffer is filled from the first bytes and the rest of the frame.\<close>

lemma read_control_fills:
  assumes q: "frame_queue ops frames" and f: "control_ok bus f" and free: "rxctl bus = None"
    and hdr: "take (min (fr_len f) 64) hdr = take 64 (frame_bytes f)" "64 \<le> length hdr"
    and front: "frames (dev (sdiodev bus)) = (if 64 < fr_len f then drop 64 (frame_bytes f) # fs else fs)"
  obtains b s where
    "brcmf_sdio_read_control ops True hdr (fr_len f) (unat (fr_doff f)) bus =
       Some (bus\<lparr>sdiodev := s, sdio_calls := sdio_calls bus @ [Vzalloc], rxctl := Some b, rxlen := fr_len f - unat (fr_doff f)\<rparr>)"
    "take (fr_len f - unat (fr_doff f)) b = drop (unat (fr_doff f)) (frame_bytes f)"
    "frames (dev s) = fs" "sd_state s = sd_state (sdiodev bus)"
proof -
  let ?l = "fr_len f" and ?d = "unat (fr_doff f)"
  have c: "?d < ?l" "maxctl bus \<le> rxblen bus" "?l \<le> rxblen bus" "64 \<le> rxblen bus"
    "64 < ?l \<Longrightarrow> control_rdlen ?l bus + 64 \<le> maxctl bus"
    using f by (simp_all add: control_ok_def)
  define buf where "buf = take 64 hdr @ replicate (rxblen bus - 64) 0"
  have buf: "bytes_at hdr 0 64 = Some (take 64 hdr)" "buf_write (replicate (rxblen bus) 0) 0 (take 64 hdr) = Some buf"
    "length buf = rxblen bus"
    using hdr(2) c(4) by (auto simp: bytes_at_def buf_write_def buf_def min_absorb2)
  show ?thesis
  proof (cases "?l \<le> 64")
    case True
    have "take ?l buf = take ?l hdr" using True hdr(2) by (simp add: buf_def min_absorb1)
    then have "take ?l buf = frame_bytes f" using True hdr(1) by (simp add: min_absorb1)
    then have "take (?l - ?d) (drop ?d buf) = drop ?d (frame_bytes f)" using c(1) by (metis drop_take)
    moreover have "brcmf_sdio_read_control ops True hdr ?l ?d bus =
        Some (bus\<lparr>sdiodev := sdiodev bus, sdio_calls := sdio_calls bus @ [Vzalloc], rxctl := Some (drop ?d buf), rxlen := ?l - ?d\<rparr>)"
      using True c(4) buf(1,2) free
      by (simp add: brcmf_sdio_read_control_def Let_def control_gotpkt_def sdio_log_def)
    ultimately show ?thesis
      using True front by (intro that [where b = "drop ?d buf" and s = "sdiodev bus"]) simp_all
  next
    case False
    define n where "n = control_rdlen ?l bus"
    have n: "?l - 64 \<le> n" "n + 64 \<le> maxctl bus"
      using control_rdlen_ge [of ?l bus] c(5) False by (simp_all add: n_def)
    obtain bs s where b: "brcmf_sdiod_recv_buf ops 2 n (sdiodev bus) = Some (Inr (take n bs), s)"
      "frame_read (round4 n) (drop 64 (frame_bytes f) # fs) bs (frames (dev s))" "sd_state s = sd_state (sdiodev bus)"
      by (rule queue_recv_buf [OF q, of n "sdiodev bus"]) (use front False in auto)
    have got: "take (?l - 64) bs = drop 64 (frame_bytes f)" "frames (dev s) = fs" "length bs = round4 n"
      using frame_read_rest [OF b(2)] n(1) False round4_bounds(1) [of n] by auto
    define buf2 where "buf2 = take 64 hdr @ take n bs @ drop (64 + n) buf"
    have len_n: "length (take n bs) = n" using got(3) round4_bounds(1) [of n] by simp
    then have w: "buf_write buf 64 (take n bs) = Some buf2"
      using n(2) c(2) buf(3) hdr(2) by (simp add: buf_write_def buf2_def) (simp add: buf_def)
    have "take ?l buf2 = take 64 hdr @ take (?l - 64) bs"
      using False hdr(2) n(1) len_n by (simp add: buf2_def min_absorb2 min_absorb1)
    also have "\<dots> = frame_bytes f"
      using hdr(1) got(1) False by (simp add: min_absorb2)
    finally have "take (?l - ?d) (drop ?d buf2) = drop ?d (frame_bytes f)" using c(1) by (metis drop_take)
    moreover have "brcmf_sdio_read_control ops True hdr ?l ?d bus =
        Some (bus\<lparr>sdiodev := s, sdio_calls := sdio_calls bus @ [Vzalloc], rxctl := Some (drop ?d buf2), rxlen := ?l - ?d\<rparr>)"
    proof -
      have same: "control_rdlen ?l (sdio_log Vzalloc bus) = n"
        by (simp add: n_def control_rdlen_def sdio_log_def Let_def cong: if_cong)
      have "?l - ?d \<le> maxctl bus" using n f by (simp add: control_ok_def)
      then show ?thesis
        using False c(4) buf(1,2) free b(1) w n(2) same
        by (simp add: brcmf_sdio_read_control_def Let_def control_gotpkt_def sdio_log_def set_sdiodev_def)
    qed
    ultimately show ?thesis using that got(2) b(3) by simp
  qed
qed

text \<open>One turn of the loop reads a control frame that was not announced, and keeps it.\<close>

definition after_control :: "sdio_frame \<Rightarrow> u8 list \<Rightarrow> 'd brcmf_sdio_dev \<Rightarrow> u8 list \<Rightarrow> 'd brcmf_sdio \<Rightarrow> 'd brcmf_sdio" where
  "after_control f hdr s buf bus =
     bus\<lparr>rxhdr := hdr, flowcontrol := fr_fc f, tx_max := window_after (tx_seq bus) (fr_wnd f),
       cur_read := (read_header (of_nat (fr_len f)) (fr_seq f) (fr_chan f) (fr_doff f) (cur_read bus))
         \<lparr>hd_len_nxtfrm := next_frame (fr_nxt f)\<rparr>,
       sdiodev := s, sdio_calls := sdio_calls bus @ [Vzalloc], rxctl := Some buf, rxlen := fr_len f - unat (fr_doff f)\<rparr>"

lemma control_header:
  assumes q: "frame_queue ops frames" and f: "control_ok bus f" and bus: "rxctl bus = None" "64 \<le> length (rxhdr bus)"
    and front: "frames (dev (sdiodev bus)) = frame_bytes f # later"
  obtains hdr s buf where
    "rx_header ops True maxf bus = Some (RxContinue, maxf, next_descriptor (after_control f hdr s buf bus))"
    "take (fr_len f - unat (fr_doff f)) buf = drop (unat (fr_doff f)) (frame_bytes f)"
    "frames (dev s) = later" "sd_state s = sd_state (sdiodev bus)" "length hdr = length (rxhdr bus)"
proof -
  let ?l = "fr_len f" and ?d = "unat (fr_doff f)"
  have c: "fr_chan f = 0" "SDPCM_HDRLEN \<le> ?d" "?d < ?l" "?l < 65536" using f by (simp_all add: control_ok_def)
  obtain bs s1 where b: "brcmf_sdiod_recv_buf ops 2 64 (sdiodev bus) = Some (Inr bs, s1)" "sd_state s1 = sd_state (sdiodev bus)"
    and bs: "length bs = 64" "take ?l bs = take 64 (frame_bytes f)"
    "frames (dev s1) = (if 64 < ?l then drop 64 (frame_bytes f) # later else later)"
    by (rule queue_first_bytes [OF q front])
  define hdr where "hdr = bs @ drop 64 (rxhdr bus)"
  have "take SDPCM_HDRLEN hdr = take SDPCM_HDRLEN (frame_bytes f)"
    using read_front [OF bs(2)] bs(1) by (simp add: hdr_def)
  note parse = parse_front [OF c(4,2) less_imp_le [OF c(3)] _ _ this]
  define bus1 where "bus1 = bus\<lparr>sdiodev := s1, rxhdr := hdr, flowcontrol := fr_fc f,
      tx_max := window_after (tx_seq bus) (fr_wnd f),
      cur_read := (read_header (of_nat ?l) (fr_seq f) (fr_chan f) (fr_doff f) (cur_read bus))\<lparr>hd_len_nxtfrm := next_frame (fr_nxt f)\<rparr>\<rparr>"
  have ok1: "control_ok bus1 f" "rxctl bus1 = None"
    using f bus(1) control_ok_cong [of bus1 bus f] by (simp_all add: bus1_def)
  have hdr64: "take (min ?l 64) hdr = take 64 (frame_bytes f)" "64 \<le> length hdr"
    using bs(1,2) by (auto simp: hdr_def min_def)
  have front1: "frames (dev (sdiodev bus1)) = (if 64 < ?l then drop 64 (frame_bytes f) # later else later)"
    using bs(3) by (simp add: bus1_def)
  obtain buf s where k: "brcmf_sdio_read_control ops True hdr ?l ?d bus1 =
      Some (bus1\<lparr>sdiodev := s, sdio_calls := sdio_calls bus1 @ [Vzalloc], rxctl := Some buf, rxlen := ?l - ?d\<rparr>)"
    "take (?l - ?d) buf = drop ?d (frame_bytes f)" "frames (dev s) = later" "sd_state s = sd_state (sdiodev bus1)"
    by (rule read_control_fills [OF q ok1 hdr64 front1])
  have "rx_header ops True maxf bus = Some (RxContinue, maxf, next_descriptor (after_control f hdr s buf bus))"
    using b(1) bs(1) bus(2) c(1,4) k(1)
    by (simp add: rx_header_def set_sdiodev_def set_rd_def buf_write_def hdr_def [symmetric] parse read_header_def Let_def
        bus1_def after_control_def unat_of_nat_u16)
  then show thesis using that k(2-4) b(2) bs(1) bus(2) by (simp add: bus1_def hdr_def)
qed

text \<open>The reader of a control frame that is held gets its bytes; the buffer is released.\<close>

lemma rxctl_delivers:
  assumes held: "holds_control f bus" and up: "sd_state (sdiodev bus) = BRCMF_SDIOD_DATA" and d: "unat (fr_doff f) < fr_len f"
  shows "brcmf_sdio_bus_rxctl msglen bus =
    Some (Inr (fr_len f - unat (fr_doff f), take msglen (drop (unat (fr_doff f)) (frame_bytes f))),
          (sdio_log Vfree bus)\<lparr>rxctl := None, rxlen := 0\<rparr>)"
proof -
  let ?n = "fr_len f - unat (fr_doff f)"
  obtain buf where buf: "rxctl bus = Some buf" "rxlen bus = ?n" "take ?n buf = drop (unat (fr_doff f)) (frame_bytes f)"
    using held by (auto simp: holds_control_def)
  have "?n \<le> length buf" using arg_cong [OF buf(3), of length] by simp
  then have "bytes_at buf 0 (min msglen ?n) = Some (take (min msglen ?n) buf)" by (simp add: bytes_at_def)
  also have "take (min msglen ?n) buf = take msglen (drop (unat (fr_doff f)) (frame_bytes f))"
    using buf(3) by (metis take_take)
  finally show ?thesis using buf(1,2) up d by (simp add: brcmf_sdio_bus_rxctl_def)
qed

text \<open>
  One turn of the receive loop on such a frame: it ends with the frame held for the reader, and
  ready for the next one.
\<close>

lemma control_turn:
  assumes q: "frame_queue ops frames" and ready: "rx_ready bus" and f: "control_ok bus f"
    and bus: "hd_len (cur_read bus) = 0" "rxctl bus = None"
    and front: "frames (dev (sdiodev bus)) = frame_bytes f # later"
  obtains bus1 where "brcmf_sdio_readframes ops back True rd0 1 bus = Some (1, bus1)"
    "frames (dev (sdiodev bus1)) = later" "holds_control f bus1" "sdio_calls bus1 = sdio_calls bus @ [Vzalloc]"
    "rx_ready bus1" "hd_len (cur_read bus1) = announces f" "\<And>g. control_ok bus1 g = control_ok bus g"
proof -
  have r: "\<not> btsdio_active bus" "64 \<le> length (rxhdr bus)" "\<not> rxskip bus" "sd_state (sdiodev bus) = BRCMF_SDIOD_DATA"
    "glomd bus = None" "glom bus = []"
    using ready by (simp_all add: rx_ready_def)
  let ?start = "(cur_read bus)\<lparr>hd_seq_num := rx_seq bus\<rparr>"
  define bus0 where "bus0 = bus\<lparr>rxpending := True, cur_read := ?start\<rparr>"
  define bus1 where "bus1 = bus0\<lparr>cur_read := ?start\<lparr>hd_len_left := 0\<rparr>\<rparr>"
  have ok1: "control_ok bus1 f" using f control_ok_cong [of bus1 bus f] by (simp add: bus1_def bus0_def)
  obtain hdr s buf where
    h: "rx_header ops True 0 bus1 = Some (RxContinue, 0, next_descriptor (after_control f hdr s buf bus1))"
    and buf: "take (fr_len f - unat (fr_doff f)) buf = drop (unat (fr_doff f)) (frame_bytes f)"
    and s: "frames (dev s) = later" "sd_state s = sd_state (sdiodev bus1)" and h': "length hdr = length (rxhdr bus1)"
    by (rule control_header [OF q ok1, where later = later]) (use bus(2) r(2) front in \<open>simp_all add: bus1_def bus0_def\<close>)
  define bus2 where "bus2 = after_control f hdr s buf bus1"
  have one: "rx_one ops back True rd0 0 [] bus0 = Some (RxContinue, 0, [], next_descriptor bus2)"
    using h r(1) bus(1) by (simp add: rx_one_def brcmf_sdio_rx_pkt_is_avail_def set_rd_def bus0_def bus1_def bus2_def)
  let ?bus3 = "set_rd (\<lambda>rd. rd\<lparr>hd_seq_num := hd_seq_num rd + 1\<rparr>) (next_descriptor bus2)"
  have "rx_loop ops back True rd0 1 0 [] bus0 = Some (0, [], ?bus3)"
    using one r(3-6) by (subst rx_loop.simps) (simp add: bus0_def rx_loop.simps [of _ _ _ _ 0])
  moreover define last_bus where "last_bus = ?bus3\<lparr>rx_seq := hd_seq_num (cur_read ?bus3)\<rparr>"
  ultimately have frames_read: "brcmf_sdio_readframes ops back True rd0 1 bus = Some (1, last_bus)"
    using r(3)
    by (simp add: brcmf_sdio_readframes_def set_rd_def sched_if_def bus0_def bus1_def bus2_def after_control_def next_descriptor_def)
  have "rx_ready last_bus" "control_ok last_bus g = control_ok bus g" for g
    using ready s(2) r(2,4) control_ok_cong [of last_bus bus g] h'
    by (simp_all add: rx_ready_def rx_config_ok_def last_bus_def set_rd_def next_descriptor_def bus2_def after_control_def bus1_def bus0_def)
  with frames_read show thesis
    using s(1) buf
    by (intro that [of last_bus])
      (simp_all add: last_bus_def set_rd_def next_descriptor_def bus2_def after_control_def bus1_def bus0_def holds_control_def announces_def)
qed

text \<open>
  C7: a control frame whose length was not announced is read by one turn of the loop, and the
  reader then gets the bytes behind the header, at most as many as it asked for, and is told how
  many there were. The one buffer that was allocated is released.
\<close>

theorem control_frame_reaches_reader:
  assumes q: "frame_queue ops frames" and ready: "rx_ready bus" and f: "control_ok bus f"
    and bus: "hd_len (cur_read bus) = 0" "rxctl bus = None"
    and front: "frames (dev (sdiodev bus)) = frame_bytes f # later"
  shows "\<exists>bus1 bus2. brcmf_sdio_readframes ops back True rd0 1 bus = Some (1, bus1) \<and>
    frames (dev (sdiodev bus1)) = later \<and> holds_control f bus1 \<and>
    brcmf_sdio_bus_rxctl msglen bus1 =
      Some (Inr (fr_len f - unat (fr_doff f), take msglen (drop (unat (fr_doff f)) (frame_bytes f))), bus2) \<and>
    rxctl bus2 = None \<and> sdio_calls bus2 = sdio_calls bus @ [Vzalloc, Vfree]"
proof -
  obtain bus1 where t: "brcmf_sdio_readframes ops back True rd0 1 bus = Some (1, bus1)" "frames (dev (sdiodev bus1)) = later"
    "holds_control f bus1" "sdio_calls bus1 = sdio_calls bus @ [Vzalloc]" "rx_ready bus1"
    by (rule control_turn [OF q ready f bus front])
  have "sd_state (sdiodev bus1) = BRCMF_SDIOD_DATA" "unat (fr_doff f) < fr_len f"
    using t(5) f by (simp_all add: rx_ready_def control_ok_def)
  from rxctl_delivers [OF t(3) this] show ?thesis using t by (auto simp: sdio_log_def)
qed

text \<open>While a frame waits for its reader another one is dropped, and its buffer released.\<close>

lemma second_control_dropped:
  assumes "rxctl bus \<noteq> None"
  shows "control_gotpkt buf len doff bus = sdio_log Vfree bus"
  using assms by (simp add: control_gotpkt_def)

text \<open>
  A frame too long for the interface: the allocation is made, but the buffer is neither kept nor
  released.
\<close>

lemma long_control_leaks:
  assumes "rxblen bus \<noteq> 0" "BRCMF_FIRSTREAD \<le> rxblen bus" "BRCMF_FIRSTREAD \<le> length hdr" "BRCMF_FIRSTREAD < len"
    and "maxctl bus < len - doff"
  shows "\<exists>bus'. brcmf_sdio_read_control ops True hdr len doff bus = Some bus' \<and>
    sdio_calls bus' = sdio_calls bus @ [Vzalloc] \<and> rxctl bus' = rxctl bus"
proof -
  have fail: "sdio_calls (brcmf_sdio_rxfail ops a b bus) = sdio_calls bus" "rxctl (brcmf_sdio_rxfail ops a b bus) = rxctl bus"
    for a b and bus :: "'a brcmf_sdio"
    by (simp_all add: brcmf_sdio_rxfail_def Let_def set_dev_def split: prod.split option.split)
  have "bytes_at hdr 0 64 = Some (take 64 hdr)" using assms(3) by (simp add: bytes_at_def)
  moreover have "\<exists>buf. buf_write (replicate (rxblen bus) 0) 0 (take 64 hdr) = Some buf"
    using assms(2,3) by (simp add: buf_write_def)
  moreover have "maxctl (sdio_log Vzalloc bus) = maxctl bus" by (simp add: sdio_log_def)
  ultimately show ?thesis
    using assms(1,4,5) fail [of _ _ "sdio_log Vzalloc bus"]
    by (auto simp: brcmf_sdio_read_control_def Let_def) (auto simp: sdio_log_def)
qed

subsection \<open>An example\<close>

theorem control_frame_reaches_reader_witness:
  "\<exists>bus1 bus2. brcmf_sdio_readframes queue_mmc (\<lambda>d. False) True fresh_hdrinfo 1
      (sample_sdio_bus [frame_bytes (sample_frame 0 0 (replicate 100 7 @ [8]))]) = Some (1, bus1) \<and>
    brcmf_sdio_bus_rxctl 2000 bus1 = Some (Inr (101, replicate 100 7 @ [8]), bus2) \<and>
    sdio_calls bus2 = [Vzalloc, Vfree]"
proof -
  let ?f = "sample_frame 0 0 (replicate 100 7 @ [8])" and ?bus = "sample_sdio_bus [frame_bytes (sample_frame 0 0 (replicate 100 7 @ [8]))]"
  have ready: "rx_ready ?bus" "hd_len (cur_read ?bus) = 0" "rxctl ?bus = None" "sdio_calls ?bus = []"
    "dev (sdiodev ?bus) = frame_bytes ?f # []"
    by (simp_all add: rx_ready_def rx_config_ok_def sample_sdio_bus_def sample_sdio_def fresh_hdrinfo_def)
  have ok: "control_ok ?bus ?f"
    by (simp add: control_ok_def sample_frame_def fr_len_def sample_sdio_bus_def control_rdlen_def)
  have f: "fr_len ?f - unat (fr_doff ?f) = 101" "drop (unat (fr_doff ?f)) (frame_bytes ?f) = replicate 100 7 @ [8]"
    by (simp_all add: sample_frame_def fr_len_def frame_bytes_def sdpcm_header_def le16_bytes_def)
  have t: "take 2000 (replicate 100 (7 :: u8) @ [8]) = replicate 100 7 @ [8]" by simp
  show ?thesis
    using control_frame_reaches_reader [OF queue_mmc_queue ready(1) ok ready(2,3,5), of "\<lambda>d. False" fresh_hdrinfo 2000]
    unfolding ready(4) f t append_Nil by blast
qed

end
