(* ===== verification/Sdio_Bcdc.thy ===== *)
theory Sdio_Bcdc
  imports Sdio_Control Bcdc
begin

section \<open>The SDIO bus under the protocol\<close>

text \<open>
  The protocol of \<open>bcdc.c\<close> takes the transfers of its bus as parameters and relies on a contract for
  the replies (\<open>frame_rx\<close>). Here the SDIO bus is shown to keep it: the reader waits while one turn of
  the receive loop reads the frame the card announced by its interrupt, and then takes it
  (\<open>brcmf_sdio_readframes\<close>, \<open>brcmf_sdio_bus_rxctl\<close>). The count it returns is the length of the whole
  frame, also where the bytes were cut to the length asked for.
\<close>

text \<open>\<open>intr\<close> says whether the card has a frame; without one the wait runs into its timeout.\<close>

definition sdio_rxctl ::
    "'d mmc_core \<Rightarrow> (u8 list \<Rightarrow> bool) \<Rightarrow> ('d \<Rightarrow> bool) \<Rightarrow> brcmf_sdio_hdrinfo \<Rightarrow> 'd brcmf_sdio rxctl" where
  "sdio_rxctl ops back intr rd0 n b =
     (let b1 = (if intr (dev (sdiodev b))
                then (case brcmf_sdio_readframes ops back True rd0 1 b of None \<Rightarrow> b | Some (_, b') \<Rightarrow> b') else b)
      in case brcmf_sdio_bus_rxctl n b1 of
           Some (Inr (len, bs), b2) \<Rightarrow> (int len, bs, b2)
         | Some (Inl e, b2) \<Rightarrow> (if e = ETIMEDOUT then - 110 else - 5, [], b2)
         | None \<Rightarrow> (- 14, [], b1))"

text \<open>The replies still to come, as the frames of the card without their headers.\<close>

definition sdio_replies :: "('d \<Rightarrow> u8 list list) \<Rightarrow> 'd brcmf_sdio \<Rightarrow> u8 list list" where
  "sdio_replies frames b = map (\<lambda>raw. drop (unat (raw ! 7)) raw) (frames (dev (sdiodev b)))"

definition sdio_waits :: "('d \<Rightarrow> u8 list list) \<Rightarrow> 'd brcmf_sdio \<Rightarrow> bool" where
  "sdio_waits frames b \<longleftrightarrow>
     rx_ready b \<and> hd_len (cur_read b) = 0 \<and> rxctl b = None \<and> rxlen b = 0 \<and>
     (\<exists>fs. frames (dev (sdiodev b)) = map frame_bytes fs \<and> (\<forall>f\<in>set fs. control_ok b f \<and> announces f = 0))"

lemma header_offset: "frame_bytes f ! 7 = fr_doff f"
  by (simp add: frame_bytes_def sdpcm_header_def le16_bytes_def)

lemma sdio_keeps_reply_contract:
  assumes q: "frame_queue ops frames"
  shows "frame_rx (sdio_waits frames) (sdio_rxctl ops back (\<lambda>d. frames d \<noteq> []) rd0) (sdio_replies frames)"
  unfolding frame_rx_def
proof (intro allI impI)
  fix n and b :: "'a brcmf_sdio"
  assume b: "sdio_waits frames b"
  then obtain fs where w: "rx_ready b" "hd_len (cur_read b) = 0" "rxctl b = None" "rxlen b = 0"
    "frames (dev (sdiodev b)) = map frame_bytes fs" "\<forall>f\<in>set fs. control_ok b f \<and> announces f = 0"
    by (auto simp: sdio_waits_def)
  show "case sdio_replies frames b of
       [] \<Rightarrow> \<exists>e b'. e < 0 \<and> sdio_rxctl ops back (\<lambda>d. frames d \<noteq> []) rd0 n b = (e, [], b')
     | f # fs \<Rightarrow> \<exists>c b'. min n (length f) \<le> c \<and> c \<le> length f \<and>
         sdio_rxctl ops back (\<lambda>d. frames d \<noteq> []) rd0 n b = (int c, take n f, b') \<and> sdio_waits frames b' \<and> sdio_replies frames b' = fs"
  proof (cases fs)
    case Nil
    then show ?thesis using w by (simp add: sdio_replies_def sdio_rxctl_def brcmf_sdio_bus_rxctl_def rx_ready_def)
  next
    case (Cons f fs')
    have f: "control_ok b f" "announces f = 0" and front: "frames (dev (sdiodev b)) = frame_bytes f # map frame_bytes fs'"
      using w(5,6) Cons by simp_all
    obtain b1 where t: "brcmf_sdio_readframes ops back True rd0 1 b = Some (1, b1)" "frames (dev (sdiodev b1)) = map frame_bytes fs'"
      "holds_control f b1" "rx_ready b1" "hd_len (cur_read b1) = 0" "\<And>g. control_ok b1 g = control_ok b g"
      by (rule control_turn [OF q w(1) f(1) w(2,3) front]) (use f(2) in auto)
    let ?d = "unat (fr_doff f)" and ?b2 = "(sdio_log Vfree b1)\<lparr>rxctl := None, rxlen := 0\<rparr>"
    have "sd_state (sdiodev b1) = BRCMF_SDIOD_DATA" "?d < fr_len f"
      using t(4) f(1) by (simp_all add: rx_ready_def control_ok_def)
    from rxctl_delivers [OF t(3) this, of n]
    have run: "sdio_rxctl ops back (\<lambda>d. frames d \<noteq> []) rd0 n b = (int (fr_len f - ?d), take n (drop ?d (frame_bytes f)), ?b2)"
      using t(1) front by (simp add: sdio_rxctl_def)
    have "control_ok ?b2 g = control_ok b g" for g
      using control_ok_cong [of ?b2 b1 g] t(6) by (simp add: sdio_log_def)
    then have "sdio_waits frames ?b2"
      using t(2,4,5) w(6) Cons by (auto simp: sdio_waits_def sdio_log_def rx_ready_def rx_config_ok_def)
    moreover have "sdio_replies frames ?b2 = map (\<lambda>raw. drop (unat (raw ! 7)) raw) (map frame_bytes fs')"
      using t(2) by (simp add: sdio_replies_def sdio_log_def)
    moreover have "sdio_replies frames b = drop ?d (frame_bytes f) # map (\<lambda>raw. drop (unat (raw ! 7)) raw) (map frame_bytes fs')"
      using front by (simp add: sdio_replies_def header_offset)
    ultimately show ?thesis using run by auto
  qed
qed

text \<open>A bus with one reply to come waits for it.\<close>

lemma sample_sdio_waits:
  "sdio_waits (\<lambda>d. d) (sample_sdio_bus [frame_bytes (sample_frame 0 0 [1, 2, 3])])"
proof -
  let ?f = "sample_frame 0 0 [1, 2, 3]" and ?b = "sample_sdio_bus [frame_bytes (sample_frame 0 0 [1, 2, 3])]"
  have "rx_ready ?b" "hd_len (cur_read ?b) = 0" "rxctl ?b = None" "rxlen ?b = 0" "dev (sdiodev ?b) = [frame_bytes ?f]"
    by (simp_all add: rx_ready_def rx_config_ok_def sample_sdio_bus_def sample_sdio_def fresh_hdrinfo_def)
  moreover have "control_ok ?b ?f" "announces ?f = 0"
    by (simp_all add: control_ok_def sample_frame_def fr_len_def sample_sdio_bus_def control_rdlen_def announces_def next_frame_def)
  ultimately show ?thesis unfolding sdio_waits_def by (intro conjI exI [of _ "[?f]"]) simp_all
qed

end
