(* ===== verification/Spec2Isabelle.thy ===== *)
theory Spec2Isabelle
  imports Chanspec Fws_Signal Rx_Reorder Msgbuf_Limits Nvram_Devices Firmware Bcdc Fweh Sdio_Glom Sdio_Bcdc
begin

text \<open>
  \<^bold>\<open>Verification of the core of the brcmfmac driver.\<close>

  The repository holds the wireless drivers and stacks of a kernel, packaged for the CYW4373E. That
  chip is driven by \<open>brcmfmac\<close>, with the library \<open>brcmutil\<close>, both under
  \<open>src/source_files/6.12.y/drivers/net/wireless/broadcom/brcm80211\<close>; they are what is modelled.
  The medium access runs in the firmware of the chip, so that the driver is the part that moves
  packets, commands and events between the network stack and the firmware: queues, credits and flow
  control on the way out, reordering and dispatch on the way in, and the start-up files.

  \<^bold>\<open>Parts and how they interact.\<close> A bus (SDIO, USB or PCIe) carries frames. On PCIe the message-buffer
  protocol (\<open>msgbuf.c\<close>) keeps a flow ring for each destination and priority (\<open>flowring.c\<close>), on rings in
  shared memory (\<open>commonring.c\<close>), and parks packets under ids until the device reports them. On SDIO and
  USB the BCDC protocol (\<open>bcdc.c\<close>) puts a header on each packet, and the firmware signalling
  (\<open>fwsignal.c\<close>) keeps packets in queues (\<open>brcmutil/utils.c\<close>), one for each station, and sends only what
  the firmware has given credits for; signals from the firmware come in front of received packets.
  Received packets of an aggregate are put in order (\<open>fwsignal.c\<close>). Commands go through
  the interface layer (\<open>fwil.c\<close>, \<open>xtlv.c\<close>) to either protocol. Events come as packets, are queued and served by
  a worker (\<open>fweh.c\<close>) that also keeps the table of interfaces (\<open>core.c\<close>). Firmware and NVRAM files are found and
  prepared by \<open>firmware.c\<close>. Channels are numbers in the form of the firmware (\<open>brcmutil/d11.c\<close>).

  \<^bold>\<open>Theories, code, and what the lemmas show.\<close>

  \<^item> \<open>Brcm_Prelude\<close>: words, bit fields (\<open>brcmu_utils.h\<close>), byte order. \<open>Fifo_Interface\<close>, \<open>Slot_Store\<close>, \<open>Ring_Index\<close>: interfaces
    as locales, a bounded queue and a table of slots, and arithmetic of ring indices; \<open>Memory\<close>: buffers as lists of bytes.
  \<^item> \<open>Pktq\<close> (\<open>brcmutil/utils.c\<close>): packet queues with precedences; well-formedness, order, priority, flushing.
  \<^item> \<open>Chanspec\<close> (\<open>brcmutil/d11.c\<close>): decoding inverts encoding, for both generations of the format.
  \<^item> \<open>Commonring\<close> (\<open>commonring.c\<close>, the index functions of \<open>pcie.c\<close>): a step relation of host and device over a ring;
    messages arrive once and in order, nothing unread is overwritten, and completing a write publishes it.
  \<^item> \<open>Fws_Hanger\<close>, \<open>Fws_State\<close>, \<open>Fws_Credit\<close>, \<open>Fws_Queue\<close>, \<open>Fws_Tx\<close>, \<open>Fws_Signal\<close> (\<open>fwsignal.c\<close>): the table of
    packets at the firmware, the state, credits and their borrowing, the queues of stations, commit and transmit status,
    and the parser of signals. Credits are conserved, tags name their packets, signals are handled one by one.
  \<^item> \<open>Rx_Reorder\<close> (\<open>fwsignal.c\<close>): reordering delivers or holds every packet once.
  \<^item> \<open>Flowring\<close> (\<open>flowring.c\<close>): the hash table of flows refines a map, for stations as for
    access points; rings and entries belong together.
  \<^item> \<open>Msgbuf_Pktid\<close>, \<open>Msgbuf_Tx\<close>, \<open>Msgbuf_Rx\<close>, \<open>Msgbuf\<close>, \<open>Msgbuf_Limits\<close> (\<open>msgbuf.c\<close>): packet ids,
    transmission, commands, completion rings, attach and detach, composed with \<open>Flowring\<close> and \<open>Commonring\<close>. Over every run of the
    stack, the workers, the device and the bus a packet is in one place; transmission keeps the order of a flow; a
    completion ring is read in one pass; what happens at the limits of the tables.
  \<^item> \<open>Nvram\<close>, \<open>Nvram_Strip\<close>, \<open>Nvram_Devices\<close>, \<open>Firmware\<close> (\<open>firmware.c\<close>): the parser of NVRAM texts ends inside its buffers, the
    image reads back as the entries; what becomes of entries for one of several devices, overflows included; the chain of
    callbacks that looks for files is a search of a list of names.
  \<^item> \<open>Fwil\<close> (\<open>fwil.c\<close>, \<open>fwil.h\<close>, \<open>xtlv.c\<close>), \<open>Bcdc\<close> (\<open>bcdc.c\<close>): requests and records read back; which reply a
    query takes for its own; headers come off as they went on.
  \<^item> \<open>Skbuff\<close>, \<open>Sdio_Dev\<close>, \<open>Sdio_Ram\<close>, \<open>Sdio_Chain\<close> (\<open>bcmsdh.c\<close>): packets with the memory around them and the transfers over
    SDIO, with the card as a parameter. Device memory reads back across windows; lists of packets go out in requests within the
    limits of the controller, of which whole blocks are transferred, and come in alike with and without scatter-gather.
  \<^item> \<open>Sdpcm\<close>, \<open>Sdio_Rx\<close>, \<open>Sdio_Frames\<close>, \<open>Sdio_Glom\<close>, \<open>Sdio_Control\<close> (\<open>sdio.c\<close>): headers of frames, the queue of packets to
    send, and how frames come in. Headers read back; what gives way in a full queue; frames, superframes and control frames reach
    the stack and the reader, in order; the receive thread keeps the order. \<open>Sdio_Bcdc\<close>: the bus keeps the contract for replies
    that the protocol relies on.
  \<^item> \<open>Iflist\<close> (\<open>core.c\<close>), \<open>Fweh\<close> (\<open>fweh.c\<close>, \<open>fweh.h\<close>): interfaces never dangle; events reach their handlers, in order.

  \<^bold>\<open>Conventions.\<close> Structures are records with the field names of the code, machine integers words of
  their width, packets in queues opaque values or lists of bytes. Pointers into tables are options or indices;
  an access outside of an array, to freed memory, or through a null pointer is \<open>None\<close>, so that a theorem that gives \<open>Some\<close>
  also says that none happens. Errors are the negative numbers of the code, or \<open>Inl\<close>. Code that is
  not in the repository, the memory allocator, the bus controller, the network stack, the firmware and the files, is
  a parameter with the laws it is known for as hypotheses. Locks are implicit: an operation that the
  code runs under a lock is one step. Numbers are little-endian on the host, as on the processors this driver runs on.

  \<^bold>\<open>Bounds and fuel.\<close> Loops that the code bounds are structural recursion with the bound of the code: two
  attempts for a reply (\<open>RETRIES\<close>), batches of 48 messages (\<open>BRCMF_MSGBUF_UPDATE_RX_PTR_THRS\<close>), the slots of a table. Loops
  without one are partial functions into \<open>option\<close>, where not returning is \<open>None\<close> as well; that they return is proved
  where it holds (\<open>nvram_parse_terminates\<close>, \<open>txflow_posts_in_order\<close>, \<open>rx_fill_accounts\<close>, \<open>events_served_in_order\<close>,
  \<open>sglist_write_requests\<close>).
  Buffers have the sizes of the code: 8192 bytes for a command, 64000 for an NVRAM text.

  \<^bold>\<open>Not modelled.\<close> Register access, interrupts and DMA of the buses (\<open>usb.c\<close>, the rest of \<open>pcie.c\<close>, \<open>bcmsdh.c\<close> and
  \<open>sdio.c\<close>), the clock and sleep states, the download of the firmware, and the start of the chip (\<open>chip.c\<close>): sequences of
  accesses to hardware, with nothing to compute. Of \<open>sdio.c\<close> also the preparation of packets for sending is missing.
  The configuration layer (\<open>cfg80211.c\<close>, \<open>p2p.c\<close>, \<open>pno.c\<close>, \<open>twt.c\<close>, \<open>btcoex.c\<close>, \<open>vendor.c\<close>) and feature detection: they fill
  in messages for the firmware and structures of the wireless stack, almost every step a call outside of
  the repository. Debugging, statistics, timers. The other drivers, the wireless and Bluetooth stacks and the
  compatibility layer, which come with the tree from other projects.
\<close>

end
